(* ===== verification/Prelude.thy ===== *)
theory Prelude
  imports Main "HOL-Library.List_Lexorder" "HOL-Library.Char_ord" "HOL-Library.Multiset"
begin

text \<open>
  What the components share: the parts of Go's standard library that the code uses, as
  executable HOL functions, and two generic contracts.

  Go strings are byte strings: \<open>string\<close> is a list of bytes here, and comparison of
  strings with \<open><\<close> is the bytewise lexicographic order (\<open>List_Lexorder\<close> over
  \<open>Char_ord\<close>). Case mapping and white space are those of ASCII; Go also maps the letters
  and spaces beyond ASCII, on which no model here relies. Go's \<open>int\<close> is \<open>int\<close>;
  \<open>wrap64\<close> is the wrap-around of a 64 bit result, used where a result can leave the range.

  \<open>strict_weak\<close> and \<open>three_way\<close> are the contracts of the comparison functions that the
  code hands to \<open>sort.Stable\<close> and \<open>slices.SortFunc\<close>; \<open>guarded_system\<close> is the contract
  of a component given as a step relation with an invariant.
\<close>

named_theorems go_simps "unfolding of the small string and integer helpers"

section \<open>Strings\<close>

definition to_lower_char :: "char \<Rightarrow> char" where
  "to_lower_char c =
     (if 65 \<le> (of_char c :: nat) \<and> (of_char c :: nat) \<le> 90 then char_of ((of_char c :: nat) + 32) else c)"

definition to_upper_char :: "char \<Rightarrow> char" where
  "to_upper_char c =
     (if 97 \<le> (of_char c :: nat) \<and> (of_char c :: nat) \<le> 122 then char_of ((of_char c :: nat) - 32) else c)"

definition to_lower :: "string \<Rightarrow> string" where
  "to_lower s = map to_lower_char s"

definition to_upper :: "string \<Rightarrow> string" where
  "to_upper s = map to_upper_char s"

definition has_prefix :: "string \<Rightarrow> string \<Rightarrow> bool" where
  "has_prefix s p \<longleftrightarrow> take (length p) s = p"

definition has_suffix :: "string \<Rightarrow> string \<Rightarrow> bool" where
  "has_suffix s p \<longleftrightarrow> length p \<le> length s \<and> drop (length s - length p) s = p"

definition trim_prefix :: "string \<Rightarrow> string \<Rightarrow> string" where
  "trim_prefix s p = (if has_prefix s p then drop (length p) s else s)"

definition trim_suffix :: "string \<Rightarrow> string \<Rightarrow> string" where
  "trim_suffix s p = (if has_suffix s p then take (length s - length p) s else s)"

definition cut_prefix :: "string \<Rightarrow> string \<Rightarrow> string option" where
  "cut_prefix s p = (if has_prefix s p then Some (drop (length p) s) else None)"

fun index_of :: "string \<Rightarrow> string \<Rightarrow> nat option" where
  "index_of [] p = (if p = [] then Some 0 else None)"
| "index_of (c # s) p = (if has_prefix (c # s) p then Some 0 else map_option Suc (index_of s p))"

definition contains_str :: "string \<Rightarrow> string \<Rightarrow> bool" where
  "contains_str s p \<longleftrightarrow> index_of s p \<noteq> None"

text \<open>\<open>strings.Cut\<close> on a one byte separator: what is before, what is after, and whether it was there.\<close>

fun cut :: "string \<Rightarrow> char \<Rightarrow> string \<times> string \<times> bool" where
  "cut [] c = ([], [], False)"
| "cut (d # s) c = (if d = c then ([], s, True) else case cut s c of (a, b, ok) \<Rightarrow> (d # a, b, ok))"

text \<open>\<open>strings.Split\<close> on a one byte separator and on a longer one.\<close>

fun split_on :: "char \<Rightarrow> string \<Rightarrow> string list" where
  "split_on c [] = [[]]"
| "split_on c (d # s) =
     (if d = c then [] # split_on c s
      else case split_on c s of [] \<Rightarrow> [[d]] | x # xs \<Rightarrow> (d # x) # xs)"

function split_str :: "string \<Rightarrow> string \<Rightarrow> string list" where
  "split_str s p =
     (case index_of s p of
        None \<Rightarrow> [s]
      | Some i \<Rightarrow> if p = [] then [s] else take i s # split_str (drop (i + length p) s) p)"
  by pat_completeness auto

lemma index_of_bound: "index_of s p = Some i \<Longrightarrow> i + length p \<le> length s"
proof (induction s arbitrary: i)
  case Nil
  then show ?case by (auto split: if_splits)
next
  case (Cons c s)
  have "take (length p) (c # s) = p \<Longrightarrow> length p \<le> length (c # s)"
    by (metis length_take min.cobounded1)
  with Cons show ?case
    by (fastforce simp: has_prefix_def split: if_splits)
qed

termination split_str
proof (relation "measure (\<lambda>(s, p). length s)")
  show "((drop (i + length p) s, p), s, p) \<in> measure (\<lambda>(s, p). length s)"
    if "index_of s p = Some i" and "p \<noteq> []" for s p i
    using index_of_bound [OF that(1)] that(2) by (cases s; cases p) auto
qed simp

declare split_str.simps [simp del]

fun go_join :: "string \<Rightarrow> string list \<Rightarrow> string" where
  "go_join sep [] = []"
| "go_join sep [x] = x"
| "go_join sep (x # y # xs) = x @ sep @ go_join sep (y # xs)"

definition is_space :: "char \<Rightarrow> bool" where
  "is_space c \<longleftrightarrow> (of_char c :: nat) \<in> {9, 10, 11, 12, 13, 32}"

definition trim_right :: "(char \<Rightarrow> bool) \<Rightarrow> string \<Rightarrow> string" where
  "trim_right f s = rev (dropWhile f (rev s))"

definition trim_func :: "(char \<Rightarrow> bool) \<Rightarrow> string \<Rightarrow> string" where
  "trim_func f s = trim_right f (dropWhile f s)"

definition trim_space :: "string \<Rightarrow> string" where
  "trim_space s = trim_func is_space s"

lemma has_prefix_append [simp]: "has_prefix (p @ s) p"
  by (simp add: has_prefix_def)

lemma has_prefix_iff: "has_prefix s p \<longleftrightarrow> (\<exists>t. s = p @ t)"
  by (metis append_eq_conv_conj append_take_drop_id has_prefix_def)

lemma trim_prefix_append [simp]: "trim_prefix (p @ s) p = s"
  by (simp add: trim_prefix_def)

lemma cut_prefix_append [simp]: "cut_prefix (p @ s) p = Some s"
  by (simp add: cut_prefix_def)

lemma cut_prefix_SomeD: "cut_prefix s p = Some t \<Longrightarrow> s = p @ t"
  by (auto simp: cut_prefix_def has_prefix_iff split: if_splits)

lemma cut_notin [simp]: "c \<notin> set s \<Longrightarrow> cut s c = (s, [], False)"
  by (induction s) auto

lemma cut_append [simp]: "c \<notin> set a \<Longrightarrow> cut (a @ c # b) c = (a, b, True)"
  by (induction a) auto

lemma cut_True_iff: "snd (snd (cut s c)) \<longleftrightarrow> c \<in> set s"
  by (induction s) (auto split: prod.splits)

lemma cut_spec:
  "cut s c = (a, b, ok) \<Longrightarrow> c \<notin> set a \<and> (if ok then s = a @ c # b else s = a \<and> b = [])"
proof (induction s arbitrary: a)
  case Nil
  then show ?case by auto
next
  case (Cons d s)
  then show ?case by (auto split: if_splits prod.splits)
qed

lemma split_on_ne [simp]: "split_on c s \<noteq> []"
  by (induction s) (auto split: list.splits)

lemma split_on_notin [simp]: "c \<notin> set s \<Longrightarrow> split_on c s = [s]"
  by (induction s) auto

lemma split_on_append [simp]: "c \<notin> set a \<Longrightarrow> split_on c (a @ c # b) = a # split_on c b"
  by (induction a) auto

lemma join_split_on: "go_join [c] (split_on c s) = s"
proof (induction s)
  case Nil
  then show ?case by simp
next
  case (Cons d s)
  then show ?case
    by (cases "split_on c s"; cases "tl (split_on c s)") auto
qed

lemma split_on_join:
  "xs \<noteq> [] \<Longrightarrow> \<forall>x \<in> set xs. c \<notin> set x \<Longrightarrow> split_on c (go_join [c] xs) = xs"
  by (induction xs rule: induct_list012) auto

lemma split_on_parts: "\<forall>x \<in> set (split_on c s). c \<notin> set x"
  by (induction s) (auto split: list.splits)

lemma length_to_lower [simp]: "length (to_lower s) = length s"
  by (simp add: to_lower_def)

lemma length_to_upper [simp]: "length (to_upper s) = length s"
  by (simp add: to_upper_def)

lemma to_lower_char_idem [simp]: "to_lower_char (to_lower_char c) = to_lower_char c"
  by (simp add: to_lower_char_def)

lemma to_lower_idem [simp]: "to_lower (to_lower s) = to_lower s"
  by (simp add: to_lower_def)

section \<open>Integers\<close>

definition wrap64 :: "int \<Rightarrow> int" where
  "wrap64 x = (x + 2 ^ 63) mod 2 ^ 64 - 2 ^ 63"

definition is_digit :: "char \<Rightarrow> bool" where
  "is_digit c \<longleftrightarrow> 48 \<le> (of_char c :: nat) \<and> (of_char c :: nat) \<le> 57"

definition digit_val :: "char \<Rightarrow> int" where
  "digit_val c = int (of_char c) - 48"

fun digits_val :: "int \<Rightarrow> string \<Rightarrow> int" where
  "digits_val acc [] = acc"
| "digits_val acc (c # s) = digits_val (10 * acc + digit_val c) s"

text \<open>\<open>strconv.Atoi\<close>: an optional sign, at least one digit, and a value that fits 64 bits.\<close>

definition atoi :: "string \<Rightarrow> int option" where
  "atoi s =
     (let (neg, ds) = (case s of [] \<Rightarrow> (False, [])
                        | c # t \<Rightarrow> if c = CHR ''-'' then (True, t) else if c = CHR ''+'' then (False, t) else (False, s));
          v = digits_val 0 ds; r = (if neg then - v else v)
      in if ds = [] \<or> \<not> list_all is_digit ds then None
         else if - (2 ^ 63) \<le> r \<and> r < 2 ^ 63 then Some r else None)"

text \<open>\<open>strconv.Itoa\<close>.\<close>

fun nat_digits :: "nat \<Rightarrow> string" where
  "nat_digits n = (if n < 10 then [char_of (48 + n)] else nat_digits (n div 10) @ [char_of (48 + n mod 10)])"

declare nat_digits.simps [simp del]

definition itoa :: "int \<Rightarrow> string" where
  "itoa n = (if n < 0 then CHR ''-'' # nat_digits (nat (- n)) else nat_digits (nat n))"

lemma wrap64_id: "- (2 ^ 63) \<le> x \<Longrightarrow> x < 2 ^ 63 \<Longrightarrow> wrap64 x = x"
  by (simp add: wrap64_def)

lemma wrap64_range: "- (2 ^ 63) \<le> wrap64 x \<and> wrap64 x < 2 ^ 63"
proof -
  have "0 \<le> (x + 2 ^ 63) mod 2 ^ 64" and "(x + 2 ^ 63) mod 2 ^ 64 < (2 ^ 64 :: int)"
    by simp_all
  then show ?thesis unfolding wrap64_def by (simp del: pos_mod_bound pos_mod_sign)
qed

lemma digits_val_append: "digits_val acc (s @ t) = digits_val (digits_val acc s) t"
  by (induction s arbitrary: acc) auto

lemma of_char_digit: "n < 10 \<Longrightarrow> (of_char (char_of (48 + n)) :: nat) = 48 + n"
  by simp

lemma nat_digits_val: "digits_val 0 (nat_digits n) = int n"
proof (induction n rule: nat_digits.induct)
  case (1 n)
  show ?case
  proof (cases "n < 10")
    case True
    then show ?thesis by (simp add: nat_digits.simps [of n] digit_val_def)
  next
    case False
    with 1 have "digits_val 0 (nat_digits (n div 10)) = int (n div 10)" by simp
    with False show ?thesis
      by (simp add: nat_digits.simps [of n] digits_val_append digit_val_def)
        (metis of_nat_add of_nat_mult of_nat_numeral mult_div_mod_eq)
  qed
qed

lemma nat_digits_are_digits: "list_all is_digit (nat_digits n)"
proof (induction n rule: nat_digits.induct)
  case (1 n)
  then show ?case
    by (cases "n < 10") (simp_all add: nat_digits.simps [of n] is_digit_def)
qed

lemma nat_digits_ne: "nat_digits n \<noteq> []"
  by (simp add: nat_digits.simps [of n])

lemma digit_not_sign: "is_digit c \<Longrightarrow> c \<noteq> CHR ''-'' \<and> c \<noteq> CHR ''+''"
  by (auto simp: is_digit_def)

lemma atoi_itoa:
  assumes "- (2 ^ 63) \<le> n" and "n < 2 ^ 63"
  shows "atoi (itoa n) = Some n"
proof (cases "n < 0")
  case True
  with assms show ?thesis
    by (simp add: atoi_def itoa_def nat_digits_val nat_digits_are_digits nat_digits_ne)
next
  case False
  obtain c t where ct: "nat_digits (nat n) = c # t"
    using nat_digits_ne by (cases "nat_digits (nat n)") auto
  with nat_digits_are_digits [of "nat n"] have "is_digit c" by simp
  then have "c \<noteq> CHR ''-'' \<and> c \<noteq> CHR ''+''" by (rule digit_not_sign)
  with False assms ct nat_digits_val [of "nat n"] nat_digits_are_digits [of "nat n"] show ?thesis
    by (simp add: atoi_def itoa_def)
qed

lemma atoi_range: "atoi s = Some n \<Longrightarrow> - (2 ^ 63) \<le> n \<and> n < 2 ^ 63"
  by (auto simp: atoi_def Let_def split: prod.splits if_splits)

lemma atoi_Nil [simp]: "atoi [] = None"
  by (simp add: atoi_def)

lemma itoa_chars: "c \<in> set (itoa n) \<Longrightarrow> is_digit c \<or> c = CHR ''-''"
  using nat_digits_are_digits by (auto simp: itoa_def list_all_iff split: if_splits)

lemma itoa_ne [simp]: "itoa n \<noteq> []"
  by (simp add: itoa_def nat_digits_ne)

lemma itoa_no_colon: "CHR '':'' \<notin> set (itoa n)"
  using itoa_chars by (fastforce simp: is_digit_def)

lemma itoa_inj: "itoa a = itoa b \<Longrightarrow> a = b"
proof -
  assume eq: "itoa a = itoa b"
  have sign: "(n < 0) = (hd (itoa n) = CHR ''-'')" for n
    using nat_digits_are_digits [of "nat n"] nat_digits_ne [of "nat n"]
    by (cases "nat_digits (nat n)") (auto simp: itoa_def is_digit_def)
  have "(a < 0) = (b < 0)" using eq sign by metis
  with eq have "nat_digits (nat \<bar>a\<bar>) = nat_digits (nat \<bar>b\<bar>)"
    by (auto simp: itoa_def split: if_splits)
  then have "int (nat \<bar>a\<bar>) = int (nat \<bar>b\<bar>)" by (metis nat_digits_val)
  with \<open>(a < 0) = (b < 0)\<close> show "a = b" by (auto split: if_splits)
qed

text \<open>Numbers padded with zeros, as in the formats of \<open>time\<close>.\<close>

definition digit_char :: "nat \<Rightarrow> char" where
  "digit_char n = char_of (48 + n mod 10)"

text \<open>The last \<open>k\<close> digits, zeros in front.\<close>

fun pad_digits :: "nat \<Rightarrow> nat \<Rightarrow> string" where
  "pad_digits 0 n = []"
| "pad_digits (Suc k) n = pad_digits k (n div 10) @ [digit_char n]"

lemma is_digit_digit_char [simp]: "is_digit (digit_char n)"
proof -
  have "n mod 10 < 10" by simp
  then have "48 + n mod 10 < 256" by linarith
  with \<open>n mod 10 < 10\<close> show ?thesis by (simp add: is_digit_def digit_char_def)
qed

lemma digit_val_digit_char [simp]: "digit_val (digit_char n) = int (n mod 10)"
proof -
  have "n mod 10 < 10" by simp
  then have "48 + n mod 10 < 256" by linarith
  then show ?thesis by (simp add: digit_val_def digit_char_def)
qed

lemma length_pad_digits [simp]: "length (pad_digits k n) = k"
  by (induction k arbitrary: n) auto

lemma digits_val_pad: "n < 10 ^ k \<Longrightarrow> digits_val 0 (pad_digits k n) = int n"
proof (induction k arbitrary: n)
  case (Suc k)
  then have "n div 10 < 10 ^ k" by (simp add: less_mult_imp_div_less mult.commute)
  from Suc.IH [OF this] have "digits_val 0 (pad_digits (Suc k) n) = 10 * int (n div 10) + int (n mod 10)"
    by (simp add: digits_val_append)
  also have "\<dots> = int n" by (metis mult_div_mod_eq of_nat_add of_nat_mult of_nat_numeral)
  finally show ?case .
qed simp

lemma pad_digits_are_digits: "list_all is_digit (pad_digits k n)"
  by (induction k arbitrary: n) auto

section \<open>Optional items\<close>

text \<open>The items that are there (not nil).\<close>

fun somes :: "'a option list \<Rightarrow> 'a list" where
  "somes [] = []"
| "somes (None # xs) = somes xs"
| "somes (Some x # xs) = x # somes xs"

lemma somes_map_Some [simp]: "somes (map Some xs) = xs"
  by (induction xs) auto

lemma somes_append [simp]: "somes (xs @ ys) = somes xs @ somes ys"
  by (induction xs rule: somes.induct) auto

lemma distinct_set_singleton: "distinct xs \<Longrightarrow> set xs = {a} \<Longrightarrow> xs = [a]"
  by (cases xs; cases "tl xs") auto

section \<open>Sorting with a comparison function\<close>

text \<open>
  \<open>insertionSort\<close> of Go's \<open>sort\<close> package, which \<open>sort.Stable\<close> runs on blocks of 20 elements
  and \<open>slices.SortFunc\<close> on slices of at most 12: each element in turn is swapped to the left
  while it is less than its left neighbour. \<open>sink\<close> is the inner loop, on the sorted part
  read from right to left. For a strict weak order the result is the only stable one
  (\<open>stable_sort_unique\<close> below), so it is also what the merging of the blocks gives.
\<close>

fun sink :: "('a \<Rightarrow> 'a \<Rightarrow> bool) \<Rightarrow> 'a \<Rightarrow> 'a list \<Rightarrow> 'a list" where
  "sink lt x [] = [x]"
| "sink lt x (y # ys) = (if lt x y then y # sink lt x ys else x # y # ys)"

definition go_stable_sort :: "('a \<Rightarrow> 'a \<Rightarrow> bool) \<Rightarrow> 'a list \<Rightarrow> 'a list" where
  "go_stable_sort lt xs = rev (foldl (\<lambda>acc x. sink lt x acc) [] xs)"

definition cmp_less :: "('a \<Rightarrow> 'a \<Rightarrow> int) \<Rightarrow> 'a \<Rightarrow> 'a \<Rightarrow> bool" where
  "cmp_less cmp x y \<longleftrightarrow> cmp x y < 0"

lemma mset_sink [simp]: "mset (sink lt x ys) = add_mset x (mset ys)"
  by (induction ys) auto

lemma set_sink [simp]: "set (sink lt x ys) = insert x (set ys)"
  by (induction ys) auto

lemma mset_foldl_sink: "mset (foldl (\<lambda>acc x. sink lt x acc) acc xs) = mset acc + mset xs"
  by (induction xs arbitrary: acc) auto

lemma mset_go_stable_sort [simp]: "mset (go_stable_sort lt xs) = mset xs"
  by (simp add: go_stable_sort_def mset_foldl_sink)

lemma set_go_stable_sort [simp]: "set (go_stable_sort lt xs) = set xs"
  by (metis mset_go_stable_sort set_mset_mset)

lemma length_go_stable_sort [simp]: "length (go_stable_sort lt xs) = length xs"
  by (metis mset_go_stable_sort size_mset)

lemma go_stable_sort_Nil [simp]: "go_stable_sort lt [] = []"
  by (simp add: go_stable_sort_def)

locale strict_weak =
  fixes lt :: "'a \<Rightarrow> 'a \<Rightarrow> bool" and P :: "'a \<Rightarrow> bool"
  assumes asym: "P x \<Longrightarrow> P y \<Longrightarrow> lt x y \<Longrightarrow> \<not> lt y x"
    and neg_trans: "P x \<Longrightarrow> P y \<Longrightarrow> P z \<Longrightarrow> \<not> lt x y \<Longrightarrow> \<not> lt y z \<Longrightarrow> \<not> lt x z"
begin

lemma irrefl: "P x \<Longrightarrow> \<not> lt x x"
  using asym by blast

lemma less_trans: "P x \<Longrightarrow> P y \<Longrightarrow> P z \<Longrightarrow> lt x y \<Longrightarrow> lt y z \<Longrightarrow> lt x z"
  using asym neg_trans by blast

lemma sink_sorted:
  "\<forall>y \<in> set ys. P y \<Longrightarrow> P x \<Longrightarrow> sorted_wrt (\<lambda>a b. \<not> lt a b) ys
    \<Longrightarrow> sorted_wrt (\<lambda>a b. \<not> lt a b) (sink lt x ys)"
proof (induction ys)
  case Nil
  then show ?case by simp
next
  case (Cons y ys)
  then show ?case
    by (auto dest: asym) (metis neg_trans)
qed

lemma foldl_sink_sorted:
  "\<forall>y \<in> set acc \<union> set xs. P y \<Longrightarrow> sorted_wrt (\<lambda>a b. \<not> lt a b) acc
    \<Longrightarrow> sorted_wrt (\<lambda>a b. \<not> lt a b) (foldl (\<lambda>acc x. sink lt x acc) acc xs)"
  by (induction xs arbitrary: acc) (auto simp: sink_sorted)

lemma stable_sort_sorted:
  "\<forall>x \<in> set xs. P x \<Longrightarrow> sorted_wrt (\<lambda>a b. \<not> lt b a) (go_stable_sort lt xs)"
  using foldl_sink_sorted [of "[]" xs]
  by (simp add: go_stable_sort_def sorted_wrt_rev)

lemma sink_stable:
  assumes "\<forall>z \<in> set ys. P z" and "P x" and "P y"
  shows "filter (\<lambda>z. \<not> lt y z \<and> \<not> lt z y) (sink lt x ys)
    = filter (\<lambda>z. \<not> lt y z \<and> \<not> lt z y) (x # ys)"
  using assms
proof (induction ys)
  case Nil
  then show ?case by simp
next
  case (Cons z ys)
  have "\<not> (lt x z \<and> \<not> lt y x \<and> \<not> lt x y \<and> \<not> lt y z \<and> \<not> lt z y)"
    using Cons.prems neg_trans [of x y z] by auto
  with Cons show ?case by auto
qed

lemma foldl_sink_stable:
  assumes "\<forall>z \<in> set acc \<union> set xs. P z" and "P y"
  shows "filter (\<lambda>z. \<not> lt y z \<and> \<not> lt z y) (foldl (\<lambda>acc x. sink lt x acc) acc xs)
    = rev (filter (\<lambda>z. \<not> lt y z \<and> \<not> lt z y) xs) @ filter (\<lambda>z. \<not> lt y z \<and> \<not> lt z y) acc"
  using assms
proof (induction xs arbitrary: acc)
  case Nil
  then show ?case by simp
next
  case (Cons x xs)
  have "\<forall>z \<in> set (sink lt x acc) \<union> set xs. P z" using Cons.prems(1) by auto
  from Cons.IH [OF this Cons.prems(2)] Cons.prems show ?case
    by (simp add: sink_stable)
qed

lemma stable_sort_stable:
  "\<forall>x \<in> set xs. P x \<Longrightarrow> P y \<Longrightarrow>
     filter (\<lambda>z. \<not> lt y z \<and> \<not> lt z y) (go_stable_sort lt xs)
       = filter (\<lambda>z. \<not> lt y z \<and> \<not> lt z y) xs"
  using foldl_sink_stable [of "[]" xs y]
  by (simp add: go_stable_sort_def flip: rev_filter)

text \<open>The stable sorted arrangement of a list is unique.\<close>

lemma sorted_stable_unique:
  assumes "\<forall>x \<in> set xs. P x" and "\<forall>x \<in> set ys. P x"
    and "sorted_wrt (\<lambda>a b. \<not> lt b a) xs" and "sorted_wrt (\<lambda>a b. \<not> lt b a) ys"
    and "\<And>y. P y \<Longrightarrow> filter (\<lambda>z. \<not> lt y z \<and> \<not> lt z y) xs = filter (\<lambda>z. \<not> lt y z \<and> \<not> lt z y) ys"
  shows "xs = ys"
  using assms
proof (induction xs arbitrary: ys)
  case Nil
  have "ys = []"
  proof (rule ccontr)
    assume "ys \<noteq> []"
    then obtain y ys' where ys: "ys = y # ys'" by (cases ys) auto
    with Nil.prems(2) have y: "P y" by simp
    from Nil.prems(5) [OF y] ys irrefl [OF y] show False by simp
  qed
  then show ?case by simp
next
  case (Cons x xs)
  have x: "P x" using Cons.prems(1) by simp
  from Cons.prems(5) [OF x] irrefl [OF x] have "ys \<noteq> []" by (cases ys) auto
  then obtain y ys' where ys: "ys = y # ys'" by (cases ys) auto
  have y: "P y" using Cons.prems(2) ys by simp
  have "x \<in> set (filter (\<lambda>z. \<not> lt x z \<and> \<not> lt z x) ys)"
    using Cons.prems(5) [OF x] irrefl [OF x] by (metis (no_types, lifting) filter.simps(2) list.set_intros(1))
  then have "x \<in> set ys" by simp
  then have xy: "\<not> lt x y" using Cons.prems(4) ys irrefl [OF x] by auto
  have "y \<in> set (filter (\<lambda>z. \<not> lt y z \<and> \<not> lt z y) (x # xs))"
    using Cons.prems(5) [OF y] irrefl [OF y] ys by simp
  then have "y \<in> set (x # xs)" by (simp del: filter.simps)
  then have yx: "\<not> lt y x" using Cons.prems(3) irrefl [OF x] by auto
  have eq: "x = y" using Cons.prems(5) [OF x] ys irrefl [OF x] xy yx by simp
  have "xs = ys'"
  proof (rule Cons.IH)
    show "filter (\<lambda>z. \<not> lt u z \<and> \<not> lt z u) xs = filter (\<lambda>z. \<not> lt u z \<and> \<not> lt z u) ys'" if "P u" for u
      using Cons.prems(5) [OF that] ys eq by (simp split: if_splits)
  qed (use Cons.prems ys in auto)
  with eq ys show ?case by simp
qed

lemma stable_sort_unique:
  assumes "\<forall>x \<in> set xs. P x" and "mset ys = mset xs"
    and "sorted_wrt (\<lambda>a b. \<not> lt b a) ys"
    and "\<And>y. P y \<Longrightarrow> filter (\<lambda>z. \<not> lt y z \<and> \<not> lt z y) ys = filter (\<lambda>z. \<not> lt y z \<and> \<not> lt z y) xs"
  shows "ys = go_stable_sort lt xs"
proof (rule sorted_stable_unique)
  show "\<forall>x \<in> set ys. P x" using assms(1,2) by (metis mset_eq_setD)
qed (use assms stable_sort_sorted stable_sort_stable in auto)

end

text \<open>A three way comparison: an integer whose sign orders the arguments.\<close>

locale three_way =
  fixes cmp :: "'a \<Rightarrow> 'a \<Rightarrow> int" and P :: "'a \<Rightarrow> bool"
  assumes anti: "P x \<Longrightarrow> P y \<Longrightarrow> cmp x y < 0 \<Longrightarrow> 0 < cmp y x"
    and le_trans: "P x \<Longrightarrow> P y \<Longrightarrow> P z \<Longrightarrow> 0 \<le> cmp x y \<Longrightarrow> 0 \<le> cmp y z \<Longrightarrow> 0 \<le> cmp x z"

sublocale three_way \<subseteq> sw: strict_weak "cmp_less cmp" P
proof
  show "\<not> cmp_less cmp y x" if "P x" "P y" "cmp_less cmp x y" for x y
    using anti [OF that(1,2)] that(3) by (simp add: cmp_less_def)
  show "\<not> cmp_less cmp x z" if "P x" "P y" "P z" "\<not> cmp_less cmp x y" "\<not> cmp_less cmp y z" for x y z
    using le_trans [OF that(1-3)] that(4,5) by (simp add: cmp_less_def not_less)
qed

section \<open>Step relations\<close>

inductive reachable :: "('s \<Rightarrow> bool) \<Rightarrow> ('s \<Rightarrow> 'e \<Rightarrow> 's \<Rightarrow> bool) \<Rightarrow> 's \<Rightarrow> bool"
  for init :: "'s \<Rightarrow> bool" and step :: "'s \<Rightarrow> 'e \<Rightarrow> 's \<Rightarrow> bool" where
  reach_init: "init s \<Longrightarrow> reachable init step s"
| reach_step: "reachable init step s \<Longrightarrow> step s e t \<Longrightarrow> reachable init step t"

locale guarded_system =
  fixes init :: "'s \<Rightarrow> bool" and step :: "'s \<Rightarrow> 'e \<Rightarrow> 's \<Rightarrow> bool" and inv :: "'s \<Rightarrow> bool"
  assumes inv_init: "init s \<Longrightarrow> inv s"
    and inv_step: "inv s \<Longrightarrow> step s e t \<Longrightarrow> inv t"
begin

lemma reachable_inv: "reachable init step s \<Longrightarrow> inv s"
  by (induction rule: reachable.induct) (auto intro: inv_init inv_step)

end

end
