(* ===== verification/Core_Error.thy ===== *)
theory Core_Error
  imports Prelude
begin

text \<open>
  \<open>core/error.go\<close>, \<open>internal/shared/error.go\<close> and \<open>store/error.go\<close>: the error value that every
  handler sends, its tables of codes and status codes, and \<open>Pack\<close>, which completes a
  partly filled error before it is written to the response.

  An unset string field is the empty string and an unset status is 0, as in Go. A \<open>cause\<close> is
  the text its \<open>Error()\<close> method gives. A request carries what the code reads of it: the
  first value of each header, the method and the path.
\<close>

named_theorems error_consts "the string constants of core/error.go"

type_synonym error_type = string
type_synonym error_code = string

definition ErrorTypeAPI :: error_type where
  [error_consts]: "ErrorTypeAPI = ''api_error''"

definition ErrorTypeStore :: error_type where
  [error_consts]: "ErrorTypeStore = ''store_error''"

definition ErrorTypeUpstream :: error_type where
  [error_consts]: "ErrorTypeUpstream = ''upstream_error''"

definition ErrorTypeUnknown :: error_type where
  [error_consts]: "ErrorTypeUnknown = ''unknown_error''"

definition ErrorCodeUnknown :: error_code where
  [error_consts]: "ErrorCodeUnknown = ''UNKNOWN''"

definition ErrorCodeBadGateway :: error_code where
  [error_consts]: "ErrorCodeBadGateway = ''BAD_GATEWAY''"

definition ErrorCodeBadRequest :: error_code where
  [error_consts]: "ErrorCodeBadRequest = ''BAD_REQUEST''"

definition ErrorCodeConflict :: error_code where
  [error_consts]: "ErrorCodeConflict = ''CONFLICT''"

definition ErrorCodeForbidden :: error_code where
  [error_consts]: "ErrorCodeForbidden = ''FORBIDDEN''"

definition ErrorCodeGone :: error_code where
  [error_consts]: "ErrorCodeGone = ''GONE''"

definition ErrorCodeInternalServerError :: error_code where
  [error_consts]: "ErrorCodeInternalServerError = ''INTERNAL_SERVER_ERROR''"

definition ErrorCodeMethodNotAllowed :: error_code where
  [error_consts]: "ErrorCodeMethodNotAllowed = ''METHOD_NOT_ALLOWED''"

definition ErrorCodeNotFound :: error_code where
  [error_consts]: "ErrorCodeNotFound = ''NOT_FOUND''"

definition ErrorCodeNotImplemented :: error_code where
  [error_consts]: "ErrorCodeNotImplemented = ''NOT_IMPLEMENTED''"

definition ErrorCodePaymentRequired :: error_code where
  [error_consts]: "ErrorCodePaymentRequired = ''PAYMENT_REQUIRED''"

definition ErrorCodeProxyAuthenticationRequired :: error_code where
  [error_consts]: "ErrorCodeProxyAuthenticationRequired = ''PROXY_AUTHENTICATION_REQUIRED''"

definition ErrorCodeServiceUnavailable :: error_code where
  [error_consts]: "ErrorCodeServiceUnavailable = ''SERVICE_UNAVAILABLE''"

definition ErrorCodeTooManyRequests :: error_code where
  [error_consts]: "ErrorCodeTooManyRequests = ''TOO_MANY_REQUESTS''"

definition ErrorCodeUnauthorized :: error_code where
  [error_consts]: "ErrorCodeUnauthorized = ''UNAUTHORIZED''"

definition ErrorCodeUnavailableForLegalReasons :: error_code where
  [error_consts]: "ErrorCodeUnavailableForLegalReasons = ''UNAVAILABLE_FOR_LEGAL_REASONS''"

definition ErrorCodeUnprocessableEntity :: error_code where
  [error_consts]: "ErrorCodeUnprocessableEntity = ''UNPROCESSABLE_ENTITY''"

definition ErrorCodeUnsupportedMediaType :: error_code where
  [error_consts]: "ErrorCodeUnsupportedMediaType = ''UNSUPPORTED_MEDIA_TYPE''"

definition ErrorCodeStoreLimitExceeded :: error_code where
  [error_consts]: "ErrorCodeStoreLimitExceeded = ''STORE_LIMIT_EXCEEDED''"

definition ErrorCodeStoreMagnetInvalid :: error_code where
  [error_consts]: "ErrorCodeStoreMagnetInvalid = ''STORE_MAGNET_INVALID''"

definition ErrorCodeStoreNameInvalid :: error_code where
  [error_consts]: "ErrorCodeStoreNameInvalid = ''STORE_NAME_INVALID''"

section \<open>The error value\<close>

record st_error =
  RequestId :: string
  EType :: error_type
  ECode :: error_code
  Msg :: string
  EMethod :: string
  EPath :: string
  StatusCode :: int
  EStoreName :: string
  UpstreamCause :: "string option"
  Cause :: "string option"

record http_request =
  rq_header :: "string \<Rightarrow> string"
  rq_method :: string
  rq_path :: string

definition empty_error :: st_error where
  "empty_error = \<lparr>RequestId = [], EType = [], ECode = [], Msg = [], EMethod = [], EPath = [],
     StatusCode = 0, EStoreName = [], UpstreamCause = None, Cause = None\<rparr>"

text \<open>\<open>LogValue\<close>: the attributes of the log line, in order, unset fields left out.\<close>

datatype log_attr = StringAttr string string | IntAttr string int | AnyAttr string string

definition LogValue :: "st_error \<Rightarrow> log_attr list" where
  "LogValue e =
     (if EType e \<noteq> [] then [StringAttr ''type'' (EType e)] else [])
   @ (if ECode e \<noteq> [] then [StringAttr ''code'' (ECode e)] else [])
   @ (if Msg e \<noteq> [] then [StringAttr ''message'' (Msg e)] else [])
   @ (if EMethod e \<noteq> [] then [StringAttr ''method'' (EMethod e)] else [])
   @ (if EPath e \<noteq> [] then [StringAttr ''path'' (EPath e)] else [])
   @ (if StatusCode e \<noteq> 0 then [IntAttr ''status_code'' (StatusCode e)] else [])
   @ (if EStoreName e \<noteq> [] then [StringAttr ''store_name'' (EStoreName e)] else [])
   @ (case UpstreamCause e of None \<Rightarrow> [] | Some c \<Rightarrow> [AnyAttr ''upstream_cause'' c])
   @ (case Cause e of None \<Rightarrow> [] | Some c \<Rightarrow> [AnyAttr ''cause'' c])"

definition WithCause :: "st_error \<Rightarrow> string option \<Rightarrow> st_error" where
  "WithCause e c = e\<lparr>Cause := c\<rparr>"

definition InjectReq :: "st_error \<Rightarrow> http_request option \<Rightarrow> st_error" where
  "InjectReq e r =
     (case r of
        None \<Rightarrow> e
      | Some r \<Rightarrow>
          let e1 = e\<lparr>RequestId := rq_header r ''Request-ID'', EMethod := rq_method r, EPath := rq_path r\<rparr>;
              storeName = rq_header r ''X-StremThru-Store-Name''
          in if storeName \<noteq> [] then e1\<lparr>EStoreName := storeName\<rparr> else e1)"

definition errorCodeByStatusCode :: "(int \<times> error_code) list" where
  "errorCodeByStatusCode =
    [(502, ErrorCodeBadGateway),
     (400, ErrorCodeBadRequest),
     (409, ErrorCodeConflict),
     (403, ErrorCodeForbidden),
     (410, ErrorCodeGone),
     (500, ErrorCodeInternalServerError),
     (405, ErrorCodeMethodNotAllowed),
     (404, ErrorCodeNotFound),
     (501, ErrorCodeNotImplemented),
     (402, ErrorCodePaymentRequired),
     (407, ErrorCodeProxyAuthenticationRequired),
     (503, ErrorCodeServiceUnavailable),
     (429, ErrorCodeTooManyRequests),
     (401, ErrorCodeUnauthorized),
     (451, ErrorCodeUnavailableForLegalReasons),
     (422, ErrorCodeUnprocessableEntity),
     (415, ErrorCodeUnsupportedMediaType)]"

definition statusCodeByErrorCode :: "(error_code \<times> int) list" where
  "statusCodeByErrorCode =
    [(ErrorCodeBadGateway, 502),
     (ErrorCodeBadRequest, 400),
     (ErrorCodeConflict, 409),
     (ErrorCodeForbidden, 403),
     (ErrorCodeGone, 410),
     (ErrorCodeInternalServerError, 500),
     (ErrorCodeMethodNotAllowed, 405),
     (ErrorCodeNotFound, 404),
     (ErrorCodeNotImplemented, 501),
     (ErrorCodePaymentRequired, 402),
     (ErrorCodeProxyAuthenticationRequired, 407),
     (ErrorCodeServiceUnavailable, 503),
     (ErrorCodeTooManyRequests, 429),
     (ErrorCodeUnauthorized, 401),
     (ErrorCodeUnavailableForLegalReasons, 451),
     (ErrorCodeUnprocessableEntity, 422),
     (ErrorCodeUnsupportedMediaType, 415),
     (ErrorCodeStoreMagnetInvalid, 400),
     (ErrorCodeStoreNameInvalid, 400)]"

text \<open>
  \<open>Pack\<close>. \<open>http.StatusText\<close> is the function \<open>status_text\<close>; \<open>Pack\<close> only copies what it gives
  into an empty message.
\<close>

definition pack_status :: "st_error \<Rightarrow> st_error" where
  "pack_status e = (if StatusCode e = 0 then e\<lparr>StatusCode := 500\<rparr> else e)"

definition pack_code :: "st_error \<Rightarrow> st_error" where
  "pack_code e =
     (if ECode e = []
      then (case map_of errorCodeByStatusCode (StatusCode e) of Some c \<Rightarrow> e\<lparr>ECode := c\<rparr> | None \<Rightarrow> e)
      else e)"

definition pack_status_of_code :: "st_error \<Rightarrow> st_error" where
  "pack_status_of_code e =
     (case map_of statusCodeByErrorCode (ECode e) of
        Some s \<Rightarrow> if s \<noteq> StatusCode e then e\<lparr>StatusCode := s\<rparr> else e
      | None \<Rightarrow> e)"

definition pack_msg :: "(int \<Rightarrow> string) \<Rightarrow> st_error \<Rightarrow> st_error" where
  "pack_msg status_text e =
     (if Msg e = []
      then (case Cause e of
              Some c \<Rightarrow> e\<lparr>Msg := c\<rparr>
            | None \<Rightarrow>
                (case UpstreamCause e of
                   Some c \<Rightarrow> e\<lparr>Msg := c\<rparr>
                 | None \<Rightarrow> e\<lparr>Msg := status_text (StatusCode e)\<rparr>))
      else e)"

definition pack_request_id :: "http_request option \<Rightarrow> st_error \<Rightarrow> st_error" where
  "pack_request_id r e =
     (case r of
        None \<Rightarrow> e
      | Some r \<Rightarrow> if RequestId e = [] then e\<lparr>RequestId := rq_header r ''Request-ID''\<rparr> else e)"

definition Pack :: "(int \<Rightarrow> string) \<Rightarrow> http_request option \<Rightarrow> st_error \<Rightarrow> st_error" where
  "Pack status_text r e =
     pack_request_id r (pack_msg status_text (pack_status_of_code (pack_code (pack_status e))))"

text \<open>
  \<open>Send\<close>: the packed error is recorded in the request's context and written: the status line
  has its status code, the body is the JSON encoding of the error (the packed error itself here).
\<close>

record error_response =
  rs_ctx_error :: st_error
  rs_content_type :: string
  rs_status :: int
  rs_body :: st_error

definition Send :: "(int \<Rightarrow> string) \<Rightarrow> http_request \<Rightarrow> st_error \<Rightarrow> error_response" where
  "Send status_text r e =
     (let e' = Pack status_text (Some r) e
      in \<lparr>rs_ctx_error = e', rs_content_type = ''application/json'', rs_status = StatusCode e', rs_body = e'\<rparr>)"

definition NewError :: "string \<Rightarrow> st_error" where
  "NewError msg = empty_error\<lparr>EType := ErrorTypeUnknown, Msg := msg\<rparr>"

definition NewAPIError :: "string \<Rightarrow> st_error" where
  "NewAPIError msg = empty_error\<lparr>EType := ErrorTypeAPI, Msg := msg\<rparr>"

definition NewStoreError :: "string \<Rightarrow> st_error" where
  "NewStoreError msg = empty_error\<lparr>EType := ErrorTypeStore, Msg := msg\<rparr>"

definition NewUpstreamError :: "string \<Rightarrow> st_error" where
  "NewUpstreamError msg = empty_error\<lparr>EType := ErrorTypeUpstream, Msg := msg\<rparr>"

text \<open>\<open>PackError\<close>: a Go \<open>error\<close> is nil, one of our own errors, or any other with its text.\<close>

datatype go_error = StErr st_error | OtherErr string

definition PackError :: "(int \<Rightarrow> string) \<Rightarrow> go_error option \<Rightarrow> st_error option" where
  "PackError status_text err =
     (case err of
        None \<Rightarrow> None
      | Some (StErr e) \<Rightarrow> Some (Pack status_text None e)
      | Some (OtherErr t) \<Rightarrow> Some (Pack status_text None (empty_error\<lparr>Cause := Some t\<rparr>)))"

section \<open>The constructors of the handlers\<close>

definition shared_error :: "string \<Rightarrow> error_code \<Rightarrow> int \<Rightarrow> http_request option \<Rightarrow> st_error" where
  "shared_error msg code status r = (InjectReq (NewAPIError msg) r)\<lparr>ECode := code, StatusCode := status\<rparr>"

definition ErrorUnauthorized :: "http_request option \<Rightarrow> st_error" where
  "ErrorUnauthorized r = shared_error ''unauthorized'' ErrorCodeUnauthorized 401 r"

definition ErrorForbidden :: "http_request option \<Rightarrow> st_error" where
  "ErrorForbidden r = shared_error ''forbidden'' ErrorCodeForbidden 403 r"

definition ErrorNotFound :: "http_request option \<Rightarrow> st_error" where
  "ErrorNotFound r = shared_error ''not found'' ErrorCodeNotFound 404 r"

definition ErrorMethodNotAllowed :: "http_request option \<Rightarrow> st_error" where
  "ErrorMethodNotAllowed r = shared_error ''method not allowed'' ErrorCodeMethodNotAllowed 405 r"

definition ErrorUnsupportedMediaType :: "http_request option \<Rightarrow> st_error" where
  "ErrorUnsupportedMediaType r = shared_error ''unsupported media type'' ErrorCodeUnsupportedMediaType 415 r"

definition ErrorProxyAuthRequired :: "http_request option \<Rightarrow> st_error" where
  "ErrorProxyAuthRequired r = shared_error ''proxy auth required'' ErrorCodeProxyAuthenticationRequired 407 r"

definition ErrorBadRequest :: "http_request option \<Rightarrow> string \<Rightarrow> st_error" where
  "ErrorBadRequest r msg = shared_error (if msg = [] then ''bad request'' else msg) ErrorCodeBadRequest 400 r"

definition ErrorInternalServerError :: "http_request option \<Rightarrow> string \<Rightarrow> st_error" where
  "ErrorInternalServerError r msg =
     shared_error (if msg = [] then ''internal server error'' else msg) ErrorCodeInternalServerError 500 r"

definition ErrorBadGateway :: "http_request option \<Rightarrow> string \<Rightarrow> st_error" where
  "ErrorBadGateway r msg = shared_error (if msg = [] then ''bad gateway'' else msg) ErrorCodeBadGateway 502 r"

definition ErrorInvalidStoreName :: "string \<Rightarrow> st_error" where
  "ErrorInvalidStoreName nm =
     (NewStoreError ''invalid store name'')\<lparr>ECode := ErrorCodeStoreNameInvalid, EStoreName := nm\<rparr>"

section \<open>Lemmas\<close>

lemmas pack_defs = Pack_def pack_status_def pack_code_def pack_status_of_code_def pack_msg_def pack_request_id_def

text \<open>A packed error: a status is set, and a code of the table goes with its status.\<close>

definition packed :: "st_error \<Rightarrow> bool" where
  "packed e \<longleftrightarrow> StatusCode e \<noteq> 0
     \<and> (ECode e = [] \<longrightarrow> map_of errorCodeByStatusCode (StatusCode e) = None)
     \<and> (\<forall>s. map_of statusCodeByErrorCode (ECode e) = Some s \<longrightarrow> StatusCode e = s)"

lemma tables_agree:
  "list_all (\<lambda>(s, c). c \<noteq> [] \<and> map_of statusCodeByErrorCode c = Some s) errorCodeByStatusCode"
  by code_simp

lemma status_of_table_code:
  "map_of errorCodeByStatusCode s = Some c \<Longrightarrow> c \<noteq> [] \<and> map_of statusCodeByErrorCode c = Some s"
  using tables_agree by (fastforce simp: list_all_iff dest: map_of_SomeD)

lemma statuses_nonzero: "list_all (\<lambda>(c, s). s \<noteq> 0) statusCodeByErrorCode"
  by code_simp

lemma table_status_nonzero: "map_of statusCodeByErrorCode c = Some s \<Longrightarrow> s \<noteq> 0"
  using statuses_nonzero by (fastforce simp: list_all_iff dest: map_of_SomeD)

lemma no_status_of_empty_code [simp]: "map_of statusCodeByErrorCode [] = None"
  by (simp add: statusCodeByErrorCode_def error_consts)

lemma packed_pack_status_of_code: "packed (pack_status_of_code (pack_code (pack_status e)))"
  by (auto simp: packed_def pack_status_of_code_def pack_code_def pack_status_def
      dest!: status_of_table_code dest: table_status_nonzero split: option.splits if_splits)

lemma packed_msg [simp]: "packed (pack_msg st e) = packed e"
  by (simp add: packed_def pack_msg_def split: option.splits)

lemma packed_request_id [simp]: "packed (pack_request_id r e) = packed e"
  by (simp add: packed_def pack_request_id_def split: option.splits)

lemma ECode_pack [simp]:
  "ECode (pack_status_of_code e) = ECode e"
  "ECode (pack_msg st e) = ECode e"
  "ECode (pack_request_id r e) = ECode e"
  by (simp_all add: pack_status_of_code_def pack_msg_def pack_request_id_def split: option.splits)

lemma ECode_pack_code:
  "ECode (pack_code (pack_status e)) = [] \<longleftrightarrow>
     ECode e = [] \<and> map_of errorCodeByStatusCode (if StatusCode e = 0 then 500 else StatusCode e) = None"
  by (auto simp: pack_code_def pack_status_def dest!: status_of_table_code split: option.splits)

lemma packed_Pack: "packed (Pack st r e)"
  by (simp add: Pack_def packed_pack_status_of_code)

text \<open>On a packed error the first three steps of \<open>Pack\<close> do nothing.\<close>

lemma packed_fixed: "packed e \<Longrightarrow> pack_status_of_code (pack_code (pack_status e)) = e"
  by (auto simp: packed_def pack_status_of_code_def pack_code_def pack_status_def split: option.splits)

lemma pack_msg_idem: "pack_msg st (pack_request_id r (pack_msg st e)) = pack_request_id r (pack_msg st e)"
  by (cases r; cases "Cause e"; cases "UpstreamCause e") (simp_all add: pack_msg_def pack_request_id_def)

lemma pack_request_id_idem [simp]: "pack_request_id r (pack_request_id r e) = pack_request_id r e"
  by (simp add: pack_request_id_def split: option.splits)

lemma Pack_of_packed: "packed e \<Longrightarrow> Msg e \<noteq> [] \<Longrightarrow> Pack st None e = e"
  by (simp add: Pack_def packed_fixed pack_msg_def pack_request_id_def)

lemma shared_error_fields [simp]:
  "ECode (shared_error msg code status r) = code"
  "StatusCode (shared_error msg code status r) = status"
  "Msg (shared_error msg code status r) = msg"
  by (simp_all add: shared_error_def NewAPIError_def InjectReq_def Let_def split: option.splits)

lemma shared_error_packed:
  assumes "map_of statusCodeByErrorCode code = Some status" and "msg \<noteq> []"
  shows "Pack st None (shared_error msg code status r) = shared_error msg code status r"
proof (rule Pack_of_packed)
  show "packed (shared_error msg code status r)"
    using assms table_status_nonzero [OF assms(1)] by (auto simp: packed_def)
qed (use assms in simp)

section \<open>Properties\<close>

text \<open>
  after \<open>Pack\<close> an error always has a status code, and whenever its code is one of the
  table the status code is the one of the table; a missing code means the table has none for
  the status.
\<close>

theorem Pack_consistent:
  "StatusCode (Pack st r e) \<noteq> 0
   \<and> (case map_of statusCodeByErrorCode (ECode (Pack st r e)) of
        Some s \<Rightarrow> StatusCode (Pack st r e) = s | None \<Rightarrow> True)
   \<and> (ECode (Pack st r e) = [] \<longleftrightarrow>
        ECode e = [] \<and> map_of errorCodeByStatusCode (if StatusCode e = 0 then 500 else StatusCode e) = None)"
proof -
  have "packed (Pack st r e)" by (rule packed_Pack)
  moreover have "ECode (Pack st r e) = ECode (pack_code (pack_status e))"
    by (simp add: Pack_def)
  ultimately show ?thesis
    by (simp add: packed_def ECode_pack_code split: option.split)
qed

text \<open>
  packing is idempotent, so an error that was packed when it was logged or wrapped is sent
  unchanged.
\<close>

theorem Pack_idempotent: "Pack st r (Pack st r e) = Pack st r e"
  by (metis Pack_def packed_Pack packed_fixed pack_msg_idem pack_request_id_idem)

end
