(* ===== verification/Core_Codec.thy ===== *)
theory Core_Codec
  imports Prelude
begin

text \<open>
  \<open>core/base64.go\<close> and \<open>core/secret.go\<close>, and the encodings of the standard library they and
  \<open>core/util.go\<close> use: \<open>base64.StdEncoding\<close> (padded, line breaks ignored, unused bits not
  checked), \<open>base32.StdEncoding\<close> without padding and \<open>hex.EncodeToString\<close>. Bytes are \<open>char\<close>.
\<close>

section \<open>base64.StdEncoding\<close>

definition b64_char :: "nat \<Rightarrow> char" where
  "b64_char n =
     (if n < 26 then char_of (65 + n)
      else if n < 52 then char_of (71 + n)
      else if n < 62 then char_of (n - 4)
      else if n = 62 then CHR ''+'' else CHR ''/'')"

definition b64_val :: "char \<Rightarrow> nat option" where
  "b64_val c =
     (let n = of_char c :: nat
      in if 65 \<le> n \<and> n \<le> 90 then Some (n - 65)
         else if 97 \<le> n \<and> n \<le> 122 then Some (n - 71)
         else if 48 \<le> n \<and> n \<le> 57 then Some (n + 4)
         else if n = 43 then Some 62 else if n = 47 then Some 63 else None)"

text \<open>The four six bit digits of three bytes, and the three bytes of four digits.\<close>

definition b64_d1 :: "nat \<Rightarrow> nat" where
  "b64_d1 x = x div 4"

definition b64_d2 :: "nat \<Rightarrow> nat \<Rightarrow> nat" where
  "b64_d2 x y = x mod 4 * 16 + y div 16"

definition b64_d3 :: "nat \<Rightarrow> nat \<Rightarrow> nat" where
  "b64_d3 y z = y mod 16 * 4 + z div 64"

definition b64_d4 :: "nat \<Rightarrow> nat" where
  "b64_d4 z = z mod 64"

definition b64_b1 :: "nat \<Rightarrow> nat \<Rightarrow> char" where
  "b64_b1 i j = char_of (i * 4 + j div 16)"

definition b64_b2 :: "nat \<Rightarrow> nat \<Rightarrow> char" where
  "b64_b2 j k = char_of (j mod 16 * 16 + k div 4)"

definition b64_b3 :: "nat \<Rightarrow> nat \<Rightarrow> char" where
  "b64_b3 k l = char_of (k mod 4 * 64 + l)"

fun b64_encode :: "string \<Rightarrow> string" where
  "b64_encode [] = []"
| "b64_encode [a] =
     [b64_char (b64_d1 (of_char a)), b64_char (b64_d2 (of_char a) 0), CHR ''='', CHR ''='']"
| "b64_encode [a, b] =
     [b64_char (b64_d1 (of_char a)), b64_char (b64_d2 (of_char a) (of_char b)),
      b64_char (b64_d3 (of_char b) 0), CHR ''='']"
| "b64_encode (a # b # c # s) =
     b64_char (b64_d1 (of_char a)) # b64_char (b64_d2 (of_char a) (of_char b))
     # b64_char (b64_d3 (of_char b) (of_char c)) # b64_char (b64_d4 (of_char c)) # b64_encode s"

fun b64_quanta :: "string \<Rightarrow> string option" where
  "b64_quanta [] = Some []"
| "b64_quanta (a # b # c # d # s) =
     (case (b64_val a, b64_val b) of
        (Some i, Some j) \<Rightarrow>
          (case b64_val c of
             Some k \<Rightarrow>
               (case b64_val d of
                  Some l \<Rightarrow> map_option (\<lambda>t. b64_b1 i j # b64_b2 j k # b64_b3 k l # t) (b64_quanta s)
                | None \<Rightarrow> if d = CHR ''='' \<and> s = [] then Some [b64_b1 i j, b64_b2 j k] else None)
           | None \<Rightarrow> if c = CHR ''='' \<and> d = CHR ''='' \<and> s = [] then Some [b64_b1 i j] else None)
      | _ \<Rightarrow> None)"
| "b64_quanta s = None"

definition b64_decode :: "string \<Rightarrow> string option" where
  "b64_decode s = b64_quanta (filter (\<lambda>c. c \<noteq> CHR 0x0A \<and> c \<noteq> CHR 0x0D) s)"

definition Base64Encode :: "string \<Rightarrow> string" where
  "Base64Encode s = b64_encode s"

definition Base64EncodeToByte :: "string \<Rightarrow> string" where
  "Base64EncodeToByte s = [] @ b64_encode s"

definition Base64EncodeByte :: "string \<Rightarrow> string" where
  "Base64EncodeByte s = b64_encode s"

text \<open>\<open>Base64EncodeFile\<close>: the reader either fails, or gives the whole content.\<close>

definition Base64EncodeFile :: "string + string \<Rightarrow> string + string" where
  "Base64EncodeFile rd = (case rd of Inl err \<Rightarrow> Inl err | Inr content \<Rightarrow> Inr (b64_encode content))"

definition Base64Decode :: "string \<Rightarrow> string option" where
  "Base64Decode s = b64_decode s"

definition Base64DecodeToByte :: "string \<Rightarrow> string option" where
  "Base64DecodeToByte s = b64_decode s"

lemma b64_val_char [simp]: "n < 64 \<Longrightarrow> b64_val (b64_char n) = Some n"
  by (auto simp: b64_val_def b64_char_def Let_def)

lemma byte_bound [simp]: "(of_char c :: nat) < 256"
  using of_char_mod_256 [of c] by (metis mod_less_divisor zero_less_numeral)

lemma b64_digits_bound [simp]:
  "b64_d1 (of_char a) < 64" "b64_d2 (of_char a) 0 < 64" "b64_d2 (of_char a) (of_char b) < 64"
  "b64_d3 (of_char b) 0 < 64" "b64_d3 (of_char b) (of_char c) < 64" "b64_d4 z < 64"
proof -
  have "x div 4 < 64" "x mod 4 * 16 + y div 16 < 64" "y mod 16 * 4 + z div 64 < 64"
    if "x < 256" "y < 256" "z < 256" for x y z :: nat
  proof -
    have "y div 16 < 16" and "z div 64 < 4" and "x div 4 < 64" using that by (auto simp: less_mult_imp_div_less)
    moreover have "x mod 4 < 4" and "y mod 16 < 16" by simp_all
    ultimately show "x div 4 < 64" "x mod 4 * 16 + y div 16 < 64" "y mod 16 * 4 + z div 64 < 64"
      by linarith+
  qed
  from this [OF byte_bound [of a] byte_bound [of b] byte_bound [of c]]
  show "b64_d1 (of_char a) < 64" "b64_d2 (of_char a) (of_char b) < 64" "b64_d3 (of_char b) (of_char c) < 64"
    by (simp_all add: b64_d1_def b64_d2_def b64_d3_def)
  have small: "(of_char a :: nat) mod 4 < 4" "(of_char b :: nat) mod 16 < 16" by simp_all
  show "b64_d2 (of_char a) 0 < 64" unfolding b64_d2_def using small(1) by linarith
  show "b64_d3 (of_char b) 0 < 64" unfolding b64_d3_def using small(2) by linarith
qed (simp add: b64_d4_def)

lemma b64_bytes_of_digits [simp]:
  "b64_b1 (b64_d1 (of_char a)) (b64_d2 (of_char a) 0) = a"
  "b64_b1 (b64_d1 (of_char a)) (b64_d2 (of_char a) (of_char b)) = a"
  "b64_b2 (b64_d2 (of_char a) (of_char b)) (b64_d3 (of_char b) 0) = b"
  "b64_b2 (b64_d2 (of_char a) (of_char b)) (b64_d3 (of_char b) (of_char c)) = b"
  "b64_b3 (b64_d3 (of_char b) (of_char c)) (b64_d4 (of_char c)) = c"
proof -
  have 1: "x div 4 * 4 + (x mod 4 * 16 + y div 16) div 16 = x"
    and 2: "(x mod 4 * 16 + y div 16) mod 16 * 16 + (y mod 16 * 4 + z div 64) div 4 = y"
    and 3: "(y mod 16 * 4 + z div 64) mod 4 * 64 + z mod 64 = z"
    if "x < 256" "y < 256" "z < 256" for x y z :: nat
  proof -
    have "y div 16 < 16" and "z div 64 < 4" using that by (auto simp: less_mult_imp_div_less)
    then show "x div 4 * 4 + (x mod 4 * 16 + y div 16) div 16 = x"
      and "(x mod 4 * 16 + y div 16) mod 16 * 16 + (y mod 16 * 4 + z div 64) div 4 = y"
      and "(y mod 16 * 4 + z div 64) mod 4 * 64 + z mod 64 = z"
      by simp_all
  qed
  show "b64_b1 (b64_d1 (of_char a)) (b64_d2 (of_char a) 0) = a"
    using 1 [OF byte_bound [of a], of 0 0] unfolding b64_b1_def b64_d1_def b64_d2_def
    by (simp only: char_of_char)
  show "b64_b1 (b64_d1 (of_char a)) (b64_d2 (of_char a) (of_char b)) = a"
    using 1 [OF byte_bound [of a] byte_bound [of b], of 0] unfolding b64_b1_def b64_d1_def b64_d2_def
    by (simp only: char_of_char)
  show "b64_b2 (b64_d2 (of_char a) (of_char b)) (b64_d3 (of_char b) 0) = b"
    using 2 [OF byte_bound [of a] byte_bound [of b], of 0] unfolding b64_b2_def b64_d2_def b64_d3_def
    by (simp only: char_of_char)
  show "b64_b2 (b64_d2 (of_char a) (of_char b)) (b64_d3 (of_char b) (of_char c)) = b"
    using 2 [OF byte_bound [of a] byte_bound [of b] byte_bound [of c]]
    unfolding b64_b2_def b64_d2_def b64_d3_def by (simp only: char_of_char)
  show "b64_b3 (b64_d3 (of_char b) (of_char c)) (b64_d4 (of_char c)) = c"
    using 3 [OF byte_bound [of a] byte_bound [of b] byte_bound [of c]]
    unfolding b64_b3_def b64_d3_def b64_d4_def by (simp only: char_of_char)
qed

lemma b64_val_pad [simp]: "b64_val CHR ''='' = None"
  by (simp add: b64_val_def)

lemma b64_quanta_encode: "b64_quanta (b64_encode s) = Some s"
  by (induction s rule: b64_encode.induct) simp_all

lemma b64_encode_alphabet: "list_all (\<lambda>c. b64_val c \<noteq> None \<or> c = CHR ''='') (b64_encode s)"
  by (induction s rule: b64_encode.induct) simp_all

lemma b64_encode_chars:
  assumes "c \<in> set (b64_encode s)"
  shows "c \<notin> {CHR 0x0A, CHR 0x0D, CHR '':'', CHR '' ''}"
proof -
  have "b64_val d = None \<and> d \<noteq> CHR ''=''" if "d \<in> {CHR 0x0A, CHR 0x0D, CHR '':'', CHR '' ''}" for d
    using that by (auto simp: b64_val_def)
  moreover have "b64_val c \<noteq> None \<or> c = CHR ''=''"
    using assms b64_encode_alphabet [of s] by (simp add: list_all_iff)
  ultimately show ?thesis by (metis (no_types, lifting))
qed

lemma b64_decode_encode [simp]: "b64_decode (b64_encode s) = Some s"
proof -
  have "filter (\<lambda>c. c \<noteq> CHR 0x0A \<and> c \<noteq> CHR 0x0D) (b64_encode s) = b64_encode s"
    using b64_encode_chars by (fastforce simp: filter_id_conv)
  then show ?thesis by (simp add: b64_decode_def b64_quanta_encode)
qed

section \<open>base32.StdEncoding.WithPadding(base32.NoPadding) and hex\<close>

definition b32_val :: "char \<Rightarrow> nat option" where
  "b32_val c =
     (let n = of_char c :: nat
      in if 65 \<le> n \<and> n \<le> 90 then Some (n - 65) else if 50 \<le> n \<and> n \<le> 55 then Some (n - 24) else None)"

text \<open>
  One quantum of at most eight digits. Eight, seven, five, four and two digits give five,
  four, three, two and one bytes; after one, three or six digits the decoder's \<open>switch\<close> has no
  case and the quantum gives none.
\<close>

definition b32_out_bytes :: "nat \<Rightarrow> nat" where
  "b32_out_bytes d = (if d = 8 then 5 else if d = 7 then 4 else if d = 5 then 3 else if d = 4 then 2
     else if d = 2 then 1 else 0)"

definition b32_quantum :: "nat list \<Rightarrow> nat list" where
  "b32_quantum ds =
     (case take 8 (ds @ replicate 8 0) of
        [d0, d1, d2, d3, d4, d5, d6, d7] \<Rightarrow>
          take (b32_out_bytes (length ds))
            [d0 * 8 + d1 div 4,
             d1 mod 4 * 64 + d2 * 2 + d3 div 16,
             d3 mod 16 * 16 + d4 div 2,
             d4 mod 2 * 128 + d5 * 4 + d6 div 8,
             d6 mod 8 * 32 + d7]
      | _ \<Rightarrow> [])"

fun b32_values :: "string \<Rightarrow> nat list option" where
  "b32_values [] = Some []"
| "b32_values (c # s) =
     (case b32_val c of None \<Rightarrow> None | Some v \<Rightarrow> map_option ((#) v) (b32_values s))"

function b32_chunks :: "nat list \<Rightarrow> nat list" where
  "b32_chunks ds = (if ds = [] then [] else b32_quantum (take 8 ds) @ b32_chunks (drop 8 ds))"
  by pat_completeness auto

termination
  by (relation "measure length") auto

declare b32_chunks.simps [simp del]

definition b32_decode :: "string \<Rightarrow> nat list option" where
  "b32_decode s = map_option b32_chunks (b32_values (filter (\<lambda>c. c \<noteq> CHR 0x0A \<and> c \<noteq> CHR 0x0D) s))"

definition hex_digit :: "nat \<Rightarrow> char" where
  "hex_digit n = (if n < 10 then char_of (48 + n) else char_of (87 + n))"

definition hex_encode :: "nat list \<Rightarrow> string" where
  "hex_encode bs = concat (map (\<lambda>b. [hex_digit (b div 16), hex_digit (b mod 16)]) bs)"

lemma b32_values_length: "b32_values s = Some ds \<Longrightarrow> length ds = length s"
  by (induction s arbitrary: ds) (auto split: option.splits)

lemma length_hex_encode [simp]: "length (hex_encode bs) = 2 * length bs"
  by (induction bs) (auto simp: hex_encode_def)

lemma eight_elems: "length xs = 8 \<Longrightarrow> \<exists>a b c d e f g h. xs = [a, b, c, d, e, f, g, h]"
  by (auto simp: length_Suc_conv eval_nat_numeral)

lemma length_b32_quantum: "length ds \<le> 8 \<Longrightarrow> length (b32_quantum ds) = b32_out_bytes (length ds)"
  using eight_elems [of "take 8 (ds @ replicate 8 0)"]
  by (auto simp: b32_quantum_def b32_out_bytes_def)

lemma length_b32_chunks: "length ds = 8 * n \<Longrightarrow> length (b32_chunks ds) = 5 * n"
proof (induction n arbitrary: ds)
  case 0
  then show ?case by (simp add: b32_chunks.simps)
next
  case (Suc n)
  then have "length (drop 8 ds) = 8 * n" by simp
  from Suc.IH [OF this] Suc.prems show ?case
    by (subst b32_chunks.simps) (auto simp: length_b32_quantum b32_out_bytes_def)
qed

lemma hex_digit_lower: "n < 16 \<Longrightarrow> to_lower_char (hex_digit n) = hex_digit n"
  by (auto simp: hex_digit_def to_lower_char_def)

lemma b32_quantum_bytes:
  assumes "\<forall>d \<in> set ds. d < 32" and "b \<in> set (b32_quantum ds)"
  shows "b < 256"
proof -
  obtain d0 d1 d2 d3 d4 d5 d6 d7 where eq: "take 8 (ds @ replicate 8 0) = [d0, d1, d2, d3, d4, d5, d6, d7]"
    using eight_elems by (metis (no_types, lifting) length_append length_replicate length_take min.absorb2 trans_le_add2 order_refl)
  have "\<forall>d \<in> set (take 8 (ds @ replicate 8 0)). d < 32"
    using assms(1) by (auto dest!: in_set_takeD)
  with eq have "d0 < 32" "d1 < 32" "d2 < 32" "d3 < 32" "d4 < 32" "d5 < 32" "d6 < 32" "d7 < 32"
    by auto
  then have "\<forall>x \<in> set [d0 * 8 + d1 div 4, d1 mod 4 * 64 + d2 * 2 + d3 div 16, d3 mod 16 * 16 + d4 div 2,
      d4 mod 2 * 128 + d5 * 4 + d6 div 8, d6 mod 8 * 32 + d7]. x < 256"
  proof -
    assume d: "d0 < 32" "d1 < 32" "d2 < 32" "d3 < 32" "d4 < 32" "d5 < 32" "d6 < 32" "d7 < 32"
    have "d1 div 4 < 8" "d3 div 16 < 2" "d4 div 2 < 16" "d6 div 8 < 4"
      using d by (auto simp: less_mult_imp_div_less)
    moreover have "d1 mod 4 < 4" "d3 mod 16 < 16" "d4 mod 2 < 2" "d6 mod 8 < 8" by simp_all
    ultimately have "d0 * 8 + d1 div 4 < 256" "d1 mod 4 * 64 + d2 * 2 + d3 div 16 < 256"
      "d3 mod 16 * 16 + d4 div 2 < 256" "d4 mod 2 * 128 + d5 * 4 + d6 div 8 < 256" "d6 mod 8 * 32 + d7 < 256"
      using d by linarith+
    then show ?thesis by (simp only: list.set ball_simps)
  qed
  moreover have "b \<in> set [d0 * 8 + d1 div 4, d1 mod 4 * 64 + d2 * 2 + d3 div 16, d3 mod 16 * 16 + d4 div 2,
      d4 mod 2 * 128 + d5 * 4 + d6 div 8, d6 mod 8 * 32 + d7]"
    using assms(2) eq unfolding b32_quantum_def by (auto dest!: in_set_takeD)
  ultimately show ?thesis by blast
qed

lemma b32_val_bound: "b32_val c = Some d \<Longrightarrow> d < 32"
  by (auto simp: b32_val_def Let_def split: if_splits)

lemma b32_values_bound: "b32_values s = Some ds \<Longrightarrow> d \<in> set ds \<Longrightarrow> d < 32"
  by (induction s arbitrary: ds) (auto split: option.splits dest: b32_val_bound)

lemma b32_chunks_bytes: "\<forall>d \<in> set ds. d < 32 \<Longrightarrow> b \<in> set (b32_chunks ds) \<Longrightarrow> b < 256"
proof (induction ds rule: b32_chunks.induct)
  case (1 ds)
  show ?case
  proof (cases "ds = []")
    case True
    with 1 show ?thesis by (simp add: b32_chunks.simps)
  next
    case False
    have "b32_chunks ds = b32_quantum (take 8 ds) @ b32_chunks (drop 8 ds)"
      using False by (subst b32_chunks.simps) simp
    moreover have "\<forall>d \<in> set (take 8 ds). d < 32" and "\<forall>d \<in> set (drop 8 ds). d < 32"
      using "1.prems"(1) by (auto dest: in_set_takeD in_set_dropD)
    ultimately show ?thesis
      using "1.IH" [OF False] "1.prems"(2) b32_quantum_bytes by auto
  qed
qed

lemma to_lower_hex: "\<forall>b \<in> set bs. b < 256 \<Longrightarrow> to_lower (hex_encode bs) = hex_encode bs"
  by (induction bs) (auto simp: hex_encode_def to_lower_def hex_digit_lower)

section \<open>core/secret.go\<close>

text \<open>
  The cipher is the standard library's AES-GCM: \<open>seal\<close> and \<open>open\<close> take key, nonce and text,
  \<open>sha256\<close> gives the key, and \<open>nonce\<close> is what was read from the random source (None when
  the read fails). \<open>NonceSize\<close> is 12. A slice expression out of range panics.
\<close>

datatype secret_error = RandomError | CorruptInput | OpenError | SlicePanic

definition nonce_size :: nat where
  "nonce_size = 12"

definition Encrypt ::
    "(string \<Rightarrow> string) \<Rightarrow> (string \<Rightarrow> string \<Rightarrow> string \<Rightarrow> string) \<Rightarrow> string option
      \<Rightarrow> string \<Rightarrow> string \<Rightarrow> secret_error + string" where
  "Encrypt sha256 seal nonce secret value =
     (case nonce of
        None \<Rightarrow> Inl RandomError
      | Some n \<Rightarrow> Inr (Base64EncodeByte (n @ seal (sha256 secret) n value)))"

definition Decrypt ::
    "(string \<Rightarrow> string) \<Rightarrow> (string \<Rightarrow> string \<Rightarrow> string \<Rightarrow> string option)
      \<Rightarrow> string \<Rightarrow> string \<Rightarrow> secret_error + string" where
  "Decrypt sha256 open_fn secret value =
     (case Base64DecodeToByte value of
        None \<Rightarrow> Inl CorruptInput
      | Some nonce_and_ciphertext \<Rightarrow>
          if length nonce_and_ciphertext < nonce_size then Inl SlicePanic
          else (case open_fn (sha256 secret) (take nonce_size nonce_and_ciphertext)
                       (drop nonce_size nonce_and_ciphertext) of
                  None \<Rightarrow> Inl OpenError
                | Some plaintext \<Rightarrow> Inr plaintext))"

section \<open>Properties\<close>

text \<open>
  decoding what the encoder wrote gives the value back, and the encoded text has no colon,
  blank or line break (which \<open>ParseBasicAuth\<close> relies on when it is handed its own token).
\<close>

theorem Base64_roundtrip:
  "Base64Decode (Base64Encode s) = Some s
   \<and> set (Base64Encode s) \<inter> {CHR 0x0A, CHR 0x0D, CHR '':'', CHR '' ''} = {}"
  using b64_encode_chars by (fastforce simp: Base64Decode_def Base64Encode_def)

text \<open>
  for a cipher that opens what it sealed, \<open>Decrypt\<close> under the same secret recovers every
  value \<open>Encrypt\<close> stored.
\<close>

theorem Decrypt_Encrypt:
  assumes "\<And>k n v. length n = nonce_size \<Longrightarrow> open_fn k n (seal k n v) = Some v"
    and "length n = nonce_size"
  shows "\<exists>c. Encrypt sha seal (Some n) secret v = Inr c \<and> Decrypt sha open_fn secret c = Inr v"
  using assms by (simp add: Encrypt_def Decrypt_def Base64EncodeByte_def Base64DecodeToByte_def)

theorem Decrypt_Encrypt_witness:
  "\<exists>c. Encrypt id (\<lambda>k n v. rev (k @ v)) (Some (replicate 12 CHR ''n'')) ''key'' ''text'' = Inr c
     \<and> Decrypt id (\<lambda>k n c. if take (length k) (rev c) = k then Some (drop (length k) (rev c)) else None)
         ''key'' c = Inr ''text''"
  by (rule Decrypt_Encrypt) (simp_all add: nonce_size_def)

end
