(* ===== verification/Url.thy ===== *)
theory Url
  imports Prelude
begin

text \<open>
  The parts of Go's \<open>net/url\<close> that the code uses: percent-encoding of query components, the
  multi-map \<open>url.Values\<close> with \<open>ParseQuery\<close> and \<open>Encode\<close>, and the reading of a
  \<open>magnet:\<close> URL by \<open>url.Parse\<close>. A \<open>url_values\<close> is an association list with distinct keys;
  the order of the list is the order in which a \<open>range\<close> loop happens to see the keys.
\<close>

section \<open>Percent encoding\<close>

definition hex_upper :: "nat \<Rightarrow> char" where
  "hex_upper n = (if n < 10 then char_of (48 + n) else char_of (55 + n))"

definition unhex :: "char \<Rightarrow> nat option" where
  "unhex c =
     (let n = of_char c :: nat
      in if 48 \<le> n \<and> n \<le> 57 then Some (n - 48)
         else if 97 \<le> n \<and> n \<le> 102 then Some (n - 87)
         else if 65 \<le> n \<and> n \<le> 70 then Some (n - 55) else None)"

definition unreserved :: "char \<Rightarrow> bool" where
  "unreserved c \<longleftrightarrow>
     (let n = of_char c :: nat
      in (48 \<le> n \<and> n \<le> 57) \<or> (65 \<le> n \<and> n \<le> 90) \<or> (97 \<le> n \<and> n \<le> 122)
         \<or> c \<in> {CHR ''-'', CHR ''_'', CHR ''.'', CHR ''~''})"

fun query_escape :: "string \<Rightarrow> string" where
  "query_escape [] = []"
| "query_escape (c # s) =
     (if unreserved c then c # query_escape s
      else if c = CHR '' '' then CHR ''+'' # query_escape s
      else CHR ''%'' # hex_upper (of_char c div 16) # hex_upper (of_char c mod 16) # query_escape s)"

text \<open>\<open>unescape\<close>; in a query component a plus sign is a blank, in a path segment it is not.\<close>

fun unescape :: "bool \<Rightarrow> string \<Rightarrow> string option" where
  "unescape q [] = Some []"
| "unescape q (c # s) =
     (if c = CHR ''%''
      then (case s of
              a # b # t \<Rightarrow>
                (case (unhex a, unhex b) of
                   (Some i, Some j) \<Rightarrow> map_option ((#) (char_of (16 * i + j))) (unescape q t)
                 | _ \<Rightarrow> None)
            | _ \<Rightarrow> None)
      else map_option ((#) (if q \<and> c = CHR ''+'' then CHR '' '' else c)) (unescape q s))"

abbreviation query_unescape :: "string \<Rightarrow> string option" where
  "query_unescape \<equiv> unescape True"

abbreviation path_unescape :: "string \<Rightarrow> string option" where
  "path_unescape \<equiv> unescape False"

lemma unhex_hex_upper [simp]: "n < 16 \<Longrightarrow> unhex (hex_upper n) = Some n"
  by (auto simp: unhex_def hex_upper_def Let_def)

lemma char_bound: "(of_char c :: nat) < 256"
  using of_char_mod_256 [of c] by (metis mod_less_divisor zero_less_numeral)

lemma char_div_16 [simp]: "(of_char c :: nat) div 16 < 16"
  using char_bound [of c] by (simp add: less_mult_imp_div_less)

lemma char_join_16: "char_of (16 * (of_char c div 16) + of_char c mod 16 :: nat) = c"
  by (simp only: mult_div_mod_eq char_of_char)

lemma unreserved_plain: "unreserved c \<Longrightarrow> c \<noteq> CHR ''%'' \<and> c \<noteq> CHR ''+'' \<and> c \<noteq> CHR ''&'' \<and> c \<noteq> CHR ''=''
  \<and> c \<noteq> CHR '';'' \<and> c \<noteq> CHR ''#'' \<and> c \<noteq> CHR ''?'' \<and> c \<noteq> CHR ''/'' \<and> c \<noteq> CHR '':''"
  by (auto simp: unreserved_def)

lemma unescape_escape [simp]: "query_unescape (query_escape s) = Some s"
proof (induction s)
  case (Cons c s)
  then show ?case
    using unreserved_plain [of c] by (auto simp: char_join_16)
qed simp

lemma hex_upper_unreserved: "n < 16 \<Longrightarrow> unreserved (hex_upper n)"
  by (auto simp: unreserved_def hex_upper_def)

lemma query_escape_chars: "c \<in> set (query_escape s) \<Longrightarrow> unreserved c \<or> c = CHR ''+'' \<or> c = CHR ''%''"
  by (induction s) (auto split: if_splits simp: hex_upper_unreserved)

lemma query_escape_plain: "c \<in> set (query_escape s) \<Longrightarrow> c \<notin> {CHR ''&'', CHR ''='', CHR '';'', CHR ''#''}"
  using query_escape_chars unreserved_plain by fastforce

lemma query_escape_eq_Nil [simp]: "query_escape s = [] \<longleftrightarrow> s = []"
  by (cases s) auto

lemma unescape_id: "CHR ''%'' \<notin> set s \<Longrightarrow> CHR ''+'' \<notin> set s \<Longrightarrow> unescape q s = Some s"
  by (induction s) auto

section \<open>url.Values\<close>

type_synonym url_values = "(string \<times> string list) list"

definition v_has :: "url_values \<Rightarrow> string \<Rightarrow> bool" where
  "v_has vs k \<longleftrightarrow> map_of vs k \<noteq> None"

definition v_get :: "url_values \<Rightarrow> string \<Rightarrow> string" where
  "v_get vs k = (case map_of vs k of Some (v # _) \<Rightarrow> v | _ \<Rightarrow> [])"

fun v_set :: "url_values \<Rightarrow> string \<Rightarrow> string \<Rightarrow> url_values" where
  "v_set [] k v = [(k, [v])]"
| "v_set ((l, ws) # vs) k v = (if l = k then (k, [v]) # vs else (l, ws) # v_set vs k v)"

fun v_add :: "url_values \<Rightarrow> string \<Rightarrow> string \<Rightarrow> url_values" where
  "v_add [] k v = [(k, [v])]"
| "v_add ((l, ws) # vs) k v = (if l = k then (l, ws @ [v]) # vs else (l, ws) # v_add vs k v)"

text \<open>\<open>parseQuery\<close>: pairs that do not decode are skipped, as \<open>URL.Query\<close> skips them.\<close>

definition parse_pair :: "url_values \<Rightarrow> string \<Rightarrow> url_values" where
  "parse_pair vs part =
     (if CHR '';'' \<in> set part \<or> part = [] then vs
      else (case cut part (CHR ''='') of
              (k, v, _) \<Rightarrow>
                (case (query_unescape k, query_unescape v) of
                   (Some k', Some v') \<Rightarrow> v_add vs k' v' | _ \<Rightarrow> vs)))"

definition parse_query :: "string \<Rightarrow> url_values" where
  "parse_query s = foldl parse_pair [] (split_on (CHR ''&'') s)"

text \<open>\<open>Values.Encode\<close>: the keys in increasing order, one pair for every value.\<close>

definition encode_pair :: "string \<Rightarrow> string \<Rightarrow> string" where
  "encode_pair k v = query_escape k @ CHR ''='' # query_escape v"

definition encode_values :: "url_values \<Rightarrow> string" where
  "encode_values vs =
     go_join ''&'' (concat (map (\<lambda>(k, ws). map (encode_pair k) ws) (sort_key fst vs)))"

lemma v_get_set [simp]: "v_get (v_set vs k v) l = (if l = k then v else v_get vs l)"
  by (induction vs k v rule: v_set.induct) (auto simp: v_get_def)

lemma map_of_v_set: "map_of (v_set vs k v) = (map_of vs)(k \<mapsto> [v])"
  by (induction vs k v rule: v_set.induct) auto

lemma keys_v_set: "set (map fst (v_set vs k v)) = insert k (set (map fst vs))"
  by (induction vs k v rule: v_set.induct) auto

lemma distinct_v_set: "distinct (map fst vs) \<Longrightarrow> distinct (map fst (v_set vs k v))"
  by (induction vs k v rule: v_set.induct) (auto simp add: keys_v_set simp del: set_map)

lemma keys_v_add: "set (map fst (v_add vs k v)) = insert k (set (map fst vs))"
  by (induction vs k v rule: v_add.induct) auto

lemma v_add_new: "k \<notin> fst ` set vs \<Longrightarrow> v_add vs k v = vs @ [(k, [v])]"
  by (induction vs k v rule: v_add.induct) auto

lemma parse_encoded_pair: "parse_pair vs (encode_pair k v) = v_add vs k v"
proof -
  have "CHR '';'' \<notin> set (encode_pair k v)" and "CHR ''='' \<notin> set (query_escape k)"
    using query_escape_plain by (fastforce simp: encode_pair_def)+
  then show ?thesis by (simp add: parse_pair_def encode_pair_def)
qed

text \<open>Values with one string per key survive encoding and parsing, keys sorted.\<close>

lemma split_encoded:
  assumes "xs \<noteq> []" and "\<forall>x \<in> set xs. \<exists>k v. x = encode_pair k v"
  shows "split_on (CHR ''&'') (go_join ''&'' xs) = xs"
proof (rule split_on_join)
  show "\<forall>x \<in> set xs. CHR ''&'' \<notin> set x"
    using assms(2) query_escape_plain by (fastforce simp: encode_pair_def)
qed (rule assms)

lemma foldl_parse_pairs:
  assumes "distinct (map fst vs)" and "fst ` set acc \<inter> fst ` set vs = {}" and "\<forall>p \<in> set vs. length (snd p) = 1"
  shows "foldl parse_pair acc (concat (map (\<lambda>(k, ws). map (encode_pair k) ws) vs)) = acc @ vs"
  using assms
proof (induction vs arbitrary: acc)
  case Nil
  then show ?case by simp
next
  case (Cons p vs)
  obtain k v where p: "p = (k, [v])"
    using Cons.prems(3) by (cases p; cases "snd p"; cases "tl (snd p)") auto
  have "k \<notin> fst ` set acc" using Cons.prems(2) p by auto
  then have "parse_pair acc (encode_pair k v) = acc @ [(k, [v])]"
    by (simp add: parse_encoded_pair v_add_new)
  moreover have "foldl parse_pair (acc @ [(k, [v])]) (concat (map (\<lambda>(k, ws). map (encode_pair k) ws) vs)) = (acc @ [(k, [v])]) @ vs"
  proof (rule Cons.IH)
    show "fst ` set (acc @ [(k, [v])]) \<inter> fst ` set vs = {}" using Cons.prems(1,2) p by auto
  qed (use Cons.prems in auto)
  ultimately show ?case by (simp add: p)
qed

lemma parse_encode_values:
  assumes "distinct (map fst vs)" and "\<forall>p \<in> set vs. length (snd p) = 1"
  shows "parse_query (encode_values vs) = sort_key fst vs"
proof -
  let ?xs = "concat (map (\<lambda>(k, ws). map (encode_pair k) ws) (sort_key fst vs))"
  have enc: "\<forall>x \<in> set ?xs. \<exists>k v. x = encode_pair k v" by auto
  have "distinct (map fst (sort_key fst vs))"
    using assms(1) by (metis distinct_map distinct_sort set_sort)
  then have fold: "foldl parse_pair [] ?xs = sort_key fst vs"
    using foldl_parse_pairs [of "sort_key fst vs" "[]"] assms(2) by simp
  show ?thesis
  proof (cases "?xs = []")
    case True
    then have "foldl parse_pair [] ?xs = []" by (simp only: foldl_Nil)
    with fold have "sort_key fst vs = []" by simp
    with True show ?thesis by (simp add: parse_query_def encode_values_def parse_pair_def)
  next
    case False
    then show ?thesis
      by (simp add: parse_query_def encode_values_def split_encoded [OF False enc] fold)
  qed
qed

section \<open>Parsing a magnet URL\<close>

text \<open>
  \<open>url.Parse\<close> on a string that starts with \<open>magnet:\<close>, as far as the code reads the result:
  the query parameters, or an error. A control character is an error; so is a bad escape in the
  fragment. What stands between the scheme and the query is opaque unless it starts with a
  slash; whether an authority and path are well formed then is the parameter \<open>hier_ok\<close>.
\<close>

definition is_ctl :: "char \<Rightarrow> bool" where
  "is_ctl c \<longleftrightarrow> (of_char c :: nat) < 32 \<or> (of_char c :: nat) = 127"

definition split_query :: "string \<Rightarrow> string \<times> string" where
  "split_query rest =
     (if has_suffix rest ''?'' \<and> count_list rest (CHR ''?'') = 1 then (butlast rest, [])
      else (case cut rest (CHR ''?'') of (r, q, _) \<Rightarrow> (r, q)))"

definition parse_magnet_url :: "(string \<Rightarrow> bool) \<Rightarrow> string \<Rightarrow> url_values option" where
  "parse_magnet_url hier_ok raw =
     (case cut raw (CHR ''#'') of
        (u, frag, _) \<Rightarrow>
          if list_ex is_ctl u then None
          else (case split_query (drop (length ''magnet:'') u) of
                  (rest, q) \<Rightarrow>
                    if has_prefix rest ''/'' \<and> \<not> hier_ok rest then None
                    else if frag \<noteq> [] \<and> path_unescape frag = None then None
                    else Some (parse_query q)))"

end
