(* ===== verification/Core_Util.thy ===== *)
theory Core_Util
  imports Core_Codec Url
begin

text \<open>
  \<open>core/util.go\<close>: reading a JSON body, magnet hashes and links, the list of video
  extensions, and basic authentication tokens.
\<close>

section \<open>UnmarshalJSON\<close>

text \<open>
  \<open>decode\<close> is \<open>json.Unmarshal\<close> into the caller's type: an error text or the value. A 204
  response with a blank body leaves the value untouched (\<open>Inr None\<close>).
\<close>

definition body_sample :: "string \<Rightarrow> string" where
  "body_sample body =
     concat (map (\<lambda>c. if c = CHR 0x0A then [CHR 0x5C, CHR ''n''] else [c])
       (if 1000 < length body then take 1000 body @ '' ...'' else body))"

definition unmarshal_message :: "int \<Rightarrow> string \<Rightarrow> string \<Rightarrow> string" where
  "unmarshal_message statusCode body err =
     ''Couldn'' @ [CHR 0x27] @ ''t deserialize JSON (response status: '' @ itoa statusCode @ '', body sample: ''
     @ [CHR 0x27] @ body_sample body @ [CHR 0x27] @ ''): '' @ err"

definition UnmarshalJSON :: "(string \<Rightarrow> string + 'a) \<Rightarrow> int \<Rightarrow> string \<Rightarrow> string + 'a option" where
  "UnmarshalJSON decode statusCode body =
     (if statusCode = 204 \<and> trim_space body = [] then Inr None
      else (case decode body of
              Inr v \<Rightarrow> Inr (Some v)
            | Inl err \<Rightarrow> Inl (unmarshal_message statusCode body err)))"

section \<open>Magnet links\<close>

record magnet_link =
  mg_Hash :: string
  mg_Link :: string
  mg_Name :: string
  mg_Trackers :: "string list"
  mg_RawLink :: string

definition NormalizeMagnetHash :: "string \<Rightarrow> string" where
  "NormalizeMagnetHash hash =
     (if length hash = 40 then to_lower hash
      else if length hash = 32 then
        (case b32_decode (to_upper hash) of
           None \<Rightarrow> []
         | Some decoded \<Rightarrow> to_lower (hex_encode decoded))
      else [])"

definition magnet_prefix :: string where
  "magnet_prefix = ''magnet:?xt=urn:btih:''"

definition ParseMagnetLink :: "(string \<Rightarrow> bool) \<Rightarrow> string \<Rightarrow> string + magnet_link" where
  "ParseMagnetLink hier_ok val =
     (if \<not> has_prefix val ''magnet:'' then
        (let h = NormalizeMagnetHash val; l = magnet_prefix @ h
         in Inr \<lparr>mg_Hash = h, mg_Link = l, mg_Name = [], mg_Trackers = [], mg_RawLink = l\<rparr>)
      else
        (case parse_magnet_url hier_ok val of
           None \<Rightarrow> Inl ''parse error''
         | Some params \<Rightarrow>
             let xt = v_get params ''xt''
             in if \<not> has_prefix xt ''urn:btih:'' then Inl ''invalid magnet''
                else
                  let h = NormalizeMagnetHash (trim_prefix xt ''urn:btih:'');
                      nm = v_get params ''dn'';
                      trackers = (case map_of params ''tr'' of None \<Rightarrow> [] | Some ts \<Rightarrow> ts);
                      link = magnet_prefix @ h
                  in Inr \<lparr>mg_Hash = h,
                          mg_Link = (if nm \<noteq> [] then link @ ''&dn='' @ nm else link),
                          mg_Name = nm, mg_Trackers = trackers, mg_RawLink = val\<rparr>))"

section \<open>Video extensions\<close>

definition videoExtensions :: "string list" where
  "videoExtensions =
    [''.3g2'', ''.3gp'', ''.amv'', ''.asf'', ''.avi'', ''.drc'', ''.f4a'', ''.f4b'', ''.f4p'', ''.f4v'',
     ''.flv'', ''.gif'', ''.gifv'', ''.m2ts'', ''.m2v'', ''.m4p'', ''.m4v'', ''.mk3d'', ''.mkv'', ''.mng'',
     ''.mov'', ''.mp2'', ''.mp4'', ''.mpe'', ''.mpeg'', ''.mpg'', ''.mpv'', ''.mxf'', ''.nsv'', ''.ogg'',
     ''.ogm'', ''.ogv'', ''.qt'', ''.rm'', ''.rmvb'', ''.roq'', ''.svi'', ''.ts'', ''.webm'', ''.wmv'', ''.yuv'']"

text \<open>\<open>filepath.Ext\<close>: from the last dot after the last slash.\<close>

fun ext_rev :: "string \<Rightarrow> string \<Rightarrow> string" where
  "ext_rev acc [] = []"
| "ext_rev acc (c # r) =
     (if c = CHR ''/'' then [] else if c = CHR ''.'' then CHR ''.'' # acc else ext_rev (c # acc) r)"

definition filepath_ext :: "string \<Rightarrow> string" where
  "filepath_ext path = ext_rev [] (rev path)"

definition HasVideoExtension :: "string \<Rightarrow> bool" where
  "HasVideoExtension filename = (to_lower (filepath_ext filename) \<in> set videoExtensions)"

section \<open>Basic authentication\<close>

record basic_auth =
  ba_Username :: string
  ba_Password :: string
  ba_Token :: string

definition ParseBasicAuth :: "string \<Rightarrow> string + basic_auth" where
  "ParseBasicAuth tok0 =
     (let token = trim_space tok0
      in if CHR '':'' \<in> set token then
           (case cut token (CHR '':'') of
              (u, p, _) \<Rightarrow> Inr \<lparr>ba_Username = u, ba_Password = p, ba_Token = Base64Encode token\<rparr>)
         else
           (case Base64Decode token of
              None \<Rightarrow> Inl ''malformed token''
            | Some decoded \<Rightarrow>
                (case cut (trim_space decoded) (CHR '':'') of
                   (u, p, ok) \<Rightarrow>
                     if ok then Inr \<lparr>ba_Username = u, ba_Password = p, ba_Token = token\<rparr>
                     else Inl ''invalid token'')))"

section \<open>Lemmas\<close>

lemma trim_right_last: "trim_right f s \<noteq> [] \<Longrightarrow> \<not> f (last (trim_right f s))"
  by (metis hd_dropWhile last_rev rev.simps(1) rev_rev_ident trim_right_def)

lemma trim_right_id: "s = [] \<or> \<not> f (last s) \<Longrightarrow> trim_right f s = s"
  by (cases s rule: rev_cases) (auto simp: trim_right_def)

lemma hd_trim_right: "trim_right f s \<noteq> [] \<Longrightarrow> hd (trim_right f s) = hd s"
proof (induction s rule: rev_induct)
  case (snoc c s)
  then show ?case by (cases "s = []") (auto simp: trim_right_def split: if_splits)
qed (simp add: trim_right_def)

lemma trim_func_id: "s = [] \<or> \<not> f (hd s) \<and> \<not> f (last s) \<Longrightarrow> trim_func f s = s"
  by (cases s) (auto simp: trim_func_def trim_right_id)

lemma trim_func_ends:
  assumes "trim_func f s \<noteq> []"
  shows "\<not> f (hd (trim_func f s)) \<and> \<not> f (last (trim_func f s))"
proof -
  from assms have "dropWhile f s \<noteq> []" unfolding trim_func_def trim_right_def by force
  from hd_dropWhile [OF this] have "\<not> f (hd (dropWhile f s))" .
  moreover have "trim_right f (dropWhile f s) \<noteq> []" using assms by (simp add: trim_func_def)
  ultimately show ?thesis unfolding trim_func_def by (metis hd_trim_right trim_right_last)
qed

lemma trim_space_idem [simp]: "trim_space (trim_space s) = trim_space s"
  unfolding trim_space_def using trim_func_ends trim_func_id by metis

lemma trim_space_no_space: "\<forall>c \<in> set s. \<not> is_space c \<Longrightarrow> trim_space s = s"
  unfolding trim_space_def by (rule trim_func_id) (metis hd_in_set last_in_set)

lemma set_trim_space: "set (trim_space s) \<subseteq> set s"
  by (auto simp: trim_space_def trim_func_def trim_right_def dest!: set_dropWhileD)

lemma b64_val_not_space: "b64_val c \<noteq> None \<or> c = CHR ''='' \<Longrightarrow> \<not> is_space c"
  by (auto simp: is_space_def b64_val_def Let_def split: if_splits)

lemma trim_space_base64 [simp]: "trim_space (Base64Encode s) = Base64Encode s"
  using b64_encode_alphabet [of s] b64_val_not_space
  by (intro trim_space_no_space) (auto simp: Base64Encode_def list_all_iff)

lemma Base64Encode_no_colon [simp]: "CHR '':'' \<notin> set (Base64Encode s)"
  using b64_encode_chars by (fastforce simp: Base64Encode_def)

lemma Base64Decode_Encode [simp]: "Base64Decode (Base64Encode s) = Some s"
  by (simp add: Base64Decode_def Base64Encode_def)







lemma NormalizeMagnetHash_Nil [simp]: "NormalizeMagnetHash [] = []"
  by (simp add: NormalizeMagnetHash_def)


section \<open>Properties\<close>



text \<open>
  \<open>ParseBasicAuth\<close> accepts its own token: parsing the token of an accepted credential
  gives the same user, password and token, whichever of the two forms it came in.
\<close>

theorem ParseBasicAuth_token:
  "ParseBasicAuth t = Inr b \<Longrightarrow> ParseBasicAuth (ba_Token b) = Inr b"
proof (cases "CHR '':'' \<in> set (trim_space t)")
  case True
  assume b: "ParseBasicAuth t = Inr b"
  obtain u p where cut: "cut (trim_space t) (CHR '':'') = (u, p, True)"
    using True by (metis cut_True_iff prod.collapse)
  with True b have "b = \<lparr>ba_Username = u, ba_Password = p, ba_Token = Base64Encode (trim_space t)\<rparr>"
    by (simp add: ParseBasicAuth_def Let_def)
  with cut show "ParseBasicAuth (ba_Token b) = Inr b" by (simp add: ParseBasicAuth_def Let_def)
next
  case False
  assume "ParseBasicAuth t = Inr b"
  with False show "ParseBasicAuth (ba_Token b) = Inr b"
    by (auto simp: ParseBasicAuth_def Let_def split: option.splits prod.splits if_splits)
qed

theorem ParseBasicAuth_token_witness:
  "ParseBasicAuth (Base64Encode ''user:pass'')
     = Inr \<lparr>ba_Username = ''user'', ba_Password = ''pass'', ba_Token = Base64Encode ''user:pass''\<rparr>"
proof -
  have "ParseBasicAuth '' user:pass''
    = Inr \<lparr>ba_Username = ''user'', ba_Password = ''pass'', ba_Token = Base64Encode ''user:pass''\<rparr>"
    by (simp add: ParseBasicAuth_def trim_space_def trim_func_def trim_right_def is_space_def)
  from ParseBasicAuth_token [OF this] show ?thesis by simp
qed

end
