(* ===== verification/Core_Net.thy ===== *)
theory Core_Net
  imports Prelude
begin

text \<open>
  \<open>core/request_ip.go\<close>: which address a request is taken to come from. \<open>net.ParseIP\<close> is
  modelled for IPv4 text; the parser of IPv6 text (sixteen bytes) is the parameter \<open>ip6\<close>.
\<close>

section \<open>Addresses\<close>

definition ipv4_field :: "string \<Rightarrow> nat option" where
  "ipv4_field s =
     (if s = [] \<or> \<not> list_all is_digit s \<or> (1 < length s \<and> hd s = CHR ''0'') \<or> 255 < digits_val 0 s
      then None else Some (nat (digits_val 0 s)))"

definition parse_ipv4 :: "string \<Rightarrow> nat list option" where
  "parse_ipv4 s =
     (case map ipv4_field (split_on (CHR ''.'') s) of
        [Some a, Some b, Some c, Some d] \<Rightarrow> Some [a, b, c, d]
      | _ \<Rightarrow> None)"

text \<open>\<open>netip.ParseAddr\<close> looks for the first dot, colon or percent sign.\<close>

definition parse_ip :: "(string \<Rightarrow> nat list option) \<Rightarrow> string \<Rightarrow> nat list option" where
  "parse_ip ip6 s =
     (case dropWhile (\<lambda>c. c \<notin> {CHR ''.'', CHR '':'', CHR ''%''}) s of
        [] \<Rightarrow> None
      | c # _ \<Rightarrow> if c = CHR ''.'' then parse_ipv4 s else if c = CHR '':'' then ip6 s else None)"

definition to4 :: "nat list \<Rightarrow> nat list option" where
  "to4 ip =
     (if length ip = 4 then Some ip
      else if length ip = 16 \<and> take 10 ip = replicate 10 0 \<and> ip ! 10 = 255 \<and> ip ! 11 = 255
           then Some (drop 12 ip) else None)"

definition is_private_ip :: "nat list \<Rightarrow> bool" where
  "is_private_ip ip =
     (case to4 ip of
        Some p \<Rightarrow> p ! 0 = 10 \<or> (p ! 0 = 172 \<and> p ! 1 div 16 = 1) \<or> (p ! 0 = 192 \<and> p ! 1 = 168)
      | None \<Rightarrow> length ip = 16 \<and> ip ! 0 div 2 = 126)"

definition is_loopback_ip :: "nat list \<Rightarrow> bool" where
  "is_loopback_ip ip =
     (case to4 ip of Some p \<Rightarrow> p ! 0 = 127 | None \<Rightarrow> ip = replicate 15 0 @ [1])"

definition isCorrectIP :: "(string \<Rightarrow> nat list option) \<Rightarrow> string \<Rightarrow> bool" where
  "isCorrectIP ip6 input =
     (case parse_ip ip6 input of
        None \<Rightarrow> False
      | Some ip \<Rightarrow> \<not> is_private_ip ip \<and> \<not> is_loopback_ip ip)"

section \<open>Requests\<close>

text \<open>Headers in canonical form with their values, the remote address, the \<open>client_ip\<close> parameter.\<close>

record ip_request =
  ir_headers :: "(string \<times> string list) list"
  ir_remote :: string
  ir_client_ip :: string

definition header_values :: "ip_request \<Rightarrow> string \<Rightarrow> string list" where
  "header_values r h = (case map_of (ir_headers r) h of None \<Rightarrow> [] | Some vs \<Rightarrow> vs)"

definition header_get :: "ip_request \<Rightarrow> string \<Rightarrow> string" where
  "header_get r h = (case header_values r h of [] \<Rightarrow> [] | v # _ \<Rightarrow> v)"

definition ipRequestHeaders :: "string list" where
  "ipRequestHeaders =
    [''X-Client-Ip'',
     ''Cf-Connecting-Ip'',
     ''Do-Connecting-Ip'',
     ''Fastly-Client-Ip'',
     ''True-Client-Ip'',
     ''X-Real-Ip'',
     ''X-Cluster-Client-Ip'',
     ''X-Forwarded'',
     ''X-Forwarded-For'',
     ''Forwarded-For'',
     ''Forwarded'',
     ''X-Appengine-User-Ip'',
     ''Cf-Pseudo-IPv4'']"

fun first_forwarded :: "(string \<Rightarrow> bool) \<Rightarrow> string list \<Rightarrow> string option" where
  "first_forwarded ok [] = None"
| "first_forwarded ok (x # xs) =
     (let ip = fst (cut (trim_space x) (CHR '':''))
      in if ok ip then Some ip else first_forwarded ok xs)"

definition getClientIPFromXForwardedFor :: "(string \<Rightarrow> nat list option) \<Rightarrow> string \<Rightarrow> string option" where
  "getClientIPFromXForwardedFor ip6 headers =
     (if headers = [] then None
      else first_forwarded (isCorrectIP ip6) (split_on (CHR '','') headers))"

definition header_ip :: "(string \<Rightarrow> nat list option) \<Rightarrow> ip_request \<Rightarrow> string \<Rightarrow> string option" where
  "header_ip ip6 r h =
     (if h = ''X-Forwarded-For'' then getClientIPFromXForwardedFor ip6 (header_get r h)
      else if isCorrectIP ip6 (header_get r h) then Some (header_get r h) else None)"

fun first_header_ip :: "(string \<Rightarrow> nat list option) \<Rightarrow> ip_request \<Rightarrow> string list \<Rightarrow> string option" where
  "first_header_ip ip6 r [] = None"
| "first_header_ip ip6 r (h # hs) =
     (case header_ip ip6 r h of Some host \<Rightarrow> Some host | None \<Rightarrow> first_header_ip ip6 r hs)"

text \<open>\<open>net.SplitHostPort\<close>, the host part; None stands for its errors.\<close>

definition last_index :: "char \<Rightarrow> string \<Rightarrow> nat option" where
  "last_index c s = (if c \<in> set s then Some (length s - 1 - length (takeWhile (\<lambda>d. d \<noteq> c) (rev s))) else None)"

definition split_host :: "string \<Rightarrow> string option" where
  "split_host hp =
     (case last_index (CHR '':'') hp of
        None \<Rightarrow> None
      | Some i \<Rightarrow>
          if has_prefix hp ''['' then
            (case index_of hp '']'' of
               None \<Rightarrow> None
             | Some e \<Rightarrow>
                 if Suc e = i \<and> CHR ''['' \<notin> set (drop 1 hp) \<and> CHR '']'' \<notin> set (drop (Suc e) hp)
                 then Some (drop 1 (take e hp)) else None)
          else if CHR '':'' \<in> set (take i hp) \<or> CHR ''['' \<in> set hp \<or> CHR '']'' \<in> set hp then None
          else Some (take i hp))"

definition GetRequestIP :: "(string \<Rightarrow> nat list option) \<Rightarrow> ip_request \<Rightarrow> string" where
  "GetRequestIP ip6 r =
     (case first_header_ip ip6 r ipRequestHeaders of
        Some host \<Rightarrow> host
      | None \<Rightarrow>
          (case split_host (ir_remote r) of
             Some host \<Rightarrow> if isCorrectIP ip6 host then host else []
           | None \<Rightarrow> []))"

definition GetClientIP :: "(string \<Rightarrow> nat list option) \<Rightarrow> ip_request \<Rightarrow> string" where
  "GetClientIP ip6 r =
     (if isCorrectIP ip6 (ir_client_ip r) then ir_client_ip r else GetRequestIP ip6 r)"

definition GetRequestIPHeaders :: "ip_request \<Rightarrow> (string \<times> string) list" where
  "GetRequestIPHeaders r =
     map (\<lambda>h. (h, go_join '' '' (header_values r h)))
       (filter (\<lambda>h. header_values r h \<noteq> []) ipRequestHeaders)"

section \<open>Lemmas\<close>

lemma first_forwarded_ok: "first_forwarded ok xs = Some ip \<Longrightarrow> ok ip \<and> CHR '':'' \<notin> set ip"
proof (induction xs)
  case (Cons x xs)
  obtain a b k where c: "cut (trim_space x) (CHR '':'') = (a, b, k)" by (metis prod.exhaust)
  with cut_spec [OF c] Cons show ?case by (auto simp: Let_def split: if_splits)
qed simp

lemma header_ip_correct: "header_ip ip6 r h = Some ip \<Longrightarrow> isCorrectIP ip6 ip"
  by (auto simp: header_ip_def getClientIPFromXForwardedFor_def dest: first_forwarded_ok split: if_splits)

lemma first_header_ip_correct: "first_header_ip ip6 r hs = Some ip \<Longrightarrow> isCorrectIP ip6 ip"
  by (induction hs) (auto dest: header_ip_correct split: option.splits)

lemma isCorrectIP_Nil [simp]: "\<not> isCorrectIP ip6 []"
  by (simp add: isCorrectIP_def parse_ip_def)

lemma GetRequestIP_correct: "GetRequestIP ip6 r = [] \<or> isCorrectIP ip6 (GetRequestIP ip6 r)"
  by (auto simp: GetRequestIP_def dest: first_header_ip_correct split: option.splits)

section \<open>Properties\<close>

text \<open>
  the address a request is attributed to is empty or parses as an address that is neither
  private nor loopback, whatever the headers, the query and the peer say.
\<close>

theorem GetClientIP_public:
  "GetClientIP ip6 r = []
   \<or> (\<exists>ip. parse_ip ip6 (GetClientIP ip6 r) = Some ip \<and> \<not> is_private_ip ip \<and> \<not> is_loopback_ip ip)"
  using GetRequestIP_correct [of ip6 r] by (auto simp: GetClientIP_def isCorrectIP_def split: option.splits)

text \<open>
  an address taken from \<open>X-Forwarded-For\<close> never holds a colon, so an IPv6 client listed
  there is never recognised, although \<open>isCorrectIP\<close> accepts such addresses elsewhere: with an
  IPv6 parser that demands a colon, as the real one does, the result is an IPv4 address.
\<close>

theorem forwarded_never_ipv6:
  assumes "getClientIPFromXForwardedFor ip6 headers = Some host"
  shows "CHR '':'' \<notin> set host \<and> (\<exists>a b c d. parse_ip ip6 host = Some [a, b, c, d])"
proof -
  from assms have ok: "isCorrectIP ip6 host" and nc: "CHR '':'' \<notin> set host"
    by (auto simp: getClientIPFromXForwardedFor_def dest: first_forwarded_ok split: if_splits)
  obtain c rest where d: "dropWhile (\<lambda>c. c \<notin> {CHR ''.'', CHR '':'', CHR ''%''}) host = c # rest" and "c \<noteq> CHR '':''"
    using ok nc unfolding isCorrectIP_def parse_ip_def
    by (metis (no_types, lifting) list.case(1) list.exhaust list.set_intros(1) option.case(1) set_dropWhileD)
  with ok obtain ip where "parse_ipv4 host = Some ip" "parse_ip ip6 host = Some ip"
    by (auto simp: isCorrectIP_def parse_ip_def simp del: insert_iff split: if_splits option.splits)
  with nc show ?thesis by (auto simp: parse_ipv4_def split: list.splits option.splits)
qed

theorem forwarded_never_ipv6_witness:
  "CHR '':'' \<notin> set ''8.8.8.8'' \<and> (\<exists>a b c d. parse_ip (\<lambda>_. None) ''8.8.8.8'' = Some [a, b, c, d])"
proof (rule forwarded_never_ipv6)
  show "getClientIPFromXForwardedFor (\<lambda>_. None) ''10.0.0.1, 8.8.8.8:443'' = Some ''8.8.8.8''"
    by code_simp
qed

end
