(* ===== verification/Util.thy ===== *)
theory Util
  imports Prelude
begin

text \<open>
  The small helpers of \<open>internal/util\<close>: booleans (\<open>bool.go\<close>), numbers (\<open>number.go\<close>), slices
  (\<open>slices.go\<close>), the set type (\<open>set.go\<close>), the pure part of \<open>strings.go\<close>, \<open>filepath.go\<close> and the
  typed access to a row of a table (\<open>tsv.go\<close>). A Go panic is the value \<open>None\<close>. The string
  normaliser and the fuzzy matching of \<open>strings.go\<close> only call third-party packages and are left out.
\<close>

section \<open>bool.go\<close>

definition PtrToBool :: "bool option \<Rightarrow> bool \<Rightarrow> bool" where
  "PtrToBool ptr fallback = (case ptr of Some b \<Rightarrow> b | None \<Rightarrow> fallback)"

definition StringToBool :: "string \<Rightarrow> bool \<Rightarrow> bool" where
  "StringToBool str fallback =
     (if str = [] then fallback
      else let s = to_lower str in
        if s \<in> {''1'', ''t'', ''true'', ''y'', ''yes''} then True
        else if s \<in> {''0'', ''f'', ''false'', ''n'', ''no''} then False
        else fallback)"

section \<open>number.go\<close>

text \<open>\<open>IntRange\<close>: the length is computed in 64 bits; when it wrapped, the first write is out of range.\<close>

definition IntRange :: "int \<Rightarrow> int \<Rightarrow> int list option" where
  "IntRange start end' =
     (let len = wrap64 (end' - start + 1) in
      if len < 0 then Some []
      else if start \<le> end' \<and> len \<noteq> end' - start + 1 then None
      else Some [start..end'])"

definition SafeParseInt :: "string \<Rightarrow> int \<Rightarrow> int" where
  "SafeParseInt str fallbackValue = (case atoi str of None \<Rightarrow> fallbackValue | Some v \<Rightarrow> v)"

text \<open>\<open>fmt.Sprintf\<close> with \<open>%0<length>d\<close>: the sign comes first and counts for the width.\<close>

definition ZeroPadInt :: "int \<Rightarrow> nat \<Rightarrow> string" where
  "ZeroPadInt n width =
     (let ds = nat_digits (nat \<bar>n\<bar>); sign = (if n < 0 then ''-'' else [])
      in sign @ replicate (width - length (sign @ ds)) CHR ''0'' @ ds)"

section \<open>slices.go and set.go\<close>

definition SliceMapIntToString :: "int list \<Rightarrow> string list" where
  "SliceMapIntToString elems = map itoa elems"

fun FilterSlice :: "'a list \<Rightarrow> ('a \<Rightarrow> bool) \<Rightarrow> 'a list" where
  "FilterSlice [] predicate = []"
| "FilterSlice (v # s) predicate =
     (if predicate v then v # FilterSlice s predicate else FilterSlice s predicate)"

text \<open>
  A Go map used as a set; its iteration order is not specified, so \<open>ToSlice\<close> is the relation
  that holds of every order.
\<close>

record 'a go_set =
  set_m :: "'a set"

definition NewSet :: "'a go_set" where
  "NewSet = \<lparr>set_m = {}\<rparr>"

definition Set_Add :: "'a go_set \<Rightarrow> 'a \<Rightarrow> 'a go_set" where
  "Set_Add s v = s\<lparr>set_m := insert v (set_m s)\<rparr>"

definition Set_Has :: "'a go_set \<Rightarrow> 'a \<Rightarrow> bool" where
  "Set_Has s v \<longleftrightarrow> v \<in> set_m s"

definition Set_Del :: "'a go_set \<Rightarrow> 'a \<Rightarrow> 'a go_set" where
  "Set_Del s v = s\<lparr>set_m := set_m s - {v}\<rparr>"

definition Set_ToSlice :: "'a go_set \<Rightarrow> 'a list \<Rightarrow> bool" where
  "Set_ToSlice s xs \<longleftrightarrow> distinct xs \<and> set xs = set_m s"

section \<open>strings.go and filepath.go\<close>

fun go_repeat :: "string \<Rightarrow> nat \<Rightarrow> string" where
  "go_repeat s 0 = []"
| "go_repeat s (Suc n) = s @ go_repeat s n"

definition RepeatJoin :: "string \<Rightarrow> int \<Rightarrow> string \<Rightarrow> string option" where
  "RepeatJoin s n sep =
     (if n = 0 then Some []
      else if n - 1 < 0 then None
      else Some (go_repeat (s @ sep) (nat (n - 1)) @ s))"

definition MustParseInt :: "string \<Rightarrow> int option" where
  "MustParseInt s = atoi s"

definition IsNumericString :: "string \<Rightarrow> bool" where
  "IsNumericString s \<longleftrightarrow> s \<noteq> [] \<and> list_all is_digit s"

definition RemoveRootFolderFromPath :: "string \<Rightarrow> string \<times> string" where
  "RemoveRootFolderFromPath path =
     (case cut (trim_func (\<lambda>c. c = CHR ''/'') path) CHR ''/'' of
        (rootFolder, newPath, ok) \<Rightarrow>
          if ok then (CHR ''/'' # newPath, rootFolder) else (newPath, []))"

section \<open>size.go\<close>

text \<open>
  The unit is spelled \<open>iB\<close> before \<open>humanize.ParseBytes\<close> reads the size, so that all units are powers
  of 1024; the regular expression asks for a character other than \<open>i\<close> before the final \<open>b\<close> and for a
  character other than a newline before that one. \<open>parse_bytes\<close> and \<open>ibytes\<close> are the functions of
  the package; a parsed size is an unsigned 64 bit number read as a signed one.
\<close>

definition normalizeSize :: "string \<Rightarrow> string" where
  "normalizeSize input =
     (let t = trim_space input; n = length t in
      if 3 \<le> n \<and> to_lower_char (t ! (n - 1)) = CHR ''b'' \<and> to_lower_char (t ! (n - 2)) \<noteq> CHR ''i''
        \<and> t ! (n - 3) \<noteq> CHR 0x0A
      then butlast t @ ''iB'' else t)"

definition ToBytes :: "(string \<Rightarrow> nat option) \<Rightarrow> string \<Rightarrow> int" where
  "ToBytes parse_bytes input =
     (case parse_bytes (normalizeSize input) of None \<Rightarrow> - 1 | Some b \<Rightarrow> wrap64 (int b))"

definition ToSize :: "(nat \<Rightarrow> string) \<Rightarrow> int \<Rightarrow> string" where
  "ToSize ibytes bytes =
     (let s = ibytes (nat (bytes mod 2 ^ 64)) in
      case index_of s ''iB'' of None \<Rightarrow> s | Some i \<Rightarrow> take i s @ CHR ''B'' # drop (i + 2) s)"

section \<open>tsv.go\<close>

text \<open>
  \<open>TSVGetValue\<close> is generic in the type of its default; the values are tagged by that type.
  A value that does not parse is the error \<open>Inl\<close> with the text of the field.
\<close>

datatype tsv_value = TBool bool | TInt int | TInt64 int | TString string

definition parse_bool :: "string \<Rightarrow> bool option" where
  "parse_bool s =
     (if s \<in> {''1'', ''t'', ''T'', ''true'', ''TRUE'', ''True''} then Some True
      else if s \<in> {''0'', ''f'', ''F'', ''false'', ''FALSE'', ''False''} then Some False
      else None)"

definition TSVGetValue :: "string list \<Rightarrow> nat \<Rightarrow> tsv_value \<Rightarrow> string \<Rightarrow> string + tsv_value" where
  "TSVGetValue row idx defaultValue nilValue =
     (if length row \<le> idx then Inr defaultValue
      else let val = row ! idx in
        if val = [] \<or> val = nilValue then Inr defaultValue
        else case defaultValue of
            TBool _ \<Rightarrow> (case parse_bool val of None \<Rightarrow> Inl val | Some v \<Rightarrow> Inr (TBool v))
          | TInt _ \<Rightarrow> (case atoi val of None \<Rightarrow> Inl val | Some v \<Rightarrow> Inr (TInt v))
          | TInt64 _ \<Rightarrow> (case atoi val of None \<Rightarrow> Inl val | Some v \<Rightarrow> Inr (TInt64 v))
          | TString _ \<Rightarrow> Inr (TString val))"

section \<open>Lemmas\<close>

lemma IntRange_upto:
  "- (2 ^ 62) < a \<Longrightarrow> a < 2 ^ 62 \<Longrightarrow> - (2 ^ 62) \<le> b \<Longrightarrow> b < 2 ^ 62 \<Longrightarrow> IntRange a b = Some [a..b]"
  using wrap64_id [of "b - a + 1"] by (auto simp: IntRange_def Let_def)

lemma SafeParseInt_range:
  "- (2 ^ 63) \<le> d \<Longrightarrow> d < 2 ^ 63 \<Longrightarrow> - (2 ^ 63) \<le> SafeParseInt s d \<and> SafeParseInt s d < 2 ^ 63"
  unfolding SafeParseInt_def by (cases "atoi s") (use atoi_range in auto)

lemma SafeParseInt_itoa [simp]: "- (2 ^ 63) \<le> n \<Longrightarrow> n < 2 ^ 63 \<Longrightarrow> SafeParseInt (itoa n) d = n"
  unfolding SafeParseInt_def by (subst atoi_itoa) simp_all

lemma FilterSlice_filter [simp]: "FilterSlice xs p = filter p xs"
  by (induction xs) auto

lemma go_repeat_join: "go_repeat (s @ sep) n @ s = go_join sep (replicate (Suc n) s)"
proof (induction n)
  case (Suc n)
  then show ?case by (cases n) auto
qed simp

lemma RepeatJoin_join: "RepeatJoin s (int n) sep = Some (go_join sep (replicate n s))"
proof (cases n)
  case (Suc m)
  then show ?thesis using go_repeat_join [of s sep m]
    by (simp add: RepeatJoin_def)
qed (simp add: RepeatJoin_def)

text \<open>The set behaves as one: the laws of the interface.\<close>

locale finite_set_ops =
  fixes empty :: "'s" and add :: "'s \<Rightarrow> 'a \<Rightarrow> 's" and has :: "'s \<Rightarrow> 'a \<Rightarrow> bool" and del :: "'s \<Rightarrow> 'a \<Rightarrow> 's"
  assumes has_empty: "\<not> has empty v"
    and has_add: "has (add s v) w \<longleftrightarrow> w = v \<or> has s w"
    and has_del: "has (del s v) w \<longleftrightarrow> w \<noteq> v \<and> has s w"
begin

lemma has_adds: "has (foldl add s vs) w \<longleftrightarrow> w \<in> set vs \<or> has s w"
  by (induction vs arbitrary: s) (auto simp: has_add)

lemma has_dels: "has (foldl del s vs) w \<longleftrightarrow> w \<notin> set vs \<and> has s w"
  by (induction vs arbitrary: s) (auto simp: has_del)

end

interpretation go_sets: finite_set_ops NewSet Set_Add Set_Has Set_Del
  by unfold_locales (auto simp: NewSet_def Set_Add_def Set_Has_def Set_Del_def)

text \<open>
  for a path \<open>/folder/rest\<close> the root folder is split off and the rest keeps its leading slash,
  and for a path with no folder both results are empty: the file name is lost.
\<close>

theorem RemoveRootFolderFromPath_spec:
  assumes "CHR ''/'' \<notin> set folder" and "folder \<noteq> []" and "rest \<noteq> []" and "last rest \<noteq> CHR ''/''"
  shows "RemoveRootFolderFromPath (CHR ''/'' # folder @ CHR ''/'' # rest) = (CHR ''/'' # rest, folder)
    \<and> RemoveRootFolderFromPath (CHR ''/'' # folder) = ([], [])"
proof -
  have hd_ne: "hd folder \<noteq> CHR ''/''" using assms(1,2) by (metis list.set_sel(1))
  have last_ne: "last folder \<noteq> CHR ''/''" using assms(1,2) by (metis last_in_set)
  have drop1: "dropWhile (\<lambda>c. c = CHR ''/'') (folder @ t) = folder @ t" for t
    using hd_ne assms(2) by (cases folder) auto
  have right: "trim_right (\<lambda>c. c = CHR ''/'') (u @ w) = u @ w" if ne: "w \<noteq> []" and l: "last w \<noteq> CHR ''/''" for u w
  proof -
    obtain v z where w: "w = v @ [z]" by (cases w rule: rev_cases) (use ne in auto)
    with l have "z \<noteq> CHR ''/''" by simp
    with w show ?thesis by (simp add: trim_right_def)
  qed
  have "trim_func (\<lambda>c. c = CHR ''/'') (CHR ''/'' # folder @ CHR ''/'' # rest) = folder @ CHR ''/'' # rest"
    using right [OF assms(3,4), of "folder @ [CHR ''/'']"] by (simp add: trim_func_def drop1)
  moreover have "trim_func (\<lambda>c. c = CHR ''/'') (CHR ''/'' # folder) = folder"
    using right [OF assms(2) last_ne, of "[]"] drop1 [of "[]"] by (simp add: trim_func_def)
  ultimately show ?thesis using assms(1) by (simp add: RemoveRootFolderFromPath_def)
qed

theorem RemoveRootFolderFromPath_spec_witness:
  "RemoveRootFolderFromPath ''/a/b'' = (''/b'', ''a'') \<and> RemoveRootFolderFromPath ''/a'' = ([], [])"
  using RemoveRootFolderFromPath_spec [of "''a''" "''b''"] by simp

end
