(* ===== verification/Dataset_Writer.thy ===== *)
theory Dataset_Writer
  imports Prelude
begin

text \<open>
  The batching writer of \<open>internal/util/dataset_writer.go\<close>. The callback \<open>upsert\<close> stores a batch
  in a database; it is a parameter on the database state, and gives the error it returned, if any.
  \<open>zero\<close> is the zero value of the item type, which fills the buffer made by \<open>NewDatasetWriter\<close>.
  Logging and sleeping between batches have no effect on the state and are left out.
\<close>

record 'a dataset_writer =
  w_batch_idx :: nat
  w_batch_size :: nat
  w_idx :: nat
  w_is_done :: bool
  w_items :: "'a list"
  w_sleep_duration :: int

record dataset_writer_config =
  wc_BatchSize :: nat
  wc_SleepDuration :: int

text \<open>An \<open>upsert\<close> that failed, and the index panic of a write into a full buffer.\<close>

datatype write_error = UpsertError string | IndexPanic

definition NewDatasetWriter :: "'a \<Rightarrow> dataset_writer_config \<Rightarrow> 'a dataset_writer" where
  "NewDatasetWriter zero conf =
     (let batch_size = (if wc_BatchSize conf = 0 then 500 else wc_BatchSize conf);
          sleep = (if wc_SleepDuration conf = 0 then 250 * 1000000 else wc_SleepDuration conf)
      in \<lparr>w_batch_idx = 0, w_batch_size = batch_size, w_idx = 0, w_is_done = False,
          w_items = replicate batch_size zero, w_sleep_duration = sleep\<rparr>)"

definition writer_Write ::
  "('d \<Rightarrow> 'a list \<Rightarrow> string option \<times> 'd) \<Rightarrow> 'a dataset_writer \<times> 'd \<Rightarrow> 'a option
     \<Rightarrow> write_error option \<times> 'a dataset_writer \<times> 'd" where
  "writer_Write upsert wd t =
     (case wd of (w, d) \<Rightarrow>
        if w_is_done w then (None, w, d)
        else case t of
            None \<Rightarrow> (None, w, d)
          | Some x \<Rightarrow>
              if length (w_items w) \<le> w_idx w then (Some IndexPanic, w, d)
              else
                let w1 = w\<lparr>w_items := (w_items w)[w_idx w := x], w_idx := w_idx w + 1\<rparr> in
                if w_idx w1 = w_batch_size w1
                then let w2 = w1\<lparr>w_batch_idx := w_batch_idx w1 + 1\<rparr> in
                  (case upsert d (w_items w2) of
                     (Some e, d') \<Rightarrow> (Some (UpsertError e), w2, d')
                   | (None, d') \<Rightarrow> (None, w2\<lparr>w_idx := 0\<rparr>, d'))
                else (None, w1, d))"

definition writer_Done ::
  "('d \<Rightarrow> 'a list \<Rightarrow> string option \<times> 'd) \<Rightarrow> 'a dataset_writer \<times> 'd
     \<Rightarrow> write_error option \<times> 'a dataset_writer \<times> 'd" where
  "writer_Done upsert wd =
     (case wd of (w, d) \<Rightarrow>
        if w_is_done w then (None, w, d)
        else let w1 = w\<lparr>w_is_done := True, w_items := take (w_idx w) (w_items w)\<rparr> in
          (case upsert d (w_items w1) of
             (Some e, d') \<Rightarrow> (Some (UpsertError e), w1, d')
           | (None, d') \<Rightarrow> (None, w1\<lparr>w_is_done := True\<rparr>, d')))"

text \<open>
  What every caller does: write the items one after the other, return the first error, and flush
  with \<open>Done\<close> at the end.
\<close>

fun write_all ::
  "('d \<Rightarrow> 'a list \<Rightarrow> string option \<times> 'd) \<Rightarrow> 'a dataset_writer \<times> 'd \<Rightarrow> 'a option list
     \<Rightarrow> write_error option \<times> 'a dataset_writer \<times> 'd" where
  "write_all upsert wd [] = writer_Done upsert wd"
| "write_all upsert wd (t # ts) =
     (case writer_Write upsert wd t of
        (Some e, wd') \<Rightarrow> (Some e, wd')
      | (None, wd') \<Rightarrow> write_all upsert wd' ts)"

section \<open>Invariant\<close>

text \<open>An open writer has room for one more item, and what it holds is the first \<open>w_idx\<close> items.\<close>

definition writer_ok :: "'a dataset_writer \<Rightarrow> bool" where
  "writer_ok w \<longleftrightarrow> \<not> w_is_done w \<and> 0 < w_batch_size w \<and> length (w_items w) = w_batch_size w \<and> w_idx w < w_batch_size w"

definition pending :: "'a dataset_writer \<Rightarrow> 'a list" where
  "pending w = take (w_idx w) (w_items w)"

lemma writer_ok_New [simp]: "writer_ok (NewDatasetWriter zero conf)"
  by (simp add: writer_ok_def NewDatasetWriter_def Let_def)

lemma pending_New [simp]: "pending (NewDatasetWriter zero conf) = []"
  by (simp add: pending_def NewDatasetWriter_def Let_def)

text \<open>
  The upsert that records its calls and fails as the pattern \<open>fails\<close> says (\<open>fails n\<close> is what
  call number \<open>n\<close> returns): the log of batches stands for the database.
\<close>

definition log_upsert :: "(nat \<Rightarrow> string option) \<Rightarrow> 'a list list \<Rightarrow> 'a list \<Rightarrow> string option \<times> 'a list list" where
  "log_upsert fails lg xs = (fails (length lg), lg @ [xs])"

lemma Write_None [simp]: "writer_Write upsert (w, d) None = (None, w, d)"
  by (simp add: writer_Write_def)

lemma Write_ok:
  assumes "writer_ok w" and "writer_Write (log_upsert fails) (w, lg) (Some x) = (None, w', lg')"
  shows "writer_ok w' \<and> w_batch_size w' = w_batch_size w \<and> concat lg' @ pending w' = (concat lg @ pending w) @ [x]
    \<and> (\<forall>b \<in> set lg'. b \<in> set lg \<or> length b = w_batch_size w)"
proof (cases "w_idx w + 1 = w_batch_size w")
  case True
  with assms have "(w_items w)[w_idx w := x] = pending w @ [x]"
    by (simp add: writer_ok_def pending_def upd_conv_take_nth_drop)
  with True assms show ?thesis
    by (auto simp: writer_Write_def writer_ok_def log_upsert_def Let_def pending_def split: option.splits if_splits)
next
  case False
  with assms show ?thesis
    by (auto simp: writer_Write_def writer_ok_def Let_def pending_def take_Suc_conv_app_nth split: if_splits)
qed

lemma Write_error:
  assumes "writer_ok w" and "writer_Write (log_upsert fails) (w, lg) (Some x) = (Some e, w', lg')"
  shows "(\<exists>m. e = UpsertError m) \<and> concat lg' = (concat lg @ pending w) @ [x]
    \<and> w_idx w' = length (w_items w') \<and> \<not> w_is_done w'"
proof -
  from assms have full: "w_idx w + 1 = w_batch_size w"
    by (auto simp: writer_Write_def writer_ok_def Let_def split: if_splits)
  with assms have "(w_items w)[w_idx w := x] = pending w @ [x]"
    by (simp add: writer_ok_def pending_def upd_conv_take_nth_drop)
  with full assms show ?thesis
    by (auto simp: writer_Write_def writer_ok_def log_upsert_def Let_def pending_def split: option.splits if_splits)
qed

lemma Done_ok:
  assumes "writer_ok w" and "writer_Done (log_upsert fails) (w, lg) = (r, w', lg')"
  shows "lg' = lg @ [pending w] \<and> w_is_done w'"
  using assms by (auto simp: writer_Done_def writer_ok_def log_upsert_def Let_def pending_def split: option.splits)

lemma write_all_ok:
  assumes "write_all (log_upsert fails) (w, lg) ts = (None, w', lg')" and "writer_ok w"
    and "\<forall>b \<in> set lg. length b = w_batch_size w"
  shows "concat lg' = concat lg @ pending w @ somes ts
    \<and> (\<forall>b \<in> set (butlast lg'). length b = w_batch_size w) \<and> lg' \<noteq> [] \<and> w_is_done w'"
  using assms
proof (induction ts arbitrary: w lg)
  case Nil
  then show ?case using Done_ok [of w fails lg None w' lg']
    by simp
next
  case (Cons t ts)
  show ?case
  proof (cases t)
    case None
    with Cons show ?thesis by simp
  next
    case (Some x)
    obtain r w1 lg1 where wr: "writer_Write (log_upsert fails) (w, lg) (Some x) = (r, w1, lg1)"
      by (metis prod_cases3)
    with Some Cons.prems(1) have r: "r = None" and rest: "write_all (log_upsert fails) (w1, lg1) ts = (None, w', lg')"
      by (auto split: option.splits)
    note ok = Write_ok [OF Cons.prems(2) wr [unfolded r]]
    then have "\<forall>b \<in> set lg1. length b = w_batch_size w1" using Cons.prems(3) by auto
    from Cons.IH [OF rest _ this] ok Some show ?thesis by simp
  qed
qed

lemma write_all_error:
  assumes "write_all (log_upsert fails) (w, lg) ts = (Some e, w', lg')" and "writer_ok w"
  shows "(\<exists>m. e = UpsertError m) \<and> (\<exists>k. concat lg' = concat lg @ pending w @ take k (somes ts))"
  using assms
proof (induction ts arbitrary: w lg)
  case Nil
  then have "lg' = lg @ [pending w]" using Done_ok [of w fails lg "Some e" w' lg'] by simp
  with Nil show ?case
    by (auto simp: writer_Done_def writer_ok_def log_upsert_def Let_def split: option.splits if_splits)
next
  case (Cons t ts)
  show ?case
  proof (cases t)
    case None
    with Cons show ?thesis by simp
  next
    case (Some x)
    obtain r w1 lg1 where wr: "writer_Write (log_upsert fails) (w, lg) (Some x) = (r, w1, lg1)"
      by (metis prod_cases3)
    show ?thesis
    proof (cases r)
      case None
      with Some wr Cons.prems have rest: "write_all (log_upsert fails) (w1, lg1) ts = (Some e, w', lg')" by simp
      note ok = Write_ok [OF Cons.prems(2) wr [unfolded None]]
      from Cons.IH [OF rest] ok obtain k where
        "(\<exists>m. e = UpsertError m) \<and> concat lg' = concat lg1 @ pending w1 @ take k (somes ts)" by blast
      with ok have "(\<exists>m. e = UpsertError m) \<and> concat lg' = concat lg @ pending w @ x # take k (somes ts)"
        by (metis append.assoc append_Cons append_Nil)
      then show ?thesis using Some
        by (auto intro: exI [of _ "Suc k"])
    next
      case (Some e')
      with \<open>t = Some x\<close> wr Cons.prems have "e' = e" "lg1 = lg'" by auto
      with Write_error [OF Cons.prems(2) wr [unfolded Some]] \<open>t = Some x\<close> show ?thesis
        by (auto intro: exI [of _ 1])
    qed
  qed
qed

section \<open>Properties\<close>

text \<open>
  C30: whatever the upsert callback does, what reaches it is the items in order: after a run without
  an error the batches concatenate to exactly the items that were not nil and every batch but the
  last is full; after a run with an error they concatenate to a prefix of the items, and the error
  is one the callback returned, never an index panic.
\<close>

theorem write_all_batches:
  "case write_all (log_upsert fails) (NewDatasetWriter zero conf, []) ts of
     (None, w, lg) \<Rightarrow> concat lg = somes ts \<and> lg \<noteq> [] \<and> w_is_done w
        \<and> (\<forall>b \<in> set (butlast lg). length b = w_batch_size (NewDatasetWriter zero conf))
   | (Some e, w, lg) \<Rightarrow> (\<exists>m. e = UpsertError m) \<and> (\<exists>k. concat lg = take k (somes ts))"
  using write_all_ok [of fails "NewDatasetWriter zero conf" "[]" ts] write_all_error [of fails "NewDatasetWriter zero conf" "[]" ts]
  by (fastforce split: prod.splits option.splits)

theorem write_all_batches_witness:
  "concat (snd (snd (write_all (log_upsert (\<lambda>n. None)) (NewDatasetWriter 0 \<lparr>wc_BatchSize = 2, wc_SleepDuration = 0\<rparr>, [])
      [Some 1, None, Some 2, Some (3 :: nat)]))) = [1, 2, 3]"
  using write_all_batches [where fails = "\<lambda>n. None" and zero = "0 :: nat"
    and conf = "\<lparr>wc_BatchSize = 2, wc_SleepDuration = 0\<rparr>" and ts = "[Some 1, None, Some 2, Some 3]"]
  by (simp add: writer_Write_def writer_Done_def NewDatasetWriter_def log_upsert_def Let_def)

text \<open>
  a writer whose upsert failed on a full batch keeps the full buffer: the next write of an item is
  an index panic, whatever the callback would do then.
\<close>

theorem Write_after_failed_batch:
  assumes "writer_ok w" and "writer_Write upsert (w, d) (Some x) = (Some e, w', d')"
  shows "writer_Write upsert' (w', d'') (Some y) = (Some IndexPanic, w', d'')"
  using assms
  by (auto simp: writer_Write_def writer_ok_def Let_def split: option.splits if_splits prod.splits)

theorem Write_after_failed_batch_witness:
  "\<exists>w w'. writer_Write (\<lambda>d xs. (Some ''down'', d)) (w, ()) (Some (7 :: nat)) = (Some (UpsertError ''down''), w', ())
    \<and> writer_Write (\<lambda>d xs. (None, d)) (w', ()) (Some 8) = (Some IndexPanic, w', ())"
proof -
  let ?w = "NewDatasetWriter (0 :: nat) \<lparr>wc_BatchSize = 1, wc_SleepDuration = 0\<rparr>"
  have "writer_Write (\<lambda>d xs. (Some ''down'', d)) (?w, ()) (Some 7)
      = (Some (UpsertError ''down''), ?w\<lparr>w_items := [7], w_idx := 1, w_batch_idx := 1\<rparr>, ())"
    by (simp add: writer_Write_def NewDatasetWriter_def Let_def)
  from this Write_after_failed_batch [OF writer_ok_New this, of "\<lambda>d xs. (None, d)" "()" 8] show ?thesis by blast
qed

end
