(* ===== verification/Dataset_Files.thy ===== *)
theory Dataset_Files
  imports Prelude
begin

text \<open>
  The files of a dataset (\<open>internal/util/dataset.go\<close>): which file is the current one, which is the
  previous one, what is removed and how the current one is downloaded and extracted.

  The directory is an association list from file names to contents, in the order of a directory
  listing. What the operating system and the network answer is an environment: \<open>env_fails\<close> says which
  file operation returns an error other than "does not exist", \<open>env_http\<close> is the answer of the
  server (\<open>None\<close> when the request failed, else the body that arrived and whether it was complete),
  \<open>env_gunzip\<close> and \<open>env_unxz\<close> are the decompressors (the text they produced and whether they
  reached the end without an error). Dates have the resolution of the file name prefix, one hour. The time of the
  download is one value for a whole run.
  A name holds no character special to \<open>fs.Glob\<close>, and no more than 12 files are sorted.
\<close>

section \<open>Dates\<close>

record stamp =
  st_year :: nat
  st_month :: nat
  st_day :: nat
  st_hour :: nat

definition digits_nat :: "string \<Rightarrow> nat option" where
  "digits_nat s = (if list_all is_digit s then Some (nat (digits_val 0 s)) else None)"

definition days_in :: "nat \<Rightarrow> nat \<Rightarrow> nat" where
  "days_in m y =
     (if m = 2 then (if 4 dvd y \<and> (\<not> 100 dvd y \<or> 400 dvd y) then 29 else 28)
      else if m \<in> {4, 6, 9, 11} then 30 else 31)"

text \<open>\<open>time.Time.Format\<close> and \<open>time.Parse\<close> with the layout \<open>2006-01-02-15\<close>.\<close>

definition prefix_time_length :: nat where
  "prefix_time_length = 13"

definition format_stamp :: "stamp \<Rightarrow> string" where
  "format_stamp t = pad_digits 4 (st_year t) @ CHR ''-'' # pad_digits 2 (st_month t)
     @ CHR ''-'' # pad_digits 2 (st_day t) @ CHR ''-'' # pad_digits 2 (st_hour t)"

definition parse_stamp :: "string \<Rightarrow> stamp option" where
  "parse_stamp s =
     (if length s \<noteq> 13 \<or> s ! 4 \<noteq> CHR ''-'' \<or> s ! 7 \<noteq> CHR ''-'' \<or> s ! 10 \<noteq> CHR ''-'' then None
      else case (digits_nat (take 4 s), digits_nat (take 2 (drop 5 s)),
                 digits_nat (take 2 (drop 8 s)), digits_nat (take 2 (drop 11 s))) of
          (Some y, Some m, Some d, Some h) \<Rightarrow>
            if 1 \<le> m \<and> m \<le> 12 \<and> 1 \<le> d \<and> d \<le> days_in m y \<and> h < 24
            then Some \<lparr>st_year = y, st_month = m, st_day = d, st_hour = h\<rparr> else None
        | _ \<Rightarrow> None)"

definition stamp_key :: "stamp \<Rightarrow> nat" where
  "stamp_key t = ((st_year t * 12 + st_month t) * 32 + st_day t) * 24 + st_hour t"

text \<open>\<open>time.Time.Compare\<close>.\<close>

definition stamp_compare :: "stamp \<Rightarrow> stamp \<Rightarrow> int" where
  "stamp_compare a b =
     (if stamp_key a < stamp_key b then - 1 else if stamp_key b < stamp_key a then 1 else 0)"

section \<open>The dataset and its directory\<close>

datatype fs_op = OpDir | OpGlob string | OpStat string | OpRemove string | OpCreate string | OpOpen string

record dataset_env =
  env_fails :: "fs_op \<Rightarrow> bool"
  env_http :: "(string \<times> bool) option"
  env_gunzip :: "string \<Rightarrow> (string \<times> bool) option"
  env_unxz :: "string \<Rightarrow> string \<times> bool"

type_synonym directory = "(string \<times> string) list"

record dataset_config =
  dc_Archive :: string
  dc_DownloadDir :: string
  dc_GetDownloadFileTime :: "stamp option"
  dc_IsStale :: "stamp \<Rightarrow> bool"
  dc_Name :: string
  dc_URL :: string

record dataset =
  ds_Name :: string
  ds_archive_ext :: string
  ds_curr_filename :: string
  ds_download_dir :: string
  ds_download_dir_exists :: bool
  ds_file_time :: stamp
  ds_is_stale :: "stamp \<Rightarrow> bool"
  ds_prev_filename :: string
  ds_url :: string

text \<open>A failed operation, and the panic of slicing a name shorter than the date prefix.\<close>

datatype dataset_error = DsError string | DsPanic

text \<open>\<open>filepath.Base\<close>.\<close>

definition filepath_base :: "string \<Rightarrow> string" where
  "filepath_base p =
     (if p = [] then ''.''
      else let q = trim_right (\<lambda>c. c = CHR ''/'') p in
        if q = [] then ''/'' else rev (takeWhile (\<lambda>c. c \<noteq> CHR ''/'') (rev q)))"

text \<open>\<open>NewDataset\<close>; \<open>now\<close> is the time of the clock. \<open>None\<close> is a panic.\<close>

definition NewDataset :: "stamp \<Rightarrow> dataset_config \<Rightarrow> dataset option" where
  "NewDataset now conf =
     (let nm = (if dc_Name conf = [] then filepath_base (dc_URL conf) else dc_Name conf) in
      if dc_DownloadDir conf = [] then None
      else if dc_Archive conf \<noteq> [] \<and> dc_Archive conf \<noteq> ''gz'' \<and> dc_Archive conf \<noteq> ''xz'' then None
      else
        let ext = (if dc_Archive conf \<noteq> [] then CHR ''.'' # dc_Archive conf else []);
            nm' = (if dc_Archive conf \<noteq> [] then trim_suffix nm ext else nm)
        in Some \<lparr>ds_Name = nm', ds_archive_ext = ext, ds_curr_filename = [],
             ds_download_dir = dc_DownloadDir conf, ds_download_dir_exists = False,
             ds_file_time = (case dc_GetDownloadFileTime conf of None \<Rightarrow> now | Some t \<Rightarrow> t),
             ds_is_stale = dc_IsStale conf, ds_prev_filename = [], ds_url = dc_URL conf\<rparr>)"

definition ensureDownloadDir :: "dataset_env \<Rightarrow> dataset \<Rightarrow> dataset_error + dataset" where
  "ensureDownloadDir env ds =
     (if ds_download_dir_exists ds then Inr ds
      else if env_fails env OpDir then Inl (DsError ''ensure dir'')
      else Inr (ds\<lparr>ds_download_dir_exists := True\<rparr>))"

definition ds_list :: "dataset_env \<Rightarrow> dataset \<Rightarrow> directory \<Rightarrow> bool \<Rightarrow> dataset_error + string list" where
  "ds_list env ds dir includeArchives =
     (let pat = CHR ''-'' # ds_Name ds; glob = (\<lambda>p. filter (\<lambda>f. has_suffix f p) (map fst dir)) in
      if env_fails env (OpGlob pat) then Inl (DsError ''glob'')
      else if includeArchives \<and> ds_archive_ext ds \<noteq> [] then
        (if env_fails env (OpGlob (pat @ ds_archive_ext ds)) then Inl (DsError ''glob'')
         else Inr (glob pat @ glob (pat @ ds_archive_ext ds)))
      else Inr (glob pat))"

definition removeFile :: "dataset_env \<Rightarrow> directory \<Rightarrow> string \<Rightarrow> directory" where
  "removeFile env dir f = (if env_fails env (OpRemove f) then dir else filter (\<lambda>x. fst x \<noteq> f) dir)"

definition stamp_of :: "string \<Rightarrow> stamp option" where
  "stamp_of f = parse_stamp (take prefix_time_length f)"

text \<open>What \<open>parseTime\<close> does to the directory when the date does not parse.\<close>

definition drop_unparsed :: "dataset_env \<Rightarrow> dataset \<Rightarrow> directory \<Rightarrow> string \<Rightarrow> directory" where
  "drop_unparsed env ds dir f =
     (let dir1 = removeFile env dir f in
      if ds_archive_ext ds \<noteq> [] then removeFile env dir1 (f @ ds_archive_ext ds) else dir1)"

definition parseTime :: "dataset_env \<Rightarrow> dataset \<Rightarrow> directory \<Rightarrow> string \<Rightarrow> dataset_error + (stamp option \<times> directory)" where
  "parseTime env ds dir f =
     (if length f < prefix_time_length then Inl DsPanic
      else case stamp_of f of
          Some t \<Rightarrow> Inr (Some t, dir)
        | None \<Rightarrow> Inr (None, drop_unparsed env ds dir f))"

definition isStale :: "dataset_env \<Rightarrow> dataset \<Rightarrow> directory \<Rightarrow> string \<Rightarrow> dataset_error + (bool \<times> directory)" where
  "isStale env ds dir f =
     (if f = [] then Inr (True, dir)
      else case parseTime env ds dir f of
          Inl e \<Rightarrow> Inl e
        | Inr (None, dir') \<Rightarrow> Inr (True, dir')
        | Inr (Some t, dir') \<Rightarrow> Inr (ds_is_stale ds t, dir'))"

definition has_file :: "directory \<Rightarrow> string \<Rightarrow> bool" where
  "has_file dir f \<longleftrightarrow> f \<in> fst ` set dir"

definition FileExists :: "dataset_env \<Rightarrow> directory \<Rightarrow> string \<Rightarrow> string + bool" where
  "FileExists env dir f =
     (if f = [] then Inl ''not a file''
      else if env_fails env (OpStat f) then Inl ''stat''
      else Inr (has_file dir f))"

text \<open>
  The comparison of \<open>prepareFilenames\<close>, and the comparisons the insertion sort makes, in order:
  parsing a name has the effect of removing a file whose name has no date.
\<close>

definition file_cmp :: "string \<Rightarrow> string \<Rightarrow> int" where
  "file_cmp a b =
     (case stamp_of a of None \<Rightarrow> 0
      | Some s \<Rightarrow> (case stamp_of b of None \<Rightarrow> 0 | Some t \<Rightarrow> stamp_compare s t))"

fun sink_cmps :: "('a \<Rightarrow> 'a \<Rightarrow> bool) \<Rightarrow> 'a \<Rightarrow> 'a list \<Rightarrow> ('a \<times> 'a) list" where
  "sink_cmps lt x [] = []"
| "sink_cmps lt x (y # ys) = (x, y) # (if lt x y then sink_cmps lt x ys else [])"

fun sort_cmps :: "('a \<Rightarrow> 'a \<Rightarrow> bool) \<Rightarrow> 'a list \<Rightarrow> 'a list \<Rightarrow> ('a \<times> 'a) list" where
  "sort_cmps lt acc [] = []"
| "sort_cmps lt acc (x # xs) = sink_cmps lt x acc @ sort_cmps lt (sink lt x acc) xs"

fun parsed_names :: "(string \<times> string) list \<Rightarrow> string list" where
  "parsed_names [] = []"
| "parsed_names ((a, b) # ps) = (if stamp_of a = None then [a] else [a, b]) @ parsed_names ps"

definition sortFilenames ::
  "dataset_env \<Rightarrow> dataset \<Rightarrow> directory \<Rightarrow> string list \<Rightarrow> dataset_error + (string list \<times> directory)" where
  "sortFilenames env ds dir filenames =
     (let ps = parsed_names (sort_cmps (cmp_less file_cmp) [] filenames) in
      if \<exists>f \<in> set ps. length f < prefix_time_length then Inl DsPanic
      else Inr (go_stable_sort (cmp_less file_cmp) filenames,
                foldl (drop_unparsed env ds) dir (filter (\<lambda>f. stamp_of f = None) ps)))"

definition new_filename :: "dataset \<Rightarrow> string" where
  "new_filename ds = format_stamp (ds_file_time ds) @ CHR ''-'' # ds_Name ds"

definition chooseFilenames :: "dataset \<Rightarrow> bool \<Rightarrow> string list \<Rightarrow> dataset" where
  "chooseFilenames ds stale filenames =
     (let lastFilename = (if filenames \<noteq> [] then last filenames else []) in
      if stale then ds\<lparr>ds_curr_filename := new_filename ds, ds_prev_filename := lastFilename\<rparr>
      else ds\<lparr>ds_curr_filename := lastFilename,
              ds_prev_filename := (if 1 < length filenames then filenames ! (length filenames - 2) else [])\<rparr>)"

definition confirmFilenames :: "dataset_env \<Rightarrow> directory \<Rightarrow> dataset \<Rightarrow> dataset" where
  "confirmFilenames env dir ds =
     (let ds1 = (if FileExists env dir (ds_curr_filename ds) = Inr True then ds
                 else ds\<lparr>ds_curr_filename := new_filename ds\<rparr>)
      in if ds_prev_filename ds1 \<noteq> [] \<and> FileExists env dir (ds_prev_filename ds1) \<noteq> Inr True
         then ds1\<lparr>ds_prev_filename := []\<rparr> else ds1)"

definition prepareFilenames :: "dataset_env \<Rightarrow> dataset \<Rightarrow> directory \<Rightarrow> dataset_error + (dataset \<times> directory)" where
  "prepareFilenames env ds dir =
     (if ds_prev_filename ds \<noteq> [] then Inr (ds, dir)
      else case ds_list env ds dir False of
          Inl e \<Rightarrow> Inl e
        | Inr names \<Rightarrow>
            (case sortFilenames env ds dir names of
               Inl e \<Rightarrow> Inl e
             | Inr (filenames, dir1) \<Rightarrow>
                 (case isStale env ds dir1 (if filenames \<noteq> [] then last filenames else []) of
                    Inl e \<Rightarrow> Inl e
                  | Inr (stale, dir2) \<Rightarrow>
                      Inr (confirmFilenames env dir2 (chooseFilenames ds stale filenames), dir2))))"

definition kept :: "dataset \<Rightarrow> string \<Rightarrow> bool" where
  "kept ds f \<longleftrightarrow> has_prefix f (ds_curr_filename ds) \<or> has_prefix f (ds_prev_filename ds)"

definition cleanup :: "dataset_env \<Rightarrow> dataset \<Rightarrow> directory \<Rightarrow> dataset_error + directory" where
  "cleanup env ds dir =
     (case ds_list env ds dir True of
        Inl e \<Rightarrow> Inl e
      | Inr filenames \<Rightarrow> Inr (foldl (\<lambda>dir f. if kept ds f then dir else removeFile env dir f) dir filenames))"

definition write_file :: "directory \<Rightarrow> string \<Rightarrow> string \<Rightarrow> directory" where
  "write_file dir f content =
     (if has_file dir f then map (\<lambda>(g, c). if g = f then (g, content) else (g, c)) dir
      else insort_key fst (f, content) dir)"

text \<open>The request: a failed body leaves what arrived in the file.\<close>

definition fetch :: "dataset_env \<Rightarrow> directory \<Rightarrow> string \<Rightarrow> string option \<times> directory" where
  "fetch env dir dlFilename =
     (case env_http env of
        None \<Rightarrow> (Some ''request'', dir)
      | Some (body, complete) \<Rightarrow>
          if env_fails env (OpCreate dlFilename) then (Some ''create'', dir)
          else (if complete then None else Some ''copy'', write_file dir dlFilename body))"

text \<open>Extracting: an error while copying returns no error (\<open>return nil\<close> in the source).\<close>

definition extract_to :: "dataset_env \<Rightarrow> directory \<Rightarrow> string \<Rightarrow> string \<Rightarrow> string \<times> bool \<Rightarrow> string option \<times> directory" where
  "extract_to env dir filename dlFilename r =
     (if env_fails env (OpCreate filename) then (Some ''create'', dir)
      else let dir1 = write_file dir filename (fst r) in
        if \<not> snd r then (None, dir1) else (None, removeFile env dir1 dlFilename))"

definition extractArchive :: "dataset_env \<Rightarrow> dataset \<Rightarrow> directory \<Rightarrow> string \<Rightarrow> string \<Rightarrow> string option \<times> directory" where
  "extractArchive env ds dir filename dlFilename =
     (if ds_archive_ext ds = ''.gz'' then
        (case map_of dir dlFilename of
           None \<Rightarrow> (Some ''open'', dir)
         | Some c \<Rightarrow>
             if env_fails env (OpOpen dlFilename) then (Some ''open'', dir)
             else (case env_gunzip env c of
                     None \<Rightarrow> (Some ''gzip'', dir)
                   | Some r \<Rightarrow> extract_to env dir filename dlFilename r))
      else if ds_archive_ext ds = ''.xz'' then
        (case map_of dir dlFilename of
           None \<Rightarrow> (Some ''open'', dir)
         | Some c \<Rightarrow>
             if env_fails env (OpOpen dlFilename) then (Some ''open'', dir)
             else extract_to env dir filename dlFilename (env_unxz env c))
      else (None, dir))"

definition download :: "dataset_env \<Rightarrow> dataset \<Rightarrow> directory \<Rightarrow> string option \<times> directory" where
  "download env ds dir =
     (let filename = ds_curr_filename ds; dlFilename = filename @ ds_archive_ext ds in
      case FileExists env dir filename of
        Inl e \<Rightarrow> (Some e, dir)
      | Inr True \<Rightarrow> (None, dir)
      | Inr False \<Rightarrow>
          (case FileExists env dir dlFilename of
             Inl e \<Rightarrow> (Some e, dir)
           | Inr True \<Rightarrow> extractArchive env ds dir filename dlFilename
           | Inr False \<Rightarrow>
               (case fetch env dir dlFilename of
                  (Some e, dir1) \<Rightarrow> (Some e, dir1)
                | (None, dir1) \<Rightarrow> extractArchive env ds dir1 filename dlFilename)))"

definition Init :: "dataset_env \<Rightarrow> dataset \<Rightarrow> directory \<Rightarrow> dataset_error option \<times> dataset \<times> directory" where
  "Init env ds dir =
     (case ensureDownloadDir env ds of
        Inl e \<Rightarrow> (Some e, ds, dir)
      | Inr ds0 \<Rightarrow>
          (case prepareFilenames env ds0 dir of
             Inl e \<Rightarrow> (Some e, ds0, dir)
           | Inr (ds1, dir1) \<Rightarrow>
               (case (if ds_prev_filename ds1 \<noteq> [] then cleanup env ds1 dir1 else Inr dir1) of
                  Inl e \<Rightarrow> (Some e, ds1, dir1)
                | Inr dir2 \<Rightarrow>
                    (case download env ds1 dir2 of
                       (Some e, dir3) \<Rightarrow> (Some (DsError e), ds1, dir3)
                     | (None, dir3) \<Rightarrow> (None, ds1, dir3)))))"

section \<open>Lemmas on dates\<close>

definition valid_stamp :: "stamp \<Rightarrow> bool" where
  "valid_stamp t \<longleftrightarrow> st_year t < 10000 \<and> 1 \<le> st_month t \<and> st_month t \<le> 12
     \<and> 1 \<le> st_day t \<and> st_day t \<le> days_in (st_month t) (st_year t) \<and> st_hour t < 24"

lemma digits_nat_pad: "n < 10 ^ k \<Longrightarrow> digits_nat (pad_digits k n) = Some n"
  by (simp add: digits_nat_def pad_digits_are_digits digits_val_pad)

lemma days_in_bound: "days_in m y \<le> 31"
  by (simp add: days_in_def)

lemma parse_format_stamp:
  assumes "valid_stamp t"
  shows "parse_stamp (format_stamp t) = Some t"
proof -
  let ?y = "pad_digits 4 (st_year t)" and ?m = "pad_digits 2 (st_month t)"
  let ?d = "pad_digits 2 (st_day t)" and ?h = "pad_digits 2 (st_hour t)"
  have d: "st_day t < 100" using assms days_in_bound [of "st_month t" "st_year t"] by (simp add: valid_stamp_def)
  have parts: "digits_nat ?y = Some (st_year t)" "digits_nat ?m = Some (st_month t)"
    "digits_nat ?d = Some (st_day t)" "digits_nat ?h = Some (st_hour t)"
    using assms d by (auto simp: valid_stamp_def intro!: digits_nat_pad)
  have shape: "format_stamp t = (?y @ [CHR ''-'']) @ (?m @ [CHR ''-'']) @ (?d @ [CHR ''-'']) @ ?h"
    by (simp add: format_stamp_def)
  have nths: "format_stamp t ! 4 = CHR ''-''" "format_stamp t ! 7 = CHR ''-''" "format_stamp t ! 10 = CHR ''-''"
    unfolding shape by (simp_all add: nth_append)
  have takes: "take 4 (format_stamp t) = ?y" "take 2 (drop 5 (format_stamp t)) = ?m"
    "take 2 (drop 8 (format_stamp t)) = ?d" "take 2 (drop 11 (format_stamp t)) = ?h"
    unfolding shape by simp_all
  have "length (format_stamp t) = 13" unfolding shape by simp
  then show ?thesis
    using assms by (simp add: parse_stamp_def nths takes parts valid_stamp_def)
qed

lemma length_format_stamp [simp]: "length (format_stamp t) = 13"
  by (simp add: format_stamp_def)

lemma stamp_of_new_filename: "valid_stamp (ds_file_time ds) \<Longrightarrow> stamp_of (new_filename ds) = Some (ds_file_time ds)"
  by (simp add: stamp_of_def new_filename_def prefix_time_length_def parse_format_stamp)

lemma stamp_of_length: "stamp_of f = Some t \<Longrightarrow> prefix_time_length \<le> length f"
  by (auto simp: stamp_of_def parse_stamp_def prefix_time_length_def split: if_splits)

section \<open>Lemmas on the file names\<close>

text \<open>On names with a date the comparison is a weak order, so the sort is by date.\<close>

lemma file_cmp_dated:
  "stamp_of a = Some s \<Longrightarrow> stamp_of b = Some t \<Longrightarrow> file_cmp a b = stamp_compare s t"
  by (simp add: file_cmp_def)

interpretation file_order: three_way file_cmp "\<lambda>f. stamp_of f \<noteq> None"
  by unfold_locales (auto simp: file_cmp_dated stamp_compare_def split: if_splits)

definition file_key :: "string \<Rightarrow> nat" where
  "file_key f = stamp_key (the (stamp_of f))"

lemma cmp_less_file_cmp:
  "stamp_of a \<noteq> None \<Longrightarrow> stamp_of b \<noteq> None \<Longrightarrow> cmp_less file_cmp a b \<longleftrightarrow> file_key a < file_key b"
  by (auto simp: cmp_less_def file_cmp_dated stamp_compare_def file_key_def split: if_splits)

lemma sorted_last_max:
  "sorted_wrt (\<lambda>a b. \<not> cmp_less file_cmp b a) fs \<Longrightarrow> \<forall>f \<in> set fs. stamp_of f \<noteq> None
    \<Longrightarrow> g \<in> set fs \<Longrightarrow> file_key g \<le> file_key (last fs)"
proof (induction fs)
  case (Cons f fs)
  show ?case
  proof (cases "fs = []")
    case False
    then have l: "last fs \<in> set fs" by simp
    with Cons.prems have "\<not> cmp_less file_cmp (last fs) f" by simp
    with Cons.prems l have "file_key f \<le> file_key (last fs)" by (metis cmp_less_file_cmp list.set_intros not_less)
    with Cons False show ?thesis by auto
  qed (use Cons.prems in simp)
qed simp

lemma set_sink_cmps: "(a, b) \<in> set (sink_cmps lt x ys) \<Longrightarrow> a = x \<and> b \<in> set ys"
  by (induction ys) (auto split: if_splits)

lemma set_sort_cmps:
  "(a, b) \<in> set (sort_cmps lt acc xs) \<Longrightarrow> a \<in> set xs \<and> b \<in> set acc \<union> set xs"
  by (induction xs arbitrary: acc) (fastforce dest: set_sink_cmps)+

lemma set_parsed_names: "f \<in> set (parsed_names ps) \<Longrightarrow> \<exists>p \<in> set ps. f = fst p \<or> f = snd p"
  by (induction ps rule: parsed_names.induct) (auto split: if_splits)

lemma set_parsed_sort: "f \<in> set (parsed_names (sort_cmps lt [] xs)) \<Longrightarrow> f \<in> set xs"
  using set_parsed_names set_sort_cmps [of _ _ lt "[]" xs] by fastforce

lemma sortFilenames_dated:
  assumes "\<forall>f \<in> set names. stamp_of f \<noteq> None"
  shows "sortFilenames env ds dir names = Inr (go_stable_sort (cmp_less file_cmp) names, dir)"
proof -
  let ?ps = "parsed_names (sort_cmps (cmp_less file_cmp) [] names)"
  have dated: "stamp_of f \<noteq> None" if "f \<in> set ?ps" for f
    using set_parsed_sort [OF that] assms by blast
  then have "\<not> (\<exists>f \<in> set ?ps. length f < prefix_time_length)" using stamp_of_length by fastforce
  moreover have "filter (\<lambda>f. stamp_of f = None) ?ps = []" using dated by (simp add: filter_empty_conv)
  ultimately show ?thesis by (simp add: sortFilenames_def)
qed

lemma isStale_dated:
  "stamp_of f = Some t \<Longrightarrow> isStale env ds dir f = Inr (ds_is_stale ds t, dir)"
  using stamp_of_length [of f t]
  by (auto simp: isStale_def parseTime_def prefix_time_length_def)

lemma confirm_existing:
  assumes "\<forall>f. \<not> env_fails env (OpStat f)" and "has_file dir (ds_curr_filename ds)" and "ds_curr_filename ds \<noteq> []"
  shows "ds_curr_filename (confirmFilenames env dir ds) = ds_curr_filename ds"
  using assms by (simp add: confirmFilenames_def FileExists_def Let_def)

lemma confirm_keeps_prev:
  assumes "\<forall>f. \<not> env_fails env (OpStat f)" and "has_file dir (ds_prev_filename ds)"
  shows "ds_prev_filename (confirmFilenames env dir ds) = ds_prev_filename ds"
  using assms by (simp add: confirmFilenames_def FileExists_def Let_def)

lemma confirm_new:
  "ds_curr_filename ds = new_filename ds \<Longrightarrow> ds_curr_filename (confirmFilenames env dir ds) = new_filename ds"
  by (simp add: confirmFilenames_def new_filename_def Let_def)

lemma confirm_prev_listed:
  "ds_prev_filename (confirmFilenames env dir ds) \<noteq> [] \<Longrightarrow>
     has_file dir (ds_prev_filename (confirmFilenames env dir ds))"
  by (auto simp: confirmFilenames_def FileExists_def Let_def split: if_splits)

lemma ds_list_sub: "ds_list env ds dir False = Inr names \<Longrightarrow> f \<in> set names \<Longrightarrow> has_file dir f"
  by (auto simp: ds_list_def has_file_def Let_def split: if_splits)

lemma new_filename_update [simp]:
  "new_filename (ds\<lparr>ds_curr_filename := a\<rparr>) = new_filename ds"
  "new_filename (ds\<lparr>ds_prev_filename := b\<rparr>) = new_filename ds"
  by (simp_all add: new_filename_def)

text \<open>The directory operations.\<close>

lemma removeFile_keeps: "f \<noteq> g \<Longrightarrow> has_file dir g \<Longrightarrow> has_file (removeFile env dir f) g"
  by (force simp: removeFile_def has_file_def)

lemma cleanup_keeps:
  assumes "cleanup env ds dir = Inr dir'" and "kept ds f" and "has_file dir f"
  shows "has_file dir' f"
proof -
  have "has_file (foldl (\<lambda>dir f. if kept ds f then dir else removeFile env dir f) dir names) f"
    if "has_file dir f" for names dir
    using that
  proof (induction names arbitrary: dir)
    case (Cons n names)
    show ?case
    proof (cases "kept ds n")
      case False
      then have "n \<noteq> f" using assms(2) by auto
      from False Cons.IH [OF removeFile_keeps [OF this Cons.prems]] show ?thesis by simp
    qed (use Cons in simp)
  qed simp
  with assms show ?thesis by (auto simp: cleanup_def split: sum.splits)
qed

lemma write_file_has [simp]: "has_file (write_file dir f c) g \<longleftrightarrow> g = f \<or> has_file dir g"
  by (force simp: write_file_def has_file_def set_insort_key)

lemma map_of_insort_other: "\<not> has_file dir g \<Longrightarrow> map_of (insort_key fst (g, c) dir) g = Some c"
  by (induction dir) (auto simp: has_file_def)

lemma map_of_write_file: "map_of (write_file dir f c) f = Some c"
proof (cases "has_file dir f")
  case True
  have "has_file dir f \<Longrightarrow> map_of (map (\<lambda>(g, c'). if g = f then (g, c) else (g, c')) dir) f = Some c"
    by (induction dir) (auto simp: has_file_def)
  with True show ?thesis by (simp add: write_file_def)
next
  case False
  then show ?thesis by (simp add: write_file_def map_of_insort_other)
qed

lemma map_of_removeFile: "f \<noteq> g \<Longrightarrow> map_of (removeFile env dir f) g = map_of dir g"
  by (simp add: removeFile_def) (induction dir; auto)

lemma extractArchive_has:
  assumes "extractArchive env ds dir f (f @ ds_archive_ext ds) = (None, dir')"
    and "ds_archive_ext ds \<in> {''.gz'', ''.xz''}"
  shows "has_file dir' f"
  using assms
  by (auto simp: extractArchive_def extract_to_def Let_def split: option.splits if_splits intro!: removeFile_keeps)

lemma extractArchive_none: "ds_archive_ext ds = [] \<Longrightarrow> extractArchive env ds dir f g = (None, dir)"
  by (simp add: extractArchive_def)

lemma fetch_has: "fetch env dir f = (None, dir') \<Longrightarrow> has_file dir' f"
  by (auto simp: fetch_def split: option.splits if_splits)

lemma download_has:
  assumes "download env ds dir = (None, dir')" and "ds_archive_ext ds \<in> {[], ''.gz'', ''.xz''}"
  shows "has_file dir' (ds_curr_filename ds)"
proof (cases "ds_archive_ext ds = []")
  case True
  with assms fetch_has show ?thesis
    by (auto simp: download_def Let_def FileExists_def extractArchive_none split: sum.splits bool.splits option.splits if_splits prod.splits)
next
  case False
  with assms(2) have ext: "ds_archive_ext ds \<in> {''.gz'', ''.xz''}" by simp
  show ?thesis using assms(1) extractArchive_has [OF _ ext]
    by (auto simp: download_def Let_def FileExists_def split: sum.splits bool.splits option.splits if_splits prod.splits)
qed

lemma extract_to_keeps:
  "extract_to env dir f a r = (e, dir') \<Longrightarrow> has_file dir g \<Longrightarrow> g \<noteq> a \<Longrightarrow> has_file dir' g"
  by (auto simp: extract_to_def Let_def split: if_splits intro!: removeFile_keeps)

lemma extractArchive_keeps:
  "extractArchive env ds dir f a = (e, dir') \<Longrightarrow> has_file dir g \<Longrightarrow> g \<noteq> a \<Longrightarrow> has_file dir' g"
  by (auto simp: extractArchive_def split: if_splits option.splits intro: extract_to_keeps [rotated])

lemma fetch_keeps: "fetch env dir f = (e, dir') \<Longrightarrow> has_file dir g \<Longrightarrow> has_file dir' g"
  by (auto simp: fetch_def split: option.splits if_splits)

lemma download_keeps:
  assumes "download env ds dir = (e, dir')" and "has_file dir g" and "g \<noteq> ds_curr_filename ds @ ds_archive_ext ds"
  shows "has_file dir' g"
  using assms(1,2) extractArchive_keeps [OF _ _ assms(3)] fetch_keeps
  by (auto simp: download_def Let_def split: sum.splits bool.splits prod.splits option.splits)

lemma prepare_prev:
  "prepareFilenames env ds dir = Inr (ds1, dir1) \<Longrightarrow> ds_prev_filename ds = [] \<Longrightarrow>
     ds_prev_filename ds1 \<noteq> [] \<Longrightarrow> has_file dir1 (ds_prev_filename ds1)"
  by (auto simp: prepareFilenames_def split: sum.splits prod.splits dest: confirm_prev_listed)

lemma ext_confirm [simp]: "ds_archive_ext (confirmFilenames env dir ds) = ds_archive_ext ds"
  by (simp add: confirmFilenames_def Let_def)

lemma ext_choose [simp]: "ds_archive_ext (chooseFilenames ds b fs) = ds_archive_ext ds"
  by (simp add: chooseFilenames_def Let_def)

lemma prepare_ext:
  "prepareFilenames env ds dir = Inr (ds1, dir1) \<Longrightarrow> ds_archive_ext ds1 = ds_archive_ext ds"
  by (auto simp: prepareFilenames_def split: sum.splits prod.splits if_splits)

lemma ensure_fields:
  "ensureDownloadDir env ds = Inr ds0 \<Longrightarrow> ds_prev_filename ds0 = ds_prev_filename ds \<and> ds_archive_ext ds0 = ds_archive_ext ds"
  by (auto simp: ensureDownloadDir_def split: if_splits)

lemma kept_prev: "kept ds (ds_prev_filename ds)"
  by (simp add: kept_def has_prefix_def)

text \<open>A directory for the witnesses.\<close>

definition sample_env :: dataset_env where
  "sample_env = \<lparr>env_fails = (\<lambda>op. False), env_http = Some (''BODY'', True),
     env_gunzip = (\<lambda>c. Some (take 2 c, False)), env_unxz = (\<lambda>c. (c, True))\<rparr>"

definition sample_dataset :: "string \<Rightarrow> dataset" where
  "sample_dataset ext = \<lparr>ds_Name = ''t'', ds_archive_ext = ext, ds_curr_filename = [], ds_download_dir = ''d'',
     ds_download_dir_exists = True, ds_file_time = \<lparr>st_year = 2024, st_month = 3, st_day = 1, st_hour = 0\<rparr>,
     ds_is_stale = (\<lambda>t. st_day t < 15), ds_prev_filename = [], ds_url = ''u''\<rparr>"

definition sample_directory :: directory where
  "sample_directory = [(''2024-02-14-23-t'', ''A''), (''2024-02-16-01-t'', ''B'')]"

section \<open>Properties\<close>

text \<open>
  among files that all carry a date, \<open>prepareFilenames\<close> finds one with the newest date; when that
  date is stale a new current file is named after the download time and the newest file becomes the
  previous one, else the newest file is the current one. No file is touched.
\<close>

theorem prepareFilenames_newest:
  assumes "ds_prev_filename ds = []" and "ds_list env ds dir False = Inr names" and "names \<noteq> []"
    and dated: "\<forall>f \<in> set names. stamp_of f \<noteq> None" and "\<forall>f. \<not> env_fails env (OpStat f)"
  shows "\<exists>f ds'. f \<in> set names \<and> (\<forall>g \<in> set names. file_key g \<le> file_key f)
    \<and> prepareFilenames env ds dir = Inr (ds', dir)
    \<and> (if ds_is_stale ds (the (stamp_of f))
       then ds_curr_filename ds' = new_filename ds \<and> ds_prev_filename ds' = f
       else ds_curr_filename ds' = f \<and> (ds_prev_filename ds' \<noteq> [] \<longrightarrow> has_file dir (ds_prev_filename ds')))"
proof -
  let ?fs = "go_stable_sort (cmp_less file_cmp) names"
  let ?f = "last ?fs"
  have ne: "?fs \<noteq> []" using assms(3) by (metis length_0_conv length_go_stable_sort)
  then have mem: "?f \<in> set names" by (metis last_in_set set_go_stable_sort)
  then obtain t where t: "stamp_of ?f = Some t" using dated by auto
  then have fne: "?f \<noteq> []" using stamp_of_length by (force simp: prefix_time_length_def)
  have dir: "has_file dir ?f" using ds_list_sub [OF assms(2) mem] .
  have "sorted_wrt (\<lambda>a b. \<not> cmp_less file_cmp b a) ?fs" using dated by (intro file_order.sw.stable_sort_sorted)
  with dated have newest: "\<forall>g \<in> set names. file_key g \<le> file_key ?f" using sorted_last_max [of ?fs] by simp
  let ?ds' = "confirmFilenames env dir (chooseFilenames ds (ds_is_stale ds t) ?fs)"
  have "prepareFilenames env ds dir = Inr (?ds', dir)"
    using assms ne by (simp add: prepareFilenames_def sortFilenames_dated isStale_dated [OF t])
  moreover have "if ds_is_stale ds t then ds_curr_filename ?ds' = new_filename ds \<and> ds_prev_filename ?ds' = ?f
      else ds_curr_filename ?ds' = ?f"
    using ne dir fne assms(5)
    by (simp add: chooseFilenames_def Let_def confirm_existing confirm_new confirm_keeps_prev)
  ultimately show ?thesis using mem newest t confirm_prev_listed
    by (intro exI [of _ ?f] exI [of _ ?ds']) auto
qed

lemma sample_stamps:
  "stamp_of ''2024-02-14-23-t'' = Some \<lparr>st_year = 2024, st_month = 2, st_day = 14, st_hour = 23\<rparr>"
  "stamp_of ''2024-02-16-01-t'' = Some \<lparr>st_year = 2024, st_month = 2, st_day = 16, st_hour = 1\<rparr>"
  by code_simp+

lemma sample_list:
  "ds_list sample_env (sample_dataset []) sample_directory False = Inr [''2024-02-14-23-t'', ''2024-02-16-01-t'']"
  by code_simp

theorem prepareFilenames_newest_witness:
  "\<exists>ds'. prepareFilenames sample_env (sample_dataset []) sample_directory = Inr (ds', sample_directory)
     \<and> ds_curr_filename ds' = ''2024-02-16-01-t''"
proof -
  obtain f ds' where f: "f \<in> set [''2024-02-14-23-t'', ''2024-02-16-01-t'']"
      "\<forall>g \<in> set [''2024-02-14-23-t'', ''2024-02-16-01-t'']. file_key g \<le> file_key f"
    and ds': "prepareFilenames sample_env (sample_dataset []) sample_directory = Inr (ds', sample_directory)"
      "if ds_is_stale (sample_dataset []) (the (stamp_of f))
       then ds_curr_filename ds' = new_filename (sample_dataset []) \<and> ds_prev_filename ds' = f
       else ds_curr_filename ds' = f \<and> (ds_prev_filename ds' \<noteq> [] \<longrightarrow> has_file sample_directory (ds_prev_filename ds'))"
    using prepareFilenames_newest [OF _ sample_list]
    by (auto simp: sample_stamps sample_dataset_def sample_env_def)
  from f have "f = ''2024-02-16-01-t''" by (auto simp: file_key_def sample_stamps stamp_key_def)
  with ds' show ?thesis by (auto simp: sample_stamps sample_dataset_def)
qed

text \<open>
  C36: when \<open>Init\<close> reports success, the current file is in the directory, and so is the previous file
  it chose (unless that name is the archive's, which is deleted after extraction).
\<close>

theorem Init_files_exist:
  assumes "Init env ds dir = (None, ds', dir')" and "ds_prev_filename ds = []"
    and "ds_archive_ext ds \<in> {[], ''.gz'', ''.xz''}"
  shows "has_file dir' (ds_curr_filename ds')
    \<and> (ds_prev_filename ds' \<noteq> [] \<and> ds_prev_filename ds' \<noteq> ds_curr_filename ds' @ ds_archive_ext ds'
        \<longrightarrow> has_file dir' (ds_prev_filename ds'))"
proof -
  obtain ds0 where e: "ensureDownloadDir env ds = Inr ds0" using assms(1) by (auto simp: Init_def split: sum.splits)
  obtain ds1 dir1 where p: "prepareFilenames env ds0 dir = Inr (ds1, dir1)"
    using assms(1) e by (auto simp: Init_def split: sum.splits)
  obtain dir2 where c: "(if ds_prev_filename ds1 \<noteq> [] then cleanup env ds1 dir1 else Inr dir1) = Inr dir2"
    using assms(1) e p by (auto simp: Init_def split: sum.splits)
  have d: "download env ds1 dir2 = (None, dir')" and ds': "ds' = ds1"
    using assms(1) e p c by (auto simp: Init_def split: prod.splits option.splits)
  note fields = ensure_fields [OF e] prepare_ext [OF p]
  have "has_file dir' (ds_curr_filename ds1)" using download_has [OF d] fields assms(3) by simp
  moreover have "has_file dir' (ds_prev_filename ds1)"
    if prev: "ds_prev_filename ds1 \<noteq> []" and other: "ds_prev_filename ds1 \<noteq> ds_curr_filename ds1 @ ds_archive_ext ds1"
  proof -
    have "has_file dir1 (ds_prev_filename ds1)" using prepare_prev [OF p] fields assms(2) prev by simp
    then have "has_file dir2 (ds_prev_filename ds1)" using c prev cleanup_keeps [OF _ kept_prev] by simp
    from download_keeps [OF d this other] show ?thesis .
  qed
  ultimately show ?thesis using ds' by blast
qed

theorem Init_files_exist_witness:
  "\<exists>ds' dir'. Init sample_env (sample_dataset []) [] = (None, ds', dir') \<and> has_file dir' (ds_curr_filename ds')"
proof -
  have "fst (Init sample_env (sample_dataset []) []) = None" by code_simp
  then obtain ds' dir' where i: "Init sample_env (sample_dataset []) [] = (None, ds', dir')"
    by (metis prod.collapse)
  from Init_files_exist [OF i] show ?thesis using i by (auto simp: sample_dataset_def)
qed

text \<open>
  an archive that breaks off while it is extracted is not an error: \<open>download\<close> reports success
  with the truncated file in place, and every later \<open>download\<close> takes that file for the dataset.
\<close>

theorem download_truncated:
  assumes "ds_archive_ext ds = ''.gz''" and "ds_curr_filename ds \<noteq> []"
    and "\<forall>op. \<not> env_fails env op" and "\<not> has_file dir (ds_curr_filename ds)"
    and "\<not> has_file dir (ds_curr_filename ds @ ''.gz'')"
    and "env_http env = Some (body, True)" and "env_gunzip env body = Some (part, False)"
  shows "\<exists>dir'. download env ds dir = (None, dir') \<and> map_of dir' (ds_curr_filename ds) = Some part
    \<and> download env' ds dir' = (if env_fails env' (OpStat (ds_curr_filename ds)) then Some ''stat'' else None, dir')"
  using assms
  by (simp add: download_def Let_def FileExists_def fetch_def extractArchive_def extract_to_def map_of_write_file)

theorem download_truncated_witness:
  "\<exists>dir'. download sample_env ((sample_dataset ''.gz'')\<lparr>ds_curr_filename := ''c''\<rparr>) [] = (None, dir')
     \<and> map_of dir' ''c'' = Some ''BO''"
proof -
  let ?ds = "(sample_dataset ''.gz'')\<lparr>ds_curr_filename := ''c''\<rparr>"
  have "ds_archive_ext ?ds = ''.gz''" "ds_curr_filename ?ds \<noteq> []" "\<forall>op. \<not> env_fails sample_env op"
    "\<not> has_file [] (ds_curr_filename ?ds)" "\<not> has_file [] (ds_curr_filename ?ds @ ''.gz'')"
    "env_http sample_env = Some (''BODY'', True)" "env_gunzip sample_env ''BODY'' = Some (''BO'', False)"
    by (simp_all add: sample_dataset_def sample_env_def has_file_def)
  from download_truncated [OF this] show ?thesis by (auto simp: sample_dataset_def)
qed

end
