(* ===== verification/Dataset_Diff.thy ===== *)
theory Dataset_Diff
  imports Dataset_Writer Dataset_Files
begin

text \<open>
  The four kinds of datasets of \<open>internal/util\<close> (\<open>tsv_dataset.go\<close>, \<open>simple_tsv_dataset.go\<close>,
  \<open>json_dataset.go\<close>, \<open>xml_dataset.go\<close>): their readers, the loop over all items, the merge loop over
  the previous and the current file, and \<open>Process\<close>.

  The loops call the readers until these return nil, so they are partial functions: that they end is
  a theorem. A reader is given by what the tokenizer of the standard library delivers from the file:
  the results of \<open>csv.Reader.Read\<close>, the lines of \<open>bufio.Scanner\<close>, the items of the JSON sequence and
  the tokens of \<open>xml.Decoder\<close>.
\<close>

section \<open>Loops over readers\<close>

text \<open>A loop: one turn gives what it yields and the next state, \<open>None\<close> leaves the loop.\<close>

partial_function (option) run_loop :: "('s \<Rightarrow> ('i list \<times> 's) option) \<Rightarrow> 's \<Rightarrow> 'i list option" where
  "run_loop body s =
     (case body s of
        None \<Rightarrow> Some []
      | Some (ys, s') \<Rightarrow> Option.bind (run_loop body s') (\<lambda>r. Some (ys @ r)))"

text \<open>\<open>allRows\<close> and \<open>allItems\<close>: read until the reader returns nil.\<close>

definition all_step :: "('s \<Rightarrow> 'i option \<times> 's) \<Rightarrow> 's \<Rightarrow> ('i list \<times> 's) option" where
  "all_step nxt s = (case nxt s of (None, s') \<Rightarrow> None | (Some x, s') \<Rightarrow> Some ([x], s'))"

definition all_rows :: "('s \<Rightarrow> 'i option \<times> 's) \<Rightarrow> 's \<Rightarrow> 'i list option" where
  "all_rows nxt s = run_loop (all_step nxt) s"

text \<open>
  \<open>diffRows\<close> and \<open>diffItems\<close>: \<open>nold\<close> and \<open>nnew\<close> read the two files, \<open>oldv\<close> and \<open>newv\<close> are the current
  rows. One turn of the merge loop, of the loop over the rest of the new rows, or of the loop over
  the rest of the old ones.
\<close>

definition diff_step ::
  "('s \<Rightarrow> 'i option \<times> 's) \<Rightarrow> ('s \<Rightarrow> 'i option \<times> 's) \<Rightarrow> ('i \<Rightarrow> 'k::linorder) \<Rightarrow> ('i \<Rightarrow> 'i \<Rightarrow> bool)
     \<Rightarrow> 's \<times> 'i option \<times> 'i option \<Rightarrow> ('i list \<times> 's \<times> 'i option \<times> 'i option) option" where
  "diff_step nold nnew key eq st =
     (case st of
        (s, Some a, Some b) \<Rightarrow>
          if key a < key b then (case nold s of (o', s') \<Rightarrow> Some ([], s', o', Some b))
          else if key a > key b then (case nnew s of (n', s') \<Rightarrow> Some ([b], s', Some a, n'))
          else (case nold s of (o', s1) \<Rightarrow> (case nnew s1 of (n', s2) \<Rightarrow>
                  Some (if \<not> eq a b then [b] else [], s2, o', n')))
      | (s, None, Some b) \<Rightarrow> (case nnew s of (n', s') \<Rightarrow> Some ([b], s', None, n'))
      | (s, Some a, None) \<Rightarrow> (case nold s of (o', s') \<Rightarrow> Some ([], s', o', None))
      | (s, None, None) \<Rightarrow> None)"

definition diff_rows ::
  "('s \<Rightarrow> 'i option \<times> 's) \<Rightarrow> ('s \<Rightarrow> 'i option \<times> 's) \<Rightarrow> ('i \<Rightarrow> 'k::linorder) \<Rightarrow> ('i \<Rightarrow> 'i \<Rightarrow> bool)
     \<Rightarrow> 's \<Rightarrow> 'i list option" where
  "diff_rows nold nnew key eq s =
     (case nold s of (o', s1) \<Rightarrow> (case nnew s1 of (n', s2) \<Rightarrow> run_loop (diff_step nold nnew key eq) (s2, o', n')))"

section \<open>The specification of the loops\<close>

fun diff_merge :: "('i \<Rightarrow> 'k::linorder) \<Rightarrow> ('i \<Rightarrow> 'i \<Rightarrow> bool) \<Rightarrow> 'i list \<Rightarrow> 'i list \<Rightarrow> 'i list" where
  "diff_merge key eq [] ns = ns"
| "diff_merge key eq (a # os) [] = []"
| "diff_merge key eq (a # os) (b # ns) =
     (if key a < key b then diff_merge key eq os (b # ns)
      else if key a > key b then b # diff_merge key eq (a # os) ns
      else (if \<not> eq a b then [b] else []) @ diff_merge key eq os ns)"

definition key_sorted :: "('i \<Rightarrow> 'k::linorder) \<Rightarrow> 'i list \<Rightarrow> bool" where
  "key_sorted key xs \<longleftrightarrow> sorted_wrt (\<lambda>a b. key a < key b) xs"

text \<open>The new items for which the old list has no item with the same key that counts as equal.\<close>

definition added_or_changed :: "('i \<Rightarrow> 'k) \<Rightarrow> ('i \<Rightarrow> 'i \<Rightarrow> bool) \<Rightarrow> 'i list \<Rightarrow> 'i list \<Rightarrow> 'i list" where
  "added_or_changed key eq os ns = filter (\<lambda>b. \<not> (\<exists>a \<in> set os. key a = key b \<and> eq a b)) ns"

lemma diff_merge_Nil2 [simp]: "diff_merge key eq os [] = []"
  by (cases os) auto

lemma diff_merge_spec:
  "key_sorted key os \<Longrightarrow> key_sorted key ns \<Longrightarrow> diff_merge key eq os ns = added_or_changed key eq os ns"
proof (induction key eq os ns rule: diff_merge.induct)
  case (3 key eq a os b ns)
  consider (lt) "key a < key b" | (gt) "key a > key b" | (eq) "key a = key b" by fastforce
  then show ?case
  proof cases
    case lt
    then have "key a \<noteq> key c" if "c \<in> set (b # ns)" for c using 3(5) that by (auto simp: key_sorted_def)
    then have "added_or_changed key eq (a # os) (b # ns) = added_or_changed key eq os (b # ns)"
      unfolding added_or_changed_def by (intro filter_cong) auto
    with lt 3 show ?thesis by (simp add: key_sorted_def)
  next
    case gt
    then have "\<not> (\<exists>c \<in> set (a # os). key c = key b)" using 3(4) by (auto simp: key_sorted_def)
    with gt 3 show ?thesis by (auto simp: key_sorted_def added_or_changed_def)
  next
    case eq
    have os: "key c \<noteq> key b" if "c \<in> set os" for c using 3(4) eq that by (auto simp: key_sorted_def)
    have "key a \<noteq> key c" if "c \<in> set ns" for c using 3(5) eq that by (auto simp: key_sorted_def)
    then have "added_or_changed key eq (a # os) ns = added_or_changed key eq os ns"
      unfolding added_or_changed_def by (intro filter_cong) auto
    moreover have "diff_merge key eq os ns = added_or_changed key eq os ns"
      using 3 eq by (simp add: key_sorted_def)
    ultimately show ?thesis using eq os by (auto simp: added_or_changed_def)
  qed
qed (simp_all add: added_or_changed_def)

definition set_option_list :: "'a option \<Rightarrow> 'a list" where
  "set_option_list x = (case x of None \<Rightarrow> [] | Some a \<Rightarrow> [a])"

lemma set_option_list_simps [simp]: "set_option_list None = []" "set_option_list (Some a) = [a]"
  by (simp_all add: set_option_list_def)

lemma run_loop_stop: "body s = None \<Longrightarrow> run_loop body s = Some []"
  by (subst run_loop.simps) simp

lemma run_loop_turn: "body s = Some (ys, s') \<Longrightarrow> run_loop body s' = Some r \<Longrightarrow> run_loop body s = Some (ys @ r)"
  by (subst run_loop.simps) simp

section \<open>The interface of a reader\<close>

text \<open>
  \<open>rows s\<close> are the rows still to come in the state \<open>s\<close>; each call delivers the first of them.
\<close>

locale row_source =
  fixes inv :: "'s \<Rightarrow> bool" and nxt :: "'s \<Rightarrow> 'i option \<times> 's" and rows :: "'s \<Rightarrow> 'i list"
  assumes next_row: "inv s \<Longrightarrow> fst (nxt s) = (case rows s of [] \<Rightarrow> None | x # xs \<Rightarrow> Some x)"
    and next_rest: "inv s \<Longrightarrow> rows (snd (nxt s)) = tl (rows s)"
    and next_inv: "inv s \<Longrightarrow> inv (snd (nxt s))"
begin

lemma all_rows_rows: "inv s \<Longrightarrow> all_rows nxt s = Some (rows s)"
proof (induction "rows s" arbitrary: s)
  case Nil
  then show ?case using next_row [of s]
    unfolding all_rows_def by (subst run_loop.simps) (auto simp: all_step_def split: prod.splits option.splits)
next
  case (Cons x xs)
  have "all_rows nxt (snd (nxt s)) = Some xs"
    using Cons.hyps(1) [of "snd (nxt s)"] next_rest next_inv Cons.hyps(2) Cons.prems by (metis list.sel(3))
  moreover obtain s' where "nxt s = (Some x, s')"
    using next_row [OF Cons.prems] Cons.hyps(2) by (metis list.simps(5) prod.collapse)
  ultimately show ?case using Cons.hyps(2)
    unfolding all_rows_def by (subst run_loop.simps) (simp add: all_step_def)
qed

end

text \<open>Two readers over one state that do not disturb each other.\<close>

locale diff_source =
  old: row_source inv nold old_rows + new: row_source inv nnew new_rows
  for inv :: "'s \<Rightarrow> bool" and nold nnew :: "'s \<Rightarrow> 'i option \<times> 's" and old_rows new_rows :: "'s \<Rightarrow> 'i list" +
  assumes old_keeps_new: "inv s \<Longrightarrow> new_rows (snd (nold s)) = new_rows s"
    and new_keeps_old: "inv s \<Longrightarrow> old_rows (snd (nnew s)) = old_rows s"
begin

lemma step_old:
  "inv s \<Longrightarrow> \<exists>s'. nold s = (case old_rows s of [] \<Rightarrow> None | x # xs \<Rightarrow> Some x, s') \<and> inv s'
      \<and> old_rows s' = tl (old_rows s) \<and> new_rows s' = new_rows s"
  using old.next_row old.next_rest old.next_inv old_keeps_new by (metis prod.collapse)

lemma step_new:
  "inv s \<Longrightarrow> \<exists>s'. nnew s = (case new_rows s of [] \<Rightarrow> None | x # xs \<Rightarrow> Some x, s') \<and> inv s'
      \<and> new_rows s' = tl (new_rows s) \<and> old_rows s' = old_rows s"
  using new.next_row new.next_rest new.next_inv new_keeps_old by (metis prod.collapse)

text \<open>The loop reads exactly the rows to come, so it is the merge of the two lists.\<close>

lemma diff_loop_merge:
  assumes "inv s" and "oldv = None \<longrightarrow> old_rows s = []" and "newv = None \<longrightarrow> new_rows s = []"
  shows "run_loop (diff_step nold nnew key eq) (s, oldv, newv)
    = Some (diff_merge key eq (set_option_list oldv @ old_rows s) (set_option_list newv @ new_rows s))"
  using assms
proof (induction "length (set_option_list oldv @ old_rows s) + length (set_option_list newv @ new_rows s)"
    arbitrary: s oldv newv rule: less_induct)
  case less
  let ?body = "diff_step nold nnew key eq"
  obtain so where so: "nold s = (case old_rows s of [] \<Rightarrow> None | x # xs \<Rightarrow> Some x, so)" "inv so"
      "old_rows so = tl (old_rows s)" "new_rows so = new_rows s"
    using step_old [OF less.prems(1)] by blast
  obtain sn where sn: "nnew s = (case new_rows s of [] \<Rightarrow> None | x # xs \<Rightarrow> Some x, sn)" "inv sn"
      "new_rows sn = tl (new_rows s)" "old_rows sn = old_rows s"
    using step_new [OF less.prems(1)] by blast
  obtain sb where sb: "nnew so = (case new_rows s of [] \<Rightarrow> None | x # xs \<Rightarrow> Some x, sb)" "inv sb"
      "new_rows sb = tl (new_rows s)" "old_rows sb = tl (old_rows s)"
    using step_new [OF so(2)] so by metis
  let ?o' = "case old_rows s of [] \<Rightarrow> None | x # xs \<Rightarrow> Some x"
  let ?n' = "case new_rows s of [] \<Rightarrow> None | x # xs \<Rightarrow> Some x"
  have o': "set_option_list ?o' @ tl (old_rows s) = old_rows s" "?o' = None \<longrightarrow> tl (old_rows s) = []"
    by (cases "old_rows s"; simp)+
  have n': "set_option_list ?n' @ tl (new_rows s) = new_rows s" "?n' = None \<longrightarrow> tl (new_rows s) = []"
    by (cases "new_rows s"; simp)+
  show ?case
  proof (cases oldv)
    case None
    show ?thesis
    proof (cases newv)
      case None
      with \<open>oldv = None\<close> less.prems show ?thesis by (simp add: run_loop_stop diff_step_def)
    next
      case (Some b)
      have "run_loop ?body (sn, None, ?n') = Some (new_rows s)"
        using less.hyps [of None sn ?n'] less.prems None Some sn n' by simp
      from run_loop_turn [OF _ this, of "(s, None, Some b)" "[b]"] show ?thesis
        using None Some sn less.prems by (simp add: diff_step_def)
    qed
  next
    case (Some a)
    show ?thesis
    proof (cases newv)
      case None
      have "run_loop ?body (so, ?o', None) = Some []"
        using less.hyps [of ?o' so None] less.prems None Some so o' by simp
      from run_loop_turn [OF _ this, of "(s, Some a, None)" "[]"] show ?thesis
        using None Some so less.prems by (simp add: diff_step_def)
    next
      case (Some b)
      note vals = \<open>oldv = Some a\<close> Some
      consider (lt) "key a < key b" | (gt) "key a > key b" | (eq) "key a = key b" by fastforce
      then show ?thesis
      proof cases
        case lt
        have "run_loop ?body (so, ?o', Some b) = Some (diff_merge key eq (old_rows s) (b # new_rows s))"
          using less.hyps [of ?o' so "Some b"] less.prems vals so o' by simp
        from run_loop_turn [OF _ this, of "(s, Some a, Some b)" "[]"] show ?thesis
          using lt vals so by (simp add: diff_step_def)
      next
        case gt
        then have "\<not> key a < key b" by simp
        have "run_loop ?body (sn, Some a, ?n') = Some (diff_merge key eq (a # old_rows s) (new_rows s))"
          using less.hyps [of "Some a" sn ?n'] less.prems vals sn n' by simp
        from run_loop_turn [OF _ this, of "(s, Some a, Some b)" "[b]"] show ?thesis
          using gt \<open>\<not> key a < key b\<close> vals sn by (simp add: diff_step_def)
      next
        case eq
        have "run_loop ?body (sb, ?o', ?n') = Some (diff_merge key eq (old_rows s) (new_rows s))"
          using less.hyps [of ?o' sb ?n'] less.prems vals sb o' n' by simp
        from run_loop_turn [OF _ this, of "(s, Some a, Some b)"] show ?thesis
          using eq vals so sb by (simp add: diff_step_def)
      qed
    qed
  qed
qed

lemma diff_rows_merge:
  assumes "inv s"
  shows "diff_rows nold nnew key eq s = Some (diff_merge key eq (old_rows s) (new_rows s))"
proof -
  obtain so where so: "nold s = (case old_rows s of [] \<Rightarrow> None | x # xs \<Rightarrow> Some x, so)" "inv so"
      "old_rows so = tl (old_rows s)" "new_rows so = new_rows s"
    using step_old [OF assms] by blast
  obtain sb where sb: "nnew so = (case new_rows s of [] \<Rightarrow> None | x # xs \<Rightarrow> Some x, sb)" "inv sb"
      "new_rows sb = tl (new_rows s)" "old_rows sb = tl (old_rows s)"
    using step_new [OF so(2)] so by metis
  let ?o' = "case old_rows s of [] \<Rightarrow> None | x # xs \<Rightarrow> Some x"
  let ?n' = "case new_rows s of [] \<Rightarrow> None | x # xs \<Rightarrow> Some x"
  have o': "set_option_list ?o' @ tl (old_rows s) = old_rows s" "?o' = None \<longrightarrow> tl (old_rows s) = []"
    by (cases "old_rows s"; simp)+
  have n': "set_option_list ?n' @ tl (new_rows s) = new_rows s" "?n' = None \<longrightarrow> tl (new_rows s) = []"
    by (cases "new_rows s"; simp)+
  from diff_loop_merge [of sb ?o' ?n'] so sb o' n' show ?thesis by (simp add: diff_rows_def)
qed

end

end
