(* ===== verification/Dataset_Kinds.thy ===== *)
theory Dataset_Kinds
  imports Dataset_Diff
begin

text \<open>
  The datasets themselves: readers, \<open>processAll\<close>, \<open>processDiff\<close> and \<open>Process\<close> of the TSV, simple TSV,
  JSON and XML datasets, each reader with an interpretation of \<open>diff_source\<close>.
\<close>

section \<open>What the four kinds share\<close>

datatype process_error =
  InitError dataset_error | FileError string | ReaderError string | RowError string | WriterError write_error

definition open_file :: "dataset_env \<Rightarrow> directory \<Rightarrow> string \<Rightarrow> string option" where
  "open_file env dir f = (if env_fails env (OpOpen f) then None else map_of dir f)"

text \<open>The body of the loops of \<open>processAll\<close> and \<open>processDiff\<close>, and the final \<open>Done\<close>.\<close>

fun process_items ::
  "('r \<Rightarrow> string + 'a option) \<Rightarrow> ('d \<Rightarrow> 'a list \<Rightarrow> string option \<times> 'd) \<Rightarrow> 'a dataset_writer \<times> 'd \<Rightarrow> 'r list
     \<Rightarrow> process_error option \<times> 'a dataset_writer \<times> 'd" where
  "process_items parse upsert wd [] =
     (case writer_Done upsert wd of (e, wd') \<Rightarrow> (map_option WriterError e, wd'))"
| "process_items parse upsert wd (row # rows) =
     (case parse row of
        Inl e \<Rightarrow> (Some (RowError e), wd)
      | Inr t \<Rightarrow>
          (case writer_Write upsert wd t of
             (Some e, wd') \<Rightarrow> (Some (WriterError e), wd')
           | (None, wd') \<Rightarrow> process_items parse upsert wd' rows))"

type_synonym ('a, 'd) process_result = "(process_error option \<times> 'a dataset_writer \<times> 'd) option"

definition process_with ::
  "bool \<Rightarrow> (dataset \<Rightarrow> directory \<Rightarrow> ('a, 'd) process_result) \<Rightarrow> (dataset \<Rightarrow> directory \<Rightarrow> ('a, 'd) process_result)
     \<Rightarrow> dataset_env \<Rightarrow> dataset \<Rightarrow> directory \<Rightarrow> 'a dataset_writer \<times> 'd \<Rightarrow> ('a, 'd) process_result \<times> dataset \<times> directory" where
  "process_with no_diff pall pdiff env ds dir wd =
     (case Init env ds dir of
        (Some e, ds', dir') \<Rightarrow> (Some (Some (InitError e), wd), ds', dir')
      | (None, ds', dir') \<Rightarrow>
          (if no_diff \<or> ds_prev_filename ds' = [] \<or> ds_prev_filename ds' = ds_curr_filename ds'
           then pall ds' dir' else pdiff ds' dir', ds', dir'))"

definition on_old :: "('r \<Rightarrow> 'i option \<times> 'r) \<Rightarrow> 'r \<times> 'r \<Rightarrow> 'i option \<times> 'r \<times> 'r" where
  "on_old nxt s = (case s of (o', n') \<Rightarrow> (case nxt o' of (x, o'') \<Rightarrow> (x, o'', n')))"

definition on_new :: "('r \<Rightarrow> 'i option \<times> 'r) \<Rightarrow> 'r \<times> 'r \<Rightarrow> 'i option \<times> 'r \<times> 'r" where
  "on_new nxt s = (case s of (o', n') \<Rightarrow> (case nxt n' of (x, n'') \<Rightarrow> (x, o', n'')))"

text \<open>Two independent readers of one kind form a \<open>diff_source\<close>.\<close>

lemma pair_source:
  assumes "row_source (\<lambda>_. True) nxt rows"
  shows "diff_source (\<lambda>_. True) (on_old nxt) (on_new nxt) (rows \<circ> fst) (rows \<circ> snd)"
  using row_source.next_row [OF assms] row_source.next_rest [OF assms]
  by unfold_locales (simp_all add: on_old_def on_new_def case_prod_unfold)

section \<open>TSV files (\<open>tsv_dataset.go\<close>)\<close>

text \<open>What successive calls of \<open>csv.Reader.Read\<close> return, up to the end of the file.\<close>

datatype csv_read = CsvRecord "string list" | CsvError

record 'a tsv_dataset =
  td_get_row_key :: "string list \<Rightarrow> string"
  td_has_headers :: bool
  td_is_valid_headers :: "string list \<Rightarrow> bool"
  td_no_diff :: bool
  td_parse_row :: "string list \<Rightarrow> string + 'a option"

fun TSV_nextRow :: "csv_read list \<Rightarrow> string list option \<times> csv_read list" where
  "TSV_nextRow [] = (None, [])"
| "TSV_nextRow (CsvRecord r # rest) = (Some r, rest)"
| "TSV_nextRow (CsvError # rest) = TSV_nextRow rest"

definition TSV_newReader :: "'a tsv_dataset \<Rightarrow> csv_read list \<Rightarrow> csv_read list option" where
  "TSV_newReader c r =
     (if td_has_headers c then
        (case TSV_nextRow r of (headers, r') \<Rightarrow>
           if \<not> td_is_valid_headers c (case headers of None \<Rightarrow> [] | Some h \<Rightarrow> h) then None else Some r')
      else Some r)"

definition TSV_allRows :: "csv_read list \<Rightarrow> string list list option" where
  "TSV_allRows r = all_rows TSV_nextRow r"

definition TSV_diffRows :: "'a tsv_dataset \<Rightarrow> csv_read list \<Rightarrow> csv_read list \<Rightarrow> string list list option" where
  "TSV_diffRows c oldR newR = diff_rows (on_old TSV_nextRow) (on_new TSV_nextRow) (td_get_row_key c) (=) (oldR, newR)"

definition TSV_processAll ::
  "(string \<Rightarrow> csv_read list) \<Rightarrow> 'a tsv_dataset \<Rightarrow> ('d \<Rightarrow> 'a list \<Rightarrow> string option \<times> 'd) \<Rightarrow> dataset_env
     \<Rightarrow> 'a dataset_writer \<times> 'd \<Rightarrow> dataset \<Rightarrow> directory \<Rightarrow> ('a, 'd) process_result" where
  "TSV_processAll csv c upsert env wd ds dir =
     (case open_file env dir (ds_curr_filename ds) of
        None \<Rightarrow> Some (Some (FileError ''failed to open file''), wd)
      | Some content \<Rightarrow>
          (case TSV_newReader c (csv content) of
             None \<Rightarrow> Some (Some (ReaderError ''failed to create reader''), wd)
           | Some r \<Rightarrow> map_option (process_items (td_parse_row c) upsert wd) (TSV_allRows r)))"

definition TSV_processDiff ::
  "(string \<Rightarrow> csv_read list) \<Rightarrow> 'a tsv_dataset \<Rightarrow> ('d \<Rightarrow> 'a list \<Rightarrow> string option \<times> 'd) \<Rightarrow> dataset_env
     \<Rightarrow> 'a dataset_writer \<times> 'd \<Rightarrow> dataset \<Rightarrow> directory \<Rightarrow> ('a, 'd) process_result" where
  "TSV_processDiff csv c upsert env wd ds dir =
     (case open_file env dir (ds_prev_filename ds) of
        None \<Rightarrow> Some (Some (FileError ''failed to open last file''), wd)
      | Some last_content \<Rightarrow>
          (case open_file env dir (ds_curr_filename ds) of
             None \<Rightarrow> Some (Some (FileError ''failed to open new file''), wd)
           | Some new_content \<Rightarrow>
               (case TSV_newReader c (csv last_content) of
                  None \<Rightarrow> Some (Some (ReaderError ''failed to create reader for last file''), wd)
                | Some lastR \<Rightarrow>
                    (case TSV_newReader c (csv new_content) of
                       None \<Rightarrow> Some (Some (ReaderError ''failed to create reader for new file''), wd)
                     | Some newR \<Rightarrow>
                         map_option (process_items (td_parse_row c) upsert wd) (TSV_diffRows c lastR newR)))))"

definition TSV_Process ::
  "(string \<Rightarrow> csv_read list) \<Rightarrow> 'a tsv_dataset \<Rightarrow> ('d \<Rightarrow> 'a list \<Rightarrow> string option \<times> 'd) \<Rightarrow> dataset_env
     \<Rightarrow> dataset \<Rightarrow> directory \<Rightarrow> 'a dataset_writer \<times> 'd \<Rightarrow> ('a, 'd) process_result \<times> dataset \<times> directory" where
  "TSV_Process csv c upsert env ds dir wd =
     process_with (td_no_diff c) (TSV_processAll csv c upsert env wd) (TSV_processDiff csv c upsert env wd) env ds dir wd"

fun tsv_rows :: "csv_read list \<Rightarrow> string list list" where
  "tsv_rows [] = []"
| "tsv_rows (CsvRecord r # rest) = r # tsv_rows rest"
| "tsv_rows (CsvError # rest) = tsv_rows rest"

interpretation tsv: row_source "\<lambda>_. True" TSV_nextRow tsv_rows
proof
  show "fst (TSV_nextRow s) = (case tsv_rows s of [] \<Rightarrow> None | x # xs \<Rightarrow> Some x)" for s
    by (induction s rule: TSV_nextRow.induct) auto
  show "tsv_rows (snd (TSV_nextRow s)) = tl (tsv_rows s)" for s
    by (induction s rule: TSV_nextRow.induct) auto
qed simp

interpretation tsv2: diff_source "\<lambda>_. True" "on_old TSV_nextRow" "on_new TSV_nextRow" "tsv_rows \<circ> fst" "tsv_rows \<circ> snd"
  by (rule pair_source) (rule tsv.row_source_axioms)

lemma TSV_allRows_rows: "TSV_allRows r = Some (tsv_rows r)"
  by (simp add: TSV_allRows_def tsv.all_rows_rows)

lemma TSV_diffRows_merge: "TSV_diffRows c o' n' = Some (diff_merge (td_get_row_key c) (=) (tsv_rows o') (tsv_rows n'))"
  by (simp add: TSV_diffRows_def tsv2.diff_rows_merge)

section \<open>Simple TSV files (\<open>simple_tsv_dataset.go\<close>)\<close>

text \<open>
  The fields of the dataset that its reader changes: the expected number of columns, 0 until it is
  known, and the line number. A scanner is the list of the lines still to come; a line of
  64 KiB or more makes it stop.
\<close>

type_synonym simple_state = "nat \<times> nat"

definition scan_lines :: "string \<Rightarrow> string list" where
  "scan_lines content =
     (let ls = split_on (CHR 0x0A) content;
          ls' = (if last ls = [] then butlast ls else ls)
      in map (\<lambda>l. trim_suffix l [CHR 0x0D]) (takeWhile (\<lambda>l. length l < 65536) ls'))"

fun Simple_nextRow :: "simple_state \<times> string list \<Rightarrow> string list option \<times> simple_state \<times> string list" where
  "Simple_nextRow (st, []) = (None, st, [])"
| "Simple_nextRow ((column_count, current_line), line # rest) =
     (let record = split_on (CHR 0x09) line;
          cc = (if column_count = 0 then length record else column_count)
      in if length record \<noteq> cc then Simple_nextRow ((cc, current_line + 1), rest)
         else (Some record, (cc, current_line + 1), rest))"

definition Simple_newReader :: "'a tsv_dataset \<Rightarrow> simple_state \<times> string list \<Rightarrow> (simple_state \<times> string list) option" where
  "Simple_newReader c r =
     (if td_has_headers c then
        (case Simple_nextRow r of (headers, (cc, cl), rest) \<Rightarrow>
           let hs = (case headers of None \<Rightarrow> [] | Some h \<Rightarrow> h) in
           if \<not> td_is_valid_headers c hs then None else Some ((length hs, cl), rest))
      else Some r)"

definition Simple_allRows :: "simple_state \<times> string list \<Rightarrow> string list list option" where
  "Simple_allRows r = all_rows Simple_nextRow r"

definition simple_old :: "simple_state \<times> string list \<times> string list \<Rightarrow> string list option \<times> simple_state \<times> string list \<times> string list" where
  "simple_old s = (case s of (st, o', n') \<Rightarrow> (case Simple_nextRow (st, o') of (x, st', o'') \<Rightarrow> (x, st', o'', n')))"

definition simple_new :: "simple_state \<times> string list \<times> string list \<Rightarrow> string list option \<times> simple_state \<times> string list \<times> string list" where
  "simple_new s = (case s of (st, o', n') \<Rightarrow> (case Simple_nextRow (st, n') of (x, st', n'') \<Rightarrow> (x, st', o', n'')))"

definition Simple_diffRows :: "'a tsv_dataset \<Rightarrow> simple_state \<Rightarrow> string list \<Rightarrow> string list \<Rightarrow> string list list option" where
  "Simple_diffRows c st oldR newR = diff_rows simple_old simple_new (td_get_row_key c) (=) (st, oldR, newR)"

definition Simple_processAll ::
  "simple_state \<Rightarrow> 'a tsv_dataset \<Rightarrow> ('d \<Rightarrow> 'a list \<Rightarrow> string option \<times> 'd) \<Rightarrow> dataset_env
     \<Rightarrow> 'a dataset_writer \<times> 'd \<Rightarrow> dataset \<Rightarrow> directory \<Rightarrow> ('a, 'd) process_result" where
  "Simple_processAll st c upsert env wd ds dir =
     (case open_file env dir (ds_curr_filename ds) of
        None \<Rightarrow> Some (Some (FileError ''failed to open file''), wd)
      | Some content \<Rightarrow>
          (case Simple_newReader c (st, scan_lines content) of
             None \<Rightarrow> Some (Some (ReaderError ''failed to create reader''), wd)
           | Some r \<Rightarrow> map_option (process_items (td_parse_row c) upsert wd) (Simple_allRows r)))"

definition Simple_processDiff ::
  "simple_state \<Rightarrow> 'a tsv_dataset \<Rightarrow> ('d \<Rightarrow> 'a list \<Rightarrow> string option \<times> 'd) \<Rightarrow> dataset_env
     \<Rightarrow> 'a dataset_writer \<times> 'd \<Rightarrow> dataset \<Rightarrow> directory \<Rightarrow> ('a, 'd) process_result" where
  "Simple_processDiff st c upsert env wd ds dir =
     (case open_file env dir (ds_prev_filename ds) of
        None \<Rightarrow> Some (Some (FileError ''failed to open last file''), wd)
      | Some last_content \<Rightarrow>
          (case open_file env dir (ds_curr_filename ds) of
             None \<Rightarrow> Some (Some (FileError ''failed to open new file''), wd)
           | Some new_content \<Rightarrow>
               (case Simple_newReader c (st, scan_lines last_content) of
                  None \<Rightarrow> Some (Some (ReaderError ''failed to create reader for last file''), wd)
                | Some (st1, lastR) \<Rightarrow>
                    (case Simple_newReader c (st1, scan_lines new_content) of
                       None \<Rightarrow> Some (Some (ReaderError ''failed to create reader for new file''), wd)
                     | Some (st2, newR) \<Rightarrow>
                         map_option (process_items (td_parse_row c) upsert wd) (Simple_diffRows c st2 lastR newR)))))"

definition Simple_Process ::
  "simple_state \<Rightarrow> 'a tsv_dataset \<Rightarrow> ('d \<Rightarrow> 'a list \<Rightarrow> string option \<times> 'd) \<Rightarrow> dataset_env
     \<Rightarrow> dataset \<Rightarrow> directory \<Rightarrow> 'a dataset_writer \<times> 'd \<Rightarrow> ('a, 'd) process_result \<times> dataset \<times> directory" where
  "Simple_Process st c upsert env ds dir wd =
     process_with (td_no_diff c) (Simple_processAll st c upsert env wd) (Simple_processDiff st c upsert env wd) env ds dir wd"

text \<open>The rows of a file: all lines with the number of columns of the first one that counts.\<close>

definition simple_rows :: "nat \<Rightarrow> string list \<Rightarrow> string list list" where
  "simple_rows cc lines =
     (let rs = map (split_on (CHR 0x09)) lines
      in filter (\<lambda>r. length r = (if cc = 0 then length (hd rs) else cc)) rs)"

lemma simple_rows_Nil [simp]: "simple_rows cc [] = []"
  by (simp add: simple_rows_def)

lemma simple_rows_first:
  "simple_rows 0 (l # ls) = split_on (CHR 0x09) l # simple_rows (length (split_on (CHR 0x09) l)) ls"
  by (simp add: simple_rows_def Let_def)

lemma simple_rows_known:
  "cc \<noteq> 0 \<Longrightarrow> simple_rows cc (l # ls) =
     (if length (split_on (CHR 0x09) l) = cc then [split_on (CHR 0x09) l] else []) @ simple_rows cc ls"
  by (simp add: simple_rows_def Let_def)

lemma Simple_nextRow_known:
  "cc \<noteq> 0 \<Longrightarrow>
     fst (Simple_nextRow ((cc, cl), lines)) = (case simple_rows cc lines of [] \<Rightarrow> None | x # xs \<Rightarrow> Some x)
   \<and> simple_rows cc (snd (snd (Simple_nextRow ((cc, cl), lines)))) = tl (simple_rows cc lines)
   \<and> fst (fst (snd (Simple_nextRow ((cc, cl), lines)))) = cc"
  by (induction lines arbitrary: cl) (simp_all add: simple_rows_known Let_def)

lemma Simple_nextRow_first:
  "fst (Simple_nextRow ((0, cl), lines)) = (case simple_rows 0 lines of [] \<Rightarrow> None | x # xs \<Rightarrow> Some x)
   \<and> simple_rows (fst (fst (snd (Simple_nextRow ((0, cl), lines))))) (snd (snd (Simple_nextRow ((0, cl), lines)))) = tl (simple_rows 0 lines)"
  by (cases lines) (simp_all add: simple_rows_first Let_def)

lemma Simple_nextRow_row:
  "fst (Simple_nextRow s) = (case simple_rows (fst (fst s)) (snd s) of [] \<Rightarrow> None | x # xs \<Rightarrow> Some x)"
  "simple_rows (fst (fst (snd (Simple_nextRow s)))) (snd (snd (Simple_nextRow s))) = tl (simple_rows (fst (fst s)) (snd s))"
  using Simple_nextRow_known [of "fst (fst s)" "snd (fst s)" "snd s"] Simple_nextRow_first [of "snd (fst s)" "snd s"]
  by (cases "fst (fst s) = 0"; cases s; cases "fst s"; simp)+

lemma Simple_nextRow_keeps:
  assumes "fst st \<noteq> 0"
  shows "fst (fst (snd (Simple_nextRow (st, lines)))) = fst st"
    "simple_rows (fst st) (snd (snd (Simple_nextRow (st, lines)))) = tl (simple_rows (fst st) lines)"
  using Simple_nextRow_known [OF assms, of "snd st" lines] by simp_all

interpretation simple: row_source "\<lambda>_. True" Simple_nextRow "\<lambda>s. simple_rows (fst (fst s)) (snd s)"
  by unfold_locales (simp_all add: Simple_nextRow_row)

text \<open>Once the number of columns is known, reading one file does not change what the other one gives.\<close>

interpretation simple2: diff_source "\<lambda>s. fst (fst s) \<noteq> 0" simple_old simple_new
  "\<lambda>s. simple_rows (fst (fst s)) (fst (snd s))" "\<lambda>s. simple_rows (fst (fst s)) (snd (snd s))"
  by unfold_locales
    (simp_all add: simple_old_def simple_new_def case_prod_unfold Simple_nextRow_keeps Simple_nextRow_row(1))

section \<open>JSON files (\<open>json_dataset.go\<close>)\<close>

text \<open>
  \<open>jd_get_seq\<close> is the callback that decodes the whole file. The configuration has a field \<open>NoDiff\<close>,
  which \<open>NewJSONDataset\<close> does not copy: \<open>Process\<close> never looks at it.
\<close>

record 'i json_config =
  jc_NoDiff :: bool
  jc_GetItemKey :: "'i \<Rightarrow> string"
  jc_GetSeq :: "string \<Rightarrow> string + 'i list"
  jc_IsItemEqual :: "'i \<Rightarrow> 'i \<Rightarrow> bool"

record 'i json_dataset =
  jd_get_item_key :: "'i \<Rightarrow> string"
  jd_get_seq :: "string \<Rightarrow> string + 'i list"
  jd_is_item_equal :: "'i \<Rightarrow> 'i \<Rightarrow> bool"

definition NewJSONDataset :: "'i json_config \<Rightarrow> 'i json_dataset" where
  "NewJSONDataset conf = \<lparr>jd_get_item_key = jc_GetItemKey conf, jd_get_seq = jc_GetSeq conf,
     jd_is_item_equal = jc_IsItemEqual conf\<rparr>"

record 'i json_reader =
  jr_is_done :: bool
  jr_seq :: "'i list"

definition NewJSONDatasetReader :: "'i json_dataset \<Rightarrow> string \<Rightarrow> 'i json_reader option" where
  "NewJSONDatasetReader c blob =
     (case jd_get_seq c blob of
        Inl e \<Rightarrow> None
      | Inr seq \<Rightarrow> Some \<lparr>jr_is_done = False, jr_seq = seq\<rparr>)"

fun JSON_pull :: "('i \<Rightarrow> string) \<Rightarrow> 'i list \<Rightarrow> 'i option \<times> 'i json_reader" where
  "JSON_pull key [] = (None, \<lparr>jr_is_done = True, jr_seq = []\<rparr>)"
| "JSON_pull key (item # rest) =
     (if key item = [] then JSON_pull key rest else (Some item, \<lparr>jr_is_done = False, jr_seq = rest\<rparr>))"

definition JSON_NextItem :: "'i json_dataset \<Rightarrow> 'i json_reader \<Rightarrow> 'i option \<times> 'i json_reader" where
  "JSON_NextItem c r = (if jr_is_done r then (None, r) else JSON_pull (jd_get_item_key c) (jr_seq r))"

definition JSON_allItems :: "'i json_dataset \<Rightarrow> 'i json_reader \<Rightarrow> 'i list option" where
  "JSON_allItems c r = all_rows (JSON_NextItem c) r"

definition JSON_diffItems :: "'i json_dataset \<Rightarrow> 'i json_reader \<Rightarrow> 'i json_reader \<Rightarrow> 'i list option" where
  "JSON_diffItems c oldR newR =
     diff_rows (on_old (JSON_NextItem c)) (on_new (JSON_NextItem c)) (jd_get_item_key c) (jd_is_item_equal c) (oldR, newR)"

definition JSON_processAll ::
  "'i json_dataset \<Rightarrow> ('d \<Rightarrow> 'i list \<Rightarrow> string option \<times> 'd) \<Rightarrow> dataset_env
     \<Rightarrow> 'i dataset_writer \<times> 'd \<Rightarrow> dataset \<Rightarrow> directory \<Rightarrow> ('i, 'd) process_result" where
  "JSON_processAll c upsert env wd ds dir =
     (case open_file env dir (ds_curr_filename ds) of
        None \<Rightarrow> Some (Some (FileError ''failed to open file''), wd)
      | Some blob \<Rightarrow>
          (case NewJSONDatasetReader c blob of
             None \<Rightarrow> Some (Some (ReaderError ''failed to create reader''), wd)
           | Some r \<Rightarrow> map_option (process_items (\<lambda>x. Inr (Some x)) upsert wd) (JSON_allItems c r)))"

definition JSON_processDiff ::
  "'i json_dataset \<Rightarrow> ('d \<Rightarrow> 'i list \<Rightarrow> string option \<times> 'd) \<Rightarrow> dataset_env
     \<Rightarrow> 'i dataset_writer \<times> 'd \<Rightarrow> dataset \<Rightarrow> directory \<Rightarrow> ('i, 'd) process_result" where
  "JSON_processDiff c upsert env wd ds dir =
     (case open_file env dir (ds_prev_filename ds) of
        None \<Rightarrow> Some (Some (FileError ''failed to open last file''), wd)
      | Some last_blob \<Rightarrow>
          (case open_file env dir (ds_curr_filename ds) of
             None \<Rightarrow> Some (Some (FileError ''failed to open new file''), wd)
           | Some new_blob \<Rightarrow>
               (case NewJSONDatasetReader c last_blob of
                  None \<Rightarrow> Some (Some (ReaderError ''failed to create reader for last file''), wd)
                | Some lastR \<Rightarrow>
                    (case NewJSONDatasetReader c new_blob of
                       None \<Rightarrow> Some (Some (ReaderError ''failed to create reader for new file''), wd)
                     | Some newR \<Rightarrow>
                         map_option (process_items (\<lambda>x. Inr (Some x)) upsert wd) (JSON_diffItems c lastR newR)))))"

definition JSON_Process ::
  "'i json_dataset \<Rightarrow> ('d \<Rightarrow> 'i list \<Rightarrow> string option \<times> 'd) \<Rightarrow> dataset_env
     \<Rightarrow> dataset \<Rightarrow> directory \<Rightarrow> 'i dataset_writer \<times> 'd \<Rightarrow> ('i, 'd) process_result \<times> dataset \<times> directory" where
  "JSON_Process c upsert env ds dir wd =
     process_with False (JSON_processAll c upsert env wd) (JSON_processDiff c upsert env wd) env ds dir wd"

definition json_rows :: "'i json_dataset \<Rightarrow> 'i json_reader \<Rightarrow> 'i list" where
  "json_rows c r = (if jr_is_done r then [] else filter (\<lambda>x. jd_get_item_key c x \<noteq> []) (jr_seq r))"

lemma JSON_pull_spec:
  "fst (JSON_pull (jd_get_item_key c) xs) = (case filter (\<lambda>x. jd_get_item_key c x \<noteq> []) xs of [] \<Rightarrow> None | y # ys \<Rightarrow> Some y)
   \<and> json_rows c (snd (JSON_pull (jd_get_item_key c) xs)) = tl (filter (\<lambda>x. jd_get_item_key c x \<noteq> []) xs)"
  by (induction xs) (auto simp: json_rows_def)

interpretation json: row_source "\<lambda>_. True" "JSON_NextItem c" "json_rows c" for c :: "'i json_dataset"
proof
  show "fst (JSON_NextItem c s) = (case json_rows c s of [] \<Rightarrow> None | x # xs \<Rightarrow> Some x)" for s
    using JSON_pull_spec [of c "jr_seq s"] by (auto simp: JSON_NextItem_def json_rows_def)
  show "json_rows c (snd (JSON_NextItem c s)) = tl (json_rows c s)" for s
    using JSON_pull_spec [of c "jr_seq s"] by (auto simp: JSON_NextItem_def json_rows_def)
qed simp

interpretation json2: diff_source "\<lambda>_. True" "on_old (JSON_NextItem c)" "on_new (JSON_NextItem c)"
  "json_rows c \<circ> fst" "json_rows c \<circ> snd" for c :: "'i json_dataset"
  by (rule pair_source) (rule json.row_source_axioms)

section \<open>XML files (\<open>xml_dataset.go\<close>)\<close>

text \<open>
  The tokens of \<open>xml.Decoder\<close>, \<open>BadToken\<close> for an error other than the end of the file; an error stays,
  so it is not consumed. \<open>xd_decode\<close> is \<open>DecodeElement\<close>: the value, if it decodes, and how many of the
  tokens that follow the start of the element it consumed.
\<close>

datatype xml_token = StartElement string | EndElement string | OtherToken | BadToken

record ('t, 'i) xml_dataset =
  xd_list_tag_name :: string
  xd_item_tag_name :: string
  xd_no_diff :: bool
  xd_prepare :: "'t \<Rightarrow> 'i option"
  xd_get_item_key :: "'i \<Rightarrow> string"
  xd_is_item_equal :: "'i \<Rightarrow> 'i \<Rightarrow> bool"
  xd_decode :: "xml_token list \<Rightarrow> 't option \<times> nat"

record xml_reader =
  xr_tokens :: "xml_token list"
  xr_inside_list :: bool
  xr_is_done :: bool

definition XML_NewReader :: "xml_token list \<Rightarrow> xml_reader" where
  "XML_NewReader toks = \<lparr>xr_tokens = toks, xr_inside_list = False, xr_is_done = False\<rparr>"

function XML_loop :: "('t, 'i) xml_dataset \<Rightarrow> bool \<Rightarrow> xml_token list \<Rightarrow> 'i option \<times> xml_reader" where
  "XML_loop c inside [] = (None, \<lparr>xr_tokens = [], xr_inside_list = inside, xr_is_done = True\<rparr>)"
| "XML_loop c inside (BadToken # rest) =
     (None, \<lparr>xr_tokens = BadToken # rest, xr_inside_list = inside, xr_is_done = False\<rparr>)"
| "XML_loop c inside (OtherToken # rest) = XML_loop c inside rest"
| "XML_loop c inside (StartElement nm # rest) =
     (if nm = xd_list_tag_name c then XML_loop c True rest
      else if nm = xd_item_tag_name c \<and> inside then
        (case xd_decode c rest of
           (None, n) \<Rightarrow> XML_loop c inside (drop n rest)
         | (Some raw, n) \<Rightarrow>
             (case xd_prepare c raw of
                None \<Rightarrow> XML_loop c inside (drop n rest)
              | Some item \<Rightarrow>
                  if xd_get_item_key c item = [] then XML_loop c inside (drop n rest)
                  else (Some item, \<lparr>xr_tokens = drop n rest, xr_inside_list = inside, xr_is_done = False\<rparr>)))
      else XML_loop c inside rest)"
| "XML_loop c inside (EndElement nm # rest) =
     (if nm = xd_list_tag_name c
      then (None, \<lparr>xr_tokens = rest, xr_inside_list = False, xr_is_done = True\<rparr>)
      else XML_loop c inside rest)"
  by pat_completeness auto

termination XML_loop
  by (relation "measure (\<lambda>(c, inside, toks). length toks)") auto

definition XML_NextItem :: "('t, 'i) xml_dataset \<Rightarrow> xml_reader \<Rightarrow> 'i option \<times> xml_reader" where
  "XML_NextItem c r = (if xr_is_done r then (None, r) else XML_loop c (xr_inside_list r) (xr_tokens r))"

definition XML_allItems :: "('t, 'i) xml_dataset \<Rightarrow> xml_reader \<Rightarrow> 'i list option" where
  "XML_allItems c r = all_rows (XML_NextItem c) r"

definition XML_diffItems :: "('t, 'i) xml_dataset \<Rightarrow> xml_reader \<Rightarrow> xml_reader \<Rightarrow> 'i list option" where
  "XML_diffItems c oldR newR =
     diff_rows (on_old (XML_NextItem c)) (on_new (XML_NextItem c)) (xd_get_item_key c) (xd_is_item_equal c) (oldR, newR)"

definition XML_processAll ::
  "(string \<Rightarrow> xml_token list) \<Rightarrow> ('t, 'i) xml_dataset \<Rightarrow> ('d \<Rightarrow> 'i list \<Rightarrow> string option \<times> 'd) \<Rightarrow> dataset_env
     \<Rightarrow> 'i dataset_writer \<times> 'd \<Rightarrow> dataset \<Rightarrow> directory \<Rightarrow> ('i, 'd) process_result" where
  "XML_processAll xml c upsert env wd ds dir =
     (case open_file env dir (ds_curr_filename ds) of
        None \<Rightarrow> Some (Some (FileError ''failed to open file''), wd)
      | Some content \<Rightarrow>
          map_option (process_items (\<lambda>x. Inr (Some x)) upsert wd) (XML_allItems c (XML_NewReader (xml content))))"

definition XML_processDiff ::
  "(string \<Rightarrow> xml_token list) \<Rightarrow> ('t, 'i) xml_dataset \<Rightarrow> ('d \<Rightarrow> 'i list \<Rightarrow> string option \<times> 'd) \<Rightarrow> dataset_env
     \<Rightarrow> 'i dataset_writer \<times> 'd \<Rightarrow> dataset \<Rightarrow> directory \<Rightarrow> ('i, 'd) process_result" where
  "XML_processDiff xml c upsert env wd ds dir =
     (case open_file env dir (ds_prev_filename ds) of
        None \<Rightarrow> Some (Some (FileError ''failed to open last file''), wd)
      | Some last_content \<Rightarrow>
          (case open_file env dir (ds_curr_filename ds) of
             None \<Rightarrow> Some (Some (FileError ''failed to open new file''), wd)
           | Some new_content \<Rightarrow>
               map_option (process_items (\<lambda>x. Inr (Some x)) upsert wd)
                 (XML_diffItems c (XML_NewReader (xml last_content)) (XML_NewReader (xml new_content)))))"

definition XML_Process ::
  "(string \<Rightarrow> xml_token list) \<Rightarrow> ('t, 'i) xml_dataset \<Rightarrow> ('d \<Rightarrow> 'i list \<Rightarrow> string option \<times> 'd) \<Rightarrow> dataset_env
     \<Rightarrow> dataset \<Rightarrow> directory \<Rightarrow> 'i dataset_writer \<times> 'd \<Rightarrow> ('i, 'd) process_result \<times> dataset \<times> directory" where
  "XML_Process xml c upsert env ds dir wd =
     process_with (xd_no_diff c) (XML_processAll xml c upsert env wd) (XML_processDiff xml c upsert env wd) env ds dir wd"

text \<open>The items of a document, read off its tokens.\<close>

lemma XML_loop_shrinks:
  "XML_loop c inside toks = (Some item, r) \<Longrightarrow> length (xr_tokens r) < length toks"
  by (induction c inside toks rule: XML_loop.induct)
    (fastforce split: if_splits option.splits prod.splits)+

lemma XML_NextItem_shrinks:
  "XML_NextItem c r = (Some item, r') \<Longrightarrow> length (xr_tokens r') < length (xr_tokens r)"
  by (auto simp: XML_NextItem_def split: if_splits dest: XML_loop_shrinks)

function xml_rows :: "('t, 'i) xml_dataset \<Rightarrow> xml_reader \<Rightarrow> 'i list" where
  "xml_rows c r = (case XML_NextItem c r of (None, r') \<Rightarrow> [] | (Some item, r') \<Rightarrow> item # xml_rows c r')"
  by pat_completeness auto

termination xml_rows
  by (relation "measure (\<lambda>(c, r). length (xr_tokens r))") (auto intro: XML_NextItem_shrinks [OF sym])

declare xml_rows.simps [simp del]

lemma XML_loop_stuck: "XML_loop c inside toks = (None, r) \<Longrightarrow> fst (XML_NextItem c r) = None"
  by (induction c inside toks rule: XML_loop.induct)
    (auto simp: XML_NextItem_def split: if_splits option.splits prod.splits)

lemma XML_NextItem_stuck:
  assumes "fst (XML_NextItem c r) = None"
  shows "fst (XML_NextItem c (snd (XML_NextItem c r))) = None"
proof (cases "xr_is_done r")
  case False
  have "XML_loop c (xr_inside_list r) (xr_tokens r) = (None, snd (XML_NextItem c r))"
    using False assms by (simp add: XML_NextItem_def prod_eq_iff)
  then show ?thesis by (rule XML_loop_stuck)
qed (simp add: XML_NextItem_def)

lemma xml_rows_stop: "fst (XML_NextItem c r) = None \<Longrightarrow> xml_rows c r = []"
  by (subst xml_rows.simps) (auto split: prod.splits)

lemma xml_rows_item: "fst (XML_NextItem c r) = Some x \<Longrightarrow> xml_rows c r = x # xml_rows c (snd (XML_NextItem c r))"
  by (subst xml_rows.simps) (auto split: prod.splits)

interpretation xml: row_source "\<lambda>_. True" "XML_NextItem c" "xml_rows c" for c :: "('t, 'i) xml_dataset"
proof
  fix s
  show "fst (XML_NextItem c s) = (case xml_rows c s of [] \<Rightarrow> None | x # xs \<Rightarrow> Some x)"
    by (cases "fst (XML_NextItem c s)") (simp_all add: xml_rows_stop xml_rows_item)
  show "xml_rows c (snd (XML_NextItem c s)) = tl (xml_rows c s)"
    by (cases "fst (XML_NextItem c s)") (simp_all add: xml_rows_stop xml_rows_item XML_NextItem_stuck)
qed simp

interpretation xml2: diff_source "\<lambda>_. True" "on_old (XML_NextItem c)" "on_new (XML_NextItem c)"
  "xml_rows c \<circ> fst" "xml_rows c \<circ> snd" for c :: "('t, 'i) xml_dataset"
  by (rule pair_source) (rule xml.row_source_axioms)

section \<open>Every loop ends\<close>

lemma run_loop_total:
  assumes "\<And>s ys s'. body s = Some (ys, s') \<Longrightarrow> m s' < (m s :: nat)"
  shows "run_loop body s \<noteq> None"
proof (induction "m s" arbitrary: s rule: less_induct)
  case less
  show ?case
  proof (cases "body s")
    case (Some p)
    then obtain ys s' where b: "body s = Some (ys, s')" by (cases p) auto
    from less [OF assms [OF b]] obtain r where "run_loop body s' = Some r" by blast
    from run_loop_turn [OF b this] show ?thesis by simp
  qed (simp add: run_loop_stop)
qed

lemma Simple_nextRow_shrinks:
  "Simple_nextRow s = (x, st', ls') \<Longrightarrow> length ls' + (case x of None \<Rightarrow> 0 | Some _ \<Rightarrow> 1) \<le> length (snd s)"
  by (induction s arbitrary: x st' ls' rule: Simple_nextRow.induct)
    (fastforce simp: Let_def split: if_splits)+

definition simple_left :: "(simple_state \<times> string list \<times> string list) \<times> string list option \<times> string list option \<Rightarrow> nat" where
  "simple_left st = (case st of ((s, ls, ks), oldv, newv) \<Rightarrow>
     length ls + length ks + length (set_option_list oldv) + length (set_option_list newv))"

lemma Simple_diff_step_shrinks:
  assumes "diff_step simple_old simple_new key eq st = Some (ys, st')"
  shows "simple_left st' < simple_left st"
proof -
  obtain s oo nn oldv newv where st: "st = ((s, oo, nn), oldv, newv)" by (metis prod_cases3)
  obtain x1 s1 o1 where r1: "Simple_nextRow (s, oo) = (x1, s1, o1)" by (metis prod_cases3)
  obtain x2 s2 n2 where r2: "Simple_nextRow (s, nn) = (x2, s2, n2)" by (metis prod_cases3)
  obtain x3 s3 n3 where r3: "Simple_nextRow (s1, nn) = (x3, s3, n3)" by (metis prod_cases3)
  note le = Simple_nextRow_shrinks [OF r1] Simple_nextRow_shrinks [OF r2] Simple_nextRow_shrinks [OF r3]
  show ?thesis
    using assms le
    by (cases oldv; cases newv; cases x1; cases x2; cases x3)
      (auto simp: st simple_left_def diff_step_def simple_old_def simple_new_def r1 r2 r3 split: if_splits)
qed

lemma Simple_diffRows_total: "Simple_diffRows c st o' n' \<noteq> None"
  unfolding Simple_diffRows_def diff_rows_def case_prod_unfold
  by (rule run_loop_total) (rule Simple_diff_step_shrinks)

lemma TSV_total: "TSV_allRows r \<noteq> None" "TSV_diffRows c o' n' \<noteq> None"
  by (simp_all add: TSV_allRows_rows TSV_diffRows_merge)

lemma Simple_allRows_total: "Simple_allRows r \<noteq> None"
  by (simp add: Simple_allRows_def simple.all_rows_rows)

lemma JSON_total: "JSON_allItems jc r \<noteq> None" "JSON_diffItems jc o' n' \<noteq> None"
  by (simp_all add: JSON_allItems_def JSON_diffItems_def json.all_rows_rows json2.diff_rows_merge)

lemma XML_total: "XML_allItems xc r \<noteq> None" "XML_diffItems xc o' n' \<noteq> None"
  by (simp_all add: XML_allItems_def XML_diffItems_def xml.all_rows_rows xml2.diff_rows_merge)

lemma process_with_total:
  "(\<And>ds dir. pall ds dir \<noteq> None) \<Longrightarrow> (\<And>ds dir. pdiff ds dir \<noteq> None) \<Longrightarrow>
     fst (process_with no_diff pall pdiff env ds dir wd) \<noteq> None"
  by (auto simp: process_with_def split: prod.splits option.splits)

lemma TSV_Process_total: "fst (TSV_Process csv c upsert env ds dir wd) \<noteq> None"
  unfolding TSV_Process_def
  by (rule process_with_total)
    (simp_all del: not_None_eq add: TSV_total TSV_processAll_def TSV_processDiff_def split: option.splits)

lemma Simple_Process_total: "fst (Simple_Process st c upsert env ds dir wd) \<noteq> None"
  unfolding Simple_Process_def
  by (rule process_with_total)
    (simp_all del: not_None_eq add: Simple_allRows_total Simple_diffRows_total Simple_processAll_def Simple_processDiff_def split: option.splits prod.splits)

lemma JSON_Process_total: "fst (JSON_Process jc upsert env ds dir wd) \<noteq> None"
  unfolding JSON_Process_def
  by (rule process_with_total)
    (simp_all del: not_None_eq add: JSON_total JSON_processAll_def JSON_processDiff_def split: option.splits)

lemma XML_Process_total: "fst (XML_Process xml xc upsert env ds dir wd) \<noteq> None"
  unfolding XML_Process_def
  by (rule process_with_total)
    (simp_all del: not_None_eq add: XML_total XML_processAll_def XML_processDiff_def split: option.splits)

section \<open>What is written\<close>

lemma Simple_diffRows_merge:
  "fst st \<noteq> 0 \<Longrightarrow> Simple_diffRows c st o' n'
     = Some (diff_merge (td_get_row_key c) (=) (simple_rows (fst st) o') (simple_rows (fst st) n'))"
  using simple2.diff_rows_merge [of "(st, o', n')"] by (simp add: Simple_diffRows_def)

lemma JSON_diffItems_merge:
  "JSON_diffItems c o' n' = Some (diff_merge (jd_get_item_key c) (jd_is_item_equal c) (json_rows c o') (json_rows c n'))"
  by (simp add: JSON_diffItems_def json2.diff_rows_merge)

lemma XML_diffItems_merge:
  "XML_diffItems c o' n' = Some (diff_merge (xd_get_item_key c) (xd_is_item_equal c) (xml_rows c o') (xml_rows c n'))"
  by (simp add: XML_diffItems_def xml2.diff_rows_merge)

text \<open>When every row parses, writing the rows is writing the parsed items one after the other.\<close>

lemma process_items_write_all:
  "(\<And>r. r \<in> set rows \<Longrightarrow> parse r = Inr (f r)) \<Longrightarrow>
     process_items parse upsert wd rows = (case write_all upsert wd (map f rows) of (e, wd') \<Rightarrow> (map_option WriterError e, wd'))"
  by (induction rows arbitrary: wd) (auto split: prod.splits option.splits)

text \<open>
  C3: \<open>processDiff\<close> of a TSV dataset on two files whose rows are strictly sorted by key hands the writer
  exactly the rows of the new file that are new or changed, in the order of the new file, and ends.
\<close>

theorem TSV_processDiff_added_or_changed:
  assumes "open_file env dir (ds_prev_filename ds) = Some oldc" and "TSV_newReader c (csv oldc) = Some oldR"
    and "open_file env dir (ds_curr_filename ds) = Some newc" and "TSV_newReader c (csv newc) = Some newR"
    and "key_sorted (td_get_row_key c) (tsv_rows oldR)" and "key_sorted (td_get_row_key c) (tsv_rows newR)"
  shows "TSV_processDiff csv c upsert env wd ds dir
    = Some (process_items (td_parse_row c) upsert wd (filter (\<lambda>row. row \<notin> set (tsv_rows oldR)) (tsv_rows newR)))"
proof -
  have "added_or_changed (td_get_row_key c) (=) (tsv_rows oldR) (tsv_rows newR)
      = filter (\<lambda>row. row \<notin> set (tsv_rows oldR)) (tsv_rows newR)"
    unfolding added_or_changed_def by (intro filter_cong) auto
  with assms show ?thesis by (simp add: TSV_processDiff_def TSV_diffRows_merge diff_merge_spec)
qed

text \<open>Two files for the witnesses: key \<open>a\<close> is unchanged, \<open>b\<close> is gone, \<open>c\<close> has changed, \<open>d\<close> is new.\<close>

definition sample_files :: directory where
  "sample_files = [(''n'', ''N''), (''p'', ''P'')]"

definition sample_ds :: dataset where
  "sample_ds = (sample_dataset [])\<lparr>ds_prev_filename := ''p'', ds_curr_filename := ''n''\<rparr>"

definition sample_csv :: "string \<Rightarrow> csv_read list" where
  "sample_csv content =
     (if content = ''P'' then [CsvRecord [''a'', ''1''], CsvRecord [''b'', ''1''], CsvRecord [''c'', ''1'']]
      else [CsvRecord [''a'', ''1''], CsvError, CsvRecord [''c'', ''2''], CsvRecord [''d'', ''1'']])"

definition sample_tsv :: "string tsv_dataset" where
  "sample_tsv = \<lparr>td_get_row_key = hd, td_has_headers = False, td_is_valid_headers = (\<lambda>h. True), td_no_diff = False,
     td_parse_row = (\<lambda>r. Inr (Some (concat r)))\<rparr>"

definition sample_writer :: "string dataset_writer" where
  "sample_writer = NewDatasetWriter [] \<lparr>wc_BatchSize = 5, wc_SleepDuration = 0\<rparr>"

theorem TSV_processDiff_added_or_changed_witness:
  "\<exists>w. TSV_processDiff sample_csv sample_tsv (log_upsert (\<lambda>n. None)) sample_env (sample_writer, []) sample_ds sample_files
     = Some (None, w, [[''c2'', ''d1'']])"
proof -
  have files: "open_file sample_env sample_files (ds_prev_filename sample_ds) = Some ''P''"
    "open_file sample_env sample_files (ds_curr_filename sample_ds) = Some ''N''"
    by code_simp+
  have readers: "TSV_newReader sample_tsv (sample_csv ''P'') = Some (sample_csv ''P'')"
    "TSV_newReader sample_tsv (sample_csv ''N'') = Some (sample_csv ''N'')"
    by (simp_all add: TSV_newReader_def sample_tsv_def)
  have sorted: "key_sorted (td_get_row_key sample_tsv) (tsv_rows (sample_csv ''P''))"
    "key_sorted (td_get_row_key sample_tsv) (tsv_rows (sample_csv ''N''))"
    by code_simp+
  have "filter (\<lambda>row. row \<notin> set (tsv_rows (sample_csv ''P''))) (tsv_rows (sample_csv ''N'')) = [[''c'', ''2''], [''d'', ''1'']]"
    by code_simp
  with TSV_processDiff_added_or_changed [OF files(1) readers(1) files(2) readers(2) sorted,
      of "log_upsert (\<lambda>n. None)" "(sample_writer, [])"]
  show ?thesis
    by (simp add: sample_writer_def sample_tsv_def NewDatasetWriter_def writer_Write_def writer_Done_def log_upsert_def Let_def)
      (simp add: numeral_eq_Suc)
qed

text \<open>
  \<open>processDiff\<close> of an XML dataset on two documents whose items are strictly sorted by key stores
  exactly the items of the new one for which the old one has no equal item under the same key: if the
  run ends without an error the batches concatenate to them.
\<close>

theorem XML_processDiff_added_or_changed:
  assumes "open_file env dir (ds_prev_filename ds) = Some oldc" and "open_file env dir (ds_curr_filename ds) = Some newc"
    and "oldv = xml_rows c (XML_NewReader (xml oldc))" and "newv = xml_rows c (XML_NewReader (xml newc))"
    and "key_sorted (xd_get_item_key c) oldv" and "key_sorted (xd_get_item_key c) newv"
    and "XML_processDiff xml c (log_upsert fails) env (NewDatasetWriter zero conf, []) ds dir = Some (None, w, lg)"
  shows "concat lg = added_or_changed (xd_get_item_key c) (xd_is_item_equal c) oldv newv"
proof -
  let ?rows = "added_or_changed (xd_get_item_key c) (xd_is_item_equal c) oldv newv"
  have "process_items (\<lambda>x. Inr (Some x)) (log_upsert fails) (NewDatasetWriter zero conf, []) ?rows = (None, w, lg)"
    using assms by (simp add: XML_processDiff_def XML_diffItems_merge diff_merge_spec)
  then have "write_all (log_upsert fails) (NewDatasetWriter zero conf, []) (map Some ?rows) = (None, w, lg)"
    by (simp add: process_items_write_all [where f = Some] split: prod.splits)
  from write_all_ok [OF this] show ?thesis by simp
qed

text \<open>A document of one list of two items, decoded as their names.\<close>

definition sample_xml :: "(string, string) xml_dataset" where
  "sample_xml = \<lparr>xd_list_tag_name = ''l'', xd_item_tag_name = ''i'', xd_no_diff = False, xd_prepare = Some,
     xd_get_item_key = id, xd_is_item_equal = (=),
     xd_decode = (\<lambda>toks. case toks of EndElement x # _ \<Rightarrow> (Some x, 1) | _ \<Rightarrow> (None, 0))\<rparr>"

definition sample_tokens :: "string \<Rightarrow> xml_token list" where
  "sample_tokens content = [StartElement ''l'', StartElement ''i'', EndElement ''a'', StartElement ''i'', EndElement content, EndElement ''l'']"

theorem XML_processDiff_added_or_changed_witness:
  "\<exists>w lg. XML_processDiff sample_tokens sample_xml (log_upsert (\<lambda>n. None)) sample_env (sample_writer, []) sample_ds
       ((''n'', ''c'') # (''p'', ''b'') # []) = Some (None, w, lg) \<and> concat lg = [''c'']"
proof -
  let ?dir = "(''n'', ''c'') # (''p'', ''b'') # []"
  let ?old = "xml_rows sample_xml (XML_NewReader (sample_tokens ''b''))"
  let ?new = "xml_rows sample_xml (XML_NewReader (sample_tokens ''c''))"
  have files: "open_file sample_env ?dir (ds_prev_filename sample_ds) = Some ''b''"
    "open_file sample_env ?dir (ds_curr_filename sample_ds) = Some ''c''"
    by code_simp+
  have rows: "?old = [''a'', ''b'']" "?new = [''a'', ''c'']"
    by (code_simp, code_simp)
  have sorted: "key_sorted (xd_get_item_key sample_xml) ?old" "key_sorted (xd_get_item_key sample_xml) ?new"
    unfolding rows by code_simp+
  have diff: "XML_diffItems sample_xml (XML_NewReader (sample_tokens ''b'')) (XML_NewReader (sample_tokens ''c'')) = Some [''c'']"
    unfolding XML_diffItems_merge rows by code_simp
  obtain w lg where run: "XML_processDiff sample_tokens sample_xml (log_upsert (\<lambda>n. None)) sample_env (sample_writer, [])
      sample_ds ?dir = Some (None, w, lg)"
    by (simp add: XML_processDiff_def files diff sample_writer_def NewDatasetWriter_def writer_Write_def
        writer_Done_def log_upsert_def Let_def)
  have "added_or_changed (xd_get_item_key sample_xml) (xd_is_item_equal sample_xml) ?old ?new = [''c'']"
    unfolding rows by code_simp
  with run XML_processDiff_added_or_changed [OF files refl refl sorted run [unfolded sample_writer_def]] show ?thesis
    by auto
qed

text \<open>
  \<open>Process\<close> ends for every kind of dataset, whatever the files hold and whatever the callbacks do:
  none of the loops over the readers runs forever.
\<close>

theorem Process_terminates:
  "fst (TSV_Process csv c upsert env ds dir wd) \<noteq> None
   \<and> fst (Simple_Process st c upsert env ds dir wd) \<noteq> None
   \<and> fst (JSON_Process jc jupsert env ds dir jwd) \<noteq> None
   \<and> fst (XML_Process xml xc xupsert env ds dir xwd) \<noteq> None"
  by (intro conjI TSV_Process_total Simple_Process_total JSON_Process_total XML_Process_total)

end
