(* ===== verification/Watched_Bitfield.thy ===== *)
theory Watched_Bitfield
  imports Core_Codec "HOL-Library.Word"
begin

text \<open>
  The watched bit field of the library items of Stremio (\<open>stremio/watched_bitfield\<close>): the bit array
  (\<open>bitfield8.go\<close>), its serialized form with an anchor video, and the realignment of the bits when the
  list of videos has changed (\<open>watched_bitfield.go\<close>). Bytes are 8 bit words. The compression of
  \<open>compress/zlib\<close> is the pair of functions \<open>deflate\<close> (\<open>None\<close> for an error) and \<open>inflate\<close>. A negative index
  panics in Go; that is the value \<open>None\<close> of \<open>Get\<close> and \<open>Set\<close>, and the loops use the indexed bodies
  \<open>get_bit\<close> and \<open>set_bit_at\<close>. The JSON forms are the string form inside quotes and are left out.
\<close>

unbundle bit_operations_syntax

section \<open>bitfield8.go\<close>

record bitfield8 =
  bf_Length :: nat
  bf_values :: "8 word list"

definition get_bit :: "8 word list \<Rightarrow> nat \<Rightarrow> bool" where
  "get_bit vs i =
     (let index = i div 8; b = i mod 8 in
      if length vs \<le> index then False
      else drop_bit b (vs ! index) AND 1 \<noteq> 0)"

definition Get :: "bitfield8 \<Rightarrow> int \<Rightarrow> bool option" where
  "Get bf i =
     (if i < 0 then (if - 8 < i \<and> bf_values bf = [] then Some False else None)
      else Some (get_bit (bf_values bf) (nat i)))"

definition set_bit_at :: "bitfield8 \<Rightarrow> nat \<Rightarrow> bool \<Rightarrow> bitfield8" where
  "set_bit_at bf i val =
     (let index = i div 8; mask = push_bit (i mod 8) (1 :: 8 word);
          bf1 = (if length (bf_values bf) \<le> index
                 then let vs = bf_values bf @ replicate (index - length (bf_values bf) + 1) 0
                      in bf\<lparr>bf_values := vs, bf_Length := length vs * 8\<rparr>
                 else bf);
          vs = bf_values bf1
      in bf1\<lparr>bf_values := vs[index := (if val then vs ! index OR mask else vs ! index AND NOT mask)]\<rparr>)"

definition Set :: "bitfield8 \<Rightarrow> int \<Rightarrow> bool \<Rightarrow> bitfield8 option" where
  "Set bf i val = (if i < 0 then None else Some (set_bit_at bf (nat i) val))"

definition FirstIndexOf :: "bitfield8 \<Rightarrow> bool \<Rightarrow> int" where
  "FirstIndexOf bf val =
     (case find (\<lambda>i. get_bit (bf_values bf) i = val) [0..<bf_Length bf] of None \<Rightarrow> - 1 | Some i \<Rightarrow> int i)"

definition LastIndexOf :: "bitfield8 \<Rightarrow> bool \<Rightarrow> int" where
  "LastIndexOf bf val =
     (case find (\<lambda>i. get_bit (bf_values bf) i = val) (rev [0..<bf_Length bf]) of None \<Rightarrow> - 1 | Some i \<Rightarrow> int i)"

datatype bitfield_error = InvalidFormat string | Unexpected string

datatype zlib_result = BadHeader | BadData | Inflated "8 word list"

definition ceil8 :: "nat \<Rightarrow> nat" where
  "ceil8 n = (n + 7) div 8"

definition NewBitField8 :: "nat \<Rightarrow> bitfield8" where
  "NewBitField8 len = (let len' = ceil8 len in \<lparr>bf_Length = len', bf_values = replicate len' 0\<rparr>)"

definition NewBitField8WithValues :: "8 word list \<Rightarrow> nat \<Rightarrow> bitfield8" where
  "NewBitField8WithValues vs len =
     (let len' = (if len = 0 then length vs * 8 else len); bytes = ceil8 len';
          vs' = (if length vs < bytes then vs @ replicate (bytes - length vs) 0 else vs)
      in \<lparr>bf_Length = len', bf_values = vs'\<rparr>)"

definition BitField8_MarshalText :: "(8 word list \<Rightarrow> string option) \<Rightarrow> bitfield8 \<Rightarrow> bitfield_error + string" where
  "BitField8_MarshalText deflate bf =
     (case deflate (bf_values bf) of
        None \<Rightarrow> Inl (Unexpected ''failed to write compressed data'')
      | Some packed \<Rightarrow> Inr (b64_encode packed))"

definition BitField8_UnmarshalText :: "(string \<Rightarrow> zlib_result) \<Rightarrow> bitfield8 \<Rightarrow> string \<Rightarrow> bitfield_error + bitfield8" where
  "BitField8_UnmarshalText inflate bf text =
     (case b64_decode text of
        None \<Rightarrow> Inl (InvalidFormat ''failed to decode bitfield'')
      | Some packed \<Rightarrow>
          (case inflate packed of
             BadHeader \<Rightarrow> Inl (Unexpected ''failed to create zlib reader'')
           | BadData \<Rightarrow> Inl (InvalidFormat ''failed to decompress data'')
           | Inflated decoded \<Rightarrow> Inr (NewBitField8WithValues decoded (bf_Length bf))))"

definition NewBitField8FromString :: "(string \<Rightarrow> zlib_result) \<Rightarrow> string \<Rightarrow> nat \<Rightarrow> bitfield_error + bitfield8" where
  "NewBitField8FromString inflate encoded len =
     BitField8_UnmarshalText inflate \<lparr>bf_Length = len, bf_values = []\<rparr> encoded"

section \<open>watched_bitfield.go\<close>

record watched_field =
  wf_AnchorVideo :: string
  wf_AnchorLength :: int
  wf_BitField :: bitfield8

record watched_bitfield =
  wb_bitfield :: bitfield8
  wb_video_ids :: "string list"

definition WatchedField_MarshalText :: "(8 word list \<Rightarrow> string option) \<Rightarrow> watched_field \<Rightarrow> bitfield_error + string" where
  "WatchedField_MarshalText deflate fld =
     (case BitField8_MarshalText deflate (wf_BitField fld) of
        Inl e \<Rightarrow> Inl e
      | Inr s \<Rightarrow> Inr (wf_AnchorVideo fld @ '':'' @ itoa (wf_AnchorLength fld) @ '':'' @ s))"

definition WatchedField_UnmarshalText :: "(string \<Rightarrow> zlib_result) \<Rightarrow> string \<Rightarrow> bitfield_error + watched_field" where
  "WatchedField_UnmarshalText inflate text =
     (let components = split_on CHR '':'' text; n = length components in
      if n < 3 then Inl (InvalidFormat ''Not enough components'')
      else case atoi (components ! (n - 2)) of
          None \<Rightarrow> Inl (InvalidFormat ''Cannot obtain the length field'')
        | Some anchor_length \<Rightarrow>
            (case BitField8_UnmarshalText inflate \<lparr>bf_Length = 0, bf_values = []\<rparr> (components ! (n - 1)) of
               Inl e \<Rightarrow> Inl e
             | Inr bf \<Rightarrow> Inr \<lparr>wf_AnchorVideo = go_join '':'' (take (n - 2) components),
                            wf_AnchorLength = anchor_length, wf_BitField = bf\<rparr>))"

text \<open>\<open>slices.Index\<close>.\<close>

fun slice_index :: "'a list \<Rightarrow> 'a \<Rightarrow> nat option" where
  "slice_index [] x = None"
| "slice_index (y # ys) x = (if y = x then Some 0 else map_option Suc (slice_index ys x))"

definition NewWatchedFieldFromWatchedBitField :: "watched_bitfield \<Rightarrow> watched_field" where
  "NewWatchedFieldFromWatchedBitField wb =
     (let last_id = max (LastIndexOf (wb_bitfield wb) True) 0;
          last_video_id = (if nat last_id < length (wb_video_ids wb) then wb_video_ids wb ! nat last_id else ''undefined'')
      in \<lparr>wf_AnchorVideo = last_video_id, wf_AnchorLength = last_id + 1, wf_BitField = wb_bitfield wb\<rparr>)"

text \<open>The loop that rewrites the old bits into the new buffer, one index of \<open>video_ids\<close> after the other.\<close>

fun rewrite_bits :: "bitfield8 \<Rightarrow> int \<Rightarrow> nat list \<Rightarrow> bitfield8 \<Rightarrow> bitfield8" where
  "rewrite_bits old offset [] resized = resized"
| "rewrite_bits old offset (i # is) resized =
     (let id_in_prev = wrap64 (int i + offset) in
      rewrite_bits old offset is
        (if 0 \<le> id_in_prev \<and> id_in_prev < int (bf_Length old)
         then set_bit_at resized i (get_bit (bf_values old) (nat id_in_prev))
         else resized))"

definition toWatchedBitField :: "watched_field \<Rightarrow> string list \<Rightarrow> watched_bitfield" where
  "toWatchedBitField fld video_ids =
     (case slice_index video_ids (wf_AnchorVideo fld) of
        None \<Rightarrow> \<lparr>wb_bitfield = NewBitField8 (length video_ids), wb_video_ids = video_ids\<rparr>
      | Some anchor_video_idx \<Rightarrow>
          let offset = wrap64 (wf_AnchorLength fld - int anchor_video_idx - 1);
              bitfield = NewBitField8WithValues (bf_values (wf_BitField fld)) (length video_ids)
          in if offset \<noteq> 0
             then \<lparr>wb_bitfield = rewrite_bits bitfield offset [0..<length video_ids] (NewBitField8 (length video_ids)),
                   wb_video_ids = video_ids\<rparr>
             else \<lparr>wb_bitfield = bitfield, wb_video_ids = video_ids\<rparr>)"

definition WatchedBitField_MarshalText :: "(8 word list \<Rightarrow> string option) \<Rightarrow> watched_bitfield \<Rightarrow> bitfield_error + string" where
  "WatchedBitField_MarshalText deflate wb = WatchedField_MarshalText deflate (NewWatchedFieldFromWatchedBitField wb)"

definition WatchedBitField_UnmarshalText :: "(string \<Rightarrow> zlib_result) \<Rightarrow> watched_bitfield \<Rightarrow> string \<Rightarrow> bitfield_error + watched_bitfield" where
  "WatchedBitField_UnmarshalText inflate wb text =
     (case WatchedField_UnmarshalText inflate text of
        Inl e \<Rightarrow> Inl e
      | Inr fld \<Rightarrow> Inr (wb\<lparr>wb_bitfield := wb_bitfield (toWatchedBitField fld (wb_video_ids wb))\<rparr>))"

definition GetVideo :: "watched_bitfield \<Rightarrow> string \<Rightarrow> bool" where
  "GetVideo wb video_id =
     (case slice_index (wb_video_ids wb) video_id of
        None \<Rightarrow> False
      | Some pos \<Rightarrow> get_bit (bf_values (wb_bitfield wb)) pos)"

definition SetVideo :: "watched_bitfield \<Rightarrow> string \<Rightarrow> bool \<Rightarrow> watched_bitfield" where
  "SetVideo wb video_id v =
     (case slice_index (wb_video_ids wb) video_id of
        None \<Rightarrow> wb
      | Some pos \<Rightarrow> wb\<lparr>wb_bitfield := set_bit_at (wb_bitfield wb) pos v\<rparr>)"

text \<open>\<open>None\<close> is the panic of indexing an empty list of videos.\<close>

definition GetFirstUnwatchedVideoId :: "watched_bitfield \<Rightarrow> string option" where
  "GetFirstUnwatchedVideoId wb =
     (let idx = FirstIndexOf (wb_bitfield wb) False; n = int (length (wb_video_ids wb));
          idx' = (if idx = - 1 \<or> n \<le> idx then n - 1 else idx)
      in if idx' < 0 then None else Some (wb_video_ids wb ! nat idx'))"

definition GetNextUnwatchedVideoId :: "watched_bitfield \<Rightarrow> string" where
  "GetNextUnwatchedVideoId wb =
     (let idx = LastIndexOf (wb_bitfield wb) True + 1 in
      if idx \<le> 0 \<or> int (length (wb_video_ids wb)) \<le> idx then [] else wb_video_ids wb ! nat idx)"

definition NewWatchedBitField :: "bitfield8 \<Rightarrow> string list \<Rightarrow> watched_bitfield" where
  "NewWatchedBitField bf video_ids = \<lparr>wb_bitfield = bf, wb_video_ids = video_ids\<rparr>"

definition NewWatchedBitFieldFromString :: "(string \<Rightarrow> zlib_result) \<Rightarrow> string \<Rightarrow> string list \<Rightarrow> bitfield_error + watched_bitfield" where
  "NewWatchedBitFieldFromString inflate str video_ids =
     WatchedBitField_UnmarshalText inflate \<lparr>wb_bitfield = \<lparr>bf_Length = 0, bf_values = []\<rparr>, wb_video_ids = video_ids\<rparr> str"

definition NewWatchedBitFieldFromArray :: "bool list \<Rightarrow> string list \<Rightarrow> watched_bitfield" where
  "NewWatchedBitFieldFromArray arr video_ids =
     NewWatchedBitField
       (foldl (\<lambda>bf (i, v). set_bit_at bf i v) (NewBitField8 (length video_ids)) (zip [0..<length arr] arr)) video_ids"

section \<open>Laws of the bit array\<close>

lemma and_one_bit: "(drop_bit b w AND 1 \<noteq> 0) = bit w b" for w :: "8 word"
  by (simp add: and_one_eq odd_iff_mod_2_eq_one [symmetric] bit_iff_odd_drop_bit)

lemma get_bit_eq: "get_bit vs i \<longleftrightarrow> i div 8 < length vs \<and> bit (vs ! (i div 8)) (i mod 8)"
  by (simp add: get_bit_def Let_def and_one_bit not_less)

lemma get_bit_zeros [simp]: "\<not> get_bit (replicate n 0) i"
  by (auto simp: get_bit_eq)

lemma get_bit_append_zeros [simp]: "get_bit (vs @ replicate n 0) i = get_bit vs i"
  by (auto simp: get_bit_eq nth_append)

lemma bit_set_mask:
  "i < 8 \<Longrightarrow> bit (if v then w OR push_bit i 1 else w AND NOT (push_bit i 1)) j = (if j = i then v else bit w j)"
  for w :: "8 word"
  by (cases "j < 8") (auto simp: bit_or_iff bit_and_iff bit_not_iff bit_exp_iff possible_bit_word dest: bit_imp_le_length)

text \<open>An array of bits: a read after writes.\<close>

locale bit_array =
  fixes get :: "'b \<Rightarrow> nat \<Rightarrow> bool" and set_at :: "'b \<Rightarrow> nat \<Rightarrow> bool \<Rightarrow> 'b"
  assumes get_set: "get (set_at b i v) j = (if j = i then v else get b j)"
begin

lemma set_set_same: "get (set_at (set_at b i v) i w) = get (set_at b i w)"
  by (rule ext) (simp add: get_set)

lemma set_commute: "i \<noteq> j \<Longrightarrow> get (set_at (set_at b i v) j w) = get (set_at (set_at b j w) i v)"
  by (rule ext) (simp add: get_set)

lemma get_sets:
  "distinct (map fst ivs) \<Longrightarrow>
     get (foldl (\<lambda>b (i, v). set_at b i v) b ivs) j = (case map_of ivs j of None \<Rightarrow> get b j | Some v \<Rightarrow> v)"
proof (induction ivs arbitrary: b)
  case (Cons p ivs)
  obtain i v where p: "p = (i, v)" by (cases p)
  with Cons.prems have "map_of ivs i = None" by (simp add: map_of_eq_None_iff)
  with Cons p show ?case by (auto simp: get_set split: option.splits)
qed simp

end

lemma get_bit_set_at: "get_bit (bf_values (set_bit_at bf i v)) j = (if j = i then v else get_bit (bf_values bf) j)"
proof -
  let ?vs = "bf_values bf"
  let ?vs' = "if length ?vs \<le> i div 8 then ?vs @ replicate (i div 8 - length ?vs + 1) 0 else ?vs"
  let ?w = "?vs' ! (i div 8)"
  let ?new = "if v then ?w OR push_bit (i mod 8) 1 else ?w AND NOT (push_bit (i mod 8) 1)"
  have vs: "bf_values (set_bit_at bf i v) = ?vs'[i div 8 := ?new]"
    by (simp add: set_bit_at_def Let_def)
  have len: "i div 8 < length ?vs'" by auto
  have old: "get_bit ?vs' j = get_bit ?vs j"
    by (cases "length ?vs \<le> i div 8") (simp_all only: if_True if_False get_bit_append_zeros)
  show ?thesis
  proof (cases "j div 8 = i div 8")
    case True
    have "get_bit (?vs'[i div 8 := ?new]) j = bit ?new (j mod 8)" using True len by (simp add: get_bit_eq)
    also have "\<dots> = (if j mod 8 = i mod 8 then v else bit ?w (j mod 8))" by (rule bit_set_mask) simp
    also have "\<dots> = (if j = i then v else get_bit ?vs' j)"
      using True len by (auto simp: get_bit_eq) (metis div_mult_mod_eq)+
    finally show ?thesis using vs old by simp
  next
    case False
    then have "get_bit (?vs'[i div 8 := ?new]) j = get_bit ?vs' j" "j \<noteq> i" by (auto simp: get_bit_eq)
    then show ?thesis using vs old by simp
  qed
qed

interpretation bits: bit_array "\<lambda>bf. get_bit (bf_values bf)" set_bit_at
  by unfold_locales (rule get_bit_set_at)

lemma Get_Set:
  "0 \<le> i \<Longrightarrow> 0 \<le> j \<Longrightarrow> Set bf i v = Some bf' \<Longrightarrow> Get bf' j = (if j = i then Some v else Get bf j)"
  by (auto simp: Set_def Get_def bits.get_set nat_eq_iff split: if_splits)

lemma find_last_bound: "find P (rev [0..<n]) = Some i \<Longrightarrow> i < n \<and> P i \<and> (\<forall>j. i < j \<and> j < n \<longrightarrow> \<not> P j)"
proof (induction n)
  case (Suc n)
  then show ?case by (auto simp: less_Suc_eq split: if_splits)
qed simp

lemma find_None_rev: "find P (rev [0..<n]) = None \<Longrightarrow> \<forall>j < n. \<not> P j"
  by (auto simp: find_None_iff)

lemma LastIndexOf_spec:
  "LastIndexOf bf v = k \<Longrightarrow> - 1 \<le> k \<and> k < int (bf_Length bf) \<and> (0 \<le> k \<longrightarrow> get_bit (bf_values bf) (nat k) = v)
     \<and> (\<forall>j. k < int j \<and> j < bf_Length bf \<longrightarrow> get_bit (bf_values bf) j \<noteq> v)"
  unfolding LastIndexOf_def
  by (cases "find (\<lambda>i. get_bit (bf_values bf) i = v) (rev [0..<bf_Length bf])")
    (auto dest: find_None_rev find_last_bound)

lemma slice_index_Some: "slice_index xs x = Some i \<Longrightarrow> i < length xs \<and> xs ! i = x"
  by (induction xs arbitrary: i) (auto split: if_splits)

lemma slice_index_nth: "distinct xs \<Longrightarrow> i < length xs \<Longrightarrow> slice_index xs (xs ! i) = Some i"
proof (induction xs arbitrary: i)
  case (Cons y ys)
  then show ?case by (cases i) auto
qed simp

lemma slice_index_None: "slice_index xs x = None \<longleftrightarrow> x \<notin> set xs"
  by (induction xs) auto

lemma NewBitField8_bits [simp]: "\<not> get_bit (bf_values (NewBitField8 n)) i"
  by (simp add: NewBitField8_def Let_def)

lemma NewBitField8WithValues_bits [simp]: "get_bit (bf_values (NewBitField8WithValues vs n)) i = get_bit vs i"
  by (simp add: NewBitField8WithValues_def Let_def)

lemma rewrite_bits_get:
  "get_bit (bf_values (rewrite_bits old offset is r)) j =
     (let p = wrap64 (int j + offset) in
      if j \<in> set is \<and> 0 \<le> p \<and> p < int (bf_Length old) then get_bit (bf_values old) (nat p)
      else get_bit (bf_values r) j)"
  by (induction "is" arbitrary: r) (auto simp: Let_def bits.get_set)

section \<open>Well-formed fields\<close>

text \<open>What the constructors establish and \<open>SetVideo\<close> keeps.\<close>

definition wb_ok :: "watched_bitfield \<Rightarrow> bool" where
  "wb_ok wb \<longleftrightarrow> bf_Length (wb_bitfield wb) \<le> length (wb_video_ids wb)
     \<and> ceil8 (length (wb_video_ids wb)) \<le> length (bf_values (wb_bitfield wb))"

lemma ceil8_le: "ceil8 n \<le> n"
  by (simp add: ceil8_def)

lemma pos_div_ceil8: "i < n \<Longrightarrow> i div 8 < ceil8 n"
  by (simp add: ceil8_def)

lemma wb_ok_new: "wb_ok (NewWatchedBitField (NewBitField8 (length ids)) ids)"
  by (simp add: wb_ok_def NewWatchedBitField_def NewBitField8_def Let_def ceil8_le)

lemma set_bit_at_inside:
  "i div 8 < length (bf_values bf) \<Longrightarrow>
     bf_Length (set_bit_at bf i v) = bf_Length bf \<and> length (bf_values (set_bit_at bf i v)) = length (bf_values bf)"
  by (simp add: set_bit_at_def Let_def)

lemma wb_ok_SetVideo: "wb_ok wb \<Longrightarrow> wb_ok (SetVideo wb video_id v)"
proof -
  assume ok: "wb_ok wb"
  show ?thesis
  proof (cases "slice_index (wb_video_ids wb) video_id")
    case (Some pos)
    then have "pos div 8 < length (bf_values (wb_bitfield wb))"
      using slice_index_Some [OF Some] ok pos_div_ceil8 [of pos] by (fastforce simp: wb_ok_def)
    from set_bit_at_inside [OF this] show ?thesis using ok Some by (simp add: SetVideo_def wb_ok_def)
  qed (use ok in \<open>simp add: SetVideo_def\<close>)
qed

lemma rewrite_bits_size:
  "\<forall>i \<in> set is. i div 8 < length (bf_values r) \<Longrightarrow>
     bf_Length (rewrite_bits old offset is r) = bf_Length r \<and> length (bf_values (rewrite_bits old offset is r)) = length (bf_values r)"
  by (induction "is" arbitrary: r) (simp_all add: Let_def set_bit_at_inside)

lemma toWatchedBitField_ids [simp]: "wb_video_ids (toWatchedBitField fld ids) = ids"
  by (simp add: toWatchedBitField_def Let_def split: option.splits)

lemma NewBitField8_size [simp]:
  "bf_Length (NewBitField8 n) = ceil8 n" "length (bf_values (NewBitField8 n)) = ceil8 n"
  by (simp_all add: NewBitField8_def Let_def)

lemma NewBitField8WithValues_size:
  "n \<noteq> 0 \<Longrightarrow> bf_Length (NewBitField8WithValues vs n) = n \<and> ceil8 n \<le> length (bf_values (NewBitField8WithValues vs n))"
  by (simp add: NewBitField8WithValues_def Let_def)

lemma rewrite_bits_new_size:
  "bf_Length (rewrite_bits old offset [0..<n] (NewBitField8 n)) = ceil8 n"
  "length (bf_values (rewrite_bits old offset [0..<n] (NewBitField8 n))) = ceil8 n"
  using rewrite_bits_size [of "[0..<n]" "NewBitField8 n"] by (simp_all add: pos_div_ceil8)

lemma wb_ok_toWatchedBitField: "ids \<noteq> [] \<Longrightarrow> wb_ok (toWatchedBitField fld ids)"
  using NewBitField8WithValues_size [of "length ids"]
  by (auto simp: toWatchedBitField_def wb_ok_def Let_def rewrite_bits_new_size ceil8_le split: option.splits)

lemma split_on_two: "split_on c (a @ c # b) = split_on c a @ split_on c b"
proof (induction a)
  case (Cons d a)
  then show ?case by (cases "split_on c a") auto
qed simp

lemma b64_no_colon: "CHR '':'' \<notin> set (b64_encode s)"
  using b64_encode_chars by blast

section \<open>Properties\<close>

text \<open>
  \<open>SetVideo\<close> marks exactly the given video: afterwards \<open>GetVideo\<close> gives the new value for it, the old
  one for every other id of the list, and false for an id that is not in the list.
\<close>

theorem GetVideo_SetVideo:
  "GetVideo (SetVideo wb x v) y = (if y = x then v \<and> x \<in> set (wb_video_ids wb) else GetVideo wb y)"
proof (cases "slice_index (wb_video_ids wb) x")
  case None
  then have "x \<notin> set (wb_video_ids wb)" by (simp add: slice_index_None)
  with None show ?thesis by (simp add: SetVideo_def GetVideo_def)
next
  case (Some p)
  note x = slice_index_Some [OF Some]
  show ?thesis
  proof (cases "slice_index (wb_video_ids wb) y")
    case None
    then have "y \<noteq> x" using x by (auto simp: slice_index_None)
    with None Some show ?thesis by (simp add: SetVideo_def GetVideo_def)
  next
    case (Some q)
    note y = slice_index_Some [OF Some]
    have x': "slice_index (wb_video_ids wb) x = Some p" by fact
    have "x \<in> set (wb_video_ids wb)" using x by auto
    moreover have "q = p \<longleftrightarrow> y = x"
    proof
      assume "q = p"
      with x y show "y = x" by simp
    next
      assume "y = x"
      with x' Some show "q = p" by simp
    qed
    ultimately show ?thesis using x' Some
      by (simp add: SetVideo_def GetVideo_def bits.get_set)
  qed
qed

lemma watched_text_roundtrip:
  assumes zlib: "\<And>vs p. deflate vs = Some p \<Longrightarrow> inflate p = Inflated vs"
    and "WatchedBitField_MarshalText deflate wb = Inr s"
    and "wb_ok wb" and "distinct (wb_video_ids wb)" and "wb_video_ids wb \<noteq> []" and "length (wb_video_ids wb) < 2 ^ 62"
  shows "\<exists>wb'. NewWatchedBitFieldFromString inflate s (wb_video_ids wb) = Inr wb'
    \<and> wb_video_ids wb' = wb_video_ids wb \<and> wb_ok wb'
    \<and> (\<forall>i. get_bit (bf_values (wb_bitfield wb')) i = get_bit (bf_values (wb_bitfield wb)) i)"
proof -
  let ?bf = "wb_bitfield wb" and ?ids = "wb_video_ids wb"
  define L where "L = max (LastIndexOf ?bf True) 0"
  define k where "k = nat L"
  have L: "0 \<le> L" "L < int (length ?ids)"
    using LastIndexOf_spec [OF refl, of ?bf True] assms(3,5) by (auto simp: L_def wb_ok_def max_def)
  then have k: "k < length ?ids" "int k = L" by (auto simp: k_def)
  obtain p where p: "deflate (bf_values ?bf) = Some p" and
    s: "s = ?ids ! k @ CHR '':'' # (itoa (L + 1) @ CHR '':'' # b64_encode p)"
    using assms(2) k
    by (auto simp: WatchedBitField_MarshalText_def WatchedField_MarshalText_def BitField8_MarshalText_def
        NewWatchedFieldFromWatchedBitField_def Let_def L_def k_def split: option.splits)
  let ?cs = "split_on CHR '':'' (?ids ! k)"
  have comps: "split_on CHR '':'' s = ?cs @ [itoa (L + 1), b64_encode p]"
    by (simp add: s split_on_two itoa_no_colon b64_no_colon)
  have n: "0 < length ?cs" by simp
  have len: "atoi (itoa (L + 1)) = Some (L + 1)" by (rule atoi_itoa) (use L assms(6) in auto)
  have fld: "WatchedField_UnmarshalText inflate s = Inr \<lparr>wf_AnchorVideo = ?ids ! k, wf_AnchorLength = L + 1,
      wf_BitField = NewBitField8WithValues (bf_values ?bf) 0\<rparr>"
    using n by (simp add: WatchedField_UnmarshalText_def comps nth_append len BitField8_UnmarshalText_def zlib [OF p]
        join_split_on Let_def)
  let ?wb' = "toWatchedBitField \<lparr>wf_AnchorVideo = ?ids ! k, wf_AnchorLength = L + 1,
      wf_BitField = NewBitField8WithValues (bf_values ?bf) 0\<rparr> ?ids"
  have "NewWatchedBitFieldFromString inflate s ?ids = Inr \<lparr>wb_bitfield = wb_bitfield ?wb', wb_video_ids = ?ids\<rparr>"
    by (simp add: NewWatchedBitFieldFromString_def WatchedBitField_UnmarshalText_def fld)
  moreover have "get_bit (bf_values (wb_bitfield ?wb')) i = get_bit (bf_values ?bf) i" for i
    using slice_index_nth [OF assms(4) k(1)] k(2)
    by (simp add: toWatchedBitField_def wrap64_def)
  moreover have "wb_ok \<lparr>wb_bitfield = wb_bitfield ?wb', wb_video_ids = ?ids\<rparr>"
    using wb_ok_toWatchedBitField [OF assms(5)] by (simp add: wb_ok_def)
  ultimately show ?thesis by simp
qed

text \<open>
  C32: writing a watched field of a list of videos and reading it back with the same list succeeds and
  keeps every bit, whatever the ids hold (they may hold colons): the anchor is found again at the same
  place, so nothing is shifted.
\<close>

theorem WatchedBitField_roundtrip:
  assumes zlib: "\<And>vs p. deflate vs = Some p \<Longrightarrow> inflate p = Inflated vs"
    and "WatchedBitField_MarshalText deflate wb = Inr s"
    and "wb_ok wb" and "distinct (wb_video_ids wb)" and "wb_video_ids wb \<noteq> []" and "length (wb_video_ids wb) < 2 ^ 62"
  shows "\<exists>wb'. NewWatchedBitFieldFromString inflate s (wb_video_ids wb) = Inr wb'
    \<and> wb_video_ids wb' = wb_video_ids wb \<and> wb_ok wb'
    \<and> (\<forall>i. get_bit (bf_values (wb_bitfield wb')) i = get_bit (bf_values (wb_bitfield wb)) i)"
  using assms by (rule watched_text_roundtrip)

text \<open>A compressor for the witness that only turns bytes into characters.\<close>

definition raw_zip :: "8 word list \<Rightarrow> string option" where
  "raw_zip vs = Some (map (\<lambda>w. char_of (unat w)) vs)"

definition raw_unzip :: "string \<Rightarrow> zlib_result" where
  "raw_unzip s = Inflated (map (\<lambda>c. of_nat (of_char c)) s)"

lemma raw_unzip_zip: "raw_zip vs = Some p \<Longrightarrow> raw_unzip p = Inflated vs"
proof -
  have "of_nat (of_char (char_of (unat w))) = w" for w :: "8 word"
    using unsigned_less [of w, where 'a = nat] by simp
  then show "raw_zip vs = Some p \<Longrightarrow> raw_unzip p = Inflated vs"
    by (auto simp: raw_zip_def raw_unzip_def comp_def)
qed

theorem WatchedBitField_roundtrip_witness:
  "\<exists>s wb'. NewWatchedBitFieldFromString raw_unzip s [''tt1:1:1'', ''tt1:1:2''] = Inr wb' \<and> get_bit (bf_values (wb_bitfield wb')) 1"
proof -
  let ?ids = "[''tt1:1:1'', ''tt1:1:2'']"
  let ?wb = "NewWatchedBitField (NewBitField8WithValues [2] 2) ?ids"
  obtain s where s: "WatchedBitField_MarshalText raw_zip ?wb = Inr s"
    by (simp add: WatchedBitField_MarshalText_def WatchedField_MarshalText_def BitField8_MarshalText_def raw_zip_def)
  have ok: "wb_ok ?wb" by (simp add: wb_ok_def NewWatchedBitField_def NewBitField8WithValues_def ceil8_def)
  have ids: "wb_video_ids ?wb = ?ids" by (simp add: NewWatchedBitField_def)
  have bit: "get_bit (bf_values (wb_bitfield ?wb)) 1"
    by (simp add: NewWatchedBitField_def NewBitField8WithValues_def ceil8_def get_bit_def drop_bit_eq_div)
  have conds: "distinct (wb_video_ids ?wb)" "wb_video_ids ?wb \<noteq> []" "length (wb_video_ids ?wb) < 2 ^ 62"
    by (simp_all add: ids)
  from WatchedBitField_roundtrip [where inflate = raw_unzip, OF raw_unzip_zip s ok conds] bit show ?thesis
    unfolding ids by blast
qed

text \<open>
  when the list of videos has changed but still has the anchor video, bit \<open>i\<close> of the realigned field
  is bit \<open>i + offset\<close> of the stored one, where the offset is how far the anchor has moved, and
  false where that index is negative or not below the number of videos of the new list.
\<close>

theorem toWatchedBitField_realigns:
  assumes "slice_index ids (wf_AnchorVideo fld) = Some a" and "i < length ids" and "length ids < 2 ^ 61"
    and "\<bar>wf_AnchorLength fld\<bar> < 2 ^ 61" and "offset = wf_AnchorLength fld - int a - 1"
  shows "get_bit (bf_values (wb_bitfield (toWatchedBitField fld ids))) i \<longleftrightarrow>
    0 \<le> int i + offset \<and> int i + offset < int (length ids)
    \<and> get_bit (bf_values (wf_BitField fld)) (nat (int i + offset))"
proof -
  have a: "a < length ids" using slice_index_Some [OF assms(1)] by simp
  have w1: "wrap64 (wf_AnchorLength fld - int a - 1) = offset"
    unfolding assms(5) by (rule wrap64_id) (use a assms(3,4) in auto)
  have w2: "wrap64 (int i + offset) = int i + offset"
    by (rule wrap64_id) (use a assms(2-5) in auto)
  have ne: "length ids \<noteq> 0" using assms(2) by auto
  show ?thesis
  proof (cases "offset = 0")
    case True
    then show ?thesis using assms(1,2) w1 by (simp add: toWatchedBitField_def Let_def)
  next
    case False
    then show ?thesis using assms(1,2) w1 w2 NewBitField8WithValues_size [OF ne, of "bf_values (wf_BitField fld)"]
      by (auto simp: toWatchedBitField_def rewrite_bits_get Let_def)
  qed
qed

theorem toWatchedBitField_realigns_witness:
  "get_bit (bf_values (wb_bitfield (toWatchedBitField
      \<lparr>wf_AnchorVideo = ''b'', wf_AnchorLength = 1, wf_BitField = \<lparr>bf_Length = 8, bf_values = [1]\<rparr>\<rparr> [''a'', ''b'']))) 1"
  using toWatchedBitField_realigns [of "[''a'', ''b'']"
      "\<lparr>wf_AnchorVideo = ''b'', wf_AnchorLength = 1, wf_BitField = \<lparr>bf_Length = 8, bf_values = [1]\<rparr>\<rparr>" 1 1 "- 1"]
  by (simp add: get_bit_def)

text \<open>
  a field made for \<open>n\<close> videos has the number of its bytes as its length in bits, so a video at an
  index from that number on can be marked as watched and the field still finds no watched video: the
  anchor it is stored under is the first video, and there is no next video to watch.
\<close>

theorem new_field_loses_anchor:
  assumes "distinct ids" and "k < length ids" and "ceil8 (length ids) \<le> k"
    and "wb = SetVideo (NewWatchedBitField (NewBitField8 (length ids)) ids) (ids ! k) True"
  shows "GetVideo wb (ids ! k) \<and> LastIndexOf (wb_bitfield wb) True = - 1
    \<and> wf_AnchorVideo (NewWatchedFieldFromWatchedBitField wb) = ids ! 0 \<and> GetNextUnwatchedVideoId wb = []"
proof -
  let ?new = "NewBitField8 (length ids)"
  have idx: "slice_index ids (ids ! k) = Some k" by (rule slice_index_nth) (use assms in auto)
  have wb: "wb = \<lparr>wb_bitfield = set_bit_at ?new k True, wb_video_ids = ids\<rparr>"
    by (simp add: assms(4) SetVideo_def NewWatchedBitField_def idx)
  have size: "bf_Length (set_bit_at ?new k True) = ceil8 (length ids)"
    using set_bit_at_inside [of k ?new] pos_div_ceil8 [OF assms(2)] by simp
  have "LastIndexOf (wb_bitfield wb) True = - 1"
  proof (rule ccontr)
    assume "LastIndexOf (wb_bitfield wb) True \<noteq> - 1"
    with LastIndexOf_spec [OF refl, of "wb_bitfield wb" True] have
      "0 \<le> LastIndexOf (wb_bitfield wb) True" "LastIndexOf (wb_bitfield wb) True < int (ceil8 (length ids))"
      "get_bit (bf_values (wb_bitfield wb)) (nat (LastIndexOf (wb_bitfield wb) True))"
      by (auto simp: wb size)
    then show False using assms(3) by (simp add: wb bits.get_set split: if_splits)
  qed
  moreover have "ids \<noteq> []" using assms(2) by auto
  ultimately show ?thesis using assms(2)
    by (simp add: wb GetVideo_def idx bits.get_set NewWatchedFieldFromWatchedBitField_def GetNextUnwatchedVideoId_def)
qed

theorem new_field_loses_anchor_witness:
  "GetNextUnwatchedVideoId (SetVideo (NewWatchedBitField (NewBitField8 3) [''a'', ''b'', ''c'']) ''b'' True) = []"
  using new_field_loses_anchor [OF _ _ _ refl, of "[''a'', ''b'', ''c'']" 1]
  by (simp add: ceil8_def numeral_3_eq_3)

end
