(* ===== verification/Stream_Sort.thy ===== *)
theory Stream_Sort
  imports Util
begin

text \<open>
  Sorting the streams of an answer (\<open>internal/stremio/transformer/stream_sorter.go\<close>) and the rewriting
  of filter expressions (\<open>stream_filter.go\<close>). A stream is any record that extends \<open>sortable\<close>, the values
  the getters of the interface \<open>StreamSortable\<close> return. \<open>pb\<close> is the size parser of the humanize package.
  \<open>sort.Stable\<close> is the insertion sort of the prelude: that is the algorithm for at most 20 items, and
  for an order without contradictions (sortable items) any stable algorithm gives the same result.
\<close>

section \<open>stream_sorter.go\<close>

datatype stream_field = FieldResolution | FieldQuality | FieldSize | FieldHDR

definition stream_fields :: "(string \<times> stream_field) list" where
  "stream_fields = [(''resolution'', FieldResolution), (''quality'', FieldQuality), (''size'', FieldSize), (''hdr'', FieldHDR)]"

record sortable =
  so_Quality :: string
  so_Resolution :: string
  so_Size :: string
  so_HDR :: string
  so_IsSortable :: bool

definition getQualityRank :: "string \<Rightarrow> int" where
  "getQualityRank input =
     (let quality = to_lower input; has = contains_str quality in
      if has ''remux'' then 100
      else if has ''mux'' then 99
      else if has ''bluray'' then 98
      else if has ''br'' then 96
      else if has ''bd'' then 94
      else if has ''uhd'' then 92
      else if has ''web'' then (if has ''dl'' then 89 else if has ''rip'' then 85 else 80)
      else if has ''hd'' then (if has ''rip'' then 79 else 75)
      else if has ''dvd'' then 60
      else if has ''sat'' then 59
      else if has ''tv'' then 57
      else if has ''ppv'' then 55
      else if has ''cam'' then 40
      else if has ''tele'' then 30
      else if has ''scr'' then 20
      else 0)"

definition getResolutionRank :: "string \<Rightarrow> int" where
  "getResolutionRank input =
     (case (if has_suffix input ''p'' then atoi (butlast input) else None) of
        Some resolution \<Rightarrow> resolution
      | None \<Rightarrow>
          (case (if has_suffix input ''k'' then atoi (butlast input) else None) of
             Some resolution \<Rightarrow> wrap64 (resolution * 1000)
           | None \<Rightarrow> 0))"

definition getSizeRank :: "(string \<Rightarrow> nat option) \<Rightarrow> string \<Rightarrow> int" where
  "getSizeRank pb input = ToBytes pb input"

definition getHDRRank :: "string \<Rightarrow> int" where
  "getHDRRank input = int (length input)"

fun getFieldRank :: "(string \<Rightarrow> nat option) \<Rightarrow> 'z sortable_scheme \<Rightarrow> stream_field \<Rightarrow> int" where
  "getFieldRank pb str FieldResolution = getResolutionRank (so_Resolution str)"
| "getFieldRank pb str FieldQuality = getQualityRank (so_Quality str)"
| "getFieldRank pb str FieldSize = getSizeRank pb (so_Size str)"
| "getFieldRank pb str FieldHDR = getHDRRank (so_HDR str)"

record sorter_config =
  sc_Field :: stream_field
  sc_Desc :: bool

fun parse_sort_parts :: "string list \<Rightarrow> sorter_config list" where
  "parse_sort_parts [] = []"
| "parse_sort_parts (part # parts) =
     (let part = trim_space part; desc = has_prefix part ''-''
      in (case map_of stream_fields (trim_prefix part ''-'') of
            None \<Rightarrow> []
          | Some field \<Rightarrow> [\<lparr>sc_Field = field, sc_Desc = desc\<rparr>]) @ parse_sort_parts parts)"

definition parseSortConfig :: "string \<Rightarrow> sorter_config list" where
  "parseSortConfig config = parse_sort_parts (split_on CHR '','' config)"

fun less_by :: "(string \<Rightarrow> nat option) \<Rightarrow> sorter_config list \<Rightarrow> 'z sortable_scheme \<Rightarrow> 'z sortable_scheme \<Rightarrow> bool" where
  "less_by pb [] a b = False"
| "less_by pb (config # cs) a b =
     (let va = getFieldRank pb a (sc_Field config); vb = getFieldRank pb b (sc_Field config) in
      if va = vb then less_by pb cs a b
      else if sc_Desc config then va > vb
      else va < vb)"

definition Less :: "(string \<Rightarrow> nat option) \<Rightarrow> sorter_config list \<Rightarrow> 'z sortable_scheme \<Rightarrow> 'z sortable_scheme \<Rightarrow> bool" where
  "Less pb config a b =
     (if \<not> so_IsSortable b then True
      else if \<not> so_IsSortable a then False
      else less_by pb config a b)"

definition StreamDefaultSortConfig :: string where
  "StreamDefaultSortConfig = ''-resolution,-quality,-size''"

definition SortStreams :: "(string \<Rightarrow> nat option) \<Rightarrow> 'z sortable_scheme list \<Rightarrow> string \<Rightarrow> 'z sortable_scheme list" where
  "SortStreams pb items config =
     (let sortConfigs = parseSortConfig (if config = [] then StreamDefaultSortConfig else config) in
      if sortConfigs = [] then items else go_stable_sort (Less pb sortConfigs) items)"

section \<open>stream_filter.go\<close>

text \<open>
  The syntax trees of the expression package, as far as the visitor looks at them, and \<open>String\<close> on the
  nodes it is called on (an identifier prints as its name, a string literal as itself in quotes).
\<close>

datatype ast_node =
  IdentifierNode string
| StringNode string
| MemberNode ast_node ast_node bool
| CallNode ast_node "ast_node list"
| BinaryNode string ast_node ast_node
| OtherNode string

definition toOrderable :: "ast_node \<Rightarrow> string \<Rightarrow> ast_node" where
  "toOrderable node converter =
     CallNode (MemberNode (CallNode (IdentifierNode converter) [node]) (StringNode ''Order'') True) []"

definition orderableConverter :: "(string \<times> string) list" where
  "orderableConverter =
    [(''Resolution'', ''__Resolution__''),
     (''Quality'', ''__Quality__''),
     (''Size'', ''__Size__''),
     (''File.Size'', ''__Size__'')]"

text \<open>Which converter an operand asks for.\<close>

definition orderable :: "ast_node \<Rightarrow> string option" where
  "orderable node =
     (case node of
        IdentifierNode nm \<Rightarrow> map_of orderableConverter nm
      | MemberNode n p m \<Rightarrow>
          if n = IdentifierNode ''File'' \<and> p = StringNode ''Size'' then map_of orderableConverter ''File.Size'' else None
      | _ \<Rightarrow> None)"

definition patch_sides :: "string option \<Rightarrow> ast_node \<times> ast_node \<Rightarrow> ast_node \<times> ast_node" where
  "patch_sides converter sides =
     (case converter of None \<Rightarrow> sides | Some c \<Rightarrow> (toOrderable (fst sides) c, toOrderable (snd sides) c))"

definition Visit :: "ast_node \<Rightarrow> ast_node" where
  "Visit node =
     (case node of
        BinaryNode op l r \<Rightarrow>
          let s1 = patch_sides (orderable l) (l, r);
              s2 = patch_sides (orderable (snd s1)) s1
          in BinaryNode op (fst s2) (snd s2)
      | _ \<Rightarrow> node)"

section \<open>The order of sortable streams\<close>

text \<open>The ranks of a stream under a configuration, negated where the order is descending.\<close>

definition sort_ranks :: "(string \<Rightarrow> nat option) \<Rightarrow> sorter_config list \<Rightarrow> 'z sortable_scheme \<Rightarrow> int list" where
  "sort_ranks pb cs s = map (\<lambda>c. if sc_Desc c then - getFieldRank pb s (sc_Field c) else getFieldRank pb s (sc_Field c)) cs"

lemma less_by_ranks: "less_by pb cs a b \<longleftrightarrow> sort_ranks pb cs a < sort_ranks pb cs b"
  by (induction cs) (auto simp: sort_ranks_def Let_def)

lemma Less_sortable:
  "so_IsSortable a \<Longrightarrow> so_IsSortable b \<Longrightarrow> Less pb cs a b \<longleftrightarrow> sort_ranks pb cs a < sort_ranks pb cs b"
  by (simp add: Less_def less_by_ranks)

interpretation stream_order: strict_weak "Less pb cs" so_IsSortable for pb cs
  by unfold_locales (auto simp: Less_sortable)

lemma Less_unsortable: "\<not> so_IsSortable b \<Longrightarrow> Less pb cs a b" "so_IsSortable b \<Longrightarrow> \<not> so_IsSortable a \<Longrightarrow> \<not> Less pb cs a b"
  by (simp_all add: Less_def)

lemma go_stable_sort_snoc: "go_stable_sort lt (xs @ [x]) = rev (sink lt x (rev (go_stable_sort lt xs)))"
  by (simp add: go_stable_sort_def)

lemma sink_passes: "\<forall>y \<in> set ys. lt x y \<Longrightarrow> sink lt x (ys @ zs) = ys @ sink lt x zs"
  by (induction ys) auto

lemma sink_stops: "\<forall>y \<in> set ys. \<not> lt x y \<Longrightarrow> sink lt x ys = x # ys"
  by (cases ys) auto

text \<open>Sortable streams come first, in order; the others follow in the reverse of their order.\<close>

lemma insertion_sort_streams:
  "go_stable_sort (Less pb cs) items =
     go_stable_sort (Less pb cs) (filter so_IsSortable items) @ rev (filter (\<lambda>s. \<not> so_IsSortable s) items)"
proof (induction items rule: rev_induct)
  case (snoc x items)
  let ?S = "go_stable_sort (Less pb cs) (filter so_IsSortable items)"
  let ?U = "filter (\<lambda>s. \<not> so_IsSortable s) items"
  have S: "so_IsSortable s" if "s \<in> set (rev ?S)" for s using that by simp
  have "go_stable_sort (Less pb cs) (items @ [x]) = rev (sink (Less pb cs) x (?U @ rev ?S))"
    by (simp add: go_stable_sort_snoc snoc.IH)
  also have "\<dots> = rev (?U @ sink (Less pb cs) x (rev ?S))"
    by (subst sink_passes) (simp_all add: Less_unsortable)
  finally have step: "go_stable_sort (Less pb cs) (items @ [x]) = rev (sink (Less pb cs) x (rev ?S)) @ rev ?U" by simp
  show ?case
  proof (cases "so_IsSortable x")
    case True
    then show ?thesis unfolding step by (simp add: go_stable_sort_snoc)
  next
    case False
    then have "sink (Less pb cs) x (rev ?S) = x # rev ?S"
      by (intro sink_stops) (simp add: Less_unsortable)
    then show ?thesis using False by (simp add: step)
  qed
qed simp

text \<open>
  C33: sorting streams that all have a parsed result is a stable sort by the configured ranks: the result
  is a rearrangement of the streams, the lists of ranks (negated for descending fields) ascend
  lexicographically, and streams of equal ranks keep their order.
\<close>

theorem SortStreams_sorts:
  assumes "\<forall>s \<in> set items. so_IsSortable s"
    and "cs = parseSortConfig (if config = [] then StreamDefaultSortConfig else config)"
  shows "mset (SortStreams pb items config) = mset items
    \<and> sorted (map (sort_ranks pb cs) (SortStreams pb items config))
    \<and> (\<forall>r. filter (\<lambda>s. sort_ranks pb cs s = r) (SortStreams pb items config) = filter (\<lambda>s. sort_ranks pb cs s = r) items)"
proof (cases "cs = []")
  case True
  have "sorted (map (sort_ranks pb []) items)" by (induction items) (auto simp: sort_ranks_def)
  with True show ?thesis using assms(2) by (simp add: SortStreams_def)
next
  case False
  then have sorted_def: "SortStreams pb items config = go_stable_sort (Less pb cs) items"
    using assms(2) by (simp add: SortStreams_def Let_def)
  have all: "\<forall>s \<in> set (go_stable_sort (Less pb cs) items). so_IsSortable s" using assms(1) by simp
  have "sorted_wrt (\<lambda>a b. \<not> Less pb cs b a) (go_stable_sort (Less pb cs) items)"
    by (rule stream_order.stable_sort_sorted) (rule assms(1))
  then have "sorted_wrt (\<lambda>a b. sort_ranks pb cs a \<le> sort_ranks pb cs b) (go_stable_sort (Less pb cs) items)"
    by (rule sorted_wrt_mono_rel [rotated]) (use all in \<open>auto simp: Less_sortable not_less\<close>)
  then have srt: "sorted (map (sort_ranks pb cs) (go_stable_sort (Less pb cs) items))"
    by (simp add: sorted_map)
  have stable: "filter (\<lambda>s. sort_ranks pb cs s = r) (go_stable_sort (Less pb cs) items) = filter (\<lambda>s. sort_ranks pb cs s = r) items" for r
  proof (cases "\<exists>y \<in> set items. sort_ranks pb cs y = r")
    case True
    then obtain y where y: "y \<in> set items" "sort_ranks pb cs y = r" by blast
    have eq: "filter (\<lambda>z. \<not> Less pb cs y z \<and> \<not> Less pb cs z y) xs = filter (\<lambda>s. sort_ranks pb cs s = r) xs"
      if "set xs = set items" for xs
      using that y assms(1) by (intro filter_cong) (auto simp: Less_sortable)
    from stream_order.stable_sort_stable [of items y pb cs] assms(1) y(1) show ?thesis by (simp add: eq)
  next
    case False
    then show ?thesis by (simp add: filter_empty_conv)
  qed
  show ?thesis using srt stable by (simp add: sorted_def)
qed

theorem SortStreams_sorts_witness:
  "sorted (map (sort_ranks (\<lambda>s. None) (parseSortConfig ''-hdr'')) (SortStreams (\<lambda>s. None)
     [\<lparr>so_Quality = [], so_Resolution = [], so_Size = [], so_HDR = ''a'', so_IsSortable = True\<rparr>,
      \<lparr>so_Quality = [], so_Resolution = [], so_Size = [], so_HDR = ''bc'', so_IsSortable = True\<rparr>] ''-hdr''))"
  using SortStreams_sorts [of "[\<lparr>so_Quality = [], so_Resolution = [], so_Size = [], so_HDR = ''a'', so_IsSortable = True\<rparr>,
      \<lparr>so_Quality = [], so_Resolution = [], so_Size = [], so_HDR = ''bc'', so_IsSortable = True\<rparr>]" _ "''-hdr''" "\<lambda>s. None"]
  by simp

text \<open>
  streams without a parsed result are put after all others in the reverse of the order they came in:
  the comparison says of two such streams that each is less than the other, so the sort is not
  stable on them. (For at most 20 streams, which \<open>sort.Stable\<close> sorts by insertion alone.)
\<close>

theorem SortStreams_unsortable:
  assumes "parseSortConfig (if config = [] then StreamDefaultSortConfig else config) \<noteq> []"
    and "length items \<le> 20"
  shows "filter (\<lambda>s. \<not> so_IsSortable s) (SortStreams pb items config) = rev (filter (\<lambda>s. \<not> so_IsSortable s) items)
    \<and> (\<exists>ss. SortStreams pb items config = ss @ rev (filter (\<lambda>s. \<not> so_IsSortable s) items) \<and> (\<forall>s \<in> set ss. so_IsSortable s))"
proof -
  let ?S = "go_stable_sort (Less pb (parseSortConfig (if config = [] then StreamDefaultSortConfig else config)))"
  have split: "SortStreams pb items config = ?S (filter so_IsSortable items) @ rev (filter (\<lambda>s. \<not> so_IsSortable s) items)"
    using assms(1) insertion_sort_streams unfolding SortStreams_def Let_def by (metis (mono_tags, lifting))
  moreover have "filter (\<lambda>s. \<not> so_IsSortable s) (?S (filter so_IsSortable items)) = []"
    by (simp add: filter_empty_conv)
  ultimately show ?thesis by (auto simp: rev_filter [symmetric])
qed

theorem SortStreams_unsortable_witness:
  "filter (\<lambda>s. \<not> so_IsSortable s) (SortStreams (\<lambda>s. None)
     [\<lparr>so_Quality = ''a'', so_Resolution = [], so_Size = [], so_HDR = [], so_IsSortable = False\<rparr>,
      \<lparr>so_Quality = ''b'', so_Resolution = [], so_Size = [], so_HDR = [], so_IsSortable = False\<rparr>] ''hdr'')
   = [\<lparr>so_Quality = ''b'', so_Resolution = [], so_Size = [], so_HDR = [], so_IsSortable = False\<rparr>,
      \<lparr>so_Quality = ''a'', so_Resolution = [], so_Size = [], so_HDR = [], so_IsSortable = False\<rparr>]"
proof -
  have "parseSortConfig ''hdr'' \<noteq> []" by code_simp
  then show ?thesis
    using SortStreams_unsortable [of "''hdr''" "[\<lparr>so_Quality = ''a'', so_Resolution = [], so_Size = [], so_HDR = [], so_IsSortable = False\<rparr>,
      \<lparr>so_Quality = ''b'', so_Resolution = [], so_Size = [], so_HDR = [], so_IsSortable = False\<rparr>]" "\<lambda>s. None"]
    by simp
qed

lemma orderable_toOrderable [simp]: "orderable (toOrderable node c) = None"
  by (simp add: orderable_def toOrderable_def)

text \<open>
  the visitor leaves no operand that still asks for a conversion: a comparison with an orderable
  field on either side has both sides converted, once and by the same converter, and visiting the
  result again changes nothing.
\<close>

theorem Visit_converts_once:
  "Visit (BinaryNode op l r) = (case (orderable l, orderable r) of
      (Some c, _) \<Rightarrow> BinaryNode op (toOrderable l c) (toOrderable r c)
    | (None, Some c) \<Rightarrow> BinaryNode op (toOrderable l c) (toOrderable r c)
    | (None, None) \<Rightarrow> BinaryNode op l r)
   \<and> Visit (Visit node) = Visit node"
proof -
  have eq: "Visit (BinaryNode op l r) = (case (orderable l, orderable r) of
      (Some c, _) \<Rightarrow> BinaryNode op (toOrderable l c) (toOrderable r c)
    | (None, Some c) \<Rightarrow> BinaryNode op (toOrderable l c) (toOrderable r c)
    | (None, None) \<Rightarrow> BinaryNode op l r)" for op l r
    by (simp add: Visit_def patch_sides_def Let_def split: option.splits)
  moreover have "Visit (Visit node) = Visit node"
  proof (cases node)
    case (BinaryNode op l r)
    then show ?thesis by (auto simp: eq split: option.splits)
  qed (simp_all add: Visit_def)
  ultimately show ?thesis by blast
qed

end
