(* ===== verification/Store_Ids.thy ===== *)
theory Store_Ids
  imports Core_Error Url
begin

text \<open>
  The names and codes of the stores (\<open>store/store.go\<close>) and the ids of the store addon
  (\<open>internal/stremio/store/id.go\<close>): which store an id belongs to, the prefix of its items, and the
  video id, link and name an item id carries. \<open>url_scheme\<close> stands for \<open>url.Parse\<close>: the scheme of
  the link, \<open>None\<close> when it does not parse.
\<close>

section \<open>store.go\<close>

type_synonym store_name = string
type_synonym store_code = string

definition storeCodeByName :: "(store_name \<times> store_code) list" where
  "storeCodeByName =
    [(''alldebrid'', ''ad''), (''debrider'', ''dr''), (''debridlink'', ''dl''), (''easydebrid'', ''ed''),
     (''offcloud'', ''oc''), (''pikpak'', ''pp''), (''premiumize'', ''pm''), (''realdebrid'', ''rd''), (''torbox'', ''tb'')]"

definition storeNameByCode :: "(store_code \<times> store_name) list" where
  "storeNameByCode =
    [(''ad'', ''alldebrid''), (''dr'', ''debrider''), (''dl'', ''debridlink''), (''ed'', ''easydebrid''),
     (''oc'', ''offcloud''), (''pp'', ''pikpak''), (''pm'', ''premiumize''), (''rd'', ''realdebrid''), (''tb'', ''torbox'')]"

text \<open>A missing key of a Go map gives the empty string.\<close>

definition lookup_string :: "(string \<times> string) list \<Rightarrow> string \<Rightarrow> string" where
  "lookup_string m k = (case map_of m k of None \<Rightarrow> [] | Some v \<Rightarrow> v)"

definition StoreName_Code :: "store_name \<Rightarrow> store_code" where
  "StoreName_Code sn = lookup_string storeCodeByName sn"

definition StoreName_IsValid :: "store_name \<Rightarrow> bool" where
  "StoreName_IsValid sn \<longleftrightarrow> map_of storeCodeByName sn \<noteq> None"

definition StoreName_Validate :: "store_name \<Rightarrow> store_name \<times> st_error option" where
  "StoreName_Validate sn = (if \<not> StoreName_IsValid sn then (sn, Some (ErrorInvalidStoreName sn)) else (sn, None))"

definition StoreCode_Name :: "store_code \<Rightarrow> store_name" where
  "StoreCode_Name sc = lookup_string storeNameByCode sc"

definition StoreCode_IsValid :: "store_code \<Rightarrow> bool" where
  "StoreCode_IsValid sc \<longleftrightarrow> map_of storeNameByCode sc \<noteq> None"

section \<open>id.go\<close>

definition isStoreId :: "string \<Rightarrow> bool" where
  "isStoreId sid = has_prefix sid ''st:store:''"

definition getCatalogId :: "string \<Rightarrow> string" where
  "getCatalogId storeCode = ''st:store:'' @ storeCode"

definition getIdPrefix :: "string \<Rightarrow> string" where
  "getIdPrefix storeCode = getCatalogId storeCode @ '':''"

definition getStoreActionId :: "string \<Rightarrow> string" where
  "getStoreActionId storeCode = getIdPrefix storeCode @ ''action''"

definition getStoreActionIdPrefix :: "string \<Rightarrow> string" where
  "getStoreActionIdPrefix storeCode = getStoreActionId storeCode @ '':''"

definition WEBDL_META_ID_INDICATOR :: string where
  "WEBDL_META_ID_INDICATOR = ''webdls''"

definition getWebDLsMetaId :: "string \<Rightarrow> string" where
  "getWebDLsMetaId storeCode = getIdPrefix storeCode @ WEBDL_META_ID_INDICATOR"

definition getWebDLsMetaIdPrefix :: "string \<Rightarrow> string" where
  "getWebDLsMetaIdPrefix storeCode = getWebDLsMetaId storeCode @ '':''"

record parsed_id =
  pi_storeCode :: store_code
  pi_storeName :: store_name
  pi_isUsenet :: bool
  pi_isWebDL :: bool
  pi_isDeprecated :: bool
  pi_isST :: bool
  pi_code :: string

definition kind_suffix :: "parsed_id \<Rightarrow> string" where
  "kind_suffix idr = (if pi_isUsenet idr then ''-usenet'' else if pi_isWebDL idr then ''-webdl'' else [])"

text \<open>\<open>getStoreCode\<close> keeps the code it computed in the parsed id; the value is the second component.\<close>

definition getStoreCode :: "parsed_id \<Rightarrow> parsed_id \<times> string" where
  "getStoreCode idr =
     (let idr' =
        (if pi_code idr \<noteq> [] then idr
         else if pi_isST idr then
           (if pi_storeCode idr = [] then idr\<lparr>pi_code := ''st''\<rparr>
            else if pi_isDeprecated idr then idr\<lparr>pi_code := ''st:'' @ pi_storeCode idr\<rparr>
            else idr\<lparr>pi_code := ''st-'' @ pi_storeCode idr @ kind_suffix idr\<rparr>)
         else idr\<lparr>pi_code := pi_storeCode idr @ kind_suffix idr\<rparr>)
      in (idr', pi_code idr'))"

text \<open>\<open>strings.SplitN\<close>: at most \<open>n\<close> parts, the last one unsplit.\<close>

fun split_n :: "char \<Rightarrow> nat \<Rightarrow> string \<Rightarrow> string list" where
  "split_n c 0 s = []"
| "split_n c (Suc 0) s = [s]"
| "split_n c (Suc (Suc n)) s = (case cut s c of (a, b, ok) \<Rightarrow> if ok then a # split_n c (Suc n) b else [a])"

definition empty_id :: parsed_id where
  "empty_id = \<lparr>pi_storeCode = [], pi_storeName = [], pi_isUsenet = False, pi_isWebDL = False,
     pi_isDeprecated = False, pi_isST = False, pi_code = []\<rparr>"

definition set_kind :: "string list \<Rightarrow> nat \<Rightarrow> parsed_id \<Rightarrow> parsed_id" where
  "set_kind scParts i r =
     (if i < length scParts then
        (if scParts ! i = ''usenet'' then r\<lparr>pi_isUsenet := True\<rparr>
         else if scParts ! i = ''webdl'' then r\<lparr>pi_isWebDL := True\<rparr> else r)
      else r)"

definition parseId :: "string \<Rightarrow> parsed_id option" where
  "parseId sid =
     (let parts = split_n CHR '':'' 5 sid; n = length parts in
      if n < 3 then None
      else
        let storeCode = parts ! 2;
            r = (if CHR ''-'' \<in> set storeCode then
                   (let scParts = split_on CHR ''-'' storeCode in
                    if scParts ! 0 = ''st''
                    then set_kind scParts 2 (empty_id\<lparr>pi_isST := True, pi_storeCode := scParts ! 1\<rparr>)
                    else set_kind scParts 1 (empty_id\<lparr>pi_storeCode := scParts ! 0\<rparr>))
                 else if storeCode = ''st'' then
                   (let r = empty_id\<lparr>pi_isST := True, pi_isDeprecated := True\<rparr> in
                    if 3 < n then
                      (if StoreCode_Name (parts ! 3) = [] then r\<lparr>pi_storeCode := []\<rparr> else r\<lparr>pi_storeCode := parts ! 3\<rparr>)
                    else r)
                 else empty_id\<lparr>pi_storeCode := storeCode\<rparr>)
        in Some (r\<lparr>pi_storeName := StoreCode_Name (pi_storeCode r)\<rparr>))"

definition CachedMagnetIdPrefix :: string where
  "CachedMagnetIdPrefix = ''premiumize:cached:magnet:''"

definition getVideoIdAndData :: "(string \<Rightarrow> string option) \<Rightarrow> string \<Rightarrow> parsed_id \<Rightarrow> (string \<times> string \<times> string) option" where
  "getVideoIdAndData url_scheme idWithLink idr =
     (let videoId = trim_prefix idWithLink (getIdPrefix (snd (getStoreCode idr)));
          cached = (pi_storeCode idr = ''pm'' \<and> has_prefix videoId CachedMagnetIdPrefix);
          idPrefix = (if cached then CachedMagnetIdPrefix else []);
          videoId' = (if cached then trim_prefix videoId CachedMagnetIdPrefix else videoId)
      in case cut videoId' CHR '':'' of (vid, escapedLink, ok) \<Rightarrow>
        (case path_unescape escapedLink of
           None \<Rightarrow> None
         | Some link \<Rightarrow>
             (case url_scheme link of
                Some (c # cs) \<Rightarrow> Some (idPrefix @ vid, link, [])
              | _ \<Rightarrow> Some (idPrefix @ vid, [], link))))"

section \<open>Lemmas\<close>

lemma store_codes_inverse:
  "map_of storeCodeByName sn = Some sc \<longleftrightarrow> map_of storeNameByCode sc = Some sn"
  by (auto simp: storeCodeByName_def storeNameByCode_def)

lemma StoreCode_Name_valid: "StoreCode_Name sc \<noteq> [] \<longleftrightarrow> StoreCode_IsValid sc"
  by (auto simp: StoreCode_Name_def StoreCode_IsValid_def lookup_string_def storeNameByCode_def)

lemma valid_codes: "StoreCode_IsValid sc \<longleftrightarrow> sc \<in> {''ad'', ''dr'', ''dl'', ''ed'', ''oc'', ''pp'', ''pm'', ''rd'', ''tb''}"
  by (auto simp: StoreCode_IsValid_def storeNameByCode_def)

lemma split_n_cons: "c \<notin> set a \<Longrightarrow> 1 < n \<Longrightarrow> split_n c n (a @ c # b) = a # split_n c (n - 1) b"
  by (cases "(c, n, a @ c # b)" rule: split_n.cases) auto

text \<open>The parsed ids that name a store of the table.\<close>

definition proper_id :: "parsed_id \<Rightarrow> bool" where
  "proper_id r \<longleftrightarrow> StoreCode_IsValid (pi_storeCode r) \<and> pi_storeName r = StoreCode_Name (pi_storeCode r)
     \<and> \<not> (pi_isUsenet r \<and> pi_isWebDL r) \<and> (pi_isDeprecated r \<longrightarrow> pi_isST r \<and> \<not> pi_isUsenet r \<and> \<not> pi_isWebDL r)
     \<and> pi_code r = []"

lemma split_id:
  assumes "CHR '':'' \<notin> set code"
  shows "split_n CHR '':'' 5 (getIdPrefix code @ rest) = ''st'' # ''store'' # code # split_n CHR '':'' 2 rest"
proof -
  have "getIdPrefix code @ rest = ''st'' @ CHR '':'' # ''store'' @ CHR '':'' # code @ CHR '':'' # rest"
    by (simp add: getIdPrefix_def getCatalogId_def)
  moreover have "split_n CHR '':'' 5 (''st'' @ CHR '':'' # t) = ''st'' # split_n CHR '':'' 4 t" for t
    using split_n_cons [of "CHR '':''" "''st''" 5 t] by simp
  moreover have "split_n CHR '':'' 4 (''store'' @ CHR '':'' # t) = ''store'' # split_n CHR '':'' 3 t" for t
    using split_n_cons [of "CHR '':''" "''store''" 4 t] by simp
  moreover have "split_n CHR '':'' 3 (code @ CHR '':'' # t) = code # split_n CHR '':'' 2 t" for t
    using split_n_cons [OF assms, of 3 t] by simp
  ultimately show ?thesis by (simp only:)
qed

lemma split_n_2: "split_n c 2 s = (case cut s c of (a, b, ok) \<Rightarrow> if ok then [a, b] else [a])"
  by (simp add: numeral_2_eq_2 split: prod.splits)

lemma proper_code_chars:
  assumes "StoreCode_IsValid sc"
  shows "CHR '':'' \<notin> set sc" "CHR ''-'' \<notin> set sc" "sc \<noteq> ''st''" "sc \<noteq> []"
  using assms by (auto simp: valid_codes)

text \<open>
  an id made from the store code of a parsed id parses back to that parsed id, whatever follows it:
  for every store, with and without \<open>st-\<close>, the usenet and web download variants, and the old \<open>st:\<close> form.
\<close>

theorem parseId_roundtrip:
  assumes "proper_id r"
  shows "parseId (getIdPrefix (snd (getStoreCode r)) @ rest) = Some r"
proof -
  let ?sc = "pi_storeCode r"
  have valid: "StoreCode_IsValid ?sc" and nm: "pi_storeName r = StoreCode_Name ?sc" and code: "pi_code r = []"
    using assms by (auto simp: proper_id_def)
  note sc = proper_code_chars [OF valid]
  note fields = empty_id_def nm code set_kind_def Let_def
  have parts: "split_on CHR ''-'' (?sc @ CHR ''-'' # t) = ?sc # split_on CHR ''-'' t" for t using sc by simp
  consider (dep) "pi_isDeprecated r" | (st) "\<not> pi_isDeprecated r" "pi_isST r" | (own) "\<not> pi_isDeprecated r" "\<not> pi_isST r"
    by blast
  then show ?thesis
  proof cases
    case dep
    with assms have r: "pi_isST r" "\<not> pi_isUsenet r" "\<not> pi_isWebDL r" by (auto simp: proper_id_def)
    have "snd (getStoreCode r) = ''st'' @ CHR '':'' # ?sc"
      using dep r sc code by (simp add: getStoreCode_def Let_def)
    then have pre: "getIdPrefix (snd (getStoreCode r)) @ rest = getIdPrefix ''st'' @ (?sc @ CHR '':'' # rest)"
      by (simp add: getIdPrefix_def getCatalogId_def)
    have "split_n CHR '':'' 5 (getIdPrefix (snd (getStoreCode r)) @ rest) = [''st'', ''store'', ''st'', ?sc, rest]"
      unfolding pre by (subst split_id) (use sc in \<open>simp_all add: split_n_2\<close>)
    moreover have "StoreCode_Name ?sc \<noteq> []" using valid StoreCode_Name_valid by blast
    ultimately show ?thesis using dep r by (simp add: parseId_def fields)
  next
    case st
    have c: "snd (getStoreCode r) = ''st'' @ CHR ''-'' # ?sc @ kind_suffix r"
      using st sc code by (simp add: getStoreCode_def Let_def)
    have "CHR '':'' \<notin> set (''st'' @ CHR ''-'' # ?sc @ kind_suffix r)" using sc by (auto simp: kind_suffix_def)
    note ps = split_id [OF this, of rest]
    have "split_on CHR ''-'' (''st'' @ CHR ''-'' # ?sc @ kind_suffix r)
        = (if pi_isUsenet r then [''st'', ?sc, ''usenet''] else if pi_isWebDL r then [''st'', ?sc, ''webdl''] else [''st'', ?sc])"
      using sc parts by (simp add: kind_suffix_def)
    then show ?thesis unfolding c parseId_def ps using st assms
      by (auto simp: fields proper_id_def)
  next
    case own
    have c: "snd (getStoreCode r) = ?sc @ kind_suffix r"
      using own sc code by (simp add: getStoreCode_def Let_def)
    have "CHR '':'' \<notin> set (?sc @ kind_suffix r)" using sc by (auto simp: kind_suffix_def)
    note ps = split_id [OF this, of rest]
    have "split_on CHR ''-'' (?sc @ kind_suffix r)
        = (if pi_isUsenet r then [?sc, ''usenet''] else if pi_isWebDL r then [?sc, ''webdl''] else [?sc])"
      using sc parts by (simp add: kind_suffix_def)
    moreover have "CHR ''-'' \<in> set (?sc @ kind_suffix r) \<longleftrightarrow> pi_isUsenet r \<or> pi_isWebDL r"
      using sc by (simp add: kind_suffix_def)
    ultimately show ?thesis unfolding c parseId_def ps using own assms sc
      by (auto simp: fields proper_id_def kind_suffix_def)
  qed
qed

theorem parseId_roundtrip_witness:
  "parseId ''st:store:st-rd-usenet:x:y'' = Some \<lparr>pi_storeCode = ''rd'', pi_storeName = ''realdebrid'', pi_isUsenet = True,
     pi_isWebDL = False, pi_isDeprecated = False, pi_isST = True, pi_code = []\<rparr>"
proof -
  let ?r = "\<lparr>pi_storeCode = ''rd'', pi_storeName = ''realdebrid'', pi_isUsenet = True,
     pi_isWebDL = False, pi_isDeprecated = False, pi_isST = True, pi_code = []\<rparr>"
  have "proper_id ?r" by (simp add: proper_id_def valid_codes StoreCode_Name_def lookup_string_def storeNameByCode_def)
  from parseId_roundtrip [OF this, of "''x:y''"] show ?thesis
    by (simp add: getStoreCode_def kind_suffix_def getIdPrefix_def getCatalogId_def)
qed

end
