(* ===== verification/Torrent_Stream.thy ===== *)
theory Torrent_Stream
  imports Prelude
begin

text \<open>
  The ids of torrent streams (\<open>internal/torrent_stream/id.go\<close>) and the record of when a stream was last
  pulled from and pushed to the other servers (\<open>torrent_stream_syncinfo\<close>).

  The LRU cache is third-party code: \<open>cget\<close> and \<open>cadd\<close> are its operations on a cache state. What the
  code relies on is \<open>sound_cache\<close>: a hit gives the value that was last added under that key (an entry
  may be evicted or expire at any time). The three lookups of the anime tables are parameters. Times
  are nanoseconds since the epoch.
\<close>

definition sound_cache :: "('c \<Rightarrow> string \<Rightarrow> 'v option) \<Rightarrow> ('c \<Rightarrow> string \<Rightarrow> 'v \<Rightarrow> 'c) \<Rightarrow> bool" where
  "sound_cache cget cadd \<longleftrightarrow>
     (\<forall>c k v l w. cget (cadd c k v) l = Some w \<longrightarrow> (if l = k then w = v else cget c l = Some w))"

section \<open>id.go\<close>

definition CleanStremId :: "string \<Rightarrow> string" where
  "CleanStremId sid =
     (if has_prefix sid ''tt'' then fst (cut sid CHR '':'')
      else case cut_prefix sid ''anidb:'' of
          None \<Rightarrow> []
        | Some rest \<Rightarrow>
            let sid' = fst (cut rest CHR '':'') in if sid' \<noteq> [] then ''anidb:'' @ sid' else [])"

record normalized_strem_id =
  ns_IsAnime :: bool
  ns_Id :: string
  ns_Episode :: string
  ns_Season :: string

definition IsSeries :: "normalized_strem_id \<Rightarrow> bool" where
  "IsSeries n \<longleftrightarrow> ns_Season n \<noteq> [] \<or> ns_Episode n \<noteq> []"

definition ToClean :: "normalized_strem_id \<Rightarrow> string" where
  "ToClean n = (if ns_IsAnime n \<and> ns_Id n \<noteq> [] then ''anidb:'' @ ns_Id n else ns_Id n)"

definition StremId_String :: "normalized_strem_id \<Rightarrow> string" where
  "StremId_String n =
     (let i = ToClean n in
      if i = [] then i
      else if ns_IsAnime n then (if ns_Episode n \<noteq> [] then i @ '':'' @ ns_Episode n else i)
      else if ns_Season n \<noteq> [] then
        (let j = i @ '':'' @ ns_Season n in if ns_Episode n \<noteq> [] then j @ '':'' @ ns_Episode n else j)
      else i)"

record anime_lookup =
  season_by_anidb :: "string \<Rightarrow> string + string"
  anidb_by_kitsu :: "string \<Rightarrow> string + string \<times> string"
  anidb_by_mal :: "string \<Rightarrow> string + string \<times> string"

text \<open>The part of \<open>NormalizeStreamId\<close> after a cache miss.\<close>

definition compute_stream_id :: "anime_lookup \<Rightarrow> string \<Rightarrow> string + normalized_strem_id" where
  "compute_stream_id lk sid =
     (if has_prefix sid ''tt'' then
        (case cut sid CHR '':'' of (imdbId, seasonEpisode, ok) \<Rightarrow>
           if ok then
             (case cut seasonEpisode CHR '':'' of (season, episode, ok2) \<Rightarrow>
                Inr \<lparr>ns_IsAnime = False, ns_Id = imdbId, ns_Episode = (if ok2 then episode else []), ns_Season = season\<rparr>)
           else Inr \<lparr>ns_IsAnime = False, ns_Id = imdbId, ns_Episode = [], ns_Season = []\<rparr>)
      else case cut_prefix sid ''anidb:'' of
          Some idEpisode \<Rightarrow>
            (case cut idEpisode CHR '':'' of (anidbId, episode, ok) \<Rightarrow>
               (case season_by_anidb lk anidbId of
                  Inl e \<Rightarrow> Inl e
                | Inr season \<Rightarrow> Inr \<lparr>ns_IsAnime = True, ns_Id = anidbId, ns_Episode = episode, ns_Season = season\<rparr>))
        | None \<Rightarrow>
            (case cut_prefix sid ''kitsu:'' of
               Some idEpisode \<Rightarrow>
                 (case cut idEpisode CHR '':'' of (kitsuId, episode, ok) \<Rightarrow>
                    (case anidb_by_kitsu lk kitsuId of
                       Inl e \<Rightarrow> Inl e
                     | Inr (anidbId, season) \<Rightarrow>
                         Inr \<lparr>ns_IsAnime = True, ns_Id = anidbId, ns_Episode = episode, ns_Season = season\<rparr>))
             | None \<Rightarrow>
                 (case cut_prefix sid ''mal:'' of
                    Some idEpisode \<Rightarrow>
                      (case cut idEpisode CHR '':'' of (malId, episode, ok) \<Rightarrow>
                         (case anidb_by_mal lk malId of
                            Inl e \<Rightarrow> Inl e
                          | Inr (anidbId, season) \<Rightarrow>
                              Inr \<lparr>ns_IsAnime = True, ns_Id = anidbId, ns_Episode = episode, ns_Season = season\<rparr>))
                  | None \<Rightarrow> Inl ''unsupported strem id'')))"

definition NormalizeStreamId ::
  "('c \<Rightarrow> string \<Rightarrow> normalized_strem_id option) \<Rightarrow> ('c \<Rightarrow> string \<Rightarrow> normalized_strem_id \<Rightarrow> 'c) \<Rightarrow> anime_lookup
     \<Rightarrow> 'c \<Rightarrow> string \<Rightarrow> (string + normalized_strem_id) \<times> 'c" where
  "NormalizeStreamId cget cadd lk c sid =
     (case cget c sid of
        Some result \<Rightarrow> (Inr result, c)
      | None \<Rightarrow>
          (case compute_stream_id lk sid of
             Inl e \<Rightarrow> (Inl e, c)
           | Inr result \<Rightarrow> (Inr result, cadd c sid result)))"

section \<open>torrent_stream_syncinfo\<close>

text \<open>
  A row holds the times of the last pull and push; \<open>None\<close> is SQL null, read as Go's zero time. The
  answers of the database are an environment: whether a query or a statement fails. A statement
  stores the time of the database, which has a resolution of a second.
\<close>

record sync_row =
  row_pulled_at :: "int option"
  row_pushed_at :: "int option"

record 'c sync_state =
  sy_pull_cache :: 'c
  sy_push_cache :: 'c
  sy_rows :: "string \<Rightarrow> sync_row option"

definition zero_time :: int where
  "zero_time = - 62135596800 * 1000000000"

definition staleTime :: int where
  "staleTime = 24 * 60 * 60 * 1000000000"

definition floor_second :: "int \<Rightarrow> int" where
  "floor_second t = t - t mod 1000000000"

text \<open>What \<open>row.Scan\<close> leaves in \<open>syncedAt\<close>: the time of a missing row or a failed query is the epoch.\<close>

definition scan_time :: "bool \<Rightarrow> (sync_row \<Rightarrow> int option) \<Rightarrow> sync_row option \<Rightarrow> int" where
  "scan_time query_fails col r =
     (if query_fails then 0
      else case r of None \<Rightarrow> 0 | Some row \<Rightarrow> (case col row of None \<Rightarrow> zero_time | Some t \<Rightarrow> t))"

definition ShouldPull ::
  "('c \<Rightarrow> string \<Rightarrow> int option) \<Rightarrow> ('c \<Rightarrow> string \<Rightarrow> int \<Rightarrow> 'c) \<Rightarrow> bool \<Rightarrow> int \<Rightarrow> 'c sync_state \<Rightarrow> string \<Rightarrow> bool \<times> 'c sync_state" where
  "ShouldPull cget cadd query_fails now st sid =
     (let sid' = CleanStremId sid in
      if sid' = [] then (False, st)
      else case cget (sy_pull_cache st) sid' of
          Some syncedAt \<Rightarrow> (syncedAt < now - staleTime, st)
        | None \<Rightarrow>
            let syncedAt = scan_time query_fails row_pulled_at (sy_rows st sid')
            in (syncedAt < now - staleTime, st\<lparr>sy_pull_cache := cadd (sy_pull_cache st) sid' syncedAt\<rparr>))"

definition ShouldPush ::
  "('c \<Rightarrow> string \<Rightarrow> int option) \<Rightarrow> ('c \<Rightarrow> string \<Rightarrow> int \<Rightarrow> 'c) \<Rightarrow> bool \<Rightarrow> int \<Rightarrow> 'c sync_state \<Rightarrow> string \<Rightarrow> bool \<times> 'c sync_state" where
  "ShouldPush cget cadd query_fails now st sid =
     (let sid' = CleanStremId sid in
      if sid' = [] then (False, st)
      else case cget (sy_push_cache st) sid' of
          Some syncedAt \<Rightarrow> (syncedAt < now - staleTime, st)
        | None \<Rightarrow>
            let syncedAt = scan_time query_fails row_pushed_at (sy_rows st sid')
            in (syncedAt < now - staleTime, st\<lparr>sy_push_cache := cadd (sy_push_cache st) sid' syncedAt\<rparr>))"

definition MarkPulled ::
  "('c \<Rightarrow> string \<Rightarrow> int \<Rightarrow> 'c) \<Rightarrow> bool \<Rightarrow> int \<Rightarrow> 'c sync_state \<Rightarrow> string \<Rightarrow> 'c sync_state" where
  "MarkPulled cadd exec_fails now st sid =
     (let sid' = CleanStremId sid in
      if sid' = [] \<or> exec_fails then st
      else let row = (case sy_rows st sid' of None \<Rightarrow> \<lparr>row_pulled_at = None, row_pushed_at = None\<rparr> | Some r \<Rightarrow> r)
        in st\<lparr>sy_rows := (sy_rows st)(sid' := Some (row\<lparr>row_pulled_at := Some (floor_second now)\<rparr>)),
              sy_pull_cache := cadd (sy_pull_cache st) sid' now\<rparr>)"

definition MarkPushed ::
  "('c \<Rightarrow> string \<Rightarrow> int \<Rightarrow> 'c) \<Rightarrow> bool \<Rightarrow> int \<Rightarrow> 'c sync_state \<Rightarrow> string \<Rightarrow> 'c sync_state" where
  "MarkPushed cadd exec_fails now st sid =
     (let sid' = CleanStremId sid in
      if sid' = [] \<or> exec_fails then st
      else let row = (case sy_rows st sid' of None \<Rightarrow> \<lparr>row_pulled_at = None, row_pushed_at = None\<rparr> | Some r \<Rightarrow> r)
        in st\<lparr>sy_rows := (sy_rows st)(sid' := Some (row\<lparr>row_pushed_at := Some (floor_second now)\<rparr>)),
              sy_push_cache := cadd (sy_push_cache st) sid' now\<rparr>)"

section \<open>Lemmas\<close>

lemma cut_parts: "cut s c = (a, b, ok) \<Longrightarrow> c \<notin> set a \<and> (if ok then s = a @ c # b else s = a \<and> b = [])"
  by (rule cut_spec)

lemma has_prefix_cut: "has_prefix s ''tt'' \<Longrightarrow> has_prefix (fst (cut s CHR '':'')) ''tt''"
proof -
  assume "has_prefix s ''tt''"
  then obtain t where "s = ''tt'' @ t" by (auto simp: has_prefix_iff)
  then show ?thesis by (auto simp: has_prefix_def split: prod.splits)
qed

lemma CleanStremId_idem: "CleanStremId (CleanStremId sid) = CleanStremId sid"
proof (cases "has_prefix sid ''tt''")
  case True
  obtain a b ok where c: "cut sid CHR '':'' = (a, b, ok)" by (metis prod_cases3)
  with cut_parts [OF c] has_prefix_cut [OF True] True show ?thesis by (simp add: CleanStremId_def)
next
  case False
  show ?thesis
  proof (cases "cut_prefix sid ''anidb:''")
    case None
    then show ?thesis using False by (simp add: CleanStremId_def has_prefix_def cut_prefix_def)
  next
    case (Some rest)
    obtain a b ok where c: "cut rest CHR '':'' = (a, b, ok)" by (metis prod_cases3)
    have "CleanStremId sid = (if a \<noteq> [] then ''anidb:'' @ a else [])"
      using False Some c by (simp add: CleanStremId_def)
    moreover have "CleanStremId (''anidb:'' @ a) = (if a \<noteq> [] then ''anidb:'' @ a else [])"
      using cut_parts [OF c] by (simp add: CleanStremId_def has_prefix_def cut_prefix_def trim_prefix_def)
    moreover have "CleanStremId [] = []" by (simp add: CleanStremId_def has_prefix_def cut_prefix_def)
    ultimately show ?thesis by simp
  qed
qed

lemma CleanStremId_tt: "has_prefix i ''tt'' \<Longrightarrow> CHR '':'' \<notin> set i \<Longrightarrow>
    CleanStremId i = i \<and> CleanStremId (i @ CHR '':'' # t) = i"
  by (auto simp: CleanStremId_def has_prefix_iff)

lemma CleanStremId_anidb: "CHR '':'' \<notin> set i \<Longrightarrow> i \<noteq> [] \<Longrightarrow>
    CleanStremId (''anidb:'' @ i) = ''anidb:'' @ i \<and> CleanStremId (''anidb:'' @ i @ CHR '':'' # t) = ''anidb:'' @ i"
  by (simp add: CleanStremId_def has_prefix_def cut_prefix_def trim_prefix_def)

lemma CleanStremId_Nil [simp]: "CleanStremId [] = []"
  by (simp add: CleanStremId_def has_prefix_def cut_prefix_def)

text \<open>The operations as steps, at times not before \<open>t\<close> and with queries that do not fail.\<close>

datatype sync_op = OpShouldPull string | OpShouldPush string | OpMarkPulled bool string | OpMarkPushed bool string

inductive sync_step ::
  "('c \<Rightarrow> string \<Rightarrow> int option) \<Rightarrow> ('c \<Rightarrow> string \<Rightarrow> int \<Rightarrow> 'c) \<Rightarrow> int \<Rightarrow> 'c sync_state \<Rightarrow> sync_op \<Rightarrow> 'c sync_state \<Rightarrow> bool"
  for cget cadd t where
  should_pull: "t \<le> now \<Longrightarrow> sync_step cget cadd t st (OpShouldPull sid) (snd (ShouldPull cget cadd False now st sid))"
| should_push: "t \<le> now \<Longrightarrow> sync_step cget cadd t st (OpShouldPush sid) (snd (ShouldPush cget cadd False now st sid))"
| mark_pulled: "t \<le> now \<Longrightarrow> sync_step cget cadd t st (OpMarkPulled exec_fails sid) (MarkPulled cadd exec_fails now st sid)"
| mark_pushed: "t \<le> now \<Longrightarrow> sync_step cget cadd t st (OpMarkPushed exec_fails sid) (MarkPushed cadd exec_fails now st sid)"

inductive_cases sync_stepE: "sync_step cget cadd t st e st'"

text \<open>Both the row and a cached entry of the id are as recent as \<open>t\<close>, up to the resolution of a second.\<close>

definition pulled_since ::
  "('c \<Rightarrow> string \<Rightarrow> int option) \<Rightarrow> ('c \<Rightarrow> string \<Rightarrow> int \<Rightarrow> 'c) \<Rightarrow> int \<Rightarrow> string \<Rightarrow> 'c sync_state \<Rightarrow> bool" where
  "pulled_since cget cadd t k st \<longleftrightarrow> sound_cache cget cadd
     \<and> (\<exists>row p. sy_rows st k = Some row \<and> row_pulled_at row = Some p \<and> floor_second t \<le> p)
     \<and> (\<forall>w. cget (sy_pull_cache st) k = Some w \<longrightarrow> floor_second t \<le> w)"

lemma floor_second_mono: "t \<le> u \<Longrightarrow> floor_second t \<le> floor_second u"
  by (simp add: floor_second_def minus_mod_eq_mult_div zdiv_mono1)

lemma floor_second_le: "floor_second t \<le> t"
  by (simp add: floor_second_def)

lemma sound_cacheD:
  "sound_cache cget cadd \<Longrightarrow> cget (cadd c k v) l = Some w \<Longrightarrow> (if l = k then w = v else cget c l = Some w)"
  unfolding sound_cache_def by blast

lemma cache_add_keeps:
  "sound_cache cget cadd \<Longrightarrow> (\<And>w. cget c k = Some w \<Longrightarrow> P w) \<Longrightarrow> (l = k \<Longrightarrow> P v) \<Longrightarrow>
     cget (cadd c l v) k = Some w \<Longrightarrow> P w"
  unfolding sound_cache_def by metis

lemma pulled_sinceD:
  assumes "pulled_since cget cadd t k st"
  obtains row p where "sound_cache cget cadd" "sy_rows st k = Some row" "row_pulled_at row = Some p" "floor_second t \<le> p"
    "\<And>w. cget (sy_pull_cache st) k = Some w \<Longrightarrow> floor_second t \<le> w"
  using assms by (auto simp: pulled_since_def)

lemma pulled_sinceI:
  "sound_cache cget cadd \<Longrightarrow> sy_rows st k = Some row \<Longrightarrow> row_pulled_at row = Some p \<Longrightarrow> floor_second t \<le> p \<Longrightarrow>
     (\<And>w. cget (sy_pull_cache st) k = Some w \<Longrightarrow> floor_second t \<le> w) \<Longrightarrow> pulled_since cget cadd t k st"
  by (auto simp: pulled_since_def)

lemma ShouldPull_keeps:
  assumes "pulled_since cget cadd t k st"
  shows "pulled_since cget cadd t k (snd (ShouldPull cget cadd False now st sid))"
proof -
  obtain row p where st: "sound_cache cget cadd" "sy_rows st k = Some row" "row_pulled_at row = Some p" "floor_second t \<le> p"
    "\<And>w. cget (sy_pull_cache st) k = Some w \<Longrightarrow> floor_second t \<le> w"
    using pulled_sinceD [OF assms] by metis
  let ?k = "CleanStremId sid" and ?v = "scan_time False row_pulled_at (sy_rows st (CleanStremId sid))"
  have "pulled_since cget cadd t k (st\<lparr>sy_pull_cache := cadd (sy_pull_cache st) ?k ?v\<rparr>)"
  proof (rule pulled_sinceI [OF st(1) _ st(3,4)])
    show "floor_second t \<le> w" if "cget (sy_pull_cache (st\<lparr>sy_pull_cache := cadd (sy_pull_cache st) ?k ?v\<rparr>)) k = Some w" for w
      using that by (intro cache_add_keeps [OF st(1), of "sy_pull_cache st" k "\<lambda>w. floor_second t \<le> w" ?k ?v w])
        (use st in \<open>auto simp: scan_time_def\<close>)
  qed (use st(2) in simp)
  then show ?thesis using assms by (simp add: ShouldPull_def Let_def split: option.splits)
qed

lemma ShouldPush_keeps:
  "pulled_since cget cadd t k st \<Longrightarrow> pulled_since cget cadd t k (snd (ShouldPush cget cadd False now st sid))"
  by (simp add: pulled_since_def ShouldPush_def Let_def split: option.splits)

lemma MarkPulled_keeps:
  assumes "pulled_since cget cadd t k st" and "t \<le> now"
  shows "pulled_since cget cadd t k (MarkPulled cadd exec_fails now st sid)"
proof (cases "CleanStremId sid = [] \<or> exec_fails")
  case False
  obtain row p where st: "sound_cache cget cadd" "sy_rows st k = Some row" "row_pulled_at row = Some p" "floor_second t \<le> p"
    "\<And>w. cget (sy_pull_cache st) k = Some w \<Longrightarrow> floor_second t \<le> w"
    using pulled_sinceD [OF assms(1)] by metis
  let ?k = "CleanStremId sid"
  have now: "floor_second t \<le> floor_second now" "floor_second t \<le> now"
    using floor_second_mono [OF assms(2)] floor_second_le [of now] by auto
  have "floor_second t \<le> w" if "cget (cadd (sy_pull_cache st) ?k now) k = Some w" for w
    using that by (intro cache_add_keeps [OF st(1), of "sy_pull_cache st" k "\<lambda>w. floor_second t \<le> w" ?k now w])
      (use st now in auto)
  then show ?thesis using False st now
    by (cases "k = ?k") (auto simp: pulled_since_def MarkPulled_def Let_def)
qed (use assms in \<open>auto simp: MarkPulled_def\<close>)

lemma MarkPushed_keeps:
  "pulled_since cget cadd t k st \<Longrightarrow> pulled_since cget cadd t k (MarkPushed cadd exec_fails now st sid)"
  by (auto simp: pulled_since_def MarkPushed_def Let_def)

lemma MarkPulled_since:
  assumes "sound_cache cget cadd" and "CleanStremId sid \<noteq> []"
  shows "pulled_since cget cadd t (CleanStremId sid) (MarkPulled cadd False t st sid)"
proof -
  have "floor_second t \<le> w" if "cget (cadd (sy_pull_cache st) (CleanStremId sid) t) (CleanStremId sid) = Some w" for w
    using sound_cacheD [OF assms(1) that] floor_second_le by simp
  then show ?thesis using assms by (auto simp: pulled_since_def MarkPulled_def Let_def)
qed

interpretation pulled: guarded_system "pulled_since cget cadd t k" "sync_step cget cadd t" "pulled_since cget cadd t k"
  for cget cadd t k
proof
  show "pulled_since cget cadd t k st'" if "pulled_since cget cadd t k st" and "sync_step cget cadd t st e st'" for st e st'
    using that(2,1)
    by (cases rule: sync_step.cases) (auto intro: ShouldPull_keeps ShouldPush_keeps MarkPulled_keeps MarkPushed_keeps)
qed

section \<open>Properties\<close>

text \<open>
  the part of a stream id that identifies the title is the same whether it is cut from the raw id
  (\<open>CleanStremId\<close>) or taken from the normalized one (\<open>ToClean\<close>), for imdb and anidb ids, and it is
  also the clean part of the id written back from the normalized one.
\<close>

theorem clean_of_normalized:
  assumes "compute_stream_id lk sid = Inr n" and "has_prefix sid ''tt'' \<or> has_prefix sid ''anidb:''"
  shows "CleanStremId sid = ToClean n \<and> CleanStremId (StremId_String n) = ToClean n"
proof (cases "has_prefix sid ''tt''")
  case True
  obtain a b ok where c: "cut sid CHR '':'' = (a, b, ok)" by (metis prod_cases3)
  have a: "has_prefix a ''tt''" "CHR '':'' \<notin> set a" using has_prefix_cut [OF True] cut_parts [OF c] c by auto
  have n: "ns_Id n = a" "\<not> ns_IsAnime n" using assms(1) True c by (auto simp: compute_stream_id_def split: prod.splits if_splits)
  have "CleanStremId sid = a" using True c by (simp add: CleanStremId_def)
  moreover have "CleanStremId (StremId_String n) = a"
    using n a CleanStremId_tt [OF a] by (simp add: StremId_String_def ToClean_def Let_def)
  ultimately show ?thesis using n by (simp add: ToClean_def)
next
  case False
  then obtain rest where rest: "sid = ''anidb:'' @ rest" using assms(2) by (auto simp: has_prefix_iff)
  obtain a b ok where c: "cut rest CHR '':'' = (a, b, ok)" by (metis prod_cases3)
  have a: "CHR '':'' \<notin> set a" using cut_parts [OF c] by simp
  have cp: "cut_prefix sid ''anidb:'' = Some rest" by (simp only: rest cut_prefix_append)
  have n: "ns_Id n = a" "ns_IsAnime n"
    using assms(1) False cp c by (auto simp: compute_stream_id_def split: sum.splits)
  have "CleanStremId sid = (if a \<noteq> [] then ''anidb:'' @ a else [])" using False cp c by (simp add: CleanStremId_def)
  moreover have "CleanStremId (StremId_String n) = (if a \<noteq> [] then ''anidb:'' @ a else [])"
    using n CleanStremId_anidb [OF a] by (simp add: StremId_String_def ToClean_def Let_def)
  ultimately show ?thesis using n by (simp add: ToClean_def)
qed

theorem clean_of_normalized_witness:
  "CleanStremId ''tt1:2:3'' = ''tt1''"
proof -
  have "compute_stream_id \<lparr>season_by_anidb = Inl, anidb_by_kitsu = Inl, anidb_by_mal = Inl\<rparr> ''tt1:2:3''
      = Inr \<lparr>ns_IsAnime = False, ns_Id = ''tt1'', ns_Episode = ''3'', ns_Season = ''2''\<rparr>"
    by (simp add: compute_stream_id_def has_prefix_def)
  from clean_of_normalized [OF this] show ?thesis by (simp add: has_prefix_def ToClean_def)
qed

text \<open>
  the cache of normalized ids is transparent: with a cache whose hits are results of the computation,
  \<open>NormalizeStreamId\<close> returns what the computation gives, hit or miss, and leaves such a cache.
\<close>

theorem NormalizeStreamId_transparent:
  assumes "sound_cache cget cadd" and "\<And>k v. cget c k = Some v \<Longrightarrow> compute_stream_id lk k = Inr v"
    and "NormalizeStreamId cget cadd lk c sid = (r, c')"
  shows "r = compute_stream_id lk sid \<and> (\<forall>k v. cget c' k = Some v \<longrightarrow> compute_stream_id lk k = Inr v)"
proof (cases "cget c sid")
  case None
  show ?thesis
  proof (cases "compute_stream_id lk sid")
    case (Inr n)
    with None assms(3) have r: "r = Inr n" "c' = cadd c sid n" by (simp_all add: NormalizeStreamId_def)
    have "compute_stream_id lk k = Inr v" if "cget c' k = Some v" for k v
      using sound_cacheD [OF assms(1) that [unfolded r(2)]] assms(2) Inr by (simp split: if_splits)
    with r Inr show ?thesis by simp
  qed (use None assms in \<open>simp add: NormalizeStreamId_def\<close>)
qed (use assms in \<open>simp add: NormalizeStreamId_def\<close>)

theorem NormalizeStreamId_transparent_witness:
  "fst (NormalizeStreamId (\<lambda>c k. map_of c k) (\<lambda>c k v. (k, v) # c)
      \<lparr>season_by_anidb = Inl, anidb_by_kitsu = Inl, anidb_by_mal = Inl\<rparr> [] ''tt1'')
   = Inr \<lparr>ns_IsAnime = False, ns_Id = ''tt1'', ns_Episode = [], ns_Season = []\<rparr>"
proof -
  let ?lk = "\<lparr>season_by_anidb = Inl, anidb_by_kitsu = Inl, anidb_by_mal = Inl\<rparr>"
  obtain r c' where run: "NormalizeStreamId (\<lambda>c k. map_of c k) (\<lambda>c k v. (k, v) # c) ?lk [] ''tt1'' = (r, c')" by (metis prod.exhaust)
  have "sound_cache (\<lambda>c k. map_of c k) (\<lambda>c k v. (k, v) # c)" by (simp add: sound_cache_def)
  from NormalizeStreamId_transparent [OF this _ run] run show ?thesis by (simp add: compute_stream_id_def has_prefix_def)
qed

text \<open>
  once a stream is marked as pulled at time \<open>t\<close>, no id of the same title asks for a pull again before a
  day has passed, whatever is asked and marked in between, whatever the cache evicts, and although
  the database keeps seconds only.
\<close>

theorem no_pull_within_a_day:
  assumes "sound_cache cget cadd" and "CleanStremId sid \<noteq> []"
    and "reachable (\<lambda>st. st = MarkPulled cadd False t st0 sid) (sync_step cget cadd t) st"
    and "CleanStremId sid' = CleanStremId sid" and "now - staleTime \<le> floor_second t"
  shows "\<not> fst (ShouldPull cget cadd False now st sid')"
proof -
  have "reachable (pulled_since cget cadd t (CleanStremId sid)) (sync_step cget cadd t) st"
    using assms(3)
    by (induction rule: reachable.induct)
      (auto intro: reachable.intros MarkPulled_since [OF assms(1,2)])
  then have "pulled_since cget cadd t (CleanStremId sid) st" by (rule pulled.reachable_inv)
  then show ?thesis using assms(2,4,5)
    by (auto simp: pulled_since_def ShouldPull_def scan_time_def Let_def split: option.splits)
qed

theorem no_pull_within_a_day_witness:
  "\<not> fst (ShouldPull (\<lambda>c k. map_of c k) (\<lambda>c k v. (k, v) # c) False 6000000000
      (MarkPulled (\<lambda>c k v. (k, v) # c) False 5000000000 \<lparr>sy_pull_cache = [], sy_push_cache = [], sy_rows = Map.empty\<rparr> ''tt1:1:1'')
      ''tt1:1:2'')"
proof -
  have "sound_cache (\<lambda>c k. map_of c k) (\<lambda>c k v. (k, v) # c)" by (simp add: sound_cache_def)
  moreover have "CleanStremId ''tt1:1:1'' = ''tt1''" "CleanStremId ''tt1:1:2'' = ''tt1''"
    by (simp_all add: CleanStremId_def has_prefix_def)
  moreover have "6000000000 - staleTime \<le> floor_second 5000000000" by (simp add: staleTime_def floor_second_def)
  moreover have "reachable (\<lambda>st. st = MarkPulled (\<lambda>c k v. (k, v) # c) False 5000000000 st0 ''tt1:1:1'')
      (sync_step (\<lambda>c k. map_of c k) (\<lambda>c k v. (k, v) # c) 5000000000)
      (MarkPulled (\<lambda>c k v. (k, v) # c) False 5000000000 st0 ''tt1:1:1'')" for st0
    by (rule reach_init) simp
  ultimately show ?thesis
    by (intro no_pull_within_a_day [where sid = "''tt1:1:1''" and t = 5000000000]) simp_all
qed

end
