(* ===== verification/Worker_Queue.thy ===== *)
theory Worker_Queue
  imports Prelude "HOL-Library.AList" "HOL-Library.Sublist"
begin

text \<open>
  The debouncing work queues of the background workers
  (\<open>internal/worker/worker_queue\<close>): the generic \<open>WorkerQueue\<close> of \<open>queue.go\<close> and the key
  functions of the queues built on it.

  The \<open>sync.Map\<close> of a queue is an association list with distinct keys. \<open>Range\<close> visits
  the keys that are there when it starts, in their order, and loads each value when it comes to
  it, which is what the documentation of \<open>sync.Map\<close> allows. The callback is a parameter: for an
  item it gives the items that other goroutines queue while it runs, each with its time, how long
  it took, and its error. \<open>Process\<close> and \<open>ProcessGroup\<close> also return the log of their calls.
  Times are \<open>int\<close> (nanoseconds).
\<close>

section \<open>The generic queue\<close>

record 'a WorkerQueueItem =
  item_v :: 'a
  item_t :: int

record 'a WorkerQueue =
  wq_m :: "(string \<times> 'a WorkerQueueItem) list"
  getKey :: "'a \<Rightarrow> string"
  getGroupKey :: "('a \<Rightarrow> string) option"
  transform :: "'a \<Rightarrow> 'a"
  debounceTime :: int
  Disabled :: bool

datatype work_error = WorkerQueueItemDelayed | WorkFailed string

text \<open>What one call of the callback does.\<close>

record 'a call =
  queued_meanwhile :: "(int \<times> 'a) list"
  took :: int
  call_err :: "work_error option"

definition Queue :: "int \<Rightarrow> 'a WorkerQueue \<Rightarrow> 'a \<Rightarrow> 'a WorkerQueue" where
  "Queue now q item0 =
     (if Disabled q then q
      else let item = transform q item0 in
        q\<lparr>wq_m := AList.update (getKey q item) \<lparr>item_v = item, item_t = now + debounceTime q\<rparr> (wq_m q)\<rparr>)"

definition queue_delete :: "'a WorkerQueue \<Rightarrow> 'a \<Rightarrow> 'a WorkerQueue" where
  "queue_delete q item = q\<lparr>wq_m := AList.delete (getKey q item) (wq_m q)\<rparr>"

definition IsEmpty :: "'a WorkerQueue \<Rightarrow> bool" where
  "IsEmpty q \<longleftrightarrow> wq_m q = []"

definition queue_all :: "(int \<times> 'a) list \<Rightarrow> 'a WorkerQueue \<Rightarrow> 'a WorkerQueue" where
  "queue_all xs q = foldl (\<lambda>q (t, x). Queue t q x) q xs"

fun process_keys :: "('a \<Rightarrow> 'a call) \<Rightarrow> int \<Rightarrow> string list \<Rightarrow> 'a WorkerQueue
    \<Rightarrow> ('a \<times> work_error option) list \<times> 'a WorkerQueue" where
  "process_keys f now [] q = ([], q)"
| "process_keys f now (k # ks) q =
     (case map_of (wq_m q) k of
        None \<Rightarrow> process_keys f now ks q
      | Some val \<Rightarrow>
          if item_t val < now then
            let c = f (item_v val); q1 = queue_all (queued_meanwhile c) q;
                q2 = (if call_err c = None then queue_delete q1 (item_v val) else q1);
                (calls, q3) = process_keys f (now + took c) ks q2
            in ((item_v val, call_err c) # calls, q3)
          else process_keys f now ks q)"

definition Process :: "('a \<Rightarrow> 'a call) \<Rightarrow> int \<Rightarrow> 'a WorkerQueue
    \<Rightarrow> ('a \<times> work_error option) list \<times> 'a WorkerQueue" where
  "Process f now q = process_keys f now (map fst (wq_m q)) q"

text \<open>
  The map from group key to items is kept in the order in which the groups were made;
  \<open>order\<close> is the order in which Go's map iteration then runs over it.
\<close>

definition group_add :: "('a \<Rightarrow> string) \<Rightarrow> 'a \<Rightarrow> (string \<times> 'a list) list \<Rightarrow> (string \<times> 'a list) list" where
  "group_add gk v groups =
     (case map_of groups (gk v) of
        None \<Rightarrow> AList.update (gk v) ([] @ [v]) groups
      | Some items \<Rightarrow> AList.update (gk v) (items @ [v]) groups)"

fun group_due :: "('a \<Rightarrow> string) \<Rightarrow> int \<Rightarrow> (string \<times> 'a WorkerQueueItem) list
    \<Rightarrow> (string \<times> 'a list) list \<Rightarrow> (string \<times> 'a list) list" where
  "group_due gk now [] groups = groups"
| "group_due gk now ((k, val) # m) groups =
     group_due gk now m (if item_t val < now then group_add gk (item_v val) groups else groups)"

definition delete_all :: "'a list \<Rightarrow> 'a WorkerQueue \<Rightarrow> 'a WorkerQueue" where
  "delete_all items q = foldl queue_delete q items"

fun process_groups :: "(string \<Rightarrow> 'a list \<Rightarrow> 'a call) \<Rightarrow> (string \<times> 'a list) list \<Rightarrow> 'a WorkerQueue
    \<Rightarrow> ((string \<times> 'a list) \<times> work_error option) list \<times> 'a WorkerQueue" where
  "process_groups f [] q = ([], q)"
| "process_groups f ((g, items) # gs) q =
     (let c = f g items; q1 = queue_all (queued_meanwhile c) q;
          q2 = (if call_err c = None then delete_all items q1 else q1);
          (calls, q3) = process_groups f gs q2
      in (((g, items), call_err c) # calls, q3))"

text \<open>\<open>None\<close> is the panic of calling a nil \<open>getGroupKey\<close>, which only a due item reaches.\<close>

definition ProcessGroup :: "((string \<times> 'a list) list \<Rightarrow> (string \<times> 'a list) list)
    \<Rightarrow> (string \<Rightarrow> 'a list \<Rightarrow> 'a call) \<Rightarrow> int \<Rightarrow> 'a WorkerQueue
    \<Rightarrow> (((string \<times> 'a list) \<times> work_error option) list \<times> 'a WorkerQueue) option" where
  "ProcessGroup order f now q =
     (case getGroupKey q of
        None \<Rightarrow> if list_ex (\<lambda>(k, val). item_t val < now) (wq_m q) then None else Some ([], q)
      | Some gk \<Rightarrow> Some (process_groups f (order (group_due gk now (wq_m q) [])) q))"

section \<open>The queues\<close>

record AnimeIdMapperQueueItem =
  anime_Service :: string
  anime_Id :: string

definition AnimeIdMapperQueue :: "bool \<Rightarrow> AnimeIdMapperQueueItem WorkerQueue" where
  "AnimeIdMapperQueue anime =
     \<lparr>wq_m = [], getKey = (\<lambda>x. anime_Service x @ '':'' @ anime_Id x), getGroupKey = Some anime_Service,
      transform = id, debounceTime = 60 * 10 ^ 9, Disabled = (\<not> anime)\<rparr>"

record LetterboxdListSyncerQueueItem =
  letterboxd_ListId :: string

definition LetterboxdListSyncerQueue :: "bool \<Rightarrow> bool \<Rightarrow> bool \<Rightarrow> LetterboxdListSyncerQueueItem WorkerQueue" where
  "LetterboxdListSyncerQueue hasStremioList isEnabled isPiggybacked =
     \<lparr>wq_m = [], getKey = letterboxd_ListId, getGroupKey = None, transform = id,
      debounceTime = (if isEnabled then 60 * 10 ^ 9 else 5 * 60 * 10 ^ 9),
      Disabled = (\<not> hasStremioList \<or> (\<not> isEnabled \<and> \<not> isPiggybacked))\<rparr>"

record UserdataAddonReloaderQueueItem =
  reload_Addon :: string
  reload_Key :: string

definition LinkedUserdataAddonReloaderQueue :: "bool \<Rightarrow> UserdataAddonReloaderQueueItem WorkerQueue" where
  "LinkedUserdataAddonReloaderQueue hasVault =
     \<lparr>wq_m = [], getKey = (\<lambda>x. reload_Addon x @ '':'' @ reload_Key x), getGroupKey = None,
      transform = id, debounceTime = 60 * 10 ^ 9, Disabled = (\<not> hasVault)\<rparr>"

record MagnetCachePullerQueueItem =
  puller_ClientIP :: string
  puller_Hash :: string
  puller_SId :: string
  puller_StoreCode :: string
  puller_StoreToken :: string

definition MagnetCachePullerQueue :: "bool \<Rightarrow> MagnetCachePullerQueueItem WorkerQueue" where
  "MagnetCachePullerQueue lazy =
     \<lparr>wq_m = [],
      getKey = (\<lambda>x. puller_StoreCode x @ '':'' @ puller_SId x @ '':'' @ puller_Hash x),
      getGroupKey = Some (\<lambda>x. puller_StoreCode x @ '':'' @ puller_SId x),
      transform = id, debounceTime = 5 * 60 * 10 ^ 9, Disabled = (\<not> lazy)\<rparr>"

record StoreCrawlerQueueItem =
  crawler_StoreCode :: string
  crawler_StoreToken :: string

definition StoreCrawlerQueue :: "bool \<Rightarrow> StoreCrawlerQueueItem WorkerQueue" where
  "StoreCrawlerQueue hasTorrentInfo =
     \<lparr>wq_m = [], getKey = (\<lambda>x. crawler_StoreCode x @ '':'' @ crawler_StoreToken x), getGroupKey = None,
      transform = id, debounceTime = 15 * 60 * 10 ^ 9, Disabled = (\<not> hasTorrentInfo)\<rparr>"

record TorznabIndexerSyncerQueueItem =
  syncer_SId :: string

definition TorznabIndexerSyncerQueue :: "bool \<Rightarrow> TorznabIndexerSyncerQueueItem WorkerQueue" where
  "TorznabIndexerSyncerQueue hasVault =
     \<lparr>wq_m = [], getKey = syncer_SId, getGroupKey = None, transform = id,
      debounceTime = 5 * 60 * 10 ^ 9, Disabled = (\<not> hasVault)\<rparr>"

section \<open>Lemmas\<close>

text \<open>The keys of a queue are distinct and each entry stands under the key of its item.\<close>

definition wf_queue :: "'a WorkerQueue \<Rightarrow> bool" where
  "wf_queue q \<longleftrightarrow> distinct (map fst (wq_m q)) \<and> (\<forall>(k, val) \<in> set (wq_m q). k = getKey q (item_v val))"

lemma Queue_conf [simp]:
  "getKey (Queue now q x) = getKey q" "getGroupKey (Queue now q x) = getGroupKey q"
  "transform (Queue now q x) = transform q" "debounceTime (Queue now q x) = debounceTime q"
  "Disabled (Queue now q x) = Disabled q"
  by (simp_all add: Queue_def Let_def)

lemma queue_delete_conf [simp]:
  "getKey (queue_delete q x) = getKey q" "getGroupKey (queue_delete q x) = getGroupKey q"
  "transform (queue_delete q x) = transform q" "debounceTime (queue_delete q x) = debounceTime q"
  "Disabled (queue_delete q x) = Disabled q"
  by (simp_all add: queue_delete_def)

lemma queue_all_Nil [simp]: "queue_all [] q = q"
  by (simp add: queue_all_def)

lemma queue_all_conf [simp]: "getKey (queue_all xs q) = getKey q" "transform (queue_all xs q) = transform q"
  by (induction xs arbitrary: q) (auto simp: queue_all_def)

lemma delete_all_Nil [simp]: "delete_all [] q = q"
  by (simp add: delete_all_def)

lemma delete_all_Cons [simp]: "delete_all (x # xs) q = delete_all xs (queue_delete q x)"
  by (simp add: delete_all_def)

lemma delete_all_conf [simp]: "getKey (delete_all xs q) = getKey q"
  by (induction xs arbitrary: q) auto

lemma wq_m_queue_delete: "wq_m (queue_delete q x) = filter (\<lambda>(k, val). k \<noteq> getKey q x) (wq_m q)"
  by (auto simp: queue_delete_def AList.delete_eq intro!: filter_cong)

lemma wq_m_delete_all:
  "wq_m (delete_all xs q) = filter (\<lambda>(k, val). k \<notin> getKey q ` set xs) (wq_m q)"
  by (induction xs arbitrary: q) (auto simp: wq_m_queue_delete intro!: filter_cong)

lemma set_AList_update: "(k', v') \<in> set (AList.update k v m) \<Longrightarrow> (k', v') = (k, v) \<or> (k', v') \<in> set m"
  by (induction m) (auto split: if_splits)

lemma wf_Queue [simp]: "wf_queue q \<Longrightarrow> wf_queue (Queue now q x)"
  by (auto simp: wf_queue_def Queue_def Let_def distinct_update dest!: set_AList_update)

lemma wf_filter:
  "wf_queue q \<Longrightarrow> wq_m q' = filter P (wq_m q) \<Longrightarrow> getKey q' = getKey q \<Longrightarrow> wf_queue q'"
  by (auto simp: wf_queue_def distinct_map intro: inj_on_subset)

lemma wf_queue_delete [simp]: "wf_queue q \<Longrightarrow> wf_queue (queue_delete q x)"
  using wf_filter wq_m_queue_delete by fastforce

lemma wf_delete_all [simp]: "wf_queue q \<Longrightarrow> wf_queue (delete_all xs q)"
  by (induction xs arbitrary: q) auto

lemma wf_queue_all [simp]: "wf_queue q \<Longrightarrow> wf_queue (queue_all xs q)"
  by (induction xs arbitrary: q) (auto simp: queue_all_def)

lemma wf_process_keys: "wf_queue q \<Longrightarrow> wf_queue (snd (process_keys f now ks q))"
  by (induction ks arbitrary: now q) (simp_all add: Let_def split_beta split: option.splits)

lemma wf_process_groups: "wf_queue q \<Longrightarrow> wf_queue (snd (process_groups f gs q))"
  by (induction gs arbitrary: q) (simp_all add: Let_def split_beta split_paired_all)

text \<open>The life of a queue, as steps of its three operations, keeps it well formed.\<close>

inductive queue_step :: "'a WorkerQueue \<Rightarrow> unit \<Rightarrow> 'a WorkerQueue \<Rightarrow> bool" where
  step_Queue: "queue_step q () (Queue now q x)"
| step_Process: "queue_step q () (snd (Process f now q))"
| step_ProcessGroup: "ProcessGroup order f now q = Some (calls, q') \<Longrightarrow> queue_step q () q'"

inductive_cases queue_stepE: "queue_step q e q'"

lemma wf_ProcessGroup: "wf_queue q \<Longrightarrow> ProcessGroup order f now q = Some (calls, q') \<Longrightarrow> wf_queue q'"
  using wf_process_groups [of q f]
  by (auto simp: ProcessGroup_def split: option.splits if_splits) (metis snd_conv)

lemma wf_empty: "wq_m q = [] \<Longrightarrow> wf_queue q"
  by (simp add: wf_queue_def)

interpretation queue_life: guarded_system "\<lambda>q. wq_m q = []" queue_step wf_queue
proof
  show "wf_queue q'" if "wf_queue q" and "queue_step q e q'" for q q' :: "'a WorkerQueue" and e
    using that(2,1) by (auto elim!: queue_stepE simp: Process_def wf_process_keys dest: wf_ProcessGroup)
qed (rule wf_empty)

text \<open>Callbacks during which nothing is queued.\<close>

definition quiet :: "('a \<Rightarrow> 'a call) \<Rightarrow> bool" where
  "quiet f \<longleftrightarrow> (\<forall>x. queued_meanwhile (f x) = [] \<and> 0 \<le> took (f x))"

lemma wf_entry_eq:
  assumes "wf_queue q" and "(k, val) \<in> set (wq_m q)" and "(k', val') \<in> set (wq_m q)"
    and "k = k' \<or> item_v val = item_v val'"
  shows "k = k' \<and> val = val'"
proof -
  have "k = getKey q (item_v val)" and "k' = getKey q (item_v val')" and "distinct (map fst (wq_m q))"
    using assms(1-3) by (auto simp: wf_queue_def)
  with assms show ?thesis by (metis eq_key_imp_eq_value)
qed

lemma wf_map_of_key: "wf_queue q \<Longrightarrow> map_of (wq_m q) k = Some val \<Longrightarrow> k = getKey q (item_v val)"
  by (auto simp: wf_queue_def dest: map_of_SomeD)

text \<open>What a finished call leaves of the queue when nothing was queued meanwhile.\<close>

definition after_call :: "'a call \<Rightarrow> 'a \<Rightarrow> 'a WorkerQueue \<Rightarrow> 'a WorkerQueue" where
  "after_call c x q = (if call_err c = None then queue_delete q x else q)"

lemma after_call_wf [simp]: "wf_queue q \<Longrightarrow> wf_queue (after_call c x q)"
  by (simp add: after_call_def)

lemma after_call_key [simp]: "getKey (after_call c x q) = getKey q"
  by (simp add: after_call_def)

lemma wq_m_after_call:
  "wq_m (after_call c x q) = filter (\<lambda>(k, val). call_err c = None \<longrightarrow> k \<noteq> getKey q x) (wq_m q)"
  by (auto simp: after_call_def wq_m_queue_delete)

lemma process_keys_skip:
  "(\<And>val. map_of (wq_m q) k = Some val \<Longrightarrow> \<not> item_t val < now) \<Longrightarrow>
     process_keys f now (k # ks) q = process_keys f now ks q"
  by (cases "map_of (wq_m q) k") auto

lemma process_keys_call:
  "quiet f \<Longrightarrow> map_of (wq_m q) k = Some val \<Longrightarrow> item_t val < now \<Longrightarrow>
     process_keys f now (k # ks) q =
       apfst (Cons (item_v val, call_err (f (item_v val))))
         (process_keys f (now + took (f (item_v val))) ks (after_call (f (item_v val)) (item_v val) q))"
  by (simp add: quiet_def after_call_def Let_def split_beta apfst_def map_prod_def)

lemma quiet_took: "quiet f \<Longrightarrow> t < now \<Longrightarrow> t < now + took (f x)"
  using quiet_def [of f] by (metis add_increasing2 less_le_trans order_refl)

declare process_keys.simps(2) [simp del]

text \<open>The calls of \<open>process_keys\<close>, what it leaves, and that it reaches every due item.\<close>

lemma process_keys_calls:
  assumes "quiet f" and "wf_queue q" and "process_keys f now ks q = (calls, q')"
  shows "(\<forall>(x, e) \<in> set calls. e = call_err (f x) \<and> (\<exists>val. (getKey q x, val) \<in> set (wq_m q) \<and> item_v val = x))
    \<and> subseq (map (getKey q \<circ> fst) calls) ks"
  using assms(2,3)
proof (induction ks arbitrary: now q calls)
  case (Cons k ks)
  show ?case
  proof (cases "\<exists>val. map_of (wq_m q) k = Some val \<and> item_t val < now")
    case False
    then have "process_keys f now ks q = (calls, q')"
      using Cons.prems(2) process_keys_skip by metis
    with Cons.IH [OF Cons.prems(1)] show ?thesis by auto
  next
    case True
    then obtain val where v: "map_of (wq_m q) k = Some val" "item_t val < now" by auto
    obtain calls' where c: "calls = (item_v val, call_err (f (item_v val))) # calls'"
      and p: "process_keys f (now + took (f (item_v val))) ks (after_call (f (item_v val)) (item_v val) q) = (calls', q')"
      using Cons.prems(2) process_keys_call [OF assms(1) v, of ks] by (auto simp: apfst_def map_prod_def split: prod.splits)
    from Cons.IH [OF after_call_wf [OF Cons.prems(1)] p] map_of_SomeD [OF v(1)]
      wf_map_of_key [OF Cons.prems(1) v(1)]
    show ?thesis by (fastforce simp: c wq_m_after_call)
  qed
qed simp

lemma process_keys_left:
  assumes "quiet f" and "wf_queue q" and "process_keys f now ks q = (calls, q')"
  shows "wq_m q' = filter (\<lambda>(k, val). (item_v val, None) \<notin> set calls) (wq_m q)"
  using assms(2,3)
proof (induction ks arbitrary: now q calls)
  case Nil
  then show ?case by (auto simp: filter_id_conv)
next
  case (Cons k ks)
  show ?case
  proof (cases "\<exists>val. map_of (wq_m q) k = Some val \<and> item_t val < now")
    case False
    then have "process_keys f now ks q = (calls, q')"
      using Cons.prems(2) process_keys_skip by metis
    with Cons.IH [OF Cons.prems(1)] show ?thesis by auto
  next
    case True
    then obtain val where v: "map_of (wq_m q) k = Some val" "item_t val < now" by auto
    obtain calls' where c: "calls = (item_v val, call_err (f (item_v val))) # calls'"
      and p: "process_keys f (now + took (f (item_v val))) ks (after_call (f (item_v val)) (item_v val) q) = (calls', q')"
      using Cons.prems(2) process_keys_call [OF assms(1) v, of ks] by (auto simp: apfst_def map_prod_def split: prod.splits)
    have "k' \<noteq> getKey q (item_v val) \<longleftrightarrow> item_v val' \<noteq> item_v val" if "(k', val') \<in> set (wq_m q)" for k' val'
      using wf_entry_eq [OF Cons.prems(1) that map_of_SomeD [OF v(1)]] wf_map_of_key [OF Cons.prems(1) v(1)] by auto
    with Cons.IH [OF after_call_wf [OF Cons.prems(1)] p] show ?thesis
      by (auto simp: c wq_m_after_call intro!: filter_cong)
  qed
qed

lemma process_keys_due:
  assumes "quiet f" and "wf_queue q" and "process_keys f now ks q = (calls, q')" and "distinct ks"
    and "(k, val) \<in> set (wq_m q)" and "k \<in> set ks" and "item_t val < now"
  shows "item_v val \<in> fst ` set calls"
  using assms(2-)
proof (induction ks arbitrary: now q calls)
  case (Cons k' ks)
  have mo: "map_of (wq_m q) k = Some val" using Cons.prems(1,4) by (simp add: wf_queue_def)
  show ?case
  proof (cases "\<exists>val. map_of (wq_m q) k' = Some val \<and> item_t val < now")
    case False
    then have "process_keys f now ks q = (calls, q')"
      using Cons.prems(2) process_keys_skip by metis
    with Cons.IH [OF Cons.prems(1)] Cons.prems mo False show ?thesis by auto
  next
    case True
    then obtain val' where v: "map_of (wq_m q) k' = Some val'" "item_t val' < now" by auto
    obtain calls' where c: "calls = (item_v val', call_err (f (item_v val'))) # calls'"
      and p: "process_keys f (now + took (f (item_v val'))) ks (after_call (f (item_v val')) (item_v val') q) = (calls', q')"
      using Cons.prems(2) process_keys_call [OF assms(1) v, of ks] by (auto simp: apfst_def map_prod_def split: prod.splits)
    show ?thesis
    proof (cases "k = k'")
      case True
      with v mo c show ?thesis by simp
    next
      case False
      then have "item_v val \<in> fst ` set calls'"
        using Cons.IH [OF after_call_wf [OF Cons.prems(1)] p] Cons.prems wf_map_of_key [OF Cons.prems(1) v(1)]
          quiet_took [OF assms(1)] by (simp add: wq_m_after_call)
      with c show ?thesis by simp
    qed
  qed
qed simp

text \<open>Calls during which only the item's own key is queued again.\<close>

definition requeues_only :: "'a WorkerQueue \<Rightarrow> ('a \<Rightarrow> 'a call) \<Rightarrow> string \<Rightarrow> bool" where
  "requeues_only q f k \<longleftrightarrow>
     (\<forall>x. 0 \<le> took (f x) \<and> (getKey q x \<noteq> k \<longrightarrow>
        (\<forall>(t, y) \<in> set (queued_meanwhile (f x)). getKey q (transform q y) \<noteq> k)))"

lemma map_of_queue_delete:
  "map_of (wq_m (queue_delete q x)) k = (if getKey q x = k then None else map_of (wq_m q) k)"
  by (simp add: queue_delete_def delete_conv')

lemma map_of_Queue_other:
  "getKey q (transform q x) \<noteq> k \<Longrightarrow> map_of (wq_m (Queue t q x)) k = map_of (wq_m q) k"
  by (simp add: Queue_def Let_def update_conv')

lemma map_of_queue_all_other:
  "\<forall>(t, y) \<in> set ys. getKey q (transform q y) \<noteq> k \<Longrightarrow> map_of (wq_m (queue_all ys q)) k = map_of (wq_m q) k"
  by (induction ys arbitrary: q) (auto simp: queue_all_def map_of_Queue_other)

text \<open>The queue after one call, whatever was queued while it ran.\<close>

definition called :: "'a call \<Rightarrow> 'a \<Rightarrow> 'a WorkerQueue \<Rightarrow> 'a WorkerQueue" where
  "called c x q = after_call c x (queue_all (queued_meanwhile c) q)"

lemma called_conf [simp]: "getKey (called c x q) = getKey q" "transform (called c x q) = transform q"
  by (simp_all add: called_def after_call_def)

lemma wf_called [simp]: "wf_queue q \<Longrightarrow> wf_queue (called c x q)"
  by (simp add: called_def)

lemma requeues_only_called [simp]: "requeues_only (called c x q) f k = requeues_only q f k"
  by (simp add: requeues_only_def)

lemma process_keys_called:
  "map_of (wq_m q) k = Some val \<Longrightarrow> item_t val < now \<Longrightarrow>
     process_keys f now (k # ks) q =
       apfst (Cons (item_v val, call_err (f (item_v val))))
         (process_keys f (now + took (f (item_v val))) ks (called (f (item_v val)) (item_v val) q))"
  by (simp add: called_def after_call_def Let_def split_beta apfst_def map_prod_def process_keys.simps)

lemma map_of_called_other:
  "requeues_only q f k \<Longrightarrow> getKey q x \<noteq> k \<Longrightarrow> map_of (wq_m (called (f x) x q)) k = map_of (wq_m q) k"
  by (simp add: called_def after_call_def map_of_queue_delete map_of_queue_all_other requeues_only_def)

lemma process_keys_absent:
  assumes "requeues_only q f k" and "wf_queue q" and "map_of (wq_m q) k = None"
    and "process_keys f now ks q = (calls, q')"
  shows "map_of (wq_m q') k = None \<and> (\<forall>(x, e) \<in> set calls. getKey q x \<noteq> k)"
  using assms
proof (induction ks arbitrary: now q calls)
  case (Cons k' ks)
  show ?case
  proof (cases "\<exists>val. map_of (wq_m q) k' = Some val \<and> item_t val < now")
    case False
    then have "process_keys f now ks q = (calls, q')"
      using Cons.prems(4) process_keys_skip by metis
    with Cons.IH [OF Cons.prems(1-3)] show ?thesis by auto
  next
    case True
    then obtain val where v: "map_of (wq_m q) k' = Some val" "item_t val < now" by auto
    have key: "getKey q (item_v val) = k'" "k' \<noteq> k"
      using wf_map_of_key [OF Cons.prems(2) v(1)] v Cons.prems(3) by auto
    obtain calls' where c: "calls = (item_v val, call_err (f (item_v val))) # calls'"
      and p: "process_keys f (now + took (f (item_v val))) ks (called (f (item_v val)) (item_v val) q) = (calls', q')"
      using Cons.prems(4) process_keys_called [OF v, of f ks] by (auto simp: apfst_def map_prod_def split: prod.splits)
    from Cons.IH [OF _ _ _ p] Cons.prems(1-3) key map_of_called_other [OF Cons.prems(1), of "item_v val"]
    show ?thesis by (simp add: c)
  qed
qed simp

lemma process_keys_requeued:
  assumes "requeues_only q f k" and "wf_queue q" and "map_of (wq_m q) k = Some val"
    and "item_t val < now" and "call_err (f (item_v val)) = None" and "k \<in> set ks" and "distinct ks"
    and "process_keys f now ks q = (calls, q')"
  shows "map_of (wq_m q') k = None \<and> (\<forall>(x, e) \<in> set calls. getKey q x = k \<longrightarrow> x = item_v val)"
  using assms
proof (induction ks arbitrary: now q calls)
  case (Cons k' ks)
  show ?case
  proof (cases "k' = k")
    case True
    with Cons.prems(3) have v: "map_of (wq_m q) k' = Some val" by simp
    obtain calls' where c: "calls = (item_v val, call_err (f (item_v val))) # calls'"
      and p: "process_keys f (now + took (f (item_v val))) ks (called (f (item_v val)) (item_v val) q) = (calls', q')"
      using Cons.prems(8) process_keys_called [OF v Cons.prems(4), of f ks] by (auto simp: apfst_def map_prod_def split: prod.splits)
    have "getKey q (item_v val) = k" using wf_map_of_key [OF Cons.prems(2,3)] by simp
    then have "map_of (wq_m (called (f (item_v val)) (item_v val) q)) k = None"
      using Cons.prems(5) by (simp add: called_def after_call_def map_of_queue_delete)
    from process_keys_absent [OF _ _ this p] Cons.prems(1,2) show ?thesis by (auto simp: c)
  next
    case other: False
    show ?thesis
    proof (cases "\<exists>val. map_of (wq_m q) k' = Some val \<and> item_t val < now")
      case False
      then have "process_keys f now ks q = (calls, q')"
        using Cons.prems(8) process_keys_skip by metis
      with Cons.IH [OF Cons.prems(1-5)] Cons.prems other show ?thesis by auto
    next
      case True
      then obtain val' where v: "map_of (wq_m q) k' = Some val'" "item_t val' < now" by auto
      have key: "getKey q (item_v val') \<noteq> k"
        using wf_map_of_key [OF Cons.prems(2) v(1)] other by auto
      obtain calls' where c: "calls = (item_v val', call_err (f (item_v val'))) # calls'"
        and p: "process_keys f (now + took (f (item_v val'))) ks (called (f (item_v val')) (item_v val') q) = (calls', q')"
        using Cons.prems(8) process_keys_called [OF v, of f ks] by (auto simp: apfst_def map_prod_def split: prod.splits)
      have "item_t val < now + took (f (item_v val'))"
        using Cons.prems(1,4) by (simp add: requeues_only_def) (metis add_increasing2 less_le_trans order_refl)
      from Cons.IH [OF _ _ _ this _ _ _ p] Cons.prems other key map_of_called_other [OF Cons.prems(1), of "item_v val'"]
      show ?thesis by (auto simp: c)
    qed
  qed
qed simp

text \<open>The groups of the due items: one for each group key that occurs, its items in order.\<close>

definition due_items :: "int \<Rightarrow> (string \<times> 'a WorkerQueueItem) list \<Rightarrow> 'a list" where
  "due_items now m = map (item_v \<circ> snd) (filter (\<lambda>(k, val). item_t val < now) m)"

definition add_items :: "'a list option \<Rightarrow> 'a list \<Rightarrow> 'a list option" where
  "add_items old new = (case old of None \<Rightarrow> if new = [] then None else Some new | Some xs \<Rightarrow> Some (xs @ new))"

lemma add_items_simps [simp]:
  "add_items None [] = None" "add_items (Some xs) ys = Some (xs @ ys)"
  "add_items (add_items old xs) ys = add_items old (xs @ ys)"
  by (auto simp: add_items_def split: option.splits)

lemma add_items_id [simp]: "add_items old [] = old"
  by (cases old) auto

lemma map_of_group_add:
  "map_of (group_add gk v groups) g = add_items (map_of groups g) (if gk v = g then [v] else [])"
  by (auto simp: group_add_def add_items_def update_conv' split: option.splits)

lemma distinct_group_add [simp]:
  "distinct (map fst groups) \<Longrightarrow> distinct (map fst (group_add gk v groups))"
  by (auto simp: group_add_def distinct_update split: option.splits)

lemma group_due_spec:
  "map_of (group_due gk now m groups) g = add_items (map_of groups g) (filter (\<lambda>v. gk v = g) (due_items now m))
    \<and> (distinct (map fst groups) \<longrightarrow> distinct (map fst (group_due gk now m groups)))"
  by (induction m arbitrary: groups) (auto simp: due_items_def map_of_group_add split: if_splits)

lemma group_due_mem:
  assumes "(g, items) \<in> set (group_due gk now m [])"
  shows "items = filter (\<lambda>v. gk v = g) (due_items now m) \<and> items \<noteq> []"
proof -
  have "distinct (map fst (group_due gk now m []))" using group_due_spec [of gk now m "[]"] by simp
  with assms have "map_of (group_due gk now m []) g = Some items" by simp
  with group_due_spec [of gk now m "[]" g] show ?thesis by (auto simp: add_items_def split: if_splits)
qed

lemma group_due_reaches:
  assumes "v \<in> set (due_items now m)"
  shows "\<exists>items. (gk v, items) \<in> set (group_due gk now m [])"
proof -
  have "filter (\<lambda>u. gk u = gk v) (due_items now m) \<noteq> []" using assms by (auto simp: filter_empty_conv)
  with group_due_spec [of gk now m "[]" "gk v"]
  have "map_of (group_due gk now m []) (gk v) = Some (filter (\<lambda>u. gk u = gk v) (due_items now m))"
    by (simp add: add_items_def)
  then show ?thesis by (auto dest: map_of_SomeD)
qed

lemma process_groups_spec:
  assumes "\<forall>g items. queued_meanwhile (f g items) = []" and "process_groups f gs q = (calls, q')"
  shows "map fst calls = gs \<and> (\<forall>((g, items), e) \<in> set calls. e = call_err (f g items))
    \<and> wq_m q' = filter (\<lambda>(k, val). \<forall>(x, e) \<in> set calls. e = None \<longrightarrow> k \<notin> getKey q ` set (snd x)) (wq_m q)"
  using assms(2)
proof (induction gs arbitrary: q calls)
  case Nil
  then show ?case by (auto simp: filter_id_conv)
next
  case (Cons x gs)
  obtain g items where x: "x = (g, items)" by (cases x)
  define q2 where "q2 = (if call_err (f g items) = None
    then delete_all items (queue_all (queued_meanwhile (f g items)) q) else queue_all (queued_meanwhile (f g items)) q)"
  obtain calls' r where p': "process_groups f gs q2 = (calls', r)" by force
  with Cons.prems have c: "calls = ((g, items), call_err (f g items)) # calls'" and "r = q'"
    by (simp_all add: x Let_def flip: q2_def)
  with p' have p: "process_groups f gs q2 = (calls', q')" by simp
  from Cons.IH [OF p] show ?case
    using assms(1) by (auto simp: c x q2_def wq_m_delete_all intro!: filter_cong)
qed

section \<open>Properties\<close>

text \<open>
  C28: \<open>Process\<close> passes every item that is due to the callback, each at most once and in the order of the
  queue, and afterwards the queue holds exactly the items whose call did not succeed, with their old due
  times: failed and delayed items and those not due stay (nothing being queued meanwhile).
\<close>

theorem Process_keeps_unfinished:
  assumes "reachable (\<lambda>q. wq_m q = []) queue_step q" and "quiet f" and "Process f now q = (calls, q')"
  shows "wq_m q' = filter (\<lambda>(k, val). (item_v val, None) \<notin> set calls) (wq_m q)
    \<and> subseq (map (getKey q \<circ> fst) calls) (map fst (wq_m q))
    \<and> (\<forall>(x, e) \<in> set calls. e = call_err (f x) \<and> (\<exists>val. (getKey q x, val) \<in> set (wq_m q) \<and> item_v val = x))
    \<and> (\<forall>(k, val) \<in> set (wq_m q). item_t val < now \<longrightarrow> item_v val \<in> fst ` set calls)"
proof -
  have wf: "wf_queue q" by (rule queue_life.reachable_inv [OF assms(1)])
  note p = assms(3) [unfolded Process_def]
  have "distinct (map fst (wq_m q))" using wf by (simp add: wf_queue_def)
  note due = process_keys_due [OF assms(2) wf p this]
  have "\<forall>(k, val) \<in> set (wq_m q). item_t val < now \<longrightarrow> item_v val \<in> fst ` set calls"
    using due by (metis (mono_tags, lifting) case_prodI2 fst_conv image_eqI list.set_map)
  with process_keys_calls [OF assms(2) wf p] process_keys_left [OF assms(2) wf p] show ?thesis
    by (intro conjI) simp_all
qed

definition sample_queue :: "StoreCrawlerQueueItem WorkerQueue" where
  "sample_queue =
     Queue 9 (Queue 5 (Queue 0 (StoreCrawlerQueue True) \<lparr>crawler_StoreCode = ''rd'', crawler_StoreToken = ''a''\<rparr>)
       \<lparr>crawler_StoreCode = ''ad'', crawler_StoreToken = ''b''\<rparr>) \<lparr>crawler_StoreCode = ''rd'', crawler_StoreToken = ''c''\<rparr>"

definition sample_crawl :: "StoreCrawlerQueueItem \<Rightarrow> StoreCrawlerQueueItem call" where
  "sample_crawl x =
     \<lparr>queued_meanwhile = [], took = 1, call_err = (if crawler_StoreCode x = ''ad'' then Some WorkerQueueItemDelayed else None)\<rparr>"

lemma reachable_Queue:
  "reachable (\<lambda>q. wq_m q = []) queue_step q \<Longrightarrow> reachable (\<lambda>q. wq_m q = []) queue_step (Queue now q x)"
  by (erule reach_step) (rule step_Queue)

lemma sample_queue_reachable: "reachable (\<lambda>q. wq_m q = []) queue_step sample_queue"
  unfolding sample_queue_def
  by (rule reachable_Queue | rule reach_init)+ (simp add: StoreCrawlerQueue_def)

theorem Process_keeps_unfinished_witness:
  "map (item_v \<circ> snd) (wq_m (snd (Process sample_crawl (900 * 10 ^ 9 + 7) sample_queue)))
     = [\<lparr>crawler_StoreCode = ''ad'', crawler_StoreToken = ''b''\<rparr>, \<lparr>crawler_StoreCode = ''rd'', crawler_StoreToken = ''c''\<rparr>]"
proof -
  obtain calls q' where p: "Process sample_crawl (900 * 10 ^ 9 + 7) sample_queue = (calls, q')" by force
  have quiet: "quiet sample_crawl" by (simp add: quiet_def sample_crawl_def)
  have calls: "calls = fst (Process sample_crawl (900 * 10 ^ 9 + 7) sample_queue)" using p by simp
  have "calls = [(\<lparr>crawler_StoreCode = ''rd'', crawler_StoreToken = ''a''\<rparr>, None),
      (\<lparr>crawler_StoreCode = ''ad'', crawler_StoreToken = ''b''\<rparr>, Some WorkerQueueItemDelayed)]"
    unfolding calls by code_simp
  with Process_keeps_unfinished [OF sample_queue_reachable quiet p]
  have "map (item_v \<circ> snd) (wq_m q')
     = [\<lparr>crawler_StoreCode = ''ad'', crawler_StoreToken = ''b''\<rparr>, \<lparr>crawler_StoreCode = ''rd'', crawler_StoreToken = ''c''\<rparr>]"
    by (simp add: sample_queue_def Queue_def StoreCrawlerQueue_def Let_def)
  with p show ?thesis by simp
qed

text \<open>
  an item that is queued again under a key while the callback works on the older item of that key is
  lost when that call succeeds: the queue deletes the key, not the item, so the new item is
  neither left in the queue nor passed to the callback.
\<close>

theorem Process_loses_requeued:
  assumes "reachable (\<lambda>q. wq_m q = []) queue_step q" and "(k, val) \<in> set (wq_m q)" and "item_t val < now"
    and "call_err (f (item_v val)) = None"
    and "(t, y) \<in> set (queued_meanwhile (f (item_v val)))" and "getKey q (transform q y) = k"
    and "transform q y \<noteq> item_v val" and "requeues_only q f k"
    and "Process f now q = (calls, q')"
  shows "k \<notin> fst ` set (wq_m q') \<and> transform q y \<notin> fst ` set calls"
proof -
  have wf: "wf_queue q" by (rule queue_life.reachable_inv [OF assms(1)])
  then have d: "distinct (map fst (wq_m q))" by (simp add: wf_queue_def)
  with assms(2) have "map_of (wq_m q) k = Some val" and "k \<in> set (map fst (wq_m q))" by force+
  from process_keys_requeued [OF assms(8) wf this(1) assms(3,4) this(2) d assms(9) [unfolded Process_def]]
  show ?thesis using assms(6,7) by (auto simp: map_of_eq_None_iff)
qed

definition sample_magnet :: "string \<Rightarrow> MagnetCachePullerQueueItem" where
  "sample_magnet ip =
     \<lparr>puller_ClientIP = ip, puller_Hash = ''h'', puller_SId = ''s'', puller_StoreCode = ''rd'', puller_StoreToken = ''t''\<rparr>"

definition sample_pull :: "MagnetCachePullerQueueItem \<Rightarrow> MagnetCachePullerQueueItem call" where
  "sample_pull x =
     \<lparr>queued_meanwhile = (if x = sample_magnet ''1'' then [(400 * 10 ^ 9, sample_magnet ''2'')] else []), took = 1, call_err = None\<rparr>"

theorem Process_loses_requeued_witness:
  "''rd:s:h'' \<notin> fst ` set (wq_m (snd (Process sample_pull (400 * 10 ^ 9)
     (Queue 0 (MagnetCachePullerQueue True) (sample_magnet ''1'')))))"
proof -
  let ?q = "Queue 0 (MagnetCachePullerQueue True) (sample_magnet ''1'')"
  have r: "reachable (\<lambda>q. wq_m q = []) queue_step ?q"
    by (rule reachable_Queue, rule reach_init) (simp add: MagnetCachePullerQueue_def)
  let ?val = "\<lparr>item_v = sample_magnet ''1'', item_t = 300 * 10 ^ 9\<rparr>"
  have mem: "(''rd:s:h'', ?val) \<in> set (wq_m ?q)"
    by (simp add: Queue_def Let_def MagnetCachePullerQueue_def sample_magnet_def)
  have only: "requeues_only ?q sample_pull ''rd:s:h''"
    by (auto simp: requeues_only_def sample_pull_def MagnetCachePullerQueue_def sample_magnet_def)
  have due: "item_t ?val < 400 * 10 ^ 9" and ok: "call_err (sample_pull (item_v ?val)) = None"
    and again: "(400 * 10 ^ 9, sample_magnet ''2'') \<in> set (queued_meanwhile (sample_pull (item_v ?val)))"
    and key: "getKey ?q (transform ?q (sample_magnet ''2'')) = ''rd:s:h''"
    and new: "transform ?q (sample_magnet ''2'') \<noteq> item_v ?val"
    by (simp_all add: sample_pull_def MagnetCachePullerQueue_def sample_magnet_def)
  obtain calls q' where p: "Process sample_pull (400 * 10 ^ 9) ?q = (calls, q')" by force
  from Process_loses_requeued [OF r mem due ok again key new only p] p show ?thesis by simp
qed

text \<open>
  \<open>ProcessGroup\<close> calls the callback once for each group of the due items, with all due items of
  that group in the order of the queue, in whatever order the map of groups is run over, and afterwards
  the queue has lost exactly the due items of the groups whose call succeeded.
\<close>

theorem ProcessGroup_partitions:
  assumes "reachable (\<lambda>q. wq_m q = []) queue_step q" and "getGroupKey q = Some gk"
    and "\<forall>g items. queued_meanwhile (f g items) = []" and "\<forall>gs. mset (order gs) = mset gs"
    and "ProcessGroup order f now q = Some (calls, q')"
  shows "distinct (map (fst \<circ> fst) calls)
    \<and> (\<forall>((g, items), e) \<in> set calls. items \<noteq> [] \<and> e = call_err (f g items)
        \<and> items = [item_v val. (k, val) \<leftarrow> wq_m q, item_t val < now \<and> gk (item_v val) = g])
    \<and> (\<forall>(k, val) \<in> set (wq_m q). item_t val < now \<longrightarrow> gk (item_v val) \<in> set (map (fst \<circ> fst) calls))
    \<and> wq_m q' = filter (\<lambda>(k, val). \<not> (item_t val < now \<and> (\<exists>(x, e) \<in> set calls. fst x = gk (item_v val) \<and> e = None))) (wq_m q)"
proof -
  let ?G = "group_due gk now (wq_m q) []"
  have wf: "wf_queue q" by (rule queue_life.reachable_inv [OF assms(1)])
  have p: "process_groups f (order ?G) q = (calls, q')"
    using assms(2,5) by (simp add: ProcessGroup_def)
  note spec = process_groups_spec [OF assms(3) p]
  have calls: "map fst calls = order ?G" and err: "\<forall>((g, items), e) \<in> set calls. e = call_err (f g items)"
    using spec by auto
  have mem: "fst ` set calls = set ?G" using calls assms(4) by (metis list.set_map mset_eq_setD)
  have "mset (map fst (map fst calls)) = mset (map fst ?G)" using calls assms(4) by (metis mset_map)
  then have dist: "distinct (map (fst \<circ> fst) calls)"
    using group_due_spec [of gk now "wq_m q" "[]"] by (metis distinct.simps(1) list.simps(8) map_map mset_eq_imp_distinct_iff)
  have list: "filter (\<lambda>v. gk v = g) (due_items now m)
      = [item_v val. (k, val) \<leftarrow> m, item_t val < now \<and> gk (item_v val) = g]" for g m
    by (induction m) (auto simp: due_items_def)
  have 1: "items \<noteq> [] \<and> items = [item_v val. (k, val) \<leftarrow> wq_m q, item_t val < now \<and> gk (item_v val) = g]"
    if "((g, items), e) \<in> set calls" for g items e
  proof -
    have "(g, items) \<in> set ?G" using that mem by (metis fst_conv image_eqI)
    from group_due_mem [OF this] show ?thesis unfolding list by blast
  qed
  have 2: "\<exists>items e. ((gk (item_v val), items), e) \<in> set calls" if "(k, val) \<in> set (wq_m q)" "item_t val < now" for k val
  proof -
    have "item_v val \<in> set (due_items now (wq_m q))" using that by (force simp: due_items_def)
    from group_due_reaches [OF this, of gk] mem show ?thesis by force
  qed
  have 3: "(\<exists>(x, e) \<in> set calls. e = None \<and> k \<in> getKey q ` set (snd x))
      \<longleftrightarrow> item_t val < now \<and> (\<exists>(x, e) \<in> set calls. fst x = gk (item_v val) \<and> e = None)"
    if kv: "(k, val) \<in> set (wq_m q)" for k val
  proof
    assume "\<exists>(x, e) \<in> set calls. e = None \<and> k \<in> getKey q ` set (snd x)"
    then obtain g items v where c: "((g, items), None) \<in> set calls" "v \<in> set items" "k = getKey q v" by auto
    from 1 [OF c(1)] c(2) obtain k' val' where v': "(k', val') \<in> set (wq_m q)" "item_t val' < now" "gk (item_v val') = g" "v = item_v val'"
      by (auto split: if_splits)
    with wf c(3) have "k' = k" by (auto simp: wf_queue_def)
    with wf_entry_eq [OF wf kv v'(1)] have "val' = val" by simp
    with v' c(1) show "item_t val < now \<and> (\<exists>(x, e) \<in> set calls. fst x = gk (item_v val) \<and> e = None)" by force
  next
    assume "item_t val < now \<and> (\<exists>(x, e) \<in> set calls. fst x = gk (item_v val) \<and> e = None)"
    then obtain items where c: "((gk (item_v val), items), None) \<in> set calls" and "item_t val < now" by auto
    with 1 [OF c] kv have "item_v val \<in> set items" by (auto intro!: bexI [of _ "(k, val)"])
    moreover have "k = getKey q (item_v val)" using wf kv by (auto simp: wf_queue_def)
    ultimately show "\<exists>(x, e) \<in> set calls. e = None \<and> k \<in> getKey q ` set (snd x)"
      using c by (intro bexI [of _ "((gk (item_v val), items), None)"]) auto
  qed
  have 4: "wq_m q' = filter (\<lambda>(k, val). \<not> (item_t val < now \<and> (\<exists>(x, e) \<in> set calls. fst x = gk (item_v val) \<and> e = None))) (wq_m q)"
    using spec 3 by (fastforce intro!: filter_cong)
  have 5: "\<forall>((g, items), e) \<in> set calls. items \<noteq> [] \<and> e = call_err (f g items)
        \<and> items = [item_v val. (k, val) \<leftarrow> wq_m q, item_t val < now \<and> gk (item_v val) = g]"
    using 1 err by blast
  have "\<forall>(k, val) \<in> set (wq_m q). item_t val < now \<longrightarrow> gk (item_v val) \<in> set (map (fst \<circ> fst) calls)"
    using 2 by force
  with dist 4 5 show ?thesis by (intro conjI)
qed

theorem ProcessGroup_partitions_witness:
  "map (fst \<circ> fst) (fst (the (ProcessGroup rev (\<lambda>g items. \<lparr>queued_meanwhile = [], took = 1, call_err = None\<rparr>) (400 * 10 ^ 9)
     (Queue 0 (MagnetCachePullerQueue True) (sample_magnet ''1''))))) = [''rd:s'']"
proof -
  let ?q = "Queue 0 (MagnetCachePullerQueue True) (sample_magnet ''1'')"
  let ?f = "\<lambda>(g :: string) (items :: MagnetCachePullerQueueItem list).
    \<lparr>queued_meanwhile = [], took = 1, call_err = None\<rparr> :: MagnetCachePullerQueueItem call"
  have r: "reachable (\<lambda>q. wq_m q = []) queue_step ?q"
    by (rule reachable_Queue, rule reach_init) (simp add: MagnetCachePullerQueue_def)
  have gk: "getGroupKey ?q = Some (\<lambda>x. puller_StoreCode x @ '':'' @ puller_SId x)"
    by (simp add: MagnetCachePullerQueue_def)
  then have "\<exists>r. ProcessGroup rev ?f (400 * 10 ^ 9) ?q = Some r"
    by (simp only: ProcessGroup_def option.simps) (rule exI, rule refl)
  then obtain r where "ProcessGroup rev ?f (400 * 10 ^ 9) ?q = Some r" ..
  then obtain calls q' where p: "ProcessGroup rev ?f (400 * 10 ^ 9) ?q = Some (calls, q')"
    using surjective_pairing [of r] that [of "fst r" "snd r"] by (simp only:)
  have order: "\<forall>gs :: (string \<times> MagnetCachePullerQueueItem list) list. mset (rev gs) = mset gs" by simp
  have "\<forall>g items. queued_meanwhile (?f g items) = []" by simp
  note main = ProcessGroup_partitions [OF r gk this order p]
  note d = main [THEN conjunct1] and items = main [THEN conjunct2, THEN conjunct1]
    and reach = main [THEN conjunct2, THEN conjunct2, THEN conjunct1]
  have "''rd:s'' \<in> set (map (fst \<circ> fst) calls)"
    using reach by (simp add: Queue_def Let_def MagnetCachePullerQueue_def sample_magnet_def)
  moreover have "g = ''rd:s''" if "g \<in> set (map (fst \<circ> fst) calls)" for g
    using items that by (fastforce simp: Queue_def Let_def MagnetCachePullerQueue_def sample_magnet_def split: if_splits)
  ultimately have "set (map (fst \<circ> fst) calls) = {''rd:s''}" by blast
  with d have "map (fst \<circ> fst) calls = [''rd:s'']" by (rule distinct_set_singleton)
  with p show ?thesis by simp
qed

end
