(* ===== verification/Worker_Schedule.thy ===== *)
theory Worker_Schedule
  imports Worker_Queue
begin

text \<open>
  The table of the background workers that \<open>InitWorkers\<close> of \<open>internal/worker/worker.go\<close> sets up: for
  each its name, interval, start-up delay, when it is disabled, when it skips a run, for which
  running workers it waits, and the flag of \<open>running_worker\<close> that it sets and clears.

  One definition per worker, in the order of the code; \<open>on = False\<close> marks those that stand inside
  \<open>if false\<close>. Intervals are seconds. \<open>settings\<close> is what the code reads of the configuration and
  \<open>pending\<close> what the skip conditions read of the queues and tables.
\<close>

section \<open>Flags and configuration\<close>

text \<open>The fields of \<open>running_worker\<close>; its value is a function from them.\<close>

datatype running_worker =
  Sync_anidb_titles
  | Sync_animetosho
  | Sync_bitmagnet
  | Sync_dmm_hashlist
  | Sync_imdb
  | Map_anidb_torrent
  | Map_imdb_torrent
  | Sync_animeapi
  | Sync_anidb_tvdb_episode_map
  | Sync_manami_anime_database

type_synonym running = "running_worker \<Rightarrow> bool"

fun flag_name :: "running_worker \<Rightarrow> string" where
  "flag_name Sync_anidb_titles = ''sync_anidb_titles''"
| "flag_name Sync_animetosho = ''sync_animetosho''"
| "flag_name Sync_bitmagnet = ''sync_bitmagnet''"
| "flag_name Sync_dmm_hashlist = ''sync_dmm_hashlist''"
| "flag_name Sync_imdb = ''sync_imdb''"
| "flag_name Map_anidb_torrent = ''map_anidb_torrent''"
| "flag_name Map_imdb_torrent = ''map_imdb_torrent''"
| "flag_name Sync_animeapi = ''sync_animeapi''"
| "flag_name Sync_anidb_tvdb_episode_map = ''sync_anidb_tvdb_episode_map''"
| "flag_name Sync_manami_anime_database = ''sync_manami_anime_database''"

record settings =
  has_torrent_info :: bool
  pusher_disabled :: bool
  has_imdb_title :: bool
  has_dmm_hashlist :: bool
  peer_lazy :: bool
  anime :: bool
  has_stremio_list :: bool
  letterboxd_enabled :: bool
  letterboxd_piggybacked :: bool
  bitmagnet_enabled :: bool
  has_vault :: bool
  trakt_enabled :: bool

record pending =
  store_crawler_empty :: bool
  magnet_puller_empty :: bool
  anime_mapper_empty :: bool
  letterboxd_empty :: bool
  reloader_empty :: bool
  torznab_syncer_empty :: bool
  torznab_indexer_exists :: bool
  has_sync_pending :: bool

record WorkerConfig =
  on :: bool
  wk_Disabled :: bool
  wk_Name :: string
  wk_Interval :: int
  wk_RunAtStartupAfter :: int
  wk_RunExclusive :: bool
  ShouldSkip :: "pending \<Rightarrow> bool"
  ShouldWait :: "running \<Rightarrow> bool \<times> string"
  OnStart :: "running \<Rightarrow> running"
  OnEnd :: "running \<Rightarrow> running"

text \<open>The chain of checks of a \<open>ShouldWait\<close>: the first flag that is set, with the reason.\<close>

fun wait_for :: "running_worker list \<Rightarrow> running \<Rightarrow> bool \<times> string" where
  "wait_for [] fl = (False, [])"
| "wait_for (f # fs) fl = (if fl f then (True, flag_name f @ '' is running'') else wait_for fs fl)"

definition raise_flag :: "running_worker \<Rightarrow> running \<Rightarrow> running" where
  "raise_flag f fl = fl(f := True)"

definition lower_flag :: "running_worker \<Rightarrow> running \<Rightarrow> running" where
  "lower_flag f fl = fl(f := False)"

section \<open>The workers\<close>

definition conf_ParseTorrent :: "settings \<Rightarrow> WorkerConfig" where
  "conf_ParseTorrent c =
     \<lparr>on = False, wk_Disabled = (\<not> has_torrent_info c),
      wk_Name = ''parse-torrent'', wk_Interval = 5 * 60, wk_RunAtStartupAfter = 0, wk_RunExclusive = True,
      ShouldSkip = (\<lambda>_. False),
      ShouldWait = wait_for [Sync_animetosho, Sync_bitmagnet, Sync_dmm_hashlist, Sync_imdb, Map_anidb_torrent, Map_imdb_torrent],
      OnStart = id, OnEnd = id\<rparr>"

definition conf_PushTorrents :: "settings \<Rightarrow> WorkerConfig" where
  "conf_PushTorrents c =
     \<lparr>on = False, wk_Disabled = (pusher_disabled c),
      wk_Name = ''push-torrent'', wk_Interval = 10 * 60, wk_RunAtStartupAfter = 0, wk_RunExclusive = False,
      ShouldSkip = (\<lambda>_. False),
      ShouldWait = wait_for [],
      OnStart = id, OnEnd = id\<rparr>"

definition conf_CrawlStore :: "settings \<Rightarrow> WorkerConfig" where
  "conf_CrawlStore c =
     \<lparr>on = True, wk_Disabled = (Disabled (StoreCrawlerQueue (has_torrent_info c))),
      wk_Name = ''crawl-store'', wk_Interval = 30 * 60, wk_RunAtStartupAfter = 0, wk_RunExclusive = False,
      ShouldSkip = store_crawler_empty,
      ShouldWait = wait_for [Sync_dmm_hashlist, Sync_imdb, Map_imdb_torrent],
      OnStart = id, OnEnd = id\<rparr>"

definition conf_SyncIMDB :: "settings \<Rightarrow> WorkerConfig" where
  "conf_SyncIMDB c =
     \<lparr>on = True, wk_Disabled = (\<not> has_imdb_title c),
      wk_Name = ''sync-imdb'', wk_Interval = 24 * 3600, wk_RunAtStartupAfter = 30 * 1, wk_RunExclusive = True,
      ShouldSkip = (\<lambda>_. False),
      ShouldWait = wait_for [],
      OnStart = raise_flag Sync_imdb, OnEnd = lower_flag Sync_imdb\<rparr>"

definition conf_SyncDMMHashlist :: "settings \<Rightarrow> WorkerConfig" where
  "conf_SyncDMMHashlist c =
     \<lparr>on = False, wk_Disabled = (\<not> has_dmm_hashlist c),
      wk_Name = ''sync-dmm-hashlist'', wk_Interval = 6 * 3600, wk_RunAtStartupAfter = 30 * 1, wk_RunExclusive = True,
      ShouldSkip = (\<lambda>_. False),
      ShouldWait = wait_for [Sync_imdb],
      OnStart = raise_flag Sync_dmm_hashlist, OnEnd = lower_flag Sync_dmm_hashlist\<rparr>"

definition conf_MapIMDBTorrent :: "settings \<Rightarrow> WorkerConfig" where
  "conf_MapIMDBTorrent c =
     \<lparr>on = False, wk_Disabled = (\<not> has_imdb_title c),
      wk_Name = ''map-imdb-torrent'', wk_Interval = 30 * 60, wk_RunAtStartupAfter = 30 * 1, wk_RunExclusive = True,
      ShouldSkip = (\<lambda>_. False),
      ShouldWait = wait_for [Sync_imdb, Sync_animetosho, Sync_bitmagnet, Sync_dmm_hashlist],
      OnStart = raise_flag Map_imdb_torrent, OnEnd = lower_flag Map_imdb_torrent\<rparr>"

definition conf_MagnetCachePuller :: "settings \<Rightarrow> WorkerConfig" where
  "conf_MagnetCachePuller c =
     \<lparr>on = False, wk_Disabled = (Disabled (MagnetCachePullerQueue (peer_lazy c))),
      wk_Name = ''pull-magnet-cache'', wk_Interval = 5 * 60, wk_RunAtStartupAfter = 0, wk_RunExclusive = False,
      ShouldSkip = magnet_puller_empty,
      ShouldWait = wait_for [],
      OnStart = id, OnEnd = id\<rparr>"

definition conf_MapAnimeId :: "settings \<Rightarrow> WorkerConfig" where
  "conf_MapAnimeId c =
     \<lparr>on = True, wk_Disabled = (Disabled (AnimeIdMapperQueue (anime c))),
      wk_Name = ''map-anime-id'', wk_Interval = 10 * 60, wk_RunAtStartupAfter = 0, wk_RunExclusive = True,
      ShouldSkip = anime_mapper_empty,
      ShouldWait = wait_for [],
      OnStart = id, OnEnd = id\<rparr>"

definition conf_SyncAnimeAPI :: "settings \<Rightarrow> WorkerConfig" where
  "conf_SyncAnimeAPI c =
     \<lparr>on = True, wk_Disabled = (\<not> anime c),
      wk_Name = ''sync-animeapi'', wk_Interval = 1 * 24 * 3600, wk_RunAtStartupAfter = 45 * 1, wk_RunExclusive = True,
      ShouldSkip = (\<lambda>_. False),
      ShouldWait = wait_for [Sync_imdb],
      OnStart = raise_flag Sync_animeapi, OnEnd = lower_flag Sync_animeapi\<rparr>"

definition conf_SyncAniDBTitles :: "settings \<Rightarrow> WorkerConfig" where
  "conf_SyncAniDBTitles c =
     \<lparr>on = True, wk_Disabled = (\<not> anime c),
      wk_Name = ''sync-anidb-titles'', wk_Interval = 1 * 24 * 3600, wk_RunAtStartupAfter = 30 * 1, wk_RunExclusive = True,
      ShouldSkip = (\<lambda>_. False),
      ShouldWait = wait_for [],
      OnStart = raise_flag Sync_anidb_titles, OnEnd = lower_flag Sync_anidb_titles\<rparr>"

definition conf_SyncAniDBTVDBEpisodeMap :: "settings \<Rightarrow> WorkerConfig" where
  "conf_SyncAniDBTVDBEpisodeMap c =
     \<lparr>on = True, wk_Disabled = (\<not> anime c),
      wk_Name = ''sync-anidb-tvdb-episode-map'', wk_Interval = 1 * 24 * 3600, wk_RunAtStartupAfter = 45 * 1, wk_RunExclusive = True,
      ShouldSkip = (\<lambda>_. False),
      ShouldWait = wait_for [Sync_anidb_titles],
      OnStart = raise_flag Sync_anidb_tvdb_episode_map, OnEnd = lower_flag Sync_anidb_tvdb_episode_map\<rparr>"

definition conf_SyncManamiAnimeDatabase :: "settings \<Rightarrow> WorkerConfig" where
  "conf_SyncManamiAnimeDatabase c =
     \<lparr>on = True, wk_Disabled = (\<not> anime c),
      wk_Name = ''manami-anime-database'', wk_Interval = 6 * 24 * 3600, wk_RunAtStartupAfter = 60 * 1, wk_RunExclusive = True,
      ShouldSkip = (\<lambda>_. False),
      ShouldWait = wait_for [Sync_anidb_titles, Sync_animeapi],
      OnStart = raise_flag Sync_manami_anime_database, OnEnd = lower_flag Sync_manami_anime_database\<rparr>"

definition conf_MapAniDBTorrent :: "settings \<Rightarrow> WorkerConfig" where
  "conf_MapAniDBTorrent c =
     \<lparr>on = False, wk_Disabled = (\<not> anime c),
      wk_Name = ''map-anidb-torrent'', wk_Interval = 30 * 60, wk_RunAtStartupAfter = 90 * 1, wk_RunExclusive = True,
      ShouldSkip = (\<lambda>_. False),
      ShouldWait = wait_for [Sync_animetosho, Sync_bitmagnet, Sync_dmm_hashlist, Sync_anidb_titles, Sync_anidb_tvdb_episode_map, Sync_animeapi, Sync_manami_anime_database],
      OnStart = raise_flag Map_anidb_torrent, OnEnd = lower_flag Map_anidb_torrent\<rparr>"

definition conf_SyncLetterboxdList :: "settings \<Rightarrow> WorkerConfig" where
  "conf_SyncLetterboxdList c =
     \<lparr>on = True, wk_Disabled = (Disabled (LetterboxdListSyncerQueue (has_stremio_list c) (letterboxd_enabled c) (letterboxd_piggybacked c))),
      wk_Name = ''sync-letterboxd-list'', wk_Interval = 5 * 60, wk_RunAtStartupAfter = 0, wk_RunExclusive = True,
      ShouldSkip = letterboxd_empty,
      ShouldWait = wait_for [],
      OnStart = id, OnEnd = id\<rparr>"

definition conf_SyncBitmagnet :: "settings \<Rightarrow> WorkerConfig" where
  "conf_SyncBitmagnet c =
     \<lparr>on = False, wk_Disabled = (\<not> bitmagnet_enabled c),
      wk_Name = ''sync-bitmagnet'', wk_Interval = 60 * 60, wk_RunAtStartupAfter = 90 * 1, wk_RunExclusive = True,
      ShouldSkip = (\<lambda>_. False),
      ShouldWait = wait_for [Sync_imdb, Sync_dmm_hashlist],
      OnStart = raise_flag Sync_bitmagnet, OnEnd = lower_flag Sync_bitmagnet\<rparr>"

definition conf_SyncAnimeTosho :: "settings \<Rightarrow> WorkerConfig" where
  "conf_SyncAnimeTosho c =
     \<lparr>on = False, wk_Disabled = (\<not> anime c),
      wk_Name = ''sync-animetosho'', wk_Interval = 24 * 3600, wk_RunAtStartupAfter = 90 * 1, wk_RunExclusive = True,
      ShouldSkip = (\<lambda>_. False),
      ShouldWait = wait_for [Sync_imdb, Sync_bitmagnet, Sync_dmm_hashlist],
      OnStart = raise_flag Sync_animetosho, OnEnd = lower_flag Sync_animetosho\<rparr>"

definition conf_LinkedUserdataAddonReloader :: "settings \<Rightarrow> WorkerConfig" where
  "conf_LinkedUserdataAddonReloader c =
     \<lparr>on = True, wk_Disabled = (Disabled (LinkedUserdataAddonReloaderQueue (has_vault c))),
      wk_Name = ''reload-linked-userdata-addon'', wk_Interval = 5 * 60, wk_RunAtStartupAfter = 0, wk_RunExclusive = False,
      ShouldSkip = reloader_empty,
      ShouldWait = wait_for [],
      OnStart = id, OnEnd = id\<rparr>"

definition conf_SyncStremioTrakt :: "settings \<Rightarrow> WorkerConfig" where
  "conf_SyncStremioTrakt c =
     \<lparr>on = True, wk_Disabled = (\<not> has_vault c \<or> \<not> trakt_enabled c),
      wk_Name = ''sync-stremio-trakt'', wk_Interval = 30 * 60, wk_RunAtStartupAfter = 5 * 60, wk_RunExclusive = True,
      ShouldSkip = (\<lambda>_. False),
      ShouldWait = wait_for [],
      OnStart = id, OnEnd = id\<rparr>"

definition conf_SyncStremioStremio :: "settings \<Rightarrow> WorkerConfig" where
  "conf_SyncStremioStremio c =
     \<lparr>on = True, wk_Disabled = (\<not> has_vault c),
      wk_Name = ''sync-stremio-stremio'', wk_Interval = 30 * 60, wk_RunAtStartupAfter = 5 * 60, wk_RunExclusive = True,
      ShouldSkip = (\<lambda>_. False),
      ShouldWait = wait_for [],
      OnStart = id, OnEnd = id\<rparr>"

definition conf_TorznabIndexerSyncerQueue :: "settings \<Rightarrow> WorkerConfig" where
  "conf_TorznabIndexerSyncerQueue c =
     \<lparr>on = False, wk_Disabled = (Disabled (TorznabIndexerSyncerQueue (has_vault c))),
      wk_Name = ''queue-torznab-indexer-sync'', wk_Interval = 10 * 60, wk_RunAtStartupAfter = 0, wk_RunExclusive = True,
      ShouldSkip = (\<lambda>q. torznab_syncer_empty q \<or> \<not> torznab_indexer_exists q),
      ShouldWait = wait_for [],
      OnStart = id, OnEnd = id\<rparr>"

definition conf_TorznabIndexerSyncer :: "settings \<Rightarrow> WorkerConfig" where
  "conf_TorznabIndexerSyncer c =
     \<lparr>on = False, wk_Disabled = (\<not> has_vault c),
      wk_Name = ''sync-torznab-indexer'', wk_Interval = 30 * 60, wk_RunAtStartupAfter = 0, wk_RunExclusive = True,
      ShouldSkip = (\<lambda>q. \<not> has_sync_pending q),
      ShouldWait = wait_for [],
      OnStart = id, OnEnd = id\<rparr>"

definition configs :: "settings \<Rightarrow> WorkerConfig list" where
  "configs c =
     [conf_ParseTorrent c, conf_PushTorrents c, conf_CrawlStore c,
      conf_SyncIMDB c, conf_SyncDMMHashlist c, conf_MapIMDBTorrent c,
      conf_MagnetCachePuller c, conf_MapAnimeId c, conf_SyncAnimeAPI c,
      conf_SyncAniDBTitles c, conf_SyncAniDBTVDBEpisodeMap c, conf_SyncManamiAnimeDatabase c,
      conf_MapAniDBTorrent c, conf_SyncLetterboxdList c, conf_SyncBitmagnet c,
      conf_SyncAnimeTosho c, conf_LinkedUserdataAddonReloader c, conf_SyncStremioTrakt c,
      conf_SyncStremioStremio c, conf_TorznabIndexerSyncerQueue c, conf_TorznabIndexerSyncer c]"

lemmas conf_defs = conf_ParseTorrent_def conf_PushTorrents_def conf_CrawlStore_def conf_SyncIMDB_def
  conf_SyncDMMHashlist_def conf_MapIMDBTorrent_def conf_MagnetCachePuller_def conf_MapAnimeId_def
  conf_SyncAnimeAPI_def conf_SyncAniDBTitles_def conf_SyncAniDBTVDBEpisodeMap_def conf_SyncManamiAnimeDatabase_def
  conf_MapAniDBTorrent_def conf_SyncLetterboxdList_def conf_SyncBitmagnet_def conf_SyncAnimeTosho_def
  conf_LinkedUserdataAddonReloader_def conf_SyncStremioTrakt_def conf_SyncStremioStremio_def conf_TorznabIndexerSyncerQueue_def
  conf_TorznabIndexerSyncer_def

section \<open>Creating the workers\<close>

record WorkerDetail =
  wd_Id :: string
  wd_Title :: string
  wd_Interval :: int

definition titled :: "string \<Rightarrow> WorkerDetail" where
  "titled t = \<lparr>wd_Id = [], wd_Title = t, wd_Interval = 0\<rparr>"

definition WorkerDetailsById :: "(string \<times> WorkerDetail) list" where
  "WorkerDetailsById =
     [(''parse-torrent'', titled ''Parse Torrent''),
      (''push-torrent'', titled ''Push Torrent''),
      (''crawl-store'', titled ''Crawl Store''),
      (''sync-imdb'', titled ''Sync IMDB''),
      (''sync-dmm-hashlist'', titled ''Sync DMM Hashlist''),
      (''map-imdb-torrent'', titled ''Map IMDB Torrent''),
      (''pull-magnet-cache'', titled ''Pull Magnet Cache''),
      (''map-anime-id'', titled ''Map Anime ID''),
      (''sync-animeapi'', titled ''Sync AnimeAPI''),
      (''sync-anidb-titles'', titled ''Sync AniDB Titles''),
      (''sync-anidb-tvdb-episode-map'', titled ''Sync AniDB-TVDB Episode Map''),
      (''manami-anime-database'', titled ''Sync Manami Anime Database''),
      (''map-anidb-torrent'', titled ''Map AniDB Torrent''),
      (''sync-letterboxd-list'', titled ''Sync Letterboxd List''),
      (''sync-bitmagnet'', titled ''Sync Bitmagnet''),
      (''sync-animetosho'', titled ''Sync AnimeTosho''),
      (''reload-linked-userdata-addon'', titled ''Reload Linked Userdata Addon''),
      (''sync-stremio-trakt'', titled ''Sync Stremio-Trakt''),
      (''sync-stremio-stremio'', titled ''Sync Stremio-Stremio''),
      (''queue-torznab-indexer-sync'', titled ''Queue Torznab Indexer Sync''),
      (''sync-torznab-indexer'', titled ''Sync Torznab Indexer'')]"

text \<open>
  What \<open>NewWorker\<close> does before it builds the task: \<open>None\<close> is its panic on a name that is empty or has
  no details; otherwise the details are filled in, and a disabled worker is nil.
\<close>

definition NewWorker :: "WorkerConfig \<Rightarrow> (string \<times> WorkerDetail) list
    \<Rightarrow> (WorkerConfig option \<times> (string \<times> WorkerDetail) list) option" where
  "NewWorker conf details =
     (if wk_Name conf = [] then None
      else case map_of details (wk_Name conf) of
        None \<Rightarrow> None
      | Some d \<Rightarrow>
          let details' = AList.update (wk_Name conf) (d\<lparr>wd_Id := wk_Name conf, wd_Interval := wk_Interval conf\<rparr>) details
          in Some (if wk_Disabled conf then None else Some conf, details'))"

fun init_workers :: "WorkerConfig list \<Rightarrow> (string \<times> WorkerDetail) list \<Rightarrow> WorkerConfig list
    \<Rightarrow> (WorkerConfig list \<times> (string \<times> WorkerDetail) list) option" where
  "init_workers [] details workers = Some (workers, details)"
| "init_workers (conf # confs) details workers =
     (if \<not> on conf then init_workers confs details workers
      else case NewWorker conf details of
        None \<Rightarrow> None
      | Some (None, details') \<Rightarrow> init_workers confs details' workers
      | Some (Some w, details') \<Rightarrow> init_workers confs details' (workers @ [w]))"

definition InitWorkers :: "settings \<Rightarrow> (WorkerConfig list \<times> (string \<times> WorkerDetail) list) option" where
  "InitWorkers c = init_workers (configs c) WorkerDetailsById []"

section \<open>Running the workers\<close>

text \<open>
  The workers as the flags see them: \<open>Idle\<close>, in the wait loop, or between \<open>OnStart\<close> and
  \<open>OnEnd\<close>. A skipped run calls \<open>OnEnd\<close>, too.
\<close>

datatype phase = Idle | Waiting | Running

record sched =
  phase_of :: "string \<Rightarrow> phase"
  flags :: running

datatype sched_event = Begin | Skip | Go | End

inductive sched_step :: "WorkerConfig list \<Rightarrow> sched \<Rightarrow> sched_event \<Rightarrow> sched \<Rightarrow> bool" for ws where
  sched_begin: "w \<in> set ws \<Longrightarrow> phase_of s (wk_Name w) = Idle \<Longrightarrow>
    sched_step ws s Begin (s\<lparr>phase_of := (phase_of s)(wk_Name w := Waiting)\<rparr>)"
| sched_skip: "w \<in> set ws \<Longrightarrow> phase_of s (wk_Name w) = Idle \<Longrightarrow> ShouldSkip w q \<Longrightarrow>
    sched_step ws s Skip (s\<lparr>flags := OnEnd w (flags s)\<rparr>)"
| sched_go: "w \<in> set ws \<Longrightarrow> phase_of s (wk_Name w) = Waiting \<Longrightarrow> \<not> fst (ShouldWait w (flags s)) \<Longrightarrow>
    sched_step ws s Go (s\<lparr>phase_of := (phase_of s)(wk_Name w := Running), flags := OnStart w (flags s)\<rparr>)"
| sched_end: "w \<in> set ws \<Longrightarrow> phase_of s (wk_Name w) = Running \<Longrightarrow>
    sched_step ws s End (s\<lparr>phase_of := (phase_of s)(wk_Name w := Idle), flags := OnEnd w (flags s)\<rparr>)"

inductive_cases sched_stepE: "sched_step ws s e s'"

definition sched_init :: "sched \<Rightarrow> bool" where
  "sched_init s \<longleftrightarrow> phase_of s = (\<lambda>_. Idle) \<and> flags s = (\<lambda>_. False)"

text \<open>The flags a worker raises.\<close>

definition raises :: "WorkerConfig \<Rightarrow> running_worker \<Rightarrow> bool" where
  "raises w f \<longleftrightarrow> OnStart w (\<lambda>_. False) f"

text \<open>
  The contract of a table of workers: names tell them apart, \<open>OnStart\<close> raises and \<open>OnEnd\<close> lowers
  the worker's own flags, no two workers share a flag, and nobody waits when no flag is up.
\<close>

locale worker_table =
  fixes ws :: "WorkerConfig list"
  assumes named: "w \<in> set ws \<Longrightarrow> w' \<in> set ws \<Longrightarrow> wk_Name w = wk_Name w' \<Longrightarrow> w = w'"
    and starts: "w \<in> set ws \<Longrightarrow> OnStart w fl = (\<lambda>f. fl f \<or> raises w f)"
    and ends: "w \<in> set ws \<Longrightarrow> OnEnd w fl = (\<lambda>f. fl f \<and> \<not> raises w f)"
    and owner: "w \<in> set ws \<Longrightarrow> w' \<in> set ws \<Longrightarrow> raises w f \<Longrightarrow> raises w' f \<Longrightarrow> w = w'"
    and nobody: "w \<in> set ws \<Longrightarrow> \<not> fst (ShouldWait w (\<lambda>_. False))"
begin

definition truthful :: "sched \<Rightarrow> bool" where
  "truthful s \<longleftrightarrow> (\<forall>f. flags s f \<longleftrightarrow> (\<exists>w \<in> set ws. raises w f \<and> phase_of s (wk_Name w) = Running))"

lemma truthful_init: "sched_init s \<Longrightarrow> truthful s"
  by (simp add: sched_init_def truthful_def)

lemma truthful_step:
  assumes "truthful s" and "sched_step ws s e s'"
  shows "truthful s'"
  using assms(2)
proof (cases rule: sched_step.cases)
  case (sched_begin w)
  then have same: "phase_of s' (wk_Name v) = Running \<longleftrightarrow> phase_of s (wk_Name v) = Running" "flags s' = flags s" for v
    by simp_all
  from assms(1) show ?thesis unfolding truthful_def same .
next
  case (sched_skip w q)
  have "\<not> (raises w f \<and> v \<in> set ws \<and> raises v f \<and> phase_of s (wk_Name v) = Running)" for v f
    using owner [OF sched_skip(3), of v f] sched_skip(4) by auto
  with assms(1) sched_skip show ?thesis unfolding truthful_def by (auto simp: ends)
next
  case (sched_go w)
  have "phase_of s' (wk_Name v) = Running \<longleftrightarrow> v = w \<or> phase_of s (wk_Name v) = Running" if "v \<in> set ws" for v
    using sched_go that named by auto
  with assms(1) sched_go show ?thesis unfolding truthful_def by (auto simp: starts)
next
  case (sched_end w)
  have "phase_of s' (wk_Name v) = Running \<longleftrightarrow> v \<noteq> w \<and> phase_of s (wk_Name v) = Running" if "v \<in> set ws" for v
    using sched_end that named by auto
  with assms(1) sched_end owner show ?thesis unfolding truthful_def by (auto simp: ends)
qed

lemma reachable_truthful: "reachable sched_init (sched_step ws) s \<Longrightarrow> truthful s"
  by (induction rule: reachable.induct) (auto intro: truthful_init truthful_step)

text \<open>Letting the running workers of a list finish.\<close>

lemma finish_all:
  assumes "set vs \<subseteq> set ws"
  shows "\<exists>s'. reachable (\<lambda>t. t = s) (\<lambda>t e t'. e = End \<and> sched_step ws t e t') s'
    \<and> (\<forall>v \<in> set vs. phase_of s' (wk_Name v) \<noteq> Running)
    \<and> (\<forall>n. phase_of s' n = phase_of s n \<or> phase_of s n = Running \<and> phase_of s' n = Idle)"
  using assms
proof (induction vs)
  case Nil
  have "reachable (\<lambda>t. t = s) (\<lambda>t e t'. e = End \<and> sched_step ws t e t') s" by (rule reach_init) simp
  then show ?case by auto
next
  case (Cons v vs)
  then obtain s' where r: "reachable (\<lambda>t. t = s) (\<lambda>t e t'. e = End \<and> sched_step ws t e t') s'"
    and d: "\<forall>v \<in> set vs. phase_of s' (wk_Name v) \<noteq> Running"
    and k: "\<forall>n. phase_of s' n = phase_of s n \<or> phase_of s n = Running \<and> phase_of s' n = Idle"
    by auto
  show ?case
  proof (cases "phase_of s' (wk_Name v) = Running")
    case False
    with r d k show ?thesis by auto
  next
    case True
    let ?t = "s'\<lparr>phase_of := (phase_of s')(wk_Name v := Idle), flags := OnEnd v (flags s')\<rparr>"
    have "sched_step ws s' End ?t" using Cons.prems True by (intro sched_end) auto
    with r have "reachable (\<lambda>t. t = s) (\<lambda>t e t'. e = End \<and> sched_step ws t e t') ?t"
      by (auto intro: reach_step)
    moreover have "\<forall>v' \<in> set (v # vs). phase_of ?t (wk_Name v') \<noteq> Running" using d by auto
    moreover have "\<forall>n. phase_of ?t n = phase_of s n \<or> phase_of s n = Running \<and> phase_of ?t n = Idle"
      using k True by (metis phase.distinct(3) fun_upd_apply sched.select_convs(1) sched.update_convs(1,2) sched.surjective)
    ultimately show ?thesis by blast
  qed
qed

lemma waits_end:
  assumes "reachable sched_init (sched_step ws) s" and "w \<in> set ws" and "phase_of s (wk_Name w) = Waiting"
  shows "\<exists>s'. reachable (\<lambda>t. t = s) (\<lambda>t e t'. e = End \<and> sched_step ws t e t') s'
    \<and> phase_of s' (wk_Name w) = Waiting \<and> \<not> fst (ShouldWait w (flags s'))"
proof -
  obtain s' where r: "reachable (\<lambda>t. t = s) (\<lambda>t e t'. e = End \<and> sched_step ws t e t') s'"
    and d: "\<forall>v \<in> set ws. phase_of s' (wk_Name v) \<noteq> Running"
    and k: "\<forall>n. phase_of s' n = phase_of s n \<or> phase_of s n = Running \<and> phase_of s' n = Idle"
    using finish_all [OF subset_refl] by blast
  from r have "truthful s'"
    by (induction rule: reachable.induct) (use reachable_truthful [OF assms(1)] truthful_step in auto)
  with d have "flags s' = (\<lambda>_. False)" by (auto simp: truthful_def)
  with nobody [OF assms(2)] r k assms(3) show ?thesis
    by (metis phase.distinct(5))
qed

end

section \<open>The table of this program\<close>

lemma raises_flag [simp]:
  "OnStart w = id \<Longrightarrow> raises w f \<longleftrightarrow> False" "OnStart w = raise_flag g \<Longrightarrow> raises w f \<longleftrightarrow> f = g"
  by (auto simp: raises_def raise_flag_def)

lemma wait_for_none [simp]: "wait_for fs (\<lambda>_. False) = (False, [])"
  by (induction fs) auto

text \<open>Each worker either leaves the flags alone or raises and lowers one flag of its own.\<close>

definition own_flag :: "WorkerConfig \<Rightarrow> running_worker option" where
  "own_flag w =
     (if wk_Name w = ''sync-imdb'' then Some Sync_imdb
      else if wk_Name w = ''sync-dmm-hashlist'' then Some Sync_dmm_hashlist
      else if wk_Name w = ''map-imdb-torrent'' then Some Map_imdb_torrent
      else if wk_Name w = ''sync-animeapi'' then Some Sync_animeapi
      else if wk_Name w = ''sync-anidb-titles'' then Some Sync_anidb_titles
      else if wk_Name w = ''sync-anidb-tvdb-episode-map'' then Some Sync_anidb_tvdb_episode_map
      else if wk_Name w = ''manami-anime-database'' then Some Sync_manami_anime_database
      else if wk_Name w = ''map-anidb-torrent'' then Some Map_anidb_torrent
      else if wk_Name w = ''sync-bitmagnet'' then Some Sync_bitmagnet
      else if wk_Name w = ''sync-animetosho'' then Some Sync_animetosho
      else None)"

lemma configs_flags:
  "list_all (\<lambda>w. (case own_flag w of
      None \<Rightarrow> OnStart w = id \<and> OnEnd w = id
    | Some f \<Rightarrow> OnStart w = raise_flag f \<and> OnEnd w = lower_flag f) \<and> (\<exists>fs. ShouldWait w = wait_for fs)) (configs c)"
  by (auto simp: configs_def conf_defs own_flag_def)

lemma configs_names: "distinct (map wk_Name (configs c))"
  by (simp add: configs_def conf_defs)

lemma config_flag:
  assumes "w \<in> set (configs c)"
  shows "OnStart w fl = (\<lambda>f. fl f \<or> own_flag w = Some f)" and "OnEnd w fl = (\<lambda>f. fl f \<and> own_flag w \<noteq> Some f)"
    and "raises w f \<longleftrightarrow> own_flag w = Some f" and "ShouldWait w (\<lambda>_. False) = (False, [])"
proof -
  have c: "case own_flag w of None \<Rightarrow> OnStart w = id \<and> OnEnd w = id
      | Some f \<Rightarrow> OnStart w = raise_flag f \<and> OnEnd w = lower_flag f" and wt: "\<exists>fs. ShouldWait w = wait_for fs"
    using configs_flags [of c] assms by (simp_all add: list_all_iff)
  from c show "OnStart w fl = (\<lambda>f. fl f \<or> own_flag w = Some f)" "OnEnd w fl = (\<lambda>f. fl f \<and> own_flag w \<noteq> Some f)"
      "raises w f \<longleftrightarrow> own_flag w = Some f"
    by (auto simp: raise_flag_def lower_flag_def raises_def fun_eq_iff split: option.splits)
  show "ShouldWait w (\<lambda>_. False) = (False, [])" using wt by auto
qed

lemma own_flag_inj:
  assumes "own_flag w = Some f" and "own_flag w' = Some f"
  shows "wk_Name w = wk_Name w'"
  using assms by (auto simp: own_flag_def split: if_splits)

lemma config_names: "w \<in> set (configs c) \<Longrightarrow> w' \<in> set (configs c) \<Longrightarrow> wk_Name w = wk_Name w' \<Longrightarrow> w = w'"
  using configs_names [of c] by (simp add: distinct_map inj_on_def)

text \<open>The table of all workers, also of those switched off in the source.\<close>

interpretation all_workers: worker_table "configs c" for c
proof
  show "OnStart w fl = (\<lambda>f. fl f \<or> raises w f)" "OnEnd w fl = (\<lambda>f. fl f \<and> \<not> raises w f)"
      "\<not> fst (ShouldWait w (\<lambda>_. False))" if "w \<in> set (configs c)" for w fl
    using config_flag [OF that] by simp_all
  show "w = w'" if "w \<in> set (configs c)" "w' \<in> set (configs c)" "raises w f" "raises w' f" for w w' f
    using that config_flag(3) [OF that(1)] config_flag(3) [OF that(2)] own_flag_inj config_names by metis
qed (rule config_names)

text \<open>Creating workers from a table whose names all have details.\<close>

lemma init_workers_total:
  assumes "distinct (map wk_Name confs)"
    and "\<forall>w \<in> set (filter on confs). wk_Name w \<noteq> [] \<and> wk_Name w \<in> fst ` set details"
  shows "\<exists>d. init_workers confs details ws = Some (ws @ filter (\<lambda>w. on w \<and> \<not> wk_Disabled w) confs, d)
    \<and> map fst d = map fst details
    \<and> (\<forall>w \<in> set (filter on confs). \<exists>x. map_of d (wk_Name w) = Some x \<and> wd_Id x = wk_Name w \<and> wd_Interval x = wk_Interval w)
    \<and> (\<forall>n. n \<notin> wk_Name ` set (filter on confs) \<longrightarrow> map_of d n = map_of details n)"
  using assms
proof (induction confs arbitrary: details ws)
  case Nil
  then show ?case by simp
next
  case (Cons w confs)
  show ?case
  proof (cases "on w")
    case False
    with Cons show ?thesis by simp
  next
    case True
    then obtain x where x: "map_of details (wk_Name w) = Some x" and ne: "wk_Name w \<noteq> []"
      using Cons.prems(2) by (metis filter.simps(2) list.set_intros(1) map_of_eq_None_iff not_None_eq)
    let ?x = "x\<lparr>wd_Id := wk_Name w, wd_Interval := wk_Interval w\<rparr>"
    let ?d = "AList.update (wk_Name w) ?x details"
    have dom: "map fst ?d = map fst details"
      using map_of_SomeD [OF x] by (force simp: update_keys)
    have new: "wk_Name w \<notin> wk_Name ` set (filter on confs)" using Cons.prems(1) by auto
    have "\<forall>v \<in> set (filter on confs). wk_Name v \<noteq> [] \<and> wk_Name v \<in> fst ` set ?d"
      using Cons.prems(2) dom by (metis filter.simps(2) list.set_intros(2) list.set_map True)
    from Cons.IH [OF _ this, of "if wk_Disabled w then ws else ws @ [w]"] Cons.prems(1)
    obtain d where d: "init_workers confs ?d (if wk_Disabled w then ws else ws @ [w])
          = Some ((if wk_Disabled w then ws else ws @ [w]) @ filter (\<lambda>w. on w \<and> \<not> wk_Disabled w) confs, d)"
      and keys: "map fst d = map fst ?d"
      and rows: "\<forall>w \<in> set (filter on confs). \<exists>x. map_of d (wk_Name w) = Some x \<and> wd_Id x = wk_Name w \<and> wd_Interval x = wk_Interval w"
      and rest: "\<forall>n. n \<notin> wk_Name ` set (filter on confs) \<longrightarrow> map_of d n = map_of ?d n"
      by auto
    have "map_of d (wk_Name w) = Some ?x" using rest new by (simp add: update_conv')
    moreover have "map_of d n = map_of details n" if "n \<notin> wk_Name ` set (filter on (w # confs))" for n
      using rest that True by (simp add: update_conv')
    moreover have "init_workers (w # confs) details ws = Some (ws @ filter (\<lambda>w. on w \<and> \<not> wk_Disabled w) (w # confs), d)"
      using True ne x d by (simp add: NewWorker_def Let_def split: if_splits)
    ultimately show ?thesis using rows keys dom True by auto
  qed
qed

section \<open>Properties\<close>

text \<open>
  \<open>InitWorkers\<close> never panics, whatever the configuration: it creates exactly the workers that are switched on in
  the source and not disabled, in order, and fills in the id and the interval of the details of all that are
  switched on, also of the disabled ones.
\<close>

theorem InitWorkers_total:
  "\<exists>ws d. InitWorkers c = Some (ws, d) \<and> ws = filter (\<lambda>w. on w \<and> \<not> wk_Disabled w) (configs c)
    \<and> map fst d = map fst WorkerDetailsById
    \<and> list_all (\<lambda>w. \<exists>x. map_of d (wk_Name w) = Some x \<and> wd_Id x = wk_Name w \<and> wd_Interval x = wk_Interval w)
        (filter on (configs c))"
proof -
  have "\<forall>w \<in> set (filter on (configs c)). wk_Name w \<noteq> [] \<and> wk_Name w \<in> fst ` set WorkerDetailsById"
    by (simp add: configs_def conf_defs WorkerDetailsById_def)
  from init_workers_total [OF configs_names this, of "[]"] show ?thesis
    by (auto simp: InitWorkers_def list_all_iff)
qed

text \<open>
  C34: no worker waits for ever on the flags: from every reachable state of the workers, whatever runs, waits
  or was skipped, letting the running workers return takes a waiting worker, still waiting, to a state
  in which its \<open>ShouldWait\<close> lets it go. No set of workers can block each other.
\<close>

theorem waiting_worker_gets_going:
  assumes "reachable sched_init (sched_step (configs c)) s" and "w \<in> set (configs c)"
    and "phase_of s (wk_Name w) = Waiting"
  shows "\<exists>s'. reachable (\<lambda>t. t = s) (\<lambda>t e t'. e = End \<and> sched_step (configs c) t e t') s'
    \<and> phase_of s' (wk_Name w) = Waiting \<and> \<not> fst (ShouldWait w (flags s'))"
  using assms by (rule all_workers.waits_end)

definition sample_settings :: settings where
  "sample_settings = \<lparr>has_torrent_info = True, pusher_disabled = True, has_imdb_title = True, has_dmm_hashlist = True,
     peer_lazy = False, anime = True, has_stremio_list = True, letterboxd_enabled = False, letterboxd_piggybacked = False,
     bitmagnet_enabled = False, has_vault = True, trakt_enabled = True\<rparr>"

text \<open>\<open>sync-imdb\<close> runs and \<open>sync-animeapi\<close> waits for it.\<close>

definition sample_sched :: sched where
  "sample_sched = \<lparr>phase_of = (\<lambda>_. Idle)(''sync-imdb'' := Running, ''sync-animeapi'' := Waiting), flags = (\<lambda>_. False)(Sync_imdb := True)\<rparr>"

theorem waiting_worker_gets_going_witness:
  "fst (ShouldWait (conf_SyncAnimeAPI sample_settings) (flags sample_sched))
    \<and> (\<exists>s'. reachable (\<lambda>t. t = sample_sched) (\<lambda>t e t'. e = End \<and> sched_step (configs sample_settings) t e t') s'
        \<and> phase_of s' ''sync-animeapi'' = Waiting \<and> \<not> fst (ShouldWait (conf_SyncAnimeAPI sample_settings) (flags s')))"
proof -
  let ?ws = "configs sample_settings" and ?imdb = "conf_SyncIMDB sample_settings" and ?api = "conf_SyncAnimeAPI sample_settings"
  let ?s0 = "\<lparr>phase_of = (\<lambda>_. Idle), flags = (\<lambda>_. False)\<rparr>"
  have n: "wk_Name ?imdb = ''sync-imdb''" "wk_Name ?api = ''sync-animeapi''" by (simp_all add: conf_defs)
  have m: "?imdb \<in> set ?ws" "?api \<in> set ?ws" by (simp_all add: configs_def)
  have "reachable sched_init (sched_step ?ws) ?s0" by (rule reach_init) (simp add: sched_init_def)
  then have "reachable sched_init (sched_step ?ws) (?s0\<lparr>phase_of := (\<lambda>_. Idle)(''sync-imdb'' := Waiting)\<rparr>)"
    using sched_begin [OF m(1), of ?s0] n by (auto intro: reach_step)
  then have "reachable sched_init (sched_step ?ws)
      \<lparr>phase_of = (\<lambda>_. Idle)(''sync-imdb'' := Running), flags = (\<lambda>_. False)(Sync_imdb := True)\<rparr>"
    using sched_go [OF m(1), of "?s0\<lparr>phase_of := (\<lambda>_. Idle)(''sync-imdb'' := Waiting)\<rparr>"] n
    by (auto intro: reach_step simp: conf_SyncIMDB_def raise_flag_def)
  then have "reachable sched_init (sched_step ?ws) sample_sched"
    using sched_begin [OF m(2), of "\<lparr>phase_of = (\<lambda>_. Idle)(''sync-imdb'' := Running), flags = (\<lambda>_. False)(Sync_imdb := True)\<rparr>"] n
    by (auto intro: reach_step simp: sample_sched_def)
  from waiting_worker_gets_going [OF this m(2)] n show ?thesis
    by (simp add: sample_sched_def conf_SyncAnimeAPI_def)
qed

end
