(* ===== verification/Job_Log.thy ===== *)
theory Job_Log
  imports Prelude
begin

text \<open>
  The log of the jobs of the background workers: the table \<open>job_log\<close> of
  \<open>internal/job_log\<close> and the \<open>JobTracker\<close> of \<open>internal/worker/common.go\<close>.

  The table is the list of its rows, with the SQL statements of the source written out over it:
  the upsert on (name, id), the select by key, the newest row of a name (of several created in the same
  second the first one in the table) and the deletes. Times are Unix seconds; an expiry of 0
  or less is none. Each call takes the answer of the database, \<open>ok = False\<close> for a failed
  statement; \<open>un\<close> is \<open>json.Unmarshal\<close> into the type of the data.
\<close>

section \<open>The table\<close>

record JobLog =
  jl_name :: string
  jl_id :: string
  jl_status :: string
  jl_data :: string
  jl_error :: string
  jl_created :: int
  jl_updated :: int
  jl_expires :: int

record 'a ParsedJobLog =
  pjl_name :: string
  pjl_id :: string
  pjl_status :: string
  pjl_data :: "'a option"
  pjl_error :: string
  pjl_created :: int
  pjl_updated :: int

type_synonym job_table = "JobLog list"

definition is_row :: "string \<Rightarrow> string \<Rightarrow> JobLog \<Rightarrow> bool" where
  "is_row name i r \<longleftrightarrow> jl_name r = name \<and> jl_id r = i"

definition expired :: "int \<Rightarrow> JobLog \<Rightarrow> bool" where
  "expired now r \<longleftrightarrow> \<not> jl_expires r \<le> 0 \<and> jl_expires r < now"

definition DeleteJobLog :: "bool \<Rightarrow> job_table \<Rightarrow> string \<Rightarrow> string \<Rightarrow> bool \<times> job_table" where
  "DeleteJobLog ok tbl name i = (if ok then (True, filter (\<lambda>r. \<not> is_row name i r) tbl) else (False, tbl))"

definition parse_row :: "(string \<Rightarrow> 'a option) \<Rightarrow> JobLog \<Rightarrow> 'a ParsedJobLog option" where
  "parse_row un r =
     (let pjl = \<lparr>pjl_name = jl_name r, pjl_id = jl_id r, pjl_status = jl_status r, pjl_data = None,
                 pjl_error = jl_error r, pjl_created = jl_created r, pjl_updated = jl_updated r\<rparr>
      in if jl_data r \<noteq> [] \<and> jl_data r \<noteq> ''null''
         then map_option (\<lambda>d. pjl\<lparr>pjl_data := Some d\<rparr>) (un (jl_data r))
         else Some pjl)"

definition GetJobLog :: "(string \<Rightarrow> 'a option) \<Rightarrow> int \<Rightarrow> bool \<Rightarrow> bool \<Rightarrow> job_table \<Rightarrow> string \<Rightarrow> string
    \<Rightarrow> (string + 'a ParsedJobLog option) \<times> job_table" where
  "GetJobLog un now ok del_ok tbl name i =
     (if i = [] then (Inl ''job id cannot be empty'', tbl)
      else if \<not> ok then (Inl ''database'', tbl)
      else case List.find (is_row name i) tbl of
        None \<Rightarrow> (Inr None, tbl)
      | Some r \<Rightarrow>
          if expired now r then (Inr None, snd (DeleteJobLog del_ok tbl name i))
          else case parse_row un r of
            None \<Rightarrow> (Inl ''unmarshal'', tbl)
          | Some pjl \<Rightarrow> (Inr (Some pjl), tbl))"

fun newest :: "job_table \<Rightarrow> JobLog option" where
  "newest [] = None"
| "newest (r # rs) =
     (case newest rs of
        None \<Rightarrow> Some r
      | Some r' \<Rightarrow> if jl_created r' \<le> jl_created r then Some r else Some r')"

definition GetLastJobLog :: "(string \<Rightarrow> 'a option) \<Rightarrow> int \<Rightarrow> bool \<Rightarrow> bool \<Rightarrow> job_table \<Rightarrow> string
    \<Rightarrow> (string + 'a ParsedJobLog option) \<times> job_table" where
  "GetLastJobLog un now ok del_ok tbl name =
     (if \<not> ok then (Inl ''database'', tbl)
      else case newest (filter (\<lambda>r. jl_name r = name) tbl) of
        None \<Rightarrow> (Inr None, tbl)
      | Some r \<Rightarrow>
          if expired now r then (Inr None, snd (DeleteJobLog del_ok tbl name (jl_id r)))
          else if jl_id r = [] then (Inr None, snd (DeleteJobLog del_ok tbl name (jl_id r)))
          else case parse_row un r of
            None \<Rightarrow> (Inl ''unmarshal'', tbl)
          | Some pjl \<Rightarrow> (Inr (Some pjl), tbl))"

text \<open>The rows of a name, newest first; expired rows and rows without an id are deleted on the way.\<close>

fun parse_rows :: "(string \<Rightarrow> 'a option) \<Rightarrow> int \<Rightarrow> JobLog list \<Rightarrow> ('a ParsedJobLog list \<times> string list) option" where
  "parse_rows un now [] = Some ([], [])"
| "parse_rows un now (r # rs) =
     (if jl_id r = [] \<or> expired now r
      then map_option (apsnd (Cons (jl_id r))) (parse_rows un now rs)
      else case parse_row un r of
        None \<Rightarrow> None
      | Some pjl \<Rightarrow> map_option (apfst (Cons pjl)) (parse_rows un now rs))"

definition GetAllJobLogs :: "(string \<Rightarrow> 'a option) \<Rightarrow> int \<Rightarrow> bool \<Rightarrow> bool \<Rightarrow> job_table \<Rightarrow> string
    \<Rightarrow> (string + 'a ParsedJobLog list) \<times> job_table" where
  "GetAllJobLogs un now ok del_ok tbl name =
     (if \<not> ok then (Inl ''database'', tbl)
      else case parse_rows un now (rev (sort_key jl_created (filter (\<lambda>r. jl_name r = name) tbl))) of
        None \<Rightarrow> (Inl ''unmarshal'', tbl)
      | Some (results, idsToDelete) \<Rightarrow>
          (Inr results,
           if idsToDelete \<noteq> [] \<and> del_ok
           then filter (\<lambda>r. \<not> (jl_name r = name \<and> jl_id r \<in> set idsToDelete)) tbl else tbl))"

text \<open>
  \<open>data\<close> is the marshalled data, \<open>None\<close> for nil. The columns that the upsert does not name keep
  the default of a new row (the current time) or, for the creation time, the value of the old row.
\<close>

definition SaveJobLog :: "int \<Rightarrow> bool \<Rightarrow> job_table \<Rightarrow> string \<Rightarrow> string \<Rightarrow> string \<Rightarrow> string option \<Rightarrow> string \<Rightarrow> int
    \<Rightarrow> string option \<times> job_table" where
  "SaveJobLog now ok tbl name i status data errorMsg expiresIn =
     (if i = [] then (Some ''job id cannot be empty'', tbl)
      else
        let expiresAt = (if expiresIn \<noteq> 0 then now + expiresIn else 0);
            blob = (case data of None \<Rightarrow> [] | Some d \<Rightarrow> d);
            jsonString = (if blob = [] then ''null'' else blob);
            new = \<lparr>jl_name = name, jl_id = i, jl_status = status, jl_data = jsonString, jl_error = errorMsg,
                   jl_created = now, jl_updated = now, jl_expires = expiresAt\<rparr>
        in if \<not> ok then (Some ''database'', tbl)
           else if list_ex (is_row name i) tbl
           then (None, map (\<lambda>r. if is_row name i r then new\<lparr>jl_created := jl_created r\<rparr> else r) tbl)
           else (None, tbl @ [new]))"

definition CountJobLogs :: "bool \<Rightarrow> job_table \<Rightarrow> string \<Rightarrow> string + int" where
  "CountJobLogs ok tbl name =
     (if ok then Inr (int (length (filter (\<lambda>r. jl_name r = name) tbl))) else Inl ''database'')"

definition GetUniqueJobNames :: "bool \<Rightarrow> job_table \<Rightarrow> string + string list" where
  "GetUniqueJobNames ok tbl = (if ok then Inr (sort (remdups (map jl_name tbl))) else Inl ''database'')"

definition GetWorkerNamesWithFailedJobs :: "bool \<Rightarrow> job_table \<Rightarrow> string + string set" where
  "GetWorkerNamesWithFailedJobs ok tbl =
     (if ok then Inr (set (map jl_name (filter (\<lambda>r. jl_status r = ''failed'') tbl))) else Inl ''database'')"

definition PurgeJobLogs :: "bool \<Rightarrow> job_table \<Rightarrow> string \<Rightarrow> string option \<times> job_table" where
  "PurgeJobLogs ok tbl name =
     (if ok then (None, filter (\<lambda>r. \<not> (jl_name r = name \<and> jl_status r \<noteq> ''started'')) tbl) else (Some ''database'', tbl))"

section \<open>The job tracker\<close>

text \<open>\<open>None\<close> is the panic on an empty id.\<close>

record JobTracker =
  tracker_name :: string
  expiresIn :: int

record 'a Job =
  job_Status :: string
  job_Err :: string
  job_Data :: "'a option"

definition tracker_Get :: "(string \<Rightarrow> 'a option) \<Rightarrow> int \<Rightarrow> bool \<Rightarrow> bool \<Rightarrow> job_table \<Rightarrow> JobTracker \<Rightarrow> string
    \<Rightarrow> ((string + 'a Job) \<times> job_table) option" where
  "tracker_Get un now ok del_ok tbl t i =
     (if i = [] then None
      else Some (case GetJobLog un now ok del_ok tbl (tracker_name t) i of
        (Inl e, tbl') \<Rightarrow> (Inl e, tbl')
      | (Inr None, tbl') \<Rightarrow> (Inr \<lparr>job_Status = [], job_Err = [], job_Data = None\<rparr>, tbl')
      | (Inr (Some pjl), tbl') \<Rightarrow>
          (Inr \<lparr>job_Status = pjl_status pjl, job_Err = pjl_error pjl, job_Data = pjl_data pjl\<rparr>, tbl')))"

definition tracker_GetLast :: "(string \<Rightarrow> 'a option) \<Rightarrow> int \<Rightarrow> bool \<Rightarrow> bool \<Rightarrow> job_table \<Rightarrow> JobTracker
    \<Rightarrow> (string + 'a ParsedJobLog option) \<times> job_table" where
  "tracker_GetLast un now ok del_ok tbl t =
     (case GetLastJobLog un now ok del_ok tbl (tracker_name t) of
        (Inl e, tbl') \<Rightarrow> (Inl e, tbl')
      | (Inr None, tbl') \<Rightarrow> (Inr None, tbl')
      | (Inr (Some pjl), tbl') \<Rightarrow>
          if pjl_id pjl = []
          then (case DeleteJobLog del_ok tbl' (tracker_name t) (pjl_id pjl) of
                  (d, tbl'') \<Rightarrow> (if d then Inr None else Inl ''database'', tbl''))
          else (Inr (Some pjl), tbl'))"

definition tracker_Set :: "int \<Rightarrow> bool \<Rightarrow> job_table \<Rightarrow> JobTracker \<Rightarrow> string \<Rightarrow> string \<Rightarrow> string \<Rightarrow> string option
    \<Rightarrow> (string option \<times> job_table) option" where
  "tracker_Set now ok tbl t i status e data =
     (if i = [] then None else Some (SaveJobLog now ok tbl (tracker_name t) i status data e (expiresIn t)))"

definition tracker_IsRunning :: "(string \<Rightarrow> 'a option) \<Rightarrow> int \<Rightarrow> bool \<Rightarrow> bool \<Rightarrow> job_table \<Rightarrow> JobTracker \<Rightarrow> string
    \<Rightarrow> (string + bool) option" where
  "tracker_IsRunning un now ok del_ok tbl t i =
     map_option (\<lambda>(r, _). case r of Inl e \<Rightarrow> Inl e | Inr j \<Rightarrow> Inr (job_Status j = ''started'')) (tracker_Get un now ok del_ok tbl t i)"

definition NewJobTracker :: "(string \<Rightarrow> 'a option) \<Rightarrow> int \<Rightarrow> bool \<Rightarrow> bool \<Rightarrow> job_table \<Rightarrow> string \<Rightarrow> int
    \<Rightarrow> (JobTracker \<times> job_table) option" where
  "NewJobTracker un now ok del_ok tbl name expiry =
     (case GetAllJobLogs un now ok del_ok tbl name of
        (Inl e, tbl') \<Rightarrow> None
      | (Inr _, tbl') \<Rightarrow> Some (\<lparr>tracker_name = name, expiresIn = expiry\<rparr>, tbl'))"

section \<open>Lemmas\<close>

definition row_key :: "JobLog \<Rightarrow> string \<times> string" where
  "row_key r = (jl_name r, jl_id r)"

text \<open>The primary key of the table.\<close>

definition keyed :: "job_table \<Rightarrow> bool" where
  "keyed tbl \<longleftrightarrow> distinct (map row_key tbl)"

lemma is_row_key: "is_row name i r \<longleftrightarrow> row_key r = (name, i)"
  by (simp add: is_row_def row_key_def)

lemma keyed_filter: "keyed tbl \<Longrightarrow> keyed (filter P tbl)"
  by (auto simp: keyed_def distinct_map intro: inj_on_subset)

text \<open>The row that a save writes.\<close>

definition saved_row :: "int \<Rightarrow> job_table \<Rightarrow> string \<Rightarrow> string \<Rightarrow> string \<Rightarrow> string option \<Rightarrow> string \<Rightarrow> int \<Rightarrow> JobLog" where
  "saved_row now tbl name i status data errorMsg expiry =
     \<lparr>jl_name = name, jl_id = i, jl_status = status,
      jl_data = (case data of None \<Rightarrow> ''null'' | Some d \<Rightarrow> if d = [] then ''null'' else d), jl_error = errorMsg,
      jl_created = (case List.find (is_row name i) tbl of None \<Rightarrow> now | Some r \<Rightarrow> jl_created r), jl_updated = now,
      jl_expires = (if expiry \<noteq> 0 then now + expiry else 0)\<rparr>"

lemma find_filter_hd: "List.find P xs = (case filter P xs of [] \<Rightarrow> None | x # _ \<Rightarrow> Some x)"
  by (induction xs) auto

lemma filter_map_other: "P new \<Longrightarrow> filter (\<lambda>r. \<not> P r) (map (\<lambda>r. if P r then new else r) xs) = filter (\<lambda>r. \<not> P r) xs"
  by (induction xs) auto

text \<open>A save puts the one row of its key in place and keeps the others.\<close>

lemma SaveJobLog_ok:
  assumes "keyed tbl" and "SaveJobLog now ok tbl name i status data e expiry = (None, tbl')"
  shows "keyed tbl' \<and> filter (\<lambda>r. \<not> is_row name i r) tbl' = filter (\<lambda>r. \<not> is_row name i r) tbl
    \<and> filter (is_row name i) tbl' = [saved_row now tbl name i status data e expiry]"
proof -
  let ?new = "saved_row now tbl name i status data e expiry"
  have i: "i \<noteq> []" and ok using assms(2) by (auto simp: SaveJobLog_def Let_def split: if_splits)
  have new: "is_row name i ?new" by (simp add: is_row_def saved_row_def)
  show ?thesis
  proof (cases "List.find (is_row name i) tbl")
    case None
    then have no: "\<forall>r \<in> set tbl. \<not> is_row name i r" by (simp add: find_None_iff)
    then have "\<not> list_ex (is_row name i) tbl" by (auto simp: list_ex_iff)
    then have "tbl' = tbl @ [?new]"
      using assms(2) i \<open>ok\<close> None by (auto simp: SaveJobLog_def Let_def saved_row_def split: option.splits)
    with no new assms(1) show ?thesis by (auto simp: keyed_def is_row_key filter_empty_conv)
  next
    case (Some r)
    then have r: "r \<in> set tbl" "is_row name i r" by (auto simp: find_Some_iff)
    then have ex: "list_ex (is_row name i) tbl" by (auto simp: list_ex_iff)
    have one: "r' = r" if "r' \<in> set tbl" "is_row name i r'" for r'
      using assms(1) r that by (auto simp: keyed_def is_row_key distinct_map inj_on_def)
    have tbl': "tbl' = map (\<lambda>r. if is_row name i r then ?new else r) tbl"
      using assms(2) i \<open>ok\<close> ex Some one
      by (auto simp: SaveJobLog_def Let_def saved_row_def split: option.splits)
    have keys: "map row_key tbl' = map row_key tbl"
      using new by (auto simp: tbl' is_row_key)
    have fil: "filter (is_row name i) tbl = [r]"
    proof -
      have "distinct (filter (is_row name i) tbl)" using assms(1) by (auto simp: keyed_def distinct_map)
      moreover have "set (filter (is_row name i) tbl) = {r}" unfolding set_filter using r one by blast
      ultimately show ?thesis by (rule distinct_set_singleton)
    qed
    have "filter (is_row name i) (map f tbl) = map f (filter (is_row name i) tbl)"
      if "\<And>r. is_row name i (f r) = is_row name i r" for f
      using that by (induction tbl) auto
    with fil new r(2) have "filter (is_row name i) tbl' = [?new]"
      by (simp add: tbl')
    moreover have "filter (\<lambda>r. \<not> is_row name i r) tbl' = filter (\<lambda>r. \<not> is_row name i r) tbl"
      unfolding tbl' by (rule filter_map_other, rule new)
    ultimately show ?thesis using assms(1) keys by (simp add: keyed_def)
  qed
qed

lemma SaveJobLog_failed: "fst (SaveJobLog now ok tbl name i status data e expiry) \<noteq> None \<Longrightarrow>
    snd (SaveJobLog now ok tbl name i status data e expiry) = tbl"
  by (simp add: SaveJobLog_def Let_def split: if_splits)

lemma keyed_Save:
  assumes "keyed tbl"
  shows "keyed (snd (SaveJobLog now ok tbl name i status data e expiry))"
proof (cases "SaveJobLog now ok tbl name i status data e expiry")
  case (Pair err tbl')
  show ?thesis
  proof (cases err)
    case None
    with Pair SaveJobLog_ok [OF assms, of now ok name i status data e expiry tbl'] show ?thesis by simp
  next
    case (Some m)
    with Pair SaveJobLog_failed [of now ok tbl name i status data e expiry] assms show ?thesis by simp
  qed
qed

section \<open>Properties\<close>

text \<open>
  what was saved for a job is read back until it expires: \<open>Get\<close> gives the status, the error and the
  data of the last \<open>Set\<close>, \<open>GetJobLog\<close> the creation time of the first one, and the rows of other jobs are untouched.
\<close>

theorem Set_Get:
  assumes "keyed tbl" and "tracker_Set now ok tbl t i status e data = Some (None, tbl')"
    and "\<And>d. data = Some d \<Longrightarrow> d \<noteq> [] \<and> d \<noteq> ''null'' \<and> un d = Some (dec d)"
    and "expiresIn t = 0 \<or> later \<le> now + expiresIn t"
  shows "tracker_Get un later True del_ok tbl' t i
      = Some (Inr \<lparr>job_Status = status, job_Err = e, job_Data = map_option dec data\<rparr>, tbl')
    \<and> (\<exists>pjl. GetJobLog un later True del_ok tbl' (tracker_name t) i = (Inr (Some pjl), tbl')
        \<and> pjl_created pjl = (case List.find (is_row (tracker_name t) i) tbl of None \<Rightarrow> now | Some r \<Rightarrow> jl_created r)
        \<and> pjl_updated pjl = now)
    \<and> filter (\<lambda>r. \<not> is_row (tracker_name t) i r) tbl' = filter (\<lambda>r. \<not> is_row (tracker_name t) i r) tbl"
proof -
  let ?new = "saved_row now tbl (tracker_name t) i status data e (expiresIn t)"
  have i: "i \<noteq> []" and s: "SaveJobLog now ok tbl (tracker_name t) i status data e (expiresIn t) = (None, tbl')"
    using assms(2) by (auto simp: tracker_Set_def split: if_splits)
  note ok = SaveJobLog_ok [OF assms(1) s]
  then have f: "List.find (is_row (tracker_name t) i) tbl' = Some ?new" by (simp add: find_filter_hd)
  have ne: "\<not> expired later ?new" using assms(4) by (auto simp: expired_def saved_row_def)
  have g: "\<exists>pjl. GetJobLog un later True del_ok tbl' (tracker_name t) i = (Inr (Some pjl), tbl')
      \<and> pjl_created pjl = (case List.find (is_row (tracker_name t) i) tbl of None \<Rightarrow> now | Some r \<Rightarrow> jl_created r)
      \<and> pjl_updated pjl = now \<and> pjl_status pjl = status \<and> pjl_error pjl = e \<and> pjl_data pjl = map_option dec data"
    using i f ne assms(3)
    by (cases data) (auto simp: GetJobLog_def parse_row_def saved_row_def Let_def)
  moreover from g i have "tracker_Get un later True del_ok tbl' t i
      = Some (Inr \<lparr>job_Status = status, job_Err = e, job_Data = map_option dec data\<rparr>, tbl')"
    by (auto simp: tracker_Get_def)
  ultimately show ?thesis using ok by blast
qed

definition sample_jobs :: job_table where
  "sample_jobs = [\<lparr>jl_name = ''sync-imdb'', jl_id = ''a'', jl_status = ''started'', jl_data = ''null'', jl_error = [],
     jl_created = 100, jl_updated = 130, jl_expires = 900\<rparr>]"

theorem Set_Get_witness:
  "tracker_Get (\<lambda>d. Some d) 500 True True
     (snd (the (tracker_Set 200 True sample_jobs \<lparr>tracker_name = ''sync-imdb'', expiresIn = 800\<rparr> ''a'' ''done'' [] None)))
     \<lparr>tracker_name = ''sync-imdb'', expiresIn = 800\<rparr> ''a''
   = Some (Inr \<lparr>job_Status = ''done'', job_Err = [], job_Data = None\<rparr>,
      snd (the (tracker_Set 200 True sample_jobs \<lparr>tracker_name = ''sync-imdb'', expiresIn = 800\<rparr> ''a'' ''done'' [] None)))"
proof -
  let ?t = "\<lparr>tracker_name = ''sync-imdb'', expiresIn = 800\<rparr>"
  have k: "keyed sample_jobs" by (simp add: keyed_def sample_jobs_def)
  obtain tbl' where s: "tracker_Set 200 True sample_jobs ?t ''a'' ''done'' [] None = Some (None, tbl')"
    by (simp add: tracker_Set_def SaveJobLog_def Let_def sample_jobs_def is_row_def)
  from Set_Get [OF k s, of "\<lambda>d. Some d" "\<lambda>d. d" 500 True] s show ?thesis by simp
qed

end
