(* ===== verification/Worker_Task.thy ===== *)
theory Worker_Task
  imports Job_Log
begin

text \<open>
  The life of one background worker (\<open>NewWorker\<close> of \<open>internal/worker/worker.go\<close>): the closure
  \<open>TaskFunc\<close> with its deferred functions, \<open>ErrFunc\<close>, the heartbeat goroutines, and the clone of the task
  that runs once after start-up.

  The scheduler is third-party code. What the code relies on is that a task with \<open>RunSingleInstance\<close> does not
  overlap itself, its \<open>ErrFunc\<close> included; the clone is a task of its own. So there are two tasks, \<open>Regular\<close> and
  \<open>Startup\<close>, each with at most one run. A run is known by its phase, the place of the code it has reached, and there is
  one step for every call to the outside between two accesses to the shared state: the wait loop, the lock, each call
  of the job table, the executor, the deferred functions. The shared state is the captured \<open>jobId\<close>, the flag of
  \<open>running_worker\<close> that \<open>OnStart\<close> sets and \<open>OnEnd\<close> clears, and the job table. Steps of both tasks, of the
  heartbeat goroutines and of time interleave in any order. What the outside world answers during a step
  (\<open>shouldSkip\<close>, the lock, the database, the executor) is an argument of it. Times are Unix seconds.
\<close>

section \<open>Configuration\<close>

record worker_conf =
  conf_Name :: string
  Interval :: int
  HeartbeatInterval :: int
  RunExclusive :: bool
  RunAtStartupAfter :: int

text \<open>The defaults that \<open>NewWorker\<close> fills in.\<close>

definition with_defaults :: "worker_conf \<Rightarrow> worker_conf" where
  "with_defaults conf = (if HeartbeatInterval conf = 0 then conf\<lparr>HeartbeatInterval := 5\<rparr> else conf)"

definition heartbeatIntervalTolerance :: "worker_conf \<Rightarrow> int" where
  "heartbeatIntervalTolerance conf = min (HeartbeatInterval conf) 10"

definition job_tracker :: "worker_conf \<Rightarrow> JobTracker" where
  "job_tracker conf = \<lparr>tracker_name = conf_Name conf, expiresIn = max (3 * 24 * 3600) (10 * Interval conf)\<rparr>"

definition HasDurationPassedSince :: "int \<Rightarrow> int \<Rightarrow> int \<Rightarrow> bool" where
  "HasDurationPassedSince now t dur \<longleftrightarrow> now - t \<ge> dur"

text \<open>\<open>time.DateTime\<close> in UTC: the date of a day number and the time of day.\<close>

definition civil_date :: "int \<Rightarrow> int \<times> int \<times> int" where
  "civil_date days =
     (let z = days + 719468; era = z div 146097; doe = z mod 146097;
          yoe = (doe - doe div 1460 + doe div 36524 - doe div 146096) div 365;
          doy = doe - (365 * yoe + yoe div 4 - yoe div 100); mp = (5 * doy + 2) div 153;
          d = doy - (153 * mp + 2) div 5 + 1; m = (if mp < 10 then mp + 3 else mp - 9)
      in (yoe + era * 400 + (if m \<le> 2 then 1 else 0), m, d))"

definition format_datetime :: "int \<Rightarrow> string" where
  "format_datetime t =
     (case civil_date (t div 86400) of (y, m, d) \<Rightarrow>
       let s = t mod 86400 in
         pad_digits 4 (nat y) @ ''-'' @ pad_digits 2 (nat m) @ ''-'' @ pad_digits 2 (nat d) @ '' '' @
         pad_digits 2 (nat (s div 3600)) @ '':'' @ pad_digits 2 (nat (s div 60 mod 60)) @ '':'' @ pad_digits 2 (nat (s mod 60)))"

section \<open>State\<close>

datatype task = Regular | Startup

datatype outcome = Ok | Failed string | Panicked string

text \<open>
  Where a run is: \<open>already\<close> is what it read of \<open>isAlreadyRunning\<close>, an outcome is what \<open>TaskFunc\<close> is about to
  return. \<open>Closing\<close> stands before the deferred functions that end the heartbeat and release the lock, \<open>Ending\<close> before
  the one that calls \<open>onEnd\<close>, \<open>Erring\<close> and \<open>Resetting\<close> are in \<open>ErrFunc\<close>.
\<close>

datatype run_phase =
  Waiting bool
| Entered bool
| Locked
| Stale string
| Going
| Starting
| Started
| Executing
| Marking
| Closing outcome
| Ending bool outcome
| Erring string
| Resetting

text \<open>
  A heartbeat goroutine waits for its ticker, has seen a job id after a tick, or writes the id it has read again for the
  call. Its channel is closed when its run ends.
\<close>

datatype beat_state = Resting | Seen | Writing string

record beat =
  bt_task :: task
  bt_closed :: bool
  bt_state :: beat_state

record wstate =
  now :: int
  jobId :: string
  flag :: bool
  jobs :: job_table
  runs :: "task \<Rightarrow> run_phase option"
  beats :: "beat list"
  startup_left :: bool
  crashed :: bool

text \<open>What the outside world answers to the steps of a run.\<close>

record answers =
  lock_made :: bool
  lock_acquired :: bool
  lock_released :: bool
  getlast_ok :: bool
  delete_ok :: bool
  set_old_ok :: bool
  set_ok :: bool

section \<open>Steps\<close>

definition go :: "task \<Rightarrow> run_phase \<Rightarrow> wstate \<Rightarrow> wstate" where
  "go t p w = w\<lparr>runs := (runs w)(t \<mapsto> p)\<rparr>"

text \<open>The call \<open>jobTracker.Set(jobId, status, err, nil)\<close>.\<close>

definition set_job :: "worker_conf \<Rightarrow> bool \<Rightarrow> string \<Rightarrow> string \<Rightarrow> string \<Rightarrow> wstate \<Rightarrow> outcome \<times> wstate" where
  "set_job conf ok i status e w =
     (case tracker_Set (now w) ok (jobs w) (job_tracker conf) i status e None of
        None \<Rightarrow> (Panicked ''something went wrong'', w)
      | Some (None, tbl) \<Rightarrow> (Ok, w\<lparr>jobs := tbl\<rparr>)
      | Some (Some m, tbl) \<Rightarrow> (Failed m, w\<lparr>jobs := tbl\<rparr>))"

text \<open>The beginning of \<open>TaskFunc\<close>, up to the wait loop.\<close>

definition enter :: "task \<Rightarrow> bool \<Rightarrow> wstate \<Rightarrow> wstate" where
  "enter t shouldSkip w =
     (let isAlreadyRunning = (jobId w \<noteq> [])
      in go t (if shouldSkip then Ending isAlreadyRunning Ok else Waiting isAlreadyRunning) w)"

text \<open>The steps of a run; in another phase than its own a step does nothing. First the end of the wait loop and \<open>onStart\<close>.\<close>

definition end_wait :: "task \<Rightarrow> wstate \<Rightarrow> wstate" where
  "end_wait t w = (case runs w t of Some (Waiting already) \<Rightarrow> (go t (Entered already) w)\<lparr>flag := True\<rparr> | _ \<Rightarrow> w)"

definition take_lock :: "answers \<Rightarrow> task \<Rightarrow> wstate \<Rightarrow> wstate" where
  "take_lock a t w =
     (case runs w t of
        Some (Entered already) \<Rightarrow>
          if already then go t (Ending already Ok) w
          else if \<not> lock_made a then go t (Ending already Ok) w
          else if \<not> lock_acquired a then go t (Ending already Ok) w
          else go t Locked w
      | _ \<Rightarrow> w)"

text \<open>
  The last job of an exclusive worker: an error, the decision to return without running, a job whose heartbeat timed out,
  or to go on.
\<close>

datatype last_check = CheckError string | CheckSkip | CheckStale string | CheckGo

definition check_last :: "worker_conf \<Rightarrow> answers \<Rightarrow> wstate \<Rightarrow> last_check \<times> wstate" where
  "check_last conf a w =
     (if \<not> RunExclusive conf then (CheckGo, w)
      else case tracker_GetLast (\<lambda>d. Some ()) (now w) (getlast_ok a) (delete_ok a) (jobs w) (job_tracker conf) of
        (Inl e, tbl) \<Rightarrow> (CheckError e, w\<lparr>jobs := tbl\<rparr>)
      | (Inr None, tbl) \<Rightarrow> (CheckGo, w\<lparr>jobs := tbl\<rparr>)
      | (Inr (Some tjob), tbl) \<Rightarrow>
          (if pjl_status tjob = ''started'' then
             if \<not> HasDurationPassedSince (now w) (pjl_updated tjob) (HeartbeatInterval conf + heartbeatIntervalTolerance conf)
             then CheckSkip
             else CheckStale (pjl_id tjob)
           else if pjl_status tjob = ''done'' then
             if \<not> HasDurationPassedSince (now w) (pjl_created tjob) (Interval conf) then CheckSkip else CheckGo
           else CheckGo, w\<lparr>jobs := tbl\<rparr>))"

definition check_job :: "worker_conf \<Rightarrow> answers \<Rightarrow> task \<Rightarrow> wstate \<Rightarrow> wstate" where
  "check_job conf a t w =
     (case runs w t of
        Some Locked \<Rightarrow>
          (case check_last conf a w of
             (CheckError e, w1) \<Rightarrow> go t (Closing (Failed e)) w1
           | (CheckSkip, w1) \<Rightarrow> go t (Closing Ok) w1
           | (CheckStale i, w1) \<Rightarrow> go t (Stale i) w1
           | (CheckGo, w1) \<Rightarrow> go t Going w1)
      | _ \<Rightarrow> w)"

text \<open>An error of this call is only logged.\<close>

definition mark_stale :: "worker_conf \<Rightarrow> bool \<Rightarrow> task \<Rightarrow> wstate \<Rightarrow> wstate" where
  "mark_stale conf ok t w =
     (case runs w t of
        Some (Stale i) \<Rightarrow>
          (case set_job conf ok i ''failed'' ''heartbeat timed out'' w of
             (Panicked e, w1) \<Rightarrow> go t (Closing (Panicked e)) w1
           | (_, w1) \<Rightarrow> go t Going w1)
      | _ \<Rightarrow> w)"

definition name_job :: "task \<Rightarrow> wstate \<Rightarrow> wstate" where
  "name_job t w = (case runs w t of Some Going \<Rightarrow> (go t Starting w)\<lparr>jobId := format_datetime (now w)\<rparr> | _ \<Rightarrow> w)"

definition log_started :: "worker_conf \<Rightarrow> bool \<Rightarrow> task \<Rightarrow> wstate \<Rightarrow> wstate" where
  "log_started conf ok t w =
     (case runs w t of
        Some Starting \<Rightarrow>
          (case set_job conf ok (jobId w) ''started'' [] w of
             (Ok, w1) \<Rightarrow> go t Started w1
           | (res, w1) \<Rightarrow> go t (Closing res) w1)
      | _ \<Rightarrow> w)"

definition release_lock :: "bool \<Rightarrow> task \<Rightarrow> wstate \<Rightarrow> wstate" where
  "release_lock released t w =
     (case runs w t of
        Some Started \<Rightarrow>
          if \<not> released then go t (Closing Ok) w
          else (go t Executing w)\<lparr>beats := beats w @ [\<lparr>bt_task = t, bt_closed = False, bt_state = Resting\<rparr>]\<rparr>
      | _ \<Rightarrow> w)"

definition executor_returns :: "outcome \<Rightarrow> task \<Rightarrow> wstate \<Rightarrow> wstate" where
  "executor_returns res t w =
     (case runs w t of Some Executing \<Rightarrow> go t (if res = Ok then Marking else Closing res) w | _ \<Rightarrow> w)"

definition log_done :: "worker_conf \<Rightarrow> bool \<Rightarrow> task \<Rightarrow> wstate \<Rightarrow> wstate" where
  "log_done conf ok t w =
     (case runs w t of
        Some Marking \<Rightarrow> (case set_job conf ok (jobId w) ''done'' [] w of (res, w1) \<Rightarrow> go t (Closing res) w1)
      | _ \<Rightarrow> w)"

text \<open>The deferred functions, in the order in which they run; a returned error or a panic goes to \<open>ErrFunc\<close>.\<close>

definition close_run :: "task \<Rightarrow> wstate \<Rightarrow> wstate" where
  "close_run t w =
     (case runs w t of
        Some (Closing res) \<Rightarrow>
          (go t (Ending False res) w)\<lparr>beats := map (\<lambda>b. if bt_task b = t then b\<lparr>bt_closed := True\<rparr> else b) (beats w)\<rparr>
      | _ \<Rightarrow> w)"

definition end_run :: "task \<Rightarrow> wstate \<Rightarrow> wstate" where
  "end_run t w =
     (case runs w t of
        Some (Ending isAlreadyRunning res) \<Rightarrow>
          let w1 = (if res = Ok \<and> \<not> isAlreadyRunning then w\<lparr>jobId := []\<rparr> else w);
              w2 = w1\<lparr>flag := False\<rparr>
          in (case res of
                Ok \<Rightarrow> w2\<lparr>runs := (runs w2)(t := None)\<rparr>
              | Failed e \<Rightarrow> go t (Erring e) w2
              | Panicked e \<Rightarrow> go t (Erring e) w2)
      | _ \<Rightarrow> w)"

text \<open>\<open>ErrFunc\<close>: a panic of \<open>Set\<close> is recovered, and the id is reset in any case.\<close>

definition log_failed :: "worker_conf \<Rightarrow> bool \<Rightarrow> task \<Rightarrow> wstate \<Rightarrow> wstate" where
  "log_failed conf ok t w =
     (case runs w t of Some (Erring e) \<Rightarrow> go t Resetting (snd (set_job conf ok (jobId w) ''failed'' e w)) | _ \<Rightarrow> w)"

definition reset_job :: "task \<Rightarrow> wstate \<Rightarrow> wstate" where
  "reset_job t w = (case runs w t of Some Resetting \<Rightarrow> w\<lparr>jobId := [], runs := (runs w)(t := None)\<rparr> | _ \<Rightarrow> w)"

text \<open>
  The heartbeat goroutines, by their place in the list. A goroutine that sees no job id returns for good; one that reads an
  empty id for the call of \<open>Set\<close> panics, which nothing recovers: the process ends. A closed goroutine may still take a tick
  that is ready at the same time.
\<close>

definition drop_beat :: "nat \<Rightarrow> wstate \<Rightarrow> wstate" where
  "drop_beat k w = w\<lparr>beats := take k (beats w) @ drop (Suc k) (beats w)\<rparr>"

definition put_beat :: "nat \<Rightarrow> beat_state \<Rightarrow> wstate \<Rightarrow> wstate" where
  "put_beat k b w = w\<lparr>beats := (beats w)[k := (beats w ! k)\<lparr>bt_state := b\<rparr>]\<rparr>"

definition beat_tick :: "nat \<Rightarrow> wstate \<Rightarrow> wstate" where
  "beat_tick k w = (if jobId w = [] then drop_beat k w else put_beat k Seen w)"

definition beat_read :: "nat \<Rightarrow> wstate \<Rightarrow> wstate" where
  "beat_read k w = (if jobId w = [] then w\<lparr>crashed := True\<rparr> else put_beat k (Writing (jobId w)) w)"

definition beat_write :: "worker_conf \<Rightarrow> bool \<Rightarrow> nat \<Rightarrow> wstate \<Rightarrow> wstate" where
  "beat_write conf ok k w =
     (case bt_state (beats w ! k) of
        Writing i \<Rightarrow> put_beat k Resting (snd (set_job conf ok i ''started'' [] w))
      | _ \<Rightarrow> w)"

datatype wevent = Tick int | Enter task | Run task | Beat nat

inductive task_step :: "worker_conf \<Rightarrow> wstate \<Rightarrow> wevent \<Rightarrow> wstate \<Rightarrow> bool" for conf where
  step_tick: "\<not> crashed w \<Longrightarrow> 0 \<le> d \<Longrightarrow> task_step conf w (Tick d) (w\<lparr>now := now w + d\<rparr>)"
| step_enter: "\<not> crashed w \<Longrightarrow> runs w Regular = None \<Longrightarrow> task_step conf w (Enter Regular) (enter Regular skip w)"
| step_enter_startup: "\<not> crashed w \<Longrightarrow> startup_left w \<Longrightarrow> RunAtStartupAfter conf \<noteq> 0 \<Longrightarrow>
    task_step conf w (Enter Startup) (enter Startup skip (w\<lparr>startup_left := False\<rparr>))"
| step_end_wait: "\<not> crashed w \<Longrightarrow> task_step conf w (Run t) (end_wait t w)"
| step_take_lock: "\<not> crashed w \<Longrightarrow> task_step conf w (Run t) (take_lock a t w)"
| step_check_job: "\<not> crashed w \<Longrightarrow> task_step conf w (Run t) (check_job conf a t w)"
| step_mark_stale: "\<not> crashed w \<Longrightarrow> task_step conf w (Run t) (mark_stale conf ok t w)"
| step_name_job: "\<not> crashed w \<Longrightarrow> task_step conf w (Run t) (name_job t w)"
| step_log_started: "\<not> crashed w \<Longrightarrow> task_step conf w (Run t) (log_started conf ok t w)"
| step_release_lock: "\<not> crashed w \<Longrightarrow> task_step conf w (Run t) (release_lock ok t w)"
| step_executor: "\<not> crashed w \<Longrightarrow> task_step conf w (Run t) (executor_returns res t w)"
| step_log_done: "\<not> crashed w \<Longrightarrow> task_step conf w (Run t) (log_done conf ok t w)"
| step_close_run: "\<not> crashed w \<Longrightarrow> task_step conf w (Run t) (close_run t w)"
| step_end_run: "\<not> crashed w \<Longrightarrow> task_step conf w (Run t) (end_run t w)"
| step_log_failed: "\<not> crashed w \<Longrightarrow> task_step conf w (Run t) (log_failed conf ok t w)"
| step_reset_job: "\<not> crashed w \<Longrightarrow> task_step conf w (Run t) (reset_job t w)"
| step_beat_tick: "\<not> crashed w \<Longrightarrow> k < length (beats w) \<Longrightarrow> bt_state (beats w ! k) = Resting \<Longrightarrow>
    task_step conf w (Beat k) (beat_tick k w)"
| step_beat_read: "\<not> crashed w \<Longrightarrow> k < length (beats w) \<Longrightarrow> bt_state (beats w ! k) = Seen \<Longrightarrow>
    task_step conf w (Beat k) (beat_read k w)"
| step_beat_write: "\<not> crashed w \<Longrightarrow> k < length (beats w) \<Longrightarrow> task_step conf w (Beat k) (beat_write conf ok k w)"
| step_beat_stop: "\<not> crashed w \<Longrightarrow> k < length (beats w) \<Longrightarrow> bt_state (beats w ! k) = Resting \<Longrightarrow> bt_closed (beats w ! k) \<Longrightarrow>
    task_step conf w (Beat k) (drop_beat k w)"

text \<open>A process that has just started, with whatever job table it finds.\<close>

definition task_init :: "wstate \<Rightarrow> bool" where
  "task_init w \<longleftrightarrow> jobId w = [] \<and> \<not> flag w \<and> runs w = (\<lambda>_. None) \<and> beats w = [] \<and> startup_left w \<and> \<not> crashed w \<and> keyed (jobs w)
     \<and> (\<forall>r \<in> set (jobs w). jl_id r \<noteq> [])"

section \<open>Lemmas\<close>

text \<open>What a call of \<open>Set\<close> leaves as it is.\<close>

lemma set_job_frame [simp]:
  "now (snd (set_job conf ok i st e w)) = now w" "jobId (snd (set_job conf ok i st e w)) = jobId w"
  "flag (snd (set_job conf ok i st e w)) = flag w" "runs (snd (set_job conf ok i st e w)) = runs w"
  "beats (snd (set_job conf ok i st e w)) = beats w" "startup_left (snd (set_job conf ok i st e w)) = startup_left w"
  "crashed (snd (set_job conf ok i st e w)) = crashed w"
  by (auto simp: set_job_def split: option.splits prod.splits)

lemma go_frame [simp]:
  "now (go t p w) = now w" "jobId (go t p w) = jobId w" "flag (go t p w) = flag w" "jobs (go t p w) = jobs w"
  "runs (go t p w) = (runs w)(t \<mapsto> p)" "beats (go t p w) = beats w" "startup_left (go t p w) = startup_left w"
  "crashed (go t p w) = crashed w"
  by (simp_all add: go_def)

lemma put_beat_frame [simp]:
  "now (put_beat k b w) = now w" "jobId (put_beat k b w) = jobId w" "flag (put_beat k b w) = flag w" "jobs (put_beat k b w) = jobs w"
  "runs (put_beat k b w) = runs w" "startup_left (put_beat k b w) = startup_left w" "crashed (put_beat k b w) = crashed w"
  "beats (put_beat k b w) = (beats w)[k := (beats w ! k)\<lparr>bt_state := b\<rparr>]"
  by (simp_all add: put_beat_def)

lemma drop_beat_frame [simp]:
  "now (drop_beat k w) = now w" "jobId (drop_beat k w) = jobId w" "flag (drop_beat k w) = flag w" "jobs (drop_beat k w) = jobs w"
  "runs (drop_beat k w) = runs w" "startup_left (drop_beat k w) = startup_left w" "crashed (drop_beat k w) = crashed w"
  by (simp_all add: drop_beat_def)

lemma set_job_empty: "set_job conf ok [] st e w = (Panicked ''something went wrong'', w)"
  by (simp add: set_job_def tracker_Set_def)

lemma set_job_ok: "i \<noteq> [] \<Longrightarrow> fst (set_job conf True i st e w) = Ok"
  by (auto simp: set_job_def tracker_Set_def SaveJobLog_def Let_def split: option.splits prod.splits)

lemma set_job_Ok: "i \<noteq> [] \<Longrightarrow> \<exists>w'. set_job conf True i st e w = (Ok, w')"
  using set_job_ok by (metis prod.collapse)

text \<open>The table of a worker: its key is unique and no row has an empty id.\<close>

definition wf_jobs :: "job_table \<Rightarrow> bool" where
  "wf_jobs tbl \<longleftrightarrow> keyed tbl \<and> (\<forall>r \<in> set tbl. jl_id r \<noteq> [])"

lemma wf_jobs_Save:
  assumes "wf_jobs tbl" and "SaveJobLog t ok tbl name i st data e expiry = (err, tbl')"
  shows "wf_jobs tbl'"
proof -
  have "keyed tbl'" using keyed_Save [of tbl t ok name i st data e expiry] assms by (simp add: wf_jobs_def)
  moreover have "\<forall>r \<in> set tbl'. jl_id r \<noteq> []"
    using assms by (auto simp: SaveJobLog_def wf_jobs_def Let_def split: if_splits)
  ultimately show ?thesis by (simp add: wf_jobs_def)
qed

lemma wf_jobs_set [simp]: "wf_jobs (jobs w) \<Longrightarrow> wf_jobs (jobs (snd (set_job conf ok i st e w)))"
  by (auto simp: set_job_def tracker_Set_def split: option.splits prod.splits if_splits dest: wf_jobs_Save)

lemma wf_jobs_filter: "wf_jobs tbl \<Longrightarrow> wf_jobs (filter P tbl)"
  by (auto simp: wf_jobs_def keyed_filter)

lemma wf_jobs_GetLast [simp]:
  "wf_jobs tbl \<Longrightarrow> wf_jobs (snd (tracker_GetLast un t ok del_ok tbl tr))"
  by (simp add: tracker_GetLast_def GetLastJobLog_def DeleteJobLog_def Let_def wf_jobs_filter split_beta
      split: option.split sum.split)

text \<open>Whether the row of a job has a status.\<close>

definition has_status :: "worker_conf \<Rightarrow> job_table \<Rightarrow> string \<Rightarrow> string \<Rightarrow> bool" where
  "has_status conf tbl i st \<longleftrightarrow> (\<exists>r \<in> set tbl. is_row (conf_Name conf) i r \<and> jl_status r = st)"

lemma set_job_saved:
  assumes "fst (set_job conf ok i st e w) = Ok"
  shows "SaveJobLog (now w) ok (jobs w) (conf_Name conf) i st None e (expiresIn (job_tracker conf))
    = (None, jobs (snd (set_job conf ok i st e w)))"
  using assms by (auto simp: set_job_def tracker_Set_def job_tracker_def split: option.splits prod.splits if_splits)

lemma has_status_set:
  assumes "wf_jobs (jobs w)" and "fst (set_job conf ok i st e w) = Ok"
  shows "has_status conf (jobs (snd (set_job conf ok i st e w))) i st' \<longleftrightarrow> st' = st"
proof -
  let ?tbl = "jobs (snd (set_job conf ok i st e w))"
  have "filter (is_row (conf_Name conf) i) ?tbl
      = [saved_row (now w) (jobs w) (conf_Name conf) i st None e (expiresIn (job_tracker conf))]" (is "_ = [?new]")
    using SaveJobLog_ok [OF _ set_job_saved [OF assms(2)]] assms(1) by (simp add: wf_jobs_def)
  then have "{r \<in> set ?tbl. is_row (conf_Name conf) i r} = {?new}"
    by (metis list.set(1,2) set_filter)
  moreover have "has_status conf ?tbl i st' \<longleftrightarrow> (\<exists>r \<in> {r \<in> set ?tbl. is_row (conf_Name conf) i r}. jl_status r = st')"
    by (auto simp: has_status_def)
  ultimately have "has_status conf ?tbl i st' \<longleftrightarrow> jl_status ?new = st'" by simp
  then show ?thesis by (auto simp: saved_row_def)
qed

lemma has_status_other:
  assumes "wf_jobs (jobs w)" and "fst (set_job conf ok i st e w) = Ok" and "j \<noteq> i"
  shows "has_status conf (jobs (snd (set_job conf ok i st e w))) j st' \<longleftrightarrow> has_status conf (jobs w) j st'"
proof -
  let ?tbl = "jobs (snd (set_job conf ok i st e w))" and ?other = "\<lambda>r. \<not> is_row (conf_Name conf) i r"
  have "filter ?other ?tbl = filter ?other (jobs w)"
    using SaveJobLog_ok [OF _ set_job_saved [OF assms(2)]] assms(1) by (simp add: wf_jobs_def)
  then have same: "{r \<in> set ?tbl. ?other r} = {r \<in> set (jobs w). ?other r}" by (metis set_filter)
  have st: "has_status conf t j st' \<longleftrightarrow> (\<exists>r \<in> {r \<in> set t. ?other r}. is_row (conf_Name conf) j r \<and> jl_status r = st')" for t
    using assms(3) by (auto simp: has_status_def is_row_def)
  show ?thesis unfolding st [of ?tbl] st [of "jobs w"] same ..
qed

lemma set_job_failed: "fst (set_job conf ok i st e w) \<noteq> Ok \<Longrightarrow> snd (set_job conf ok i st e w) = w"
  using SaveJobLog_failed [of "now w" ok "jobs w" "conf_Name conf" i st None e "expiresIn (job_tracker conf)"]
  by (auto simp: set_job_def tracker_Set_def job_tracker_def split: option.splits prod.splits)

text \<open>A heartbeat never takes the status \<open>started\<close> from a job.\<close>

lemma started_stays:
  assumes "wf_jobs (jobs w)" and "has_status conf (jobs w) j ''started''"
  shows "has_status conf (jobs (snd (set_job conf ok i ''started'' e w))) j ''started''"
proof (cases "fst (set_job conf ok i ''started'' e w) = Ok")
  case True
  with has_status_set [OF assms(1) True] has_status_other [OF assms(1) True, of j] assms(2) show ?thesis
    by (cases "j = i") auto
next
  case False
  from set_job_failed [OF this] assms(2) show ?thesis by simp
qed

lemma check_last_frame [simp]:
  "now (snd (check_last conf a w)) = now w" "jobId (snd (check_last conf a w)) = jobId w"
  "flag (snd (check_last conf a w)) = flag w" "runs (snd (check_last conf a w)) = runs w"
  "beats (snd (check_last conf a w)) = beats w" "startup_left (snd (check_last conf a w)) = startup_left w"
  "crashed (snd (check_last conf a w)) = crashed w"
  by (simp_all add: check_last_def split_beta split: option.splits sum.splits)

lemma wf_jobs_check [simp]: "wf_jobs (jobs w) \<Longrightarrow> wf_jobs (jobs (snd (check_last conf a w)))"
  by (simp add: check_last_def split_beta split: option.split sum.split)

lemma format_datetime_ne [simp]: "format_datetime t \<noteq> []"
  by (simp add: format_datetime_def Let_def split: prod.splits)

lemmas run_steps =
  end_wait_def take_lock_def check_job_def mark_stale_def name_job_def log_started_def release_lock_def executor_returns_def
  log_done_def close_run_def end_run_def log_failed_def reset_job_def

text \<open>No step of a run, of a heartbeat or of time spoils the table.\<close>

lemma wf_jobs_set' [simp]: "set_job conf ok i st e w = (r, w') \<Longrightarrow> wf_jobs (jobs w) \<Longrightarrow> wf_jobs (jobs w')"
  using wf_jobs_set [of w conf ok i st e] by simp

lemma wf_jobs_check' [simp]: "check_last conf a w = (c, w') \<Longrightarrow> wf_jobs (jobs w) \<Longrightarrow> wf_jobs (jobs w')"
  using wf_jobs_check [of w conf a] by simp

lemma wf_jobs_step:
  assumes "wf_jobs (jobs w)" and "task_step conf w e w'"
  shows "wf_jobs (jobs w')"
  using assms(2,1)
  by (induction rule: task_step.induct)
    (auto simp: run_steps enter_def beat_tick_def beat_read_def beat_write_def Let_def
      split: option.splits run_phase.splits outcome.splits last_check.splits prod.splits beat_state.splits)

interpretation table: guarded_system task_init "task_step conf" "\<lambda>w. wf_jobs (jobs w)" for conf
  by unfold_locales (simp add: task_init_def wf_jobs_def, rule wf_jobs_step)

section \<open>A worker without the start-up clone\<close>

definition idle :: "wstate \<Rightarrow> bool" where
  "idle w \<longleftrightarrow> jobId w = [] \<and> \<not> flag w"

definition busy :: "worker_conf \<Rightarrow> wstate \<Rightarrow> bool" where
  "busy conf w \<longleftrightarrow> jobId w \<noteq> [] \<and> flag w \<and> has_status conf (jobs w) (jobId w) ''started''"

text \<open>What holds of the shared state in each phase of the regular run.\<close>

fun phase_inv :: "worker_conf \<Rightarrow> run_phase option \<Rightarrow> wstate \<Rightarrow> bool" where
  "phase_inv conf None w = idle w"
| "phase_inv conf (Some (Waiting b)) w = (\<not> b \<and> idle w)"
| "phase_inv conf (Some (Entered b)) w = (\<not> b \<and> jobId w = [] \<and> flag w)"
| "phase_inv conf (Some Locked) w = (jobId w = [] \<and> flag w)"
| "phase_inv conf (Some (Stale i)) w = (jobId w = [] \<and> flag w)"
| "phase_inv conf (Some Going) w = (jobId w = [] \<and> flag w)"
| "phase_inv conf (Some Starting) w = (jobId w \<noteq> [] \<and> flag w)"
| "phase_inv conf (Some Started) w = busy conf w"
| "phase_inv conf (Some Executing) w = busy conf w"
| "phase_inv conf (Some Marking) w = busy conf w"
| "phase_inv conf (Some (Closing res)) w = flag w"
| "phase_inv conf (Some (Ending b res)) w = (\<not> b)"
| "phase_inv conf (Some (Erring e)) w = (\<not> flag w)"
| "phase_inv conf (Some Resetting) w = (\<not> flag w)"

definition single_inv :: "worker_conf \<Rightarrow> wstate \<Rightarrow> bool" where
  "single_inv conf w \<longleftrightarrow> wf_jobs (jobs w) \<and> runs w Startup = None \<and> phase_inv conf (runs w Regular) w"

lemma phase_inv_cong:
  "jobId w' = jobId w \<Longrightarrow> flag w' = flag w \<Longrightarrow> jobs w' = jobs w \<Longrightarrow> phase_inv conf p w' = phase_inv conf p w"
  by (cases "(conf, p, w)" rule: phase_inv.cases) (simp_all add: idle_def busy_def)

lemma phase_inv_started:
  assumes "phase_inv conf p w" "wf_jobs (jobs w)"
  shows "phase_inv conf p (snd (set_job conf ok i ''started'' e w))"
  using assms started_stays [of w conf "jobId w" ok i e]
  by (cases "(conf, p, w)" rule: phase_inv.cases) (simp_all add: idle_def busy_def)

lemma set_job_pair:
  assumes "set_job conf ok i st e w = (r, w')"
  shows "now w' = now w" "jobId w' = jobId w" "flag w' = flag w" "runs w' = runs w" "beats w' = beats w"
    "startup_left w' = startup_left w" "crashed w' = crashed w"
  using set_job_frame [of conf ok i st e w] assms by simp_all

lemma check_last_pair:
  assumes "check_last conf a w = (c, w')"
  shows "now w' = now w" "jobId w' = jobId w" "flag w' = flag w" "runs w' = runs w" "beats w' = beats w"
    "startup_left w' = startup_left w" "crashed w' = crashed w"
  using check_last_frame [of conf a w] assms by simp_all

lemma started_busy:
  assumes "set_job conf ok (jobId w) ''started'' [] w = (Ok, w')" "wf_jobs (jobs w)" "jobId w \<noteq> []" "flag w"
  shows "busy conf w'"
  using has_status_set [of w conf ok "jobId w" "''started''" "[]" "''started''"] set_job_pair [OF assms(1)] assms by (simp add: busy_def)

lemma regular_only: "single_inv conf w \<Longrightarrow> runs w t = Some p \<Longrightarrow> t = Regular"
  by (cases t) (simp_all add: single_inv_def)

lemma single_go:
  assumes "single_inv conf w" and "wf_jobs (jobs w')" and "runs w' = (runs w)(Regular := p)" and "phase_inv conf p w'"
  shows "single_inv conf w'"
  using assms by (simp add: single_inv_def)

text \<open>The steps of a run, one by one.\<close>

lemma single_end_wait: "single_inv conf w \<Longrightarrow> single_inv conf (end_wait t w)"
  using regular_only [of conf w t]
  by (auto simp: end_wait_def single_inv_def idle_def split: option.splits run_phase.splits)

lemma single_take_lock: "single_inv conf w \<Longrightarrow> single_inv conf (take_lock a t w)"
  using regular_only [of conf w t]
  by (auto simp: take_lock_def single_inv_def split: option.splits run_phase.splits)

lemma single_check_job:
  assumes "single_inv conf w"
  shows "single_inv conf (check_job conf a t w)"
proof (cases "runs w t = Some Locked")
  case True
  have t: "t = Regular" by (rule regular_only [OF assms True])
  obtain c w1 where c: "check_last conf a w = (c, w1)" by force
  note f = check_last_pair [OF c] wf_jobs_check' [OF c]
  have w: "wf_jobs (jobs w)" "runs w Startup = None" "jobId w = []" "flag w" using assms True t by (simp_all add: single_inv_def)
  show ?thesis using True c f w t by (cases c) (simp_all add: check_job_def single_inv_def)
qed (use assms in \<open>auto simp: check_job_def split: option.splits run_phase.splits\<close>)

lemma single_mark_stale:
  assumes "single_inv conf w"
  shows "single_inv conf (mark_stale conf ok t w)"
proof (cases "\<exists>i. runs w t = Some (Stale i)")
  case True
  then obtain i where i: "runs w t = Some (Stale i)" by blast
  have t: "t = Regular" by (rule regular_only [OF assms i])
  obtain r w1 where r: "set_job conf ok i ''failed'' ''heartbeat timed out'' w = (r, w1)" by force
  note f = set_job_pair [OF r] wf_jobs_set' [OF r]
  have w: "wf_jobs (jobs w)" "runs w Startup = None" "jobId w = []" "flag w" using assms i t by (simp_all add: single_inv_def)
  show ?thesis using i r f w t by (cases r) (simp_all add: mark_stale_def single_inv_def)
qed (use assms in \<open>auto simp: mark_stale_def split: option.splits run_phase.splits\<close>)

lemma single_name_job: "single_inv conf w \<Longrightarrow> single_inv conf (name_job t w)"
  using regular_only [of conf w t]
  by (auto simp: name_job_def single_inv_def split: option.splits run_phase.splits)

lemma single_log_started:
  assumes "single_inv conf w"
  shows "single_inv conf (log_started conf ok t w)"
proof (cases "runs w t = Some Starting")
  case True
  have t: "t = Regular" by (rule regular_only [OF assms True])
  obtain r w1 where r: "set_job conf ok (jobId w) ''started'' [] w = (r, w1)" by force
  note f = set_job_pair [OF r] wf_jobs_set' [OF r]
  have w: "wf_jobs (jobs w)" "runs w Startup = None" "jobId w \<noteq> []" "flag w" using assms True t by (simp_all add: single_inv_def)
  have "busy conf w1" if "r = Ok" using started_busy r w that by blast
  then show ?thesis using True r f w t by (cases r) (simp_all add: log_started_def single_inv_def busy_def)
qed (use assms in \<open>auto simp: log_started_def split: option.splits run_phase.splits\<close>)

lemma single_release_lock: "single_inv conf w \<Longrightarrow> single_inv conf (release_lock ok t w)"
  using regular_only [of conf w t]
  by (auto simp: release_lock_def single_inv_def busy_def split: option.splits run_phase.splits)

lemma single_executor: "single_inv conf w \<Longrightarrow> single_inv conf (executor_returns res t w)"
  using regular_only [of conf w t]
  by (auto simp: executor_returns_def single_inv_def busy_def split: option.splits run_phase.splits)

lemma single_log_done:
  assumes "single_inv conf w"
  shows "single_inv conf (log_done conf ok t w)"
proof (cases "runs w t = Some Marking")
  case True
  have t: "t = Regular" by (rule regular_only [OF assms True])
  obtain r w1 where r: "set_job conf ok (jobId w) ''done'' [] w = (r, w1)" by force
  note f = set_job_pair [OF r] wf_jobs_set' [OF r]
  have w: "wf_jobs (jobs w)" "runs w Startup = None" "flag w" using assms True t by (simp_all add: single_inv_def busy_def)
  show ?thesis using True r f w t by (simp add: log_done_def single_inv_def)
qed (use assms in \<open>auto simp: log_done_def split: option.splits run_phase.splits\<close>)

lemma single_close_run: "single_inv conf w \<Longrightarrow> single_inv conf (close_run t w)"
  using regular_only [of conf w t]
  by (auto simp: close_run_def single_inv_def split: option.splits run_phase.splits)

lemma single_end_run: "single_inv conf w \<Longrightarrow> single_inv conf (end_run t w)"
  using regular_only [of conf w t]
  by (auto simp: end_run_def single_inv_def idle_def Let_def split: option.splits run_phase.splits outcome.splits)

lemma single_log_failed:
  assumes "single_inv conf w"
  shows "single_inv conf (log_failed conf ok t w)"
proof (cases "\<exists>e. runs w t = Some (Erring e)")
  case True
  then obtain e where e: "runs w t = Some (Erring e)" by blast
  have t: "t = Regular" by (rule regular_only [OF assms e])
  show ?thesis using assms e t by (simp add: log_failed_def single_inv_def)
qed (use assms in \<open>auto simp: log_failed_def split: option.splits run_phase.splits\<close>)

lemma single_reset_job: "single_inv conf w \<Longrightarrow> single_inv conf (reset_job t w)"
  using regular_only [of conf w t]
  by (auto simp: reset_job_def single_inv_def idle_def split: option.splits run_phase.splits)

lemma single_cong:
  "single_inv conf w \<Longrightarrow> jobId w' = jobId w \<Longrightarrow> flag w' = flag w \<Longrightarrow> jobs w' = jobs w \<Longrightarrow> runs w' = runs w \<Longrightarrow> single_inv conf w'"
  using phase_inv_cong [of w' w conf "runs w Regular"] by (simp add: single_inv_def)

lemma single_beat_tick: "single_inv conf w \<Longrightarrow> single_inv conf (beat_tick k w)"
  by (rule single_cong [where w = w]) (simp_all add: beat_tick_def)

lemma single_beat_read: "single_inv conf w \<Longrightarrow> single_inv conf (beat_read k w)"
  by (rule single_cong [where w = w]) (simp_all add: beat_read_def)

lemma single_beat_write:
  assumes "single_inv conf w"
  shows "single_inv conf (beat_write conf ok k w)"
proof (cases "\<exists>i. bt_state (beats w ! k) = Writing i")
  case True
  then obtain i where i: "bt_state (beats w ! k) = Writing i" by blast
  let ?w1 = "snd (set_job conf ok i ''started'' [] w)"
  have "single_inv conf ?w1" using assms phase_inv_started [of conf "runs w Regular" w ok i "[]"] by (simp add: single_inv_def)
  then have "single_inv conf (put_beat k Resting ?w1)" by (rule single_cong) simp_all
  then show ?thesis by (simp add: beat_write_def i)
qed (use assms in \<open>auto simp: beat_write_def split: beat_state.splits\<close>)

lemma single_inv_step:
  assumes "RunAtStartupAfter conf = 0" and "single_inv conf w" and "task_step conf w e w'"
  shows "single_inv conf w'"
  using assms(3,2)
proof (induction rule: task_step.induct)
  case (step_tick w d)
  then show ?case by (rule_tac single_cong) simp_all
next
  case (step_enter w skip)
  then show ?case by (simp add: enter_def single_inv_def idle_def)
next
  case (step_enter_startup w skip)
  then show ?case using assms(1) by simp
next
  case (step_beat_stop w k)
  then show ?case by (rule_tac single_cong) simp_all
qed (blast intro: single_end_wait single_take_lock single_check_job single_mark_stale single_name_job single_log_started
    single_release_lock single_executor single_log_done single_close_run single_end_run single_log_failed single_reset_job
    single_beat_tick single_beat_read single_beat_write)+

interpretation single: guarded_system
    "\<lambda>w. RunAtStartupAfter conf = 0 \<and> task_init w"
    "\<lambda>w e w'. RunAtStartupAfter conf = 0 \<and> task_step conf w e w'" "single_inv conf"
  for conf
proof
  show "single_inv conf w" if "RunAtStartupAfter conf = 0 \<and> task_init w" for w
    using that by (simp add: task_init_def single_inv_def idle_def wf_jobs_def)
qed (use single_inv_step in blast)

section \<open>Whether an exclusive worker runs\<close>

definition may_run :: "worker_conf \<Rightarrow> int \<Rightarrow> job_table \<Rightarrow> bool" where
  "may_run conf t tbl =
     (case newest (filter (\<lambda>r. jl_name r = conf_Name conf) tbl) of
        None \<Rightarrow> True
      | Some r \<Rightarrow> expired t r
          \<or> (jl_status r = ''started'' \<and> HeartbeatInterval conf + min (HeartbeatInterval conf) 10 \<le> t - jl_updated r)
          \<or> (jl_status r = ''done'' \<and> Interval conf \<le> t - jl_created r)
          \<or> jl_status r \<notin> {''started'', ''done''})"

lemma newest_in: "newest tbl = Some r \<Longrightarrow> r \<in> set tbl"
  by (induction tbl arbitrary: r) (auto split: option.splits if_splits)

lemma check_last_may_run:
  assumes "wf_jobs (jobs w)" and "RunExclusive conf" and "getlast_ok a"
  shows "if may_run conf (now w) (jobs w) then fst (check_last conf a w) \<in> {CheckGo} \<union> range CheckStale
    else fst (check_last conf a w) = CheckSkip"
proof (cases "newest (filter (\<lambda>r. jl_name r = conf_Name conf) (jobs w))")
  case None
  with assms(2,3) show ?thesis
    by (simp add: check_last_def may_run_def tracker_GetLast_def GetLastJobLog_def job_tracker_def)
next
  case (Some r)
  from newest_in [OF this] assms(1) have "jl_id r \<noteq> []" by (simp add: wf_jobs_def)
  with Some assms(2,3) show ?thesis
    by (auto simp: check_last_def may_run_def tracker_GetLast_def GetLastJobLog_def job_tracker_def parse_row_def
        HasDurationPassedSince_def heartbeatIntervalTolerance_def Let_def split_beta)
qed

lemma GetLast_Some:
  assumes "tracker_GetLast un t ok del_ok tbl tr = (Inr (Some p), tbl')"
  shows "tbl' = tbl" "pjl_id p \<noteq> []"
  using assms by (auto simp: tracker_GetLast_def GetLastJobLog_def split: prod.splits sum.splits option.splits if_splits)

lemma check_skip_jobs:
  assumes "check_last conf a w = (CheckSkip, w1)"
  shows "jobs w1 = jobs w"
proof -
  obtain res tbl where g: "tracker_GetLast (\<lambda>d. Some ()) (now w) (getlast_ok a) (delete_ok a) (jobs w) (job_tracker conf)
    = (res, tbl)" by force
  then obtain p where "res = Inr (Some p)" and w1: "w1 = w\<lparr>jobs := tbl\<rparr>"
    using assms by (auto simp: check_last_def Let_def split: if_splits sum.splits option.splits prod.splits)
  with g GetLast_Some(1) show ?thesis by fastforce
qed

lemma check_stale_id: "check_last conf a w = (CheckStale i, w1) \<Longrightarrow> i \<noteq> []"
  by (auto simp: check_last_def split: if_splits sum.splits option.splits prod.splits dest: GetLast_Some(2))

text \<open>The steps from the end of the wait loop to the executor, without interruption.\<close>

definition run_on :: "worker_conf \<Rightarrow> answers \<Rightarrow> task \<Rightarrow> wstate \<Rightarrow> wstate" where
  "run_on conf a t w =
     release_lock (lock_released a) t (log_started conf (set_ok a) t (name_job t (mark_stale conf (set_old_ok a) t
       (check_job conf a t (take_lock a t (end_wait t w))))))"

text \<open>The steps after the executor, without interruption, if it reported no error.\<close>

definition run_out :: "worker_conf \<Rightarrow> bool \<Rightarrow> task \<Rightarrow> wstate \<Rightarrow> wstate" where
  "run_out conf ok t w = end_run t (close_run t (log_done conf ok t (executor_returns Ok t w)))"

lemma from_going:
  assumes "runs w t = Some Going" "set_ok a" "lock_released a"
  shows "runs (release_lock (lock_released a) t (log_started conf (set_ok a) t (name_job t w))) t = Some Executing"
proof -
  let ?w = "(go t Starting w)\<lparr>jobId := format_datetime (now w)\<rparr>"
  obtain w1 where r: "set_job conf True (jobId ?w) ''started'' [] ?w = (Ok, w1)"
    using set_job_Ok [of "jobId ?w"] by fastforce
  then show ?thesis using assms by (simp add: name_job_def log_started_def release_lock_def)
qed

lemma to_locked:
  assumes "runs w t = Some (Waiting False)" "lock_made a" "lock_acquired a"
  shows "take_lock a t (end_wait t w) = (go t Locked w)\<lparr>flag := True\<rparr>"
  using assms by (simp add: end_wait_def take_lock_def go_def)

section \<open>Properties\<close>

definition sample_conf :: "int \<Rightarrow> worker_conf" where
  "sample_conf startup = with_defaults \<lparr>conf_Name = ''sync-stremio-trakt'', Interval = 1800, HeartbeatInterval = 0,
     RunExclusive = True, RunAtStartupAfter = startup\<rparr>"

definition sample_idle :: wstate where
  "sample_idle = \<lparr>now = 1000000, jobId = [], flag = False, jobs = [], runs = (\<lambda>_. None), beats = [], startup_left = True, crashed = False\<rparr>"

definition sample_answers :: answers where
  "sample_answers = \<lparr>lock_made = True, lock_acquired = True, lock_released = True, getlast_ok = True, delete_ok = True,
     set_old_ok = True, set_ok = True\<rparr>"

text \<open>The clone waits, then the regular task.\<close>

definition sample_waiting :: wstate where
  "sample_waiting = enter Regular False (enter Startup False (sample_idle\<lparr>startup_left := False\<rparr>))"

definition sample_both :: wstate where
  "sample_both = run_on (sample_conf 300) sample_answers Startup sample_waiting"

definition sample_busy :: wstate where
  "sample_busy = run_on (sample_conf 0) sample_answers Regular (enter Regular False sample_idle)"

lemma sample_init: "task_init sample_idle"
  by (simp add: task_init_def sample_idle_def keyed_def)

lemma frame_crashed [simp]:
  "crashed (enter t skip w) = crashed w" "crashed (end_wait t w) = crashed w" "crashed (take_lock a t w) = crashed w"
  "crashed (check_job conf a t w) = crashed w" "crashed (mark_stale conf ok t w) = crashed w" "crashed (name_job t w) = crashed w"
  "crashed (log_started conf ok t w) = crashed w" "crashed (release_lock ok t w) = crashed w"
  by (auto simp: enter_def run_steps Let_def split: option.splits run_phase.splits outcome.splits last_check.splits prod.splits
      dest: set_job_pair(7) check_last_pair(7))

lemma reach_also:
  assumes "reachable init (\<lambda>w e w'. P \<and> task_step conf w e w') w" and "P" and "task_step conf w e w'"
  shows "reachable init (\<lambda>w e w'. P \<and> task_step conf w e w') w'"
  using reach_step [OF assms(1), of e w'] assms(2,3) by blast

lemma reachable_run_on:
  assumes "reachable init (\<lambda>w e w'. P \<and> task_step conf w e w') w" and "P" and "\<not> crashed w"
  shows "reachable init (\<lambda>w e w'. P \<and> task_step conf w e w') (run_on conf a t w)"
  unfolding run_on_def
  by (rule reach_also [OF _ assms(2) step_release_lock], rule reach_also [OF _ assms(2) step_log_started],
      rule reach_also [OF _ assms(2) step_name_job], rule reach_also [OF _ assms(2) step_mark_stale],
      rule reach_also [OF _ assms(2) step_check_job], rule reach_also [OF _ assms(2) step_take_lock],
      rule reach_also [OF assms(1,2) step_end_wait]) (simp_all add: assms(3))

lemma sample_both_reachable: "reachable task_init (task_step (sample_conf 300)) sample_both"
proof -
  let ?c = "sample_conf 300" and ?w0 = "enter Startup False (sample_idle\<lparr>startup_left := False\<rparr>)"
  have "task_step ?c sample_idle (Enter Startup) ?w0"
    by (rule step_enter_startup) (simp_all add: sample_idle_def sample_conf_def with_defaults_def)
  moreover have "task_step ?c ?w0 (Enter Regular) sample_waiting"
    unfolding sample_waiting_def by (rule step_enter) (simp_all add: enter_def sample_idle_def go_def)
  ultimately have "reachable task_init (\<lambda>w e w'. True \<and> task_step ?c w e w') sample_waiting"
    using reach_init [of task_init, OF sample_init] by (simp, blast intro: reach_step)
  from reachable_run_on [OF this] show ?thesis unfolding sample_both_def by (simp add: sample_waiting_def sample_idle_def)
qed

lemma sample_busy_reachable:
  "reachable (\<lambda>w. RunAtStartupAfter (sample_conf 0) = 0 \<and> task_init w)
     (\<lambda>w e w'. RunAtStartupAfter (sample_conf 0) = 0 \<and> task_step (sample_conf 0) w e w') sample_busy"
proof -
  let ?c = "sample_conf 0"
  have c: "RunAtStartupAfter ?c = 0" by (simp add: sample_conf_def with_defaults_def)
  have "task_step ?c sample_idle (Enter Regular) (enter Regular False sample_idle)"
    by (rule step_enter) (simp_all add: sample_idle_def)
  with c sample_init have "reachable (\<lambda>w. RunAtStartupAfter ?c = 0 \<and> task_init w)
     (\<lambda>w e w'. RunAtStartupAfter ?c = 0 \<and> task_step ?c w e w') (enter Regular False sample_idle)"
    by (blast intro: reach_step reach_init)
  from reachable_run_on [OF this c] show ?thesis unfolding sample_busy_def by (simp add: sample_idle_def)
qed

definition sample_row :: JobLog where
  "sample_row = \<lparr>jl_name = ''sync-stremio-trakt'', jl_id = format_datetime 1000000, jl_status = ''started'',
     jl_data = ''null'', jl_error = [], jl_created = 1000000, jl_updated = 1000000, jl_expires = 1259200\<rparr>"

lemmas sample_defs = sample_conf_def with_defaults_def sample_answers_def sample_row_def job_tracker_def

lemmas task_defs = enter_def run_on_def run_steps go_def check_last_def set_job_def tracker_Set_def SaveJobLog_def
  tracker_GetLast_def GetLastJobLog_def Let_def

lemma sample_busy_eq:
  "sample_busy = \<lparr>now = 1000000, jobId = format_datetime 1000000, flag = True, jobs = [sample_row],
     runs = (\<lambda>_. None)(Regular \<mapsto> Executing), beats = [\<lparr>bt_task = Regular, bt_closed = False, bt_state = Resting\<rparr>],
     startup_left = True, crashed = False\<rparr>"
  by (simp add: sample_busy_def sample_idle_def sample_defs task_defs)

lemma sample_both_eq:
  "sample_both = \<lparr>now = 1000000, jobId = format_datetime 1000000, flag = True, jobs = [sample_row],
     runs = (\<lambda>_. None)(Regular \<mapsto> Waiting False, Startup \<mapsto> Executing),
     beats = [\<lparr>bt_task = Startup, bt_closed = False, bt_state = Resting\<rparr>], startup_left = False, crashed = False\<rparr>"
  by (simp add: sample_both_def sample_waiting_def sample_idle_def sample_defs task_defs fun_upd_twist)

text \<open>A run whose executor succeeded and whose calls are accepted ends with its job done.\<close>

lemma run_out_done:
  assumes "runs w t = Some Executing" and "jobId w \<noteq> []" and "wf_jobs (jobs w)"
  shows "let w' = run_out conf True t w
    in (\<forall>st. has_status conf (jobs w') (jobId w) st \<longleftrightarrow> st = ''done'') \<and> jobId w' = [] \<and> \<not> flag w' \<and> runs w' t = None"
proof -
  let ?w = "go t Marking w"
  obtain w1 where r: "set_job conf True (jobId ?w) ''done'' [] ?w = (Ok, w1)"
    using set_job_Ok [of "jobId ?w"] assms(2) by fastforce
  then have "\<forall>st. has_status conf (jobs w1) (jobId w) st \<longleftrightarrow> st = ''done''"
    using has_status_set [of ?w conf True "jobId ?w" "''done''" "[]"] assms(3) by simp
  moreover have "run_out conf True t w = end_run t (close_run t (go t (Closing Ok) w1))"
    using assms(1) r by (simp add: run_out_def executor_returns_def log_done_def)
  ultimately show ?thesis by (simp add: close_run_def end_run_def Let_def)
qed

text \<open>
  C19: (invariant) For a worker without a start-up clone, in one process, however the steps of its run, of its heartbeats
  and of time interleave: whenever the executor runs, the flag of \<open>running_worker\<close> is up, a job id is set and that job is logged as
  started; whenever no run is there, the flag is down and no job id is set. If the executor returns without an error and the
  call that logs it succeeds, and no heartbeat comes between the last steps of the run, the job, and no other status of it, is
  done and the worker is idle.
\<close>

theorem single_worker_consistent:
  assumes "reachable (\<lambda>w. RunAtStartupAfter conf = 0 \<and> task_init w)
      (\<lambda>w e w'. RunAtStartupAfter conf = 0 \<and> task_step conf w e w') w"
  shows "(runs w Regular = Some Executing \<longrightarrow> flag w \<and> jobId w \<noteq> [] \<and> has_status conf (jobs w) (jobId w) ''started'')
    \<and> (runs w Regular = None \<longrightarrow> \<not> flag w \<and> jobId w = [])
    \<and> (runs w Regular = Some Executing \<longrightarrow>
        (let w' = run_out conf True Regular w
         in has_status conf (jobs w') (jobId w) ''done'' \<and> \<not> has_status conf (jobs w') (jobId w) ''started''
            \<and> jobId w' = [] \<and> \<not> flag w' \<and> runs w' Regular = None))"
proof -
  have inv: "single_inv conf w" by (rule single.reachable_inv [OF assms])
  then have state: "runs w Regular = Some Executing \<Longrightarrow> busy conf w" "runs w Regular = None \<Longrightarrow> idle w"
    by (simp_all add: single_inv_def)
  have wf: "wf_jobs (jobs w)" using inv by (simp add: single_inv_def)
  show ?thesis
    using state run_out_done [of w Regular conf] wf by (auto simp: busy_def idle_def Let_def)
qed

theorem single_worker_consistent_witness:
  "flag sample_busy \<and> jobId (run_out (sample_conf 0) True Regular sample_busy) = []
    \<and> has_status (sample_conf 0) (jobs (run_out (sample_conf 0) True Regular sample_busy)) (jobId sample_busy) ''done''"
proof -
  have "runs sample_busy Regular = Some Executing" by (simp add: sample_busy_eq)
  then show ?thesis using single_worker_consistent [OF sample_busy_reachable] by (simp add: Let_def)
qed

text \<open>
  (error) A heartbeat that has read the job id before the executor returns, and writes after the job was logged as done, logs
  it as started again: the run is over without an error and nothing will ever mark the job as done.
\<close>

theorem late_heartbeat_reopens_job:
  assumes "runs w t = Some Executing" and "jobId w \<noteq> []" and "wf_jobs (jobs w)" and "k < length (beats w)"
    and "bt_state (beats w ! k) = Resting" and "\<not> crashed w"
  shows "let w1 = beat_read k (beat_tick k w); w2 = log_done conf True t (executor_returns Ok t w1);
      w3 = end_run t (close_run t (beat_write conf True k w2))
    in has_status conf (jobs w2) (jobId w) ''done'' \<and> runs w3 t = None \<and> \<not> crashed w3
      \<and> has_status conf (jobs w3) (jobId w) ''started'' \<and> \<not> has_status conf (jobs w3) (jobId w) ''done''"
proof -
  define w1 where "w1 = beat_read k (beat_tick k w)"
  have w1: "runs w1 t = Some Executing" "jobId w1 = jobId w" "jobs w1 = jobs w" "bt_state (beats w1 ! k) = Writing (jobId w)"
      "crashed w1 = crashed w"
    using assms by (simp_all add: w1_def beat_read_def beat_tick_def)
  let ?w = "go t Marking w1"
  obtain v where r: "set_job conf True (jobId ?w) ''done'' [] ?w = (Ok, v)"
    using set_job_Ok [of "jobId ?w"] assms(2) w1 by fastforce
  define w2 where "w2 = log_done conf True t (executor_returns Ok t w1)"
  have w2: "w2 = go t (Closing Ok) v" using w1 r by (simp add: w2_def executor_returns_def log_done_def)
  note f = set_job_pair [OF r]
  have "has_status conf (jobs w2) (jobId w) ''done''"
    using has_status_set [of ?w conf True "jobId ?w" "''done''" "[]" "''done''"] r assms(3) w1 by (simp add: w2)
  moreover have wf2: "wf_jobs (jobs w2)" using wf_jobs_set' [OF r] assms(3) w1 by (simp add: w2)
  obtain u where u: "set_job conf True (jobId w) ''started'' [] w2 = (Ok, u)" using set_job_Ok [OF assms(2)] by blast
  have b: "beat_write conf True k w2 = put_beat k Resting u" using w1 f u by (simp add: beat_write_def w2)
  note g = set_job_pair [OF u]
  have "end_run t (close_run t (put_beat k Resting u)) = end_run t (close_run t (beat_write conf True k w2))" by (simp add: b)
  moreover have "runs (put_beat k Resting u) t = Some (Closing Ok)" using g by (simp add: w2)
  then have "runs (end_run t (close_run t (put_beat k Resting u))) t = None \<and> jobs (end_run t (close_run t (put_beat k Resting u))) = jobs u
      \<and> crashed (end_run t (close_run t (put_beat k Resting u))) = crashed w"
    using f g w1 by (simp add: close_run_def end_run_def Let_def w2)
  moreover have "has_status conf (jobs u) (jobId w) st \<longleftrightarrow> st = ''started''" for st
    using has_status_set [OF wf2, of conf True "jobId w" "''started''" "[]"] u by simp
  ultimately show ?thesis using assms(6) by (simp add: Let_def w1_def [symmetric] w2_def [symmetric])
qed

theorem late_heartbeat_reopens_job_witness:
  "has_status (sample_conf 0) (jobs (end_run Regular (close_run Regular (beat_write (sample_conf 0) True 0
      (log_done (sample_conf 0) True Regular (executor_returns Ok Regular (beat_read 0 (beat_tick 0 sample_busy)))))))) (jobId sample_busy) ''started''"
proof -
  have "runs sample_busy Regular = Some Executing" "jobId sample_busy \<noteq> []" "wf_jobs (jobs sample_busy)"
      "0 < length (beats sample_busy)" "bt_state (beats sample_busy ! 0) = Resting" "\<not> crashed sample_busy"
    by (simp_all add: sample_busy_eq wf_jobs_def keyed_def sample_row_def)
  from late_heartbeat_reopens_job [OF this, of "sample_conf 0"] show ?thesis by (simp add: Let_def)
qed

text \<open>
  (error) A heartbeat that has seen the job id, and reads it again for its call only after the run has ended, panics in its
  goroutine, which takes the process down.
\<close>

theorem late_heartbeat_crashes:
  assumes "runs w t = Some Executing" and "jobId w \<noteq> []" and "wf_jobs (jobs w)" and "k < length (beats w)" and "bt_state (beats w ! k) = Resting"
  shows "crashed (beat_read k (run_out conf True t (beat_tick k w)))"
proof -
  have "jobId (run_out conf True t (beat_tick k w)) = []"
    using run_out_done [of "beat_tick k w" t conf] assms by (simp add: beat_tick_def Let_def)
  then show ?thesis by (simp add: beat_read_def)
qed

theorem late_heartbeat_crashes_witness:
  "crashed (beat_read 0 (run_out (sample_conf 0) True Regular (beat_tick 0 sample_busy)))"
  by (rule late_heartbeat_crashes) (simp_all add: sample_busy_eq wf_jobs_def keyed_def sample_row_def)

text \<open>
  (functional) An exclusive worker whose lock was taken runs its executor exactly if it has no unexpired last job, or
  the last job failed, was done at least an interval ago (from its creation), or lost its heartbeat for the heartbeat
  interval plus the tolerance; otherwise it returns without a trace in the log. This is about its steps without an
  interruption.
\<close>

theorem exclusive_runs_iff:
  assumes "runs w t = Some (Waiting False)" and "wf_jobs (jobs w)" and "RunExclusive conf" and "lock_made a" and "lock_acquired a"
    and "lock_released a" and "getlast_ok a" and "set_ok a"
  shows "(runs (run_on conf a t w) t = Some Executing \<longleftrightarrow> may_run conf (now w) (jobs w))
    \<and> (\<not> may_run conf (now w) (jobs w) \<longrightarrow> jobs (run_on conf a t w) = jobs w \<and> runs (run_on conf a t w) t = Some (Closing Ok))"
proof -
  let ?w0 = "(go t Locked w)\<lparr>flag := True\<rparr>"
  obtain c w1 where c: "check_last conf a ?w0 = (c, w1)" by force
  note f = check_last_pair [OF c]
  have on: "run_on conf a t w = release_lock (lock_released a) t (log_started conf (set_ok a) t (name_job t
      (mark_stale conf (set_old_ok a) t (check_job conf a t ?w0))))"
    using assms by (simp add: run_on_def to_locked)
  have dec: "if may_run conf (now w) (jobs w) then c \<in> {CheckGo} \<union> range CheckStale else c = CheckSkip"
    using check_last_may_run [of ?w0 conf a] assms c by (simp split: if_splits)
  have "runs (run_on conf a t w) t = Some Executing" if g: "c = CheckGo \<or> (\<exists>i. c = CheckStale i)"
  proof -
    obtain u where u: "mark_stale conf (set_old_ok a) t (check_job conf a t ?w0) = u" "runs u t = Some Going"
    proof (cases "c = CheckGo")
      case True
      then show ?thesis using c by (intro that [of "go t Going w1"]) (simp_all add: check_job_def mark_stale_def)
    next
      case False
      then obtain i where i: "c = CheckStale i" using g by blast
      have "i \<noteq> []" using check_stale_id c i by blast
      obtain r v where r: "set_job conf (set_old_ok a) i ''failed'' ''heartbeat timed out'' (go t (Stale i) w1) = (r, v)" by force
      have "\<nexists>e. r = Panicked e" using r \<open>i \<noteq> []\<close> by (auto simp: set_job_def tracker_Set_def split: option.splits prod.splits)
      then show ?thesis using c i r
        by (intro that [of "go t Going v"]) (auto simp: check_job_def mark_stale_def split: outcome.splits)
    qed
    show ?thesis unfolding on u(1) by (rule from_going [OF u(2) assms(8,6)])
  qed
  moreover have "run_on conf a t w = go t (Closing Ok) w1" if "c = CheckSkip"
    unfolding on using c that by (simp add: check_job_def mark_stale_def name_job_def log_started_def release_lock_def)
  moreover have "jobs w1 = jobs w" if "c = CheckSkip" using check_skip_jobs [of conf a ?w0 w1] c that by simp
  ultimately show ?thesis using dec by (auto split: if_splits)
qed

theorem exclusive_runs_iff_witness:
  "runs (run_on (sample_conf 0) sample_answers Regular (enter Regular False sample_idle)) Regular = Some Executing"
proof -
  let ?w = "enter Regular False sample_idle"
  have "runs ?w Regular = Some (Waiting False)" "wf_jobs (jobs ?w)" "may_run (sample_conf 0) (now ?w) (jobs ?w)"
    by (simp_all add: enter_def wf_jobs_def keyed_def may_run_def sample_idle_def)
  then show ?thesis
    using exclusive_runs_iff [of ?w Regular "sample_conf 0" sample_answers]
    by (simp add: sample_answers_def sample_conf_def with_defaults_def)
qed

text \<open>
  (error) A run that begins while another run of the worker executes (the start-up clone and the regular
  task are not kept apart) clears the running flag when it returns, without having executed anything: the
  workers that wait for this one go ahead while its executor is still running.
\<close>

theorem overlapping_run_clears_flag:
  assumes "runs w t = Some Executing" and "t' \<noteq> t" and "runs w t' = None" and "jobId w \<noteq> []"
  shows "let w' = end_run t' (take_lock a t' (end_wait t' (enter t' False w)))
    in runs w' t = Some Executing \<and> runs w' t' = None \<and> \<not> flag w' \<and> jobId w' = jobId w \<and> jobs w' = jobs w"
  using assms by (simp add: enter_def end_wait_def take_lock_def end_run_def Let_def)

theorem overlapping_run_clears_flag_witness:
  "\<not> flag (end_run Startup (take_lock sample_answers Startup (end_wait Startup (enter Startup False sample_busy))))"
proof -
  have "runs sample_busy Regular = Some Executing" and "runs sample_busy Startup = None" and "jobId sample_busy \<noteq> []"
    by (simp_all add: sample_busy_eq)
  from overlapping_run_clears_flag [OF this(1) _ this(2,3), of sample_answers] show ?thesis
    by (simp add: Let_def)
qed

text \<open>
  (error) When two runs of an exclusive worker were both waiting and one has begun to execute, the other finds the
  job fresh, returns, and erases the job id: the heartbeats of the executing run stop, and when its executor
  succeeds the job is never marked as done but stays logged as started.
\<close>

theorem overlapping_run_loses_job:
  assumes "reachable task_init (task_step conf) w"
    and "runs w t = Some Executing" and "runs w t' = Some (Waiting False)" and "t' \<noteq> t"
    and "RunExclusive conf" and "\<not> may_run conf (now w) (jobs w)"
    and "lock_made a" and "lock_acquired a" and "lock_released a" and "getlast_ok a" and "set_ok a"
    and "has_status conf (jobs w) (jobId w) ''started''"
  shows "let w1 = end_run t' (close_run t' (run_on conf a t' w)); w2 = reset_job t (log_failed conf ok t (run_out conf ok' t w1))
    in jobId w1 = [] \<and> \<not> flag w1 \<and> runs w1 t = Some Executing \<and> beat_tick k w1 = drop_beat k w1
      \<and> runs w2 t = None \<and> jobs w2 = jobs w \<and> has_status conf (jobs w2) (jobId w) ''started''"
proof -
  have wf: "wf_jobs (jobs w)" by (rule table.reachable_inv [OF assms(1)])
  have skip: "jobs (run_on conf a t' w) = jobs w" "runs (run_on conf a t' w) t' = Some (Closing Ok)"
    using exclusive_runs_iff [OF assms(3) wf assms(5,7-11)] assms(6) by blast+
  have other: "runs (run_on conf a t' w) t = runs w t"
  proof -
    have "runs (check_job conf a t' u) t = runs u t" "runs (mark_stale conf ok t' u) t = runs u t" "runs (log_started conf ok t' u) t = runs u t" for u ok
      using assms(4)
      by (auto simp: check_job_def mark_stale_def log_started_def split: option.splits run_phase.splits last_check.splits outcome.splits prod.splits
          dest: check_last_pair(4) set_job_pair(4))
    moreover have "runs (end_wait t' u) t = runs u t" "runs (take_lock a t' u) t = runs u t" "runs (name_job t' u) t = runs u t"
        "runs (release_lock ok t' u) t = runs u t" for u ok
      using assms(4) by (auto simp: end_wait_def take_lock_def name_job_def release_lock_def split: option.splits run_phase.splits)
    ultimately show ?thesis by (simp add: run_on_def)
  qed
  define w1 where "w1 = end_run t' (close_run t' (run_on conf a t' w))"
  have w1: "jobId w1 = []" "\<not> flag w1" "runs w1 t = Some Executing" "jobs w1 = jobs w"
    using skip other assms(2,4) by (simp_all add: w1_def close_run_def end_run_def Let_def)
  let ?e = "''something went wrong''"
  have "run_out conf ok' t w1 = (go t (Erring ?e) (run_out conf ok' t w1))" "jobs (run_out conf ok' t w1) = jobs w1"
      "runs (run_out conf ok' t w1) t = Some (Erring ?e)" "jobId (run_out conf ok' t w1) = []"
    using w1 by (simp_all add: run_out_def executor_returns_def log_done_def set_job_empty close_run_def end_run_def Let_def go_def)
  then have "runs (reset_job t (log_failed conf ok t (run_out conf ok' t w1))) t = None
      \<and> jobs (reset_job t (log_failed conf ok t (run_out conf ok' t w1))) = jobs w"
    using w1 by (simp add: log_failed_def set_job_empty reset_job_def)
  then show ?thesis using w1 assms(12) by (simp add: Let_def w1_def [symmetric] beat_tick_def)
qed

theorem overlapping_run_loses_job_witness:
  "jobs (reset_job Startup (log_failed (sample_conf 300) True Startup (run_out (sample_conf 300) True Startup
      (end_run Regular (close_run Regular (run_on (sample_conf 300) sample_answers Regular sample_both))))))
    = jobs sample_both"
proof -
  have "runs sample_both Startup = Some Executing" and "runs sample_both Regular = Some (Waiting False)"
    and "\<not> may_run (sample_conf 300) (now sample_both) (jobs sample_both)"
    and "has_status (sample_conf 300) (jobs sample_both) (jobId sample_both) ''started''"
    by (simp_all add: sample_both_eq sample_defs may_run_def expired_def has_status_def is_row_def)
  with overlapping_run_loses_job [OF sample_both_reachable, of Startup Regular sample_answers True True 0] show ?thesis
    by (simp add: Let_def sample_conf_def with_defaults_def sample_answers_def)
qed

end
