(* ===== verification/Advisory_Lock.thy ===== *)
theory Advisory_Lock
  imports Prelude "HOL-Library.AList" "HOL-Library.Word"
begin

text \<open>
  The advisory locks of \<open>internal/db/advisory_lock.go\<close>, in the variant for SQLite (a flag in the
  process) and the one for Postgres (session locks of the server, each taken inside a transaction of its own).

  The Postgres server is a parameter: \<open>trylock\<close> and \<open>unlock\<close> are the answers of
  \<open>pg_try_advisory_lock\<close> and \<open>pg_advisory_unlock\<close> (\<open>None\<close> when the query fails)
  with the new state of the server, and \<open>holds\<close> is how often a session holds a key. The hypothesis
  \<open>advisory_server\<close> says what the Postgres manual promises of them. A call on a lock whose
  transaction is closed is a nil dereference, the result \<open>None\<close> of the operations.
\<close>

section \<open>Keys\<close>

text \<open>\<open>crc32.ChecksumIEEE\<close>.\<close>

definition crc_bit :: "32 word \<Rightarrow> 32 word" where
  "crc_bit c = (if bit c 0 then xor (drop_bit 1 c) 0xEDB88320 else drop_bit 1 c)"

definition crc_byte :: "32 word \<Rightarrow> char \<Rightarrow> 32 word" where
  "crc_byte c b = (crc_bit ^^ 8) (xor c (of_nat (of_char b)))"

definition ChecksumIEEE :: "string \<Rightarrow> 32 word" where
  "ChecksumIEEE s = not (foldl crc_byte (not 0) s)"

definition stremthruChecksum :: "32 word" where
  "stremthruChecksum = ChecksumIEEE ''STREMTHRU''"

definition getAdvisoryLockKeyPair :: "string list \<Rightarrow> 32 word \<times> 32 word" where
  "getAdvisoryLockKeyPair names = (stremthruChecksum, ChecksumIEEE (go_join [CHR 0x00] names))"

section \<open>SQLite\<close>

record sqliteAdvisoryLock =
  sq_name :: string
  locked :: bool








text \<open>The locks of the process by name; \<open>sqliteNewAdvisoryLock\<close> gives the name under which the lock lives.\<close>

definition sqliteNewAdvisoryLock :: "string list \<Rightarrow> (string \<times> sqliteAdvisoryLock) list
    \<Rightarrow> string \<times> (string \<times> sqliteAdvisoryLock) list" where
  "sqliteNewAdvisoryLock names m =
     (let name = go_join '':'' names in
      case map_of m name of
        Some l \<Rightarrow> (name, m)
      | None \<Rightarrow> (name, AList.update name \<lparr>sq_name = name, locked = False\<rparr> m))"

section \<open>Postgres\<close>

record postgresAdvisoryLock =
  executor :: "nat option"
  pg_name :: string
  pg_count :: nat
  pg_err :: nat
  keyA :: "32 word"
  keyB :: "32 word"

type_synonym 'srv pg_call = "32 word \<times> 32 word \<Rightarrow> nat \<Rightarrow> 'srv \<Rightarrow> bool option \<times> 'srv"

definition pg_key :: "postgresAdvisoryLock \<Rightarrow> 32 word \<times> 32 word" where
  "pg_key l = (keyA l, keyB l)"

definition pg_commit :: "bool \<Rightarrow> postgresAdvisoryLock \<Rightarrow> postgresAdvisoryLock" where
  "pg_commit commit_ok l =
     (case executor l of None \<Rightarrow> l | Some s \<Rightarrow> if commit_ok then l\<lparr>executor := None\<rparr> else l)"

definition pg_Acquire :: "'srv pg_call \<Rightarrow> postgresAdvisoryLock \<Rightarrow> 'srv
    \<Rightarrow> (bool \<times> postgresAdvisoryLock \<times> 'srv) option" where
  "pg_Acquire acquire l srv =
     (case executor l of
        None \<Rightarrow> None
      | Some s \<Rightarrow>
          (case acquire (pg_key l) s srv of
             (None, srv') \<Rightarrow> Some (False, l\<lparr>pg_err := pg_err l + 1\<rparr>, srv')
           | (Some _, srv') \<Rightarrow> Some (True, l\<lparr>pg_count := pg_count l + 1\<rparr>, srv')))"

definition pg_TryAcquire :: "'srv pg_call \<Rightarrow> postgresAdvisoryLock \<Rightarrow> 'srv
    \<Rightarrow> (bool \<times> postgresAdvisoryLock \<times> 'srv) option" where
  "pg_TryAcquire trylock l srv =
     (case executor l of
        None \<Rightarrow> None
      | Some s \<Rightarrow>
          (case trylock (pg_key l) s srv of
             (None, srv') \<Rightarrow> Some (False, l\<lparr>pg_err := pg_err l + 1\<rparr>, srv')
           | (Some acquired, srv') \<Rightarrow>
               if \<not> acquired then Some (False, l, srv')
               else Some (acquired, l\<lparr>pg_count := pg_count l + 1\<rparr>, srv')))"

definition pg_Release :: "'srv pg_call \<Rightarrow> bool \<Rightarrow> postgresAdvisoryLock \<Rightarrow> 'srv
    \<Rightarrow> (bool \<times> postgresAdvisoryLock \<times> 'srv) option" where
  "pg_Release unlock commit_ok l srv =
     (if pg_count l = 0 then Some (False, pg_commit commit_ok l, srv)
      else case executor l of
        None \<Rightarrow> None
      | Some s \<Rightarrow>
          (case unlock (pg_key l) s srv of
             (None, srv') \<Rightarrow> Some (False, l\<lparr>pg_err := pg_err l + 1\<rparr>, srv')
           | (Some released, srv') \<Rightarrow>
               if \<not> released then Some (False, l, srv')
               else let l' = l\<lparr>pg_count := pg_count l - 1\<rparr> in
                 Some (True, if pg_count l' = 0 then pg_commit commit_ok l' else l', srv')))"

text \<open>The loop of \<open>ReleaseAll\<close>: at most as many releases as the count was at its start.\<close>

fun pg_release_loop :: "'srv pg_call \<Rightarrow> bool \<Rightarrow> nat \<Rightarrow> postgresAdvisoryLock \<Rightarrow> 'srv
    \<Rightarrow> (postgresAdvisoryLock \<times> 'srv) option" where
  "pg_release_loop unlock commit_ok 0 l srv = Some (l, srv)"
| "pg_release_loop unlock commit_ok (Suc n) l srv =
     (case pg_Release unlock commit_ok l srv of
        None \<Rightarrow> None
      | Some (ok, l', srv') \<Rightarrow> if \<not> ok then Some (l', srv') else pg_release_loop unlock commit_ok n l' srv')"

definition pg_ReleaseAll :: "'srv pg_call \<Rightarrow> bool \<Rightarrow> postgresAdvisoryLock \<Rightarrow> 'srv
    \<Rightarrow> (bool \<times> postgresAdvisoryLock \<times> 'srv) option" where
  "pg_ReleaseAll unlock commit_ok l srv =
     (if pg_count l = 0 then Some (False, pg_commit commit_ok l, srv)
      else case pg_release_loop unlock commit_ok (pg_count l) l srv of
        None \<Rightarrow> None
      | Some (l', srv') \<Rightarrow> Some (pg_count l' = 0, l', srv'))"

text \<open>\<open>session\<close> is the connection of the transaction that \<open>Begin\<close> opened, \<open>None\<close> when that failed.\<close>

definition postgresNewAdvisoryLock :: "nat option \<Rightarrow> string list \<Rightarrow> postgresAdvisoryLock option" where
  "postgresNewAdvisoryLock session names =
     (case session of
        None \<Rightarrow> None
      | Some s \<Rightarrow> (case getAdvisoryLockKeyPair names of
          (a, b) \<Rightarrow> Some \<lparr>executor = Some s, pg_name = go_join '':'' names, pg_count = 0, pg_err = 0, keyA = a, keyB = b\<rparr>))"

section \<open>Lemmas\<close>

text \<open>
  What the manual says of the three functions of the server: a lock is granted only while no other session
  holds the key, one session may take it several times, and unlocking gives one level back. \<open>pg_advisory_lock\<close>
  waits for the key: its call is taken at the moment it returns, when the server has granted the lock or the statement
  failed.
\<close>

definition advisory_server ::
    "'srv pg_call \<Rightarrow> 'srv pg_call \<Rightarrow> 'srv pg_call \<Rightarrow> ('srv \<Rightarrow> 32 word \<times> 32 word \<Rightarrow> nat \<Rightarrow> nat) \<Rightarrow> bool" where
  "advisory_server acquire trylock unlock holds \<longleftrightarrow>
     (\<forall>k s srv r srv'. acquire k s srv = (r, srv') \<longrightarrow>
        (if r \<noteq> None
         then (\<forall>s'. s' \<noteq> s \<longrightarrow> holds srv k s' = 0) \<and>
           holds srv' = (\<lambda>k' s'. if k' = k \<and> s' = s then holds srv k s + 1 else holds srv k' s')
         else holds srv' = holds srv)) \<and>
     (\<forall>k s srv r srv'. trylock k s srv = (r, srv') \<longrightarrow>
        (if r = Some True
         then (\<forall>s'. s' \<noteq> s \<longrightarrow> holds srv k s' = 0) \<and>
           holds srv' = (\<lambda>k' s'. if k' = k \<and> s' = s then holds srv k s + 1 else holds srv k' s')
         else holds srv' = holds srv)) \<and>
     (\<forall>k s srv r srv'. unlock k s srv = (r, srv') \<longrightarrow>
        (if r = Some True
         then holds srv' = (\<lambda>k' s'. if k' = k \<and> s' = s then holds srv k s - 1 else holds srv k' s')
         else holds srv' = holds srv))"

text \<open>The locks of all processes and the server, and the calls on them.\<close>

inductive pg_step :: "'srv pg_call \<Rightarrow> 'srv pg_call \<Rightarrow> 'srv pg_call \<Rightarrow> postgresAdvisoryLock list \<times> 'srv \<Rightarrow> nat
    \<Rightarrow> postgresAdvisoryLock list \<times> 'srv \<Rightarrow> bool"
  for acquire trylock unlock :: "'srv pg_call" where
  pg_new: "\<forall>l \<in> set ls. executor l \<noteq> Some s \<Longrightarrow> postgresNewAdvisoryLock (Some s) names = Some l
    \<Longrightarrow> pg_step acquire trylock unlock (ls, srv) (length ls) (ls @ [l], srv)"
| pg_acq: "i < length ls \<Longrightarrow> pg_Acquire acquire (ls ! i) srv = Some (ok, l, srv')
    \<Longrightarrow> pg_step acquire trylock unlock (ls, srv) i (ls[i := l], srv')"
| pg_try: "i < length ls \<Longrightarrow> pg_TryAcquire trylock (ls ! i) srv = Some (ok, l, srv')
    \<Longrightarrow> pg_step acquire trylock unlock (ls, srv) i (ls[i := l], srv')"
| pg_rel: "i < length ls \<Longrightarrow> pg_Release unlock commit_ok (ls ! i) srv = Some (ok, l, srv')
    \<Longrightarrow> pg_step acquire trylock unlock (ls, srv) i (ls[i := l], srv')"
| pg_rel_all: "i < length ls \<Longrightarrow> pg_ReleaseAll unlock commit_ok (ls ! i) srv = Some (ok, l, srv')
    \<Longrightarrow> pg_step acquire trylock unlock (ls, srv) i (ls[i := l], srv')"

inductive_cases pg_stepE: "pg_step acquire trylock unlock st e st'"

text \<open>
  The counts of the open locks are what their sessions hold, a closed lock counts zero, open locks
  have sessions of their own, and no two locks of one key are both held.
\<close>

definition pg_inv :: "('srv \<Rightarrow> 32 word \<times> 32 word \<Rightarrow> nat \<Rightarrow> nat) \<Rightarrow> postgresAdvisoryLock list \<times> 'srv \<Rightarrow> bool" where
  "pg_inv holds = (\<lambda>(ls, srv).
     (\<forall>i < length ls. \<forall>s. executor (ls ! i) = Some s \<longrightarrow>
        (\<forall>k. holds srv k s = (if k = pg_key (ls ! i) then pg_count (ls ! i) else 0))) \<and>
     (\<forall>l \<in> set ls. executor l = None \<longrightarrow> pg_count l = 0) \<and>
     (\<forall>s. Some s \<notin> executor ` set ls \<longrightarrow> (\<forall>k. holds srv k s = 0)) \<and>
     (\<forall>i < length ls. \<forall>j < length ls. i \<noteq> j \<longrightarrow> executor (ls ! i) \<noteq> None \<longrightarrow> executor (ls ! i) \<noteq> executor (ls ! j)) \<and>
     (\<forall>i < length ls. \<forall>j < length ls. i \<noteq> j \<longrightarrow> pg_key (ls ! i) = pg_key (ls ! j) \<longrightarrow>
        pg_count (ls ! i) = 0 \<or> pg_count (ls ! j) = 0))"

lemma pg_invD:
  assumes "pg_inv holds (ls, srv)"
  shows "i < length ls \<Longrightarrow> executor (ls ! i) = Some s \<Longrightarrow>
      holds srv k s = (if k = pg_key (ls ! i) then pg_count (ls ! i) else 0)"
    and "i < length ls \<Longrightarrow> executor (ls ! i) = None \<Longrightarrow> pg_count (ls ! i) = 0"
    and "Some s \<notin> executor ` set ls \<Longrightarrow> holds srv k s = 0"
    and "i < length ls \<Longrightarrow> j < length ls \<Longrightarrow> i \<noteq> j \<Longrightarrow> executor (ls ! i) = Some s \<Longrightarrow> executor (ls ! j) \<noteq> Some s"
    and "i < length ls \<Longrightarrow> j < length ls \<Longrightarrow> i \<noteq> j \<Longrightarrow> pg_key (ls ! i) = pg_key (ls ! j) \<Longrightarrow>
      pg_count (ls ! i) = 0 \<or> pg_count (ls ! j) = 0"
  using assms unfolding pg_inv_def prod.case by (meson nth_mem, meson nth_mem, meson, metis option.distinct(1), meson)

lemma pg_invI:
  assumes "\<And>i s k. i < length ls \<Longrightarrow> executor (ls ! i) = Some s \<Longrightarrow>
      holds srv k s = (if k = pg_key (ls ! i) then pg_count (ls ! i) else 0)"
    and "\<And>i. i < length ls \<Longrightarrow> executor (ls ! i) = None \<Longrightarrow> pg_count (ls ! i) = 0"
    and "\<And>s k. Some s \<notin> executor ` set ls \<Longrightarrow> holds srv k s = 0"
    and "\<And>i j s. i < length ls \<Longrightarrow> j < length ls \<Longrightarrow> i \<noteq> j \<Longrightarrow> executor (ls ! i) = Some s \<Longrightarrow> executor (ls ! j) \<noteq> Some s"
    and "\<And>i j. i < length ls \<Longrightarrow> j < length ls \<Longrightarrow> i \<noteq> j \<Longrightarrow> pg_key (ls ! i) = pg_key (ls ! j) \<Longrightarrow>
      pg_count (ls ! i) = 0 \<or> pg_count (ls ! j) = 0"
  shows "pg_inv holds (ls, srv)"
  unfolding pg_inv_def prod.case
proof (intro conjI)
  show "\<forall>l \<in> set ls. executor l = None \<longrightarrow> pg_count l = 0"
    using assms(2) by (metis in_set_conv_nth)
  show "\<forall>i < length ls. \<forall>j < length ls. i \<noteq> j \<longrightarrow> executor (ls ! i) \<noteq> None \<longrightarrow> executor (ls ! i) \<noteq> executor (ls ! j)"
    using assms(4) by (metis option.exhaust)
  show "\<forall>i < length ls. \<forall>s. executor (ls ! i) = Some s \<longrightarrow>
      (\<forall>k. holds srv k s = (if k = pg_key (ls ! i) then pg_count (ls ! i) else 0))"
    using assms(1) by (intro allI impI)
  show "\<forall>s. Some s \<notin> executor ` set ls \<longrightarrow> (\<forall>k. holds srv k s = 0)"
    using assms(3) by (intro allI impI)
  show "\<forall>i < length ls. \<forall>j < length ls. i \<noteq> j \<longrightarrow> pg_key (ls ! i) = pg_key (ls ! j) \<longrightarrow>
      pg_count (ls ! i) = 0 \<or> pg_count (ls ! j) = 0"
    using assms(5) by (intro allI impI)
qed

lemma pg_inv_update:
  assumes inv: "pg_inv holds (ls, srv)" and i: "i < length ls" and s: "executor (ls ! i) = Some s"
    and key: "pg_key l = pg_key (ls ! i)" and ex: "executor l = Some s \<or> executor l = None \<and> pg_count l = 0"
    and held: "holds srv' = (\<lambda>k' s'. if k' = pg_key (ls ! i) \<and> s' = s then pg_count l else holds srv k' s')"
    and grow: "pg_count l \<le> pg_count (ls ! i) \<or> (\<forall>s'. s' \<noteq> s \<longrightarrow> holds srv (pg_key (ls ! i)) s' = 0)"
  shows "pg_inv holds (ls[i := l], srv')"
proof -
  note D = pg_invD [OF inv]
  have mine: "holds srv k s = (if k = pg_key (ls ! i) then pg_count (ls ! i) else 0)" for k
    using D(1) [OF i s] .
  have other: "executor (ls ! j) \<noteq> Some s" if "j < length ls" "j \<noteq> i" for j
    using D(4) [OF i that(1) _ s] that by simp
  have free: "pg_count (ls ! j) = 0" if j: "j < length ls" "j \<noteq> i" "pg_key (ls ! j) = pg_key (ls ! i)" "0 < pg_count l" for j
  proof (cases "executor (ls ! j)")
    case None
    then show ?thesis by (rule D(2) [OF j(1)])
  next
    case (Some s')
    then have "s' \<noteq> s" using other j by auto
    then show ?thesis
      using grow D(1) [OF j(1) Some, of "pg_key (ls ! j)"] D(5) [OF j(1) i j(2,3)] j by auto
  qed
  have free: "pg_count l = 0 \<or> pg_count (ls ! j) = 0"
    if "j < length ls" "j \<noteq> i" "pg_key (ls ! j) = pg_key (ls ! i)" for j
    using free [OF that] by (cases "pg_count l = 0") simp_all
  show ?thesis
  proof (rule pg_invI)
    show "holds srv' k s' = (if k = pg_key (ls[i := l] ! j) then pg_count (ls[i := l] ! j) else 0)"
      if "j < length (ls[i := l])" "executor (ls[i := l] ! j) = Some s'" for j s' k
      using that mine D(1) [of j s' k] other ex key by (cases "j = i") (auto simp: held)
    show "pg_count (ls[i := l] ! j) = 0" if "j < length (ls[i := l])" "executor (ls[i := l] ! j) = None" for j
      using that ex D(2) [of j] by (cases "j = i") auto
    show "holds srv' k s' = 0" if "Some s' \<notin> executor ` set (ls[i := l])" for k s'
    proof (cases "s' = s")
      case True
      have "l \<in> set (ls[i := l])" using i by (rule set_update_memI)
      then have "executor l \<noteq> Some s" using that True by (metis image_eqI)
      with True ex mine show ?thesis by (simp add: held)
    next
      case False
      have "Some s' \<notin> executor ` set ls"
      proof
        assume "Some s' \<in> executor ` set ls"
        then obtain j where j: "j < length ls" "executor (ls ! j) = Some s'" by (auto simp: in_set_conv_nth)
        then have "j \<noteq> i" using s False by auto
        then have "ls ! j \<in> set (ls[i := l])"
          using j(1) by (metis length_list_update nth_list_update_neq nth_mem)
        with j(2) that show False by (metis image_eqI)
      qed
      with False show ?thesis by (simp add: held D(3))
    qed
    show "executor (ls[i := l] ! b) \<noteq> Some s'"
      if "a < length (ls[i := l])" "b < length (ls[i := l])" "a \<noteq> b" "executor (ls[i := l] ! a) = Some s'" for a b s'
      using that D(4) [of a b s'] other ex by (cases "a = i"; cases "b = i") auto
    show "pg_count (ls[i := l] ! a) = 0 \<or> pg_count (ls[i := l] ! b) = 0"
      if "a < length (ls[i := l])" "b < length (ls[i := l])" "a \<noteq> b" "pg_key (ls[i := l] ! a) = pg_key (ls[i := l] ! b)" for a b
      using that D(5) [of a b] free [of a] free [of b] key
      by (cases "a = i"; cases "b = i") auto
  qed
qed

text \<open>Each call keeps the invariant.\<close>

lemma pg_conf [simp]:
  "pg_key (l\<lparr>pg_count := n\<rparr>) = pg_key l" "pg_key (l\<lparr>pg_err := n\<rparr>) = pg_key l" "pg_key (l\<lparr>executor := x\<rparr>) = pg_key l"
  by (simp_all add: pg_key_def)

lemma pg_inv_same:
  assumes "pg_inv holds (ls, srv)" and "i < length ls" and "executor (ls ! i) = Some s"
    and "pg_key l = pg_key (ls ! i)" and "pg_count l = pg_count (ls ! i)"
    and "executor l = Some s \<or> executor l = None \<and> pg_count l = 0" and "holds srv' = holds srv"
  shows "pg_inv holds (ls[i := l], srv')"
proof (rule pg_inv_update [OF assms(1-4,6)])
  show "holds srv' = (\<lambda>k' s'. if k' = pg_key (ls ! i) \<and> s' = s then pg_count l else holds srv k' s')"
    using pg_invD(1) [OF assms(1-3), of "pg_key (ls ! i)"] assms(5,7) by (intro ext) auto
qed (simp add: assms(5))

lemma pg_inv_try:
  assumes "advisory_server acquire trylock unlock holds" and "pg_inv holds (ls, srv)" and "i < length ls"
    and "pg_TryAcquire trylock (ls ! i) srv = Some (ok, l, srv')"
  shows "pg_inv holds (ls[i := l], srv')"
proof -
  obtain s where s: "executor (ls ! i) = Some s" using assms(4) by (auto simp: pg_TryAcquire_def split: option.splits)
  obtain r srv1 where r: "trylock (pg_key (ls ! i)) s srv = (r, srv1)" by force
  note H = assms(1) [unfolded advisory_server_def, THEN conjunct2, THEN conjunct1, rule_format, OF r]
  note own = pg_invD(1) [OF assms(2,3) s, of "pg_key (ls ! i)"]
  show ?thesis
  proof (cases "r = Some True")
    case True
    with assms(4) s r have l: "l = (ls ! i)\<lparr>pg_count := pg_count (ls ! i) + 1\<rparr>" "srv' = srv1"
      by (simp_all add: pg_TryAcquire_def)
    show ?thesis
      by (rule pg_inv_update [OF assms(2,3) s]) (use H True l s own in \<open>auto intro!: ext\<close>)
  next
    case False
    with assms(4) s r have "pg_key l = pg_key (ls ! i)" "pg_count l = pg_count (ls ! i)" "executor l = Some s" "srv' = srv1"
      by (auto simp: pg_TryAcquire_def split: option.splits if_splits)
    with H False show ?thesis by (intro pg_inv_same [OF assms(2,3) s]) simp_all
  qed
qed

lemma pg_inv_acquire:
  assumes "advisory_server acquire trylock unlock holds" and "pg_inv holds (ls, srv)" and "i < length ls"
    and "pg_Acquire acquire (ls ! i) srv = Some (ok, l, srv')"
  shows "pg_inv holds (ls[i := l], srv')"
proof -
  obtain s where s: "executor (ls ! i) = Some s" using assms(4) by (auto simp: pg_Acquire_def split: option.splits)
  obtain r srv1 where r: "acquire (pg_key (ls ! i)) s srv = (r, srv1)" by force
  note H = assms(1) [unfolded advisory_server_def, THEN conjunct1, rule_format, OF r]
  note own = pg_invD(1) [OF assms(2,3) s, of "pg_key (ls ! i)"]
  show ?thesis
  proof (cases "r = None")
    case False
    with assms(4) s r have l: "l = (ls ! i)\<lparr>pg_count := pg_count (ls ! i) + 1\<rparr>" "srv' = srv1"
      by (auto simp: pg_Acquire_def)
    show ?thesis
      by (rule pg_inv_update [OF assms(2,3) s]) (use H False l s own in \<open>auto intro!: ext\<close>)
  next
    case True
    with assms(4) s r have "pg_key l = pg_key (ls ! i)" "pg_count l = pg_count (ls ! i)" "executor l = Some s" "srv' = srv1"
      by (auto simp: pg_Acquire_def)
    with H True show ?thesis by (intro pg_inv_same [OF assms(2,3) s]) simp_all
  qed
qed

lemma pg_inv_release:
  assumes "advisory_server acquire trylock unlock holds" and "pg_inv holds (ls, srv)" and "i < length ls"
    and "pg_Release unlock commit_ok (ls ! i) srv = Some (ok, l, srv')"
  shows "pg_inv holds (ls[i := l], srv')"
proof (cases "executor (ls ! i)")
  case None
  with pg_invD(2) [OF assms(2,3)] assms(4) have "l = ls ! i" "srv' = srv"
    by (simp_all add: pg_Release_def pg_commit_def)
  with assms(2) show ?thesis by simp
next
  case (Some s)
  show ?thesis
  proof (cases "pg_count (ls ! i) = 0")
    case True
    with assms(4) Some show ?thesis
      by (intro pg_inv_same [OF assms(2,3) Some]) (auto simp: pg_Release_def pg_commit_def split: if_splits)
  next
    case False
    obtain r srv1 where r: "unlock (pg_key (ls ! i)) s srv = (r, srv1)" by force
    note H = assms(1) [unfolded advisory_server_def, THEN conjunct2, THEN conjunct2, rule_format, OF r]
    note own = pg_invD(1) [OF assms(2,3) Some, of "pg_key (ls ! i)"]
    show ?thesis
    proof (cases "r = Some True")
      case True
      define l' where "l' = (ls ! i)\<lparr>pg_count := pg_count (ls ! i) - 1\<rparr>"
      from True assms(4) Some r False have l: "l = (if pg_count l' = 0 then pg_commit commit_ok l' else l')" "srv' = srv1"
        by (auto simp: pg_Release_def l'_def Let_def split: if_splits)
      have c: "pg_key l = pg_key (ls ! i)" "pg_count l = pg_count (ls ! i) - 1"
          "executor l = Some s \<or> executor l = None \<and> pg_count l = 0"
        using l Some by (auto simp: l'_def pg_commit_def)
      show ?thesis
        by (rule pg_inv_update [OF assms(2,3) Some c(1,3)]) (use H True c l own in \<open>auto intro!: ext\<close>)
    next
      case F: False
      with assms(4) Some r False have "pg_key l = pg_key (ls ! i)" "pg_count l = pg_count (ls ! i)" "executor l = Some s" "srv' = srv1"
        by (auto simp: pg_Release_def split: option.splits if_splits)
      with H F show ?thesis by (intro pg_inv_same [OF assms(2,3) Some]) simp_all
    qed
  qed
qed

lemma pg_inv_release_loop:
  assumes "advisory_server acquire trylock unlock holds" and "pg_inv holds (ls, srv)" and "i < length ls"
    and "pg_release_loop unlock commit_ok n (ls ! i) srv = Some (l, srv')"
  shows "pg_inv holds (ls[i := l], srv')"
  using assms(2-4)
proof (induction n arbitrary: ls srv)
  case 0
  then have "l = ls ! i" and "srv' = srv" by simp_all
  with 0 show ?case by simp
next
  case (Suc n)
  from Suc.prems(3) obtain ok l1 srv1 where r: "pg_Release unlock commit_ok (ls ! i) srv = Some (ok, l1, srv1)"
    by (auto split: option.splits)
  from pg_inv_release [OF assms(1) Suc.prems(1,2) r] have inv: "pg_inv holds (ls[i := l1], srv1)" .
  show ?case
  proof (cases ok)
    case True
    with Suc.prems(3) r have "pg_release_loop unlock commit_ok n (ls[i := l1] ! i) srv1 = Some (l, srv')"
      using Suc.prems(2) by simp
    from Suc.IH [OF inv _ this] Suc.prems(2) show ?thesis by simp
  next
    case False
    with Suc.prems(3) r inv show ?thesis by simp
  qed
qed

lemma pg_inv_release_all:
  assumes "advisory_server acquire trylock unlock holds" and "pg_inv holds (ls, srv)" and "i < length ls"
    and "pg_ReleaseAll unlock commit_ok (ls ! i) srv = Some (ok, l, srv')"
  shows "pg_inv holds (ls[i := l], srv')"
proof (cases "pg_count (ls ! i) = 0")
  case True
  with assms(4) have "pg_Release unlock commit_ok (ls ! i) srv = Some (ok, l, srv')"
    by (simp add: pg_ReleaseAll_def pg_Release_def)
  with assms show ?thesis by (intro pg_inv_release)
next
  case False
  with assms show ?thesis
    by (auto simp: pg_ReleaseAll_def split: option.splits intro: pg_inv_release_loop)
qed

lemma pg_inv_new:
  assumes inv: "pg_inv holds (ls, srv)" and free: "\<forall>l \<in> set ls. executor l \<noteq> Some s"
    and new: "postgresNewAdvisoryLock (Some s) names = Some l"
  shows "pg_inv holds (ls @ [l], srv)"
proof -
  have l: "executor l = Some s" "pg_count l = 0" using new by (auto simp: postgresNewAdvisoryLock_def split: prod.splits)
  note D = pg_invD [OF inv]
  have none: "holds srv k s = 0" for k using free by (intro D(3)) auto
  have at: "(ls @ [l]) ! i = (if i < length ls then ls ! i else l)" if "i < length (ls @ [l])" for i
    using that by (auto simp: nth_append)
  have old: "executor (ls ! i) \<noteq> Some s" if "i < length ls" for i using free that by auto
  show ?thesis
  proof (rule pg_invI)
    show "holds srv k s' = (if k = pg_key ((ls @ [l]) ! i) then pg_count ((ls @ [l]) ! i) else 0)"
      if "i < length (ls @ [l])" "executor ((ls @ [l]) ! i) = Some s'" for i s' k
      using that D(1) [of i s' k] none l at [OF that(1)] by (auto split: if_splits)
    show "pg_count ((ls @ [l]) ! i) = 0" if "i < length (ls @ [l])" "executor ((ls @ [l]) ! i) = None" for i
      using that D(2) [of i] l at [OF that(1)] by (auto split: if_splits)
    show "holds srv k s' = 0" if "Some s' \<notin> executor ` set (ls @ [l])" for s' k
      using that by (intro D(3)) auto
    show "executor ((ls @ [l]) ! j) \<noteq> Some s'"
      if "i < length (ls @ [l])" "j < length (ls @ [l])" "i \<noteq> j" "executor ((ls @ [l]) ! i) = Some s'" for i j s'
      using that D(4) [of i j s'] old [of i] old [of j] l at [OF that(1)] at [OF that(2)] by (auto split: if_splits)
    show "pg_count ((ls @ [l]) ! i) = 0 \<or> pg_count ((ls @ [l]) ! j) = 0"
      if "i < length (ls @ [l])" "j < length (ls @ [l])" "i \<noteq> j" "pg_key ((ls @ [l]) ! i) = pg_key ((ls @ [l]) ! j)" for i j
      using that D(5) [of i j] l at [OF that(1)] at [OF that(2)] by (auto split: if_splits)
  qed
qed

text \<open>The server without any lock, and no lock made yet.\<close>

definition pg_init :: "('srv \<Rightarrow> 32 word \<times> 32 word \<Rightarrow> nat \<Rightarrow> nat) \<Rightarrow> postgresAdvisoryLock list \<times> 'srv \<Rightarrow> bool" where
  "pg_init holds = (\<lambda>(ls, srv). ls = [] \<and> (\<forall>k s. holds srv k s = 0))"

lemma pg_inv_init: "pg_init holds st \<Longrightarrow> pg_inv holds st"
  by (simp add: pg_init_def pg_inv_def split: prod.splits)

lemma pg_inv_step:
  assumes "advisory_server acquire trylock unlock holds" and "pg_inv holds st" and "pg_step acquire trylock unlock st e st'"
  shows "pg_inv holds st'"
  using assms(3,2)
  by (elim pg_stepE) (simp_all add: pg_inv_new pg_inv_acquire [OF assms(1)] pg_inv_try [OF assms(1)] pg_inv_release [OF assms(1)] pg_inv_release_all [OF assms(1)])

interpretation pg_locks: guarded_system
    "\<lambda>st. advisory_server acquire trylock unlock holds \<and> pg_init holds st"
    "\<lambda>st e st'. advisory_server acquire trylock unlock holds \<and> pg_step acquire trylock unlock st e st'"
    "\<lambda>st. pg_inv holds st"
  for acquire trylock unlock :: "'srv pg_call" and holds
  by unfold_locales (auto intro: pg_inv_init pg_inv_step)






section \<open>Properties\<close>


text \<open>
  C4: on Postgres two locks on the same key, in whatever processes, are never both held, however the calls of
  \<open>Acquire\<close>, \<open>TryAcquire\<close>, \<open>Release\<close> and \<open>ReleaseAll\<close> on all locks are interleaved; while one is held,
  \<open>TryAcquire\<close> on the other fails and an \<open>Acquire\<close> does not return with the lock.
\<close>

theorem postgres_lock_excludes:
  assumes "advisory_server acquire trylock unlock holds"
    and "reachable (\<lambda>st. advisory_server acquire trylock unlock holds \<and> pg_init holds st)
      (\<lambda>st e st'. advisory_server acquire trylock unlock holds \<and> pg_step acquire trylock unlock st e st') (ls, srv)"
    and "i < length ls" and "j < length ls" and "i \<noteq> j" and "pg_key (ls ! i) = pg_key (ls ! j)"
    and "0 < pg_count (ls ! i)"
  shows "pg_count (ls ! j) = 0 \<and> (\<forall>ok l srv'. pg_TryAcquire trylock (ls ! j) srv = Some (ok, l, srv') \<longrightarrow> \<not> ok)
    \<and> (\<forall>ok l srv'. pg_Acquire acquire (ls ! j) srv = Some (ok, l, srv') \<longrightarrow> \<not> ok)"
proof -
  have inv: "pg_inv holds (ls, srv)" by (rule pg_locks.reachable_inv [OF assms(2)])
  have j: "pg_count (ls ! j) = 0" using pg_invD(5) [OF inv assms(3-6)] assms(7) by simp
  have free: False if "pg_inv holds (ls[j := l], srv')" "pg_count l = 1" "pg_key l = pg_key (ls ! j)" for l srv'
    using pg_invD(5) [OF that(1), of i j] assms(3-7) that(2,3) by simp
  have "\<not> ok" if t: "pg_TryAcquire trylock (ls ! j) srv = Some (ok, l, srv')" for ok l srv'
  proof
    assume ok
    with t have "pg_count l = 1" "pg_key l = pg_key (ls ! j)"
      using j by (auto simp: pg_TryAcquire_def split: option.splits prod.splits if_splits)
    then show False by (rule free [OF pg_inv_try [OF assms(1) inv assms(4) t]])
  qed
  moreover have "\<not> ok" if t: "pg_Acquire acquire (ls ! j) srv = Some (ok, l, srv')" for ok l srv'
  proof
    assume ok
    with t have "pg_count l = 1" "pg_key l = pg_key (ls ! j)"
      using j by (auto simp: pg_Acquire_def split: option.splits prod.splits)
    then show False by (rule free [OF pg_inv_acquire [OF assms(1) inv assms(4) t]])
  qed
  ultimately show ?thesis using j by blast
qed

text \<open>A server that keeps how often each session holds each key.\<close>

definition sample_try :: "(32 word \<times> 32 word \<Rightarrow> nat \<Rightarrow> nat) pg_call" where
  "sample_try k s h =
     (if \<forall>s'. s' \<noteq> s \<longrightarrow> h k s' = 0 then (Some True, h(k := (h k)(s := h k s + 1))) else (Some False, h))"

definition sample_acquire :: "(32 word \<times> 32 word \<Rightarrow> nat \<Rightarrow> nat) pg_call" where
  "sample_acquire k s h = (if \<forall>s'. s' \<noteq> s \<longrightarrow> h k s' = 0 then (Some True, h(k := (h k)(s := h k s + 1))) else (None, h))"

definition sample_unlock :: "(32 word \<times> 32 word \<Rightarrow> nat \<Rightarrow> nat) pg_call" where
  "sample_unlock k s h = (if 0 < h k s then (Some True, h(k := (h k)(s := h k s - 1))) else (Some False, h))"

lemma sample_server: "advisory_server sample_acquire sample_try sample_unlock id"
  unfolding advisory_server_def sample_acquire_def sample_try_def sample_unlock_def
  by (intro conjI allI impI) (auto split: if_splits intro!: ext)

theorem postgres_lock_excludes_witness:
  "\<not> fst (the (pg_TryAcquire sample_try (the (postgresNewAdvisoryLock (Some 1) [''worker'', ''x'']))
     ((\<lambda>_ _. 0)(getAdvisoryLockKeyPair [''worker'', ''x''] := (\<lambda>_. 0)(0 := 1)))))"
proof -
  let ?init = "\<lambda>st. advisory_server sample_acquire sample_try sample_unlock id \<and> pg_init id st"
  let ?step = "\<lambda>st e st'. advisory_server sample_acquire sample_try sample_unlock id \<and> pg_step sample_acquire sample_try sample_unlock st e st'"
  let ?h = "(\<lambda>_ _. 0)(getAdvisoryLockKeyPair [''worker'', ''x''] := (\<lambda>_. 0)(0 := 1))"
  let ?l1 = "\<lparr>executor = Some 1, pg_name = ''worker:x'', pg_count = 0, pg_err = 0,
    keyA = fst (getAdvisoryLockKeyPair [''worker'', ''x'']), keyB = snd (getAdvisoryLockKeyPair [''worker'', ''x''])\<rparr>"
  let ?l0 = "?l1\<lparr>executor := Some 0\<rparr>" and ?l0' = "?l1\<lparr>executor := Some 0, pg_count := 1\<rparr>"
  have "reachable ?init ?step ([], \<lambda>_ _. 0)"
    by (rule reach_init) (simp add: sample_server pg_init_def)
  moreover have "postgresNewAdvisoryLock (Some 0) [''worker'', ''x''] = Some ?l0"
    and new1: "postgresNewAdvisoryLock (Some 1) [''worker'', ''x''] = Some ?l1"
    by (simp_all add: postgresNewAdvisoryLock_def split_beta)
  ultimately have "reachable ?init ?step ([?l0], \<lambda>_ _. 0)"
    using pg_new [of "[]" 0 _ ?l0 sample_acquire sample_try sample_unlock "\<lambda>_ _. 0"] sample_server
    by (auto intro: reach_step)
  then have r2: "reachable ?init ?step ([?l0, ?l1], \<lambda>_ _. 0)"
    using pg_new [of "[?l0]" 1 _ ?l1 sample_acquire sample_try sample_unlock "\<lambda>_ _. 0"] new1 sample_server
    by (auto intro: reach_step)
  have "pg_TryAcquire sample_try ([?l0, ?l1] ! 0) (\<lambda>_ _. 0) = Some (True, ?l0', ?h)"
    by (simp add: pg_TryAcquire_def sample_try_def pg_key_def)
  then have r3: "reachable ?init ?step ([?l0', ?l1], ?h)"
    using r2 pg_try [of 0 "[?l0, ?l1]" sample_try "\<lambda>_ _. 0" _ _ _ sample_acquire] sample_server by (auto intro: reach_step)
  have "\<exists>ok l h'. pg_TryAcquire sample_try ?l1 ?h = Some (ok, l, h')"
    by (cases "sample_try (pg_key ?l1) 1 ?h"; cases "fst (sample_try (pg_key ?l1) 1 ?h)") (auto simp: pg_TryAcquire_def)
  then obtain ok l h' where t: "pg_TryAcquire sample_try ?l1 ?h = Some (ok, l, h')" by blast
  with postgres_lock_excludes [OF sample_server r3, of 0 1] have "\<not> ok" by (auto simp: pg_key_def)
  with t new1 show ?thesis by simp
qed

end
