(* ===== verification/Config.thy ===== *)
theory Config
  imports Core_Util Store_Ids "HOL-Library.AList" "HOL-Library.Sublist"
begin

text \<open>
  The configuration (\<open>internal/config/config.go\<close>, \<open>stremio.go\<close>, \<open>integration.go\<close>): environment
  variables with their defaults, the parsers of the single settings, the maps with their fall-backs, and the
  configuration that is put together from them.

  The environment is a function from variable names to optional values. \<open>log.Fatal\<close> and a panic at
  start-up are \<open>Inl\<close> of a \<open>fatal\<close>. Go maps are association lists. \<open>url.Parse\<close> is a
  parameter that gives the user name, the optional password and the text of the URL without them. Durations are nanoseconds.
\<close>

section \<open>Durations\<close>

text \<open>
  \<open>time.ParseDuration\<close>, with the fraction of a unit computed exactly (Go rounds a 64 bit float); more than
  18 digits of a fraction are cut off.
\<close>

definition unit_ns :: "string \<Rightarrow> int option" where
  "unit_ns u = map_of [(''ns'', 1), (''us'', 1000), (map char_of [194 :: nat, 181, 115], 1000), (map char_of [206 :: nat, 188, 115], 1000), (''ms'', 1000000), (''s'', 1000000000),
     (''m'', 60000000000), (''h'', 3600000000000)] u"

definition split_number :: "string \<Rightarrow> string \<times> string \<times> string" where
  "split_number s =
     (case dropWhile is_digit s of
        [] \<Rightarrow> (takeWhile is_digit s, [], [])
      | c # t \<Rightarrow> if c = CHR ''.'' then (takeWhile is_digit s, takeWhile is_digit t, dropWhile is_digit t)
                else (takeWhile is_digit s, [], c # t))"

definition unit_char :: "char \<Rightarrow> bool" where
  "unit_char c \<longleftrightarrow> c \<noteq> CHR ''.'' \<and> \<not> is_digit c"

definition duration_part :: "string \<Rightarrow> (int \<times> string) option" where
  "duration_part s =
     (case split_number s of (ds, fs, s2) \<Rightarrow>
        let v = digits_val 0 ds; fs' = take 18 fs
        in if (ds = [] \<and> fs = []) \<or> 2 ^ 63 < v then None
           else case unit_ns (takeWhile unit_char s2) of
             None \<Rightarrow> None
           | Some n \<Rightarrow>
               let d = v * n + digits_val 0 fs' * n div 10 ^ length fs'
               in if 2 ^ 63 < d then None else Some (d, dropWhile unit_char s2))"

lemma dropWhile_shorter: "length (dropWhile P s) \<le> length s"
  by (induction s) auto

lemma split_number_shorter:
  assumes "split_number s = (ds, fs, s2)"
  shows "length s2 \<le> length s"
proof (cases "dropWhile is_digit s")
  case (Cons c t)
  have "length (dropWhile is_digit t) \<le> length t" by (rule dropWhile_shorter)
  moreover have "length (c # t) \<le> length s" using dropWhile_shorter [of is_digit s] by (simp add: Cons)
  ultimately show ?thesis using assms by (auto simp: split_number_def Cons split: if_splits)
next
  case Nil
  then show ?thesis using assms unfolding split_number_def Nil by simp
qed

lemma unit_ns_Nil [simp]: "unit_ns [] = None"
  by (simp add: unit_ns_def)

lemma duration_part_shorter:
  assumes "duration_part s = Some (d, rest)"
  shows "length rest < length s"
proof -
  obtain ds fs s2 where s2: "split_number s = (ds, fs, s2)" by (cases "split_number s")
  with assms have "unit_ns (takeWhile unit_char s2) \<noteq> None" and rest: "rest = dropWhile unit_char s2"
    by (auto simp: duration_part_def Let_def split: if_splits option.splits)
  then have "takeWhile unit_char s2 \<noteq> []" by (metis unit_ns_Nil)
  moreover have "length (takeWhile unit_char s2) + length rest = length s2"
    unfolding rest by (metis length_append takeWhile_dropWhile_id)
  ultimately show ?thesis using split_number_shorter [OF s2] by (cases "takeWhile unit_char s2") auto
qed

function duration_parts :: "int \<Rightarrow> string \<Rightarrow> int option" where
  "duration_parts acc s =
     (if s = [] then Some acc
      else case duration_part s of
        None \<Rightarrow> None
      | Some (d, rest) \<Rightarrow> if 2 ^ 63 < acc + d then None else duration_parts (acc + d) rest)"
  by pat_completeness auto

termination duration_parts
  by (relation "measure (\<lambda>(acc, s). length s)") (auto dest: duration_part_shorter)

declare duration_parts.simps [simp del]

definition ParseDuration :: "string \<Rightarrow> int option" where
  "ParseDuration s0 =
     (let (neg, s) = (case s0 of c # t \<Rightarrow> if c = CHR ''-'' then (True, t) else if c = CHR ''+'' then (False, t) else (False, s0) | [] \<Rightarrow> (False, []))
      in if s = ''0'' then Some 0
         else if s = [] then None
         else case duration_parts 0 s of
           None \<Rightarrow> None
         | Some d \<Rightarrow> if neg then Some (- d) else if 2 ^ 63 - 1 < d then None else Some d)"

definition second :: int where "second = 10 ^ 9"
definition minute :: int where "minute = 60 * 10 ^ 9"
definition hour :: int where "hour = 3600 * 10 ^ 9"

section \<open>Environment\<close>

datatype fatal =
  FatalDuration string
| FatalStoreName string
| FatalUri string
| FatalFeature string
| FatalLogLevel
| FatalLogFormat string
| FatalLimit string
| FatalDataDir
| FatalStaleTime string
| FatalInt string
| FatalEmail string

type_synonym environment = "string \<Rightarrow> string option"

definition Environment :: "bool \<Rightarrow> environment \<Rightarrow> string" where
  "Environment testing env =
     (if testing then ''test''
      else let value = (case env ''STREMTHRU_ENV'' of None \<Rightarrow> [] | Some v \<Rightarrow> v) in
        if value \<in> {''dev'', ''development''} then ''dev''
        else if value \<in> {''prod'', ''production''} then ''prod''
        else if value = ''test'' then ''test''
        else [])"

definition baseDefaults :: "(string \<times> string) list" where
  "baseDefaults =
     [(''STREMTHRU_BASE_URL'', ''http://localhost:8080''),
      (''STREMTHRU_CONTENT_PROXY_CONNECTION_LIMIT'', ''*:0''),
      (''STREMTHRU_DATABASE_URI'', ''sqlite://./data/stremthru.db''),
      (''STREMTHRU_DATA_DIR'', ''./data''),
      (''STREMTHRU_LANDING_PAGE'', ''{}''),
      (''STREMTHRU_LOG_FORMAT'', ''json''),
      (''STREMTHRU_LOG_LEVEL'', ''INFO''),
      (''STREMTHRU_PORT'', ''8080''),
      (''STREMTHRU_STORE_CONTENT_PROXY'', ''*:true''),
      (''STREMTHRU_STORE_TUNNEL'', ''*:true''),
      (''STREMTHRU_STORE_CLIENT_USER_AGENT'', ''stremthru''),
      (''STREMTHRU_INTEGRATION_ANILIST_LIST_STALE_TIME'', ''12h''),
      (''STREMTHRU_INTEGRATION_LETTERBOXD_LIST_STALE_TIME'', ''24h''),
      (''STREMTHRU_INTEGRATION_LETTERBOXD_USER_AGENT'', ''stremthru''),
      (''STREMTHRU_INTEGRATION_MDBLIST_LIST_STALE_TIME'', ''12h''),
      (''STREMTHRU_INTEGRATION_TMDB_LIST_STALE_TIME'', ''12h''),
      (''STREMTHRU_INTEGRATION_TRAKT_LIST_STALE_TIME'', ''12h''),
      (''STREMTHRU_INTEGRATION_TVDB_LIST_STALE_TIME'', ''12h''),
      (''STREMTHRU_STREMIO_LIST_PUBLIC_MAX_LIST_COUNT'', ''10''),
      (''STREMTHRU_STREMIO_STORE_CATALOG_ITEM_LIMIT'', ''2000''),
      (''STREMTHRU_STREMIO_STORE_CATALOG_CACHE_TIME'', ''10m''),
      (''STREMTHRU_STREMIO_TORZ_INDEXER_MAX_TIMEOUT'', ''10s''),
      (''STREMTHRU_STREMIO_TORZ_PUBLIC_MAX_INDEXER_COUNT'', ''2''),
      (''STREMTHRU_STREMIO_TORZ_PUBLIC_MAX_STORE_COUNT'', ''3''),
      (''STREMTHRU_STREMIO_WRAP_PUBLIC_MAX_UPSTREAM_COUNT'', ''5''),
      (''STREMTHRU_STREMIO_WRAP_PUBLIC_MAX_STORE_COUNT'', ''3''),
      (''STREMTHRU_IP_CHECKER'', ''aws'')]"

definition defaultValueByEnv :: "string \<Rightarrow> string \<Rightarrow> (string \<times> string) list" where
  "defaultValueByEnv tmp e =
     (if e = ''dev'' then [(''STREMTHRU_LOG_FORMAT'', ''text''), (''STREMTHRU_LOG_LEVEL'', ''DEBUG'')]
      else if e = ''prod'' then []
      else if e = ''test'' then [(''STREMTHRU_LOG_FORMAT'', ''text''), (''STREMTHRU_LOG_LEVEL'', ''DEBUG''), (''STREMTHRU_DATA_DIR'', tmp)]
      else if e = [] then baseDefaults
      else [])"

definition lookup_default :: "(string \<times> string) list \<Rightarrow> string \<Rightarrow> string" where
  "lookup_default m key = (case map_of m key of None \<Rightarrow> [] | Some v \<Rightarrow> v)"

definition getEnv :: "bool \<Rightarrow> string \<Rightarrow> environment \<Rightarrow> string \<Rightarrow> string" where
  "getEnv testing tmp env key =
     (let e = Environment testing env; value = (case env key of None \<Rightarrow> [] | Some v \<Rightarrow> v);
          val = lookup_default (defaultValueByEnv tmp e) key
      in if value \<noteq> [] then value
         else if val \<noteq> [] then val
         else if e \<noteq> [] then lookup_default (defaultValueByEnv tmp []) key
         else [])"

text \<open>\<open>boundary\<close> is the list of bounds: the least and the greatest duration, 0 for none.\<close>

definition parseDuration :: "string \<Rightarrow> int list \<Rightarrow> int option" where
  "parseDuration value boundary =
     (case ParseDuration value of
        None \<Rightarrow> None
      | Some d \<Rightarrow>
          if 0 < length boundary \<and> 0 < boundary ! 0 \<and> d < boundary ! 0 then None
          else if 1 < length boundary \<and> 0 < boundary ! 1 \<and> boundary ! 1 < d then None
          else Some d)"

definition mustParseDuration :: "string \<Rightarrow> int list \<Rightarrow> fatal + int" where
  "mustParseDuration value boundary =
     (case parseDuration value boundary of None \<Rightarrow> Inl (FatalDuration value) | Some d \<Rightarrow> Inr d)"

definition must_int :: "string \<Rightarrow> fatal + int" where
  "must_int s = (case atoi s of None \<Rightarrow> Inl (FatalInt s) | Some n \<Rightarrow> Inr n)"

text \<open>\<open>strings.FieldsFunc\<close> on a comma, and \<open>strings.Fields\<close>.\<close>

definition comma_fields :: "string \<Rightarrow> string list" where
  "comma_fields s = filter (\<lambda>x. x \<noteq> []) (split_on CHR '','' s)"

fun space_fields :: "string \<Rightarrow> string \<Rightarrow> string list" where
  "space_fields acc [] = (if acc = [] then [] else [acc])"
| "space_fields acc (c # s) =
     (if is_space c then (if acc = [] then space_fields [] s else acc # space_fields [] s) else space_fields (acc @ [c]) s)"

text \<open>\<open>strings.SplitN(s, sep, 3)\<close> with its three parts, if there are three.\<close>

definition split3 :: "string \<Rightarrow> char \<Rightarrow> (string \<times> string \<times> string) option" where
  "split3 s c =
     (case cut s c of (a, s1, ok1) \<Rightarrow>
        case cut s1 c of (b, d, ok2) \<Rightarrow> if ok1 \<and> ok2 then Some (a, b, d) else None)"

section \<open>Store tokens, passwords, administrators\<close>

text \<open>\<open>m[user]\<close> for the map of a user, \<open>m[user][store]\<close> for a token.\<close>

type_synonym store_auth_token_map = "(string \<times> (string \<times> string) list) list"

definition GetToken :: "store_auth_token_map \<Rightarrow> string \<Rightarrow> string \<Rightarrow> string" where
  "GetToken m user store =
     (let own = Option.bind (map_of m user) (\<lambda>um. map_of um store)
      in case own of
           Some token \<Rightarrow> token
         | None \<Rightarrow>
             if user \<noteq> ''*'' then
               (case Option.bind (map_of m ''*'') (\<lambda>um. map_of um store) of Some token \<Rightarrow> token | None \<Rightarrow> [])
             else [])"

definition setToken :: "string \<Rightarrow> string \<Rightarrow> string \<Rightarrow> store_auth_token_map \<Rightarrow> store_auth_token_map" where
  "setToken user store token m =
     (let um = (case map_of m user of None \<Rightarrow> [] | Some um \<Rightarrow> um)
      in AList.update user (AList.update store token um) m)"

definition GetPreferredStore :: "store_auth_token_map \<Rightarrow> string \<Rightarrow> string" where
  "GetPreferredStore m user = fst (cut (GetToken m user ''*'') CHR '' '')"

definition ListStores :: "store_auth_token_map \<Rightarrow> string \<Rightarrow> string list" where
  "ListStores m user = space_fields [] (GetToken m user ''*'')"

definition getStores :: "store_auth_token_map \<Rightarrow> string \<Rightarrow> string" where
  "getStores m user =
     (case map_of m user of
        None \<Rightarrow> []
      | Some um \<Rightarrow> (case map_of um ''*'' of Some stores \<Rightarrow> stores | None \<Rightarrow> []))"

definition addStore :: "string \<Rightarrow> string \<Rightarrow> store_auth_token_map \<Rightarrow> store_auth_token_map" where
  "addStore user store m =
     (let stores = getStores m user;
          stores' = (if stores = [] then store else if \<not> contains_str stores store then stores @ '' '' @ store else stores)
      in setToken user ''*'' stores' m)"

type_synonym user_password_map = "(string \<times> string) list"

definition GetPassword :: "user_password_map \<Rightarrow> string \<Rightarrow> string" where
  "GetPassword m user = (case map_of m user of Some password \<Rightarrow> password | None \<Rightarrow> [])"

definition IsAdmin :: "(string \<times> bool) list \<Rightarrow> string \<Rightarrow> bool" where
  "IsAdmin m userName = (case map_of m userName of Some isAdmin \<Rightarrow> isAdmin | None \<Rightarrow> False)"

section \<open>Features\<close>

definition FeatureAnime :: string where "FeatureAnime = ''anime''"
definition FeatureDMMHashlist :: string where "FeatureDMMHashlist = ''dmm_hashlist''"
definition FeatureIMDBTitle :: string where "FeatureIMDBTitle = ''imdb_title''"
definition FeatureStremioList :: string where "FeatureStremioList = ''stremio_list''"
definition FeatureStremioP2P :: string where "FeatureStremioP2P = ''stremio_p2p''"
definition FeatureStremioSidekick :: string where "FeatureStremioSidekick = ''stremio_sidekick''"
definition FeatureStremioStore :: string where "FeatureStremioStore = ''stremio_store''"
definition FeatureStremioTorz :: string where "FeatureStremioTorz = ''stremio_torz''"
definition FeatureStremioWrap :: string where "FeatureStremioWrap = ''stremio_wrap''"
definition FeatureVault :: string where "FeatureVault = ''vault''"

definition features :: "string list" where
  "features = [FeatureAnime, FeatureDMMHashlist, FeatureIMDBTitle, FeatureStremioList, FeatureStremioP2P, FeatureStremioSidekick,
     FeatureStremioStore, FeatureStremioTorz, FeatureStremioWrap, FeatureVault]"

record feature_config =
  fc_enabled :: "string list"
  fc_disabled :: "string list"

definition IsDisabled :: "feature_config \<Rightarrow> string \<Rightarrow> bool" where
  "IsDisabled f name \<longleftrightarrow> name \<in> set (fc_disabled f)"

definition IsEnabled :: "feature_config \<Rightarrow> string \<Rightarrow> bool" where
  "IsEnabled f name \<longleftrightarrow>
     (if IsDisabled f name then False
      else if fc_enabled f = [] then True
      else name \<in> set (fc_enabled f))"

definition HasStremioList :: "feature_config \<Rightarrow> bool" where
  "HasStremioList f = IsEnabled f FeatureStremioList"

definition HasTorrentInfo :: "feature_config \<Rightarrow> bool" where
  "HasTorrentInfo f \<longleftrightarrow> IsEnabled f FeatureStremioStore \<or> IsEnabled f FeatureStremioTorz"

definition HasDMMHashlist :: "feature_config \<Rightarrow> bool" where
  "HasDMMHashlist f \<longleftrightarrow> \<not> IsDisabled f FeatureDMMHashlist \<and> HasTorrentInfo f"

definition HasIMDBTitle :: "feature_config \<Rightarrow> bool" where
  "HasIMDBTitle f \<longleftrightarrow> \<not> IsDisabled f FeatureIMDBTitle \<and> HasTorrentInfo f"

definition HasVault :: "string \<Rightarrow> feature_config \<Rightarrow> bool" where
  "HasVault vaultSecret f \<longleftrightarrow> \<not> IsDisabled f FeatureVault \<and> vaultSecret \<noteq> []"

definition feature_step :: "string \<Rightarrow> feature_config \<Rightarrow> fatal + feature_config" where
  "feature_step name0 f =
     (if has_prefix name0 ''-'' then
        let name = trim_prefix name0 ''-'' in
        if name \<in> set (fc_enabled f) then Inl (FatalFeature name)
        else Inr (f\<lparr>fc_disabled := fc_disabled f @ [name]\<rparr>)
      else if has_prefix name0 ''+'' then
        let name = trim_prefix name0 ''+'' in
        if name \<in> set (fc_disabled f) then Inr (f\<lparr>fc_disabled := filter (\<lambda>feat. feat \<noteq> name) (fc_disabled f)\<rparr>)
        else Inl (FatalFeature name)
      else if name0 \<in> set (fc_disabled f) then Inl (FatalFeature name0)
      else Inr (f\<lparr>fc_enabled := fc_enabled f @ [name0]\<rparr>))"

text \<open>A loop whose body may end the program.\<close>

fun fold_fatal :: "('a \<Rightarrow> 's \<Rightarrow> fatal + 's) \<Rightarrow> 'a list \<Rightarrow> 's \<Rightarrow> fatal + 's" where
  "fold_fatal step [] s = Inr s"
| "fold_fatal step (x # xs) s = (case step x s of Inl e \<Rightarrow> Inl e | Inr s' \<Rightarrow> fold_fatal step xs s')"

definition and_then :: "fatal + 'a \<Rightarrow> ('a \<Rightarrow> fatal + 'b) \<Rightarrow> fatal + 'b" where
  "and_then r f = (case r of Inl e \<Rightarrow> Inl e | Inr x \<Rightarrow> f x)"

definition default_features :: feature_config where
  "default_features = \<lparr>fc_enabled = [], fc_disabled = [FeatureAnime, FeatureStremioP2P]\<rparr>"

definition parse_features :: "string \<Rightarrow> fatal + feature_config" where
  "parse_features value = fold_fatal feature_step (comma_fields (trim_space value)) default_features"

section \<open>Content proxy, connection limits, stale times\<close>

text \<open>\<open>IsEnabled\<close> and \<open>Get\<close> of the two maps write the answer for a missing key into the map.\<close>

definition content_proxy_enabled :: "(string \<times> bool) list \<Rightarrow> string \<Rightarrow> bool \<times> (string \<times> bool) list" where
  "content_proxy_enabled scp name =
     (case map_of scp name of
        Some enabled \<Rightarrow> (enabled, scp)
      | None \<Rightarrow>
          if name \<noteq> ''*'' then
            (let (v, scp') = (case map_of scp ''*'' of Some enabled \<Rightarrow> (enabled, scp) | None \<Rightarrow> (True, AList.update ''*'' True scp))
             in (v, AList.update name v scp'))
          else (True, AList.update name True scp))"

definition connection_limit :: "(string \<times> int) list \<Rightarrow> string \<Rightarrow> int \<times> (string \<times> int) list" where
  "connection_limit cpcl user =
     (case map_of cpcl user of
        Some limit \<Rightarrow> (limit, cpcl)
      | None \<Rightarrow>
          if user \<noteq> ''*'' then
            (let (v, cpcl') = (case map_of cpcl ''*'' of Some limit \<Rightarrow> (limit, cpcl) | None \<Rightarrow> (0, AList.update ''*'' 0 cpcl))
             in (v, AList.update user v cpcl'))
          else (0, AList.update user 0 cpcl))"

record stale_time =
  st_cached :: int
  st_uncached :: int

definition GetStaleTime :: "(string \<times> stale_time) list \<Rightarrow> bool \<Rightarrow> string \<Rightarrow> int" where
  "GetStaleTime m isCached storeName =
     (let pick = (\<lambda>st. if isCached then st_cached st else st_uncached st) in
      case map_of m storeName of
        Some st \<Rightarrow> pick st
      | None \<Rightarrow>
          if storeName \<noteq> ''*'' then (case map_of m ''*'' of Some st \<Rightarrow> pick st | None \<Rightarrow> 0)
          else 0)"

definition stale_time_item :: "string \<Rightarrow> (string \<times> stale_time) list \<Rightarrow> fatal + (string \<times> stale_time) list" where
  "stale_time_item s m =
     (case split3 s CHR '':'' of
        None \<Rightarrow> Inl (FatalStaleTime s)
      | Some (store, cachedStaleTime, uncachedStaleTime) \<Rightarrow>
          (case ParseDuration cachedStaleTime of
             None \<Rightarrow> Inl (FatalStaleTime cachedStaleTime)
           | Some c \<Rightarrow>
               if c < 18 * hour then Inl (FatalStaleTime cachedStaleTime)
               else (case ParseDuration uncachedStaleTime of
                  None \<Rightarrow> Inl (FatalStaleTime uncachedStaleTime)
                | Some u \<Rightarrow>
                    if u < 6 * hour then Inl (FatalStaleTime uncachedStaleTime)
                    else Inr (AList.update store \<lparr>st_cached = c, st_uncached = u\<rparr> m))))"

definition parseStoreContentCachedStaleTime :: "string \<Rightarrow> fatal + (string \<times> stale_time) list" where
  "parseStoreContentCachedStaleTime staleTimeConfig =
     and_then (fold_fatal stale_time_item (comma_fields staleTimeConfig) [])
       (\<lambda>m. Inr (if map_of m ''*'' = None then AList.update ''*'' \<lparr>st_cached = 24 * hour, st_uncached = 8 * hour\<rparr> m else m))"

section \<open>The configuration\<close>

definition proxy_auth_step :: "user_password_map \<Rightarrow> string \<Rightarrow> user_password_map" where
  "proxy_auth_step m cred =
     (case ParseBasicAuth cred of
        Inl _ \<Rightarrow> m
      | Inr basicAuth \<Rightarrow> AList.update (ba_Username basicAuth) (ba_Password basicAuth) m)"

definition parse_proxy_auth :: "string \<Rightarrow> user_password_map" where
  "parse_proxy_auth value = foldl proxy_auth_step [] (comma_fields value)"

type_synonym admins = "(string \<times> bool) list \<times> user_password_map"

definition add_admin :: "string \<Rightarrow> string \<Rightarrow> admins \<Rightarrow> admins" where
  "add_admin username password a = (AList.update username True (fst a), AList.update username password (snd a))"

definition admin_step :: "user_password_map \<Rightarrow> admins \<Rightarrow> string \<Rightarrow> admins" where
  "admin_step proxyAuth a admin =
     (if CHR '':'' \<in> set admin then
        (case cut admin CHR '':'' of (username, password, _) \<Rightarrow> add_admin username password a)
      else if GetPassword proxyAuth admin \<noteq> [] then add_admin admin (GetPassword proxyAuth admin) a
      else a)"

text \<open>\<open>rand_user\<close> and \<open>rand_password\<close> are the two generated strings.\<close>

definition parse_admins :: "string \<Rightarrow> string \<Rightarrow> user_password_map \<Rightarrow> string \<Rightarrow> admins" where
  "parse_admins rand_user rand_password proxyAuth value =
     (let a1 = foldl (admin_step proxyAuth) ([], []) (comma_fields value);
          a2 = (if fst a1 = [] then foldl (\<lambda>a (username, password). add_admin username password a) a1 proxyAuth else a1)
      in if snd a2 = [] then add_admin (''st-'' @ rand_user) rand_password a2 else a2)"

definition store_auth_step :: "string \<Rightarrow> store_auth_token_map \<Rightarrow> fatal + store_auth_token_map" where
  "store_auth_step userStoreToken m =
     (case cut userStoreToken CHR '':'' of (user, storeToken, ok) \<Rightarrow>
        if \<not> ok then Inr m
        else (case cut storeToken CHR '':'' of (storeName, token, ok2) \<Rightarrow>
          if \<not> ok2 then Inr m
          else if \<not> StoreName_IsValid storeName then Inl (FatalStoreName storeName)
          else Inr (setToken user storeName token (addStore user storeName m))))"

definition parse_store_auth :: "string \<Rightarrow> fatal + store_auth_token_map" where
  "parse_store_auth value = fold_fatal store_auth_step (comma_fields value) []"

text \<open>\<open>url_parse\<close> gives the user name (empty if there is none), the password if there is one, and the text of the URL without them.\<close>

type_synonym url_parser = "string \<Rightarrow> (string \<times> string option \<times> string) option"

definition parseUri :: "url_parser \<Rightarrow> string \<Rightarrow> fatal + string \<times> string" where
  "parseUri url_parse uri =
     (case url_parse uri of
        None \<Rightarrow> Inl (FatalUri uri)
      | Some (username, password, text) \<Rightarrow>
          Inr (trim_space text, case password of Some p \<Rightarrow> p | None \<Rightarrow> username))"

record peer_config =
  pe_BuddyURL :: string
  pe_PullPeerURL :: string
  pe_PeerURL :: string
  pe_PeerAuthToken :: string

definition default_peer :: string where
  "default_peer = ''aHR0cHM6Ly9zdHJlbXRocnUuMTMzNzcwMDEueHl6''"

definition parse_peers :: "url_parser \<Rightarrow> (string \<Rightarrow> string) \<Rightarrow> fatal + peer_config" where
  "parse_peers url_parse get =
     and_then (parseUri url_parse (get ''STREMTHRU_BUDDY_URI'')) (\<lambda>(buddyUrl, _).
     and_then (if buddyUrl \<noteq> [] then parseUri url_parse (get ''STREMTHRU__PULL__PEER_URI'') else Inr ([], [])) (\<lambda>(pullPeerUrl, _).
       let defaultPeerUri = (case Base64Decode default_peer of Some peerUri \<Rightarrow> if buddyUrl = [] then peerUri else [] | None \<Rightarrow> []);
           peerUri0 = get ''STREMTHRU_PEER_URI'';
           peerUri = (if peerUri0 = [] then defaultPeerUri else peerUri0)
       in and_then (if peerUri \<noteq> ''-'' then parseUri url_parse peerUri else Inr ([], [])) (\<lambda>(peerUrl, peerAuthToken).
            Inr \<lparr>pe_BuddyURL = buddyUrl, pe_PullPeerURL = pullPeerUrl, pe_PeerURL = peerUrl, pe_PeerAuthToken = peerAuthToken\<rparr>)))"

definition content_proxy_step :: "(string \<times> bool) list \<Rightarrow> string \<Rightarrow> (string \<times> bool) list" where
  "content_proxy_step m s =
     (case cut s CHR '':'' of (store, enabled, ok) \<Rightarrow> if ok then AList.update store (enabled = ''true'') m else m)"

definition parse_content_proxy :: "string \<Rightarrow> (string \<times> bool) list" where
  "parse_content_proxy value = foldl content_proxy_step [] (comma_fields value)"

definition connection_limit_step :: "string \<Rightarrow> (string \<times> int) list \<Rightarrow> fatal + (string \<times> int) list" where
  "connection_limit_step s m =
     (case cut s CHR '':'' of (user, limitStr, ok) \<Rightarrow>
        if \<not> ok then Inr m
        else (case atoi limitStr of None \<Rightarrow> Inl (FatalLimit limitStr) | Some limit \<Rightarrow> Inr (AList.update user (max 0 limit) m)))"

definition parse_connection_limits :: "string \<Rightarrow> fatal + (string \<times> int) list" where
  "parse_connection_limits value = fold_fatal connection_limit_step (comma_fields value) []"

text \<open>\<open>slog.Level.UnmarshalText\<close> of the standard library, and the level of the repository around it.\<close>

definition slog_level :: "string \<Rightarrow> int option" where
  "slog_level s =
     (let name = takeWhile (\<lambda>c. c \<noteq> CHR ''+'' \<and> c \<noteq> CHR ''-'') s; rest = drop (length name) s
      in case (if rest = [] then Some 0 else atoi rest) of
           None \<Rightarrow> None
         | Some off \<Rightarrow>
             map_option (\<lambda>l. wrap64 (l + off)) (map_of [(''DEBUG'', - 4), (''INFO'', 0), (''WARN'', 4), (''ERROR'', 8)] (to_upper name)))"

definition levelByString :: "(string \<times> int) list" where
  "levelByString = [(''TRACE'', - 8), (''FATAL'', 12)]"

definition Level_UnmarshalText :: "string \<Rightarrow> int option" where
  "Level_UnmarshalText s = (case map_of levelByString (to_upper s) of Some l \<Rightarrow> Some l | None \<Rightarrow> slog_level s)"

record peer_flag =
  pf_Lazy :: bool
  pf_NoSpillTorz :: bool

definition peer_flag_step :: "peer_flag \<Rightarrow> string \<Rightarrow> peer_flag" where
  "peer_flag_step pf flag =
     (if flag = ''lazy'' then pf\<lparr>pf_Lazy := True\<rparr>
      else if flag = ''no_spill_torz'' then pf\<lparr>pf_NoSpillTorz := True\<rparr>
      else pf)"

definition parse_peer_flag :: "(string \<Rightarrow> string) \<Rightarrow> peer_flag" where
  "parse_peer_flag get =
     (let lazyPeer = to_lower (get ''STREMTHRU_LAZY_PEER'');
          pf = foldl peer_flag_step \<lparr>pf_Lazy = False, pf_NoSpillTorz = False\<rparr> (comma_fields (get ''STREMTHRU_PEER_FLAG''))
      in if lazyPeer = ''1'' \<or> lazyPeer = ''true'' then pf\<lparr>pf_Lazy := True\<rparr> else pf)"

text \<open>
  The configuration without the start time. \<open>sys\<close> gathers what is outside: the URL parser, the random strings,
  \<open>filepath.Abs\<close> and the test for a directory, \<open>None\<close> for an error.
\<close>

record system_calls =
  sys_url_parse :: url_parser
  sys_rand_user :: string
  sys_rand_password :: string
  sys_abs :: "string \<Rightarrow> string option"
  sys_dir_exists :: "string \<Rightarrow> bool option"

record config =
  c_LogLevel :: int
  c_LogFormat :: string
  c_Port :: string
  c_StoreAuthToken :: store_auth_token_map
  c_ProxyAuthPassword :: user_password_map
  c_AuthAdmin :: "(string \<times> bool) list"
  c_AdminPassword :: user_password_map
  c_Peers :: peer_config
  c_HasBuddy :: bool
  c_PeerFlag :: peer_flag
  c_HasPeer :: bool
  c_RedisURI :: string
  c_DatabaseURI :: string
  c_Feature :: feature_config
  c_Version :: string
  c_LandingPage :: string
  c_StoreContentProxy :: "(string \<times> bool) list"
  c_StoreContentCachedStaleTime :: "(string \<times> stale_time) list"
  c_StoreClientUserAgent :: string
  c_ContentProxyConnectionLimit :: "(string \<times> int) list"
  c_IPChecker :: string
  c_DataDir :: string
  c_VaultSecret :: string

definition resolve_data_dir :: "system_calls \<Rightarrow> string \<Rightarrow> fatal + string" where
  "resolve_data_dir sys dir =
     (case sys_abs sys dir of
        None \<Rightarrow> Inl FatalDataDir
      | Some d \<Rightarrow> if sys_dir_exists sys d = Some True then Inr d else Inl FatalDataDir)"

definition load_config :: "system_calls \<Rightarrow> (string \<Rightarrow> string) \<Rightarrow> fatal + config" where
  "load_config sys get =
     (let proxyAuth = parse_proxy_auth (get ''STREMTHRU_PROXY_AUTH'');
          admins = parse_admins (sys_rand_user sys) (sys_rand_password sys) proxyAuth (get ''STREMTHRU_AUTH_ADMIN'')
      in and_then (parse_store_auth (get ''STREMTHRU_STORE_AUTH'')) (\<lambda>storeAuth.
         and_then (parse_peers (sys_url_parse sys) get) (\<lambda>peers.
         and_then (parse_features (get ''STREMTHRU_FEATURE'')) (\<lambda>feature.
         and_then (case Level_UnmarshalText (get ''STREMTHRU_LOG_LEVEL'') of None \<Rightarrow> Inl FatalLogLevel | Some l \<Rightarrow> Inr l) (\<lambda>logLevel.
         and_then (if get ''STREMTHRU_LOG_FORMAT'' \<in> {''json'', ''text''} then Inr () else Inl (FatalLogFormat (get ''STREMTHRU_LOG_FORMAT''))) (\<lambda>_.
         and_then (parse_connection_limits (get ''STREMTHRU_CONTENT_PROXY_CONNECTION_LIMIT'')) (\<lambda>limits.
         and_then (resolve_data_dir sys (get ''STREMTHRU_DATA_DIR'')) (\<lambda>dataDir.
         and_then (parseStoreContentCachedStaleTime (get ''STREMTHRU_STORE_CONTENT_CACHED_STALE_TIME'')) (\<lambda>staleTimes.
           Inr \<lparr>c_LogLevel = logLevel, c_LogFormat = get ''STREMTHRU_LOG_FORMAT'',
                c_Port = get ''STREMTHRU_PORT'', c_StoreAuthToken = storeAuth, c_ProxyAuthPassword = proxyAuth,
                c_AuthAdmin = fst admins, c_AdminPassword = snd admins, c_Peers = peers,
                c_HasBuddy = (0 < length (pe_BuddyURL peers)), c_PeerFlag = parse_peer_flag get,
                c_HasPeer = (0 < length (pe_PeerURL peers)), c_RedisURI = get ''STREMTHRU_REDIS_URI'',
                c_DatabaseURI = get ''STREMTHRU_DATABASE_URI'', c_Feature = feature, c_Version = ''0.95.3'',
                c_LandingPage = get ''STREMTHRU_LANDING_PAGE'',
                c_StoreContentProxy = parse_content_proxy (get ''STREMTHRU_STORE_CONTENT_PROXY''),
                c_StoreContentCachedStaleTime = staleTimes,
                c_StoreClientUserAgent = get ''STREMTHRU_STORE_CLIENT_USER_AGENT'',
                c_ContentProxyConnectionLimit = limits, c_IPChecker = get ''STREMTHRU_IP_CHECKER'',
                c_DataDir = dataDir, c_VaultSecret = get ''STREMTHRU_VAULT_SECRET''\<rparr>)))))))))"

definition root_host :: string where
  "root_host = (case Base64Decode ''c3RyZW10aHJ1LjEzMzc3MDAxLnh5eg=='' of Some h \<Rightarrow> h | None \<Rightarrow> [])"

text \<open>\<open>hostname\<close> is \<open>URL.Hostname\<close> of the parsed text, \<open>None\<close> if the text is no URL.\<close>

definition IsTrusted :: "(string \<Rightarrow> string option) \<Rightarrow> string \<Rightarrow> peer_config \<Rightarrow> fatal + bool" where
  "IsTrusted hostname baseURL peers =
     (if hostname baseURL = Some root_host then Inr True
      else if pe_PeerURL peers = [] \<or> pe_PeerAuthToken peers = [] then Inr False
      else (case hostname (pe_PeerURL peers) of
              None \<Rightarrow> Inl (FatalUri (pe_PeerURL peers))
            | Some h \<Rightarrow> Inr (h = root_host \<or> h = ''localhost'')))"

definition IsPublicInstance :: "user_password_map \<Rightarrow> bool" where
  "IsPublicInstance proxyAuth \<longleftrightarrow> length proxyAuth = 0"

section \<open>Stremio addons and integrations\<close>

record stremio_config =
  sc_PublicMaxListCount :: int
  sc_CatalogItemLimit :: int
  sc_CatalogCacheTime :: int
  sc_IndexerMaxTimeout :: int
  sc_LazyPull :: bool
  sc_PublicMaxIndexerCount :: int
  sc_TorzPublicMaxStoreCount :: int
  sc_PublicMaxUpstreamCount :: int
  sc_WrapPublicMaxStoreCount :: int

definition parseStremio :: "(string \<Rightarrow> string) \<Rightarrow> fatal + stremio_config" where
  "parseStremio get =
     and_then (must_int (get ''STREMTHRU_STREMIO_LIST_PUBLIC_MAX_LIST_COUNT'')) (\<lambda>list_count.
     and_then (must_int (get ''STREMTHRU_STREMIO_STORE_CATALOG_ITEM_LIMIT'')) (\<lambda>item_limit.
     and_then (mustParseDuration (get ''STREMTHRU_STREMIO_STORE_CATALOG_CACHE_TIME'') [minute]) (\<lambda>cache_time.
     and_then (mustParseDuration (get ''STREMTHRU_STREMIO_TORZ_INDEXER_MAX_TIMEOUT'') [2 * second, 60 * second]) (\<lambda>timeout.
     and_then (must_int (get ''STREMTHRU_STREMIO_TORZ_PUBLIC_MAX_INDEXER_COUNT'')) (\<lambda>indexer_count.
     and_then (must_int (get ''STREMTHRU_STREMIO_TORZ_PUBLIC_MAX_STORE_COUNT'')) (\<lambda>torz_stores.
     and_then (must_int (get ''STREMTHRU_STREMIO_WRAP_PUBLIC_MAX_UPSTREAM_COUNT'')) (\<lambda>upstreams.
     and_then (must_int (get ''STREMTHRU_STREMIO_WRAP_PUBLIC_MAX_STORE_COUNT'')) (\<lambda>wrap_stores.
       Inr \<lparr>sc_PublicMaxListCount = list_count, sc_CatalogItemLimit = item_limit, sc_CatalogCacheTime = cache_time,
            sc_IndexerMaxTimeout = timeout, sc_LazyPull = (to_lower (get ''STREMTHRU_STREMIO_TORZ_LAZY_PULL'') = ''true''),
            sc_PublicMaxIndexerCount = indexer_count, sc_TorzPublicMaxStoreCount = torz_stores,
            sc_PublicMaxUpstreamCount = upstreams, sc_WrapPublicMaxStoreCount = wrap_stores\<rparr>))))))))"

record integration_config =
  ic_AniListStaleTime :: int
  ic_BitmagnetBaseURL :: "string option"
  ic_BitmagnetDatabaseURI :: string
  ic_GitHubUser :: string
  ic_GitHubToken :: string
  ic_LetterboxdClientId :: string
  ic_LetterboxdClientSecret :: string
  ic_LetterboxdUserAgent :: string
  ic_LetterboxdStaleTime :: int
  ic_MDBListStaleTime :: int
  ic_TraktClientId :: string
  ic_TraktClientSecret :: string
  ic_TraktStaleTime :: int
  ic_KitsuClientId :: string
  ic_KitsuClientSecret :: string
  ic_KitsuEmail :: string
  ic_KitsuPassword :: string
  ic_TMDBAccessToken :: string
  ic_TMDBStaleTime :: int
  ic_TVDBAPIKey :: string
  ic_TVDBStaleTime :: int
  ic_TVDBSystemOAuthTokenId :: string

definition Bitmagnet_IsEnabled :: "integration_config \<Rightarrow> bool" where
  "Bitmagnet_IsEnabled c \<longleftrightarrow> ic_BitmagnetBaseURL c \<noteq> None \<and> ic_BitmagnetDatabaseURI c \<noteq> []"

definition credentials_enabled :: "string \<Rightarrow> string \<Rightarrow> bool" where
  "credentials_enabled clientId clientSecret \<longleftrightarrow> clientId \<noteq> [] \<and> clientSecret \<noteq> []"

definition Letterboxd_IsEnabled :: "integration_config \<Rightarrow> bool" where
  "Letterboxd_IsEnabled c = credentials_enabled (ic_LetterboxdClientId c) (ic_LetterboxdClientSecret c)"

definition Letterboxd_IsPiggybacked :: "bool \<Rightarrow> integration_config \<Rightarrow> bool" where
  "Letterboxd_IsPiggybacked hasPeer c \<longleftrightarrow> \<not> Letterboxd_IsEnabled c \<and> hasPeer"

definition Trakt_IsEnabled :: "integration_config \<Rightarrow> bool" where
  "Trakt_IsEnabled c = credentials_enabled (ic_TraktClientId c) (ic_TraktClientSecret c)"

definition Kitsu_HasDefaultCredentials :: "integration_config \<Rightarrow> bool" where
  "Kitsu_HasDefaultCredentials c \<longleftrightarrow> ic_KitsuEmail c \<noteq> [] \<and> ic_KitsuPassword c \<noteq> []"

definition GitHub_HasDefaultCredentials :: "integration_config \<Rightarrow> bool" where
  "GitHub_HasDefaultCredentials c \<longleftrightarrow> ic_GitHubUser c \<noteq> [] \<and> ic_GitHubToken c \<noteq> []"

definition TMDB_IsEnabled :: "integration_config \<Rightarrow> bool" where
  "TMDB_IsEnabled c \<longleftrightarrow> ic_TMDBAccessToken c \<noteq> []"

definition TVDB_IsEnabled :: "integration_config \<Rightarrow> bool" where
  "TVDB_IsEnabled c \<longleftrightarrow> ic_TVDBAPIKey c \<noteq> []"

text \<open>The texts of the URLs stand for the parsed URLs; \<open>is_url\<close> tells whether \<open>url.Parse\<close> accepts one.\<close>

definition parseIntegration :: "(string \<Rightarrow> bool) \<Rightarrow> bool \<Rightarrow> (string \<Rightarrow> string) \<Rightarrow> fatal + integration_config" where
  "parseIntegration is_url hasPeer get =
     (let base = get ''STREMTHRU_INTEGRATION_BITMAGNET_BASE_URL'';
          id = get ''STREMTHRU_INTEGRATION_LETTERBOXD_CLIENT_ID''; secret = get ''STREMTHRU_INTEGRATION_LETTERBOXD_CLIENT_SECRET'';
          minLetterboxd = (if \<not> credentials_enabled id secret \<and> hasPeer then 24 * hour else 6 * hour)
      in and_then (if base = [] then Inr None else if is_url base then Inr (Some base) else Inl (FatalUri base)) (\<lambda>baseURL.
         and_then (mustParseDuration (get ''STREMTHRU_INTEGRATION_LETTERBOXD_LIST_STALE_TIME'') [minLetterboxd]) (\<lambda>letterboxd.
         and_then (mustParseDuration (get ''STREMTHRU_INTEGRATION_ANILIST_LIST_STALE_TIME'') [15 * minute]) (\<lambda>anilist.
         and_then (mustParseDuration (get ''STREMTHRU_INTEGRATION_MDBLIST_LIST_STALE_TIME'') [15 * minute]) (\<lambda>mdblist.
         and_then (mustParseDuration (get ''STREMTHRU_INTEGRATION_TRAKT_LIST_STALE_TIME'') [15 * minute]) (\<lambda>trakt.
         and_then (mustParseDuration (get ''STREMTHRU_INTEGRATION_TMDB_LIST_STALE_TIME'') [15 * minute]) (\<lambda>tmdb.
         and_then (mustParseDuration (get ''STREMTHRU_INTEGRATION_TVDB_LIST_STALE_TIME'') [15 * minute]) (\<lambda>tvdb.
           let email = get ''STREMTHRU_INTEGRATION_KITSU_EMAIL''
           in if email \<noteq> [] \<and> CHR ''@'' \<notin> set email then Inl (FatalEmail email)
              else Inr \<lparr>ic_AniListStaleTime = anilist, ic_BitmagnetBaseURL = baseURL,
                ic_BitmagnetDatabaseURI = get ''STREMTHRU_INTEGRATION_BITMAGNET_DATABASE_URI'',
                ic_GitHubUser = get ''STREMTHRU_INTEGRATION_GITHUB_USER'', ic_GitHubToken = get ''STREMTHRU_INTEGRATION_GITHUB_TOKEN'',
                ic_LetterboxdClientId = id, ic_LetterboxdClientSecret = secret,
                ic_LetterboxdUserAgent = get ''STREMTHRU_INTEGRATION_LETTERBOXD_USER_AGENT'', ic_LetterboxdStaleTime = letterboxd,
                ic_MDBListStaleTime = mdblist,
                ic_TraktClientId = get ''STREMTHRU_INTEGRATION_TRAKT_CLIENT_ID'',
                ic_TraktClientSecret = get ''STREMTHRU_INTEGRATION_TRAKT_CLIENT_SECRET'', ic_TraktStaleTime = trakt,
                ic_KitsuClientId = get ''STREMTHRU_INTEGRATION_KITSU_CLIENT_ID'',
                ic_KitsuClientSecret = get ''STREMTHRU_INTEGRATION_KITSU_CLIENT_SECRET'',
                ic_KitsuEmail = email, ic_KitsuPassword = get ''STREMTHRU_INTEGRATION_KITSU_PASSWORD'',
                ic_TMDBAccessToken = get ''STREMTHRU_INTEGRATION_TMDB_ACCESS_TOKEN'', ic_TMDBStaleTime = tmdb,
                ic_TVDBAPIKey = get ''STREMTHRU_INTEGRATION_TVDB_API_KEY'', ic_TVDBStaleTime = tvdb,
                ic_TVDBSystemOAuthTokenId = ''system:tvdb''\<rparr>))))))))"

section \<open>Lemmas\<close>

lemma and_then_Inr [simp]: "and_then (Inr x) f = f x"
  by (simp add: and_then_def)

lemma and_then_Inl [simp]: "and_then (Inl e) f = Inl e"
  by (simp add: and_then_def)

lemma and_then_InrD: "and_then r f = Inr y \<Longrightarrow> \<exists>x. r = Inr x \<and> f x = Inr y"
  by (cases r) auto

lemma fold_fatal_inv:
  assumes "fold_fatal step xs s = Inr s'" and "P s"
    and "\<And>x s s'. step x s = Inr s' \<Longrightarrow> P s \<Longrightarrow> P s'"
  shows "P s'"
  using assms(1,2) by (induction xs arbitrary: s) (auto split: sum.splits dest: assms(3))

lemma fold_fatal_append:
  "fold_fatal step (xs @ ys) s = and_then (fold_fatal step xs s) (fold_fatal step ys)"
  by (induction xs arbitrary: s) (auto simp: and_then_def split: sum.splits)

lemma map_of_update_if: "map_of (AList.update k v m) k' = (if k' = k then Some v else map_of m k')"
  by (simp add: update_conv')

subsection \<open>Stale times\<close>

definition stale_ok :: "(string \<times> stale_time) list \<Rightarrow> bool" where
  "stale_ok m \<longleftrightarrow> (\<forall>name st. map_of m name = Some st \<longrightarrow> 18 * hour \<le> st_cached st \<and> 6 * hour \<le> st_uncached st)"

lemma stale_time_item_ok: "stale_time_item s m = Inr m' \<Longrightarrow> stale_ok m \<Longrightarrow> stale_ok m'"
  by (fastforce simp: stale_time_item_def stale_ok_def map_of_update_if split: option.splits if_splits)

lemma stale_time_lower:
  assumes "parseStoreContentCachedStaleTime s = Inr m"
  shows "(if isCached then 18 * hour else 6 * hour) \<le> GetStaleTime m isCached storeName"
proof -
  obtain m0 where m0: "fold_fatal stale_time_item (comma_fields s) [] = Inr m0"
    and m: "m = (if map_of m0 ''*'' = None then AList.update ''*'' \<lparr>st_cached = 24 * hour, st_uncached = 8 * hour\<rparr> m0 else m0)"
    using assms by (auto simp: parseStoreContentCachedStaleTime_def dest!: and_then_InrD)
  have "stale_ok m0" by (rule fold_fatal_inv [OF m0]) (auto simp: stale_ok_def [of "[]"] intro: stale_time_item_ok)
  then have ok: "stale_ok m" by (auto simp: m stale_ok_def map_of_update_if hour_def)
  have "map_of m ''*'' \<noteq> None" by (auto simp: m map_of_update_if)
  with ok show ?thesis by (force simp: GetStaleTime_def Let_def stale_ok_def split: option.splits)
qed

text \<open>
  (bounds) Whatever STREMTHRU_STORE_CONTENT_CACHED_STALE_TIME holds, if the program starts with it then the
  stale time of every store is at least 18 hours for cached and at least 6 hours for uncached content.\<close>
theorem GetStaleTime_bounds:
  assumes "parseStoreContentCachedStaleTime s = Inr m"
  shows "(if isCached then 18 * hour else 6 * hour) \<le> GetStaleTime m isCached storeName"
  using assms by (rule stale_time_lower)

lemma sample_stale:
  "parseStoreContentCachedStaleTime ''*:20h:7h'' = Inr [(''*'', \<lparr>st_cached = 20 * hour, st_uncached = 7 * hour\<rparr>)]"
  by code_simp

theorem GetStaleTime_bounds_witness:
  "18 * hour \<le> GetStaleTime [(''*'', \<lparr>st_cached = 20 * hour, st_uncached = 7 * hour\<rparr>)] True ''torbox''"
  using GetStaleTime_bounds [of "''*:20h:7h''" "[(''*'', \<lparr>st_cached = 20 * hour, st_uncached = 7 * hour\<rparr>)]" True "''torbox''"]
  by (simp add: sample_stale)

subsection \<open>Features\<close>

definition plain_item :: "string \<Rightarrow> bool" where
  "plain_item x \<longleftrightarrow> \<not> has_prefix x ''-'' \<and> \<not> has_prefix x ''+''"

text \<open>Whether a feature is off after a list of items: the last item with a sign decides, at first the opt-in features are off.\<close>

definition feature_off :: "string list \<Rightarrow> string \<Rightarrow> bool" where
  "feature_off items name =
     foldl (\<lambda>off x. if x = ''-'' @ name then True else if x = ''+'' @ name then False else off)
       (name \<in> {FeatureAnime, FeatureStremioP2P}) items"

lemma feature_off_snoc:
  "feature_off (xs @ [x]) name =
     (if x = ''-'' @ name then True else if x = ''+'' @ name then False else feature_off xs name)"
  by (simp add: feature_off_def)

lemma sign_prefix: "has_prefix x [c] \<longleftrightarrow> (\<exists>t. x = c # t)"
  by (cases x) (auto simp: has_prefix_def)

lemma feature_step_minus:
  "feature_step (CHR ''-'' # t) f = (if t \<in> set (fc_enabled f) then Inl (FatalFeature t) else Inr (f\<lparr>fc_disabled := fc_disabled f @ [t]\<rparr>))"
  by (simp add: feature_step_def has_prefix_def trim_prefix_def)

lemma feature_step_plus:
  "feature_step (CHR ''+'' # t) f =
     (if t \<in> set (fc_disabled f) then Inr (f\<lparr>fc_disabled := filter (\<lambda>feat. feat \<noteq> t) (fc_disabled f)\<rparr>) else Inl (FatalFeature t))"
  by (simp add: feature_step_def has_prefix_def trim_prefix_def)

lemma feature_step_plain:
  "plain_item x \<Longrightarrow> feature_step x f =
     (if x \<in> set (fc_disabled f) then Inl (FatalFeature x) else Inr (f\<lparr>fc_enabled := fc_enabled f @ [x]\<rparr>))"
  by (simp add: feature_step_def plain_item_def)

lemma feature_off_signed:
  "feature_off (xs @ [CHR ''-'' # t]) name \<longleftrightarrow> name = t \<or> feature_off xs name"
  "feature_off (xs @ [CHR ''+'' # t]) name \<longleftrightarrow> name \<noteq> t \<and> feature_off xs name"
  by (auto simp: feature_off_snoc)

lemma feature_off_plain: "plain_item x \<Longrightarrow> feature_off (xs @ [x]) name = feature_off xs name"
  by (auto simp: feature_off_snoc plain_item_def sign_prefix)

lemma plain_item_sign [simp]: "\<not> plain_item (CHR ''-'' # t)" "\<not> plain_item (CHR ''+'' # t)"
  by (simp_all add: plain_item_def sign_prefix)

lemma parse_features_spec:
  assumes "fold_fatal feature_step xs default_features = Inr f"
  shows "fc_enabled f = filter plain_item xs \<and> (\<forall>name. name \<in> set (fc_disabled f) \<longleftrightarrow> feature_off xs name)"
  using assms
proof (induction xs arbitrary: f rule: rev_induct)
  case Nil
  then show ?case by (auto simp: default_features_def feature_off_def)
next
  case (snoc x xs)
  obtain f0 where f0: "fold_fatal feature_step xs default_features = Inr f0" and f: "feature_step x f0 = Inr f"
    using snoc.prems by (auto simp: fold_fatal_append dest!: and_then_InrD split: sum.splits)
  note IH = snoc.IH [OF f0]
  consider (plain) "plain_item x" | (minus) t where "x = CHR ''-'' # t" | (plus) t where "x = CHR ''+'' # t"
    by (auto simp: plain_item_def sign_prefix)
  then show ?case
  proof cases
    case plain
    then have "f = f0\<lparr>fc_enabled := fc_enabled f0 @ [x]\<rparr>"
      using f by (simp add: feature_step_plain split: if_splits)
    then show ?thesis using IH plain by (simp add: feature_off_plain)
  next
    case minus
    then have "f = f0\<lparr>fc_disabled := fc_disabled f0 @ [t]\<rparr>"
      using f by (simp add: feature_step_minus split: if_splits)
    then show ?thesis using IH by (auto simp: minus feature_off_signed)
  next
    case plus
    then have "f = f0\<lparr>fc_disabled := filter (\<lambda>feat. feat \<noteq> t) (fc_disabled f0)\<rparr>"
      using f by (simp add: feature_step_plus split: if_splits)
    then show ?thesis using IH by (auto simp: plus feature_off_signed)
  qed
qed

text \<open>
  (functional) A feature is enabled exactly if the last signed item of STREMTHRU_FEATURE for it does not turn it off
  (without one: if it is not an opt-in feature), and either no plain name is listed or it is one of them. So a plus sign
  does not enable an opt-in feature once any plain name is listed.\<close>
theorem IsEnabled_spec:
  assumes "parse_features value = Inr f"
  shows "IsEnabled f name \<longleftrightarrow>
    \<not> feature_off (comma_fields (trim_space value)) name
    \<and> (filter plain_item (comma_fields (trim_space value)) = [] \<or> name \<in> set (filter plain_item (comma_fields (trim_space value))))"
  using parse_features_spec [OF assms [unfolded parse_features_def]]
  by (auto simp: IsEnabled_def IsDisabled_def)

lemma sample_features:
  "parse_features ''stremio_store,+anime'' = Inr \<lparr>fc_enabled = [''stremio_store''], fc_disabled = [''stremio_p2p'']\<rparr>"
  by code_simp

theorem IsEnabled_spec_witness:
  "\<not> IsEnabled \<lparr>fc_enabled = [''stremio_store''], fc_disabled = [''stremio_p2p'']\<rparr> ''anime''"
proof -
  have items: "comma_fields (trim_space ''stremio_store,+anime'') = [''stremio_store'', ''+anime'']" by code_simp
  have "filter plain_item [''stremio_store'', ''+anime''] = [''stremio_store'']"
    by (simp add: plain_item_def has_prefix_def)
  then show ?thesis unfolding IsEnabled_spec [OF sample_features] items by simp
qed

subsection \<open>Administrators\<close>

lemma foldl_keys:
  assumes "P s" and "\<And>s x. P s \<Longrightarrow> P (step s x)"
  shows "P (foldl step s xs)"
  using assms(1) by (induction xs arbitrary: s) (auto intro: assms(2))

definition admins_ok :: "admins \<Rightarrow> bool" where
  "admins_ok a \<longleftrightarrow> (\<forall>u. IsAdmin (fst a) u \<longleftrightarrow> map_of (snd a) u \<noteq> None)"

lemma add_admin_ok: "admins_ok a \<Longrightarrow> admins_ok (add_admin u p a)"
  by (auto simp: admins_ok_def add_admin_def IsAdmin_def map_of_update_if)

lemma admin_step_ok: "admins_ok a \<Longrightarrow> admins_ok (admin_step pw a x)"
  by (auto simp: admin_step_def add_admin_ok split: prod.splits)

lemma update_ne [simp]: "AList.update k v m \<noteq> []"
  by (cases m) auto

lemma add_admin_ne [simp]: "snd (add_admin u p a) \<noteq> [] \<and> fst (add_admin u p a) \<noteq> []"
  by (simp add: add_admin_def)

text \<open>
  (invariant) The administrators are exactly the users with an administrator password, and there is at least one.\<close>
theorem parse_admins_nonempty:
  "snd (parse_admins rand_user rand_password proxyAuth value) \<noteq> []
   \<and> (IsAdmin (fst (parse_admins rand_user rand_password proxyAuth value)) u
      \<longleftrightarrow> map_of (snd (parse_admins rand_user rand_password proxyAuth value)) u \<noteq> None)"
proof -
  have "admins_ok (foldl (admin_step proxyAuth) ([], []) (comma_fields value))"
    by (rule foldl_keys) (auto simp: admins_ok_def [of "([], [])"] IsAdmin_def admin_step_ok)
  moreover have "admins_ok (foldl (\<lambda>a (u, p). add_admin u p a) a proxyAuth)" if "admins_ok a" for a
    using that by (rule foldl_keys) (auto simp: add_admin_ok)
  ultimately have "admins_ok (parse_admins rand_user rand_password proxyAuth value)"
    by (auto simp: parse_admins_def Let_def add_admin_ok)
  moreover have "snd (parse_admins rand_user rand_password proxyAuth value) \<noteq> []"
    by (simp add: parse_admins_def Let_def)
  ultimately show ?thesis by (simp add: admins_ok_def)
qed

lemma distinct_map_of_rev:
  assumes "distinct (map fst m)"
  shows "map_of (rev m) = map_of m"
proof -
  have "distinct (map fst (rev m))" using assms by (simp add: rev_map [symmetric])
  then show ?thesis using assms by (intro map_of_inject_set [THEN iffD2]) auto
qed

lemma admins_of_proxy_users:
  "snd (foldl (\<lambda>a (u, p). add_admin u p a) a pw) = foldl (\<lambda>m (u, p). AList.update u p m) (snd a) pw"
  by (induction pw arbitrary: a) (auto simp: add_admin_def)

lemma map_of_foldl_update:
  "map_of (foldl (\<lambda>m (u, p). AList.update u p m) m pw) u = (case map_of (rev pw) u of Some p \<Rightarrow> Some p | None \<Rightarrow> map_of m u)"
  by (induction pw rule: rev_induct) (auto simp: map_of_update_if split: prod.splits)

text \<open>
  (error) If STREMTHRU_AUTH_ADMIN names no proxy user (a misspelt name, say), every proxy user becomes an
  administrator with the proxy password.\<close>
theorem parse_admins_misspelt:
  assumes "list_all (\<lambda>x. CHR '':'' \<notin> set x \<and> GetPassword proxyAuth x = []) (comma_fields value)"
    and "distinct (map fst proxyAuth)" and "map_of proxyAuth u = Some p"
  shows "map_of (snd (parse_admins rand_user rand_password proxyAuth value)) u = Some p"
proof -
  have "foldl (admin_step proxyAuth) a xs = a"
    if "list_all (\<lambda>x. CHR '':'' \<notin> set x \<and> GetPassword proxyAuth x = []) xs" for a xs
    using that by (induction xs) (auto simp: admin_step_def)
  note none = this [OF assms(1)]
  have "map_of (rev proxyAuth) u = Some p"
    using assms(2,3) by (simp add: distinct_map_of_rev)
  then have "map_of (snd (foldl (\<lambda>a (u, p). add_admin u p a) ([], []) proxyAuth)) u = Some p"
    unfolding admins_of_proxy_users map_of_foldl_update by simp
  then show ?thesis by (auto simp: parse_admins_def Let_def none)
qed

theorem parse_admins_misspelt_witness:
  "map_of (snd (parse_admins ''u'' ''p'' [(''bob'', ''secret'')] ''bbo'')) ''bob'' = Some ''secret''"
  by (rule parse_admins_misspelt) (simp_all add: comma_fields_def GetPassword_def)

subsection \<open>Store tokens\<close>

definition store_entry :: "string \<Rightarrow> (string \<times> string \<times> string) option" where
  "store_entry item =
     (case cut item CHR '':'' of (user, storeToken, ok) \<Rightarrow>
        case cut storeToken CHR '':'' of (storeName, token, ok2) \<Rightarrow>
          if ok \<and> ok2 then Some (user, storeName, token) else None)"

definition store_entries :: "string \<Rightarrow> (string \<times> string \<times> string) list" where
  "store_entries value = somes (map store_entry (comma_fields value))"

definition add_entry :: "store_auth_token_map \<Rightarrow> string \<times> string \<times> string \<Rightarrow> store_auth_token_map" where
  "add_entry m e = (case e of (user, storeName, token) \<Rightarrow> setToken user storeName token (addStore user storeName m))"

text \<open>The last token of a user for a store, and the stores of a user in the order of their first entry.\<close>

definition entry_token :: "(string \<times> string \<times> string) list \<Rightarrow> string \<Rightarrow> string \<Rightarrow> string option" where
  "entry_token es user store = map_of (rev (map (\<lambda>(u, n, t). ((u, n), t)) es)) (user, store)"

definition entry_stores :: "(string \<times> string \<times> string) list \<Rightarrow> string \<Rightarrow> string list" where
  "entry_stores es user =
     foldl (\<lambda>ns (u, n, t). if u \<noteq> user \<or> n \<in> set ns then ns else ns @ [n]) [] es"

definition token_of :: "store_auth_token_map \<Rightarrow> string \<Rightarrow> string \<Rightarrow> string option" where
  "token_of m user store = Option.bind (map_of m user) (\<lambda>um. map_of um store)"

lemma GetToken_alt:
  "GetToken m user store =
     (case token_of m user store of Some t \<Rightarrow> t | None \<Rightarrow> (case token_of m ''*'' store of Some t \<Rightarrow> t | None \<Rightarrow> []))"
  by (auto simp: GetToken_def token_of_def Let_def split: option.splits)

lemma getStores_alt: "getStores m user = (case token_of m user ''*'' of Some t \<Rightarrow> t | None \<Rightarrow> [])"
  by (auto simp: getStores_def token_of_def split: option.splits)

lemma token_of_setToken:
  "token_of (setToken user store token m) u s = (if u = user \<and> s = store then Some token else token_of m u s)"
  by (auto simp: token_of_def setToken_def Let_def map_of_update_if split: option.splits)

lemma contains_str_sublist: "contains_str s p \<longleftrightarrow> sublist p s"
proof (induction s)
  case (Cons c s)
  have "has_prefix (c # s) p \<longleftrightarrow> prefix p (c # s)" by (auto simp: has_prefix_iff prefix_def)
  with Cons show ?case by (auto simp: contains_str_def sublist_Cons_right)
qed (simp add: contains_str_def)

lemma sublist_sep:
  assumes "c \<notin> set p" and "p \<noteq> []"
  shows "sublist p (x @ c # y) \<longleftrightarrow> sublist p x \<or> sublist p y"
proof -
  have no: "prefix q (c # y) \<Longrightarrow> c \<notin> set q \<Longrightarrow> q = []" for q by (cases q) auto
  have "\<not> prefix p (c # y)" using no assms by blast
  moreover have "(\<exists>q r. p = q @ r \<and> suffix q x \<and> prefix r (c # y)) \<longrightarrow> sublist p x"
    using no assms(1) by fastforce
  ultimately show ?thesis by (auto simp: sublist_append sublist_Cons_right)
qed

lemma valid_names_apart: "StoreName_IsValid a \<Longrightarrow> StoreName_IsValid b \<Longrightarrow> sublist a b \<longleftrightarrow> a = b"
proof -
  have "list_all (\<lambda>a. list_all (\<lambda>b. contains_str b a = (a = b)) (map fst storeCodeByName)) (map fst storeCodeByName)"
    by code_simp
  moreover have "StoreName_IsValid a \<longleftrightarrow> a \<in> set (map fst storeCodeByName)" for a
    by (metis StoreName_IsValid_def map_of_eq_None_iff set_map)
  ultimately show "StoreName_IsValid a \<Longrightarrow> StoreName_IsValid b \<Longrightarrow> sublist a b \<longleftrightarrow> a = b"
    unfolding contains_str_sublist list_all_iff by blast
qed

lemma valid_name_chars: "StoreName_IsValid a \<Longrightarrow> a \<noteq> [] \<and> a \<noteq> ''*'' \<and> \<not> list_ex is_space a"
proof -
  have "list_all (\<lambda>a. a \<noteq> [] \<and> a \<noteq> ''*'' \<and> \<not> list_ex is_space a) (map fst storeCodeByName)"
    by code_simp
  moreover have "StoreName_IsValid a \<longleftrightarrow> a \<in> set (map fst storeCodeByName)"
    by (metis StoreName_IsValid_def map_of_eq_None_iff set_map)
  ultimately show "StoreName_IsValid a \<Longrightarrow> a \<noteq> [] \<and> a \<noteq> ''*'' \<and> \<not> list_ex is_space a"
    unfolding list_all_iff by blast
qed

lemma go_join_snoc: "go_join sep (xs @ [x]) = (if xs = [] then x else go_join sep xs @ sep @ x)"
  by (induction sep xs rule: go_join.induct) auto

lemma sublist_join:
  assumes "c \<notin> set p" and "p \<noteq> []"
  shows "sublist p (go_join [c] ns) \<longleftrightarrow> (\<exists>n \<in> set ns. sublist p n)"
  using assms(2) by (induction "[c]" ns rule: go_join.induct) (auto simp: sublist_sep [OF assms])

lemma space_fields_word: "\<not> list_ex is_space w \<Longrightarrow> space_fields acc (w @ s) = space_fields (acc @ w) s"
  by (induction w arbitrary: acc) auto

lemma space_fields_join:
  "list_all (\<lambda>n. n \<noteq> [] \<and> \<not> list_ex is_space n) ns \<Longrightarrow> space_fields [] (go_join '' '' ns) = ns"
proof (induction "'' ''" ns rule: go_join.induct)
  case (2 x)
  then show ?case using space_fields_word [of x "[]" "[]"] by simp
next
  case (3 x y xs)
  then show ?case using space_fields_word [of x "[]" "CHR '' '' # go_join '' '' (y # xs)"] by (simp add: is_space_def)
qed simp

lemma store_auth_step_alt:
  "store_auth_step x m =
     (case store_entry x of
        None \<Rightarrow> Inr m
      | Some (u, n, t) \<Rightarrow> if StoreName_IsValid n then Inr (add_entry m (u, n, t)) else Inl (FatalStoreName n))"
  by (auto simp: store_auth_step_def store_entry_def add_entry_def split: prod.splits)

lemma store_auth_entries:
  "fold_fatal store_auth_step xs m = Inr m' \<Longrightarrow>
     list_all (\<lambda>(u, n, t). StoreName_IsValid n) (somes (map store_entry xs)) \<and> m' = foldl add_entry m (somes (map store_entry xs))"
proof (induction xs arbitrary: m)
  case (Cons x xs)
  then obtain m1 where m1: "store_auth_step x m = Inr m1" and "fold_fatal store_auth_step xs m1 = Inr m'"
    by (auto split: sum.splits)
  then have IH: "list_all (\<lambda>(u, n, t). StoreName_IsValid n) (somes (map store_entry xs)) \<and> m' = foldl add_entry m1 (somes (map store_entry xs))"
    using Cons.IH by blast
  show ?case
  proof (cases "store_entry x")
    case None
    with m1 IH show ?thesis by (simp add: store_auth_step_alt)
  next
    case (Some e)
    with m1 IH show ?thesis by (cases e) (simp add: store_auth_step_alt split: if_splits)
  qed
qed simp

definition entries_ok :: "(string \<times> string \<times> string) list \<Rightarrow> store_auth_token_map \<Rightarrow> bool" where
  "entries_ok es m \<longleftrightarrow>
     (\<forall>u s. token_of m u s =
        (if s = ''*'' then (if entry_stores es u = [] then None else Some (go_join '' '' (entry_stores es u))) else entry_token es u s))"

lemma entry_stores_snoc:
  "entry_stores (es @ [(u, n, t)]) user =
     (if u \<noteq> user \<or> n \<in> set (entry_stores es user) then entry_stores es user else entry_stores es user @ [n])"
  by (simp add: entry_stores_def)

lemma entry_token_snoc: "entry_token (es @ [(u, n, t)]) user s = (if user = u \<and> s = n then Some t else entry_token es user s)"
  by (simp add: entry_token_def)

lemma entry_stores_valid:
  "list_all (\<lambda>(u, n, t). StoreName_IsValid n) es \<Longrightarrow> list_all StoreName_IsValid (entry_stores es user)"
proof (induction es rule: rev_induct)
  case (snoc e es)
  then show ?case by (cases e) (auto simp: entry_stores_snoc)
qed (simp add: entry_stores_def)

lemma add_entry_ok:
  assumes ok: "entries_ok es m" and valid: "list_all (\<lambda>(u, n, t). StoreName_IsValid n) es" and n: "StoreName_IsValid n"
  shows "entries_ok (es @ [(u, n, t)]) (add_entry m (u, n, t))"
proof -
  let ?ns = "entry_stores es u"
  have ns: "x \<in> set ?ns \<Longrightarrow> StoreName_IsValid x" for x using entry_stores_valid [OF valid] by (auto simp: list_all_iff)
  have chars: "n \<noteq> []" "n \<noteq> ''*''" "CHR '' '' \<notin> set n"
    using valid_name_chars [OF n] by (auto simp: list_ex_iff is_space_def)
  have stores: "getStores m u = go_join '' '' ?ns" using ok by (simp add: getStores_alt entries_ok_def)
  have joined: "go_join '' '' ?ns = [] \<longleftrightarrow> ?ns = []"
  proof (cases ?ns rule: rev_cases)
    case (snoc xs x)
    then show ?thesis using valid_name_chars [OF ns [of x]] by (simp add: go_join_snoc)
  qed simp
  have "contains_str (go_join '' '' ?ns) n \<longleftrightarrow> n \<in> set ?ns"
    using ns n valid_names_apart unfolding contains_str_sublist sublist_join [OF chars(3,1)] by blast
  then have add: "addStore u n m = setToken u ''*'' (go_join '' '' (entry_stores (es @ [(u, n, t)]) u)) m"
    using joined by (auto simp: addStore_def stores Let_def entry_stores_snoc go_join_snoc)
  have "entry_stores (es @ [(u, n, t)]) u \<noteq> []" by (auto simp: entry_stores_snoc)
  then show ?thesis using ok chars
    by (auto simp: entries_ok_def add_entry_def add token_of_setToken entry_token_snoc entry_stores_snoc)
qed

lemma entries_ok_foldl:
  "list_all (\<lambda>(u, n, t). StoreName_IsValid n) es \<Longrightarrow> entries_ok es (foldl add_entry [] es)"
proof (induction es rule: rev_induct)
  case Nil
  then show ?case by (simp add: entries_ok_def entry_stores_def entry_token_def token_of_def)
next
  case (snoc e es)
  then show ?case using add_entry_ok by (cases e) auto
qed

text \<open>
  C31: (refinement) A user's token for a store is the last one STREMTHRU_STORE_AUTH lists for the user and the store, else
  the last one listed for the user \<open>*\<close>; the user's stores are those of the user's entries in the order of their first
  entry, else those of \<open>*\<close>. So a user with entries of their own still gets the tokens of \<open>*\<close> for other stores.\<close>
theorem parse_store_auth_spec:
  assumes "parse_store_auth value = Inr m" and "store \<noteq> ''*''"
  shows "GetToken m user store =
      (case entry_token (store_entries value) user store of
         Some t \<Rightarrow> t
       | None \<Rightarrow> (case entry_token (store_entries value) ''*'' store of Some t \<Rightarrow> t | None \<Rightarrow> []))
    \<and> ListStores m user =
      (if entry_stores (store_entries value) user \<noteq> [] then entry_stores (store_entries value) user
       else entry_stores (store_entries value) ''*'')"
proof -
  let ?es = "store_entries value"
  have valid: "list_all (\<lambda>(u, n, t). StoreName_IsValid n) ?es" and m: "m = foldl add_entry [] ?es"
    using store_auth_entries assms(1) by (auto simp: parse_store_auth_def store_entries_def)
  have tok: "token_of m u s =
      (if s = ''*'' then (if entry_stores ?es u = [] then None else Some (go_join '' '' (entry_stores ?es u))) else entry_token ?es u s)" for u s
    using entries_ok_foldl [OF valid] by (auto simp: m entries_ok_def)
  have "space_fields [] (go_join '' '' (entry_stores ?es u)) = entry_stores ?es u" for u
    using entry_stores_valid [OF valid, of u] by (intro space_fields_join) (auto simp: list_all_iff dest!: valid_name_chars)
  then show ?thesis using assms(2) by (auto simp: GetToken_alt tok ListStores_def split: option.splits)
qed

lemma sample_store_auth:
  "parse_store_auth ''bob:torbox:t1,*:realdebrid:r1'' =
     Inr [(''bob'', [(''*'', ''torbox''), (''torbox'', ''t1'')]), (''*'', [(''*'', ''realdebrid''), (''realdebrid'', ''r1'')])]"
  by code_simp

theorem parse_store_auth_spec_witness:
  "GetToken [(''bob'', [(''*'', ''torbox''), (''torbox'', ''t1'')]), (''*'', [(''*'', ''realdebrid''), (''realdebrid'', ''r1'')])]
     ''bob'' ''realdebrid'' = ''r1''"
proof -
  have "store_entries ''bob:torbox:t1,*:realdebrid:r1'' = [(''bob'', ''torbox'', ''t1''), (''*'', ''realdebrid'', ''r1'')]"
    by code_simp
  then show ?thesis
    using parse_store_auth_spec [OF sample_store_auth, of "''realdebrid''" "''bob''"] by (simp add: entry_token_def)
qed

end
