(* ===== verification/Tunnel.thy ===== *)
theory Tunnel
  imports Config
begin

text \<open>
  Proxies for outgoing requests (\<open>internal/config/http.go\<close>): the tunnel map with its memoizing suffix lookup,
  the choice of a proxy for a request, the parsers of the tunnel settings, and the resolver of the addresses behind the proxies.

  A URL is its host and the rest of it; \<open>parse\<close> stands for \<open>url.Parse\<close>, \<open>environment_proxy\<close> for
  \<open>http.ProxyFromEnvironment\<close> and \<open>ip_of\<close> for a request to the address checker through a proxy.
  Times are nanoseconds. \<open>os.Setenv\<close> only fails on names and values no environment can hold.
\<close>

section \<open>Tunnel map\<close>

record proxy_url =
  pu_Host :: string
  pu_rest :: string

definition no_url :: proxy_url where
  "no_url = \<lparr>pu_Host = [], pu_rest = []\<rparr>"

type_synonym tunnel_map = "(string \<times> proxy_url) list"

definition hasProxy :: "tunnel_map \<Rightarrow> bool" where
  "hasProxy tm = list_ex (\<lambda>(_, proxyUrl). pu_Host proxyUrl \<noteq> []) tm"

lemma cut_rest_shorter: "fst (snd (cut s c)) \<noteq> [] \<Longrightarrow> length (fst (snd (cut s c))) < length s"
  by (induction s) (auto split: prod.splits if_splits)

function suffix_lookup :: "tunnel_map \<Rightarrow> string \<Rightarrow> (string \<times> proxy_url) option" where
  "suffix_lookup tm hn =
     (case map_of tm hn of
        Some proxy \<Rightarrow> Some (hn, proxy)
      | None \<Rightarrow>
          let hn' = fst (snd (cut hn CHR ''.'')) in
          if hn' = [] then None else suffix_lookup tm hn')"
  by pat_completeness auto

termination suffix_lookup
  by (relation "measure (\<lambda>(tm, hn). length hn)") (auto simp: cut_rest_shorter)

declare suffix_lookup.simps [simp del]

definition getProxy :: "tunnel_map \<Rightarrow> string \<Rightarrow> proxy_url option \<times> tunnel_map" where
  "getProxy tm hostname =
     (case suffix_lookup tm hostname of
        None \<Rightarrow> (None, tm)
      | Some (hn, proxy) \<Rightarrow> (Some proxy, if hn \<noteq> hostname then AList.update hostname proxy tm else tm))"

definition GetDefaultProxyHost :: "tunnel_map \<Rightarrow> string \<times> tunnel_map" where
  "GetDefaultProxyHost tm =
     (case getProxy tm ''*'' of
        (Some proxy, tm') \<Rightarrow> (if pu_Host proxy \<noteq> [] then pu_Host proxy else [], tm')
      | (None, tm') \<Rightarrow> ([], tm'))"

text \<open>The proxy of a request, \<open>Inl\<close> for an error of the environment's.\<close>

type_synonym environment_proxy = "string \<Rightarrow> string + proxy_url option"

definition autoProxy :: "environment_proxy \<Rightarrow> tunnel_map \<Rightarrow> string \<Rightarrow> (string + proxy_url option) \<times> tunnel_map" where
  "autoProxy envProxy tm hostname =
     (case getProxy tm hostname of
        (None, tm') \<Rightarrow> (envProxy hostname, tm')
      | (Some proxy, tm') \<Rightarrow> (Inr (if pu_Host proxy = [] then None else Some proxy), tm'))"

definition forcedProxy :: "tunnel_map \<Rightarrow> string \<Rightarrow> (string + proxy_url option) \<times> tunnel_map" where
  "forcedProxy tm hostname =
     (let (p, tm1) = getProxy tm hostname in
      case p of
        Some proxy \<Rightarrow>
          if pu_Host proxy \<noteq> [] then (Inr (Some proxy), tm1)
          else (case getProxy tm1 ''*'' of
            (Some d, tm2) \<Rightarrow> (Inr (if pu_Host d \<noteq> [] then Some d else None), tm2)
          | (None, tm2) \<Rightarrow> (Inr None, tm2))
      | None \<Rightarrow>
          (case getProxy tm1 ''*'' of
            (Some d, tm2) \<Rightarrow> (Inr (if pu_Host d \<noteq> [] then Some d else None), tm2)
          | (None, tm2) \<Rightarrow> (Inr None, tm2)))"

datatype tunnel_type = TUNNEL_TYPE_NONE | TUNNEL_TYPE_AUTO | TUNNEL_TYPE_FORCED

definition GetProxy :: "environment_proxy \<Rightarrow> tunnel_type \<Rightarrow> tunnel_map \<Rightarrow> string \<Rightarrow> (string + proxy_url option) \<times> tunnel_map" where
  "GetProxy envProxy tunnelType tm hostname =
     (case tunnelType of
        TUNNEL_TYPE_AUTO \<Rightarrow> autoProxy envProxy tm hostname
      | TUNNEL_TYPE_FORCED \<Rightarrow> forcedProxy tm hostname
      | TUNNEL_TYPE_NONE \<Rightarrow> (Inr None, tm))"

section \<open>Tunnel settings\<close>

text \<open>The default proxy, and the environment with the variables set for Go's own lookup.\<close>

definition default_proxy :: "(string \<Rightarrow> proxy_url option) \<Rightarrow> string \<Rightarrow> string \<Rightarrow> environment \<Rightarrow> proxy_url \<times> environment" where
  "default_proxy parse httpProxy httpsProxy env =
     (let env1 = (if 0 < length httpProxy then env(''HTTP_PROXY'' \<mapsto> httpProxy, ''HTTPS_PROXY'' \<mapsto> httpProxy) else env);
          d1 = (if 0 < length httpProxy then case parse httpProxy of Some u \<Rightarrow> u | None \<Rightarrow> no_url else no_url)
      in if 0 < length httpsProxy then
           (if pu_Host d1 = [] then (case parse httpsProxy of Some u \<Rightarrow> u | None \<Rightarrow> d1) else d1,
            env1(''HTTPS_PROXY'' \<mapsto> httpsProxy))
         else (d1, env1))"

definition tunnel_item ::
  "(string \<Rightarrow> proxy_url option) \<Rightarrow> proxy_url \<Rightarrow> tunnel_map \<times> environment \<Rightarrow> string \<Rightarrow> tunnel_map \<times> environment" where
  "tunnel_item parse defaultProxy s item =
     (case cut item CHR '':'' of (hostname, proxy, ok) \<Rightarrow>
        if \<not> ok then s
        else if hostname = ''*'' then
          (fst s, if proxy = ''false'' then (snd s)(''NO_PROXY'' \<mapsto> ''*'')
                  else if proxy = ''true'' then (snd s)(''NO_PROXY'' := None)
                  else snd s)
        else if proxy = ''false'' then (AList.update hostname no_url (fst s), snd s)
        else if proxy = ''true'' then (AList.update hostname defaultProxy (fst s), snd s)
        else (case parse proxy of
                Some u \<Rightarrow> (AList.update hostname u (fst s), snd s)
              | None \<Rightarrow> s))"

definition parseTunnel ::
  "(string \<Rightarrow> proxy_url option) \<Rightarrow> string \<Rightarrow> string \<Rightarrow> string \<Rightarrow> environment \<Rightarrow> tunnel_map \<times> environment" where
  "parseTunnel parse httpProxy httpsProxy tunnel env =
     (case default_proxy parse httpProxy httpsProxy env of (defaultProxy, env') \<Rightarrow>
        foldl (tunnel_item parse defaultProxy) ([(''*'', defaultProxy)], env') (comma_fields tunnel))"

definition Tunnel_of_env ::
  "(string \<Rightarrow> proxy_url option) \<Rightarrow> (string \<Rightarrow> string) \<Rightarrow> environment \<Rightarrow> tunnel_map \<times> environment" where
  "Tunnel_of_env parse get env =
     (let httpProxy = get ''STREMTHRU_HTTP_PROXY'';
          httpsProxy0 = get ''STREMTHRU_HTTPS_PROXY'';
          httpsProxy = (if httpsProxy0 = [] then httpProxy else httpsProxy0)
      in parseTunnel parse httpProxy httpsProxy (get ''STREMTHRU_TUNNEL'') env)"

record store_tunnel_config =
  tc_api :: bool
  tc_stream :: bool

type_synonym store_tunnel_map = "(string \<times> store_tunnel_config) list"

definition isEnabledForAPI :: "store_tunnel_map \<Rightarrow> string \<Rightarrow> bool" where
  "isEnabledForAPI stc name =
     (case map_of stc name of
        Some c \<Rightarrow> tc_api c
      | None \<Rightarrow> if name \<noteq> ''*'' then (case map_of stc ''*'' of Some c \<Rightarrow> tc_api c | None \<Rightarrow> True) else True)"

definition GetTypeForAPI :: "store_tunnel_map \<Rightarrow> string \<Rightarrow> tunnel_type" where
  "GetTypeForAPI stc name = (if isEnabledForAPI stc name then TUNNEL_TYPE_FORCED else TUNNEL_TYPE_NONE)"

definition isEnabledForStream :: "store_tunnel_map \<Rightarrow> string \<Rightarrow> bool" where
  "isEnabledForStream stc name =
     (case map_of stc name of
        Some c \<Rightarrow> tc_stream c
      | None \<Rightarrow> if name \<noteq> ''*'' then (case map_of stc ''*'' of Some c \<Rightarrow> tc_stream c | None \<Rightarrow> True) else True)"

definition GetTypeForStream :: "store_tunnel_map \<Rightarrow> string \<Rightarrow> tunnel_type" where
  "GetTypeForStream stc name = (if isEnabledForStream stc name then TUNNEL_TYPE_FORCED else TUNNEL_TYPE_NONE)"

definition contentHostnameByStore :: "(string \<times> string) list" where
  "contentHostnameByStore =
     [(''alldebrid'', ''debrid.it''), (''debridlink'', ''debrid.link''), (''premiumize'', ''energycdn.com''),
      (''realdebrid'', ''download.real-debrid.com''), (''torbox'', ''tb-cdn.st'')]"

text \<open>The URL a setting gives a content host, \<open>None\<close> for the nil pointer of a missing default.\<close>

definition content_url :: "string \<Rightarrow> tunnel_map \<Rightarrow> proxy_url option" where
  "content_url tunnel tm = (if tunnel = ''true'' then fst (getProxy tm ''*'') else Some no_url)"

fun fill_hosts :: "string \<Rightarrow> string list \<Rightarrow> tunnel_map \<Rightarrow> tunnel_map option" where
  "fill_hosts tunnel [] tm = Some tm"
| "fill_hosts tunnel (h # hs) tm =
     (if map_of tm h \<noteq> None then fill_hosts tunnel hs tm
      else case content_url tunnel tm of
        None \<Rightarrow> None
      | Some u \<Rightarrow> fill_hosts tunnel hs (AList.update h u tm))"

definition store_tunnel_item :: "string \<Rightarrow> store_tunnel_map \<times> tunnel_map \<Rightarrow> (store_tunnel_map \<times> tunnel_map) option" where
  "store_tunnel_item item s =
     (case cut item CHR '':'' of (store, tunnel, ok) \<Rightarrow>
        if \<not> ok then Some s
        else
          let stm = AList.update store \<lparr>tc_api = (tunnel = ''true'' \<or> tunnel = ''api''), tc_stream = (tunnel = ''true'')\<rparr> (fst s) in
          if store = ''*'' then
            map_option (\<lambda>tm. (stm, tm)) (fill_hosts tunnel (map snd contentHostnameByStore) (snd s))
          else (case map_of contentHostnameByStore store of
            None \<Rightarrow> Some (stm, snd s)
          | Some hostname \<Rightarrow>
              map_option (\<lambda>u. (stm, AList.update hostname u (snd s))) (content_url tunnel (snd s))))"

fun store_tunnel_items :: "string list \<Rightarrow> store_tunnel_map \<times> tunnel_map \<Rightarrow> (store_tunnel_map \<times> tunnel_map) option" where
  "store_tunnel_items [] s = Some s"
| "store_tunnel_items (x # xs) s = Option.bind (store_tunnel_item x s) (store_tunnel_items xs)"

definition parseStoreTunnel :: "string \<Rightarrow> tunnel_map \<Rightarrow> (store_tunnel_map \<times> tunnel_map) option" where
  "parseStoreTunnel storeTunnel tm = store_tunnel_items (comma_fields storeTunnel) ([], tm)"

section \<open>Addresses\<close>

record ip_resolver =
  ir_machineIP :: string
  ir_byHostname :: "(string \<times> string) list"
  ir_byProxyHost :: "(string \<times> string) list"
  ir_staleAt :: int

text \<open>\<open>ip_of\<close> takes the host of the proxy, empty for none. A failed machine address is a panic.\<close>

type_synonym ip_lookup = "string \<Rightarrow> string + string"

definition getIp :: "(string \<Rightarrow> string \<Rightarrow> string + string) \<Rightarrow> string \<Rightarrow> ip_lookup" where
  "getIp fetch checker proxyHost =
     (if checker \<in> {''aws'', ''amazon''} then
        (case fetch ''https://checkip.amazonaws.com'' proxyHost of Inl e \<Rightarrow> Inl e | Inr body \<Rightarrow> Inr (trim_space body))
      else if checker = ''akamai'' then
        (case fetch ''https://whatismyip.akamai.com'' proxyHost of Inl e \<Rightarrow> Inl e | Inr body \<Rightarrow> Inr (trim_space body))
      else Inl (''invalid ip checker: '' @ checker))"

definition GetMachineIP :: "ip_lookup \<Rightarrow> ip_resolver \<Rightarrow> string + string \<times> ip_resolver" where
  "GetMachineIP ip_of r =
     (if ir_machineIP r = [] then
        (case ip_of [] of
           Inl e \<Rightarrow> Inl e
         | Inr ip \<Rightarrow> Inr (ip, r\<lparr>ir_machineIP := ip\<rparr>))
      else Inr (ir_machineIP r, r))"

type_synonym ip_maps = "(string \<times> string) list \<times> (string \<times> string) list \<times> string list"

fun resolve_loop :: "ip_lookup \<Rightarrow> tunnel_map \<Rightarrow> ip_maps \<Rightarrow> ip_resolver \<Rightarrow> string + ip_maps \<times> ip_resolver" where
  "resolve_loop ip_of [] (hosts, proxies, errs) r = Inr ((hosts, proxies, errs), r)"
| "resolve_loop ip_of ((hostname, u) # tunnels) (hosts, proxies, errs) r =
     (case map_of proxies (pu_Host u) of
        Some ip \<Rightarrow> resolve_loop ip_of tunnels (AList.update hostname ip hosts, proxies, errs) r
      | None \<Rightarrow>
          if pu_Host u = [] then
            (case GetMachineIP ip_of r of
               Inl e \<Rightarrow> Inl e
             | Inr (ip, r') \<Rightarrow>
                 resolve_loop ip_of tunnels (AList.update hostname ip hosts, AList.update (pu_Host u) ip proxies, errs) r')
          else (case ip_of (pu_Host u) of
             Inr ip \<Rightarrow>
               resolve_loop ip_of tunnels (AList.update hostname ip hosts, AList.update (pu_Host u) ip proxies, errs) r
           | Inl e \<Rightarrow>
               resolve_loop ip_of tunnels (AList.update hostname [] hosts, AList.update (pu_Host u) [] proxies, errs @ [e]) r))"

definition resolveTunnelIPMap :: "ip_lookup \<Rightarrow> tunnel_map \<Rightarrow> int \<Rightarrow> ip_resolver \<Rightarrow> string + string list \<times> ip_resolver" where
  "resolveTunnelIPMap ip_of tunnel now r =
     (if \<not> ir_staleAt r < now then Inr ([], r)
      else case resolve_loop ip_of tunnel ([], [], []) r of
        Inl e \<Rightarrow> Inl e
      | Inr ((hosts, proxies, errs), r') \<Rightarrow>
          Inr (errs, r'\<lparr>ir_byHostname := hosts, ir_byProxyHost := AList.delete [] proxies, ir_staleAt := now + 30 * minute\<rparr>))"

definition GetTunnelIPByProxyHost :: "ip_lookup \<Rightarrow> tunnel_map \<Rightarrow> int \<Rightarrow> ip_resolver \<Rightarrow> string + (string \<times> string) list \<times> string list \<times> ip_resolver" where
  "GetTunnelIPByProxyHost ip_of tunnel now r =
     map_sum id (\<lambda>(errs, r'). (ir_byProxyHost r', errs, r')) (resolveTunnelIPMap ip_of tunnel now r)"

definition GetTunnelIPByHostname :: "ip_lookup \<Rightarrow> tunnel_map \<Rightarrow> int \<Rightarrow> ip_resolver \<Rightarrow> string + (string \<times> string) list \<times> string list \<times> ip_resolver" where
  "GetTunnelIPByHostname ip_of tunnel now r =
     map_sum id (\<lambda>(errs, r'). (ir_byHostname r', errs, r')) (resolveTunnelIPMap ip_of tunnel now r)"

section \<open>Lemmas\<close>

subsection \<open>The memoized lookup\<close>

lemma suffix_lookup_memo:
  "suffix_lookup tm h = Some (hn, p) \<Longrightarrow>
     map_option snd (suffix_lookup (AList.update h p tm) g) = map_option snd (suffix_lookup tm g)"
proof (induction tm g rule: suffix_lookup.induct)
  case (1 tm g)
  show ?case
  proof (cases "g = h")
    case True
    then show ?thesis using 1(2) by (simp add: suffix_lookup.simps [of "AList.update h p tm"] map_of_update_if)
  next
    case False
    then show ?thesis using 1
      by (auto simp: suffix_lookup.simps [of "AList.update h p tm" g] suffix_lookup.simps [of tm g] map_of_update_if Let_def
          split: option.splits)
  qed
qed

lemma fst_getProxy: "fst (getProxy tm h) = map_option snd (suffix_lookup tm h)"
  by (auto simp: getProxy_def split: option.splits)

text \<open>
  (refinement) The lookup that writes its answers into the tunnel map is transparent: after a lookup of one host every
  host gets the proxy it got before.\<close>
theorem getProxy_transparent: "fst (getProxy (snd (getProxy tm h)) g) = fst (getProxy tm g)"
proof (cases "suffix_lookup tm h")
  case None
  then show ?thesis by (simp add: getProxy_def [of tm h])
next
  case (Some q)
  then show ?thesis using suffix_lookup_memo [of tm h "fst q" "snd q" g]
    by (cases q) (simp add: fst_getProxy, simp add: getProxy_def)
qed

lemma getProxy_star: "map_of tm ''*'' = Some d \<Longrightarrow> getProxy tm ''*'' = (Some d, tm)"
  by (simp add: getProxy_def suffix_lookup.simps)

subsection \<open>Tunnels of the stores\<close>

definition setting_url :: "proxy_url \<Rightarrow> string \<Rightarrow> proxy_url" where
  "setting_url d tunnel = (if tunnel = ''true'' then d else no_url)"

definition setting_config :: "string \<Rightarrow> store_tunnel_config" where
  "setting_config tunnel = \<lparr>tc_api = (tunnel = ''true'' \<or> tunnel = ''api''), tc_stream = (tunnel = ''true'')\<rparr>"

definition tunnel_setting :: "string \<Rightarrow> (string \<times> string) option" where
  "tunnel_setting item = (case cut item CHR '':'' of (store, tunnel, ok) \<Rightarrow> if ok then Some (store, tunnel) else None)"

text \<open>
  The URL of a store's content host: by the last setting of the store, else as in the tunnel map, else by the first setting of \<open>*\<close>.
\<close>

definition content_host_url :: "tunnel_map \<Rightarrow> proxy_url \<Rightarrow> (string \<times> string) list \<Rightarrow> string \<Rightarrow> string \<Rightarrow> proxy_url option" where
  "content_host_url tm d settings store host =
     (case map_of (rev settings) store of
        Some tunnel \<Rightarrow> Some (setting_url d tunnel)
      | None \<Rightarrow> (case map_of tm host of
          Some u \<Rightarrow> Some u
        | None \<Rightarrow> map_option (setting_url d) (map_of settings ''*'')))"

lemma content_url_star: "map_of tm ''*'' = Some d \<Longrightarrow> content_url tunnel tm = Some (setting_url d tunnel)"
  by (simp add: content_url_def setting_url_def getProxy_star)

lemma fill_hosts_spec:
  assumes "map_of tm ''*'' = Some d" and "''*'' \<notin> set hs"
  shows "\<exists>tm'. fill_hosts tunnel hs tm = Some tm' \<and>
    (\<forall>h. map_of tm' h = (if h \<in> set hs \<and> map_of tm h = None then Some (setting_url d tunnel) else map_of tm h))"
  using assms
proof (induction hs arbitrary: tm)
  case (Cons h hs)
  show ?case
  proof (cases "map_of tm h")
    case None
    have "map_of (AList.update h (setting_url d tunnel) tm) ''*'' = Some d" using Cons.prems by (auto simp: map_of_update_if)
    then obtain tm' where "fill_hosts tunnel hs (AList.update h (setting_url d tunnel) tm) = Some tm'"
      and tm': "\<forall>g. map_of tm' g = (if g \<in> set hs \<and> map_of (AList.update h (setting_url d tunnel) tm) g = None
          then Some (setting_url d tunnel) else map_of (AList.update h (setting_url d tunnel) tm) g)"
      using Cons.IH Cons.prems(2) by fastforce
    then have "fill_hosts tunnel (h # hs) tm = Some tm'" using None by (simp add: content_url_star [OF Cons.prems(1)])
    with tm' None show ?thesis by (auto simp: map_of_update_if)
  next
    case (Some u)
    then show ?thesis using Cons.IH [OF Cons.prems(1)] Cons.prems(2) by fastforce
  qed
qed simp

lemma content_hosts:
  "map_of contentHostnameByStore s = Some h \<Longrightarrow> map_of contentHostnameByStore s' = Some h' \<Longrightarrow> h = h' \<longleftrightarrow> s = s'"
  "map_of contentHostnameByStore s = Some h \<Longrightarrow> h \<in> set (map snd contentHostnameByStore) \<and> h \<noteq> ''*'' \<and> s \<noteq> ''*''"
  "''*'' \<notin> set (map snd contentHostnameByStore)"
  by (auto simp: contentHostnameByStore_def split: if_splits)

definition settings_inv :: "tunnel_map \<Rightarrow> proxy_url \<Rightarrow> (string \<times> string) list \<Rightarrow> store_tunnel_map \<times> tunnel_map \<Rightarrow> bool" where
  "settings_inv tm d ps s \<longleftrightarrow>
     map_of (snd s) ''*'' = Some d
     \<and> (\<forall>store. map_of (fst s) store = map_option setting_config (map_of (rev ps) store))
     \<and> (\<forall>store host. map_of contentHostnameByStore store = Some host \<longrightarrow> map_of (snd s) host = content_host_url tm d ps store host)"

lemma settings_inv_step:
  assumes inv: "settings_inv tm d ps s" and x: "tunnel_setting x = Some (store, tunnel)"
  shows "\<exists>s'. store_tunnel_item x s = Some s' \<and> settings_inv tm d (ps @ [(store, tunnel)]) s'"
proof -
  have cut: "cut x CHR '':'' = (store, tunnel, True)" using x by (auto simp: tunnel_setting_def split: prod.splits if_splits)
  have star: "map_of (snd s) ''*'' = Some d" using inv by (simp add: settings_inv_def)
  let ?stm = "AList.update store (setting_config tunnel) (fst s)"
  have stm: "map_of ?stm st = map_option setting_config (map_of (rev (ps @ [(store, tunnel)])) st)" for st
    using inv by (auto simp: settings_inv_def map_of_update_if)
  show ?thesis
  proof (cases "store = ''*''")
    case True
    obtain tm' where tm': "fill_hosts tunnel (map snd contentHostnameByStore) (snd s) = Some tm'"
      and look: "\<forall>h. map_of tm' h = (if h \<in> set (map snd contentHostnameByStore) \<and> map_of (snd s) h = None
          then Some (setting_url d tunnel) else map_of (snd s) h)"
      using fill_hosts_spec [OF star content_hosts(3)] by blast
    have "map_of tm' host = content_host_url tm d (ps @ [(store, tunnel)]) st host"
      if c: "map_of contentHostnameByStore st = Some host" for st host
      using c inv content_hosts(2) [OF c] True
      by (auto simp: look settings_inv_def content_host_url_def map_add_def split: option.splits)
    moreover have "map_of tm' ''*'' = Some d" using look star content_hosts(3) by simp
    ultimately have "settings_inv tm d (ps @ [(store, tunnel)]) (?stm, tm')" using stm by (simp add: settings_inv_def)
    moreover have "store_tunnel_item x s = Some (?stm, tm')"
      by (simp add: store_tunnel_item_def cut True tm' setting_config_def Let_def)
    ultimately show ?thesis by blast
  next
    case False
    show ?thesis
    proof (cases "map_of contentHostnameByStore store")
      case None
      then have "store_tunnel_item x s = Some (?stm, snd s)"
        by (simp add: store_tunnel_item_def cut False setting_config_def Let_def)
      moreover have "settings_inv tm d (ps @ [(store, tunnel)]) (?stm, snd s)"
        using inv stm None False by (auto simp: settings_inv_def content_host_url_def map_add_def split: option.splits)
      ultimately show ?thesis by blast
    next
      case (Some host)
      let ?tm = "AList.update host (setting_url d tunnel) (snd s)"
      have "store_tunnel_item x s = Some (?stm, ?tm)"
        by (simp add: store_tunnel_item_def cut False setting_config_def Let_def Some content_url_star [OF star])
      moreover have "map_of ?tm h = content_host_url tm d (ps @ [(store, tunnel)]) st h"
        if c: "map_of contentHostnameByStore st = Some h" for st h
        using c inv content_hosts(1) [OF c Some] False
        by (auto simp: settings_inv_def map_of_update_if content_host_url_def map_add_def split: option.splits)
      moreover have "map_of ?tm ''*'' = Some d" using star content_hosts(2) [OF Some] by (auto simp: map_of_update_if)
      ultimately show ?thesis using stm by (auto simp: settings_inv_def)
    qed
  qed
qed

lemma store_tunnel_items_append:
  "store_tunnel_items (xs @ ys) s = Option.bind (store_tunnel_items xs s) (store_tunnel_items ys)"
  by (induction xs arbitrary: s) (auto intro: Option.bind_cong)

lemma store_tunnel_items_inv:
  assumes "map_of tm ''*'' = Some d"
  shows "\<exists>s. store_tunnel_items xs ([], tm) = Some s \<and> settings_inv tm d (somes (map tunnel_setting xs)) s"
proof (induction xs rule: rev_induct)
  case Nil
  then show ?case using assms by (auto simp: settings_inv_def content_host_url_def split: option.splits)
next
  case (snoc x xs)
  then obtain s where s: "store_tunnel_items xs ([], tm) = Some s" and inv: "settings_inv tm d (somes (map tunnel_setting xs)) s"
    by blast
  show ?case
  proof (cases "tunnel_setting x")
    case None
    then have "store_tunnel_item x s = Some s" by (auto simp: tunnel_setting_def store_tunnel_item_def split: prod.splits if_splits)
    then show ?thesis using s inv None by (simp add: store_tunnel_items_append)
  next
    case (Some p)
    then obtain s' where "store_tunnel_item x s = Some s'" "settings_inv tm d (somes (map tunnel_setting xs) @ [p]) s'"
      using settings_inv_step [OF inv] by (cases p) blast
    then show ?thesis using s Some by (simp add: store_tunnel_items_append)
  qed
qed

text \<open>
  (functional) With a default tunnel the store settings never dereference a missing one; a store's content host gets
  the default proxy or none by the last setting of the store, else keeps its entry in STREMTHRU_TUNNEL, else follows the
  first setting of \<open>*\<close>, wherever that stands; and the store's streams use the tunnel by its last setting.\<close>
theorem parseStoreTunnel_spec:
  assumes "map_of tm ''*'' = Some d" and "map_of contentHostnameByStore store = Some host"
  shows "\<exists>stm tm'. parseStoreTunnel value tm = Some (stm, tm')
    \<and> map_of tm' host = content_host_url tm d (somes (map tunnel_setting (comma_fields value))) store host
    \<and> map_of stm store = map_option setting_config (map_of (rev (somes (map tunnel_setting (comma_fields value)))) store)"
  using store_tunnel_items_inv [OF assms(1), of "comma_fields value"] assms(2)
  by (fastforce simp: parseStoreTunnel_def settings_inv_def)

theorem parseStoreTunnel_spec_witness:
  "\<exists>stm tm'. parseStoreTunnel ''torbox:false,*:true'' [(''*'', \<lparr>pu_Host = ''p'', pu_rest = []\<rparr>)] = Some (stm, tm')
     \<and> map_of tm' ''tb-cdn.st'' = Some no_url \<and> map_of stm ''torbox'' = Some \<lparr>tc_api = False, tc_stream = False\<rparr>"
proof -
  have items: "somes (map tunnel_setting (comma_fields ''torbox:false,*:true'')) = [(''torbox'', ''false''), (''*'', ''true'')]"
    by code_simp
  show ?thesis
    using parseStoreTunnel_spec [of "[(''*'', \<lparr>pu_Host = ''p'', pu_rest = []\<rparr>)]" "\<lparr>pu_Host = ''p'', pu_rest = []\<rparr>"
        "''torbox''" "''tb-cdn.st''" "''torbox:false,*:true''"]
    unfolding items by (simp add: contentHostnameByStore_def content_host_url_def setting_url_def setting_config_def)
qed

subsection \<open>Addresses\<close>

text \<open>The address of a proxy host: empty if it could not be found out.\<close>

definition address :: "ip_lookup \<Rightarrow> string \<Rightarrow> string \<Rightarrow> string" where
  "address ip_of machine host = (if host = [] then machine else case ip_of host of Inr ip \<Rightarrow> ip | Inl _ \<Rightarrow> [])"

definition ip_maps_ok :: "ip_lookup \<Rightarrow> string \<Rightarrow> tunnel_map \<Rightarrow> ip_maps \<Rightarrow> bool" where
  "ip_maps_ok ip_of machine tm m \<longleftrightarrow>
     (case m of (hosts, proxies, errs) \<Rightarrow>
        (\<forall>h. map_of hosts h = map_option (\<lambda>u. address ip_of machine (pu_Host u)) (map_of tm h))
        \<and> (\<forall>p. map_of proxies p = (if p \<in> (pu_Host \<circ> snd) ` set tm then Some (address ip_of machine p) else None))
        \<and> (errs = [] \<longleftrightarrow> list_all (\<lambda>(_, u). pu_Host u = [] \<or> (\<exists>ip. ip_of (pu_Host u) = Inr ip)) tm))"

definition machine_ip :: "ip_lookup \<Rightarrow> ip_resolver \<Rightarrow> string + string" where
  "machine_ip ip_of r = (if ir_machineIP r = [] then ip_of [] else Inr (ir_machineIP r))"

lemma GetMachineIP_spec:
  "machine_ip ip_of r = Inr m \<Longrightarrow> \<exists>r'. GetMachineIP ip_of r = Inr (m, r') \<and> machine_ip ip_of r' = Inr m"
  by (auto simp: GetMachineIP_def machine_ip_def split: if_splits sum.splits)

lemma ip_maps_snoc:
  assumes ok: "ip_maps_ok ip_of m tm (hosts, proxies, errs)" and new: "h \<notin> fst ` set tm"
    and ip: "ip = address ip_of m (pu_Host u)"
    and errs': "errs' = [] \<longleftrightarrow> errs = [] \<and> (pu_Host u = [] \<or> (\<exists>ip. ip_of (pu_Host u) = Inr ip))"
    and proxies': "\<forall>p. map_of proxies' p = (if p = pu_Host u then Some ip else map_of proxies p)"
  shows "ip_maps_ok ip_of m (tm @ [(h, u)]) (AList.update h ip hosts, proxies', errs')"
proof -
  have none: "map_of tm h = None" using new by (simp add: map_of_eq_None_iff)
  have "map_of (AList.update h ip hosts) g = map_option (\<lambda>u. address ip_of m (pu_Host u)) (map_of (tm @ [(h, u)]) g)" for g
    using ok none by (auto simp: ip_maps_ok_def ip map_of_update_if map_add_def split: option.splits)
  moreover have "map_of proxies' p = (if p \<in> (pu_Host \<circ> snd) ` set (tm @ [(h, u)]) then Some (address ip_of m p) else None)" for p
    using ok by (simp add: ip_maps_ok_def proxies' ip)
  ultimately show ?thesis using ok errs' by (auto simp: ip_maps_ok_def)
qed

lemma resolve_loop_spec:
  assumes "machine_ip ip_of r = Inr m" and "ip_maps_ok ip_of m done M" and "distinct (map fst (done @ tm))"
  shows "\<exists>M' r'. resolve_loop ip_of tm M r = Inr (M', r') \<and> ip_maps_ok ip_of m (done @ tm) M'"
  using assms
proof (induction tm arbitrary: "done" M r)
  case Nil
  then show ?case by (cases M) auto
next
  case (Cons t tm)
  obtain h u where t: "t = (h, u)" by (cases t)
  obtain hosts proxies errs where M: "M = (hosts, proxies, errs)" by (cases M)
  have new: "h \<notin> fst ` set done" and dist: "distinct (map fst ((done @ [(h, u)]) @ tm))" using Cons.prems(3) t by auto
  note ok = Cons.prems(2) [unfolded M]
  let ?goal = "\<lambda>M r. \<exists>M' r'. resolve_loop ip_of tm M r = Inr (M', r') \<and> ip_maps_ok ip_of m (done @ t # tm) M'"
  have go: "?goal (AList.update h ip hosts, proxies', errs') r'"
    if "machine_ip ip_of r' = Inr m" and "ip = address ip_of m (pu_Host u)"
      and "errs' = [] \<longleftrightarrow> errs = [] \<and> (pu_Host u = [] \<or> (\<exists>ip. ip_of (pu_Host u) = Inr ip))"
      and "\<forall>p. map_of proxies' p = (if p = pu_Host u then Some ip else map_of proxies p)" for r' ip proxies' errs'
    using Cons.IH [OF that(1) ip_maps_snoc [OF ok new that(2,3,4)] dist] by (simp add: t)
  show ?case
  proof (cases "map_of proxies (pu_Host u)")
    case (Some ip)
    then have ip: "ip = address ip_of m (pu_Host u)" and seen: "pu_Host u \<in> (pu_Host \<circ> snd) ` set done"
      using ok by (auto simp: ip_maps_ok_def split: if_splits)
    have "errs = [] \<Longrightarrow> pu_Host u = [] \<or> (\<exists>ip. ip_of (pu_Host u) = Inr ip)"
      using ok seen by (fastforce simp: ip_maps_ok_def list_all_iff)
    then have "?goal (AList.update h ip hosts, proxies, errs) r" using Some by (intro go) (auto simp: Cons.prems(1) ip)
    then show ?thesis by (simp add: t M Some)
  next
    case None
    show ?thesis
    proof (cases "pu_Host u = []")
      case True
      obtain r' where r': "GetMachineIP ip_of r = Inr (m, r')" "machine_ip ip_of r' = Inr m"
        using GetMachineIP_spec [OF Cons.prems(1)] by blast
      have "?goal (AList.update h m hosts, AList.update (pu_Host u) m proxies, errs) r'"
        by (rule go) (auto simp: r' True address_def map_of_update_if)
      then show ?thesis using None True r' by (simp add: t M)
    next
      case False
      show ?thesis
      proof (cases "ip_of (pu_Host u)")
        case (Inl e)
        have "?goal (AList.update h [] hosts, AList.update (pu_Host u) [] proxies, errs @ [e]) r"
          by (rule go) (auto simp: Cons.prems(1) False address_def Inl map_of_update_if)
        then show ?thesis using None False Inl by (simp add: t M)
      next
        case (Inr ip)
        have "?goal (AList.update h ip hosts, AList.update (pu_Host u) ip proxies, errs) r"
          by (rule go) (auto simp: Cons.prems(1) False address_def Inr map_of_update_if)
        then show ?thesis using None False Inr by (simp add: t M)
      qed
    qed
  qed
qed

lemma resolve_spec:
  assumes "machine_ip ip_of r = Inr m" and "distinct (map fst tm)" and "ir_staleAt r < now"
  obtains hosts proxies errs r' where
    "resolveTunnelIPMap ip_of tm now r = Inr (errs, r')" "ip_maps_ok ip_of m tm (hosts, proxies, errs)"
    "ir_byHostname r' = hosts" "ir_byProxyHost r' = AList.delete [] proxies" "ir_staleAt r' = now + 30 * minute"
proof -
  have "ip_maps_ok ip_of m [] ([], [], [])" by (simp add: ip_maps_ok_def)
  from resolve_loop_spec [OF assms(1) this, of tm] assms(2) obtain M r1
    where "resolve_loop ip_of tm ([], [], []) r = Inr (M, r1)" "ip_maps_ok ip_of m tm M" by auto
  then show ?thesis using assms(3) that by (cases M) (simp add: resolveTunnelIPMap_def)
qed

text \<open>
  (functional) When the address maps are stale and the machine has an address, resolving gives every host of the tunnel
  map the address behind its proxy (the machine's without one, empty if the checker failed) and reports no error exactly
  if all could be found out.\<close>
theorem resolve_addresses:
  assumes "machine_ip ip_of r = Inr m" and "distinct (map fst tm)" and "ir_staleAt r < now"
  shows "\<exists>errs r'. resolveTunnelIPMap ip_of tm now r = Inr (errs, r')
    \<and> map_of (ir_byHostname r') h = map_option (\<lambda>u. address ip_of m (pu_Host u)) (map_of tm h)
    \<and> (errs = [] \<longleftrightarrow> list_all (\<lambda>(_, u). pu_Host u = [] \<or> (\<exists>ip. ip_of (pu_Host u) = Inr ip)) tm)"
proof -
  obtain hosts proxies errs r' where "resolveTunnelIPMap ip_of tm now r = Inr (errs, r')" "ir_byHostname r' = hosts"
    and "ip_maps_ok ip_of m tm (hosts, proxies, errs)"
    using resolve_spec [OF assms] by metis
  then show ?thesis unfolding ip_maps_ok_def prod.case by blast
qed

theorem resolve_addresses_witness:
  "\<exists>errs r'. resolveTunnelIPMap (\<lambda>_. Inr ''1.2.3.4'') [(''*'', no_url)] 5 \<lparr>ir_machineIP = [], ir_byHostname = [], ir_byProxyHost = [], ir_staleAt = 0\<rparr>
     = Inr (errs, r') \<and> map_of (ir_byHostname r') ''*'' = Some ''1.2.3.4'' \<and> errs = []"
  using resolve_addresses [of "\<lambda>_. Inr ''1.2.3.4''" "\<lparr>ir_machineIP = [], ir_byHostname = [], ir_byProxyHost = [], ir_staleAt = 0\<rparr>"
      "''1.2.3.4''" "[(''*'', no_url)]" 5 "''*''"]
  by (simp add: machine_ip_def address_def no_url_def)

text \<open>
  (error) When the address behind a proxy could not be found out, the resolver reports an error once; for the next 30
  minutes it reports success with the empty address, even if the checker answers again.\<close>
theorem failed_address_hidden:
  assumes "machine_ip ip_of r = Inr m" and "distinct (map fst tm)" and "ir_staleAt r < now"
    and "(h, u) \<in> set tm" and "pu_Host u \<noteq> []" and "ip_of (pu_Host u) = Inl e" and "later \<le> now + 30 * minute"
  shows "\<exists>errs r'. resolveTunnelIPMap ip_of tm now r = Inr (errs, r') \<and> errs \<noteq> []
    \<and> GetTunnelIPByProxyHost ip_of' tm later r' = Inr (ir_byProxyHost r', [], r')
    \<and> map_of (ir_byProxyHost r') (pu_Host u) = Some []"
proof -
  obtain hosts proxies errs r' where r': "resolveTunnelIPMap ip_of tm now r = Inr (errs, r')"
    "ir_byProxyHost r' = AList.delete [] proxies" "ir_staleAt r' = now + 30 * minute"
    and ok: "ip_maps_ok ip_of m tm (hosts, proxies, errs)"
    using resolve_spec [OF assms(1-3)] by metis
  have "errs \<noteq> []" using ok assms(4-6) by (fastforce simp: ip_maps_ok_def list_all_iff)
  moreover have "pu_Host u \<in> (pu_Host \<circ> snd) ` set tm" using assms(4) by force
  then have "map_of proxies (pu_Host u) = Some []" using ok assms(5,6) by (simp add: ip_maps_ok_def address_def)
  then have "map_of (ir_byProxyHost r') (pu_Host u) = Some []" using assms(5) by (simp add: r' delete_conv')
  moreover have "GetTunnelIPByProxyHost ip_of' tm later r' = Inr (ir_byProxyHost r', [], r')"
    using assms(7) r'(3) by (simp add: GetTunnelIPByProxyHost_def resolveTunnelIPMap_def)
  ultimately show ?thesis using r'(1) by blast
qed

theorem failed_address_hidden_witness:
  "\<exists>errs r'. resolveTunnelIPMap (\<lambda>p. if p = [] then Inr ''1.2.3.4'' else Inl ''timeout'') [(''*'', \<lparr>pu_Host = ''p'', pu_rest = []\<rparr>)] 5
       \<lparr>ir_machineIP = [], ir_byHostname = [], ir_byProxyHost = [], ir_staleAt = 0\<rparr> = Inr (errs, r') \<and> errs \<noteq> []
    \<and> GetTunnelIPByProxyHost (\<lambda>_. Inr ''5.6.7.8'') [(''*'', \<lparr>pu_Host = ''p'', pu_rest = []\<rparr>)] 6 r' = Inr (ir_byProxyHost r', [], r')
    \<and> map_of (ir_byProxyHost r') ''p'' = Some []"
  using failed_address_hidden [of "\<lambda>p. if p = [] then Inr ''1.2.3.4'' else Inl ''timeout''"
      "\<lparr>ir_machineIP = [], ir_byHostname = [], ir_byProxyHost = [], ir_staleAt = 0\<rparr>" "''1.2.3.4''"
      "[(''*'', \<lparr>pu_Host = ''p'', pu_rest = []\<rparr>)]" 5 "''*''" "\<lparr>pu_Host = ''p'', pu_rest = []\<rparr>" "''timeout''" 6 "\<lambda>_. Inr ''5.6.7.8''"]
  by (simp add: machine_ip_def minute_def)

end
