(* ===== verification/Auth.thy ===== *)
theory Auth
  imports Tunnel Core_Net
begin

text \<open>
  Who a request comes from and on which store account it acts: the middlewares of
  \<open>internal/endpoint/middleware.go\<close> with the store context of \<open>internal/context\<close> and \<open>GetStore\<close>,
  \<open>GetClientIP\<close> of \<open>internal/shared\<close>.

  A request extends that of \<open>Core_Error\<close>: the header function gives the first value of a header, empty if it is
  absent; the addresses of a request are those of \<open>Core_Net\<close>. A store client is represented by its name. A middleware
  either answers with an error and response headers, or hands the context and the request to the next one. The address of
  the machine is known once the server runs (\<open>PrintConfig\<close> resolves it or panics), so it is a field of the environment.
\<close>

section \<open>Requests and context\<close>

record web_request = http_request +
  wr_query :: "string \<Rightarrow> string"
  wr_ip :: ip_request

record store_context =
  sx_Store :: "string option"
  sx_StoreAuthToken :: string
  sx_PeerToken :: string
  sx_IsProxyAuthorized :: bool
  sx_ProxyAuthUser :: string
  sx_ProxyAuthPassword :: string
  sx_ClientIP :: string

definition new_context :: store_context where
  "new_context = \<lparr>sx_Store = None, sx_StoreAuthToken = [], sx_PeerToken = [], sx_IsProxyAuthorized = False,
     sx_ProxyAuthUser = [], sx_ProxyAuthPassword = [], sx_ClientIP = []\<rparr>"

record auth_env =
  ae_ProxyAuthPassword :: user_password_map
  ae_AdminPassword :: user_password_map
  ae_StoreAuthToken :: store_auth_token_map
  ae_StoreTunnel :: store_tunnel_map
  ae_MachineIP :: string
  ae_ip6 :: "string \<Rightarrow> nat list option"

definition set_header :: "string \<Rightarrow> string \<Rightarrow> web_request \<Rightarrow> web_request" where
  "set_header name value r = r\<lparr>rq_header := (rq_header r)(name := value)\<rparr>"

definition HEADER_PROXY_AUTHORIZATION :: string where
  "HEADER_PROXY_AUTHORIZATION = ''Proxy-Authorization''"

definition HEADER_STREMTHRU_AUTHORIZATION :: string where
  "HEADER_STREMTHRU_AUTHORIZATION = ''X-StremThru-Authorization''"

definition HEADER_STREMTHRU_AUTHENTICATE :: string where
  "HEADER_STREMTHRU_AUTHENTICATE = ''X-StremThru-Authenticate''"

type_synonym rejection = "st_error \<times> (string \<times> string) list"

section \<open>Proxy authorization\<close>

definition extractProxyAuthToken :: "web_request \<Rightarrow> bool \<Rightarrow> string \<times> bool \<times> web_request" where
  "extractProxyAuthToken r readQuery =
     (let token0 = rq_header r HEADER_STREMTHRU_AUTHORIZATION;
          token1 = (if token0 = [] then rq_header r HEADER_PROXY_AUTHORIZATION else token0);
          r' = (if token0 = [] \<and> token1 \<noteq> [] then set_header HEADER_PROXY_AUTHORIZATION [] r else r);
          token2 = (if token1 = [] \<and> readQuery then wr_query r ''token'' else token1);
          token = trim_prefix token2 ''Basic ''
      in (token, token \<noteq> [], r'))"

definition getProxyAuthorization :: "auth_env \<Rightarrow> web_request \<Rightarrow> bool \<Rightarrow> (bool \<times> string \<times> string) \<times> web_request" where
  "getProxyAuthorization env r readQuery =
     (case extractProxyAuthToken r readQuery of (token, hasToken, r') \<Rightarrow>
        case ParseBasicAuth token of
          Inl _ \<Rightarrow> ((False, [], []), r')
        | Inr auth \<Rightarrow>
            ((hasToken \<and> GetPassword (ae_ProxyAuthPassword env) (ba_Username auth) = ba_Password auth,
              ba_Username auth, ba_Password auth), r'))"

definition ProxyAuthContext :: "auth_env \<Rightarrow> store_context \<times> web_request \<Rightarrow> rejection + store_context \<times> web_request" where
  "ProxyAuthContext env s =
     (case getProxyAuthorization env (snd s) False of ((ok, user, pass), r') \<Rightarrow>
        Inr ((fst s)\<lparr>sx_IsProxyAuthorized := ok, sx_ProxyAuthUser := user, sx_ProxyAuthPassword := pass\<rparr>, r'))"

section \<open>Stores\<close>

text \<open>\<open>GetStore\<close> and \<open>GetStoreByCode\<close>: the client of a name or a code.\<close>

definition GetStore :: "string \<Rightarrow> string option" where
  "GetStore name =
     (if name \<in> {''alldebrid'', ''debrider'', ''debridlink'', ''easydebrid'', ''offcloud'', ''pikpak'', ''premiumize'',
                 ''realdebrid'', ''torbox''} then Some name else None)"

definition GetStoreByCode :: "string \<Rightarrow> string option" where
  "GetStoreByCode code =
     map_of [(''ad'', ''alldebrid''), (''dr'', ''debrider''), (''dl'', ''debridlink''), (''ed'', ''easydebrid''),
       (''oc'', ''offcloud''), (''pp'', ''pikpak''), (''pm'', ''premiumize''), (''rd'', ''realdebrid''), (''tb'', ''torbox'')] code"

definition getStoreName :: "auth_env \<Rightarrow> store_context \<Rightarrow> web_request \<Rightarrow> (string \<times> st_error option) \<times> web_request" where
  "getStoreName env ctx r =
     (let name0 = rq_header r ''a'' in
      if name0 = [] \<and> sx_IsProxyAuthorized ctx then
        (let name = GetPreferredStore (ae_StoreAuthToken env) (sx_ProxyAuthUser ctx);
             r' = set_header ''a'' name r
         in if name = [] then (([], None), r') else (StoreName_Validate name, r'))
      else if name0 = [] then (([], None), r)
      else (StoreName_Validate name0, r))"

definition getStoreAuthToken :: "auth_env \<Rightarrow> store_context \<Rightarrow> web_request \<Rightarrow> string" where
  "getStoreAuthToken env ctx r =
     (let h0 = rq_header r ''b'';
          authHeader = (if h0 = [] then rq_header r ''Authorization'' else h0);
          own = (if authHeader = [] \<and> sx_IsProxyAuthorized ctx then
                   (case sx_Store ctx of
                      Some store \<Rightarrow> GetToken (ae_StoreAuthToken env) (sx_ProxyAuthUser ctx) store
                    | None \<Rightarrow> [])
                 else [])
      in if own \<noteq> [] then own else trim_space (fst (snd (cut authHeader CHR '' ''))))"

definition getStore :: "auth_env \<Rightarrow> store_context \<Rightarrow> web_request \<Rightarrow> (st_error + string option) \<times> web_request" where
  "getStore env ctx r =
     (case getStoreName env ctx r of
        ((name, Some err), r') \<Rightarrow> (Inl ((InjectReq err (Some (http_request.truncate r')))\<lparr>StatusCode := 400\<rparr>), r')
      | ((name, None), r') \<Rightarrow> (Inr (GetStore name), r'))"

definition shared_GetClientIP :: "auth_env \<Rightarrow> store_context \<Rightarrow> web_request \<Rightarrow> string" where
  "shared_GetClientIP env ctx r =
     (if \<not> sx_IsProxyAuthorized ctx then Core_Net.GetClientIP (ae_ip6 env) (wr_ip r)
      else case sx_Store ctx of
             Some store \<Rightarrow> if GetTypeForAPI (ae_StoreTunnel env) store = TUNNEL_TYPE_NONE then ae_MachineIP env else []
           | None \<Rightarrow> [])"

definition StoreContext :: "auth_env \<Rightarrow> store_context \<times> web_request \<Rightarrow> rejection + store_context \<times> web_request" where
  "StoreContext env s =
     (case getStore env (fst s) (snd s) of
        (Inl err, r') \<Rightarrow> Inl (err, [])
      | (Inr store, r') \<Rightarrow>
          let ctx1 = (fst s)\<lparr>sx_Store := store\<rparr>;
              ctx2 = ctx1\<lparr>sx_StoreAuthToken := getStoreAuthToken env ctx1 r', sx_PeerToken := rq_header r' ''X-StremThru-Peer-Token''\<rparr>
          in Inr (ctx2\<lparr>sx_ClientIP := shared_GetClientIP env ctx2 r'\<rparr>, r'))"

definition StoreRequired :: "store_context \<times> web_request \<Rightarrow> rejection + store_context \<times> web_request" where
  "StoreRequired s =
     (case sx_Store (fst s) of
        None \<Rightarrow> Inl (ErrorBadRequest (Some (http_request.truncate (snd s))) ''missing store'', [])
      | Some store \<Rightarrow>
          if sx_StoreAuthToken (fst s) = [] then
            Inl (ErrorUnauthorized (Some (http_request.truncate (snd s))),
                 [(''WWW-Authenticate'', ''Bearer realm=\"store:'' @ store @ ''\"'')])
          else Inr s)"

text \<open>\<open>StoreMiddleware(ProxyAuthContext, StoreContext, StoreRequired)\<close>: a middleware runs after the one before it has passed.\<close>

fun run_middlewares ::
  "(store_context \<times> web_request \<Rightarrow> rejection + store_context \<times> web_request) list \<Rightarrow>
     store_context \<times> web_request \<Rightarrow> rejection + store_context \<times> web_request" where
  "run_middlewares [] s = Inr s"
| "run_middlewares (m # ms) s = (case m s of Inl e \<Rightarrow> Inl e | Inr s' \<Rightarrow> run_middlewares ms s')"

definition withStore :: "auth_env \<Rightarrow> web_request \<Rightarrow> rejection + store_context \<times> web_request" where
  "withStore env r = run_middlewares [ProxyAuthContext env, StoreContext env, StoreRequired] (new_context, r)"

section \<open>Administrators\<close>

definition AdminAuthed :: "auth_env \<Rightarrow> web_request \<Rightarrow> st_error option" where
  "AdminAuthed env r =
     (let token = trim_space (trim_prefix (rq_header r ''Authorization'') ''Basic '')
      in if token = [] then Some (ErrorUnauthorized (Some (http_request.truncate r)))
         else case ParseBasicAuth token of
           Inl _ \<Rightarrow> Some (ErrorUnauthorized (Some (http_request.truncate r)))
         | Inr auth \<Rightarrow>
             if GetPassword (ae_AdminPassword env) (ba_Username auth) \<noteq> ba_Password auth
             then Some (ErrorUnauthorized (Some (http_request.truncate r)))
             else None)"

section \<open>Lemmas\<close>

lemma GetStore_valid: "GetStore name = (if StoreName_IsValid name then Some name else None)"
proof -
  have "StoreName_IsValid name \<longleftrightarrow> name \<in> set (map fst storeCodeByName)"
    by (metis StoreName_IsValid_def map_of_eq_None_iff set_map)
  also have "\<dots> \<longleftrightarrow> name \<in> {''alldebrid'', ''debrider'', ''debridlink'', ''easydebrid'', ''offcloud'', ''pikpak'', ''premiumize'',
      ''realdebrid'', ''torbox''}" unfolding storeCodeByName_def list.map list.set fst_conv ..
  finally show ?thesis unfolding GetStore_def by (simp only:)
qed

lemma GetStoreByCode_valid: "GetStoreByCode code = map_of storeNameByCode code"
  by (simp add: GetStoreByCode_def storeNameByCode_def)

lemma getProxyAuthorization_cases:
  assumes "getProxyAuthorization env r q = ((True, user, pass), r')"
  shows "map_of (ae_ProxyAuthPassword env) user = Some pass \<or> pass = [] \<and> map_of (ae_ProxyAuthPassword env) user = None"
  using assms by (auto simp: getProxyAuthorization_def GetPassword_def split: prod.splits sum.splits option.splits)

lemma has_prefix_set: "has_prefix s p \<Longrightarrow> set p \<subseteq> set s"
  unfolding has_prefix_def by (metis set_take_subset)

text \<open>The token of a user name and an empty password.\<close>

definition plain_user :: "string \<Rightarrow> bool" where
  "plain_user user = list_all (\<lambda>c. c \<noteq> CHR '':'' \<and> \<not> is_space c) user"

lemma plain_user_token:
  assumes "plain_user user"
  shows "trim_prefix (user @ '':'') ''Basic '' = user @ '':''" and "trim_space (user @ '':'') = user @ '':''"
    and "ParseBasicAuth (user @ '':'') = Inr \<lparr>ba_Username = user, ba_Password = [], ba_Token = Base64Encode (user @ '':'')\<rparr>"
proof -
  have sp: "is_space CHR '' ''" "\<not> is_space CHR '':''" by (simp_all add: is_space_def)
  have all: "\<forall>c \<in> set (user @ '':''). \<not> is_space c" using assms sp by (auto simp: plain_user_def list_all_iff)
  then have "CHR '' '' \<notin> set (user @ '':'')" using sp(1) by blast
  moreover have "CHR '' '' \<in> set ''Basic ''" by simp
  ultimately have "\<not> has_prefix (user @ '':'') ''Basic ''" using has_prefix_set by blast
  then show "trim_prefix (user @ '':'') ''Basic '' = user @ '':''" by (simp add: trim_prefix_def)
  show trim: "trim_space (user @ '':'') = user @ '':''"
    unfolding trim_space_def by (rule trim_func_id) (metis all hd_in_set last_in_set)
  have "CHR '':'' \<notin> set user" using assms by (auto simp: plain_user_def list_all_iff)
  then show "ParseBasicAuth (user @ '':'') = Inr \<lparr>ba_Username = user, ba_Password = [], ba_Token = Base64Encode (user @ '':'')\<rparr>"
    by (simp add: ParseBasicAuth_def trim)
qed

lemma unknown_user_authorized:
  assumes "plain_user user" and "map_of (ae_ProxyAuthPassword env) user = None"
    and "rq_header r HEADER_STREMTHRU_AUTHORIZATION = user @ '':''"
  shows "getProxyAuthorization env r q = ((True, user, []), r)"
  using assms by (simp add: getProxyAuthorization_def extractProxyAuthToken_def plain_user_token GetPassword_def Let_def)

lemma unknown_user_is_admin:
  assumes "plain_user user" and "map_of (ae_AdminPassword env) user = None" and "rq_header r ''Authorization'' = user @ '':''"
  shows "AdminAuthed env r = None"
  using assms by (simp add: AdminAuthed_def plain_user_token GetPassword_def)

section \<open>Properties\<close>

text \<open>
  C23: (error) Anyone who sends the name of a user that does not exist with an empty password passes the middlewares, and
  without credentials of their own acts on the store account that is configured as the fall-back for all users.\<close>
theorem unknown_user_gets_store_account:
  assumes "plain_user user" and "map_of (ae_ProxyAuthPassword env) user = None"
    and "rq_header r HEADER_STREMTHRU_AUTHORIZATION = user @ '':''"
    and "rq_header r ''a'' = store" and "StoreName_IsValid store"
    and "rq_header r ''b'' = []" and "rq_header r ''Authorization'' = []"
    and "GetToken (ae_StoreAuthToken env) user store \<noteq> []"
  shows "\<exists>ctx. withStore env r = Inr (ctx, r) \<and> sx_IsProxyAuthorized ctx \<and> sx_Store ctx = Some store
    \<and> sx_StoreAuthToken ctx = GetToken (ae_StoreAuthToken env) user store"
proof -
  have "store \<noteq> []" using valid_name_chars [OF assms(5)] by blast
  then show ?thesis using assms
    by (simp add: withStore_def ProxyAuthContext_def unknown_user_authorized StoreContext_def getStore_def getStoreName_def
        getStoreAuthToken_def StoreRequired_def GetStore_valid StoreName_Validate_def Let_def new_context_def)
qed

definition sample_env :: auth_env where
  "sample_env = \<lparr>ae_ProxyAuthPassword = [(''bob'', ''secret'')], ae_AdminPassword = [(''bob'', ''secret'')],
     ae_StoreAuthToken = [(''*'', [(''*'', ''torbox''), (''torbox'', ''key'')])], ae_StoreTunnel = [], ae_MachineIP = [],
     ae_ip6 = (\<lambda>_. None)\<rparr>"

definition sample_request :: "(string \<times> string) list \<Rightarrow> web_request" where
  "sample_request headers = \<lparr>rq_header = (\<lambda>h. case map_of headers h of Some v \<Rightarrow> v | None \<Rightarrow> []), rq_method = ''GET'', rq_path = ''/'',
     wr_query = (\<lambda>_. []), wr_ip = \<lparr>ir_headers = [], ir_remote = [], ir_client_ip = []\<rparr>\<rparr>"

theorem unknown_user_gets_store_account_witness:
  "\<exists>ctx. withStore sample_env (sample_request [(''X-StremThru-Authorization'', ''eve:''), (''a'', ''torbox'')]) =
       Inr (ctx, sample_request [(''X-StremThru-Authorization'', ''eve:''), (''a'', ''torbox'')])
     \<and> sx_IsProxyAuthorized ctx \<and> sx_Store ctx = Some ''torbox'' \<and> sx_StoreAuthToken ctx = ''key''"
  using unknown_user_gets_store_account [of "''eve''" sample_env "sample_request [(''X-StremThru-Authorization'', ''eve:''), (''a'', ''torbox'')]" "''torbox''"]
  by (simp add: plain_user_def is_space_def sample_env_def sample_request_def HEADER_STREMTHRU_AUTHORIZATION_def
      StoreName_IsValid_def storeCodeByName_def GetToken_def)

lemma run_middlewares_Inr:
  "run_middlewares (m # ms) s = Inr s' \<longleftrightarrow> (\<exists>s1. m s = Inr s1 \<and> run_middlewares ms s1 = Inr s')"
  by (cases "m s") auto

lemma StoreContext_fields:
  assumes "StoreContext env (ctx0, r0) = Inr (ctx, r)"
  shows "sx_IsProxyAuthorized ctx = sx_IsProxyAuthorized ctx0 \<and> sx_ProxyAuthUser ctx = sx_ProxyAuthUser ctx0
    \<and> sx_ProxyAuthPassword ctx = sx_ProxyAuthPassword ctx0
    \<and> (\<forall>store. sx_Store ctx = Some store \<longrightarrow> StoreName_IsValid store)
    \<and> sx_StoreAuthToken ctx = getStoreAuthToken env ctx r"
  using assms
  by (auto simp: StoreContext_def getStore_def GetStore_valid Let_def getStoreAuthToken_def split: prod.splits sum.splits option.splits if_splits)

lemma getStore_headers:
  "getStore env ctx r = (res, r') \<Longrightarrow> rq_header r' ''b'' = rq_header r ''b'' \<and> rq_header r' ''Authorization'' = rq_header r ''Authorization''"
  by (auto simp: getStore_def getStoreName_def set_header_def Let_def split: prod.splits option.splits if_splits)

lemma StoreContext_headers:
  "StoreContext env (ctx0, r0) = Inr (ctx, r) \<Longrightarrow> rq_header r ''b'' = rq_header r0 ''b'' \<and> rq_header r ''Authorization'' = rq_header r0 ''Authorization''"
  by (auto simp: StoreContext_def Let_def split: prod.splits sum.splits dest: getStore_headers)

lemma getProxyAuthorization_headers:
  "getProxyAuthorization env r q = (res, r') \<Longrightarrow>
     rq_header r' ''b'' = rq_header r ''b'' \<and> rq_header r' ''Authorization'' = rq_header r ''Authorization''"
  by (auto simp: getProxyAuthorization_def extractProxyAuthToken_def set_header_def HEADER_PROXY_AUTHORIZATION_def Let_def
      split: sum.splits if_splits)

lemma StoreRequired_Inr:
  "StoreRequired s = Inr s' \<longleftrightarrow> s' = s \<and> sx_Store (fst s) \<noteq> None \<and> sx_StoreAuthToken (fst s) \<noteq> []"
  by (auto simp: StoreRequired_def split: option.splits)

text \<open>
  C1: (safety) A request that passes the middlewares acts on a known store with a token. If it brings no store credentials,
  the token is the one configured for the user it names and that user is authorized: by the configured password or,
  for a user that does not exist, by the empty one.\<close>
theorem withStore_account:
  assumes "withStore env r = Inr (ctx, r')"
  shows "(\<exists>store. sx_Store ctx = Some store \<and> StoreName_IsValid store \<and> sx_StoreAuthToken ctx \<noteq> []
      \<and> (rq_header r ''b'' = [] \<longrightarrow> rq_header r ''Authorization'' = [] \<longrightarrow>
           sx_IsProxyAuthorized ctx \<and> sx_StoreAuthToken ctx = GetToken (ae_StoreAuthToken env) (sx_ProxyAuthUser ctx) store))
    \<and> (sx_IsProxyAuthorized ctx \<longrightarrow>
         map_of (ae_ProxyAuthPassword env) (sx_ProxyAuthUser ctx) = Some (sx_ProxyAuthPassword ctx)
         \<or> sx_ProxyAuthPassword ctx = [] \<and> map_of (ae_ProxyAuthPassword env) (sx_ProxyAuthUser ctx) = None)"
proof -
  obtain ok user pass r1 where auth: "getProxyAuthorization env r False = ((ok, user, pass), r1)" by (metis surj_pair)
  define ctx1 where "ctx1 = new_context\<lparr>sx_IsProxyAuthorized := ok, sx_ProxyAuthUser := user, sx_ProxyAuthPassword := pass\<rparr>"
  have sc: "StoreContext env (ctx1, r1) = Inr (ctx, r')" and req: "sx_Store ctx \<noteq> None" "sx_StoreAuthToken ctx \<noteq> []"
    using assms by (auto simp: withStore_def run_middlewares_Inr ProxyAuthContext_def auth ctx1_def StoreRequired_Inr
        simp del: run_middlewares.simps(2))
  note fields = StoreContext_fields [OF sc]
  have hdr: "rq_header r' ''b'' = rq_header r ''b''" "rq_header r' ''Authorization'' = rq_header r ''Authorization''"
    using StoreContext_headers [OF sc] getProxyAuthorization_headers [OF auth] by auto
  obtain store where store: "sx_Store ctx = Some store" "StoreName_IsValid store" using req(1) fields by auto
  have "sx_IsProxyAuthorized ctx \<and> sx_StoreAuthToken ctx = GetToken (ae_StoreAuthToken env) (sx_ProxyAuthUser ctx) store"
    if "rq_header r ''b'' = []" "rq_header r ''Authorization'' = []"
  proof -
    have "sx_StoreAuthToken ctx =
        (if sx_IsProxyAuthorized ctx \<and> GetToken (ae_StoreAuthToken env) (sx_ProxyAuthUser ctx) store \<noteq> []
         then GetToken (ae_StoreAuthToken env) (sx_ProxyAuthUser ctx) store else [])"
      using fields that by (auto simp: getStoreAuthToken_def hdr store Let_def trim_space_def trim_func_def trim_right_def)
    then show ?thesis using req(2) by (auto split: if_splits)
  qed
  moreover have "sx_IsProxyAuthorized ctx = ok \<and> sx_ProxyAuthUser ctx = user \<and> sx_ProxyAuthPassword ctx = pass"
    using fields by (simp add: ctx1_def new_context_def)
  ultimately show ?thesis using store req(2) getProxyAuthorization_cases [of env r False user pass r1] auth by (cases ok) auto
qed

lemma sample_bob:
  "\<exists>ctx r'. withStore sample_env (sample_request [(''X-StremThru-Authorization'', ''Basic bob:secret'')]) = Inr (ctx, r')
     \<and> sx_ProxyAuthUser ctx = ''bob'' \<and> sx_Store ctx = Some ''torbox''"
proof -
  have pass: "ParseBasicAuth ''bob:secret'' = Inr \<lparr>ba_Username = ''bob'', ba_Password = ''secret'', ba_Token = Base64Encode ''bob:secret''\<rparr>"
    by (simp add: ParseBasicAuth_def trim_space_def trim_func_def trim_right_def is_space_def)
  have "ProxyAuthContext sample_env (new_context, sample_request [(''X-StremThru-Authorization'', ''Basic bob:secret'')]) =
      Inr (new_context\<lparr>sx_IsProxyAuthorized := True, sx_ProxyAuthUser := ''bob'', sx_ProxyAuthPassword := ''secret''\<rparr>,
           sample_request [(''X-StremThru-Authorization'', ''Basic bob:secret'')])"
    by (simp add: ProxyAuthContext_def getProxyAuthorization_def extractProxyAuthToken_def sample_request_def
        HEADER_STREMTHRU_AUTHORIZATION_def trim_prefix_def has_prefix_def pass sample_env_def GetPassword_def Let_def)
  then show ?thesis
    by (simp add: withStore_def StoreContext_def getStore_def getStoreName_def GetPreferredStore_def sample_env_def sample_request_def
        GetToken_def new_context_def getStoreAuthToken_def StoreRequired_def GetStore_def StoreName_Validate_def StoreName_IsValid_def
        storeCodeByName_def set_header_def Let_def)
qed

theorem withStore_account_witness:
  "\<exists>ctx :: store_context. sx_StoreAuthToken ctx = ''key'' \<and> sx_IsProxyAuthorized ctx \<and> sx_ProxyAuthUser ctx = ''bob''"
proof -
  obtain ctx r' where w: "withStore sample_env (sample_request [(''X-StremThru-Authorization'', ''Basic bob:secret'')]) = Inr (ctx, r')"
    and user: "sx_ProxyAuthUser ctx = ''bob''" and store: "sx_Store ctx = Some ''torbox''" using sample_bob by blast
  define r where "r = sample_request [(''X-StremThru-Authorization'', ''Basic bob:secret'')]"
  have hdr: "rq_header r ''b'' = []" "rq_header r ''Authorization'' = []" by (simp_all add: r_def sample_request_def)
  obtain st where "sx_Store ctx = Some st"
    and acc: "sx_IsProxyAuthorized ctx \<and> sx_StoreAuthToken ctx = GetToken (ae_StoreAuthToken sample_env) (sx_ProxyAuthUser ctx) st"
    using withStore_account [OF w [folded r_def]] hdr by blast
  then have "st = ''torbox''" using store by simp
  then have "sx_StoreAuthToken ctx = ''key''" using acc user by (simp add: sample_env_def GetToken_def)
  with acc user show ?thesis by blast
qed

end
