(* ===== verification/KV.thy ===== *)
theory KV
  imports Prelude "HOL-Library.AList"
begin

text \<open>
  The key-value store over the table \<open>kv\<close> (\<open>internal/kv/db.go\<close>).

  The table is an association list from (type, key) to a row, in the order of its rows: the upsert of \<open>Set\<close> replaces the
  row in place and keeps its creation time. Times are Unix seconds, an expiry of 0 or less is none. Each call takes
  the answer of the database, \<open>ok = False\<close> for a failed statement (\<open>del_ok\<close> for the delete some reads end
  with); \<open>un\<close> is \<open>json.Unmarshal\<close> into the type of the values, \<open>enc\<close> is \<open>json.Marshal\<close>.
\<close>

section \<open>The store\<close>

record kv_row =
  kv_v :: string
  kv_cat :: int
  kv_uat :: int
  kv_eat :: int

type_synonym kv_table = "((string \<times> string) \<times> kv_row) list"

record 'v parsed_kv =
  pkv_Key :: string
  pkv_Value :: 'v
  pkv_CreatedAt :: int
  pkv_UpdatedAt :: int

record kv_store =
  ks_t :: string
  ks_getKey :: "string \<Rightarrow> string"
  ks_expiresIn :: int

definition kv_expired :: "int \<Rightarrow> kv_row \<Rightarrow> bool" where
  "kv_expired now r \<longleftrightarrow> \<not> kv_eat r \<le> 0 \<and> kv_eat r < now"

definition kv_of_type :: "string \<Rightarrow> kv_table \<Rightarrow> kv_table" where
  "kv_of_type t tbl = filter (\<lambda>((t', k), r). t' = t) tbl"

definition kv_Del :: "bool \<Rightarrow> kv_table \<Rightarrow> kv_store \<Rightarrow> string \<Rightarrow> string option \<times> kv_table" where
  "kv_Del ok tbl s key =
     (if ok then (None, AList.delete (ks_t s, ks_getKey s key) tbl) else (Some ''database'', tbl))"

text \<open>\<open>Inr None\<close> leaves the variable of the caller as it is.\<close>

definition kv_GetValue ::
  "(string \<Rightarrow> 'v option) \<Rightarrow> int \<Rightarrow> bool \<Rightarrow> bool \<Rightarrow> kv_table \<Rightarrow> kv_store \<Rightarrow> string \<Rightarrow> (string + 'v option) \<times> kv_table" where
  "kv_GetValue un now ok del_ok tbl s key =
     (if \<not> ok then (Inl ''database'', tbl)
      else case map_of tbl (ks_t s, ks_getKey s key) of
        None \<Rightarrow> (Inr None, tbl)
      | Some r \<Rightarrow>
          if kv_expired now r then
            (case kv_Del del_ok tbl s key of (err, tbl') \<Rightarrow> (case err of Some e \<Rightarrow> Inl e | None \<Rightarrow> Inr None, tbl'))
          else (case un (kv_v r) of
            None \<Rightarrow> (Inl ''unmarshal'', tbl)
          | Some v \<Rightarrow> (Inr (Some v), tbl)))"

fun kv_newest :: "kv_table \<Rightarrow> (string \<times> kv_row) option" where
  "kv_newest [] = None"
| "kv_newest (((t, k), r) # rs) =
     (case kv_newest rs of
        None \<Rightarrow> Some (k, r)
      | Some (k', r') \<Rightarrow> if kv_cat r' \<le> kv_cat r then Some (k, r) else Some (k', r'))"

definition kv_GetLast ::
  "(string \<Rightarrow> 'v option) \<Rightarrow> int \<Rightarrow> bool \<Rightarrow> bool \<Rightarrow> kv_table \<Rightarrow> kv_store \<Rightarrow> (string + 'v parsed_kv option) \<times> kv_table" where
  "kv_GetLast un now ok del_ok tbl s =
     (if \<not> ok then (Inl ''database'', tbl)
      else case kv_newest (kv_of_type (ks_t s) tbl) of
        None \<Rightarrow> (Inr None, tbl)
      | Some (k, r) \<Rightarrow>
          if kv_expired now r then
            (case kv_Del del_ok tbl s k of (err, tbl') \<Rightarrow> (case err of Some e \<Rightarrow> Inl e | None \<Rightarrow> Inr None, tbl'))
          else (case un (kv_v r) of
            None \<Rightarrow> (Inl ''unmarshal'', tbl)
          | Some v \<Rightarrow> (Inr (Some \<lparr>pkv_Key = k, pkv_Value = v, pkv_CreatedAt = kv_cat r, pkv_UpdatedAt = kv_uat r\<rparr>), tbl)))"

text \<open>The values of the rows, and the keys to delete.\<close>

fun kv_rows :: "(string \<Rightarrow> 'v option) \<Rightarrow> int \<Rightarrow> kv_table \<Rightarrow> ('v parsed_kv list \<times> string list) option" where
  "kv_rows un now [] = Some ([], [])"
| "kv_rows un now (((t, k), r) # rs) =
     (if k = [] \<or> kv_expired now r then map_option (apsnd (Cons k)) (kv_rows un now rs)
      else case un (kv_v r) of
        None \<Rightarrow> None
      | Some v \<Rightarrow>
          map_option (apfst (Cons \<lparr>pkv_Key = k, pkv_Value = v, pkv_CreatedAt = kv_cat r, pkv_UpdatedAt = kv_uat r\<rparr>)) (kv_rows un now rs))"

text \<open>A failed delete is reported together with the values.\<close>

definition kv_List ::
  "(string \<Rightarrow> 'v option) \<Rightarrow> int \<Rightarrow> bool \<Rightarrow> bool \<Rightarrow> kv_table \<Rightarrow> kv_store \<Rightarrow> ('v parsed_kv list \<times> string option) \<times> kv_table" where
  "kv_List un now ok del_ok tbl s =
     (if ks_t s = [] then (([], Some ''missing kv type value''), tbl)
      else if \<not> ok then (([], Some ''database''), tbl)
      else case kv_rows un now (kv_of_type (ks_t s) tbl) of
        None \<Rightarrow> (([], Some ''unmarshal''), tbl)
      | Some (vs, keysToDelete) \<Rightarrow>
          if keysToDelete = [] then ((vs, None), tbl)
          else if \<not> del_ok then ((vs, Some ''database''), tbl)
          else ((vs, None), filter (\<lambda>((t, k), r). \<not> (t = ks_t s \<and> k \<in> set (map (ks_getKey s) keysToDelete))) tbl))"

definition kv_Count :: "bool \<Rightarrow> kv_table \<Rightarrow> kv_store \<Rightarrow> string + int" where
  "kv_Count ok tbl s =
     (if ks_t s = [] then Inl ''missing kv type value''
      else if \<not> ok then Inl ''database''
      else Inr (int (length (kv_of_type (ks_t s) tbl))))"

definition kv_upsert :: "int \<Rightarrow> string \<times> string \<Rightarrow> string \<Rightarrow> int \<Rightarrow> kv_table \<Rightarrow> kv_table" where
  "kv_upsert now key v eat tbl =
     AList.update key
       (case map_of tbl key of
          None \<Rightarrow> \<lparr>kv_v = v, kv_cat = now, kv_uat = now, kv_eat = eat\<rparr>
        | Some r \<Rightarrow> r\<lparr>kv_v := v, kv_eat := eat, kv_uat := now\<rparr>) tbl"

definition kv_Set :: "('v \<Rightarrow> string option) \<Rightarrow> int \<Rightarrow> bool \<Rightarrow> kv_table \<Rightarrow> kv_store \<Rightarrow> string \<Rightarrow> 'v \<Rightarrow> string option \<times> kv_table" where
  "kv_Set enc now ok tbl s key value =
     (case enc value of
        None \<Rightarrow> (Some ''marshal'', tbl)
      | Some val \<Rightarrow>
          if \<not> ok then (Some ''database'', tbl)
          else (None, kv_upsert now (ks_t s, ks_getKey s key) val (if ks_expiresIn s \<noteq> 0 then now + ks_expiresIn s else 0) tbl))"

definition kv_WithScope :: "kv_store \<Rightarrow> string \<Rightarrow> kv_store" where
  "kv_WithScope s scope = (if scope = [] then s else s\<lparr>ks_t := ks_t s @ '':'' @ to_lower scope\<rparr>)"

text \<open>\<open>None\<close> is a panic; \<open>getKey = None\<close> is the nil function, which is only allowed together with a type.\<close>

definition NewKVStore :: "string \<Rightarrow> (string \<Rightarrow> string) option \<Rightarrow> int \<Rightarrow> kv_store option" where
  "NewKVStore type getKey expiresIn =
     (case (if type \<noteq> [] \<and> getKey = None then Some (\<lambda>key. key) else getKey) of
        None \<Rightarrow> None
      | Some gk \<Rightarrow>
          if type = [] \<and> gk ''key'' = ''key'' then None
          else if \<not> contains_str (gk ''key'') ''key'' then None
          else Some \<lparr>ks_t = to_lower type, ks_getKey = gk, ks_expiresIn = expiresIn\<rparr>)"

section \<open>Lemmas\<close>

lemma map_of_kv_upsert:
  "map_of (kv_upsert now key v eat tbl) key' =
     (if key' = key then Some (case map_of tbl key of
          None \<Rightarrow> \<lparr>kv_v = v, kv_cat = now, kv_uat = now, kv_eat = eat\<rparr>
        | Some r \<Rightarrow> r\<lparr>kv_v := v, kv_eat := eat, kv_uat := now\<rparr>) else map_of tbl key')"
  by (simp add: kv_upsert_def update_conv')

lemma kv_keys_distinct:
  assumes "distinct (map fst tbl)"
  shows "distinct (map fst (snd (kv_Set enc now ok tbl s key v)))" and "distinct (map fst (snd (kv_Del ok tbl s key)))"
  using assms
  by (auto simp: kv_Set_def kv_upsert_def kv_Del_def distinct_update distinct_delete split: option.splits)

text \<open>
  (roundtrip) What Set stored under a key is what GetValue reads under it until it expires; the rows of all other
  keys and types are untouched, and every key keeps a single row.\<close>
theorem kv_GetValue_Set:
  assumes "kv_Set enc now ok tbl s key v = (None, tbl')" and "distinct (map fst tbl)"
    and "\<And>b. enc v = Some b \<Longrightarrow> un b = Some v"
    and "ks_expiresIn s = 0 \<or> later \<le> now + ks_expiresIn s"
  shows "kv_GetValue un later True del_ok tbl' s key = (Inr (Some v), tbl')
    \<and> (if (t, k) = (ks_t s, ks_getKey s key) then map_of tbl' (t, k) \<noteq> None else map_of tbl' (t, k) = map_of tbl (t, k))
    \<and> distinct (map fst tbl')"
proof -
  obtain b where b: "enc v = Some b" "ok"
    and tbl': "tbl' = kv_upsert now (ks_t s, ks_getKey s key) b (if ks_expiresIn s \<noteq> 0 then now + ks_expiresIn s else 0) tbl"
    using assms(1) by (auto simp: kv_Set_def split: option.splits if_splits)
  have "kv_GetValue un later True del_ok tbl' s key = (Inr (Some v), tbl')"
    using assms(3) [OF b(1)] assms(4)
    by (auto simp: kv_GetValue_def tbl' map_of_kv_upsert kv_expired_def split: option.splits)
  moreover have "distinct (map fst tbl')" using kv_keys_distinct(1) [OF assms(2), of enc now ok s key v] assms(1) by simp
  moreover have "if (t, k) = (ks_t s, ks_getKey s key) then map_of tbl' (t, k) \<noteq> None else map_of tbl' (t, k) = map_of tbl (t, k)"
    by (auto simp: tbl' map_of_kv_upsert)
  ultimately show ?thesis by blast
qed

theorem kv_GetValue_Set_witness:
  "\<exists>tbl'. kv_GetValue Some 40 True True tbl' \<lparr>ks_t = ''cursor'', ks_getKey = id, ks_expiresIn = 50\<rparr> ''a'' = (Inr (Some ''v''), tbl')
     \<and> map_of tbl' (''other'', ''a'') = Some \<lparr>kv_v = ''w'', kv_cat = 1, kv_uat = 1, kv_eat = 0\<rparr>"
proof -
  define s where "s = \<lparr>ks_t = ''cursor'', ks_getKey = (id :: string \<Rightarrow> string), ks_expiresIn = 50\<rparr>"
  define tbl where "tbl = [((''other'', ''a''), \<lparr>kv_v = ''w'', kv_cat = 1, kv_uat = 1, kv_eat = 0\<rparr>)]"
  obtain tbl' where "kv_Set Some 10 True tbl s ''a'' ''v'' = (None, tbl')" by (simp add: kv_Set_def)
  from kv_GetValue_Set [OF this, of Some 40 True "''other''" "''a''"] show ?thesis
    by (auto simp: s_def tbl_def)
qed

end
