(* ===== verification/Proxy_Link.thy ===== *)
theory Proxy_Link
  imports Auth KV Core_Codec
begin

text \<open>
  Proxied links: the tokens of \<open>internal/shared/store.go\<close>, the handlers of \<open>internal/endpoint/proxy.go\<close> that make
  and serve them, and the limit on the connections of a user.

  Third-party code is the record \<open>link_lib\<close>: the JSON codec of the link data, signing, reading and verifying a JWT,
  SHA-256, AES-GCM and its nonce. A JWT is read first, then its signature is checked with the secret of its subject,
  then its expiry, as the library documents. Times are nanoseconds; the expiry of a token is in seconds. What the token cache
  holds for a token is an argument, and what is added to it a result (\<open>link_cache_step\<close> runs it over many requests). The link of a token, whose path only appends the
  token to the base URL of the request, is represented by the token.
\<close>

section \<open>Tokens\<close>

record link_data =
  ld_User :: string
  ld_Value :: string
  ld_Headers :: "(string \<times> string) list"
  ld_TunT :: tunnel_type

record token_data =
  td_EncLink :: string
  td_EncFormat :: string
  td_TunnelType :: tunnel_type

record link_claims =
  lc_Issuer :: string
  lc_Subject :: string
  lc_ExpiresAt :: "int option"
  lc_Data :: "token_data option"

record link_lib =
  ll_json_enc :: "link_data \<Rightarrow> string option"
  ll_json_dec :: "string \<Rightarrow> link_data option"
  ll_jwt_sign :: "string \<Rightarrow> link_claims \<Rightarrow> string option"
  ll_jwt_read :: "string \<Rightarrow> link_claims option"
  ll_jwt_verify :: "string \<Rightarrow> string \<Rightarrow> bool"
  ll_sha256 :: "string \<Rightarrow> string"
  ll_seal :: "string \<Rightarrow> string \<Rightarrow> string \<Rightarrow> string"
  ll_open :: "string \<Rightarrow> string \<Rightarrow> string \<Rightarrow> string option"
  ll_nonce :: "string option"

datatype link_error =
  LinkMarshal
| LinkSecret secret_error
| LinkMalformed
| LinkUnauthorized
| LinkSignature
| LinkNilPanic

definition newline :: char where
  "newline = CHR 0x0A"

definition EncryptionFormat :: string where
  "EncryptionFormat = ''AES-GCM-256''"

definition header_line :: "string \<times> string \<Rightarrow> string" where
  "header_line h = newline # fst h @ '': '' @ snd h"

definition proxy_token ::
  "link_lib \<Rightarrow> int \<Rightarrow> string \<Rightarrow> (string \<times> string) list \<Rightarrow> tunnel_type \<Rightarrow> int \<Rightarrow> string \<Rightarrow> string \<Rightarrow> bool \<Rightarrow> link_error + string" where
  "proxy_token lib now link headers tunnelType expiresIn user password shouldEncrypt =
     (if \<not> shouldEncrypt \<and> expiresIn = 0 then
        (case ll_json_enc lib \<lparr>ld_User = user @ '':'' @ password, ld_Value = link, ld_Headers = headers, ld_TunT = tunnelType\<rparr> of
           None \<Rightarrow> Inl LinkMarshal
         | Some blob \<Rightarrow> Inr (''base64.'' @ Base64EncodeByte blob))
      else
        let linkBlob = link @ concat (map header_line headers) in
        case (if shouldEncrypt then
                (case Encrypt (ll_sha256 lib) (ll_seal lib) (ll_nonce lib) password linkBlob of
                   Inl e \<Rightarrow> Inl (LinkSecret e)
                 | Inr encryptedLink \<Rightarrow> Inr (encryptedLink, EncryptionFormat))
              else Inr (Base64Encode linkBlob, ''base64'')) of
          Inl e \<Rightarrow> Inl e
        | Inr (encLink, encFormat) \<Rightarrow>
            let claims = \<lparr>lc_Issuer = ''stremthru'', lc_Subject = user,
                  lc_ExpiresAt = (if expiresIn \<noteq> 0 then Some ((now + expiresIn) div second) else None),
                  lc_Data = Some \<lparr>td_EncLink = encLink, td_EncFormat = encFormat, td_TunnelType = tunnelType\<rparr>\<rparr>
            in (case ll_jwt_sign lib password claims of None \<Rightarrow> Inl LinkMarshal | Some token \<Rightarrow> Inr token))"

text \<open>\<open>strings.Cut\<close> on a longer separator, and the lines of a header blob as a map.\<close>

definition cut_str :: "string \<Rightarrow> string \<Rightarrow> string \<times> string \<times> bool" where
  "cut_str s p = (case index_of s p of None \<Rightarrow> (s, [], False) | Some i \<Rightarrow> (take i s, drop (i + length p) s, True))"

definition add_header :: "(string \<times> string) list \<Rightarrow> string \<Rightarrow> (string \<times> string) list" where
  "add_header m header = (case cut_str header '': '' of (k, v, ok) \<Rightarrow> if ok then AList.update k v m else m)"

definition parse_headers :: "string \<Rightarrow> (string \<times> string) list" where
  "parse_headers blob = foldl add_header [] (split_on newline blob)"

text \<open>\<open>core.ParseJWT\<close> with the password of the subject as the secret.\<close>

definition parse_link_jwt :: "link_lib \<Rightarrow> user_password_map \<Rightarrow> int \<Rightarrow> string \<Rightarrow> link_error + link_claims" where
  "parse_link_jwt lib pw now token =
     (case ll_jwt_read lib token of
        None \<Rightarrow> Inl LinkMalformed
      | Some claims \<Rightarrow>
          if \<not> ll_jwt_verify lib (GetPassword pw (lc_Subject claims)) token then Inl LinkSignature
          else (case lc_ExpiresAt claims of
            Some exp \<Rightarrow> if now < exp * second then Inr claims else Inl LinkUnauthorized
          | None \<Rightarrow> Inr claims))"

definition decode_link :: "link_lib \<Rightarrow> string \<Rightarrow> token_data \<Rightarrow> link_error + string" where
  "decode_link lib password td =
     (if td_EncFormat td = ''base64'' then
        (case Base64Decode (td_EncLink td) of None \<Rightarrow> Inl LinkMalformed | Some blob \<Rightarrow> Inr blob)
      else (case Decrypt (ll_sha256 lib) (ll_open lib) password (td_EncLink td) of Inl e \<Rightarrow> Inl (LinkSecret e) | Inr blob \<Rightarrow> Inr blob))"

definition unwrap_base64 :: "link_lib \<Rightarrow> user_password_map \<Rightarrow> string \<Rightarrow> link_error + link_data" where
  "unwrap_base64 lib pw encodedBlob =
     (case Base64DecodeToByte encodedBlob of
        None \<Rightarrow> Inl LinkMalformed
      | Some blob \<Rightarrow> (case ll_json_dec lib blob of
          None \<Rightarrow> Inl LinkMalformed
        | Some d \<Rightarrow> (case cut (ld_User d) CHR '':'' of (user, pass, _) \<Rightarrow>
            if pass \<noteq> GetPassword pw user then Inl LinkUnauthorized else Inr (d\<lparr>ld_User := user\<rparr>))))"

definition unwrap_jwt :: "link_lib \<Rightarrow> user_password_map \<Rightarrow> int \<Rightarrow> string \<Rightarrow> link_error + link_data" where
  "unwrap_jwt lib pw now token =
     (case parse_link_jwt lib pw now token of
        Inl e \<Rightarrow> Inl e
      | Inr claims \<Rightarrow> (case lc_Data claims of
          None \<Rightarrow> Inl LinkNilPanic
        | Some td \<Rightarrow> (case decode_link lib (GetPassword pw (lc_Subject claims)) td of
            Inl e \<Rightarrow> Inl e
          | Inr linkBlob \<Rightarrow> (case cut linkBlob newline of (link, headersBlob, hasHeaders) \<Rightarrow>
              Inr \<lparr>ld_User = lc_Subject claims, ld_Value = link,
                   ld_Headers = (if hasHeaders then parse_headers headersBlob else []), ld_TunT = td_TunnelType td\<rparr>))))"

definition UnwrapProxyLinkToken ::
  "link_lib \<Rightarrow> user_password_map \<Rightarrow> int \<Rightarrow> link_data option \<Rightarrow> string \<Rightarrow> link_error + link_data \<times> link_data option" where
  "UnwrapProxyLinkToken lib pw now cached token =
     (case cached of
        Some d \<Rightarrow> Inr (d, None)
      | None \<Rightarrow>
          map_sum id (\<lambda>d. (d, Some d))
            (case cut_prefix token ''base64.'' of
               Some encodedBlob \<Rightarrow> unwrap_base64 lib pw encodedBlob
             | None \<Rightarrow> unwrap_jwt lib pw now token))"

section \<open>Making links\<close>

record proxify_request = web_request +
  pr_form_ok :: bool
  pr_urls :: "string list"
  pr_form :: "string \<Rightarrow> string"

definition parse_exp :: "string \<Rightarrow> int option" where
  "parse_exp exp = (if exp = [] then Some 0 else ParseDuration (if is_digit (last exp) then exp @ ''s'' else exp))"

definition link_headers :: "proxify_request \<Rightarrow> nat \<Rightarrow> (string \<times> string) list" where
  "link_headers r i =
     (let own = pr_form r (''req_headers['' @ itoa (int i) @ '']'')
      in parse_headers (if own = [] then pr_form r ''req_headers'' else own))"

fun proxy_tokens ::
  "link_lib \<Rightarrow> int \<Rightarrow> proxify_request \<Rightarrow> int \<Rightarrow> string \<Rightarrow> string \<Rightarrow> bool \<Rightarrow> nat \<Rightarrow> string list \<Rightarrow> link_error + string list" where
  "proxy_tokens lib now r expiresIn user password shouldEncrypt i [] = Inr []"
| "proxy_tokens lib now r expiresIn user password shouldEncrypt i (link # links) =
     (case proxy_token lib now link (link_headers r i) TUNNEL_TYPE_AUTO expiresIn user password shouldEncrypt of
        Inl e \<Rightarrow> Inl e
      | Inr token \<Rightarrow>
          (case proxy_tokens lib now r expiresIn user password shouldEncrypt (Suc i) links of
             Inl e \<Rightarrow> Inl e
           | Inr tokens \<Rightarrow> Inr (token # tokens)))"

datatype proxify_result =
  ProxifyRejected st_error "(string \<times> string) list"
| ProxifyFailed link_error
| ProxifyRedirect string
| ProxifyLinks "string list"

definition handleProxifyLinks :: "link_lib \<Rightarrow> auth_env \<Rightarrow> int \<Rightarrow> proxify_request \<Rightarrow> proxify_result" where
  "handleProxifyLinks lib env now r =
     (let isGetReq = rq_method r = ''GET''; base = Some (http_request.truncate r); count = length (pr_urls r);
          shouldRedirect = isGetReq \<and> pr_form r ''redirect'' \<noteq> [] in
      if \<not> isGetReq \<and> rq_method r \<noteq> ''POST'' then ProxifyRejected (ErrorMethodNotAllowed base) []
      else case fst (getProxyAuthorization env (web_request.truncate r) True) of (isAuthorized, user, password) \<Rightarrow>
        if \<not> isAuthorized then ProxifyRejected (ErrorForbidden base) [(HEADER_STREMTHRU_AUTHENTICATE, ''Basic'')]
        else if \<not> pr_form_ok r then ProxifyRejected (ErrorBadRequest base ''failed to parse data'') []
        else if count = 0 then ProxifyRejected (ErrorBadRequest base ''missing url'') []
        else if shouldRedirect \<and> 1 < count then ProxifyRejected (ErrorBadRequest base ''can not redirect for multiple urls'') []
        else case parse_exp (pr_form r ''exp'') of
          None \<Rightarrow> ProxifyRejected (ErrorBadRequest base ''invalid expiration'') []
        | Some expiresIn \<Rightarrow>
            (case proxy_tokens lib now r expiresIn user password (wr_query r ''token'' = []) 0 (pr_urls r) of
               Inl e \<Rightarrow> ProxifyFailed e
             | Inr tokens \<Rightarrow> if shouldRedirect then ProxifyRedirect (tokens ! 0) else ProxifyLinks tokens))"

section \<open>Lemmas\<close>

lemma base64_link_roundtrip [simp]: "Base64DecodeToByte (Base64EncodeByte b) = Some b" "Base64Decode (Base64Encode b) = Some b"
  by (simp_all add: Base64DecodeToByte_def Base64EncodeByte_def Base64Decode_def Base64Encode_def)

definition header_ok :: "string \<times> string \<Rightarrow> bool" where
  "header_ok h \<longleftrightarrow> CHR '':'' \<notin> set (fst h) \<and> newline \<notin> set (fst h) \<and> newline \<notin> set (snd h)"

lemma newline_neq [simp]: "newline \<noteq> CHR '':''" "newline \<noteq> CHR '' ''"
  by (simp_all add: newline_def)

lemma index_of_sep: "CHR '':'' \<notin> set k \<Longrightarrow> index_of (k @ '': '' @ v) '': '' = Some (length k)"
proof (induction k)
  case (Cons c k)
  then have "\<not> has_prefix (c # k @ '': '' @ v) '': ''" by (auto simp: has_prefix_def)
  with Cons show ?case by simp
qed (simp add: has_prefix_def)

lemma cut_header: "CHR '':'' \<notin> set k \<Longrightarrow> cut_str (k @ '': '' @ v) '': '' = (k, v, True)"
  unfolding cut_str_def index_of_sep by simp

definition header_text :: "string \<times> string \<Rightarrow> string" where
  "header_text h = fst h @ '': '' @ snd h"

lemma header_line_text: "header_line h = newline # header_text h"
  by (simp add: header_line_def header_text_def)

lemma header_text_no_newline: "header_ok h \<Longrightarrow> newline \<notin> set (header_text h)"
  by (auto simp: header_ok_def header_text_def)

lemma add_header_text:
  assumes "header_ok h"
  shows "add_header m (header_text h) = AList.update (fst h) (snd h) m"
proof -
  have "CHR '':'' \<notin> set (fst h)" using assms by (simp add: header_ok_def)
  from cut_header [OF this, of "snd h"] show ?thesis unfolding add_header_def header_text_def by (simp only: prod.case if_True)
qed

lemma update_new: "k \<notin> fst ` set m \<Longrightarrow> AList.update k v m = m @ [(k, v)]"
  by (induction m) auto

lemma foldl_update_distinct:
  "distinct (map fst (m @ hs)) \<Longrightarrow> foldl (\<lambda>m h. AList.update (fst h) (snd h) m) m hs = m @ hs"
proof (induction hs arbitrary: m)
  case (Cons h hs)
  then show ?case by (auto simp: update_new)
qed simp

lemma split_header_lines:
  "list_all header_ok (h # hs) \<Longrightarrow> split_on newline (header_text h @ concat (map header_line hs)) = map header_text (h # hs)"
proof (induction hs arbitrary: h)
  case Nil
  then show ?case using split_on_notin [OF header_text_no_newline [of h]] by simp
next
  case (Cons h' hs)
  then show ?case using split_on_append [OF header_text_no_newline [of h]] Cons.IH [of h'] by (simp add: header_line_text)
qed

lemma parse_header_lines:
  assumes "list_all header_ok (h # hs)" and "distinct (map fst (h # hs))"
  shows "parse_headers (header_text h @ concat (map header_line hs)) = h # hs"
proof -
  have "foldl add_header m (map header_text xs) = foldl (\<lambda>m h. AList.update (fst h) (snd h) m) m xs"
    if "list_all header_ok xs" for m xs
    using that by (induction xs arbitrary: m) (simp_all add: add_header_text)
  then show ?thesis unfolding parse_headers_def split_header_lines [OF assms(1)]
    using assms foldl_update_distinct [of "[]" "h # hs"] by (simp add: add_header_text)
qed

text \<open>The blob of a link and its headers is read back.\<close>

lemma link_blob_roundtrip:
  assumes "newline \<notin> set link" and "list_all header_ok hs" and "distinct (map fst hs)"
  shows "(case cut (link @ concat (map header_line hs)) newline of (l, hb, has) \<Rightarrow> (l, if has then parse_headers hb else [])) = (link, hs)"
proof (cases hs)
  case (Cons h hs')
  have "link @ concat (map header_line hs) = link @ newline # (header_text h @ concat (map header_line hs'))"
    by (simp add: Cons header_line_text)
  with parse_header_lines [of h hs'] cut_append [OF assms(1)] assms show ?thesis by (simp add: Cons)
qed (use assms in simp)

text \<open>What the code relies on from the libraries, for one link: they read back what they wrote, and a JWT is not taken for a plain token.\<close>

definition jwt_reads_back :: "link_lib \<Rightarrow> string \<Rightarrow> bool" where
  "jwt_reads_back lib secret \<longleftrightarrow>
     (\<forall>claims token. ll_jwt_sign lib secret claims = Some token \<longrightarrow>
        ll_jwt_read lib token = Some claims \<and> ll_jwt_verify lib secret token \<and> \<not> has_prefix token ''base64.'')"

definition cipher_reads_back :: "link_lib \<Rightarrow> bool" where
  "cipher_reads_back lib \<longleftrightarrow>
     (\<forall>k n v. length n = nonce_size \<longrightarrow> ll_open lib k n (ll_seal lib k n v) = Some v)
     \<and> (\<forall>n. ll_nonce lib = Some n \<longrightarrow> length n = nonce_size)"

lemma decode_link_encoded:
  assumes "cipher_reads_back lib"
    and "(if shouldEncrypt then
            (case Encrypt (ll_sha256 lib) (ll_seal lib) (ll_nonce lib) password blob of
               Inl e \<Rightarrow> Inl (LinkSecret e) | Inr c \<Rightarrow> Inr (c, EncryptionFormat))
          else Inr (Base64Encode blob, ''base64'')) = Inr (el, ef)"
  shows "decode_link lib password \<lparr>td_EncLink = el, td_EncFormat = ef, td_TunnelType = tt\<rparr> = Inr blob"
  using assms
  by (auto simp: decode_link_def Encrypt_def Decrypt_def cipher_reads_back_def EncryptionFormat_def
      split: if_splits sum.splits option.splits)

text \<open>
  C22: (roundtrip) A token made for a user with the configured password is unwrapped to the same user, link, headers and
  tunnel until it expires: plain, signed or encrypted.\<close>
theorem Unwrap_proxy_token:
  assumes token: "proxy_token lib now link headers tt expiresIn user password shouldEncrypt = Inr token"
    and pw: "GetPassword pw user = password"
    and clean: "CHR '':'' \<notin> set user" "newline \<notin> set link" "list_all header_ok headers" "distinct (map fst headers)"
    and json: "\<And>blob. ll_json_enc lib \<lparr>ld_User = user @ '':'' @ password, ld_Value = link, ld_Headers = headers, ld_TunT = tt\<rparr> = Some blob
        \<Longrightarrow> ll_json_dec lib blob = Some \<lparr>ld_User = user @ '':'' @ password, ld_Value = link, ld_Headers = headers, ld_TunT = tt\<rparr>"
    and jwt: "jwt_reads_back lib password" and cipher: "cipher_reads_back lib"
    and time: "expiresIn = 0 \<or> later < (now + expiresIn) div second * second"
  shows "\<exists>d. UnwrapProxyLinkToken lib pw later None token = Inr (d, Some d)
    \<and> d = \<lparr>ld_User = user, ld_Value = link, ld_Headers = headers, ld_TunT = tt\<rparr>"
proof (cases "\<not> shouldEncrypt \<and> expiresIn = 0")
  case True
  then obtain blob where blob: "ll_json_enc lib \<lparr>ld_User = user @ '':'' @ password, ld_Value = link, ld_Headers = headers, ld_TunT = tt\<rparr> = Some blob"
    and "token = ''base64.'' @ Base64EncodeByte blob"
    using token by (auto simp: proxy_token_def split: option.splits)
  then show ?thesis using json [OF blob] pw clean(1)
    by (simp add: UnwrapProxyLinkToken_def unwrap_base64_def cut_prefix_def has_prefix_def)
next
  case False
  let ?blob = "link @ concat (map header_line headers)"
  obtain el ef where enc: "(if shouldEncrypt then
            (case Encrypt (ll_sha256 lib) (ll_seal lib) (ll_nonce lib) password ?blob of
               Inl e \<Rightarrow> Inl (LinkSecret e) | Inr c \<Rightarrow> Inr (c, EncryptionFormat))
          else Inr (Base64Encode ?blob, ''base64'')) = Inr (el, ef)"
    and sign: "ll_jwt_sign lib password \<lparr>lc_Issuer = ''stremthru'', lc_Subject = user,
                  lc_ExpiresAt = (if expiresIn \<noteq> 0 then Some ((now + expiresIn) div second) else None),
                  lc_Data = Some \<lparr>td_EncLink = el, td_EncFormat = ef, td_TunnelType = tt\<rparr>\<rparr> = Some token"
    using token False by (auto simp: proxy_token_def Let_def split: sum.splits option.splits if_splits)
  have "parse_link_jwt lib pw later token = Inr \<lparr>lc_Issuer = ''stremthru'', lc_Subject = user,
                  lc_ExpiresAt = (if expiresIn \<noteq> 0 then Some ((now + expiresIn) div second) else None),
                  lc_Data = Some \<lparr>td_EncLink = el, td_EncFormat = ef, td_TunnelType = tt\<rparr>\<rparr>"
    using jwt sign pw time by (auto simp: parse_link_jwt_def jwt_reads_back_def)
  moreover have "\<not> has_prefix token ''base64.''" using jwt sign by (auto simp: jwt_reads_back_def)
  moreover obtain l hb has where "cut ?blob newline = (l, hb, has)" by (metis surj_pair)
  ultimately show ?thesis using link_blob_roundtrip [OF clean(2-4)] decode_link_encoded [OF cipher enc, of tt] pw
    by (simp add: UnwrapProxyLinkToken_def unwrap_jwt_def cut_prefix_def)
qed

text \<open>A library that signs one token and a cipher that only adds its nonce.\<close>

definition sample_claims :: link_claims where
  "sample_claims = \<lparr>lc_Issuer = ''stremthru'', lc_Subject = ''bob'', lc_ExpiresAt = Some 60,
     lc_Data = Some \<lparr>td_EncLink = Base64EncodeByte (replicate 12 CHR ''n'' @ ''l'' @ header_line (''Range'', ''a: b'')),
       td_EncFormat = EncryptionFormat, td_TunnelType = TUNNEL_TYPE_FORCED\<rparr>\<rparr>"

definition sample_lib :: link_lib where
  "sample_lib = \<lparr>ll_json_enc = (\<lambda>_. None), ll_json_dec = (\<lambda>_. None),
     ll_jwt_sign = (\<lambda>s c. if s = ''pw'' \<and> c = sample_claims then Some ''jwt'' else None),
     ll_jwt_read = (\<lambda>t. if t = ''jwt'' then Some sample_claims else None), ll_jwt_verify = (\<lambda>s t. s = ''pw'' \<and> t = ''jwt''),
     ll_sha256 = id, ll_seal = (\<lambda>k n v. v), ll_open = (\<lambda>k n c. Some c), ll_nonce = Some (replicate 12 CHR ''n'')\<rparr>"

lemma sample_token:
  "proxy_token sample_lib 0 ''l'' [(''Range'', ''a: b'')] TUNNEL_TYPE_FORCED (60 * second) ''bob'' ''pw'' True = Inr ''jwt''"
  by (simp add: proxy_token_def sample_lib_def Encrypt_def sample_claims_def second_def)

lemma sample_lib_ok: "jwt_reads_back sample_lib ''pw''" "cipher_reads_back sample_lib"
  by (simp_all add: jwt_reads_back_def cipher_reads_back_def sample_lib_def nonce_size_def has_prefix_def)

theorem Unwrap_proxy_token_witness:
  "\<exists>d. UnwrapProxyLinkToken sample_lib [(''bob'', ''pw'')] (59 * second) None ''jwt'' = Inr (d, Some d) \<and> ld_Value d = ''l''
     \<and> ld_Headers d = [(''Range'', ''a: b'')]"
proof -
  have "list_all header_ok [(''Range'', ''a: b'')]" by (simp add: header_ok_def newline_def)
  from Unwrap_proxy_token [OF sample_token _ _ _ this, of "[(''bob'', ''pw'')]" "59 * second"] show ?thesis
    by (simp add: sample_lib_ok GetPassword_def newline_def second_def) (simp add: sample_lib_def)
qed

text \<open>
  The token cache over a run of requests: the state is the clock and what the cache holds. A request at a time that is not
  earlier reads the cache and adds what it unwrapped; the cache may drop an entry at any time (its lifetime, its size).
\<close>

datatype link_event = LinkUnwrap int string | LinkDrop string

inductive link_cache_step ::
    "link_lib \<Rightarrow> user_password_map \<Rightarrow> int \<times> (string \<rightharpoonup> link_data) \<Rightarrow> link_event \<Rightarrow> int \<times> (string \<rightharpoonup> link_data) \<Rightarrow> bool"
  for lib :: link_lib and pw :: user_password_map where
  link_served: "clock \<le> now \<Longrightarrow> UnwrapProxyLinkToken lib pw now (c token) token = Inr (d, added)
     \<Longrightarrow> link_cache_step lib pw (clock, c) (LinkUnwrap now token) (now, (case added of Some e \<Rightarrow> c(token \<mapsto> e) | None \<Rightarrow> c))"
| link_failed: "clock \<le> now \<Longrightarrow> UnwrapProxyLinkToken lib pw now (c token) token = Inl err
     \<Longrightarrow> link_cache_step lib pw (clock, c) (LinkUnwrap now token) (now, c)"
| link_dropped: "link_cache_step lib pw (clock, c) (LinkDrop token) (clock, c(token := None))"

definition link_cache_init :: "int \<times> (string \<rightharpoonup> link_data) \<Rightarrow> bool" where
  "link_cache_init s \<longleftrightarrow> snd s = Map.empty"

definition cached_links_ok :: "link_lib \<Rightarrow> user_password_map \<Rightarrow> int \<times> (string \<rightharpoonup> link_data) \<Rightarrow> bool" where
  "cached_links_ok lib pw s \<longleftrightarrow>
     (\<forall>token d. snd s token = Some d \<longrightarrow> (\<exists>now0 \<le> fst s. UnwrapProxyLinkToken lib pw now0 None token = Inr (d, Some d)))"

lemma unwrap_adds:
  "UnwrapProxyLinkToken lib pw now cached token = Inr (d, Some e) \<Longrightarrow>
     cached = None \<and> e = d \<and> UnwrapProxyLinkToken lib pw now None token = Inr (d, Some d)"
  by (cases cached) (auto simp: UnwrapProxyLinkToken_def map_sum_def split: sum.splits)

interpretation link_cache: guarded_system link_cache_init "link_cache_step lib pw" "cached_links_ok lib pw"
proof
  show "cached_links_ok lib pw s" if "link_cache_init s" for s using that by (simp add: link_cache_init_def cached_links_ok_def)
next
  fix s e t
  assume ok: "cached_links_ok lib pw s" and step: "link_cache_step lib pw s e t"
  have later: "\<exists>now0 \<le> now. UnwrapProxyLinkToken lib pw now0 None token = Inr (d, Some d)"
    if "fst s \<le> now" "snd s token = Some d" for now token d
    using ok that unfolding cached_links_ok_def by (meson order_trans)
  from step show "cached_links_ok lib pw t"
  proof cases
    case (link_served clock now c token d added)
    then show ?thesis using later by (auto simp: cached_links_ok_def split: option.splits dest: unwrap_adds)
  next
    case (link_failed clock now c token err)
    then show ?thesis using later by (auto simp: cached_links_ok_def)
  next
    case (link_dropped clock c token)
    then show ?thesis using later by (auto simp: cached_links_ok_def)
  qed
qed

lemma fresh_link_of_user:
  assumes "UnwrapProxyLinkToken lib pw now None token = Inr (d, added)" and "map_of pw (ld_User d) = Some password"
  shows "(\<exists>blob raw rest. cut_prefix token ''base64.'' = Some blob \<and> Base64DecodeToByte blob = Some raw
        \<and> ll_json_dec lib raw = Some rest \<and> fst (snd (cut (ld_User rest) CHR '':'')) = password)
    \<or> (\<exists>claims. ll_jwt_read lib token = Some claims \<and> lc_Subject claims = ld_User d \<and> ll_jwt_verify lib password token
        \<and> (\<exists>exp. lc_ExpiresAt claims = Some exp \<and> now < exp * second \<or> lc_ExpiresAt claims = None))"
proof (cases "cut_prefix token ''base64.''")
  case (Some blob)
  then show ?thesis using assms
    by (auto simp: UnwrapProxyLinkToken_def unwrap_base64_def GetPassword_def split: option.splits prod.splits if_splits)
next
  case None
  then show ?thesis using assms
    by (auto simp: UnwrapProxyLinkToken_def unwrap_jwt_def parse_link_jwt_def GetPassword_def
        split: option.splits sum.splits prod.splits if_splits)
qed

text \<open>
  C25: (safety) Whenever a token is unwrapped to a link of a configured user, after any requests that filled the token cache,
  it was made with that user's password: the token carries it, or its signature verifies with it. In the second case the
  token had not expired at the moment it was last unwrapped itself, which is now unless the answer comes from the
  cache (\<open>expired_link_from_cache\<close> shows that it may have expired since then).\<close>
theorem link_of_configured_user:
  assumes "reachable link_cache_init (link_cache_step lib pw) (clock, c)" and "clock \<le> now"
    and "UnwrapProxyLinkToken lib pw now (c token) token = Inr (d, added)" and "map_of pw (ld_User d) = Some password"
  shows "\<exists>now0 \<le> now. (c token = None \<longrightarrow> now0 = now)
    \<and> ((\<exists>blob raw rest. cut_prefix token ''base64.'' = Some blob \<and> Base64DecodeToByte blob = Some raw
          \<and> ll_json_dec lib raw = Some rest \<and> fst (snd (cut (ld_User rest) CHR '':'')) = password)
      \<or> (\<exists>claims. ll_jwt_read lib token = Some claims \<and> lc_Subject claims = ld_User d \<and> ll_jwt_verify lib password token
          \<and> (\<exists>exp. lc_ExpiresAt claims = Some exp \<and> now0 < exp * second \<or> lc_ExpiresAt claims = None)))"
proof (cases "c token")
  case None
  then show ?thesis using fresh_link_of_user assms(3,4) by (intro exI [of _ now]) auto
next
  case (Some d')
  then have "d' = d" using assms(3) by (simp add: UnwrapProxyLinkToken_def)
  then obtain now0 where "now0 \<le> clock" and fresh: "UnwrapProxyLinkToken lib pw now0 None token = Inr (d, Some d)"
    using link_cache.reachable_inv [OF assms(1)] Some by (auto simp: cached_links_ok_def)
  then show ?thesis using fresh_link_of_user [OF fresh assms(4)] assms(2) Some by (intro exI [of _ now0]) auto
qed

lemma sample_unwrap:
  "UnwrapProxyLinkToken sample_lib [(''bob'', ''pw'')] 0 None ''jwt'' =
     Inr (\<lparr>ld_User = ''bob'', ld_Value = ''l'', ld_Headers = [(''Range'', ''a: b'')], ld_TunT = TUNNEL_TYPE_FORCED\<rparr>,
       Some \<lparr>ld_User = ''bob'', ld_Value = ''l'', ld_Headers = [(''Range'', ''a: b'')], ld_TunT = TUNNEL_TYPE_FORCED\<rparr>)"
  by code_simp

theorem link_of_configured_user_witness:
  "ll_jwt_verify sample_lib ''pw'' ''jwt''"
proof -
  let ?d = "\<lparr>ld_User = ''bob'', ld_Value = ''l'', ld_Headers = [(''Range'', ''a: b'')], ld_TunT = TUNNEL_TYPE_FORCED\<rparr>"
    and ?pw = "[(''bob'', ''pw'')]"
  have "reachable link_cache_init (link_cache_step sample_lib ?pw) (0, Map.empty)"
    by (rule reach_init) (simp add: link_cache_init_def)
  moreover have "link_cache_step sample_lib ?pw (0, Map.empty) (LinkUnwrap 0 ''jwt'') (0, [''jwt'' \<mapsto> ?d])"
    using link_served [of 0 0 sample_lib ?pw Map.empty "''jwt''" ?d "Some ?d"] sample_unwrap by simp
  ultimately have run: "reachable link_cache_init (link_cache_step sample_lib ?pw) (0, [''jwt'' \<mapsto> ?d])" by (rule reach_step)
  have "UnwrapProxyLinkToken sample_lib ?pw (61 * second) ([''jwt'' \<mapsto> ?d] ''jwt'') ''jwt'' = Inr (?d, None)"
    by (simp add: UnwrapProxyLinkToken_def)
  from link_of_configured_user [OF run _ this, of "''pw''"] show ?thesis by (auto simp: cut_prefix_def has_prefix_def second_def)
qed

text \<open>
  (error) A token that anyone can write down is accepted for the name of a user that does not exist: it needs no
  signature and no password, and makes the server fetch any link with any headers.\<close>
theorem forged_link_accepted:
  assumes "map_of pw user = None" and "CHR '':'' \<notin> set user"
    and "ll_json_dec lib blob = Some \<lparr>ld_User = user @ '':'', ld_Value = link, ld_Headers = headers, ld_TunT = tt\<rparr>"
  shows "\<exists>added. UnwrapProxyLinkToken lib pw now None (''base64.'' @ Base64EncodeByte blob) =
    Inr (\<lparr>ld_User = user, ld_Value = link, ld_Headers = headers, ld_TunT = tt\<rparr>, added)"
  using assms by (simp add: UnwrapProxyLinkToken_def unwrap_base64_def cut_prefix_def has_prefix_def GetPassword_def)

theorem forged_link_accepted_witness:
  "\<exists>added. UnwrapProxyLinkToken
       (sample_lib\<lparr>ll_json_dec := \<lambda>_. Some \<lparr>ld_User = ''eve:'', ld_Value = ''http://internal'', ld_Headers = [], ld_TunT = TUNNEL_TYPE_NONE\<rparr>\<rparr>)
       [(''bob'', ''pw'')] 0 None (''base64.'' @ Base64EncodeByte ''x'') =
     Inr (\<lparr>ld_User = ''eve'', ld_Value = ''http://internal'', ld_Headers = [], ld_TunT = TUNNEL_TYPE_NONE\<rparr>, added)"
  by (rule forged_link_accepted) simp_all

text \<open>
  (error) A link that was used before it expired keeps working after its expiry as long as the cache holds it,
  although the token itself is refused.\<close>
theorem expired_link_from_cache:
  assumes "UnwrapProxyLinkToken lib pw now None token = Inr (d, Some d)"
    and "\<not> has_prefix token ''base64.''" and "ll_jwt_read lib token = Some claims" and "lc_ExpiresAt claims = Some exp"
    and "exp * second \<le> later"
  shows "UnwrapProxyLinkToken lib pw later (Some d) token = Inr (d, None)
    \<and> UnwrapProxyLinkToken lib pw later None token = Inl LinkUnauthorized"
  using assms
  by (auto simp: UnwrapProxyLinkToken_def unwrap_jwt_def parse_link_jwt_def cut_prefix_def split: if_splits)

theorem expired_link_from_cache_witness:
  "\<exists>d. UnwrapProxyLinkToken sample_lib [(''bob'', ''pw'')] (61 * second) (Some d) ''jwt'' = Inr (d, None)"
proof -
  have "UnwrapProxyLinkToken sample_lib [(''bob'', ''pw'')] 0 None ''jwt'' =
      Inr (\<lparr>ld_User = ''bob'', ld_Value = ''l'', ld_Headers = [(''Range'', ''a: b'')], ld_TunT = TUNNEL_TYPE_FORCED\<rparr>,
        Some \<lparr>ld_User = ''bob'', ld_Value = ''l'', ld_Headers = [(''Range'', ''a: b'')], ld_TunT = TUNNEL_TYPE_FORCED\<rparr>)"
    by code_simp
  from expired_link_from_cache [OF this, of sample_claims 60 "61 * second"] show ?thesis
    by (auto simp: has_prefix_def second_def sample_lib_def sample_claims_def)
qed

end
