(* ===== verification/Proxy_Connections.thy ===== *)
theory Proxy_Connections
  imports Proxy_Link
begin

text \<open>
  Serving a proxied link (\<open>handleProxyLinkAccess\<close> of \<open>internal/endpoint/proxy.go\<close>): the checks of the
  request, and the life of a connection of a user as steps that interleave with those of other requests: the count against
  the limit, the record in the key-value store, and its deletion when the response ends. A request is known by its id,
  which \<open>RootServerContext\<close> takes from the client if it sends one. In the steps the database answers.
\<close>

section \<open>The handler\<close>

definition request_id :: "string \<Rightarrow> http_request \<Rightarrow> string" where
  "request_id fresh r = (if rq_header r ''Request-ID'' = [] then fresh else rq_header r ''Request-ID'')"

definition contentProxyConnectionStore :: kv_store where
  "contentProxyConnectionStore = \<lparr>ks_t = ''cproxyconn'', ks_getKey = (\<lambda>key. key), ks_expiresIn = 0\<rparr>"

definition conn_store :: "string \<Rightarrow> kv_store" where
  "conn_store user = kv_WithScope contentProxyConnectionStore user"

text \<open>Whether a connection may start; a failed count is logged and lets it through.\<close>

definition admit :: "bool \<Rightarrow> (string \<times> int) list \<Rightarrow> kv_table \<Rightarrow> string \<Rightarrow> bool \<times> (string \<times> int) list" where
  "admit count_ok limits tbl user =
     (case connection_limit limits user of (limit, limits') \<Rightarrow>
        (if 0 < limit then
           (case kv_Count count_ok tbl (conn_store user) of
              Inl _ \<Rightarrow> True
            | Inr activeConnectionCount \<Rightarrow> \<not> limit \<le> activeConnectionCount)
         else True, limits'))"

datatype access_result =
  AccessRejected st_error
| AccessFailed link_error
| AccessLimitReached
| AccessProxied link_data http_request

definition handleProxyLinkAccess ::
  "link_lib \<Rightarrow> user_password_map \<Rightarrow> int \<Rightarrow> link_data option \<Rightarrow> bool \<Rightarrow> (string \<times> int) list \<Rightarrow> kv_table \<Rightarrow> http_request \<Rightarrow> string
     \<Rightarrow> access_result \<times> (string \<times> int) list" where
  "handleProxyLinkAccess lib pw now cached count_ok limits tbl r encodedToken =
     (if rq_method r \<noteq> ''GET'' \<and> rq_method r \<noteq> ''HEAD'' then (AccessRejected (ErrorMethodNotAllowed (Some r)), limits)
      else if encodedToken = [] then (AccessRejected (ErrorBadRequest (Some r) ''missing token''), limits)
      else case UnwrapProxyLinkToken lib pw now cached encodedToken of
        Inl e \<Rightarrow> (AccessFailed e, limits)
      | Inr (d, added) \<Rightarrow>
          let r' = foldl (\<lambda>r (k, v). r\<lparr>rq_header := (rq_header r)(k := v)\<rparr>) r (ld_Headers d) in
          if rq_method r = ''GET'' \<and> ld_User d \<noteq> [] then
            (case admit count_ok limits tbl (ld_User d) of (ok, limits') \<Rightarrow>
               (if ok then AccessProxied d r' else AccessLimitReached, limits'))
          else (AccessProxied d r', limits))"

section \<open>Connections\<close>

record conn_state =
  cs_tbl :: kv_table
  cs_limits :: "(string \<times> int) list"
  cs_pending :: "(string \<times> string) list"
  cs_active :: "(string \<times> string) list"

datatype conn_event =
  ConnCheck string string
| ConnRecord string string int string
| ConnEnd string string

text \<open>A request is pending after it passed the check, and active from its record until its end.\<close>

inductive conn_step :: "conn_state \<Rightarrow> conn_event \<Rightarrow> conn_state \<Rightarrow> bool" where
  conn_pass: "user \<noteq> [] \<Longrightarrow> admit True (cs_limits s) (cs_tbl s) user = (True, limits) \<Longrightarrow>
    conn_step s (ConnCheck rid user) (s\<lparr>cs_limits := limits, cs_pending := (rid, user) # cs_pending s\<rparr>)"
| conn_refuse: "user \<noteq> [] \<Longrightarrow> admit True (cs_limits s) (cs_tbl s) user = (False, limits) \<Longrightarrow>
    conn_step s (ConnCheck rid user) (s\<lparr>cs_limits := limits\<rparr>)"
| conn_record: "(rid, user) \<in> set (cs_pending s) \<Longrightarrow>
    conn_step s (ConnRecord rid user now v)
      (s\<lparr>cs_tbl := snd (kv_Set Some now True (cs_tbl s) (conn_store user) rid v),
         cs_pending := remove1 (rid, user) (cs_pending s), cs_active := (rid, user) # cs_active s\<rparr>)"
| conn_end: "(rid, user) \<in> set (cs_active s) \<Longrightarrow>
    conn_step s (ConnEnd rid user)
      (s\<lparr>cs_tbl := snd (kv_Del True (cs_tbl s) (conn_store user) rid), cs_active := remove1 (rid, user) (cs_active s)\<rparr>)"

inductive_cases conn_checkE: "conn_step s (ConnCheck rid user) t"
inductive_cases conn_recordE: "conn_step s (ConnRecord rid user now v) t"
inductive_cases conn_endE: "conn_step s (ConnEnd rid user) t"

definition conn_init :: "(string \<times> int) list \<Rightarrow> conn_state \<Rightarrow> bool" where
  "conn_init limits s \<longleftrightarrow> cs_limits s = limits \<and> cs_pending s = [] \<and> cs_active s = [] \<and> distinct (map fst (cs_tbl s))"

text \<open>Requests that are checked one after the other and bring an id of their own.\<close>

definition serial_step :: "conn_state \<Rightarrow> conn_event \<Rightarrow> conn_state \<Rightarrow> bool" where
  "serial_step s e t \<longleftrightarrow> conn_step s e t \<and>
     (case e of ConnCheck rid user \<Rightarrow> cs_pending s = [] \<and> rid \<notin> fst ` set (cs_active s) | _ \<Rightarrow> True)"

section \<open>Lemmas\<close>

lemma connection_limit_memo: "fst (connection_limit (snd (connection_limit m u)) v) = fst (connection_limit m v)"
  by (auto simp: connection_limit_def map_of_update_if Let_def split: option.splits if_splits)

definition limit_of :: "(string \<times> int) list \<Rightarrow> string \<Rightarrow> int" where
  "limit_of limits user = fst (connection_limit limits user)"

lemma limit_of_memo [simp]: "limit_of (snd (connection_limit m u)) v = limit_of m v"
  by (simp add: limit_of_def connection_limit_memo)

lemma admit_spec:
  assumes "admit True limits tbl user = (ok, limits')"
  shows "ok \<longleftrightarrow> \<not> (0 < limit_of limits user \<and> limit_of limits user \<le> int (length (kv_of_type (ks_t (conn_store user)) tbl)))"
    and "limit_of limits' v = limit_of limits v"
proof -
  obtain l ls where l: "connection_limit limits user = (l, ls)" by (cases "connection_limit limits user")
  have t: "ks_t (conn_store user) \<noteq> []" by (simp add: conn_store_def kv_WithScope_def contentProxyConnectionStore_def)
  show "ok \<longleftrightarrow> \<not> (0 < limit_of limits user \<and> limit_of limits user \<le> int (length (kv_of_type (ks_t (conn_store user)) tbl)))"
    using assms t by (auto simp: admit_def l limit_of_def kv_Count_def)
  show "limit_of limits' v = limit_of limits v"
    using assms limit_of_memo [of limits user v] by (auto simp: admit_def l)
qed

lemma admit_total: "\<exists>limits'. admit True limits tbl user =
    (\<not> (0 < limit_of limits user \<and> limit_of limits user \<le> int (length (kv_of_type (ks_t (conn_store user)) tbl))), limits')"
  using admit_spec(1) by (metis surj_pair)

lemma rows_bound:
  assumes "distinct rids" and "\<And>rid. rid \<in> set rids \<Longrightarrow> map_of tbl (t, rid) \<noteq> None"
  shows "length rids \<le> length (kv_of_type t tbl)"
proof -
  have "set rids \<subseteq> (snd \<circ> fst) ` set (kv_of_type t tbl)"
  proof
    fix rid assume "rid \<in> set rids"
    then obtain r where "((t, rid), r) \<in> set tbl" using assms(2) by (metis map_of_SomeD not_Some_eq)
    then show "rid \<in> (snd \<circ> fst) ` set (kv_of_type t tbl)" by (force simp: kv_of_type_def)
  qed
  then have "card (set rids) \<le> card ((snd \<circ> fst) ` set (kv_of_type t tbl))" by (intro card_mono) auto
  also have "\<dots> \<le> length (kv_of_type t tbl)" by (metis card_image_le card_length finite_set le_trans)
  finally show ?thesis using assms(1) by (simp add: distinct_card)
qed

definition of_user :: "string \<Rightarrow> (string \<times> string) list \<Rightarrow> (string \<times> string) list" where
  "of_user user xs = filter (\<lambda>(rid, u). u = user) xs"

definition conn_inv :: "(string \<Rightarrow> int) \<Rightarrow> conn_state \<Rightarrow> bool" where
  "conn_inv lim s \<longleftrightarrow>
     distinct (map fst (cs_tbl s)) \<and> (\<forall>u. limit_of (cs_limits s) u = lim u)
     \<and> distinct (map fst (cs_pending s @ cs_active s))
     \<and> (\<forall>rid u. (rid, u) \<in> set (cs_active s) \<longrightarrow> map_of (cs_tbl s) (ks_t (conn_store u), rid) \<noteq> None)
     \<and> (\<forall>u. 0 < lim u \<longrightarrow> int (length (of_user u (cs_pending s @ cs_active s))) \<le> lim u)"

lemma conn_getKey [simp]: "ks_getKey (conn_store u) = (\<lambda>k. k)"
  by (simp add: conn_store_def kv_WithScope_def contentProxyConnectionStore_def)

lemma move_mset: "x \<in> set p \<Longrightarrow> mset (remove1 x p @ x # a) = mset (p @ a)"
  by (simp add: insert_DiffM)

lemma of_user_mset: "mset xs = mset ys \<Longrightarrow> length (of_user u xs) = length (of_user u ys)"
  unfolding of_user_def by (metis mset_filter size_mset)

lemma distinct_mset_map: "mset xs = mset ys \<Longrightarrow> distinct (map fst xs) = distinct (map fst ys)"
  by (metis mset_eq_imp_distinct_iff mset_map)

lemma conn_invI:
  assumes "distinct (map fst (cs_tbl s))" and "\<And>u. limit_of (cs_limits s) u = lim u"
    and "distinct (map fst (cs_pending s @ cs_active s))"
    and "\<And>rid u. (rid, u) \<in> set (cs_active s) \<Longrightarrow> map_of (cs_tbl s) (ks_t (conn_store u), rid) \<noteq> None"
    and "\<And>u. 0 < lim u \<Longrightarrow> int (length (of_user u (cs_pending s @ cs_active s))) \<le> lim u"
  shows "conn_inv lim s"
  using assms unfolding conn_inv_def by blast

lemma conn_invD:
  assumes "conn_inv lim s"
  shows "distinct (map fst (cs_tbl s))" and "limit_of (cs_limits s) u = lim u"
    and "distinct (map fst (cs_pending s @ cs_active s))"
    and "(rid, u) \<in> set (cs_active s) \<Longrightarrow> map_of (cs_tbl s) (ks_t (conn_store u), rid) \<noteq> None"
    and "0 < lim u \<Longrightarrow> int (length (of_user u (cs_pending s @ cs_active s))) \<le> lim u"
  using assms unfolding conn_inv_def by blast+

lemma conn_inv_check:
  assumes inv: "conn_inv lim s" and idle: "cs_pending s = []" "rid \<notin> fst ` set (cs_active s)"
    and ok: "admit True (cs_limits s) (cs_tbl s) user = (True, limits)"
  shows "conn_inv lim (s\<lparr>cs_limits := limits, cs_pending := (rid, user) # cs_pending s\<rparr>)"
proof -
  let ?rids = "map fst (of_user user (cs_active s))"
  have "distinct ?rids" using inv by (auto simp: conn_inv_def of_user_def intro: distinct_map_filter)
  then have "length ?rids \<le> length (kv_of_type (ks_t (conn_store user)) (cs_tbl s))"
    by (rule rows_bound) (use inv in \<open>auto simp: conn_inv_def of_user_def\<close>)
  moreover have "\<not> (0 < lim user \<and> lim user \<le> int (length (kv_of_type (ks_t (conn_store user)) (cs_tbl s))))"
    using admit_spec(1) [OF ok] inv by (simp add: conn_inv_def)
  ultimately have "0 < lim user \<longrightarrow> int (length (of_user user (cs_active s))) + 1 \<le> lim user" by auto
  with inv idle admit_spec(2) [OF ok] show ?thesis by (auto simp: conn_inv_def of_user_def)
qed

lemma conn_inv_record:
  assumes inv: "conn_inv lim s" and mem: "(rid, user) \<in> set (cs_pending s)"
  shows "conn_inv lim (s\<lparr>cs_tbl := snd (kv_Set Some now True (cs_tbl s) (conn_store user) rid v),
    cs_pending := remove1 (rid, user) (cs_pending s), cs_active := (rid, user) # cs_active s\<rparr>)"
proof -
  let ?t = "s\<lparr>cs_tbl := snd (kv_Set Some now True (cs_tbl s) (conn_store user) rid v),
    cs_pending := remove1 (rid, user) (cs_pending s), cs_active := (rid, user) # cs_active s\<rparr>"
  have m: "mset (cs_pending ?t @ cs_active ?t) = mset (cs_pending s @ cs_active s)"
    using move_mset [OF mem, of "cs_active s"] by simp
  show ?thesis
  proof (rule conn_invI)
    show "distinct (map fst (cs_tbl ?t))" using conn_invD(1) [OF inv] by (simp add: kv_keys_distinct)
    show "limit_of (cs_limits ?t) u = lim u" for u using conn_invD(2) [OF inv] by simp
    show "distinct (map fst (cs_pending ?t @ cs_active ?t))" using distinct_mset_map [OF m] conn_invD(3) [OF inv] by blast
    show "map_of (cs_tbl ?t) (ks_t (conn_store u), r) \<noteq> None" if "(r, u) \<in> set (cs_active ?t)" for r u
      using that conn_invD(4) [OF inv, of r u] by (auto simp: kv_Set_def map_of_kv_upsert)
    show "int (length (of_user u (cs_pending ?t @ cs_active ?t))) \<le> lim u" if "0 < lim u" for u
      using conn_invD(5) [OF inv that] unfolding of_user_mset [OF m] .
  qed
qed

lemma conn_inv_end:
  assumes inv: "conn_inv lim s" and mem: "(rid, user) \<in> set (cs_active s)"
  shows "conn_inv lim (s\<lparr>cs_tbl := snd (kv_Del True (cs_tbl s) (conn_store user) rid), cs_active := remove1 (rid, user) (cs_active s)\<rparr>)"
proof -
  let ?t = "s\<lparr>cs_tbl := snd (kv_Del True (cs_tbl s) (conn_store user) rid), cs_active := remove1 (rid, user) (cs_active s)\<rparr>"
  have m: "mset (cs_pending s @ cs_active s) = mset ((rid, user) # cs_pending ?t @ cs_active ?t)"
    using mem by (simp add: insert_DiffM)
  then have dist: "distinct (map fst ((rid, user) # cs_pending ?t @ cs_active ?t))"
    using conn_invD(3) [OF inv] distinct_mset_map by blast
  show ?thesis
  proof (rule conn_invI)
    show "distinct (map fst (cs_tbl ?t))" using conn_invD(1) [OF inv] by (simp add: kv_keys_distinct)
    show "limit_of (cs_limits ?t) u = lim u" for u using conn_invD(2) [OF inv] by simp
    show "distinct (map fst (cs_pending ?t @ cs_active ?t))" using dist by simp
    show "map_of (cs_tbl ?t) (ks_t (conn_store u), r) \<noteq> None" if "(r, u) \<in> set (cs_active ?t)" for r u
    proof -
      have "r \<in> fst ` set (cs_active ?t)" using that by force
      then have "r \<noteq> rid" using dist by auto
      moreover have "(r, u) \<in> set (cs_active s)" using that set_remove1_subset [of "(rid, user)" "cs_active s"] by auto
      ultimately show ?thesis using conn_invD(4) [OF inv, of r u] by (simp add: kv_Del_def delete_conv')
    qed
    show "int (length (of_user u (cs_pending ?t @ cs_active ?t))) \<le> lim u" if "0 < lim u" for u
      using conn_invD(5) [OF inv that] of_user_mset [OF m, of u] by (auto simp: of_user_def split: if_splits)
  qed
qed

interpretation connections: guarded_system "conn_init limits" serial_step "conn_inv (limit_of limits)"
proof
  show "conn_inv (limit_of limits) s" if "conn_init limits s" for s
    using that by (auto simp: conn_init_def conn_inv_def of_user_def)
next
  fix s e t assume inv: "conn_inv (limit_of limits) s" and step: "serial_step s e t"
  from step have "conn_step s e t" by (simp add: serial_step_def)
  then show "conn_inv (limit_of limits) t"
  proof cases
    case (conn_pass user ls rid)
    then have "cs_pending s = []" "rid \<notin> fst ` set (cs_active s)" using step by (auto simp: serial_step_def)
    from conn_inv_check [OF inv this conn_pass(4)] show ?thesis by (simp add: conn_pass)
  next
    case (conn_refuse user ls rid)
    have "conn_inv (limit_of limits) (s\<lparr>cs_limits := ls\<rparr>)"
      by (rule conn_invI) (use conn_invD [OF inv] admit_spec(2) [OF conn_refuse(4)] in auto)
    then show ?thesis by (simp add: conn_refuse)
  next
    case (conn_record rid user now v)
    then show ?thesis using inv conn_inv_record by simp
  next
    case (conn_end rid user)
    then show ?thesis using inv conn_inv_end by simp
  qed
qed

section \<open>Properties\<close>

text \<open>
  C2: (safety) As long as requests are checked one after the other and bring ids of their own, no user with a limit ever
  has more connections than it allows, however connections begin and end.\<close>
theorem connection_limit_kept:
  assumes "reachable (conn_init limits) serial_step s" and "0 < fst (connection_limit limits user)"
  shows "int (length (filter (\<lambda>(rid, u). u = user) (cs_active s))) \<le> fst (connection_limit limits user)"
proof -
  have "int (length (of_user user (cs_pending s @ cs_active s))) \<le> limit_of limits user"
    using conn_invD(5) [OF connections.reachable_inv [OF assms(1)]] assms(2) by (simp add: limit_of_def)
  then show ?thesis by (simp add: of_user_def limit_of_def)
qed

definition sample_conn :: conn_state where
  "sample_conn = \<lparr>cs_tbl = [], cs_limits = [(''bob'', 1)], cs_pending = [(''r1'', ''bob'')], cs_active = []\<rparr>"

theorem connection_limit_kept_witness:
  "\<exists>s. reachable (conn_init [(''bob'', 1)]) serial_step s \<and> cs_active s = [(''r1'', ''bob'')]
     \<and> length (filter (\<lambda>(rid, u). u = ''bob'') (cs_active s)) \<le> 1"
proof -
  let ?s0 = "\<lparr>cs_tbl = [], cs_limits = [(''bob'', 1)], cs_pending = [], cs_active = []\<rparr>"
  let ?s2 = "sample_conn\<lparr>cs_tbl := snd (kv_Set Some 5 True [] (conn_store ''bob'') ''r1'' ''v''), cs_pending := [], cs_active := [(''r1'', ''bob'')]\<rparr>"
  have r0: "reachable (conn_init [(''bob'', 1)]) serial_step ?s0" by (rule reach_init) (simp add: conn_init_def)
  have "admit True [(''bob'', 1)] [] ''bob'' = (True, [(''bob'', 1)])"
    by (simp add: admit_def connection_limit_def kv_Count_def conn_store_def kv_WithScope_def contentProxyConnectionStore_def kv_of_type_def)
  then have "serial_step ?s0 (ConnCheck ''r1'' ''bob'') sample_conn"
    using conn_pass [of "''bob''" ?s0 "[(''bob'', 1)]" "''r1''"] by (simp add: serial_step_def sample_conn_def)
  with r0 have r1: "reachable (conn_init [(''bob'', 1)]) serial_step sample_conn" by (rule reach_step)
  have "serial_step sample_conn (ConnRecord ''r1'' ''bob'' 5 ''v'') ?s2"
    using conn_record [of "''r1''" "''bob''" sample_conn 5 "''v''"] by (simp add: serial_step_def sample_conn_def)
  with r1 have "reachable (conn_init [(''bob'', 1)]) serial_step ?s2" by (rule reach_step)
  with connection_limit_kept [of "[(''bob'', 1)]" ?s2 "''bob''"] show ?thesis
    by (intro exI [of _ ?s2]) (simp add: connection_limit_def)
qed

lemma limit_admits:
  assumes "int (length (kv_of_type (ks_t (conn_store user)) (cs_tbl s))) < limit_of (cs_limits s) user" and "user \<noteq> []"
  shows "\<exists>ls. conn_step s (ConnCheck rid user) (s\<lparr>cs_limits := ls, cs_pending := (rid, user) # cs_pending s\<rparr>)
    \<and> (\<forall>u. limit_of ls u = limit_of (cs_limits s) u)"
proof -
  obtain ls where ls: "admit True (cs_limits s) (cs_tbl s) user = (True, ls)"
    using admit_total [of "cs_limits s" "cs_tbl s" user] assms(1) by auto
  show ?thesis using conn_pass [OF assms(2) ls, of rid] admit_spec(2) [OF ls] by blast
qed

lemma one_row_update:
  "kv_of_type t tbl = [] \<or> (\<exists>r. kv_of_type t tbl = [((t, k), r)]) \<Longrightarrow> \<exists>r'. kv_of_type t (AList.update (t, k) r tbl) = [((t, k), r')]"
  by (induction tbl) (auto simp: kv_of_type_def split: if_splits)

text \<open>
  Runs in which all requests that are counted with a user bring the same id, from a table without rows of the user. Users
  whose names differ only in case are counted together, since the scope of the store is in lower case.
\<close>

definition counted_with :: "string \<Rightarrow> string \<Rightarrow> bool" where
  "counted_with user u \<longleftrightarrow> ks_t (conn_store u) = ks_t (conn_store user)"

definition one_id_step :: "string \<Rightarrow> string \<Rightarrow> conn_state \<Rightarrow> conn_event \<Rightarrow> conn_state \<Rightarrow> bool" where
  "one_id_step user rid s e t \<longleftrightarrow> conn_step s e t \<and> (case e of ConnCheck r u \<Rightarrow> counted_with user u \<longrightarrow> r = rid | _ \<Rightarrow> True)"

definition one_id_init :: "(string \<times> int) list \<Rightarrow> string \<Rightarrow> conn_state \<Rightarrow> bool" where
  "one_id_init limits user s \<longleftrightarrow> conn_init limits s \<and> kv_of_type (ks_t (conn_store user)) (cs_tbl s) = []"

definition one_id_inv :: "(string \<times> int) list \<Rightarrow> string \<Rightarrow> string \<Rightarrow> conn_state \<Rightarrow> bool" where
  "one_id_inv limits user rid s \<longleftrightarrow>
     (\<forall>r u. (r, u) \<in> set (cs_pending s @ cs_active s) \<longrightarrow> counted_with user u \<longrightarrow> r = rid) \<and> limit_of (cs_limits s) user = limit_of limits user
     \<and> (kv_of_type (ks_t (conn_store user)) (cs_tbl s) = []
         \<or> (\<exists>row. kv_of_type (ks_t (conn_store user)) (cs_tbl s) = [((ks_t (conn_store user), rid), row)]))"

lemma other_type_update: "t' \<noteq> t \<Longrightarrow> kv_of_type t (AList.update (t', k) r tbl) = kv_of_type t tbl"
  by (induction tbl) (auto simp: kv_of_type_def)

lemma of_type_delete: "kv_of_type t (AList.delete k tbl) = filter (\<lambda>x. fst x \<noteq> k) (kv_of_type t tbl)"
  by (induction tbl) (auto simp: kv_of_type_def)

lemma of_type_delete_one:
  assumes "kv_of_type t tbl = [] \<or> (\<exists>row. kv_of_type t tbl = [(k', row)])"
  shows "kv_of_type t (AList.delete k tbl) = [] \<or> (\<exists>row. kv_of_type t (AList.delete k tbl) = [(k', row)])"
proof -
  have "filter P xs = [] \<or> (\<exists>row. filter P xs = [(k', row)])" if "xs = [] \<or> (\<exists>row. xs = [(k', row)])" for P and xs 
    using that by (cases "P (hd xs)") auto
  then show ?thesis using assms unfolding of_type_delete by blast
qed

interpretation one_id: guarded_system "one_id_init limits user" "one_id_step user rid" "one_id_inv limits user rid"
proof
  show "one_id_inv limits user rid s" if "one_id_init limits user s" for s
    using that by (simp add: one_id_init_def conn_init_def one_id_inv_def)
next
  fix s e t
  assume inv: "one_id_inv limits user rid s" and step: "one_id_step user rid s e t"
  note I = inv [unfolded one_id_inv_def]
  from step have "conn_step s e t" by (simp add: one_id_step_def)
  then show "one_id_inv limits user rid t"
  proof cases
    case (conn_pass u ls r)
    moreover have "counted_with user u \<longrightarrow> r = rid" using step conn_pass by (simp add: one_id_step_def)
    ultimately show ?thesis using I admit_spec(2) [OF conn_pass(4)] by (auto simp: one_id_inv_def)
  next
    case (conn_refuse u ls r)
    then show ?thesis using I admit_spec(2) [OF conn_refuse(4)] by (auto simp: one_id_inv_def)
  next
    case (conn_record r u now v)
    let ?tbl = "snd (kv_Set Some now True (cs_tbl s) (conn_store u) r v)"
    have "set (remove1 (r, u) (cs_pending s) @ (r, u) # cs_active s) \<subseteq> set (cs_pending s @ cs_active s)"
      using conn_record(3) set_remove1_subset [of "(r, u)" "cs_pending s"] by auto
    then have ids: "\<forall>r' u'. (r', u') \<in> set (remove1 (r, u) (cs_pending s) @ (r, u) # cs_active s) \<longrightarrow> counted_with user u' \<longrightarrow> r' = rid"
      using I by blast
    have "kv_of_type (ks_t (conn_store user)) ?tbl = [] \<or> (\<exists>row. kv_of_type (ks_t (conn_store user)) ?tbl = [((ks_t (conn_store user), rid), row)])"
    proof (cases "counted_with user u")
      case True
      then have "r = rid" using I conn_record(3) by auto
      then have "\<exists>row. ?tbl = AList.update (ks_t (conn_store user), rid) row (cs_tbl s)" using True by (auto simp: kv_Set_def kv_upsert_def counted_with_def)
      then show ?thesis using one_row_update I by metis
    next
      case False
      then have "\<exists>row. ?tbl = AList.update (ks_t (conn_store u), r) row (cs_tbl s)" by (auto simp: kv_Set_def kv_upsert_def)
      then show ?thesis using I other_type_update False unfolding counted_with_def by metis
    qed
    with ids show ?thesis using I by (simp add: conn_record one_id_inv_def)
  next
    case (conn_end r u)
    have "set (cs_pending s @ remove1 (r, u) (cs_active s)) \<subseteq> set (cs_pending s @ cs_active s)"
      using set_remove1_subset [of "(r, u)" "cs_active s"] by auto
    then have "\<forall>r' u'. (r', u') \<in> set (cs_pending s @ remove1 (r, u) (cs_active s)) \<longrightarrow> counted_with user u' \<longrightarrow> r' = rid"
      using I by blast
    moreover have "snd (kv_Del True (cs_tbl s) (conn_store u) r) = AList.delete (ks_t (conn_store u), r) (cs_tbl s)"
      by (simp add: kv_Del_def)
    ultimately show ?thesis using I of_type_delete_one [of _ "cs_tbl s"] by (simp add: conn_end one_id_inv_def)
  qed
qed

text \<open>
  C24: (error) A user whose requests (and those of users counted with it) all bring one request id is never stopped by a limit of two or more: in every run, however
  checks, records and ends of requests interleave, the store counts at most one connection of the user and no check refuses;
  and there are runs with any number of connections at once. This is for a table without records of the user at the start, and a
  database that answers.\<close>
theorem same_request_id_bypasses_limit:
  assumes "user \<noteq> []" and "2 \<le> fst (connection_limit limits user)"
  shows "(\<forall>s. reachable (one_id_init limits user) (one_id_step user rid) s \<longrightarrow>
      length (kv_of_type (ks_t (conn_store user)) (cs_tbl s)) \<le> 1
      \<and> (\<forall>t. conn_step s (ConnCheck rid user) t \<longrightarrow> cs_pending t = (rid, user) # cs_pending s))
    \<and> (\<exists>s. reachable (one_id_init limits user) (one_id_step user rid) s \<and> cs_active s = replicate n (rid, user))"
proof (intro conjI allI impI)
  fix s assume r: "reachable (one_id_init limits user) (one_id_step user rid) s"
  note I = one_id.reachable_inv [OF r, unfolded one_id_inv_def]
  then show "length (kv_of_type (ks_t (conn_store user)) (cs_tbl s)) \<le> 1" by auto
  then have few: "int (length (kv_of_type (ks_t (conn_store user)) (cs_tbl s))) < limit_of (cs_limits s) user"
    using I assms(2) by (simp add: limit_of_def)
  fix t assume "conn_step s (ConnCheck rid user) t"
  then show "cs_pending t = (rid, user) # cs_pending s"
    by (rule conn_checkE) (use few in \<open>auto dest: admit_spec(1)\<close>)
next
  let ?t = "ks_t (conn_store user)" and ?R = "reachable (one_id_init limits user) (one_id_step user rid)"
  have "\<exists>s. ?R s \<and> cs_active s = replicate n (rid, user) \<and> cs_pending s = []"
  proof (induction n)
    case 0
    have "?R \<lparr>cs_tbl = [], cs_limits = limits, cs_pending = [], cs_active = []\<rparr>"
      by (rule reach_init) (simp add: one_id_init_def conn_init_def kv_of_type_def)
    then show ?case by (intro exI) auto
  next
    case (Suc n)
    then obtain s where s: "?R s" "cs_active s = replicate n (rid, user)" "cs_pending s = []" by blast
    note I = one_id.reachable_inv [OF s(1), unfolded one_id_inv_def]
    have "int (length (kv_of_type ?t (cs_tbl s))) < limit_of (cs_limits s) user"
      using I assms(2) by (auto simp: limit_of_def)
    then obtain ls where step1: "conn_step s (ConnCheck rid user) (s\<lparr>cs_limits := ls, cs_pending := (rid, user) # cs_pending s\<rparr>)"
      using limit_admits assms(1) by blast
    let ?s1 = "s\<lparr>cs_limits := ls, cs_pending := (rid, user) # cs_pending s\<rparr>"
    let ?s2 = "?s1\<lparr>cs_tbl := snd (kv_Set Some 0 True (cs_tbl ?s1) (conn_store user) rid ''v''),
         cs_pending := remove1 (rid, user) (cs_pending ?s1), cs_active := (rid, user) # cs_active ?s1\<rparr>"
    have "?R ?s1" by (rule reach_step [OF s(1), of "ConnCheck rid user"]) (use step1 in \<open>simp add: one_id_step_def\<close>)
    moreover have "one_id_step user rid ?s1 (ConnRecord rid user 0 ''v'') ?s2"
      using conn_record [of rid user ?s1 0 "''v''"] by (simp add: one_id_step_def)
    ultimately have "?R ?s2" by (rule reach_step)
    then show ?case using s by (intro exI [of _ ?s2]) simp
  qed
  then show "\<exists>s. ?R s \<and> cs_active s = replicate n (rid, user)" by blast
qed

theorem same_request_id_bypasses_limit_witness:
  "\<exists>s. reachable (one_id_init [(''bob'', 2)] ''bob'') (one_id_step ''bob'' ''x'') s \<and> cs_active s = replicate 100 (''x'', ''bob'')"
  using same_request_id_bypasses_limit [of "''bob''" "[(''bob'', 2)]" "''x''" 100] by (simp add: connection_limit_def)

end
