(* ===== verification/AniDB_Maps.thy ===== *)
theory AniDB_Maps
  imports Util "HOL-Library.AList" "HOL-Library.Product_Lexorder"
begin

text \<open>
  How the episodes of an AniDB entry map to those of TVDB (\<open>internal/anidb/tvdb_episode_map.db.go\<close>): the text
  of the two map columns, the questions asked about one map and about the maps of a series, their order and grouping,
  and the table.

  A Go map is an association list in the order in which it happens to be iterated (nil is the empty one). The table is
  the list of its rows. A nil pointer that is dereferenced is \<open>None\<close> of an \<open>option\<close>. Episode numbers are
  small; only the differences that the sort compares are written with the wrap-around of 64 bits.
\<close>

section \<open>Map columns\<close>

text \<open>What a database driver hands to \<open>Scan\<close>.\<close>

datatype driver_value = VString string | VBytes string | VOther

definition driver_string :: "driver_value \<Rightarrow> string + string" where
  "driver_string v =
     (case v of VString s \<Rightarrow> Inr s | VBytes s \<Rightarrow> Inr s | VOther \<Rightarrow> Inl ''failed to convert value to string'')"

definition is_semicolon :: "char \<Rightarrow> bool" where
  "is_semicolon c \<longleftrightarrow> c = CHR '';''"

definition semicolon_fields :: "string \<Rightarrow> string list" where
  "semicolon_fields s = filter (\<lambda>p. p \<noteq> []) (split_on CHR '';'' (trim_func is_semicolon s))"

definition Before_Value :: "(int \<times> int) list \<Rightarrow> string" where
  "Before_Value before =
     (if before = [] then []
      else CHR '';'' # concat (map (\<lambda>(special, regular). itoa special @ ''-'' @ itoa regular @ '';'') before))"

definition before_part :: "string \<Rightarrow> (int \<times> int) list \<Rightarrow> (int \<times> int) list" where
  "before_part part before =
     (case cut part CHR ''-'' of (specialStr, regularStr, ok) \<Rightarrow>
        if \<not> ok then before
        else case atoi specialStr of
          None \<Rightarrow> before
        | Some special \<Rightarrow>
            (case atoi regularStr of None \<Rightarrow> before | Some regular \<Rightarrow> AList.update special regular before))"

definition Before_Scan :: "driver_value \<Rightarrow> (int \<times> int) list \<Rightarrow> string + (int \<times> int) list" where
  "Before_Scan v before =
     (case driver_string v of
        Inl err \<Rightarrow> Inl err
      | Inr str \<Rightarrow> Inr (fold before_part (semicolon_fields str) before))"

definition Map_Value :: "(int \<times> int list) list \<Rightarrow> string" where
  "Map_Value m =
     (if m = [] then []
      else CHR '';'' # concat (map (\<lambda>(ani, tv). itoa ani @ ''-'' @ go_join ''+'' (SliceMapIntToString tv) @ '';'') m))"

definition map_episode :: "int \<Rightarrow> string \<Rightarrow> (int \<times> int list) list \<Rightarrow> (int \<times> int list) list" where
  "map_episode ani str m =
     (case atoi str of
        None \<Rightarrow> m
      | Some tv \<Rightarrow> AList.update ani ((case map_of m ani of None \<Rightarrow> [] | Some tvs \<Rightarrow> tvs) @ [tv]) m)"

definition map_part :: "string \<Rightarrow> (int \<times> int list) list \<Rightarrow> (int \<times> int list) list" where
  "map_part part m =
     (case cut part CHR ''-'' of (aniStr, tvStr, ok) \<Rightarrow>
        if \<not> ok then m
        else case atoi aniStr of
          None \<Rightarrow> m
        | Some ani \<Rightarrow> fold (map_episode ani) (split_on CHR ''+'' tvStr) m)"

definition Map_Scan :: "driver_value \<Rightarrow> (int \<times> int list) list \<Rightarrow> string + (int \<times> int list) list" where
  "Map_Scan v m =
     (case driver_string v of Inl err \<Rightarrow> Inl err | Inr str \<Rightarrow> Inr (fold map_part (semicolon_fields str) m))"

section \<open>One map\<close>

record ('b, 'm) episode_map =
  em_AniDBId :: string
  em_TVDBId :: string
  em_AniDBSeason :: int
  em_TVDBSeason :: int
  em_Start :: int
  em_End :: int
  em_Offset :: int
  em_Before :: 'b
  em_Map :: 'm

type_synonym AniDBTVDBEpisodeMap = "((int \<times> int) list, (int \<times> int list) list) episode_map"

definition IsAniDBSpecialSeason :: "AniDBTVDBEpisodeMap \<Rightarrow> bool" where
  "IsAniDBSpecialSeason m \<longleftrightarrow> em_AniDBSeason m = 0"

definition IsAniDBRegularSeason :: "AniDBTVDBEpisodeMap \<Rightarrow> bool" where
  "IsAniDBRegularSeason m \<longleftrightarrow> em_AniDBSeason m = 1"

definition HasEpisodeRange :: "AniDBTVDBEpisodeMap \<Rightarrow> bool" where
  "HasEpisodeRange m \<longleftrightarrow> 0 < em_Start m \<and> 0 < em_End m"

definition AniDBEpisodeBoundary :: "AniDBTVDBEpisodeMap \<Rightarrow> int \<times> int" where
  "AniDBEpisodeBoundary m = (em_Start m, em_End m)"

definition TVDBEpisodeStart :: "AniDBTVDBEpisodeMap \<Rightarrow> int" where
  "TVDBEpisodeStart m = em_Start m + em_Offset m"

definition TVDBEpisodeEnd :: "AniDBTVDBEpisodeMap \<Rightarrow> int" where
  "TVDBEpisodeEnd m = em_End m + em_Offset m"

definition TVDBEpisodeBoundary :: "AniDBTVDBEpisodeMap \<Rightarrow> int \<times> int" where
  "TVDBEpisodeBoundary m = (TVDBEpisodeStart m, TVDBEpisodeEnd m)"

definition map_HasAbsoluteOrder :: "AniDBTVDBEpisodeMap \<Rightarrow> bool" where
  "map_HasAbsoluteOrder m \<longleftrightarrow> em_TVDBSeason m = - 1"

definition getTMDBEpisodes :: "AniDBTVDBEpisodeMap \<Rightarrow> int \<Rightarrow> int list" where
  "getTMDBEpisodes m anidbEpisode =
     (case map_of (em_Map m) anidbEpisode of
        Some tvdbEpisode \<Rightarrow> tvdbEpisode
      | None \<Rightarrow>
          if map_HasAbsoluteOrder m then [anidbEpisode + em_Offset m]
          else if em_End m \<noteq> 0 \<and> em_End m < anidbEpisode then []
          else if em_Start m \<noteq> 0 \<and> anidbEpisode < em_Start m then []
          else [anidbEpisode + em_Offset m])"

definition GetTMDBEpisode :: "AniDBTVDBEpisodeMap \<Rightarrow> int \<Rightarrow> int" where
  "GetTMDBEpisode m anidbEpisode =
     (if anidbEpisode = - 1 then anidbEpisode
      else case getTMDBEpisodes m anidbEpisode of [] \<Rightarrow> - 1 | e # _ \<Rightarrow> e)"

section \<open>The maps of a series\<close>

definition sort_cmp :: "AniDBTVDBEpisodeMap \<Rightarrow> AniDBTVDBEpisodeMap \<Rightarrow> int" where
  "sort_cmp a b =
     (let aAniDBId = SafeParseInt (em_AniDBId a) (- 1); bAniDBId = SafeParseInt (em_AniDBId b) (- 1)
      in if aAniDBId \<noteq> bAniDBId then wrap64 (aAniDBId - bAniDBId)
         else if em_TVDBSeason a \<noteq> em_TVDBSeason b then wrap64 (em_TVDBSeason a - em_TVDBSeason b)
         else if em_AniDBSeason a \<noteq> em_AniDBSeason b then wrap64 (em_AniDBSeason a - em_AniDBSeason b)
         else if em_Start a \<noteq> em_Start b then wrap64 (em_Start a - em_Start b)
         else 0)"

definition maps_Sort :: "AniDBTVDBEpisodeMap list \<Rightarrow> AniDBTVDBEpisodeMap list" where
  "maps_Sort ms = go_stable_sort (cmp_less sort_cmp) ms"

fun GetByAnidbEpisode :: "AniDBTVDBEpisodeMap list \<Rightarrow> int \<Rightarrow> AniDBTVDBEpisodeMap option" where
  "GetByAnidbEpisode [] ep = None"
| "GetByAnidbEpisode (m # ms) ep =
     (if ep = - 1 then None
      else if em_TVDBSeason m \<le> 0 then GetByAnidbEpisode ms ep
      else if HasEpisodeRange m then (if em_Start m \<le> ep \<and> ep \<le> em_End m then Some m else GetByAnidbEpisode ms ep)
      else if 0 < em_Start m then (if em_Start m \<le> ep then Some m else GetByAnidbEpisode ms ep)
      else if 0 < em_End m then (if ep \<le> em_End m then Some m else GetByAnidbEpisode ms ep)
      else GetByAnidbEpisode ms ep)"

definition GetTVDBId :: "AniDBTVDBEpisodeMap list \<Rightarrow> string option" where
  "GetTVDBId ms = (case ms of [] \<Rightarrow> None | m # _ \<Rightarrow> Some (em_TVDBId m))"

definition GetTVDBSeasons :: "AniDBTVDBEpisodeMap list \<Rightarrow> int list" where
  "GetTVDBSeasons ms =
     fold (\<lambda>m seasons. if em_TVDBSeason m \<in> set seasons then seasons else seasons @ [em_TVDBSeason m]) ms []"

definition HasAbsoluteOrder :: "AniDBTVDBEpisodeMap list \<Rightarrow> bool" where
  "HasAbsoluteOrder ms \<longleftrightarrow> list_ex map_HasAbsoluteOrder ms"

definition GetAbsoluteOrderSeasonMap :: "AniDBTVDBEpisodeMap list \<Rightarrow> AniDBTVDBEpisodeMap option" where
  "GetAbsoluteOrderSeasonMap ms = find map_HasAbsoluteOrder ms"

text \<open>\<open>None\<close>: the map of the absolute order is missing and its offset is read from nil.\<close>

definition GetTVDBAbsoluteEpisode :: "AniDBTVDBEpisodeMap list \<Rightarrow> int \<Rightarrow> int \<Rightarrow> int option" where
  "GetTVDBAbsoluteEpisode ms tvSeason tvEpisode =
     (case find (\<lambda>m. em_TVDBSeason m = tvSeason) ms of
        None \<Rightarrow> Some (- 1)
      | Some m \<Rightarrow>
          (case GetAbsoluteOrderSeasonMap ms of
             None \<Rightarrow> None
           | Some absMap \<Rightarrow> Some (tvEpisode - em_Offset m + em_Offset absMap)))"

definition ToTVDBAbsoluteRange :: "AniDBTVDBEpisodeMap list \<Rightarrow> int \<Rightarrow> int \<Rightarrow> int \<Rightarrow> (int \<times> int) option" where
  "ToTVDBAbsoluteRange ms tvSeason tvEpisodeStart tvEpisodeEnd =
     (case find (\<lambda>m. em_TVDBSeason m = tvSeason) ms of
        None \<Rightarrow> Some (- 1, - 1)
      | Some m \<Rightarrow>
          (case GetAbsoluteOrderSeasonMap ms of
             None \<Rightarrow> None
           | Some absMap \<Rightarrow>
               let start = tvEpisodeStart - em_Offset m + em_Offset absMap
               in Some (start, tvEpisodeEnd + (start - tvEpisodeEnd))))"

fun split_from :: "string list \<Rightarrow> AniDBTVDBEpisodeMap list \<Rightarrow> bool" where
  "split_from seen [] = False"
| "split_from seen (m # ms) =
     (if em_TVDBSeason m < 1 \<or> em_AniDBSeason m < 1 then split_from seen ms
      else if em_AniDBId m \<in> set seen then True
      else split_from (em_AniDBId m # seen) ms)"

definition HasSplitedTVSeasons :: "AniDBTVDBEpisodeMap list \<Rightarrow> bool" where
  "HasSplitedTVSeasons ms = split_from [] ms"

definition largest_step :: "AniDBTVDBEpisodeMap \<Rightarrow> bool \<times> int \<Rightarrow> bool \<times> int" where
  "largest_step m st =
     (case st of (hasAbsoluteOrder, largest) \<Rightarrow>
        if map_HasAbsoluteOrder m then (True, largest)
        else if em_End m \<noteq> 0 \<and> largest < em_End m then (hasAbsoluteOrder, em_End m)
        else if em_Start m \<noteq> 0 \<and> largest < em_Start m then (hasAbsoluteOrder, em_Start m)
        else (hasAbsoluteOrder, largest))"

definition AreAbsoluteEpisode :: "AniDBTVDBEpisodeMap list \<Rightarrow> int list \<Rightarrow> bool" where
  "AreAbsoluteEpisode ms episodes =
     (case fold largest_step ms (False, 0) of (hasAbsoluteOrder, largestNormalEpisode) \<Rightarrow>
        if \<not> hasAbsoluteOrder then False
        else list_ex (\<lambda>episode. largestNormalEpisode < episode) (rev episodes))"

section \<open>Grouping\<close>

record by_anidb =
  ga_AniDBId :: string
  ga_Part :: int
  ga_Maps :: "AniDBTVDBEpisodeMap list"

record maps_result =
  mr_Maps :: "AniDBTVDBEpisodeMap list"
  mr_grouped :: "by_anidb list option"
  mr_idx :: "(string \<times> nat) list option"

definition new_part :: "AniDBTVDBEpisodeMap \<Rightarrow> (string \<times> int) list \<Rightarrow> int \<times> (string \<times> int) list" where
  "new_part m partByTvdbSeason =
     (let key = itoa (em_TVDBSeason m)
      in if 0 < em_TVDBSeason m \<and> 0 < em_AniDBSeason m then
           let part = (case map_of partByTvdbSeason key of Some lastPart \<Rightarrow> lastPart + 1 | None \<Rightarrow> 1)
           in (part, AList.update key part partByTvdbSeason)
         else (0, partByTvdbSeason))"

definition group_step ::
    "AniDBTVDBEpisodeMap \<Rightarrow> by_anidb list \<times> (string \<times> int) list \<Rightarrow> by_anidb list \<times> (string \<times> int) list" where
  "group_step m st =
     (case st of (groups, parts) \<Rightarrow>
        if groups = [] \<or> ga_AniDBId (last groups) \<noteq> em_AniDBId m then
          case new_part m parts of (part, parts') \<Rightarrow>
            (groups @ [\<lparr>ga_AniDBId = em_AniDBId m, ga_Part = part, ga_Maps = [m]\<rparr>], parts')
        else (butlast groups @ [(last groups)\<lparr>ga_Maps := ga_Maps (last groups) @ [m]\<rparr>], parts))"

definition group_maps :: "AniDBTVDBEpisodeMap list \<Rightarrow> by_anidb list" where
  "group_maps ms = fst (fold group_step ms ([], []))"

fun group_index :: "nat \<Rightarrow> by_anidb list \<Rightarrow> (string \<times> nat) list \<Rightarrow> (string \<times> nat) list" where
  "group_index i [] idx = idx"
| "group_index i (g # gs) idx = group_index (Suc i) gs (AList.update (ga_AniDBId g) i idx)"

definition GroupByAniDBId :: "maps_result \<Rightarrow> by_anidb list \<times> maps_result" where
  "GroupByAniDBId r =
     (case mr_grouped r of
        Some groups \<Rightarrow> (groups, r)
      | None \<Rightarrow>
          let groups = group_maps (mr_Maps r)
          in (groups, r\<lparr>mr_grouped := Some groups, mr_idx := Some (group_index 0 groups [])\<rparr>))"

definition GetByAniDBId :: "maps_result \<Rightarrow> string \<Rightarrow> by_anidb option \<times> maps_result" where
  "GetByAniDBId r anidbId =
     (let r' = (if mr_idx r = None then snd (GroupByAniDBId r) else r)
      in case map_of (case mr_idx r' of None \<Rightarrow> [] | Some idx \<Rightarrow> idx) anidbId of
           None \<Rightarrow> (None, r')
         | Some i \<Rightarrow> (Some ((case mr_grouped r' of None \<Rightarrow> [] | Some gs \<Rightarrow> gs) ! i), r'))"

definition HasJoinedTVSeasons :: "maps_result \<Rightarrow> bool" where
  "HasJoinedTVSeasons r \<longleftrightarrow> list_ex (\<lambda>g. 1 < ga_Part g) (fst (GroupByAniDBId r))"

section \<open>The table\<close>

type_synonym map_row = "(string, string) episode_map"

definition map_to_row :: "AniDBTVDBEpisodeMap \<Rightarrow> map_row" where
  "map_to_row m =
     \<lparr>em_AniDBId = em_AniDBId m, em_TVDBId = em_TVDBId m, em_AniDBSeason = em_AniDBSeason m,
      em_TVDBSeason = em_TVDBSeason m, em_Start = em_Start m, em_End = em_End m, em_Offset = em_Offset m,
      em_Before = Before_Value (em_Before m), em_Map = Map_Value (em_Map m)\<rparr>"

definition map_of_row :: "map_row \<Rightarrow> string + AniDBTVDBEpisodeMap" where
  "map_of_row r =
     (case (Before_Scan (VString (em_Before r)) [], Map_Scan (VString (em_Map r)) []) of
        (Inl err, _) \<Rightarrow> Inl err
      | (_, Inl err) \<Rightarrow> Inl err
      | (Inr before, Inr m) \<Rightarrow>
          Inr \<lparr>em_AniDBId = em_AniDBId r, em_TVDBId = em_TVDBId r, em_AniDBSeason = em_AniDBSeason r,
            em_TVDBSeason = em_TVDBSeason r, em_Start = em_Start r, em_End = em_End r, em_Offset = em_Offset r,
            em_Before = before, em_Map = m\<rparr>)"

definition episode_key :: "('b, 'm) episode_map \<Rightarrow> string \<times> string \<times> int \<times> int" where
  "episode_key r = (em_AniDBId r, em_TVDBId r, em_AniDBSeason r, em_TVDBSeason r)"

text \<open>\<open>INSERT ... ON CONFLICT (key) DO UPDATE\<close> of one row.\<close>

fun upsert_row :: "map_row \<Rightarrow> map_row list \<Rightarrow> map_row list" where
  "upsert_row r [] = [r]"
| "upsert_row r (q # t) = (if episode_key q = episode_key r then r # t else q # upsert_row r t)"

text \<open>
  \<open>UpsertTVDBEpisodeMaps\<close>: the database is given by whether it accepts the statement. The loop over the
  chunks of 200 returns in its first round.
\<close>

definition UpsertTVDBEpisodeMaps ::
    "string option \<Rightarrow> AniDBTVDBEpisodeMap list \<Rightarrow> map_row list \<Rightarrow> string option \<times> map_row list" where
  "UpsertTVDBEpisodeMaps exec_err items t =
     (if items = [] then (None, t)
      else case exec_err of
        Some err \<Rightarrow> (Some err, t)
      | None \<Rightarrow> (None, fold (\<lambda>item. upsert_row (map_to_row item)) (take 200 items) t))"

fun scan_rows :: "map_row list \<Rightarrow> string + AniDBTVDBEpisodeMap list" where
  "scan_rows [] = Inr []"
| "scan_rows (r # rs) =
     (case map_of_row r of
        Inl err \<Rightarrow> Inl err
      | Inr m \<Rightarrow> (case scan_rows rs of Inl err \<Rightarrow> Inl err | Inr ms \<Rightarrow> Inr (m # ms)))"

definition query_maps :: "string \<Rightarrow> bool \<Rightarrow> map_row list \<Rightarrow> map_row list" where
  "query_maps anidbId includeRelated t =
     (if includeRelated then
        case find (\<lambda>r. em_AniDBId r = anidbId) t of
          None \<Rightarrow> []
        | Some q \<Rightarrow> filter (\<lambda>r. em_TVDBId r = em_TVDBId q) t
      else filter (\<lambda>r. em_AniDBId r = anidbId) t)"

definition GetTVDBEpisodeMaps :: "string \<Rightarrow> bool \<Rightarrow> map_row list \<Rightarrow> string + maps_result" where
  "GetTVDBEpisodeMaps anidbId includeRelated t =
     (case scan_rows (query_maps anidbId includeRelated t) of
        Inl err \<Rightarrow> Inl err
      | Inr ms \<Rightarrow> Inr \<lparr>mr_Maps = maps_Sort ms, mr_grouped = None, mr_idx = None\<rparr>)"

section \<open>The columns read back\<close>

lemma trim_semicolon_fields:
  "filter (\<lambda>p. p \<noteq> []) (split_on CHR '';'' (dropWhile is_semicolon s)) = filter (\<lambda>p. p \<noteq> []) (split_on CHR '';'' s)"
  by (induction s) (auto simp: is_semicolon_def)

lemma split_on_snoc:
  "split_on c (s @ [c]) = split_on c s @ [[]]"
  by (induction s) (auto split: list.splits)

lemma trim_right_fields:
  "filter (\<lambda>p. p \<noteq> []) (split_on CHR '';'' (trim_right is_semicolon s)) = filter (\<lambda>p. p \<noteq> []) (split_on CHR '';'' s)"
proof (induction s rule: rev_induct)
  case (snoc c s)
  show ?case
  proof (cases "is_semicolon c")
    case True
    then have "trim_right is_semicolon (s @ [c]) = trim_right is_semicolon s" by (simp add: trim_right_def)
    moreover have "c = CHR '';''" using True by (simp add: is_semicolon_def)
    ultimately show ?thesis using snoc by (simp add: split_on_snoc)
  next
    case False
    then show ?thesis by (simp add: trim_right_def)
  qed
qed (simp add: trim_right_def)

lemma semicolon_fields_split: "semicolon_fields s = filter (\<lambda>p. p \<noteq> []) (split_on CHR '';'' s)"
  unfolding semicolon_fields_def trim_func_def by (simp add: trim_right_fields trim_semicolon_fields)

lemma semicolon_fields_concat:
  assumes "\<forall>x \<in> set xs. CHR '';'' \<notin> set (f x) \<and> f x \<noteq> []"
  shows "semicolon_fields (CHR '';'' # concat (map (\<lambda>x. f x @ '';'') xs)) = map f xs"
proof -
  have "filter (\<lambda>p. p \<noteq> []) (split_on CHR '';'' (concat (map (\<lambda>x. f x @ '';'') xs))) = map f xs"
    using assms by (induction xs) simp_all
  then show ?thesis by (simp add: semicolon_fields_split)
qed

lemma itoa_no: "\<not> is_digit c \<Longrightarrow> c \<noteq> CHR ''-'' \<Longrightarrow> c \<notin> set (itoa n)"
  using itoa_chars by blast

lemma not_digit_chars [simp]: "\<not> is_digit CHR '';''" "\<not> is_digit CHR ''-''" "\<not> is_digit CHR ''+''" "\<not> is_digit CHR '',''"
  by (simp_all add: is_digit_def)

lemma itoa_no_minus: "0 \<le> n \<Longrightarrow> CHR ''-'' \<notin> set (itoa n)"
  using nat_digits_are_digits [of "nat n"] by (auto simp: itoa_def list_all_iff)

definition int64 :: "int \<Rightarrow> bool" where
  "int64 n \<longleftrightarrow> - (2 ^ 63) \<le> n \<and> n < 2 ^ 63"

lemma atoi_itoa_int64 [simp]: "int64 n \<Longrightarrow> atoi (itoa n) = Some n"
  unfolding int64_def by (blast intro: atoi_itoa)

lemma before_part_item:
  assumes "0 \<le> a" "int64 a" "int64 b"
  shows "before_part (itoa a @ CHR ''-'' # itoa b) before = AList.update a b before"
  using assms itoa_no_minus [of a] by (simp add: before_part_def)

lemma update_append: "k \<notin> fst ` set m \<Longrightarrow> AList.update k v m = m @ [(k, v)]"
  by (induction m) auto

lemma Before_Scan_Value_app:
  assumes "\<forall>(a, b) \<in> set m. 0 \<le> a \<and> int64 a \<and> int64 b" and "distinct (map fst (acc @ m))"
  shows "fold before_part (map (\<lambda>(a, b). itoa a @ ''-'' @ itoa b) m) acc = acc @ m"
  using assms
proof (induction m arbitrary: acc)
  case (Cons x m)
  obtain a b where x: "x = (a, b)" by (cases x)
  have step: "before_part (itoa a @ ''-'' @ itoa b) acc = acc @ [(a, b)]"
    using Cons.prems x by (auto simp: before_part_item update_append)
  have "fold before_part (map (\<lambda>(a, b). itoa a @ ''-'' @ itoa b) m) (acc @ [(a, b)]) = (acc @ [(a, b)]) @ m"
    using Cons.prems x by (intro Cons.IH) auto
  then show ?case using step by (simp add: x)
qed simp

lemma Before_Scan_Value:
  assumes "\<forall>(a, b) \<in> set m. 0 \<le> a \<and> int64 a \<and> int64 b" and "distinct (map fst m)"
  shows "Before_Scan (VString (Before_Value m)) [] = Inr m"
proof (cases "m = []")
  case True
  then show ?thesis by (simp add: Before_Scan_def Before_Value_def driver_string_def semicolon_fields_split)
next
  case False
  have "semicolon_fields (CHR '';'' # concat (map (\<lambda>x. (case x of (a, b) \<Rightarrow> itoa a @ ''-'' @ itoa b) @ '';'') m))
      = map (\<lambda>(a, b). itoa a @ ''-'' @ itoa b) m"
    by (rule semicolon_fields_concat) (auto simp: itoa_no)
  moreover have "(\<lambda>x. (case x of (a, b) \<Rightarrow> itoa a @ ''-'' @ itoa b) @ '';'') = (\<lambda>(a, b). itoa a @ ''-'' @ itoa b @ '';'')"
    by auto
  ultimately show ?thesis
    using Before_Scan_Value_app [of m "[]"] assms False by (simp add: Before_Scan_def Before_Value_def driver_string_def)
qed

lemma map_episodes_append:
  assumes "\<forall>e \<in> set tv. int64 e" and "a \<notin> fst ` set acc" and "tv \<noteq> []"
  shows "fold (map_episode a) (map itoa tv) acc = acc @ [(a, tv)]"
proof -
  have more: "fold (map_episode a) (map itoa es) (acc @ [(a, ds)]) = acc @ [(a, ds @ es)]" if "\<forall>e \<in> set es. int64 e" for ds es
    using that
  proof (induction es arbitrary: ds)
    case (Cons e es)
    have "map_of (acc @ [(a, ds)]) a = Some ds" using assms(2) by (induction acc) auto
    moreover have "AList.update a xs (acc @ [(a, ds)]) = acc @ [(a, xs)]" for xs :: "int list"
      using assms(2) by (induction acc) auto
    ultimately have "map_episode a (itoa e) (acc @ [(a, ds)]) = acc @ [(a, ds @ [e])]"
      using Cons.prems by (simp add: map_episode_def del: map_of_append)
    with Cons show ?case by simp
  qed simp
  obtain e es where tv: "tv = e # es" using assms(3) by (cases tv) auto
  have "map_of acc a = None" using assms(2) by (auto simp: map_of_eq_None_iff)
  then have "map_episode a (itoa e) acc = acc @ [(a, [e])]"
    using assms tv by (simp add: map_episode_def update_append)
  with more [of es "[e]"] assms(1) tv show ?thesis by simp
qed

lemma Map_Scan_Value:
  assumes "\<forall>(a, tv) \<in> set m. 0 \<le> a \<and> int64 a \<and> tv \<noteq> [] \<and> (\<forall>e \<in> set tv. int64 e)" and "distinct (map fst m)"
  shows "Map_Scan (VString (Map_Value m)) [] = Inr m"
proof (cases "m = []")
  case True
  then show ?thesis by (simp add: Map_Scan_def Map_Value_def driver_string_def semicolon_fields_split)
next
  case False
  define item_text where "item_text = (\<lambda>(a, tv). itoa a @ ''-'' @ go_join ''+'' (map itoa tv))"
  have join_chars: "c \<in> set (go_join ''+'' xs) \<Longrightarrow> c = CHR ''+'' \<or> (\<exists>x \<in> set xs. c \<in> set x)" for c xs
    by (induction "''+''" xs rule: go_join.induct) auto
  have "semicolon_fields (CHR '';'' # concat (map (\<lambda>x. item_text x @ '';'') m)) = map item_text m"
    by (rule semicolon_fields_concat) (auto simp: item_text_def itoa_no dest!: join_chars)
  moreover have "(\<lambda>x. item_text x @ '';'') = (\<lambda>(a, tv). itoa a @ ''-'' @ go_join ''+'' (SliceMapIntToString tv) @ '';'')"
    by (auto simp: item_text_def SliceMapIntToString_def)
  ultimately have fields: "semicolon_fields (Map_Value m) = map item_text m"
    using False by (simp add: Map_Value_def)
  have "fold map_part (map item_text xs) acc = acc @ xs" if "distinct (map fst (acc @ xs))" and "set xs \<subseteq> set m" for acc xs
    using that
  proof (induction xs arbitrary: acc)
    case (Cons x xs)
    obtain a tv where x: "x = (a, tv)" by (cases x)
    have a: "0 \<le> a" "int64 a" "tv \<noteq> []" "\<forall>e \<in> set tv. int64 e" using assms(1) Cons.prems(2) x by auto
    have "split_on CHR ''+'' (go_join ''+'' (map itoa tv)) = map itoa tv"
      using a(3) by (intro split_on_join) (auto simp: itoa_no)
    then have "map_part (item_text x) acc = acc @ [(a, tv)]"
      using a itoa_no_minus [of a] Cons.prems(1) by (simp add: map_part_def item_text_def x map_episodes_append)
    moreover have "fold map_part (map item_text xs) (acc @ [(a, tv)]) = (acc @ [(a, tv)]) @ xs"
      using Cons.prems x by (intro Cons.IH) auto
    ultimately show ?case by (simp add: x)
  qed simp
  from this [of "[]" m] assms(2) fields show ?thesis by (simp add: Map_Scan_def driver_string_def)
qed

section \<open>Order\<close>

definition small_map :: "AniDBTVDBEpisodeMap \<Rightarrow> bool" where
  "small_map m \<longleftrightarrow> \<bar>SafeParseInt (em_AniDBId m) (- 1)\<bar> < 2 ^ 62 \<and> \<bar>em_TVDBSeason m\<bar> < 2 ^ 62
     \<and> \<bar>em_AniDBSeason m\<bar> < 2 ^ 62 \<and> \<bar>em_Start m\<bar> < 2 ^ 62"

definition sort_key :: "AniDBTVDBEpisodeMap \<Rightarrow> int \<times> int \<times> int \<times> int" where
  "sort_key m = (SafeParseInt (em_AniDBId m) (- 1), em_TVDBSeason m, em_AniDBSeason m, em_Start m)"

definition key_less :: "int \<times> int \<times> int \<times> int \<Rightarrow> int \<times> int \<times> int \<times> int \<Rightarrow> bool" where
  "key_less x y =
     (case (x, y) of ((a, b, c, d), (a', b', c', d')) \<Rightarrow>
        a < a' \<or> a = a' \<and> (b < b' \<or> b = b' \<and> (c < c' \<or> c = c' \<and> d < d')))"

lemma wrap64_diff: "\<bar>x\<bar> < 2 ^ 62 \<Longrightarrow> \<bar>y\<bar> < 2 ^ 62 \<Longrightarrow> wrap64 (x - y) = x - y"
  by (rule wrap64_id) simp_all

lemma sort_cmp_key: "small_map a \<Longrightarrow> small_map b \<Longrightarrow> cmp_less sort_cmp a b \<longleftrightarrow> key_less (sort_key a) (sort_key b)"
  unfolding cmp_less_def sort_cmp_def Let_def small_map_def sort_key_def key_less_def
  by (simp add: wrap64_diff)

interpretation map_order: strict_weak "cmp_less sort_cmp" small_map
proof
  show "\<not> cmp_less sort_cmp y x" if "small_map x" "small_map y" "cmp_less sort_cmp x y" for x y
    using that by (auto simp: sort_cmp_key key_less_def split: prod.splits)
  show "\<not> cmp_less sort_cmp x z"
    if "small_map x" "small_map y" "small_map z" "\<not> cmp_less sort_cmp x y" "\<not> cmp_less sort_cmp y z" for x y z
    using that by (auto simp: sort_cmp_key key_less_def split: prod.splits)
qed

lemma maps_Sort_sorted:
  assumes "\<forall>m \<in> set ms. small_map m"
  shows "sorted_wrt (\<lambda>a b. \<not> key_less (sort_key b) (sort_key a)) (maps_Sort ms)" and "mset (maps_Sort ms) = mset ms"
proof -
  have "sorted_wrt (\<lambda>a b. \<not> cmp_less sort_cmp b a) (maps_Sort ms)"
    unfolding maps_Sort_def by (rule map_order.stable_sort_sorted [OF assms])
  moreover have "\<forall>m \<in> set (maps_Sort ms). small_map m" using assms by (simp add: maps_Sort_def)
  ultimately show "sorted_wrt (\<lambda>a b. \<not> key_less (sort_key b) (sort_key a)) (maps_Sort ms)"
    by (auto simp: sort_cmp_key elim: sorted_wrt_mono_rel [rotated])
qed (simp add: maps_Sort_def)

section \<open>Groups\<close>

lemma fold_group_step:
  assumes "fold group_step ms ([], []) = (groups, parts)"
  shows "concat (map ga_Maps groups) = ms" and "map ga_AniDBId groups = remdups_adj (map em_AniDBId ms)"
    and "\<forall>g \<in> set groups. ga_Maps g \<noteq> [] \<and> (\<forall>m \<in> set (ga_Maps g). em_AniDBId m = ga_AniDBId g)"
proof -
  have "concat (map ga_Maps groups) = ms \<and> map ga_AniDBId groups = remdups_adj (map em_AniDBId ms)
    \<and> (\<forall>g \<in> set groups. ga_Maps g \<noteq> [] \<and> (\<forall>m \<in> set (ga_Maps g). em_AniDBId m = ga_AniDBId g))"
    using assms
  proof (induction ms arbitrary: groups parts rule: rev_induct)
    case (snoc m ms)
    obtain gs ps where prev: "fold group_step ms ([], []) = (gs, ps)" by fastforce
    note IH = snoc.IH [OF prev]
    show ?case
    proof (cases "gs = []")
      case True
      then have "ms = []" using IH by auto
      with True snoc.prems prev show ?thesis by (auto simp: group_step_def split: prod.splits)
    next
      case False
      then obtain hs g where gs: "gs = hs @ [g]" by (cases gs rule: rev_cases) auto
      have "ga_Maps g \<noteq> []" and ids: "\<forall>m \<in> set (ga_Maps g). em_AniDBId m = ga_AniDBId g" using IH gs by auto
      have ms: "ms = concat (map ga_Maps hs) @ ga_Maps g" using IH gs by auto
      have "ms \<noteq> []" using ms \<open>ga_Maps g \<noteq> []\<close> by simp
      have last: "last (map em_AniDBId ms) = ga_AniDBId g"
        using ms \<open>ga_Maps g \<noteq> []\<close> ids by (simp add: last_map)
      have adj: "remdups_adj (map em_AniDBId ms @ [x]) =
          (if x = ga_AniDBId g then remdups_adj (map em_AniDBId ms) else remdups_adj (map em_AniDBId ms) @ [x])" for x
        using remdups_adj_append'' [of "map em_AniDBId ms" "[x]"] \<open>ms \<noteq> []\<close> last by (simp add: remdups_adj_append_two)
      have "group_step m (gs, ps) = (groups, parts)" using snoc.prems prev by simp
      then have "groups =
          (if ga_AniDBId g \<noteq> em_AniDBId m
           then gs @ [\<lparr>ga_AniDBId = em_AniDBId m, ga_Part = fst (new_part m ps), ga_Maps = [m]\<rparr>]
           else hs @ [g\<lparr>ga_Maps := ga_Maps g @ [m]\<rparr>])"
        unfolding group_step_def gs by (auto split: prod.splits if_splits)
      note groups = this
      have "concat (map ga_Maps groups) = ms @ [m]" using groups ms by (simp add: gs)
      moreover have "map ga_AniDBId groups = map ga_AniDBId gs @ (if ga_AniDBId g \<noteq> em_AniDBId m then [em_AniDBId m] else [])"
        using groups by (simp add: gs)
      then have "map ga_AniDBId groups = remdups_adj (map em_AniDBId (ms @ [m]))"
        using IH adj [of "em_AniDBId m"] by (simp split: if_splits)
      moreover have "\<forall>g \<in> set groups. ga_Maps g \<noteq> [] \<and> (\<forall>m \<in> set (ga_Maps g). em_AniDBId m = ga_AniDBId g)"
        using groups IH gs by auto
      ultimately show ?thesis by blast
    qed
  qed auto
  then show "concat (map ga_Maps groups) = ms" and "map ga_AniDBId groups = remdups_adj (map em_AniDBId ms)"
    and "\<forall>g \<in> set groups. ga_Maps g \<noteq> [] \<and> (\<forall>m \<in> set (ga_Maps g). em_AniDBId m = ga_AniDBId g)" by auto
qed

lemma group_maps_facts:
  shows group_maps_concat: "concat (map ga_Maps (group_maps ms)) = ms"
    and group_maps_ids: "map ga_AniDBId (group_maps ms) = remdups_adj (map em_AniDBId ms)"
    and group_maps_member: "g \<in> set (group_maps ms) \<Longrightarrow> ga_Maps g \<noteq> [] \<and> (\<forall>m \<in> set (ga_Maps g). em_AniDBId m = ga_AniDBId g)"
  using fold_group_step [of ms] unfolding group_maps_def by (metis prod.collapse)+

lemma filter_concat_group:
  assumes "distinct (map ga_AniDBId gs)"
    and "\<And>g. g \<in> set gs \<Longrightarrow> \<forall>m \<in> set (ga_Maps g). em_AniDBId m = ga_AniDBId g" and "g \<in> set gs"
  shows "filter (\<lambda>m. em_AniDBId m = ga_AniDBId g) (concat (map ga_Maps gs)) = ga_Maps g"
  using assms
proof (induction gs)
  case (Cons h gs)
  have h: "\<forall>m \<in> set (ga_Maps h). em_AniDBId m = ga_AniDBId h" using Cons.prems(2) by simp
  show ?case
  proof (cases "g = h")
    case True
    have "em_AniDBId m \<noteq> ga_AniDBId g" if "k \<in> set gs" "m \<in> set (ga_Maps k)" for k m
    proof -
      have "em_AniDBId m = ga_AniDBId k" using that Cons.prems(2) [of k] by simp
      moreover have "ga_AniDBId k \<noteq> ga_AniDBId h" using that(1) Cons.prems(1) by (metis distinct.simps(2) image_eqI list.set_map list.simps(9))
      ultimately show ?thesis using True by simp
    qed
    then have "filter (\<lambda>m. em_AniDBId m = ga_AniDBId g) (concat (map ga_Maps gs)) = []"
      by (auto simp: filter_empty_conv)
    with h True show ?thesis by (simp add: filter_id_conv)
  next
    case False
    then have "g \<in> set gs" and "ga_AniDBId h \<noteq> ga_AniDBId g" using Cons.prems by auto
    moreover have "filter (\<lambda>m. em_AniDBId m = ga_AniDBId g) (ga_Maps h) = []"
      using h \<open>ga_AniDBId h \<noteq> ga_AniDBId g\<close> by (auto simp: filter_empty_conv)
    ultimately show ?thesis using Cons by simp
  qed
qed simp

lemma group_index_other: "k \<notin> ga_AniDBId ` set gs \<Longrightarrow> map_of (group_index n gs idx) k = map_of idx k"
  by (induction gs arbitrary: n idx) (auto simp: update_conv')

lemma group_index_nth:
  assumes "distinct (map ga_AniDBId gs)" and "i < length gs"
  shows "map_of (group_index n gs idx) (ga_AniDBId (gs ! i)) = Some (n + i)"
  using assms
proof (induction gs arbitrary: n i idx)
  case (Cons g gs)
  then show ?case by (cases i) (auto simp: group_index_other update_conv')
qed simp

text \<open>A result as \<open>GetTVDBEpisodeMaps\<close> makes it and as the operations on it leave it.\<close>

definition wf_result :: "maps_result \<Rightarrow> bool" where
  "wf_result r \<longleftrightarrow>
     (mr_grouped r = None \<and> mr_idx r = None)
     \<or> (mr_grouped r = Some (group_maps (mr_Maps r)) \<and> mr_idx r = Some (group_index 0 (group_maps (mr_Maps r)) []))"

lemma GroupByAniDBId_wf:
  assumes "wf_result r"
  shows "fst (GroupByAniDBId r) = group_maps (mr_Maps r)" and "wf_result (snd (GroupByAniDBId r))"
    and "mr_Maps (snd (GroupByAniDBId r)) = mr_Maps r" and "mr_grouped (snd (GroupByAniDBId r)) = Some (group_maps (mr_Maps r))"
    and "mr_idx (snd (GroupByAniDBId r)) = Some (group_index 0 (group_maps (mr_Maps r)) [])"
  using assms by (auto simp: GroupByAniDBId_def wf_result_def Let_def)

lemma GetByAniDBId_wf:
  assumes "wf_result r"
  shows "wf_result (snd (GetByAniDBId r k))" and "mr_Maps (snd (GetByAniDBId r k)) = mr_Maps r"
  using assms GroupByAniDBId_wf [OF assms] by (auto simp: GetByAniDBId_def Let_def split: option.splits)

lemma GetByAniDBId_lookup:
  assumes "wf_result r"
  shows "fst (GetByAniDBId r k) =
    (case map_of (group_index 0 (group_maps (mr_Maps r)) []) k of
       None \<Rightarrow> None | Some i \<Rightarrow> Some (group_maps (mr_Maps r) ! i))"
  using assms GroupByAniDBId_wf [OF assms]
  by (auto simp: GetByAniDBId_def wf_result_def Let_def split: option.splits)

text \<open>
  If the maps of every AniDB entry stand together, \<open>GetByAniDBId\<close> answers exactly the maps of the
  entry in their order, and nothing for an entry without maps, whether or not the groups were computed before.
\<close>

lemma GetByAniDBId_spec:
  assumes "wf_result r" and "distinct (remdups_adj (map em_AniDBId (mr_Maps r)))"
  shows "map_option ga_Maps (fst (GetByAniDBId r k)) =
    (case filter (\<lambda>m. em_AniDBId m = k) (mr_Maps r) of [] \<Rightarrow> None | m # ms \<Rightarrow> Some (m # ms))"
proof -
  let ?gs = "group_maps (mr_Maps r)"
  have dist: "distinct (map ga_AniDBId ?gs)" using assms(2) by (simp add: group_maps_ids)
  show ?thesis
  proof (cases "k \<in> ga_AniDBId ` set ?gs")
    case True
    then obtain i where i: "i < length ?gs" "ga_AniDBId (?gs ! i) = k" by (auto simp: in_set_conv_nth)
    let ?g = "?gs ! i"
    have "fst (GetByAniDBId r k) = Some ?g"
      using GetByAniDBId_lookup [OF assms(1), of k] group_index_nth [OF dist i(1), of 0 "[]"] i(2) by simp
    moreover have "filter (\<lambda>m. em_AniDBId m = ga_AniDBId ?g) (concat (map ga_Maps ?gs)) = ga_Maps ?g"
      using group_maps_member i(1) by (intro filter_concat_group [OF dist]) auto
    moreover have "ga_Maps ?g \<noteq> []" using group_maps_member [OF nth_mem [OF i(1)]] by simp
    ultimately show ?thesis using i(2) by (auto simp: group_maps_concat split: list.split)
  next
    case False
    then have "k \<notin> em_AniDBId ` set (mr_Maps r)"
      using group_maps_ids [of "mr_Maps r"] by (metis image_set remdups_adj_set)
    then have "filter (\<lambda>m. em_AniDBId m = k) (mr_Maps r) = []" by (auto simp: filter_empty_conv)
    with False show ?thesis by (simp add: GetByAniDBId_lookup [OF assms(1)] group_index_other)
  qed
qed

section \<open>What is read from the table\<close>

text \<open>A map whose columns read back as they were.\<close>

definition wf_map :: "AniDBTVDBEpisodeMap \<Rightarrow> bool" where
  "wf_map m \<longleftrightarrow>
     (\<forall>(a, b) \<in> set (em_Before m). 0 \<le> a \<and> int64 a \<and> int64 b) \<and> distinct (map fst (em_Before m))
     \<and> (\<forall>(a, tv) \<in> set (em_Map m). 0 \<le> a \<and> int64 a \<and> tv \<noteq> [] \<and> (\<forall>e \<in> set tv. int64 e)) \<and> distinct (map fst (em_Map m))"

lemma map_of_row_to_row: "wf_map m \<Longrightarrow> map_of_row (map_to_row m) = Inr m"
  unfolding wf_map_def map_of_row_def map_to_row_def by (simp add: Before_Scan_Value Map_Scan_Value)

lemma scan_rows_to_rows: "\<forall>m \<in> set ms. wf_map m \<Longrightarrow> scan_rows (map map_to_row ms) = Inr ms"
  by (induction ms) (auto simp: map_of_row_to_row)

lemma map_to_row_fields [simp]:
  "em_AniDBId (map_to_row m) = em_AniDBId m" "em_TVDBId (map_to_row m) = em_TVDBId m" "episode_key (map_to_row m) = episode_key m"
  by (simp_all add: map_to_row_def episode_key_def)

lemma upsert_row_new: "episode_key r \<notin> episode_key ` set t \<Longrightarrow> upsert_row r t = t @ [r]"
  by (induction t) auto

lemma upsert_rows_new:
  "distinct (map episode_key items) \<Longrightarrow> episode_key ` set items \<inter> episode_key ` set t = {}
    \<Longrightarrow> fold (\<lambda>item. upsert_row (map_to_row item)) items t = t @ map map_to_row items"
  by (induction items arbitrary: t) (auto simp: upsert_row_new)

lemma find_map_to_row: "find (\<lambda>r. em_AniDBId r = k) (map map_to_row ms) = map_option map_to_row (find (\<lambda>m. em_AniDBId m = k) ms)"
  by (induction ms) auto

lemma distinct_remdups_adj_sorted:
  assumes "sorted_wrt (\<lambda>a b. f a \<le> (f b :: int)) xs" and "inj_on f (set xs)"
  shows "distinct (remdups_adj xs)"
  using assms
proof (induction xs rule: remdups_adj.induct)
  case (3 x y xs)
  show ?case
  proof (cases "x = y")
    case False
    have "f x \<le> f y" "\<forall>z \<in> set xs. f y \<le> f z" using 3(3) by auto
    moreover have "f x \<noteq> f y" using False 3(4) by (auto simp: inj_on_def)
    ultimately have "x \<notin> set (y # xs)" by auto
    then show ?thesis using False 3 by (auto simp: inj_on_def)
  qed (use 3 in \<open>auto simp: inj_on_def\<close>)
qed auto

lemma sorted_ids_together:
  assumes "\<forall>m \<in> set ms. small_map m" and "inj_on (\<lambda>i. SafeParseInt i (- 1)) (em_AniDBId ` set ms)"
  shows "distinct (remdups_adj (map em_AniDBId (maps_Sort ms)))"
proof (rule distinct_remdups_adj_sorted)
  have "sorted_wrt (\<lambda>a b. SafeParseInt (em_AniDBId a) (- 1) \<le> SafeParseInt (em_AniDBId b) (- 1)) (maps_Sort ms)"
    using maps_Sort_sorted(1) [OF assms(1)] by (rule sorted_wrt_mono_rel [rotated]) (auto simp: key_less_def sort_key_def)
  then show "sorted_wrt (\<lambda>a b. SafeParseInt a (- 1) \<le> SafeParseInt b (- 1)) (map em_AniDBId (maps_Sort ms))"
    by (simp add: sorted_wrt_map)
  show "inj_on (\<lambda>i. SafeParseInt i (- 1)) (set (map em_AniDBId (maps_Sort ms)))"
    using assms(2) by (simp add: maps_Sort_def)
qed

text \<open>
  C12: (roundtrip) Between 1 and 200 maps, all of one TVDB series, are stored into an empty table with one statement and
  read back with the id of one of them: \<open>GetByAniDBId\<close> of what \<open>GetTVDBEpisodeMaps\<close> (related maps
  included) answers gives exactly the maps stored for that id, ordered by TVDB season, AniDB season and start. This is for
  maps with distinct keys (\<open>episode_key\<close>), whose entries the text format can hold (\<open>wf_map\<close>,
  \<open>small_map\<close>), and AniDB ids that are distinct as numbers.
\<close>

theorem stored_maps_found:
  assumes "items \<noteq> []" and "length items \<le> 200" and "distinct (map episode_key items)"
    and "\<And>m. m \<in> set items \<Longrightarrow> wf_map m \<and> small_map m \<and> em_TVDBId m = tv"
    and "inj_on (\<lambda>i. SafeParseInt i (- 1)) (em_AniDBId ` set items)"
    and "m \<in> set items"
  shows "\<exists>r g. GetTVDBEpisodeMaps (em_AniDBId m) True (snd (UpsertTVDBEpisodeMaps None items [])) = Inr r
    \<and> fst (GetByAniDBId r (em_AniDBId m)) = Some g
    \<and> mset (ga_Maps g) = filter_mset (\<lambda>n. em_AniDBId n = em_AniDBId m) (mset items)
    \<and> sorted_wrt (\<lambda>a b. (em_TVDBSeason a, em_AniDBSeason a, em_Start a) \<le> (em_TVDBSeason b, em_AniDBSeason b, em_Start b)) (ga_Maps g)"
proof -
  let ?t = "map map_to_row items" and ?k = "em_AniDBId m"
  have stored: "snd (UpsertTVDBEpisodeMaps None items []) = ?t"
    using upsert_rows_new [of items "[]"] assms(1-3) by (simp add: UpsertTVDBEpisodeMaps_def)
  obtain q where q: "find (\<lambda>m. em_AniDBId m = ?k) items = Some q" "q \<in> set items"
    using assms(6) by (cases "find (\<lambda>m. em_AniDBId m = ?k) items") (auto simp: find_None_iff find_Some_iff)
  have "filter (\<lambda>r. em_TVDBId r = em_TVDBId q) ?t = ?t"
    using assms(4) q(2) by (auto simp: filter_id_conv)
  then have query: "query_maps ?k True ?t = ?t"
    using q(1) by (simp add: query_maps_def find_map_to_row)
  have scan: "scan_rows ?t = Inr items" using assms(4) by (intro scan_rows_to_rows) auto
  let ?r = "\<lparr>mr_Maps = maps_Sort items, mr_grouped = None, mr_idx = None\<rparr>"
  have r: "GetTVDBEpisodeMaps ?k True ?t = Inr ?r" by (simp add: GetTVDBEpisodeMaps_def query scan)
  have small: "\<forall>m \<in> set items. small_map m" using assms(4) by auto
  have "map_option ga_Maps (fst (GetByAniDBId ?r ?k)) =
      (case filter (\<lambda>n. em_AniDBId n = ?k) (maps_Sort items) of [] \<Rightarrow> None | m # ms \<Rightarrow> Some (m # ms))"
    using GetByAniDBId_spec [of ?r ?k] sorted_ids_together [OF small assms(5)] by (simp add: wf_result_def)
  moreover have "m \<in> set (filter (\<lambda>n. em_AniDBId n = ?k) (maps_Sort items))"
    using assms(6) by (simp add: maps_Sort_def)
  then have "filter (\<lambda>n. em_AniDBId n = ?k) (maps_Sort items) \<noteq> []" by (metis empty_iff list.set(1))
  ultimately obtain g where g: "fst (GetByAniDBId ?r ?k) = Some g"
    and maps: "ga_Maps g = filter (\<lambda>n. em_AniDBId n = ?k) (maps_Sort items)"
    by (auto split: list.splits)
  have "sorted_wrt (\<lambda>a b. em_AniDBId a = ?k \<longrightarrow> em_AniDBId b = ?k \<longrightarrow>
      (em_TVDBSeason a, em_AniDBSeason a, em_Start a) \<le> (em_TVDBSeason b, em_AniDBSeason b, em_Start b)) (maps_Sort items)"
    using maps_Sort_sorted(1) [OF small] by (rule sorted_wrt_mono_rel [rotated]) (auto simp: key_less_def sort_key_def)
  then have "sorted_wrt (\<lambda>a b. (em_TVDBSeason a, em_AniDBSeason a, em_Start a) \<le> (em_TVDBSeason b, em_AniDBSeason b, em_Start b)) (ga_Maps g)"
    unfolding maps by (rule sorted_wrt_mono_rel [OF _ sorted_wrt_filter, rotated]) auto
  moreover have "mset (ga_Maps g) = filter_mset (\<lambda>n. em_AniDBId n = ?k) (mset items)"
    unfolding maps by (simp add: maps_Sort_def mset_filter)
  ultimately show ?thesis using r g stored by auto
qed

definition sample_map :: "string \<Rightarrow> int \<Rightarrow> int \<Rightarrow> int \<Rightarrow> int \<Rightarrow> AniDBTVDBEpisodeMap" where
  "sample_map i s st en off =
     \<lparr>em_AniDBId = i, em_TVDBId = ''77'', em_AniDBSeason = 1, em_TVDBSeason = s, em_Start = st, em_End = en, em_Offset = off,
      em_Before = [], em_Map = [(3, [4, 5])]\<rparr>"

lemmas sample_map_simps = sample_map_def wf_map_def small_map_def int64_def episode_key_def SafeParseInt_def atoi_def is_digit_def digit_val_def

theorem stored_maps_found_witness:
  "\<exists>r g. GetTVDBEpisodeMaps ''9'' True (snd (UpsertTVDBEpisodeMaps None
       [sample_map ''10'' 2 1 5 7, sample_map ''9'' 2 6 12 0, sample_map ''9'' 1 1 5 0] [])) = Inr r
    \<and> fst (GetByAniDBId r ''9'') = Some g
    \<and> mset (ga_Maps g) = filter_mset (\<lambda>n. em_AniDBId n = ''9'')
        (mset [sample_map ''10'' 2 1 5 7, sample_map ''9'' 2 6 12 0, sample_map ''9'' 1 1 5 0])
    \<and> sorted_wrt (\<lambda>a b. (em_TVDBSeason a, em_AniDBSeason a, em_Start a) \<le> (em_TVDBSeason b, em_AniDBSeason b, em_Start b)) (ga_Maps g)"
proof -
  have id: "em_AniDBId (sample_map ''9'' 1 1 5 0) = ''9''" by (simp add: sample_map_def)
  show ?thesis
    by (rule stored_maps_found [of "[sample_map ''10'' 2 1 5 7, sample_map ''9'' 2 6 12 0, sample_map ''9'' 1 1 5 0]" "''77''"
          "sample_map ''9'' 1 1 5 0", unfolded id])
      (auto simp: sample_map_simps)
qed

section \<open>Seasons\<close>

definition regular :: "AniDBTVDBEpisodeMap \<Rightarrow> bool" where
  "regular m \<longleftrightarrow> 1 \<le> em_TVDBSeason m \<and> 1 \<le> em_AniDBSeason m"

lemma split_from_iff:
  "split_from seen ms \<longleftrightarrow> \<not> distinct (map em_AniDBId (filter regular ms)) \<or> set seen \<inter> em_AniDBId ` set (filter regular ms) \<noteq> {}"
  by (induction seen ms rule: split_from.induct) (auto simp: regular_def not_le)

lemma HasSplitedTVSeasons_iff: "HasSplitedTVSeasons ms \<longleftrightarrow> \<not> distinct (map em_AniDBId (filter regular ms))"
  by (simp add: HasSplitedTVSeasons_def split_from_iff)

text \<open>The first maps of the groups decide the parts.\<close>

definition first_seasons :: "by_anidb list \<Rightarrow> int list" where
  "first_seasons gs = map em_TVDBSeason (filter regular (map (hd \<circ> ga_Maps) gs))"

definition part_inv :: "by_anidb list \<Rightarrow> (string \<times> int) list \<Rightarrow> bool" where
  "part_inv gs parts \<longleftrightarrow>
     (\<forall>s. map_of parts (itoa s) = (let n = count_list (first_seasons gs) s in if n = 0 then None else Some (int n)))
     \<and> ((\<exists>g \<in> set gs. 1 < ga_Part g) \<longleftrightarrow> \<not> distinct (first_seasons gs))
     \<and> (\<forall>g \<in> set gs. ga_Maps g \<noteq> [])"

lemma count_list_zero [simp]: "count_list xs x = 0 \<longleftrightarrow> x \<notin> set xs"
  by (rule count_list_0_iff)

lemma part_inv_new:
  assumes "part_inv gs parts" and "new_part m parts = (part, parts')"
  shows "part_inv (gs @ [\<lparr>ga_AniDBId = i, ga_Part = part, ga_Maps = [m]\<rparr>]) parts'"
proof (cases "regular m")
  case True
  let ?s = "em_TVDBSeason m" and ?n = "count_list (first_seasons gs) (em_TVDBSeason m)"
  have lookup: "map_of parts (itoa ?s) = (if ?n = 0 then None else Some (int ?n))"
    using assms(1) by (simp add: part_inv_def Let_def)
  then have part: "part = int ?n + 1" and parts': "parts' = AList.update (itoa ?s) (int ?n + 1) parts"
    using assms(2) True by (auto simp: new_part_def regular_def Let_def split: if_splits)
  have firsts: "first_seasons (gs @ [\<lparr>ga_AniDBId = i, ga_Part = part, ga_Maps = [m]\<rparr>]) = first_seasons gs @ [?s]"
    using True by (simp add: first_seasons_def)
  show ?thesis
    unfolding part_inv_def firsts using assms(1) parts' part
    by (auto simp: part_inv_def update_conv' Let_def dest: itoa_inj)
next
  case False
  then have "part = 0" "parts' = parts" using assms(2) by (auto simp: new_part_def regular_def Let_def not_le split: if_splits)
  with False assms(1) show ?thesis by (auto simp: part_inv_def first_seasons_def)
qed

lemma part_inv_extend:
  assumes "part_inv (gs @ [g]) parts"
  shows "part_inv (gs @ [g\<lparr>ga_Maps := ga_Maps g @ [m]\<rparr>]) parts"
proof -
  have "ga_Maps g \<noteq> []" using assms by (simp add: part_inv_def)
  then have "first_seasons (gs @ [g\<lparr>ga_Maps := ga_Maps g @ [m]\<rparr>]) = first_seasons (gs @ [g])"
    by (simp add: first_seasons_def)
  with assms show ?thesis by (auto simp: part_inv_def)
qed

lemma part_inv_step: "part_inv gs parts \<Longrightarrow> group_step m (gs, parts) = (gs', parts') \<Longrightarrow> part_inv gs' parts'"
  by (cases gs rule: rev_cases)
    (auto simp: group_step_def intro: part_inv_extend part_inv_new [of "[]", simplified] part_inv_new [of "gs @ [g]" for gs g, simplified]
      split: if_splits prod.splits)

lemma part_inv_fold: "part_inv (fst st) (snd st) \<Longrightarrow> part_inv (fst (fold group_step ms st)) (snd (fold group_step ms st))"
proof (induction ms arbitrary: st)
  case (Cons m ms)
  obtain gs ps where "group_step m st = (gs, ps)" by fastforce
  with Cons show ?case using part_inv_step [of "fst st" "snd st" m gs ps] by simp
qed simp

text \<open>
  (equivalence) Seasons count as joined exactly if two groups start with a regular map of the same TVDB season, and as
  split exactly if an AniDB entry has two regular maps.
\<close>

theorem joined_and_split_seasons:
  assumes "wf_result r"
  shows "(HasJoinedTVSeasons r \<longleftrightarrow> \<not> distinct (first_seasons (group_maps (mr_Maps r))))
    \<and> (HasSplitedTVSeasons (mr_Maps r) \<longleftrightarrow> \<not> distinct (map em_AniDBId (filter regular (mr_Maps r))))"
proof -
  have "part_inv [] []" by (simp add: part_inv_def first_seasons_def)
  from part_inv_fold [of "([], [])" "mr_Maps r"] this
  have "(\<exists>g \<in> set (group_maps (mr_Maps r)). 1 < ga_Part g) \<longleftrightarrow> \<not> distinct (first_seasons (group_maps (mr_Maps r)))"
    by (simp add: part_inv_def group_maps_def)
  then show ?thesis
    by (simp add: HasJoinedTVSeasons_def GroupByAniDBId_wf(1) [OF assms] list_ex_iff HasSplitedTVSeasons_iff)
qed

definition sample_result :: "maps_result" where
  "sample_result = \<lparr>mr_Maps = [sample_map ''9'' 1 1 5 0, sample_map ''9'' 2 6 0 0, sample_map ''10'' 2 1 5 7], mr_grouped = None, mr_idx = None\<rparr>"

theorem joined_and_split_seasons_witness:
  "(HasJoinedTVSeasons sample_result \<longleftrightarrow> \<not> distinct (first_seasons (group_maps (mr_Maps sample_result))))
    \<and> (HasSplitedTVSeasons (mr_Maps sample_result) \<longleftrightarrow> \<not> distinct (map em_AniDBId (filter regular (mr_Maps sample_result))))
    \<and> HasSplitedTVSeasons (mr_Maps sample_result)"
proof -
  have "wf_result sample_result" by (simp add: wf_result_def sample_result_def)
  moreover have "HasSplitedTVSeasons (mr_Maps sample_result)" by code_simp
  ultimately show ?thesis using joined_and_split_seasons [of sample_result] by blast
qed

section \<open>Episodes\<close>

lemma GetByAnidbEpisode_None: "GetByAnidbEpisode ms (- 1) = None"
  by (cases ms) auto

lemma GetByAnidbEpisode_Some:
  "GetByAnidbEpisode ms ep = Some m \<Longrightarrow> m \<in> set ms \<and> 1 \<le> em_TVDBSeason m \<and> ep \<noteq> - 1
    \<and> (0 < em_Start m \<longrightarrow> em_Start m \<le> ep) \<and> (0 < em_End m \<longrightarrow> ep \<le> em_End m) \<and> (0 < em_Start m \<or> 0 < em_End m)"
  by (induction ms ep rule: GetByAnidbEpisode.induct) (auto simp: HasEpisodeRange_def split: if_splits)

text \<open>An episode that a map of the list covers is mapped into the range of that map.\<close>

lemma GetTMDBEpisode_of_map:
  assumes "GetByAnidbEpisode ms ep = Some m" and "map_of (em_Map m) ep = None" and "0 \<le> em_Start m" and "0 \<le> em_End m"
  shows "GetTMDBEpisode m ep = ep + em_Offset m"
proof -
  have "1 \<le> em_TVDBSeason m" "ep \<noteq> - 1" "0 < em_Start m \<longrightarrow> em_Start m \<le> ep" "0 < em_End m \<longrightarrow> ep \<le> em_End m"
    using GetByAnidbEpisode_Some [OF assms(1)] by auto
  with assms(2-4) show ?thesis by (auto simp: GetTMDBEpisode_def getTMDBEpisodes_def)
qed

lemma GetTVDBSeasons_spec: "GetTVDBSeasons ms = rev (remdups (rev (map em_TVDBSeason ms)))"
proof -
  have "fold (\<lambda>m seasons. if em_TVDBSeason m \<in> set seasons then seasons else seasons @ [em_TVDBSeason m]) ms []
      = rev (remdups (rev (map em_TVDBSeason ms)))"
    by (induction ms rule: rev_induct) auto
  then show ?thesis by (simp add: GetTVDBSeasons_def)
qed

lemma GetAbsoluteOrderSeasonMap_None: "GetAbsoluteOrderSeasonMap ms = None \<longleftrightarrow> \<not> HasAbsoluteOrder ms"
  by (auto simp: GetAbsoluteOrderSeasonMap_def HasAbsoluteOrder_def find_None_iff list_ex_iff)

text \<open>
  (error) \<open>ToTVDBAbsoluteRange\<close> loses the length of a range: its start is the absolute episode of the first
  episode, but its end is that start too and not the absolute episode of the last one.
\<close>

theorem ToTVDBAbsoluteRange_loses_end:
  assumes "m \<in> set ms" and "em_TVDBSeason m = s" and "HasAbsoluteOrder ms" and "ep1 < ep2"
  shows "\<exists>a b. GetTVDBAbsoluteEpisode ms s ep1 = Some a \<and> GetTVDBAbsoluteEpisode ms s ep2 = Some b \<and> b - a = ep2 - ep1
    \<and> ToTVDBAbsoluteRange ms s ep1 ep2 = Some (a, a)"
proof -
  obtain n where "find (\<lambda>m. em_TVDBSeason m = s) ms = Some n"
    using assms(1,2) by (cases "find (\<lambda>m. em_TVDBSeason m = s) ms") (auto simp: find_None_iff)
  moreover obtain k where "GetAbsoluteOrderSeasonMap ms = Some k"
    using assms(3) GetAbsoluteOrderSeasonMap_None by (cases "GetAbsoluteOrderSeasonMap ms") auto
  ultimately show ?thesis by (simp add: ToTVDBAbsoluteRange_def GetTVDBAbsoluteEpisode_def Let_def)
qed

theorem ToTVDBAbsoluteRange_loses_end_witness:
  "\<exists>a b. GetTVDBAbsoluteEpisode [sample_map ''9'' (- 1) 1 0 0, sample_map ''9'' 2 1 0 (- 12)] 2 1 = Some a
    \<and> GetTVDBAbsoluteEpisode [sample_map ''9'' (- 1) 1 0 0, sample_map ''9'' 2 1 0 (- 12)] 2 10 = Some b \<and> b - a = 10 - 1
    \<and> ToTVDBAbsoluteRange [sample_map ''9'' (- 1) 1 0 0, sample_map ''9'' 2 1 0 (- 12)] 2 1 10 = Some (a, a)"
  by (rule ToTVDBAbsoluteRange_loses_end [of "sample_map ''9'' 2 1 0 (- 12)"])
    (simp_all add: sample_map_def HasAbsoluteOrder_def map_HasAbsoluteOrder_def)

lemma GetTVDBAbsoluteEpisode_panics:
  assumes "m \<in> set ms" and "em_TVDBSeason m = s" and "\<not> HasAbsoluteOrder ms"
  shows "GetTVDBAbsoluteEpisode ms s ep = None" and "ToTVDBAbsoluteRange ms s ep1 ep2 = None"
proof -
  have "find (\<lambda>m. em_TVDBSeason m = s) ms \<noteq> None" using assms(1,2) by (auto simp: find_None_iff)
  moreover have "GetAbsoluteOrderSeasonMap ms = None" using assms(3) by (simp add: GetAbsoluteOrderSeasonMap_None)
  ultimately show "GetTVDBAbsoluteEpisode ms s ep = None" and "ToTVDBAbsoluteRange ms s ep1 ep2 = None"
    by (auto simp: GetTVDBAbsoluteEpisode_def ToTVDBAbsoluteRange_def)
qed

definition normal_bound :: "AniDBTVDBEpisodeMap list \<Rightarrow> int \<Rightarrow> bool" where
  "normal_bound ms ep \<longleftrightarrow> 0 < ep \<and> (\<forall>m \<in> set ms. map_HasAbsoluteOrder m \<or> em_Start m < ep \<and> em_End m < ep)"

lemma fold_largest:
  assumes "\<forall>m \<in> set ms. map_HasAbsoluteOrder m \<or> em_End m = 0 \<or> em_Start m \<le> em_End m"
  shows "fst (fold largest_step ms (has, n)) \<longleftrightarrow> has \<or> HasAbsoluteOrder ms"
    and "0 \<le> n \<Longrightarrow> snd (fold largest_step ms (has, n)) < ep \<longleftrightarrow>
      n < ep \<and> (\<forall>m \<in> set ms. map_HasAbsoluteOrder m \<or> em_Start m < ep \<and> em_End m < ep)"
  using assms
  by (induction ms arbitrary: has n) (auto simp: largest_step_def HasAbsoluteOrder_def)

text \<open>
  (functional) Episodes count as absolute exactly if the series has an absolute order and one of them lies beyond every
  start and end of the other maps.
\<close>

theorem AreAbsoluteEpisode_spec:
  assumes "\<And>m. m \<in> set ms \<Longrightarrow> map_HasAbsoluteOrder m \<or> em_End m = 0 \<or> em_Start m \<le> em_End m"
  shows "AreAbsoluteEpisode ms episodes \<longleftrightarrow> HasAbsoluteOrder ms \<and> (\<exists>ep \<in> set episodes. normal_bound ms ep)"
proof -
  have wf: "\<forall>m \<in> set ms. map_HasAbsoluteOrder m \<or> em_End m = 0 \<or> em_Start m \<le> em_End m" using assms by blast
  obtain h l where st: "fold largest_step ms (False, 0) = (h, l)" by fastforce
  have "h \<longleftrightarrow> HasAbsoluteOrder ms" using fold_largest(1) [OF wf, of False 0] st by simp
  moreover have "l < ep \<longleftrightarrow> normal_bound ms ep" for ep
    using fold_largest(2) [OF wf, of 0 False ep] st by (simp add: normal_bound_def)
  ultimately show ?thesis by (auto simp: AreAbsoluteEpisode_def st list_ex_iff)
qed

theorem AreAbsoluteEpisode_spec_witness:
  "AreAbsoluteEpisode [sample_map ''9'' (- 1) 1 0 0, sample_map ''9'' 2 1 12 0] [11, 12, 13]
    \<longleftrightarrow> HasAbsoluteOrder [sample_map ''9'' (- 1) 1 0 0, sample_map ''9'' 2 1 12 0]
      \<and> (\<exists>ep \<in> set [11, 12, 13]. normal_bound [sample_map ''9'' (- 1) 1 0 0, sample_map ''9'' 2 1 12 0] ep)"
  by (rule AreAbsoluteEpisode_spec) (auto simp: sample_map_def map_HasAbsoluteOrder_def)

section \<open>Large updates\<close>

text \<open>
  (error) Of more than 200 maps only the first 200 reach the table, and success is reported: the loop over the chunks
  returns after the first one.
\<close>

theorem UpsertTVDBEpisodeMaps_first_chunk:
  assumes "distinct (map episode_key items)" and "200 < length items" and "m \<in> set (drop 200 items)"
  shows "fst (UpsertTVDBEpisodeMaps None items []) = None
    \<and> episode_key m \<notin> episode_key ` set (snd (UpsertTVDBEpisodeMaps None items []))"
proof -
  have "distinct (map episode_key (take 200 items))" using distinct_take [OF assms(1), of 200] by (simp only: take_map)
  then have t: "snd (UpsertTVDBEpisodeMaps None items []) = map map_to_row (take 200 items)"
    using upsert_rows_new [of "take 200 items" "[]"] assms(2) by (auto simp: UpsertTVDBEpisodeMaps_def)
  have "distinct (map episode_key (take 200 items) @ map episode_key (drop 200 items))"
    using assms(1) by (metis append_take_drop_id map_append)
  then have "episode_key m \<notin> episode_key ` set (take 200 items)" using assms(3) by auto
  then show ?thesis unfolding t by (auto simp: UpsertTVDBEpisodeMaps_def image_image)
qed

theorem UpsertTVDBEpisodeMaps_first_chunk_witness:
  "\<exists>items m. distinct (map episode_key items) \<and> length items = 201 \<and> m \<in> set items
     \<and> fst (UpsertTVDBEpisodeMaps None items []) = None
     \<and> episode_key m \<notin> episode_key ` set (snd (UpsertTVDBEpisodeMaps None items []))"
proof -
  let ?items = "map (\<lambda>s. sample_map ''9'' s 1 5 0) [0..200]" and ?m = "sample_map ''9'' 200 1 5 0"
  have "distinct (map episode_key ?items)"
    by (simp add: distinct_map inj_on_def episode_key_def sample_map_def)
  moreover have "length ?items = 201" by simp
  moreover have "?m \<in> set (drop 200 ?items)"
  proof -
    have "drop 200 ([0..200] :: int list) = [200]" by code_simp
    then show ?thesis by (simp add: drop_map)
  qed
  ultimately show ?thesis
    using UpsertTVDBEpisodeMaps_first_chunk [of ?items ?m] by (intro exI [of _ ?items] exI [of _ ?m]) (auto dest: in_set_dropD)
qed

end
