(* ===== verification/AniDB_Titles.thy ===== *)
theory AniDB_Titles
  imports AniDB_Maps
begin

text \<open>
  The titles of AniDB entries (\<open>internal/anidb/title.db.go\<close>): season and year of an entry, the table, and the
  search for an entry by title. The full text search itself belongs to the database: it is a function from the search
  text to the ids of the matching rows in the order of their rank.
\<close>

record AniDBTitle =
  at_TId :: string
  at_TType :: string
  at_TLang :: string
  at_Value :: string
  at_Season :: string
  at_Year :: string
  at_Type :: string

section \<open>Season and year of an entry\<close>

fun GetSeason :: "AniDBTitle list \<Rightarrow> string \<Rightarrow> int" where
  "GetSeason [] anidbId = - 1"
| "GetSeason (t # titles) anidbId =
     (if at_TId t = anidbId then
        case atoi (at_Season t) of Some s \<Rightarrow> s | None \<Rightarrow> GetSeason titles anidbId
      else GetSeason titles anidbId)"

fun GetYear :: "AniDBTitle list \<Rightarrow> string \<Rightarrow> int" where
  "GetYear [] anidbId = 0"
| "GetYear (t # titles) anidbId =
     (if at_TId t = anidbId then
        case atoi (at_Year t) of Some year \<Rightarrow> year | None \<Rightarrow> GetYear titles anidbId
      else GetYear titles anidbId)"

definition boundary_step :: "AniDBTitle \<Rightarrow> int \<times> int \<Rightarrow> int \<times> int" where
  "boundary_step t se =
     (case se of (start, end') \<Rightarrow>
        if at_Season t \<noteq> ''1'' then
          case atoi (at_Season t) of
            Some s \<Rightarrow> if end' < s then (start, s) else (start, end')
          | None \<Rightarrow> (start, end')
        else (start, end'))"

definition SeasonBoundary :: "AniDBTitle list \<Rightarrow> int \<times> int" where
  "SeasonBoundary titles = fold boundary_step titles (1, 1)"

section \<open>The table\<close>

definition title_key :: "AniDBTitle \<Rightarrow> string \<times> string \<times> string" where
  "title_key t = (at_TId t, at_TType t, at_TLang t)"

text \<open>\<open>INSERT ... ON CONFLICT\<close>: the type is not a column of the statement; an empty year keeps the stored one.\<close>

fun upsert_title :: "AniDBTitle \<Rightarrow> AniDBTitle list \<Rightarrow> AniDBTitle list" where
  "upsert_title t [] = [t\<lparr>at_Type := []\<rparr>]"
| "upsert_title t (r # rs) =
     (if title_key r = title_key t then
        r\<lparr>at_Value := at_Value t, at_Season := at_Season t,
          at_Year := (if at_Year t = [] then at_Year r else at_Year t)\<rparr> # rs
      else r # upsert_title t rs)"

definition UpsertTitles :: "string option \<Rightarrow> AniDBTitle list \<Rightarrow> AniDBTitle list \<Rightarrow> string option \<times> AniDBTitle list" where
  "UpsertTitles exec_err titles tbl =
     (if titles = [] then (None, tbl)
      else case exec_err of Some err \<Rightarrow> (Some err, tbl) | None \<Rightarrow> (None, fold upsert_title titles tbl))"

definition SetTitleType :: "string \<Rightarrow> string \<Rightarrow> AniDBTitle list \<Rightarrow> AniDBTitle list" where
  "SetTitleType anidbId ty tbl = map (\<lambda>r. if at_TId r = anidbId then r\<lparr>at_Type := ty\<rparr> else r) tbl"

definition SetTitleYear :: "string \<Rightarrow> int \<Rightarrow> AniDBTitle list \<Rightarrow> AniDBTitle list" where
  "SetTitleYear anidbId year tbl =
     map (\<lambda>r. if at_TId r = anidbId \<and> at_Year r = [] then r\<lparr>at_Year := itoa year\<rparr> else r) tbl"

definition GetTitlesByIds :: "string list \<Rightarrow> AniDBTitle list \<Rightarrow> AniDBTitle list" where
  "GetTitlesByIds anidbIds tbl = (if anidbIds = [] then [] else filter (\<lambda>r. at_TId r \<in> set anidbIds) tbl)"

definition GetAniDBTitles :: "AniDBTVDBEpisodeMap list \<Rightarrow> AniDBTitle list \<Rightarrow> AniDBTitle list" where
  "GetAniDBTitles ms tbl = GetTitlesByIds (map em_AniDBId ms) tbl"

section \<open>Search\<close>

definition search_limit :: "int list \<Rightarrow> int \<Rightarrow> int" where
  "search_limit seasons limit =
     (if limit = 0 then (if 0 < length seasons then int (length seasons) else 1) else limit)"

text \<open>
  The search of SQLite: \<open>fts_query lenient\<close> is the text of \<open>PrepareFTS5Query\<close>, \<open>rows\<close> answers a search
  with an ordered list of ids of at most the limit (\<open>Inl\<close> an error), a negative limit is none.
\<close>

definition sqlite_search ::
    "(bool \<Rightarrow> string) \<Rightarrow> (string \<Rightarrow> string + string list) \<Rightarrow> int list \<Rightarrow> int \<Rightarrow> bool \<Rightarrow> string + string list" where
  "sqlite_search fts_query rows seasons limit lenient =
     (let q = fts_query lenient; lim = search_limit seasons limit
      in if q = [] then Inr []
         else case rows q of
           Inl err \<Rightarrow> Inl err
         | Inr ids \<Rightarrow> Inr (if lim < 0 then ids else take (nat lim) ids))"

definition sqliteSearchIdsByTitle ::
    "(bool \<Rightarrow> string) \<Rightarrow> (string \<Rightarrow> string + string list) \<Rightarrow> int list \<Rightarrow> int \<Rightarrow> string + string list" where
  "sqliteSearchIdsByTitle fts_query rows seasons limit =
     (case sqlite_search fts_query rows seasons limit False of
        Inl err \<Rightarrow> Inl err
      | Inr ids \<Rightarrow> if ids = [] then sqlite_search fts_query rows seasons limit True else Inr ids)"

text \<open>The loop over the rows of Postgres: ids not seen before, until there are \<open>limit\<close> of them.\<close>

fun distinct_ids :: "int \<Rightarrow> string list \<Rightarrow> string list \<Rightarrow> string list" where
  "distinct_ids limit ids [] = ids"
| "distinct_ids limit ids (tid # rows) =
     (let ids' = (if tid \<in> set ids then ids else ids @ [tid])
      in if int (length ids') = limit then ids' else distinct_ids limit ids' rows)"

definition postgresSearchIdsByTitle ::
    "(string \<Rightarrow> string + string list) \<Rightarrow> string \<Rightarrow> int list \<Rightarrow> int \<Rightarrow> string + string list" where
  "postgresSearchIdsByTitle rows title seasons limit =
     (let fts_query = to_lower title
      in if fts_query = [] then Inr []
         else case rows fts_query of
           Inl err \<Rightarrow> Inl err
         | Inr tids \<Rightarrow> Inr (distinct_ids (search_limit seasons limit) [] (take 500 tids)))"

section \<open>What the operations do\<close>

lemma GetSeason_cases: "GetSeason titles k = - 1 \<or> (\<exists>t \<in> set titles. at_TId t = k \<and> atoi (at_Season t) = Some (GetSeason titles k))"
  by (induction titles k rule: GetSeason.induct) (auto split: option.split)

lemma GetYear_cases: "GetYear titles k = 0 \<or> (\<exists>t \<in> set titles. at_TId t = k \<and> atoi (at_Year t) = Some (GetYear titles k))"
  by (induction titles k rule: GetYear.induct) (auto split: option.split)

lemma boundary_step_mono:
  "boundary_step u (a, b) = (c, d) \<Longrightarrow> c = a \<and> b \<le> d \<and> (d = b \<or> atoi (at_Season u) = Some d)"
  by (auto simp: boundary_step_def split: if_splits option.splits)

lemma boundary_step_reaches:
  "boundary_step u (a, b) = (c, d) \<Longrightarrow> atoi (at_Season u) = Some r \<Longrightarrow> at_Season u \<noteq> ''1'' \<Longrightarrow> r \<le> d"
  by (auto simp: boundary_step_def split: if_splits)

lemma boundary_fold:
  "fold boundary_step titles (a, b) = (a', b') \<Longrightarrow>
    a' = a \<and> b \<le> b' \<and> (b' = b \<or> (\<exists>t \<in> set titles. atoi (at_Season t) = Some b'))
    \<and> (\<forall>t \<in> set titles. at_Season t \<noteq> ''1'' \<longrightarrow> (\<forall>s. atoi (at_Season t) = Some s \<longrightarrow> s \<le> b'))"
proof (induction titles arbitrary: a b)
  case (Cons u us)
  obtain c d where u: "boundary_step u (a, b) = (c, d)" by fastforce
  with Cons.prems have "fold boundary_step us (c, d) = (a', b')" by simp
  note IH = Cons.IH [OF this]
  show ?case using IH boundary_step_mono [OF u] boundary_step_reaches [OF u] by fastforce
qed simp

lemma distinct_ids_spec:
  "distinct ids \<Longrightarrow> int (length ids) < limit
    \<Longrightarrow> distinct_ids limit ids rows = take (nat limit) (ids @ filter (\<lambda>r. r \<notin> set ids) (rev (remdups (rev rows))))"
proof (induction limit ids rows rule: distinct_ids.induct)
  case (1 limit ids)
  then show ?case by simp
next
  case (2 limit ids tid rows)
  have rr: "rev (remdups (rev rows @ [tid])) = tid # filter (\<lambda>r. r \<noteq> tid) (rev (remdups (rev rows)))"
  proof -
    have "remdups (xs @ [x]) = filter (\<lambda>r. r \<noteq> x) (remdups xs) @ [x]" for xs :: "string list" and x
      by (induction xs) auto
    then show ?thesis by (simp add: rev_filter)
  qed
  show ?case
  proof (cases "tid \<in> set ids")
    case True
    have "(\<lambda>r. r \<notin> set ids \<and> r \<noteq> tid) = (\<lambda>r. r \<notin> set ids)" using True by auto
    with True 2 show ?thesis by (simp add: rr Let_def conj_commute)
  next
    case False
    show ?thesis
    proof (cases "int (length (ids @ [tid])) = limit")
      case True
      then have "nat limit = length (ids @ [tid])" by linarith
      with True False show ?thesis by (simp add: rr Let_def)
    next
      case less: False
      have "distinct_ids limit (ids @ [tid]) rows =
          take (nat limit) ((ids @ [tid]) @ filter (\<lambda>r. r \<notin> set (ids @ [tid])) (rev (remdups (rev rows))))"
        using 2(2,3) False less by (intro 2(1)) auto
      with False less show ?thesis by (simp add: rr Let_def conj_commute)
    qed
  qed
qed

text \<open>The Postgres search answers the best ranked distinct ids, at most as many as asked for.\<close>

lemma postgresSearchIdsByTitle_spec:
  assumes "rows (to_lower title) = Inr tids" and "title \<noteq> []" and "0 \<le> limit"
  shows "postgresSearchIdsByTitle rows title seasons limit
    = Inr (take (nat (search_limit seasons limit)) (rev (remdups (rev (take 500 tids)))))"
proof -
  have "0 < search_limit seasons limit" using assms(3) by (simp add: search_limit_def)
  with assms(1,2) distinct_ids_spec [of "[]" "search_limit seasons limit" "take 500 tids"] show ?thesis
    by (simp add: postgresSearchIdsByTitle_def to_lower_def)
qed

lemma upsert_title_keys: "title_key ` set (upsert_title t tbl) = insert (title_key t) (title_key ` set tbl)"
  by (induction tbl) (auto simp: title_key_def)

lemma upsert_title_distinct: "distinct (map title_key tbl) \<Longrightarrow> distinct (map title_key (upsert_title t tbl))"
proof (induction tbl)
  case (Cons r rs)
  then show ?case using upsert_title_keys [of t rs] by (auto simp: title_key_def)
qed (simp add: title_key_def)

text \<open>The key columns stay unique, and years once known are never emptied.\<close>

lemma UpsertTitles_distinct:
  "distinct (map title_key tbl) \<Longrightarrow> distinct (map title_key (snd (UpsertTitles e titles tbl)))"
proof -
  have "distinct (map title_key tbl) \<Longrightarrow> distinct (map title_key (fold upsert_title titles tbl))"
    by (induction titles arbitrary: tbl) (auto intro: upsert_title_distinct)
  then show "distinct (map title_key tbl) \<Longrightarrow> ?thesis" by (auto simp: UpsertTitles_def split: option.split)
qed

lemma upsert_title_year:
  "r \<in> set tbl \<Longrightarrow> at_Year r \<noteq> [] \<Longrightarrow> \<exists>r' \<in> set (upsert_title t tbl). title_key r' = title_key r \<and> at_Year r' \<noteq> []"
  by (induction tbl) (auto simp: title_key_def)

lemma UpsertTitles_keeps_years:
  assumes "r \<in> set tbl" and "at_Year r \<noteq> []"
  shows "\<exists>r' \<in> set (snd (UpsertTitles e titles tbl)). title_key r' = title_key r \<and> at_Year r' \<noteq> []"
proof -
  have "\<exists>r' \<in> set (fold upsert_title titles tbl). title_key r' = title_key r \<and> at_Year r' \<noteq> []"
    using assms
  proof (induction titles arbitrary: tbl r)
    case (Cons t ts)
    obtain r' where "r' \<in> set (upsert_title t tbl)" "title_key r' = title_key r" "at_Year r' \<noteq> []"
      using upsert_title_year [OF Cons.prems] by blast
    with Cons.IH [OF this(1,3)] show ?case by auto
  qed auto
  with assms show ?thesis by (auto simp: UpsertTitles_def split: option.split)
qed

end
