(* ===== verification/Anime_Lists.thy ===== *)
theory Anime_Lists
  imports AniDB_Titles
begin

text \<open>
  The anime lists (\<open>internal/animelists/dataset.go\<close>): overriding the entries of the list, comparing them, and the
  episode maps that are prepared from the entries of one TVDB series.

  A pointer into the slice of maps is the index of the element, which is written back at once. Lines of log are left out.
\<close>

record AnimeListItemMapping =
  lm_AniDBSeason :: string
  lm_TVDBSeason :: string
  lm_Start :: string
  lm_End :: string
  lm_Offset :: string
  lm_Value :: string

record AnimeListItem =
  li_AniDBId :: string
  li_TVDBId :: string
  li_DefaultTVDBSeason :: string
  li_EpisodeOffset :: string
  li_IMDBId :: string
  li_TMDBId :: string
  li_Name :: string
  li_Before :: string
  li_Mappings :: "AnimeListItemMapping list"

section \<open>Overrides\<close>

fun override_mapping :: "AnimeListItemMapping list \<Rightarrow> AnimeListItemMapping \<Rightarrow> AnimeListItemMapping list" where
  "override_mapping [] om = [om]"
| "override_mapping (am # ams) om =
     (if lm_AniDBSeason am = lm_AniDBSeason om \<and> lm_TVDBSeason am = lm_TVDBSeason om then
        (if lm_Value am \<noteq> [] \<and> lm_Value om = [] then om\<lparr>lm_Value := lm_Value am\<rparr> else om) # ams
      else am # override_mapping ams om)"

definition mapping_cmp :: "AnimeListItemMapping \<Rightarrow> AnimeListItemMapping \<Rightarrow> int" where
  "mapping_cmp x y = wrap64 (SafeParseInt (lm_TVDBSeason x) (- 1) - SafeParseInt (lm_TVDBSeason y) (- 1))"

definition override_text :: "string \<Rightarrow> string \<Rightarrow> string" where
  "override_text a o' = (if o' \<noteq> [] \<and> a \<noteq> o' then o' else a)"

definition mergeOverride :: "AnimeListItem \<Rightarrow> AnimeListItem \<Rightarrow> AnimeListItem" where
  "mergeOverride a o' =
     a\<lparr>li_TVDBId := override_text (li_TVDBId a) (li_TVDBId o'),
       li_DefaultTVDBSeason := override_text (li_DefaultTVDBSeason a) (li_DefaultTVDBSeason o'),
       li_EpisodeOffset := override_text (li_EpisodeOffset a) (li_EpisodeOffset o'),
       li_IMDBId := override_text (li_IMDBId a) (li_IMDBId o'),
       li_TMDBId := override_text (li_TMDBId a) (li_TMDBId o'),
       li_Name := override_text (li_Name a) (li_Name o'),
       li_Before := override_text (li_Before a) (li_Before o'),
       li_Mappings :=
         (if li_Mappings o' = [] then li_Mappings a
          else go_stable_sort (cmp_less mapping_cmp)
            (if li_Mappings a = [] then li_Mappings o'
             else foldl override_mapping (li_Mappings a) (li_Mappings o')))\<rparr>"

definition mapping_equal :: "AnimeListItemMapping \<Rightarrow> AnimeListItemMapping \<Rightarrow> bool" where
  "mapping_equal am bm \<longleftrightarrow> \<not> (lm_AniDBSeason am \<noteq> lm_AniDBSeason bm \<or> lm_TVDBSeason am \<noteq> lm_TVDBSeason bm
     \<or> lm_Start am \<noteq> lm_Start bm \<or> lm_End am \<noteq> lm_End bm \<or> lm_Offset am \<noteq> lm_Offset bm \<or> lm_Value am \<noteq> lm_Value bm)"

definition item_Equal :: "AnimeListItem \<Rightarrow> AnimeListItem \<Rightarrow> bool" where
  "item_Equal a b =
     (if li_AniDBId a \<noteq> li_AniDBId b \<or> li_TVDBId a \<noteq> li_TVDBId b \<or> li_DefaultTVDBSeason a \<noteq> li_DefaultTVDBSeason b
         \<or> li_EpisodeOffset a \<noteq> li_EpisodeOffset b \<or> li_IMDBId a \<noteq> li_IMDBId b \<or> li_TMDBId a \<noteq> li_TMDBId b
         \<or> li_Name a \<noteq> li_Name b \<or> li_Before a \<noteq> li_Before b then False
      else if length (li_Mappings a) \<noteq> length (li_Mappings b) then False
      else list_all2 mapping_equal (li_Mappings a) (li_Mappings b))"

section \<open>Preparing the episode maps\<close>

record prep =
  pr_maps :: "AniDBTVDBEpisodeMap list"
  pr_last :: "(string \<times> int) list"
  pr_part :: "(string \<times> nat) list"

definition at_index :: "nat \<Rightarrow> ('a \<Rightarrow> 'a) \<Rightarrow> 'a list \<Rightarrow> 'a list" where
  "at_index i f xs = (if i < length xs then xs[i := f (xs ! i)] else xs)"

definition absoluteKey :: string where
  "absoluteKey = ''1:-1''"

definition blank_map :: "AnimeListItem \<Rightarrow> AniDBTVDBEpisodeMap" where
  "blank_map item =
     \<lparr>em_AniDBId = li_AniDBId item, em_TVDBId = li_TVDBId item, em_AniDBSeason = 0, em_TVDBSeason = 0,
      em_Start = 0, em_End = 0, em_Offset = 0, em_Before = [], em_Map = []\<rparr>"

text \<open>The parts of a season: a further part ends the part before it.\<close>

definition close_part :: "int \<Rightarrow> AniDBTVDBEpisodeMap \<Rightarrow> AniDBTVDBEpisodeMap" where
  "close_part offset lastMap =
     (let m = (if em_Start lastMap = 0 then lastMap\<lparr>em_Start := 1\<rparr> else lastMap)
      in if em_End m = 0 then m\<lparr>em_End := offset - em_Offset m\<rparr> else m)"

definition add_part :: "string \<Rightarrow> int \<Rightarrow> prep \<Rightarrow> prep" where
  "add_part season offset st =
     (let idx = length (pr_maps st) - 1;
          anidbPart = (case map_of (pr_last st) season of Some lastPart \<Rightarrow> lastPart + 1 | None \<Rightarrow> 1);
          st1 = st\<lparr>pr_last := AList.update season anidbPart (pr_last st),
                   pr_part := AList.update (season @ '':'' @ itoa anidbPart) idx (pr_part st)\<rparr>
      in if 1 < anidbPart then
           let maps1 = at_index idx (\<lambda>m. m\<lparr>em_Start := 1\<rparr>) (pr_maps st1);
               lastPartKey = season @ '':'' @ itoa (anidbPart - 1)
           in case map_of (pr_part st1) lastPartKey of
                Some lastPartIdx \<Rightarrow> st1\<lparr>pr_maps := at_index lastPartIdx (close_part offset) maps1\<rparr>
              | None \<Rightarrow> st1\<lparr>pr_maps := maps1\<rparr>
         else st1)"

text \<open>The map of the default season; \<open>None\<close> when the season is not a number.\<close>

definition default_map :: "AnimeListItem \<Rightarrow> int \<Rightarrow> prep \<Rightarrow> (prep \<times> (string \<times> nat) list) option" where
  "default_map item episodeOffset st =
     (if li_DefaultTVDBSeason item = ''a'' then
        Some (st\<lparr>pr_maps := pr_maps st @ [(blank_map item)\<lparr>em_AniDBSeason := 1, em_TVDBSeason := - 1,
                 em_Offset := episodeOffset, em_Start := 1\<rparr>]\<rparr>,
              [(absoluteKey, length (pr_maps st))])
      else case atoi (li_DefaultTVDBSeason item) of
        None \<Rightarrow> None
      | Some defaultTVDBSeason \<Rightarrow>
          let st1 = st\<lparr>pr_maps := pr_maps st @ [(blank_map item)\<lparr>em_AniDBSeason := 1,
                      em_TVDBSeason := defaultTVDBSeason, em_Offset := episodeOffset\<rparr>]\<rparr>;
              seen = [(''1:'' @ li_DefaultTVDBSeason item, length (pr_maps st))]
          in Some (if li_DefaultTVDBSeason item = ''0'' then st1
                   else add_part (li_DefaultTVDBSeason item) episodeOffset st1, seen))"

text \<open>What a mapping writes into a map before the first number that does not parse, and whether all of them did.\<close>

definition apply_number :: "string \<Rightarrow> (int \<Rightarrow> 'm \<Rightarrow> 'm) \<Rightarrow> 'm \<times> bool \<Rightarrow> 'm \<times> bool" where
  "apply_number s upd mo =
     (case mo of (m, ok) \<Rightarrow>
        if \<not> ok \<or> s = [] then (m, ok)
        else case atoi s of None \<Rightarrow> (m, False) | Some n \<Rightarrow> (upd n m, True))"

definition apply_value :: "string \<Rightarrow> AniDBTVDBEpisodeMap \<times> bool \<Rightarrow> AniDBTVDBEpisodeMap \<times> bool" where
  "apply_value s mo =
     (case mo of (m, ok) \<Rightarrow>
        if \<not> ok \<or> s = [] then (m, ok)
        else case Map_Scan (VString s) [] of
          Inl err \<Rightarrow> (m\<lparr>em_Map := []\<rparr>, False)
        | Inr v \<Rightarrow> (m\<lparr>em_Map := v\<rparr>, True))"

definition apply_mapping :: "AnimeListItemMapping \<Rightarrow> AniDBTVDBEpisodeMap \<Rightarrow> AniDBTVDBEpisodeMap \<times> bool" where
  "apply_mapping lm m =
     (let m1 = (if lm_AniDBSeason lm = ''0'' then m\<lparr>em_AniDBSeason := 0\<rparr>
                else if lm_AniDBSeason lm = ''1'' then m\<lparr>em_AniDBSeason := 1\<rparr> else m)
      in case atoi (lm_TVDBSeason lm) of
           None \<Rightarrow> (m1, False)
         | Some tvdbSeason \<Rightarrow>
             apply_value (lm_Value lm)
               (apply_number (lm_Offset lm) (\<lambda>n m. m\<lparr>em_Offset := n\<rparr>)
                 (apply_number (lm_End lm) (\<lambda>n m. m\<lparr>em_End := n\<rparr>)
                   (apply_number (lm_Start lm) (\<lambda>n m. m\<lparr>em_Start := n\<rparr>)
                     (m1\<lparr>em_TVDBSeason := tvdbSeason\<rparr>, True)))))"

text \<open>The first season, given by where the second one starts.\<close>

definition fill_season_one :: "AniDBTVDBEpisodeMap \<Rightarrow> AniDBTVDBEpisodeMap \<Rightarrow> AniDBTVDBEpisodeMap" where
  "fill_season_one m one =
     (if em_Start one = 0 \<and> em_End one = 0 then
        (if em_Offset one = 0 then one\<lparr>em_Offset := em_Start m - 1 + em_Offset m\<rparr> else one)
          \<lparr>em_Start := 1, em_End := em_Start m - 1\<rparr>
      else one)"

definition season_one ::
    "AnimeListItem \<Rightarrow> AnimeListItemMapping \<Rightarrow> AniDBTVDBEpisodeMap
     \<Rightarrow> AniDBTVDBEpisodeMap list \<times> (string \<times> nat) list \<Rightarrow> AniDBTVDBEpisodeMap list \<times> (string \<times> nat) list" where
  "season_one item lm m st =
     (case st of (maps, seen) \<Rightarrow>
        if em_TVDBSeason m = 2 \<and> lm_AniDBSeason lm = ''1'' then
          case map_of seen (lm_AniDBSeason lm @ '':1'') of
            Some idx \<Rightarrow> (at_index idx (fill_season_one m) maps, seen)
          | None \<Rightarrow>
              (maps @ [(blank_map item)\<lparr>em_AniDBSeason := em_AniDBSeason m, em_TVDBSeason := 1,
                 em_Offset := em_Start m - 1 + em_Offset m, em_Start := 1, em_End := em_Start m - 1\<rparr>],
               AList.update (lm_AniDBSeason lm @ '':1'') (length maps) seen)
        else (maps, seen))"

definition raise_absolute ::
    "AniDBTVDBEpisodeMap \<Rightarrow> AniDBTVDBEpisodeMap list \<times> (string \<times> nat) list \<Rightarrow> AniDBTVDBEpisodeMap list \<times> (string \<times> nat) list" where
  "raise_absolute m st =
     (case st of (maps, seen) \<Rightarrow>
        case map_of seen absoluteKey of
          None \<Rightarrow> (maps, seen)
        | Some absMapIdx \<Rightarrow>
            (at_index absMapIdx (\<lambda>absMap. if em_End m = 0 \<or> em_End absMap < em_End m then absMap\<lparr>em_End := em_End m\<rparr> else absMap) maps,
             seen))"

definition mapping_step ::
    "AnimeListItem \<Rightarrow> AnimeListItemMapping
     \<Rightarrow> AniDBTVDBEpisodeMap list \<times> (string \<times> nat) list \<Rightarrow> AniDBTVDBEpisodeMap list \<times> (string \<times> nat) list" where
  "mapping_step item lm st =
     (case st of (maps, seen) \<Rightarrow>
        let key = lm_AniDBSeason lm @ '':'' @ lm_TVDBSeason lm
        in case map_of seen key of
          Some idx \<Rightarrow>
            (case apply_mapping lm (maps ! idx) of (m, ok) \<Rightarrow>
               let maps1 = at_index idx (\<lambda>_. m) maps
               in if \<not> ok then (maps1, seen) else raise_absolute m (maps1, seen))
        | None \<Rightarrow>
            (case apply_mapping lm (blank_map item) of (m, ok) \<Rightarrow>
               if \<not> ok then (maps, seen)
               else case season_one item lm m (maps, seen) of (maps1, seen1) \<Rightarrow>
                 raise_absolute m (maps1 @ [m], AList.update key (length maps1) seen1)))"

definition item_step :: "AnimeListItem \<Rightarrow> prep \<Rightarrow> prep" where
  "item_step item st =
     (case (if li_EpisodeOffset item = [] then Some 0 else atoi (li_EpisodeOffset item)) of
        None \<Rightarrow> st
      | Some episodeOffset \<Rightarrow>
          (case default_map item episodeOffset st of
             None \<Rightarrow> st
           | Some (st1, seen) \<Rightarrow>
               let key = (if li_DefaultTVDBSeason item = ''a'' then absoluteKey else ''1:'' @ li_DefaultTVDBSeason item);
                   idx = (case map_of seen key of Some i \<Rightarrow> i | None \<Rightarrow> 0)
               in case (if li_Before item = [] then Inr (pr_maps st1)
                        else map_sum id (\<lambda>b. at_index idx (\<lambda>m. m\<lparr>em_Before := b\<rparr>) (pr_maps st1))
                          (Before_Scan (VString (li_Before item)) [])) of
                    Inl err \<Rightarrow> st1
                  | Inr maps \<Rightarrow>
                      st1\<lparr>pr_maps := fst (fold (mapping_step item) (li_Mappings item) (maps, seen))\<rparr>))"

definition PrepareAniDBTVDBEpisodeMaps :: "AnimeListItem list \<Rightarrow> maps_result" where
  "PrepareAniDBTVDBEpisodeMaps items =
     \<lparr>mr_Maps = pr_maps (fold item_step items \<lparr>pr_maps = [], pr_last = [], pr_part = []\<rparr>),
      mr_grouped = None, mr_idx = None\<rparr>"

section \<open>The batches of the dataset\<close>

definition all_digits :: "string \<Rightarrow> bool" where
  "all_digits s \<longleftrightarrow> s \<noteq> [] \<and> list_all is_digit s"

record list_sync =
  ls_byTVDBId :: "(string \<times> AnimeListItem list) list"
  ls_titles :: "AniDBTitle list"

text \<open>
  \<open>Upsert\<close> of the dataset writer: entries of a TVDB series are collected, the type of movies is set. An override is
  applied after the series id was checked; the entry is then filed under the id it has.
\<close>

definition list_upsert :: "(string \<times> AnimeListItem) list \<Rightarrow> AnimeListItem \<Rightarrow> list_sync \<Rightarrow> list_sync" where
  "list_upsert overrides item st =
     (if \<not> all_digits (li_TVDBId item) then
        (if to_lower (li_TVDBId item) = ''movie''
         then st\<lparr>ls_titles := SetTitleType (li_AniDBId item) ''MOVIE'' (ls_titles st)\<rparr> else st)
      else
        let item' = (case map_of overrides (li_AniDBId item) of Some ov \<Rightarrow> mergeOverride item ov | None \<Rightarrow> item)
        in st\<lparr>ls_byTVDBId := AList.update (li_TVDBId item')
             ((case map_of (ls_byTVDBId st) (li_TVDBId item') of None \<Rightarrow> [] | Some is \<Rightarrow> is) @ [item']) (ls_byTVDBId st)\<rparr>)"

text \<open>\<open>SyncDataset\<close> after the dataset was read: every series in the order in which the map is visited.\<close>

fun store_maps :: "(string \<times> AnimeListItem list) list \<Rightarrow> string option list \<Rightarrow> map_row list \<Rightarrow> string option \<times> map_row list" where
  "store_maps [] errs t = (None, t)"
| "store_maps ((tvdbId, items) # rest) errs t =
     (case UpsertTVDBEpisodeMaps (case errs of [] \<Rightarrow> None | e # _ \<Rightarrow> e) (mr_Maps (PrepareAniDBTVDBEpisodeMaps items)) t of
        (Some err, t') \<Rightarrow> (Some err, t')
      | (None, t') \<Rightarrow> store_maps rest (tl errs) t')"

section \<open>Comparing and overriding\<close>

lemma mapping_equal_eq: "mapping_equal a b \<longleftrightarrow> a = b"
  unfolding mapping_equal_def by (cases a; cases b) auto

lemma item_Equal_eq: "item_Equal a b \<longleftrightarrow> a = b"
proof -
  have "list_all2 mapping_equal xs ys \<longleftrightarrow> xs = ys" for xs ys
    by (simp add: mapping_equal_eq [abs_def] list.rel_eq)
  then show ?thesis unfolding item_Equal_def by (cases a; cases b) auto
qed

definition mapping_key :: "AnimeListItemMapping \<Rightarrow> string \<times> string" where
  "mapping_key m = (lm_AniDBSeason m, lm_TVDBSeason m)"

lemma override_mapping_keys:
  "mapping_key ` set (override_mapping ms om) = insert (mapping_key om) (mapping_key ` set ms)"
  by (induction ms om rule: override_mapping.induct) (auto simp: mapping_key_def)

lemma override_mappings_keys:
  "mapping_key ` set (foldl override_mapping ms os) = mapping_key ` set ms \<union> mapping_key ` set os"
  by (induction os arbitrary: ms) (auto simp: override_mapping_keys)

lemma override_mapping_distinct: "distinct (map mapping_key ms) \<Longrightarrow> distinct (map mapping_key (override_mapping ms om))"
proof (induction ms om rule: override_mapping.induct)
  case (2 am ams om)
  then show ?case using override_mapping_keys [of ams om] by (auto simp: mapping_key_def)
qed (simp add: mapping_key_def)

lemma override_mappings_distinct: "distinct (map mapping_key ms) \<Longrightarrow> distinct (map mapping_key (foldl override_mapping ms os))"
  by (induction os arbitrary: ms) (auto intro: override_mapping_distinct)

text \<open>An overridden entry has the mappings of both, one for each pair of seasons.\<close>

lemma mergeOverride_mappings:
  assumes "distinct (map mapping_key (li_Mappings a))" and "distinct (map mapping_key (li_Mappings b))"
  shows "distinct (map mapping_key (li_Mappings (mergeOverride a b)))"
    and "mapping_key ` set (li_Mappings (mergeOverride a b)) = mapping_key ` set (li_Mappings a) \<union> mapping_key ` set (li_Mappings b)"
proof -
  have perm: "mset (map mapping_key (go_stable_sort lt ms)) = mset (map mapping_key ms)" for lt ms
    by simp
  have dist: "distinct (map mapping_key (go_stable_sort lt ms)) \<longleftrightarrow> distinct (map mapping_key ms)" for lt ms
    using perm by (metis mset_eq_imp_distinct_iff)
  show "distinct (map mapping_key (li_Mappings (mergeOverride a b)))"
    using assms override_mappings_distinct by (simp add: mergeOverride_def dist)
  show "mapping_key ` set (li_Mappings (mergeOverride a b)) = mapping_key ` set (li_Mappings a) \<union> mapping_key ` set (li_Mappings b)"
    by (simp add: mergeOverride_def override_mappings_keys)
qed

section \<open>One map for each pair of seasons\<close>

definition season_text :: "int \<times> int \<Rightarrow> string" where
  "season_text p = itoa (fst p) @ '':'' @ itoa (snd p)"

definition canonical_mapping :: "AnimeListItemMapping \<Rightarrow> bool" where
  "canonical_mapping lm \<longleftrightarrow> (lm_AniDBSeason lm = ''0'' \<or> lm_AniDBSeason lm = ''1'') \<and> (\<exists>s. int64 s \<and> lm_TVDBSeason lm = itoa s)"

definition canonical_item :: "AnimeListItem \<Rightarrow> bool" where
  "canonical_item item \<longleftrightarrow>
     (li_DefaultTVDBSeason item = ''a'' \<or> (\<exists>s. int64 s \<and> li_DefaultTVDBSeason item = itoa s))
     \<and> (\<forall>lm \<in> set (li_Mappings item). canonical_mapping lm)"

definition seasons_inv ::
    "AnimeListItem \<Rightarrow> (string \<times> string \<times> int \<times> int) list \<Rightarrow> AniDBTVDBEpisodeMap list \<times> (string \<times> nat) list \<Rightarrow> bool" where
  "seasons_inv item ks0 st \<longleftrightarrow>
     (\<exists>ps. map episode_key (fst st) = ks0 @ map (\<lambda>(a, s). (li_AniDBId item, li_TVDBId item, a, s)) ps
        \<and> (\<forall>j < length ps. map_of (snd st) (season_text (ps ! j)) = Some (length ks0 + j))
        \<and> (\<forall>k i. map_of (snd st) k = Some i \<longrightarrow> (\<exists>j < length ps. i = length ks0 + j \<and> k = season_text (ps ! j))))"

lemma itoa_small [simp]: "itoa 0 = ''0''" "itoa 1 = ''1''" "itoa (- 1) = ''-1''"
  by code_simp+

lemma season_text_inj: "season_text p = season_text q \<Longrightarrow> p = q"
proof -
  assume "season_text p = season_text q"
  then have "cut (season_text p) CHR '':'' = cut (season_text q) CHR '':''" by simp
  then have "itoa (fst p) = itoa (fst q)" "itoa (snd p) = itoa (snd q)"
    using itoa_no_colon by (simp_all add: season_text_def)
  then show "p = q" by (simp add: itoa_inj prod_eq_iff)
qed

lemma at_index_keys: "(\<And>m. episode_key (f m) = episode_key m) \<Longrightarrow> map episode_key (at_index i f ms) = map episode_key ms"
  unfolding at_index_def by (auto simp: map_update intro: list_update_same_conv [THEN iffD2])

lemma seasons_inv_keys: "map episode_key ms = map episode_key ms' \<Longrightarrow> seasons_inv item ks0 (ms, seen) \<longleftrightarrow> seasons_inv item ks0 (ms', seen)"
  by (simp add: seasons_inv_def)

lemma seasons_inv_distinct: "seasons_inv item ks0 (ms, seen) \<Longrightarrow> distinct ks0 \<Longrightarrow> li_AniDBId item \<notin> fst ` set ks0
    \<Longrightarrow> distinct (map episode_key ms) \<and> fst ` set (map episode_key ms) \<subseteq> insert (li_AniDBId item) (fst ` set ks0)"
proof -
  assume inv: "seasons_inv item ks0 (ms, seen)" and ks0: "distinct ks0" "li_AniDBId item \<notin> fst ` set ks0"
  obtain ps where ms: "map episode_key ms = ks0 @ map (\<lambda>(a, s). (li_AniDBId item, li_TVDBId item, a, s)) ps"
    and ps: "\<And>j. j < length ps \<Longrightarrow> map_of seen (season_text (ps ! j)) = Some (length ks0 + j)"
    using inv by (auto simp: seasons_inv_def)
  have "distinct ps" unfolding distinct_conv_nth using ps by (metis add_left_cancel option.inject)
  then have "distinct (map (\<lambda>(a, s). (li_AniDBId item, li_TVDBId item, a, s)) ps)"
    by (auto simp: distinct_map inj_on_def)
  then show ?thesis using ks0 ms by (auto simp: image_def)
qed

lemma seasons_inv_add:
  assumes "seasons_inv item ks0 (ms, seen)" and "episode_key m = (li_AniDBId item, li_TVDBId item, fst p, snd p)"
    and "map_of seen (season_text p) = None" and "k = season_text p"
  shows "seasons_inv item ks0 (ms @ [m], AList.update k (length ms) seen)"
proof -
  obtain ps where ms: "map episode_key ms = ks0 @ map (\<lambda>(a, s). (li_AniDBId item, li_TVDBId item, a, s)) ps"
    and ps: "\<And>j. j < length ps \<Longrightarrow> map_of seen (season_text (ps ! j)) = Some (length ks0 + j)"
    and keys: "\<And>k i. map_of seen k = Some i \<Longrightarrow> \<exists>j < length ps. i = length ks0 + j \<and> k = season_text (ps ! j)"
    using assms(1) by (auto simp: seasons_inv_def)
  have len: "length ms = length ks0 + length ps" using ms by (metis length_append length_map)
  have "map episode_key (ms @ [m]) = ks0 @ map (\<lambda>(a, s). (li_AniDBId item, li_TVDBId item, a, s)) (ps @ [p])"
    using ms assms(2) by (simp add: case_prod_beta)
  moreover have "map_of (AList.update k (length ms) seen) (season_text ((ps @ [p]) ! j)) = Some (length ks0 + j)"
    if "j < length (ps @ [p])" for j
  proof (cases "j < length ps")
    case True
    with ps [OF True] assms(3,4) show ?thesis by (auto simp: nth_append update_conv')
  next
    case False
    with that len assms(4) show ?thesis by (simp add: nth_append update_conv' less_Suc_eq)
  qed
  moreover have "\<exists>j < length (ps @ [p]). i = length ks0 + j \<and> k' = season_text ((ps @ [p]) ! j)"
    if "map_of (AList.update k (length ms) seen) k' = Some i" for k' i
  proof (cases "k' = k")
    case True
    with that len assms(4) show ?thesis by (intro exI [of _ "length ps"]) (auto simp: update_conv')
  next
    case False
    with that have "map_of seen k' = Some i" by (simp add: update_conv')
    from keys [OF this] obtain j where "j < length ps" "i = length ks0 + j" "k' = season_text (ps ! j)" by blast
    then show ?thesis by (intro exI [of _ j]) (simp add: nth_append)
  qed
  ultimately show ?thesis unfolding seasons_inv_def by (intro exI [of _ "ps @ [p]"]) auto
qed

lemma apply_number_facts:
  assumes "apply_number s upd (m, ok) = (m', ok')" and "\<And>n m. episode_key (upd n m) = episode_key m"
  shows "episode_key m' = episode_key m"
  using assms by (auto simp: apply_number_def split: if_splits option.splits)

lemma apply_value_key: "apply_value s (m, ok) = (m', ok') \<Longrightarrow> episode_key m' = episode_key m"
  by (auto simp: apply_value_def episode_key_def split: if_splits sum.splits)

lemma apply_mapping_key:
  assumes "canonical_mapping lm" and "apply_mapping lm m = (m', ok)"
  obtains a s where "episode_key m' = (em_AniDBId m, em_TVDBId m, a, s)" and "season_text (a, s) = lm_AniDBSeason lm @ '':'' @ lm_TVDBSeason lm"
    and "itoa a = lm_AniDBSeason lm"
proof -
  obtain s where s: "int64 s" "lm_TVDBSeason lm = itoa s" using assms(1) by (auto simp: canonical_mapping_def)
  define a :: int where "a = (if lm_AniDBSeason lm = ''0'' then 0 else 1)"
  have a: "itoa a = lm_AniDBSeason lm" "a = 0 \<or> a = 1" using assms(1) by (auto simp: a_def canonical_mapping_def)
  let ?m0 = "m\<lparr>em_AniDBSeason := a, em_TVDBSeason := s\<rparr>"
  obtain m1 ok1 where 1: "apply_number (lm_Start lm) (\<lambda>n m. m\<lparr>em_Start := n\<rparr>) (?m0, True) = (m1, ok1)" by fastforce
  obtain m2 ok2 where 2: "apply_number (lm_End lm) (\<lambda>n m. m\<lparr>em_End := n\<rparr>) (m1, ok1) = (m2, ok2)" by fastforce
  obtain m3 ok3 where 3: "apply_number (lm_Offset lm) (\<lambda>n m. m\<lparr>em_Offset := n\<rparr>) (m2, ok2) = (m3, ok3)" by fastforce
  have "apply_value (lm_Value lm) (m3, ok3) = (m', ok)"
    using assms s 1 2 3 by (auto simp: apply_mapping_def canonical_mapping_def a_def)
  then have "episode_key m' = episode_key m3" by (rule apply_value_key)
  also have "\<dots> = episode_key m2" using 3 by (rule apply_number_facts) (simp add: episode_key_def)
  also have "\<dots> = episode_key m1" using 2 by (rule apply_number_facts) (simp add: episode_key_def)
  also have "\<dots> = episode_key ?m0" using 1 by (rule apply_number_facts) (simp add: episode_key_def)
  finally have "episode_key m' = (em_AniDBId m, em_TVDBId m, a, s)" by (simp add: episode_key_def)
  then show ?thesis using that [of a s] a s by (simp add: season_text_def)
qed

lemma blank_map_simps [simp]: "em_AniDBId (blank_map item) = li_AniDBId item" "em_TVDBId (blank_map item) = li_TVDBId item"
  by (simp_all add: blank_map_def)

lemma seasons_inv_at_index:
  assumes "seasons_inv item ks0 (ms, seen)" and "\<And>m. episode_key (f m) = episode_key m"
  shows "seasons_inv item ks0 (at_index i f ms, seen)"
  using assms seasons_inv_keys [OF at_index_keys [of f i ms]] by simp

lemma seasons_inv_raise: "seasons_inv item ks0 (ms, seen) \<Longrightarrow> seasons_inv item ks0 (raise_absolute m (ms, seen))"
  unfolding raise_absolute_def
  by (cases "map_of seen absoluteKey") (auto intro: seasons_inv_at_index simp: episode_key_def)

lemma seasons_inv_lookup:
  assumes "seasons_inv item ks0 (ms, seen)" and "map_of seen (season_text p) = Some i"
  shows "i < length ms" and "episode_key (ms ! i) = (li_AniDBId item, li_TVDBId item, fst p, snd p)"
proof -
  obtain ps where ms: "map episode_key ms = ks0 @ map (\<lambda>(a, s). (li_AniDBId item, li_TVDBId item, a, s)) ps"
    and "\<exists>j < length ps. i = length ks0 + j \<and> season_text p = season_text (ps ! j)"
    using assms unfolding seasons_inv_def by fastforce
  then obtain j where j: "j < length ps" "i = length ks0 + j" "p = ps ! j" using season_text_inj by blast
  have len: "length ms = length ks0 + length ps" using ms by (metis length_append length_map)
  show "i < length ms" using j len by simp
  then have "episode_key (ms ! i) = map episode_key ms ! i" by simp
  also have "\<dots> = (li_AniDBId item, li_TVDBId item, fst p, snd p)" using j ms by (simp add: nth_append case_prod_beta)
  finally show "episode_key (ms ! i) = (li_AniDBId item, li_TVDBId item, fst p, snd p)" .
qed

lemma fill_season_one_key [simp]: "episode_key (fill_season_one m one) = episode_key one"
  by (simp add: fill_season_one_def episode_key_def)

lemma seasons_inv_season_one:
  assumes "seasons_inv item ks0 (ms, seen)" and "season_one item lm m (ms, seen) = (ms', seen')"
    and "em_AniDBSeason m = 1 \<or> lm_AniDBSeason lm \<noteq> ''1''"
  shows "seasons_inv item ks0 (ms', seen') \<and> (\<forall>k. k \<noteq> ''1:1'' \<longrightarrow> map_of seen' k = map_of seen k)
    \<and> (map_of seen' ''1:1'' = map_of seen ''1:1'' \<or> em_TVDBSeason m = 2 \<and> lm_AniDBSeason lm = ''1'')"
proof (cases "em_TVDBSeason m = 2 \<and> lm_AniDBSeason lm = ''1''")
  case True
  show ?thesis
  proof (cases "map_of seen (lm_AniDBSeason lm @ '':1'')")
    case None
    have "season_text (1, 1) = ''1:1''" by (simp add: season_text_def)
    with None True assms show ?thesis
      by (auto simp: season_one_def episode_key_def update_conv' intro!: seasons_inv_add [where p = "(1, 1)"])
  next
    case (Some i)
    with True assms show ?thesis by (auto simp: season_one_def intro: seasons_inv_at_index)
  qed
next
  case False
  with assms show ?thesis by (auto simp: season_one_def split: if_splits)
qed

lemma seasons_inv_mapping_step:
  assumes inv: "seasons_inv item ks0 (ms, seen)" and lm: "canonical_mapping lm"
  shows "seasons_inv item ks0 (mapping_step item lm (ms, seen))"
proof (cases "map_of seen (lm_AniDBSeason lm @ '':'' @ lm_TVDBSeason lm)")
  case (Some i)
  obtain m ok where app: "apply_mapping lm (ms ! i) = (m, ok)" by fastforce
  obtain a s where key: "episode_key m = (em_AniDBId (ms ! i), em_TVDBId (ms ! i), a, s)"
    and stext: "season_text (a, s) = lm_AniDBSeason lm @ '':'' @ lm_TVDBSeason lm"
    by (rule apply_mapping_key [OF lm app])
  have "map_of seen (season_text (a, s)) = Some i" using Some stext by simp
  from seasons_inv_lookup [OF inv this] key have "i < length ms" "episode_key m = episode_key (ms ! i)"
    by (simp_all add: episode_key_def)
  then have "map episode_key (at_index i (\<lambda>_. m) ms) = map episode_key ms"
    by (auto simp: at_index_def map_update intro: list_update_same_conv [THEN iffD2])
  then have "seasons_inv item ks0 (at_index i (\<lambda>_. m) ms, seen)" using inv seasons_inv_keys by blast
  then show ?thesis using Some app by (auto simp: mapping_step_def Let_def intro: seasons_inv_raise)
next
  case None
  obtain m ok where app: "apply_mapping lm (blank_map item) = (m, ok)" by fastforce
  obtain a s where key: "episode_key m = (li_AniDBId item, li_TVDBId item, a, s)"
    and stext: "season_text (a, s) = lm_AniDBSeason lm @ '':'' @ lm_TVDBSeason lm" and ia: "itoa a = lm_AniDBSeason lm"
    by (rule apply_mapping_key [OF lm app, unfolded blank_map_simps])
  have as: "itoa a = lm_AniDBSeason lm \<and> em_AniDBSeason m = a \<and> em_TVDBSeason m = s"
    using ia key by (simp add: episode_key_def)
  obtain ms1 seen1 where one: "season_one item lm m (ms, seen) = (ms1, seen1)" by fastforce
  have "em_AniDBSeason m = 1 \<or> lm_AniDBSeason lm \<noteq> ''1''" using as itoa_inj [of a 1] by auto
  note inv1 = seasons_inv_season_one [OF inv one this]
  have "map_of seen1 (season_text (a, s)) = None"
  proof (cases "season_text (a, s) = ''1:1''")
    case True
    then have "season_text (a, s) = season_text (1, 1)" by (simp add: season_text_def)
    then have "s = 1" using season_text_inj by blast
    with inv1 as None stext True show ?thesis by auto
  next
    case False
    with inv1 None stext show ?thesis by auto
  qed
  then have "seasons_inv item ks0 (ms1 @ [m], AList.update (season_text (a, s)) (length ms1) seen1)"
    using inv1 key by (intro seasons_inv_add [where p = "(a, s)"]) auto
  then show ?thesis using None app one inv stext by (auto simp: mapping_step_def Let_def intro: seasons_inv_raise)
qed

lemma seasons_inv_mappings:
  "seasons_inv item ks0 st \<Longrightarrow> \<forall>lm \<in> set lms. canonical_mapping lm
    \<Longrightarrow> seasons_inv item ks0 (fold (mapping_step item) lms st)"
proof (induction lms arbitrary: st)
  case (Cons lm lms)
  then show ?case using seasons_inv_mapping_step [of item ks0 "fst st" "snd st" lm] by simp
qed simp

lemma add_part_keys [simp]: "map episode_key (pr_maps (add_part season offset st)) = map episode_key (pr_maps st)"
proof -
  have "episode_key (close_part offset m) = episode_key m" for m
    by (simp add: close_part_def episode_key_def Let_def)
  moreover have "episode_key (m\<lparr>em_Start := 1\<rparr>) = episode_key m" for m :: AniDBTVDBEpisodeMap
    by (simp add: episode_key_def)
  ultimately show ?thesis
    by (simp add: add_part_def Let_def at_index_keys split: option.split)
qed

lemma seasons_inv_first:
  assumes "map episode_key ms = ks0 @ [(li_AniDBId item, li_TVDBId item, a, s)]" and "k = season_text (a, s)"
  shows "seasons_inv item ks0 (ms, [(k, length ks0)])"
  unfolding seasons_inv_def using assms by (intro exI [of _ "[(a, s)]"]) auto

lemma seasons_inv_default:
  assumes "canonical_item item" and "default_map item off st = Some (st', seen)"
  shows "seasons_inv item (map episode_key (pr_maps st)) (pr_maps st', seen)"
proof (cases "li_DefaultTVDBSeason item = ''a''")
  case True
  have "absoluteKey = season_text (1, - 1)" by (simp add: season_text_def absoluteKey_def)
  then have "seasons_inv item (map episode_key (pr_maps st)) (pr_maps st', [(absoluteKey, length (map episode_key (pr_maps st)))])"
    using True assms(2) by (intro seasons_inv_first [where a = 1 and s = "- 1"]) (auto simp: default_map_def episode_key_def)
  then show ?thesis using True assms(2) by (simp add: default_map_def)
next
  case False
  then obtain s where s: "int64 s" "li_DefaultTVDBSeason item = itoa s"
    using assms(1) by (auto simp: canonical_item_def)
  have "season_text (1, s) = ''1:'' @ li_DefaultTVDBSeason item" by (simp add: season_text_def s)
  then have "seasons_inv item (map episode_key (pr_maps st)) (pr_maps st', [(''1:'' @ li_DefaultTVDBSeason item, length (map episode_key (pr_maps st)))])"
    using False assms(2) s by (intro seasons_inv_first [where a = 1 and s = s]) (auto simp: default_map_def episode_key_def Let_def)
  then show ?thesis using False assms(2) s by (simp add: default_map_def Let_def)
qed

definition prep_inv :: "string set \<Rightarrow> prep \<Rightarrow> bool" where
  "prep_inv ids st \<longleftrightarrow> distinct (map episode_key (pr_maps st)) \<and> em_AniDBId ` set (pr_maps st) \<subseteq> ids"

lemma episode_key_id: "fst ` set (map episode_key ms) = em_AniDBId ` set ms"
  by (auto simp: episode_key_def image_def)

lemma item_step_inv:
  assumes "prep_inv ids st" and "canonical_item item" and "li_AniDBId item \<notin> ids"
  shows "prep_inv (insert (li_AniDBId item) ids) (item_step item st)"
proof -
  have keep: "prep_inv (insert (li_AniDBId item) ids) st" using assms(1) by (auto simp: prep_inv_def)
  have seasons: "prep_inv (insert (li_AniDBId item) ids) (st1\<lparr>pr_maps := ms\<rparr>)"
    if "seasons_inv item (map episode_key (pr_maps st)) (ms, seen)" for st1 ms seen
    using seasons_inv_distinct [OF that] assms(1,3) unfolding episode_key_id by (auto simp: prep_inv_def)
  show ?thesis
  proof (cases "if li_EpisodeOffset item = [] then Some 0 else atoi (li_EpisodeOffset item)")
    case None
    then show ?thesis using keep unfolding item_step_def by simp
  next
    case off: (Some off)
    show ?thesis
    proof (cases "default_map item off st")
      case None
      then show ?thesis using keep off unfolding item_step_def by simp
    next
      case (Some r)
      obtain st1 seen where r: "r = (st1, seen)" by (cases r)
      have inv: "seasons_inv item (map episode_key (pr_maps st)) (pr_maps st1, seen)"
        by (rule seasons_inv_default [OF assms(2), where off = off]) (simp add: Some r)
      let ?i = "case map_of seen (if li_DefaultTVDBSeason item = ''a'' then absoluteKey else ''1:'' @ li_DefaultTVDBSeason item) of Some i \<Rightarrow> i | None \<Rightarrow> 0"
      have before: "seasons_inv item (map episode_key (pr_maps st)) (at_index ?i (\<lambda>m. m\<lparr>em_Before := b\<rparr>) (pr_maps st1), seen)" for b
        by (rule seasons_inv_at_index [OF inv]) (simp add: episode_key_def)
      have mappings: "prep_inv (insert (li_AniDBId item) ids)
          (st1\<lparr>pr_maps := fst (fold (mapping_step item) (li_Mappings item) (ms, seen))\<rparr>)"
        if "seasons_inv item (map episode_key (pr_maps st)) (ms, seen)" for ms
      proof -
        have "\<forall>lm \<in> set (li_Mappings item). canonical_mapping lm" using assms(2) by (simp add: canonical_item_def)
        from seasons_inv_mappings [OF that this] show ?thesis by (metis seasons prod.collapse)
      qed
      have "prep_inv (insert (li_AniDBId item) ids) st1" using seasons [OF inv, of st1] by simp
      moreover note mappings [OF inv] mappings [OF before]
      ultimately show ?thesis
        unfolding item_step_def by (simp only: off Some r option.case prod.case Let_def)
          (cases "li_Before item = []"; cases "Before_Scan (VString (li_Before item)) []"; simp)
    qed
  qed
qed

text \<open>
  C13: (invariant) Entries with distinct AniDB ids and seasons written as numbers give maps with distinct keys, so one
  statement never updates a row twice (which Postgres refuses).
\<close>

theorem PrepareAniDBTVDBEpisodeMaps_distinct:
  assumes "distinct (map li_AniDBId items)" and "\<And>item. item \<in> set items \<Longrightarrow> canonical_item item"
  shows "distinct (map episode_key (mr_Maps (PrepareAniDBTVDBEpisodeMaps items)))"
proof -
  have "prep_inv ids st \<Longrightarrow> li_AniDBId ` set items \<inter> ids = {} \<Longrightarrow> \<exists>ids'. prep_inv ids' (fold item_step items st)" for ids st
    using assms
  proof (induction items arbitrary: ids st)
    case (Cons item items)
    have "prep_inv (insert (li_AniDBId item) ids) (item_step item st)"
      using Cons.prems by (intro item_step_inv) auto
    from Cons.IH [OF this] Cons.prems show ?case by simp
  qed auto
  from this [of "{}" "\<lparr>pr_maps = [], pr_last = [], pr_part = []\<rparr>"] show ?thesis
    by (auto simp: prep_inv_def PrepareAniDBTVDBEpisodeMaps_def)
qed

definition sample_item :: "string \<Rightarrow> AnimeListItem" where
  "sample_item i =
     \<lparr>li_AniDBId = i, li_TVDBId = ''77'', li_DefaultTVDBSeason = ''1'', li_EpisodeOffset = [], li_IMDBId = [], li_TMDBId = [],
      li_Name = ''x'', li_Before = [],
      li_Mappings = [\<lparr>lm_AniDBSeason = ''1'', lm_TVDBSeason = ''2'', lm_Start = ''13'', lm_End = [], lm_Offset = ''-12'', lm_Value = []\<rparr>,
        \<lparr>lm_AniDBSeason = ''0'', lm_TVDBSeason = ''0'', lm_Start = [], lm_End = [], lm_Offset = [], lm_Value = '';1-3;2-4+5;''\<rparr>]\<rparr>"

theorem PrepareAniDBTVDBEpisodeMaps_distinct_witness:
  "distinct (map episode_key (mr_Maps (PrepareAniDBTVDBEpisodeMaps [sample_item ''5'', sample_item ''6''])))
    \<and> length (mr_Maps (PrepareAniDBTVDBEpisodeMaps [sample_item ''5'', sample_item ''6''])) = 6"
proof -
  have "itoa 2 = ''2''" by code_simp
  then have "canonical_mapping \<lparr>lm_AniDBSeason = ''1'', lm_TVDBSeason = ''2'', lm_Start = ''13'', lm_End = [], lm_Offset = ''-12'', lm_Value = []\<rparr>"
    unfolding canonical_mapping_def int64_def by (auto intro!: exI [of _ 2])
  moreover have "canonical_mapping \<lparr>lm_AniDBSeason = ''0'', lm_TVDBSeason = ''0'', lm_Start = [], lm_End = [], lm_Offset = [], lm_Value = '';1-3;2-4+5;''\<rparr>"
    unfolding canonical_mapping_def int64_def by (auto intro!: exI [of _ 0])
  ultimately have item: "canonical_item (sample_item i)" for i
    unfolding canonical_item_def sample_item_def int64_def by (auto intro!: exI [of _ 1])
  have "length (mr_Maps (PrepareAniDBTVDBEpisodeMaps [sample_item ''5'', sample_item ''6''])) = 6" by code_simp
  moreover have "distinct (map episode_key (mr_Maps (PrepareAniDBTVDBEpisodeMaps [sample_item ''5'', sample_item ''6''])))"
    by (rule PrepareAniDBTVDBEpisodeMaps_distinct) (auto simp: item, simp add: sample_item_def)
  ultimately show ?thesis by simp
qed

section \<open>The parts of a season\<close>

definition part_item :: "string \<Rightarrow> int \<Rightarrow> string \<times> int \<Rightarrow> AnimeListItem" where
  "part_item tv s x =
     \<lparr>li_AniDBId = fst x, li_TVDBId = tv, li_DefaultTVDBSeason = itoa s, li_EpisodeOffset = itoa (snd x), li_IMDBId = [], li_TMDBId = [],
      li_Name = [], li_Before = [], li_Mappings = []\<rparr>"

definition part_map :: "string \<Rightarrow> int \<Rightarrow> (string \<times> int) list \<Rightarrow> nat \<Rightarrow> AniDBTVDBEpisodeMap" where
  "part_map tv s xs j =
     \<lparr>em_AniDBId = fst (xs ! j), em_TVDBId = tv, em_AniDBSeason = 1, em_TVDBSeason = s,
      em_Start = (if length xs = 1 then 0 else 1),
      em_End = (if Suc j < length xs then snd (xs ! Suc j) - snd (xs ! j) else 0),
      em_Offset = snd (xs ! j), em_Before = [], em_Map = []\<rparr>"

definition parts_inv :: "string \<Rightarrow> int \<Rightarrow> (string \<times> int) list \<Rightarrow> prep \<Rightarrow> bool" where
  "parts_inv tv s xs st \<longleftrightarrow>
     pr_maps st = map (part_map tv s xs) [0..<length xs]
     \<and> map_of (pr_last st) (itoa s) = (if xs = [] then None else Some (int (length xs)))
     \<and> (\<forall>j < length xs. map_of (pr_part st) (itoa s @ '':'' @ itoa (int j + 1)) = Some j)"

lemma itoa_not_special: "0 < s \<Longrightarrow> itoa s \<noteq> ''a'' \<and> itoa s \<noteq> ''0''"
proof -
  assume "0 < s"
  then have "itoa s \<noteq> itoa 0" using itoa_inj by blast
  moreover have "\<not> is_digit CHR ''a''" by (simp add: is_digit_def)
  then have "CHR ''a'' \<notin> set (itoa s)" by (simp add: itoa_no)
  then have "itoa s \<noteq> ''a''" by (metis list.set_intros(1))
  ultimately show ?thesis by simp
qed

lemma itoa_iff: "itoa a = itoa b \<longleftrightarrow> a = b"
  using itoa_inj by auto

lemma part_item_step:
  assumes "0 < s" "int64 s" "int64 (snd x)"
  shows "item_step (part_item tv s x) st =
    add_part (itoa s) (snd x) (st\<lparr>pr_maps := pr_maps st @ [part_map tv s [x] 0]\<rparr>)"
proof -
  have "default_map (part_item tv s x) (snd x) st =
      Some (add_part (itoa s) (snd x) (st\<lparr>pr_maps := pr_maps st @ [part_map tv s [x] 0]\<rparr>), [(''1:'' @ itoa s, length (pr_maps st))])"
    using assms itoa_not_special [OF assms(1)] by (simp add: default_map_def part_item_def blank_map_def part_map_def Let_def)
  then show ?thesis using assms by (simp add: item_step_def Let_def part_item_def)
qed

lemma add_part_next:
  assumes "map_of (pr_last st) season = Some k" and "1 \<le> k"
    and "map_of (AList.update (season @ '':'' @ itoa (k + 1)) (length (pr_maps st) - 1) (pr_part st)) (season @ '':'' @ itoa k) = Some i"
  shows "pr_maps (add_part season off st)
      = at_index i (close_part off) (at_index (length (pr_maps st) - 1) (\<lambda>m. m\<lparr>em_Start := 1\<rparr>) (pr_maps st))"
    and "pr_last (add_part season off st) = AList.update season (k + 1) (pr_last st)"
    and "pr_part (add_part season off st) = AList.update (season @ '':'' @ itoa (k + 1)) (length (pr_maps st) - 1) (pr_part st)"
  using assms by (simp_all add: add_part_def Let_def)

lemma parts_inv_step:
  assumes inv: "parts_inv tv s xs st"
  shows "parts_inv tv s (xs @ [x]) (add_part (itoa s) (snd x) (st\<lparr>pr_maps := pr_maps st @ [part_map tv s [x] 0]\<rparr>))"
proof (cases xs rule: rev_cases)
  case Nil
  then show ?thesis using inv by (simp add: parts_inv_def add_part_def Let_def update_conv' part_map_def)
next
  case (snoc ys y)
  let ?n = "length ys"
  let ?st' = "add_part (itoa s) (snd x) (st\<lparr>pr_maps := pr_maps st @ [part_map tv s [x] 0]\<rparr>)"
  have maps: "pr_maps st = map (part_map tv s xs) [0..<?n] @ [part_map tv s xs ?n]"
    using inv snoc by (simp add: parts_inv_def)
  have last: "map_of (pr_last st) (itoa s) = Some (int ?n + 1)" using inv snoc by (simp add: parts_inv_def)
  have part: "map_of (pr_part st) (itoa s @ '':'' @ itoa (int j + 1)) = Some j" if "j < Suc ?n" for j
    using inv snoc that by (simp add: parts_inv_def)
  have idx: "map_of (AList.update (itoa s @ '':'' @ itoa (int ?n + 1 + 1)) v (pr_part st)) (itoa s @ '':'' @ itoa (int j + 1))
      = (if j = Suc ?n then Some v else if j < Suc ?n then Some j else map_of (pr_part st) (itoa s @ '':'' @ itoa (int j + 1)))" for j v
  proof (cases "j = Suc ?n")
    case True
    then have "itoa (int j + 1) = itoa (int ?n + 1 + 1)" by (simp add: itoa_iff)
    then show ?thesis using True by (simp only: update_conv' if_True fun_upd_same refl)
  next
    case False
    then have "itoa (int j + 1) \<noteq> itoa (int ?n + 1 + 1)" by (simp add: itoa_iff)
    then show ?thesis using False part [of j] by (simp add: update_conv')
  qed
  let ?st1 = "st\<lparr>pr_maps := pr_maps st @ [part_map tv s [x] 0]\<rparr>"
  have len: "length (pr_maps ?st1) - 1 = Suc ?n" by (simp add: maps)
  have "map_of (AList.update (itoa s @ '':'' @ itoa (int ?n + 1 + 1)) (length (pr_maps ?st1) - 1) (pr_part ?st1)) (itoa s @ '':'' @ itoa (int ?n + 1)) = Some ?n"
    unfolding len using idx [of "Suc ?n" ?n] by simp
  note this_idx = this
  have last1: "map_of (pr_last ?st1) (itoa s) = Some (int ?n + 1)" by (simp add: last)
  have one: "1 \<le> int ?n + 1" by simp
  note step = add_part_next [OF last1 one this_idx, unfolded len]
  have maps': "pr_maps ?st' = map (part_map tv s xs) [0..<?n]
      @ [close_part (snd x) (part_map tv s xs ?n), (part_map tv s [x] 0)\<lparr>em_Start := 1\<rparr>]"
    unfolding step by (simp add: maps at_index_def nth_append list_update_append)
  have "part_map tv s xs j = part_map tv s (xs @ [x]) j" if "j < ?n" for j
    using that snoc by (auto simp: part_map_def nth_append)
  moreover have "close_part (snd x) (part_map tv s xs ?n) = part_map tv s (xs @ [x]) ?n"
    using snoc by (auto simp: part_map_def close_part_def nth_append Let_def)
  moreover have "(part_map tv s [x] 0)\<lparr>em_Start := 1\<rparr> = part_map tv s (xs @ [x]) (Suc ?n)"
    using snoc by (simp add: part_map_def nth_append)
  ultimately have "pr_maps ?st' = map (part_map tv s (xs @ [x])) [0..<length (xs @ [x])]"
    unfolding maps' using snoc by simp
  moreover have "map_of (pr_last ?st') (itoa s) = Some (int (length (xs @ [x])))"
    unfolding step using snoc by (simp add: update_conv')
  moreover have "\<forall>j < length (xs @ [x]). map_of (pr_part ?st') (itoa s @ '':'' @ itoa (int j + 1)) = Some j"
    unfolding step using snoc idx [of "Suc ?n"] by (simp add: len)
  ultimately show ?thesis by (simp add: parts_inv_def)
qed

text \<open>
  (functional) Entries that share a default season become its consecutive parts: each part but the last ends where the
  next one starts, in the numbering of TVDB.
\<close>

theorem parts_of_season_adjacent:
  assumes "0 < s" and "int64 s" and "\<And>x. x \<in> set xs \<Longrightarrow> int64 (snd x)" and "Suc j < length xs"
  shows "TVDBEpisodeEnd (mr_Maps (PrepareAniDBTVDBEpisodeMaps (map (part_item tv s) xs)) ! j) + 1
      = TVDBEpisodeStart (mr_Maps (PrepareAniDBTVDBEpisodeMaps (map (part_item tv s) xs)) ! Suc j)"
proof -
  have "parts_inv tv s xs (fold item_step (map (part_item tv s) xs) \<lparr>pr_maps = [], pr_last = [], pr_part = []\<rparr>)"
    using assms(3)
  proof (induction xs rule: rev_induct)
    case (snoc x xs)
    then show ?case using assms(1,2) by (simp add: part_item_step parts_inv_step)
  qed (simp add: parts_inv_def)
  then have "mr_Maps (PrepareAniDBTVDBEpisodeMaps (map (part_item tv s) xs)) = map (part_map tv s xs) [0..<length xs]"
    by (simp add: PrepareAniDBTVDBEpisodeMaps_def parts_inv_def)
  then show ?thesis using assms(4) by (simp add: part_map_def TVDBEpisodeEnd_def TVDBEpisodeStart_def)
qed

theorem parts_of_season_adjacent_witness:
  "TVDBEpisodeEnd (mr_Maps (PrepareAniDBTVDBEpisodeMaps (map (part_item ''77'' 2) [(''5'', 0), (''6'', 12), (''8'', 24)])) ! 1) + 1
     = TVDBEpisodeStart (mr_Maps (PrepareAniDBTVDBEpisodeMaps (map (part_item ''77'' 2) [(''5'', 0), (''6'', 12), (''8'', 24)])) ! Suc 1)"
  by (rule parts_of_season_adjacent) (auto simp: int64_def)

end
