(* ===== verification/Torrent_Mapper.thy ===== *)
theory Torrent_Mapper
  imports Anime_Lists
begin

text \<open>
  Which AniDB entries a torrent holds (\<open>internal/worker/map_anidb_torrent.go\<close>): \<open>sortAniDBTitles\<close> and the
  four cases of \<open>prepareAniDBTorrentMaps\<close>, and the choice of the worker for one torrent.

  A nil pointer that is dereferenced and an index into an empty slice are \<open>None\<close>. A pointer into the slice
  \<open>tMaps\<close> is the index of the element. The Levenshtein distance is a parameter.
\<close>

datatype TorrentSeasonType = SeasonAbsolute | SeasonTV | SeasonAnime

record torrentMap =
  tm_anidbId :: string
  tm_seasonType :: TorrentSeasonType
  tm_season :: int
  tm_episodeStart :: int
  tm_episodeEnd :: int
  tm_episodes :: "int list"

record torrent_info =
  ti_Parsed :: bool
  ti_Title :: string
  ti_TorrentTitle :: string
  ti_ReleaseTypes :: "string list"
  ti_Year :: int
  ti_YearEnd :: int
  ti_Seasons :: "int list"
  ti_Episodes :: "int list"
  ti_Category :: string

definition new_tmap :: "string \<Rightarrow> TorrentSeasonType \<Rightarrow> int \<Rightarrow> torrentMap" where
  "new_tmap i ty season =
     \<lparr>tm_anidbId = i, tm_seasonType = ty, tm_season = season, tm_episodeStart = 0, tm_episodeEnd = 0, tm_episodes = []\<rparr>"

definition with_range :: "int \<Rightarrow> int \<Rightarrow> torrentMap \<Rightarrow> torrentMap" where
  "with_range a b t = t\<lparr>tm_episodeStart := a, tm_episodeEnd := b\<rparr>"

section \<open>Order of the titles\<close>

definition search_title :: "torrent_info \<Rightarrow> string" where
  "search_title tInfo =
     (let tTitle = to_lower (ti_Title tInfo); tTorrentTitle = to_lower (ti_TorrentTitle tInfo)
      in case ti_ReleaseTypes tInfo of
           [ty] \<Rightarrow>
             let releaseType = to_lower ty;
                 releaseType' =
                   (if \<not> contains_str tTorrentTitle releaseType then
                      (if releaseType = ''ova'' then ''oav'' else if releaseType = ''oad'' then ''oda'' else [])
                    else releaseType)
             in if releaseType' \<noteq> [] then tTitle @ '' '' @ releaseType' else tTitle
         | _ \<Rightarrow> tTitle)"

definition title_cmp :: "(string \<Rightarrow> string \<Rightarrow> nat) \<Rightarrow> string \<Rightarrow> string \<Rightarrow> AniDBTitle \<Rightarrow> AniDBTitle \<Rightarrow> int" where
  "title_cmp lev tTitle tYear a b =
     (let d = int (lev tTitle (to_lower (at_Value a))) - int (lev tTitle (to_lower (at_Value b)))
      in if tYear \<noteq> [] then
           if at_Year a = at_Year b then d
           else if at_Year a = tYear then - 1
           else if at_Year b = tYear then 1
           else d
         else d)"

definition sortAniDBTitles ::
    "(string \<Rightarrow> string \<Rightarrow> nat) \<Rightarrow> AniDBTitle list \<Rightarrow> torrent_info \<Rightarrow> string \<Rightarrow> AniDBTitle list" where
  "sortAniDBTitles lev titles tInfo tYear = go_stable_sort (cmp_less (title_cmp lev (search_title tInfo) tYear)) titles"

definition title_rank :: "(string \<Rightarrow> string \<Rightarrow> nat) \<Rightarrow> string \<Rightarrow> string \<Rightarrow> AniDBTitle \<Rightarrow> nat \<times> nat" where
  "title_rank lev tTitle tYear t =
     (if tYear \<noteq> [] \<and> at_Year t = tYear then 0 else 1, lev tTitle (to_lower (at_Value t)))"

lemma title_cmp_rank: "cmp_less (title_cmp lev tTitle tYear) a b \<longleftrightarrow> title_rank lev tTitle tYear a < title_rank lev tTitle tYear b"
  unfolding cmp_less_def title_cmp_def title_rank_def Let_def by auto

interpretation title_order: strict_weak "cmp_less (title_cmp lev tTitle tYear)" "\<lambda>_. True" for lev tTitle tYear
  by unfold_locales (auto simp: title_cmp_rank)

text \<open>The titles of the year of the torrent come first, each part by distance.\<close>

lemma sortAniDBTitles_sorted:
  "sorted_wrt (\<lambda>a b. title_rank lev (search_title tInfo) y a \<le> title_rank lev (search_title tInfo) y b) (sortAniDBTitles lev titles tInfo y)
    \<and> mset (sortAniDBTitles lev titles tInfo y) = mset titles"
  using title_order.stable_sort_sorted [of titles lev "search_title tInfo" y]
  by (simp add: sortAniDBTitles_def title_cmp_rank not_less)

section \<open>Years\<close>

definition year_threshold :: "torrent_info \<Rightarrow> int" where
  "year_threshold tInfo =
     (if ti_Year tInfo \<noteq> 0 then (if ti_YearEnd tInfo \<noteq> 0 then ti_YearEnd tInfo - ti_Year tInfo else 1) + 2 else 0)"

definition torrent_year :: "torrent_info \<Rightarrow> string" where
  "torrent_year tInfo = (if ti_Year tInfo \<noteq> 0 then itoa (ti_Year tInfo) else [])"

definition year_far :: "torrent_info \<Rightarrow> int \<Rightarrow> bool" where
  "year_far tInfo animeYear \<longleftrightarrow>
     animeYear \<noteq> 0 \<and> ti_Year tInfo \<noteq> 0 \<and> year_threshold tInfo < max (animeYear - ti_Year tInfo) (- (animeYear - ti_Year tInfo))"

section \<open>Neither seasons nor episodes\<close>

definition map_episodes :: "(int \<times> int list) list \<Rightarrow> int list \<times> int list" where
  "map_episodes m = (map fst m, concat (map snd m))"

definition whole_map ::
    "AniDBTitle \<Rightarrow> string \<Rightarrow> AniDBTVDBEpisodeMap \<Rightarrow> torrentMap list \<times> nat option \<Rightarrow> torrentMap list \<times> nat option" where
  "whole_map title tYear m st =
     (case st of (tMaps, aniTMapIdx) \<Rightarrow>
        if at_Year title \<noteq> [] \<and> tYear = at_Year title then
          if map_HasAbsoluteOrder m then
            let season = SafeParseInt (at_Season title) (- 1)
            in (tMaps
                @ [with_range (em_Start m + em_Offset m) (em_End m + em_Offset m)
                     (new_tmap (at_TId title) SeasonAbsolute (em_TVDBSeason m))]
                @ (if season \<noteq> - 1 then [with_range (em_Start m) (em_End m) (new_tmap (at_TId title) SeasonAnime season)] else []),
                aniTMapIdx)
          else if IsAniDBRegularSeason m then
            let tv = new_tmap (at_TId title) SeasonTV (em_TVDBSeason m)
            in (tMaps @ [if em_Start m \<noteq> 0 \<and> em_End m \<noteq> 0
                         then with_range (em_Start m + em_Offset m) (em_End m + em_Offset m) tv else tv], aniTMapIdx)
          else (tMaps, aniTMapIdx)
        else if at_Year title = [] then
          if IsAniDBRegularSeason m then
            let tv = new_tmap (at_TId title) SeasonTV (em_TVDBSeason m);
                range = em_Start m \<noteq> 0 \<and> em_End m \<noteq> 0;
                eps = (if range then ([], []) else map_episodes (em_Map m));
                tvTMap = (if range then with_range (em_Start m + em_Offset m) (em_End m + em_Offset m) tv
                          else tv\<lparr>tm_episodes := snd eps\<rparr>)
            in case aniTMapIdx of
                 None \<Rightarrow>
                   (tMaps @ [(new_tmap (at_TId title) SeasonAnime (SafeParseInt (at_Season title) (- 1)))\<lparr>tm_episodes := fst eps\<rparr>, tvTMap],
                    Some (length tMaps))
               | Some i \<Rightarrow>
                   (at_index i (\<lambda>t. t\<lparr>tm_episodes := tm_episodes t @ fst eps\<rparr>) tMaps @ [tvTMap], aniTMapIdx)
          else (tMaps, aniTMapIdx)
        else (tMaps, aniTMapIdx))"

fun whole_groups :: "AniDBTitle list \<Rightarrow> AniDBTitle \<Rightarrow> torrent_info \<Rightarrow> by_anidb list \<Rightarrow> torrentMap list \<Rightarrow> torrentMap list" where
  "whole_groups titles title tInfo [] tMaps = tMaps"
| "whole_groups titles title tInfo (g # gs) tMaps =
     (if ga_AniDBId g \<noteq> at_TId title then whole_groups titles title tInfo gs tMaps
      else if torrent_year tInfo \<noteq> [] \<and> at_Year title = [] \<and> HasAbsoluteOrder (ga_Maps g) then tMaps
      else if year_far tInfo (GetYear titles (ga_AniDBId g)) then whole_groups titles title tInfo gs tMaps
      else whole_groups titles title tInfo gs (fst (fold (whole_map title (torrent_year tInfo)) (ga_Maps g) (tMaps, None))))"

definition whole_torrent ::
    "(string \<Rightarrow> string \<Rightarrow> nat) \<Rightarrow> maps_result \<Rightarrow> AniDBTitle list \<Rightarrow> torrent_info \<Rightarrow> torrentMap list" where
  "whole_torrent lev tvdbMaps titles tInfo =
     (case sortAniDBTitles lev titles tInfo (torrent_year tInfo) of
        [] \<Rightarrow> []
      | title # rest \<Rightarrow>
          if ti_Category tInfo = ''movie'' \<and> torrent_year tInfo \<noteq> [] \<and> at_Year title \<noteq> [] \<and> torrent_year tInfo \<noteq> at_Year title
          then []
          else whole_groups (title # rest) title tInfo (fst (GroupByAniDBId tvdbMaps)) [])"

section \<open>Seasons\<close>

record season_ctx =
  sc_seasons :: "int list"
  sc_count :: nat
  sc_first :: int
  sc_last :: int
  sc_hasAbs :: bool
  sc_areAbs :: bool
  sc_canBeAnime :: bool

definition season_context :: "maps_result \<Rightarrow> AniDBTitle list \<Rightarrow> torrent_info \<Rightarrow> season_ctx" where
  "season_context tvdbMaps titles tInfo =
     (let eps = ti_Episodes tInfo; hasEpisodes = eps \<noteq> []; hasAbs = HasAbsoluteOrder (mr_Maps tvdbMaps)
      in case SeasonBoundary titles of (minAnimeSeason, maxAnimeSeason) \<Rightarrow>
        \<lparr>sc_seasons = ti_Seasons tInfo, sc_count = length eps,
         sc_first = (if hasEpisodes then hd eps else - 1), sc_last = (if hasEpisodes then last eps else - 1),
         sc_hasAbs = hasAbs,
         sc_areAbs = hasEpisodes \<and> hasAbs \<and> AreAbsoluteEpisode (mr_Maps tvdbMaps) eps,
         sc_canBeAnime =
           length eps \<noteq> 1
           \<and> (if \<not> hasEpisodes \<and> hasAbs then False
              else list_all (\<lambda>season. \<not> (season < minAnimeSeason \<or> maxAnimeSeason < season)) (ti_Seasons tInfo))\<rparr>)"

definition is_anime_season :: "season_ctx \<Rightarrow> AniDBTVDBEpisodeMap option \<Rightarrow> AniDBTVDBEpisodeMap \<Rightarrow> bool \<Rightarrow> bool" where
  "is_anime_season c absMap m isAnime =
     (if sc_count c = 0 then isAnime
      else if \<not> (isAnime \<and> length (sc_seasons c) = 1) then False
      else if sc_areAbs c then
        (case absMap of None \<Rightarrow> False | Some a \<Rightarrow> TVDBEpisodeStart a \<le> sc_first c \<and> sc_last c \<le> TVDBEpisodeEnd a)
      else em_Start m = sc_first c \<and> sc_last c = em_End m)"

definition is_tv_season :: "season_ctx \<Rightarrow> AniDBTVDBEpisodeMap option \<Rightarrow> AniDBTVDBEpisodeMap \<Rightarrow> bool \<Rightarrow> bool option" where
  "is_tv_season c absMap m isTV =
     (if sc_count c = 0 then Some isTV
      else if \<not> (isTV \<and> length (sc_seasons c) = 1) then Some False
      else if sc_areAbs c then
        (case absMap of None \<Rightarrow> None | Some a \<Rightarrow> Some (TVDBEpisodeStart a \<le> sc_first c \<and> sc_last c \<le> TVDBEpisodeEnd a))
      else Some
        (if HasEpisodeRange m then
           (if sc_count c = 1 then TVDBEpisodeStart m \<le> sc_first c \<and> sc_last c \<le> TVDBEpisodeEnd m
            else TVDBEpisodeStart m = sc_first c \<and> sc_last c = TVDBEpisodeEnd m)
         else if em_End m \<noteq> 0 then sc_last c \<le> TVDBEpisodeEnd m
         else if em_Start m \<noteq> 0 then TVDBEpisodeStart m \<le> sc_first c
         else if em_Offset m \<noteq> 0 then TVDBEpisodeStart m < sc_first c
         else True))"

text \<open>The range of the absolute order that the torrent covers; the outer \<open>None\<close> is a panic.\<close>

definition absolute_range :: "season_ctx \<Rightarrow> by_anidb \<Rightarrow> AniDBTVDBEpisodeMap \<Rightarrow> (int \<times> int) option option" where
  "absolute_range c g absMap =
     (case TVDBEpisodeBoundary absMap of (absStart, absEnd) \<Rightarrow>
        if sc_count c \<noteq> 0 then
          (case (if sc_areAbs c then Some (sc_first c, sc_last c)
                 else ToTVDBAbsoluteRange (ga_Maps g) (hd (sc_seasons c)) (sc_first c) (sc_last c)) of
             None \<Rightarrow> None
           | Some (firstEpi, lastEpi) \<Rightarrow>
               let start = max absStart firstEpi; end0 = min absEnd lastEpi; end' = (if end0 = 0 then lastEpi else end0)
               in Some (if start \<le> end' then Some (start, end') else None))
        else Some (Some (absStart, absEnd)))"

definition group_heads ::
    "season_ctx \<Rightarrow> by_anidb \<Rightarrow> AniDBTVDBEpisodeMap option \<Rightarrow> int \<Rightarrow> AniDBTVDBEpisodeMap \<Rightarrow> (torrentMap option \<times> torrentMap) option" where
  "group_heads c g absMap animeSeason m =
     (let anime = new_tmap (ga_AniDBId g) SeasonAnime animeSeason;
          heads =
            (if sc_hasAbs c then
               (case absMap of
                  None \<Rightarrow> Some (None, anime)
                | Some a \<Rightarrow>
                    (case absolute_range c g a of
                       None \<Rightarrow> None
                     | Some None \<Rightarrow> Some (None, anime)
                     | Some (Some (start, end')) \<Rightarrow>
                         let absT = new_tmap (ga_AniDBId g) SeasonAbsolute (em_TVDBSeason a)
                         in if 0 < start \<and> 0 < end'
                            then Some (Some (with_range start end' absT), with_range (start - em_Offset a) (end' - em_Offset a) anime)
                            else Some (Some absT, anime)))
             else if sc_count c \<noteq> 0 \<and> \<not> HasSplitedTVSeasons (ga_Maps g) then
               Some (None, with_range (sc_first c - em_Offset m) (sc_last c - em_Offset m) anime)
             else Some (None, anime))
      in case heads of
           None \<Rightarrow> None
         | Some (absT, anime1) \<Rightarrow>
             Some (absT, if tm_season anime1 = - 1 \<and> em_AniDBSeason m = 1 \<and> em_TVDBSeason m = 1
                        then anime1\<lparr>tm_season := 1\<rparr> else anime1))"

record group_state =
  gs_tMaps :: "torrentMap list"
  gs_seen :: "string list"
  gs_animeIdx :: "nat option"
  gs_absIdx :: "nat option"

definition append_heads :: "by_anidb \<Rightarrow> torrentMap option \<times> torrentMap \<Rightarrow> group_state \<Rightarrow> group_state" where
  "append_heads g heads st =
     (case heads of (absT, anime) \<Rightarrow>
        let st1 = st\<lparr>gs_seen := ga_AniDBId g # gs_seen st\<rparr>;
            st2 = (case absT of
                     None \<Rightarrow> st1
                   | Some a \<Rightarrow> st1\<lparr>gs_tMaps := gs_tMaps st1 @ [a], gs_absIdx := Some (length (gs_tMaps st1))\<rparr>)
        in if tm_season anime \<noteq> - 1
           then st2\<lparr>gs_tMaps := gs_tMaps st2 @ [anime], gs_animeIdx := Some (length (gs_tMaps st2))\<rparr> else st2)"

definition grow_range :: "int \<Rightarrow> int \<Rightarrow> torrentMap \<Rightarrow> torrentMap" where
  "grow_range start end' t =
     (if tm_episodeStart t = 0 then t\<lparr>tm_episodeStart := start\<rparr> else t)\<lparr>tm_episodeEnd := end'\<rparr>"

definition grow_at :: "nat option \<Rightarrow> int \<Rightarrow> int \<Rightarrow> torrentMap list \<Rightarrow> torrentMap list" where
  "grow_at idx start end' tMaps = (case idx of None \<Rightarrow> tMaps | Some i \<Rightarrow> at_index i (grow_range start end') tMaps)"

text \<open>The map of a TV season, after the maps of the group were brought up to date.\<close>

definition append_tv ::
    "season_ctx \<Rightarrow> by_anidb \<Rightarrow> AniDBTVDBEpisodeMap option \<Rightarrow> AniDBTVDBEpisodeMap \<Rightarrow> group_state \<Rightarrow> group_state option" where
  "append_tv c g absMap m st =
     (let tMap = new_tmap (ga_AniDBId g) SeasonTV (em_TVDBSeason m);
          push = (\<lambda>tMaps t. Some (st\<lparr>gs_tMaps := tMaps @ [t]\<rparr>))
      in if sc_count c \<noteq> 0 then
           if sc_areAbs c then
             (case absMap of
                None \<Rightarrow> None
              | Some a \<Rightarrow> push (gs_tMaps st) (with_range (sc_first c - em_Offset a) (sc_last c - em_Offset a) tMap))
           else push (gs_tMaps st) (with_range (sc_first c) (sc_last c) tMap)
         else
           let tMap1 = (if em_Start m \<noteq> 0 \<and> em_End m \<noteq> 0 then with_range (TVDBEpisodeStart m) (TVDBEpisodeEnd m) tMap else tMap)
           in case (gs_absIdx st, absMap) of
                (Some i, None) \<Rightarrow> None
              | (absIdx, _) \<Rightarrow>
                  let off = (case absMap of None \<Rightarrow> 0 | Some a \<Rightarrow> em_Offset a);
                      tMaps1 = grow_at absIdx (em_Start m + off) (em_End m + off) (gs_tMaps st)
                  in push (grow_at (gs_animeIdx st) (em_Start m) (em_End m) tMaps1) tMap1)"

definition append_anime ::
    "season_ctx \<Rightarrow> by_anidb \<Rightarrow> AniDBTVDBEpisodeMap option \<Rightarrow> int \<Rightarrow> AniDBTVDBEpisodeMap \<Rightarrow> group_state \<Rightarrow> group_state" where
  "append_anime c g absMap animeSeason m st =
     (let anime = new_tmap (ga_AniDBId g) SeasonAnime animeSeason;
          st1 =
            (if ga_AniDBId g \<in> set (gs_seen st) then st
             else st\<lparr>gs_seen := ga_AniDBId g # gs_seen st,
               gs_tMaps := gs_tMaps st
                 @ (case (if sc_hasAbs c then absMap else None) of
                      None \<Rightarrow> [anime]
                    | Some a \<Rightarrow>
                        [with_range (em_Start a + em_Offset a) (em_End a + em_Offset a)
                           (new_tmap (ga_AniDBId g) SeasonAbsolute (em_TVDBSeason a)),
                         with_range (em_Start a) (em_End a) anime])\<rparr>)
      in if em_TVDBSeason m \<noteq> - 1
         then st1\<lparr>gs_tMaps := gs_tMaps st1
           @ [with_range (em_Start m + em_Offset m) (em_End m + em_Offset m) (new_tmap (ga_AniDBId g) SeasonTV (em_TVDBSeason m))]\<rparr>
         else st1)"

definition season_map ::
    "season_ctx \<Rightarrow> by_anidb \<Rightarrow> AniDBTVDBEpisodeMap option \<Rightarrow> int \<Rightarrow> AniDBTVDBEpisodeMap \<Rightarrow> group_state option \<Rightarrow> group_state option" where
  "season_map c g absMap animeSeason m st =
     Option.bind st (\<lambda>s.
       let isRegularSeason = 0 < em_AniDBSeason m \<and> 0 < em_TVDBSeason m;
           matchedAnimeSeason = sc_canBeAnime c \<and> animeSeason \<in> set (sc_seasons c);
           isAnimeSeason = is_anime_season c absMap m (matchedAnimeSeason \<and> isRegularSeason)
       in Option.bind (is_tv_season c absMap m (isRegularSeason \<and> em_TVDBSeason m \<in> set (sc_seasons c))) (\<lambda>isTVSeason.
         if isTVSeason then
           Option.bind
             (if ga_AniDBId g \<in> set (gs_seen s) then Some s
              else map_option (\<lambda>heads. append_heads g heads s) (group_heads c g absMap animeSeason m))
             (append_tv c g absMap m)
         else if isAnimeSeason then Some (append_anime c g absMap animeSeason m s)
         else Some s))"

definition season_group ::
    "season_ctx \<Rightarrow> AniDBTitle list \<Rightarrow> torrent_info \<Rightarrow> by_anidb \<Rightarrow> group_state option \<Rightarrow> group_state option" where
  "season_group c titles tInfo g st =
     (if year_far tInfo (GetYear titles (ga_AniDBId g)) then st
      else fold (season_map c g (GetAbsoluteOrderSeasonMap (ga_Maps g)) (GetSeason titles (ga_AniDBId g))) (ga_Maps g)
        (map_option (\<lambda>s. s\<lparr>gs_animeIdx := None, gs_absIdx := None\<rparr>) st))"

definition season_torrent :: "maps_result \<Rightarrow> AniDBTitle list \<Rightarrow> torrent_info \<Rightarrow> torrentMap list option" where
  "season_torrent tvdbMaps titles tInfo =
     map_option gs_tMaps
       (fold (season_group (season_context tvdbMaps titles tInfo) titles tInfo) (fst (GroupByAniDBId tvdbMaps))
         (Some \<lparr>gs_tMaps = [], gs_seen = [], gs_animeIdx = None, gs_absIdx = None\<rparr>))"

section \<open>Episodes in absolute order\<close>

record abs_state =
  as_tMaps :: "torrentMap list"
  as_first :: int
  as_aniStart :: int
  as_aniEnd :: int

definition absolute_map ::
    "AniDBTitle list \<Rightarrow> by_anidb \<Rightarrow> int \<Rightarrow> AniDBTVDBEpisodeMap \<Rightarrow> abs_state \<Rightarrow> abs_state" where
  "absolute_map titles g tLastEpisode m st =
     (if map_HasAbsoluteOrder m then
        case TVDBEpisodeBoundary m of (absStart, absEnd) \<Rightarrow>
          let start = max absStart (as_first st); end0 = min absEnd tLastEpisode;
              end' = (if end0 = 0 then tLastEpisode else end0)
          in if start \<le> end' then
               let aniStart = start - em_Offset m; aniEnd = end' - em_Offset m
               in \<lparr>as_tMaps = as_tMaps st
                     @ [with_range start end' (new_tmap (ga_AniDBId g) SeasonAbsolute (em_TVDBSeason m)),
                        with_range aniStart aniEnd (new_tmap (ga_AniDBId g) SeasonAnime (GetSeason titles (ga_AniDBId g)))],
                   as_first = end' + em_Offset m + 1, as_aniStart = aniStart, as_aniEnd = aniEnd\<rparr>
             else st
      else if 0 < as_aniStart st \<and> as_aniStart st \<le> as_aniEnd st then
        let start = max (as_aniStart st) (em_Start m); end' = min (as_aniEnd st) (em_End m);
            tMap = new_tmap (ga_AniDBId g) SeasonTV (em_TVDBSeason m)
        in if start \<le> end' then
             st\<lparr>as_tMaps := as_tMaps st @ [with_range (start + em_Offset m) (end' + em_Offset m) tMap], as_aniStart := end' + 1\<rparr>
           else if as_aniStart st = em_Start m \<and> em_End m = 0 then
             st\<lparr>as_tMaps := as_tMaps st @ [with_range (as_aniStart st + em_Offset m) (as_aniEnd st + em_Offset m) tMap]\<rparr>
           else st
      else st)"

definition absolute_group :: "AniDBTitle list \<Rightarrow> torrent_info \<Rightarrow> by_anidb \<Rightarrow> torrentMap list \<times> int \<Rightarrow> torrentMap list \<times> int" where
  "absolute_group titles tInfo g st =
     (if \<not> HasAbsoluteOrder (ga_Maps g) then st
      else if year_far tInfo (GetYear titles (ga_AniDBId g)) then st
      else
        let s = fold (absolute_map titles g (last (ti_Episodes tInfo))) (ga_Maps g)
                  \<lparr>as_tMaps = fst st, as_first = snd st, as_aniStart = - 1, as_aniEnd = - 1\<rparr>
        in (as_tMaps s, as_first s))"

definition absolute_torrent :: "maps_result \<Rightarrow> AniDBTitle list \<Rightarrow> torrent_info \<Rightarrow> torrentMap list" where
  "absolute_torrent tvdbMaps titles tInfo =
     fst (fold (absolute_group titles tInfo) (fst (GroupByAniDBId tvdbMaps)) ([], hd (ti_Episodes tInfo)))"

section \<open>Episodes of a season\<close>

record ep_ctx =
  ec_title :: AniDBTitle
  ec_joined :: bool
  ec_split :: bool
  ec_targetSeason :: int
  ec_targetIds :: "string list"

record ep_state =
  es_tMaps :: "torrentMap list"
  es_first :: int
  es_index :: "(string \<times> nat) list"

definition episode_context :: "maps_result \<Rightarrow> AniDBTitle list \<Rightarrow> AniDBTitle \<Rightarrow> ep_ctx" where
  "episode_context tvdbMaps titles title =
     \<lparr>ec_title = title, ec_joined = HasJoinedTVSeasons tvdbMaps, ec_split = HasSplitedTVSeasons (mr_Maps tvdbMaps),
      ec_targetSeason = fold (\<lambda>m s. if em_AniDBId m = at_TId title \<and> em_AniDBSeason m = 1 then em_TVDBSeason m else s) (mr_Maps tvdbMaps) 0,
      ec_targetIds = map at_TId (filter (\<lambda>t. at_TId title = at_TId t \<or> at_Season title = at_Season t) titles)\<rparr>"

definition anime_range :: "ep_ctx \<Rightarrow> int \<Rightarrow> int \<Rightarrow> int \<Rightarrow> torrentMap \<Rightarrow> torrentMap" where
  "anime_range c offset start end' t =
     (if ec_split c then
        (if tm_episodeStart t = 0 then t\<lparr>tm_episodeStart := start + offset\<rparr> else t)\<lparr>tm_episodeEnd := end'\<rparr>
      else if ec_joined c then
        (if tm_episodeStart t = 0 then t\<lparr>tm_episodeStart := start - offset\<rparr> else t)\<lparr>tm_episodeEnd := end' - offset\<rparr>
      else with_range start end' t)"

definition episode_skipped :: "ep_ctx \<Rightarrow> AniDBTitle list \<Rightarrow> torrent_info \<Rightarrow> AniDBTVDBEpisodeMap \<Rightarrow> bool" where
  "episode_skipped c titles tInfo m \<longleftrightarrow>
     em_AniDBId m \<notin> set (ec_targetIds c) \<or> em_AniDBSeason m \<noteq> 1
     \<or> (if ec_joined c then em_TVDBSeason m \<noteq> ec_targetSeason c else em_AniDBId m \<noteq> at_TId (ec_title c))
     \<or> year_far tInfo (GetYear titles (em_AniDBId m))"

definition episode_row ::
    "ep_ctx \<Rightarrow> AniDBTitle list \<Rightarrow> torrent_info \<Rightarrow> AniDBTVDBEpisodeMap \<Rightarrow> ep_state \<Rightarrow> ep_state" where
  "episode_row c titles tInfo m st =
     (if episode_skipped c titles tInfo m then st
      else
        let tLastEpisode = last (ti_Episodes tInfo);
            start = max (em_Start m) (es_first st); end0 = min (em_End m) tLastEpisode;
            end' = (if end0 = 0 then tLastEpisode else end0)
        in if \<not> start \<le> end' then st
           else
             let animeSeason = GetSeason titles (em_AniDBId m);
                 st1 =
                   (if animeSeason = - 1 then st
                    else
                      (case map_of (es_index st) (em_AniDBId m) of
                         Some i \<Rightarrow> st\<lparr>es_tMaps := at_index i (anime_range c (em_Offset m) start end') (es_tMaps st)\<rparr>
                       | None \<Rightarrow>
                           st\<lparr>es_tMaps := es_tMaps st
                                @ [anime_range c (em_Offset m) start end' (new_tmap (em_AniDBId m) SeasonAnime animeSeason)],
                              es_index := AList.update (em_AniDBId m) (length (es_tMaps st)) (es_index st)\<rparr>))
             in st1\<lparr>es_tMaps := es_tMaps st1 @ [with_range start end' (new_tmap (em_AniDBId m) SeasonTV (em_TVDBSeason m))],
                    es_first := end' + em_Offset m + 1\<rparr>)"

text \<open>\<open>None\<close>: there is no title to take the first of.\<close>

definition episode_torrent ::
    "(string \<Rightarrow> string \<Rightarrow> nat) \<Rightarrow> maps_result \<Rightarrow> AniDBTitle list \<Rightarrow> torrent_info \<Rightarrow> torrentMap list option" where
  "episode_torrent lev tvdbMaps titles tInfo =
     (case sortAniDBTitles lev titles tInfo (torrent_year tInfo) of
        [] \<Rightarrow> None
      | title # rest \<Rightarrow>
          Some (es_tMaps (fold (episode_row (episode_context tvdbMaps (title # rest) title) (title # rest) tInfo) (mr_Maps tvdbMaps)
            \<lparr>es_tMaps = [], es_first = hd (ti_Episodes tInfo), es_index = []\<rparr>)))"

section \<open>The whole choice\<close>

definition prepareAniDBTorrentMaps ::
    "(string \<Rightarrow> string \<Rightarrow> nat) \<Rightarrow> maps_result \<Rightarrow> AniDBTitle list \<Rightarrow> torrent_info \<Rightarrow> torrentMap list option" where
  "prepareAniDBTorrentMaps lev tvdbMaps titles tInfo =
     (if ti_Seasons tInfo = [] \<and> ti_Episodes tInfo = [] then Some (whole_torrent lev tvdbMaps titles tInfo)
      else if ti_Seasons tInfo \<noteq> [] then season_torrent tvdbMaps titles tInfo
      else if HasAbsoluteOrder (mr_Maps tvdbMaps) then Some (absolute_torrent tvdbMaps titles tInfo)
      else episode_torrent lev tvdbMaps titles tInfo)"

text \<open>
  What the worker stores for one torrent: the rows of the table \<open>anidb_torrent\<close> as (AniDB id, map), where \<open>None\<close>
  for the map marks the torrent as looked at; the outer \<open>None\<close> is the panic that ends the chunk, an empty list that
  an error of the database left the torrent for later. \<open>ids\<close> answers the title search, \<open>maps\<close> and
  \<open>titles_of\<close> the table look-ups, \<open>ratio\<close> is the fuzzy match of two titles.
\<close>

record mapper_env =
  me_ids :: "string \<Rightarrow> string + string list"
  me_maps :: "string \<Rightarrow> string + maps_result"
  me_titles :: "maps_result \<Rightarrow> string + AniDBTitle list"
  me_ratio :: "string \<Rightarrow> string \<Rightarrow> int"
  me_lev :: "string \<Rightarrow> string \<Rightarrow> nat"

fun match_ratio :: "(string \<Rightarrow> string \<Rightarrow> int) \<Rightarrow> string \<Rightarrow> AniDBTitle list \<Rightarrow> int \<Rightarrow> int" where
  "match_ratio ratio title [] best = best"
| "match_ratio ratio title (t # ts) best =
     (let best' = max best (ratio title (at_Value t)) in if 85 \<le> best' then best' else match_ratio ratio title ts best')"

definition unmapped :: "(string \<times> torrentMap option) list" where
  "unmapped = [([], None)]"

definition map_torrent :: "mapper_env \<Rightarrow> torrent_info \<Rightarrow> (string \<times> torrentMap option) list option" where
  "map_torrent env tInfo =
     (if \<not> ti_Parsed tInfo then Some []
      else if ti_Title tInfo = [] then Some unmapped
      else case me_ids env (ti_Title tInfo) of
        Inl err \<Rightarrow> Some []
      | Inr [] \<Rightarrow> Some unmapped
      | Inr (anidbId # _) \<Rightarrow>
          (case me_maps env anidbId of
             Inl err \<Rightarrow> Some []
           | Inr tvdbMaps \<Rightarrow>
               if mr_Maps tvdbMaps = [] then Some unmapped
               else case me_titles env tvdbMaps of
                 Inl err \<Rightarrow> Some []
               | Inr [] \<Rightarrow> None
               | Inr (title # titles) \<Rightarrow>
                   if at_Type title = ''movie'' \<and> (ti_Seasons tInfo \<noteq> [] \<or> ti_Episodes tInfo \<noteq> []) then Some unmapped
                   else if match_ratio (me_ratio env) (ti_Title tInfo) (title # titles) 0 < 85 then Some unmapped
                   else (case prepareAniDBTorrentMaps (me_lev env) tvdbMaps (title # titles) tInfo of
                      None \<Rightarrow> None
                    | Some [] \<Rightarrow> Some unmapped
                    | Some (tMap # tMaps) \<Rightarrow> Some (map (\<lambda>t. (tm_anidbId t, Some t)) (tMap # tMaps)))))"

text \<open>A chunk of torrents in the order in which the map is visited; a panic loses what was gathered before.\<close>

fun map_chunk :: "mapper_env \<Rightarrow> (string \<times> torrent_info) list \<Rightarrow> (string \<times> string \<times> torrentMap option) list option" where
  "map_chunk env [] = Some []"
| "map_chunk env ((hash, tInfo) # rest) =
     (case map_torrent env tInfo of
        None \<Rightarrow> None
      | Some rows \<Rightarrow> map_option (\<lambda>more. map (\<lambda>(tid, t). (tid, hash, t)) rows @ more) (map_chunk env rest))"

section \<open>Rows only for entries of the series\<close>

definition ids_in :: "string set \<Rightarrow> torrentMap list \<Rightarrow> bool" where
  "ids_in S tMaps \<longleftrightarrow> tm_anidbId ` set tMaps \<subseteq> S"

lemma ids_in_simps [simp]:
  "ids_in S []" "ids_in S (xs @ ys) \<longleftrightarrow> ids_in S xs \<and> ids_in S ys" "ids_in S (t # xs) \<longleftrightarrow> tm_anidbId t \<in> S \<and> ids_in S xs"
  by (auto simp: ids_in_def)

lemma ids_in_at_index: "ids_in S xs \<Longrightarrow> (\<And>t. tm_anidbId (f t) = tm_anidbId t) \<Longrightarrow> ids_in S (at_index i f xs)"
proof -
  assume "ids_in S xs" and f: "\<And>t. tm_anidbId (f t) = tm_anidbId t"
  have "map tm_anidbId (at_index i f xs) = map tm_anidbId xs"
    unfolding at_index_def by (auto simp: map_update f intro: list_update_same_conv [THEN iffD2])
  then have "tm_anidbId ` set (at_index i f xs) = tm_anidbId ` set xs" by (metis image_set)
  with \<open>ids_in S xs\<close> show ?thesis by (simp add: ids_in_def)
qed

lemma tm_id_simps [simp]:
  "tm_anidbId (new_tmap i ty s) = i" "tm_anidbId (with_range a b t) = tm_anidbId t" "tm_anidbId (grow_range a b t) = tm_anidbId t"
  "tm_anidbId (anime_range c off a b t) = tm_anidbId t"
  by (simp_all add: new_tmap_def with_range_def grow_range_def anime_range_def)

lemma whole_map_ids: "ids_in S (fst st) \<Longrightarrow> at_TId title \<in> S \<Longrightarrow> ids_in S (fst (whole_map title y m st))"
  unfolding whole_map_def
  by (auto simp: Let_def intro!: ids_in_at_index split: prod.splits option.splits)

lemma whole_maps_ids: "ids_in S (fst st) \<Longrightarrow> at_TId title \<in> S \<Longrightarrow> ids_in S (fst (fold (whole_map title y) ms st))"
  by (induction ms arbitrary: st) (simp_all add: whole_map_ids)

lemma whole_groups_ids:
  "ids_in S tMaps \<Longrightarrow> ga_AniDBId ` set gs \<subseteq> S \<Longrightarrow> ids_in S (whole_groups titles title tInfo gs tMaps)"
proof (induction gs arbitrary: tMaps)
  case (Cons g gs)
  have "ids_in S (fst (fold (whole_map title (torrent_year tInfo)) (ga_Maps g) (tMaps, None)))" if "ga_AniDBId g = at_TId title"
    using whole_maps_ids [of S "(tMaps, None)" title] Cons.prems that by simp
  then show ?case using Cons by simp
qed simp

lemma group_heads_ids:
  "group_heads c g absMap s m = Some (a, t) \<Longrightarrow> tm_anidbId t = ga_AniDBId g \<and> (\<forall>x. a = Some x \<longrightarrow> tm_anidbId x = ga_AniDBId g)"
  unfolding group_heads_def by (auto simp: Let_def split: if_splits option.splits prod.splits)

lemma append_heads_ids:
  "ids_in S (gs_tMaps st) \<Longrightarrow> tm_anidbId t \<in> S \<Longrightarrow> (\<forall>x. a = Some x \<longrightarrow> tm_anidbId x \<in> S) \<Longrightarrow> ids_in S (gs_tMaps (append_heads g (a, t) st))"
  unfolding append_heads_def by (auto simp: Let_def split: option.split)

lemma grow_at_ids: "ids_in S xs \<Longrightarrow> ids_in S (grow_at idx a b xs)"
  unfolding grow_at_def by (auto intro: ids_in_at_index split: option.split)

lemma append_tv_ids: "append_tv c g absMap m st = Some st' \<Longrightarrow> ids_in S (gs_tMaps st) \<Longrightarrow> ga_AniDBId g \<in> S \<Longrightarrow> ids_in S (gs_tMaps st')"
  unfolding append_tv_def by (auto simp: Let_def grow_at_ids split: if_splits option.splits)

lemma append_anime_ids: "ids_in S (gs_tMaps st) \<Longrightarrow> ga_AniDBId g \<in> S \<Longrightarrow> ids_in S (gs_tMaps (append_anime c g absMap s m st))"
  unfolding append_anime_def by (auto simp: Let_def split: option.split)

definition state_ids :: "string set \<Rightarrow> group_state option \<Rightarrow> bool" where
  "state_ids S st \<longleftrightarrow> (\<forall>s. st = Some s \<longrightarrow> ids_in S (gs_tMaps s))"

lemma season_map_ids:
  assumes "state_ids S st" and "ga_AniDBId g \<in> S"
  shows "state_ids S (season_map c g absMap season m st)"
proof (cases st)
  case (Some s)
  have s: "ids_in S (gs_tMaps s)" using assms(1) Some by (simp add: state_ids_def)
  have heads: "ids_in S (gs_tMaps (append_heads g h s))" if "group_heads c g absMap season m = Some h" for h
    using that s assms(2) group_heads_ids by (cases h) (fastforce intro: append_heads_ids)
  show ?thesis
    unfolding season_map_def Some state_ids_def
    using s heads append_tv_ids [OF _ _ assms(2)] append_anime_ids [OF s assms(2)]
    by (auto simp: Let_def bind_eq_Some_conv split: if_splits)
qed (simp add: season_map_def state_ids_def)

lemma season_group_ids: "state_ids S st \<Longrightarrow> ga_AniDBId g \<in> S \<Longrightarrow> state_ids S (season_group c titles tInfo g st)"
proof -
  have maps: "state_ids S st \<Longrightarrow> ga_AniDBId g \<in> S \<Longrightarrow> state_ids S (fold (season_map c g absMap s) ms st)" for absMap s ms st
    by (induction ms arbitrary: st) (simp_all add: season_map_ids)
  assume "state_ids S st" and g: "ga_AniDBId g \<in> S"
  then have "state_ids S (map_option (\<lambda>s. s\<lparr>gs_animeIdx := None, gs_absIdx := None\<rparr>) st)"
    by (auto simp: state_ids_def)
  from maps [OF this g] \<open>state_ids S st\<close> show ?thesis by (simp add: season_group_def)
qed

lemma season_groups_ids:
  "state_ids S st \<Longrightarrow> ga_AniDBId ` set gs \<subseteq> S \<Longrightarrow> state_ids S (fold (season_group c titles tInfo) gs st)"
  by (induction gs arbitrary: st) (simp_all add: season_group_ids)

lemma absolute_map_ids: "ids_in S (as_tMaps st) \<Longrightarrow> ga_AniDBId g \<in> S \<Longrightarrow> ids_in S (as_tMaps (absolute_map titles g l m st))"
  unfolding absolute_map_def by (auto simp: Let_def split: prod.splits)

lemma absolute_group_ids: "ids_in S (fst st) \<Longrightarrow> ga_AniDBId g \<in> S \<Longrightarrow> ids_in S (fst (absolute_group titles tInfo g st))"
proof -
  have "ids_in S (as_tMaps s) \<Longrightarrow> ga_AniDBId g \<in> S \<Longrightarrow> ids_in S (as_tMaps (fold (absolute_map titles g l) ms s))" for l ms s
    by (induction ms arbitrary: s) (simp_all add: absolute_map_ids)
  then show "ids_in S (fst st) \<Longrightarrow> ga_AniDBId g \<in> S \<Longrightarrow> ?thesis" by (simp add: absolute_group_def Let_def)
qed

lemma absolute_groups_ids: "ids_in S (fst st) \<Longrightarrow> ga_AniDBId ` set gs \<subseteq> S \<Longrightarrow> ids_in S (fst (fold (absolute_group titles tInfo) gs st))"
  by (induction gs arbitrary: st) (simp_all add: absolute_group_ids)

lemma episode_row_ids: "ids_in S (es_tMaps st) \<Longrightarrow> em_AniDBId m \<in> S \<Longrightarrow> ids_in S (es_tMaps (episode_row c titles tInfo m st))"
  unfolding episode_row_def by (auto simp: Let_def intro!: ids_in_at_index split: option.split)

lemma episode_maps_ids: "ids_in S (es_tMaps st) \<Longrightarrow> em_AniDBId ` set ms \<subseteq> S \<Longrightarrow> ids_in S (es_tMaps (fold (episode_row c titles tInfo) ms st))"
  by (induction ms arbitrary: st) (simp_all add: episode_row_ids)

lemma group_ids: "wf_result r \<Longrightarrow> ga_AniDBId ` set (fst (GroupByAniDBId r)) = em_AniDBId ` set (mr_Maps r)"
  using group_maps_ids [of "mr_Maps r"] by (metis GroupByAniDBId_wf(1) image_set remdups_adj_set)

text \<open>
  C5: (safety) Whatever a torrent is taken to hold, every row names an AniDB entry that has a map of the series that was
  looked up.
\<close>

theorem prepareAniDBTorrentMaps_of_series:
  assumes "prepareAniDBTorrentMaps lev r titles tInfo = Some tMaps" and "wf_result r" and "t \<in> set tMaps"
  shows "tm_anidbId t \<in> em_AniDBId ` set (mr_Maps r)"
proof -
  let ?S = "em_AniDBId ` set (mr_Maps r)"
  have gs: "ga_AniDBId ` set (fst (GroupByAniDBId r)) \<subseteq> ?S" using group_ids [OF assms(2)] by simp
  have "ids_in ?S (whole_torrent lev r titles tInfo)"
    unfolding whole_torrent_def by (auto intro!: whole_groups_ids gs split: list.split)
  moreover have "ids_in ?S ts" if ts: "season_torrent r titles tInfo = Some ts" for ts
  proof -
    obtain st where "fold (season_group (season_context r titles tInfo) titles tInfo) (fst (GroupByAniDBId r))
        (Some \<lparr>gs_tMaps = [], gs_seen = [], gs_animeIdx = None, gs_absIdx = None\<rparr>) = Some st" and "ts = gs_tMaps st"
      using ts by (auto simp: season_torrent_def)
    moreover have "state_ids ?S (Some \<lparr>gs_tMaps = [], gs_seen = [], gs_animeIdx = None, gs_absIdx = None\<rparr>)"
      by (simp add: state_ids_def)
    note season_groups_ids [OF this gs, of "season_context r titles tInfo" titles tInfo]
    ultimately show ?thesis by (simp add: state_ids_def)
  qed
  moreover have "ids_in ?S (absolute_torrent r titles tInfo)"
    unfolding absolute_torrent_def by (rule absolute_groups_ids [OF _ gs]) simp
  moreover have "ids_in ?S ts" if "episode_torrent lev r titles tInfo = Some ts" for ts
    using that unfolding episode_torrent_def by (auto intro!: episode_maps_ids split: list.splits)
  ultimately have "ids_in ?S tMaps"
    using assms(1) by (auto simp: prepareAniDBTorrentMaps_def split: if_splits)
  then show ?thesis using assms(3) by (auto simp: ids_in_def)
qed

definition sample_series :: "maps_result" where
  "sample_series = \<lparr>mr_Maps = [sample_map ''9'' (- 1) 1 24 0, sample_map ''9'' 1 1 12 0, sample_map ''10'' 2 1 12 0],
    mr_grouped = None, mr_idx = None\<rparr>"

definition sample_title :: AniDBTitle where
  "sample_title = \<lparr>at_TId = ''9'', at_TType = ''main'', at_TLang = ''en'', at_Value = ''x'', at_Season = ''1'', at_Year = [], at_Type = []\<rparr>"

definition sample_torrent :: "int list \<Rightarrow> int list \<Rightarrow> torrent_info" where
  "sample_torrent seasons eps =
     \<lparr>ti_Parsed = True, ti_Title = ''x'', ti_TorrentTitle = ''x'', ti_ReleaseTypes = [], ti_Year = 0, ti_YearEnd = 0,
      ti_Seasons = seasons, ti_Episodes = eps, ti_Category = ''series''\<rparr>"

definition sample_env :: mapper_env where
  "sample_env = \<lparr>me_ids = (\<lambda>_. Inr [''9'']), me_maps = (\<lambda>_. Inr sample_series), me_titles = (\<lambda>_. Inr [sample_title]),
    me_ratio = (\<lambda>_ _. 100), me_lev = (\<lambda>_ _. 0)\<rparr>"

theorem prepareAniDBTorrentMaps_of_series_witness:
  "\<exists>tMaps t. prepareAniDBTorrentMaps (\<lambda>_ _. 0) sample_series [sample_title] (sample_torrent [2] []) = Some tMaps
     \<and> t \<in> set tMaps \<and> tm_anidbId t \<in> em_AniDBId ` set (mr_Maps sample_series)"
proof -
  have "prepareAniDBTorrentMaps (\<lambda>_ _. 0) sample_series [sample_title] (sample_torrent [2] [])
      = Some [with_range 1 12 (new_tmap ''10'' SeasonTV 2)]"
    by code_simp
  note made = this
  have "wf_result sample_series" by (simp add: wf_result_def sample_series_def)
  from prepareAniDBTorrentMaps_of_series [OF made this, of "with_range 1 12 (new_tmap ''10'' SeasonTV 2)"] made show ?thesis
    by auto
qed

section \<open>A group without an absolute order\<close>

lemma season_map_None [simp]: "season_map c g a s m None = None"
  by (simp add: season_map_def)

lemma fold_season_map_None [simp]: "fold (season_map c g a s) ms None = None"
  by (induction ms) simp_all

lemma season_group_None [simp]: "season_group c titles tInfo g None = None"
  by (simp add: season_group_def)

lemma fold_season_group_None [simp]: "fold (season_group c titles tInfo) gs None = None"
  by (induction gs) simp_all

lemma fold_panics: "x \<in> set xs \<Longrightarrow> (\<And>st. f x st = None) \<Longrightarrow> (\<And>y. f y None = None) \<Longrightarrow> fold f xs st = None"
proof (induction xs arbitrary: st)
  case (Cons y ys)
  have none: "fold f ys None = None" by (induction ys) (simp_all add: Cons.prems)
  then show ?case using Cons by (cases "x = y") auto
qed simp

lemma season_map_panics:
  assumes "sc_count c \<noteq> 0" "sc_areAbs c" "sc_seasons c = [em_TVDBSeason m]" "0 < em_AniDBSeason m" "0 < em_TVDBSeason m"
  shows "season_map c g None s m st = None"
proof -
  have "is_tv_season c None m ((0 < em_AniDBSeason m \<and> 0 < em_TVDBSeason m) \<and> em_TVDBSeason m \<in> set (sc_seasons c)) = None"
    using assms by (simp add: is_tv_season_def)
  then show ?thesis by (cases st) (simp_all add: season_map_def Let_def)
qed

lemma season_torrent_panics:
  assumes "wf_result r" and "g \<in> set (group_maps (mr_Maps r))" and "\<not> HasAbsoluteOrder (ga_Maps g)"
    and "m \<in> set (ga_Maps g)" and "0 < em_AniDBSeason m" and "0 < em_TVDBSeason m"
    and "ti_Seasons tInfo = [em_TVDBSeason m]" and "ti_Episodes tInfo \<noteq> []" and "HasAbsoluteOrder (mr_Maps r)"
    and "AreAbsoluteEpisode (mr_Maps r) (ti_Episodes tInfo)" and "\<not> year_far tInfo (GetYear titles (ga_AniDBId g))"
  shows "season_torrent r titles tInfo = None"
proof -
  let ?c = "season_context r titles tInfo"
  have c: "sc_count ?c \<noteq> 0" "sc_areAbs ?c" "sc_seasons ?c = [em_TVDBSeason m]"
    using assms(7-10) by (simp_all add: season_context_def Let_def split: prod.split)
  have "GetAbsoluteOrderSeasonMap (ga_Maps g) = None" using assms(3) by (simp add: GetAbsoluteOrderSeasonMap_None)
  moreover have "fold (season_map ?c g None s) (ga_Maps g) st = None" for s st
    using assms(4) by (rule fold_panics) (simp_all add: season_map_panics [OF c assms(5,6)])
  ultimately have "season_group ?c titles tInfo g st = None" for st
    using assms(11) by (simp add: season_group_def)
  then have "fold (season_group ?c titles tInfo) (group_maps (mr_Maps r)) st = None" for st
    using assms(2) by (intro fold_panics [of g]) simp_all
  then show ?thesis by (simp add: season_torrent_def GroupByAniDBId_wf(1) [OF assms(1)])
qed

lemma map_chunk_panics: "(h, tInfo) \<in> set chunk \<Longrightarrow> map_torrent env tInfo = None \<Longrightarrow> map_chunk env chunk = None"
  by (induction chunk) (auto split: option.split)

text \<open>
  (error) A torrent of one season whose episodes count as absolute, in a series that has an absolute order but for the
  entry of that season, makes the worker panic, and none of the torrents of its chunk is stored.
\<close>

theorem group_without_absolute_order_panics:
  assumes "ti_Parsed tInfo" and "ti_Title tInfo \<noteq> []" and "me_ids env (ti_Title tInfo) = Inr (i # others)" and "me_maps env i = Inr r"
    and "me_titles env r = Inr (t # ts)" and "at_Type t \<noteq> ''movie''" and "85 \<le> match_ratio (me_ratio env) (ti_Title tInfo) (t # ts) 0"
    and "wf_result r" and "g \<in> set (group_maps (mr_Maps r))" and "\<not> HasAbsoluteOrder (ga_Maps g)"
    and "m \<in> set (ga_Maps g)" and "0 < em_AniDBSeason m" and "0 < em_TVDBSeason m"
    and "ti_Seasons tInfo = [em_TVDBSeason m]" and "ti_Episodes tInfo \<noteq> []" and "HasAbsoluteOrder (mr_Maps r)"
    and "AreAbsoluteEpisode (mr_Maps r) (ti_Episodes tInfo)" and "\<not> year_far tInfo (GetYear (t # ts) (ga_AniDBId g))"
    and "(h, tInfo) \<in> set chunk"
  shows "map_chunk env chunk = None"
proof -
  have "season_torrent r (t # ts) tInfo = None"
    using assms(8-18) by (rule season_torrent_panics)
  moreover have "mr_Maps r \<noteq> []" using assms(16) by (auto simp: HasAbsoluteOrder_def)
  ultimately have "map_torrent env tInfo = None"
    using assms(1-7,14) by (simp add: map_torrent_def prepareAniDBTorrentMaps_def)
  with assms(19) show ?thesis by (rule map_chunk_panics)
qed

theorem group_without_absolute_order_panics_witness:
  "map_chunk sample_env [(''h1'', sample_torrent [] []), (''h2'', sample_torrent [2] [13])] = None"
proof -
  have groups: "group_maps (mr_Maps sample_series) =
      [\<lparr>ga_AniDBId = ''9'', ga_Part = 1, ga_Maps = [sample_map ''9'' (- 1) 1 24 0, sample_map ''9'' 1 1 12 0]\<rparr>,
       \<lparr>ga_AniDBId = ''10'', ga_Part = 1, ga_Maps = [sample_map ''10'' 2 1 12 0]\<rparr>] \<or>
      group_maps (mr_Maps sample_series) =
      [\<lparr>ga_AniDBId = ''9'', ga_Part = 0, ga_Maps = [sample_map ''9'' (- 1) 1 24 0, sample_map ''9'' 1 1 12 0]\<rparr>,
       \<lparr>ga_AniDBId = ''10'', ga_Part = 1, ga_Maps = [sample_map ''10'' 2 1 12 0]\<rparr>]"
    by code_simp
  have abs: "AreAbsoluteEpisode (mr_Maps sample_series) [13]" by code_simp
  show ?thesis
  proof (rule group_without_absolute_order_panics [where r = sample_series and t = sample_title and ts = "[]" and h = "''h2''"
      and g = "\<lparr>ga_AniDBId = ''10'', ga_Part = 1, ga_Maps = [sample_map ''10'' 2 1 12 0]\<rparr>" and m = "sample_map ''10'' 2 1 12 0"
      and tInfo = "sample_torrent [2] [13]" and i = "''9''" and others = "[]"])
    show "\<lparr>ga_AniDBId = ''10'', ga_Part = 1, ga_Maps = [sample_map ''10'' 2 1 12 0]\<rparr> \<in> set (group_maps (mr_Maps sample_series))"
      using groups by auto
    show "AreAbsoluteEpisode (mr_Maps sample_series) (ti_Episodes (sample_torrent [2] [13]))"
      using abs by (simp add: sample_torrent_def)
  qed (simp_all add: sample_torrent_def sample_env_def sample_title_def sample_series_def sample_map_def wf_result_def
        HasAbsoluteOrder_def map_HasAbsoluteOrder_def year_far_def)
qed

section \<open>Absolute ranges\<close>

definition abs_row_ok :: "int \<Rightarrow> int \<Rightarrow> torrentMap \<Rightarrow> bool" where
  "abs_row_ok a b t \<longleftrightarrow> (tm_seasonType t = SeasonAbsolute \<longrightarrow> a \<le> tm_episodeStart t \<and> tm_episodeStart t \<le> tm_episodeEnd t \<and> tm_episodeEnd t \<le> b)"

definition abs_inv :: "int \<Rightarrow> int \<Rightarrow> torrentMap list \<Rightarrow> int \<Rightarrow> bool" where
  "abs_inv a b tMaps first \<longleftrightarrow> list_all (abs_row_ok a b) tMaps \<and> a \<le> first"

lemma abs_row_ok_simps [simp]:
  "abs_row_ok a b (with_range x y (new_tmap i SeasonAbsolute s)) \<longleftrightarrow> a \<le> x \<and> x \<le> y \<and> y \<le> b"
  "abs_row_ok a b (with_range x y (new_tmap i SeasonTV s))" "abs_row_ok a b (with_range x y (new_tmap i SeasonAnime s))"
  by (simp_all add: abs_row_ok_def with_range_def new_tmap_def)

lemma absolute_map_abs:
  assumes "abs_inv a b (as_tMaps st) (as_first st)" and "map_HasAbsoluteOrder m \<Longrightarrow> 0 \<le> em_Offset m"
  shows "abs_inv a b (as_tMaps (absolute_map titles g b m st)) (as_first (absolute_map titles g b m st))"
proof (cases "map_HasAbsoluteOrder m")
  case True
  with assms show ?thesis
    by (simp add: absolute_map_def abs_inv_def Let_def le_max_iff_disj split: prod.split)
next
  case False
  with assms(1) show ?thesis by (simp add: absolute_map_def abs_inv_def Let_def)
qed

lemma absolute_group_abs:
  assumes "abs_inv a (last (ti_Episodes tInfo)) (fst st) (snd st)"
    and "\<forall>m \<in> set (ga_Maps g). map_HasAbsoluteOrder m \<longrightarrow> 0 \<le> em_Offset m"
  shows "abs_inv a (last (ti_Episodes tInfo)) (fst (absolute_group titles tInfo g st)) (snd (absolute_group titles tInfo g st))"
proof -
  let ?b = "last (ti_Episodes tInfo)"
  have "abs_inv a ?b (as_tMaps s) (as_first s) \<Longrightarrow> \<forall>m \<in> set ms. map_HasAbsoluteOrder m \<longrightarrow> 0 \<le> em_Offset m
      \<Longrightarrow> abs_inv a ?b (as_tMaps (fold (absolute_map titles g ?b) ms s)) (as_first (fold (absolute_map titles g ?b) ms s))" for ms s
    by (induction ms arbitrary: s) (simp_all add: absolute_map_abs)
  with assms show ?thesis by (simp add: absolute_group_def Let_def)
qed

text \<open>
  C37: (bounds) If the offsets of the absolute maps are not negative, every absolute row of a torrent with episodes only is a
  range within the first and the last episode of the torrent.
\<close>

theorem absolute_torrent_in_range:
  assumes "wf_result r" and "\<And>m. m \<in> set (mr_Maps r) \<Longrightarrow> map_HasAbsoluteOrder m \<Longrightarrow> 0 \<le> em_Offset m"
    and "t \<in> set (absolute_torrent r titles tInfo)" and "tm_seasonType t = SeasonAbsolute"
  shows "hd (ti_Episodes tInfo) \<le> tm_episodeStart t \<and> tm_episodeStart t \<le> tm_episodeEnd t \<and> tm_episodeEnd t \<le> last (ti_Episodes tInfo)"
proof -
  let ?a = "hd (ti_Episodes tInfo)" and ?b = "last (ti_Episodes tInfo)"
  have groups: "\<forall>g \<in> set (group_maps (mr_Maps r)). \<forall>m \<in> set (ga_Maps g). map_HasAbsoluteOrder m \<longrightarrow> 0 \<le> em_Offset m"
  proof (intro ballI impI)
    fix g m
    assume "g \<in> set (group_maps (mr_Maps r))" "m \<in> set (ga_Maps g)" and abs: "map_HasAbsoluteOrder m"
    then have "m \<in> set (concat (map ga_Maps (group_maps (mr_Maps r))))" by auto
    then have "m \<in> set (mr_Maps r)" by (simp only: group_maps_concat)
    then show "0 \<le> em_Offset m" using assms(2) abs by blast
  qed
  have fold: "abs_inv ?a ?b (fst st) (snd st) \<Longrightarrow> \<forall>g \<in> set gs. \<forall>m \<in> set (ga_Maps g). map_HasAbsoluteOrder m \<longrightarrow> 0 \<le> em_Offset m
      \<Longrightarrow> abs_inv ?a ?b (fst (fold (absolute_group titles tInfo) gs st)) (snd (fold (absolute_group titles tInfo) gs st))" for gs st
    by (induction gs arbitrary: st) (simp_all add: absolute_group_abs)
  have "abs_inv ?a ?b (absolute_torrent r titles tInfo) (snd (fold (absolute_group titles tInfo) (group_maps (mr_Maps r)) ([], ?a)))"
    using fold [of "([], ?a)", OF _ groups] by (simp add: absolute_torrent_def abs_inv_def GroupByAniDBId_wf(1) [OF assms(1)])
  then have "abs_row_ok ?a ?b t" using assms(3) by (simp add: abs_inv_def list_all_iff)
  then show ?thesis using assms(4) by (simp add: abs_row_ok_def)
qed

theorem absolute_torrent_in_range_witness:
  "\<exists>t. t \<in> set (absolute_torrent sample_series [sample_title] (sample_torrent [] [3, 4, 5]))
     \<and> 3 \<le> tm_episodeStart t \<and> tm_episodeStart t \<le> tm_episodeEnd t \<and> tm_episodeEnd t \<le> 5"
proof -
  let ?t = "with_range 3 5 (new_tmap ''9'' SeasonAbsolute (- 1))"
  have mem: "?t \<in> set (absolute_torrent sample_series [sample_title] (sample_torrent [] [3, 4, 5]))" by code_simp
  have "wf_result sample_series" by (simp add: wf_result_def sample_series_def)
  moreover have "0 \<le> em_Offset m" if "m \<in> set (mr_Maps sample_series)" for m
    using that by (auto simp: sample_series_def sample_map_def)
  moreover have "tm_seasonType ?t = SeasonAbsolute" by (simp add: with_range_def new_tmap_def)
  ultimately have "hd (ti_Episodes (sample_torrent [] [3, 4, 5])) \<le> tm_episodeStart ?t \<and> tm_episodeStart ?t \<le> tm_episodeEnd ?t
      \<and> tm_episodeEnd ?t \<le> last (ti_Episodes (sample_torrent [] [3, 4, 5]))"
    by (intro absolute_torrent_in_range [OF _ _ mem]) simp_all
  with mem show ?thesis by (auto simp: sample_torrent_def intro!: exI [of _ ?t])
qed

text \<open>Three consecutive entries of \<open>n\<close> episodes each, which one torrent holds.\<close>

definition three_parts :: "int \<Rightarrow> string \<Rightarrow> string \<Rightarrow> string \<Rightarrow> maps_result" where
  "three_parts n i j k =
     \<lparr>mr_Maps = [(sample_map i (- 1) 1 n 0)\<lparr>em_Map := []\<rparr>, (sample_map j (- 1) 1 n n)\<lparr>em_Map := []\<rparr>, (sample_map k (- 1) 1 n (2 * n))\<lparr>em_Map := []\<rparr>],
      mr_grouped = None, mr_idx = None\<rparr>"

text \<open>
  (error) Of three consecutive entries that a torrent holds in full the third one is not found: after the second one the
  next episode is put behind its end by its offset once more.
\<close>

theorem third_part_lost:
  assumes "0 < n" and "i \<noteq> j" and "j \<noteq> k" and "i \<noteq> k" and "ti_Year tInfo = 0"
    and "hd (ti_Episodes tInfo) = 1" and "last (ti_Episodes tInfo) = 3 * n"
  shows "map (\<lambda>t. (tm_anidbId t, tm_episodeStart t, tm_episodeEnd t))
      (filter (\<lambda>t. tm_seasonType t = SeasonAbsolute) (absolute_torrent (three_parts n i j k) titles tInfo))
    = [(i, 1, n), (j, n + 1, 2 * n)]"
proof -
  have groups: "map (\<lambda>g. (ga_AniDBId g, ga_Maps g)) (fst (GroupByAniDBId (three_parts n i j k)))
      = map (\<lambda>m. (em_AniDBId m, [m])) (mr_Maps (three_parts n i j k))"
    using assms(2-4) by (simp add: GroupByAniDBId_def three_parts_def group_maps_def group_step_def new_part_def sample_map_def Let_def)
  obtain g1 g2 g3 where gs: "fst (GroupByAniDBId (three_parts n i j k)) = [g1, g2, g3]"
    and g: "ga_AniDBId g1 = i" "ga_AniDBId g2 = j" "ga_AniDBId g3 = k"
      "ga_Maps g1 = [(sample_map i (- 1) 1 n 0)\<lparr>em_Map := []\<rparr>]" "ga_Maps g2 = [(sample_map j (- 1) 1 n n)\<lparr>em_Map := []\<rparr>]"
      "ga_Maps g3 = [(sample_map k (- 1) 1 n (2 * n))\<lparr>em_Map := []\<rparr>]"
    using groups by (auto simp: three_parts_def sample_map_def map_eq_Cons_conv)
  show ?thesis
    using assms(1,5-7) unfolding absolute_torrent_def gs
    by (simp add: absolute_group_def g HasAbsoluteOrder_def map_HasAbsoluteOrder_def sample_map_def year_far_def absolute_map_def
        TVDBEpisodeBoundary_def TVDBEpisodeStart_def TVDBEpisodeEnd_def Let_def with_range_def new_tmap_def max_def min_def)
qed

theorem third_part_lost_witness:
  "map (\<lambda>t. (tm_anidbId t, tm_episodeStart t, tm_episodeEnd t))
      (filter (\<lambda>t. tm_seasonType t = SeasonAbsolute)
        (absolute_torrent (three_parts 12 ''9'' ''10'' ''11'') [] (sample_torrent [] [1..36])))
    = [(''9'', 1, 12), (''10'', 13, 24)]"
proof -
  have "hd [1..36 :: int] = 1" "last [1..36 :: int] = 36" by code_simp+
  then show ?thesis
    using third_part_lost [of 12 "''9''" "''10''" "''11''" "sample_torrent [] [1..36]" "[]"] by (simp add: sample_torrent_def)
qed

end
