(* ===== verification/Stremio_Sync.thy ===== *)
theory Stremio_Sync
  imports Watched_Bitfield
begin

text \<open>
  Keeping the watched state of two Stremio accounts in step (\<open>internal/worker/sync_stremio_stremio.go\<close> over the
  links of \<open>internal/sync/stremio_stremio/db.go\<close>).

  Times are nanoseconds since Go's zero time. What the sync asks of others is in an environment: the accounts and their
  tokens, the items of a library, the answer to an update, the video ids of a series, zlib. A sync gives the error, the
  updates it sent in their order, and the new state of the link. The table of links is the list of its rows.
\<close>

section \<open>Library items\<close>

record lib_state =
  st_LastWatched :: int
  st_TimeWatched :: int
  st_TimeOffset :: int
  st_OverallTimeWatched :: int
  st_TimesWatched :: int
  st_FlaggedWatched :: int
  st_Duration :: int
  st_VideoId :: string
  st_Watched :: string
  st_NoNotif :: bool
  st_Season :: int
  st_Episode :: int

record LibraryItem =
  lb_Id :: string
  lb_Removed :: bool
  lb_Temp :: bool
  lb_CTime :: int
  lb_MTime :: int
  lb_State :: lib_state
  lb_Name :: string
  lb_Type :: string
  lb_Poster :: string
  lb_PosterShape :: string
  lb_Background :: string
  lb_Logo :: string
  lb_Year :: string
  lb_BehaviorHints :: "(string \<times> string \<times> bool) option"

definition zero_state :: lib_state where
  "zero_state =
     \<lparr>st_LastWatched = 0, st_TimeWatched = 0, st_TimeOffset = 0, st_OverallTimeWatched = 0, st_TimesWatched = 0,
      st_FlaggedWatched = 0, st_Duration = 0, st_VideoId = [], st_Watched = [], st_NoNotif = False, st_Season = 0, st_Episode = 0\<rparr>"

text \<open>A map from ids to items that is filled in the order of the list.\<close>

definition item_by_id :: "LibraryItem list \<Rightarrow> string \<Rightarrow> LibraryItem option" where
  "item_by_id items k = map_of (rev (map (\<lambda>i. (lb_Id i, i)) items)) k"

text \<open>The item that is changed: the one of the target, or a fresh one made from that of the source.\<close>

definition target_item :: "int \<Rightarrow> LibraryItem \<Rightarrow> LibraryItem option \<Rightarrow> LibraryItem" where
  "target_item now src tgt =
     (case tgt of
        Some t \<Rightarrow> t\<lparr>lb_MTime := now\<rparr>
      | None \<Rightarrow> src\<lparr>lb_State := zero_state, lb_Removed := False, lb_Temp := False, lb_CTime := now, lb_MTime := now\<rparr>)"

definition set_last_watched :: "int \<Rightarrow> lib_state \<Rightarrow> lib_state" where
  "set_last_watched w st = (if st_LastWatched st < w then st\<lparr>st_LastWatched := w\<rparr> else st)"

section \<open>Movies\<close>

definition movie_change :: "int \<Rightarrow> LibraryItem list \<Rightarrow> LibraryItem \<Rightarrow> LibraryItem option" where
  "movie_change now targets src =
     (if st_TimesWatched (lb_State src) = 0 then None
      else
        let tgt = item_by_id targets (lb_Id src)
        in if (case tgt of Some t \<Rightarrow> 0 < st_TimesWatched (lb_State t) | None \<Rightarrow> False) then None
           else
             let t = target_item now src tgt
             in Some (t\<lparr>lb_State := set_last_watched (st_LastWatched (lb_State src)) ((lb_State t)\<lparr>st_TimesWatched := 1\<rparr>)\<rparr>))"

definition movie_changes :: "int \<Rightarrow> LibraryItem list \<Rightarrow> LibraryItem list \<Rightarrow> LibraryItem list" where
  "movie_changes now sources targets = somes (map (movie_change now targets) sources)"

section \<open>Series\<close>

record sync_env =
  se_videos :: "string \<Rightarrow> string + string list"
  se_inflate :: "string \<Rightarrow> zlib_result"
  se_deflate :: "8 word list \<Rightarrow> string option"

datatype sync_error = FetchError string | BitfieldError bitfield_error | ApiError string | SyncPanic

definition series_fields ::
    "sync_env \<Rightarrow> LibraryItem list \<Rightarrow> LibraryItem \<Rightarrow> sync_error + (string list \<times> watched_bitfield \<times> watched_bitfield)" where
  "series_fields env targets src =
     (case se_videos env (lb_Id src) of
        Inl e \<Rightarrow> Inl (FetchError e)
      | Inr videoIds \<Rightarrow>
          (case NewWatchedBitFieldFromString (se_inflate env) (st_Watched (lb_State src)) videoIds of
             Inl e \<Rightarrow> Inl (BitfieldError e)
           | Inr sourceWbf \<Rightarrow>
               let fresh = NewWatchedBitField (NewBitField8 (length videoIds)) videoIds
               in case item_by_id targets (lb_Id src) of
                    None \<Rightarrow> Inr (videoIds, sourceWbf, fresh)
                  | Some t \<Rightarrow>
                      if st_Watched (lb_State t) = [] then Inr (videoIds, sourceWbf, fresh)
                      else case NewWatchedBitFieldFromString (se_inflate env) (st_Watched (lb_State t)) videoIds of
                        Inl e \<Rightarrow> Inl (BitfieldError e)
                      | Inr targetWbf \<Rightarrow> Inr (videoIds, sourceWbf, targetWbf)))"

text \<open>The loop over the videos: the field of the target, and whether it changed.\<close>

fun copy_watched :: "watched_bitfield \<Rightarrow> string list \<Rightarrow> watched_bitfield \<times> bool \<Rightarrow> watched_bitfield \<times> bool" where
  "copy_watched sourceWbf [] st = st"
| "copy_watched sourceWbf (v # vs) st =
     (if GetVideo sourceWbf v \<and> \<not> GetVideo (fst st) v then copy_watched sourceWbf vs (SetVideo (fst st) v True, True)
      else copy_watched sourceWbf vs st)"

definition series_change ::
    "sync_env \<Rightarrow> int \<Rightarrow> LibraryItem list \<Rightarrow> LibraryItem \<Rightarrow> sync_error + LibraryItem option" where
  "series_change env now targets src =
     (if st_Watched (lb_State src) = [] then Inr None
      else case series_fields env targets src of
        Inl e \<Rightarrow> Inl e
      | Inr (videoIds, sourceWbf, targetWbf) \<Rightarrow>
          (case copy_watched sourceWbf videoIds (targetWbf, False) of
             (wbf, needsUpdate) \<Rightarrow>
               if \<not> needsUpdate then Inr None
               else case WatchedBitField_MarshalText (se_deflate env) wbf of
                 Inl e \<Rightarrow> Inl (BitfieldError e)
               | Inr watchedStr \<Rightarrow>
                   (case GetFirstUnwatchedVideoId wbf of
                      None \<Rightarrow> Inl SyncPanic
                    | Some videoId \<Rightarrow>
                        let t = target_item now src (item_by_id targets (lb_Id src));
                            lastWatched = max 0 (st_LastWatched (lb_State src))
                        in Inr (Some (t\<lparr>lb_State := (set_last_watched lastWatched ((lb_State t)\<lparr>st_Watched := watchedStr\<rparr>))
                             \<lparr>st_VideoId := videoId\<rparr>\<rparr>)))))"

fun series_changes ::
    "sync_env \<Rightarrow> int \<Rightarrow> LibraryItem list \<Rightarrow> LibraryItem list \<Rightarrow> sync_error + LibraryItem list" where
  "series_changes env now [] targets = Inr []"
| "series_changes env now (src # sources) targets =
     (case series_change env now targets src of
        Inl e \<Rightarrow> Inl e
      | Inr c \<Rightarrow>
          (case series_changes env now sources targets of
             Inl e \<Rightarrow> Inl e
           | Inr cs \<Rightarrow> Inr ((case c of None \<Rightarrow> [] | Some i \<Rightarrow> [i]) @ cs)))"

section \<open>One link\<close>

datatype SyncDirection = DirNone | DirAToB | DirBToA | DirBoth | DirInvalid string

definition parse_direction :: "string \<Rightarrow> SyncDirection" where
  "parse_direction d =
     (if d = ''none'' then DirNone else if d = ''a_to_b'' then DirAToB else if d = ''b_to_a'' then DirBToA
      else if d = ''both'' then DirBoth else DirInvalid d)"

definition direction_IsValid :: "SyncDirection \<Rightarrow> bool" where
  "direction_IsValid d \<longleftrightarrow> d \<in> {DirNone, DirAToB, DirBToA, DirBoth}"

definition ShouldSyncAToB :: "SyncDirection \<Rightarrow> bool" where
  "ShouldSyncAToB d \<longleftrightarrow> d = DirAToB \<or> d = DirBoth"

definition ShouldSyncBToA :: "SyncDirection \<Rightarrow> bool" where
  "ShouldSyncBToA d \<longleftrightarrow> d = DirBToA \<or> d = DirBoth"

definition direction_IsDisabled :: "SyncDirection \<Rightarrow> bool" where
  "direction_IsDisabled d \<longleftrightarrow> d = DirNone"

record sync_link =
  sl_AccountAId :: string
  sl_AccountBId :: string
  sl_Direction :: SyncDirection
  sl_Ids :: "string list"
  sl_LastSyncedAt :: "int option"
  sl_CAt :: int
  sl_UAt :: int

definition library_part :: "string list \<Rightarrow> string \<Rightarrow> LibraryItem list \<Rightarrow> LibraryItem list" where
  "library_part ids ty items =
     filter (\<lambda>i. has_prefix (lb_Id i) ''tt'' \<and> \<not> lb_Removed i \<and> lb_Id i \<in> set ids \<and> lb_Type i = ty) items"

record api_env = sync_env +
  ae_token :: "string \<Rightarrow> string + string"
  ae_library :: "string \<Rightarrow> string list \<Rightarrow> string + LibraryItem list"
  ae_update :: "string \<Rightarrow> LibraryItem list \<Rightarrow> string option"

type_synonym sent = "(string \<times> LibraryItem list) list"

definition send_changes :: "api_env \<Rightarrow> string \<Rightarrow> LibraryItem list \<Rightarrow> sync_error option \<times> sent" where
  "send_changes env account changes =
     (if changes = [] then (None, []) else (map_option ApiError (ae_update env account changes), [(account, changes)]))"

text \<open>One direction: movies, then series; an error ends it.\<close>

definition sync_direction ::
    "api_env \<Rightarrow> int \<Rightarrow> string list \<Rightarrow> LibraryItem list \<Rightarrow> LibraryItem list \<Rightarrow> string \<Rightarrow> sync_error option \<times> sent" where
  "sync_direction env now ids source target account =
     (case send_changes env account (movie_changes now (library_part ids ''movie'' source) (library_part ids ''movie'' target)) of
        (Some e, out) \<Rightarrow> (Some e, out)
      | (None, out) \<Rightarrow>
          (case series_changes (sync_env.truncate env) now (library_part ids ''series'' source) (library_part ids ''series'' target) of
             Inl e \<Rightarrow> (Some e, out)
           | Inr cs \<Rightarrow> (case send_changes env account cs of (e, out2) \<Rightarrow> (e, out @ out2))))"

text \<open>\<open>syncWatched\<close>: the error, the updates that were sent, and the link with its new state.\<close>

definition syncWatched :: "api_env \<Rightarrow> int \<Rightarrow> sync_link \<Rightarrow> sync_error option \<times> sent \<times> sync_link" where
  "syncWatched env now link =
     (let a = sl_AccountAId link; b = sl_AccountBId link; ids = sl_Ids link
      in if ids = [] then (None, [], link)
         else case (ae_token env a, ae_token env b) of
           (Inl e, _) \<Rightarrow> (Some (ApiError e), [], link)
         | (_, Inl e) \<Rightarrow> (Some (ApiError e), [], link)
         | (Inr _, Inr _) \<Rightarrow>
             (case ae_library env a ids of
                Inl e \<Rightarrow> (Some (ApiError e), [], link)
              | Inr itemsA \<Rightarrow>
                  (case ae_library env b ids of
                     Inl e \<Rightarrow> (Some (ApiError e), [], link)
                   | Inr itemsB \<Rightarrow>
                       (case (if ShouldSyncAToB (sl_Direction link) then sync_direction env now ids itemsA itemsB b else (None, [])) of
                          (Some e, out) \<Rightarrow> (Some e, out, link)
                        | (None, out) \<Rightarrow>
                            (case (if ShouldSyncBToA (sl_Direction link) then sync_direction env now ids itemsB itemsA a else (None, [])) of
                               (Some e, out2) \<Rightarrow> (Some e, out @ out2, link)
                             | (None, out2) \<Rightarrow> (None, out @ out2, link\<lparr>sl_LastSyncedAt := Some now\<rparr>))))))"

section \<open>The links\<close>

definition link_GetById :: "string \<Rightarrow> string \<Rightarrow> sync_link list \<Rightarrow> sync_link option" where
  "link_GetById a b t = find (\<lambda>l. sl_AccountAId l = a \<and> sl_AccountBId l = b) t"

text \<open>\<open>None\<close>: the insert violates the primary key.\<close>

definition Link :: "int \<Rightarrow> string \<Rightarrow> string \<Rightarrow> SyncDirection \<Rightarrow> string list \<Rightarrow> sync_link list \<Rightarrow> sync_link list option" where
  "Link now a b dir ids t =
     (if link_GetById a b t \<noteq> None then None
      else Some (t @ [\<lparr>sl_AccountAId = a, sl_AccountBId = b, sl_Direction = dir, sl_Ids = ids, sl_LastSyncedAt = None, sl_CAt = now, sl_UAt = now\<rparr>]))"

definition Unlink :: "string \<Rightarrow> string \<Rightarrow> sync_link list \<Rightarrow> sync_link list" where
  "Unlink a b t = filter (\<lambda>l. \<not> (sl_AccountAId l = a \<and> sl_AccountBId l = b)) t"

definition UnlinkByAccountA :: "string \<Rightarrow> sync_link list \<Rightarrow> sync_link list" where
  "UnlinkByAccountA a t = filter (\<lambda>l. sl_AccountAId l \<noteq> a) t"

definition UnlinkByAccountB :: "string \<Rightarrow> sync_link list \<Rightarrow> sync_link list" where
  "UnlinkByAccountB b t = filter (\<lambda>l. sl_AccountBId l \<noteq> b) t"

definition UnlinkByStremioAccount :: "string \<Rightarrow> sync_link list \<Rightarrow> sync_link list" where
  "UnlinkByStremioAccount i t = UnlinkByAccountB i (UnlinkByAccountA i t)"

definition SetSyncConfig :: "int \<Rightarrow> string \<Rightarrow> string \<Rightarrow> SyncDirection \<Rightarrow> string list \<Rightarrow> sync_link list \<Rightarrow> sync_link list" where
  "SetSyncConfig now a b dir ids t =
     map (\<lambda>l. if sl_AccountAId l = a \<and> sl_AccountBId l = b then l\<lparr>sl_Direction := dir, sl_Ids := ids, sl_UAt := now\<rparr> else l) t"

definition SetSyncState :: "int \<Rightarrow> string \<Rightarrow> string \<Rightarrow> int option \<Rightarrow> sync_link list \<Rightarrow> sync_link list" where
  "SetSyncState now a b synced t =
     map (\<lambda>l. if sl_AccountAId l = a \<and> sl_AccountBId l = b then l\<lparr>sl_LastSyncedAt := synced, sl_UAt := now\<rparr> else l) t"

text \<open>The executor: every enabled link in turn; an error is logged and the next link goes on.\<close>

fun run_links :: "api_env \<Rightarrow> int \<Rightarrow> sync_link list \<Rightarrow> sync_link list \<Rightarrow> sent \<times> sync_link list" where
  "run_links env now [] t = ([], t)"
| "run_links env now (l # ls) t =
     (if direction_IsDisabled (sl_Direction l) then run_links env now ls t
      else case syncWatched env now l of
        (err, out, l') \<Rightarrow>
          let t' = (if err = None \<and> sl_Ids l \<noteq> [] then SetSyncState now (sl_AccountAId l) (sl_AccountBId l) (sl_LastSyncedAt l') t else t)
          in (case run_links env now ls t' of (out2, t2) \<Rightarrow> (out @ out2, t2)))"

definition sync_executor :: "api_env \<Rightarrow> int \<Rightarrow> sync_link list \<Rightarrow> sent \<times> sync_link list" where
  "sync_executor env now t = run_links env now t t"

section \<open>Movies converge\<close>

lemma set_somes: "x \<in> set (somes xs) \<longleftrightarrow> Some x \<in> set xs"
  by (induction xs rule: somes.induct) auto

lemma somes_Nil_iff: "somes xs = [] \<longleftrightarrow> (\<forall>x \<in> set xs. x = None)"
  by (induction xs rule: somes.induct) auto

lemma item_by_id_Some: "item_by_id items k = Some i \<Longrightarrow> i \<in> set items \<and> lb_Id i = k"
  unfolding item_by_id_def by (drule map_of_SomeD) auto

lemma item_by_id_None: "item_by_id items k = None \<longleftrightarrow> k \<notin> lb_Id ` set items"
  by (auto simp: item_by_id_def map_of_eq_None_iff image_image)

lemma target_item_id: "(case tgt of Some t \<Rightarrow> lb_Id t = lb_Id src | None \<Rightarrow> True) \<Longrightarrow> lb_Id (target_item now src tgt) = lb_Id src"
  by (auto simp: target_item_def split: option.splits)

lemma target_of_source: "lb_Id (target_item now src (item_by_id targets (lb_Id src))) = lb_Id src"
  by (rule target_item_id) (auto split: option.split dest: item_by_id_Some)

lemma set_last_watched_simps [simp]:
  "st_TimesWatched (set_last_watched w st) = st_TimesWatched st" "st_Watched (set_last_watched w st) = st_Watched st"
  "st_VideoId (set_last_watched w st) = st_VideoId st" "st_LastWatched (set_last_watched w st) = max (st_LastWatched st) w"
  by (simp_all add: set_last_watched_def)

lemma movie_change_Some:
  assumes "movie_change now targets src = Some c"
  shows "lb_Id c = lb_Id src" and "st_TimesWatched (lb_State c) = 1"
    and "st_LastWatched (lb_State src) \<le> st_LastWatched (lb_State c)"
  using assms target_of_source [of now src targets] by (auto simp: movie_change_def Let_def split: if_splits)

definition movie_watched :: "LibraryItem option \<Rightarrow> bool" where
  "movie_watched i \<longleftrightarrow> (case i of Some t \<Rightarrow> 0 < st_TimesWatched (lb_State t) | None \<Rightarrow> False)"

lemma movie_change_None_iff:
  "movie_change now targets src = None \<longleftrightarrow> st_TimesWatched (lb_State src) = 0 \<or> movie_watched (item_by_id targets (lb_Id src))"
  unfolding movie_change_def movie_watched_def Let_def by (auto split: option.split)

text \<open>A library after an update: an item that was sent replaces the one with its id.\<close>

definition updated_library :: "LibraryItem list \<Rightarrow> LibraryItem list \<Rightarrow> LibraryItem list \<Rightarrow> bool" where
  "updated_library changes before after \<longleftrightarrow>
     (\<forall>k. item_by_id after k = (case item_by_id changes k of Some c \<Rightarrow> Some c | None \<Rightarrow> item_by_id before k))"

text \<open>
  C15: (liveness) Once the target library holds what the movie sync sent, every watched movie of the source is watched in
  the target, movies that were not sent are as before, and a further sync sends nothing.
\<close>

theorem movie_sync_converges:
  assumes "updated_library (movie_changes now sources targets) targets after"
  shows "movie_changes now' sources after = []
    \<and> (\<forall>src \<in> set sources. st_TimesWatched (lb_State src) \<noteq> 0 \<longrightarrow> movie_watched (item_by_id after (lb_Id src)))
    \<and> (\<forall>k. movie_watched (item_by_id targets k) \<longrightarrow> item_by_id after k = item_by_id targets k)"
proof -
  let ?cs = "movie_changes now sources targets"
  have cs: "c \<in> set ?cs \<longleftrightarrow> (\<exists>src \<in> set sources. movie_change now targets src = Some c)" for c
    unfolding movie_changes_def set_somes set_map image_iff by metis
  have watched: "movie_watched (item_by_id after (lb_Id src))" if src: "src \<in> set sources" "st_TimesWatched (lb_State src) \<noteq> 0" for src
  proof (cases "item_by_id ?cs (lb_Id src)")
    case (Some c)
    then have "c \<in> set ?cs" using item_by_id_Some by blast
    then have "st_TimesWatched (lb_State c) = 1" using cs movie_change_Some(2) by blast
    then show ?thesis using assms Some by (simp add: updated_library_def movie_watched_def)
  next
    case None
    have "movie_change now targets src = None"
    proof (rule ccontr)
      assume "movie_change now targets src \<noteq> None"
      then obtain c where "movie_change now targets src = Some c" by blast
      with cs src movie_change_Some(1) have "lb_Id src \<in> lb_Id ` set ?cs" by (metis image_eqI)
      with None show False by (simp add: item_by_id_None)
    qed
    with src None assms show ?thesis by (simp add: movie_change_None_iff updated_library_def)
  qed
  have "movie_changes now' sources after = []"
    using watched by (auto simp: movie_changes_def somes_Nil_iff movie_change_None_iff)
  moreover have "item_by_id after k = item_by_id targets k" if "movie_watched (item_by_id targets k)" for k
  proof -
    have "item_by_id ?cs k = None"
    proof (rule ccontr)
      assume "item_by_id ?cs k \<noteq> None"
      then obtain c where "c \<in> set ?cs" "lb_Id c = k" using item_by_id_Some by blast
      then obtain src where "movie_change now targets src = Some c" "lb_Id src = k" using cs movie_change_Some(1) by metis
      with that show False using movie_change_None_iff [of now targets src] by simp
    qed
    then show ?thesis using assms by (simp add: updated_library_def)
  qed
  ultimately show ?thesis using watched by blast
qed

section \<open>Series: the union of what is watched\<close>

lemma GetVideo_set_same: "GetVideo (SetVideo wb v True) v \<longleftrightarrow> v \<in> set (wb_video_ids wb)"
  by (simp add: GetVideo_SetVideo)

lemma SetVideo_ids [simp]: "wb_video_ids (SetVideo wb v b) = wb_video_ids wb"
  by (simp add: SetVideo_def split: option.split)

lemma copy_watched_spec:
  assumes "copy_watched src vs (wb, b) = (wb', b')" and "set vs \<subseteq> set (wb_video_ids wb)" and "wb_ok wb"
  shows "wb_video_ids wb' = wb_video_ids wb \<and> wb_ok wb'
    \<and> (\<forall>v. GetVideo wb' v \<longleftrightarrow> GetVideo wb v \<or> v \<in> set vs \<and> GetVideo src v)
    \<and> (b' \<longleftrightarrow> b \<or> (\<exists>v \<in> set vs. GetVideo src v \<and> \<not> GetVideo wb v))"
  using assms
proof (induction vs arbitrary: wb b)
  case (Cons v vs)
  show ?case
  proof (cases "GetVideo src v \<and> \<not> GetVideo wb v")
    case True
    then have "copy_watched src vs (SetVideo wb v True, True) = (wb', b')" using Cons.prems(1) by simp
    from Cons.IH [OF this] Cons.prems(2,3) True show ?thesis
      by (auto simp: GetVideo_SetVideo wb_ok_SetVideo)
  next
    case False
    then have "copy_watched src vs (wb, b) = (wb', b')" using Cons.prems(1) by auto
    from Cons.IH [OF this] Cons.prems(2,3) False show ?thesis by auto
  qed
qed auto

lemma from_string_ok:
  assumes "NewWatchedBitFieldFromString inflate s ids = Inr wb" and "ids \<noteq> []"
  shows "wb_video_ids wb = ids" and "wb_ok wb"
proof -
  obtain fld where "wb = \<lparr>wb_bitfield = wb_bitfield (toWatchedBitField fld ids), wb_video_ids = ids\<rparr>"
    using assms(1) by (auto simp: NewWatchedBitFieldFromString_def WatchedBitField_UnmarshalText_def split: sum.splits)
  then show "wb_video_ids wb = ids" and "wb_ok wb"
    using wb_ok_toWatchedBitField [OF assms(2), of fld] by (auto simp: wb_ok_def)
qed

lemma series_fields_ok:
  assumes "series_fields env targets src = Inr (ids, sw, tw)" and "ids \<noteq> []"
  shows "wb_video_ids sw = ids" and "wb_video_ids tw = ids" and "wb_ok tw"
  using assms from_string_ok wb_ok_new [of ids]
  by (auto simp: series_fields_def NewWatchedBitField_def Let_def split: sum.splits option.splits if_splits)

lemma GetVideo_in: "GetVideo wb v \<Longrightarrow> v \<in> set (wb_video_ids wb)"
  unfolding GetVideo_def by (auto split: option.splits dest!: slice_index_Some)

lemma GetVideo_same_bits:
  assumes "wb_video_ids a = wb_video_ids b" and "\<forall>i. get_bit (bf_values (wb_bitfield a)) i = get_bit (bf_values (wb_bitfield b)) i"
  shows "GetVideo a v = GetVideo b v"
  using assms by (simp add: GetVideo_def split: option.split)

lemma marshal_ne: "WatchedBitField_MarshalText deflate wb = Inr s \<Longrightarrow> s \<noteq> []"
  by (auto simp: WatchedBitField_MarshalText_def WatchedField_MarshalText_def BitField8_MarshalText_def split: option.splits)

lemma series_change_SomeD:
  assumes "series_change env now targets src = Inr (Some c)"
  obtains ids sw tw wb s where "series_fields env targets src = Inr (ids, sw, tw)" and "copy_watched sw ids (tw, False) = (wb, True)"
    and "WatchedBitField_MarshalText (se_deflate env) wb = Inr s" and "st_Watched (lb_State c) = s" and "lb_Id c = lb_Id src"
    and "st_Watched (lb_State src) \<noteq> []"
  using assms target_of_source [of now src targets]
  by (auto simp: series_change_def Let_def split: if_splits sum.splits prod.splits option.splits)

lemma series_change_watched:
  assumes zlib: "\<And>vs p. se_deflate env vs = Some p \<Longrightarrow> se_inflate env p = Inflated vs"
    and c: "series_change env now targets src = Inr (Some c)" and f: "series_fields env targets src = Inr (ids, sw, tw)"
    and ids: "distinct ids" "length ids < 2 ^ 62"
  obtains wb where "NewWatchedBitFieldFromString (se_inflate env) (st_Watched (lb_State c)) ids = Inr wb"
    and "\<And>v. GetVideo wb v \<longleftrightarrow> GetVideo tw v \<or> GetVideo sw v" and "ids \<noteq> []"
proof -
  obtain wb s where cw: "copy_watched sw ids (tw, False) = (wb, True)"
    and s: "WatchedBitField_MarshalText (se_deflate env) wb = Inr s" "st_Watched (lb_State c) = s"
    using series_change_SomeD [OF c] f by (metis Inr_inject prod.inject)
  have ne: "ids \<noteq> []" using cw by auto
  note ok = series_fields_ok [OF f ne]
  have wb: "wb_video_ids wb = ids" "wb_ok wb" "GetVideo wb v \<longleftrightarrow> GetVideo tw v \<or> v \<in> set ids \<and> GetVideo sw v" for v
    using copy_watched_spec [OF cw] ok by auto
  obtain wb' where "NewWatchedBitFieldFromString (se_inflate env) s (wb_video_ids wb) = Inr wb'"
    and "wb_video_ids wb' = wb_video_ids wb"
    and "\<forall>i. get_bit (bf_values (wb_bitfield wb')) i = get_bit (bf_values (wb_bitfield wb)) i"
    using watched_text_roundtrip [where inflate = "se_inflate env", OF zlib s(1) wb(2)] wb(1) ids ne by blast
  moreover have "GetVideo wb' v \<longleftrightarrow> GetVideo tw v \<or> GetVideo sw v" for v
    using GetVideo_same_bits [OF calculation(2,3)] wb(3) GetVideo_in [of sw v] ok(1) by auto
  ultimately show ?thesis using that wb(1) s(2) ne by simp
qed

lemma copy_watched_False: "copy_watched src vs (wb, False) = (wb', b) \<Longrightarrow> \<not> (\<exists>v \<in> set vs. GetVideo src v \<and> \<not> GetVideo wb v) \<Longrightarrow> \<not> b"
  by (induction vs) (auto split: if_splits)

text \<open>
  C14: (refinement) The item that the series sync sends for a source item reads back, over the videos of the series, as the
  union of what is watched in the source and in the target; a library that holds it needs no further change.
\<close>

theorem series_sync_union:
  assumes "\<And>vs p. se_deflate env vs = Some p \<Longrightarrow> se_inflate env p = Inflated vs"
    and "series_change env now targets src = Inr (Some c)" and "series_fields env targets src = Inr (ids, sw, tw)"
    and "distinct ids" and "length ids < 2 ^ 62" and "item_by_id after (lb_Id src) = Some c"
  shows "(\<exists>wb. NewWatchedBitFieldFromString (se_inflate env) (st_Watched (lb_State c)) ids = Inr wb
      \<and> (\<forall>v. GetVideo wb v \<longleftrightarrow> GetVideo tw v \<or> GetVideo sw v))
    \<and> series_change env now' after src = Inr None"
proof -
  obtain wb where wb: "NewWatchedBitFieldFromString (se_inflate env) (st_Watched (lb_State c)) ids = Inr wb"
    and union: "\<And>v. GetVideo wb v \<longleftrightarrow> GetVideo tw v \<or> GetVideo sw v" and "ids \<noteq> []"
    using series_change_watched [OF assms(1-5)] by blast
  have "st_Watched (lb_State c) \<noteq> []" and "st_Watched (lb_State src) \<noteq> []"
    using series_change_SomeD [OF assms(2)] marshal_ne by metis+
  moreover have "series_fields env after src = Inr (ids, sw, wb)"
    using assms(3,6) wb \<open>st_Watched (lb_State c) \<noteq> []\<close>
    by (auto simp: series_fields_def Let_def split: sum.splits option.splits if_splits)
  moreover obtain wb3 b where cw: "copy_watched sw ids (wb, False) = (wb3, b)" by fastforce
  moreover have "\<not> b" using copy_watched_False [OF cw] union by blast
  ultimately have "series_change env now' after src = Inr None" by (simp add: series_change_def)
  then show ?thesis using wb union by blast
qed

section \<open>No panic, removed items\<close>

text \<open>The first unwatched video is only asked for when there is a video.\<close>

lemma series_change_no_panic: "series_change env now targets src \<noteq> Inl SyncPanic"
proof
  assume panic: "series_change env now targets src = Inl SyncPanic"
  then obtain ids sw tw wb where f: "series_fields env targets src = Inr (ids, sw, tw)"
    and cw: "copy_watched sw ids (tw, False) = (wb, True)" and none: "GetFirstUnwatchedVideoId wb = None"
    by (auto simp: series_change_def series_fields_def Let_def split: if_splits sum.splits prod.splits option.splits)
  have ne: "ids \<noteq> []" using cw by auto
  note ok = series_fields_ok [OF f ne]
  have "wb_video_ids wb = ids" using copy_watched_spec [OF cw] ok by auto
  then show False using none ne
    by (auto simp: GetFirstUnwatchedVideoId_def FirstIndexOf_def Let_def split: if_splits option.splits)
qed

text \<open>
  (error) A movie that was removed from the target library counts as missing: the sync puts it back, and the state that
  the target kept for it is replaced by one that only says that it was watched.
\<close>

theorem removed_item_comes_back:
  assumes "s \<in> set (library_part ids ''movie'' sources)" and "st_TimesWatched (lb_State s) \<noteq> 0"
    and "\<And>t. t \<in> set targets \<Longrightarrow> lb_Id t = lb_Id s \<Longrightarrow> lb_Removed t"
  shows "\<exists>c. c \<in> set (movie_changes now (library_part ids ''movie'' sources) (library_part ids ''movie'' targets))
    \<and> lb_Id c = lb_Id s \<and> \<not> lb_Removed c
    \<and> lb_State c = set_last_watched (st_LastWatched (lb_State s)) (zero_state\<lparr>st_TimesWatched := 1\<rparr>)"
proof -
  have "item_by_id (library_part ids ''movie'' targets) (lb_Id s) = None"
    using assms(3) by (auto simp: item_by_id_None library_part_def)
  then have "movie_change now (library_part ids ''movie'' targets) s =
      Some ((target_item now s None)\<lparr>lb_State := set_last_watched (st_LastWatched (lb_State s)) (zero_state\<lparr>st_TimesWatched := 1\<rparr>)\<rparr>)"
    using assms(2) by (simp add: movie_change_def Let_def target_item_def)
  with assms(1) show ?thesis
    by (intro exI [of _ "(target_item now s None)\<lparr>lb_State := set_last_watched (st_LastWatched (lb_State s)) (zero_state\<lparr>st_TimesWatched := 1\<rparr>)\<rparr>"])
      (force simp: movie_changes_def set_somes target_item_def)
qed

definition sample_lib :: "string \<Rightarrow> string \<Rightarrow> bool \<Rightarrow> lib_state \<Rightarrow> LibraryItem" where
  "sample_lib i ty removed st =
     \<lparr>lb_Id = i, lb_Removed = removed, lb_Temp = False, lb_CTime = 1, lb_MTime = 2, lb_State = st, lb_Name = ''x'', lb_Type = ty,
      lb_Poster = [], lb_PosterShape = [], lb_Background = [], lb_Logo = [], lb_Year = [], lb_BehaviorHints = None\<rparr>"

definition sample_movie :: LibraryItem where
  "sample_movie = sample_lib ''tt1'' ''movie'' False (zero_state\<lparr>st_TimesWatched := 2, st_LastWatched := 50\<rparr>)"

theorem removed_item_comes_back_witness:
  "\<exists>c. c \<in> set (movie_changes 9 (library_part [''tt1''] ''movie'' [sample_movie])
        (library_part [''tt1''] ''movie'' [sample_lib ''tt1'' ''movie'' True (zero_state\<lparr>st_TimeOffset := 33\<rparr>)]))
    \<and> lb_Id c = lb_Id sample_movie \<and> \<not> lb_Removed c
    \<and> lb_State c = set_last_watched (st_LastWatched (lb_State sample_movie)) (zero_state\<lparr>st_TimesWatched := 1\<rparr>)"
  by (rule removed_item_comes_back) (auto simp: sample_movie_def sample_lib_def library_part_def has_prefix_def)

theorem movie_sync_converges_witness:
  "movie_changes 10 [sample_movie] (movie_changes 9 [sample_movie] []) = [] \<and> length (movie_changes 9 [sample_movie] []) = 1"
proof -
  have "updated_library (movie_changes 9 [sample_movie] []) [] (movie_changes 9 [sample_movie] [])"
    by (auto simp: updated_library_def item_by_id_def split: option.split)
  from movie_sync_converges [OF this] have "movie_changes 10 [sample_movie] (movie_changes 9 [sample_movie] []) = []" by blast
  moreover have "length (movie_changes 9 [sample_movie] []) = 1" by code_simp
  ultimately show ?thesis by simp
qed

definition sample_sync :: sync_env where
  "sample_sync = \<lparr>se_videos = (\<lambda>_. Inr [''tt1:1:1'', ''tt1:1:2'']), se_inflate = raw_unzip, se_deflate = raw_zip\<rparr>"

definition sample_series_item :: LibraryItem where
  "sample_series_item = sample_lib ''tt1'' ''series'' False (zero_state\<lparr>st_Watched := ''tt1:1:2:2:Ag=='', st_LastWatched := 50\<rparr>)"

theorem series_sync_union_witness:
  "\<exists>c wb. series_change sample_sync 9 [] sample_series_item = Inr (Some c)
     \<and> NewWatchedBitFieldFromString raw_unzip (st_Watched (lb_State c)) [''tt1:1:1'', ''tt1:1:2''] = Inr wb
     \<and> GetVideo wb ''tt1:1:2'' \<and> series_change sample_sync 10 [c] sample_series_item = Inr None"
proof -
  have "case series_change sample_sync 9 [] sample_series_item of Inr (Some _) \<Rightarrow> True | _ \<Rightarrow> False" by code_simp
  then obtain c where c: "series_change sample_sync 9 [] sample_series_item = Inr (Some c)"
    by (auto split: sum.splits option.splits)
  have "case series_fields sample_sync [] sample_series_item of
      Inr (ids, sw, tw) \<Rightarrow> ids = [''tt1:1:1'', ''tt1:1:2''] \<and> GetVideo sw ''tt1:1:2'' | _ \<Rightarrow> False" by code_simp
  then obtain sw tw where f: "series_fields sample_sync [] sample_series_item = Inr ([''tt1:1:1'', ''tt1:1:2''], sw, tw)"
    and v: "GetVideo sw ''tt1:1:2''"
    by (auto split: sum.splits)
  have "lb_Id c = lb_Id sample_series_item" using series_change_SomeD [OF c] by metis
  then have "item_by_id [c] (lb_Id sample_series_item) = Some c" by (simp add: item_by_id_def)
  moreover have "se_inflate sample_sync p = Inflated vs" if "se_deflate sample_sync vs = Some p" for vs p
    using raw_unzip_zip that by (simp add: sample_sync_def)
  ultimately obtain wb where "NewWatchedBitFieldFromString (se_inflate sample_sync) (st_Watched (lb_State c)) [''tt1:1:1'', ''tt1:1:2''] = Inr wb"
    and "GetVideo wb ''tt1:1:2''" and "series_change sample_sync 10 [c] sample_series_item = Inr None"
    using series_sync_union [OF _ c f, of "[c]" 10] v by auto
  with c show ?thesis by (auto simp: sample_sync_def)
qed

section \<open>The links\<close>

definition link_key :: "sync_link \<Rightarrow> string \<times> string" where
  "link_key l = (sl_AccountAId l, sl_AccountBId l)"

lemma Link_distinct: "distinct (map link_key t) \<Longrightarrow> Link now a b dir ids t = Some t' \<Longrightarrow> distinct (map link_key t')"
  by (auto simp: Link_def link_GetById_def link_key_def find_None_iff split: if_splits)

lemma Link_GetById:
  "Link now a b dir ids t = Some t' \<Longrightarrow>
     \<exists>l. link_GetById a b t' = Some l \<and> sl_Direction l = dir \<and> sl_Ids l = ids \<and> sl_LastSyncedAt l = None"
proof -
  assume link: "Link now a b dir ids t = Some t'"
  then have "find (\<lambda>l. sl_AccountAId l = a \<and> sl_AccountBId l = b) t = None"
    by (simp add: Link_def link_GetById_def split: if_splits)
  then have "find (\<lambda>l. sl_AccountAId l = a \<and> sl_AccountBId l = b) (t @ [l]) = (if sl_AccountAId l = a \<and> sl_AccountBId l = b then Some l else None)" for l
    by (induction t) (auto split: if_splits)
  with link show ?thesis by (auto simp: Link_def link_GetById_def split: if_splits)
qed

lemma UnlinkByStremioAccount_gone: "l \<in> set (UnlinkByStremioAccount i t) \<longleftrightarrow> l \<in> set t \<and> sl_AccountAId l \<noteq> i \<and> sl_AccountBId l \<noteq> i"
  by (auto simp: UnlinkByStremioAccount_def UnlinkByAccountA_def UnlinkByAccountB_def)

lemma SetSyncState_keys [simp]: "map link_key (SetSyncState now a b s t) = map link_key t"
  by (auto simp: SetSyncState_def link_key_def)

lemma run_links_keys: "map link_key (snd (run_links env now ls t)) = map link_key t"
proof (induction ls arbitrary: t)
  case (Cons l ls)
  obtain err out l' where w: "syncWatched env now l = (err, out, l')" by (metis prod_cases3)
  let ?t' = "if err = None \<and> sl_Ids l \<noteq> [] then SetSyncState now (sl_AccountAId l) (sl_AccountBId l) (sl_LastSyncedAt l') t else t"
  have "map link_key ?t' = map link_key t" by simp
  with Cons.IH [of t] Cons.IH [of ?t'] w show ?case by (cases "run_links env now ls t"; cases "run_links env now ls ?t'") (auto simp: Let_def)
qed simp

text \<open>A run sends to an account only if a direction of one of its links says so.\<close>

lemma sync_direction_account: "sync_direction env now ids a b acc = (e, out) \<Longrightarrow> x \<in> set out \<Longrightarrow> fst x = acc"
  by (auto simp: sync_direction_def send_changes_def split: prod.splits option.splits sum.splits if_splits)

lemma syncWatched_accounts:
  assumes "syncWatched env now l = (e, out, l')" and "x \<in> set out"
  shows "(fst x = sl_AccountBId l \<and> ShouldSyncAToB (sl_Direction l)) \<or> (fst x = sl_AccountAId l \<and> ShouldSyncBToA (sl_Direction l))"
  using assms by (auto simp: syncWatched_def Let_def split: prod.splits option.splits sum.splits if_splits dest: sync_direction_account)

lemma run_links_accounts:
  "x \<in> set (fst (run_links env now ls t)) \<Longrightarrow>
     \<exists>l \<in> set ls. (fst x = sl_AccountBId l \<and> ShouldSyncAToB (sl_Direction l)) \<or> (fst x = sl_AccountAId l \<and> ShouldSyncBToA (sl_Direction l))"
proof (induction ls arbitrary: t)
  case (Cons l ls)
  obtain err out l' where w: "syncWatched env now l = (err, out, l')" by (metis prod_cases3)
  from Cons.prems w have "x \<in> set out \<or> (\<exists>t'. x \<in> set (fst (run_links env now ls t')))"
    by (auto simp: Let_def split: if_splits prod.splits) (metis fst_conv)+
  then show ?case
  proof
    assume "x \<in> set out"
    from syncWatched_accounts [OF w this] show ?thesis by (meson list.set_intros(1))
  next
    assume "\<exists>t'. x \<in> set (fst (run_links env now ls t'))"
    then show ?thesis using Cons.IH by (meson list.set_intros(2))
  qed
qed simp

end
