(* ===== verification/Trakt_Sync.thy ===== *)
theory Trakt_Sync
  imports Stremio_Sync Util "HOL-Library.AList"
begin

text \<open>
  Keeping the watched state of a Stremio account and a Trakt account in step (\<open>internal/worker/sync_stremio_trakt.go\<close>
  over the links of \<open>internal/sync/stremio_trakt/db.go\<close>, with the history and id types of \<open>internal/trakt\<close>).

  What the clients answer is in an environment, and so is the order in which Go visits the keys of a map. A direction
  gives its error and the calls it made in their order. Of the answers of Trakt only the fields that the sync reads are
  kept; an error value stands for a run that never returns as well (\<open>SyncLoops\<close>).
\<close>

section \<open>Trakt's data\<close>

record trakt_ids =
  ti_Trakt :: int
  ti_IMDB :: string
  ti_TMDB :: int
  ti_TVDB :: int

record history_item =
  hi_WatchedAt :: int
  hi_Type :: string
  hi_Movie :: "trakt_ids option"
  hi_Episode :: "(int \<times> int) option"
  hi_Show :: "trakt_ids option"

record id_map =
  im_Type :: string
  im_IMDB :: string
  im_TMDB :: string
  im_TVDB :: string
  im_Trakt :: string

definition ToIdMap :: "trakt_ids \<Rightarrow> string \<Rightarrow> id_map" where
  "ToIdMap ids itemType =
     \<lparr>im_Type = (if itemType = ''movie'' then ''movie'' else if itemType = ''show'' then ''show'' else ''''),
      im_IMDB = ti_IMDB ids, im_TMDB = itoa (ti_TMDB ids), im_TVDB = itoa (ti_TVDB ids), im_Trakt = itoa (ti_Trakt ids)\<rparr>"

text \<open>What is added to the history: a movie with its date, a show with the episodes of its seasons.\<close>

record history_show =
  hs_IMDB :: string
  hs_Seasons :: "(int \<times> int list) list"

record cine_meta =
  cm_Id :: string
  cm_Type :: string
  cm_Name :: string
  cm_Poster :: string
  cm_PosterShape :: string
  cm_Background :: string
  cm_Logo :: string
  cm_ReleaseInfo :: string
  cm_Videos :: "string list"

record trakt_env =
  te_meta :: "string \<Rightarrow> string \<Rightarrow> string + cine_meta"
  te_inflate :: "string \<Rightarrow> zlib_result"
  te_deflate :: "8 word list \<Rightarrow> string option"
  te_library :: "string list \<Rightarrow> string + LibraryItem list"
  te_timestamps :: "string + (string \<times> int) list"
  te_update :: "LibraryItem list \<Rightarrow> string option"
  te_history :: "string \<Rightarrow> int \<Rightarrow> int option \<Rightarrow> nat \<Rightarrow> nat \<Rightarrow> string + history_item list"
  te_lookup :: "string \<Rightarrow> string \<Rightarrow> string + (trakt_ids option \<times> trakt_ids option) list"
  te_add_movies :: "(string \<times> int) list \<Rightarrow> string option"
  te_add_shows :: "history_show list \<Rightarrow> string option"
  te_id_rows :: "string list \<Rightarrow> string + (string \<times> string) list"
  te_shows_order :: "string list \<Rightarrow> string list"
  te_seasons_order :: "int list \<Rightarrow> int list"
  te_saved :: bool

datatype trakt_call =
    AddMovies "(string \<times> int) list"
  | AddShows "history_show list"
  | UpdateItems "LibraryItem list"
  | StoreIdMaps "id_map list"

datatype trakt_error = ClientError string | FieldError bitfield_error | SyncLoops

type_synonym trakt_result = "trakt_error option \<times> trakt_call list"

section \<open>The history\<close>

text \<open>Pages of 100 until one is not full; \<open>None\<close> if there always is a further full page.\<close>

partial_function (option) history_pages ::
    "trakt_env \<Rightarrow> string \<Rightarrow> int \<Rightarrow> int option \<Rightarrow> nat \<Rightarrow> history_item list \<Rightarrow> (string + history_item list) option" where
  "history_pages env ty i startAt page acc =
     (case te_history env ty i startAt page 100 of
        Inl e \<Rightarrow> Some (Inl e)
      | Inr data \<Rightarrow>
          (if length data < 100 then Some (Inr (acc @ data))
           else history_pages env ty i startAt (page + 1) (acc @ data)))"

declare history_pages.simps [code]

definition getAllTraktHistory :: "trakt_env \<Rightarrow> string \<Rightarrow> int \<Rightarrow> int option \<Rightarrow> trakt_error + history_item list" where
  "getAllTraktHistory env ty i startAt =
     (case history_pages env ty i startAt 1 [] of
        None \<Rightarrow> Inl SyncLoops
      | Some (Inl e) \<Rightarrow> Inl (ClientError e)
      | Some (Inr items) \<Rightarrow> Inr items)"

text \<open>The movies and the episodes that are kept, each with its IMDB id.\<close>

definition history_movies :: "history_item list \<Rightarrow> (string \<times> int) list" where
  "history_movies items =
     somes (map (\<lambda>i. if hi_Type i = ''movie''
                      then (case hi_Movie i of None \<Rightarrow> None | Some m \<Rightarrow> if ti_IMDB m = [] then None else Some (ti_IMDB m, hi_WatchedAt i))
                      else None) items)"

definition history_episodes :: "history_item list \<Rightarrow> (string \<times> int \<times> (int \<times> int) option) list" where
  "history_episodes items =
     somes (map (\<lambda>i. if hi_Type i = ''episode''
                      then (case hi_Show i of
                              None \<Rightarrow> None
                            | Some s \<Rightarrow> if ti_IMDB s = [] then None else Some (ti_IMDB s, hi_WatchedAt i, hi_Episode i))
                      else None) items)"

text \<open>The Trakt ids that the database knows (\<open>GetIdMapsByIMDBId\<close>; the last row of an id counts).\<close>

definition GetIdMapsByIMDBId :: "trakt_env \<Rightarrow> string list \<Rightarrow> string + (string \<Rightarrow> string option)" where
  "GetIdMapsByIMDBId env ids =
     (if ids = [] then Inr (\<lambda>_. None)
      else case te_id_rows env ids of Inl e \<Rightarrow> Inl e | Inr rows \<Rightarrow> Inr (\<lambda>k. map_of (rev rows) k))"

definition known_trakt_ids :: "(string \<Rightarrow> string option) \<Rightarrow> string \<Rightarrow> int option" where
  "known_trakt_ids idMaps k =
     (case idMaps k of
        None \<Rightarrow> None
      | Some t \<Rightarrow> let traktId = SafeParseInt t 0 in if 0 < traktId then Some traktId else None)"

text \<open>The Trakt id of an item, and the id map when it had to be looked up; \<open>None\<close> skips the item.\<close>

definition find_trakt_id :: "trakt_env \<Rightarrow> (string \<Rightarrow> int option) \<Rightarrow> string \<Rightarrow> string \<Rightarrow> (int \<times> id_map list) option" where
  "find_trakt_id env known ty imdbId =
     (case known imdbId of
        Some t \<Rightarrow> Some (t, [])
      | None \<Rightarrow>
          (case te_lookup env ty imdbId of
             Inr ((m, s) # _) \<Rightarrow>
               (case (if ty = ''movie'' then m else s) of
                  None \<Rightarrow> None
                | Some ids \<Rightarrow> Some (ti_Trakt ids, [ToIdMap ids ty]))
           | _ \<Rightarrow> None))"

section \<open>From Stremio to Trakt\<close>

definition movie_is_new :: "(string \<times> int) list \<Rightarrow> LibraryItem \<Rightarrow> bool" where
  "movie_is_new watched i \<longleftrightarrow> st_TimesWatched (lb_State i) \<noteq> 0 \<and> lb_Id i \<notin> fst ` set watched"

definition movie_entry :: "LibraryItem \<Rightarrow> string \<times> int" where
  "movie_entry i = (lb_Id i, st_LastWatched (lb_State i))"

text \<open>Outside of a full sync each new movie is looked up in the whole history.\<close>

fun check_movies ::
    "trakt_env \<Rightarrow> (string \<Rightarrow> int option) \<Rightarrow> LibraryItem list \<Rightarrow> trakt_error + ((string \<times> int) list \<times> id_map list)" where
  "check_movies env known [] = Inr ([], [])"
| "check_movies env known (i # items) =
     (case find_trakt_id env known ''movie'' (lb_Id i) of
        None \<Rightarrow> check_movies env known items
      | Some (traktId, maps) \<Rightarrow>
          (case te_history env ''movies'' traktId None 0 0 of
             Inl e \<Rightarrow> Inl (ClientError e)
           | Inr data \<Rightarrow>
               (case check_movies env known items of
                  Inl e \<Rightarrow> Inl e
                | Inr (toAdd, newIdMaps) \<Rightarrow> Inr ((if data = [] then [movie_entry i] else []) @ toAdd, maps @ newIdMaps))))"

definition send_movies :: "trakt_env \<Rightarrow> (string \<times> int) list \<Rightarrow> trakt_result" where
  "send_movies env toAdd = (if toAdd = [] then (None, []) else (map_option ClientError (te_add_movies env toAdd), [AddMovies toAdd]))"

definition save_id_maps :: "id_map list \<Rightarrow> trakt_call list" where
  "save_id_maps maps = (if maps = [] then [] else [StoreIdMaps maps])"

definition syncMovieFromStremioToTrakt ::
    "trakt_env \<Rightarrow> bool \<Rightarrow> LibraryItem list \<Rightarrow> (string \<times> int) list \<Rightarrow> trakt_result" where
  "syncMovieFromStremioToTrakt env isFullSync stremioMovies traktMovies =
     (let new = filter (movie_is_new traktMovies) stremioMovies
      in if isFullSync then send_movies env (map movie_entry new)
         else case GetIdMapsByIMDBId env (map lb_Id new) of
           Inl e \<Rightarrow> (Some (ClientError e), [])
         | Inr idMaps \<Rightarrow>
             (case check_movies env (known_trakt_ids idMaps) new of
                Inl e \<Rightarrow> (Some e, [])
              | Inr (toAdd, newIdMaps) \<Rightarrow>
                  (case send_movies env toAdd of (err, calls) \<Rightarrow> (err, save_id_maps newIdMaps @ calls))))"

definition episode_text :: "int \<Rightarrow> int \<Rightarrow> string" where
  "episode_text season episode = itoa season @ '':'' @ itoa episode"

text \<open>The sets of episodes in the history by show, as pairs.\<close>

definition history_set :: "(string \<times> int \<times> (int \<times> int) option) list \<Rightarrow> (string \<times> string) list" where
  "history_set episodes =
     somes (map (\<lambda>(imdbId, _, ep). case ep of None \<Rightarrow> None | Some (s, e) \<Rightarrow> Some (imdbId, episode_text s e)) episodes)"

definition video_episode :: "string \<Rightarrow> (int \<times> int) option" where
  "video_episode videoId =
     (let parts = split_on (CHR '':'') videoId
      in if length parts < 3 then None
         else let season = SafeParseInt (parts ! 1) 0; episode = SafeParseInt (parts ! 2) 0
              in if season < 1 \<or> episode < 1 then None else Some (season, episode))"

definition new_episodes :: "(string \<times> string) list \<Rightarrow> string \<Rightarrow> watched_bitfield \<Rightarrow> string list \<Rightarrow> (int \<times> int) list" where
  "new_episodes watched imdbId wbf videoIds =
     somes (map (\<lambda>v. if GetVideo wbf v
                      then (case video_episode v of
                              None \<Rightarrow> None
                            | Some (s, e) \<Rightarrow> if (imdbId, episode_text s e) \<in> set watched then None else Some (s, e))
                      else None) videoIds)"

definition by_season :: "(int \<times> int) list \<Rightarrow> (int \<times> int list) list" where
  "by_season eps = foldl (\<lambda>m (s, e). AList.update s ((case map_of m s of None \<Rightarrow> [] | Some es \<Rightarrow> es) @ [e]) m) [] eps"

definition show_entry :: "trakt_env \<Rightarrow> string \<Rightarrow> (int \<times> int list) list \<Rightarrow> history_show" where
  "show_entry env imdbId seasons =
     \<lparr>hs_IMDB = imdbId, hs_Seasons = map (\<lambda>s. (s, the (map_of seasons s))) (te_seasons_order env (map fst seasons))\<rparr>"

text \<open>Outside of a full sync the episodes of the show in the whole history are added to the sets first.\<close>

definition extend_history ::
    "trakt_env \<Rightarrow> bool \<Rightarrow> (string \<Rightarrow> int option) \<Rightarrow> string \<Rightarrow> (string \<times> string) list
      \<Rightarrow> (trakt_error + ((string \<times> string) list \<times> id_map list)) option" where
  "extend_history env isFullSync known imdbId watched =
     (if isFullSync then Some (Inr (watched, []))
      else case find_trakt_id env known ''show'' imdbId of
        None \<Rightarrow> None
      | Some (traktId, maps) \<Rightarrow>
          (case getAllTraktHistory env ''shows'' traktId None of
             Inl e \<Rightarrow> Some (Inl e)
           | Inr items \<Rightarrow> Some (Inr (watched @ history_set (map (\<lambda>i. (imdbId, hi_WatchedAt i, hi_Episode i)) items), maps))))"

fun shows_to_add ::
    "trakt_env \<Rightarrow> bool \<Rightarrow> (string \<Rightarrow> int option) \<Rightarrow> (string \<times> string) list \<Rightarrow> LibraryItem list
      \<Rightarrow> trakt_error + (history_show list \<times> id_map list)" where
  "shows_to_add env isFullSync known watched [] = Inr ([], [])"
| "shows_to_add env isFullSync known watched (i # items) =
     (if st_Watched (lb_State i) = [] then shows_to_add env isFullSync known watched items
      else case te_meta env ''series'' (lb_Id i) of
        Inl e \<Rightarrow> Inl (ClientError e)
      | Inr m \<Rightarrow>
          (case NewWatchedBitFieldFromString (te_inflate env) (st_Watched (lb_State i)) (cm_Videos m) of
             Inl e \<Rightarrow> shows_to_add env isFullSync known watched items
           | Inr wbf \<Rightarrow>
               (case extend_history env isFullSync known (lb_Id i) watched of
                  None \<Rightarrow> shows_to_add env isFullSync known watched items
                | Some (Inl e) \<Rightarrow> Inl e
                | Some (Inr (watched', maps)) \<Rightarrow>
                    (case shows_to_add env isFullSync known watched' items of
                       Inl e \<Rightarrow> Inl e
                     | Inr (shows', newIdMaps) \<Rightarrow>
                         let seasons = by_season (new_episodes watched' (lb_Id i) wbf (cm_Videos m))
                         in Inr ((if seasons = [] then [] else [show_entry env (lb_Id i) seasons]) @ shows', maps @ newIdMaps)))))"

definition syncSeriesFromStremioToTrakt ::
    "trakt_env \<Rightarrow> bool \<Rightarrow> LibraryItem list \<Rightarrow> (string \<times> int \<times> (int \<times> int) option) list \<Rightarrow> trakt_result" where
  "syncSeriesFromStremioToTrakt env isFullSync stremioSeries traktEpisodes =
     (case (if isFullSync then Inr (\<lambda>_. None)
            else GetIdMapsByIMDBId env (map lb_Id (filter (\<lambda>i. st_Watched (lb_State i) \<noteq> []) stremioSeries))) of
        Inl e \<Rightarrow> (Some (ClientError e), [])
      | Inr idMaps \<Rightarrow>
          (case shows_to_add env isFullSync (known_trakt_ids idMaps) (history_set traktEpisodes) stremioSeries of
             Inl e \<Rightarrow> (Some e, [])
           | Inr (showsToAdd, newIdMaps) \<Rightarrow>
               (if showsToAdd = [] then (None, save_id_maps newIdMaps)
                else (map_option ClientError (te_add_shows env showsToAdd), save_id_maps newIdMaps @ [AddShows showsToAdd]))))"

section \<open>From Trakt to Stremio\<close>

definition createLibraryItem :: "int \<Rightarrow> cine_meta \<Rightarrow> lib_state \<Rightarrow> LibraryItem" where
  "createLibraryItem now m state =
     \<lparr>lb_Id = cm_Id m, lb_Removed = False, lb_Temp = False, lb_CTime = now, lb_MTime = now, lb_State = state, lb_Name = cm_Name m,
      lb_Type = cm_Type m, lb_Poster = cm_Poster m, lb_PosterShape = cm_PosterShape m, lb_Background = cm_Background m,
      lb_Logo = cm_Logo m, lb_Year = cm_ReleaseInfo m, lb_BehaviorHints = None\<rparr>"

text \<open>The items of the library by id; outside of a full sync those that are missing are fetched.\<close>

definition known_items ::
    "trakt_env \<Rightarrow> bool \<Rightarrow> string \<Rightarrow> LibraryItem list \<Rightarrow> string list \<Rightarrow> trakt_error + LibraryItem list" where
  "known_items env isFullSync ty items ids =
     (let idsToFetch = filter (\<lambda>i. item_by_id items i = None) ids
      in if isFullSync \<or> idsToFetch = [] then Inr items
         else case te_library env idsToFetch of
           Inl e \<Rightarrow> Inl (ClientError e)
         | Inr data \<Rightarrow> Inr (items @ filter (\<lambda>i. lb_Type i = ty) data))"

definition send_items :: "trakt_env \<Rightarrow> LibraryItem list \<Rightarrow> trakt_result" where
  "send_items env items = (if items = [] then (None, []) else (map_option ClientError (te_update env items), [UpdateItems items]))"

definition mark_movie :: "int \<Rightarrow> LibraryItem \<Rightarrow> LibraryItem" where
  "mark_movie watchedAt i = i\<lparr>lb_State := set_last_watched watchedAt ((lb_State i)\<lparr>st_TimesWatched := 1\<rparr>)\<rparr>"

fun movies_to_update :: "trakt_env \<Rightarrow> int \<Rightarrow> LibraryItem list \<Rightarrow> (string \<times> int) list \<Rightarrow> trakt_error + LibraryItem list" where
  "movies_to_update env now known [] = Inr []"
| "movies_to_update env now known ((imdbId, watchedAt) # movies) =
     (case item_by_id known imdbId of
        Some i \<Rightarrow>
          (if 0 < st_TimesWatched (lb_State i) then movies_to_update env now known movies
           else case movies_to_update env now known movies of
             Inl e \<Rightarrow> Inl e
           | Inr is' \<Rightarrow> Inr (mark_movie watchedAt (i\<lparr>lb_MTime := now\<rparr>) # is'))
      | None \<Rightarrow>
          (case te_meta env ''movie'' imdbId of
             Inl e \<Rightarrow> Inl (ClientError e)
           | Inr m \<Rightarrow>
               (case movies_to_update env now known movies of
                  Inl e \<Rightarrow> Inl e
                | Inr is' \<Rightarrow> Inr (mark_movie watchedAt (createLibraryItem now m zero_state) # is'))))"

definition syncMovieFromTraktToStremio ::
    "trakt_env \<Rightarrow> int \<Rightarrow> bool \<Rightarrow> LibraryItem list \<Rightarrow> (string \<times> int) list \<Rightarrow> trakt_result" where
  "syncMovieFromTraktToStremio env now isFullSync stremioMovies traktMovies =
     (case known_items env isFullSync ''movie'' stremioMovies (map fst traktMovies) of
        Inl e \<Rightarrow> (Some e, [])
      | Inr known \<Rightarrow>
          (case movies_to_update env now known traktMovies of
             Inl e \<Rightarrow> (Some e, [])
           | Inr items \<Rightarrow> send_items env items))"

text \<open>The episodes of one show: its field, whether it changed, and the date of the newest change.\<close>

fun mark_episodes ::
    "string \<Rightarrow> (int \<times> (int \<times> int) option) list \<Rightarrow> watched_bitfield \<times> bool \<times> int \<Rightarrow> watched_bitfield \<times> bool \<times> int" where
  "mark_episodes imdbId [] st = st"
| "mark_episodes imdbId ((watchedAt, ep) # items) (wbf, needsUpdate, lastWatched) =
     (case ep of
        None \<Rightarrow> mark_episodes imdbId items (wbf, needsUpdate, lastWatched)
      | Some (season, number) \<Rightarrow>
          let videoId = imdbId @ '':'' @ episode_text season number
          in if GetVideo wbf videoId then mark_episodes imdbId items (wbf, needsUpdate, lastWatched)
             else mark_episodes imdbId items (SetVideo wbf videoId True, True, if lastWatched < watchedAt then watchedAt else lastWatched))"

definition set_video_id :: "string \<Rightarrow> lib_state \<Rightarrow> lib_state" where
  "set_video_id videoId st = (if videoId \<noteq> st_VideoId st then st\<lparr>st_VideoId := videoId, st_TimeOffset := 0\<rparr> else st)"

definition show_field :: "trakt_env \<Rightarrow> string list \<Rightarrow> LibraryItem option \<Rightarrow> trakt_error + watched_bitfield" where
  "show_field env videoIds i =
     (case i of
        None \<Rightarrow> Inr (NewWatchedBitField (NewBitField8 (length videoIds)) videoIds)
      | Some l \<Rightarrow>
          if st_Watched (lb_State l) = [] then Inr (NewWatchedBitField (NewBitField8 (length videoIds)) videoIds)
          else case NewWatchedBitFieldFromString (te_inflate env) (st_Watched (lb_State l)) videoIds of
            Inl e \<Rightarrow> Inl (FieldError e)
          | Inr wbf \<Rightarrow> Inr wbf)"

definition show_change ::
    "trakt_env \<Rightarrow> int \<Rightarrow> LibraryItem list \<Rightarrow> string \<Rightarrow> (int \<times> (int \<times> int) option) list \<Rightarrow> trakt_error + LibraryItem option" where
  "show_change env now known imdbId items =
     (case te_meta env ''series'' imdbId of
        Inl e \<Rightarrow> Inl (ClientError e)
      | Inr m \<Rightarrow>
          (case show_field env (cm_Videos m) (item_by_id known imdbId) of
             Inl e \<Rightarrow> Inl e
           | Inr wbf0 \<Rightarrow>
               (case mark_episodes imdbId items (wbf0, False, 0) of
                  (wbf, needsUpdate, lastWatched) \<Rightarrow>
                    if \<not> needsUpdate then Inr None
                    else case WatchedBitField_MarshalText (te_deflate env) wbf of
                      Inl e \<Rightarrow> Inl (FieldError e)
                    | Inr watchedStr \<Rightarrow>
                        let i = (case item_by_id known imdbId of
                                   Some l \<Rightarrow> l\<lparr>lb_MTime := now\<rparr>
                                 | None \<Rightarrow> createLibraryItem now m zero_state)
                        in Inr (Some (i\<lparr>lb_State := set_video_id (GetNextUnwatchedVideoId wbf)
                             (set_last_watched lastWatched ((lb_State i)\<lparr>st_Watched := watchedStr\<rparr>))\<rparr>)))))"

definition items_of_show :: "(string \<times> int \<times> (int \<times> int) option) list \<Rightarrow> string \<Rightarrow> (int \<times> (int \<times> int) option) list" where
  "items_of_show episodes imdbId = map snd (filter (\<lambda>e. fst e = imdbId) episodes)"

fun shows_to_update ::
    "trakt_env \<Rightarrow> int \<Rightarrow> LibraryItem list \<Rightarrow> (string \<times> int \<times> (int \<times> int) option) list \<Rightarrow> string list
      \<Rightarrow> trakt_error + LibraryItem list" where
  "shows_to_update env now known episodes [] = Inr []"
| "shows_to_update env now known episodes (imdbId # shows) =
     (case show_change env now known imdbId (items_of_show episodes imdbId) of
        Inl e \<Rightarrow> Inl e
      | Inr c \<Rightarrow>
          (case shows_to_update env now known episodes shows of
             Inl e \<Rightarrow> Inl e
           | Inr is' \<Rightarrow> Inr ((case c of None \<Rightarrow> [] | Some i \<Rightarrow> [i]) @ is')))"

definition syncSeriesFromTraktToStremio ::
    "trakt_env \<Rightarrow> int \<Rightarrow> bool \<Rightarrow> LibraryItem list \<Rightarrow> (string \<times> int \<times> (int \<times> int) option) list \<Rightarrow> trakt_result" where
  "syncSeriesFromTraktToStremio env now isFullSync stremioSeries traktEpisodes =
     (let showIds = te_shows_order env (remdups (map fst traktEpisodes))
      in case known_items env isFullSync ''series'' stremioSeries showIds of
           Inl e \<Rightarrow> (Some e, [])
         | Inr known \<Rightarrow>
             (case shows_to_update env now known traktEpisodes showIds of
                Inl e \<Rightarrow> (Some e, [])
              | Inr items \<Rightarrow> send_items env items))"

section \<open>The links\<close>

datatype TraktDirection = DirectionNone | StremioToTrakt | TraktToStremio | DirectionBoth | DirectionInvalid string

definition trakt_direction :: "string \<Rightarrow> TraktDirection" where
  "trakt_direction d =
     (if d = ''none'' then DirectionNone else if d = ''stremio_to_trakt'' then StremioToTrakt
      else if d = ''trakt_to_stremio'' then TraktToStremio else if d = ''both'' then DirectionBoth else DirectionInvalid d)"

definition trakt_IsValid :: "TraktDirection \<Rightarrow> bool" where
  "trakt_IsValid d \<longleftrightarrow> d \<in> {DirectionNone, StremioToTrakt, TraktToStremio, DirectionBoth}"

definition ShouldSyncToTrakt :: "TraktDirection \<Rightarrow> bool" where
  "ShouldSyncToTrakt d \<longleftrightarrow> d = StremioToTrakt \<or> d = DirectionBoth"

definition ShouldSyncToStremio :: "TraktDirection \<Rightarrow> bool" where
  "ShouldSyncToStremio d \<longleftrightarrow> d = TraktToStremio \<or> d = DirectionBoth"

definition trakt_IsDisabled :: "TraktDirection \<Rightarrow> bool" where
  "trakt_IsDisabled d \<longleftrightarrow> d = DirectionNone"

record trakt_link =
  tl_StremioAccountId :: string
  tl_TraktAccountId :: string
  tl_Direction :: TraktDirection
  tl_LastSyncedAt :: "int option"
  tl_CAt :: int
  tl_UAt :: int

definition is_link :: "string \<Rightarrow> string \<Rightarrow> trakt_link \<Rightarrow> bool" where
  "is_link s t l \<longleftrightarrow> tl_StremioAccountId l = s \<and> tl_TraktAccountId l = t"

definition trakt_GetById :: "string \<Rightarrow> string \<Rightarrow> trakt_link list \<Rightarrow> trakt_link option" where
  "trakt_GetById s t links = find (is_link s t) links"

definition trakt_Link :: "int \<Rightarrow> string \<Rightarrow> string \<Rightarrow> TraktDirection \<Rightarrow> trakt_link list \<Rightarrow> trakt_link list option" where
  "trakt_Link now s t dir links =
     (if trakt_GetById s t links \<noteq> None then None
      else Some (links @ [\<lparr>tl_StremioAccountId = s, tl_TraktAccountId = t, tl_Direction = dir, tl_LastSyncedAt = None, tl_CAt = now, tl_UAt = now\<rparr>]))"

definition trakt_Unlink :: "string \<Rightarrow> string \<Rightarrow> trakt_link list \<Rightarrow> trakt_link list" where
  "trakt_Unlink s t links = filter (\<lambda>l. \<not> is_link s t l) links"

definition trakt_UnlinkByStremioAccount :: "string \<Rightarrow> trakt_link list \<Rightarrow> trakt_link list" where
  "trakt_UnlinkByStremioAccount s links = filter (\<lambda>l. tl_StremioAccountId l \<noteq> s) links"

definition trakt_UnlinkByTraktAccount :: "string \<Rightarrow> trakt_link list \<Rightarrow> trakt_link list" where
  "trakt_UnlinkByTraktAccount t links = filter (\<lambda>l. tl_TraktAccountId l \<noteq> t) links"

definition trakt_SetSyncConfig :: "int \<Rightarrow> string \<Rightarrow> string \<Rightarrow> TraktDirection \<Rightarrow> trakt_link list \<Rightarrow> trakt_link list" where
  "trakt_SetSyncConfig now s t dir links = map (\<lambda>l. if is_link s t l then l\<lparr>tl_Direction := dir, tl_UAt := now\<rparr> else l) links"

definition trakt_SetSyncState :: "int \<Rightarrow> string \<Rightarrow> string \<Rightarrow> int option \<Rightarrow> trakt_link list \<Rightarrow> trakt_link list" where
  "trakt_SetSyncState now s t synced links = map (\<lambda>l. if is_link s t l then l\<lparr>tl_LastSyncedAt := synced, tl_UAt := now\<rparr> else l) links"

section \<open>One link, and all of them\<close>

definition library_of :: "string \<Rightarrow> LibraryItem list \<Rightarrow> LibraryItem list" where
  "library_of ty items = filter (\<lambda>i. has_prefix (lb_Id i) ''tt'' \<and> lb_Type i = ty) items"

definition changed_library :: "trakt_env \<Rightarrow> int \<Rightarrow> trakt_error + LibraryItem list" where
  "changed_library env startAt =
     (if startAt = 0 then (case te_library env [] of Inl e \<Rightarrow> Inl (ClientError e) | Inr items \<Rightarrow> Inr items)
      else case te_timestamps env of
        Inl e \<Rightarrow> Inl (ClientError e)
      | Inr ts \<Rightarrow>
          let ids = map fst (filter (\<lambda>(i, modifiedAt). has_prefix i ''tt'' \<and> startAt < modifiedAt) ts)
          in if ids = [] then Inr []
             else case te_library env ids of Inl e \<Rightarrow> Inl (ClientError e) | Inr items \<Rightarrow> Inr items)"

text \<open>One step after the other; an error ends the sync.\<close>

definition then_sync :: "trakt_result \<Rightarrow> trakt_result \<Rightarrow> trakt_result" where
  "then_sync r1 r2 = (case r1 of (Some e, calls) \<Rightarrow> (Some e, calls) | (None, calls) \<Rightarrow> (fst r2, calls @ snd r2))"

definition trakt_syncWatched :: "trakt_env \<Rightarrow> int \<Rightarrow> trakt_link \<Rightarrow> trakt_result" where
  "trakt_syncWatched env now link =
     (let startAt = (case tl_LastSyncedAt link of None \<Rightarrow> 0 | Some t \<Rightarrow> t); isFullSync = (startAt = 0)
      in case changed_library env startAt of
           Inl e \<Rightarrow> (Some e, [])
         | Inr items \<Rightarrow>
             (case getAllTraktHistory env [] 0 (if isFullSync then None else Some startAt) of
                Inl e \<Rightarrow> (Some e, [])
              | Inr history \<Rightarrow>
                  let stremioMovies = library_of ''movie'' items; stremioSeries = library_of ''series'' items;
                      traktMovies = history_movies history; traktEpisodes = history_episodes history
                  in then_sync
                       (if ShouldSyncToTrakt (tl_Direction link)
                        then then_sync (syncMovieFromStremioToTrakt env isFullSync stremioMovies traktMovies)
                               (syncSeriesFromStremioToTrakt env isFullSync stremioSeries traktEpisodes)
                        else (None, []))
                       (if ShouldSyncToStremio (tl_Direction link)
                        then then_sync (syncMovieFromTraktToStremio env now isFullSync stremioMovies traktMovies)
                               (syncSeriesFromTraktToStremio env now isFullSync stremioSeries traktEpisodes)
                        else (None, []))))"

text \<open>
  The executor. \<open>clients\<close> gives the clients of the accounts of a link, or the error of a missing account or token; an
  error of the row's update is ignored.
\<close>

fun run_trakt_links ::
    "(trakt_link \<Rightarrow> trakt_error + trakt_env) \<Rightarrow> int \<Rightarrow> trakt_link list \<Rightarrow> trakt_link list
      \<Rightarrow> trakt_error option \<times> trakt_call list \<times> trakt_link list" where
  "run_trakt_links clients now [] t = (None, [], t)"
| "run_trakt_links clients now (l # ls) t =
     (if trakt_IsDisabled (tl_Direction l) then run_trakt_links clients now ls t
      else case clients l of
        Inl e \<Rightarrow> (Some e, [], t)
      | Inr env \<Rightarrow>
          (case trakt_syncWatched env now l of
             (Some e, calls) \<Rightarrow> (Some e, calls, t)
           | (None, calls) \<Rightarrow>
               let t' = (if te_saved env then trakt_SetSyncState now (tl_StremioAccountId l) (tl_TraktAccountId l) (Some now) t else t)
               in (case run_trakt_links clients now ls t' of (err, calls2, t2) \<Rightarrow> (err, calls @ calls2, t2))))"

definition trakt_executor ::
    "(trakt_link \<Rightarrow> trakt_error + trakt_env) \<Rightarrow> int \<Rightarrow> trakt_link list \<Rightarrow> trakt_error option \<times> trakt_call list \<times> trakt_link list" where
  "trakt_executor clients now t = run_trakt_links clients now t t"

section \<open>A link that fails\<close>

definition link_fails :: "(trakt_link \<Rightarrow> trakt_error + trakt_env) \<Rightarrow> int \<Rightarrow> trakt_link \<Rightarrow> bool" where
  "link_fails clients now l \<longleftrightarrow>
     \<not> trakt_IsDisabled (tl_Direction l) \<and> (case clients l of Inl _ \<Rightarrow> True | Inr env \<Rightarrow> fst (trakt_syncWatched env now l) \<noteq> None)"

definition trakt_key :: "trakt_link \<Rightarrow> string \<times> string" where
  "trakt_key l = (tl_StremioAccountId l, tl_TraktAccountId l)"

lemma SetSyncState_other:
  "(s, t) \<notin> trakt_key ` set ls \<Longrightarrow> trakt_SetSyncState now s t x ls = ls"
  unfolding trakt_SetSyncState_def by (rule map_idI) (auto simp: is_link_def trakt_key_def image_iff)

lemma SetSyncState_append: "trakt_SetSyncState now s t x (ls @ ls') = trakt_SetSyncState now s t x ls @ trakt_SetSyncState now s t x ls'"
  by (simp add: trakt_SetSyncState_def)

lemma length_trakt_SetSyncState [simp]: "length (trakt_SetSyncState now s t x ls) = length ls"
  by (simp add: trakt_SetSyncState_def)

lemma run_trakt_links_failing:
  assumes "link_fails clients now l"
  shows "run_trakt_links clients now (ls @ l # ls') t = run_trakt_links clients now (ls @ [l]) t
    \<and> fst (run_trakt_links clients now (ls @ [l]) t) \<noteq> None"
proof (induction ls arbitrary: t)
  case Nil
  show ?case using assms by (auto simp: link_fails_def split: sum.split prod.split option.split)
next
  case (Cons x ls)
  show ?case
  proof (cases "trakt_IsDisabled (tl_Direction x)")
    case True
    then show ?thesis using Cons.IH [of t] by simp
  next
    case False
    then show ?thesis using Cons.IH by (auto simp: Let_def case_prod_beta split: sum.split option.split)
  qed
qed

lemma run_trakt_links_tail:
  assumes "trakt_key ` set ls \<inter> trakt_key ` set u = {}"
  shows "\<exists>t'. snd (snd (run_trakt_links clients now ls (t @ u))) = t' @ u \<and> length t' = length t"
  using assms
proof (induction ls arbitrary: t)
  case (Cons x ls)
  have IH: "\<exists>t'. snd (snd (run_trakt_links clients now ls (v @ u))) = t' @ u \<and> length t' = length v" for v
    by (rule Cons.IH) (use Cons.prems in auto)
  have upd: "trakt_SetSyncState now (tl_StremioAccountId x) (tl_TraktAccountId x) y (t @ u)
      = trakt_SetSyncState now (tl_StremioAccountId x) (tl_TraktAccountId x) y t @ u" for y
    using Cons.prems by (subst SetSyncState_append, subst (2) SetSyncState_other) (auto simp: trakt_key_def)
  show ?case
    using IH [of t] IH [of "trakt_SetSyncState now (tl_StremioAccountId x) (tl_TraktAccountId x) (Some now) t"]
    by (auto simp: Let_def case_prod_beta upd split: sum.split option.split)
qed simp

text \<open>
  (error) A link that fails ends the run: the links behind it in the table are not synced, whatever they are, and
  its row and theirs stay as they were, so they wait until the failing link works again or is removed.
\<close>

theorem failing_link_starves_others:
  assumes "link_fails clients now l" and "distinct (map trakt_key (ls @ l # ls'))"
  shows "fst (trakt_executor clients now (ls @ l # ls')) \<noteq> None
    \<and> fst (snd (trakt_executor clients now (ls @ l # ls'))) = fst (snd (run_trakt_links clients now (ls @ [l]) (ls @ l # ls')))
    \<and> drop (length ls) (snd (snd (trakt_executor clients now (ls @ l # ls')))) = l # ls'"
proof -
  let ?t = "ls @ l # ls'"
  have run: "trakt_executor clients now ?t = run_trakt_links clients now (ls @ [l]) ?t"
    and err: "fst (run_trakt_links clients now (ls @ [l]) ?t) \<noteq> None"
    using run_trakt_links_failing [OF assms(1), of ls ls' ?t] by (auto simp: trakt_executor_def)
  have stays: "snd (snd (run_trakt_links clients now (ks @ [l]) t)) = snd (snd (run_trakt_links clients now ks t))" for ks t
  proof (induction ks arbitrary: t)
    case Nil
    show ?case using assms(1) by (auto simp: link_fails_def split: sum.split prod.split option.split)
  next
    case (Cons k ks)
    then show ?case by (auto simp: Let_def case_prod_beta split: sum.split option.split)
  qed
  have "trakt_key ` set ls \<inter> trakt_key ` set (l # ls') = {}" using assms(2) by auto
  from run_trakt_links_tail [OF this, of clients now ls] obtain t' where
    "snd (snd (run_trakt_links clients now ls ?t)) = t' @ l # ls'" and "length t' = length ls" by blast
  then show ?thesis using run err stays by simp
qed

section \<open>The pages of the history\<close>

lemma history_pages_all:
  assumes "\<And>page. te_history env ty i startAt page 100 = Inr (take 100 (drop ((page - 1) * 100) items))"
  shows "history_pages env ty i startAt (Suc k) (take (k * 100) items) = Some (Inr items)"
proof (induction "length items - k * 100" arbitrary: k rule: less_induct)
  case less
  show ?case
  proof (cases "length items < Suc k * 100")
    case True
    then have "length (take 100 (drop (k * 100) items)) < 100" by simp
    moreover have "take (k * 100) items @ take 100 (drop (k * 100) items) = items"
      using True by (simp add: take_add [symmetric])
    ultimately show ?thesis using True by (subst history_pages.simps) (simp add: assms)
  next
    case False
    then have "length (take 100 (drop (k * 100) items)) = 100" by simp
    moreover have "take (k * 100) items @ take 100 (drop (k * 100) items) = take (Suc k * 100) items"
      by (simp add: take_add [symmetric] add.commute)
    ultimately show ?thesis using less [of "Suc k"] False by (subst history_pages.simps) (simp add: assms)
  qed
qed

text \<open>
  (termination) Reading the history ends, and gives all of it in order, whenever the server pages a finite history,
  also if its length is a multiple of the size of a page.
\<close>

theorem getAllTraktHistory_total:
  assumes "\<And>page. te_history env ty i startAt page 100 = Inr (take 100 (drop ((page - 1) * 100) items))"
  shows "getAllTraktHistory env ty i startAt = Inr items"
  using history_pages_all [OF assms, of 0] by (simp add: getAllTraktHistory_def)

section \<open>Series from Trakt\<close>

definition in_history :: "string \<Rightarrow> (int \<times> (int \<times> int) option) list \<Rightarrow> string \<Rightarrow> bool" where
  "in_history imdbId items v \<longleftrightarrow> (\<exists>w s n. (w, Some (s, n)) \<in> set items \<and> v = imdbId @ '':'' @ episode_text s n)"

lemma in_history_Cons:
  "in_history imdbId ((w, ep) # items) v \<longleftrightarrow>
     (case ep of None \<Rightarrow> False | Some (s, n) \<Rightarrow> v = imdbId @ '':'' @ episode_text s n) \<or> in_history imdbId items v"
  by (auto simp: in_history_def split: option.split)

lemma mark_episodes_spec:
  assumes "mark_episodes imdbId items (wb, b, lw) = (wb', b', lw')" and "wb_ok wb"
  shows "wb_video_ids wb' = wb_video_ids wb \<and> wb_ok wb'
    \<and> (\<forall>v. GetVideo wb' v \<longleftrightarrow> GetVideo wb v \<or> v \<in> set (wb_video_ids wb) \<and> in_history imdbId items v)
    \<and> (b' \<longleftrightarrow> b \<or> (\<exists>v. in_history imdbId items v \<and> \<not> GetVideo wb v))"
  using assms
proof (induction items arbitrary: wb b lw)
  case Nil
  then show ?case by (simp add: in_history_def)
next
  case (Cons it items)
  obtain w ep where it: "it = (w, ep)" by fastforce
  show ?case
  proof (cases ep)
    case None
    then have "mark_episodes imdbId items (wb, b, lw) = (wb', b', lw')" using Cons.prems(1) it by simp
    from Cons.IH [OF this Cons.prems(2)] None show ?thesis by (simp add: it in_history_Cons)
  next
    case (Some sn)
    obtain s n where sn: "sn = (s, n)" by fastforce
    let ?v = "imdbId @ '':'' @ episode_text s n"
    show ?thesis
    proof (cases "GetVideo wb ?v")
      case True
      then have "mark_episodes imdbId items (wb, b, lw) = (wb', b', lw')" using Cons.prems(1) it Some sn by simp
      from Cons.IH [OF this Cons.prems(2)] True Some sn show ?thesis by (auto simp: it in_history_Cons)
    next
      case False
      then have "mark_episodes imdbId items (SetVideo wb ?v True, True, if lw < w then w else lw) = (wb', b', lw')"
        using Cons.prems(1) it Some sn by (simp add: Let_def)
      from Cons.IH [OF this] Cons.prems(2) False Some sn show ?thesis
        by (auto simp: it in_history_Cons GetVideo_SetVideo wb_ok_SetVideo)
    qed
  qed
qed

lemma show_field_ok:
  assumes "show_field env ids i = Inr wb" and "ids \<noteq> []"
  shows "wb_video_ids wb = ids" and "wb_ok wb"
  using assms from_string_ok wb_ok_new [of ids]
  by (auto simp: show_field_def NewWatchedBitField_def split: sum.splits option.splits if_splits)

lemma set_video_id_simps [simp]: "st_Watched (set_video_id v st) = st_Watched st" "st_VideoId (set_video_id v st) = v"
  by (simp_all add: set_video_id_def)

lemma show_change_SomeD:
  assumes "show_change env now known imdbId items = Inr (Some c)" and "te_meta env ''series'' imdbId = Inr m"
  obtains wb0 wb lw s where "show_field env (cm_Videos m) (item_by_id known imdbId) = Inr wb0"
    and "mark_episodes imdbId items (wb0, False, 0) = (wb, True, lw)"
    and "WatchedBitField_MarshalText (te_deflate env) wb = Inr s" and "st_Watched (lb_State c) = s"
  using assms by (auto simp: show_change_def Let_def split: sum.splits prod.splits if_splits)

text \<open>
  (refinement) The item that the sync sends to Stremio for a show of the history reads back, over the videos of the
  show, as what was watched before and every video of the list that is in the history.
\<close>

theorem show_change_union:
  assumes "\<And>vs p. te_deflate env vs = Some p \<Longrightarrow> te_inflate env p = Inflated vs"
    and "show_change env now known imdbId items = Inr (Some c)" and "te_meta env ''series'' imdbId = Inr m"
    and "show_field env (cm_Videos m) (item_by_id known imdbId) = Inr wb0"
    and "distinct (cm_Videos m)" and "cm_Videos m \<noteq> []" and "length (cm_Videos m) < 2 ^ 62"
  shows "\<exists>wb. NewWatchedBitFieldFromString (te_inflate env) (st_Watched (lb_State c)) (cm_Videos m) = Inr wb
    \<and> (\<forall>v. GetVideo wb v \<longleftrightarrow> GetVideo wb0 v \<or> v \<in> set (cm_Videos m) \<and> in_history imdbId items v)"
proof -
  obtain wb lw s where mark: "mark_episodes imdbId items (wb0, False, 0) = (wb, True, lw)"
    and s: "WatchedBitField_MarshalText (te_deflate env) wb = Inr s" "st_Watched (lb_State c) = s"
    using show_change_SomeD [OF assms(2,3)] assms(4) by (metis Inr_inject)
  note ok = show_field_ok [OF assms(4,6)]
  note wb = mark_episodes_spec [OF mark ok(2)]
  obtain wb' where "NewWatchedBitFieldFromString (te_inflate env) s (wb_video_ids wb) = Inr wb'"
    and "wb_video_ids wb' = wb_video_ids wb"
    and "\<forall>i. get_bit (bf_values (wb_bitfield wb')) i = get_bit (bf_values (wb_bitfield wb)) i"
    using watched_text_roundtrip [where inflate = "te_inflate env", OF assms(1) s(1)] wb ok(1) assms(5-7) by force
  moreover have "GetVideo wb' v \<longleftrightarrow> GetVideo wb0 v \<or> v \<in> set (cm_Videos m) \<and> in_history imdbId items v" for v
    using GetVideo_same_bits [OF calculation(2,3)] wb ok(1) by simp
  ultimately show ?thesis using wb ok(1) s(2) by simp
qed

text \<open>
  (error) An episode of the history that is not among the videos of the show never counts as watched: whatever the
  library holds, the show is taken as changed and written again by every sync that sees the episode.
\<close>

theorem unknown_episode_never_settles:
  assumes "te_meta env ''series'' imdbId = Inr m" and "(w, Some (s, n)) \<in> set items"
    and "imdbId @ '':'' @ episode_text s n \<notin> set (cm_Videos m)" and "cm_Videos m \<noteq> []"
  shows "show_change env now known imdbId items \<noteq> Inr None"
proof
  assume no: "show_change env now known imdbId items = Inr None"
  then obtain wb0 where field: "show_field env (cm_Videos m) (item_by_id known imdbId) = Inr wb0"
    using assms(1) by (auto simp: show_change_def split: sum.splits)
  obtain wb b lw where mark: "mark_episodes imdbId items (wb0, False, 0) = (wb, b, lw)" by (metis prod_cases3)
  note ok = show_field_ok [OF field assms(4)]
  have "in_history imdbId items (imdbId @ '':'' @ episode_text s n)" using assms(2) by (auto simp: in_history_def)
  moreover have "\<not> GetVideo wb0 (imdbId @ '':'' @ episode_text s n)"
    using GetVideo_in [of wb0 "imdbId @ '':'' @ episode_text s n"] assms(3) ok(1) by auto
  ultimately have b using mark_episodes_spec [OF mark ok(2)] by blast
  then show False using no field mark assms(1) by (auto simp: show_change_def Let_def split: sum.splits)
qed

section \<open>What is sent to Trakt\<close>

lemma by_season_append: "by_season (eps @ [(s, e)]) =
    AList.update s ((case map_of (by_season eps) s of None \<Rightarrow> [] | Some es \<Rightarrow> es) @ [e]) (by_season eps)"
  by (simp add: by_season_def)

lemma by_season_spec: "distinct (map fst (by_season eps)) \<and> (\<forall>s. map_of (by_season eps) s =
    (let es = map snd (filter (\<lambda>p. fst p = s) eps) in if es = [] then None else Some es))"
proof (induction eps rule: rev_induct)
  case Nil
  show ?case by (simp add: by_season_def)
next
  case (snoc p eps)
  obtain s e where p: "p = (s, e)" by fastforce
  show ?case using snoc
    by (auto simp: p by_season_append update_conv' Let_def distinct_update filter_empty_conv split: option.splits if_splits)
qed

definition sent_episodes :: "history_show list \<Rightarrow> (string \<times> int \<times> int) set" where
  "sent_episodes hs = {(hs_IMDB h, s, e) | h s e es. h \<in> set hs \<and> (s, es) \<in> set (hs_Seasons h) \<and> e \<in> set es}"

lemma sent_episodes_append [simp]: "sent_episodes (a @ b) = sent_episodes a \<union> sent_episodes b"
  by (auto simp: sent_episodes_def) 

lemma sent_episodes_Nil [simp]: "sent_episodes [] = {}"
  by (simp add: sent_episodes_def)

lemma sent_show_entry:
  assumes "\<And>xs. set (te_seasons_order env xs) = set xs"
  shows "sent_episodes [show_entry env i (by_season eps)] = {(i, s, e) | s e. (s, e) \<in> set eps}"
proof -
  note spec = by_season_spec [of eps]
  have "(\<exists>es. (s, es) \<in> set (hs_Seasons (show_entry env i (by_season eps))) \<and> e \<in> set es) \<longleftrightarrow> (s, e) \<in> set eps" for s e
  proof -
    have "s \<in> fst ` set (by_season eps) \<longleftrightarrow> map_of (by_season eps) s \<noteq> None" by (simp add: map_of_eq_None_iff)
    also have "\<dots> \<longleftrightarrow> (\<exists>e. (s, e) \<in> set eps)" using spec by (auto simp: Let_def filter_empty_conv)
    finally have dom: "s \<in> fst ` set (by_season eps) \<longleftrightarrow> (\<exists>e. (s, e) \<in> set eps)" .
    have "the (map_of (by_season eps) s) = map snd (filter (\<lambda>p. fst p = s) eps)" if "(s, e') \<in> set eps" for e'
      using spec that by (force simp: Let_def filter_empty_conv)
    with dom show ?thesis by (force simp: show_entry_def assms image_iff)
  qed
  then show ?thesis by (auto simp: sent_episodes_def show_entry_def)
qed

lemma by_season_Nil_iff: "by_season eps = [] \<longleftrightarrow> eps = []"
proof (cases eps rule: rev_cases)
  case (snoc ys y)
  then show ?thesis by (cases y) (simp add: by_season_append update_nonempty)
qed (simp add: by_season_def)

lemma set_new_episodes:
  "(s, e) \<in> set (new_episodes watched i wb vs) \<longleftrightarrow>
     (\<exists>v \<in> set vs. GetVideo wb v \<and> video_episode v = Some (s, e)) \<and> (i, episode_text s e) \<notin> set watched"
  by (auto simp: new_episodes_def set_somes image_iff split: if_splits option.splits) force+

text \<open>The episodes that an item of the library counts as watched.\<close>

definition item_watches :: "trakt_env \<Rightarrow> LibraryItem \<Rightarrow> int \<Rightarrow> int \<Rightarrow> bool" where
  "item_watches env i s e \<longleftrightarrow> st_Watched (lb_State i) \<noteq> [] \<and>
     (case te_meta env ''series'' (lb_Id i) of
        Inl _ \<Rightarrow> False
      | Inr m \<Rightarrow>
          (case NewWatchedBitFieldFromString (te_inflate env) (st_Watched (lb_State i)) (cm_Videos m) of
             Inl _ \<Rightarrow> False
           | Inr wb \<Rightarrow> \<exists>v \<in> set (cm_Videos m). GetVideo wb v \<and> video_episode v = Some (s, e)))"

text \<open>
  C16: (functional) A full sync sends to Trakt exactly the episodes, with a season and a number from one, of the videos
  that are watched in Stremio and whose show does not have them in the history.
\<close>

theorem full_sync_episodes:
  assumes "\<And>xs. set (te_seasons_order env xs) = set xs" and "shows_to_add env True known watched items = Inr (shows', maps)"
  shows "(k, s, e) \<in> sent_episodes shows' \<longleftrightarrow>
    (\<exists>i \<in> set items. lb_Id i = k \<and> item_watches env i s e) \<and> (k, episode_text s e) \<notin> set watched"
  using assms(2)
proof (induction items arbitrary: shows' maps)
  case (Cons i items)
  show ?case
  proof (cases "st_Watched (lb_State i) = []")
    case True
    then show ?thesis using Cons by (auto simp: item_watches_def)
  next
    case False
    then obtain m where m: "te_meta env ''series'' (lb_Id i) = Inr m" using Cons.prems by (auto split: sum.splits)
    show ?thesis
    proof (cases "NewWatchedBitFieldFromString (te_inflate env) (st_Watched (lb_State i)) (cm_Videos m)")
      case (Inl err)
      then show ?thesis using Cons False m by (auto simp: item_watches_def)
    next
      case (Inr wb)
      let ?eps = "new_episodes watched (lb_Id i) wb (cm_Videos m)"
      obtain rest where rest: "shows_to_add env True known watched items = Inr (rest, maps)"
        and shows': "shows' = (if by_season ?eps = [] then [] else [show_entry env (lb_Id i) (by_season ?eps)]) @ rest"
        using Cons.prems False m Inr by (auto simp: extend_history_def Let_def split: sum.splits)
      have "sent_episodes shows' = {(lb_Id i, s, e) | s e. (s, e) \<in> set ?eps} \<union> sent_episodes rest"
        using sent_show_entry [OF assms(1), of "lb_Id i" ?eps] by (auto simp: shows' by_season_Nil_iff)
      moreover have "(s, e) \<in> set ?eps \<longleftrightarrow> item_watches env i s e \<and> (lb_Id i, episode_text s e) \<notin> set watched" for s e
        using False m Inr by (simp add: set_new_episodes item_watches_def)
      ultimately show ?thesis using Cons.IH [OF rest] by auto
    qed
  qed
qed simp

section \<open>Movies\<close>

lemma check_movies_spec:
  "check_movies env known items = Inr (toAdd, maps) \<Longrightarrow> x \<in> set toAdd \<Longrightarrow>
     (\<exists>i \<in> set items. x = movie_entry i) \<and> (\<exists>t. te_history env ''movies'' t None 0 0 = Inr [])"
  by (induction items arbitrary: toAdd maps) (auto split: option.splits sum.splits prod.splits if_splits)

lemma send_movies_calls: "AddMovies ms \<in> set (snd (send_movies env toAdd)) \<longleftrightarrow> ms = toAdd \<and> toAdd \<noteq> []"
  by (auto simp: send_movies_def)

lemma save_id_maps_calls [simp]: "AddMovies ms \<notin> set (save_id_maps maps)"
  by (simp add: save_id_maps_def)

text \<open>
  (safety) A movie is added to the history only if it is watched in Stremio, with the date it has there, and is not
  in the part of the history that was read; outside of a full sync the whole history was read and had nothing of it.
\<close>

theorem movie_not_added_twice:
  assumes "AddMovies ms \<in> set (snd (syncMovieFromStremioToTrakt env isFullSync library watched))" and "(k, w) \<in> set ms"
  shows "(\<exists>i \<in> set library. lb_Id i = k \<and> st_TimesWatched (lb_State i) \<noteq> 0 \<and> st_LastWatched (lb_State i) = w)
    \<and> k \<notin> fst ` set watched \<and> (isFullSync \<or> (\<exists>t. te_history env ''movies'' t None 0 0 = Inr []))"
proof -
  let ?new = "filter (movie_is_new watched) library"
  have "(\<exists>i \<in> set ?new. (k, w) = movie_entry i) \<and> (isFullSync \<or> (\<exists>t. te_history env ''movies'' t None 0 0 = Inr []))"
  proof (cases isFullSync)
    case True
    then show ?thesis using assms by (auto simp: syncMovieFromStremioToTrakt_def Let_def send_movies_calls)
  next
    case False
    with assms(1) obtain idMaps maps where "check_movies env (known_trakt_ids idMaps) ?new = Inr (ms, maps)"
      by (auto simp: syncMovieFromStremioToTrakt_def Let_def case_prod_beta send_movies_calls split: sum.splits)
    from check_movies_spec [OF this assms(2)] show ?thesis by blast
  qed
  then show ?thesis by (auto simp: movie_is_new_def movie_entry_def)
qed

lemma movies_to_update_append:
  "movies_to_update env now known (a @ b) = Inr cs \<Longrightarrow>
     \<exists>ca cb. movies_to_update env now known a = Inr ca \<and> movies_to_update env now known b = Inr cb \<and> cs = ca @ cb"
proof (induction a arbitrary: cs)
  case (Cons x a)
  obtain k w where "x = (k, w)" by fastforce
  with Cons show ?case by (auto split: option.splits sum.splits if_splits)
qed simp

text \<open>
  (error) The library is not brought up to date between the entries of the history: a movie that was watched twice is
  sent twice, and as the history comes with the newest entry first, the last item sent has the older date.
\<close>

theorem repeated_movie_gets_old_date:
  assumes "movies_to_update env now known (ms @ [(k, w)]) = Inr changes" and "(k, w') \<in> set ms" and "w < w'"
    and "item_by_id known k = Some l" and "st_TimesWatched (lb_State l) = 0" and "st_LastWatched (lb_State l) \<le> w"
  shows "\<exists>c. item_by_id changes k = Some c \<and> st_LastWatched (lb_State c) = w
    \<and> (\<exists>c' \<in> set changes. lb_Id c' = k \<and> st_LastWatched (lb_State c') = w')"
proof -
  let ?c = "\<lambda>v. mark_movie v (l\<lparr>lb_MTime := now\<rparr>)"
  have id: "lb_Id (?c v) = k" for v using item_by_id_Some [OF assms(4)] by (simp add: mark_movie_def)
  have date: "st_LastWatched (lb_State (?c v)) = v" if "w \<le> v" for v using assms(6) that by (simp add: mark_movie_def)
  obtain cs where cs: "movies_to_update env now known ms = Inr cs" "changes = cs @ [?c w]"
    using movies_to_update_append [OF assms(1)] assms(4,5) by auto
  obtain a b where "ms = a @ (k, w') # b" using assms(2) by (meson split_list)
  then obtain ca cb where "movies_to_update env now known ((k, w') # b) = Inr cb" "cs = ca @ cb"
    using movies_to_update_append [of env now known a "(k, w') # b" cs] cs(1) by blast
  then have "?c w' \<in> set changes" using assms(4,5) cs(2) by (auto split: sum.splits)
  moreover have "item_by_id changes k = Some (?c w)" using id [of w] cs(2) by (simp add: item_by_id_def)
  ultimately show ?thesis using id date assms(3) by (metis less_imp_le order_refl)
qed

section \<open>A sample\<close>

definition sample_meta :: cine_meta where
  "sample_meta =
     \<lparr>cm_Id = ''tt1'', cm_Type = ''series'', cm_Name = ''x'', cm_Poster = [], cm_PosterShape = [], cm_Background = [], cm_Logo = [],
      cm_ReleaseInfo = [], cm_Videos = [''tt1:1:1'', ''tt1:1:2'']\<rparr>"

definition sample_history :: "history_item list" where
  "sample_history = replicate 230 \<lparr>hi_WatchedAt = 7, hi_Type = ''episode'', hi_Movie = None, hi_Episode = Some (1, 1),
     hi_Show = Some \<lparr>ti_Trakt = 5, ti_IMDB = ''tt1'', ti_TMDB = 0, ti_TVDB = 0\<rparr>\<rparr>"

definition sample_trakt :: trakt_env where
  "sample_trakt =
     \<lparr>te_meta = (\<lambda>_ _. Inr sample_meta), te_inflate = raw_unzip, te_deflate = raw_zip, te_library = (\<lambda>_. Inr [sample_series_item]),
      te_timestamps = Inr [], te_update = (\<lambda>_. Some ''timeout''),
      te_history = (\<lambda>_ _ _ page n. Inr (take n (drop ((page - 1) * n) sample_history))), te_lookup = (\<lambda>_ _. Inr []),
      te_add_movies = (\<lambda>_. None), te_add_shows = (\<lambda>_. None), te_id_rows = (\<lambda>_. Inr []), te_shows_order = id, te_seasons_order = rev,
      te_saved = True\<rparr>"

definition sample_trakt_link :: "string \<Rightarrow> TraktDirection \<Rightarrow> trakt_link" where
  "sample_trakt_link a dir =
     \<lparr>tl_StremioAccountId = a, tl_TraktAccountId = ''t'', tl_Direction = dir, tl_LastSyncedAt = None, tl_CAt = 1, tl_UAt = 1\<rparr>"

definition sample_clients :: "trakt_link \<Rightarrow> trakt_error + trakt_env" where
  "sample_clients l = (if tl_StremioAccountId l = ''b'' then Inl (ClientError ''token'') else Inr sample_trakt)"

theorem failing_link_starves_others_witness:
  "drop 1 (snd (snd (trakt_executor sample_clients 9
       [sample_trakt_link ''a'' DirectionNone, sample_trakt_link ''b'' DirectionBoth, sample_trakt_link ''c'' DirectionBoth])))
     = [sample_trakt_link ''b'' DirectionBoth, sample_trakt_link ''c'' DirectionBoth]"
  using failing_link_starves_others [of sample_clients 9 "sample_trakt_link ''b'' DirectionBoth" "[sample_trakt_link ''a'' DirectionNone]"
      "[sample_trakt_link ''c'' DirectionBoth]"]
  by (simp add: link_fails_def sample_trakt_link_def sample_clients_def trakt_IsDisabled_def trakt_key_def)

theorem getAllTraktHistory_total_witness: "getAllTraktHistory sample_trakt [] 0 None = Inr sample_history \<and> length sample_history = 230"
  using getAllTraktHistory_total [of sample_trakt "[]" 0 None sample_history] by (simp add: sample_trakt_def sample_history_def)

theorem show_change_union_witness:
  "\<exists>c wb. show_change sample_trakt 9 [sample_series_item] ''tt1'' [(7, Some (1, 1)), (8, Some (3, 4))] = Inr (Some c)
     \<and> NewWatchedBitFieldFromString raw_unzip (st_Watched (lb_State c)) [''tt1:1:1'', ''tt1:1:2''] = Inr wb
     \<and> GetVideo wb ''tt1:1:1'' \<and> GetVideo wb ''tt1:1:2''"
proof -
  let ?items = "[(7, Some (1, 1)), (8, Some (3, 4))]"
  have "case show_change sample_trakt 9 [sample_series_item] ''tt1'' ?items of Inr (Some _) \<Rightarrow> True | _ \<Rightarrow> False" by code_simp
  then obtain c where c: "show_change sample_trakt 9 [sample_series_item] ''tt1'' ?items = Inr (Some c)"
    by (auto split: sum.splits option.splits)
  have "case show_field sample_trakt (cm_Videos sample_meta) (item_by_id [sample_series_item] ''tt1'') of
      Inr wb \<Rightarrow> GetVideo wb ''tt1:1:2'' | _ \<Rightarrow> False" by code_simp
  then obtain wb0 where f: "show_field sample_trakt (cm_Videos sample_meta) (item_by_id [sample_series_item] ''tt1'') = Inr wb0"
    and v: "GetVideo wb0 ''tt1:1:2''" by (auto split: sum.splits)
  have "in_history ''tt1'' ?items ''tt1:1:1''"
    unfolding in_history_def by (intro exI [of _ 7] exI [of _ 1] conjI) (simp, code_simp)
  moreover have "te_inflate sample_trakt p = Inflated vs" if "te_deflate sample_trakt vs = Some p" for vs p
    using raw_unzip_zip that by (simp add: sample_trakt_def)
  moreover have "te_meta sample_trakt ''series'' ''tt1'' = Inr sample_meta" by (simp add: sample_trakt_def)
  moreover have "distinct (cm_Videos sample_meta)" "cm_Videos sample_meta \<noteq> []" "length (cm_Videos sample_meta) < 2 ^ 62"
    by (simp_all add: sample_meta_def)
  ultimately obtain wb where "NewWatchedBitFieldFromString (te_inflate sample_trakt) (st_Watched (lb_State c)) (cm_Videos sample_meta) = Inr wb"
    and "GetVideo wb ''tt1:1:1''" "GetVideo wb ''tt1:1:2''"
    using show_change_union [OF _ c _ f] v by (auto simp: sample_meta_def)
  with c show ?thesis by (auto simp: sample_trakt_def sample_meta_def)
qed

theorem unknown_episode_never_settles_witness: "show_change sample_trakt 9 [] ''tt1'' [(8, Some (3, 4))] \<noteq> Inr None"
proof (rule unknown_episode_never_settles)
  show "te_meta sample_trakt ''series'' ''tt1'' = Inr sample_meta" by (simp add: sample_trakt_def)
  show "(8, Some (3, 4)) \<in> set [(8, Some (3, 4))]" by simp
  show "''tt1'' @ '':'' @ episode_text 3 4 \<notin> set (cm_Videos sample_meta)" by code_simp
qed (simp add: sample_meta_def)

theorem full_sync_episodes_witness:
  "\<exists>hs maps. shows_to_add sample_trakt True (\<lambda>_. None) [(''tt1'', ''1:1'')] [sample_series_item] = Inr (hs, maps)
     \<and> (''tt1'', 1, 2) \<in> sent_episodes hs \<and> (''tt1'', 1, 1) \<notin> sent_episodes hs"
proof -
  have "case shows_to_add sample_trakt True (\<lambda>_. None) [(''tt1'', ''1:1'')] [sample_series_item] of Inr _ \<Rightarrow> True | _ \<Rightarrow> False"
    by code_simp
  then obtain hs maps where r: "shows_to_add sample_trakt True (\<lambda>_. None) [(''tt1'', ''1:1'')] [sample_series_item] = Inr (hs, maps)"
    by (auto split: sum.splits)
  have "item_watches sample_trakt sample_series_item 1 2" "(''tt1'', episode_text 1 2) \<notin> set [(''tt1'', ''1:1'')]"
    "(''tt1'', episode_text 1 1) \<in> set [(''tt1'', ''1:1'')]" "lb_Id sample_series_item = ''tt1''" by code_simp+
  moreover have "set (te_seasons_order sample_trakt xs) = set xs" for xs by (simp add: sample_trakt_def)
  ultimately have "(''tt1'', 1, 2) \<in> sent_episodes hs \<and> (''tt1'', 1, 1) \<notin> sent_episodes hs"
    using full_sync_episodes [OF _ r] by auto
  with r show ?thesis by blast
qed

theorem movie_not_added_twice_witness:
  "AddMovies [(''tt1'', 50)] \<in> set (snd (syncMovieFromStremioToTrakt sample_trakt True [sample_movie] [(''tt2'', 3)]))
     \<and> ''tt1'' \<notin> fst ` set [(''tt2'', 3 :: int)]"
proof -
  have "AddMovies [(''tt1'', 50)] \<in> set (snd (syncMovieFromStremioToTrakt sample_trakt True [sample_movie] [(''tt2'', 3)]))"
    by code_simp
  from movie_not_added_twice [OF this] this show ?thesis by auto
qed

theorem repeated_movie_gets_old_date_witness:
  "\<exists>changes c. movies_to_update sample_trakt 9 [sample_lib ''tt1'' ''movie'' False zero_state] [(''tt1'', 80), (''tt1'', 20)] = Inr changes
     \<and> item_by_id changes ''tt1'' = Some c \<and> st_LastWatched (lb_State c) = 20"
proof -
  let ?known = "[sample_lib ''tt1'' ''movie'' False zero_state]"
  have "case movies_to_update sample_trakt 9 ?known [(''tt1'', 80), (''tt1'', 20)] of Inr _ \<Rightarrow> True | _ \<Rightarrow> False" by code_simp
  then obtain changes where "movies_to_update sample_trakt 9 ?known [(''tt1'', 80), (''tt1'', 20)] = Inr changes"
    by (auto split: sum.splits)
  with repeated_movie_gets_old_date [of sample_trakt 9 ?known "[(''tt1'', 80)]" "''tt1''" 20 changes 80 "hd ?known"]
  show ?thesis by (auto simp: item_by_id_def sample_lib_def zero_state_def)
qed

end
