(* ===== verification/DB_Types.thy ===== *)
theory DB_Types
  imports Util
begin

text \<open>
  How values go into the database and come back (\<open>internal/db/types.go\<close>), how query texts are built
  (\<open>internal/db/util.go\<close>) and how a statement is executed (\<open>internal/db/db.go\<close>).

  A time is the number of nanoseconds since the zero time of Go (the start of the year 1, UTC). Opening and closing the
  database and the handles of transactions only call the driver.
\<close>

section \<open>The calendar of package time\<close>

definition leap_year :: "int \<Rightarrow> bool" where
  "leap_year y \<longleftrightarrow> y mod 4 = 0 \<and> (y mod 100 \<noteq> 0 \<or> y mod 400 = 0)"

definition month_days :: "int \<Rightarrow> int \<Rightarrow> int" where
  "month_days y m = (if m = 2 then (if leap_year y then 29 else 28) else if m \<in> {4, 6, 9, 11} then 30 else 31)"

definition year_start :: "int \<Rightarrow> int" where
  "year_start y = 365 * (y - 1) + (y - 1) div 4 - (y - 1) div 100 + (y - 1) div 400"

text \<open>Days of a year before a month.\<close>

definition month_start :: "int \<Rightarrow> int \<Rightarrow> int" where
  "month_start y m =
     (if m \<le> 1 then 0 else if m = 2 then 31
      else (if leap_year y then 1 else 0) +
        (if m = 3 then 59 else if m = 4 then 90 else if m = 5 then 120 else if m = 6 then 151 else if m = 7 then 181
         else if m = 8 then 212 else if m = 9 then 243 else if m = 10 then 273 else if m = 11 then 304 else 334))"

definition days_of_date :: "int \<Rightarrow> int \<Rightarrow> int \<Rightarrow> int" where
  "days_of_date y m d = year_start y + month_start y m + d - 1"

definition valid_date :: "int \<Rightarrow> int \<Rightarrow> int \<Rightarrow> bool" where
  "valid_date y m d \<longleftrightarrow> 1 \<le> m \<and> m \<le> 12 \<and> 1 \<le> d \<and> d \<le> month_days y m"

text \<open>The date of a day, by cycles of 400, 100, 4 and 1 years.\<close>

definition year_of_day :: "int \<Rightarrow> int" where
  "year_of_day n =
     (let n400 = n div 146097; r = n mod 146097;
          n100 = min 3 (r div 36524); r = r - n100 * 36524;
          n4 = r div 1461; r = r mod 1461
      in 400 * n400 + 100 * n100 + 4 * n4 + min 3 (r div 365) + 1)"

fun find_month :: "int \<Rightarrow> int \<Rightarrow> int list \<Rightarrow> int" where
  "find_month y yday [] = 1"
| "find_month y yday (m # ms) = (if month_start y m \<le> yday then m else find_month y yday ms)"

definition date_of_day :: "int \<Rightarrow> int \<times> int \<times> int" where
  "date_of_day n =
     (let y = year_of_day n; yday = n - year_start y; m = find_month y yday [12, 11, 10, 9, 8, 7, 6, 5, 4, 3, 2, 1]
      in (y, m, yday - month_start y m + 1))"

definition day_nanos :: int where
  "day_nanos = 86400 * 10 ^ 9"

definition Format_DateOnly :: "int \<Rightarrow> string" where
  "Format_DateOnly t =
     (case date_of_day (t div day_nanos) of
        (y, m, d) \<Rightarrow> ZeroPadInt y 4 @ ''-'' @ pad_digits 2 (nat m) @ ''-'' @ pad_digits 2 (nat d))"

text \<open>\<open>time.Parse\<close> with that layout.\<close>

definition Parse_DateOnly :: "string \<Rightarrow> int option" where
  "Parse_DateOnly s =
     (let y = take 4 s; m = take 2 (drop 5 s); d = drop 8 s
      in if length s = 10 \<and> s ! 4 = CHR ''-'' \<and> s ! 7 = CHR ''-'' \<and> list_all is_digit (y @ m @ d)
         then let yv = digits_val 0 y; mv = digits_val 0 m; dv = digits_val 0 d
              in if valid_date yv mv dv then Some (days_of_date yv mv dv * day_nanos) else None
         else None)"

definition unix_epoch :: int where
  "unix_epoch = 62135596800 * 10 ^ 9"

definition Unix :: "int \<Rightarrow> int" where
  "Unix t = (t - unix_epoch) div 10 ^ 9"

definition time_Unix :: "int \<Rightarrow> int" where
  "time_Unix s = s * 10 ^ 9 + unix_epoch"

section \<open>types.go\<close>

text \<open>What a driver takes and gives.\<close>

datatype sql_value = SqlInt int | SqlString string | SqlBytes string | SqlTime int | SqlNull | SqlOther

datatype DBDialect = Postgres | SQLite

definition Timestamp_IsZero :: "int \<Rightarrow> bool" where
  "Timestamp_IsZero t \<longleftrightarrow> t = 0 \<or> Unix t \<le> 0"

definition Timestamp_Value :: "DBDialect \<Rightarrow> int \<Rightarrow> sql_value" where
  "Timestamp_Value dialect t =
     (if Timestamp_IsZero t then SqlNull else if dialect = Postgres then SqlTime t else SqlInt (Unix t))"

definition Timestamp_Scan :: "sql_value \<Rightarrow> string + int" where
  "Timestamp_Scan v =
     (case v of
        SqlInt n \<Rightarrow> Inr (time_Unix n)
      | SqlTime t \<Rightarrow> Inr t
      | SqlNull \<Rightarrow> Inr 0
      | _ \<Rightarrow> Inl ''failed to convert value to db.Timestamp'')"

definition DateOnly_IsZero :: "int \<Rightarrow> bool" where
  "DateOnly_IsZero t \<longleftrightarrow> t = 0 \<or> Unix t \<le> 0"

definition DateOnly_String :: "int \<Rightarrow> string" where
  "DateOnly_String t = (if t = 0 then [] else Format_DateOnly t)"

definition DateOnly_Value :: "int \<Rightarrow> sql_value" where
  "DateOnly_Value t = (if DateOnly_IsZero t then SqlNull else SqlString (Format_DateOnly t))"

text \<open>A text that is no date gives the zero time.\<close>

definition DateOnly_Scan :: "sql_value \<Rightarrow> string + int" where
  "DateOnly_Scan v =
     (case v of
        SqlString s \<Rightarrow>
          Inr (if s = [] then time_Unix 0 else case Parse_DateOnly s of None \<Rightarrow> 0 | Some t \<Rightarrow> t)
      | SqlTime t \<Rightarrow> Inr t
      | SqlNull \<Rightarrow> Inr (time_Unix 0)
      | _ \<Rightarrow> Inl ''failed to convert value to db.Timestamp'')"

definition NullString_Is :: "string \<Rightarrow> string \<Rightarrow> bool" where
  "NullString_Is nv v \<longleftrightarrow> nv = v"

definition NullString_IsZero :: "string \<Rightarrow> bool" where
  "NullString_IsZero nv \<longleftrightarrow> nv = []"

definition NullString_Value :: "string \<Rightarrow> sql_value" where
  "NullString_Value nv = (if NullString_IsZero nv then SqlNull else SqlString nv)"

definition NullString_Scan :: "sql_value \<Rightarrow> string + string" where
  "NullString_Scan v =
     (case v of SqlBytes s \<Rightarrow> Inr s | SqlString s \<Rightarrow> Inr s | SqlNull \<Rightarrow> Inr [] | _ \<Rightarrow> Inl ''failed to convert value'')"

definition is_comma :: "char \<Rightarrow> bool" where
  "is_comma c \<longleftrightarrow> c = CHR '',''"

definition Strings_Value :: "string list \<Rightarrow> sql_value" where
  "Strings_Value css = SqlString (if css = [] then [] else '','' @ go_join '','' css @ '','')"

definition sql_text :: "sql_value \<Rightarrow> string + string" where
  "sql_text v = (case v of SqlString s \<Rightarrow> Inr s | SqlBytes s \<Rightarrow> Inr s | _ \<Rightarrow> Inl ''failed to convert value to string'')"

definition Strings_Scan :: "sql_value \<Rightarrow> string + string list" where
  "Strings_Scan v =
     (if v = SqlNull then Inr []
      else case sql_text v of
        Inl e \<Rightarrow> Inl e
      | Inr str \<Rightarrow> Inr (if str = [] then [] else split_on CHR '','' (trim_func is_comma str)))"

definition Ints_Value :: "int list \<Rightarrow> sql_value" where
  "Ints_Value csi = Strings_Value (map itoa csi)"

fun atoi_all :: "string list \<Rightarrow> string + int list" where
  "atoi_all [] = Inr []"
| "atoi_all (s # ss) =
     (case atoi s of
        None \<Rightarrow> Inl (''strconv.Atoi: parsing '' @ s)
      | Some n \<Rightarrow> (case atoi_all ss of Inl e \<Rightarrow> Inl e | Inr ns \<Rightarrow> Inr (n # ns)))"

definition Ints_Scan :: "sql_value \<Rightarrow> string + int list" where
  "Ints_Scan v = (case Strings_Scan v of Inl e \<Rightarrow> Inl e | Inr css \<Rightarrow> atoi_all css)"

section \<open>util.go\<close>

text \<open>\<open>adaptQuery\<close>: the placeholders of Postgres are numbered.\<close>

fun number_marks :: "int \<Rightarrow> string \<Rightarrow> string" where
  "number_marks pos [] = []"
| "number_marks pos (c # q) = (if c = CHR ''?'' then CHR ''$'' # itoa pos @ number_marks (pos + 1) q else c # number_marks pos q)"

definition adaptQuery :: "DBDialect \<Rightarrow> string \<Rightarrow> string" where
  "adaptQuery dialect query = (if dialect = SQLite then query else number_marks 1 query)"

definition quote_mark :: string where
  "quote_mark = [CHR 0x22]"

definition JoinColumnNames :: "string list \<Rightarrow> string" where
  "JoinColumnNames columns = quote_mark @ go_join (quote_mark @ '','' @ quote_mark) columns @ quote_mark"

definition JoinPrefixedColumnNames :: "string \<Rightarrow> string list \<Rightarrow> string" where
  "JoinPrefixedColumnNames prefix columns =
     prefix @ quote_mark @ go_join (quote_mark @ '','' @ prefix @ quote_mark) columns @ quote_mark"

record connection_uri =
  cu_Scheme :: string
  cu_Host :: string
  cu_DriverName :: string
  cu_Dialect :: "DBDialect option"

text \<open>\<open>ParseConnectionURI\<close>, from the scheme and the host that \<open>url.Parse\<close> found.\<close>

definition ParseConnectionURI :: "string + string \<times> string \<Rightarrow> string + connection_uri" where
  "ParseConnectionURI parsed =
     (case parsed of
        Inl e \<Rightarrow> Inl e
      | Inr (scheme, host) \<Rightarrow>
          let uri = \<lparr>cu_Scheme = scheme, cu_Host = host, cu_DriverName = [], cu_Dialect = None\<rparr>
          in if scheme = ''sqlite''
             then if host \<noteq> [] \<and> host \<noteq> ''.'' then Inl ''invalid path, must start with / or ./''
                  else Inr (uri\<lparr>cu_Dialect := Some SQLite, cu_DriverName := ''sqlite3''\<rparr>)
             else if scheme = ''postgresql'' then Inr (uri\<lparr>cu_Dialect := Some Postgres, cu_DriverName := ''pgx''\<rparr>)
             else Inl (''unsupported scheme: '' @ scheme))"

text \<open>\<open>PrepareFTS5Query\<close>: quotes are doubled, symbols are blanks, runs of blanks are one.\<close>

definition double_quotes :: "string \<Rightarrow> string" where
  "double_quotes s = concat (map (\<lambda>c. if [c] = quote_mark then quote_mark @ quote_mark else [c]) s)"

definition blank_symbols :: "string \<Rightarrow> string" where
  "blank_symbols s = map (\<lambda>c. if c \<in> set ''-+*:^'' then CHR '' '' else c) s"

definition re_space :: "char \<Rightarrow> bool" where
  "re_space c \<longleftrightarrow> (of_char c :: nat) \<in> {9, 10, 12, 13, 32}"

function squeeze_blanks :: "string \<Rightarrow> string" where
  "squeeze_blanks [] = []"
| "squeeze_blanks (c # s) =
     (if re_space c \<and> (case s of [] \<Rightarrow> False | d # _ \<Rightarrow> re_space d) then CHR '' '' # squeeze_blanks (dropWhile re_space s)
      else c # squeeze_blanks s)"
  by pat_completeness auto
termination
  by (relation "measure length") (auto simp: length_dropWhile_le le_imp_less_Suc)

definition PrepareFTS5Query :: "string \<Rightarrow> bool \<Rightarrow> string" where
  "PrepareFTS5Query query lenient =
     (let query' = squeeze_blanks (blank_symbols (double_quotes query))
      in if trim_space query' = [] then []
         else let sep = (if lenient then quote_mark @ '' OR '' @ quote_mark else quote_mark @ '' '' @ quote_mark)
              in quote_mark @ go_join sep (split_on CHR '' '' query') @ quote_mark)"

section \<open>db.go\<close>

datatype exec_result = ExecOk | ExecBusy | ExecError string

text \<open>
  \<open>getExec\<close> over the results that the driver would give one after the other (\<open>nth\<close> call): the number of
  calls and the last result. SQLite is tried again up to two times while it is busy.
\<close>

fun retry_exec :: "(nat \<Rightarrow> exec_result) \<Rightarrow> nat \<Rightarrow> nat \<Rightarrow> nat \<times> exec_result" where
  "retry_exec driver calls 0 = (calls, driver (calls - 1))"
| "retry_exec driver calls (Suc retryLeft) =
     (if driver (calls - 1) = ExecBusy then retry_exec driver (calls + 1) retryLeft else (calls, driver (calls - 1)))"

definition getExec :: "DBDialect \<Rightarrow> (nat \<Rightarrow> exec_result) \<Rightarrow> nat \<times> exec_result" where
  "getExec dialect driver = (if dialect = Postgres then (1, driver 0) else retry_exec driver 1 2)"

section \<open>Dates\<close>

lemma div_mod_at: "0 \<le> r \<Longrightarrow> r < k \<Longrightarrow> (k * q + r) div k = q \<and> (k * q + r) mod k = (r :: int)"
  by simp

lemma capped_div: "0 \<le> r \<Longrightarrow> (q = 3 \<and> r \<le> k \<or> q < 3 \<and> r < k) \<Longrightarrow> 0 < k \<Longrightarrow> min 3 ((k * q + r) div k) = (q :: int)"
  by (cases "r = k") (auto simp: min_def)

lemma next_multiple:
  assumes "0 \<le> r" and "r < (k :: int)"
  shows "(k * q + r + 1) mod k = 0 \<longleftrightarrow> r + 1 = k"
proof (cases "r + 1 = k")
  case True
  then have "k * q + r + 1 = k * (q + 1)" by (simp add: algebra_simps)
  with True show ?thesis by simp
next
  case False
  with assms div_mod_at [of "r + 1" k q] show ?thesis by (simp add: add.assoc)
qed

lemma year_split:
  obtains a b c e where "y = 400 * a + 100 * b + 4 * c + e + 1" and "0 \<le> b" "b < 4" "0 \<le> c" "c < 25" "0 \<le> e" "e < 4"
    and "year_start y = 146097 * a + 36524 * b + 1461 * c + 365 * e" and "leap_year y \<longleftrightarrow> e = 3 \<and> (c = 24 \<longrightarrow> b = 3)"
proof -
  define a r1 where "a = (y - 1) div 400" and "r1 = (y - 1) mod 400"
  define b r2 where "b = r1 div 100" and "r2 = r1 mod 100"
  define c e where "c = r2 div 4" and "e = r2 mod 4"
  have y: "y = 400 * a + 100 * b + 4 * c + e + 1" unfolding a_def b_def c_def e_def r1_def r2_def by presburger
  have bounds: "0 \<le> b" "b < 4" "0 \<le> c" "c < 25" "0 \<le> e" "e < 4"
  proof -
    have "0 \<le> r1" "r1 < 400" "0 \<le> r2" "r2 < 100" by (simp_all add: r1_def r2_def)
    then show "0 \<le> b" "b < 4" "0 \<le> c" "c < 25" "0 \<le> e" "e < 4" unfolding b_def c_def e_def by presburger+
  qed
  have forms: "y - 1 = 4 * (100 * a + 25 * b + c) + e" "y - 1 = 100 * (4 * a + b) + (4 * c + e)"
    "y - 1 = 400 * a + (100 * b + 4 * c + e)" unfolding y by simp_all
  have "(4 * (100 * a + 25 * b + c) + e) div 4 = 100 * a + 25 * b + c" by (rule div_mod_at [THEN conjunct1]) (use bounds in auto)
  moreover have "(100 * (4 * a + b) + (4 * c + e)) div 100 = 4 * a + b" by (rule div_mod_at [THEN conjunct1]) (use bounds in auto)
  moreover have "(400 * a + (100 * b + 4 * c + e)) div 400 = a" by (rule div_mod_at [THEN conjunct1]) (use bounds in auto)
  ultimately have divs: "(y - 1) div 4 = 100 * a + 25 * b + c" "(y - 1) div 100 = 4 * a + b" "(y - 1) div 400 = a"
    using forms by simp_all
  have start: "year_start y = 146097 * a + 36524 * b + 1461 * c + 365 * e"
    unfolding year_start_def divs unfolding y by simp
  have y4: "y = 4 * (100 * a + 25 * b + c) + e + 1" and y100: "y = 100 * (4 * a + b) + (4 * c + e) + 1"
    and y400: "y = 400 * a + (100 * b + 4 * c + e) + 1"
    unfolding y by simp_all
  have "y mod 4 = 0 \<longleftrightarrow> e + 1 = 4" unfolding y4 by (rule next_multiple) (use bounds in auto)
  moreover have "y mod 100 = 0 \<longleftrightarrow> 4 * c + e + 1 = 100" unfolding y100 by (rule next_multiple) (use bounds in auto)
  moreover have "y mod 400 = 0 \<longleftrightarrow> 100 * b + 4 * c + e + 1 = 400" unfolding y400 by (rule next_multiple) (use bounds in auto)
  ultimately have "leap_year y \<longleftrightarrow> e = 3 \<and> (c = 24 \<longrightarrow> b = 3)" using bounds unfolding leap_year_def by linarith
  then show thesis using that y bounds start by blast
qed

lemma year_start_bounds:
  shows "1 \<le> y \<Longrightarrow> 0 \<le> year_start y" and "y \<le> 1970 \<Longrightarrow> year_start y \<le> 719162" and "1970 \<le> y \<Longrightarrow> 719162 \<le> year_start y"
proof -
  obtain a b c e where s: "y = 400 * a + 100 * b + 4 * c + e + 1" "0 \<le> b" "b < 4" "0 \<le> c" "c < 25" "0 \<le> e" "e < 4"
    "year_start y = 146097 * a + 36524 * b + 1461 * c + 365 * e" by (rule year_split)
  have "a \<le> - 1 \<or> 0 \<le> a \<and> a \<le> 3 \<or> a = 4 \<or> 5 \<le> a" by linarith
  moreover have "b \<le> 2 \<or> b = 3" using s(3) by linarith
  moreover have "c \<le> 16 \<or> c = 17 \<or> 18 \<le> c" by linarith
  ultimately show "1 \<le> y \<Longrightarrow> 0 \<le> year_start y" and "y \<le> 1970 \<Longrightarrow> year_start y \<le> 719162" and "1970 \<le> y \<Longrightarrow> 719162 \<le> year_start y"
    using s by linarith+
qed

lemma div_step:
  assumes "0 < (k :: int)"
  shows "y div k = (y - 1) div k + (if y mod k = 0 then 1 else 0)"
proof -
  define q r where "q = (y - 1) div k" and "r = (y - 1) mod k"
  have r: "0 \<le> r" "r < k" using assms by (simp_all add: r_def)
  have y: "y = k * q + (r + 1)" using mult_div_mod_eq [of k "y - 1"] by (simp add: q_def r_def)
  show ?thesis
  proof (cases "r + 1 = k")
    case True
    then have "y = k * (q + 1)" using y by (simp add: algebra_simps)
    then have "y div k = q + 1" "y mod k = 0" using assms by simp_all
    then show ?thesis by (simp add: q_def)
  next
    case False
    then have "y div k = q \<and> y mod k = r + 1" using div_mod_at [of "r + 1" k q] r y by simp
    then show ?thesis using r by (simp flip: q_def)
  qed
qed

lemma leap_count: "(P400 \<Longrightarrow> P100) \<Longrightarrow> (P100 \<Longrightarrow> P4) \<Longrightarrow>
    (if P4 then 1 else 0) - (if P100 then 1 else 0) + (if P400 then 1 else (0 :: int)) = (if P4 \<and> (\<not> P100 \<or> P400) then 1 else 0)"
  by auto

lemma sum_step: "p - q + r = s \<Longrightarrow> 365 * y + (A + p) - (B + q) + (C + r) = 365 * (y - 1) + A - B + C + 365 + (s :: int)"
  by simp

lemma year_start_next: "year_start (y + 1) = year_start y + (if leap_year y then 366 else 365)"
proof -
  have "y mod 100 = 0" if "y mod 400 = 0"
    by (rule dvd_imp_mod_0, rule dvd_trans [of _ 400], simp, rule mod_0_imp_dvd, rule that)
  moreover have "y mod 4 = 0" if "y mod 100 = 0"
    by (rule dvd_imp_mod_0, rule dvd_trans [of _ 100], simp, rule mod_0_imp_dvd, rule that)
  ultimately have leap: "(if y mod 4 = 0 then 1 else 0) - (if y mod 100 = 0 then 1 else 0) + (if y mod 400 = 0 then 1 else (0 :: int))
      = (if leap_year y then 1 else 0)"
    unfolding leap_year_def by (rule leap_count) blast+
  have "year_start (y + 1) = 365 * y + y div 4 - y div 100 + y div 400" by (simp add: year_start_def)
  also have "\<dots> = 365 * y + ((y - 1) div 4 + (if y mod 4 = 0 then 1 else 0)) - ((y - 1) div 100 + (if y mod 100 = 0 then 1 else 0))
      + ((y - 1) div 400 + (if y mod 400 = 0 then 1 else 0))"
    using div_step [of 4 y] div_step [of 100 y] div_step [of 400 y] by (simp only: zero_less_numeral simp_thms)
  also have "\<dots> = year_start y + 365 + (if leap_year y then 1 else 0)" unfolding year_start_def by (rule sum_step [OF leap])
  finally show ?thesis by simp
qed

lemma year_of_day_start:
  assumes "0 \<le> yday" and "yday < (if leap_year y then 366 else 365)"
  shows "year_of_day (year_start y + yday) = y"
proof -
  obtain a b c e where y: "y = 400 * a + 100 * b + 4 * c + e + 1" and bounds: "0 \<le> b" "b < 4" "0 \<le> c" "c < 25" "0 \<le> e" "e < 4"
    and start: "year_start y = 146097 * a + 36524 * b + 1461 * c + 365 * e" and leap: "leap_year y \<longleftrightarrow> e = 3 \<and> (c = 24 \<longrightarrow> b = 3)"
    by (rule year_split)
  have yd: "yday \<le> 365" "yday = 365 \<Longrightarrow> e = 3 \<and> (c = 24 \<longrightarrow> b = 3)" using assms leap by (auto split: if_splits)
  let ?R3 = "365 * e + yday"
  let ?R2 = "1461 * c + ?R3"
  let ?R1 = "36524 * b + ?R2"
  have r3: "0 \<le> ?R3" "?R3 < 1461" using bounds yd assms(1) by linarith+
  have r3': "?R3 < 1460 \<or> e = 3 \<and> (c = 24 \<longrightarrow> b = 3)" using bounds yd by linarith
  have r2: "0 \<le> ?R2" "b = 3 \<and> ?R2 \<le> 36524 \<or> b < 3 \<and> ?R2 < 36524" using r3 r3' bounds by linarith+
  have r1: "0 \<le> ?R1" "?R1 < 146097" using r2 bounds by linarith+
  have n: "year_start y + yday = 146097 * a + ?R1" unfolding start by simp
  have 1: "(year_start y + yday) div 146097 = a" "(year_start y + yday) mod 146097 = ?R1"
    unfolding n using div_mod_at [OF r1] by blast+
  have 2: "min 3 (?R1 div 36524) = b" using capped_div [OF r2(1,2)] by simp
  have 3: "?R2 div 1461 = c" "?R2 mod 1461 = ?R3" using div_mod_at [OF r3] by blast+
  have "e = 3 \<and> yday \<le> 365 \<or> e < 3 \<and> yday < 365" using yd bounds by linarith
  then have 4: "min 3 (?R3 div 365) = e" using capped_div [of yday e 365] assms(1) by simp
  have "?R1 - b * 36524 = ?R2" by simp
  then show ?thesis unfolding year_of_day_def Let_def 1 2 using 3 4 y by simp
qed

lemma months: "1 \<le> m \<Longrightarrow> m \<le> 12 \<Longrightarrow> m = 1 \<or> m = 2 \<or> m = 3 \<or> m = 4 \<or> m = 5 \<or> m = 6 \<or> m = 7 \<or> m = 8 \<or> m = 9
    \<or> m = 10 \<or> m = 11 \<or> m = (12 :: int)"
  by presburger

lemma yday_bounds:
  assumes "valid_date y m d"
  shows "0 \<le> month_start y m + d - 1" and "month_start y m + d - 1 < (if leap_year y then 366 else 365)"
proof -
  have "1 \<le> m" "m \<le> 12" using assms by (auto simp: valid_date_def)
  from months [OF this] show "0 \<le> month_start y m + d - 1" and "month_start y m + d - 1 < (if leap_year y then 366 else 365)"
    using assms by (auto simp: valid_date_def month_start_def month_days_def split: if_splits)
qed

lemma month_start_table:
  fixes y :: int
  defines "L \<equiv> if leap_year y then 1 else (0 :: int)"
  shows "month_start y 1 = 0" "month_start y 2 = 31" "month_start y 3 = L + 59" "month_start y 4 = L + 90" "month_start y 5 = L + 120"
    "month_start y 6 = L + 151" "month_start y 7 = L + 181" "month_start y 8 = L + 212" "month_start y 9 = L + 243"
    "month_start y 10 = L + 273" "month_start y 11 = L + 304" "month_start y 12 = L + 334"
    "month_days y 1 = 31" "month_days y 2 = L + 28" "month_days y 3 = 31" "month_days y 4 = 30" "month_days y 5 = 31" "month_days y 6 = 30"
    "month_days y 7 = 31" "month_days y 8 = 31" "month_days y 9 = 30" "month_days y 10 = 31" "month_days y 11 = 30" "month_days y 12 = 31"
    "0 \<le> L" "L \<le> 1"
  by (simp_all add: L_def month_start_def month_days_def)

lemma find_month_of:
  assumes "valid_date y m d"
  shows "find_month y (month_start y m + d - 1) [12, 11, 10, 9, 8, 7, 6, 5, 4, 3, 2, 1] = m"
proof -
  define L where "L = (if leap_year y then 1 else (0 :: int))"
  note table = month_start_table [of y, folded L_def]
  have m: "1 \<le> m" "m \<le> 12" and d: "1 \<le> d" "d \<le> month_days y m" using assms by (auto simp: valid_date_def)
  show ?thesis using months [OF m] d table(25,26) by (elim disjE) (simp_all add: table(1-24))
qed

lemma date_of_days_of_date: "valid_date y m d \<Longrightarrow> date_of_day (days_of_date y m d) = (y, m, d)"
proof -
  assume v: "valid_date y m d"
  let ?yday = "month_start y m + d - 1"
  have "year_of_day (year_start y + ?yday) = y" using year_of_day_start yday_bounds [OF v] by blast
  moreover have "days_of_date y m d = year_start y + ?yday" by (simp add: days_of_date_def)
  ultimately show ?thesis using find_month_of [OF v] by (simp add: date_of_day_def Let_def del: find_month.simps)
qed

lemma days_nonneg: "valid_date y m d \<Longrightarrow> 1 \<le> y \<Longrightarrow> 0 \<le> days_of_date y m d"
  using year_start_bounds(1) [of y] yday_bounds(1) [of y m d] by (simp add: days_of_date_def)

lemma days_before_1970:
  assumes "valid_date y m d"
  shows "days_of_date y m d < 719162 \<longleftrightarrow> y < 1970"
proof (cases "y < 1970")
  case True
  then show ?thesis using year_start_bounds(2) [of "y + 1"] year_start_next [of y] yday_bounds(2) [OF assms]
    by (simp add: days_of_date_def)
next
  case False
  then show ?thesis using year_start_bounds(3) [of y] yday_bounds(1) [OF assms] by (simp add: days_of_date_def)
qed

lemma length_nat_digits: "n < 10 ^ Suc k \<Longrightarrow> length (nat_digits n) \<le> Suc k"
proof (induction k arbitrary: n)
  case 0
  then show ?case by (simp add: nat_digits.simps [of n])
next
  case (Suc k)
  then have "n div 10 < 10 ^ Suc k" by (simp add: less_mult_imp_div_less mult.commute)
  from Suc.IH [OF this] show ?case by (simp add: nat_digits.simps [of n])
qed

lemma ZeroPadInt_pad:
  assumes "0 \<le> y" and "y < 10000"
  shows "digits_val 0 (ZeroPadInt y 4) = y" and "length (ZeroPadInt y 4) = 4" and "list_all is_digit (ZeroPadInt y 4)"
proof -
  have z: "ZeroPadInt y 4 = replicate (4 - length (nat_digits (nat y))) CHR ''0'' @ nat_digits (nat y)"
    using assms(1) by (simp add: ZeroPadInt_def Let_def)
  have "digits_val 0 (replicate k CHR ''0'') = 0" for k by (induction k) (simp_all add: digit_val_def)
  then show "digits_val 0 (ZeroPadInt y 4) = y" using assms(1) by (simp add: z digits_val_append nat_digits_val)
  have "length (nat_digits (nat y)) \<le> 4" using length_nat_digits [of "nat y" 3] assms(2) by simp
  then show "length (ZeroPadInt y 4) = 4" by (simp add: z)
  show "list_all is_digit (ZeroPadInt y 4)"
    using nat_digits_are_digits [of "nat y"] by (auto simp: z list_all_iff is_digit_def)
qed

lemma Parse_Format_DateOnly:
  assumes "valid_date y m d" and "0 \<le> y" and "y < 10000"
  shows "Parse_DateOnly (Format_DateOnly (days_of_date y m d * day_nanos)) = Some (days_of_date y m d * day_nanos)"
proof -
  have f: "Format_DateOnly (days_of_date y m d * day_nanos) =
      ZeroPadInt y 4 @ ''-'' @ pad_digits 2 (nat m) @ ''-'' @ pad_digits 2 (nat d)"
    using date_of_days_of_date [OF assms(1)] by (simp add: Format_DateOnly_def day_nanos_def)
  note Y = ZeroPadInt_pad [OF assms(2,3)]
  have "m \<le> 12" "1 \<le> m" "d \<le> 31" "1 \<le> d"
    using assms(1) by (auto simp: valid_date_def month_days_def split: if_splits)
  then have "digits_val 0 (pad_digits 2 (nat m)) = m" "digits_val 0 (pad_digits 2 (nat d)) = d"
    using digits_val_pad [of "nat m" 2] digits_val_pad [of "nat d" 2] by simp_all
  with Y assms(1) show ?thesis
    by (simp add: f Parse_DateOnly_def Let_def nth_append pad_digits_are_digits)
qed

lemma Unix_day: "Unix (n * day_nanos) = (n - 719162) * 86400"
proof -
  have "n * day_nanos - unix_epoch = ((n - 719162) * 86400) * 10 ^ 9" by (simp add: day_nanos_def unix_epoch_def algebra_simps)
  then show ?thesis unfolding Unix_def by simp
qed

text \<open>
  (roundtrip) A date from the year 1970 on that is stored in a text column is read back as itself, and every earlier
  one as the first day of 1970, so the year of an older title is lost.
\<close>

theorem DateOnly_Value_Scan:
  assumes "valid_date y m d" and "1 \<le> y" and "y < 10000" and "t = days_of_date y m d * day_nanos"
  shows "DateOnly_Scan (DateOnly_Value t) = Inr (if y < 1970 then days_of_date 1970 1 1 * day_nanos else t)"
proof -
  have epoch: "days_of_date 1970 1 1 = 719162" by (simp add: days_of_date_def year_start_def month_start_def)
  have zero: "DateOnly_IsZero t \<longleftrightarrow> days_of_date y m d \<le> 719162"
    unfolding DateOnly_IsZero_def assms(4) Unix_day by (auto simp: day_nanos_def)
  have len: "Format_DateOnly t \<noteq> []"
    using Parse_Format_DateOnly [OF assms(1) _ assms(3)] assms(2,4) by (auto simp: Parse_DateOnly_def Let_def split: if_splits)
  show ?thesis
  proof (cases "days_of_date y m d \<le> 719162")
    case True
    then show ?thesis using zero days_before_1970 [OF assms(1)] epoch assms(4)
      by (auto simp: DateOnly_Value_def DateOnly_Scan_def time_Unix_def day_nanos_def unix_epoch_def)
  next
    case False
    then show ?thesis using zero days_before_1970 [OF assms(1)] Parse_Format_DateOnly [OF assms(1) _ assms(3)] assms(2,4) len
      by (simp add: DateOnly_Value_def DateOnly_Scan_def)
  qed
qed

theorem DateOnly_Value_Scan_witness:
  "DateOnly_Scan (DateOnly_Value (days_of_date 1942 11 26 * day_nanos)) = Inr (days_of_date 1970 1 1 * day_nanos)
   \<and> DateOnly_Scan (DateOnly_Value (days_of_date 2024 2 29 * day_nanos)) = Inr (days_of_date 2024 2 29 * day_nanos)"
  using DateOnly_Value_Scan [of 1942 11 26, OF _ _ _ refl] DateOnly_Value_Scan [of 2024 2 29, OF _ _ _ refl]
  by (simp add: valid_date_def month_days_def leap_year_def)

text \<open>
  (roundtrip) A timestamp up to 1970 is stored as NULL and read back as the zero time; a later one comes back exactly
  from Postgres and cut to the second from SQLite.
\<close>

theorem Timestamp_Value_Scan:
  "Timestamp_Scan (Timestamp_Value dialect t) =
     Inr (if Timestamp_IsZero t then 0 else if dialect = Postgres then t else t - (t - unix_epoch) mod 10 ^ 9)"
proof -
  have "Unix t * 10 ^ 9 + unix_epoch = t - (t - unix_epoch) mod 10 ^ 9"
    unfolding Unix_def using div_mult_mod_eq [of "t - unix_epoch" "10 ^ 9"] by linarith
  then show ?thesis by (simp add: Timestamp_Value_def Timestamp_Scan_def time_Unix_def)
qed

section \<open>Lists in a column\<close>

lemma trim_commas:
  assumes "s \<noteq> []" and "hd s \<noteq> CHR '',''" and "List.last s \<noteq> CHR '',''"
  shows "trim_func is_comma ('','' @ s @ '','') = s"
proof -
  obtain c t where s: "s = c # t" using assms(1) by (cases s) auto
  have "dropWhile is_comma ('','' @ s @ '','') = s @ '',''" using assms(2) s by (simp add: is_comma_def)
  moreover have "dropWhile is_comma (rev s) = rev s"
    using assms(1,3) by (cases "rev s") (auto simp: is_comma_def last_rev hd_rev simp flip: last_rev dest: arg_cong [of _ _ hd])
  ultimately show ?thesis by (simp add: trim_func_def trim_right_def is_comma_def)
qed

lemma go_join_hd: "hd xs \<noteq> [] \<Longrightarrow> xs \<noteq> [] \<Longrightarrow> go_join sep xs \<noteq> [] \<and> hd (go_join sep xs) = hd (hd xs)"
  by (cases "(sep, xs)" rule: go_join.cases) auto

lemma go_join_last:
  "List.last xs \<noteq> [] \<Longrightarrow> xs \<noteq> [] \<Longrightarrow> go_join sep xs \<noteq> [] \<and> List.last (go_join sep xs) = List.last (List.last xs)"
  by (induction sep xs rule: go_join.induct) auto

lemma strings_column:
  assumes "\<And>s. s \<in> set css \<Longrightarrow> CHR '','' \<notin> set s" and "css \<noteq> [] \<Longrightarrow> hd css \<noteq> [] \<and> List.last css \<noteq> []"
  shows "Strings_Scan (Strings_Value css) = Inr css"
proof (cases "css = []")
  case False
  let ?s = "go_join '','' css"
  have h: "?s \<noteq> []" "hd ?s = hd (hd css)" "List.last ?s = List.last (List.last css)"
    using False assms(2) go_join_hd [of css "'',''"] go_join_last [of css "'',''"] by auto
  have "hd (hd css) \<in> set (hd css)" "List.last (List.last css) \<in> set (List.last css)" using False assms(2) by auto
  then have "trim_func is_comma ('','' @ ?s @ '','') = ?s"
    using trim_commas [of ?s] h False assms(1) by (metis hd_in_set last_in_set)
  moreover have "split_on CHR '','' ?s = css" using split_on_join [of css] False assms(1) by blast
  ultimately show ?thesis using False by (simp add: Strings_Scan_def Strings_Value_def sql_text_def)
qed (simp add: Strings_Scan_def Strings_Value_def sql_text_def)

text \<open>
  (roundtrip) A list of texts without commas whose first and last item are not empty is read back from its column.
\<close>

theorem Strings_Value_Scan:
  assumes "\<And>s. s \<in> set css \<Longrightarrow> CHR '','' \<notin> set s" and "css \<noteq> [] \<Longrightarrow> hd css \<noteq> [] \<and> List.last css \<noteq> []"
  shows "Strings_Scan (Strings_Value css) = Inr css"
  using assms by (rule strings_column)

theorem Strings_Value_Scan_witness: "Strings_Scan (Strings_Value [''en'', [], ''de'']) = Inr [''en'', [], ''de'']"
  by (rule Strings_Value_Scan) auto

lemma atoi_all_itoa: "(\<And>n. n \<in> set ns \<Longrightarrow> - (2 ^ 63) \<le> n \<and> n < 2 ^ 63) \<Longrightarrow> atoi_all (map itoa ns) = Inr ns"
  by (induction ns) (auto simp: atoi_itoa)

lemma itoa_no_comma: "CHR '','' \<notin> set (itoa n)"
  using itoa_chars [of "CHR '',''" n] by (auto simp: is_digit_def)

text \<open>
  (roundtrip) A list of 64 bit integers is always read back from its column.
\<close>

theorem Ints_Value_Scan:
  assumes "\<And>n. n \<in> set csi \<Longrightarrow> - (2 ^ 63) \<le> n \<and> n < 2 ^ 63"
  shows "Ints_Scan (Ints_Value csi) = Inr csi"
proof -
  have "Strings_Scan (Strings_Value (map itoa csi)) = Inr (map itoa csi)"
    by (rule strings_column) (auto simp: itoa_no_comma hd_map last_map)
  then show ?thesis using atoi_all_itoa [OF assms] by (simp add: Ints_Scan_def Ints_Value_def)
qed

theorem Ints_Value_Scan_witness: "Ints_Scan (Ints_Value [1, - 20, 300]) = Inr [1, - 20, 300]"
  by (rule Ints_Value_Scan) auto

section \<open>Queries\<close>

lemma number_marks_plain: "CHR ''?'' \<notin> set p \<Longrightarrow> number_marks pos (p @ q) = p @ number_marks pos q"
  by (induction p) auto

lemma number_marks_join:
  "(\<And>p. p \<in> set ps \<Longrightarrow> CHR ''?'' \<notin> set p) \<Longrightarrow> ps \<noteq> [] \<Longrightarrow>
     number_marks pos (go_join ''?'' ps) = hd ps @ concat (map (\<lambda>(i, p). ''$'' @ itoa i @ p) (zip [pos..pos + int (length (tl ps)) - 1] (tl ps)))"
proof (induction ps arbitrary: pos rule: induct_list012)
  case (2 p)
  then show ?case using number_marks_plain [of p pos "[]"] by simp
next
  case (3 p q ps)
  have "[pos..pos + int (length (q # ps)) - 1] = pos # [pos + 1..pos + 1 + int (length ps) - 1]"
    by (subst upto.simps) simp
  with 3 show ?case by (simp add: number_marks_plain)
qed simp

text \<open>
  (functional) For Postgres the n-th placeholder of a query becomes \<open>$n\<close> and everything between the placeholders
  stays; for SQLite the query is not touched.
\<close>

theorem adaptQuery_numbers:
  assumes "\<And>p. p \<in> set (p0 # ps) \<Longrightarrow> CHR ''?'' \<notin> set p"
  shows "adaptQuery Postgres (go_join ''?'' (p0 # ps)) = p0 @ concat (map (\<lambda>(i, p). ''$'' @ itoa i @ p) (zip [1..int (length ps)] ps))
    \<and> adaptQuery SQLite (go_join ''?'' (p0 # ps)) = go_join ''?'' (p0 # ps)"
  using number_marks_join [OF assms, of "p0 # ps" 1] by (simp add: adaptQuery_def)

theorem adaptQuery_numbers_witness: "adaptQuery Postgres ''a = ? AND b IN (?,?)'' = ''a = $1 AND b IN ($2,$3)''"
  using adaptQuery_numbers [of "''a = ''" "['' AND b IN ('', '','', '')'']"] by (simp, code_simp)

text \<open>How FTS5 reads quoted phrases: a doubled quote stands for one, and the phrases are separated by \<open>sep\<close>.\<close>

fun fts_phrase :: "string \<Rightarrow> (string \<times> string) option" where
  "fts_phrase [] = None"
| "fts_phrase (c # s) =
     (if [c] = quote_mark
      then (case s of
              d # s' \<Rightarrow> if [d] = quote_mark then map_option (apfst (Cons c)) (fts_phrase s') else Some ([], s)
            | [] \<Rightarrow> Some ([], []))
      else map_option (apfst (Cons c)) (fts_phrase s))"

fun fts_phrases :: "nat \<Rightarrow> string \<Rightarrow> string \<Rightarrow> string list option" where
  "fts_phrases 0 sep s = None"
| "fts_phrases (Suc n) sep s =
     (case cut_prefix s quote_mark of
        None \<Rightarrow> None
      | Some s' \<Rightarrow>
          (case fts_phrase s' of
             None \<Rightarrow> None
           | Some (p, []) \<Rightarrow> Some [p]
           | Some (p, rest) \<Rightarrow>
               (case cut_prefix rest sep of None \<Rightarrow> None | Some rest' \<Rightarrow> map_option (Cons p) (fts_phrases n sep rest'))))"

lemma quote_not [simp]: "[CHR '' ''] \<noteq> quote_mark" "quote_mark \<noteq> [CHR '' '']"
  by (simp_all add: quote_mark_def)

lemma quote_length [simp]: "length quote_mark = 1" "quote_mark \<noteq> []"
  by (simp_all add: quote_mark_def)

lemma fts_phrase_doubled:
  "rest = [] \<or> [hd rest] \<noteq> quote_mark \<Longrightarrow> fts_phrase (double_quotes w @ quote_mark @ rest) = Some (w, rest)"
proof (induction w)
  case Nil
  then show ?case by (cases rest) (auto simp: double_quotes_def quote_mark_def)
next
  case (Cons c w)
  then show ?case by (cases "[c] = quote_mark") (auto simp: double_quotes_def quote_mark_def)
qed

lemma fts_phrases_step:
  assumes "hd sep = CHR '' ''" and "sep \<noteq> []"
  shows "fts_phrases (Suc n) sep (quote_mark @ double_quotes w @ quote_mark @ sep @ s) = map_option (Cons w) (fts_phrases n sep s)"
proof -
  have "fts_phrase (double_quotes w @ quote_mark @ sep @ s) = Some (w, sep @ s)"
    by (rule fts_phrase_doubled) (use assms in auto)
  moreover obtain c t where "sep = c # t" using assms(2) by (cases sep) auto
  ultimately show ?thesis using cut_prefix_append [of sep s] by (simp split: list.split)
qed

lemma fts_phrases_join:
  assumes "ws \<noteq> []" and "hd sep = CHR '' ''" and "sep \<noteq> []"
  shows "fts_phrases (length ws) sep (quote_mark @ go_join (quote_mark @ sep @ quote_mark) (map double_quotes ws) @ quote_mark) = Some ws"
  using assms(1)
proof (induction ws rule: induct_list012)
  case (2 w)
  then show ?case using fts_phrase_doubled [of "[]" w] by simp
next
  case (3 w v ws)
  then show ?case using fts_phrases_step [OF assms(2,3), of "Suc (length ws)" w] by (simp del: fts_phrases.simps)
qed simp

lemma split_double: "split_on CHR '' '' (double_quotes s) = map double_quotes (split_on CHR '' '' s)"
proof (induction s)
  case (Cons c s)
  then show ?case
    by (cases "split_on CHR '' '' s") (auto simp: double_quotes_def quote_mark_def)
qed (simp add: double_quotes_def)
lemma blank_double: "blank_symbols (double_quotes s) = double_quotes (blank_symbols s)"
  by (induction s) (auto simp: blank_symbols_def double_quotes_def quote_mark_def)

lemma double_quotes_Cons: "double_quotes (c # s) = (if [c] = quote_mark then quote_mark @ quote_mark else [c]) @ double_quotes s"
  by (simp add: double_quotes_def)

lemma quote_no_space [simp]: "\<not> re_space CHR 0x22"
  by (simp add: re_space_def)

lemma drop_double: "dropWhile re_space (double_quotes s) = double_quotes (dropWhile re_space s)"
proof (induction s)
  case (Cons c s)
  then show ?case by (cases "c = CHR 0x22") (auto simp: double_quotes_Cons quote_mark_def)
qed (simp add: double_quotes_def)

lemma squeeze_double: "squeeze_blanks (double_quotes s) = double_quotes (squeeze_blanks s)"
proof (induction s rule: squeeze_blanks.induct)
  case 1
  show ?case by (simp add: double_quotes_def)
next
  case (2 c s)
  have first: "(case double_quotes s of [] \<Rightarrow> False | d # _ \<Rightarrow> re_space d) \<longleftrightarrow> (case s of [] \<Rightarrow> False | d # _ \<Rightarrow> re_space d)"
    by (cases s) (auto simp: double_quotes_def quote_mark_def)
  show ?case
  proof (cases "c = CHR 0x22")
    case True
    then show ?thesis using 2(2) by (simp add: double_quotes_Cons quote_mark_def)
  next
    case False
    then have d: "double_quotes (c # s) = c # double_quotes s" by (simp add: double_quotes_Cons quote_mark_def)
    show ?thesis
    proof (cases "re_space c \<and> (case s of [] \<Rightarrow> False | d # _ \<Rightarrow> re_space d)")
      case True
      then show ?thesis using 2(1) first False by (simp add: d drop_double double_quotes_Cons quote_mark_def)
    next
      case no: False
      then have "squeeze_blanks (c # s) = c # squeeze_blanks s" "squeeze_blanks (c # double_quotes s) = c # squeeze_blanks (double_quotes s)"
        using first by (simp_all only: squeeze_blanks.simps if_False)
      then show ?thesis using 2(2) no False by (simp add: d double_quotes_Cons quote_mark_def del: squeeze_blanks.simps)
    qed
  qed
qed

text \<open>
  C38: (safety) A search text cannot break out of its quotes: FTS5 reads the prepared query back as the words of the text,
  with its quotes as plain characters, and nothing else.
\<close>

theorem PrepareFTS5Query_phrases:
  assumes "PrepareFTS5Query query lenient \<noteq> []" and "ws = split_on CHR '' '' (squeeze_blanks (blank_symbols query))"
  shows "fts_phrases (length ws) (if lenient then '' OR '' else '' '') (PrepareFTS5Query query lenient) = Some ws"
proof -
  have "squeeze_blanks (blank_symbols (double_quotes query)) = double_quotes (squeeze_blanks (blank_symbols query))"
    by (simp add: blank_double squeeze_double)
  then have q: "PrepareFTS5Query query lenient =
      quote_mark @ go_join (quote_mark @ (if lenient then '' OR '' else '' '') @ quote_mark) (map double_quotes ws) @ quote_mark"
    using assms by (auto simp: PrepareFTS5Query_def Let_def split_double split: if_splits)
  have "ws \<noteq> []" using assms(2) by simp
  then show ?thesis unfolding q by (rule fts_phrases_join) auto
qed

theorem PrepareFTS5Query_phrases_witness:
  "fts_phrases (length [''star'', ''x'', ''2'']) '' OR '' (PrepareFTS5Query ''star  x* 2'' True) = Some [''star'', ''x'', ''2'']"
proof -
  have "PrepareFTS5Query ''star  x* 2'' True \<noteq> []"
    and ws: "[''star'', ''x'', ''2''] = split_on CHR '' '' (squeeze_blanks (blank_symbols ''star  x* 2''))" by code_simp+
  from PrepareFTS5Query_phrases [OF this(1) ws] show ?thesis by (simp only: if_True)
qed

section \<open>Executing\<close>

text \<open>
  (bounds) A statement is run at most three times, again only after SQLite said that it is busy, and its result is
  that of the last run; on Postgres it runs once.
\<close>

theorem getExec_retries:
  "(case getExec dialect driver of
      (n, r) \<Rightarrow> 1 \<le> n \<and> n \<le> (if dialect = Postgres then 1 else 3) \<and> r = driver (n - 1)
        \<and> list_all (\<lambda>i. driver i = ExecBusy) [0..<n - 1] \<and> (n = 3 \<or> dialect = Postgres \<or> r \<noteq> ExecBusy))"
  by (cases dialect) (auto simp: getExec_def numeral_2_eq_2 numeral_3_eq_3)

end
