(* ===== verification/Torrent_Files.thy ===== *)
theory Torrent_Files
  imports DB_Types Core_Util Store_Ids
begin

text \<open>
  The files of torrents and the stream ids they were seen under (\<open>internal/torrent_stream/db.go\<close>).

  The table \<open>torrent_stream\<close> is the list of its rows; its primary key is the hash with the path. A statement that
  the database refuses is told by a parameter. The JSON of the aggregated files is left out: the files are lists.
\<close>

section \<open>Files\<close>

record ts_file =
  tf_Path :: string
  tf_Idx :: int
  tf_Size :: int
  tf_Name :: string
  tf_SId :: string
  tf_ASId :: string
  tf_Source :: string
  tf_VideoHash :: string

text \<open>\<open>filepath.Base\<close>\<close>

definition path_base :: "string \<Rightarrow> string" where
  "path_base p =
     (if p = [] then ''.''
      else let q = trim_right (\<lambda>c. c = CHR ''/'') p in if q = [] then ''/'' else List.last (split_on CHR ''/'' q))"

definition File_IsVideo :: "ts_file \<Rightarrow> bool" where
  "File_IsVideo f = HasVideoExtension (tf_Name f)"

definition File_Normalize :: "ts_file \<Rightarrow> ts_file" where
  "File_Normalize f = (if tf_Name f = [] \<and> tf_Path f \<noteq> [] then f\<lparr>tf_Name := path_base (tf_Path f)\<rparr> else f)"

definition Files_Normalize :: "ts_file list \<Rightarrow> ts_file list" where
  "Files_Normalize files = map File_Normalize files"

definition Files_HasVideo :: "ts_file list \<Rightarrow> bool" where
  "Files_HasVideo files \<longleftrightarrow> list_ex (\<lambda>f. HasVideoExtension (tf_Path f)) files"

text \<open>\<open>Files.Scan\<close> after the JSON was read; a lone file without a path comes from an outer join that found nothing.\<close>

definition Files_Scan :: "ts_file list \<Rightarrow> ts_file list" where
  "Files_Scan files =
     (let fs = Files_Normalize files
      in case fs of [f] \<Rightarrow> if tf_Path f = [] then [] else fs | _ \<Rightarrow> fs)"

record magnet_file =
  mf_Idx :: int
  mf_Link :: string
  mf_Path :: string
  mf_Name :: string
  mf_Size :: int
  mf_VideoHash :: string
  mf_Source :: string

definition actual_path :: "string \<Rightarrow> bool" where
  "actual_path p = has_prefix p ''/''"

definition magnet_file_of :: "ts_file \<Rightarrow> magnet_file" where
  "magnet_file_of f0 =
     (let f = File_Normalize f0
      in \<lparr>mf_Idx = tf_Idx f, mf_Link = [], mf_Path = tf_Path f, mf_Name = tf_Name f, mf_Size = tf_Size f,
          mf_VideoHash = tf_VideoHash f, mf_Source = tf_Source f\<rparr>)"

section \<open>The table\<close>

record ts_row =
  tr_Hash :: string
  tr_Path :: string
  tr_Idx :: int
  tr_Size :: int
  tr_SId :: string
  tr_ASId :: string
  tr_Source :: string
  tr_VideoHash :: string
  tr_CAt :: int
  tr_UAt :: int

text \<open>LIKE: SQLite does not tell ASCII letters by case, Postgres does and reads a backslash as an escape.\<close>

function sql_like :: "DBDialect \<Rightarrow> string \<Rightarrow> string \<Rightarrow> bool" where
  "sql_like d [] s = (s = [])"
| "sql_like d (p # ps) s =
     (if p = CHR ''%'' then sql_like d ps s \<or> (case s of [] \<Rightarrow> False | _ # s' \<Rightarrow> sql_like d (p # ps) s')
      else if p = CHR ''_'' then (case s of [] \<Rightarrow> False | _ # s' \<Rightarrow> sql_like d ps s')
      else if p = CHR 0x5C \<and> d = Postgres
        then (case (ps, s) of (q # qs, c # s') \<Rightarrow> c = q \<and> sql_like d qs s' | _ \<Rightarrow> False)
      else (case s of
              [] \<Rightarrow> False
            | c # s' \<Rightarrow> (if d = SQLite then to_lower_char c = to_lower_char p else c = p) \<and> sql_like d ps s'))"
  by pat_completeness auto
termination
  by (relation "measure (\<lambda>(d, p, s). length p + length s)") auto

section \<open>Files whose name stands for a path\<close>

text \<open>
  The path is written into the text of the query, where the numbering of placeholders for Postgres reaches it: two of
  them come before.
\<close>

definition literal_text :: "DBDialect \<Rightarrow> string \<Rightarrow> string" where
  "literal_text d path = (if d = SQLite then path else number_marks 3 path)"

definition adopt_sid :: "DBDialect \<Rightarrow> string \<Rightarrow> ts_file \<Rightarrow> ts_row \<Rightarrow> ts_row" where
  "adopt_sid d hash f r =
     (if tr_Hash r = hash \<and> sql_like d (''%/'' @ literal_text d (tf_Path f)) (tr_Path r) \<and> tr_SId r \<in> {[], ''*''} then r\<lparr>tr_SId := tf_SId f\<rparr> else r)"

definition adopt_asid :: "DBDialect \<Rightarrow> string \<Rightarrow> ts_file \<Rightarrow> ts_row \<Rightarrow> ts_row" where
  "adopt_asid d hash f r =
     (if tr_Hash r = hash \<and> sql_like d (''%/'' @ literal_text d (tf_Path f)) (tr_Path r) \<and> tr_ASId r = [] then r\<lparr>tr_ASId := tf_ASId f\<rparr> else r)"

fun adopt_ids :: "DBDialect \<Rightarrow> string \<Rightarrow> ts_file list \<Rightarrow> ts_row list \<Rightarrow> ts_row list" where
  "adopt_ids d hash [] t = t"
| "adopt_ids d hash (f # fs) t =
     (if actual_path (tf_Path f) \<or> tf_Path f = [] then adopt_ids d hash fs t
      else
        let t1 = (if tf_SId f \<noteq> [] \<and> tf_SId f \<noteq> ''*'' then map (adopt_sid d hash f) t else t);
            t2 = (if tf_ASId f \<noteq> [] then map (adopt_asid d hash f) t1 else t1)
        in adopt_ids d hash fs t2)"

definition cleanupFilesWithNameAsPath :: "DBDialect \<Rightarrow> string \<Rightarrow> ts_file list \<Rightarrow> ts_row list \<Rightarrow> ts_row list" where
  "cleanupFilesWithNameAsPath d hash files t =
     (let t' = adopt_ids d hash files t
      in if list_ex (\<lambda>r. tr_Hash r = hash \<and> actual_path (tr_Path r)) t'
         then filter (\<lambda>r. \<not> (tr_Hash r = hash \<and> \<not> actual_path (tr_Path r))) t'
         else t')"

definition ToStoreMagnetFiles :: "DBDialect \<Rightarrow> string \<Rightarrow> ts_file list \<Rightarrow> ts_row list \<Rightarrow> magnet_file list \<times> ts_row list" where
  "ToStoreMagnetFiles d hash arr t =
     (let files = map magnet_file_of arr;
          hasActualPath = list_ex (\<lambda>f. actual_path (tf_Path f)) arr;
          hasNameAsPath = list_ex (\<lambda>f. \<not> actual_path (tf_Path f)) arr
      in if hasActualPath \<and> hasNameAsPath
         then (filter (\<lambda>f. actual_path (mf_Path f)) files, cleanupFilesWithNameAsPath d hash (Files_Normalize arr) t)
         else (files, t))"

section \<open>Reading\<close>

definition row_file :: "ts_row \<Rightarrow> ts_file" where
  "row_file r =
     File_Normalize \<lparr>tf_Path = tr_Path r, tf_Idx = tr_Idx r, tf_Size = tr_Size r, tf_Name = [], tf_SId = [], tf_ASId = [],
       tf_Source = [], tf_VideoHash = []\<rparr>"

text \<open>
  The AniDB id of an anime by its id at Kitsu or MyAnimeList is a parameter; CONCAT takes a missing one for the empty
  text.
\<close>

definition anime_file :: "(string \<Rightarrow> string option) \<Rightarrow> string \<Rightarrow> string \<Rightarrow> string \<Rightarrow> ts_row list \<Rightarrow> ts_file option" where
  "anime_file anidb prefix hash asid t =
     (case cut (trim_prefix asid prefix) CHR '':'' of (animeId, episode, _) \<Rightarrow>
        let key = (case anidb animeId of None \<Rightarrow> [] | Some i \<Rightarrow> i) @ '':'' @ episode
        in map_option row_file (find (\<lambda>r. tr_Hash r = hash \<and> tr_ASId r = key) t))"

definition GetFile ::
    "(string \<Rightarrow> string option) \<Rightarrow> (string \<Rightarrow> string option) \<Rightarrow> string \<Rightarrow> string \<Rightarrow> ts_row list \<Rightarrow> ts_file option" where
  "GetFile by_kitsu by_mal hash sid t =
     (if has_prefix sid ''kitsu:'' then anime_file by_kitsu ''kitsu:'' hash sid t
      else if has_prefix sid ''mal:'' then anime_file by_mal ''mal:'' hash sid t
      else map_option row_file (find (\<lambda>r. tr_Hash r = hash \<and> tr_SId r = sid) t))"

definition full_file :: "ts_row \<Rightarrow> ts_file" where
  "full_file r =
     \<lparr>tf_Path = tr_Path r, tf_Idx = tr_Idx r, tf_Size = tr_Size r, tf_Name = [], tf_SId = tr_SId r, tf_ASId = tr_ASId r,
      tf_Source = tr_Source r, tf_VideoHash = tr_VideoHash r\<rparr>"

definition GetFilesByHashes :: "string list \<Rightarrow> ts_row list \<Rightarrow> (string \<times> ts_file list) list" where
  "GetFilesByHashes hashes t =
     map (\<lambda>h. (h, Files_Scan (map full_file (filter (\<lambda>r. tr_Hash r = h) t))))
       (remdups (map tr_Hash (filter (\<lambda>r. tr_Hash r \<in> set hashes) t)))"

section \<open>Recording\<close>

text \<open>What happens to a row when its key is recorded again.\<close>

definition authoritative :: "string \<Rightarrow> bool" where
  "authoritative src \<longleftrightarrow> src \<in> {''dht'', ''tor''}"

definition merge_row :: "int \<Rightarrow> ts_row \<Rightarrow> ts_row \<Rightarrow> ts_row" where
  "merge_row now new old =
     old\<lparr>tr_Idx := (if authoritative (tr_Source new) \<or> tr_Idx old = - 1 \<or> tr_Source old \<in> {[], ''mfn''} then tr_Idx new else tr_Idx old),
         tr_Size := (if authoritative (tr_Source new) \<or> tr_Size old = - 1 \<or> tr_Source old \<in> {[], ''mfn''} then tr_Size new else tr_Size old),
         tr_SId := (if tr_SId old \<in> {[], ''*''} then tr_SId new else tr_SId old),
         tr_ASId := (if tr_ASId old = [] then tr_ASId new else tr_ASId old),
         tr_VideoHash := (if tr_VideoHash old = [] then tr_VideoHash new else tr_VideoHash old),
         tr_Source := (if (\<not> authoritative (tr_Source new) \<and> authoritative (tr_Source old))
             \<or> (tr_Source new = ''mfn'' \<and> tr_Source old \<noteq> ''mfn'') \<or> tr_Source new = [] then tr_Source old else tr_Source new),
         tr_UAt := now\<rparr>"

definition same_file :: "ts_row \<Rightarrow> ts_row \<Rightarrow> bool" where
  "same_file a b \<longleftrightarrow> tr_Hash a = tr_Hash b \<and> tr_Path a = tr_Path b"

definition upsert_stream_row :: "int \<Rightarrow> ts_row list \<Rightarrow> ts_row \<Rightarrow> ts_row list" where
  "upsert_stream_row now t new =
     (if list_ex (same_file new) t then map (\<lambda>r. if same_file new r then merge_row now new r else r) t else t @ [new])"

type_synonym insert_data = "string \<times> ts_file"

definition record_row :: "int \<Rightarrow> bool \<Rightarrow> insert_data \<Rightarrow> ts_row" where
  "record_row now discardIdx item =
     (case item of (hash, f) \<Rightarrow>
        \<lparr>tr_Hash = hash, tr_Path = tf_Path f,
         tr_Idx = (if discardIdx \<and> tf_Source f \<noteq> ''dht'' \<and> tf_Source f \<noteq> ''tor'' then - 1 else tf_Idx f),
         tr_Size = tf_Size f, tr_SId = (if tf_SId f = [] then ''*'' else tf_SId f), tr_ASId = tf_ASId f, tr_Source = tf_Source f,
         tr_VideoHash = tf_VideoHash f, tr_CAt = now, tr_UAt = now\<rparr>)"

text \<open>The rows of a chunk and the number of placeholders; a file without a path of its own is not counted off.\<close>

fun chunk_rows :: "int \<Rightarrow> bool \<Rightarrow> string list \<Rightarrow> insert_data list \<Rightarrow> ts_row list \<times> nat" where
  "chunk_rows now discardIdx seen [] = ([], 0)"
| "chunk_rows now discardIdx seen ((hash, f) # items) =
     (if \<not> actual_path (tf_Path f) then apsnd Suc (chunk_rows now discardIdx seen items)
      else let key = hash @ '':'' @ tf_Path f
           in if key \<in> set seen then chunk_rows now discardIdx seen items
              else map_prod (Cons (record_row now discardIdx (hash, f))) Suc (chunk_rows now discardIdx (key # seen) items))"

function chunks :: "nat \<Rightarrow> 'a list \<Rightarrow> 'a list list" where
  "chunks n xs = (if xs = [] \<or> n = 0 then [] else take n xs # chunks n (drop n xs))"
  by pat_completeness auto
termination
  by (relation "measure (\<lambda>(n, xs). length xs)") auto

declare chunks.simps [simp del]

text \<open>
  One statement per chunk; it fails if the placeholders do not match the arguments or the database refuses it
  (\<open>ok\<close> for the number of the chunk). The result counts the statements that failed.
\<close>

definition record_chunk :: "int \<Rightarrow> bool \<Rightarrow> (nat \<Rightarrow> bool) \<Rightarrow> nat \<Rightarrow> insert_data list \<Rightarrow> ts_row list \<Rightarrow> ts_row list \<times> bool" where
  "record_chunk now discardIdx ok k items t =
     (case chunk_rows now discardIdx [] items of (rows, marks) \<Rightarrow>
        if marks = 0 \<or> length rows \<noteq> marks \<or> \<not> ok k then (t, False)
        else (foldl (upsert_stream_row now) t rows, True))"

fun record_chunks :: "int \<Rightarrow> bool \<Rightarrow> (nat \<Rightarrow> bool) \<Rightarrow> nat \<Rightarrow> insert_data list list \<Rightarrow> ts_row list \<Rightarrow> ts_row list \<times> nat" where
  "record_chunks now discardIdx ok k [] t = (t, 0)"
| "record_chunks now discardIdx ok k (c # cs) t =
     (case record_chunk now discardIdx ok k c t of (t', done) \<Rightarrow>
        apsnd (\<lambda>n. if done then n else Suc n) (record_chunks now discardIdx ok (Suc k) cs t'))"

definition Record :: "int \<Rightarrow> (nat \<Rightarrow> bool) \<Rightarrow> insert_data list \<Rightarrow> bool \<Rightarrow> ts_row list \<Rightarrow> ts_row list \<times> nat" where
  "Record now ok items discardIdx t = record_chunks now discardIdx ok 0 (chunks 150 items) t"

text \<open>\<open>TrackFiles\<close>; the map of files is given by its entries in the order they are visited.\<close>

definition tracked :: "string \<Rightarrow> (string \<times> ts_file list) list \<Rightarrow> insert_data list" where
  "tracked storeCode filesByHash =
     concat (map (\<lambda>(hash, files).
       if storeCode = ''pm'' \<and> \<not> Files_HasVideo files then []
       else map (Pair hash) (filter (\<lambda>f. actual_path (tf_Path f)) files)) filesByHash)"

definition TrackFiles ::
    "int \<Rightarrow> (nat \<Rightarrow> bool) \<Rightarrow> string \<Rightarrow> (string \<times> ts_file list) list \<Rightarrow> ts_row list \<Rightarrow> ts_row list" where
  "TrackFiles now ok storeCode filesByHash t = fst (Record now ok (tracked storeCode filesByHash) (storeCode \<noteq> ''rd'') t)"

section \<open>Tags\<close>

definition TagStremId :: "int \<Rightarrow> string \<Rightarrow> string \<Rightarrow> string \<Rightarrow> ts_row list \<Rightarrow> ts_row list" where
  "TagStremId now hash path sid t =
     (if path = [] \<or> \<not> has_prefix sid ''tt'' then t
      else map (\<lambda>r. if tr_Hash r = hash \<and> tr_Path r = path \<and> tr_SId r \<in> {[], ''*''} then r\<lparr>tr_SId := sid, tr_UAt := now\<rparr> else r) t)"

text \<open>The look-up of the AniDB id gives an error or the id, which may be empty.\<close>

definition TagAnimeStremId ::
    "(string \<Rightarrow> string + string) \<Rightarrow> (string \<Rightarrow> string + string) \<Rightarrow> int \<Rightarrow> string \<Rightarrow> string \<Rightarrow> string \<Rightarrow> ts_row list \<Rightarrow> ts_row list" where
  "TagAnimeStremId by_kitsu by_mal now hash path sid t =
     (let found = (case cut_prefix sid ''kitsu:'' of
                     Some i \<Rightarrow> (case cut i CHR '':'' of (k, ep, _) \<Rightarrow> Some (by_kitsu k, ep))
                   | None \<Rightarrow> (case cut_prefix sid ''mal:'' of
                                Some i \<Rightarrow> (case cut i CHR '':'' of (m, ep, _) \<Rightarrow> Some (by_mal m, ep))
                              | None \<Rightarrow> None))
      in case found of
           Some (Inr anidbId, episode) \<Rightarrow>
             if path = [] then t
             else map (\<lambda>r. if tr_Hash r = hash \<and> tr_Path r = path \<and> tr_ASId r = []
                          then r\<lparr>tr_ASId := anidbId @ '':'' @ episode, tr_UAt := now\<rparr> else r) t
         | _ \<Rightarrow> t)"

definition GetStremIdByHashes :: "DBDialect \<Rightarrow> string list \<Rightarrow> ts_row list \<Rightarrow> (string \<times> string) list" where
  "GetStremIdByHashes d hashes t =
     remdups (map (\<lambda>r. (tr_Hash r, tr_SId r)) (filter (\<lambda>r. tr_Hash r \<in> set hashes \<and> sql_like d ''tt%'' (tr_SId r)) t))"

definition stream_stats :: "ts_row list \<Rightarrow> (string \<times> nat) list" where
  "stream_stats t =
     (let counted = filter (\<lambda>r. tr_SId r \<notin> {[], ''*''} \<and> tr_Source r \<noteq> []) t
      in map (\<lambda>s. (s, length (filter (\<lambda>r. tr_Source r = s) counted))) (remdups (map tr_Source counted)))"

definition stats_total :: "(string \<times> nat) list \<Rightarrow> nat" where
  "stats_total stats = sum_list (map snd stats)"

section \<open>What recording keeps\<close>

definition file_key :: "ts_row \<Rightarrow> string \<times> string" where
  "file_key r = (tr_Hash r, tr_Path r)"

text \<open>\<open>r'\<close> still knows of the file what \<open>r\<close> knew.\<close>

definition still_knows :: "ts_row \<Rightarrow> ts_row \<Rightarrow> bool" where
  "still_knows r r' \<longleftrightarrow> file_key r' = file_key r \<and> tr_CAt r' = tr_CAt r
     \<and> (tr_SId r \<in> {[], ''*''} \<or> tr_SId r' = tr_SId r) \<and> (tr_ASId r = [] \<or> tr_ASId r' = tr_ASId r)
     \<and> (tr_VideoHash r = [] \<or> tr_VideoHash r' = tr_VideoHash r) \<and> (authoritative (tr_Source r) \<longrightarrow> authoritative (tr_Source r'))"

lemma still_knows_refl: "still_knows r r"
  by (simp add: still_knows_def)

lemma still_knows_trans: "still_knows a b \<Longrightarrow> still_knows b c \<Longrightarrow> still_knows a c"
  by (auto simp: still_knows_def)

lemma merge_knows: "still_knows old (merge_row now new old)"
  by (auto simp: still_knows_def merge_row_def file_key_def)

lemma same_file_key: "same_file a b \<longleftrightarrow> file_key a = file_key b"
  by (simp add: same_file_def file_key_def)

lemma list_ex_key: "list_ex (same_file new) t \<longleftrightarrow> file_key new \<in> set (map file_key t)"
  by (auto simp: list_ex_iff same_file_key image_iff)

lemma upsert_stream_row_knows: "r \<in> set t \<Longrightarrow> \<exists>r' \<in> set (upsert_stream_row now t new). still_knows r r'"
  using merge_knows still_knows_refl by (auto simp: upsert_stream_row_def) blast+

lemma upsert_stream_row_keys: "distinct (map file_key t) \<Longrightarrow> distinct (map file_key (upsert_stream_row now t new))"
proof -
  assume d: "distinct (map file_key t)"
  have "map file_key (map (\<lambda>r. if same_file new r then merge_row now new r else r) t) = map file_key t"
    using merge_knows by (auto simp: still_knows_def)
  then show ?thesis using d by (auto simp: upsert_stream_row_def same_file_key list_ex_iff simp del: map_map)
qed

lemma upsert_stream_row_has: "\<exists>r \<in> set (upsert_stream_row now t new). file_key r = file_key new"
proof (cases "list_ex (same_file new) t")
  case True
  then obtain r where "r \<in> set t" "same_file new r" by (auto simp: list_ex_iff)
  then have "merge_row now new r \<in> set (upsert_stream_row now t new)" "file_key (merge_row now new r) = file_key new"
    using True merge_knows [of r now new] by (auto simp: upsert_stream_row_def still_knows_def same_file_key)
  then show ?thesis by blast
qed (simp add: upsert_stream_row_def)

lemma upsert_stream_rows_knows: "r \<in> set t \<Longrightarrow> \<exists>r' \<in> set (foldl (upsert_stream_row now) t rows). still_knows r r'"
proof (induction rows arbitrary: t r)
  case Nil
  then show ?case using still_knows_refl by auto
next
  case (Cons new rows)
  from upsert_stream_row_knows [OF Cons.prems] obtain r1 where "r1 \<in> set (upsert_stream_row now t new)" "still_knows r r1" by blast
  with Cons.IH [OF this(1)] show ?case using still_knows_trans by fastforce
qed

lemma upsert_stream_rows_keys: "distinct (map file_key t) \<Longrightarrow> distinct (map file_key (foldl (upsert_stream_row now) t rows))"
  by (induction rows arbitrary: t) (auto simp: upsert_stream_row_keys)

lemma upsert_stream_rows_has: "new \<in> set rows \<Longrightarrow> \<exists>r \<in> set (foldl (upsert_stream_row now) t rows). file_key r = file_key new"
proof (induction rows arbitrary: t)
  case (Cons x rows)
  show ?case
  proof (cases "new \<in> set rows")
    case True
    then show ?thesis using Cons.IH by simp
  next
    case False
    then have "x = new" using Cons.prems by simp
    obtain r where "r \<in> set (upsert_stream_row now t new)" "file_key r = file_key new" using upsert_stream_row_has by blast
    with upsert_stream_rows_knows [OF this(1), of now rows] show ?thesis by (auto simp: \<open>x = new\<close> still_knows_def)
  qed
qed simp

lemma record_chunks_knows:
  "r \<in> set t \<Longrightarrow> \<exists>r' \<in> set (fst (record_chunks now d ok k cs t)). still_knows r r'"
proof (induction cs arbitrary: t k r)
  case Nil
  then show ?case using still_knows_refl by auto
next
  case (Cons c cs)
  obtain t1 b where c: "record_chunk now d ok k c t = (t1, b)" by fastforce
  then obtain r1 where "r1 \<in> set t1" "still_knows r r1"
    using Cons.prems upsert_stream_rows_knows still_knows_refl by (fastforce simp: record_chunk_def split: prod.splits if_splits)
  with Cons.IH [OF this(1)] show ?case using still_knows_trans by (fastforce simp: c case_prod_beta)
qed

lemma record_chunks_keys: "distinct (map file_key t) \<Longrightarrow> distinct (map file_key (fst (record_chunks now d ok k cs t)))"
proof (induction cs arbitrary: t k)
  case (Cons c cs)
  obtain t1 b where c: "record_chunk now d ok k c t = (t1, b)" by fastforce
  then have "distinct (map file_key t1)"
    using Cons.prems upsert_stream_rows_keys by (auto simp: record_chunk_def split: prod.splits if_splits)
  with Cons.IH show ?case by (simp add: c case_prod_beta)
qed simp

text \<open>
  C21: (invariant) Whatever is recorded and whichever statements fail, the keys of the table stay distinct, and no row
  forgets a stream id, an anime id or a video hash that it has, or a source that is the torrent itself.
\<close>

theorem Record_keeps_knowledge:
  assumes "distinct (map file_key t)" and "r \<in> set t"
  shows "distinct (map file_key (fst (Record now ok items discardIdx t)))
    \<and> (\<exists>r' \<in> set (fst (Record now ok items discardIdx t)). still_knows r r')"
  using record_chunks_knows [OF assms(2)] record_chunks_keys [OF assms(1)] by (simp add: Record_def)

section \<open>Which statements fail\<close>

lemma concat_chunks: "0 < n \<Longrightarrow> concat (chunks n xs) = xs"
proof (induction n xs rule: chunks.induct)
  case (1 n xs)
  then show ?case by (cases "xs = []") (simp_all add: chunks.simps [of n xs] chunks.simps [of n "[]"])
qed

lemma chunk_rows_count:
  "length (fst (chunk_rows now d seen items)) + length (filter (\<lambda>x. \<not> actual_path (tf_Path (snd x))) items) = snd (chunk_rows now d seen items)"
  by (induction now d seen items rule: chunk_rows.induct) (auto simp: Let_def case_prod_beta)

lemma key_inj: "length h = length h' \<Longrightarrow> h @ c # p = h' @ c # p' \<Longrightarrow> h = h' \<and> p = p'"
  by simp

lemma chunk_rows_has:
  assumes "(h, f) \<in> set items" and "actual_path (tf_Path f)" and "h @ '':'' @ tf_Path f \<notin> set seen"
    and "\<And>x. x \<in> set items \<Longrightarrow> length (fst x) = 40" 
  shows "\<exists>r \<in> set (fst (chunk_rows now d seen items)). file_key r = (h, tf_Path f)"
  using assms
proof (induction now d seen items rule: chunk_rows.induct)
  case (2 now d seen hash g items)
  show ?case
  proof (cases "hash @ '':'' @ tf_Path g = h @ '':'' @ tf_Path f")
    case True
    moreover have "length hash = length h" using 2(4-) by force
    ultimately have "hash = h" "tf_Path g = tf_Path f" using key_inj by auto
    then show ?thesis using 2(5,6) by (auto simp: Let_def record_row_def file_key_def)
  next
    case False
    then have in': "(h, f) \<in> set items" using 2(4) by auto
    show ?thesis
    proof (cases "actual_path (tf_Path g)")
      case no: False
      then show ?thesis using 2(1) in' 2(5-) by auto
    next
      case yes: True
      show ?thesis
      proof (cases "hash @ '':'' @ tf_Path g \<in> set seen")
        case True
        then show ?thesis using 2(2) yes in' 2(5-) by (auto simp: Let_def)
      next
        case new: False
        have "\<exists>r \<in> set (fst (chunk_rows now d ((hash @ '':'' @ tf_Path g) # seen) items)). file_key r = (h, tf_Path f)"
          using 2(3) [OF _ refl new] yes in' 2(5-) False by auto
        then show ?thesis using yes new by (auto simp: Let_def)
      qed
    qed
  qed
qed simp
lemma record_chunk_ok:
  assumes "\<And>x. x \<in> set items \<Longrightarrow> actual_path (tf_Path (snd x))" and "items \<noteq> []" and "ok k"
  shows "record_chunk now d ok k items t = (foldl (upsert_stream_row now) t (fst (chunk_rows now d [] items)), True)"
proof -
  have none: "filter (\<lambda>x. \<not> actual_path (tf_Path (snd x))) items = []" using assms(1) by (auto simp: filter_empty_conv)
  then have same: "length (fst (chunk_rows now d [] items)) = snd (chunk_rows now d [] items)"
    using chunk_rows_count [of now d "[]" items] by simp
  obtain h f rest where "items = (h, f) # rest" using assms(2) by (cases items) auto
  then have "snd (chunk_rows now d [] items) \<noteq> 0" using assms(1) by (auto simp: Let_def)
  then show ?thesis using same assms(3) by (simp add: record_chunk_def case_prod_beta)
qed

lemma record_chunks_complete:
  assumes "\<And>x. x \<in> set (concat cs) \<Longrightarrow> actual_path (tf_Path (snd x)) \<and> length (fst x) = 40"
    and "[] \<notin> set cs" and "\<And>k. ok k"
  shows "snd (record_chunks now d ok k cs t) = 0
    \<and> (\<forall>x \<in> set (concat cs). \<exists>r \<in> set (fst (record_chunks now d ok k cs t)). file_key r = (fst x, tf_Path (snd x)))"
  using assms
proof (induction cs arbitrary: t k)
  case (Cons c cs)
  let ?t1 = "foldl (upsert_stream_row now) t (fst (chunk_rows now d [] c))"
  have c: "record_chunk now d ok k c t = (?t1, True)"
    by (rule record_chunk_ok) (use Cons.prems in auto)
  have IH: "snd (record_chunks now d ok (Suc k) cs ?t1) = 0
      \<and> (\<forall>x \<in> set (concat cs). \<exists>r \<in> set (fst (record_chunks now d ok (Suc k) cs ?t1)). file_key r = (fst x, tf_Path (snd x)))"
    by (rule Cons.IH) (use Cons.prems in auto)
  have "\<exists>r \<in> set (fst (record_chunks now d ok (Suc k) cs ?t1)). file_key r = (fst x, tf_Path (snd x))" if x: "x \<in> set c" for x
  proof -
    have "\<exists>r \<in> set (fst (chunk_rows now d [] c)). file_key r = (fst x, tf_Path (snd x))"
      by (rule chunk_rows_has [of "fst x" "snd x"]) (use x Cons.prems in auto)
    then obtain r0 where r0: "r0 \<in> set (fst (chunk_rows now d [] c))" and k0: "file_key r0 = (fst x, tf_Path (snd x))" by blast
    from upsert_stream_rows_has [OF r0, of now t] obtain r1 where "r1 \<in> set ?t1" "file_key r1 = file_key r0" by blast
    with record_chunks_knows [OF this(1), of now d ok "Suc k" cs] k0 show ?thesis by (auto simp: still_knows_def)
  qed
  with IH show ?case by (auto simp: c case_prod_beta)
qed simp

lemma Nil_notin_chunks: "0 < n \<Longrightarrow> [] \<notin> set (chunks n xs)"
proof (induction n xs rule: chunks.induct)
  case (1 n xs)
  then show ?case by (cases "xs = []") (auto simp: chunks.simps [of n xs] chunks.simps [of n "[]"])
qed

lemma Record_complete_all:
  assumes "\<And>x. x \<in> set items \<Longrightarrow> actual_path (tf_Path (snd x)) \<and> length (fst x) = 40" and "\<And>k. ok k"
  shows "snd (Record now ok items discardIdx t) = 0
    \<and> (\<forall>x \<in> set items. \<exists>r \<in> set (fst (Record now ok items discardIdx t)). file_key r = (fst x, tf_Path (snd x)))"
  using record_chunks_complete [of "chunks 150 items" ok now discardIdx 0 t] assms concat_chunks [of 150 items]
    Nil_notin_chunks [of 150 items]
  by (simp add: Record_def)

text \<open>
  (functional) Files with a path of their own and hashes of 40 characters, as both callers pass them, are all in the
  table after Record, in however many chunks, if the database accepts the statements.
\<close>

theorem Record_complete:
  assumes "\<And>x. x \<in> set items \<Longrightarrow> actual_path (tf_Path (snd x)) \<and> length (fst x) = 40" and "\<And>k. ok k"
  shows "snd (Record now ok items discardIdx t) = 0
    \<and> (\<forall>x \<in> set items. \<exists>r \<in> set (fst (Record now ok items discardIdx t)). file_key r = (fst x, tf_Path (snd x)))"
  using assms by (rule Record_complete_all)

text \<open>
  (error) A file without a path of its own is left out of the rows, but not of the count of placeholders: the
  statement does not fit its arguments and all the files of the chunk are lost.
\<close>

theorem bad_path_loses_chunk:
  assumes "x \<in> set items" and "\<not> actual_path (tf_Path (snd x))" and "length items \<le> 150"
  shows "Record now ok items discardIdx t = (t, 1)"
proof -
  have ne: "items \<noteq> []" using assms(1) by auto
  have "drop 150 items = []" "take 150 items = items" using assms(3) by simp_all
  then have "chunks 150 items = [items]" using ne by (simp add: chunks.simps [of 150 items] chunks.simps [of 150 "[]"])
  moreover have "length (fst (chunk_rows now discardIdx [] items)) \<noteq> snd (chunk_rows now discardIdx [] items)"
  proof -
    have "filter (\<lambda>x. \<not> actual_path (tf_Path (snd x))) items \<noteq> []" using assms(1,2) by (auto simp: filter_empty_conv)
    then show ?thesis using chunk_rows_count [of now discardIdx "[]" items] by (metis add_cancel_right_right length_0_conv)
  qed
  ultimately show ?thesis by (simp add: Record_def record_chunk_def case_prod_beta)
qed

text \<open>
  C?: (error) The index of a file that is known from MediaFusion, or from a row without a source, is replaced by \<open>-1\<close>
  when a store records the file without its index.
\<close>

theorem known_index_lost:
  assumes "t = [r]" and "tr_Source r = ''mfn'' \<or> tr_Source r = []" and "actual_path (tr_Path r)" and "length (tr_Hash r) = 40"
    and "tf_Path f = tr_Path r" and "\<not> authoritative (tf_Source f)" and "ok 0"
  shows "map tr_Idx (fst (Record now ok [(tr_Hash r, f)] True t)) = [- 1]"
  using assms
  by (auto simp: Record_def chunks.simps [of 150 "[x]" for x] chunks.simps [of 150 "[]"] record_chunk_def record_row_def upsert_stream_row_def
      same_file_def merge_row_def authoritative_def Let_def)

section \<open>Recording again\<close>

lemma merge_again: "merge_row now new (merge_row now new old) = merge_row now new old"
  by (cases "authoritative (tr_Source new)") (auto simp: merge_row_def authoritative_def)

text \<open>
  (equivalence) Recording a file twice is the same as recording it once.
\<close>

theorem upsert_stream_row_twice:
  assumes "tr_UAt new = now"
  shows "upsert_stream_row now (upsert_stream_row now t new) new = upsert_stream_row now t new"
proof (cases "list_ex (same_file new) t")
  case True
  let ?f = "\<lambda>r. if same_file new r then merge_row now new r else r"
  have "file_key (?f r) = file_key r" for r using merge_knows [of r now new] by (simp add: still_knows_def)
  then have "map file_key (map ?f t) = map file_key t" by simp
  then have "list_ex (same_file new) (map ?f t)" using True unfolding list_ex_key by (simp only:)
  moreover have "?f (?f r) = ?f r" for r by (simp add: merge_again)
  ultimately show ?thesis using True by (simp add: upsert_stream_row_def)
next
  case False
  have "merge_row now new new = new" using assms by (simp add: merge_row_def)
  moreover have "same_file new new" by (simp add: same_file_def)
  moreover have "\<not> same_file new r" if "r \<in> set t" for r using that False by (auto simp: list_ex_iff)
  ultimately show ?thesis using False by (auto simp: upsert_stream_row_def intro!: map_idI)
qed

section \<open>A sample\<close>

definition sample_file :: "string \<Rightarrow> string \<Rightarrow> ts_file" where
  "sample_file path src =
     \<lparr>tf_Path = path, tf_Idx = 3, tf_Size = 7, tf_Name = [], tf_SId = ''tt1:1:1'', tf_ASId = [], tf_Source = src, tf_VideoHash = []\<rparr>"

definition sample_hash :: string where
  "sample_hash = replicate 40 CHR ''a''"

definition sample_row :: "string \<Rightarrow> ts_row" where
  "sample_row src =
     \<lparr>tr_Hash = sample_hash, tr_Path = ''/a.mkv'', tr_Idx = 5, tr_Size = 7, tr_SId = ''tt9'', tr_ASId = [], tr_Source = src,
      tr_VideoHash = [], tr_CAt = 1, tr_UAt = 1\<rparr>"

theorem Record_keeps_knowledge_witness:
  "\<exists>r' \<in> set (fst (Record 9 (\<lambda>_. True) [(sample_hash, sample_file ''/a.mkv'' ''rd'')] True [sample_row ''dht''])).
     tr_SId r' = ''tt9'' \<and> authoritative (tr_Source r')"
  using Record_keeps_knowledge [of "[sample_row ''dht'']" "sample_row ''dht''" 9 "\<lambda>_. True" "[(sample_hash, sample_file ''/a.mkv'' ''rd'')]" True]
  by (auto simp: still_knows_def sample_row_def authoritative_def)

theorem Record_complete_witness:
  "\<exists>r \<in> set (fst (Record 9 (\<lambda>_. True) [(sample_hash, sample_file ''/a.mkv'' ''rd''), (sample_hash, sample_file ''/b.mkv'' ''rd'')] True [])).
     tr_Path r = ''/b.mkv''"
proof -
  let ?items = "[(sample_hash, sample_file ''/a.mkv'' ''rd''), (sample_hash, sample_file ''/b.mkv'' ''rd'')]"
  have "actual_path (tf_Path (snd x)) \<and> length (fst x) = 40" if "x \<in> set ?items" for x
    using that by (auto simp: sample_file_def sample_hash_def actual_path_def has_prefix_def)
  from Record_complete [where items = ?items and ok = "\<lambda>_. True" and now = 9 and discardIdx = True and t = "[]", OF this] show ?thesis
    by (auto simp: sample_file_def file_key_def)
qed

theorem bad_path_loses_chunk_witness:
  "Record 9 (\<lambda>_. True) [(sample_hash, sample_file ''/a.mkv'' ''rd''), (sample_hash, sample_file ''b.mkv'' ''rd'')] True [] = ([], 1)"
  by (rule bad_path_loses_chunk [of "(sample_hash, sample_file ''b.mkv'' ''rd'')"]) (auto simp: sample_file_def actual_path_def has_prefix_def)

theorem known_index_lost_witness:
  "map tr_Idx (fst (Record 9 (\<lambda>_. True) [(tr_Hash (sample_row ''mfn''), sample_file ''/a.mkv'' ''pm'')] True [sample_row ''mfn''])) = [- 1]"
  by (rule known_index_lost)
    (simp_all add: sample_row_def sample_file_def sample_hash_def actual_path_def has_prefix_def authoritative_def)

theorem upsert_stream_row_twice_witness:
  "upsert_stream_row 1 (upsert_stream_row 1 [] (sample_row ''rd'')) (sample_row ''rd'') = upsert_stream_row 1 [] (sample_row ''rd'')"
  by (rule upsert_stream_row_twice) (simp add: sample_row_def)
section \<open>Patterns\<close>

lemma like_Nil: "sql_like d [] s \<longleftrightarrow> s = []"
  by simp

lemma like_percent_step: "sql_like d (CHR ''%'' # p) s \<longleftrightarrow> sql_like d p s \<or> (\<exists>c s'. s = c # s' \<and> sql_like d (CHR ''%'' # p) s')"
  by (cases s) simp_all

lemma like_char:
  "c \<notin> {CHR ''%'', CHR ''_'', CHR 0x5C} \<Longrightarrow> sql_like Postgres (c # p) s \<longleftrightarrow> (\<exists>s'. s = c # s' \<and> sql_like Postgres p s')"
  by (cases s) auto

declare sql_like.simps [simp del]

declare like_Nil [simp]

lemma like_percent: "sql_like d (CHR ''%'' # p) s \<longleftrightarrow> (\<exists>a b. s = a @ b \<and> sql_like d p b)"
proof (induction s)
  case Nil
  show ?case by (subst like_percent_step) simp
next
  case (Cons c s)
  have "(\<exists>a b. c # s = a @ b \<and> sql_like d p b) \<longleftrightarrow> sql_like d p (c # s) \<or> (\<exists>a b. s = a @ b \<and> sql_like d p b)"
    unfolding Cons_eq_append_conv by blast
  with Cons show ?case by (subst like_percent_step) simp
qed

definition plain_text :: "string \<Rightarrow> bool" where
  "plain_text p \<longleftrightarrow> set p \<inter> {CHR ''%'', CHR ''_'', CHR 0x5C} = {}"

lemma like_plain_append: "plain_text p \<Longrightarrow> sql_like Postgres (p @ q) s \<longleftrightarrow> (\<exists>t. s = p @ t \<and> sql_like Postgres q t)"
proof (induction p arbitrary: s)
  case (Cons c p)
  then have "c \<notin> {CHR ''%'', CHR ''_'', CHR 0x5C}" "plain_text p" by (auto simp: plain_text_def)
  with Cons.IH show ?case by (auto simp: like_char)
qed simp

lemma like_plain: "plain_text p \<Longrightarrow> sql_like Postgres p s \<longleftrightarrow> s = p"
  using like_plain_append [of p "[]" s] by simp

text \<open>Patterns on both databases: letters match as the database compares them.\<close>

definition same_char :: "DBDialect \<Rightarrow> char \<Rightarrow> char \<Rightarrow> bool" where
  "same_char d c p \<longleftrightarrow> (if d = SQLite then to_lower_char c = to_lower_char p else c = p)"

definition same_text :: "DBDialect \<Rightarrow> string \<Rightarrow> string \<Rightarrow> bool" where
  "same_text d s p \<longleftrightarrow> list_all2 (same_char d) s p"

lemma same_text_Postgres [simp]: "same_text Postgres s p \<longleftrightarrow> s = p"
proof -
  have "same_char Postgres = (=)" by (intro ext) (simp add: same_char_def)
  then show ?thesis by (simp add: same_text_def list.rel_eq)
qed

lemma same_text_simps [simp]:
  "same_text d [] p \<longleftrightarrow> p = []" "same_text d s [] \<longleftrightarrow> s = []"
  "same_text d (c # s) (x # p) \<longleftrightarrow> same_char d c x \<and> same_text d s p"
  by (simp_all add: same_text_def)

lemma same_text_Cons: "same_text d s (x # p) \<longleftrightarrow> (\<exists>c t. s = c # t \<and> same_char d c x \<and> same_text d t p)"
  by (simp add: same_text_def list_all2_Cons2)

lemma like_char_any:
  "c \<notin> {CHR ''%'', CHR ''_'', CHR 0x5C} \<Longrightarrow> sql_like d (c # p) s \<longleftrightarrow> (\<exists>c' s'. s = c' # s' \<and> same_char d c' c \<and> sql_like d p s')"
  by (cases s) (auto simp: sql_like.simps same_char_def)

lemma like_append_any:
  "plain_text p \<Longrightarrow> sql_like d (p @ q) s \<longleftrightarrow> (\<exists>a t. s = a @ t \<and> same_text d a p \<and> sql_like d q t)"
proof (induction p arbitrary: s)
  case (Cons c p)
  then have "c \<notin> {CHR ''%'', CHR ''_'', CHR 0x5C}" "plain_text p" by (auto simp: plain_text_def)
  then have "sql_like d ((c # p) @ q) s \<longleftrightarrow>
      (\<exists>c' a t. s = c' # a @ t \<and> same_char d c' c \<and> same_text d a p \<and> sql_like d q t)"
    using Cons.IH by (simp add: like_char_any) blast
  also have "\<dots> \<longleftrightarrow> (\<exists>a t. s = a @ t \<and> same_text d a (c # p) \<and> sql_like d q t)"
    unfolding same_text_Cons by (metis append_Cons)
  finally show ?case .
qed simp

lemma like_plain_any: "plain_text p \<Longrightarrow> sql_like d p s \<longleftrightarrow> same_text d s p"
  using like_append_any [of p d "[]" s] by simp

lemma like_infix_any: "plain_text p \<Longrightarrow> sql_like d (''%'' @ p @ ''%'') s \<longleftrightarrow> (\<exists>x a b. s = x @ a @ b \<and> same_text d a p)"
  by (auto simp: like_percent like_append_any)

text \<open>A pattern without letters matches only itself.\<close>

lemma lower_char_no_letter:
  assumes "to_lower_char c = to_lower_char p" and "to_lower_char p = p" and "\<not> (97 \<le> (of_char p :: nat) \<and> (of_char p :: nat) \<le> 122)"
  shows "c = p"
  using assms by (auto simp: to_lower_char_def split: if_splits)

lemma same_text_no_letter:
  assumes "\<And>c. c \<in> set p \<Longrightarrow> (of_char c :: nat) < 65"
  shows "same_text d s p \<longleftrightarrow> s = p"
  using assms
proof (induction p arbitrary: s)
  case (Cons c p)
  have "(of_char c :: nat) < 65" using Cons.prems by simp
  then have "same_char d c' c \<longleftrightarrow> c' = c" for c'
    using lower_char_no_letter [of c' c] by (auto simp: same_char_def to_lower_char_def)
  with Cons show ?case by (auto simp: same_text_Cons)
qed simp

lemma like_suffix: "plain_text p \<Longrightarrow> sql_like Postgres (''%'' @ p) s \<longleftrightarrow> (\<exists>a. s = a @ p)"
  by (simp add: like_percent like_plain)

lemma like_infix: "plain_text p \<Longrightarrow> sql_like Postgres (''%'' @ p @ ''%'') s \<longleftrightarrow> (\<exists>a b. s = a @ p @ b)"
  by (auto simp: like_percent like_plain_append)

text \<open>
  (error) On Postgres a question mark in a file name becomes a placeholder inside the text of the query: the name does
  not match its own path any more, so the clean-up drops the row with the stream id without moving the id.
\<close>

theorem question_mark_loses_id:
  "(let old = (sample_row ''rd'')\<lparr>tr_Path := ''who?.mkv'', tr_SId := ''tt1''\<rparr>;
        new = (sample_row ''rd'')\<lparr>tr_Path := ''/x/who?.mkv'', tr_SId := ''*''\<rparr>;
        file = (sample_file ''who?.mkv'' ''rd'')\<lparr>tf_SId := ''tt1''\<rparr>
    in map tr_SId (cleanupFilesWithNameAsPath Postgres sample_hash [file] [old, new]) = [''*'']
       \<and> map tr_SId (cleanupFilesWithNameAsPath SQLite sample_hash [file] [old, new]) = [''tt1''])"
  by code_simp

end
