(* ===== verification/Torrent_Info.thy ===== *)
theory Torrent_Info
  imports Torrent_Files
begin

text \<open>
  What is known of a torrent (\<open>internal/torrent_info/db.go\<close>): the parsed title, the merge of what different sources say,
  and the worker that parses titles (\<open>internal/worker/torrent_parser.go\<close>).

  The title parser go-ptt, its version and the reading and writing of sizes are an environment. The fields that are copied
  one by one between the parser's result and the row are kept in three records. The table is the list of its rows; its
  columns are taken as read back the way they were stored, which the theorems on columns are about.
\<close>

section \<open>Lists in the columns of torrent_info\<close>

definition TI_Strings_Value :: "string list \<Rightarrow> sql_value" where
  "TI_Strings_Value css = SqlString (go_join '','' css)"

definition TI_Strings_Scan :: "sql_value \<Rightarrow> string + string list" where
  "TI_Strings_Scan v =
     (if v = SqlNull then Inr []
      else case sql_text v of Inl e \<Rightarrow> Inl e | Inr str \<Rightarrow> Inr (if str = [] then [] else split_on CHR '','' str))"

definition TI_Ints_Value :: "int list \<Rightarrow> sql_value" where
  "TI_Ints_Value csi = TI_Strings_Value (map itoa csi)"

definition TI_Ints_Scan :: "sql_value \<Rightarrow> string + int list" where
  "TI_Ints_Scan v = (case TI_Strings_Scan v of Inl e \<Rightarrow> Inl e | Inr css \<Rightarrow> atoi_all css)"

section \<open>The data\<close>

record pt_flags =
  fl_Commentary :: bool
  fl_Complete :: bool
  fl_Convert :: bool
  fl_Documentary :: bool
  fl_Dubbed :: bool
  fl_Extended :: bool
  fl_Hardcoded :: bool
  fl_Proper :: bool
  fl_Remastered :: bool
  fl_Repack :: bool
  fl_Retail :: bool
  fl_Subbed :: bool
  fl_Uncensored :: bool
  fl_Unrated :: bool
  fl_Upscaled :: bool

record pt_texts =
  tx_BitDepth :: string
  tx_Codec :: string
  tx_Container :: string
  tx_Edition :: string
  tx_EpisodeCode :: string
  tx_Extension :: string
  tx_Group :: string
  tx_Network :: string
  tx_Quality :: string
  tx_Region :: string
  tx_Resolution :: string
  tx_Site :: string
  tx_ThreeD :: string
  tx_Title :: string

record pt_lists =
  ls_Audio :: "string list"
  ls_Channels :: "string list"
  ls_Episodes :: "int list"
  ls_HDR :: "string list"
  ls_Languages :: "string list"
  ls_ReleaseTypes :: "string list"
  ls_Seasons :: "int list"
  ls_Volumes :: "int list"

record ptt_result =
  pr_flags :: pt_flags
  pr_texts :: pt_texts
  pr_lists :: pt_lists
  pr_Date :: string
  pr_Size :: string
  pr_Year :: string

record TorrentInfo =
  tor_Hash :: string
  tor_TorrentTitle :: string
  tor_Indexer :: string
  tor_Source :: string
  tor_Category :: string
  tor_CreatedAt :: int
  tor_UpdatedAt :: int
  tor_ParsedAt :: int
  tor_ParserVersion :: int
  tor_ParserInput :: string
  tor_Seeders :: int
  tor_Leechers :: int
  tor_Private :: bool
  tor_flags :: pt_flags
  tor_texts :: pt_texts
  tor_lists :: pt_lists
  tor_Date :: int
  tor_Size :: int
  tor_Year :: int
  tor_YearEnd :: int

record parse_env =
  pe_parse :: "string \<Rightarrow> string + ptt_result"
  pe_version :: int
  pe_to_bytes :: "string \<Rightarrow> int"
  pe_to_size :: "int \<Rightarrow> string"
  pe_valid_utf8 :: "string \<Rightarrow> string"

definition IsParsed :: "TorrentInfo \<Rightarrow> bool" where
  "IsParsed ti \<longleftrightarrow> tor_TorrentTitle ti = tor_ParserInput ti"

text \<open>The value of \<open>strconv.Atoi\<close> when its error is not looked at.\<close>

definition atoi_value :: "string \<Rightarrow> int" where
  "atoi_value s =
     (case atoi s of
        Some n \<Rightarrow> n
      | None \<Rightarrow>
          let neg = (s \<noteq> [] \<and> hd s = CHR ''-''); ds = (if s \<noteq> [] \<and> hd s \<in> {CHR ''-'', CHR ''+''} then tl s else s)
          in if ds \<noteq> [] \<and> list_all is_digit ds then (if neg then - (2 ^ 63) else 2 ^ 63 - 1) else 0)"

section \<open>Parsing\<close>

definition parse_year :: "string \<Rightarrow> TorrentInfo \<Rightarrow> TorrentInfo" where
  "parse_year y ti =
     (if y = [] then ti
      else case cut y CHR ''-'' of
        (year, year_end, _) \<Rightarrow>
          let ti' = ti\<lparr>tor_Year := atoi_value year\<rparr>
          in if year_end \<noteq> [] then ti'\<lparr>tor_YearEnd := atoi_value year_end\<rparr> else ti')"

definition parse_info :: "parse_env \<Rightarrow> int \<Rightarrow> TorrentInfo \<Rightarrow> string + TorrentInfo" where
  "parse_info env now ti =
     (case pe_parse env (tor_TorrentTitle ti) of
        Inl e \<Rightarrow> Inl e
      | Inr r \<Rightarrow>
          Inr (parse_year (pr_Year r)
            (ti\<lparr>tor_ParsedAt := now, tor_ParserVersion := pe_version env, tor_ParserInput := tor_TorrentTitle ti,
                tor_flags := pr_flags r, tor_texts := pr_texts r, tor_lists := pr_lists r,
                tor_Date := (case Parse_DateOnly (pr_Date r) of Some d \<Rightarrow> if pr_Date r \<noteq> [] then d else tor_Date ti | None \<Rightarrow> tor_Date ti),
                tor_Size := (if tor_Size ti < 1 \<and> pr_Size r \<noteq> [] then pe_to_bytes env (pr_Size r) else tor_Size ti)\<rparr>)))"

definition Parse :: "parse_env \<Rightarrow> int \<Rightarrow> TorrentInfo \<Rightarrow> string + TorrentInfo" where
  "Parse env now ti = (if IsParsed ti then Inr ti else parse_info env now ti)"

definition ForceParse :: "parse_env \<Rightarrow> int \<Rightarrow> TorrentInfo \<Rightarrow> string + TorrentInfo" where
  "ForceParse env now ti = parse_info env now ti"

definition ToParsedResult :: "parse_env \<Rightarrow> int \<Rightarrow> TorrentInfo \<Rightarrow> string + ptt_result" where
  "ToParsedResult env now ti0 =
     (case Parse env now ti0 of
        Inl e \<Rightarrow> Inl e
      | Inr ti \<Rightarrow>
          Inr \<lparr>pr_flags = tor_flags ti, pr_texts = tor_texts ti, pr_lists = tor_lists ti, pr_Date = DateOnly_String (tor_Date ti),
               pr_Size = (if 0 < tor_Size ti then pe_to_size env (tor_Size ti) else []),
               pr_Year = (if tor_Year ti \<noteq> 0 then itoa (tor_Year ti) else [])
                 @ (if tor_YearEnd ti \<noteq> 0 then ''-'' @ itoa (tor_YearEnd ti) else [])\<rparr>)"

section \<open>Upsert\<close>

record torrent_item =
  it_Hash :: string
  it_TorrentTitle :: string
  it_Size :: int
  it_Indexer :: string
  it_Source :: string
  it_Category :: string
  it_Seeders :: int
  it_Leechers :: int
  it_Private :: bool
  it_Files :: "ts_file list"

text \<open>The new row wins the title and the source.\<close>

definition wins_title :: "string \<Rightarrow> string \<Rightarrow> bool" where
  "wins_title new old \<longleftrightarrow> new = ''dht'' \<or> (new \<noteq> ''ato'' \<and> old \<notin> {''dht'', ''tio'', ''ad'', ''dl'', ''rd''})"

definition merge_info :: "int \<Rightarrow> torrent_item \<Rightarrow> TorrentInfo \<Rightarrow> TorrentInfo" where
  "merge_info now e ti =
     ti\<lparr>tor_TorrentTitle := (if wins_title (it_Source e) (tor_Source ti) then it_TorrentTitle e else tor_TorrentTitle ti),
        tor_Size := (if it_Source e = ''dht'' \<or> tor_Size ti < 1 then it_Size e else tor_Size ti),
        tor_Indexer := (if it_Indexer e \<noteq> [] then it_Indexer e else tor_Indexer ti),
        tor_Source := (if wins_title (it_Source e) (tor_Source ti) then it_Source e else tor_Source ti),
        tor_Category := (if tor_Category ti = [] then it_Category e else tor_Category ti),
        tor_Seeders := (if it_Source e = ''dht'' \<or> (tor_Source ti \<noteq> ''dht'' \<and> 0 < it_Seeders e) then it_Seeders e else tor_Seeders ti),
        tor_Leechers := (if it_Source e = ''dht'' then it_Leechers e else tor_Leechers ti),
        tor_Private := (if it_Source e = ''dht'' \<or> (tor_Source ti \<noteq> ''dht'' \<and> tor_Private ti) then tor_Private ti else it_Private e),
        tor_UpdatedAt := now\<rparr>"

definition no_flags :: pt_flags where
  "no_flags =
     \<lparr>fl_Commentary = False, fl_Complete = False, fl_Convert = False, fl_Documentary = False, fl_Dubbed = False, fl_Extended = False,
      fl_Hardcoded = False, fl_Proper = False, fl_Remastered = False, fl_Repack = False, fl_Retail = False, fl_Subbed = False,
      fl_Uncensored = False, fl_Unrated = False, fl_Upscaled = False\<rparr>"

definition no_texts :: pt_texts where
  "no_texts =
     \<lparr>tx_BitDepth = [], tx_Codec = [], tx_Container = [], tx_Edition = [], tx_EpisodeCode = [], tx_Extension = [], tx_Group = [],
      tx_Network = [], tx_Quality = [], tx_Region = [], tx_Resolution = [], tx_Site = [], tx_ThreeD = [], tx_Title = []\<rparr>"

definition no_lists :: pt_lists where
  "no_lists =
     \<lparr>ls_Audio = [], ls_Channels = [], ls_Episodes = [], ls_HDR = [], ls_Languages = [], ls_ReleaseTypes = [], ls_Seasons = [], ls_Volumes = []\<rparr>"

text \<open>A row that is inserted has the defaults of the other columns.\<close>

definition new_info :: "int \<Rightarrow> torrent_item \<Rightarrow> TorrentInfo" where
  "new_info now e =
     \<lparr>tor_Hash = it_Hash e, tor_TorrentTitle = it_TorrentTitle e, tor_Indexer = it_Indexer e, tor_Source = it_Source e,
      tor_Category = it_Category e, tor_CreatedAt = now, tor_UpdatedAt = now, tor_ParsedAt = 0, tor_ParserVersion = 0,
      tor_ParserInput = [], tor_Seeders = it_Seeders e, tor_Leechers = it_Leechers e, tor_Private = it_Private e,
      tor_flags = no_flags, tor_texts = no_texts, tor_lists = no_lists, tor_Date = 0, tor_Size = it_Size e, tor_Year = 0, tor_YearEnd = 0\<rparr>"

definition upsert_info :: "int \<Rightarrow> TorrentInfo list \<Rightarrow> torrent_item \<Rightarrow> TorrentInfo list" where
  "upsert_info now t e =
     (if list_ex (\<lambda>r. tor_Hash r = it_Hash e) t then map (\<lambda>r. if tor_Hash r = it_Hash e then merge_info now e r else r) t
      else t @ [new_info now e])"

definition usable_title :: "torrent_item \<Rightarrow> bool" where
  "usable_title e \<longleftrightarrow> it_TorrentTitle e \<noteq> [] \<and> it_TorrentTitle e \<noteq> it_Hash e \<and> \<not> has_prefix (it_TorrentTitle e) ''magnet:?''"

definition item_streams :: "torrent_item \<Rightarrow> insert_data list" where
  "item_streams e =
     (if it_Source e = ''pm'' \<and> \<not> Files_HasVideo (it_Files e) then []
      else map (\<lambda>f. (it_Hash e, if tf_Source f = [] then f\<lparr>tf_Source := it_Source e\<rparr> else f))
        (filter (\<lambda>f. actual_path (tf_Path f) \<and> \<not> (it_Source e = ''dr'' \<and> has_suffix (tf_Path f) ''__archive__.zip'')) (it_Files e)))"

text \<open>The rows and the files of a chunk, with the count of rows that is taken down from the length of the chunk.\<close>

fun upsert_chunk ::
    "string \<Rightarrow> string list \<Rightarrow> torrent_item list \<Rightarrow> int \<Rightarrow> torrent_item list \<times> insert_data list \<times> int" where
  "upsert_chunk category seen [] c = ([], [], c)"
| "upsert_chunk category seen (e # es) c =
     (if it_Hash e \<in> set seen then upsert_chunk category seen es (c - 1)
      else if length (it_Hash e) \<noteq> 40 then upsert_chunk category (it_Hash e # seen) es (c - 1)
      else if \<not> usable_title e
        then (case upsert_chunk category (it_Hash e # seen) es (c - 1) of (rows, files, n) \<Rightarrow> (rows, item_streams e @ files, n))
      else (case upsert_chunk category (it_Hash e # seen) es c of
              (rows, files, n) \<Rightarrow>
                (e\<lparr>it_Category := (if it_Category e = [] then category else it_Category e)\<rparr> # rows, item_streams e @ files, n)))"

record info_db =
  db_infos :: "TorrentInfo list"
  db_files :: "ts_row list"

text \<open>
  \<open>Upsert\<close>: one statement per chunk of 150, then all files are recorded. \<open>ok\<close> and \<open>files_ok\<close> tell which
  statements the database accepts, \<open>enabled\<close> whether the torrent info feature is on. The result counts the errors.
\<close>

fun upsert_chunks ::
    "int \<Rightarrow> bool \<Rightarrow> (nat \<Rightarrow> bool) \<Rightarrow> string \<Rightarrow> nat \<Rightarrow> torrent_item list list \<Rightarrow> TorrentInfo list
      \<Rightarrow> TorrentInfo list \<times> insert_data list \<times> nat" where
  "upsert_chunks now enabled ok category k [] t = (t, [], 0)"
| "upsert_chunks now enabled ok category k (es # ess) t =
     (case upsert_chunk category [] es (int (length es)) of
        (rows, files, n) \<Rightarrow>
          let skip = (\<not> enabled \<or> n = 0);
              good = (int (length rows) = n \<and> ok k);
              t' = (if \<not> skip \<and> good then foldl (upsert_info now) t rows else t)
          in (case upsert_chunks now enabled ok category (Suc k) ess t' of
                (t2, files2, errs) \<Rightarrow> (t2, files @ files2, (if skip \<or> good then errs else Suc errs))))"

definition Upsert ::
    "int \<Rightarrow> bool \<Rightarrow> (nat \<Rightarrow> bool) \<Rightarrow> (nat \<Rightarrow> bool) \<Rightarrow> torrent_item list \<Rightarrow> string \<Rightarrow> bool \<Rightarrow> info_db \<Rightarrow> info_db \<times> nat" where
  "Upsert now enabled ok files_ok items category discardFileIdx st =
     (if items = [] then (st, 0)
      else case upsert_chunks now enabled ok category 0 (chunks 150 items) (db_infos st) of
        (t, files, errs) \<Rightarrow>
          (case (if files = [] then (db_files st, 0) else Record now files_ok files discardFileIdx (db_files st)) of
             (fs, n) \<Rightarrow> (\<lparr>db_infos = t, db_files = fs\<rparr>, errs + (if n = 0 then 0 else 1))))"

section \<open>Storing what was parsed\<close>

definition GetUnparsed :: "int \<Rightarrow> TorrentInfo list \<Rightarrow> TorrentInfo list" where
  "GetUnparsed limit t = take (nat (if limit = 0 then 5000 else limit)) (filter (\<lambda>r. \<not> IsParsed r) t)"

definition merge_parsed :: "int \<Rightarrow> TorrentInfo \<Rightarrow> TorrentInfo \<Rightarrow> TorrentInfo" where
  "merge_parsed now e ti =
     ti\<lparr>tor_ParserVersion := tor_ParserVersion e, tor_ParserInput := tor_ParserInput e, tor_flags := tor_flags e,
        tor_texts := tor_texts e, tor_lists := tor_lists e, tor_Date := tor_Date e,
        tor_Size := (if tor_Source e = ''dht'' \<or> tor_Size ti < 1 then tor_Size e else tor_Size ti),
        tor_Year := tor_Year e, tor_YearEnd := tor_YearEnd e, tor_ParsedAt := now, tor_UpdatedAt := now\<rparr>"

definition upsert_parsed :: "int \<Rightarrow> TorrentInfo list \<Rightarrow> TorrentInfo \<Rightarrow> TorrentInfo list" where
  "upsert_parsed now t e =
     (if list_ex (\<lambda>r. tor_Hash r = tor_Hash e) t then map (\<lambda>r. if tor_Hash r = tor_Hash e then merge_parsed now e r else r) t
      else t @ [e])"

text \<open>In chunks of 200; \<open>False\<close> is the error of the first statement that is refused.\<close>

fun upsert_parsed_chunks ::
    "int \<Rightarrow> (nat \<Rightarrow> bool) \<Rightarrow> nat \<Rightarrow> TorrentInfo list list \<Rightarrow> TorrentInfo list \<Rightarrow> TorrentInfo list \<times> bool" where
  "upsert_parsed_chunks now ok k [] t = (t, True)"
| "upsert_parsed_chunks now ok k (c # cs) t =
     (if ok k then upsert_parsed_chunks now ok (Suc k) cs (foldl (upsert_parsed now) t c) else (t, False))"

definition UpsertParsed :: "int \<Rightarrow> (nat \<Rightarrow> bool) \<Rightarrow> TorrentInfo list \<Rightarrow> TorrentInfo list \<Rightarrow> TorrentInfo list \<times> bool" where
  "UpsertParsed now ok infos t = upsert_parsed_chunks now ok 0 (chunks 200 infos) t"

definition MarkForReparseBelowVersion :: "int \<Rightarrow> TorrentInfo list \<Rightarrow> TorrentInfo list" where
  "MarkForReparseBelowVersion version t = map (\<lambda>r. if tor_ParserVersion r < version then r\<lparr>tor_ParserInput := []\<rparr> else r) t"

section \<open>The parser worker\<close>

definition parseTorrentInfo :: "parse_env \<Rightarrow> int \<Rightarrow> TorrentInfo \<Rightarrow> TorrentInfo option" where
  "parseTorrentInfo env now t =
     (if pe_version env < tor_ParserVersion t then None
      else case ForceParse env now t of
        Inl _ \<Rightarrow> None
      | Inr t' \<Rightarrow> Some (t'\<lparr>tor_texts := (tor_texts t')\<lparr>tx_Title := pe_valid_utf8 env (tx_Title (tor_texts t'))\<rparr>\<rparr>))"

fun parse_chunks ::
    "parse_env \<Rightarrow> int \<Rightarrow> (nat \<Rightarrow> bool) \<Rightarrow> TorrentInfo list list \<Rightarrow> TorrentInfo list \<Rightarrow> TorrentInfo list \<times> bool" where
  "parse_chunks env now ok [] t = (t, True)"
| "parse_chunks env now ok (c # cs) t =
     (case UpsertParsed now ok (somes (map (parseTorrentInfo env now) c)) t of
        (t', good) \<Rightarrow> if good then parse_chunks env now ok cs t' else (t', False))"

text \<open>
  The loop of the executor: \<open>None\<close> if it never ends, else the table and whether it ended without an error. Each round
  reads up to 5000 rows and is the last one when it read fewer; \<open>got\<close> says whether the query succeeds on a table.
\<close>

partial_function (option) parser_loop ::
    "parse_env \<Rightarrow> int \<Rightarrow> (TorrentInfo list \<Rightarrow> bool) \<Rightarrow> (nat \<Rightarrow> bool) \<Rightarrow> TorrentInfo list \<Rightarrow> (TorrentInfo list \<times> bool) option" where
  "parser_loop env now got ok t =
     (if \<not> got t then Some (t, False)
      else case parse_chunks env now ok (chunks 500 (GetUnparsed 5000 t)) t of
        (t', good) \<Rightarrow>
          if \<not> good then Some (t', False)
          else if length (GetUnparsed 5000 t) < 5000 then Some (t', True)
          else parser_loop env now got ok t')"

declare parser_loop.simps [code]

section \<open>Parsing: round trip and what is left over\<close>

definition year_text_ok :: "string \<Rightarrow> bool" where
  "year_text_ok y \<longleftrightarrow> y = [] \<or> (\<exists>a. 0 < a \<and> a < 2 ^ 63 \<and> y = itoa a)
     \<or> (\<exists>a b. 0 < a \<and> a < 2 ^ 63 \<and> 0 < b \<and> b < 2 ^ 63 \<and> y = itoa a @ ''-'' @ itoa b)"

definition date_text_ok :: "string \<Rightarrow> bool" where
  "date_text_ok s \<longleftrightarrow> s = [] \<or> (\<exists>y m d. valid_date y m d \<and> 1 < y \<and> y < 10000 \<and> s = Format_DateOnly (days_of_date y m d * day_nanos))"

lemma itoa_no_dash: "0 \<le> n \<Longrightarrow> CHR ''-'' \<notin> set (itoa n)"
  using nat_digits_are_digits [of "nat n"] by (auto simp: itoa_def list_all_iff is_digit_def)

lemma atoi_value_itoa: "0 \<le> n \<Longrightarrow> n < 2 ^ 63 \<Longrightarrow> atoi_value (itoa n) = n"
  by (simp add: atoi_value_def atoi_itoa)

lemma parse_year_text:
  assumes "year_text_ok y" and "tor_Year ti = 0" and "tor_YearEnd ti = 0"
  shows "(if tor_Year (parse_year y ti) \<noteq> 0 then itoa (tor_Year (parse_year y ti)) else [])
    @ (if tor_YearEnd (parse_year y ti) \<noteq> 0 then ''-'' @ itoa (tor_YearEnd (parse_year y ti)) else []) = y"
  using assms by (auto simp: year_text_ok_def parse_year_def Let_def itoa_no_dash atoi_value_itoa)

lemma parse_year_other [simp]:
  "tor_TorrentTitle (parse_year y ti) = tor_TorrentTitle ti" "tor_ParserInput (parse_year y ti) = tor_ParserInput ti"
  "tor_flags (parse_year y ti) = tor_flags ti" "tor_texts (parse_year y ti) = tor_texts ti" "tor_lists (parse_year y ti) = tor_lists ti"
  "tor_Date (parse_year y ti) = tor_Date ti" "tor_Size (parse_year y ti) = tor_Size ti" "tor_Hash (parse_year y ti) = tor_Hash ti"
  "tor_ParserVersion (parse_year y ti) = tor_ParserVersion ti" "tor_Source (parse_year y ti) = tor_Source ti"
  by (simp_all add: parse_year_def Let_def split: prod.split)

lemma date_text:
  assumes "date_text_ok s"
  shows "DateOnly_String (case Parse_DateOnly s of Some d \<Rightarrow> if s \<noteq> [] then d else 0 | None \<Rightarrow> 0) = s"
proof (cases "s = []")
  case True
  then show ?thesis by (simp add: Parse_DateOnly_def DateOnly_String_def)
next
  case False
  with assms obtain y m d where v: "valid_date y m d" "1 < y" "y < 10000" and s: "s = Format_DateOnly (days_of_date y m d * day_nanos)"
    by (auto simp: date_text_ok_def)
  have "days_of_date y m d \<noteq> 0"
    using year_start_bounds(1) [of "y - 1"] year_start_next [of "y - 1"] yday_bounds(1) [OF v(1)] v(2)
    by (auto simp: days_of_date_def split: if_splits)
  then have "days_of_date y m d * day_nanos \<noteq> 0" by (simp add: day_nanos_def)
  moreover have "Parse_DateOnly s = Some (days_of_date y m d * day_nanos)" unfolding s by (rule Parse_Format_DateOnly) (use v in auto)
  ultimately show ?thesis using False s by (simp add: DateOnly_String_def)
qed

text \<open>
  (roundtrip) For a torrent that was never parsed, what the row keeps of the parser's result gives that result back,
  with its size written anew; the row counts as parsed until its title changes.
\<close>

theorem parse_then_result:
  assumes "pe_parse env (tor_TorrentTitle ti) = Inr r" and "year_text_ok (pr_Year r)" and "date_text_ok (pr_Date r)"
    and "tor_Year ti = 0" and "tor_YearEnd ti = 0" and "tor_Date ti = 0" and "tor_Size ti = 0"
  shows "\<exists>ti'. ForceParse env now ti = Inr ti' \<and> IsParsed ti' \<and>
    ToParsedResult env now' ti' = Inr (r\<lparr>pr_Size := (if pr_Size r \<noteq> [] \<and> 0 < pe_to_bytes env (pr_Size r)
      then pe_to_size env (pe_to_bytes env (pr_Size r)) else [])\<rparr>)"
proof -
  obtain ti' where ti': "parse_info env now ti = Inr ti'" using assms(1) by (simp add: parse_info_def)
  let ?ti1 = "ti\<lparr>tor_ParsedAt := now, tor_ParserVersion := pe_version env, tor_ParserInput := tor_TorrentTitle ti,
      tor_flags := pr_flags r, tor_texts := pr_texts r, tor_lists := pr_lists r,
      tor_Date := (case Parse_DateOnly (pr_Date r) of Some d \<Rightarrow> if pr_Date r \<noteq> [] then d else tor_Date ti | None \<Rightarrow> tor_Date ti),
      tor_Size := (if tor_Size ti < 1 \<and> pr_Size r \<noteq> [] then pe_to_bytes env (pr_Size r) else tor_Size ti)\<rparr>"
  have eq: "ti' = parse_year (pr_Year r) ?ti1" using ti' assms(1) unfolding parse_info_def by (simp only: sum.case sum.inject)
  have parsed: "IsParsed ti'" by (simp add: eq IsParsed_def)
  have year: "(if tor_Year ti' \<noteq> 0 then itoa (tor_Year ti') else []) @ (if tor_YearEnd ti' \<noteq> 0 then ''-'' @ itoa (tor_YearEnd ti') else []) = pr_Year r"
    unfolding eq by (rule parse_year_text [OF assms(2)]) (simp_all add: assms(4,5))
  have kept: "tor_flags ti' = pr_flags r" "tor_texts ti' = pr_texts r" "tor_lists ti' = pr_lists r" by (simp_all add: eq)
  have date: "DateOnly_String (tor_Date ti') = pr_Date r" using date_text [OF assms(3)] by (simp add: eq assms(6) split: option.splits if_splits)
  have size: "tor_Size ti' = (if pr_Size r \<noteq> [] then pe_to_bytes env (pr_Size r) else 0)" using assms(7) by (simp add: eq)
  have "ToParsedResult env now' ti' = Inr (r\<lparr>pr_Size := (if pr_Size r \<noteq> [] \<and> 0 < pe_to_bytes env (pr_Size r)
      then pe_to_size env (pe_to_bytes env (pr_Size r)) else [])\<rparr>)"
    using parsed by (simp add: ToParsedResult_def Parse_def year kept date size)
  then have "IsParsed ti' \<and> ToParsedResult env now' ti' = Inr (r\<lparr>pr_Size := (if pr_Size r \<noteq> [] \<and> 0 < pe_to_bytes env (pr_Size r)
      then pe_to_size env (pe_to_bytes env (pr_Size r)) else [])\<rparr>)" using parsed by blast
  then show ?thesis using ti' by (simp add: ForceParse_def)
qed

text \<open>
  (error) Parsing again does not reset the year, the last year and the date: if the new title has none, the torrent
  keeps those of its former title.
\<close>

theorem reparse_keeps_stale_year:
  assumes "pe_parse env (tor_TorrentTitle ti) = Inr r" and "pr_Year r = []" and "pr_Date r = []"
  shows "\<exists>ti'. ForceParse env now ti = Inr ti' \<and> IsParsed ti' \<and> tor_Year ti' = tor_Year ti \<and> tor_YearEnd ti' = tor_YearEnd ti
    \<and> tor_Date ti' = tor_Date ti"
  using assms by (simp add: ForceParse_def parse_info_def parse_year_def IsParsed_def split: option.split)

section \<open>Upsert\<close>

lemma upsert_chunk_count: "upsert_chunk category seen es c = (rows, files, n) \<Longrightarrow> int (length rows) = n + int (length es) - c"
proof (induction category seen es c arbitrary: rows files n rule: upsert_chunk.induct)
  case (2 category seen e es c)
  then show ?case by (auto split: if_splits prod.splits)
qed simp

lemma upsert_chunk_rows:
  "upsert_chunk category seen es c = (rows, files, n) \<Longrightarrow> r \<in> set rows \<Longrightarrow>
     \<exists>e \<in> set es. it_Hash r = it_Hash e \<and> it_TorrentTitle r = it_TorrentTitle e \<and> it_Source r = it_Source e
       \<and> it_Seeders r = it_Seeders e \<and> length (it_Hash e) = 40 \<and> usable_title e"
proof (induction category seen es c arbitrary: rows files n rule: upsert_chunk.induct)
  case (2 category seen e es c)
  then show ?case by (fastforce split: if_splits prod.splits)
qed simp

lemma upsert_chunk_files:
  "upsert_chunk category seen es c = (rows, files, n) \<Longrightarrow> x \<in> set files \<Longrightarrow> actual_path (tf_Path (snd x)) \<and> length (fst x) = 40"
proof (induction category seen es c arbitrary: rows files n rule: upsert_chunk.induct)
  case (2 category seen e es c)
  then show ?case by (auto simp: item_streams_def split: if_splits prod.splits)
qed simp

lemma upsert_chunk_has:
  "upsert_chunk category seen es c = (rows, files, n) \<Longrightarrow> e \<in> set es \<Longrightarrow> length (it_Hash e) = 40 \<Longrightarrow> it_Hash e \<notin> set seen \<Longrightarrow>
     (\<And>x. x \<in> set es \<Longrightarrow> it_Hash x = it_Hash e \<Longrightarrow> usable_title x) \<Longrightarrow> \<exists>r \<in> set rows. it_Hash r = it_Hash e"
proof (induction category seen es c arbitrary: rows files n rule: upsert_chunk.induct)
  case (2 category seen x es c)
  show ?case
  proof (cases "it_Hash x = it_Hash e")
    case True
    then have "usable_title x" "length (it_Hash x) = 40" "it_Hash x \<notin> set seen" using 2(6-) by auto
    then show ?thesis using 2(5) True by (auto split: prod.splits)
  next
    case False
    then have e: "e \<in> set es" using 2(6) by auto
    have good: "\<And>y. y \<in> set es \<Longrightarrow> it_Hash y = it_Hash e \<Longrightarrow> usable_title y" using 2(9) by auto
    show ?thesis
    proof (cases "it_Hash x \<in> set seen")
      case True
      then show ?thesis using 2(1) [OF True _ e 2(7,8) good] 2(5) by simp
    next
      case new: False
      have seen: "it_Hash e \<notin> set (it_Hash x # seen)" using 2(8) False by simp
      show ?thesis
      proof (cases "length (it_Hash x) = 40")
        case len: False
        then show ?thesis using 2(2) [OF new len _ e 2(7) seen good] 2(5) new by simp
      next
        case len: True
        then have len': "\<not> length (it_Hash x) \<noteq> 40" by simp
        show ?thesis
        proof (cases "usable_title x")
          case no: False
          obtain rows' files' n' where r: "upsert_chunk category (it_Hash x # seen) es (c - 1) = (rows', files', n')" by (metis prod_cases3)
          from 2(3) [OF new len' no r e 2(7) seen good] show ?thesis using 2(5) new len no r by simp
        next
          case yes: True
          then have yes': "\<not> \<not> usable_title x" by simp
          obtain rows' files' n' where r: "upsert_chunk category (it_Hash x # seen) es c = (rows', files', n')" by (metis prod_cases3)
          from 2(4) [OF new len' yes' r e 2(7) seen good] show ?thesis using 2(5) new len yes r by auto
        qed
      qed
    qed
  qed
qed simp

text \<open>The title and the source of a row come from one place.\<close>

definition from_row :: "TorrentInfo \<Rightarrow> TorrentInfo \<Rightarrow> bool" where
  "from_row r r' \<longleftrightarrow> tor_Hash r' = tor_Hash r \<and> tor_TorrentTitle r' = tor_TorrentTitle r \<and> tor_Source r' = tor_Source r"

definition from_item :: "torrent_item \<Rightarrow> TorrentInfo \<Rightarrow> bool" where
  "from_item e r' \<longleftrightarrow> tor_Hash r' = it_Hash e \<and> tor_TorrentTitle r' = it_TorrentTitle e \<and> tor_Source r' = it_Source e"

lemma merge_from: "tor_Hash r = it_Hash e \<Longrightarrow> from_row r (merge_info now e r) \<or> from_item e (merge_info now e r)"
  by (auto simp: merge_info_def from_row_def from_item_def)

lemma from_row_refl [simp]: "from_row r r"
  by (simp add: from_row_def)

lemma from_item_new [simp]: "from_item e (new_info now e)"
  by (simp add: from_item_def new_info_def)

lemma from_row_trans: "from_row r1 r2 \<Longrightarrow> from_row r2 r3 \<Longrightarrow> from_row r1 r3"
  by (simp add: from_row_def)

lemma from_item_trans: "from_item e r2 \<Longrightarrow> from_row r2 r3 \<Longrightarrow> from_item e r3"
  by (simp add: from_row_def from_item_def)

lemma upsert_info_cases:
  assumes "r' \<in> set (upsert_info now t e)"
  obtains "r' \<in> set t" | r where "r \<in> set t" "tor_Hash r = it_Hash e" "r' = merge_info now e r" | "r' = new_info now e"
  using assms by (auto simp: upsert_info_def split: if_splits)

lemma upsert_info_from: "r' \<in> set (upsert_info now t e) \<Longrightarrow> (\<exists>r \<in> set t. from_row r r') \<or> from_item e r'"
  by (erule upsert_info_cases) (use from_row_refl merge_from from_item_new in blast)+

lemma upsert_infos_from: "r' \<in> set (foldl (upsert_info now) t rows) \<Longrightarrow> (\<exists>r \<in> set t. from_row r r') \<or> (\<exists>e \<in> set rows. from_item e r')"
proof (induction rows arbitrary: t)
  case Nil
  then have "r' \<in> set t" by simp
  then show ?case using from_row_refl by blast
next
  case (Cons e rows)
  have "(\<exists>r \<in> set (upsert_info now t e). from_row r r') \<or> (\<exists>e \<in> set rows. from_item e r')" using Cons by simp
  then show ?case
  proof
    assume "\<exists>r \<in> set (upsert_info now t e). from_row r r'"
    then obtain r1 where r1: "r1 \<in> set (upsert_info now t e)" "from_row r1 r'" by blast
    from upsert_info_from [OF r1(1)] show ?thesis using r1(2) from_row_trans from_item_trans by (meson list.set_intros(1))
  next
    assume "\<exists>e \<in> set rows. from_item e r'"
    then show ?thesis by (meson list.set_intros(2))
  qed
qed

lemma upsert_chunks_step:
  assumes "upsert_chunks now enabled ok category k (es # ess) t = (t', files, n)"
  obtains rows files1 m t1 files2 n2 where
    "upsert_chunk category [] es (int (length es)) = (rows, files1, m)"
    "upsert_chunks now enabled ok category (Suc k) ess t1 = (t', files2, n2)"
    "t1 = t \<or> t1 = foldl (upsert_info now) t rows" "files = files1 @ files2"
    "t1 = (if enabled \<and> m \<noteq> 0 \<and> int (length rows) = m \<and> ok k then foldl (upsert_info now) t rows else t)"
    "n = (if \<not> enabled \<or> m = 0 \<or> (int (length rows) = m \<and> ok k) then n2 else Suc n2)"
proof -
  obtain rows files1 m where c: "upsert_chunk category [] es (int (length es)) = (rows, files1, m)" by (metis prod_cases3)
  define t1 where "t1 = (if enabled \<and> m \<noteq> 0 \<and> int (length rows) = m \<and> ok k then foldl (upsert_info now) t rows else t)"
  obtain t2 files2 n2 where r: "upsert_chunks now enabled ok category (Suc k) ess t1 = (t2, files2, n2)" by (metis prod_cases3)
  have e: "(if \<not> (\<not> enabled \<or> m = 0) \<and> int (length rows) = m \<and> ok k then foldl (upsert_info now) t rows else t) = t1"
    unfolding t1_def by simp
  have f: "t' = t2 \<and> files = files1 @ files2 \<and> n = (if \<not> enabled \<or> m = 0 \<or> (int (length rows) = m \<and> ok k) then n2 else Suc n2)"
    using assms unfolding upsert_chunks.simps c prod.case Let_def e r by (simp add: disj_assoc)
  show ?thesis by (rule that [OF c, of t1 files2 n2]) (use r f t1_def in auto)
qed

lemma upsert_chunks_from:
  "upsert_chunks now enabled ok category k ess t = (t', files, n) \<Longrightarrow> r' \<in> set t' \<Longrightarrow>
     (\<exists>r \<in> set t. from_row r r') \<or> (\<exists>e \<in> set (concat ess). length (it_Hash e) = 40 \<and> usable_title e \<and> from_item e r')"
proof (induction ess arbitrary: k t t' files n)
  case Nil
  then have "r' \<in> set t" by simp
  then show ?case using from_row_refl by blast
next
  case (Cons es ess)
  obtain rows files1 m t1 files2 n2 where c: "upsert_chunk category [] es (int (length es)) = (rows, files1, m)"
    and rest: "upsert_chunks now enabled ok category (Suc k) ess t1 = (t', files2, n2)"
    and t1: "t1 = t \<or> t1 = foldl (upsert_info now) t rows"
    using upsert_chunks_step [OF Cons.prems(1)] by metis
  have item: "\<exists>e \<in> set es. length (it_Hash e) = 40 \<and> usable_title e \<and> from_item e r1" if "e1 \<in> set rows" "from_item e1 r1" for e1 r1
  proof -
    from upsert_chunk_rows [OF c that(1)] obtain e where "e \<in> set es" "it_Hash e1 = it_Hash e" "it_TorrentTitle e1 = it_TorrentTitle e"
      "it_Source e1 = it_Source e" "length (it_Hash e1) = 40" "usable_title e" by metis
    then show ?thesis using that(2) by (intro bexI [of _ e]) (simp_all add: from_item_def)
  qed
  have step: "(\<exists>r \<in> set t. from_row r r1) \<or> (\<exists>e \<in> set es. length (it_Hash e) = 40 \<and> usable_title e \<and> from_item e r1)" if "r1 \<in> set t1" for r1
    using t1
  proof
    assume "t1 = t"
    then show ?thesis using that from_row_refl by blast
  next
    assume "t1 = foldl (upsert_info now) t rows"
    from upsert_infos_from [OF that [unfolded this]] show ?thesis using item by blast
  qed
  from Cons.IH [OF rest Cons.prems(2)] show ?case
  proof
    assume "\<exists>r \<in> set t1. from_row r r'"
    then obtain r1 where "r1 \<in> set t1" "from_row r1 r'" by blast
    then show ?thesis using step [of r1] from_row_trans from_item_trans by (metis UnI1 concat.simps(2) set_append)
  next
    assume "\<exists>e \<in> set (concat ess). length (it_Hash e) = 40 \<and> usable_title e \<and> from_item e r'"
    then show ?thesis by (metis UnI2 concat.simps(2) set_append)
  qed
qed

text \<open>
  (invariant) A row never has the title of one source under the name of another, and every title that Upsert brings in
  is usable and belongs to a hash of 40 characters.
\<close>

theorem Upsert_titles:
  assumes "r' \<in> set (db_infos (fst (Upsert now enabled ok files_ok items category discardFileIdx st)))"
  shows "(\<exists>r \<in> set (db_infos st). from_row r r') \<or> (\<exists>e \<in> set items. length (it_Hash e) = 40 \<and> usable_title e \<and> from_item e r')"
proof (cases "items = []")
  case True
  then show ?thesis using assms by (auto simp: Upsert_def from_row_def)
next
  case False
  obtain t files n where c: "upsert_chunks now enabled ok category 0 (chunks 150 items) (db_infos st) = (t, files, n)" by (metis prod_cases3)
  then have "r' \<in> set t" using assms False by (simp add: Upsert_def split: prod.splits)
  from upsert_chunks_from [OF c this] show ?thesis using concat_chunks [of 150 items] by simp
qed

text \<open>What another source cannot change of a torrent that was found in the DHT.\<close>

definition dht_kept :: "TorrentInfo \<Rightarrow> TorrentInfo \<Rightarrow> bool" where
  "dht_kept r r' \<longleftrightarrow> tor_Hash r' = tor_Hash r \<and> tor_Source r' = ''dht'' \<and> tor_TorrentTitle r' = tor_TorrentTitle r
     \<and> tor_Seeders r' = tor_Seeders r \<and> tor_Leechers r' = tor_Leechers r \<and> (tor_Size r < 1 \<or> tor_Size r' = tor_Size r)"

lemma upsert_info_dht:
  assumes "r \<in> set t" and "tor_Source r = ''dht''" and "it_Source e \<noteq> ''dht'' \<or> it_Hash e \<noteq> tor_Hash r"
  shows "\<exists>r' \<in> set (upsert_info now t e). dht_kept r r'"
proof (cases "tor_Hash r = it_Hash e")
  case True
  then have "merge_info now e r \<in> set (upsert_info now t e)" using assms(1) by (auto simp: upsert_info_def list_ex_iff)
  moreover have "dht_kept r (merge_info now e r)" using assms(2,3) True by (auto simp: dht_kept_def merge_info_def wins_title_def)
  ultimately show ?thesis by blast
next
  case False
  then have "r \<in> set (upsert_info now t e)" using assms(1) by (auto simp: upsert_info_def image_iff)
  then show ?thesis using assms(2) by (auto simp: dht_kept_def)
qed

lemma upsert_infos_dht:
  assumes "\<And>e. e \<in> set rows \<Longrightarrow> it_Source e \<noteq> ''dht'' \<or> it_Hash e \<noteq> tor_Hash r"
  shows "r1 \<in> set t \<Longrightarrow> dht_kept r r1 \<Longrightarrow> \<exists>r' \<in> set (foldl (upsert_info now) t rows). dht_kept r r'"
  using assms
proof (induction rows arbitrary: t r1)
  case (Cons e rows)
  then have "tor_Source r1 = ''dht''" "tor_Hash r1 = tor_Hash r" by (simp_all add: dht_kept_def)
  then obtain r2 where r2: "r2 \<in> set (upsert_info now t e)" "dht_kept r1 r2"
    using upsert_info_dht [OF Cons.prems(1), of e now] Cons.prems(3) [of e] by auto
  have "dht_kept r r2" using r2(2) Cons.prems(2) by (auto simp: dht_kept_def)
  from Cons.IH [OF r2(1) this] Cons.prems(3) show ?case by simp
qed auto

lemma upsert_chunks_dht:
  assumes "upsert_chunks now enabled ok category k ess t = (t', files, n)" and "r1 \<in> set t" and "dht_kept r r1"
    and "\<And>e. e \<in> set (concat ess) \<Longrightarrow> it_Source e \<noteq> ''dht'' \<or> it_Hash e \<noteq> tor_Hash r"
  shows "\<exists>r' \<in> set t'. dht_kept r r'"
  using assms
proof (induction ess arbitrary: k t r1 t' files n)
  case (Cons es ess)
  obtain rows files1 m t1 files2 n2 where c: "upsert_chunk category [] es (int (length es)) = (rows, files1, m)"
    and rest: "upsert_chunks now enabled ok category (Suc k) ess t1 = (t', files2, n2)"
    and t1: "t1 = t \<or> t1 = foldl (upsert_info now) t rows"
    using upsert_chunks_step [OF Cons.prems(1)] by metis
  have "it_Source e \<noteq> ''dht'' \<or> it_Hash e \<noteq> tor_Hash r" if "e \<in> set rows" for e
    using upsert_chunk_rows [OF c that] Cons.prems(4) by fastforce
  then obtain r2 where "r2 \<in> set t1" "dht_kept r r2"
    using t1 Cons.prems(2,3) upsert_infos_dht [of rows r r1 t now] by blast
  from Cons.IH [OF rest this] Cons.prems(4) show ?case by auto
qed auto

text \<open>
  C20: (safety) Once a torrent was found in the DHT, its title, size, source and swarm stay until the DHT is asked again,
  whatever indexers, stores and addons report.
\<close>

theorem Upsert_keeps_dht:
  assumes "r \<in> set (db_infos st)" and "tor_Source r = ''dht''"
    and "\<And>e. e \<in> set items \<Longrightarrow> it_Source e \<noteq> ''dht'' \<or> it_Hash e \<noteq> tor_Hash r"
  shows "\<exists>r' \<in> set (db_infos (fst (Upsert now enabled ok files_ok items category discardFileIdx st))). dht_kept r r'"
proof (cases "items = []")
  case True
  then show ?thesis using assms(1,2) by (auto simp: Upsert_def dht_kept_def)
next
  case False
  obtain t files n where c: "upsert_chunks now enabled ok category 0 (chunks 150 items) (db_infos st) = (t, files, n)" by (metis prod_cases3)
  have "dht_kept r r" using assms(2) by (simp add: dht_kept_def)
  from upsert_chunks_dht [OF c assms(1) this] assms(3) concat_chunks [of 150 items] obtain r' where "r' \<in> set t" "dht_kept r r'" by auto
  then show ?thesis using c False by (auto simp: Upsert_def split: prod.split)
qed

lemma merge_info_hash [simp]: "tor_Hash (merge_info now e r) = tor_Hash r"
  by (simp add: merge_info_def)

lemma upsert_info_hashes: "tor_Hash ` set (upsert_info now t e) = insert (it_Hash e) (tor_Hash ` set t)"
proof (cases "list_ex (\<lambda>r. tor_Hash r = it_Hash e) t")
  case True
  have "tor_Hash \<circ> (\<lambda>r. if tor_Hash r = it_Hash e then merge_info now e r else r) = tor_Hash" by auto
  then have "tor_Hash ` set (upsert_info now t e) = tor_Hash ` set t"
    using True by (simp only: upsert_info_def if_True set_map image_comp)
  moreover have "it_Hash e \<in> tor_Hash ` set t" using True by (force simp: list_ex_iff)
  ultimately show ?thesis by (simp add: insert_absorb)
qed (simp add: upsert_info_def new_info_def)

lemma upsert_infos_hashes: "tor_Hash ` set (foldl (upsert_info now) t rows) = it_Hash ` set rows \<union> tor_Hash ` set t"
  by (induction rows arbitrary: t) (auto simp: upsert_info_hashes)

lemma upsert_chunks_hashes:
  "upsert_chunks now enabled ok category k ess t = (t', files, n) \<Longrightarrow> tor_Hash ` set t \<subseteq> tor_Hash ` set t'"
proof (induction ess arbitrary: k t t' files n)
  case (Cons es ess)
  obtain rows files1 m t1 files2 n2 where rest: "upsert_chunks now enabled ok category (Suc k) ess t1 = (t', files2, n2)"
    and t1: "t1 = t \<or> t1 = foldl (upsert_info now) t rows"
    using upsert_chunks_step [OF Cons.prems] by metis
  have "tor_Hash ` set t \<subseteq> tor_Hash ` set t1" using t1 upsert_infos_hashes [of now t rows] by blast
  with Cons.IH [OF rest] show ?case by blast
qed auto

lemma upsert_chunks_complete:
  assumes "upsert_chunks now True ok category k ess t = (t', files, n)" and "\<And>k. ok k"
    and "e \<in> set (concat ess)" and "length (it_Hash e) = 40"
    and "\<And>x. x \<in> set (concat ess) \<Longrightarrow> it_Hash x = it_Hash e \<Longrightarrow> usable_title x"
  shows "it_Hash e \<in> tor_Hash ` set t'"
  using assms
proof (induction ess arbitrary: k t t' files n)
  case (Cons es ess)
  obtain rows files1 m t1 files2 n2 where c: "upsert_chunk category [] es (int (length es)) = (rows, files1, m)"
    and rest: "upsert_chunks now True ok category (Suc k) ess t1 = (t', files2, n2)"
    and t1: "t1 = (if True \<and> m \<noteq> 0 \<and> int (length rows) = m \<and> ok k then foldl (upsert_info now) t rows else t)"
    using upsert_chunks_step [OF Cons.prems(1)] by metis
  show ?case
  proof (cases "e \<in> set es")
    case True
    have "\<exists>r \<in> set rows. it_Hash r = it_Hash e"
      by (rule upsert_chunk_has [OF c True Cons.prems(4)]) (use Cons.prems(5) in auto)
    then obtain r where r: "r \<in> set rows" "it_Hash r = it_Hash e" by blast
    have m: "int (length rows) = m" using upsert_chunk_count [OF c] by simp
    then have "m \<noteq> 0" using r(1) by auto
    then have "t1 = foldl (upsert_info now) t rows" using t1 m Cons.prems(2) by simp
    then have "tor_Hash ` set t1 = it_Hash ` set rows \<union> tor_Hash ` set t" by (simp only: upsert_infos_hashes)
    then have "it_Hash e \<in> tor_Hash ` set t1" using r by (metis UnI1 imageI)
    then show ?thesis using upsert_chunks_hashes [OF rest] by blast
  next
    case False
    then have "e \<in> set (concat ess)" using Cons.prems(3) by auto
    moreover have "usable_title x" if "x \<in> set (concat ess)" "it_Hash x = it_Hash e" for x
      by (rule Cons.prems(5)) (use that in auto)
    ultimately show ?thesis by (rule Cons.IH [OF rest Cons.prems(2) _ Cons.prems(4)])
  qed
qed simp

lemma upsert_chunks_errors:
  "upsert_chunks now enabled ok category k ess t = (t', files, n) \<Longrightarrow> (\<And>k. ok k) \<Longrightarrow>
     n = 0 \<and> (\<forall>x \<in> set files. actual_path (tf_Path (snd x)) \<and> length (fst x) = 40)"
proof (induction ess arbitrary: k t t' files n)
  case (Cons es ess)
  obtain rows files1 m t1 files2 n2 where c: "upsert_chunk category [] es (int (length es)) = (rows, files1, m)"
    and rest: "upsert_chunks now enabled ok category (Suc k) ess t1 = (t', files2, n2)"
    and files: "files = files1 @ files2"
    and n: "n = (if \<not> enabled \<or> m = 0 \<or> (int (length rows) = m \<and> ok k) then n2 else Suc n2)"
    using upsert_chunks_step [OF Cons.prems(1)] by metis
  have "int (length rows) = m" using upsert_chunk_count [OF c] by simp
  then have "n = n2" using n Cons.prems(2) by simp
  then show ?case using Cons.IH [OF rest Cons.prems(2)] upsert_chunk_files [OF c] files by auto
qed simp

text \<open>
  (functional) When the database accepts the statements, Upsert reports no error, and every torrent with a hash of 40
  characters has a row afterwards, if all items of that hash have a usable title.
\<close>

theorem Upsert_complete:
  assumes "\<And>k. ok k" and "\<And>k. files_ok k" and "e \<in> set items" and "length (it_Hash e) = 40"
    and "\<And>x. x \<in> set items \<Longrightarrow> it_Hash x = it_Hash e \<Longrightarrow> usable_title x"
  shows "snd (Upsert now True ok files_ok items category discardFileIdx st) = 0
    \<and> it_Hash e \<in> tor_Hash ` set (db_infos (fst (Upsert now True ok files_ok items category discardFileIdx st)))"
proof -
  obtain t files n where c: "upsert_chunks now True ok category 0 (chunks 150 items) (db_infos st) = (t, files, n)" by (metis prod_cases3)
  have items: "concat (chunks 150 items) = items" "items \<noteq> []" using concat_chunks [of 150 items] assms(3) by auto
  have "n = 0" and files: "\<And>x. x \<in> set files \<Longrightarrow> actual_path (tf_Path (snd x)) \<and> length (fst x) = 40"
    using upsert_chunks_errors [OF c assms(1)] by auto
  moreover have "snd (Record now files_ok files discardFileIdx (db_files st)) = 0"
    by (rule Record_complete_all [THEN conjunct1]) (use files assms(2) in auto)
  moreover have "it_Hash e \<in> tor_Hash ` set t"
    by (rule upsert_chunks_complete [OF c assms(1) _ assms(4)]) (use items assms(3,5) in auto)
  ultimately show ?thesis using c items by (auto simp: Upsert_def split: prod.split)
qed

text \<open>
  (error) Only the first item of a hash in a chunk is looked at: if its title is not usable, a later item that has the
  title is dropped, and the torrent is not stored.
\<close>

theorem bad_first_item_hides_good:
  assumes "it_Hash e1 = it_Hash e2" and "length (it_Hash e1) = 40" and "\<not> usable_title e1"
  shows "db_infos (fst (Upsert now enabled ok files_ok [e1, e2] category discardFileIdx st)) = db_infos st"
proof -
  have "chunks 150 [e1, e2] = [[e1, e2]]" by (simp add: chunks.simps [of 150] chunks.simps [of 150 "[]"])
  then show ?thesis using assms by (simp add: Upsert_def Let_def split: prod.split)
qed

section \<open>The parser worker\<close>

text \<open>What a round of the worker does to a row, if \<open>H\<close> are the hashes of what was parsed.\<close>

definition advanced :: "int \<Rightarrow> string set \<Rightarrow> TorrentInfo \<Rightarrow> TorrentInfo \<Rightarrow> bool" where
  "advanced v H r r' \<longleftrightarrow> tor_Hash r' = tor_Hash r \<and> tor_TorrentTitle r' = tor_TorrentTitle r
     \<and> (if tor_Hash r \<in> H then IsParsed r' \<and> tor_ParserVersion r' = v else r' = r)"

lemma advanced_refl: "advanced v {} r r"
  by (simp add: advanced_def)

lemma advanced_trans: "advanced v H1 r r1 \<Longrightarrow> advanced v H2 r1 r2 \<Longrightarrow> advanced v (H1 \<union> H2) r r2"
  by (auto simp: advanced_def split: if_splits)

lemma advanced_all_trans:
  assumes "list_all2 (advanced v H1) t t1" and "list_all2 (advanced v H2) t1 t2"
  shows "list_all2 (advanced v (H1 \<union> H2)) t t2"
  by (rule list_all2_trans [OF _ assms]) (rule advanced_trans)

text \<open>A row to store that was parsed from the title which the table has.\<close>

definition parsed_of :: "int \<Rightarrow> TorrentInfo list \<Rightarrow> TorrentInfo \<Rightarrow> bool" where
  "parsed_of v t e \<longleftrightarrow> tor_Hash e \<in> tor_Hash ` set t \<and> tor_ParserVersion e = v
     \<and> (\<forall>r \<in> set t. tor_Hash r = tor_Hash e \<longrightarrow> tor_ParserInput e = tor_TorrentTitle r)"

lemma parsed_of_advanced:
  assumes "list_all2 (advanced v H) t t'" and "parsed_of v t e"
  shows "parsed_of v t' e"
proof -
  have mem: "\<exists>r' \<in> set t'. tor_Hash r' = tor_Hash r" if r: "r \<in> set t" for r
  proof -
    from r obtain i where i: "i < length t" "r = t ! i" by (auto simp: in_set_conv_nth)
    with assms(1) have "i < length t'" "advanced v H r (t' ! i)" by (auto simp: list_all2_conv_all_nth)
    then show ?thesis by (auto simp: advanced_def intro!: bexI [of _ "t' ! i"])
  qed
  have origin: "\<exists>r \<in> set t. advanced v H r r'" if r: "r' \<in> set t'" for r'
  proof -
    from r obtain i where i: "i < length t'" "r' = t' ! i" by (auto simp: in_set_conv_nth)
    with assms(1) have "i < length t" "advanced v H (t ! i) r'" by (auto simp: list_all2_conv_all_nth)
    then show ?thesis by (auto intro!: bexI [of _ "t ! i"])
  qed
  have titles: "tor_ParserInput e = tor_TorrentTitle r'" if r: "r' \<in> set t'" "tor_Hash r' = tor_Hash e" for r'
  proof -
    from origin [OF r(1)] obtain r0 where "r0 \<in> set t" "advanced v H r0 r'" by blast
    then show ?thesis using assms(2) r(2) by (simp add: parsed_of_def advanced_def)
  qed
  from assms(2) obtain r0 where "r0 \<in> set t" "tor_Hash r0 = tor_Hash e" by (auto simp: parsed_of_def)
  with mem [of r0] have "tor_Hash e \<in> tor_Hash ` set t'" by (metis imageI)
  then show ?thesis using assms(2) titles by (simp add: parsed_of_def)
qed

lemma merge_parsed_simps [simp]:
  "tor_Hash (merge_parsed now e r) = tor_Hash r" "tor_TorrentTitle (merge_parsed now e r) = tor_TorrentTitle r"
  "tor_ParserInput (merge_parsed now e r) = tor_ParserInput e" "tor_ParserVersion (merge_parsed now e r) = tor_ParserVersion e"
  by (simp_all add: merge_parsed_def)

lemma upsert_parsed_advanced:
  assumes "parsed_of v t e"
  shows "list_all2 (advanced v {tor_Hash e}) t (upsert_parsed now t e)"
proof -
  have "list_ex (\<lambda>r. tor_Hash r = tor_Hash e) t" using assms by (auto simp: parsed_of_def list_ex_iff)
  then show ?thesis using assms by (auto simp: upsert_parsed_def list_all2_conv_all_nth advanced_def parsed_of_def IsParsed_def)
qed

lemma upsert_parseds_advanced:
  "(\<And>e. e \<in> set es \<Longrightarrow> parsed_of v t e) \<Longrightarrow> list_all2 (advanced v (tor_Hash ` set es)) t (foldl (upsert_parsed now) t es)"
proof (induction es arbitrary: t)
  case Nil
  then show ?case by (simp add: list_all2_same advanced_refl)
next
  case (Cons e es)
  have 1: "list_all2 (advanced v {tor_Hash e}) t (upsert_parsed now t e)" by (rule upsert_parsed_advanced) (simp add: Cons.prems)
  have "list_all2 (advanced v (tor_Hash ` set es)) (upsert_parsed now t e) (foldl (upsert_parsed now) (upsert_parsed now t e) es)"
    by (rule Cons.IH) (rule parsed_of_advanced [OF 1 Cons.prems], simp)
  from advanced_all_trans [OF 1 this] show ?case by simp
qed

lemma upsert_parsed_chunks_advanced:
  assumes "\<And>k. ok k"
  shows "(\<And>e. e \<in> set (concat cs) \<Longrightarrow> parsed_of v t e) \<Longrightarrow>
    \<exists>t'. upsert_parsed_chunks now ok k cs t = (t', True) \<and> list_all2 (advanced v (tor_Hash ` set (concat cs))) t t'"
proof (induction cs arbitrary: k t)
  case Nil
  then show ?case by (simp add: list_all2_same advanced_refl)
next
  case (Cons c cs)
  have 1: "list_all2 (advanced v (tor_Hash ` set c)) t (foldl (upsert_parsed now) t c)"
    by (rule upsert_parseds_advanced) (simp add: Cons.prems)
  have "\<And>e. e \<in> set (concat cs) \<Longrightarrow> parsed_of v (foldl (upsert_parsed now) t c) e"
    by (rule parsed_of_advanced [OF 1 Cons.prems]) auto
  from Cons.IH [OF this, of "Suc k"] obtain t' where "upsert_parsed_chunks now ok (Suc k) cs (foldl (upsert_parsed now) t c) = (t', True)"
    "list_all2 (advanced v (tor_Hash ` set (concat cs))) (foldl (upsert_parsed now) t c) t'" by blast
  moreover from advanced_all_trans [OF 1 this(2)] have "list_all2 (advanced v (tor_Hash ` set (concat (c # cs)))) t t'" by (simp add: image_Un)
  moreover have "ok k" by (rule assms)
  ultimately show ?case unfolding upsert_parsed_chunks.simps by simp
qed

lemma UpsertParsed_advanced:
  assumes "\<And>k. ok k" and "\<And>e. e \<in> set es \<Longrightarrow> parsed_of v t e"
  shows "\<exists>t'. UpsertParsed now ok es t = (t', True) \<and> list_all2 (advanced v (tor_Hash ` set es)) t t'"
  using upsert_parsed_chunks_advanced [where ok = ok and cs = "chunks 200 es" and v = v and t = t and now = now and k = 0, OF assms(1)]
    assms(2) concat_chunks [of 200 es]
  by (simp add: UpsertParsed_def)

text \<open>What the worker makes of a row that it has read: the parser accepts every title and has written no later version.\<close>

lemma parseTorrentInfo_Some:
  assumes "pe_parse env (tor_TorrentTitle r) = Inr p" and "tor_ParserVersion r \<le> pe_version env"
  shows "\<exists>e. parseTorrentInfo env now r = Some e \<and> tor_Hash e = tor_Hash r \<and> tor_ParserInput e = tor_TorrentTitle r
    \<and> tor_ParserVersion e = pe_version env"
  using assms by (auto simp: parseTorrentInfo_def ForceParse_def parse_info_def)

lemma parse_chunks_advanced:
  assumes "\<And>k. ok k" and "\<And>s. \<exists>p. pe_parse env s = Inr p"
  shows "(\<And>r. r \<in> set (concat cs) \<Longrightarrow> tor_ParserVersion r \<le> pe_version env) \<Longrightarrow>
    (\<And>r. r \<in> set (concat cs) \<Longrightarrow> tor_Hash r \<in> tor_Hash ` set t) \<Longrightarrow>
    (\<And>r r'. r \<in> set (concat cs) \<Longrightarrow> r' \<in> set t \<Longrightarrow> tor_Hash r' = tor_Hash r \<Longrightarrow> tor_TorrentTitle r' = tor_TorrentTitle r) \<Longrightarrow>
    \<exists>t'. parse_chunks env now ok cs t = (t', True) \<and> list_all2 (advanced (pe_version env) (tor_Hash ` set (concat cs))) t t'"
proof (induction cs arbitrary: t)
  case Nil
  then show ?case by (simp add: list_all2_same advanced_refl)
next
  case (Cons c cs)
  let ?es = "somes (map (parseTorrentInfo env now) c)"
  have "\<exists>e. parseTorrentInfo env now r = Some e \<and> tor_Hash e = tor_Hash r \<and> tor_ParserInput e = tor_TorrentTitle r
    \<and> tor_ParserVersion e = pe_version env" if "r \<in> set c" for r
    using assms(2) [of "tor_TorrentTitle r"] parseTorrentInfo_Some [of env r] Cons.prems(1) [of r] that by auto
  then obtain f where f: "\<And>r. r \<in> set c \<Longrightarrow> parseTorrentInfo env now r = Some (f r) \<and> tor_Hash (f r) = tor_Hash r
    \<and> tor_ParserInput (f r) = tor_TorrentTitle r \<and> tor_ParserVersion (f r) = pe_version env" by metis
  then have es: "?es = map f c" by (induction c) auto
  have "parsed_of (pe_version env) t e" if "e \<in> set ?es" for e
  proof -
    from that es obtain r where r: "r \<in> set c" "e = f r" by auto
    then have "r \<in> set (concat (c # cs))" by simp
    from Cons.prems(2,3) [OF this] show ?thesis using f [OF r(1)] r(2) by (auto simp: parsed_of_def)
  qed
  from UpsertParsed_advanced [where ok = ok and es = ?es and now = now, OF assms(1) this] obtain t1 where t1: "UpsertParsed now ok ?es t = (t1, True)"
    "list_all2 (advanced (pe_version env) (tor_Hash ` set ?es)) t t1" by blast
  have H: "tor_Hash ` set ?es = tor_Hash ` set c" unfolding es using f by (force simp: image_iff)
  have hashes: "map tor_Hash t1 = map tor_Hash t" and titles: "map tor_TorrentTitle t1 = map tor_TorrentTitle t"
    using t1(2) by (auto simp: list_all2_conv_all_nth advanced_def intro: nth_equalityI)
  have "\<exists>t'. parse_chunks env now ok cs t1 = (t', True) \<and> list_all2 (advanced (pe_version env) (tor_Hash ` set (concat cs))) t1 t'"
  proof (rule Cons.IH)
    show "tor_ParserVersion r \<le> pe_version env" if "r \<in> set (concat cs)" for r using Cons.prems(1) that by simp
    show "tor_Hash r \<in> tor_Hash ` set t1" if "r \<in> set (concat cs)" for r
      using Cons.prems(2) [of r] that hashes by (metis UnI2 concat.simps(2) list.set_map set_append)
    show "tor_TorrentTitle r' = tor_TorrentTitle r" if "r \<in> set (concat cs)" "r' \<in> set t1" "tor_Hash r' = tor_Hash r" for r r'
    proof -
      from that(2) obtain i where i: "i < length t1" "r' = t1 ! i" by (auto simp: in_set_conv_nth)
      have "i < length t" "tor_Hash (t ! i) = tor_Hash r'" "tor_TorrentTitle (t ! i) = tor_TorrentTitle r'"
        using t1(2) i by (auto simp: list_all2_conv_all_nth advanced_def)
      then show ?thesis using Cons.prems(3) [of r "t ! i"] that(1,3) by simp
    qed
  qed
  then obtain t' where t': "parse_chunks env now ok cs t1 = (t', True)"
    "list_all2 (advanced (pe_version env) (tor_Hash ` set (concat cs))) t1 t'" by blast
  from advanced_all_trans [OF t1(2) this(2)] show ?case using t1(1) t'(1) by (simp add: H image_Un)
qed

lemma fewer_filter:
  assumes "list_all2 (\<lambda>x y. Q y \<longrightarrow> P x) xs ys"
  shows "length (filter Q ys) \<le> length (filter P xs)"
  using assms by (induction rule: list_all2_induct) auto

lemma fewer_filter_strict:
  assumes "list_all2 (\<lambda>x y. Q y \<longrightarrow> P x) xs ys" and "list_ex (\<lambda>(x, y). P x \<and> \<not> Q y) (zip xs ys)"
  shows "length (filter Q ys) < length (filter P xs)"
  using assms
proof (induction rule: list_all2_induct)
  case (Cons x xs y ys)
  then show ?case using fewer_filter [of Q P xs ys] by (auto simp: less_Suc_eq_le split: if_splits)
qed simp

text \<open>
  C29: (termination) The parser worker ends without an error, and every row is parsed then, however many there are: if the
  parser accepts every title, every query and statement succeeds, the table has one row for each hash, and no row was
  parsed by a later version of the parser (such rows are skipped).
\<close>

theorem parser_loop_total:
  assumes "\<And>k. ok k" and "\<And>s. \<exists>p. pe_parse env s = Inr p" and "distinct (map tor_Hash t)"
    and "\<And>r. r \<in> set t \<Longrightarrow> tor_ParserVersion r \<le> pe_version env" and "\<And>t. got t"
  shows "\<exists>t'. parser_loop env now got ok t = Some (t', True) \<and> map tor_Hash t' = map tor_Hash t
    \<and> (\<forall>r \<in> set t'. IsParsed r)"
  using assms(3,4)
proof (induction "length (filter (\<lambda>r. \<not> IsParsed r) t)" arbitrary: t rule: less_induct)
  case less
  let ?us = "GetUnparsed 5000 t"
  have us: "?us = take 5000 (filter (\<lambda>r. \<not> IsParsed r) t)" by (simp add: GetUnparsed_def)
  then have sub: "set ?us \<subseteq> set t" using set_take_subset by fastforce
  have same: "r' = r" if "r \<in> set t" "r' \<in> set t" "tor_Hash r' = tor_Hash r" for r r'
    using less.prems(1) that by (auto simp: distinct_map inj_on_def)
  have flat: "concat (chunks 500 ?us) = ?us" using concat_chunks [of 500 ?us] by simp
  have "\<exists>t'. parse_chunks env now ok (chunks 500 ?us) t = (t', True)
      \<and> list_all2 (advanced (pe_version env) (tor_Hash ` set (concat (chunks 500 ?us)))) t t'"
  proof (rule parse_chunks_advanced [OF assms(1,2)], unfold flat)
    show "tor_ParserVersion r \<le> pe_version env" if "r \<in> set ?us" for r using that sub less.prems(2) by blast
    show "tor_Hash r \<in> tor_Hash ` set t" if "r \<in> set ?us" for r using that sub by blast
    show "tor_TorrentTitle r' = tor_TorrentTitle r" if "r \<in> set ?us" "r' \<in> set t" "tor_Hash r' = tor_Hash r" for r r'
      using that sub same by blast
  qed
  then obtain t' where t': "parse_chunks env now ok (chunks 500 ?us) t = (t', True)"
    and adv: "list_all2 (advanced (pe_version env) (tor_Hash ` set ?us)) t t'" unfolding flat by blast
  have hashes: "map tor_Hash t' = map tor_Hash t"
    using adv by (auto simp: list_all2_conv_all_nth advanced_def intro: nth_equalityI)
  have nth: "i < length t \<Longrightarrow> advanced (pe_version env) (tor_Hash ` set ?us) (t ! i) (t' ! i)" for i
    using adv by (simp add: list_all2_conv_all_nth)
  have len: "length t' = length t" using adv by (simp add: list_all2_lengthD)
  show ?case
  proof (cases "length ?us < 5000")
    case True
    then have all: "set ?us = {r \<in> set t. \<not> IsParsed r}" using us by (simp add: min_def split: if_splits)
    have "IsParsed r'" if r': "r' \<in> set t'" for r'
    proof -
      from r' obtain i where i: "i < length t" "r' = t' ! i" using len by (auto simp: in_set_conv_nth)
      show ?thesis
      proof (cases "IsParsed (t ! i)")
        case False
        then have "t ! i \<in> set ?us" using i all by simp
        then show ?thesis using nth [OF i(1)] i(2) by (auto simp: advanced_def split: if_splits)
      qed (use nth [OF i(1)] i(2) in \<open>auto simp: advanced_def split: if_splits\<close>)
    qed
    then show ?thesis using t' True hashes by (subst parser_loop.simps) (simp add: assms(5))
  next
    case False
    have mono: "list_all2 (\<lambda>r r'. \<not> IsParsed r' \<longrightarrow> \<not> IsParsed r) t t'"
      using adv by (rule list_all2_mono) (auto simp: advanced_def split: if_splits)
    from False have "?us \<noteq> []" by auto
    then obtain r where r: "r \<in> set ?us" by (cases ?us) auto
    then obtain i where i: "i < length t" "t ! i = r" using sub by (metis in_set_conv_nth subsetD)
    have "\<not> IsParsed r" using r us by (auto dest: in_set_takeD)
    moreover have "IsParsed (t' ! i)" using nth [OF i(1)] i(2) r by (auto simp: advanced_def)
    ultimately have "list_ex (\<lambda>(x, y). \<not> IsParsed x \<and> \<not> \<not> IsParsed y) (zip t t')"
      using i len by (auto simp: list_ex_iff set_zip intro!: exI [of _ i])
    from fewer_filter_strict [OF mono this] have fewer: "length (filter (\<lambda>r. \<not> IsParsed r) t') < length (filter (\<lambda>r. \<not> IsParsed r) t)" .
    have dist: "distinct (map tor_Hash t')" using less.prems(1) hashes by simp
    have vers: "tor_ParserVersion r' \<le> pe_version env" if r': "r' \<in> set t'" for r'
    proof -
      from r' obtain j where j: "j < length t" "r' = t' ! j" using len by (auto simp: in_set_conv_nth)
      show ?thesis using nth [OF j(1)] j(2) less.prems(2) [of "t ! j"] j(1) by (auto simp: advanced_def split: if_splits)
    qed
    from less.hyps [OF fewer dist vers] show ?thesis
      using t' False hashes by (subst parser_loop.simps) (auto simp: assms(5))
  qed
qed

text \<open>
  (liveness) Nothing but success takes a row off the list of unparsed ones: when the first 5000 titles cannot be parsed
  the worker reads them again and again, and never ends nor gets to the titles behind them.
\<close>

theorem parser_loop_stuck:
  assumes "5000 \<le> length (filter (\<lambda>r. \<not> IsParsed r) t)"
    and "\<And>r. r \<in> set (GetUnparsed 5000 t) \<Longrightarrow> parseTorrentInfo env now r = None" and "got t"
  shows "parser_loop env now got ok t = None"
proof -
  have none: "somes (map (parseTorrentInfo env now) c) = []" if "set c \<subseteq> set (GetUnparsed 5000 t)" for c
    using that assms(2) by (induction c) auto
  have "parse_chunks env now ok cs t = (t, True)" if "set (concat cs) \<subseteq> set (GetUnparsed 5000 t)" for cs
    using that none by (induction cs) (simp_all add: UpsertParsed_def chunks.simps [of 200 "[]"])
  from this [of "chunks 500 (GetUnparsed 5000 t)"] have same: "parse_chunks env now ok (chunks 500 (GetUnparsed 5000 t)) t = (t, True)"
    unfolding concat_chunks [of 500 "GetUnparsed 5000 t", simplified] by simp
  have full: "\<not> length (GetUnparsed 5000 t) < 5000" using assms(1) by (simp add: GetUnparsed_def)
  have "\<not> (e = env \<and> n = now \<and> g = got \<and> o1 = ok \<and> s = t)" if "parser_loop e n g o1 s = Some y" for e n g o1 s y
    using that
  proof (rule parser_loop.raw_induct [rotated])
    fix f e n g o1 s y
    assume IH: "\<And>e n g o1 s y. f e n g o1 s = Some y \<Longrightarrow> \<not> (e = env \<and> n = now \<and> g = got \<and> o1 = ok \<and> s = t)"
      and body: "(if \<not> g s then Some (s, False) else case parse_chunks e n o1 (chunks 500 (GetUnparsed 5000 s)) s of
          (t', good) \<Rightarrow> if \<not> good then Some (t', False)
            else if length (GetUnparsed 5000 s) < 5000 then Some (t', True) else f e n g o1 t') = Some y"
    show "\<not> (e = env \<and> n = now \<and> g = got \<and> o1 = ok \<and> s = t)"
    proof
      assume eq: "e = env \<and> n = now \<and> g = got \<and> o1 = ok \<and> s = t"
      then have "f env now got ok t = Some y" using body same full assms(3) by simp
      then show False using IH by blast
    qed
  qed
  then have "parser_loop env now got ok t \<noteq> Some y" for y by blast
  then show ?thesis by (cases "parser_loop env now got ok t") auto
qed

section \<open>Samples\<close>

definition sample_result :: ptt_result where
  "sample_result =
     \<lparr>pr_flags = no_flags, pr_texts = no_texts\<lparr>tx_Title := ''Dark''\<rparr>, pr_lists = no_lists\<lparr>ls_Seasons := [1]\<rparr>, pr_Date = [],
      pr_Size = [], pr_Year = ''2017-2020''\<rparr>"

definition sample_parser :: parse_env where
  "sample_parser =
     \<lparr>pe_parse = (\<lambda>_. Inr sample_result), pe_version = 9000, pe_to_bytes = (\<lambda>_. 0), pe_to_size = (\<lambda>_. []), pe_valid_utf8 = id\<rparr>"

definition sample_item :: "string \<Rightarrow> string \<Rightarrow> torrent_item" where
  "sample_item title src =
     \<lparr>it_Hash = sample_hash, it_TorrentTitle = title, it_Size = 0, it_Indexer = [], it_Source = src, it_Category = [],
      it_Seeders = 0, it_Leechers = 0, it_Private = False, it_Files = []\<rparr>"

definition sample_info :: TorrentInfo where
  "sample_info = new_info 1 (sample_item ''Dark.S01.2017-2020'' ''dht'')"

lemma year_text_sample: "year_text_ok ''2017-2020''"
proof -
  have "''2017-2020'' = itoa 2017 @ ''-'' @ itoa 2020" by code_simp
  then show ?thesis unfolding year_text_ok_def by (intro disjI2 exI [of _ 2017] exI [of _ 2020]) simp
qed

theorem parse_then_result_witness:
  "\<exists>ti'. ForceParse sample_parser 2 sample_info = Inr ti' \<and> IsParsed ti' \<and>
    ToParsedResult sample_parser 3 ti' = Inr sample_result"
  using parse_then_result [of sample_parser sample_info sample_result 2 3] year_text_sample
  by (simp add: sample_parser_def sample_info_def new_info_def sample_item_def sample_result_def date_text_ok_def)

theorem reparse_keeps_stale_year_witness:
  "\<exists>ti'. ForceParse (sample_parser\<lparr>pe_parse := (\<lambda>_. Inr (sample_result\<lparr>pr_Year := []\<rparr>))\<rparr>) 2 (sample_info\<lparr>tor_Year := 1999\<rparr>) = Inr ti'
    \<and> IsParsed ti' \<and> tor_Year ti' = 1999"
  using reparse_keeps_stale_year [of "sample_parser\<lparr>pe_parse := (\<lambda>_. Inr (sample_result\<lparr>pr_Year := []\<rparr>))\<rparr>" "sample_info\<lparr>tor_Year := 1999\<rparr>"
      "sample_result\<lparr>pr_Year := []\<rparr>" 2]
  by (auto simp: sample_result_def)

theorem Upsert_titles_witness:
  "from_item (sample_item ''Dark'' ''rd'') (new_info 2 (sample_item ''Dark'' ''rd''))
   \<and> ((\<exists>r \<in> set []. from_row r (new_info 2 (sample_item ''Dark'' ''rd'')))
    \<or> (\<exists>e \<in> set [sample_item ''Dark'' ''rd'']. length (it_Hash e) = 40 \<and> usable_title e \<and> from_item e (new_info 2 (sample_item ''Dark'' ''rd''))))"
proof -
  have "new_info 2 (sample_item ''Dark'' ''rd'') \<in> set (db_infos (fst (Upsert 2 True (\<lambda>_. True) (\<lambda>_. True) [sample_item ''Dark'' ''rd''] [] True
      \<lparr>db_infos = [], db_files = []\<rparr>)))" by code_simp
  from Upsert_titles [OF this] show ?thesis by (simp only: info_db.select_convs from_item_new simp_thms)
qed

theorem Upsert_keeps_dht_witness:
  "\<exists>r' \<in> set (db_infos (fst (Upsert 2 True (\<lambda>_. True) (\<lambda>_. True) [sample_item ''Other'' ''rd''] [] True
      \<lparr>db_infos = [sample_info], db_files = []\<rparr>))). tor_TorrentTitle r' = ''Dark.S01.2017-2020''"
proof -
  have "\<exists>r' \<in> set (db_infos (fst (Upsert 2 True (\<lambda>_. True) (\<lambda>_. True) [sample_item ''Other'' ''rd''] [] True
      \<lparr>db_infos = [sample_info], db_files = []\<rparr>))). dht_kept sample_info r'"
    by (rule Upsert_keeps_dht) (simp_all add: sample_info_def new_info_def sample_item_def)
  then show ?thesis by (auto simp: dht_kept_def sample_info_def new_info_def sample_item_def)
qed

lemma usable_sample: "usable_title (sample_item ''Dark'' src)"
proof -
  have "length ''Dark'' \<noteq> length sample_hash" by (simp add: sample_hash_def)
  then have "''Dark'' \<noteq> sample_hash" by metis
  then show ?thesis by (simp add: sample_item_def usable_title_def has_prefix_def)
qed

theorem Upsert_complete_witness:
  "sample_hash \<in> tor_Hash ` set (db_infos (fst (Upsert 2 True (\<lambda>_. True) (\<lambda>_. True) [sample_item ''Dark'' ''rd''] [] True
      \<lparr>db_infos = [], db_files = []\<rparr>)))"
  using Upsert_complete [where ok = "\<lambda>_. True" and files_ok = "\<lambda>_. True" and e = "sample_item ''Dark'' ''rd''"
      and items = "[sample_item ''Dark'' ''rd'']" and now = 2 and category = "[]" and discardFileIdx = True
      and st = "\<lparr>db_infos = [], db_files = []\<rparr>"]
    usable_sample by (simp add: sample_item_def sample_hash_def)

theorem bad_first_item_hides_good_witness:
  "db_infos (fst (Upsert 2 True (\<lambda>_. True) (\<lambda>_. True) [sample_item [] ''rd'', sample_item ''Dark'' ''rd''] [] True
      \<lparr>db_infos = [], db_files = []\<rparr>)) = []"
  using bad_first_item_hides_good [of "sample_item [] ''rd''" "sample_item ''Dark'' ''rd''" 2 True "\<lambda>_. True" "\<lambda>_. True" "[]" True
      "\<lparr>db_infos = [], db_files = []\<rparr>"]
  by (simp add: sample_item_def usable_title_def sample_hash_def)

theorem parser_loop_total_witness:
  "\<exists>t'. parser_loop sample_parser 2 (\<lambda>_. True) (\<lambda>_. True) [sample_info] = Some (t', True) \<and> (\<forall>r \<in> set t'. IsParsed r)"
  using parser_loop_total [where got = "\<lambda>_. True" and ok = "\<lambda>_. True" and env = sample_parser and t = "[sample_info]" and now = 2]
  by (auto simp: sample_parser_def sample_info_def new_info_def)

theorem parser_loop_stuck_witness:
  "parser_loop (sample_parser\<lparr>pe_parse := (\<lambda>_. Inl ''no title'')\<rparr>) 2 (\<lambda>_. True) (\<lambda>_. True) (replicate 5000 sample_info @ [sample_info]) = None"
proof (rule parser_loop_stuck)
  have np: "\<not> IsParsed sample_info" by (simp add: IsParsed_def sample_info_def new_info_def sample_item_def)
  then show "5000 \<le> length (filter (\<lambda>r. \<not> IsParsed r) (replicate 5000 sample_info @ [sample_info]))" by (simp add: filter_replicate)
  show "parseTorrentInfo (sample_parser\<lparr>pe_parse := (\<lambda>_. Inl ''no title'')\<rparr>) 2 r = None" for r
    by (simp add: parseTorrentInfo_def ForceParse_def parse_info_def)
qed simp

end
