(* ===== verification/Torrent_Lookup.thy ===== *)
theory Torrent_Lookup
  imports Torrent_Info Torrent_Stream "HOL-Library.AList"
begin

text \<open>
  How torrents are found (\<open>internal/torrent_info/db.go\<close>, the queries on a stream id and on hashes).

  A query is a function of the tables: \<open>torrent_info\<close> and \<open>torrent_stream\<close> as before, \<open>imdb_torrent\<close> as
  pairs of hash and IMDb id, \<open>anidb_torrent\<close> as records. A result with DISTINCT, UNION or GROUP BY is a list without
  repetitions whose order means nothing.
\<close>

text \<open>A time as the database writes it: SQLite keeps whole seconds.\<close>

definition db_time :: "DBDialect \<Rightarrow> int \<Rightarrow> int" where
  "db_time d t = (if d = SQLite then floor_second t else t)"

section \<open>Tables\<close>

record anidb_torrent_row =
  atr_TId :: string
  atr_Hash :: string
  atr_SeasonType :: string
  atr_Season :: int
  atr_EpisodeStart :: int
  atr_EpisodeEnd :: int

record torrent_tables =
  tt_infos :: "TorrentInfo list"
  tt_streams :: "ts_row list"
  tt_imdb :: "(string \<times> string) list"
  tt_anidb :: "anidb_torrent_row list"

definition GetByHash :: "string \<Rightarrow> TorrentInfo list \<Rightarrow> TorrentInfo option" where
  "GetByHash hash t = find (\<lambda>r. tor_Hash r = hash) t"

definition info_GetByHashes :: "string list \<Rightarrow> TorrentInfo list \<Rightarrow> (string \<times> TorrentInfo) list" where
  "info_GetByHashes hashes t =
     (if hashes = [] then [] else foldl (\<lambda>m r. AList.update (tor_Hash r) r m) [] (filter (\<lambda>r. tor_Hash r \<in> set hashes) t))"

section \<open>Hashes of a stream id\<close>

definition anime_stream_hashes :: "DBDialect \<Rightarrow> string \<Rightarrow> torrent_tables \<Rightarrow> string list" where
  "anime_stream_hashes d pat db = map tr_Hash (filter (\<lambda>r. sql_like d pat (tr_ASId r)) (tt_streams db))"

definition anime_torrent :: "string \<Rightarrow> int \<Rightarrow> anidb_torrent_row \<Rightarrow> bool" where
  "anime_torrent i s r \<longleftrightarrow> atr_TId r = i \<and> atr_SeasonType r = ''ani'' \<and> atr_Season r = s"

definition covers_episode :: "int \<Rightarrow> anidb_torrent_row \<Rightarrow> bool" where
  "covers_episode ep r \<longleftrightarrow> (atr_EpisodeStart r = 0 \<or> atr_EpisodeStart r \<le> ep) \<and> (atr_EpisodeEnd r = 0 \<or> ep \<le> atr_EpisodeEnd r)"

definition anime_hashes :: "DBDialect \<Rightarrow> string \<Rightarrow> string \<Rightarrow> string \<Rightarrow> torrent_tables \<Rightarrow> string list" where
  "anime_hashes d anidbId season episode db =
     (let s = SafeParseInt season (- 1)
      in remdups
        (if episode = [] then
           anime_stream_hashes d (anidbId @ '':%'') db @ map atr_Hash (filter (anime_torrent anidbId s) (tt_anidb db))
         else
           let ep = SafeParseInt episode (- 1)
           in anime_stream_hashes d (anidbId @ '':'' @ episode) db
             @ map atr_Hash (filter (\<lambda>r. anime_torrent anidbId s r \<and> covers_episode ep r) (tt_anidb db))))"

definition listHashesForAnimeByAniDBId :: "DBDialect \<Rightarrow> string \<Rightarrow> string \<Rightarrow> string \<Rightarrow> torrent_tables \<Rightarrow> string list" where
  "listHashesForAnimeByAniDBId d anidbId season episode db =
     (if anidbId = [] then [] else anime_hashes d anidbId season episode db)"

definition stream_hashes :: "DBDialect \<Rightarrow> string \<Rightarrow> string \<Rightarrow> torrent_tables \<Rightarrow> string list" where
  "stream_hashes d sid pat db = map tr_Hash (filter (\<lambda>r. tr_SId r = sid \<or> sql_like d pat (tr_SId r)) (tt_streams db))"

definition imdb_hashes :: "string \<Rightarrow> torrent_tables \<Rightarrow> string list" where
  "imdb_hashes i db = map fst (filter (\<lambda>(h, tid). tid = i) (tt_imdb db))"

text \<open>The lists of numbers are compared as texts, between commas.\<close>

definition number_column :: "int list \<Rightarrow> string" where
  "number_column ns = go_join '','' (map itoa ns)"

definition commas :: "string \<Rightarrow> string" where
  "commas s = '','' @ s @ '',''"

definition has_episode :: "DBDialect \<Rightarrow> string \<Rightarrow> string \<Rightarrow> TorrentInfo \<Rightarrow> bool" where
  "has_episode d season episode r \<longleftrightarrow>
     sql_like d (''%,'' @ season @ '',%'') (commas (number_column (ls_Seasons (tor_lists r))))
     \<and> (number_column (ls_Episodes (tor_lists r)) = []
        \<or> sql_like d (''%,'' @ episode @ '',%'') (commas (number_column (ls_Episodes (tor_lists r)))))"

definition imdb_series_hashes :: "DBDialect \<Rightarrow> string \<Rightarrow> string \<Rightarrow> string \<Rightarrow> torrent_tables \<Rightarrow> string list" where
  "imdb_series_hashes d i season episode db =
     filter (\<lambda>h. list_ex (\<lambda>r. tor_Hash r = h \<and> has_episode d season episode r) (tt_infos db)) (imdb_hashes i db)"

definition ListHashesByStremId :: "DBDialect \<Rightarrow> string + normalized_strem_id \<Rightarrow> string \<Rightarrow> torrent_tables \<Rightarrow> string + string list" where
  "ListHashesByStremId d normalized stremId db =
     (case normalized of
        Inl e \<Rightarrow> Inl e
      | Inr nsid \<Rightarrow>
          Inr (if ns_IsAnime nsid then listHashesForAnimeByAniDBId d (ns_Id nsid) (ns_Season nsid) (ns_Episode nsid) db
               else if CHR '':'' \<in> set stremId then
                 (case split_n CHR '':'' 3 stremId of
                    [i, s, e] \<Rightarrow> remdups (stream_hashes d stremId i db @ imdb_series_hashes d i s e db)
                  | _ \<Rightarrow> remdups (stream_hashes d stremId (fst (cut stremId CHR '':'')) db))
               else remdups (stream_hashes d stremId (stremId @ '':%'') db @ imdb_hashes stremId db)))"

section \<open>Torrents of a stream id\<close>

text \<open>The files that the outer join finds; when it finds none, \<open>Files.Scan\<close> drops the one without a path.\<close>

definition item_of :: "torrent_tables \<Rightarrow> TorrentInfo \<Rightarrow> torrent_item" where
  "item_of db r =
     \<lparr>it_Hash = tor_Hash r, it_TorrentTitle = tor_TorrentTitle r, it_Size = tor_Size r, it_Indexer = tor_Indexer r,
      it_Source = tor_Source r, it_Category = tor_Category r, it_Seeders = tor_Seeders r, it_Leechers = tor_Leechers r,
      it_Private = tor_Private r,
      it_Files = Files_Normalize (map full_file (filter (\<lambda>s. tr_Hash s = tor_Hash r \<and> tr_Source s \<noteq> []) (tt_streams db)))\<rparr>"

definition hashes_of_id :: "DBDialect \<Rightarrow> normalized_strem_id \<Rightarrow> string \<Rightarrow> torrent_tables \<Rightarrow> string list" where
  "hashes_of_id d nsid stremId db =
     (if ns_IsAnime nsid then anime_hashes d (ns_Id nsid) (ns_Season nsid) (ns_Episode nsid) db
      else if ns_Season nsid \<noteq> [] \<and> ns_Episode nsid \<noteq> []
        then stream_hashes d stremId (ns_Id nsid) db @ imdb_series_hashes d (ns_Id nsid) (ns_Season nsid) (ns_Episode nsid) db
      else stream_hashes d stremId (stremId @ '':%'') db @ imdb_hashes stremId db)"

definition ListByStremId ::
    "DBDialect \<Rightarrow> string + normalized_strem_id \<Rightarrow> string \<Rightarrow> bool \<Rightarrow> torrent_tables \<Rightarrow> string + torrent_item list" where
  "ListByStremId d normalized stremId excludeMissingSize db =
     (case normalized of
        Inl e \<Rightarrow> Inl e
      | Inr nsid \<Rightarrow>
          Inr (if ns_Id nsid = [] then []
               else map (item_of db)
                 (filter (\<lambda>r. tor_Hash r \<in> set (hashes_of_id d nsid stremId db) \<and> (excludeMissingSize \<longrightarrow> 0 < tor_Size r))
                   (tt_infos db))))"

section \<open>Dump\<close>

record dump_item =
  du_Hash :: string
  du_Name :: string
  du_Size :: int
  du_IsSizeApprox :: bool

text \<open>Files that belong to a film: their sum stands for a size that is not known.\<close>

definition size_files :: "torrent_tables \<Rightarrow> TorrentInfo \<Rightarrow> ts_row list" where
  "size_files db r =
     (if tor_Size r \<le> 0 then
        filter (\<lambda>s. tr_Hash s = tor_Hash r \<and> 0 \<le> tr_Size s \<and> tr_SId s \<noteq> [] \<and> CHR '':'' \<notin> set (tr_SId s)) (tt_streams db)
      else [])"

definition dump_row :: "torrent_tables \<Rightarrow> TorrentInfo \<Rightarrow> dump_item" where
  "dump_row db r =
     \<lparr>du_Hash = tor_Hash r, du_Name = tor_TorrentTitle r,
      du_Size = (if 0 < tor_Size r then tor_Size r
                 else if size_files db r = [] then - 1 else sum_list (map tr_Size (size_files db r))),
      du_IsSizeApprox = (tor_Size r \<le> 0)\<rparr>"

definition DumpTorrents :: "bool \<Rightarrow> bool \<Rightarrow> string list \<Rightarrow> torrent_tables \<Rightarrow> dump_item list" where
  "DumpTorrents noApproxSize noMissingSize excludeSource db =
     filter (\<lambda>i. \<not> (noMissingSize \<and> du_Size i \<le> 0))
       (map (\<lambda>i. if noApproxSize \<and> du_IsSizeApprox i then i\<lparr>du_Size := - 1, du_IsSizeApprox := False\<rparr> else i)
         (map (dump_row db) (filter (\<lambda>r. \<not> tor_Private r \<and> tor_Source r \<notin> set excludeSource) (tt_infos db))))"

section \<open>Counts and look-ups by hash\<close>

record info_stats =
  is_TotalCount :: nat
  is_CountBySource :: "(string \<times> nat) list"
  is_Streams :: "(nat \<times> (string \<times> nat) list) option"

definition source_counts :: "TorrentInfo list \<Rightarrow> (string \<times> nat) list" where
  "source_counts t = map (\<lambda>s. (s, length (filter (\<lambda>r. tor_Source r = s) t))) (remdups (map tor_Source t))"

definition info_GetStats :: "bool \<Rightarrow> torrent_tables \<Rightarrow> info_stats" where
  "info_GetStats streams_ok db =
     \<lparr>is_TotalCount = sum_list (map snd (source_counts (tt_infos db))), is_CountBySource = source_counts (tt_infos db),
      is_Streams = (if streams_ok then Some (stats_total (stream_stats (tt_streams db)), stream_stats (tt_streams db)) else None)\<rparr>"

definition ExistsByHash :: "string list \<Rightarrow> TorrentInfo list \<Rightarrow> string list" where
  "ExistsByHash hashes t =
     concat (map (\<lambda>c. map tor_Hash (filter (\<lambda>r. tor_Hash r \<in> set c) t)) (chunks 2000 hashes))"

definition clamp_limit :: "int \<Rightarrow> nat" where
  "clamp_limit limit = nat (max 1 (min limit 20000))"

definition GetIMDBUnmappedHashes :: "int \<Rightarrow> torrent_tables \<Rightarrow> string list" where
  "GetIMDBUnmappedHashes limit db =
     take (clamp_limit limit) (map tor_Hash (filter (\<lambda>r. IsParsed r \<and> tor_Hash r \<notin> fst ` set (tt_imdb db)) (tt_infos db)))"

definition GetAniDBUnmappedHashes :: "int \<Rightarrow> torrent_tables \<Rightarrow> string list" where
  "GetAniDBUnmappedHashes limit db =
     take (clamp_limit limit) (map tor_Hash (filter (\<lambda>r. IsParsed r \<and> tor_Hash r \<notin> atr_Hash ` set (tt_anidb db)) (tt_infos db)))"

text \<open>One statement per category, in whatever order they run; \<open>ok\<close> tells which the database accepts.\<close>

fun SetMissingCategory :: "(string \<Rightarrow> bool) \<Rightarrow> (string \<times> string list) list \<Rightarrow> TorrentInfo list \<Rightarrow> TorrentInfo list" where
  "SetMissingCategory ok [] t = t"
| "SetMissingCategory ok ((category, hashes) # cs) t =
     SetMissingCategory ok cs
       (if hashes = [] \<or> \<not> ok category then t
        else map (\<lambda>r. if tor_Category r = [] \<and> tor_Hash r \<in> set hashes then r\<lparr>tor_Category := category\<rparr> else r) t)"

definition GetBasicInfoByHash :: "string list \<Rightarrow> TorrentInfo list \<Rightarrow> (string \<times> string \<times> int) list" where
  "GetBasicInfoByHash hashes t =
     map (\<lambda>r. (tor_Hash r, tor_TorrentTitle r, tor_Size r)) (filter (\<lambda>r. tor_Hash r \<in> set hashes) t)"

section \<open>Titles mapped to IMDb ids\<close>

text \<open>\<open>imdb_torrent.Insert\<close>: a pair that is there is only touched. \<open>False\<close> is the error of the first chunk refused.\<close>

fun insert_imdb_chunks :: "(nat \<Rightarrow> bool) \<Rightarrow> nat \<Rightarrow> (string \<times> string) list list \<Rightarrow> (string \<times> string) list \<Rightarrow> (string \<times> string) list \<times> bool" where
  "insert_imdb_chunks ok k [] t = (t, True)"
| "insert_imdb_chunks ok k (c # cs) t =
     (if ok k then insert_imdb_chunks ok (Suc k) cs (foldl (\<lambda>t x. if x \<in> set t then t else t @ [x]) t c) else (t, False))"

definition imdb_torrent_Insert :: "(nat \<Rightarrow> bool) \<Rightarrow> (string \<times> string) list \<Rightarrow> (string \<times> string) list \<Rightarrow> (string \<times> string) list \<times> bool" where
  "imdb_torrent_Insert ok items t = insert_imdb_chunks ok 0 (chunks 1000 items) t"

section \<open>Seasons and episodes\<close>

definition ended :: "string list \<Rightarrow> string" where
  "ended ss = concat (map (\<lambda>s. s @ '','') ss)"

lemma ended_simps [simp]: "ended [] = []" "ended (s # ss) = s @ '','' @ ended ss"
  by (simp_all add: ended_def)

lemma join_ended: "ss \<noteq> [] \<Longrightarrow> commas (go_join '','' ss) = '','' @ ended ss"
  unfolding commas_def by (induction "'',''" ss rule: go_join.induct) auto

lemma split_at_comma:
  assumes "s @ CHR '','' # t = a @ CHR '','' # u" and "CHR '','' \<notin> set s"
  shows "(a = s \<and> t = u) \<or> (\<exists>a'. a = s @ CHR '','' # a' \<and> t = a' @ CHR '','' # u)"
  using assms
proof (induction s arbitrary: a)
  case Nil
  then show ?case by (cases a) auto
next
  case (Cons c s)
  then obtain a' where "a = c # a'" by (cases a) auto
  with Cons.IH [of a'] Cons.prems show ?case by auto
qed

lemma infix_ended:
  assumes "CHR '','' \<notin> set p" and "\<And>s. s \<in> set ss \<Longrightarrow> CHR '','' \<notin> set s"
  shows "(\<exists>a b. '','' @ ended ss = a @ '','' @ p @ '','' @ b) \<longleftrightarrow> p \<in> set ss"
  using assms(2)
proof (induction ss)
  case Nil
  have False if "'','' = a @ '','' @ p @ '','' @ b" for a b
    using arg_cong [OF that, of length] by simp
  then show ?case by auto
next
  case (Cons s ss)
  have IH: "(\<exists>a b. '','' @ ended ss = a @ '','' @ p @ '','' @ b) \<longleftrightarrow> p \<in> set ss" using Cons by simp
  have s: "CHR '','' \<notin> set s" using Cons.prems by simp
  show ?case
  proof
    assume "\<exists>a b. '','' @ ended (s # ss) = a @ '','' @ p @ '','' @ b"
    then obtain a b where eq: "'','' @ s @ '','' @ ended ss = a @ '','' @ p @ '','' @ b" by auto
    show "p \<in> set (s # ss)"
    proof (cases a)
      case Nil
      then have "s @ CHR '','' # ended ss = p @ CHR '','' # b" using eq by simp
      from split_at_comma [OF this s] assms(1) show ?thesis by auto
    next
      case (Cons c a')
      then have "s @ CHR '','' # ended ss = a' @ CHR '','' # (p @ '','' @ b)" using eq by auto
      from split_at_comma [OF this s] show ?thesis
      proof
        assume "a' = s \<and> ended ss = p @ '','' @ b"
        then have "'','' @ ended ss = [] @ '','' @ p @ '','' @ b" by simp
        then show ?thesis using IH by (metis list.set_intros(2))
      next
        assume "\<exists>a''. a' = s @ CHR '','' # a'' \<and> ended ss = a'' @ CHR '','' # (p @ '','' @ b)"
        then obtain a'' where "ended ss = a'' @ '','' @ p @ '','' @ b" by auto
        then have "'','' @ ended ss = ('','' @ a'') @ '','' @ p @ '','' @ b" by simp
        then show ?thesis using IH by (metis list.set_intros(2))
      qed
    qed
  next
    assume p: "p \<in> set (s # ss)"
    show "\<exists>a b. '','' @ ended (s # ss) = a @ '','' @ p @ '','' @ b"
    proof (cases "p = s")
      case True
      then show ?thesis by (intro exI [of _ "[]"] exI [of _ "ended ss"]) simp
    next
      case False
      then obtain a b where "'','' @ ended ss = a @ '','' @ p @ '','' @ b" using p IH by auto
      then have "'','' @ ended (s # ss) = ('','' @ s @ a) @ '','' @ p @ '','' @ b" by simp
      then show ?thesis by blast
    qed
  qed
qed

lemma itoa_plain: "plain_text (itoa n)"
  using itoa_chars [of "CHR ''%''" n] itoa_chars [of "CHR ''_''" n] itoa_chars [of "CHR 0x5C" n]
  by (auto simp: plain_text_def is_digit_def)

lemma itoa_iff64: "- (2 ^ 63) \<le> n \<Longrightarrow> n < 2 ^ 63 \<Longrightarrow> - (2 ^ 63) \<le> m \<Longrightarrow> m < 2 ^ 63 \<Longrightarrow> itoa n = itoa m \<longleftrightarrow> n = m"
  by (metis atoi_itoa option.inject)

definition int64 :: "int \<Rightarrow> bool" where
  "int64 n \<longleftrightarrow> - (2 ^ 63) \<le> n \<and> n < 2 ^ 63"

lemma number_chars: "c \<in> set ('','' @ itoa n @ '','') \<Longrightarrow> (of_char c :: nat) < 65"
  using itoa_chars [of c n] by (auto simp: is_digit_def)

lemma number_column_like:
  assumes "int64 n" and "\<And>m. m \<in> set ns \<Longrightarrow> int64 m"
  shows "sql_like d (''%,'' @ itoa n @ '',%'') (commas (number_column ns)) \<longleftrightarrow> n \<in> set ns"
proof -
  have plain: "plain_text ('','' @ itoa n @ '','')" using itoa_plain [of n] by (auto simp: plain_text_def)
  have like: "sql_like d (''%,'' @ itoa n @ '',%'') s \<longleftrightarrow> (\<exists>a b. s = a @ '','' @ itoa n @ '','' @ b)" for s
    using like_infix_any [OF plain, of d s] same_text_no_letter [where p = "'','' @ itoa n @ '',''" and d = d, OF number_chars] by simp
  show ?thesis
  proof (cases "ns = []")
    case True
    have "itoa n \<noteq> []" by (metis assms(1) atoi_itoa int64_def atoi_Nil option.distinct(1))
    have False if "'',,'' = a @ '','' @ itoa n @ '','' @ b" for a b
      using arg_cong [OF that, of length] \<open>itoa n \<noteq> []\<close> by (cases "itoa n") auto
    then have "\<not> sql_like d (''%,'' @ itoa n @ '',%'') '',,''" unfolding like by blast
    then show ?thesis using True by (simp add: number_column_def commas_def)
  next
    case False
    have "(\<exists>a b. '','' @ ended (map itoa ns) = a @ '','' @ itoa n @ '','' @ b) \<longleftrightarrow> itoa n \<in> set (map itoa ns)"
      by (rule infix_ended) (auto simp: itoa_no_comma)
    moreover have "itoa n \<in> set (map itoa ns) \<longleftrightarrow> n \<in> set ns" using assms itoa_iff64 by (auto simp: int64_def)
    moreover have "commas (number_column ns) = '','' @ ended (map itoa ns)" using False by (simp add: number_column_def join_ended)
    ultimately show ?thesis by (simp only: like)
  qed
qed

text \<open>A torrent whose numbers fit 64 bits, as the parser gives them.\<close>

definition int64_lists :: "TorrentInfo \<Rightarrow> bool" where
  "int64_lists r \<longleftrightarrow> list_all int64 (ls_Seasons (tor_lists r)) \<and> list_all int64 (ls_Episodes (tor_lists r))"

lemma has_episode_iff:
  assumes "int64 s" and "int64 e" and "int64_lists r"
  shows "has_episode d (itoa s) (itoa e) r \<longleftrightarrow>
    s \<in> set (ls_Seasons (tor_lists r)) \<and> (ls_Episodes (tor_lists r) = [] \<or> e \<in> set (ls_Episodes (tor_lists r)))"
proof -
  have "number_column ns = [] \<longleftrightarrow> ns = []" for ns
  proof (cases "ns = []")
    case False
    then have "hd (map itoa ns) \<noteq> []" using itoa_ne by (simp add: hd_map)
    then show ?thesis using False go_join_hd [of "map itoa ns" "'',''"] by (simp add: number_column_def)
  qed (simp add: number_column_def)
  then show ?thesis using assms unfolding has_episode_def int64_lists_def list_all_iff by (simp only: number_column_like)
qed

text \<open>
  C11: (functional) On both databases, the torrents of an episode of a series are those that have a file seen under its id or
  under the id of the whole series, which SQLite compares without regard to the case of letters, and those mapped to the
  series whose title names the season and the episode, or the season alone. The id of the series has no pattern characters
  and the numbers fit 64 bits.
\<close>

theorem ListHashesByStremId_episode:
  assumes "int64 s" and "int64 e" and "plain_text i" and "CHR '':'' \<notin> set i" and "\<And>r. r \<in> set (tt_infos db) \<Longrightarrow> int64_lists r"
    and "\<not> ns_IsAnime nsid" and "stremId = i @ '':'' @ itoa s @ '':'' @ itoa e"
  shows "\<exists>hs. ListHashesByStremId d (Inr nsid) stremId db = Inr hs \<and> distinct hs \<and>
    set hs = {tr_Hash f | f. f \<in> set (tt_streams db) \<and> (tr_SId f = stremId \<or> same_text d (tr_SId f) i)}
      \<union> {tor_Hash r | r. r \<in> set (tt_infos db) \<and> (tor_Hash r, i) \<in> set (tt_imdb db) \<and> s \<in> set (ls_Seasons (tor_lists r))
          \<and> (ls_Episodes (tor_lists r) = [] \<or> e \<in> set (ls_Episodes (tor_lists r)))}"
proof -
  have no: "CHR '':'' \<notin> set (itoa s)" "CHR '':'' \<notin> set (itoa e)"
    using itoa_chars [of "CHR '':''" s] itoa_chars [of "CHR '':''" e] by (auto simp: is_digit_def)
  then have parts: "split_n CHR '':'' 3 stremId = [i, itoa s, itoa e]" using assms(4) by (simp add: assms(7) numeral_3_eq_3)
  have colon: "CHR '':'' \<in> set stremId" by (simp add: assms(7))
  let ?hs = "remdups (stream_hashes d stremId i db @ imdb_series_hashes d i (itoa s) (itoa e) db)"
  have "ListHashesByStremId d (Inr nsid) stremId db = Inr ?hs"
    using assms(6) colon by (simp add: ListHashesByStremId_def parts)
  moreover have "set (stream_hashes d stremId i db)
      = {tr_Hash f | f. f \<in> set (tt_streams db) \<and> (tr_SId f = stremId \<or> same_text d (tr_SId f) i)}"
    by (auto simp: stream_hashes_def like_plain_any [OF assms(3)])
  moreover have "set (imdb_series_hashes d i (itoa s) (itoa e) db)
      = {tor_Hash r | r. r \<in> set (tt_infos db) \<and> (tor_Hash r, i) \<in> set (tt_imdb db) \<and> s \<in> set (ls_Seasons (tor_lists r))
          \<and> (ls_Episodes (tor_lists r) = [] \<or> e \<in> set (ls_Episodes (tor_lists r)))}"
  proof -
    have "h \<in> set (imdb_series_hashes d i (itoa s) (itoa e) db) \<longleftrightarrow>
        (h, i) \<in> set (tt_imdb db) \<and> (\<exists>r \<in> set (tt_infos db). tor_Hash r = h \<and> has_episode d (itoa s) (itoa e) r)" for h
      by (auto simp: imdb_series_hashes_def imdb_hashes_def list_ex_iff intro: rev_image_eqI)
    moreover have "has_episode d (itoa s) (itoa e) r \<longleftrightarrow>
        s \<in> set (ls_Seasons (tor_lists r)) \<and> (ls_Episodes (tor_lists r) = [] \<or> e \<in> set (ls_Episodes (tor_lists r)))"
      if "r \<in> set (tt_infos db)" for r by (rule has_episode_iff [OF assms(1,2) assms(5) [OF that]])
    ultimately show ?thesis by (intro set_eqI) (simp, blast)
  qed
  ultimately show ?thesis by (intro exI [of _ ?hs]) simp
qed

text \<open>
  (error) The season and the episode go into the pattern as they are: a percent sign in the id matches the torrents of
  every season.
\<close>

theorem percent_matches_every_season:
  assumes "ls_Seasons (tor_lists r) \<noteq> []"
  shows "has_episode Postgres ''%'' ''%'' r"
proof -
  have any: "sql_like Postgres ''%,%,%'' (commas s)" for s
  proof -
    have "sql_like Postgres (''%'' @ '','' @ ''%'') (s @ '','')" using like_infix [of "'',''" "s @ '',''"] by (auto simp: plain_text_def)
    then have "sql_like Postgres '',%,%'' (commas s)" by (simp add: commas_def like_char)
    then show ?thesis unfolding like_percent [of _ "'',%,%''"] by (intro exI [of _ "[]"] exI [of _ "commas s"]) simp
  qed
  show ?thesis unfolding has_episode_def using any by simp
qed

text \<open>
  C40: (equivalence) For a film, an episode or an anime, the torrents listed are those whose hash the other query lists.
\<close>

theorem ListByStremId_hashes:
  assumes "compute_stream_id lk stremId = Inr nsid" and "ns_Id nsid \<noteq> []"
    and "ns_IsAnime nsid \<or> CHR '':'' \<notin> set stremId \<or> (ns_Season nsid \<noteq> [] \<and> ns_Episode nsid \<noteq> [])"
  shows "\<exists>items hs. ListByStremId d (Inr nsid) stremId False db = Inr items \<and> ListHashesByStremId d (Inr nsid) stremId db = Inr hs
    \<and> it_Hash ` set items = set hs \<inter> tor_Hash ` set (tt_infos db)"
proof -
  have "\<exists>hs. ListHashesByStremId d (Inr nsid) stremId db = Inr hs \<and> set hs = set (hashes_of_id d nsid stremId db)"
  proof (cases "ns_IsAnime nsid")
    case True
    then show ?thesis using assms(2)
      by (simp add: ListHashesByStremId_def listHashesForAnimeByAniDBId_def hashes_of_id_def)
  next
    case False
    then have tt: "has_prefix stremId ''tt''" using assms(1)
      by (auto simp: compute_stream_id_def split: option.splits prod.splits sum.splits if_splits)
    obtain i rest b where c: "cut stremId CHR '':'' = (i, rest, b)" by (metis prod_cases3)
    obtain s e b2 where c2: "cut rest CHR '':'' = (s, e, b2)" by (metis prod_cases3)
    have n: "ns_Id nsid = i \<and> (b \<longrightarrow> ns_Season nsid = s \<and> ns_Episode nsid = (if b2 then e else [])) \<and> (\<not> b \<longrightarrow> ns_Season nsid = [])"
      using assms(1) tt c c2 by (auto simp: compute_stream_id_def split: if_splits)
    show ?thesis
    proof (cases "CHR '':'' \<in> set stremId")
      case no: False
      then have "b = False" "i = stremId" using c cut_True_iff [of stremId "CHR '':''"] cut_notin [OF no] by auto
      then show ?thesis using no n \<open>\<not> ns_IsAnime nsid\<close> by (auto simp: ListHashesByStremId_def hashes_of_id_def)
    next
      case yes: True
      then have b: b using c cut_True_iff [of stremId "CHR '':''"] by auto
      have se: "ns_Season nsid \<noteq> []" "ns_Episode nsid \<noteq> []" using assms(3) False yes by auto
      then have b2: b2 "ns_Season nsid = s" "ns_Episode nsid = e" using n b by (auto split: if_splits)
      have "split_n CHR '':'' 3 stremId = [i, s, e]"
        using c c2 b b2(1) by (simp add: numeral_3_eq_3)
      then show ?thesis using n b2 se yes False by (auto simp: ListHashesByStremId_def hashes_of_id_def)
    qed
  qed
  then obtain hs where hs: "ListHashesByStremId d (Inr nsid) stremId db = Inr hs" "set hs = set (hashes_of_id d nsid stremId db)" by blast
  have "it_Hash (item_of db r) = tor_Hash r" for r by (simp add: item_of_def)
  then show ?thesis using hs assms(2) by (intro exI [of _ "map (item_of db) _"] exI [of _ hs] conjI) (auto simp: ListByStremId_def image_comp)
qed

lemma sum_source_counts: "sum_list (map snd (source_counts t)) = length t"
proof -
  have "sum_list (map snd (source_counts t)) = (\<Sum>s \<in> tor_Source ` set t. length (filter (\<lambda>r. tor_Source r = s) t))"
    by (simp add: source_counts_def comp_def sum_list_distinct_conv_sum_set)
  also have "\<dots> = (\<Sum>s \<in> set (map tor_Source t). count_list (map tor_Source t) s)"
    by (simp add: count_list_eq_length_filter filter_map comp_def eq_commute)
  also have "\<dots> = length t" using sum_count_set [of "map tor_Source t" "set (map tor_Source t)"] by simp
  finally show ?thesis .
qed

text \<open>
  (safety) A dump never holds a torrent of a private tracker nor one of an excluded source; without approximations it
  holds the sizes that are known, and no size is made up from the episodes of a series.
\<close>

theorem DumpTorrents_public:
  assumes "i \<in> set (DumpTorrents noApproxSize noMissingSize excludeSource db)"
  shows "\<exists>r \<in> set (tt_infos db). du_Hash i = tor_Hash r \<and> \<not> tor_Private r \<and> tor_Source r \<notin> set excludeSource
    \<and> (0 < tor_Size r \<longrightarrow> du_Size i = tor_Size r \<and> \<not> du_IsSizeApprox i)
    \<and> (tor_Size r \<le> 0 \<longrightarrow> du_Size i = - 1 \<or> (\<not> noApproxSize \<and> du_IsSizeApprox i))
    \<and> (noMissingSize \<longrightarrow> 0 < du_Size i)"
  using assms by (auto simp: DumpTorrents_def dump_row_def split: if_splits)

section \<open>Samples\<close>

definition sample_tables :: torrent_tables where
  "sample_tables =
     \<lparr>tt_infos = [sample_info\<lparr>tor_lists := no_lists\<lparr>ls_Seasons := [1, 2]\<rparr>\<rparr>], tt_streams = [], tt_imdb = [(sample_hash, ''tt7'')], tt_anidb = []\<rparr>"

definition sample_nsid :: normalized_strem_id where
  "sample_nsid = \<lparr>ns_IsAnime = False, ns_Id = ''tt7'', ns_Episode = ''5'', ns_Season = ''2''\<rparr>"

theorem ListHashesByStremId_episode_witness:
  "\<exists>hs. ListHashesByStremId SQLite (Inr sample_nsid) (''tt7'' @ '':'' @ itoa 2 @ '':'' @ itoa 5) sample_tables = Inr hs
    \<and> sample_hash \<in> set hs"
proof -
  have "int64 2" "int64 5" "plain_text ''tt7''" "CHR '':'' \<notin> set ''tt7''" "\<And>r. r \<in> set (tt_infos sample_tables) \<Longrightarrow> int64_lists r"
    "\<not> ns_IsAnime sample_nsid"
    by (auto simp: int64_def plain_text_def sample_tables_def int64_lists_def no_lists_def sample_nsid_def)
  from ListHashesByStremId_episode [where d = SQLite and db = sample_tables and nsid = sample_nsid and i = "''tt7''" and s = 2 and e = 5, OF this refl]
  show ?thesis
    by (auto simp: sample_tables_def sample_info_def new_info_def sample_item_def no_lists_def)
qed

theorem percent_matches_every_season_witness:
  "has_episode Postgres ''%'' ''%'' (sample_info\<lparr>tor_lists := no_lists\<lparr>ls_Seasons := [1]\<rparr>\<rparr>)"
  by (rule percent_matches_every_season) simp

definition no_anime :: anime_lookup where
  "no_anime = \<lparr>season_by_anidb = (\<lambda>_. Inl []), anidb_by_kitsu = (\<lambda>_. Inl []), anidb_by_mal = (\<lambda>_. Inl [])\<rparr>"

theorem ListByStremId_hashes_witness:
  "\<exists>items hs. ListByStremId Postgres (Inr sample_nsid) ''tt7:2:5'' False sample_tables = Inr items
    \<and> ListHashesByStremId Postgres (Inr sample_nsid) ''tt7:2:5'' sample_tables = Inr hs
    \<and> it_Hash ` set items = set hs \<inter> tor_Hash ` set (tt_infos sample_tables)"
proof (rule ListByStremId_hashes)
  show "compute_stream_id no_anime ''tt7:2:5'' = Inr sample_nsid" by code_simp
qed (simp_all add: sample_nsid_def)

theorem DumpTorrents_public_witness:
  "\<exists>r \<in> set (tt_infos sample_tables). sample_hash = tor_Hash r \<and> \<not> tor_Private r"
proof -
  have "dump_row sample_tables (hd (tt_infos sample_tables)) \<in> set (DumpTorrents False False [''rd''] sample_tables)" by code_simp
  from DumpTorrents_public [OF this] show ?thesis
    by (auto simp: dump_row_def sample_tables_def sample_info_def new_info_def sample_item_def)
qed

end
