(* ===== verification/Magnet_Cache.thy ===== *)
theory Magnet_Cache
  imports Torrent_Lookup Config Worker_Queue
begin

text \<open>
  Which magnets a store has cached: the table (\<open>internal/magnet_cache/db.go\<close>), the check that asks it first and then a
  Buddy or a peer (\<open>internal/buddy/store.go\<close>), and the client of the peer (\<open>internal/peer/peer.go\<close>) as far as it
  decides anything. The answers of Buddy and the peers are arguments. A call reads the clock once.

  Writes that the code starts in a goroutine are part of the operation here.
\<close>

section \<open>The table\<close>

record mc_row =
  mr_Store :: string
  mr_Hash :: string
  mr_IsCached :: bool
  mr_ModifiedAt :: int

record MagnetCache = mc_row +
  mc_Files :: "ts_file list"

definition IsStale :: "(string \<times> stale_time) list \<Rightarrow> bool \<Rightarrow> int \<Rightarrow> ('a mc_row_scheme) \<Rightarrow> bool" where
  "IsStale stale hasBuddy now mc =
     (let staleTime0 = GetStaleTime stale (mr_IsCached mc) (StoreCode_Name (mr_Store mc));
          staleTime = (if hasBuddy then staleTime0 div 2 else staleTime0)
      in mr_ModifiedAt mc < now - staleTime)"

definition cache_entry :: "(string \<times> ts_file list) list \<Rightarrow> mc_row \<Rightarrow> MagnetCache" where
  "cache_entry filesByHash r =
     \<lparr>mr_Store = mr_Store r, mr_Hash = mr_Hash r, mr_IsCached = mr_IsCached r, mr_ModifiedAt = mr_ModifiedAt r,
      mc_Files = (case map_of filesByHash (mr_Hash r) of Some files \<Rightarrow> files | None \<Rightarrow> [])\<rparr>"

text \<open>With a stream id each cached row comes once for every file of it that the id was seen with.\<close>

definition sid_rows :: "string \<Rightarrow> ts_row list \<Rightarrow> mc_row \<Rightarrow> mc_row list" where
  "sid_rows sid streams r =
     (case filter (\<lambda>s. tr_Hash s = mr_Hash r) streams of
        [] \<Rightarrow> if mr_IsCached r then [] else [r]
      | ss \<Rightarrow> map (\<lambda>_. r) (filter (\<lambda>s. \<not> mr_IsCached r \<or> tr_SId s \<in> {sid, ''*''}) ss))"

definition mc_GetByHashes :: "string \<Rightarrow> string list \<Rightarrow> string \<Rightarrow> mc_row list \<Rightarrow> ts_row list \<Rightarrow> MagnetCache list" where
  "mc_GetByHashes store hashes sid t streams =
     (if hashes = [] then []
      else
        let rows = filter (\<lambda>r. mr_Store r = store \<and> mr_Hash r \<in> set hashes) t
        in map (cache_entry (GetFilesByHashes hashes streams))
             (if sid \<noteq> [] then concat (map (sid_rows sid streams) rows) else rows))"

text \<open>\<open>now\<close> is the time that the database writes for this statement.\<close>

definition touch_row :: "int \<Rightarrow> string \<Rightarrow> bool \<Rightarrow> mc_row list \<Rightarrow> string \<Rightarrow> mc_row list" where
  "touch_row now store cached t hash =
     (if list_ex (\<lambda>r. mr_Store r = store \<and> mr_Hash r = hash) t
      then map (\<lambda>r. if mr_Store r = store \<and> mr_Hash r = hash then r\<lparr>mr_IsCached := cached, mr_ModifiedAt := now\<rparr> else r) t
      else t @ [\<lparr>mr_Store = store, mr_Hash = hash, mr_IsCached = cached, mr_ModifiedAt = now\<rparr>])"

record mc_db =
  md_cache :: "mc_row list"
  md_streams :: "ts_row list"

text \<open>Which statements the database accepts.\<close>

record db_accepts =
  ac_hits :: bool
  ac_misses :: bool
  ac_files :: "nat \<Rightarrow> bool"

definition Touch :: "int \<Rightarrow> db_accepts \<Rightarrow> string \<Rightarrow> string \<Rightarrow> ts_file list \<Rightarrow> bool \<Rightarrow> bool \<Rightarrow> mc_db \<Rightarrow> mc_db" where
  "Touch now ac storeCode hash files isCached skipFileTracking db =
     (if \<not> ac_hits ac then db
      else \<lparr>md_cache = touch_row now storeCode isCached (md_cache db) hash,
            md_streams = (if skipFileTracking then md_streams db
                          else TrackFiles now (ac_files ac) storeCode [(hash, files)] (md_streams db))\<rparr>)"

text \<open>The map of what is cached after the torrents with files were added to it.\<close>

definition mark_cached :: "(string \<times> bool) list option \<Rightarrow> (string \<times> ts_file list) list \<Rightarrow> (string \<times> bool) list" where
  "mark_cached cached filesByHash =
     foldl (\<lambda>c (hash, files). if files \<noteq> [] then AList.update hash True c else c)
       (case cached of None \<Rightarrow> [] | Some c \<Rightarrow> c) filesByHash"

definition BulkTouch ::
    "int \<Rightarrow> db_accepts \<Rightarrow> string \<Rightarrow> (string \<times> ts_file list) list \<Rightarrow> (string \<times> bool) list option \<Rightarrow> bool \<Rightarrow> mc_db \<Rightarrow> mc_db" where
  "BulkTouch now ac storeCode filesByHash cached0 skipFileTracking db =
     (let cached = mark_cached cached0 filesByHash;
          hits = map fst (filter snd cached);
          misses = map fst (filter (\<lambda>x. \<not> snd x) cached);
          t1 = (if hits \<noteq> [] \<and> ac_hits ac then foldl (touch_row now storeCode True) (md_cache db) hits else md_cache db);
          s1 = (if hits \<noteq> [] \<and> \<not> skipFileTracking then TrackFiles now (ac_files ac) storeCode filesByHash (md_streams db)
                else md_streams db);
          t2 = (if misses \<noteq> [] \<and> ac_misses ac then foldl (touch_row now storeCode False) t1 misses else t1)
      in \<lparr>md_cache = t2, md_streams = s1\<rparr>)"

section \<open>The peer client\<close>

definition IsHaltedCheckMagnet :: "int \<Rightarrow> int option \<Rightarrow> bool \<times> int option" where
  "IsHaltedCheckMagnet now retryAfter =
     (case retryAfter of
        None \<Rightarrow> (False, None)
      | Some t \<Rightarrow> if t < now then (False, None) else (True, Some t))"

definition HaltCheckMagnet :: "int \<Rightarrow> int option" where
  "HaltCheckMagnet now = Some (now + 10 * 10 ^ 9)"

record peer_check =
  pk_magnets :: "string list"
  pk_client_ip :: string
  pk_sid :: string
  pk_store :: string
  pk_token :: string

record peer_track =
  pt_store :: string
  pt_token :: string
  pt_category :: string
  pt_infos :: "torrent_item list"
  pt_cached :: "(string \<times> bool) list option"

text \<open>What \<open>TrackMagnet\<close> sends: without spilling, only which of the torrents with files are cached.\<close>

definition peer_TrackMagnet :: "bool \<Rightarrow> peer_track \<Rightarrow> peer_track" where
  "peer_TrackMagnet noSpillTorz params =
     (if noSpillTorz then
        params\<lparr>pt_cached := Some (mark_cached (pt_cached params) (map (\<lambda>i. (it_Hash i, it_Files i)) (pt_infos params))), pt_infos := []\<rparr>
      else params)"

section \<open>Checking magnets\<close>

record check_item =
  ci_Hash :: string
  ci_Magnet :: string
  ci_Status :: string
  ci_Files :: "magnet_file list"

record buddy_file =
  bf_Idx :: int
  bf_Path :: string
  bf_Name :: string
  bf_Size :: int
  bf_SId :: string
  bf_Source :: string

record buddy_item =
  bi_Hash :: string
  bi_Magnet :: string
  bi_Status :: string
  bi_Files :: "buddy_file list"

record peer_answer =
  pa_duration :: int
  pa_items :: "check_item list option"

record buddy_env =
  be_HasBuddy :: bool
  be_HasPeer :: bool
  be_Lazy :: bool
  be_NoSpillTorz :: bool
  be_PeerAuthToken :: string
  be_Stale :: "(string \<times> stale_time) list"
  be_Dialect :: DBDialect
  be_hier_ok :: "string \<Rightarrow> bool"
  be_query_err :: "string option"

text \<open>What goes out: the questions that were asked, in order.\<close>

datatype upstream = AskBuddy string "string list" string string | AskPeer peer_check

record buddy_state =
  bs_db :: mc_db
  bs_queue :: "MagnetCachePullerQueueItem WorkerQueue"
  bs_retry :: "int option"

definition imdb_sid :: "string \<Rightarrow> bool" where
  "imdb_sid sid \<longleftrightarrow>
     has_prefix sid ''tt''
     \<and> (case split_on CHR '':'' (drop 2 sid) of
          [n] \<Rightarrow> n \<noteq> [] \<and> list_all is_digit n
        | [n, s, e] \<Rightarrow> n \<noteq> [] \<and> list_all is_digit n \<and> length s \<in> {1, 2} \<and> list_all is_digit s \<and> length e \<in> {1, 2, 3} \<and> list_all is_digit e
        | _ \<Rightarrow> False)"

definition last_by_hash :: "MagnetCache list \<Rightarrow> string \<Rightarrow> MagnetCache option" where
  "last_by_hash mcs hash = find (\<lambda>mc. mr_Hash mc = hash) (rev mcs)"

text \<open>The first loop: what the table answers, what is left to ask, and the files as the answers clean them up.\<close>

fun check_local ::
    "buddy_env \<Rightarrow> int \<Rightarrow> MagnetCache list \<Rightarrow> string list \<Rightarrow> ts_row list \<Rightarrow> check_item list \<times> string list \<times> ts_row list" where
  "check_local env now mcs [] streams = ([], [], streams)"
| "check_local env now mcs (h # hs) streams =
     (case ParseMagnetLink (be_hier_ok env) h of
        Inl _ \<Rightarrow> check_local env now mcs hs streams
      | Inr magnet \<Rightarrow>
          (case last_by_hash mcs (mg_Hash magnet) of
             Some mc \<Rightarrow>
               if IsStale (be_Stale env) (be_HasBuddy env) now mc
               then (case check_local env now mcs hs streams of (items, stale, s) \<Rightarrow> (items, mg_Hash magnet # stale, s))
               else
                 (case (if mr_IsCached mc then ToStoreMagnetFiles (be_Dialect env) (mg_Hash magnet) (mc_Files mc) streams else ([], streams)) of
                    (files, s1) \<Rightarrow>
                      (case check_local env now mcs hs s1 of
                         (items, stale, s2) \<Rightarrow>
                           (\<lparr>ci_Hash = mg_Hash magnet, ci_Magnet = mg_Link magnet,
                             ci_Status = (if mr_IsCached mc then ''cached'' else ''unknown''), ci_Files = files\<rparr> # items, stale, s2)))
           | None \<Rightarrow> (case check_local env now mcs hs streams of (items, stale, s) \<Rightarrow> (items, mg_Hash magnet # stale, s))))"

text \<open>A file whose path, or name if it has no path, was there before is left out.\<close>

fun unique_files :: "('f \<Rightarrow> string) \<Rightarrow> string list \<Rightarrow> 'f list \<Rightarrow> 'f list" where
  "unique_files key seen [] = []"
| "unique_files key seen (f # fs) =
     (if key f \<in> set seen then unique_files key seen fs else f # unique_files key (key f # seen) fs)"

definition buddy_key :: "buddy_file \<Rightarrow> string" where
  "buddy_key f = (if bf_Path f = [] then bf_Name f else bf_Path f)"

definition peer_key :: "magnet_file \<Rightarrow> string" where
  "peer_key f = (if mf_Path f = [] then mf_Name f else mf_Path f)"

definition buddy_res_file :: "buddy_file \<Rightarrow> magnet_file" where
  "buddy_res_file f =
     \<lparr>mf_Idx = bf_Idx f, mf_Link = [], mf_Path = bf_Path f, mf_Name = bf_Name f, mf_Size = bf_Size f, mf_VideoHash = [], mf_Source = bf_Source f\<rparr>"

definition buddy_ts_file :: "buddy_file \<Rightarrow> ts_file" where
  "buddy_ts_file f =
     \<lparr>tf_Path = bf_Path f, tf_Idx = bf_Idx f, tf_Size = bf_Size f, tf_Name = bf_Name f, tf_SId = bf_SId f, tf_ASId = [],
      tf_Source = bf_Source f, tf_VideoHash = []\<rparr>"

definition peer_ts_file :: "magnet_file \<Rightarrow> ts_file" where
  "peer_ts_file f =
     \<lparr>tf_Path = mf_Path f, tf_Idx = mf_Idx f, tf_Size = mf_Size f, tf_Name = mf_Name f, tf_SId = [], tf_ASId = [],
      tf_Source = mf_Source f, tf_VideoHash = mf_VideoHash f\<rparr>"

definition buddy_files :: "buddy_item \<Rightarrow> buddy_file list" where
  "buddy_files item = (if bi_Status item = ''cached'' then unique_files buddy_key [] (bi_Files item) else [])"

definition peer_files :: "check_item \<Rightarrow> ts_file list" where
  "peer_files item = (if ci_Status item = ''cached'' then map peer_ts_file (unique_files peer_key [] (ci_Files item)) else [])"

definition buddy_result :: "buddy_item \<Rightarrow> check_item" where
  "buddy_result item =
     \<lparr>ci_Hash = bi_Hash item, ci_Magnet = bi_Magnet item, ci_Status = bi_Status item, ci_Files = map buddy_res_file (buddy_files item)\<rparr>"

definition buddy_cached :: "buddy_item list \<Rightarrow> (string \<times> bool) list" where
  "buddy_cached items = foldl (\<lambda>c i. if bi_Status i = ''cached'' then AList.update (bi_Hash i) True c else c) [] items"

definition buddy_filesByHash :: "buddy_item list \<Rightarrow> (string \<times> ts_file list) list" where
  "buddy_filesByHash items = foldl (\<lambda>m i. AList.update (bi_Hash i) (map buddy_ts_file (buddy_files i)) m) [] items"

text \<open>The chunks are asked at the same time; \<open>answers\<close> are theirs in the order in which they come in.\<close>

fun collect_peer ::
    "peer_answer list \<Rightarrow> (string \<times> ts_file list) list \<times> check_item list \<Rightarrow> (string \<times> ts_file list) list \<times> check_item list" where
  "collect_peer [] acc = acc"
| "collect_peer (a # as) (m, items) =
     collect_peer as
       (case pa_items a of
          None \<Rightarrow> (m, items)
        | Some is \<Rightarrow> (foldl (\<lambda>m i. AList.update (ci_Hash i) (peer_files i) m) m is, items @ is))"

definition CheckMagnet ::
    "buddy_env \<Rightarrow> int \<Rightarrow> db_accepts \<Rightarrow> (string list \<Rightarrow> buddy_item list option) \<Rightarrow> (string list \<Rightarrow> peer_answer)
      \<Rightarrow> (peer_answer list \<Rightarrow> peer_answer list) \<Rightarrow> store_name \<Rightarrow> string list \<Rightarrow> string \<Rightarrow> string \<Rightarrow> string \<Rightarrow> buddy_state
      \<Rightarrow> (string + check_item list) \<times> upstream list \<times> buddy_state" where
  "CheckMagnet env now ac buddy peer arrival storeName hashes storeToken clientIp sid0 st =
     (let sid = (if imdb_sid sid0 then sid0 else []); code = StoreName_Code storeName
      in case be_query_err env of
        Some e \<Rightarrow> (Inl e, [], st)
      | None \<Rightarrow>
          (case check_local env now (mc_GetByHashes code hashes sid (md_cache (bs_db st)) (md_streams (bs_db st))) hashes
                  (md_streams (bs_db st)) of
             (items, stale, streams) \<Rightarrow>
               let st1 = st\<lparr>bs_db := (bs_db st)\<lparr>md_streams := streams\<rparr>\<rparr>
               in if stale = [] then (Inr items, [], st1)
                  else if be_HasBuddy env then
                    (case buddy stale of
                       None \<Rightarrow> (Inr items, [AskBuddy storeName stale clientIp sid], st1)
                     | Some ans \<Rightarrow>
                         (Inr (items @ map buddy_result ans), [AskBuddy storeName stale clientIp sid],
                          st1\<lparr>bs_db := BulkTouch (db_time (be_Dialect env) now) ac code (buddy_filesByHash ans) (Some (buddy_cached ans)) False (bs_db st1)\<rparr>))
                  else if be_HasPeer env then
                    if be_Lazy env then
                      (Inr items, [],
                       st1\<lparr>bs_queue := foldl (\<lambda>q h. Queue now q
                         \<lparr>puller_ClientIP = clientIp, puller_Hash = h, puller_SId = sid, puller_StoreCode = code, puller_StoreToken = storeToken\<rparr>)
                         (bs_queue st1) stale\<rparr>)
                    else
                      (case IsHaltedCheckMagnet now (bs_retry st1) of
                         (True, retry) \<Rightarrow> (Inr items, [], st1\<lparr>bs_retry := retry\<rparr>)
                       | (False, retry) \<Rightarrow>
                           let answers = map peer (chunks 500 stale);
                               slow = list_ex (\<lambda>a. 10 * 10 ^ 9 < pa_duration a) answers
                           in (case collect_peer (arrival answers) ([], []) of
                                 (filesByHash, got) \<Rightarrow>
                                   (Inr (items @ got),
                                    map (\<lambda>c. AskPeer \<lparr>pk_magnets = c, pk_client_ip = clientIp, pk_sid = sid, pk_store = storeName, pk_token = storeToken\<rparr>)
                                      (chunks 500 stale),
                                    st1\<lparr>bs_retry := (if slow then HaltCheckMagnet now else retry),
                                        bs_db := BulkTouch (db_time (be_Dialect env) now) ac code filesByHash None False (bs_db st1)\<rparr>)))
                  else (Inr items, [], st1)))"

section \<open>Tracking magnets\<close>

definition source_file :: "string \<Rightarrow> magnet_file \<Rightarrow> ts_file" where
  "source_file src f = (peer_ts_file f)\<lparr>tf_Source := (if mf_Source f = [] then src else mf_Source f)\<rparr>"

record track_effects =
  te_db :: mc_db
  te_upsert :: "torrent_item list"
  te_discardFileIdx :: bool
  te_buddy :: "(string \<times> (string \<times> magnet_file list) \<times> bool) option"
  te_peer :: "peer_track option"

definition track_item :: "string \<Rightarrow> string \<Rightarrow> string \<Rightarrow> int \<Rightarrow> bool \<Rightarrow> ts_file list \<Rightarrow> torrent_item" where
  "track_item code hash name bytes private files =
     \<lparr>it_Hash = hash, it_TorrentTitle = name, it_Size = bytes, it_Indexer = [], it_Source = code, it_Category = [],
      it_Seeders = 0, it_Leechers = 0, it_Private = private, it_Files = files\<rparr>"

definition TrackMagnet ::
    "buddy_env \<Rightarrow> int \<Rightarrow> db_accepts \<Rightarrow> store_name \<Rightarrow> string \<Rightarrow> string \<Rightarrow> int \<Rightarrow> bool \<Rightarrow> magnet_file list \<Rightarrow> string \<Rightarrow> bool \<Rightarrow> string
      \<Rightarrow> mc_db \<Rightarrow> track_effects" where
  "TrackMagnet env now ac storeName hash name bytes private files category cacheMiss storeToken db =
     (let code = StoreName_Code storeName; tsFiles = map (source_file code) files; item = track_item code hash name bytes private tsFiles
      in \<lparr>te_db = Touch (db_time (be_Dialect env) now) ac code hash tsFiles (\<not> cacheMiss) True db,
          te_upsert = [item], te_discardFileIdx = (code \<noteq> ''rd''),
          te_buddy = (if be_HasBuddy env then Some (storeName, (hash, files), cacheMiss) else None),
          te_peer = (if be_HasPeer env \<and> be_PeerAuthToken env \<noteq> [] then
              Some (peer_TrackMagnet (be_NoSpillTorz env)
                \<lparr>pt_store = storeName, pt_token = storeToken, pt_category = category, pt_infos = [item], pt_cached = None\<rparr>)
            else None)\<rparr>)"

record bulk_effects =
  ke_db :: mc_db
  ke_upsert :: "torrent_item list"
  ke_discardFileIdx :: bool
  ke_buddy :: "(string \<times> (string \<times> ts_file list) list) option"
  ke_peer :: "peer_track option"

text \<open>\<open>None\<close>: there is nothing to track. The map that the caller passed is the one that \<open>BulkTouch\<close> has filled.\<close>

definition BulkTrackMagnet ::
    "buddy_env \<Rightarrow> int \<Rightarrow> db_accepts \<Rightarrow> store_name \<Rightarrow> torrent_item list \<Rightarrow> (string \<times> bool) list option \<Rightarrow> string \<Rightarrow> string
      \<Rightarrow> mc_db \<Rightarrow> bulk_effects option" where
  "BulkTrackMagnet env now ac storeName tInfos cached category storeToken db =
     (if tInfos = [] \<and> cached \<in> {None, Some []} then None
      else
        let code = StoreName_Code storeName;
            infos = map (\<lambda>i. if it_Source i = [] then i\<lparr>it_Source := code\<rparr> else i) tInfos;
            filesByHash = foldl (\<lambda>m i. AList.update (it_Hash i) (it_Files i) m) [] infos;
            cached' = map_option (\<lambda>c. mark_cached (Some c) filesByHash) cached
        in Some \<lparr>ke_db = BulkTouch (db_time (be_Dialect env) now) ac code filesByHash cached True db,
                 ke_upsert = infos, ke_discardFileIdx = (code \<noteq> ''rd''),
                 ke_buddy = (if be_HasBuddy env then Some (storeName, filesByHash) else None),
                 ke_peer = (if be_HasPeer env \<and> be_PeerAuthToken env \<noteq> [] then
                     Some (peer_TrackMagnet (be_NoSpillTorz env)
                       \<lparr>pt_store = storeName, pt_token = storeToken, pt_category = category, pt_infos = infos, pt_cached = cached'\<rparr>)
                   else None)\<rparr>)"

section \<open>Pulling torrents\<close>

record pull_env =
  pe_noTorrentInfo :: bool
  pe_hasPullPeer :: bool
  pe_instance :: string
  pe_enabled :: bool

record pull_question =
  pq_sid :: string
  pq_localOnly :: bool
  pq_origin :: string

definition pulled_item :: "torrent_item \<Rightarrow> torrent_item" where
  "pulled_item d =
     \<lparr>it_Hash = it_Hash d, it_TorrentTitle = it_TorrentTitle d, it_Size = it_Size d, it_Indexer = it_Indexer d,
      it_Source = it_Source d, it_Category = it_Category d, it_Seeders = it_Seeders d, it_Leechers = it_Leechers d,
      it_Private = it_Private d, it_Files = it_Files d\<rparr>"

text \<open>
  \<open>PullTorrentsByStremId\<close>, given whether the peer is halted and a pull is due. The result: the hashes (\<open>None\<close> is Go's
  nil), what was asked, the torrents after it, whether to mark the id as pulled, and whether the peer gets halted.
\<close>

definition PullTorrentsByStremId ::
    "pull_env \<Rightarrow> bool \<Rightarrow> bool \<Rightarrow> bool \<Rightarrow> int \<Rightarrow> (nat \<Rightarrow> bool) \<Rightarrow> (nat \<Rightarrow> bool) \<Rightarrow> (pull_question \<Rightarrow> int \<times> torrent_item list option)
      \<Rightarrow> string \<Rightarrow> string \<Rightarrow> info_db \<Rightarrow> string list option \<times> pull_question option \<times> info_db \<times> bool \<times> bool" where
  "PullTorrentsByStremId env halted should_pull localOnly now ok files_ok ask sid origin db =
     (if pe_noTorrentInfo env \<or> \<not> pe_hasPullPeer env \<or> halted \<or> \<not> should_pull then (None, None, db, False, False)
      else
        let q = \<lparr>pq_sid = CleanStremId sid, pq_localOnly = localOnly, pq_origin = (if origin \<noteq> [] then origin else pe_instance env)\<rparr>
        in case ask q of
             (duration, None) \<Rightarrow> (None, Some q, db, False, 25 * 10 ^ 9 < duration)
           | (duration, Some items) \<Rightarrow>
               (Some (map it_Hash items), Some q,
                fst (Upsert now (pe_enabled env) ok files_ok (map pulled_item items) [] False db), True, False))"

definition pull_local_only :: "pull_env \<Rightarrow> string \<Rightarrow> bool \<Rightarrow> bool" where
  "pull_local_only env origin localOnly \<longleftrightarrow> localOnly \<or> origin = pe_instance env"

definition ListTorrentsByStremId ::
    "pull_env \<Rightarrow> bool \<Rightarrow> bool \<Rightarrow> bool \<Rightarrow> int \<Rightarrow> (nat \<Rightarrow> bool) \<Rightarrow> (nat \<Rightarrow> bool) \<Rightarrow> (pull_question \<Rightarrow> int \<times> torrent_item list option)
      \<Rightarrow> DBDialect \<Rightarrow> (string \<Rightarrow> string + normalized_strem_id) \<Rightarrow> string \<Rightarrow> bool \<Rightarrow> string \<Rightarrow> bool \<Rightarrow> torrent_tables
      \<Rightarrow> (string + torrent_item list) \<times> torrent_tables" where
  "ListTorrentsByStremId env halted should_pull pullLocalOnly now ok files_ok ask d normalise sid localOnly origin noMissingSize db =
     (let local' = pull_local_only env origin pullLocalOnly;
          infos = \<lparr>db_infos = tt_infos db, db_files = tt_streams db\<rparr>;
          pulled = (if localOnly then infos
                    else fst (snd (snd (PullTorrentsByStremId env halted should_pull local' now ok files_ok ask sid origin infos))));
          db' = db\<lparr>tt_infos := db_infos pulled, tt_streams := db_files pulled\<rparr>
      in (ListByStremId d (normalise sid) sid noMissingSize db', db'))"

section \<open>What touching does\<close>

definition mc_lookup :: "string \<Rightarrow> string \<Rightarrow> mc_row list \<Rightarrow> mc_row option" where
  "mc_lookup store hash t = find (\<lambda>r. mr_Store r = store \<and> mr_Hash r = hash) t"

lemma touch_row_lookup:
  "mc_lookup s h (touch_row now store c t hash) =
     (if s = store \<and> h = hash
      then Some \<lparr>mr_Store = store, mr_Hash = hash, mr_IsCached = c, mr_ModifiedAt = now\<rparr> else mc_lookup s h t)"
proof (cases "list_ex (\<lambda>r. mr_Store r = store \<and> mr_Hash r = hash) t")
  case True
  let ?f = "\<lambda>r. if mr_Store r = store \<and> mr_Hash r = hash then r\<lparr>mr_IsCached := c, mr_ModifiedAt := now\<rparr> else r"
  have "find (\<lambda>r. mr_Store r = s \<and> mr_Hash r = h) (map ?f t) =
      map_option ?f (find (\<lambda>r. mr_Store r = s \<and> mr_Hash r = h) t)" by (induction t) auto
  moreover have "\<exists>r. find (\<lambda>r. mr_Store r = store \<and> mr_Hash r = hash) t = Some r \<and> mr_Store r = store \<and> mr_Hash r = hash"
    using True by (induction t) auto
  moreover have "map_option ?f (find (\<lambda>r. mr_Store r = s \<and> mr_Hash r = h) t) = find (\<lambda>r. mr_Store r = s \<and> mr_Hash r = h) t"
    if "\<not> (s = store \<and> h = hash)"
    using that by (induction t) auto
  ultimately show ?thesis using True by (auto simp: touch_row_def mc_lookup_def)
next
  case False
  then have "find (\<lambda>r. mr_Store r = store \<and> mr_Hash r = hash) t = None" by (auto simp: find_None_iff list_ex_iff)
  moreover have "find P (t @ [r]) = (case find P t of None \<Rightarrow> if P r then Some r else None | Some x \<Rightarrow> Some x)" for P and r :: mc_row
    by (induction t) auto
  ultimately show ?thesis using False by (auto simp: touch_row_def mc_lookup_def split: option.split)
qed

lemma touch_rows_lookup:
  "mc_lookup s h (foldl (touch_row now store c) t hs) =
     (if s = store \<and> h \<in> set hs
      then Some \<lparr>mr_Store = store, mr_Hash = h, mr_IsCached = c, mr_ModifiedAt = now\<rparr> else mc_lookup s h t)"
  by (induction hs arbitrary: t) (auto simp: touch_row_lookup)

lemma mark_step_lookup:
  "distinct (map fst c) \<Longrightarrow> distinct (map fst (if files \<noteq> [] then AList.update hash True c else c))
    \<and> map_of (if files \<noteq> [] then AList.update hash True c else c) h = (if files \<noteq> [] \<and> h = hash then Some True else map_of c h)"
  by (auto simp: AList.distinct_update AList.update_conv' split: if_splits)

lemma mark_cached_lookup:
  assumes "distinct (map fst (case cached of None \<Rightarrow> [] | Some c \<Rightarrow> c))"
  shows "distinct (map fst (mark_cached cached fs))
    \<and> map_of (mark_cached cached fs) h =
        (if \<exists>files. (h, files) \<in> set fs \<and> files \<noteq> [] then Some True else map_of (case cached of None \<Rightarrow> [] | Some c \<Rightarrow> c) h)"
proof -
  have "distinct (map fst c) \<Longrightarrow>
      distinct (map fst (foldl (\<lambda>c (hash, files). if files \<noteq> [] then AList.update hash True c else c) c fs))
      \<and> map_of (foldl (\<lambda>c (hash, files). if files \<noteq> [] then AList.update hash True c else c) c fs) h =
        (if \<exists>files. (h, files) \<in> set fs \<and> files \<noteq> [] then Some True else map_of c h)" for c :: "(string \<times> bool) list"
  proof (induction fs arbitrary: c)
    case (Cons x fs)
    obtain hash files where x: "x = (hash, files)" by fastforce
    let ?c = "if files \<noteq> [] then AList.update hash True c else c"
    have "distinct (map fst ?c)" "map_of ?c h = (if files \<noteq> [] \<and> h = hash then Some True else map_of c h)"
      using mark_step_lookup [OF Cons.prems] by blast+
    with Cons.IH [of ?c] show ?case unfolding x by auto
  qed simp
  from this [OF assms] show ?thesis by (simp add: mark_cached_def)
qed

lemma touched_lookup:
  assumes "ac_hits ac" and "ac_misses ac" and "distinct (map fst (case cached of None \<Rightarrow> [] | Some c \<Rightarrow> c))"
  shows "mc_lookup s h (md_cache (BulkTouch now ac store filesByHash cached skip db)) =
    (let verdict = (if \<exists>files. (h, files) \<in> set filesByHash \<and> files \<noteq> [] then Some True
                    else map_of (case cached of None \<Rightarrow> [] | Some c \<Rightarrow> c) h)
     in case verdict of
          Some c \<Rightarrow> if s = store then Some \<lparr>mr_Store = store, mr_Hash = h, mr_IsCached = c, mr_ModifiedAt = now\<rparr>
                    else mc_lookup s h (md_cache db)
        | None \<Rightarrow> mc_lookup s h (md_cache db))"
proof -
  let ?m = "mark_cached cached filesByHash"
  have d: "distinct (map fst ?m)" and lk: "map_of ?m h = (if \<exists>files. (h, files) \<in> set filesByHash \<and> files \<noteq> [] then Some True
      else map_of (case cached of None \<Rightarrow> [] | Some c \<Rightarrow> c) h)"
    using mark_cached_lookup [OF assms(3)] by blast+
  have hits: "h \<in> set (map fst (filter snd ?m)) \<longleftrightarrow> map_of ?m h = Some True"
    using d by (force simp: map_of_eq_Some_iff image_iff)
  have misses: "h \<in> set (map fst (filter (\<lambda>x. \<not> snd x) ?m)) \<longleftrightarrow> map_of ?m h = Some False"
    using d by (force simp: map_of_eq_Some_iff image_iff)
  have "mc_lookup s h (md_cache (BulkTouch now ac store filesByHash cached skip db)) =
      mc_lookup s h (foldl (touch_row now store False) (foldl (touch_row now store True) (md_cache db) (map fst (filter snd ?m)))
        (map fst (filter (\<lambda>x. \<not> snd x) ?m)))"
    using assms(1,2) by (cases "map fst (filter snd ?m) = []"; cases "map fst (filter (\<lambda>x. \<not> snd x) ?m) = []")
      (simp_all add: BulkTouch_def Let_def)
  then show ?thesis unfolding touch_rows_lookup hits misses lk Let_def by (auto split: option.splits)
qed

text \<open>
  (functional) After BulkTouch, a hash that has files is cached from now on, another one of the map is what the map says,
  and no other row changes.
\<close>

theorem BulkTouch_lookup:
  assumes "ac_hits ac" and "ac_misses ac" and "distinct (map fst (case cached of None \<Rightarrow> [] | Some c \<Rightarrow> c))"
  shows "mc_lookup s h (md_cache (BulkTouch now ac store filesByHash cached skip db)) =
    (let verdict = (if \<exists>files. (h, files) \<in> set filesByHash \<and> files \<noteq> [] then Some True
                    else map_of (case cached of None \<Rightarrow> [] | Some c \<Rightarrow> c) h)
     in case verdict of
          Some c \<Rightarrow> if s = store then Some \<lparr>mr_Store = store, mr_Hash = h, mr_IsCached = c, mr_ModifiedAt = now\<rparr>
                    else mc_lookup s h (md_cache db)
        | None \<Rightarrow> mc_lookup s h (md_cache db))"
  using assms by (rule touched_lookup)

section \<open>The key of the table\<close>

definition wf_cache :: "mc_row list \<Rightarrow> bool" where
  "wf_cache t \<longleftrightarrow> distinct (map (\<lambda>r. (mr_Store r, mr_Hash r)) t)"

lemma touch_row_wf: "wf_cache t \<Longrightarrow> wf_cache (touch_row now store c t hash)"
proof (cases "list_ex (\<lambda>r. mr_Store r = store \<and> mr_Hash r = hash) t")
  case True
  have "map (\<lambda>r. (mr_Store r, mr_Hash r))
      (map (\<lambda>r. if mr_Store r = store \<and> mr_Hash r = hash then r\<lparr>mr_IsCached := c, mr_ModifiedAt := now\<rparr> else r) t) =
      map (\<lambda>r. (mr_Store r, mr_Hash r)) t" by auto
  then show "wf_cache t \<Longrightarrow> ?thesis" using True by (simp only: touch_row_def wf_cache_def if_True)
qed (auto simp: touch_row_def wf_cache_def list_ex_iff)

lemma touch_rows_wf: "wf_cache t \<Longrightarrow> wf_cache (foldl (touch_row now store c) t hs)"
  by (induction hs arbitrary: t) (simp_all add: touch_row_wf)

lemma BulkTouch_wf: "wf_cache (md_cache db) \<Longrightarrow> wf_cache (md_cache (BulkTouch now ac store fs cached skip db))"
  by (simp add: BulkTouch_def Let_def touch_rows_wf)

lemma wf_last: "wf_cache t \<Longrightarrow> find P (rev t) = find P t" if "\<And>r. P r \<longleftrightarrow> mr_Store r = s \<and> mr_Hash r = h"
proof -
  assume wf: "wf_cache t"
  have snoc: "find P (xs @ ys) = (case find P xs of None \<Rightarrow> find P ys | Some x \<Rightarrow> Some x)" for xs ys :: "mc_row list"
    by (induction xs) auto
  show "find P (rev t) = find P t"
    using wf
  proof (induction t)
    case (Cons r t)
    then have IH: "find P (rev t) = find P t" and new: "(mr_Store r, mr_Hash r) \<notin> (\<lambda>r. (mr_Store r, mr_Hash r)) ` set t"
      by (simp_all add: wf_cache_def)
    show ?case
    proof (cases "P r")
      case True
      have "\<not> P x" if "x \<in> set t" for x
        using new True that \<open>\<And>r. P r \<longleftrightarrow> mr_Store r = s \<and> mr_Hash r = h\<close> by (metis (mono_tags, lifting) image_eqI)
      then have "find P t = None" by (simp add: find_None_iff)
      then show ?thesis using True IH by (simp add: snoc)
    qed (use IH in \<open>auto simp: snoc split: option.split\<close>)
  qed simp
qed

lemma last_by_hash_lookup:
  assumes "wf_cache t" and "h \<in> set hashes"
  shows "last_by_hash (mc_GetByHashes code hashes [] t streams) h =
    map_option (cache_entry (GetFilesByHashes hashes streams)) (mc_lookup code h t)"
proof -
  let ?e = "cache_entry (GetFilesByHashes hashes streams)"
  have "find (\<lambda>mc. mr_Hash mc = h) (rev (map ?e (filter (\<lambda>r. mr_Store r = code \<and> mr_Hash r \<in> set hashes) t)))
      = map_option ?e (find (\<lambda>r. mr_Store r = code \<and> mr_Hash r = h) (rev t))"
  proof -
    have "find (\<lambda>mc. mr_Hash mc = h) (map ?e (filter (\<lambda>r. mr_Store r = code \<and> mr_Hash r \<in> set hashes) u))
        = map_option ?e (find (\<lambda>r. mr_Store r = code \<and> mr_Hash r = h) u)" for u
      using assms(2) by (induction u) (auto simp: cache_entry_def)
    from this [of "rev t"] show ?thesis by (simp add: rev_map rev_filter)
  qed
  also have "find (\<lambda>r. mr_Store r = code \<and> mr_Hash r = h) (rev t) = mc_lookup code h t"
    unfolding mc_lookup_def by (rule wf_last [where s = code and h = h, OF _ assms(1)]) simp
  finally show ?thesis using assms(2) by (auto simp: last_by_hash_def mc_GetByHashes_def)
qed

section \<open>What the check asks and answers\<close>

definition asked_hashes :: "upstream \<Rightarrow> string list" where
  "asked_hashes u = (case u of AskBuddy _ hs _ _ \<Rightarrow> hs | AskPeer k \<Rightarrow> pk_magnets k)"

definition fresh :: "buddy_env \<Rightarrow> int \<Rightarrow> MagnetCache list \<Rightarrow> string \<Rightarrow> bool" where
  "fresh env now mcs h \<longleftrightarrow> (\<exists>mc. last_by_hash mcs h = Some mc \<and> \<not> IsStale (be_Stale env) (be_HasBuddy env) now mc)"

lemma check_local_cases:
  "check_local env now mcs hs s = (items, stale, s') \<Longrightarrow>
     (\<forall>h \<in> set stale. \<not> fresh env now mcs h \<and> (\<exists>x \<in> set hs. \<exists>m. ParseMagnetLink (be_hier_ok env) x = Inr m \<and> mg_Hash m = h))
     \<and> (\<forall>i \<in> set items. fresh env now mcs (ci_Hash i)
          \<and> (ci_Status i = ''cached'') = mr_IsCached (the (last_by_hash mcs (ci_Hash i))))
     \<and> (\<forall>x \<in> set hs. \<forall>m. ParseMagnetLink (be_hier_ok env) x = Inr m \<longrightarrow>
          mg_Hash m \<in> set stale \<or> mg_Hash m \<in> ci_Hash ` set items)"
proof (induction env now mcs hs s arbitrary: items stale s' rule: check_local.induct)
  case (2 env now mcs h hs s)
  show ?case
  proof (cases "ParseMagnetLink (be_hier_ok env) h")
    case (Inl e)
    from 2(1) [OF Inl] 2(5) Inl show ?thesis by auto
  next
    case (Inr m)
    show ?thesis
    proof (cases "fresh env now mcs (mg_Hash m)")
      case True
      then obtain mc where mc: "last_by_hash mcs (mg_Hash m) = Some mc" "\<not> IsStale (be_Stale env) (be_HasBuddy env) now mc"
        by (auto simp: fresh_def)
      obtain files s1 where f: "(if mr_IsCached mc then ToStoreMagnetFiles (be_Dialect env) (mg_Hash m) (mc_Files mc) s else ([], s)) = (files, s1)"
        by fastforce
      obtain it st s2 where r: "check_local env now mcs hs s1 = (it, st, s2)" by (metis prod_cases3)
      from 2(4) [OF Inr mc f [symmetric] r] have IH: "(\<forall>h \<in> set st. \<not> fresh env now mcs h \<and> (\<exists>x \<in> set hs. \<exists>m. ParseMagnetLink (be_hier_ok env) x = Inr m \<and> mg_Hash m = h))
         \<and> (\<forall>i \<in> set it. fresh env now mcs (ci_Hash i) \<and> (ci_Status i = ''cached'') = mr_IsCached (the (last_by_hash mcs (ci_Hash i))))
         \<and> (\<forall>x \<in> set hs. \<forall>m. ParseMagnetLink (be_hier_ok env) x = Inr m \<longrightarrow> mg_Hash m \<in> set st \<or> mg_Hash m \<in> ci_Hash ` set it)" .
      have "items = \<lparr>ci_Hash = mg_Hash m, ci_Magnet = mg_Link m, ci_Status = (if mr_IsCached mc then ''cached'' else ''unknown''), ci_Files = files\<rparr> # it"
        "stale = st" using 2(5) Inr mc f r by simp_all
      then show ?thesis using IH True mc(1) Inr by auto
    next
      case False
      obtain it st s2 where r: "check_local env now mcs hs s = (it, st, s2)" by (metis prod_cases3)
      have eqs: "items = it" "stale = mg_Hash m # st"
        using 2(5) Inr False r by (auto simp: fresh_def split: option.splits if_splits)
      have IH: "(\<forall>h \<in> set st. \<not> fresh env now mcs h \<and> (\<exists>x \<in> set hs. \<exists>m. ParseMagnetLink (be_hier_ok env) x = Inr m \<and> mg_Hash m = h))
         \<and> (\<forall>i \<in> set it. fresh env now mcs (ci_Hash i) \<and> (ci_Status i = ''cached'') = mr_IsCached (the (last_by_hash mcs (ci_Hash i))))
         \<and> (\<forall>x \<in> set hs. \<forall>m. ParseMagnetLink (be_hier_ok env) x = Inr m \<longrightarrow> mg_Hash m \<in> set st \<or> mg_Hash m \<in> ci_Hash ` set it)"
      proof (cases "last_by_hash mcs (mg_Hash m)")
        case None
        from 2(2) [OF Inr None r] show ?thesis .
      next
        case (Some mc)
        then have "IsStale (be_Stale env) (be_HasBuddy env) now mc" using False by (auto simp: fresh_def)
        from 2(3) [OF Inr Some this r] show ?thesis .
      qed
      then show ?thesis using False Inr by (auto simp: eqs)
    qed
  qed
qed simp

text \<open>The list that the check of a call reads.\<close>

definition known_magnets :: "store_name \<Rightarrow> string list \<Rightarrow> string \<Rightarrow> buddy_state \<Rightarrow> MagnetCache list" where
  "known_magnets storeName hashes sid0 st =
     mc_GetByHashes (StoreName_Code storeName) hashes (if imdb_sid sid0 then sid0 else []) (md_cache (bs_db st)) (md_streams (bs_db st))"

lemma CheckMagnet_asked:
  assumes "CheckMagnet env now ac buddy peer arrival storeName hashes token ip sid0 st = (res, asked, st')"
    and "be_query_err env = None"
    and "check_local env now (known_magnets storeName hashes sid0 st) hashes (md_streams (bs_db st)) = (items, stale, streams)"
  shows "\<Union> (set ` asked_hashes ` set asked) \<subseteq> set stale \<and> (\<exists>got. res = Inr (items @ got)) \<and> (asked \<noteq> [] \<longrightarrow> stale \<noteq> [])"
proof -
  have c: "concat (chunks 500 stale) = stale" using concat_chunks [of 500 stale] by simp
  have pk: "\<Union> (set ` set (chunks 500 stale)) = set stale" using c by (metis set_concat)
  have sub: "c \<in> set (chunks 500 stale) \<Longrightarrow> x \<in> set c \<Longrightarrow> x \<in> set stale" for c x using pk by blast
  show ?thesis
    using assms(1)
    unfolding CheckMagnet_def Let_def assms(2) option.case known_magnets_def [symmetric] assms(3) prod.case
    by (auto simp: asked_hashes_def split: if_splits option.splits prod.splits bool.splits) (use sub in blast)+
qed

text \<open>
  C6: (safety) Nobody outside is asked about a magnet that the table has a fresh answer for, and what the table knows comes
  first in the result, with the status of its row.
\<close>

theorem CheckMagnet_asks_only_stale:
  assumes "CheckMagnet env now ac buddy peer arrival storeName hashes token ip sid0 st = (Inr result, asked, st')"
    and "be_query_err env = None"
  shows "(\<forall>u \<in> set asked. \<forall>h \<in> set (asked_hashes u). \<not> fresh env now (known_magnets storeName hashes sid0 st) h
        \<and> (\<exists>x \<in> set hashes. \<exists>m. ParseMagnetLink (be_hier_ok env) x = Inr m \<and> mg_Hash m = h))
    \<and> (\<forall>x \<in> set hashes. \<forall>m. ParseMagnetLink (be_hier_ok env) x = Inr m \<and> fresh env now (known_magnets storeName hashes sid0 st) (mg_Hash m)
        \<longrightarrow> (\<exists>i \<in> set result. ci_Hash i = mg_Hash m
              \<and> (ci_Status i = ''cached'') = mr_IsCached (the (last_by_hash (known_magnets storeName hashes sid0 st) (mg_Hash m)))))"
proof -
  obtain items stale streams where c: "check_local env now (known_magnets storeName hashes sid0 st) hashes (md_streams (bs_db st)) = (items, stale, streams)"
    by (metis prod_cases3)
  from CheckMagnet_asked [OF assms c] obtain got where a: "\<Union> (set ` asked_hashes ` set asked) \<subseteq> set stale" "result = items @ got" by auto
  note f = check_local_cases [OF c]
  have 1: "\<not> fresh env now (known_magnets storeName hashes sid0 st) h
        \<and> (\<exists>x \<in> set hashes. \<exists>m. ParseMagnetLink (be_hier_ok env) x = Inr m \<and> mg_Hash m = h)" if "u \<in> set asked" "h \<in> set (asked_hashes u)" for u h
  proof -
    have "h \<in> set stale" using a(1) that by blast
    then show ?thesis using f by blast
  qed
  have 2: "\<exists>i \<in> set result. ci_Hash i = mg_Hash m
      \<and> (ci_Status i = ''cached'') = mr_IsCached (the (last_by_hash (known_magnets storeName hashes sid0 st) (mg_Hash m)))"
    if x: "x \<in> set hashes" "ParseMagnetLink (be_hier_ok env) x = Inr m" and fr: "fresh env now (known_magnets storeName hashes sid0 st) (mg_Hash m)" for x m
  proof -
    have "mg_Hash m \<notin> set stale" using f fr by blast
    then obtain i where i: "i \<in> set items" "ci_Hash i = mg_Hash m" using f x by fastforce
    moreover have "(ci_Status i = ''cached'') = mr_IsCached (the (last_by_hash (known_magnets storeName hashes sid0 st) (ci_Hash i)))"
      using f i(1) by blast
    ultimately show ?thesis using a(2) by (intro bexI [of _ i]) simp_all
  qed
  from 1 2 show ?thesis by blast
qed

section \<open>What is learned\<close>

lemma map_of_fold_update:
  "distinct (map fst m) \<Longrightarrow> distinct (map fst (foldl (\<lambda>m i. AList.update (k i) (v i) m) m is))
    \<and> (\<forall>h. map_of (foldl (\<lambda>m i. AList.update (k i) (v i) m) m is) h =
        (case find (\<lambda>i. k i = h) (rev is) of Some i \<Rightarrow> Some (v i) | None \<Rightarrow> map_of m h))"
proof (induction "is" rule: rev_induct)
  case (snoc i "is")
  then show ?case by (auto simp: AList.distinct_update AList.update_conv')
qed simp

lemma buddy_cached_lookup:
  "distinct (map fst (buddy_cached ans)) \<and> map_of (buddy_cached ans) h = (if \<exists>i \<in> set ans. bi_Hash i = h \<and> bi_Status i = ''cached'' then Some True else None)"
proof -
  have "distinct (map fst c) \<Longrightarrow>
      distinct (map fst (foldl (\<lambda>c i. if bi_Status i = ''cached'' then AList.update (bi_Hash i) True c else c) c ans))
      \<and> map_of (foldl (\<lambda>c i. if bi_Status i = ''cached'' then AList.update (bi_Hash i) True c else c) c ans) h
        = (if \<exists>i \<in> set ans. bi_Hash i = h \<and> bi_Status i = ''cached'' then Some True else map_of c h)" for c :: "(string \<times> bool) list"
  proof (induction ans arbitrary: c)
    case (Cons i ans)
    have "distinct (map fst (if bi_Status i = ''cached'' then AList.update (bi_Hash i) True c else c))"
      using Cons.prems by (simp add: AList.distinct_update)
    from Cons.IH [OF this] show ?case by (auto simp: AList.update_conv')
  qed simp
  from this [of "[]"] show ?thesis by (simp add: buddy_cached_def)
qed

lemma stale_lower:
  assumes "parseStoreContentCachedStaleTime s = Inr m"
  shows "9 * hour \<le> (if b then GetStaleTime m True n div 2 else GetStaleTime m True n)"
    and "3 * hour \<le> (if b then GetStaleTime m False n div 2 else GetStaleTime m False n)"
  using stale_time_lower [OF assms, of True n] stale_time_lower [OF assms, of False n] by (auto simp: hour_def)

text \<open>A hash as \<open>ParseMagnetLink\<close> writes it, which is what the table holds.\<close>

definition canonical_hash :: "buddy_env \<Rightarrow> string \<Rightarrow> bool" where
  "canonical_hash env h \<longleftrightarrow> (\<exists>m. ParseMagnetLink (be_hier_ok env) h = Inr m \<and> mg_Hash m = h)"

lemma known_row_answers:
  assumes "wf_cache (md_cache (bs_db st))" and "be_query_err env = None" and "parseStoreContentCachedStaleTime s = Inr (be_Stale env)"
    and "mc_lookup (StoreName_Code storeName) h (md_cache (bs_db st)) =
      Some \<lparr>mr_Store = StoreName_Code storeName, mr_Hash = h, mr_IsCached = c, mr_ModifiedAt = t\<rparr>"
    and "now \<le> t + (if c then 9 * hour else 3 * hour)" and "canonical_hash env h"
  shows "\<exists>i st'. CheckMagnet env now ac buddy peer arrival storeName [h] token ip [] st = (Inr [i], [], st')
    \<and> ci_Hash i = h \<and> ci_Status i = (if c then ''cached'' else ''unknown'')"
proof -
  let ?mcs = "mc_GetByHashes (StoreName_Code storeName) [h] [] (md_cache (bs_db st)) (md_streams (bs_db st))"
  obtain m where m: "ParseMagnetLink (be_hier_ok env) h = Inr m" "mg_Hash m = h" using assms(6) by (auto simp: canonical_hash_def)
  let ?mc = "cache_entry (GetFilesByHashes [h] (md_streams (bs_db st)))
      \<lparr>mr_Store = StoreName_Code storeName, mr_Hash = h, mr_IsCached = c, mr_ModifiedAt = t\<rparr>"
  have l: "last_by_hash ?mcs h = Some ?mc"
    by (subst last_by_hash_lookup [OF assms(1)]) (simp_all add: assms(4))
  have ic: "mr_IsCached ?mc = c" by (simp add: cache_entry_def)
  have "\<not> IsStale (be_Stale env) (be_HasBuddy env) now ?mc"
    using stale_lower [OF assms(3), of "be_HasBuddy env" "StoreCode_Name (StoreName_Code storeName)"] assms(5)
    by (cases c) (auto simp: IsStale_def cache_entry_def Let_def split: if_splits)
  then have "\<exists>i s'. check_local env now ?mcs [h] (md_streams (bs_db st)) = ([i], [], s')
      \<and> ci_Hash i = h \<and> ci_Status i = (if c then ''cached'' else ''unknown'')"
    using l ic by (simp add: m split: prod.split)
  then obtain i s' where r: "check_local env now ?mcs [h] (md_streams (bs_db st)) = ([i], [], s')"
    "ci_Hash i = h" "ci_Status i = (if c then ''cached'' else ''unknown'')" by blast
  have "imdb_sid [] = False" by (simp add: imdb_sid_def has_prefix_def)
  then show ?thesis using r by (auto simp: CheckMagnet_def Let_def assms(2))
qed

lemma floor_second_bounds: "t - 10 ^ 9 \<le> floor_second t \<and> floor_second t \<le> t"
  by (simp add: floor_second_def)

text \<open>
  C7: (functional) What Buddy once reported as cached is answered from the table for nine hours, less the second to which
  SQLite cuts the time of the row: a second check without a stream id asks nobody, however the stale times are configured, if
  the queries and statements of the first check succeeded, the table holds one row for each store and hash, and Buddy
  answered with the hash in its canonical form. A check with a stream id answers from the
  table only what has a file seen with that id.
\<close>

theorem second_check_is_local:
  assumes "CheckMagnet env now ac buddy peer arrival storeName hashes token ip sid0 st = (Inr items, asked, st1)"
    and "AskBuddy storeName stale ip sid \<in> set asked" and "buddy stale = Some ans"
    and "b \<in> set ans" and "bi_Status b = ''cached''" and "canonical_hash env (bi_Hash b)"
    and "be_query_err env = None" and "ac_hits ac" and "ac_misses ac"
    and "wf_cache (md_cache (bs_db st))" and "parseStoreContentCachedStaleTime s = Inr (be_Stale env)" and "now2 \<le> now + 9 * hour - 10 ^ 9"
  shows "\<exists>i st2. CheckMagnet env now2 ac2 buddy2 peer2 arrival2 storeName [bi_Hash b] token2 ip2 [] st1 = (Inr [i], [], st2)
    \<and> ci_Hash i = bi_Hash b \<and> ci_Status i = ''cached''"
proof -
  obtain its stale' streams where c: "check_local env now (known_magnets storeName hashes sid0 st) hashes (md_streams (bs_db st)) = (its, stale', streams)"
    by (metis prod_cases3)
  let ?code = "StoreName_Code storeName"
  let ?now = "db_time (be_Dialect env) now"
  let ?db = "BulkTouch ?now ac ?code (buddy_filesByHash ans) (Some (buddy_cached ans)) False ((bs_db st)\<lparr>md_streams := streams\<rparr>)"
  have "bs_db st1 = ?db"
    using assms(1,2,3) unfolding CheckMagnet_def Let_def assms(7) option.case known_magnets_def [symmetric] c prod.case
    by (auto split: if_splits option.splits prod.splits bool.splits)
  moreover have "mc_lookup ?code (bi_Hash b) (md_cache ?db) =
      Some \<lparr>mr_Store = ?code, mr_Hash = bi_Hash b, mr_IsCached = True, mr_ModifiedAt = ?now\<rparr>"
  proof -
    have "\<exists>i \<in> set ans. bi_Hash i = bi_Hash b \<and> bi_Status i = ''cached''" using assms(4,5) by blast
    with buddy_cached_lookup [of ans "bi_Hash b"] have d: "distinct (map fst (buddy_cached ans))" and m: "map_of (buddy_cached ans) (bi_Hash b) = Some True"
      by simp_all
    show ?thesis
      using touched_lookup [OF assms(8,9), of "Some (buddy_cached ans)" ?code "bi_Hash b" ?now ?code "buddy_filesByHash ans" False] d m by (simp split: if_splits)
  qed
  moreover have "wf_cache (md_cache ?db)" by (rule BulkTouch_wf) (simp add: assms(10))
  moreover have "now - 10 ^ 9 \<le> ?now" using floor_second_bounds [of now] by (simp add: db_time_def)
  ultimately show ?thesis
    using known_row_answers [of st1 env s storeName "bi_Hash b" True ?now now2 ac2 buddy2 peer2 arrival2 token2 ip2] assms(6,7,11,12) by simp
qed

text \<open>
  (safety) After a peer took more than ten seconds to answer, no peer is asked for ten seconds.
\<close>

theorem slow_peer_is_spared:
  assumes "CheckMagnet env now ac buddy peer arrival storeName hashes token ip sid0 st = (res, asked, st1)"
    and "AskPeer k \<in> set asked" and "10 * 10 ^ 9 < pa_duration (peer (pk_magnets k))" and "now2 \<le> now + 10 * 10 ^ 9"
  shows "fst (snd (CheckMagnet env now2 ac2 buddy2 peer2 arrival2 storeName2 hashes2 token2 ip2 sid2 st1)) = []"
proof -
  have "bs_retry st1 = HaltCheckMagnet now \<and> \<not> be_HasBuddy env"
    using assms(1-3) unfolding CheckMagnet_def Let_def
    by (auto simp: list_ex_iff split: if_splits option.splits prod.splits bool.splits)
  then have h: "IsHaltedCheckMagnet now2 (bs_retry st1) = (True, bs_retry st1)" and nb: "\<not> be_HasBuddy env"
    using assms(4) by (auto simp: IsHaltedCheckMagnet_def HaltCheckMagnet_def)
  show ?thesis using h nb unfolding CheckMagnet_def Let_def
    by (auto split: option.split prod.split)
qed

text \<open>
  (error) That a torrent is not cached is never remembered from such an answer: the table stays as it is for that hash, so
  the next check asks for it again.
\<close>

theorem misses_not_remembered:
  assumes "CheckMagnet env now ac buddy peer arrival storeName hashes token ip sid0 st = (Inr items, asked, st1)"
    and "AskBuddy storeName stale ip sid \<in> set asked" and "buddy stale = Some ans"
    and "\<And>b. b \<in> set ans \<Longrightarrow> bi_Hash b = h \<Longrightarrow> bi_Status b \<noteq> ''cached''"
    and "be_query_err env = None" and "ac_hits ac" and "ac_misses ac"
  shows "mc_lookup s h (md_cache (bs_db st1)) = mc_lookup s h (md_cache (bs_db st))"
proof -
  obtain its stale' streams where c: "check_local env now (known_magnets storeName hashes sid0 st) hashes (md_streams (bs_db st)) = (its, stale', streams)"
    by (metis prod_cases3)
  have db: "bs_db st1 = BulkTouch (db_time (be_Dialect env) now) ac (StoreName_Code storeName) (buddy_filesByHash ans) (Some (buddy_cached ans)) False
      ((bs_db st)\<lparr>md_streams := streams\<rparr>)"
    using assms(1,2,3) unfolding CheckMagnet_def Let_def assms(5) option.case known_magnets_def [symmetric] c prod.case
    by (auto split: if_splits option.splits prod.splits bool.splits)
  have d: "distinct (map fst (buddy_cached ans))" and none: "map_of (buddy_cached ans) h = None"
    using buddy_cached_lookup [of ans h] assms(4) by auto
  have f: "distinct (map fst (buddy_filesByHash ans))" "map_of (buddy_filesByHash ans) h =
      (case find (\<lambda>i. bi_Hash i = h) (rev ans) of Some i \<Rightarrow> Some (map buddy_ts_file (buddy_files i)) | None \<Rightarrow> None)"
    using map_of_fold_update [of "[]" bi_Hash "\<lambda>i. map buddy_ts_file (buddy_files i)" ans] by (simp_all add: buddy_filesByHash_def cong: option.case_cong)
  have "files = []" if "(h, files) \<in> set (buddy_filesByHash ans)" for files
  proof -
    have "map_of (buddy_filesByHash ans) h = Some files" using that f(1) by (simp add: map_of_eq_Some_iff)
    then obtain i where "find (\<lambda>i. bi_Hash i = h) (rev ans) = Some i" "files = map buddy_ts_file (buddy_files i)"
      using f(2) by (auto split: option.splits)
    then show ?thesis using assms(4) [of i] by (auto simp: find_Some_iff buddy_files_def) (metis nth_mem rev_nth set_rev length_rev)?
  qed
  then show ?thesis using touched_lookup [OF assms(6,7), of "Some (buddy_cached ans)" s h "db_time (be_Dialect env) now" "StoreName_Code storeName" "buddy_filesByHash ans" False]
    d none unfolding db by auto
qed

text \<open>
  (safety) With a stream id, a torrent counts as cached only if one of its files was seen with that id or stands for any.
\<close>

theorem cached_only_with_stream:
  assumes "mc \<in> set (mc_GetByHashes store hashes sid t streams)" and "sid \<noteq> []" and "mr_IsCached mc"
  shows "mr_Store mc = store \<and> mr_Hash mc \<in> set hashes \<and> (\<exists>s \<in> set streams. tr_Hash s = mr_Hash mc \<and> tr_SId s \<in> {sid, ''*''})"
  using assms by (auto simp: mc_GetByHashes_def cache_entry_def sid_rows_def filter_eq_Cons_iff split: list.splits if_splits)

section \<open>Samples\<close>

definition sample_buddy_env :: buddy_env where
  "sample_buddy_env =
     \<lparr>be_HasBuddy = True, be_HasPeer = False, be_Lazy = False, be_NoSpillTorz = False, be_PeerAuthToken = [],
      be_Stale = [(''*'', \<lparr>st_cached = 20 * hour, st_uncached = 7 * hour\<rparr>)], be_Dialect = SQLite, be_hier_ok = (\<lambda>_. True),
      be_query_err = None\<rparr>"

definition accept_all :: db_accepts where
  "accept_all = \<lparr>ac_hits = True, ac_misses = True, ac_files = (\<lambda>_. True)\<rparr>"

definition empty_buddy :: buddy_state where
  "empty_buddy = \<lparr>bs_db = \<lparr>md_cache = [], md_streams = []\<rparr>, bs_queue = MagnetCachePullerQueue False, bs_retry = None\<rparr>"

definition sample_answer :: "string \<Rightarrow> buddy_item" where
  "sample_answer status = \<lparr>bi_Hash = sample_hash, bi_Magnet = [], bi_Status = status, bi_Files = []\<rparr>"

definition sample_peer :: "string list \<Rightarrow> peer_answer" where
  "sample_peer hs = \<lparr>pa_duration = 11 * 10 ^ 9, pa_items = None\<rparr>"

lemma sample_canonical: "canonical_hash sample_buddy_env sample_hash"
proof -
  have "(case ParseMagnetLink (\<lambda>_. True) sample_hash of Inl _ \<Rightarrow> False | Inr m \<Rightarrow> mg_Hash m = sample_hash)" by code_simp
  then show ?thesis by (auto simp: canonical_hash_def sample_buddy_env_def split: sum.splits)
qed

theorem BulkTouch_lookup_witness:
  "mc_lookup ''rd'' ''h'' (md_cache (BulkTouch 7 accept_all ''rd'' [] (Some [(''h'', False)]) True \<lparr>md_cache = [], md_streams = []\<rparr>)) =
    Some \<lparr>mr_Store = ''rd'', mr_Hash = ''h'', mr_IsCached = False, mr_ModifiedAt = 7\<rparr>"
  by (subst BulkTouch_lookup) (simp_all add: accept_all_def)

definition first_check :: "(string + check_item list) \<times> upstream list \<times> buddy_state" where
  "first_check =
     CheckMagnet sample_buddy_env 5 accept_all (\<lambda>_. Some [sample_answer ''cached'']) sample_peer id ''realdebrid'' [sample_hash] ''t'' ''1.1.1.1'' []
       empty_buddy"

lemma first_check_asks:
  "snd first_check = ([AskBuddy ''realdebrid'' [sample_hash] ''1.1.1.1'' []], snd (snd first_check))
    \<and> (\<exists>items. fst first_check = Inr items)"
proof -
  have a: "fst (snd first_check) = [AskBuddy ''realdebrid'' [sample_hash] ''1.1.1.1'' []]" by code_simp
  have "case fst first_check of Inl _ \<Rightarrow> False | Inr _ \<Rightarrow> True" by code_simp
  then have "\<exists>items. fst first_check = Inr items" by (cases "fst first_check") simp_all
  then show ?thesis using prod.collapse [of "snd first_check"] by (simp add: a)
qed

theorem CheckMagnet_asks_only_stale_witness:
  "\<not> fresh sample_buddy_env 5 (known_magnets ''realdebrid'' [sample_hash] [] empty_buddy) sample_hash"
proof -
  obtain items where e: "first_check = (Inr items, [AskBuddy ''realdebrid'' [sample_hash] ''1.1.1.1'' []], snd (snd first_check))"
    using first_check_asks by (metis prod.collapse fst_conv snd_conv)
  have q: "be_query_err sample_buddy_env = None" by (simp add: sample_buddy_env_def)
  from CheckMagnet_asks_only_stale [OF e [unfolded first_check_def] q] show ?thesis by (auto simp: asked_hashes_def)
qed

theorem second_check_is_local_witness:
  "fst (snd (CheckMagnet sample_buddy_env (hour + 5) accept_all (\<lambda>_. None) sample_peer id ''realdebrid'' [sample_hash] ''t'' ''1.1.1.1'' []
     (snd (snd first_check)))) = []"
proof -
  obtain items where e: "first_check = (Inr items, [AskBuddy ''realdebrid'' [sample_hash] ''1.1.1.1'' []], snd (snd first_check))"
    using first_check_asks by (metis prod.collapse fst_conv snd_conv)
  have "\<exists>i st2. CheckMagnet sample_buddy_env (hour + 5) accept_all (\<lambda>_. None) sample_peer id ''realdebrid'' [bi_Hash (sample_answer ''cached'')]
      ''t'' ''1.1.1.1'' [] (snd (snd first_check)) = (Inr [i], [], st2) \<and> ci_Hash i = bi_Hash (sample_answer ''cached'') \<and> ci_Status i = ''cached''"
    by (rule second_check_is_local [OF e [unfolded first_check_def], folded first_check_def, where b = "sample_answer ''cached''" and s = "''*:20h:7h''"
          and sid = "[]" and stale = "[sample_hash]" and ans = "[sample_answer ''cached'']"])
      (use sample_canonical sample_stale in \<open>simp_all add: sample_answer_def sample_buddy_env_def accept_all_def empty_buddy_def wf_cache_def hour_def\<close>)
  then show ?thesis by (auto simp: sample_answer_def)
qed

theorem misses_not_remembered_witness:
  "mc_lookup ''rd'' [] (md_cache (bs_db (snd (snd first_check)))) = None"
proof -
  obtain items where e: "first_check = (Inr items, [AskBuddy ''realdebrid'' [sample_hash] ''1.1.1.1'' []], snd (snd first_check))"
    using first_check_asks by (metis prod.collapse fst_conv snd_conv)
  have "mc_lookup ''rd'' [] (md_cache (bs_db (snd (snd first_check)))) = mc_lookup ''rd'' [] (md_cache (bs_db empty_buddy))"
    by (rule misses_not_remembered [OF e [unfolded first_check_def], folded first_check_def, where sid = "[]" and stale = "[sample_hash]"
          and ans = "[sample_answer ''cached'']"])
      (auto simp: sample_answer_def sample_buddy_env_def accept_all_def sample_hash_def)
  then show ?thesis by (simp add: empty_buddy_def mc_lookup_def)
qed

theorem slow_peer_is_spared_witness:
  "fst (snd (CheckMagnet (sample_buddy_env\<lparr>be_HasBuddy := False, be_HasPeer := True\<rparr>) 6 accept_all (\<lambda>_. None) sample_peer id ''realdebrid'' [sample_hash]
     ''t'' ''1.1.1.1'' []
     (snd (snd (CheckMagnet (sample_buddy_env\<lparr>be_HasBuddy := False, be_HasPeer := True\<rparr>) 5 accept_all (\<lambda>_. None) sample_peer id ''realdebrid'' [sample_hash]
        ''t'' ''1.1.1.1'' [] empty_buddy))))) = []"
proof -
  let ?e = "sample_buddy_env\<lparr>be_HasBuddy := False, be_HasPeer := True\<rparr>"
  let ?c = "CheckMagnet ?e 5 accept_all (\<lambda>_. None) sample_peer id ''realdebrid'' [sample_hash] ''t'' ''1.1.1.1'' [] empty_buddy"
  let ?k = "\<lparr>pk_magnets = [sample_hash], pk_client_ip = ''1.1.1.1'', pk_sid = [], pk_store = ''realdebrid'', pk_token = ''t''\<rparr>"
  have "fst (snd ?c) = [AskPeer ?k]" by code_simp
  then have mem: "AskPeer ?k \<in> set (fst (snd ?c))" by simp
  have c: "?c = (fst ?c, fst (snd ?c), snd (snd ?c))" by simp
  have d: "10 * 10 ^ 9 < pa_duration (sample_peer (pk_magnets ?k))" by (simp add: sample_peer_def)
  show ?thesis by (rule slow_peer_is_spared [OF c mem d]) simp
qed

theorem cached_only_with_stream_witness:
  "\<exists>s \<in> set [(sample_row ''rd'')\<lparr>tr_Hash := ''h''\<rparr>]. tr_Hash s = ''h'' \<and> tr_SId s \<in> {''tt9'', ''*''}"
proof -
  let ?r = "\<lparr>mr_Store = ''rd'', mr_Hash = ''h'', mr_IsCached = True, mr_ModifiedAt = 1\<rparr>"
  have "cache_entry (GetFilesByHashes [''h''] [(sample_row ''rd'')\<lparr>tr_Hash := ''h''\<rparr>]) ?r
      \<in> set (mc_GetByHashes ''rd'' [''h''] ''tt9'' [?r] [(sample_row ''rd'')\<lparr>tr_Hash := ''h''\<rparr>])" by code_simp
  from cached_only_with_stream [OF this] show ?thesis by (simp add: cache_entry_def)
qed

end
