(* ===== verification/Torznab.thy ===== *)
theory Torznab
  imports Torrent_Lookup Url
begin

text \<open>
  Torznab: the queries that the server answers (\<open>internal/torznab/query.go\<close>, \<open>category.go\<close>, \<open>indexer.go\<close>,
  \<open>result.go\<close>) and the client for other indexers (\<open>internal/torznab/client\<close>, \<open>internal/torznab/jackett\<close>).

  A map of parameters is an association list as in \<open>Url\<close>; where the code ranges over it, the order of the entries is
  the order of the visit. \<open>url.Parse\<close>, the torrent file reader and the HTTP answers are parameters.
\<close>

section \<open>Categories\<close>

type_synonym category = "int \<times> string"

definition AllCategories :: "category list" where
  "AllCategories =
    [(0, ''Other''), (10, ''Other/Misc''), (20, ''Other/Hashed''), (1000, ''Console''), (1010, ''Console/NDS''),
     (1020, ''Console/PSP''), (1030, ''Console/Wii''), (1040, ''Console/Xbox''), (1050, ''Console/Xbox360''),
     (1060, ''Console/Wiiware/V''), (1070, ''Console/Xbox360''), (1080, ''Console/PS3''), (1999, ''Console/Other''),
     (1110, ''Console/3DS''), (1120, ''Console/PS Vita''), (1130, ''Console/WiiU''), (1140, ''Console/XboxOne''),
     (1180, ''Console/PS4''), (2000, ''Movies''), (2010, ''Movies/Foreign''), (2020, ''Movies/Other''), (2030, ''Movies/SD''),
     (2040, ''Movies/HD''), (2050, ''Movies/3D''), (2060, ''Movies/BluRay''), (2070, ''Movies/DVD''),
     (2080, ''Movies/WEBDL''), (3000, ''Audio''), (3010, ''Audio/MP3''), (3020, ''Audio/Video''), (3030, ''Audio/Audiobook''),
     (3040, ''Audio/Lossless''), (3999, ''Audio/Other''), (3060, ''Audio/Foreign''), (4000, ''PC''), (4010, ''PC/0day''),
     (4020, ''PC/ISO''), (4030, ''PC/Mac''), (4040, ''PC/Phone-Other''), (4050, ''PC/Games''), (4060, ''PC/Phone-IOS''),
     (4070, ''PC/Phone-Android''), (5000, ''TV''), (5010, ''TV/WEB-DL''), (5020, ''TV/Foreign''), (5030, ''TV/SD''),
     (5040, ''TV/HD''), (5999, ''TV/Other''), (5060, ''TV/Sport''), (5070, ''TV/Anime''), (5080, ''TV/Documentary''),
     (6000, ''XXX''), (6010, ''XXX/DVD''), (6020, ''XXX/WMV''), (6030, ''XXX/XviD''), (6040, ''XXX/x264''),
     (6999, ''XXX/Other''), (6060, ''XXX/Imageset''), (6070, ''XXX/Packs''), (7000, ''Books''), (7010, ''Books/Magazines''),
     (7020, ''Books/Ebook''), (7030, ''Books/Comics''), (7040, ''Books/Technical''), (7060, ''Books/Foreign''),
     (7999, ''Books/Unknown'')]"

definition ParentCategory :: "category \<Rightarrow> category" where
  "ParentCategory c =
     (if fst c < 1000 then (0, ''Other'') else if fst c < 2000 then (1000, ''Console'') else if fst c < 3000 then (2000, ''Movies'')
      else if fst c < 4000 then (3000, ''Audio'') else if fst c < 5000 then (4000, ''PC'') else if fst c < 6000 then (5000, ''TV'')
      else if fst c < 7000 then (6000, ''XXX'') else if fst c < 8000 then (7000, ''Books'') else (0, ''Other''))"

definition Subset :: "int list \<Rightarrow> category list" where
  "Subset ids = concat (map (\<lambda>cat. map (\<lambda>_. cat) (filter (\<lambda>i. fst cat = i) ids)) AllCategories)"

definition jackett_AllCategories :: "category list" where
  "jackett_AllCategories =
    [(1000, ''Console''), (1010, ''Console/NDS''), (1020, ''Console/PSP''), (1030, ''Console/Wii''), (1040, ''Console/XBox''),
     (1050, ''Console/XBox 360''), (1060, ''Console/Wiiware''), (1070, ''Console/XBox 360 DLC''), (1080, ''Console/PS3''),
     (1090, ''Console/Other''), (1110, ''Console/3DS''), (1120, ''Console/PS Vita''), (1130, ''Console/WiiU''),
     (1140, ''Console/XBox One''), (1180, ''Console/PS4''), (2000, ''Movies''), (2010, ''Movies/Foreign''),
     (2020, ''Movies/Other''), (2030, ''Movies/SD''), (2040, ''Movies/HD''), (2045, ''Movies/UHD''),
     (2050, ''Movies/BluRay''), (2060, ''Movies/3D''), (2070, ''Movies/DVD''), (2080, ''Movies/WEB-DL''), (3000, ''Audio''),
     (3010, ''Audio/MP3''), (3020, ''Audio/Video''), (3030, ''Audio/Audiobook''), (3040, ''Audio/Lossless''),
     (3050, ''Audio/Other''), (3060, ''Audio/Foreign''), (4000, ''PC''), (4010, ''PC/0day''), (4020, ''PC/ISO''),
     (4030, ''PC/Mac''), (4040, ''PC/Mobile-Other''), (4050, ''PC/Games''), (4060, ''PC/Mobile-iOS''),
     (4070, ''PC/Mobile-Android''), (5000, ''TV''), (5010, ''TV/WEB-DL''), (5020, ''TV/Foreign''), (5030, ''TV/SD''),
     (5040, ''TV/HD''), (5045, ''TV/UHD''), (5050, ''TV/Other''), (5060, ''TV/Sport''), (5070, ''TV/Anime''),
     (5080, ''TV/Documentary''), (6000, ''XXX''), (6010, ''XXX/DVD''), (6020, ''XXX/WMV''), (6030, ''XXX/XviD''),
     (6040, ''XXX/x264''), (6045, ''XXX/UHD''), (6050, ''XXX/Pack''), (6060, ''XXX/ImageSet''), (6070, ''XXX/Other''),
     (6080, ''XXX/SD''), (6090, ''XXX/WEB-DL''), (7000, ''Books''), (7010, ''Books/Mags''), (7020, ''Books/EBook''),
     (7030, ''Books/Comics''), (7040, ''Books/Technical''), (7050, ''Books/Other''), (7060, ''Books/Foreign''),
     (8000, ''Other''), (8010, ''Other/Misc''), (8020, ''Other/Hashed'')]"

definition jackett_ParentCategory :: "category \<Rightarrow> category" where
  "jackett_ParentCategory c =
     (if fst c < 1000 then (0, ''Reserved'') else if fst c < 2000 then (1000, ''Console'') else if fst c < 3000 then (2000, ''Movies'')
      else if fst c < 4000 then (3000, ''Audio'') else if fst c < 5000 then (4000, ''PC'') else if fst c < 6000 then (5000, ''TV'')
      else if fst c < 7000 then (6000, ''XXX'') else if fst c < 8000 then (7000, ''Books'') else (8000, ''Other''))"

definition GetCategoryById :: "int \<Rightarrow> category option" where
  "GetCategoryById i = map_option (Pair i) (map_of (rev jackett_AllCategories) i)"

section \<open>Queries to the server\<close>

record tz_query =
  tq_Type :: string
  tq_Q :: string
  tq_Series :: string
  tq_Movie :: string
  tq_Ep :: string
  tq_Season :: string
  tq_Year :: int
  tq_Limit :: int
  tq_Offset :: int
  tq_Extended :: bool
  tq_Categories :: "int list"
  tq_APIKey :: string
  tq_TVDBId :: string
  tq_TVRageId :: string
  tq_IMDBId :: string
  tq_TVMazeId :: string
  tq_TraktId :: string

definition HasTVShows :: "tz_query \<Rightarrow> bool" where
  "HasTVShows q \<longleftrightarrow> list_ex (\<lambda>cat. 5000 \<le> cat \<and> cat < 6000) (tq_Categories q)"

definition HasMovies :: "tz_query \<Rightarrow> bool" where
  "HasMovies q \<longleftrightarrow> list_ex (\<lambda>cat. 2000 \<le> cat \<and> cat < 3000) (tq_Categories q)"

definition set_if :: "bool \<Rightarrow> string \<Rightarrow> string \<Rightarrow> url_values \<Rightarrow> url_values" where
  "set_if b k v vs = (if b then v_set vs k v else vs)"

definition ToValues :: "tz_query \<Rightarrow> url_values" where
  "ToValues q =
     (set_if (tq_IMDBId q \<noteq> []) ''imdbid'' (trim_prefix (tq_IMDBId q) ''tt'')
     (set_if (tq_TraktId q \<noteq> []) ''traktid'' (tq_TraktId q)
     (set_if (tq_TVMazeId q \<noteq> []) ''tvmazeid'' (tq_TVMazeId q)
     (set_if (tq_TVRageId q \<noteq> []) ''rid'' (tq_TVRageId q)
     (set_if (tq_TVDBId q \<noteq> []) ''tvdbid'' (tq_TVDBId q)
     (set_if (tq_Categories q \<noteq> []) ''cat'' (go_join '','' (map itoa (tq_Categories q)))
     (set_if (tq_APIKey q \<noteq> []) ''apikey'' (tq_APIKey q)
     (set_if (tq_Extended q) ''extended'' ''1''
     (set_if (tq_Limit q \<noteq> 0) ''limit'' (itoa (tq_Limit q))
     (set_if (tq_Offset q \<noteq> 0) ''offset'' (itoa (tq_Offset q))
     (set_if (tq_Series q \<noteq> []) ''series'' (tq_Series q)
     (set_if (tq_Year q \<noteq> 0) ''year'' (itoa (tq_Year q))
     (set_if (tq_Movie q \<noteq> []) ''movie'' (tq_Movie q)
     (set_if (tq_Season q \<noteq> []) ''season'' (tq_Season q)
     (set_if (tq_Ep q \<noteq> []) ''ep'' (tq_Ep q)
     (set_if (tq_Q q \<noteq> []) ''q'' (tq_Q q)
     (v_set [] ''t'' (if tq_Type q \<noteq> [] then tq_Type q else ''search''))))))))))))))))))"

definition Query_Encode :: "tz_query \<Rightarrow> string" where
  "Query_Encode q = encode_values (ToValues q)"

definition empty_query :: tz_query where
  "empty_query =
     \<lparr>tq_Type = [], tq_Q = [], tq_Series = [], tq_Movie = [], tq_Ep = [], tq_Season = [], tq_Year = 0, tq_Limit = 0, tq_Offset = 0,
      tq_Extended = False, tq_Categories = [], tq_APIKey = [], tq_TVDBId = [], tq_TVRageId = [], tq_IMDBId = [], tq_TVMazeId = [],
      tq_TraktId = []\<rparr>"

definition one_value :: "string \<Rightarrow> string list \<Rightarrow> string + string" where
  "one_value k vals = (if 1 < length vals then Inl (''Multiple '' @ k @ '' parameters not allowed'') else Inr (hd vals))"

definition one_number :: "string \<Rightarrow> string list \<Rightarrow> string + string \<times> int" where
  "one_number k vals =
     (case one_value k vals of
        Inl e \<Rightarrow> Inl e
      | Inr v \<Rightarrow> (case atoi v of None \<Rightarrow> Inl (''Invalid '' @ k) | Some n \<Rightarrow> Inr (v, n)))"

definition splitInts :: "string \<Rightarrow> string + int list" where
  "splitInts s = atoi_all (split_on CHR '','' s)"

fun split_all :: "string list \<Rightarrow> string + int list" where
  "split_all [] = Inr []"
| "split_all (v # vs) =
     (case splitInts v of Inl e \<Rightarrow> Inl e | Inr ns \<Rightarrow> (case split_all vs of Inl e \<Rightarrow> Inl e | Inr ms \<Rightarrow> Inr (ns @ ms)))"

definition parse_param :: "string \<times> string list \<Rightarrow> tz_query \<Rightarrow> string + tz_query" where
  "parse_param kv q =
     (case kv of (key, vals) \<Rightarrow>
        let k = to_lower key in
        if k = ''t'' then map_sum id (\<lambda>v. q\<lparr>tq_Type := v\<rparr>) (one_value k vals)
        else if k = ''q'' then Inr (q\<lparr>tq_Q := go_join '' '' vals\<rparr>)
        else if k = ''year'' then map_sum id (\<lambda>(_, n). q\<lparr>tq_Year := n\<rparr>) (one_number k vals)
        else if k = ''ep'' then map_sum id (\<lambda>(v, _). q\<lparr>tq_Ep := v\<rparr>) (one_number k vals)
        else if k = ''season'' then map_sum id (\<lambda>(v, _). q\<lparr>tq_Season := v\<rparr>) (one_number k vals)
        else if k = ''apikey'' then map_sum id (\<lambda>v. q\<lparr>tq_APIKey := v\<rparr>) (one_value k vals)
        else if k = ''limit'' then map_sum id (\<lambda>(_, n). q\<lparr>tq_Limit := n\<rparr>) (one_number k vals)
        else if k = ''offset'' then map_sum id (\<lambda>(_, n). q\<lparr>tq_Offset := n\<rparr>) (one_number k vals)
        else if k = ''cat'' then
          (case split_all vals of Inl _ \<Rightarrow> Inl (''Unable to parse cats '' @ hd vals) | Inr ns \<Rightarrow> Inr (q\<lparr>tq_Categories := ns\<rparr>))
        else if k = ''imdbid'' then
          map_sum id (\<lambda>v. q\<lparr>tq_IMDBId := (if has_prefix v ''tt'' then v else ''tt'' @ v)\<rparr>) (one_value k vals)
        else Inr q)"

fun ParseQuery_from :: "url_values \<Rightarrow> tz_query \<Rightarrow> string + tz_query" where
  "ParseQuery_from [] q = Inr q"
| "ParseQuery_from (kv # kvs) q = (case parse_param kv q of Inl e \<Rightarrow> Inl e | Inr q' \<Rightarrow> ParseQuery_from kvs q')"

definition ParseQuery :: "url_values \<Rightarrow> string + tz_query" where
  "ParseQuery kvs = ParseQuery_from kvs empty_query"

section \<open>The client's queries\<close>

record caps_item =
  cs_Available :: bool
  cs_SupportedParams :: "string list"

datatype tz_function = FnCaps | FnSearch | FnTV | FnMovie | FnMusic | FnBook

record tz_caps =
  cp_Limits :: "(int \<times> int) option"
  cp_Search :: caps_item
  cp_TVSearch :: caps_item
  cp_MovieSearch :: caps_item
  cp_MusicSearch :: caps_item
  cp_BookSearch :: caps_item

text \<open>
  The attribute \<open>supportedParams\<close> as \<open>encoding/xml\<close> reads it into a slice without an unmarshaler of its own: the
  whole text is one element.
\<close>

definition unmarshal_params :: "string \<Rightarrow> string list" where
  "unmarshal_params attr = [attr]"

definition unmarshal_available :: "string \<Rightarrow> bool" where
  "unmarshal_available attr \<longleftrightarrow> to_lower attr = ''yes''"

definition getSearchingItem :: "tz_caps \<Rightarrow> tz_function \<Rightarrow> caps_item option" where
  "getSearchingItem caps t =
     (case t of
        FnSearch \<Rightarrow> Some (cp_Search caps)
      | FnTV \<Rightarrow> Some (cp_TVSearch caps)
      | FnMovie \<Rightarrow> Some (cp_MovieSearch caps)
      | FnMusic \<Rightarrow> Some (cp_MusicSearch caps)
      | FnBook \<Rightarrow> Some (cp_BookSearch caps)
      | FnCaps \<Rightarrow> None)"

definition SupportsFunction :: "tz_caps \<Rightarrow> tz_function \<Rightarrow> bool" where
  "SupportsFunction caps t = (case getSearchingItem caps t of Some si \<Rightarrow> cs_Available si | None \<Rightarrow> False)"

definition SupportsParam :: "tz_caps \<Rightarrow> tz_function \<Rightarrow> string \<Rightarrow> bool" where
  "SupportsParam caps t param =
     (case getSearchingItem caps t of Some si \<Rightarrow> param \<in> set (cs_SupportedParams si) | None \<Rightarrow> False)"

definition function_text :: "tz_function \<Rightarrow> string" where
  "function_text t =
     (case t of FnCaps \<Rightarrow> ''caps'' | FnSearch \<Rightarrow> ''search'' | FnTV \<Rightarrow> ''tvsearch'' | FnMovie \<Rightarrow> ''movie'' | FnMusic \<Rightarrow> ''music''
      | FnBook \<Rightarrow> ''book'')"

record client_query =
  cq_caps :: tz_caps
  cq_t :: tz_function
  cq_values :: url_values

definition IsSupported :: "client_query \<Rightarrow> string \<Rightarrow> bool" where
  "IsSupported q param \<longleftrightarrow>
     (if param \<in> {''t'', ''apikey''} then False
      else if param \<in> {''cat'', ''attrs'', ''extended'', ''offset'', ''limit''} then True
      else SupportsParam (cq_caps q) (cq_t q) param)"

definition cq_Set :: "string \<Rightarrow> string \<Rightarrow> client_query \<Rightarrow> client_query" where
  "cq_Set param v q = q\<lparr>cq_values := v_set (cq_values q) param v\<rparr>"

definition SetT :: "tz_function \<Rightarrow> client_query \<Rightarrow> client_query" where
  "SetT t0 q = (let t = (if SupportsFunction (cq_caps q) t0 then t0 else FnSearch) in cq_Set ''t'' (function_text t) (q\<lparr>cq_t := t\<rparr>))"

definition GetCat :: "client_query \<Rightarrow> int list" where
  "GetCat q = (let v = v_get (cq_values q) ''cat'' in if v = [] then [] else somes (map atoi (split_on CHR '','' v)))"

text \<open>The texts that \<open>SetCat\<close> and \<open>SetAttrs\<close> append: a comma goes before every one but the first two.\<close>

fun join_parts :: "nat \<Rightarrow> string list \<Rightarrow> string" where
  "join_parts i [] = []"
| "join_parts i (p # ps) = (if 1 < i then '','' else []) @ p @ join_parts (Suc i) ps"

definition set_list :: "string \<Rightarrow> string list \<Rightarrow> client_query \<Rightarrow> client_query" where
  "set_list param ps q =
     (let v = v_get (cq_values q) param in cq_Set param ((if v \<noteq> [] then v @ '','' else []) @ join_parts 0 ps) q)"

definition SetCat :: "int list \<Rightarrow> client_query \<Rightarrow> client_query" where
  "SetCat cat q = set_list ''cat'' (map itoa cat) q"

definition GetAttrs :: "client_query \<Rightarrow> string list" where
  "GetAttrs q = (let v = v_get (cq_values q) ''attrs'' in if v = [] then [] else split_on CHR '','' v)"

definition SetAttrs :: "string list \<Rightarrow> client_query \<Rightarrow> client_query" where
  "SetAttrs attrs q = set_list ''attrs'' attrs q"

definition GetExtended :: "client_query \<Rightarrow> bool" where
  "GetExtended q \<longleftrightarrow> v_get (cq_values q) ''extended'' = ''1''"

definition SetExtended :: "bool \<Rightarrow> client_query \<Rightarrow> client_query" where
  "SetExtended b q =
     (if b then cq_Set ''extended'' ''1'' q else q\<lparr>cq_values := filter (\<lambda>(k, _). k \<noteq> ''extended'') (cq_values q)\<rparr>)"

definition GetOffset :: "client_query \<Rightarrow> int" where
  "GetOffset q = SafeParseInt (v_get (cq_values q) ''offset'') 0"

definition SetOffset :: "int \<Rightarrow> client_query \<Rightarrow> client_query" where
  "SetOffset n q = cq_Set ''offset'' (itoa n) q"

definition GetLimit :: "client_query \<Rightarrow> int" where
  "GetLimit q = SafeParseInt (v_get (cq_values q) ''limit'') 0"

text \<open>\<open>None\<close> is the nil dereference for capabilities without limits.\<close>

definition SetLimit :: "int \<Rightarrow> client_query \<Rightarrow> client_query option" where
  "SetLimit n q =
     (if 0 < n then Some (cq_Set ''limit'' (itoa n) q)
      else map_option (\<lambda>(m, _). cq_Set ''limit'' (itoa m) q) (cp_Limits (cq_caps q)))"

definition NewSearchQuery :: "string + tz_caps \<Rightarrow> (tz_caps \<Rightarrow> tz_function) \<Rightarrow> string + client_query" where
  "NewSearchQuery caps fn =
     (case caps of Inl e \<Rightarrow> Inl e | Inr c \<Rightarrow> Inr (SetT (fn c) \<lparr>cq_caps = c, cq_t = FnSearch, cq_values = []\<rparr>))"

section \<open>Results of an indexer\<close>

record torz =
  tz_Indexer :: string
  tz_Hash :: string
  tz_Title :: string
  tz_Size :: int
  tz_Seeders :: int
  tz_Leechers :: int
  tz_Private :: bool
  tz_Files :: "ts_file list"
  tz_MagnetLink :: string
  tz_SourceLink :: string

record channel_item =
  ch_IndexerId :: string
  ch_Title :: string
  ch_Type :: string
  ch_Size :: int
  ch_Grabs :: int
  ch_EnclosureURL :: string
  ch_EnclosureLength :: int
  ch_Attrs :: "(string \<times> string) list"

definition Attrs_Get :: "(string \<times> string) list \<Rightarrow> string \<Rightarrow> string" where
  "Attrs_Get attrs name = (case map_of attrs name of Some v \<Rightarrow> v | None \<Rightarrow> [])"

definition Attrs_GetAll :: "(string \<times> string) list \<Rightarrow> string \<Rightarrow> string list" where
  "Attrs_GetAll attrs name = map snd (filter (\<lambda>(n, _). n = name) attrs)"

definition ToTorz :: "(string \<Rightarrow> bool) \<Rightarrow> channel_item \<Rightarrow> torz" where
  "ToTorz hier_ok item =
     (let seeders = SafeParseInt (Attrs_Get (ch_Attrs item) ''seeders'') 0;
          peers = SafeParseInt (Attrs_Get (ch_Attrs item) ''peers'') 0;
          hash = to_lower (Attrs_Get (ch_Attrs item) ''infohash'');
          magnet = has_prefix (ch_EnclosureURL item) ''magnet:?''
      in \<lparr>tz_Indexer = ch_IndexerId item,
          tz_Hash = (if magnet \<and> hash = [] then (case ParseMagnetLink hier_ok (ch_EnclosureURL item) of Inr m \<Rightarrow> mg_Hash m | Inl _ \<Rightarrow> hash) else hash),
          tz_Title = ch_Title item, tz_Size = ch_Size item, tz_Seeders = seeders, tz_Leechers = (if seeders < peers then peers - seeders else 0),
          tz_Private = (ch_Type item \<in> {''private'', ''semi-private''}), tz_Files = [],
          tz_MagnetLink = (if magnet then ch_EnclosureURL item else []),
          tz_SourceLink = (if \<not> magnet \<and> has_prefix (ch_EnclosureURL item) ''http'' then ch_EnclosureURL item else [])\<rparr>)"

definition client_Search :: "(string \<Rightarrow> bool) \<Rightarrow> channel_item list \<Rightarrow> torz list" where
  "client_Search hier_ok items =
     map (ToTorz hier_ok) (filter (\<lambda>item. \<not> (ch_Size item = 0 \<and> ch_Grabs item = 0 \<and> ch_EnclosureLength item = 0)) items)"

definition HasMissingData :: "torz \<Rightarrow> bool" where
  "HasMissingData t \<longleftrightarrow> tz_Hash t = [] \<or> tz_MagnetLink t = []"

record torz_file =
  zf_Hash :: string
  zf_MagnetLink :: string
  zf_Private :: bool
  zf_Files :: "ts_file list"

text \<open>
  The answer to the source link: its status, its \<open>Location\<close>, and what the body is as a torrent file: an error before
  the info hash is known, or the v1 info hash with the magnet link and the info dictionary (its files and whether it is
  marked private), which may still fail to decode.
\<close>

record source_answer =
  sa_StatusCode :: int
  sa_Location :: string
  sa_Body :: "string + (string option \<times> string \<times> (string + bool \<times> ts_file list))"

type_synonym torz_cache = "(string \<times> torz_file) list"

definition use_cached :: "torz_file \<Rightarrow> torz \<Rightarrow> torz" where
  "use_cached c t =
     t\<lparr>tz_Hash := zf_Hash c, tz_MagnetLink := zf_MagnetLink c, tz_Private := (zf_Private c \<or> tz_Private t), tz_Files := zf_Files c\<rparr>"

definition magnet_redirect :: "source_answer \<Rightarrow> bool" where
  "magnet_redirect r \<longleftrightarrow> 301 \<le> sa_StatusCode r \<and> sa_StatusCode r \<le> 303 \<and> has_prefix (sa_Location r) ''magnet:?''"

definition from_redirect :: "(string \<Rightarrow> bool) \<Rightarrow> source_answer \<Rightarrow> torz \<Rightarrow> torz_cache \<Rightarrow> string option \<times> torz \<times> torz_cache" where
  "from_redirect hier_ok r t cache =
     (case ParseMagnetLink hier_ok (sa_Location r) of
        Inl e \<Rightarrow> (Some e, t, cache)
      | Inr m \<Rightarrow>
          (None, t\<lparr>tz_Hash := mg_Hash m, tz_MagnetLink := mg_RawLink m\<rparr>,
           AList.update (tz_SourceLink t) \<lparr>zf_Hash = mg_Hash m, zf_MagnetLink = mg_RawLink m, zf_Private = False, zf_Files = []\<rparr> cache))"

definition from_torrent :: "source_answer \<Rightarrow> torz \<Rightarrow> torz_cache \<Rightarrow> string option \<times> torz \<times> torz_cache" where
  "from_torrent r t cache =
     (case sa_Body r of
        Inl e \<Rightarrow> (Some e, t, cache)
      | Inr (None, _, _) \<Rightarrow> (Some ''unsupported torrent file: only v1 torrents are supported'', t, cache)
      | Inr (Some h, link, info) \<Rightarrow>
          (let t1 = t\<lparr>tz_Hash := to_lower h, tz_MagnetLink := link\<rparr>
           in case info of
                Inl e \<Rightarrow> (Some e, t1, cache)
              | Inr (priv, files) \<Rightarrow>
                  (let t2 = t1\<lparr>tz_Files := files, tz_Private := (priv \<or> tz_Private t)\<rparr>
                   in (None, t2,
                       AList.update (tz_SourceLink t)
                         \<lparr>zf_Hash = tz_Hash t2, zf_MagnetLink = link, zf_Private = tz_Private t2, zf_Files = files\<rparr> cache))))"

definition EnsureMagnet ::
    "(string \<Rightarrow> bool) \<Rightarrow> (string \<Rightarrow> string + source_answer) \<Rightarrow> torz_cache \<Rightarrow> torz \<Rightarrow> string option \<times> torz \<times> torz_cache" where
  "EnsureMagnet hier_ok get cache t =
     (if \<not> HasMissingData t then (None, t, cache)
      else if tz_SourceLink t = [] then (Some ''no source link to generate magnet'', t, cache)
      else case map_of cache (tz_SourceLink t) of
        Some c \<Rightarrow> (None, use_cached c t, cache)
      | None \<Rightarrow>
          (case get (tz_SourceLink t) of
             Inl e \<Rightarrow> (Some e, t, cache)
           | Inr r \<Rightarrow> if magnet_redirect r then from_redirect hier_ok r t cache else from_torrent r t cache))"

section \<open>The address of a Jackett indexer\<close>

text \<open>The address as it was typed, and what was found in it: the base URL and the id of the indexer.\<close>

definition api_path :: string where
  "api_path = ''/api/v2.0/indexers/''"

definition http_len :: "string \<Rightarrow> nat" where
  "http_len s = (if has_prefix s ''https://'' then 8 else if has_prefix s ''http://'' then 7 else 0)"

text \<open>The pattern with a base of \<open>i\<close> characters.\<close>

definition match_at :: "string \<Rightarrow> nat \<Rightarrow> (string \<times> string) option" where
  "match_at s i =
     (let base = take i s; rest = drop i s; after = http_len (to_lower base);
          tail = drop (length api_path) rest; indexer = takeWhile (\<lambda>c. c \<noteq> CHR ''/'') tail;
          ending = to_lower (drop (length indexer) tail)
      in if after \<noteq> 0 \<and> after < length base \<and> CHR 0x0A \<notin> set (drop after base) \<and> has_prefix (to_lower rest) api_path
            \<and> indexer \<noteq> [] \<and> ending \<in> {''/results/torznab'', ''/results/torznab/''}
         then Some (base, indexer) else None)"

definition FromDecoded :: "string \<Rightarrow> string + string \<times> string" where
  "FromDecoded s =
     (case somes (map (match_at s) [0..<Suc (length s)]) of [] \<Rightarrow> Inl ''invalid torznab url'' | m # _ \<Rightarrow> Inr m)"

definition FromEncoded :: "string \<Rightarrow> string + string \<times> string" where
  "FromEncoded s =
     (case index_of s '':::'' of
        Some i \<Rightarrow> Inr (drop (i + 3) s, take i s)
      | None \<Rightarrow>
          (case index_of s ''::'' of
             None \<Rightarrow> Inl ''invalid encoded torznab url''
           | Some i \<Rightarrow>
               (case cut (take i s) CHR '':'' of
                  (scheme, host, True) \<Rightarrow> Inr (scheme @ ''://'' @ host, drop (i + 2) s)
                | (_, _, False) \<Rightarrow> Inl ''invalid encoded torznab url'')))"

definition is_http :: "string \<Rightarrow> bool" where
  "is_http s \<longleftrightarrow> has_prefix s ''http://'' \<or> has_prefix s ''https://''"

definition TorznabURL_Parse :: "string \<Rightarrow> string + string \<times> string" where
  "TorznabURL_Parse raw = (if is_http raw then FromDecoded raw else FromEncoded raw)"

text \<open>\<open>url_parse\<close> gives the scheme and the host of a URL.\<close>

definition TorznabURL_Encode :: "(string \<Rightarrow> (string \<times> string) option) \<Rightarrow> string \<Rightarrow> string" where
  "TorznabURL_Encode url_parse raw =
     (case TorznabURL_Parse raw of
        Inl _ \<Rightarrow> []
      | Inr (base, indexer) \<Rightarrow> (case url_parse base of None \<Rightarrow> [] | Some (scheme, host) \<Rightarrow> scheme @ '':'' @ host @ ''::'' @ indexer))"

definition TorznabURL_Decode :: "string \<Rightarrow> string" where
  "TorznabURL_Decode raw =
     (if is_http raw then raw
      else case TorznabURL_Parse raw of
        Inl _ \<Rightarrow> []
      | Inr (base, indexer) \<Rightarrow> trim_right (\<lambda>c. c = CHR ''/'') base @ api_path @ indexer @ ''/results/torznab'')"

section \<open>The server's own indexer\<close>

record last_mapped =
  lm_imdbId :: string
  lm_staleAt :: int

record result_item =
  ri_Category :: category
  ri_GUID :: string
  ri_Link :: string
  ri_PublishDate :: int
  ri_Title :: string
  ri_Audio :: string
  ri_Codec :: string
  ri_IMDB :: string
  ri_InfoHash :: string
  ri_Language :: string
  ri_Leechers :: int
  ri_Resolution :: string
  ri_Seeders :: int
  ri_Site :: string
  ri_Size :: int
  ri_Year :: int

text \<open>
  The IMDb ids that a query is about. \<open>last\<close> is the query for the id that was mapped last, \<open>search_ids\<close> the search for
  titles (text, type and year); times are in nanoseconds.
\<close>

definition search_type :: "tz_query \<Rightarrow> string" where
  "search_type q =
     (if HasMovies q \<and> \<not> HasTVShows q then ''movie'' else if \<not> HasMovies q \<and> HasTVShows q then ''show'' else [])"

definition query_ids ::
    "string + string \<Rightarrow> (string \<Rightarrow> string \<Rightarrow> int \<Rightarrow> string + string list) \<Rightarrow> int \<Rightarrow> tz_query \<Rightarrow> last_mapped
      \<Rightarrow> (string + string list) \<times> last_mapped" where
  "query_ids last_id search_ids now q c =
     (if tq_IMDBId q \<noteq> [] then (Inr [tq_IMDBId q], c)
      else if tq_Q q \<noteq> [] then (search_ids (tq_Q q) (search_type q) (tq_Year q), c)
      else
        let answer = (\<lambda>c. (Inr (if lm_imdbId c = [] then [] else [lm_imdbId c]), c))
        in if lm_staleAt c < now then
             (case last_id of
                Inl e \<Rightarrow> (Inl e, c)
              | Inr i \<Rightarrow> answer \<lparr>lm_imdbId = i, lm_staleAt = now + 30 * 60 * 10 ^ 9\<rparr>)
           else answer c)"

definition has_number :: "DBDialect \<Rightarrow> string \<Rightarrow> string \<Rightarrow> bool" where
  "has_number d n column \<longleftrightarrow> column = n \<or> sql_like d (''%,'' @ n @ '',%'') (commas column)"

definition search_cond :: "DBDialect \<Rightarrow> tz_query \<Rightarrow> TorrentInfo \<Rightarrow> bool" where
  "search_cond d q r \<longleftrightarrow>
     (let seasons = number_column (ls_Seasons (tor_lists r)); episodes = number_column (ls_Episodes (tor_lists r))
      in (tq_Season q \<noteq> [] \<longrightarrow> has_number d (tq_Season q) seasons)
         \<and> (tq_Ep q \<noteq> [] \<longrightarrow> (tq_Season q \<noteq> [] \<and> episodes = []) \<or> has_number d (tq_Ep q) episodes)
         \<and> \<not> tor_Private r \<and> tor_Size r \<noteq> - 1)"

definition info_category :: "string \<Rightarrow> category" where
  "info_category c =
     (if c = ''movie'' then (2000, ''Movies'') else if c = ''series'' then (5000, ''TV'') else if c = ''xxx'' then (6000, ''XXX'')
      else (0, ''Other''))"

definition result_of :: "string \<Rightarrow> TorrentInfo \<Rightarrow> result_item" where
  "result_of imdbId r =
     \<lparr>ri_Category = info_category (tor_Category r), ri_GUID = [], ri_Link = [], ri_PublishDate = tor_CreatedAt r,
      ri_Title = tor_TorrentTitle r,
      ri_Audio = go_join '', '' (ls_Audio (tor_lists r))
        @ (if ls_Channels (tor_lists r) \<noteq> [] then '' | '' @ go_join '', '' (ls_Channels (tor_lists r)) else []),
      ri_Codec = tx_Codec (tor_texts r), ri_IMDB = imdbId, ri_InfoHash = tor_Hash r,
      ri_Language = go_join '', '' (ls_Languages (tor_lists r)), ri_Leechers = tor_Leechers r,
      ri_Resolution = tx_Resolution (tor_texts r), ri_Seeders = tor_Seeders r, ri_Site = tx_Site (tor_texts r),
      ri_Size = tor_Size r, ri_Year = tor_Year r\<rparr>"

text \<open>The join of the two tables; the code asks for no order.\<close>

definition search_rows :: "DBDialect \<Rightarrow> tz_query \<Rightarrow> string list \<Rightarrow> torrent_tables \<Rightarrow> result_item list" where
  "search_rows d q ids db =
     concat (map (\<lambda>(h, tid). map (result_of tid) (filter (\<lambda>r. tor_Hash r = h \<and> search_cond d q r) (tt_infos db)))
       (filter (\<lambda>(h, tid). tid \<in> set ids) (tt_imdb db)))"

definition page_of :: "tz_query \<Rightarrow> 'a list \<Rightarrow> 'a list" where
  "page_of q xs =
     (let ys = (if 0 < tq_Offset q then drop (nat (tq_Offset q)) xs else xs)
      in if 0 < tq_Limit q then take (nat (tq_Limit q)) ys else ys)"

text \<open>
  The search of the indexer. Before its query the code pulls the torrents of the ids from Buddy and waits for all pulls; \<open>db\<close>
  are the tables as they are after them.
\<close>

definition indexer_Search ::
    "DBDialect \<Rightarrow> string + string \<Rightarrow> (string \<Rightarrow> string \<Rightarrow> int \<Rightarrow> string + string list) \<Rightarrow> int \<Rightarrow> torrent_tables \<Rightarrow> tz_query
      \<Rightarrow> last_mapped \<Rightarrow> (string + result_item list) \<times> last_mapped" where
  "indexer_Search d last_id search_ids now db q c =
     (case query_ids last_id search_ids now q c of
        (Inl e, c') \<Rightarrow> (Inl e, c')
      | (Inr ids, c') \<Rightarrow> (Inr (if ids = [] then [] else page_of q (search_rows d q ids db)), c'))"

text \<open>The attributes, the GUID and the link of an item in the feed.\<close>

definition opt_attr :: "bool \<Rightarrow> string \<Rightarrow> string \<Rightarrow> (string \<times> string) list" where
  "opt_attr b name v = (if b then [(name, v)] else [])"

definition item_attrs :: "(string \<Rightarrow> bool) \<Rightarrow> result_item \<Rightarrow> (string \<times> string) list \<times> string \<times> string" where
  "item_attrs hier_ok ri =
     (let magnet = (if ri_InfoHash ri = [] then None
                    else case ParseMagnetLink hier_ok (ri_InfoHash ri) of Inl _ \<Rightarrow> None | Inr m \<Rightarrow> Some m)
      in (opt_attr (ri_Audio ri \<noteq> []) ''audio'' (ri_Audio ri)
          @ [(''category'', itoa (fst (ri_Category ri)))]
          @ opt_attr (ri_IMDB ri \<noteq> []) ''imdb'' (trim_prefix (ri_IMDB ri) ''tt'')
          @ (case magnet of None \<Rightarrow> [] | Some m \<Rightarrow> [(''infohash'', mg_Hash m), (''magneturl'', mg_Link m)])
          @ opt_attr (ri_Language ri \<noteq> []) ''language'' (ri_Language ri)
          @ opt_attr (0 < ri_Leechers ri) ''leechers'' (itoa (ri_Leechers ri))
          @ opt_attr (ri_Resolution ri \<noteq> []) ''resolution'' (ri_Resolution ri)
          @ opt_attr (0 < ri_Seeders ri) ''seeders'' (itoa (ri_Seeders ri))
          @ opt_attr (ri_Site ri \<noteq> []) ''site'' (ri_Site ri)
          @ opt_attr (0 < ri_Size ri) ''size'' (itoa (ri_Size ri))
          @ opt_attr (ri_Codec ri \<noteq> []) ''video'' (ri_Codec ri)
          @ opt_attr (ri_Year ri \<noteq> 0) ''year'' (itoa (ri_Year ri)),
          (case magnet of Some m \<Rightarrow> if ri_GUID ri = [] then mg_Hash m else ri_GUID ri | None \<Rightarrow> ri_GUID ri),
          (case magnet of Some m \<Rightarrow> if ri_Link ri = [] then mg_Link m else ri_Link ri | None \<Rightarrow> ri_Link ri)))"

section \<open>The endpoint\<close>

datatype torznab_answer = TzRedirect string | TzCaps | TzIncorrect string | TzUnknown string | TzFeed "result_item list"

definition handleTorznab ::
    "(tz_query \<Rightarrow> last_mapped \<Rightarrow> (string + result_item list) \<times> last_mapped) \<Rightarrow> string \<Rightarrow> url_values \<Rightarrow> last_mapped
      \<Rightarrow> torznab_answer \<times> last_mapped" where
  "handleTorznab search path kvs c =
     (let t = v_get kvs ''t''
      in if t = [] then (TzRedirect (path @ ''?t=caps''), c)
         else if t = ''caps'' then (TzCaps, c)
         else if t \<in> {''search'', ''tvsearch'', ''movie''} then
           (case ParseQuery kvs of
              Inl e \<Rightarrow> (TzIncorrect e, c)
            | Inr q \<Rightarrow> (case search q c of (Inl e, c') \<Rightarrow> (TzUnknown e, c') | (Inr items, c') \<Rightarrow> (TzFeed items, c')))
         else (TzIncorrect t, c))"

section \<open>Indexers in the database\<close>

record torznab_indexer =
  xi_Type :: string
  xi_Id :: string
  xi_Name :: string
  xi_URL :: string
  xi_APIKey :: string
  xi_CAt :: int
  xi_UAt :: int

definition ParseCompositeId :: "string \<Rightarrow> string + string \<times> string" where
  "ParseCompositeId compositeId =
     (case cut compositeId CHR '':'' of
        (_, _, False) \<Rightarrow> Inl ''invalid composite id format: expected {type}:{id}''
      | (ty, i, True) \<Rightarrow> if ty = ''jackett'' then Inr (ty, i) else Inl (''invalid indexer type: '' @ ty))"

text \<open>\<open>encrypt\<close> and \<open>decrypt\<close> are the vault's; \<open>get_caps\<close> asks the indexer and \<open>index_name\<close> names it.\<close>

definition NewTorznabIndexer ::
    "(string \<Rightarrow> string + string) \<Rightarrow> (string \<Rightarrow> (string \<times> string) option) \<Rightarrow> string \<Rightarrow> string \<Rightarrow> string \<Rightarrow> string + torznab_indexer" where
  "NewTorznabIndexer encrypt url_parse ty url apiKey =
     (if ty = ''jackett'' then
        (case TorznabURL_Parse url of
           Inl e \<Rightarrow> Inl (''invalid torznab url: '' @ e)
         | Inr _ \<Rightarrow>
             (case encrypt apiKey of
                Inl e \<Rightarrow> Inl e
              | Inr k \<Rightarrow>
                  Inr \<lparr>xi_Type = ty, xi_Id = TorznabURL_Encode url_parse url, xi_Name = [], xi_URL = url, xi_APIKey = k,
                       xi_CAt = 0, xi_UAt = 0\<rparr>))
      else Inl (''unsupported indexer type: '' @ ty))"

definition GetAPIKey :: "(string \<Rightarrow> string + string) \<Rightarrow> torznab_indexer \<Rightarrow> string + string" where
  "GetAPIKey decrypt i = (if xi_APIKey i = [] then Inr [] else decrypt (xi_APIKey i))"

definition indexer_Validate ::
    "(string \<Rightarrow> string + string) \<Rightarrow> (string \<Rightarrow> string \<Rightarrow> string \<Rightarrow> string option) \<Rightarrow> (string \<Rightarrow> string) \<Rightarrow> torznab_indexer
      \<Rightarrow> string + torznab_indexer" where
  "indexer_Validate decrypt get_caps index_name i =
     (if xi_Type i = ''jackett'' then
        (case TorznabURL_Parse (xi_URL i) of
           Inl e \<Rightarrow> Inl (''invalid torznab url: '' @ e)
         | Inr (base, indexerId) \<Rightarrow>
             (case GetAPIKey decrypt i of
                Inl e \<Rightarrow> Inl (''failed to decrypt api key: '' @ e)
              | Inr k \<Rightarrow>
                  (case get_caps base k indexerId of
                     Some e \<Rightarrow> Inl (''failed to fetch capabilities: '' @ e)
                   | None \<Rightarrow> Inr (if xi_Name i = [] then i\<lparr>xi_Name := index_name indexerId\<rparr> else i))))
      else Inl (''unsupported indexer type: '' @ xi_Type i))"

definition indexer_key :: "torznab_indexer \<Rightarrow> string \<times> string" where
  "indexer_key i = (xi_Type i, xi_Id i)"

definition indexer_GetById :: "string \<Rightarrow> string \<Rightarrow> torznab_indexer list \<Rightarrow> torznab_indexer option" where
  "indexer_GetById ty i t = find (\<lambda>r. indexer_key r = (ty, i)) t"

definition indexer_Upsert :: "int \<Rightarrow> torznab_indexer \<Rightarrow> torznab_indexer list \<Rightarrow> torznab_indexer list" where
  "indexer_Upsert now i t =
     (if list_ex (\<lambda>r. indexer_key r = indexer_key i) t then
        map (\<lambda>r. if indexer_key r = indexer_key i
                 then r\<lparr>xi_Name := xi_Name i, xi_URL := xi_URL i, xi_APIKey := xi_APIKey i, xi_UAt := now\<rparr> else r) t
      else t @ [i\<lparr>xi_CAt := now, xi_UAt := now\<rparr>])"

definition indexer_DeleteByCompositeId :: "string \<Rightarrow> torznab_indexer list \<Rightarrow> string + torznab_indexer list" where
  "indexer_DeleteByCompositeId compositeId t =
     (case ParseCompositeId compositeId of Inl e \<Rightarrow> Inl e | Inr k \<Rightarrow> Inr (filter (\<lambda>r. indexer_key r \<noteq> k) t))"


section \<open>Queries there and back\<close>

text \<open>What the server reads of a query: the type is filled in, and what it has no case for is lost.\<close>

definition query_read :: "tz_query \<Rightarrow> tz_query" where
  "query_read q =
     q\<lparr>tq_Type := (if tq_Type q = [] then ''search'' else tq_Type q), tq_Series := [], tq_Movie := [], tq_Extended := False,
       tq_TVDBId := [], tq_TVRageId := [], tq_TVMazeId := [], tq_TraktId := []\<rparr>"

definition num_text :: "string \<Rightarrow> bool" where
  "num_text s \<longleftrightarrow> s = [] \<or> atoi s \<noteq> None"

definition valid_query :: "tz_query \<Rightarrow> bool" where
  "valid_query q \<longleftrightarrow>
     num_text (tq_Ep q) \<and> num_text (tq_Season q) \<and> int64 (tq_Year q) \<and> int64 (tq_Limit q) \<and> int64 (tq_Offset q)
     \<and> list_all int64 (tq_Categories q) \<and> (tq_IMDBId q = [] \<or> has_prefix (tq_IMDBId q) ''tt'' \<and> \<not> has_prefix (tq_IMDBId q) ''tttt'')"

text \<open>Reading by looking the keys up, which does not depend on the order of the entries.\<close>

definition field :: "(string \<Rightarrow> string list option) \<Rightarrow> string \<Rightarrow> (string \<Rightarrow> 'a) \<Rightarrow> 'a \<Rightarrow> 'a" where
  "field m k f x = (case m k of Some (v # _) \<Rightarrow> f v | _ \<Rightarrow> x)"

definition int_of :: "string \<Rightarrow> int" where
  "int_of v = (case atoi v of Some n \<Rightarrow> n | None \<Rightarrow> 0)"

definition ints_of :: "string \<Rightarrow> int list" where
  "ints_of v = (case splitInts v of Inr ns \<Rightarrow> ns | Inl _ \<Rightarrow> [])"

definition read_fields :: "(string \<Rightarrow> string list option) \<Rightarrow> tz_query \<Rightarrow> tz_query" where
  "read_fields m q =
     q\<lparr>tq_Type := field m ''t'' id (tq_Type q), tq_Q := field m ''q'' id (tq_Q q), tq_Year := field m ''year'' int_of (tq_Year q),
       tq_Ep := field m ''ep'' id (tq_Ep q), tq_Season := field m ''season'' id (tq_Season q),
       tq_APIKey := field m ''apikey'' id (tq_APIKey q), tq_Limit := field m ''limit'' int_of (tq_Limit q),
       tq_Offset := field m ''offset'' int_of (tq_Offset q), tq_Categories := field m ''cat'' ints_of (tq_Categories q),
       tq_IMDBId := field m ''imdbid'' (\<lambda>v. if has_prefix v ''tt'' then v else ''tt'' @ v) (tq_IMDBId q)\<rparr>"

definition good_param :: "string \<times> string list \<Rightarrow> bool" where
  "good_param kv \<longleftrightarrow>
     to_lower (fst kv) = fst kv \<and> length (snd kv) = 1
     \<and> (fst kv \<in> {''year'', ''ep'', ''season'', ''limit'', ''offset''} \<longrightarrow> atoi (hd (snd kv)) \<noteq> None)
     \<and> (fst kv = ''cat'' \<longrightarrow> (\<exists>ns. splitInts (hd (snd kv)) = Inr ns))"

lemma field_upd: "field (m(k \<mapsto> [v])) l f x = (if l = k then f v else field m l f x)"
  by (simp add: field_def)

lemma field_other: "k \<noteq> l \<Longrightarrow> field (m(k \<mapsto> [v])) l f x = field m l f x"
  by (simp add: field_def)

lemma field_None: "m k = None \<Longrightarrow> field m k f x = x"
  by (simp add: field_def)

lemma parse_good_param:
  assumes "good_param (k, [v])" and "m k = None"
  shows "\<exists>q1. parse_param (k, [v]) q = Inr q1 \<and> read_fields m q1 = read_fields (m(k \<mapsto> [v])) q"
proof -
  note simps = parse_param_def Let_def one_value_def one_number_def read_fields_def field_upd field_None int_of_def ints_of_def
    good_param_def
  consider "k = ''t''" | "k = ''q''" | "k = ''year''" | "k = ''ep''" | "k = ''season''" | "k = ''apikey''" | "k = ''limit''" | "k = ''offset''"
    | "k = ''cat''" | "k = ''imdbid''"
    | "k \<notin> {''t'', ''q'', ''year'', ''ep'', ''season'', ''apikey'', ''limit'', ''offset'', ''cat'', ''imdbid''}"
    by (unfold insert_iff empty_iff) satx
  then show ?thesis
  proof cases
    case 1 then show ?thesis using assms by (simp add: simps)
  next
    case 2 then show ?thesis using assms by (simp add: simps)
  next
    case 3 then show ?thesis using assms by (auto simp: simps)
  next
    case 4 then show ?thesis using assms by (auto simp: simps)
  next
    case 5 then show ?thesis using assms by (auto simp: simps)
  next
    case 6 then show ?thesis using assms by (simp add: simps)
  next
    case 7 then show ?thesis using assms by (auto simp: simps)
  next
    case 8 then show ?thesis using assms by (auto simp: simps)
  next
    case 9 then show ?thesis using assms by (auto simp: simps)
  next
    case 10 then show ?thesis using assms by (simp add: simps)
  next
    case 11
    then have "parse_param (k, [v]) q = Inr q" using assms(1) by (simp add: parse_param_def Let_def good_param_def)
    moreover have "read_fields m q = read_fields (m(k \<mapsto> [v])) q" 
      using 11 by (unfold insert_iff empty_iff de_Morgan_disj) (simp only: read_fields_def field_other not_False_eq_True simp_thms)
    ultimately show ?thesis by blast
  qed
qed

lemma ParseQuery_from_fields:
  assumes "distinct (map fst kvs)" and "\<forall>kv \<in> set kvs. good_param kv"
  shows "ParseQuery_from kvs q = Inr (read_fields (map_of kvs) q)"
  using assms
proof (induction kvs arbitrary: q)
  case Nil
  then show ?case by (simp add: read_fields_def field_def)
next
  case (Cons kv kvs)
  obtain k v where kv: "kv = (k, [v])"
    using Cons.prems(2) by (cases kv; cases "snd kv") (auto simp: good_param_def)
  have "good_param (k, [v])" and new: "map_of kvs k = None" using Cons.prems kv by (auto simp: map_of_eq_None_iff)
  then obtain q1 where "parse_param kv q = Inr q1" "read_fields (map_of kvs) q1 = read_fields ((map_of kvs)(k \<mapsto> [v])) q"
    using parse_good_param kv by blast
  then show ?case using Cons by (simp add: kv fun_upd_def)
qed


definition good_values :: "url_values \<Rightarrow> bool" where
  "good_values vs \<longleftrightarrow> distinct (map fst vs) \<and> (\<forall>kv \<in> set vs. good_param kv)"

lemma set_v_set: "set (v_set vs k v) \<subseteq> insert (k, [v]) (set vs)"
  by (induction vs k v rule: v_set.induct) auto

lemma good_set_if: "good_values vs \<Longrightarrow> (b \<Longrightarrow> good_param (k, [v])) \<Longrightarrow> good_values (set_if b k v vs)"
  using set_v_set [of vs k v] distinct_v_set [of vs k v] by (auto simp: good_values_def set_if_def)

lemma splitInts_join: "list_all int64 ns \<Longrightarrow> ns \<noteq> [] \<Longrightarrow> splitInts (go_join '','' (map itoa ns)) = Inr ns"
  using split_on_join [of "map itoa ns" "CHR '',''"] atoi_all_itoa [of ns] by (auto simp: splitInts_def itoa_no_comma list_all_iff int64_def)

lemma field_set_if: "field (map_of (set_if b k v vs)) l f x = (if b \<and> l = k then f v else field (map_of vs) l f x)"
  by (simp add: set_if_def map_of_v_set field_upd)

lemma good_ToValues: "valid_query q \<Longrightarrow> good_values (ToValues q)"
  unfolding ToValues_def
  by (intro good_set_if)
    (auto simp: good_values_def good_param_def valid_query_def num_text_def to_lower_def to_lower_char_def splitInts_join atoi_itoa int64_def)

lemma int_of_itoa [simp]: "int64 n \<Longrightarrow> int_of (itoa n) = n"
  by (simp add: int_of_def atoi_itoa int64_def)

lemma ints_of_join [simp]: "list_all int64 ns \<Longrightarrow> ns \<noteq> [] \<Longrightarrow> ints_of (go_join '','' (map itoa ns)) = ns"
  by (simp add: ints_of_def splitInts_join)

lemma imdb_wire:
  assumes "has_prefix i ''tt''" and "\<not> has_prefix i ''tttt''"
  shows "\<not> has_prefix (trim_prefix i ''tt'') ''tt''" and "CHR ''t'' # CHR ''t'' # trim_prefix i ''tt'' = i"
  using assms by (auto simp: has_prefix_iff trim_prefix_def)

lemma read_ToValues: "valid_query q \<Longrightarrow> read_fields (map_of (ToValues q)) empty_query = query_read q"
  unfolding read_fields_def ToValues_def field_set_if
  by (rule tz_query.equality) (auto simp: query_read_def empty_query_def valid_query_def field_upd field_None imdb_wire)

text \<open>
  C18: (roundtrip) A query whose numbers are 64 bit numbers and whose IMDb id is one, written into a URL and read back by
  the server in whatever order it visits the parameters, is the query itself, save that the type is filled in and the
  fields for which the server has no case (\<open>Series\<close>, \<open>Movie\<close>, \<open>Extended\<close> and the ids of other sites) are lost.
\<close>

theorem ParseQuery_Encode:
  assumes "valid_query q" and "mset kvs = mset (parse_query (Query_Encode q))"
  shows "ParseQuery kvs = Inr (query_read q)"
proof -
  have good: "good_values (ToValues q)" using assms(1) by (rule good_ToValues)
  then have "parse_query (Query_Encode q) = sort_key fst (ToValues q)"
    unfolding Query_Encode_def by (intro parse_encode_values) (auto simp: good_values_def good_param_def)
  with assms(2) have m: "mset kvs = mset (ToValues q)" by simp
  have d: "distinct (map fst kvs)"
    using good m by (metis good_values_def mset_map mset_eq_imp_distinct_iff)
  have s: "set kvs = set (ToValues q)" using m by (rule mset_eq_setD)
  have "map_of kvs = map_of (ToValues q)" using d good s by (simp add: map_of_inject_set good_values_def)
  moreover have "\<forall>kv \<in> set kvs. good_param kv" using good s by (simp add: good_values_def)
  ultimately show ?thesis using ParseQuery_from_fields [OF d] read_ToValues [OF assms(1)] by (simp add: ParseQuery_def)
qed

definition sample_query :: tz_query where
  "sample_query = empty_query\<lparr>tq_Q := ''a b'', tq_Ep := ''02'', tq_Season := ''1'', tq_Categories := [5000, 5040], tq_IMDBId := ''tt1'', tq_Movie := ''m''\<rparr>"

theorem ParseQuery_Encode_witness:
  "ParseQuery (rev (parse_query (Query_Encode sample_query))) = Inr (sample_query\<lparr>tq_Type := ''search'', tq_Movie := []\<rparr>)"
proof -
  have "valid_query sample_query"
    by (simp add: valid_query_def sample_query_def empty_query_def num_text_def int64_def atoi_def is_digit_def digit_val_def Let_def has_prefix_def)
  then have "ParseQuery (rev (parse_query (Query_Encode sample_query))) = Inr (query_read sample_query)"
    by (rule ParseQuery_Encode) simp
  then show ?thesis by (simp add: query_read_def sample_query_def empty_query_def)
qed

section \<open>The client's queries\<close>

lemma join_parts_commas: "1 < i \<Longrightarrow> join_parts i ps = concat (map (\<lambda>p. '','' @ p) ps)"
  by (induction ps arbitrary: i) auto

lemma go_join_commas: "go_join '','' (p # ps) = p @ concat (map (\<lambda>p. '','' @ p) ps)"
  by (induction ps arbitrary: p) auto

text \<open>
  (error) \<open>SetCat\<close> on a query without categories runs the first two together: what is sent is the list whose first
  number is written with the digits of both.
\<close>

theorem SetCat_merges_first_two:
  assumes "v_get (cq_values q) ''cat'' = []"
  shows "v_get (cq_values (SetCat (a # b # cs) q)) ''cat'' = go_join '','' ((itoa a @ itoa b) # map itoa cs)"
  using assms by (simp add: SetCat_def set_list_def cq_Set_def join_parts_commas go_join_commas Let_def)

definition no_item :: caps_item where
  "no_item = \<lparr>cs_Available = False, cs_SupportedParams = []\<rparr>"

definition listed_item :: "string \<Rightarrow> caps_item" where
  "listed_item attr = \<lparr>cs_Available = True, cs_SupportedParams = unmarshal_params attr\<rparr>"

definition sample_caps :: tz_caps where
  "sample_caps =
     \<lparr>cp_Limits = None, cp_Search = listed_item ''q'', cp_TVSearch = listed_item ''q,season,ep,imdbid'',
      cp_MovieSearch = listed_item ''q,imdbid'', cp_MusicSearch = no_item, cp_BookSearch = no_item\<rparr>"

theorem SetCat_merges_first_two_witness:
  "v_get (cq_values (SetCat [20, 50, 10] \<lparr>cq_caps = sample_caps, cq_t = FnSearch, cq_values = []\<rparr>)) ''cat'' = ''2050,10''"
  by (subst SetCat_merges_first_two, simp add: v_get_def, code_simp)

text \<open>
  (error) When the capabilities of an indexer list more than one parameter for a function, the client holds that none
  of them is supported: the list is read as one parameter.
\<close>

theorem listed_params_unsupported:
  assumes "getSearchingItem caps (cq_t q) = Some si" and "cs_SupportedParams si = unmarshal_params attr"
    and "CHR '','' \<in> set attr" and "CHR '','' \<notin> set param"
    and "param \<notin> {''cat'', ''attrs'', ''extended'', ''offset'', ''limit''}" and "cq_caps q = caps"
  shows "\<not> IsSupported q param"
  using assms by (auto simp: IsSupported_def SupportsParam_def unmarshal_params_def)

theorem listed_params_unsupported_witness:
  "\<not> IsSupported \<lparr>cq_caps = sample_caps, cq_t = FnMovie, cq_values = []\<rparr> ''imdbid''"
  by (rule listed_params_unsupported [of sample_caps _ "listed_item ''q,imdbid''" "''q,imdbid''"])
    (simp_all add: getSearchingItem_def sample_caps_def listed_item_def)

section \<open>Addresses there and back\<close>

definition jackett_url :: "string \<Rightarrow> string \<Rightarrow> string" where
  "jackett_url base indexer = base @ api_path @ indexer @ ''/results/torznab''"

definition plain_indexer :: "string \<Rightarrow> bool" where
  "plain_indexer i \<longleftrightarrow> i \<noteq> [] \<and> CHR ''/'' \<notin> set i \<and> CHR '':'' \<notin> set i"

text \<open>A base without a path: the scheme and a host.\<close>

definition plain_base :: "string \<Rightarrow> string \<Rightarrow> bool" where
  "plain_base scheme host \<longleftrightarrow>
     scheme \<in> {''http'', ''https''} \<and> host \<noteq> [] \<and> CHR ''/'' \<notin> set host \<and> CHR 0x0A \<notin> set host
     \<and> index_of ('':'' @ host @ '':'') ''::'' = None"

lemma somes_first:
  assumes "\<And>j. j < i \<Longrightarrow> f j = None" and "f i = Some m" and "i < n"
  shows "\<exists>ms. somes (map f [0..<n]) = m # ms"
proof -
  have "map f [0..<n] = map f [0..<i] @ map f (i # [Suc i..<n])"
    using assms(3) upt_add_eq_append [of 0 i "n - i"] by (simp add: upt_conv_Cons)
  moreover have "somes (map f [0..<i]) = []" using assms(1) by (induction i) auto
  ultimately show ?thesis using assms(2) by simp
qed

lemma to_lower_append: "to_lower (a @ b) = to_lower a @ to_lower b"
  by (simp add: to_lower_def)

lemma has_prefix_lower: "has_prefix s p \<Longrightarrow> has_prefix (to_lower s) (to_lower p)"
  by (auto simp: has_prefix_iff to_lower_append)

abbreviation http_prefix :: "string \<Rightarrow> bool" where
  "http_prefix p \<equiv> p = ''http://'' \<or> p = ''https://''"

lemma http_len_short: "http_prefix p \<Longrightarrow> i < length p \<Longrightarrow> http_len (to_lower (take i (p @ r))) = 0"
proof -
  assume p: "http_prefix p" and i: "i < length p"
  have "\<forall>k < 7. http_len (to_lower (take k ''http://'')) = 0" "\<forall>k < 8. http_len (to_lower (take k ''https://'')) = 0" by code_simp+
  moreover have "take i (p @ r) = take i p" using i by simp
  ultimately show ?thesis using p i by (auto simp del: take_Cons' take_append take_Cons_numeral)
qed

lemma http_len_long: "http_prefix p \<Longrightarrow> http_len (to_lower (p @ r)) = length p"
  by (auto simp: http_len_def to_lower_def to_lower_char_def has_prefix_def)

lemma api_start: "has_prefix (to_lower s) api_path \<Longrightarrow> \<exists>t. s = CHR ''/'' # t"
proof (cases s)
  case (Cons c t)
  assume "has_prefix (to_lower s) api_path"
  then have "to_lower_char c = CHR ''/''" using Cons by (simp add: has_prefix_def api_path_def to_lower_def)
  then have "c = CHR ''/''" by (auto simp: to_lower_char_def split: if_splits dest: arg_cong [where f = "of_char :: char \<Rightarrow> nat"])
  with Cons show ?thesis by blast
qed (simp add: has_prefix_def api_path_def to_lower_def)

lemma match_None:
  "http_len (to_lower (take i s)) = 0 \<Longrightarrow> match_at s i = None"
  "http_len (to_lower (take i s)) = i \<Longrightarrow> match_at s i = None"
  "\<not> has_prefix (to_lower (drop i s)) api_path \<Longrightarrow> match_at s i = None"
  by (auto simp: match_at_def Let_def)

lemma match_early:
  assumes "http_prefix p" and "CHR ''/'' \<notin> set host" and "i < length (p @ host)"
  shows "match_at (jackett_url (p @ host) x) i = None"
proof -
  let ?r = "host @ api_path @ x @ ''/results/torznab''"
  have u: "jackett_url (p @ host) x = p @ ?r" by (simp add: jackett_url_def)
  consider "i < length p" | "i = length p" | "length p < i" by linarith
  then show ?thesis
  proof cases
    case 1
    then show ?thesis unfolding u by (intro match_None(1) http_len_short [OF assms(1)])
  next
    case 2
    then have "http_len (to_lower (take i (p @ ?r))) = i" using http_len_long [OF assms(1), of "[]"] by simp
    then show ?thesis unfolding u by (rule match_None(2))
  next
    case 3
    define k where "k = i - length p"
    have k: "k < length host" using 3 assms(3) by (simp add: k_def)
    have "drop i (p @ ?r) = drop k ?r" using 3 by (simp only: drop_append k_def) simp
    also have "\<dots> = drop k host @ api_path @ x @ ''/results/torznab''" using k by simp
    also have "drop k host = host ! k # drop (Suc k) host" using k by (simp add: Cons_nth_drop_Suc)
    finally have d: "drop i (p @ ?r) = host ! k # drop (Suc k) host @ api_path @ x @ ''/results/torznab''" by simp
    have "host ! k \<noteq> CHR ''/''" using assms(2) k by (metis nth_mem)
    then have "\<not> has_prefix (to_lower (host ! k # z)) api_path" for z using api_start [of "host ! k # z"] by auto
    then have "\<not> has_prefix (to_lower (drop i (p @ ?r))) api_path" by (simp only: d not_False_eq_True)
    then show ?thesis unfolding u by (rule match_None(3))
  qed
qed

lemma match_whole:
  assumes "http_len (to_lower b) \<noteq> 0" and "http_len (to_lower b) < length b" and "CHR 0x0A \<notin> set (drop (http_len (to_lower b)) b)"
    and "plain_indexer x"
  shows "match_at (jackett_url b x) (length b) = Some (b, x)"
proof -
  have "takeWhile (\<lambda>c. c \<noteq> CHR ''/'') (x @ ''/results/torznab'') = x"
    using assms(4) by (subst takeWhile_append2) (auto simp: plain_indexer_def)
  moreover have "has_prefix (to_lower (api_path @ r)) api_path" for r
    by (simp add: api_path_def to_lower_def to_lower_char_def has_prefix_def)
  moreover have "to_lower ''/results/torznab'' = ''/results/torznab''" by (simp add: to_lower_def to_lower_char_def)
  ultimately show ?thesis using assms by (simp add: match_at_def jackett_url_def Let_def plain_indexer_def)
qed

lemma FromDecoded_plain:
  assumes "http_prefix p" and "host \<noteq> []" and "CHR ''/'' \<notin> set host" and "CHR 0x0A \<notin> set host" and "plain_indexer x"
  shows "FromDecoded (jackett_url (p @ host) x) = Inr (p @ host, x)"
proof -
  let ?u = "jackett_url (p @ host) x"
  have "drop (length p) (p @ host) = host" by simp
  moreover have "length p \<noteq> 0" using assms(1) by auto
  ultimately have m: "match_at ?u (length (p @ host)) = Some (p @ host, x)"
    using assms http_len_long [OF assms(1), of host] by (intro match_whole) simp_all
  have "length (p @ host) < Suc (length ?u)" by (simp add: jackett_url_def)
  then obtain ms where "somes (map (match_at ?u) [0..<Suc (length ?u)]) = (p @ host, x) # ms"
    using somes_first [of _ "match_at ?u"] match_early [OF assms(1,3)] m by blast
  then show ?thesis by (simp add: FromDecoded_def del: upt_Suc)
qed

lemma index_of_None: "index_of s p = None \<Longrightarrow> k \<le> length s \<Longrightarrow> \<not> has_prefix (drop k s) p"
proof (induction s arbitrary: k)
  case Nil
  then show ?case by (auto simp: has_prefix_def split: if_splits)
next
  case (Cons c s)
  then show ?case by (cases k) (auto split: if_splits)
qed

lemma index_of_NoneI: "(\<And>k. \<not> has_prefix (drop k s) p) \<Longrightarrow> index_of s p = None"
proof (induction s)
  case Nil
  from Nil [of 0] show ?case by (auto simp: has_prefix_def)
next
  case (Cons c s)
  have "\<not> has_prefix (c # s) p" using Cons.prems [of 0] by simp
  moreover have "\<not> has_prefix (drop k s) p" for k using Cons.prems [of "Suc k"] by simp
  ultimately show ?case using Cons.IH by simp
qed

lemma index_of_first:
  "(\<And>k. k < i \<Longrightarrow> \<not> has_prefix (drop k s) p) \<Longrightarrow> has_prefix (drop i s) p \<Longrightarrow> i \<le> length s \<Longrightarrow> index_of s p = Some i"
proof (induction s arbitrary: i)
  case Nil
  then show ?case by (auto simp: has_prefix_def)
next
  case (Cons c s)
  show ?case
  proof (cases i)
    case 0
    then show ?thesis using Cons.prems by simp
  next
    case (Suc j)
    have "\<not> has_prefix (c # s) p" using Cons.prems(1) [of 0] Suc by simp
    moreover have "\<not> has_prefix (drop k s) p" if "k < j" for k using Cons.prems(1) [of "Suc k"] Suc that by simp
    then have "index_of s p = Some j" using Cons.prems Suc by (intro Cons.IH) auto
    ultimately show ?thesis using Suc by simp
  qed
qed

definition colons_at :: "string \<Rightarrow> nat \<Rightarrow> bool" where
  "colons_at s k \<longleftrightarrow> Suc k < length s \<and> s ! k = CHR '':'' \<and> s ! Suc k = CHR '':''"

lemma colons_at: "has_prefix (drop k s) ''::'' \<longleftrightarrow> colons_at s k"
proof -
  have "(\<exists>t. drop k s = ''::'' @ t) \<longleftrightarrow> colons_at s k"
  proof
    assume "\<exists>t. drop k s = ''::'' @ t"
    then obtain t where t: "drop k s = ''::'' @ t" by blast
    then have "length (drop k s) = 2 + length t" by simp
    moreover have "drop k s ! 0 = CHR '':''" "drop k s ! 1 = CHR '':''" using t by simp_all
    ultimately show "colons_at s k" by (auto simp: colons_at_def)
  next
    assume "colons_at s k"
    then have "drop k s = s ! k # s ! Suc k # drop (Suc (Suc k)) s"
      using Cons_nth_drop_Suc [of k s] Cons_nth_drop_Suc [of "Suc k" s] by (simp add: colons_at_def)
    then show "\<exists>t. drop k s = ''::'' @ t" using \<open>colons_at s k\<close> by (simp add: colons_at_def)
  qed
  then show ?thesis by (simp add: has_prefix_iff)
qed

lemma only_colons:
  assumes "CHR '':'' \<notin> set scheme" and "CHR '':'' \<notin> set x" and "index_of ('':'' @ host @ '':'') ''::'' = None"
    and "colons_at (scheme @ '':'' @ host @ ''::'' @ x) k"
  shows "k = length scheme + 1 + length host"
proof (rule ccontr)
  let ?e = "scheme @ '':'' @ host @ ''::'' @ x"
  assume k: "k \<noteq> length scheme + 1 + length host"
  have e: "Suc k < length ?e" "?e ! k = CHR '':''" "?e ! Suc k = CHR '':''" using assms(4) by (simp_all only: colons_at_def)
  consider "k < length scheme" | "length scheme \<le> k" "k < length scheme + 1 + length host" | "length scheme + 1 + length host < k"
    using k by linarith
  then show False
  proof cases
    case 1
    then show False using e(2) assms(1) by (simp add: nth_append) (metis nth_mem)
  next
    case 2
    define j where "j = k - length scheme"
    have j: "j \<le> length host" "k = length scheme + j" using 2 by (simp_all add: j_def)
    have "('':'' @ host @ '':'') ! j = ?e ! k" using j by (cases j) (simp_all add: nth_append)
    moreover have "('':'' @ host @ '':'') ! Suc j = ?e ! Suc k" using j by (simp add: nth_append)
    ultimately have "colons_at ('':'' @ host @ '':'') j" using e j(1) by (simp add: colons_at_def)
    then show False using index_of_None [OF assms(3), of j] j(1) by (simp add: colons_at)
  next
    case 3
    define j where "j = Suc k - (length scheme + 3 + length host)"
    have j: "Suc k = length (scheme @ '':'' @ host @ ''::'') + j" "j < length x" using 3 e(1) by (simp_all add: j_def)
    have "?e ! Suc k = x ! j" using nth_append_length_plus [of "scheme @ '':'' @ host @ ''::''" x j] j(1) by simp
    then show False using e(3) assms(2) j(2) by (metis nth_mem)
  qed
qed

lemma FromEncoded_plain:
  assumes "CHR '':'' \<notin> set scheme" and "CHR '':'' \<notin> set x" and "index_of ('':'' @ host @ '':'') ''::'' = None"
  shows "FromEncoded (scheme @ '':'' @ host @ ''::'' @ x) = Inr (scheme @ ''://'' @ host, x)"
proof -
  let ?e = "scheme @ '':'' @ host @ ''::'' @ x"
  let ?n = "length scheme + 1 + length host"
  note one = only_colons [OF assms]
  have "\<not> has_prefix (drop k ?e) '':::''" for k
  proof
    assume "has_prefix (drop k ?e) '':::''"
    then obtain t where t: "drop k ?e = '':::'' @ t" by (auto simp: has_prefix_iff)
    then have "drop (Suc k) ?e = ''::'' @ t" by (metis append_Cons drop_Suc list.sel(3) tl_drop)
    then have "colons_at ?e k" "colons_at ?e (Suc k)" using t by (simp_all only: colons_at [symmetric]) (simp_all add: has_prefix_def)
    then show False using one [of k] one [of "Suc k"] by simp
  qed
  then have "index_of ?e '':::'' = None" by (rule index_of_NoneI)
  moreover have "index_of ?e ''::'' = Some ?n"
  proof (rule index_of_first)
    show "\<not> has_prefix (drop k ?e) ''::''" if "k < ?n" for k using one [of k] that by (auto simp only: colons_at)
    show "has_prefix (drop ?n ?e) ''::''" by (simp add: has_prefix_def)
  qed simp
  moreover have "take ?n ?e = scheme @ CHR '':'' # host" "drop (?n + 2) ?e = x"
    using append_eq_conv_conj [of "scheme @ '':'' @ host @ ''::''" x ?e] by simp_all
  ultimately show ?thesis using assms(1) by (simp add: FromEncoded_def)
qed

text \<open>
  (roundtrip) The address of an indexer at a host without a path is encoded as the scheme, the host and the indexer,
  and decoding gives the address back; hosts with a port are among them, IPv6 hosts are not.
\<close>

theorem TorznabURL_roundtrip:
  assumes "plain_base scheme host" and "plain_indexer x" and "url_parse (scheme @ ''://'' @ host) = Some (scheme, host)"
  shows "TorznabURL_Encode url_parse (jackett_url (scheme @ ''://'' @ host) x) = scheme @ '':'' @ host @ ''::'' @ x
    \<and> TorznabURL_Decode (scheme @ '':'' @ host @ ''::'' @ x) = jackett_url (scheme @ ''://'' @ host) x"
proof -
  let ?b = "scheme @ ''://'' @ host"
  have s: "http_prefix (scheme @ ''://'')" using assms(1) by (auto simp: plain_base_def)
  have h: "host \<noteq> []" "CHR ''/'' \<notin> set host" "CHR 0x0A \<notin> set host" "index_of ('':'' @ host @ '':'') ''::'' = None"
    using assms(1) by (simp_all add: plain_base_def)
  have "is_http (jackett_url ?b x)" using s by (auto simp: is_http_def jackett_url_def has_prefix_def)
  moreover have "FromDecoded (jackett_url ?b x) = Inr (?b, x)" using FromDecoded_plain [OF s h(1,2,3) assms(2)] by simp
  ultimately have enc: "TorznabURL_Encode url_parse (jackett_url ?b x) = scheme @ '':'' @ host @ ''::'' @ x"
    using assms(3) by (simp add: TorznabURL_Encode_def TorznabURL_Parse_def)
  have "CHR '':'' \<notin> set scheme" "CHR '':'' \<notin> set x" using assms(1,2) by (auto simp: plain_base_def plain_indexer_def)
  then have "FromEncoded (scheme @ '':'' @ host @ ''::'' @ x) = Inr (?b, x)" using h(4) by (rule FromEncoded_plain)
  moreover have "\<not> is_http (scheme @ '':'' @ host @ ''::'' @ x)"
    using assms(1) h(2) by (cases host) (auto simp: is_http_def has_prefix_def plain_base_def)
  moreover have "trim_right (\<lambda>c. c = CHR ''/'') ?b = ?b"
    using h(1,2) by (cases host rule: rev_cases) (auto simp: trim_right_def)
  ultimately have "TorznabURL_Decode (scheme @ '':'' @ host @ ''::'' @ x) = jackett_url ?b x"
    by (simp add: TorznabURL_Decode_def TorznabURL_Parse_def jackett_url_def)
  with enc show ?thesis ..
qed

theorem TorznabURL_roundtrip_witness:
  "TorznabURL_Encode (\<lambda>_. Some (''http'', ''localhost:9117'')) (jackett_url ''http://localhost:9117'' ''all'') = ''http:localhost:9117::all''
   \<and> TorznabURL_Decode ''http:localhost:9117::all'' = jackett_url ''http://localhost:9117'' ''all''"
  using TorznabURL_roundtrip [of "''http''" "''localhost:9117''" "''all''" "\<lambda>_. Some (''http'', ''localhost:9117'')"]
  by (simp add: plain_base_def plain_indexer_def has_prefix_def)

section \<open>Indexers in the database\<close>

lemma GetById_Upsert:
  "\<exists>r. indexer_GetById (xi_Type i) (xi_Id i) (indexer_Upsert now i t) = Some r \<and> xi_URL r = xi_URL i \<and> xi_APIKey r = xi_APIKey i"
proof (cases "list_ex (\<lambda>r. indexer_key r = indexer_key i) t")
  case True
  let ?f = "\<lambda>r. if indexer_key r = indexer_key i
                 then r\<lparr>xi_Name := xi_Name i, xi_URL := xi_URL i, xi_APIKey := xi_APIKey i, xi_UAt := now\<rparr> else r"
  have "\<exists>r. find (\<lambda>r. indexer_key r = (xi_Type i, xi_Id i)) (map ?f t) = Some r \<and> xi_URL r = xi_URL i \<and> xi_APIKey r = xi_APIKey i"
    using True by (induction t) (auto simp: indexer_key_def)
  then show ?thesis using True by (simp add: indexer_GetById_def indexer_Upsert_def)
next
  case False
  then have "find (\<lambda>r. indexer_key r = (xi_Type i, xi_Id i)) (t @ [i\<lparr>xi_CAt := now, xi_UAt := now\<rparr>]) = Some (i\<lparr>xi_CAt := now, xi_UAt := now\<rparr>)"
    by (induction t) (auto simp: indexer_key_def)
  then show ?thesis using False by (simp add: indexer_GetById_def indexer_Upsert_def)
qed

text \<open>
  (error) Two addresses with the same host and indexer get the same id, whatever the paths in front: what is looked up
  under the id of the first after the second was saved has the address of the second.
\<close>

theorem second_address_replaces_first:
  assumes "NewTorznabIndexer encrypt url_parse ''jackett'' url1 k1 = Inr i1" and "NewTorznabIndexer encrypt url_parse ''jackett'' url2 k2 = Inr i2"
    and "TorznabURL_Parse url1 = Inr (base1, x)" and "TorznabURL_Parse url2 = Inr (base2, x)" and "url_parse base1 = url_parse base2"
  shows "\<exists>r. indexer_GetById ''jackett'' (xi_Id i1) (indexer_Upsert now2 i2 (indexer_Upsert now1 i1 t)) = Some r \<and> xi_URL r = url2"
proof -
  have "xi_Id i1 = xi_Id i2" "xi_Type i2 = ''jackett''" "xi_URL i2 = url2"
    using assms by (auto simp: NewTorznabIndexer_def TorznabURL_Encode_def split: sum.splits)
  then show ?thesis using GetById_Upsert [of i2 now2 "indexer_Upsert now1 i1 t"] by auto
qed

definition two_paths :: "string \<Rightarrow> (string \<times> string) option" where
  "two_paths base = (if has_prefix base ''http://h'' then Some (''http'', ''h'') else None)"

definition sample_indexer :: "string \<Rightarrow> torznab_indexer" where
  "sample_indexer url = \<lparr>xi_Type = ''jackett'', xi_Id = ''http:h::x'', xi_Name = [], xi_URL = url, xi_APIKey = ''k'', xi_CAt = 0, xi_UAt = 0\<rparr>"

theorem second_address_replaces_first_witness:
  "\<exists>r. indexer_GetById ''jackett'' ''http:h::x''
          (indexer_Upsert 2 (sample_indexer ''x:::http://h/b'') (indexer_Upsert 1 (sample_indexer ''x:::http://h/a'') [])) = Some r
     \<and> xi_URL r = ''x:::http://h/b''"
proof -
  have p: "TorznabURL_Parse ''x:::http://h/a'' = Inr (''http://h/a'', ''x'')" "TorznabURL_Parse ''x:::http://h/b'' = Inr (''http://h/b'', ''x'')"
    by (simp_all add: TorznabURL_Parse_def is_http_def FromEncoded_def has_prefix_def)
  have "NewTorznabIndexer Inr two_paths ''jackett'' url ''k'' = Inr (sample_indexer url)"
    if "TorznabURL_Parse url = Inr (base, ''x'')" "two_paths base = Some (''http'', ''h'')" for url base
    using that by (simp add: NewTorznabIndexer_def TorznabURL_Encode_def sample_indexer_def)
  then have "NewTorznabIndexer Inr two_paths ''jackett'' ''x:::http://h/a'' ''k'' = Inr (sample_indexer ''x:::http://h/a'')"
    and "NewTorznabIndexer Inr two_paths ''jackett'' ''x:::http://h/b'' ''k'' = Inr (sample_indexer ''x:::http://h/b'')"
    using p by (simp_all add: two_paths_def has_prefix_def)
  from second_address_replaces_first [OF this p] show ?thesis by (simp add: two_paths_def has_prefix_def sample_indexer_def)
qed

section \<open>Magnet links of results\<close>

text \<open>
  (functional) Once a source link has given a magnet link, another result with the same source link gets the same hash
  and magnet link from the cache, whatever the site would answer now, and the cache stays as it is.
\<close>

theorem EnsureMagnet_again:
  assumes "EnsureMagnet hier_ok get cache t = (None, t', cache')" and "HasMissingData t"
    and "HasMissingData u" and "tz_SourceLink u = tz_SourceLink t"
  shows "\<exists>u'. EnsureMagnet hier_ok get2 cache' u = (None, u', cache') \<and> tz_Hash u' = tz_Hash t' \<and> tz_MagnetLink u' = tz_MagnetLink t'"
proof -
  have "\<exists>c. map_of cache' (tz_SourceLink t) = Some c \<and> zf_Hash c = tz_Hash t' \<and> zf_MagnetLink c = tz_MagnetLink t'"
    using assms(1,2)
    by (auto simp: EnsureMagnet_def use_cached_def from_redirect_def from_torrent_def update_conv' Let_def
        split: if_splits option.splits sum.splits prod.splits)
  moreover have "tz_SourceLink t \<noteq> []" using assms(1,2) by (auto simp: EnsureMagnet_def split: if_splits)
  ultimately show ?thesis using assms(3,4) by (auto simp: EnsureMagnet_def use_cached_def)
qed

definition bare_torz :: "string \<Rightarrow> torz" where
  "bare_torz link =
     \<lparr>tz_Indexer = ''x'', tz_Hash = [], tz_Title = ''t'', tz_Size = 1, tz_Seeders = 0, tz_Leechers = 0, tz_Private = False, tz_Files = [],
      tz_MagnetLink = [], tz_SourceLink = link\<rparr>"

definition sample_answer :: "string \<Rightarrow> string + source_answer" where
  "sample_answer link = Inr \<lparr>sa_StatusCode = 200, sa_Location = [], sa_Body = Inr (Some ''AB'', ''magnet:?x'', Inr (False, []))\<rparr>"

theorem EnsureMagnet_again_witness:
  "\<exists>u'. EnsureMagnet (\<lambda>_. True) (\<lambda>_. Inl ''down'')
          [(''l'', \<lparr>zf_Hash = ''ab'', zf_MagnetLink = ''magnet:?x'', zf_Private = False, zf_Files = []\<rparr>)] (bare_torz ''l'')
       = (None, u', [(''l'', \<lparr>zf_Hash = ''ab'', zf_MagnetLink = ''magnet:?x'', zf_Private = False, zf_Files = []\<rparr>)])
     \<and> tz_Hash u' = ''ab'' \<and> tz_MagnetLink u' = ''magnet:?x''"
proof -
  have "to_lower ''AB'' = ''ab''" by code_simp
  then have "EnsureMagnet (\<lambda>_. True) sample_answer [] (bare_torz ''l'')
      = (None, (bare_torz ''l'')\<lparr>tz_Hash := ''ab'', tz_MagnetLink := ''magnet:?x''\<rparr>,
         [(''l'', \<lparr>zf_Hash = ''ab'', zf_MagnetLink = ''magnet:?x'', zf_Private = False, zf_Files = []\<rparr>)])"
    by (simp add: EnsureMagnet_def HasMissingData_def bare_torz_def sample_answer_def magnet_redirect_def from_torrent_def)
  from EnsureMagnet_again [OF this, of "bare_torz ''l''" "\<lambda>_. Inl ''down''"] show ?thesis by (simp add: HasMissingData_def bare_torz_def)
qed

section \<open>What a search shows\<close>

lemma set_page_of: "set (page_of q xs) \<subseteq> set xs"
  by (auto simp: page_of_def Let_def dest: in_set_takeD in_set_dropD)

lemma search_rows_sound:
  "ri \<in> set (search_rows d q ids db) \<Longrightarrow>
     \<exists>r \<in> set (tt_infos db). ri = result_of (ri_IMDB ri) r \<and> search_cond d q r \<and> (tor_Hash r, ri_IMDB ri) \<in> set (tt_imdb db) \<and> ri_IMDB ri \<in> set ids"
  by (auto simp: search_rows_def result_of_def)

text \<open>
  C27: (safety) Every item of an answer stands for a torrent that is not private, whose size is known, that is mapped to
  the IMDb id of the item and, when the query names an IMDb id, to that one.
\<close>

theorem Search_shows_public:
  assumes "indexer_Search d last_id search_ids now db q c = (Inr items, c')" and "ri \<in> set items"
  shows "\<exists>r \<in> set (tt_infos db). ri = result_of (ri_IMDB ri) r \<and> \<not> tor_Private r \<and> tor_Size r \<noteq> - 1
    \<and> (tor_Hash r, ri_IMDB ri) \<in> set (tt_imdb db) \<and> (tq_IMDBId q \<noteq> [] \<longrightarrow> ri_IMDB ri = tq_IMDBId q)"
proof -
  obtain ids where ids: "query_ids last_id search_ids now q c = (Inr ids, c')" "items = (if ids = [] then [] else page_of q (search_rows d q ids db))"
    using assms(1) by (auto simp: indexer_Search_def split: prod.splits sum.splits)
  then have "ri \<in> set (search_rows d q ids db)" using assms(2) set_page_of by (fastforce split: if_splits)
  then show ?thesis using search_rows_sound [of ri d q ids db] ids(1) by (fastforce simp: search_cond_def Let_def query_ids_def)
qed

theorem Search_shows_public_witness:
  "\<exists>r \<in> set (tt_infos sample_tables). \<not> tor_Private r \<and> tor_Hash r = sample_hash"
proof -
  let ?q = "empty_query\<lparr>tq_IMDBId := ''tt7''\<rparr>"
  let ?r = "result_of ''tt7'' (sample_info\<lparr>tor_lists := no_lists\<lparr>ls_Seasons := [1, 2]\<rparr>\<rparr>)"
  have "indexer_Search SQLite (Inl []) (\<lambda>_ _ _. Inl []) 0 sample_tables ?q \<lparr>lm_imdbId = [], lm_staleAt = 0\<rparr>
      = (Inr [?r], \<lparr>lm_imdbId = [], lm_staleAt = 0\<rparr>)"
    by (simp add: indexer_Search_def query_ids_def empty_query_def search_rows_def sample_tables_def search_cond_def page_of_def
        sample_info_def new_info_def sample_item_def Let_def)
  from Search_shows_public [OF this, of ?r] show ?thesis
    by (auto simp: result_of_def sample_tables_def sample_info_def new_info_def sample_item_def)
qed

lemma pages_join: "0 < n \<Longrightarrow> concat (map (\<lambda>k. take n (drop (k * n) xs)) [0..<m]) = take (m * n) xs"
proof (induction m)
  case (Suc m)
  have "take (Suc m * n) xs = take (m * n) xs @ take n (drop (m * n) xs)"
    using take_add [of "m * n" n xs] by (simp add: add.commute)
  with Suc show ?case by (simp del: mult_Suc)
qed simp

lemma page_of_nat: "0 < n \<Longrightarrow> page_of (q\<lparr>tq_Limit := int n, tq_Offset := int i\<rparr>) xs = take n (drop i xs)"
  by (cases "i = 0") (auto simp: page_of_def)

text \<open>
  (equivalence) Asking page by page, with a limit and the offsets that follow from it, gives the items of the answer
  without a limit, each once and in order, as long as the tables do not change.
\<close>

theorem Search_pages:
  assumes "tq_IMDBId q \<noteq> []" and "0 < n"
    and "indexer_Search d last_id search_ids now db (q\<lparr>tq_Limit := 0, tq_Offset := 0\<rparr>) c = (Inr items, c')"
  shows "concat (map (\<lambda>k. case fst (indexer_Search d last_id search_ids now db (q\<lparr>tq_Limit := int n, tq_Offset := int (k * n)\<rparr>) c)
                         of Inr page \<Rightarrow> page | Inl _ \<Rightarrow> []) [0..<m])
    = take (m * n) items"
proof -
  have rows: "search_rows d (q\<lparr>tq_Limit := a, tq_Offset := b\<rparr>) ids db = search_rows d q ids db" for a b ids
    by (simp add: search_rows_def search_cond_def)
  have items: "items = search_rows d q [tq_IMDBId q] db"
    using assms(1,3) by (auto simp: indexer_Search_def query_ids_def page_of_def rows Let_def)
  have "fst (indexer_Search d last_id search_ids now db (q\<lparr>tq_Limit := int n, tq_Offset := int (k * n)\<rparr>) c)
      = Inr (take n (drop (k * n) items))" for k
    using assms(1,2) by (simp only: indexer_Search_def) (simp add: query_ids_def page_of_nat rows items del: of_nat_mult)
  then show ?thesis using pages_join [OF assms(2), of items m] by simp
qed

theorem Search_pages_witness:
  "concat (map (\<lambda>k. case fst (indexer_Search SQLite (Inl []) (\<lambda>_ _ _. Inl []) 0 sample_tables
       (empty_query\<lparr>tq_IMDBId := ''tt7''\<rparr>\<lparr>tq_Limit := int 1, tq_Offset := int (k * 1)\<rparr>) \<lparr>lm_imdbId = [], lm_staleAt = 0\<rparr>)
         of Inr page \<Rightarrow> page | Inl _ \<Rightarrow> []) [0..<2])
    = take (2 * 1) (search_rows SQLite (empty_query\<lparr>tq_IMDBId := ''tt7''\<rparr>) [''tt7''] sample_tables)"
  by (rule Search_pages [where c' = "\<lparr>lm_imdbId = [], lm_staleAt = 0\<rparr>"])
    (simp_all add: indexer_Search_def query_ids_def page_of_def empty_query_def search_rows_def search_cond_def)

text \<open>
  (error) A query without a text and an IMDb id is answered with an error as long as nothing has been mapped: the query for
  the id that was mapped last fails when it finds none.
\<close>

theorem empty_query_fails_unmapped:
  assumes "v_get kvs ''t'' = ''search''" and "ParseQuery kvs = Inr q" and "tq_Q q = []" and "tq_IMDBId q = []" and "lm_staleAt c < now"
  shows "handleTorznab (indexer_Search d (Inl e) search_ids now db) path kvs c = (TzUnknown e, c)"
  using assms by (simp add: handleTorznab_def indexer_Search_def query_ids_def)

theorem empty_query_fails_unmapped_witness:
  "handleTorznab (indexer_Search SQLite (Inl ''sql: no rows in result set'') (\<lambda>_ _ _. Inr []) 1 sample_tables) ''/api''
     [(''t'', [''search''])] \<lparr>lm_imdbId = [], lm_staleAt = 0\<rparr>
   = (TzUnknown ''sql: no rows in result set'', \<lparr>lm_imdbId = [], lm_staleAt = 0\<rparr>)"
proof (rule empty_query_fails_unmapped)
  show "ParseQuery [(''t'', [''search''])] = Inr (empty_query\<lparr>tq_Type := ''search''\<rparr>)" by code_simp
qed (simp_all add: v_get_def empty_query_def)

section \<open>Indexers of a user\<close>

record ud_indexer =
  ui_Name :: string
  ui_URL :: string
  ui_APIKey :: string

definition ud_Decompress :: "ud_indexer \<Rightarrow> ud_indexer" where
  "ud_Decompress i = (if ui_Name i = ''jackett'' then i\<lparr>ui_URL := TorznabURL_Decode (ui_URL i)\<rparr> else i)"

definition ud_Compress :: "(string \<Rightarrow> (string \<times> string) option) \<Rightarrow> ud_indexer \<Rightarrow> ud_indexer" where
  "ud_Compress url_parse i = (if ui_Name i = ''jackett'' then i\<lparr>ui_URL := TorznabURL_Encode url_parse (ui_URL i)\<rparr> else i)"

definition ud_Validate :: "ud_indexer \<Rightarrow> (string \<times> string) option" where
  "ud_Validate i =
     (if ui_Name i = [] then Some (''name'', ''indexer name is required'')
      else if ui_URL i = [] then Some (''url'', ''indexer url is required'')
      else if ui_Name i = ''jackett'' \<and> isl (TorznabURL_Parse (ui_URL i)) then Some (''url'', ''indexer url is invalid'')
      else None)"

definition ud_HasRequiredValues :: "ud_indexer list \<Rightarrow> bool" where
  "ud_HasRequiredValues is = list_all (\<lambda>i. ud_Validate i = None) is"

definition ud_StripSecrets :: "ud_indexer list \<Rightarrow> ud_indexer list" where
  "ud_StripSecrets is = map (\<lambda>i. i\<lparr>ui_APIKey := []\<rparr>) is"

text \<open>
  (error) A saved address loses the path of its base: what is saved and loaded again points to the root of the host.
\<close>

theorem saved_indexer_loses_path:
  assumes "ui_Name i = ''jackett''" and "TorznabURL_Parse (ui_URL i) = Inr (base, x)" and "url_parse base = Some (scheme, host)"
    and "plain_base scheme host" and "plain_indexer x"
  shows "ui_URL (ud_Decompress (ud_Compress url_parse i)) = jackett_url (scheme @ ''://'' @ host) x"
  using TorznabURL_roundtrip [OF assms(4,5), of "\<lambda>_. Some (scheme, host)"] assms
  by (simp add: ud_Decompress_def ud_Compress_def TorznabURL_Encode_def)

theorem saved_indexer_loses_path_witness:
  "ui_URL (ud_Decompress (ud_Compress two_paths \<lparr>ui_Name = ''jackett'', ui_URL = ''x:::http://h/a'', ui_APIKey = []\<rparr>))
    = jackett_url ''http://h'' ''x''"
  using saved_indexer_loses_path [of "\<lparr>ui_Name = ''jackett'', ui_URL = ''x:::http://h/a'', ui_APIKey = []\<rparr>" "''http://h/a''" "''x''" two_paths
      "''http''" "''h''"]
  by (simp add: TorznabURL_Parse_def is_http_def FromEncoded_def has_prefix_def two_paths_def plain_base_def plain_indexer_def)

end
