(* ===== verification/Torznab_Sync.thy ===== *)
theory Torznab_Sync
  imports Torznab AniDB_Titles
begin

text \<open>
  The worker that searches Torznab indexers for what was asked for (\<open>internal/worker/torznab_indexer_syncer.go\<close>,
  \<open>torznab_indexer_syncer_queue.go\<close>) and its record of what was queued and synced
  (\<open>internal/torznab/indexer/syncinfo/db.go\<close>).

  Times are nanoseconds as in \<open>DB_Types\<close>; the table is a list of rows in which each key occurs once. The indexers'
  answers, the anime tables and the titles are parameters.
\<close>

section \<open>The table\<close>

record sync_info =
  xs_Type :: string
  xs_Id :: string
  xs_SId :: string
  xs_QueuedAt :: "int option"
  xs_SyncedAt :: "int option"
  xs_Error :: "string option"
  xs_ResultCount :: "int option"

type_synonym sync_key = "string \<times> string \<times> string"

definition xs_key :: "sync_info \<Rightarrow> sync_key" where
  "xs_key r = (xs_Type r, xs_Id r, xs_SId r)"

definition blank_row :: "sync_key \<Rightarrow> sync_info" where
  "blank_row k =
     \<lparr>xs_Type = fst k, xs_Id = fst (snd k), xs_SId = snd (snd k), xs_QueuedAt = None, xs_SyncedAt = None, xs_Error = None, xs_ResultCount = None\<rparr>"

definition row_at :: "sync_key \<Rightarrow> sync_info list \<Rightarrow> sync_info option" where
  "row_at k t = find (\<lambda>r. xs_key r = k) t"

text \<open>INSERT ... ON CONFLICT DO UPDATE, where the columns that are inserted and those that are updated are the same.\<close>

definition upsert_at :: "sync_key \<Rightarrow> (sync_info \<Rightarrow> sync_info) \<Rightarrow> sync_info list \<Rightarrow> sync_info list" where
  "upsert_at k f t =
     (if list_ex (\<lambda>r. xs_key r = k) t then map (\<lambda>r. if xs_key r = k then f r else r) t else t @ [f (blank_row k)])"

definition info_ShouldSync :: "int \<Rightarrow> sync_info \<Rightarrow> bool" where
  "info_ShouldSync now si =
     (case xs_SyncedAt si of
        None \<Rightarrow> True
      | Some synced \<Rightarrow>
          (case xs_QueuedAt si of
             Some queued \<Rightarrow> synced < queued \<and> synced + staleTime < now
           | None \<Rightarrow> synced + staleTime < now))"

definition sync_Queue ::
    "('c \<Rightarrow> string \<Rightarrow> bool) \<Rightarrow> ('c \<Rightarrow> string \<Rightarrow> 'c) \<Rightarrow> DBDialect \<Rightarrow> int \<Rightarrow> bool \<Rightarrow> sync_key \<Rightarrow> 'c \<times> sync_info list
      \<Rightarrow> bool \<times> 'c \<times> sync_info list" where
  "sync_Queue cget cadd d now ok k st =
     (case (k, st) of ((ty, i, sid), (c, t)) \<Rightarrow>
        let cacheKey = ty @ '':'' @ i @ '':'' @ sid in
        if sid = [] \<or> cget c cacheKey then (True, c, t)
        else if ok then (True, cadd c cacheKey, upsert_at k (\<lambda>r. r\<lparr>xs_QueuedAt := Some (db_time d now)\<rparr>) t)
        else (False, c, t))"

definition sync_MarkSynced :: "DBDialect \<Rightarrow> int \<Rightarrow> sync_key \<Rightarrow> int \<Rightarrow> sync_info list \<Rightarrow> sync_info list" where
  "sync_MarkSynced d now k resultCount t =
     (if snd (snd k) = [] then t
      else upsert_at k (\<lambda>r. r\<lparr>xs_SyncedAt := Some (db_time d now), xs_ResultCount := Some resultCount\<rparr>) t)"

definition sync_SetSyncError :: "sync_key \<Rightarrow> string \<Rightarrow> sync_info list \<Rightarrow> sync_info list" where
  "sync_SetSyncError k e t = (if snd (snd k) = [] then t else upsert_at k (\<lambda>r. r\<lparr>xs_Error := Some e\<rparr>) t)"

definition sync_ShouldSync :: "int \<Rightarrow> sync_key \<Rightarrow> sync_info list \<Rightarrow> bool" where
  "sync_ShouldSync now k t = (case row_at k t of None \<Rightarrow> True | Some r \<Rightarrow> info_ShouldSync now r)"

definition sync_pending :: "DBDialect \<Rightarrow> int \<Rightarrow> sync_info \<Rightarrow> bool" where
  "sync_pending d now r =
     (case xs_QueuedAt r of
        None \<Rightarrow> False
      | Some queued \<Rightarrow>
          (case xs_SyncedAt r of
             None \<Rightarrow> True
           | Some synced \<Rightarrow> synced < queued \<and> synced \<le> db_time d (now - staleTime)))"

definition HasSyncPending :: "DBDialect \<Rightarrow> int \<Rightarrow> sync_info list \<Rightarrow> bool" where
  "HasSyncPending d now t = list_ex (sync_pending d now) t"

definition GetSyncPending :: "DBDialect \<Rightarrow> int \<Rightarrow> sync_info list \<Rightarrow> sync_info list" where
  "GetSyncPending d now t = filter (sync_pending d now) t"

definition queued_rows :: "string \<Rightarrow> sync_info list \<Rightarrow> sync_info list" where
  "queued_rows sid t = filter (\<lambda>r. xs_QueuedAt r \<noteq> None \<and> (sid = [] \<or> xs_SId r = sid)) t"

definition newest_first :: "sync_info list \<Rightarrow> sync_info list" where
  "newest_first t = linorder_class.sort_key (\<lambda>r. - (case xs_QueuedAt r of Some q \<Rightarrow> q | None \<Rightarrow> 0)) t"

definition sync_GetItems :: "nat \<Rightarrow> nat \<Rightarrow> string \<Rightarrow> sync_info list \<Rightarrow> sync_info list" where
  "sync_GetItems limit offset sid t = take limit (drop offset (newest_first (queued_rows sid t)))"

definition sync_CountItems :: "string \<Rightarrow> sync_info list \<Rightarrow> nat" where
  "sync_CountItems sid t = length (queued_rows sid t)"

text \<open>The queue worker: the item is queued for every indexer, up to the first error.\<close>

fun queue_for_all ::
    "('c \<Rightarrow> string \<Rightarrow> bool) \<Rightarrow> ('c \<Rightarrow> string \<Rightarrow> 'c) \<Rightarrow> DBDialect \<Rightarrow> int \<Rightarrow> (sync_key \<Rightarrow> bool) \<Rightarrow> torznab_indexer list \<Rightarrow> string
      \<Rightarrow> 'c \<times> sync_info list \<Rightarrow> bool \<times> 'c \<times> sync_info list" where
  "queue_for_all cget cadd d now ok [] sid st = (True, st)"
| "queue_for_all cget cadd d now ok (i # is) sid st =
     (let k = (xi_Type i, xi_Id i, sid)
      in case sync_Queue cget cadd d now (ok k) k st of
           (True, st') \<Rightarrow> queue_for_all cget cadd d now ok is sid st'
         | (False, st') \<Rightarrow> (False, st'))"

section \<open>The searches for an id\<close>

record imdb_title =
  im_Title :: string
  im_OrigTitle :: string
  im_Year :: int

record query_meta =
  qm_titles :: "string list"
  qm_year :: int
  qm_season :: int
  qm_ep :: int

record syncer_env =
  se_normalize :: "string \<Rightarrow> string + normalized_strem_id"
  se_maps :: "string \<Rightarrow> string + maps_result"
  se_titles :: "string \<Rightarrow> string + AniDBTitle list"
  se_imdb :: "string \<Rightarrow> string + imdb_title option"
  se_dialect :: DBDialect
  se_hier_ok :: "string \<Rightarrow> bool"
  se_get :: "string \<Rightarrow> string + source_answer"

record torz_client =
  tc_caps :: "string + tz_caps"
  tc_search :: "client_query \<Rightarrow> string + torz list"

definition no_meta :: query_meta where
  "no_meta = \<lparr>qm_titles = [], qm_year = 0, qm_season = 0, qm_ep = 0\<rparr>"

fun anime_titles :: "string list \<Rightarrow> AniDBTitle list \<Rightarrow> query_meta \<Rightarrow> query_meta" where
  "anime_titles seen [] m = m"
| "anime_titles seen (t # ts) m =
     (if at_Value t \<in> set seen then anime_titles seen ts m
      else anime_titles (at_Value t # seen) ts
        (m\<lparr>qm_titles := qm_titles m @ [at_Value t],
           qm_year := (if qm_year m = 0 \<and> at_Year t \<noteq> [] then SafeParseInt (at_Year t) 0 else qm_year m)\<rparr>))"

text \<open>\<open>None\<close>: the item is passed over.\<close>

definition anime_meta :: "syncer_env \<Rightarrow> normalized_strem_id \<Rightarrow> query_meta option" where
  "anime_meta env n =
     (let aniEp = SafeParseInt (ns_Episode n) (- 1)
      in if aniEp = - 1 then Some no_meta
         else case se_maps env (ns_Id n) of
           Inl _ \<Rightarrow> None
         | Inr maps \<Rightarrow>
             (case GetByAnidbEpisode (mr_Maps maps) aniEp of
                None \<Rightarrow> Some no_meta
              | Some epMap \<Rightarrow>
                  (case se_titles env (ns_Id n) of
                     Inl _ \<Rightarrow> None
                   | Inr titles \<Rightarrow>
                       if titles = [] then None
                       else Some (anime_titles [] titles (no_meta\<lparr>qm_season := em_TVDBSeason epMap, qm_ep := GetTMDBEpisode epMap aniEp\<rparr>)))))"

definition imdb_meta :: "syncer_env \<Rightarrow> normalized_strem_id \<Rightarrow> query_meta option" where
  "imdb_meta env n =
     (case se_imdb env (ns_Id n) of
        Inr (Some it) \<Rightarrow>
          Some \<lparr>qm_titles = im_Title it # (if im_OrigTitle it \<noteq> [] \<and> im_OrigTitle it \<noteq> im_Title it then [im_OrigTitle it] else []),
                qm_year = (if 0 < im_Year it then im_Year it else 0),
                qm_season = (if IsSeries n then SafeParseInt (ns_Season n) 0 else 0),
                qm_ep = (if IsSeries n then SafeParseInt (ns_Episode n) 0 else 0)\<rparr>
      | _ \<Rightarrow> None)"

definition meta_of :: "syncer_env \<Rightarrow> normalized_strem_id \<Rightarrow> query_meta option" where
  "meta_of env n = (if ns_IsAnime n then anime_meta env n else imdb_meta env n)"

type_synonym queries_by_sid = "(string \<times> client_query list) list"

definition add_query :: "string \<Rightarrow> client_query \<Rightarrow> queries_by_sid \<Rightarrow> queries_by_sid" where
  "add_query sid q m = AList.update sid ((case map_of m sid of None \<Rightarrow> [] | Some qs \<Rightarrow> qs) @ [q]) m"

definition season_sid :: "normalized_strem_id \<Rightarrow> string" where
  "season_sid n = ToClean n @ '':'' @ ns_Season n"

definition episode_sid :: "normalized_strem_id \<Rightarrow> string" where
  "episode_sid n = season_sid n @ '':'' @ ns_Episode n"

definition search_function :: "normalized_strem_id \<Rightarrow> tz_caps \<Rightarrow> tz_function" where
  "search_function n caps =
     (if IsSeries n \<and> SupportsFunction caps FnTV then FnTV else if SupportsFunction caps FnMovie then FnMovie else FnSearch)"

definition id_queries :: "normalized_strem_id \<Rightarrow> client_query \<Rightarrow> queries_by_sid" where
  "id_queries n q0 =
     (let q1 = cq_Set ''imdbid'' (ns_Id n) q0
      in if IsSeries n \<and> IsSupported q1 ''season'' \<and> ns_Season n \<noteq> [] then
           let q2 = cq_Set ''season'' (ns_Season n) q1
           in if IsSupported q2 ''ep'' \<and> ns_Episode n \<noteq> [] then [(episode_sid n, [cq_Set ''ep'' (ns_Episode n) q2])]
              else [(season_sid n, [q2])]
         else [(ToClean n, [q1])])"

definition title_queries :: "normalized_strem_id \<Rightarrow> query_meta \<Rightarrow> client_query \<Rightarrow> bool \<Rightarrow> string \<Rightarrow> queries_by_sid \<Rightarrow> queries_by_sid" where
  "title_queries n meta q supportsYear title m =
     (if IsSeries n then
        let m1 = add_query (ToClean n) (cq_Set ''q'' title q) m
        in if 0 < qm_season meta then
             let text1 = title @ '' S'' @ ZeroPadInt (qm_season meta) 2; m2 = add_query (season_sid n) (cq_Set ''q'' text1 q) m1
             in if 0 < qm_ep meta then add_query (episode_sid n) (cq_Set ''q'' (text1 @ ''E'' @ ZeroPadInt (qm_ep meta) 2) q) m2 else m2
           else m1
      else if 0 < qm_year meta then
        add_query (ToClean n) (cq_Set ''q'' (title @ (if supportsYear then [] else '' '' @ itoa (qm_year meta))) q) m
      else m)"

definition text_queries :: "normalized_strem_id \<Rightarrow> query_meta \<Rightarrow> client_query \<Rightarrow> queries_by_sid" where
  "text_queries n meta q0 =
     (let q1 = SetT FnSearch q0; supportsYear = IsSupported q1 ''year'';
          q2 = (if supportsYear \<and> qm_year meta \<noteq> 0 then cq_Set ''year'' (itoa (qm_year meta)) q1 else q1)
      in foldl (\<lambda>m title. title_queries n meta q2 supportsYear title m) [] (qm_titles meta))"

definition item_queries :: "normalized_strem_id \<Rightarrow> query_meta \<Rightarrow> client_query \<Rightarrow> queries_by_sid" where
  "item_queries n meta q = (if \<not> ns_IsAnime n \<and> IsSupported q ''imdbid'' then id_queries n q else text_queries n meta q)"

section \<open>The worker\<close>

record syncer_state =
  ss_rows :: "sync_info list"
  ss_cache :: torz_cache
  ss_db :: info_db

fun oks :: "('e + 'a) list \<Rightarrow> 'a list" where
  "oks [] = []"
| "oks (Inl _ # xs) = oks xs"
| "oks (Inr x # xs) = x # oks xs"

fun errs :: "('e + 'a) list \<Rightarrow> 'e list" where
  "errs [] = []"
| "errs (Inl e # xs) = e # errs xs"
| "errs (Inr _ # xs) = errs xs"

text \<open>
  The searches of an item; the order of the list is the one in which the map is ranged over. Those of an id for which one
  fails are dropped. \<open>errors.Join\<close> puts the errors on lines.
\<close>

definition search_sid ::
    "DBDialect \<Rightarrow> int \<Rightarrow> torz_client \<Rightarrow> string \<times> string \<Rightarrow> string \<times> client_query list \<Rightarrow> sync_info list \<times> torz list
      \<Rightarrow> sync_info list \<times> torz list" where
  "search_sid d now client idx sq st =
     (case (idx, sq, st) of ((ty, i), (sid, qs), (t, results)) \<Rightarrow>
        let k = (ty, i, sid) in
        if \<not> sync_ShouldSync now k t then (t, results)
        else
          let answers = map (tc_search client) qs
          in if errs answers \<noteq> [] then (sync_SetSyncError k (go_join [CHR 0x0A] (errs answers)) t, results)
             else let found = concat (oks answers) in (sync_MarkSynced d now k (int (length found)) t, results @ found))"

text \<open>The magnet links of the results: of those with one source link, the first is completed.\<close>

fun ensure_all :: "syncer_env \<Rightarrow> string list \<Rightarrow> torz list \<Rightarrow> torz_cache \<Rightarrow> torz list \<times> torz_cache" where
  "ensure_all env seen [] c = ([], c)"
| "ensure_all env seen (t # ts) c =
     (if HasMissingData t \<and> tz_SourceLink t \<noteq> [] \<and> tz_SourceLink t \<notin> set seen then
        (case EnsureMagnet (se_hier_ok env) (se_get env) c t of
           (_, t', c') \<Rightarrow> apfst (Cons t') (ensure_all env (tz_SourceLink t # seen) ts c'))
      else apfst (Cons t) (ensure_all env seen ts c))"

definition torz_item :: "torz \<Rightarrow> torrent_item" where
  "torz_item t =
     \<lparr>it_Hash = tz_Hash t, it_TorrentTitle = tz_Title t, it_Size = tz_Size t, it_Indexer = tz_Indexer t, it_Source = ''ixr'',
      it_Category = [], it_Seeders = tz_Seeders t, it_Leechers = tz_Leechers t, it_Private = tz_Private t, it_Files = tz_Files t\<rparr>"

definition save_results ::
    "int \<Rightarrow> bool \<Rightarrow> (nat \<Rightarrow> bool) \<Rightarrow> (nat \<Rightarrow> bool) \<Rightarrow> syncer_env \<Rightarrow> normalized_strem_id \<Rightarrow> torz list \<Rightarrow> torz_cache \<Rightarrow> info_db
      \<Rightarrow> torz_cache \<times> info_db" where
  "save_results now enabled ok files_ok env n results c db =
     (case ensure_all env [] results c of (results', c') \<Rightarrow>
        let items = map torz_item (filter (\<lambda>t. \<not> HasMissingData t) results')
        in (c', if items = [] then db
                else fst (Upsert now enabled ok files_ok items (if IsSeries n then ''series'' else ''movie'') False db)))"

text \<open>One item: \<open>None\<close> is the panic for capabilities without limits.\<close>

definition sync_item ::
    "int \<Rightarrow> bool \<Rightarrow> (nat \<Rightarrow> bool) \<Rightarrow> (nat \<Rightarrow> bool) \<Rightarrow> syncer_env \<Rightarrow> torz_client \<Rightarrow> sync_info \<Rightarrow> syncer_state \<Rightarrow> syncer_state option" where
  "sync_item now enabled ok files_ok env client item st =
     (case se_normalize env (xs_SId item) of
        Inl _ \<Rightarrow> Some st
      | Inr n \<Rightarrow>
          (case meta_of env n of
             None \<Rightarrow> Some st
           | Some meta \<Rightarrow>
               (case NewSearchQuery (tc_caps client) (search_function n) of
                  Inl _ \<Rightarrow> Some st
                | Inr q0 \<Rightarrow>
                    (case SetLimit (- 1) q0 of
                       None \<Rightarrow> None
                     | Some q \<Rightarrow>
                         (case foldl (\<lambda>s sq. search_sid (se_dialect env) now client (xs_Type item, xs_Id item) sq s) (ss_rows st, [])
                                 (item_queries n meta q) of
                            (t, results) \<Rightarrow>
                              (case save_results now enabled ok files_ok env n results (ss_cache st) (ss_db st) of
                                 (c, db) \<Rightarrow> Some \<lparr>ss_rows = t, ss_cache = c, ss_db = db\<rparr>))))))"

fun sync_items ::
    "int \<Rightarrow> bool \<Rightarrow> (nat \<Rightarrow> bool) \<Rightarrow> (nat \<Rightarrow> bool) \<Rightarrow> syncer_env \<Rightarrow> torz_client \<Rightarrow> sync_info list \<Rightarrow> syncer_state \<Rightarrow> syncer_state option" where
  "sync_items now enabled ok files_ok env client [] st = Some st"
| "sync_items now enabled ok files_ok env client (item # items) st =
     (case sync_item now enabled ok files_ok env client item st of
        None \<Rightarrow> None
      | Some st' \<Rightarrow> sync_items now enabled ok files_ok env client items st')"

text \<open>The indexers in the order of the map; those that are not in the vault or have another type are passed over.\<close>

fun indexer_groups :: "sync_info list \<Rightarrow> ((string \<times> string) \<times> sync_info list) list" where
  "indexer_groups [] = []"
| "indexer_groups (r # rs) =
     ((xs_Type r, xs_Id r), r # filter (\<lambda>s. xs_Type s = xs_Type r \<and> xs_Id s = xs_Id r) rs)
     # filter (\<lambda>(k, _). k \<noteq> (xs_Type r, xs_Id r)) (indexer_groups rs)"

fun sync_groups ::
    "int \<Rightarrow> bool \<Rightarrow> (nat \<Rightarrow> bool) \<Rightarrow> (nat \<Rightarrow> bool) \<Rightarrow> syncer_env \<Rightarrow> (torznab_indexer \<Rightarrow> string + torz_client) \<Rightarrow> torznab_indexer list
      \<Rightarrow> ((string \<times> string) \<times> sync_info list) list \<Rightarrow> syncer_state \<Rightarrow> (string option \<times> syncer_state) option" where
  "sync_groups now enabled ok files_ok env get_client indexers [] st = Some (None, st)"
| "sync_groups now enabled ok files_ok env get_client indexers ((k, items) # gs) st =
     (case find (\<lambda>i. indexer_key i = k) (rev indexers) of
        None \<Rightarrow> sync_groups now enabled ok files_ok env get_client indexers gs st
      | Some i \<Rightarrow>
          if xi_Type i \<noteq> ''jackett'' then sync_groups now enabled ok files_ok env get_client indexers gs st
          else case get_client i of
            Inl e \<Rightarrow> Some (Some e, st)
          | Inr client \<Rightarrow>
              (case sync_items now enabled ok files_ok env client items st of
                 None \<Rightarrow> None
               | Some st' \<Rightarrow> sync_groups now enabled ok files_ok env get_client indexers gs st'))"

definition torznab_syncer ::
    "int \<Rightarrow> bool \<Rightarrow> (nat \<Rightarrow> bool) \<Rightarrow> (nat \<Rightarrow> bool) \<Rightarrow> syncer_env \<Rightarrow> (torznab_indexer \<Rightarrow> string + torz_client) \<Rightarrow> torznab_indexer list
      \<Rightarrow> syncer_state \<Rightarrow> (string option \<times> syncer_state) option" where
  "torznab_syncer now enabled ok files_ok env get_client indexers st =
     sync_groups now enabled ok files_ok env get_client indexers (indexer_groups (GetSyncPending (se_dialect env) now (ss_rows st))) st"

section \<open>Rows\<close>

definition keeps_key :: "(sync_info \<Rightarrow> sync_info) \<Rightarrow> bool" where
  "keeps_key f \<longleftrightarrow> (\<forall>r. xs_key (f r) = xs_key r)"

lemma keeps_key_updates [simp]:
  "keeps_key (\<lambda>r. r\<lparr>xs_QueuedAt := a\<rparr>)" "keeps_key (\<lambda>r. r\<lparr>xs_SyncedAt := a, xs_ResultCount := b\<rparr>)" "keeps_key (\<lambda>r. r\<lparr>xs_Error := c\<rparr>)"
  by (simp_all add: keeps_key_def xs_key_def)

lemma key_blank_row [simp]: "xs_key (blank_row k) = k"
  by (simp add: xs_key_def blank_row_def)

lemma find_append: "find P (xs @ ys) = (case find P xs of None \<Rightarrow> find P ys | Some x \<Rightarrow> Some x)"
  by (induction xs) auto

lemma row_at_map: "keeps_key f \<Longrightarrow> row_at l (map (\<lambda>r. if xs_key r = k then f r else r) t) = map_option (\<lambda>r. if l = k then f r else r) (row_at l t)"
  by (induction t) (auto simp: row_at_def keeps_key_def)

lemma row_at_None: "row_at k t = None \<longleftrightarrow> \<not> list_ex (\<lambda>r. xs_key r = k) t"
  by (auto simp: row_at_def find_None_iff list_ex_iff)

lemma row_at_upsert:
  assumes "keeps_key f"
  shows "row_at l (upsert_at k f t) =
    (if l = k then Some (f (case row_at k t of None \<Rightarrow> blank_row k | Some r \<Rightarrow> r)) else row_at l t)"
proof (cases "list_ex (\<lambda>r. xs_key r = k) t")
  case True
  then obtain r where "row_at k t = Some r" using row_at_None [of k t] by auto
  moreover have "map_option (\<lambda>r. if l = k then f r else r) (row_at l t) = row_at l t" if "l \<noteq> k" using that by (cases "row_at l t") auto
  ultimately show ?thesis using True row_at_map [OF assms, of l k t] by (auto simp: upsert_at_def)
next
  case False
  then have "row_at k t = None" by (simp add: row_at_None)
  moreover have "xs_key (f (blank_row k)) = k" using assms by (simp add: keeps_key_def)
  ultimately show ?thesis using False by (auto simp: upsert_at_def row_at_def find_append split: option.splits)
qed

lemma row_at_self: "distinct (map xs_key t) \<Longrightarrow> r \<in> set t \<Longrightarrow> row_at (xs_key r) t = Some r"
  by (induction t) (auto simp: row_at_def image_iff)

lemma row_at_in: "row_at k t = Some r \<Longrightarrow> r \<in> set t \<and> xs_key r = k"
  by (auto simp: row_at_def find_Some_iff)

lemma upsert_keys: "keeps_key f \<Longrightarrow> distinct (map xs_key t) \<Longrightarrow> distinct (map xs_key (upsert_at k f t))"
proof -
  assume f: "keeps_key f" and d: "distinct (map xs_key t)"
  have "map xs_key (map (\<lambda>r. if xs_key r = k then f r else r) t) = map xs_key t" using f by (simp add: keeps_key_def)
  then show ?thesis using f d by (auto simp: upsert_at_def keeps_key_def list_ex_iff simp del: map_map)
qed

text \<open>
  (equivalence) For rows that were queued, whose times the database stored, the query for pending rows and the check of
  a row agree at every moment except the one at which the row is exactly a day old.
\<close>

theorem pending_iff_ShouldSync:
  assumes "xs_QueuedAt r \<noteq> None" and "\<And>s. xs_SyncedAt r = Some s \<Longrightarrow> db_time d s = s \<and> s + staleTime \<noteq> now"
  shows "sync_pending d now r \<longleftrightarrow> info_ShouldSync now r"
proof (cases "xs_SyncedAt r")
  case (Some s)
  have floor: "s \<le> t - t mod 1000000000 \<longleftrightarrow> s \<le> t" if "s mod 1000000000 = 0" for s t :: int
  proof
    assume "s \<le> t"
    then have "s div 1000000000 * 1000000000 \<le> t div 1000000000 * 1000000000" by (simp add: zdiv_mono1)
    moreover have "s div 1000000000 * 1000000000 = s" using that div_mult_mod_eq [of s 1000000000] by simp
    ultimately show "s \<le> t - t mod 1000000000" by (simp only: minus_mod_eq_div_mult)
  next
    assume "s \<le> t - t mod 1000000000"
    moreover have "0 \<le> t mod 1000000000" by simp
    ultimately show "s \<le> t" by linarith
  qed
  have "s \<le> db_time d (now - staleTime) \<longleftrightarrow> s \<le> now - staleTime"
    using assms(2) [OF Some] floor [of s "now - staleTime"] by (auto simp: db_time_def floor_second_def split: if_splits)
  then show ?thesis using assms(1) assms(2) [OF Some] Some by (auto simp: sync_pending_def info_ShouldSync_def)
qed (use assms(1) in \<open>auto simp: sync_pending_def info_ShouldSync_def\<close>)

theorem pending_iff_ShouldSync_witness:
  "sync_pending SQLite (staleTime + 10000000001) ((blank_row (''jackett'', ''x'', ''tt1''))\<lparr>xs_QueuedAt := Some 20000000000, xs_SyncedAt := Some 10000000000\<rparr>)
   \<longleftrightarrow> info_ShouldSync (staleTime + 10000000001) ((blank_row (''jackett'', ''x'', ''tt1''))\<lparr>xs_QueuedAt := Some 20000000000, xs_SyncedAt := Some 10000000000\<rparr>)"
  by (rule pending_iff_ShouldSync) (simp_all add: db_time_def floor_second_def)

lemma db_time_mono: "a \<le> b \<Longrightarrow> db_time d a \<le> db_time d b"
  using zdiv_mono1 [of a b 1000000000] by (simp add: db_time_def floor_second_def minus_mod_eq_div_mult)

lemma pending_later: "sync_pending d now r \<Longrightarrow> now \<le> now' \<Longrightarrow> sync_pending d now' r"
  using db_time_mono [of "now - staleTime" "now' - staleTime" d] by (auto simp: sync_pending_def split: option.splits)

section \<open>Which rows a run touches\<close>

lemma row_MarkSynced:
  "row_at l (sync_MarkSynced d now k c t) =
    (if l = k \<and> snd (snd k) \<noteq> []
     then Some ((case row_at k t of None \<Rightarrow> blank_row k | Some r \<Rightarrow> r)\<lparr>xs_SyncedAt := Some (db_time d now), xs_ResultCount := Some c\<rparr>)
     else row_at l t)"
  by (simp add: sync_MarkSynced_def row_at_upsert)

lemma row_SetSyncError:
  "row_at l (sync_SetSyncError k e t) =
    (if l = k \<and> snd (snd k) \<noteq> [] then Some ((case row_at k t of None \<Rightarrow> blank_row k | Some r \<Rightarrow> r)\<lparr>xs_Error := Some e\<rparr>) else row_at l t)"
  by (simp add: sync_SetSyncError_def row_at_upsert)

abbreviation search_all ::
    "DBDialect \<Rightarrow> int \<Rightarrow> torz_client \<Rightarrow> string \<times> string \<Rightarrow> queries_by_sid \<Rightarrow> sync_info list \<times> torz list \<Rightarrow> sync_info list \<times> torz list" where
  "search_all d now client idx m st \<equiv> foldl (\<lambda>s sq. search_sid d now client idx sq s) st m"

lemma search_sid_other:
  "sid \<noteq> fst sq \<Longrightarrow> row_at (ty, i, sid) (fst (search_sid d now client (ty, i) sq st)) = row_at (ty, i, sid) (fst st)"
  by (auto simp: search_sid_def row_MarkSynced row_SetSyncError Let_def split: prod.splits)

lemma search_all_other:
  "sid \<notin> fst ` set m \<Longrightarrow> row_at (ty, i, sid) (fst (search_all d now client (ty, i) m st)) = row_at (ty, i, sid) (fst st)"
  by (induction m arbitrary: st) (simp_all add: search_sid_other)

lemma sync_item_cases:
  assumes "sync_item now enabled ok files_ok env client item st = Some st'" and "se_normalize env (xs_SId item) = Inr n"
  shows "ss_rows st' = ss_rows st
    \<or> (\<exists>meta q. meta_of env n = Some meta
         \<and> ss_rows st' = fst (search_all (se_dialect env) now client (xs_Type item, xs_Id item) (item_queries n meta q) (ss_rows st, [])))"
  using assms by (auto simp: sync_item_def split: option.splits sum.splits prod.splits) (metis fst_conv)

lemma keys_add_query: "fst ` set (add_query sid q m) = insert sid (fst ` set m)"
  by (simp add: add_query_def dom_update)

lemma keys_title_queries: "fst ` set (title_queries n meta q b title m) \<subseteq> fst ` set m \<union> {ToClean n, season_sid n, episode_sid n}"
  by (auto simp: title_queries_def keys_add_query Let_def)

lemma union_trans: "A \<subseteq> B \<union> C \<Longrightarrow> B \<subseteq> D \<union> C \<Longrightarrow> A \<subseteq> D \<union> C"
  by blast

lemma keys_text_queries: "fst ` set (text_queries n meta q) \<subseteq> {ToClean n, season_sid n, episode_sid n}"
proof -
  have "fst ` set (foldl (\<lambda>m title. title_queries n meta q2 b title m) m titles) \<subseteq> fst ` set m \<union> {ToClean n, season_sid n, episode_sid n}"
    for q2 b m titles
  proof (induction titles arbitrary: m)
    case (Cons title titles)
    show ?case unfolding foldl_Cons by (rule union_trans [OF Cons.IH keys_title_queries])
  qed auto
  from this [of _ _ "[]"] show ?thesis by (auto simp: text_queries_def Let_def)
qed

lemma keys_item_queries: "fst ` set (item_queries n meta q) \<subseteq> {ToClean n, season_sid n, episode_sid n}"
proof (cases "\<not> ns_IsAnime n \<and> IsSupported q ''imdbid''")
  case True
  then show ?thesis by (simp add: item_queries_def id_queries_def Let_def)
next
  case False
  then show ?thesis using keys_text_queries [of n meta q] by (simp only: item_queries_def if_False)
qed

text \<open>An id of an anime episode is none of those under which its searches are noted.\<close>

lemma anime_sid_not_noted:
  assumes "compute_stream_id lk sid = Inr n" and "ns_IsAnime n" and "ns_Id n \<noteq> []" and "ns_Episode n \<noteq> []"
    and "has_prefix sid ''anidb:'' \<longrightarrow> ns_Episode n \<noteq> ns_Season n"
  shows "sid \<notin> {ToClean n, season_sid n, episode_sid n}"
proof -
  have clean: "ToClean n = ''anidb:'' @ ns_Id n" using assms(2,3) by (simp add: ToClean_def)
  show ?thesis
  proof (cases "cut_prefix sid ''anidb:''")
    case None
    then have "\<not> has_prefix sid ''anidb:''" by (simp add: cut_prefix_def split: if_splits)
    then show ?thesis by (auto simp: season_sid_def episode_sid_def clean has_prefix_def)
  next
    case (Some rest)
    have "\<not> has_prefix sid ''tt''" using cut_prefix_SomeD [OF Some] by (simp add: has_prefix_def)
    moreover obtain i e b where c: "cut rest CHR '':'' = (i, e, b)" by (cases "cut rest CHR '':''")
    ultimately have n: "ns_Id n = i" "ns_Episode n = e" using assms(1) Some by (auto simp: compute_stream_id_def split: sum.splits)
    have "rest = i @ '':'' @ e" using cut_spec [of rest "CHR '':''"] c assms(4) n by (auto split: if_splits)
    then have "sid = ToClean n @ '':'' @ ns_Episode n" using cut_prefix_SomeD [OF Some] n clean by simp
    moreover have "has_prefix sid ''anidb:''" using cut_prefix_SomeD [OF Some] by (simp add: has_prefix_def)
    ultimately show ?thesis using assms(4,5) by (auto simp: season_sid_def episode_sid_def)
  qed
qed

text \<open>
  C26: (error) An anime episode that was queued stays pending: whatever its searches answer, its run notes them under other
  ids, so it is searched for again by every run, whether it was asked for by its AniDB, Kitsu or MAL id. This is for an
  id that is found in the anime tables, in a table with one row for each item; and an AniDB id whose episode number equals
  the season it is found in is excepted, since it is also the id of that season, under which a search is noted.
\<close>

theorem anime_item_stays_pending:
  assumes "compute_stream_id lk (xs_SId item) = Inr n" and "se_normalize env (xs_SId item) = Inr n"
    and "ns_IsAnime n" and "ns_Id n \<noteq> []" and "ns_Episode n \<noteq> []" and "has_prefix (xs_SId item) ''anidb:'' \<longrightarrow> ns_Episode n \<noteq> ns_Season n"
    and "distinct (map xs_key (ss_rows st))" and "item \<in> set (GetSyncPending d now (ss_rows st))" and "now \<le> now'"
    and "sync_item now enabled ok files_ok env client item st = Some st'"
  shows "item \<in> set (GetSyncPending d now' (ss_rows st'))"
proof -
  have other: "xs_SId item \<notin> fst ` set (item_queries n meta q)" for meta q
    using anime_sid_not_noted [OF assms(1,3-6)] keys_item_queries [of n meta q] by blast
  have k: "xs_key item = (xs_Type item, xs_Id item, xs_SId item)" by (simp add: xs_key_def)
  have "row_at (xs_key item) (ss_rows st') = row_at (xs_key item) (ss_rows st)"
    using sync_item_cases [OF assms(10,2)] search_all_other [OF other] unfolding k by (metis fst_conv)
  moreover have "row_at (xs_key item) (ss_rows st) = Some item" using assms(7,8) by (intro row_at_self) (simp_all add: GetSyncPending_def)
  ultimately have "item \<in> set (ss_rows st')" using row_at_in by metis
  then show ?thesis using assms(8) pending_later [OF _ assms(9)] by (simp add: GetSyncPending_def)
qed

text \<open>
  (error) A film without a year is never searched for by title, and stays pending when the indexer is not asked by IMDb
  id.
\<close>

theorem yearless_film_stays_pending:
  assumes "se_normalize env (xs_SId item) = Inr n" and "\<not> ns_IsAnime n" and "\<not> IsSeries n" and "se_imdb env (ns_Id n) = Inr (Some it)"
    and "im_Year it \<le> 0" and "\<And>caps t. tc_caps client = Inr caps \<Longrightarrow> \<not> SupportsParam caps t ''imdbid''"
    and "sync_item now enabled ok files_ok env client item st = Some st'"
  shows "st' = st"
proof -
  have none: "foldl (\<lambda>m title. title_queries n meta q b title m) [] titles = []" if "qm_year meta = 0" for meta q b titles
    using assms(3) that by (induction titles) (simp_all add: title_queries_def)
  have "item_queries n meta q = []" if "meta_of env n = Some meta" "NewSearchQuery (tc_caps client) (search_function n) = Inr q0" "SetLimit (- 1) q0 = Some q"
    for meta q0 q
  proof -
    note a = that
    obtain caps where c: "tc_caps client = Inr caps" "cq_caps q0 = caps"
      using a(2) by (auto simp: NewSearchQuery_def SetT_def cq_Set_def Let_def split: sum.splits)
    then have "cq_caps q = caps" using a(3) by (auto simp: SetLimit_def cq_Set_def)
    then have "\<not> IsSupported q ''imdbid''" using assms(6) [OF c(1)] by (simp add: IsSupported_def)
    moreover have "qm_year meta = 0" using a(1) assms(2,4,5) by (auto simp: meta_of_def imdb_meta_def)
    ultimately show ?thesis using none by (simp add: item_queries_def text_queries_def Let_def)
  qed
  then show ?thesis
    using assms(1,7) by (auto simp: sync_item_def save_results_def split: option.splits sum.splits prod.splits)
qed

text \<open>
  (error) An indexer whose capabilities give no limits takes the process down with the first item that is searched for.
\<close>

theorem no_limits_panics:
  assumes "se_normalize env (xs_SId item) = Inr n" and "meta_of env n = Some meta" and "tc_caps client = Inr caps" and "cp_Limits caps = None"
  shows "sync_items now enabled ok files_ok env client (item # items) st = None"
proof -
  have "cq_caps (SetT t \<lparr>cq_caps = caps, cq_t = FnSearch, cq_values = []\<rparr>) = caps" for t by (simp add: SetT_def cq_Set_def Let_def)
  then show ?thesis using assms by (simp add: sync_item_def NewSearchQuery_def SetLimit_def)
qed

section \<open>An episode is synced\<close>

lemma distinct_add_query: "distinct (map fst m) \<Longrightarrow> distinct (map fst (add_query sid q m))"
  by (simp add: add_query_def distinct_update)

lemma distinct_title_queries: "distinct (map fst m) \<Longrightarrow> distinct (map fst (title_queries n meta q b title m))"
  by (simp add: title_queries_def distinct_add_query Let_def)

lemma distinct_text_queries: "distinct (map fst (text_queries n meta q))"
proof -
  have "distinct (map fst m) \<Longrightarrow> distinct (map fst (foldl (\<lambda>m title. title_queries n meta q2 b title m) m titles))" for q2 b m titles
    by (induction titles arbitrary: m) (simp_all add: distinct_title_queries)
  from this [of "[]"] show ?thesis by (simp add: text_queries_def Let_def)
qed

lemma title_queries_mono: "fst ` set m \<subseteq> fst ` set (title_queries n meta q b title m)"
  by (auto simp: title_queries_def keys_add_query Let_def)

lemma episode_in_text_queries:
  assumes "IsSeries n" and "0 < qm_season meta" and "0 < qm_ep meta" and "qm_titles meta = title # titles"
  shows "episode_sid n \<in> fst ` set (text_queries n meta q)"
proof -
  have mono: "k \<in> fst ` set m \<Longrightarrow> k \<in> fst ` set (foldl (\<lambda>m title. title_queries n meta q2 b title m) m ts)" for k q2 b m ts
  proof (induction ts arbitrary: m)
    case (Cons t ts)
    from subsetD [OF title_queries_mono Cons.prems] show ?case unfolding foldl_Cons by (rule Cons.IH)
  qed simp
  have "episode_sid n \<in> fst ` set (title_queries n meta q2 b title [])" for q2 b
    using assms(1-3) by (simp add: title_queries_def keys_add_query Let_def)
  then show ?thesis using mono assms(4) by (simp add: text_queries_def Let_def)
qed

lemma no_errs: "(\<And>q. \<exists>ts. f q = Inr ts) \<Longrightarrow> errs (map f qs) = []"
proof (induction qs)
  case (Cons q qs)
  obtain ts where "f q = Inr ts" using Cons.prems [of q] by blast
  then show ?case using Cons by simp
qed simp

lemma search_all_marks:
  assumes "distinct (map fst m)" and "sid \<in> fst ` set m" and "sid \<noteq> []" and "sync_ShouldSync now (ty, i, sid) (fst st)"
    and "\<And>q. \<exists>ts. tc_search client q = Inr ts"
  shows "\<exists>c. row_at (ty, i, sid) (fst (search_all d now client (ty, i) m st))
    = Some ((case row_at (ty, i, sid) (fst st) of None \<Rightarrow> blank_row (ty, i, sid) | Some r \<Rightarrow> r)
              \<lparr>xs_SyncedAt := Some (db_time d now), xs_ResultCount := Some c\<rparr>)"
proof -
  obtain qs where "(sid, qs) \<in> set m" using assms(2) by auto
  then obtain a b where m: "m = a @ (sid, qs) # b" by (meson split_list)
  then have ab: "sid \<notin> fst ` set a" "sid \<notin> fst ` set b" using assms(1) by auto
  define st1 where "st1 = search_all d now client (ty, i) a st"
  have st1: "row_at (ty, i, sid) (fst st1) = row_at (ty, i, sid) (fst st)" unfolding st1_def using search_all_other [OF ab(1)] .
  have "errs (map (tc_search client) qs) = []" using assms(5) by (rule no_errs)
  moreover have "sync_ShouldSync now (ty, i, sid) (fst st1)" using assms(4) st1 by (simp add: sync_ShouldSync_def)
  ultimately have "\<exists>c. row_at (ty, i, sid) (fst (search_sid d now client (ty, i) (sid, qs) st1))
      = Some ((case row_at (ty, i, sid) (fst st1) of None \<Rightarrow> blank_row (ty, i, sid) | Some r \<Rightarrow> r)
              \<lparr>xs_SyncedAt := Some (db_time d now), xs_ResultCount := Some c\<rparr>)"
    using assms(3) by (cases st1) (auto simp: search_sid_def row_MarkSynced Let_def)
  then show ?thesis using st1 search_all_other [OF ab(2)] m by (simp add: st1_def)
qed

text \<open>
  C17: (liveness) One run of the syncer for an item that is due leaves the item's row with the time of this run as its time of
  synchronisation, and the row is not pending for a day from that time on (on SQLite the time is cut to the second). This is
  for an item with the id of an episode that is no anime, whose season and number are positive and whose title is known
  from its IMDb id; an indexer whose capabilities are known and name limits, and none of whose functions takes an IMDb id;
  and searches that all answer.
\<close>

theorem episode_is_synced:
  assumes "se_normalize env (xs_SId item) = Inr n" and "\<not> ns_IsAnime n" and "xs_SId item = episode_sid n"
    and "0 < SafeParseInt (ns_Season n) 0" and "0 < SafeParseInt (ns_Episode n) 0" and "se_imdb env (ns_Id n) = Inr (Some it)"
    and "tc_caps client = Inr caps" and "cp_Limits caps = Some lim" and "\<And>t. \<not> SupportsParam caps t ''imdbid''"
    and "\<And>q. \<exists>ts. tc_search client q = Inr ts"
    and "row_at (xs_key item) (ss_rows st) = Some item" and "info_ShouldSync now item"
  shows "\<exists>st' r. sync_item now enabled ok files_ok env client item st = Some st' \<and> row_at (xs_key item) (ss_rows st') = Some r
    \<and> xs_SyncedAt r = Some (db_time (se_dialect env) now) \<and> xs_QueuedAt r = xs_QueuedAt item
    \<and> (\<forall>now' < db_time (se_dialect env) now + staleTime. \<not> sync_pending (se_dialect env) now' r)"
proof -
  let ?d = "se_dialect env"
  have series: "IsSeries n" using assms(4) by (auto simp: IsSeries_def SafeParseInt_def split: option.splits)
  obtain meta where meta: "meta_of env n = Some meta" "0 < qm_season meta" "0 < qm_ep meta" "\<exists>t ts. qm_titles meta = t # ts"
    using assms(2,4,5,6) series by (simp add: meta_of_def imdb_meta_def)
  obtain q0 where q0: "NewSearchQuery (tc_caps client) (search_function n) = Inr q0" "cq_caps q0 = caps"
    using assms(7) by (simp add: NewSearchQuery_def SetT_def cq_Set_def Let_def)
  obtain q where q: "SetLimit (- 1) q0 = Some q" "cq_caps q = caps"
    using assms(8) q0(2) by (cases lim) (simp add: SetLimit_def cq_Set_def)
  have "\<not> IsSupported q ''imdbid''" using assms(9) q(2) by (simp add: IsSupported_def)
  then have iq: "item_queries n meta q = text_queries n meta q" by (simp add: item_queries_def)
  have k: "xs_key item = (xs_Type item, xs_Id item, xs_SId item)" by (simp add: xs_key_def)
  have "xs_SId item \<in> fst ` set (item_queries n meta q)"
    using episode_in_text_queries [OF series meta(2,3)] meta(4) assms(3) iq by auto
  moreover have "distinct (map fst (item_queries n meta q))" using distinct_text_queries iq by simp
  moreover have "xs_SId item \<noteq> []" using assms(3) by (simp add: episode_sid_def)
  moreover have "sync_ShouldSync now (xs_key item) (ss_rows st)" using assms(11,12) by (simp add: sync_ShouldSync_def)
  ultimately obtain c where row: "row_at (xs_key item) (fst (search_all ?d now client (xs_Type item, xs_Id item) (item_queries n meta q) (ss_rows st, [])))
      = Some (item\<lparr>xs_SyncedAt := Some (db_time ?d now), xs_ResultCount := Some c\<rparr>)"
    using search_all_marks [where m = "item_queries n meta q" and st = "(ss_rows st, [])" and d = ?d] assms(10,11)
    unfolding k by fastforce
  have "\<exists>st'. sync_item now enabled ok files_ok env client item st = Some st'
      \<and> ss_rows st' = fst (search_all ?d now client (xs_Type item, xs_Id item) (item_queries n meta q) (ss_rows st, []))"
    using assms(1) meta(1) q0(1) q(1) by (simp add: sync_item_def case_prod_beta)
  then obtain st' where st': "sync_item now enabled ok files_ok env client item st = Some st'"
      "ss_rows st' = fst (search_all ?d now client (xs_Type item, xs_Id item) (item_queries n meta q) (ss_rows st, []))" by blast
  have "\<not> sync_pending ?d now' (item\<lparr>xs_SyncedAt := Some (db_time ?d now), xs_ResultCount := Some c\<rparr>)"
    if "now' < db_time ?d now + staleTime" for now'
  proof -
    have "db_time ?d (now' - staleTime) \<le> now' - staleTime" by (simp add: db_time_def floor_second_def)
    then show ?thesis using that by (auto simp: sync_pending_def split: option.splits)
  qed
  then show ?thesis using st' row by auto
qed

section \<open>Errors that stay\<close>

text \<open>
  (error) The error of an earlier run stays in the row when a later run succeeds.
\<close>

theorem error_survives_success:
  assumes "snd (snd k) \<noteq> []"
  shows "\<exists>r. row_at k (sync_MarkSynced d now k c (sync_SetSyncError k e t)) = Some r
    \<and> xs_Error r = Some e \<and> xs_SyncedAt r = Some (db_time d now)"
  using assms by (simp add: row_MarkSynced row_SetSyncError)

theorem error_survives_success_witness:
  "\<exists>r. row_at (''jackett'', ''x'', ''tt1'') (sync_MarkSynced Postgres 5 (''jackett'', ''x'', ''tt1'') 3 (sync_SetSyncError (''jackett'', ''x'', ''tt1'') ''timeout'' [])) = Some r
    \<and> xs_Error r = Some ''timeout'' \<and> xs_SyncedAt r = Some 5"
  using error_survives_success [of "(''jackett'', ''x'', ''tt1'')" Postgres 5 3 "''timeout''" "[]"] by (simp add: db_time_def)

section \<open>Samples\<close>

definition sample_kitsu :: anime_lookup where
  "sample_kitsu = \<lparr>season_by_anidb = (\<lambda>_. Inr ''1''), anidb_by_kitsu = (\<lambda>_. Inr (''12'', ''1'')), anidb_by_mal = (\<lambda>_. Inl ''none'')\<rparr>"

definition sample_syncer :: "int \<Rightarrow> syncer_env" where
  "sample_syncer year =
     \<lparr>se_normalize = compute_stream_id sample_kitsu, se_maps = (\<lambda>_. Inr \<lparr>mr_Maps = [], mr_grouped = None, mr_idx = None\<rparr>),
      se_titles = (\<lambda>_. Inr []), se_imdb = (\<lambda>_. Inr (Some \<lparr>im_Title = ''T'', im_OrigTitle = [], im_Year = year\<rparr>)),
      se_dialect = Postgres, se_hier_ok = (\<lambda>_. True), se_get = (\<lambda>_. Inl ''down'')\<rparr>"

definition sample_client :: "(int \<times> int) option \<Rightarrow> torz_client" where
  "sample_client limits = \<lparr>tc_caps = Inr (sample_caps\<lparr>cp_Limits := limits\<rparr>), tc_search = (\<lambda>_. Inr [])\<rparr>"

definition queued_row :: "string \<Rightarrow> sync_info" where
  "queued_row sid = (blank_row (''jackett'', ''x'', sid))\<lparr>xs_QueuedAt := Some 1\<rparr>"

definition sample_state :: "string \<Rightarrow> syncer_state" where
  "sample_state sid = \<lparr>ss_rows = [queued_row sid], ss_cache = [], ss_db = \<lparr>db_infos = [], db_files = []\<rparr>\<rparr>"

lemma no_imdb_param: "\<not> SupportsParam (sample_caps\<lparr>cp_Limits := l\<rparr>) t ''imdbid''"
  by (cases t) (simp_all add: SupportsParam_def getSearchingItem_def sample_caps_def listed_item_def no_item_def unmarshal_params_def)

lemma queued_row_simps [simp]:
  "xs_SId (queued_row sid) = sid" "xs_key (queued_row sid) = (''jackett'', ''x'', sid)" "xs_SyncedAt (queued_row sid) = None"
  "xs_QueuedAt (queued_row sid) = Some 1"
  by (simp_all add: queued_row_def blank_row_def xs_key_def)

theorem anime_item_stays_pending_witness:
  "\<exists>st'. sync_item 2 True (\<lambda>_. True) (\<lambda>_. True) (sample_syncer 2000) (sample_client (Some (100, 50))) (queued_row ''kitsu:7:5'') (sample_state ''kitsu:7:5'') = Some st'
    \<and> queued_row ''kitsu:7:5'' \<in> set (GetSyncPending Postgres 9 (ss_rows st'))"
proof -
  let ?n = "\<lparr>ns_IsAnime = True, ns_Id = ''12'', ns_Episode = ''5'', ns_Season = ''1''\<rparr>"
  have n: "compute_stream_id sample_kitsu (xs_SId (queued_row ''kitsu:7:5'')) = Inr ?n" by (simp, code_simp)
  have e: "se_normalize (sample_syncer 2000) (xs_SId (queued_row ''kitsu:7:5'')) = Inr ?n" using n by (simp add: sample_syncer_def)
  have m: "meta_of (sample_syncer 2000) ?n = Some no_meta"
    by (simp add: meta_of_def anime_meta_def sample_syncer_def Let_def)
  obtain st' where st': "sync_item 2 True (\<lambda>_. True) (\<lambda>_. True) (sample_syncer 2000) (sample_client (Some (100, 50))) (queued_row ''kitsu:7:5'') (sample_state ''kitsu:7:5'') = Some st'"
    using e m by (simp add: sync_item_def sample_client_def NewSearchQuery_def SetT_def cq_Set_def SetLimit_def Let_def case_prod_beta del: queued_row_simps)
  have "distinct (map xs_key (ss_rows (sample_state ''kitsu:7:5'')))"
      "queued_row ''kitsu:7:5'' \<in> set (GetSyncPending Postgres 2 (ss_rows (sample_state ''kitsu:7:5'')))"
    by (simp_all add: sample_state_def GetSyncPending_def sync_pending_def)
  from anime_item_stays_pending [OF n e _ _ _ _ this _ st', of 9] show ?thesis using st' by simp
qed

theorem yearless_film_stays_pending_witness:
  "sync_item 2 True (\<lambda>_. True) (\<lambda>_. True) (sample_syncer 0) (sample_client (Some (100, 50))) (queued_row ''tt5'') (sample_state ''tt5'')
    = Some (sample_state ''tt5'')"
proof -
  let ?n = "\<lparr>ns_IsAnime = False, ns_Id = ''tt5'', ns_Episode = [], ns_Season = []\<rparr>"
  have "compute_stream_id sample_kitsu ''tt5'' = Inr ?n" by code_simp
  then have e: "se_normalize (sample_syncer 0) (xs_SId (queued_row ''tt5'')) = Inr ?n" by (simp add: sample_syncer_def)
  obtain st' where st': "sync_item 2 True (\<lambda>_. True) (\<lambda>_. True) (sample_syncer 0) (sample_client (Some (100, 50))) (queued_row ''tt5'') (sample_state ''tt5'') = Some st'"
    using e by (simp add: sync_item_def meta_of_def imdb_meta_def sample_client_def sample_syncer_def NewSearchQuery_def SetT_def cq_Set_def
        SetLimit_def Let_def case_prod_beta del: queued_row_simps)
  have "st' = sample_state ''tt5''"
    using yearless_film_stays_pending [OF e _ _ _ _ _ st', of "\<lparr>im_Title = ''T'', im_OrigTitle = [], im_Year = 0\<rparr>"] no_imdb_param
    by (auto simp: sample_client_def sample_syncer_def IsSeries_def)
  with st' show ?thesis by simp
qed

theorem no_limits_panics_witness:
  "sync_items 2 True (\<lambda>_. True) (\<lambda>_. True) (sample_syncer 2000) (sample_client None) [queued_row ''tt5''] (sample_state ''tt5'') = None"
proof -
  let ?n = "\<lparr>ns_IsAnime = False, ns_Id = ''tt5'', ns_Episode = [], ns_Season = []\<rparr>"
  have "compute_stream_id sample_kitsu ''tt5'' = Inr ?n" by code_simp
  then have e: "se_normalize (sample_syncer 2000) (xs_SId (queued_row ''tt5'')) = Inr ?n" by (simp add: sample_syncer_def)
  obtain meta where "meta_of (sample_syncer 2000) ?n = Some meta" by (simp add: meta_of_def imdb_meta_def sample_syncer_def)
  from no_limits_panics [OF e this, of "sample_client None" "sample_caps\<lparr>cp_Limits := None\<rparr>"] show ?thesis by (simp add: sample_client_def)
qed

theorem episode_is_synced_witness:
  "\<exists>st' r. sync_item 2 True (\<lambda>_. True) (\<lambda>_. True) (sample_syncer 2000) (sample_client (Some (100, 50))) (queued_row ''tt1:1:2'') (sample_state ''tt1:1:2'') = Some st'
    \<and> row_at (''jackett'', ''x'', ''tt1:1:2'') (ss_rows st') = Some r \<and> xs_SyncedAt r = Some 2"
proof -
  let ?n = "\<lparr>ns_IsAnime = False, ns_Id = ''tt1'', ns_Episode = ''2'', ns_Season = ''1''\<rparr>"
  have "compute_stream_id sample_kitsu ''tt1:1:2'' = Inr ?n" by code_simp
  then have e: "se_normalize (sample_syncer 2000) (xs_SId (queued_row ''tt1:1:2'')) = Inr ?n" by (simp add: sample_syncer_def)
  have num: "0 < SafeParseInt ''1'' 0" "0 < SafeParseInt ''2'' 0" by (simp_all add: SafeParseInt_def atoi_def is_digit_def digit_val_def Let_def)
  have sid: "xs_SId (queued_row ''tt1:1:2'') = episode_sid ?n" by (simp add: episode_sid_def season_sid_def ToClean_def)
  have row: "row_at (xs_key (queued_row ''tt1:1:2'')) (ss_rows (sample_state ''tt1:1:2'')) = Some (queued_row ''tt1:1:2'')"
    by (simp add: sample_state_def row_at_def)
  have it: "se_imdb (sample_syncer 2000) (ns_Id ?n) = Inr (Some \<lparr>im_Title = ''T'', im_OrigTitle = [], im_Year = 2000\<rparr>)"
    by (simp add: sample_syncer_def)
  have caps: "tc_caps (sample_client (Some (100, 50))) = Inr (sample_caps\<lparr>cp_Limits := Some (100, 50)\<rparr>)"
    and ok: "\<And>q. \<exists>ts. tc_search (sample_client (Some (100, 50))) q = Inr ts" by (simp_all add: sample_client_def)
  have lim: "cp_Limits (sample_caps\<lparr>cp_Limits := Some (100, 50)\<rparr>) = Some (100, 50)" by simp
  have anime: "\<not> ns_IsAnime ?n" and n1: "0 < SafeParseInt (ns_Season ?n) 0" and n2: "0 < SafeParseInt (ns_Episode ?n) 0" using num by simp_all
  have due: "info_ShouldSync 2 (queued_row ''tt1:1:2'')" by (simp add: info_ShouldSync_def)
  have dt: "db_time (se_dialect (sample_syncer 2000)) 2 = 2" by (simp add: sample_syncer_def db_time_def)
  show ?thesis
    using episode_is_synced [OF e anime sid n1 n2 it caps lim no_imdb_param ok row due, of True "\<lambda>_. True" "\<lambda>_. True"]
    unfolding dt queued_row_simps by blast
qed

end
