(* ===== verification/Userdata.thy ===== *)
theory Userdata
  imports Auth Torznab Worker_Queue
begin

text \<open>
  The user data of the Stremio addons (\<open>internal/stremio/userdata\<close>): the saved configurations with their cache and the
  accounts linked to them, the stores of a user and the check of magnets against them, and the configuration of the
  torrent addon (\<open>internal/stremio/torz/userdata.go\<close>).

  The type of the value is a parameter, as in the code; \<open>json.Marshal\<close> and \<open>json.Unmarshal\<close> for it are the fields of a
  codec. A client of a store is its name as in \<open>Auth\<close>, \<open>None\<close> where the code has a nil client.
\<close>

section \<open>Saved user data\<close>

record ud_row =
  ur_Addon :: string
  ur_Key :: string
  ur_Value :: string
  ur_Name :: string
  ur_Disabled :: bool
  ur_CAt :: int
  ur_UAt :: int

record 'u ud_codec =
  uc_Marshal :: "'u \<Rightarrow> string"
  uc_Unmarshal :: "string \<Rightarrow> string + 'u"

record 'u stremio_ud =
  su_Key :: string
  su_Value :: 'u
  su_Name :: string
  su_CAt :: int
  su_UAt :: int

definition active_row :: "string \<Rightarrow> string \<Rightarrow> ud_row \<Rightarrow> bool" where
  "active_row addon key r \<longleftrightarrow> ur_Addon r = addon \<and> ur_Key r = key \<and> \<not> ur_Disabled r"

definition scan_ud :: "'u ud_codec \<Rightarrow> ud_row \<Rightarrow> string + 'u stremio_ud" where
  "scan_ud c r =
     (case uc_Unmarshal c (ur_Value r) of
        Inl e \<Rightarrow> Inl e
      | Inr v \<Rightarrow> Inr \<lparr>su_Key = ur_Key r, su_Value = v, su_Name = ur_Name r, su_CAt = ur_CAt r, su_UAt = ur_UAt r\<rparr>)"

fun scan_uds :: "'u ud_codec \<Rightarrow> ud_row list \<Rightarrow> string + 'u stremio_ud list" where
  "scan_uds c [] = Inr []"
| "scan_uds c (r # rs) =
     (case scan_ud c r of Inl e \<Rightarrow> Inl e | Inr u \<Rightarrow> (case scan_uds c rs of Inl e \<Rightarrow> Inl e | Inr us \<Rightarrow> Inr (u # us)))"

definition ud_List :: "'u ud_codec \<Rightarrow> string \<Rightarrow> ud_row list \<Rightarrow> string + 'u stremio_ud list" where
  "ud_List c addon t = scan_uds c (filter (\<lambda>r. ur_Addon r = addon \<and> \<not> ur_Disabled r) t)"

definition ud_GetOptions :: "string \<Rightarrow> ud_row list \<Rightarrow> (string \<times> string) list" where
  "ud_GetOptions addon t = ([], []) # map (\<lambda>r. (ur_Key r, ur_Name r)) (filter (\<lambda>r. ur_Addon r = addon \<and> \<not> ur_Disabled r) t)"

definition ud_Get :: "'u ud_codec \<Rightarrow> string \<Rightarrow> string \<Rightarrow> ud_row list \<Rightarrow> string + 'u stremio_ud option" where
  "ud_Get c addon key t =
     (case find (active_row addon key) t of
        None \<Rightarrow> Inr None
      | Some r \<Rightarrow> (case scan_ud c r of Inl e \<Rightarrow> Inl e | Inr u \<Rightarrow> Inr (Some u)))"

definition ud_Update :: "'u ud_codec \<Rightarrow> int \<Rightarrow> string \<Rightarrow> string \<Rightarrow> 'u \<Rightarrow> ud_row list \<Rightarrow> ud_row list" where
  "ud_Update c now addon key v t = map (\<lambda>r. if active_row addon key r then r\<lparr>ur_Value := uc_Marshal c v, ur_UAt := now\<rparr> else r) t"

definition ud_Create :: "'u ud_codec \<Rightarrow> int \<Rightarrow> string \<Rightarrow> string \<Rightarrow> string \<Rightarrow> 'u \<Rightarrow> ud_row list \<Rightarrow> string + ud_row list" where
  "ud_Create c now addon key name v t =
     (if list_ex (\<lambda>r. ur_Addon r = addon \<and> ur_Key r = key) t then Inl ''UNIQUE constraint failed''
      else Inr (t @ [\<lparr>ur_Addon = addon, ur_Key = key, ur_Value = uc_Marshal c v, ur_Name = name, ur_Disabled = False, ur_CAt = now, ur_UAt = now\<rparr>]))"

text \<open>The accounts linked to user data, as triples of addon, key and account.\<close>

type_synonym ud_accounts = "(string \<times> string \<times> string) list"

definition account_Link :: "string \<Rightarrow> string \<Rightarrow> string \<Rightarrow> ud_accounts \<Rightarrow> ud_accounts" where
  "account_Link addon key accountId t = (if (addon, key, accountId) \<in> set t then t else t @ [(addon, key, accountId)])"

definition account_Unlink :: "string \<Rightarrow> string \<Rightarrow> string \<Rightarrow> ud_accounts \<Rightarrow> ud_accounts" where
  "account_Unlink addon key accountId t = filter (\<lambda>x. x \<noteq> (addon, key, accountId)) t"

definition GetAccountIds :: "string \<Rightarrow> string \<Rightarrow> ud_accounts \<Rightarrow> string list" where
  "GetAccountIds addon key t = map (snd \<circ> snd) (filter (\<lambda>(a, k, _). a = addon \<and> k = key) t)"

definition UnlinkAllByUserdata :: "string \<Rightarrow> string \<Rightarrow> ud_accounts \<Rightarrow> ud_accounts" where
  "UnlinkAllByUserdata addon key t = filter (\<lambda>(a, k, _). \<not> (a = addon \<and> k = key)) t"

definition UnlinkAllByAccount :: "string \<Rightarrow> ud_accounts \<Rightarrow> ud_accounts" where
  "UnlinkAllByAccount accountId t = filter (\<lambda>(_, _, i). i \<noteq> accountId) t"

definition GetLinkedUserdataByAccountId :: "string \<Rightarrow> ud_accounts \<Rightarrow> ud_row list \<Rightarrow> (string \<times> string \<times> string) list" where
  "GetLinkedUserdataByAccountId accountId accounts t =
     concat (map (\<lambda>(a, k, _). map (\<lambda>r. (ur_Addon r, ur_Key r, ur_Name r)) (filter (\<lambda>r. ur_Addon r = a \<and> ur_Key r = k) t))
       (filter (\<lambda>(_, _, i). i = accountId) accounts))"

section \<open>The manager\<close>

text \<open>
  The state behind a manager: the tables, the cache and the items given to the reloader. The cache is the map of what it
  holds; entries may vanish at any time. The user data that is worked on is its text and its value.
\<close>

record 'u um_state =
  um_rows :: "ud_row list"
  um_accounts :: ud_accounts
  um_cache :: "string \<Rightarrow> 'u stremio_ud option"
  um_reload :: "UserdataAddonReloaderQueueItem list"

record 'u ud_work =
  uw_encoded :: string
  uw_value :: 'u

definition saved_prefix :: string where
  "saved_prefix = ''k.''"

definition ud_encode :: "'u ud_codec \<Rightarrow> 'u ud_work \<Rightarrow> 'u ud_work" where
  "ud_encode c u = u\<lparr>uw_encoded := Base64Encode (uc_Marshal c (uw_value u))\<rparr>"

definition ud_decode :: "'u ud_codec \<Rightarrow> 'u ud_work \<Rightarrow> string + 'u ud_work" where
  "ud_decode c u =
     (case Base64DecodeToByte (uw_encoded u) of
        None \<Rightarrow> Inl ''illegal base64 data''
      | Some blob \<Rightarrow> (case uc_Unmarshal c blob of Inl e \<Rightarrow> Inl e | Inr v \<Rightarrow> Inr (u\<lparr>uw_value := v\<rparr>)))"

definition IsSaved :: "'u ud_work \<Rightarrow> bool" where
  "IsSaved u \<longleftrightarrow> has_prefix (uw_encoded u) saved_prefix"

definition ud_GetId :: "'u ud_work \<Rightarrow> string" where
  "ud_GetId u = (if IsSaved u then trim_prefix (uw_encoded u) saved_prefix else [])"

text \<open>Reading the row and filling the cache, one after the other.\<close>

definition load_row :: "'u ud_codec \<Rightarrow> string \<Rightarrow> string \<Rightarrow> 'u um_state \<Rightarrow> string + 'u stremio_ud" where
  "load_row c addon i st =
     (case um_cache st i of
        Some u \<Rightarrow> Inr u
      | None \<Rightarrow>
          (case ud_Get c addon i (um_rows st) of
             Inl e \<Rightarrow> Inl e
           | Inr None \<Rightarrow> Inl ''invalid userdata id''
           | Inr (Some u) \<Rightarrow> Inr u))"

definition fill_cache :: "string \<Rightarrow> 'u stremio_ud \<Rightarrow> 'u um_state \<Rightarrow> 'u um_state" where
  "fill_cache i u st = st\<lparr>um_cache := (um_cache st)(i := Some u)\<rparr>"

text \<open>\<open>add_err\<close> is the error of adding to the cache, which the caller gets although the user data was loaded.\<close>

definition ud_Load ::
    "'u ud_codec \<Rightarrow> string option \<Rightarrow> string \<Rightarrow> string \<Rightarrow> 'u um_state \<Rightarrow> (string + 'u ud_work) \<times> 'u um_state" where
  "ud_Load c add_err addon i st =
     (case load_row c addon i st of
        Inl e \<Rightarrow> (Inl e, st)
      | Inr u \<Rightarrow>
          (case add_err of
             Some e \<Rightarrow> (Inl e, st)
           | None \<Rightarrow> (Inr \<lparr>uw_encoded = saved_prefix @ i, uw_value = su_Value u\<rparr>, fill_cache i u st)))"

definition ud_Resolve ::
    "'u ud_codec \<Rightarrow> string option \<Rightarrow> string \<Rightarrow> 'u ud_work \<Rightarrow> 'u um_state \<Rightarrow> (string + 'u ud_work) \<times> 'u um_state" where
  "ud_Resolve c add_err addon u st =
     (if uw_encoded u = [] then (Inr u, st)
      else if \<not> has_prefix (uw_encoded u) saved_prefix then (ud_decode c u, st)
      else ud_Load c add_err addon (trim_prefix (uw_encoded u) saved_prefix) st)"

text \<open>
  \<open>fresh\<close> is the new id; \<open>ok\<close> tells whether the database accepts the statement, \<open>removed\<close> whether the cache removes
  the entry, whose error the code cannot see.
\<close>

definition remove_cached :: "bool \<Rightarrow> string \<Rightarrow> 'u um_state \<Rightarrow> 'u um_state" where
  "remove_cached removed i st = (if removed then st\<lparr>um_cache := (um_cache st)(i := None)\<rparr> else st)"

definition ud_Save ::
    "'u ud_codec \<Rightarrow> int \<Rightarrow> bool \<Rightarrow> string \<Rightarrow> string \<Rightarrow> string \<Rightarrow> 'u ud_work \<Rightarrow> 'u um_state \<Rightarrow> (string option \<times> 'u ud_work) \<times> 'u um_state" where
  "ud_Save c now ok addon fresh name u st =
     (if IsSaved u then ((None, u), st)
      else
        let u' = u\<lparr>uw_encoded := saved_prefix @ fresh\<rparr>
        in if \<not> ok then ((Some ''database error'', u'), st)
           else case ud_Create c now addon fresh name (uw_value u) (um_rows st) of
             Inl e \<Rightarrow> ((Some e, u'), st)
           | Inr t \<Rightarrow> ((None, u'), st\<lparr>um_rows := t\<rparr>))"

definition ud_Delete ::
    "'u ud_codec \<Rightarrow> bool \<Rightarrow> bool \<Rightarrow> bool \<Rightarrow> string \<Rightarrow> 'u ud_work \<Rightarrow> 'u um_state \<Rightarrow> (string option \<times> 'u ud_work) \<times> 'u um_state" where
  "ud_Delete c ok unlink_ok removed addon u st =
     (if \<not> IsSaved u then ((None, u), st)
      else if \<not> ok then ((Some ''database error'', u), st)
      else
        let i = ud_GetId u; st1 = st\<lparr>um_rows := filter (\<lambda>r. \<not> (ur_Addon r = addon \<and> ur_Key r = i)) (um_rows st)\<rparr>
        in if \<not> unlink_ok then ((Some ''database error'', u), st1)
           else ((None, ud_encode c u), remove_cached removed i (st1\<lparr>um_accounts := UnlinkAllByUserdata addon i (um_accounts st)\<rparr>)))"

definition ud_Sync ::
    "'u ud_codec \<Rightarrow> int \<Rightarrow> bool \<Rightarrow> bool \<Rightarrow> string \<Rightarrow> 'u ud_work \<Rightarrow> 'u um_state \<Rightarrow> (string option \<times> 'u ud_work) \<times> 'u um_state" where
  "ud_Sync c now ok removed addon u st =
     (if \<not> IsSaved u then ((None, ud_encode c u), st)
      else if \<not> ok then ((Some ''database error'', u), st)
      else
        let i = ud_GetId u
        in ((None, u),
            (remove_cached removed i (st\<lparr>um_rows := ud_Update c now addon i (uw_value u) (um_rows st)\<rparr>))
              \<lparr>um_reload := um_reload st @ [\<lparr>reload_Addon = addon, reload_Key = i\<rparr>]\<rparr>))"

definition ud_Export :: "'u ud_codec \<Rightarrow> ('u \<Rightarrow> 'u) \<Rightarrow> 'u ud_work \<Rightarrow> string" where
  "ud_Export c strip u = Base64Encode (uc_Marshal c (strip (uw_value u)))"

definition ud_Import :: "'u ud_codec \<Rightarrow> string \<Rightarrow> 'u ud_work \<Rightarrow> string + 'u ud_work" where
  "ud_Import c encodedBlob u =
     (case Base64Decode encodedBlob of
        None \<Rightarrow> Inl ''illegal base64 data''
      | Some blob \<Rightarrow> (case uc_Unmarshal c blob of Inl e \<Rightarrow> Inl e | Inr v \<Rightarrow> Inr (u\<lparr>uw_value := v\<rparr>)))"

section \<open>The stores of a user\<close>

record ud_store =
  st_Code :: string
  st_Token :: string

definition Code_IsStremThru :: "bool \<Rightarrow> string \<Rightarrow> bool" where
  "Code_IsStremThru public_instance code \<longleftrightarrow> \<not> public_instance \<and> code = []"

definition Code_IsP2P :: "string \<Rightarrow> bool" where
  "Code_IsP2P code \<longleftrightarrow> code = ''p2p''"

record resolved_store =
  rs_Store :: "string option"
  rs_AuthToken :: string

record ud_stores =
  us_Stores :: "ud_store list"
  us_resolved :: "resolved_store list"
  us_isStremThru :: bool
  us_isP2P :: bool

definition stores_HasRequiredValues :: "bool \<Rightarrow> ud_store list \<Rightarrow> bool" where
  "stores_HasRequiredValues pub stores \<longleftrightarrow>
     stores \<noteq> []
     \<and> list_all (\<lambda>s. \<not> ((Code_IsStremThru pub (st_Code s) \<or> Code_IsP2P (st_Code s)) \<and> 1 < length stores)
                    \<and> (Code_IsP2P (st_Code s) \<or> st_Token s \<noteq> [])) stores"

definition stores_StripSecrets :: "ud_store list \<Rightarrow> ud_store list" where
  "stores_StripSecrets stores = map (\<lambda>s. s\<lparr>st_Token := []\<rparr>) stores"

definition Prepare ::
    "auth_env \<Rightarrow> bool \<Rightarrow> ud_stores \<Rightarrow> store_context \<Rightarrow> (string \<times> string) option \<times> ud_stores \<times> store_context" where
  "Prepare env pub ud ctx =
     (case us_Stores ud of
        [] \<Rightarrow> (Some (''missing store'', ''store''), ud, ctx)
      | s # rest \<Rightarrow>
          if rest = [] \<and> Code_IsStremThru pub (st_Code s) then
            (case ParseBasicAuth (st_Token s) of
               Inl e \<Rightarrow> (Some (e, ''token''), ud, ctx)
             | Inr auth \<Rightarrow>
                 let password = GetPassword (ae_ProxyAuthPassword env) (ba_Username auth)
                 in if password = [] \<or> password \<noteq> ba_Password auth then (Some (''invalid token'', ''token''), ud, ctx)
                    else
                      let stores = map (\<lambda>name. \<lparr>rs_Store = GetStore name, rs_AuthToken = GetToken (ae_StoreAuthToken env) (ba_Username auth) name\<rparr>)
                                     (ListStores (ae_StoreAuthToken env) (ba_Username auth))
                      in (None, ud\<lparr>us_resolved := stores, us_isStremThru := True\<rparr>,
                          ctx\<lparr>sx_IsProxyAuthorized := True, sx_ProxyAuthUser := ba_Username auth, sx_ProxyAuthPassword := ba_Password auth\<rparr>))
          else if rest = [] \<and> Code_IsP2P (st_Code s) then (None, ud\<lparr>us_resolved := [], us_isP2P := True\<rparr>, ctx)
          else
            (None, ud\<lparr>us_resolved := map (\<lambda>s. \<lparr>rs_Store = GetStore (StoreCode_Name (st_Code s)), rs_AuthToken = st_Token s\<rparr>) (us_Stores ud)\<rparr>,
             ctx))"

text \<open>\<open>None\<close> is the panic of a call on a nil client, or of the first store of none.\<close>

fun find_store :: "string \<Rightarrow> resolved_store list \<Rightarrow> resolved_store option option" where
  "find_store code [] = Some None"
| "find_store code (s # ss) =
     (case rs_Store s of
        None \<Rightarrow> None
      | Some name \<Rightarrow> if StoreName_Code name = code then Some (Some s) else find_store code ss)"

definition ud_GetStoreByCode :: "string \<Rightarrow> resolved_store list \<Rightarrow> resolved_store option" where
  "ud_GetStoreByCode code stores =
     (case stores of
        [] \<Rightarrow> None
      | [s] \<Rightarrow> Some s
      | s # _ \<Rightarrow> (case find_store (to_lower code) stores of None \<Rightarrow> None | Some None \<Rightarrow> Some s | Some (Some t) \<Rightarrow> Some t))"

definition ud_GetUser :: "(string \<Rightarrow> string \<Rightarrow> string + 'user) \<Rightarrow> resolved_store list \<Rightarrow> (string + 'user) list" where
  "ud_GetUser get_user stores =
     map (\<lambda>s. case rs_Store s of None \<Rightarrow> Inl ''invalid userdata, invalid store'' | Some name \<Rightarrow> get_user name (rs_AuthToken s)) stores"

section \<open>Which store has a magnet\<close>

text \<open>
  The answer of a store to the check: the hashes with their statuses. The further stores answer in some order, which is a
  permutation of their indices.
\<close>

type_synonym check_fun = "string \<Rightarrow> string \<Rightarrow> string list \<Rightarrow> string + (string \<times> string) list"

record check_data =
  cd_ByHash :: "(string \<times> string) list"
  cd_Err :: "string option list"
  cd_HasErr :: bool
  cd_HasErrByStoreCode :: "string list"

definition upper_code :: "string \<Rightarrow> string" where
  "upper_code name = to_upper (StoreName_Code name)"

definition cached_status :: string where
  "cached_status = ''cached''"

definition first_answer :: "check_fun \<Rightarrow> string \<Rightarrow> string \<Rightarrow> nat \<Rightarrow> string list \<Rightarrow> check_data \<times> string list" where
  "first_answer check name token n magnets =
     (let code = upper_code name
      in case check name token magnets of
           Inl e \<Rightarrow>
             (\<lparr>cd_ByHash = [], cd_Err = (replicate n None)[0 := Some e], cd_HasErr = True, cd_HasErrByStoreCode = [code]\<rparr>,
              if 1 < n then magnets else [])
         | Inr items \<Rightarrow>
             (\<lparr>cd_ByHash = foldl (\<lambda>m (h, s). if s = cached_status then AList.update h code m else m) [] items,
               cd_Err = replicate n None, cd_HasErr = False, cd_HasErrByStoreCode = []\<rparr>,
              if 1 < n then map fst (filter (\<lambda>(h, s). s \<noteq> cached_status) items) else []))"

definition add_found :: "string \<Rightarrow> (string \<times> string) list \<Rightarrow> (string \<times> string) \<Rightarrow> (string \<times> string) list" where
  "add_found code m hs = (if map_of m (fst hs) = None \<and> snd hs = cached_status then AList.update (fst hs) code m else m)"

definition next_answer :: "check_fun \<Rightarrow> string list \<Rightarrow> resolved_store list \<Rightarrow> check_data \<Rightarrow> nat \<Rightarrow> check_data" where
  "next_answer check missing stores res idx =
     (case rs_Store (stores ! idx) of
        None \<Rightarrow> res\<lparr>cd_Err := (cd_Err res)[idx := Some ''invalid userdata, invalid store''], cd_HasErr := True\<rparr>
      | Some name \<Rightarrow>
          (case check name (rs_AuthToken (stores ! idx)) missing of
             Inl e \<Rightarrow>
               res\<lparr>cd_Err := (cd_Err res)[idx := Some e], cd_HasErr := True,
                   cd_HasErrByStoreCode := List.insert (upper_code name) (cd_HasErrByStoreCode res)\<rparr>
           | Inr items \<Rightarrow> res\<lparr>cd_ByHash := foldl (add_found (upper_code name)) (cd_ByHash res) items\<rparr>))"

definition ud_CheckMagnet :: "check_fun \<Rightarrow> nat list \<Rightarrow> string list \<Rightarrow> resolved_store list \<Rightarrow> check_data option" where
  "ud_CheckMagnet check order magnets stores =
     (case stores of
        [] \<Rightarrow> Some \<lparr>cd_ByHash = [], cd_Err = [Some ''no configured store''], cd_HasErr = True, cd_HasErrByStoreCode = []\<rparr>
      | s # _ \<Rightarrow>
          (case rs_Store s of
             None \<Rightarrow> None
           | Some name \<Rightarrow>
               (case first_answer check name (rs_AuthToken s) (length stores) magnets of
                  (res, missing) \<Rightarrow>
                    if length stores = 1 \<or> missing = [] then Some res
                    else Some (foldl (next_answer check missing stores) res order))))"

section \<open>The configuration of the torrent addon\<close>

record torz_ud =
  tu_Indexers :: "ud_indexer list"
  tu_IncludeUncachedPrivate :: bool
  tu_Stores :: ud_stores
  tu_CachedOnly :: bool
  tu_Sort :: string
  tu_Filter :: string

definition torz_HasRequiredValues :: "bool \<Rightarrow> torz_ud \<Rightarrow> bool" where
  "torz_HasRequiredValues pub ud \<longleftrightarrow> ud_HasRequiredValues (tu_Indexers ud) \<and> stores_HasRequiredValues pub (us_Stores (tu_Stores ud))"

definition torz_StripSecrets :: "torz_ud \<Rightarrow> torz_ud" where
  "torz_StripSecrets ud =
     ud\<lparr>tu_Indexers := ud_StripSecrets (tu_Indexers ud), tu_Stores := (tu_Stores ud)\<lparr>us_Stores := stores_StripSecrets (us_Stores (tu_Stores ud))\<rparr>\<rparr>"

record torz_ud_error =
  te_indexerName :: "string list"
  te_indexerURL :: "string list"
  te_indexerAPIKey :: "string list"
  te_storeCode :: "string list"
  te_storeToken :: "string list"

definition no_ud_error :: torz_ud_error where
  "no_ud_error = \<lparr>te_indexerName = [], te_indexerURL = [], te_indexerAPIKey = [], te_storeCode = [], te_storeToken = []\<rparr>"

text \<open>One of the loops of \<open>Error\<close>: the text so far and whether something stands before the next entry.\<close>

fun error_lines :: "string \<Rightarrow> string \<Rightarrow> nat \<Rightarrow> string list \<Rightarrow> string \<times> bool \<Rightarrow> string \<times> bool" where
  "error_lines pre post i [] st = st"
| "error_lines pre post i (e # es) st =
     (if e = [] then error_lines pre post (Suc i) es st
      else
        let s = (if snd st then fst st @ '', '' else fst st)
        in error_lines pre post (Suc i) es (s @ pre @ itoa (int i) @ post @ e, True))"

definition torz_Error :: "torz_ud_error \<Rightarrow> string" where
  "torz_Error err =
     fst (error_lines ''stores['' ''].token: '' 0 (te_storeToken err)
         (error_lines ''stores['' ''].code: '' 0 (te_storeCode err)
         (error_lines ''indexers['' ''].apikey: '' 0 (te_indexerAPIKey err)
         (error_lines ''indexers['' ''].url: '' 0 (te_indexerURL err)
         (error_lines ''indexers['' ''].name: '' 0 (te_indexerName err) ([], False))))))"

text \<open>A client of an indexer is its base URL, its API key and the id of the indexer.\<close>

fun indexers_Prepare :: "ud_indexer list \<Rightarrow> string + (string \<times> string \<times> string) list" where
  "indexers_Prepare [] = Inr []"
| "indexers_Prepare (i # is) =
     (if ui_Name i = ''jackett'' then
        (case TorznabURL_Parse (ui_URL i) of
           Inl e \<Rightarrow> Inl e
         | Inr (base, x) \<Rightarrow>
             (case indexers_Prepare is of
                Inl e \<Rightarrow> Inl e
              | Inr cs \<Rightarrow> Inr ((base, ui_APIKey i, if x = [] then ''all'' else x) # cs)))
      else Inl (''unsupported indexer: '' @ ui_Name i))"

definition torz_GetRequestContext ::
    "auth_env \<Rightarrow> bool \<Rightarrow> torz_ud \<Rightarrow> web_request \<Rightarrow> torz_ud_error + torz_ud \<times> store_context \<times> (string \<times> string \<times> string) list" where
  "torz_GetRequestContext env pub ud r =
     (case Prepare env pub (tu_Stores ud) new_context of
        (Some (e, f), _) \<Rightarrow> Inl (if f = ''token'' then no_ud_error\<lparr>te_storeToken := [e]\<rparr> else no_ud_error\<lparr>te_storeCode := [e]\<rparr>)
      | (None, stores, ctx) \<Rightarrow>
          if us_resolved stores = [] \<and> \<not> us_isP2P stores then Inl (no_ud_error\<lparr>te_storeCode := [''no configured store'']\<rparr>)
          else
            (case indexers_Prepare (tu_Indexers ud) of
               Inl e \<Rightarrow> Inl (no_ud_error\<lparr>te_indexerURL := [e]\<rparr>)
             | Inr indexers \<Rightarrow>
                 Inr (ud\<lparr>tu_Stores := stores\<rparr>, ctx\<lparr>sx_ClientIP := shared_GetClientIP env ctx r\<rparr>, indexers)))"

text \<open>The form of the configuration page.\<close>

definition form_key :: "string \<Rightarrow> nat \<Rightarrow> string \<Rightarrow> string" where
  "form_key name i part = name @ ''['' @ itoa (int i) @ ''].'' @ part"

fun form_stores :: "(string \<Rightarrow> string) \<Rightarrow> nat \<Rightarrow> nat \<Rightarrow> ud_store list \<Rightarrow> ud_store list" where
  "form_stores form i 0 acc = acc"
| "form_stores form i (Suc n) acc =
     (let code = form (form_key ''stores'' i ''code''); token = form (form_key ''stores'' i ''token'')
      in if code = [] then [\<lparr>st_Code = code, st_Token = token\<rparr>]
         else form_stores form (Suc i) n (acc @ [\<lparr>st_Code = code, st_Token = token\<rparr>]))"

definition form_indexers :: "(string \<Rightarrow> string) \<Rightarrow> nat \<Rightarrow> ud_indexer list" where
  "form_indexers form n =
     map (\<lambda>i. \<lparr>ui_Name = form (form_key ''indexers'' i ''name''), ui_URL = form (form_key ''indexers'' i ''url''),
              ui_APIKey = form (form_key ''indexers'' i ''apikey'')\<rparr>) [0..<n]"

definition getUserData_form :: "bool \<Rightarrow> nat \<Rightarrow> (string \<Rightarrow> string) \<Rightarrow> string + torz_ud" where
  "getUserData_form pub max_stores form =
     (case (if form ''stores_length'' = [] then Some 1 else atoi (form ''stores_length'')) of
        None \<Rightarrow> Inl ''invalid syntax''
      | Some n \<Rightarrow>
          (let stores = form_stores form 0 (nat n) []
           in Inr \<lparr>tu_Indexers = form_indexers form (nat (SafeParseInt (form ''indexers_length'') 1)),
                   tu_IncludeUncachedPrivate = (form ''uncached_private'' = ''on''),
                   tu_Stores = \<lparr>us_Stores = (if pub \<and> max_stores < length stores then take max_stores stores else stores), us_resolved = [],
                                us_isStremThru = False, us_isP2P = False\<rparr>,
                   tu_CachedOnly = (form ''cached'' = ''on''), tu_Sort = form ''sort'', tu_Filter = form ''filter''\<rparr>))"

section \<open>The cache of saved user data\<close>





lemma find_snoc: "find P (xs @ [x]) = (case find P xs of None \<Rightarrow> if P x then Some x else None | Some y \<Rightarrow> Some y)"
  by (induction xs) auto



lemma find_map: "(\<And>x. P (f x) \<longleftrightarrow> P x) \<Longrightarrow> find P (map f xs) = map_option f (find P xs)"
  by (induction xs) auto










text \<open>The text itself as the value of user data.\<close>

definition text_codec :: "string ud_codec" where
  "text_codec = \<lparr>uc_Marshal = (\<lambda>v. ''{'' @ v), uc_Unmarshal = (\<lambda>s. case s of [] \<Rightarrow> Inl ''unexpected end of JSON input'' | _ # v \<Rightarrow> Inr v)\<rparr>"

definition no_um :: "string um_state" where
  "no_um = \<lparr>um_rows = [], um_accounts = [], um_cache = (\<lambda>_. None), um_reload = []\<rparr>"

definition saved_um :: "string um_state" where
  "saved_um = snd (ud_Save text_codec 5 True ''torz'' ''id1'' ''mine'' \<lparr>uw_encoded = [], uw_value = ''a''\<rparr> no_um)"

lemma saved_um_row:
  "um_rows saved_um = [\<lparr>ur_Addon = ''torz'', ur_Key = ''id1'', ur_Value = ''{a'', ur_Name = ''mine'', ur_Disabled = False, ur_CAt = 5, ur_UAt = 5\<rparr>]
   \<and> um_accounts saved_um = [] \<and> um_cache saved_um = (\<lambda>_. None) \<and> um_reload saved_um = []"
  by (simp add: saved_um_def ud_Save_def no_um_def ud_Create_def text_codec_def IsSaved_def saved_prefix_def has_prefix_def)

definition loaded_um :: "string um_state" where
  "loaded_um = snd (ud_Load text_codec None ''torz'' ''id1'' saved_um)"

lemma loaded_um_cache:
  "um_cache loaded_um ''id1'' = Some \<lparr>su_Key = ''id1'', su_Value = ''a'', su_Name = ''mine'', su_CAt = 5, su_UAt = 5\<rparr>"
  using saved_um_row
  by (simp add: loaded_um_def ud_Load_def load_row_def ud_Get_def active_row_def scan_ud_def text_codec_def fill_cache_def)





text \<open>
  (error) A delete that cannot unlink the accounts has deleted the row, but keeps the entry: it reports an error, and the
  user data is loaded as before for as long as the cache keeps it.
\<close>

theorem half_deleted_still_loads:
  assumes "IsSaved u" "um_cache st (ud_GetId u) = Some v"
  shows "case ud_Delete c True False removed addon u st of ((e, u'), st') \<Rightarrow>
    e \<noteq> None \<and> ud_Get c addon (ud_GetId u) (um_rows st') = Inr None
    \<and> fst (ud_Load c None addon (ud_GetId u) st') = Inr \<lparr>uw_encoded = ''k.'' @ ud_GetId u, uw_value = su_Value v\<rparr>"
proof -
  have "find (active_row addon i) (filter (\<lambda>r. ur_Addon r = addon \<longrightarrow> ur_Key r \<noteq> i) t) = None" for i t
    by (auto simp: find_None_iff active_row_def)
  then show ?thesis using assms by (simp add: ud_Delete_def Let_def ud_Load_def load_row_def ud_Get_def saved_prefix_def)
qed

theorem half_deleted_still_loads_witness:
  "fst (ud_Load text_codec None ''torz'' ''id1'' (snd (ud_Delete text_codec True False True ''torz'' \<lparr>uw_encoded = ''k.id1'', uw_value = ''a''\<rparr> loaded_um)))
   = Inr \<lparr>uw_encoded = ''k.id1'', uw_value = ''a''\<rparr>"
proof -
  have i: "IsSaved \<lparr>uw_encoded = ''k.id1'', uw_value = ''a''\<rparr>" "ud_GetId \<lparr>uw_encoded = ''k.id1'', uw_value = ''a''\<rparr> = ''id1''"
    by (simp_all add: IsSaved_def ud_GetId_def saved_prefix_def has_prefix_def trim_prefix_def)
  show ?thesis using half_deleted_still_loads [OF i(1), of loaded_um _ text_codec "''torz''" True] loaded_um_cache
    by (simp add: i(2) case_prod_beta)
qed

text \<open>
  (error) Loads and syncs of one id may cross: a load that has read the row when a sync is stored fills the cache with the
  old value after the sync has removed it. Every later load then answers with the old configuration, although the sync
  reported success and the row has the new one.
\<close>

theorem late_fill_keeps_old:
  assumes "load_row c addon i st = Inr old" "um_cache st i = None"
    "ud_Sync c now True removed addon u st = (r, st1)" "IsSaved u" "ud_GetId u = i"
    "uc_Unmarshal c (uc_Marshal c (uw_value u)) = Inr (uw_value u)"
  shows "fst r = None
    \<and> fst (ud_Load c None addon i (fill_cache i old st1)) = Inr \<lparr>uw_encoded = ''k.'' @ i, uw_value = su_Value old\<rparr>
    \<and> (\<exists>row. ud_Get c addon i (um_rows (fill_cache i old st1)) = Inr (Some row) \<and> su_Value row = uw_value u)"
proof -
  obtain row where row: "find (active_row addon i) (um_rows st) = Some row"
    using assms(1,2) by (auto simp: load_row_def ud_Get_def split: option.splits sum.splits)
  have r: "r = (None, u)" and st1: "um_rows st1 = ud_Update c now addon i (uw_value u) (um_rows st)"
    using assms(3-5) by (auto simp: ud_Sync_def remove_cached_def Let_def)
  let ?f = "\<lambda>r. if active_row addon i r then r\<lparr>ur_Value := uc_Marshal c (uw_value u), ur_UAt := now\<rparr> else r"
  have "find (active_row addon i) (map ?f (um_rows st)) = map_option ?f (find (active_row addon i) (um_rows st))"
    by (rule find_map) (auto simp: active_row_def)
  then have found: "find (active_row addon i) (um_rows st1) = Some (?f row)" by (simp add: st1 ud_Update_def row)
  have "active_row addon i row" using row by (auto simp: find_Some_iff)
  then have "ud_Get c addon i (um_rows st1)
      = Inr (Some \<lparr>su_Key = ur_Key row, su_Value = uw_value u, su_Name = ur_Name row, su_CAt = ur_CAt row, su_UAt = now\<rparr>)"
    using assms(6) by (simp add: ud_Get_def found scan_ud_def)
  then show ?thesis by (simp add: r ud_Load_def load_row_def fill_cache_def saved_prefix_def)
qed

lemma saved_um_load:
  "load_row text_codec ''torz'' ''id1'' saved_um = Inr \<lparr>su_Key = ''id1'', su_Value = ''a'', su_Name = ''mine'', su_CAt = 5, su_UAt = 5\<rparr>"
  using saved_um_row by (simp add: load_row_def ud_Get_def active_row_def scan_ud_def text_codec_def)

theorem late_fill_keeps_old_witness:
  "fst (ud_Load text_codec None ''torz'' ''id1''
     (fill_cache ''id1'' \<lparr>su_Key = ''id1'', su_Value = ''a'', su_Name = ''mine'', su_CAt = 5, su_UAt = 5\<rparr>
       (snd (ud_Sync text_codec 9 True True ''torz'' \<lparr>uw_encoded = ''k.id1'', uw_value = ''b''\<rparr> saved_um))))
   = Inr \<lparr>uw_encoded = ''k.id1'', uw_value = ''a''\<rparr>"
  using late_fill_keeps_old [OF saved_um_load _ prod.collapse [symmetric], of "\<lparr>uw_encoded = ''k.id1'', uw_value = ''b''\<rparr>" 9 True] saved_um_row
  by (simp add: IsSaved_def ud_GetId_def has_prefix_def saved_prefix_def trim_prefix_def text_codec_def)

text \<open>
  (error) The id of new user data is set before it is inserted: when the database refuses the insert, the user data counts as
  saved, a second save reports success without storing anything, and its link cannot be loaded.
\<close>

theorem failed_save_counts_as_saved:
  assumes "\<not> IsSaved u" "um_cache st fresh = None" "ud_Get c addon fresh (um_rows st) = Inr None"
  shows "\<exists>e u'. ud_Save c now False addon fresh name u st = ((Some e, u'), st) \<and> IsSaved u' \<and> ud_GetId u' = fresh
    \<and> ud_Save c later ok addon fresh' name u' st = ((None, u'), st)
    \<and> fst (ud_Resolve c None addon u' st) = Inl ''invalid userdata id''"
  using assms
  by (auto simp: ud_Save_def IsSaved_def ud_GetId_def saved_prefix_def has_prefix_def trim_prefix_def ud_Resolve_def
      ud_Load_def load_row_def)

theorem failed_save_counts_as_saved_witness:
  "\<exists>e u'. ud_Save text_codec 5 False ''torz'' ''id1'' ''mine'' \<lparr>uw_encoded = [], uw_value = ''a''\<rparr> no_um = ((Some e, u'), no_um)
    \<and> IsSaved u' \<and> ud_GetId u' = ''id1'' \<and> ud_Save text_codec 6 True ''torz'' ''id2'' ''mine'' u' no_um = ((None, u'), no_um)
    \<and> fst (ud_Resolve text_codec None ''torz'' u' no_um) = Inl ''invalid userdata id''"
  by (rule failed_save_counts_as_saved) (simp_all add: IsSaved_def saved_prefix_def has_prefix_def no_um_def ud_Get_def)


lemma b64_not_saved: "\<not> has_prefix (Base64Encode s) saved_prefix"
proof
  assume "has_prefix (Base64Encode s) saved_prefix"
  then have "CHR ''.'' \<in> set (take 2 (Base64Encode s))" by (simp add: has_prefix_def saved_prefix_def numeral_2_eq_2)
  then have "CHR ''.'' \<in> set (Base64Encode s)" by (rule in_set_takeD)
  then have "b64_val CHR ''.'' \<noteq> None \<or> CHR ''.'' = CHR ''=''"
    using b64_encode_alphabet [of s] by (auto simp: Base64Encode_def list_all_iff)
  then show False by code_simp
qed

lemma b64_not_empty: "s \<noteq> [] \<Longrightarrow> Base64Encode s \<noteq> []"
proof
  assume "s \<noteq> []" "Base64Encode s = []"
  then have "b64_decode [] = Some s" using Base64_roundtrip [of s] by (simp add: Base64Decode_def)
  moreover have "b64_decode [] = Some []" by code_simp
  ultimately show False using \<open>s \<noteq> []\<close> by simp
qed

text \<open>
  (roundtrip) What a user saves or syncs comes back: the text that is put into the link, the id of the stored row or the
  value itself, resolves to the value that was saved or synced; a save adds one row and forgets none.
\<close>

theorem saved_resolves:
  assumes codec: "\<And>v. uc_Unmarshal c (uc_Marshal c v) = Inr v" "\<And>v. uc_Marshal c v \<noteq> []"
    and new: "\<not> IsSaved u" "um_cache st fresh = None" "\<not> list_ex (\<lambda>r. ur_Addon r = addon \<and> ur_Key r = fresh) (um_rows st)"
  shows "(case ud_Save c now True addon fresh name u st of ((e, u'), st') \<Rightarrow>
      e = None \<and> fst (ud_Resolve c None addon (u'\<lparr>uw_value := zero\<rparr>) st') = Inr u'
      \<and> uw_value u' = uw_value u \<and> (\<exists>r. um_rows st' = um_rows st @ [r]))
    \<and> (case ud_Sync c now ok removed addon u st of ((e, u'), st') \<Rightarrow>
      e = None \<and> st' = st \<and> ud_Resolve c add_err addon (u'\<lparr>uw_value := zero\<rparr>) st' = (Inr u', st') \<and> uw_value u' = uw_value u)"
proof
  have none: "find (active_row addon fresh) (um_rows st) = None"
    using new(3) by (auto simp: find_None_iff list_ex_iff active_row_def)
  show "case ud_Save c now True addon fresh name u st of ((e, u'), st') \<Rightarrow>
      e = None \<and> fst (ud_Resolve c None addon (u'\<lparr>uw_value := zero\<rparr>) st') = Inr u'
      \<and> uw_value u' = uw_value u \<and> (\<exists>r. um_rows st' = um_rows st @ [r])"
    using new
    by (simp add: ud_Save_def Let_def ud_Create_def ud_Resolve_def saved_prefix_def has_prefix_def trim_prefix_def ud_Load_def
        load_row_def ud_Get_def find_snoc none active_row_def scan_ud_def codec)
  show "case ud_Sync c now ok removed addon u st of ((e, u'), st') \<Rightarrow>
      e = None \<and> st' = st \<and> ud_Resolve c add_err addon (u'\<lparr>uw_value := zero\<rparr>) st' = (Inr u', st') \<and> uw_value u' = uw_value u"
    using new(1) Base64_roundtrip [of "uc_Marshal c (uw_value u)"]
    by (simp add: ud_Sync_def ud_encode_def ud_Resolve_def b64_not_saved b64_not_empty ud_decode_def Base64DecodeToByte_def
        Base64Decode_def codec)
qed

lemma text_codec_ok: "uc_Unmarshal text_codec (uc_Marshal text_codec v) = Inr v" "uc_Marshal text_codec v \<noteq> []"
  by (simp_all add: text_codec_def)

theorem saved_resolves_witness:
  "fst (ud_Resolve text_codec None ''torz'' \<lparr>uw_encoded = ''k.id1'', uw_value = []\<rparr> saved_um) = Inr \<lparr>uw_encoded = ''k.id1'', uw_value = ''a''\<rparr>
   \<and> fst (fst (ud_Sync text_codec 5 True True ''torz'' \<lparr>uw_encoded = [], uw_value = ''a''\<rparr> no_um)) = None"
  using saved_resolves [where c = text_codec and u = "\<lparr>uw_encoded = [], uw_value = ''a''\<rparr>" and st = no_um and fresh = "''id1''"
    and addon = "''torz''" and now = 5 and name = "''mine''" and zero = "[]" and ok = True and removed = True and add_err = None, OF text_codec_ok]
  by (auto simp: IsSaved_def saved_prefix_def has_prefix_def no_um_def saved_um_def ud_Save_def Let_def
      split: prod.splits sum.splits)

text \<open>
  (roundtrip) An exported configuration is imported as the configuration without its secrets, and a sync of saved user data
  makes every later load give the value that was synced.
\<close>

theorem Export_Import:
  assumes "\<And>v. uc_Unmarshal c (uc_Marshal c v) = Inr v"
  shows "ud_Import c (ud_Export c strip u) v = Inr (v\<lparr>uw_value := strip (uw_value u)\<rparr>)"
  using assms Base64_roundtrip [of "uc_Marshal c (strip (uw_value u))"] by (simp add: ud_Import_def ud_Export_def)

theorem Export_Import_witness:
  "ud_Import text_codec (ud_Export text_codec (\<lambda>v. []) \<lparr>uw_encoded = [], uw_value = ''token''\<rparr>) \<lparr>uw_encoded = [], uw_value = []\<rparr>
   = Inr \<lparr>uw_encoded = [], uw_value = []\<rparr>"
  using Export_Import [of text_codec "\<lambda>v. []" "\<lparr>uw_encoded = [], uw_value = ''token''\<rparr>" "\<lparr>uw_encoded = [], uw_value = []\<rparr>"] text_codec_ok
  by simp


section \<open>The stores of a user\<close>

lemma Prepare_own:
  "us_Stores ud \<noteq> [] \<Longrightarrow> \<not> (length (us_Stores ud) = 1 \<and> Code_IsStremThru pub (st_Code (hd (us_Stores ud)))) \<Longrightarrow>
   (\<exists>ud'. Prepare env pub ud ctx = (None, ud', ctx) \<and> set (map rs_AuthToken (us_resolved ud')) \<subseteq> st_Token ` set (us_Stores ud))"
  by (cases "us_Stores ud") (auto simp: Prepare_def)

text \<open>
  C8: (safety) The stores that the operator configured for a user are handed out only against that user's password: when
  preparing a configuration succeeds, either it is the single entry without a code of an instance that is not public, with a
  token of a user with that non-empty password, and the tokens are those configured for the user; or the request is not
  authorized by it at all and every token is one of the configuration itself.
\<close>

theorem Prepare_tokens:
  assumes "Prepare env pub ud ctx = (None, ud', ctx')"
  shows "(\<exists>s auth. us_Stores ud = [s] \<and> \<not> pub \<and> st_Code s = [] \<and> ParseBasicAuth (st_Token s) = Inr auth
      \<and> ba_Password auth \<noteq> [] \<and> GetPassword (ae_ProxyAuthPassword env) (ba_Username auth) = ba_Password auth
      \<and> sx_ProxyAuthUser ctx' = ba_Username auth
      \<and> map rs_AuthToken (us_resolved ud')
        = map (GetToken (ae_StoreAuthToken env) (ba_Username auth)) (ListStores (ae_StoreAuthToken env) (ba_Username auth)))
    \<or> (ctx' = ctx \<and> set (map rs_AuthToken (us_resolved ud')) \<subseteq> st_Token ` set (us_Stores ud))"
proof (cases "length (us_Stores ud) = 1 \<and> Code_IsStremThru pub (st_Code (hd (us_Stores ud)))")
  case True
  then obtain s where s: "us_Stores ud = [s]" by (cases "us_Stores ud") auto
  show ?thesis using assms True
    by (intro disjI1) (auto simp: Prepare_def s Code_IsStremThru_def Let_def split: sum.splits if_splits)
next
  case False
  have "us_Stores ud \<noteq> []" using assms by (auto simp: Prepare_def)
  then show ?thesis using Prepare_own [OF _ False, of env ctx] assms by auto
qed

definition sample_ud_env :: auth_env where
  "sample_ud_env = \<lparr>ae_ProxyAuthPassword = [(''ann'', ''pw'')], ae_AdminPassword = [],
     ae_StoreAuthToken = [(''ann'', [(''*'', ''torbox''), (''torbox'', ''T'')])], ae_StoreTunnel = [], ae_MachineIP = [], ae_ip6 = (\<lambda>_. None)\<rparr>"

definition ann_stores :: ud_stores where
  "ann_stores = \<lparr>us_Stores = [\<lparr>st_Code = [], st_Token = ''ann:pw''\<rparr>], us_resolved = [], us_isStremThru = False, us_isP2P = False\<rparr>"

definition ann_prepared :: ud_stores where
  "ann_prepared = ann_stores\<lparr>us_resolved := [\<lparr>rs_Store = Some ''torbox'', rs_AuthToken = ''T''\<rparr>], us_isStremThru := True\<rparr>"

definition ann_context :: store_context where
  "ann_context = new_context\<lparr>sx_IsProxyAuthorized := True, sx_ProxyAuthUser := ''ann'', sx_ProxyAuthPassword := ''pw''\<rparr>"

lemma ann_prepare: "Prepare sample_ud_env False ann_stores new_context = (None, ann_prepared, ann_context)"
  by code_simp

theorem Prepare_tokens_witness:
  "ann_context \<noteq> new_context
   \<and> (\<exists>s auth. us_Stores ann_stores = [s] \<and> ParseBasicAuth (st_Token s) = Inr auth
        \<and> GetPassword [(''ann'', ''pw'')] (ba_Username auth) = ba_Password auth)"
proof -
  have "ann_context \<noteq> new_context" by (simp add: ann_context_def new_context_def)
  then show ?thesis using Prepare_tokens [OF ann_prepare] by (auto simp: sample_ud_env_def)
qed


section \<open>Which store has a magnet\<close>

lemma add_found_value:
  "map_of (foldl (add_found code) m items) h
   = (case map_of m h of Some x \<Rightarrow> Some x | None \<Rightarrow> if (h, cached_status) \<in> set items then Some code else None)"
proof (induction items arbitrary: m)
  case (Cons hs items)
  obtain a b where hs: "hs = (a, b)" by (cases hs)
  show ?case
    by (simp only: hs foldl_Cons Cons.IH) (auto simp: add_found_def update_conv' split: option.splits)
qed (simp split: option.split)

lemma first_items_value:
  "map_of (foldl (\<lambda>m (h, s). if s = cached_status then AList.update h code m else m) m items) h
   = (if (h, cached_status) \<in> set items then Some code else map_of m h)"
proof (induction items arbitrary: m)
  case (Cons hs items)
  obtain a b where hs: "hs = (a, b)" by (cases hs)
  show ?case by (simp only: hs foldl_Cons prod.case Cons.IH) (auto simp: update_conv')
qed simp

text \<open>What a store answers that is asked for some magnets.\<close>

definition store_has :: "check_fun \<Rightarrow> string list \<Rightarrow> resolved_store \<Rightarrow> string \<Rightarrow> string \<Rightarrow> bool" where
  "store_has check asked s code h \<longleftrightarrow>
     (case rs_Store s of
        None \<Rightarrow> False
      | Some name \<Rightarrow> code = upper_code name
          \<and> (case check name (rs_AuthToken s) asked of Inl e \<Rightarrow> False | Inr items \<Rightarrow> (h, cached_status) \<in> set items))"

lemma next_answer_value:
  "map_of (cd_ByHash (next_answer check missing stores res idx)) h = Some x \<longleftrightarrow>
     map_of (cd_ByHash res) h = Some x \<or> map_of (cd_ByHash res) h = None \<and> store_has check missing (stores ! idx) x h"
  by (auto simp: next_answer_def store_has_def add_found_value split: option.splits sum.splits if_splits)

lemma next_answer_dom:
  "map_of (cd_ByHash (next_answer check missing stores res idx)) h \<noteq> None \<longleftrightarrow>
     map_of (cd_ByHash res) h \<noteq> None \<or> (\<exists>x. store_has check missing (stores ! idx) x h)"
  by (metis next_answer_value not_Some_eq)

lemma next_answers_dom:
  "map_of (cd_ByHash (foldl (next_answer check missing stores) res order)) h \<noteq> None \<longleftrightarrow>
     map_of (cd_ByHash res) h \<noteq> None \<or> (\<exists>idx \<in> set order. \<exists>x. store_has check missing (stores ! idx) x h)"
proof (induction order arbitrary: res)
  case (Cons i js)
  show ?case unfolding foldl_Cons Cons.IH [of "next_answer check missing stores res i"] next_answer_dom
    by (simp del: not_None_eq)
qed simp

lemma next_answers_keep:
  "map_of (cd_ByHash res) h = Some x \<Longrightarrow> map_of (cd_ByHash (foldl (next_answer check missing stores) res order)) h = Some x"
  by (induction order arbitrary: res) (simp_all add: next_answer_value)

lemma next_answers_sound:
  "map_of (cd_ByHash (foldl (next_answer check missing stores) res order)) h = Some x \<Longrightarrow>
     map_of (cd_ByHash res) h = Some x \<or> (\<exists>idx \<in> set order. store_has check missing (stores ! idx) x h)"
proof (induction order arbitrary: res)
  case (Cons i js)
  from Cons.IH [of "next_answer check missing stores res i"] Cons.prems show ?case
    by (auto simp: next_answer_value)
qed simp


lemma first_answer_value:
  "rs_Store s = Some name \<Longrightarrow>
   map_of (cd_ByHash (fst (first_answer check name (rs_AuthToken s) n magnets))) h = Some x \<longleftrightarrow> store_has check magnets s x h"
  by (auto simp: first_answer_def store_has_def first_items_value Let_def split: sum.splits if_splits)

lemma tl_indices: "set xs = {1..<length stores} \<Longrightarrow> (\<exists>i \<in> set xs. P (stores ! i)) \<longleftrightarrow> (\<exists>s \<in> set (tl stores). P s)"
proof -
  assume xs: "set xs = {1..<length stores}"
  have "(\<exists>s \<in> set (tl stores). P s) \<longleftrightarrow> (\<exists>i < length (tl stores). P (tl stores ! i))" by (metis in_set_conv_nth)
  also have "\<dots> \<longleftrightarrow> (\<exists>i < length stores - 1. P (stores ! Suc i))" by (auto simp: nth_tl)
  also have "\<dots> \<longleftrightarrow> (\<exists>i \<in> {1..<length stores}. P (stores ! i))"
  proof
    assume "\<exists>i < length stores - 1. P (stores ! Suc i)"
    then obtain i where "i < length stores - 1" "P (stores ! Suc i)" by blast
    then show "\<exists>i \<in> {1..<length stores}. P (stores ! i)" by (intro bexI [of _ "Suc i"]) auto
  next
    assume "\<exists>i \<in> {1..<length stores}. P (stores ! i)"
    then obtain i where "1 \<le> i" "i < length stores" "P (stores ! i)" by auto
    then show "\<exists>i < length stores - 1. P (stores ! Suc i)" by (intro exI [of _ "i - 1"]) auto
  qed
  finally show ?thesis by (simp add: xs)
qed

text \<open>
  C10: (functional) Whatever the order in which the further stores answer, the magnets found are the same: those that the first
  store has, and, if it leaves some open, those of the open ones that a further store has. A magnet of the first store is
  always found under the code of the first store, and every other under the code of a store that answered that it has it.
\<close>

theorem CheckMagnet_found:
  assumes "ud_CheckMagnet check order magnets (s # further) = Some res" "set order = {1..<Suc (length further)}" "rs_Store s = Some name"
  shows "(let missing = snd (first_answer check name (rs_AuthToken s) (Suc (length further)) magnets)
     in (map_of (cd_ByHash res) h \<noteq> None \<longleftrightarrow>
          store_has check magnets s (upper_code name) h
          \<or> missing \<noteq> [] \<and> (\<exists>t \<in> set further. \<exists>code. store_has check missing t code h))
      \<and> (case map_of (cd_ByHash res) h of
           None \<Rightarrow> True
         | Some code \<Rightarrow>
             if store_has check magnets s (upper_code name) h then code = upper_code name
             else \<exists>t \<in> set further. store_has check missing t code h))"
proof -
  obtain res0 missing where fa: "first_answer check name (rs_AuthToken s) (Suc (length further)) magnets = (res0, missing)"
    by (cases "first_answer check name (rs_AuthToken s) (Suc (length further)) magnets")
  have first: "map_of (cd_ByHash res0) h' = Some x \<longleftrightarrow> store_has check magnets s x h'" for h' x
    using first_answer_value [OF assms(3), of check "Suc (length further)" magnets h' x] by (simp add: fa)
  have code: "store_has check magnets s x h' \<Longrightarrow> x = upper_code name" for x h'
    by (simp add: store_has_def assms(3))
  have first_none: "map_of (cd_ByHash res0) h' \<noteq> None \<longleftrightarrow> store_has check magnets s (upper_code name) h'" for h'
    using first code by (metis not_Some_eq)
  show ?thesis
  proof (cases "further = [] \<or> missing = []")
    case True
    then have "res = res0" using assms(1,3) by (auto simp: ud_CheckMagnet_def fa)
    with True show ?thesis
      by (auto simp: fa first first_none [simplified] dest: code split: option.splits)
  next
    case False
    then have res: "res = foldl (next_answer check missing (s # further)) res0 order"
      using assms(1,3) by (auto simp: ud_CheckMagnet_def fa)
    have idx: "(\<exists>i \<in> set order. P ((s # further) ! i)) \<longleftrightarrow> (\<exists>t \<in> set further. P t)" for P
      using tl_indices [of order "s # further" P] assms(2) by simp
    have "map_of (cd_ByHash res) h \<noteq> None \<longleftrightarrow>
        store_has check magnets s (upper_code name) h \<or> (\<exists>t \<in> set further. \<exists>x. store_has check missing t x h)"
      unfolding res next_answers_dom first_none idx [of "\<lambda>t. \<exists>x. store_has check missing t x h"] by (rule refl)
    moreover have "case map_of (cd_ByHash res) h of None \<Rightarrow> True | Some c \<Rightarrow>
        if store_has check magnets s (upper_code name) h then c = upper_code name else \<exists>t \<in> set further. store_has check missing t c h"
    proof (cases "map_of (cd_ByHash res) h")
      case (Some c)
      have "c = upper_code name" if a: "store_has check magnets s (upper_code name) h"
        using next_answers_keep [OF first [THEN iffD2, OF a], of check missing "s # further" order] Some by (simp add: res)
      moreover have "\<exists>t \<in> set further. store_has check missing t c h" if a: "\<not> store_has check magnets s (upper_code name) h"
        using next_answers_sound [of check missing "s # further" res0 order h c] Some a code [of c h]
        unfolding res [symmetric] first idx [of "\<lambda>t. store_has check missing t c h"] by blast
      ultimately show ?thesis using Some by simp
    qed simp
    ultimately show ?thesis using False by (simp add: fa)
  qed
qed

definition two_stores :: "resolved_store list" where
  "two_stores = [\<lparr>rs_Store = Some ''torbox'', rs_AuthToken = ''T''\<rparr>, \<lparr>rs_Store = Some ''pikpak'', rs_AuthToken = ''P''\<rparr>]"

definition two_check :: check_fun where
  "two_check name token magnets =
     Inr (map (\<lambda>h. (h, if name = ''pikpak'' \<or> h = ''h1'' then ''cached'' else ''unknown'')) magnets)"

lemma two_found:
  "ud_CheckMagnet two_check [1] [''h1'', ''h2''] two_stores
   = Some \<lparr>cd_ByHash = [(''h1'', ''TB''), (''h2'', ''PP'')], cd_Err = [None, None], cd_HasErr = False, cd_HasErrByStoreCode = []\<rparr>"
  by code_simp

theorem CheckMagnet_found_witness:
  "map_of [(''h1'', ''TB''), (''h2'', ''PP'')] ''h2'' = Some ''PP''
   \<and> (\<exists>t \<in> set (tl two_stores). store_has two_check [''h2''] t ''PP'' ''h2'')"
proof -
  have first: "first_answer two_check ''torbox'' ''T'' 2 [''h1'', ''h2''] =
      (\<lparr>cd_ByHash = [(''h1'', ''TB'')], cd_Err = [None, None], cd_HasErr = False, cd_HasErrByStoreCode = []\<rparr>, [''h2''])"
    by code_simp
  have two: "two_stores = \<lparr>rs_Store = Some ''torbox'', rs_AuthToken = ''T''\<rparr> # tl two_stores" by (simp add: two_stores_def)
  have not_first: "\<not> store_has two_check [''h1'', ''h2''] \<lparr>rs_Store = Some ''torbox'', rs_AuthToken = ''T''\<rparr> (upper_code ''torbox'') ''h2''"
    by code_simp
  have tail: "set [1] = {1..<Suc (length (tl two_stores))}" "Suc (length (tl two_stores)) = 2" by (auto simp: two_stores_def)
  have run: "ud_CheckMagnet two_check [1] [''h1'', ''h2''] (\<lparr>rs_Store = Some ''torbox'', rs_AuthToken = ''T''\<rparr> # tl two_stores)
      = Some \<lparr>cd_ByHash = [(''h1'', ''TB''), (''h2'', ''PP'')], cd_Err = [None, None], cd_HasErr = False, cd_HasErrByStoreCode = []\<rparr>"
    using two_found two by simp
  show ?thesis
    using CheckMagnet_found [OF run tail(1), of "''torbox''" "''h2''"] first not_first
    unfolding tail(2) by (simp add: Let_def)
qed

text \<open>
  (error) A configuration of two stores whose first has a code that does not exist is prepared without an error, and its user
  is reported as an invalid store, but the check of magnets panics on it, as does the search for a store by its code; the same
  code in a later place is only an error of that store.
\<close>

theorem unknown_first_store_panics:
  assumes "us_Stores ud = s # t # rest" "GetStore (StoreCode_Name (st_Code s)) = None"
  shows "\<exists>ud'. Prepare env pub ud ctx = (None, ud', ctx) \<and> hd (ud_GetUser get_user (us_resolved ud')) = Inl ''invalid userdata, invalid store''
    \<and> ud_CheckMagnet check order magnets (us_resolved ud') = None \<and> ud_GetStoreByCode code (us_resolved ud') = None"
  using assms by (simp add: Prepare_def ud_GetUser_def ud_CheckMagnet_def ud_GetStoreByCode_def)

theorem unknown_first_store_panics_witness:
  "\<exists>ud'. Prepare sample_ud_env True (ann_stores\<lparr>us_Stores := [\<lparr>st_Code = ''xx'', st_Token = ''t''\<rparr>, \<lparr>st_Code = ''tb'', st_Token = ''t''\<rparr>]\<rparr>) new_context
      = (None, ud', new_context)
    \<and> hd (ud_GetUser (\<lambda>name token. Inr name) (us_resolved ud')) = Inl ''invalid userdata, invalid store''
    \<and> ud_CheckMagnet two_check [1] [''h1''] (us_resolved ud') = None \<and> ud_GetStoreByCode ''tb'' (us_resolved ud') = None"
  by (rule unknown_first_store_panics) (simp, simp, code_simp)


section \<open>The messages of a configuration\<close>

text \<open>The entries that stand for the errors of one field.\<close>

fun named_errors :: "string \<Rightarrow> string \<Rightarrow> nat \<Rightarrow> string list \<Rightarrow> string list" where
  "named_errors pre post i [] = []"
| "named_errors pre post i (e # es) =
     (if e = [] then named_errors pre post (Suc i) es else (pre @ itoa (int i) @ post @ e) # named_errors pre post (Suc i) es)"

lemma error_lines_join:
  "error_lines pre post i es (go_join '', '' xs, xs \<noteq> [])
   = (go_join '', '' (xs @ named_errors pre post i es), xs @ named_errors pre post i es \<noteq> [])"
proof (induction es arbitrary: i xs)
  case (Cons e es)
  show ?case
  proof (cases "e = []")
    case False
    let ?x = "pre @ itoa (int i) @ post @ e"
    have "error_lines pre post i (e # es) (go_join '', '' xs, xs \<noteq> []) = error_lines pre post (Suc i) es (go_join '', '' (xs @ [?x]), xs @ [?x] \<noteq> [])"
      using False by (simp add: Let_def go_join_snoc)
    then show ?thesis using False Cons.IH [of "Suc i" "xs @ [?x]"] by simp
  qed (use Cons.IH in simp)
qed simp

text \<open>
  (refinement) The text of the errors of a configuration is the list of its entries joined by commas: one entry for every
  field with a message, by the place of the field, the names, addresses and keys of the indexers before the codes and tokens of
  the stores, and no separator is left over when a group is empty.
\<close>

theorem torz_Error_joined:
  "torz_Error err = go_join '', ''
     (named_errors ''indexers['' ''].name: '' 0 (te_indexerName err) @ named_errors ''indexers['' ''].url: '' 0 (te_indexerURL err)
      @ named_errors ''indexers['' ''].apikey: '' 0 (te_indexerAPIKey err) @ named_errors ''stores['' ''].code: '' 0 (te_storeCode err)
      @ named_errors ''stores['' ''].token: '' 0 (te_storeToken err))"
proof -
  have start: "([], False) = (go_join '', '' [], ([] :: string list) \<noteq> [])" by simp
  show ?thesis unfolding torz_Error_def start error_lines_join by (simp add: append_assoc)
qed

section \<open>The form of the configuration page\<close>

lemma form_stores_codes:
  "\<forall>s \<in> set acc. st_Code s \<noteq> [] \<Longrightarrow>
   (\<exists>s. form_stores form i n acc = [s]) \<or> (\<forall>s \<in> set (form_stores form i n acc). st_Code s \<noteq> []) \<and> length (form_stores form i n acc) = length acc + n"
  by (induction form i n acc rule: form_stores.induct) (auto simp: Let_def)

text \<open>
  (bounds) A form never gives an entry without a code beside others, so the stores the operator configured are never mixed with
  a user's own, and on a public instance at most as many stores as it allows.
\<close>

theorem getUserData_form_stores:
  assumes "getUserData_form pub max_stores form = Inr ud" "0 < max_stores"
  shows "(\<forall>s \<in> set (us_Stores (tu_Stores ud)). st_Code s = [] \<longrightarrow> us_Stores (tu_Stores ud) = [s])
    \<and> (pub \<longrightarrow> length (us_Stores (tu_Stores ud)) \<le> max_stores)"
proof -
  obtain n where n: "us_Stores (tu_Stores ud)
      = (let stores = form_stores form 0 n [] in if pub \<and> max_stores < length stores then take max_stores stores else stores)"
    using assms(1) by (auto simp: getUserData_form_def Let_def split: option.splits)
  consider s where "form_stores form 0 n [] = [s]" | "\<forall>s \<in> set (form_stores form 0 n []). st_Code s \<noteq> []"
    using form_stores_codes [of "[]" form 0 n] by auto
  then show ?thesis
  proof cases
    case 1
    then show ?thesis using assms(2) by (auto simp: n Let_def)
  next
    case 2
    then have "\<forall>s \<in> set (us_Stores (tu_Stores ud)). st_Code s \<noteq> []" by (auto simp: n Let_def dest: in_set_takeD)
    then show ?thesis by (auto simp: n Let_def)
  qed
qed

definition sample_form :: "string \<Rightarrow> string" where
  "sample_form key = (if key = ''stores_length'' then ''2'' else if key = ''stores[0].code'' then ''tb'' else if key = ''stores[1].code'' then ''pp'' else [])"

lemma sample_form_stores:
  "case getUserData_form True 1 sample_form of Inl e \<Rightarrow> False | Inr ud \<Rightarrow> us_Stores (tu_Stores ud) = [\<lparr>st_Code = ''tb'', st_Token = []\<rparr>]"
  by code_simp

theorem getUserData_form_stores_witness:
  "\<exists>ud. getUserData_form True 1 sample_form = Inr ud \<and> length (us_Stores (tu_Stores ud)) \<le> 1"
proof -
  obtain ud where "getUserData_form True 1 sample_form = Inr ud" using sample_form_stores by (auto split: sum.splits)
  then show ?thesis using getUserData_form_stores [of True 1 sample_form ud] by auto
qed

end
