(* ===== verification/Spec2Isabelle.thy ===== *)
theory Spec2Isabelle
  imports Core_Error Core_Codec Core_Util Core_Net Util Dataset_Kinds Watched_Bitfield Stream_Sort Store_Ids Torrent_Stream
    Worker_Schedule Worker_Task Advisory_Lock Proxy_Connections Torrent_Mapper Trakt_Sync Magnet_Cache Torznab_Sync Userdata
begin

text \<open>
  StremThru (package \<open>github.com/MunifTanjim/stremthru\<close> under \<open>src/\<close>) is a server that stands between
  media players and debrid stores. A request is authorized (\<open>internal/endpoint/middleware.go\<close>) against the
  configuration that was read from the environment (\<open>internal/config\<close>), is given a store account, and is
  answered by an addon or by a store endpoint; links of a store go out as tokens that the proxy handlers unwrap later
  (\<open>internal/shared/store.go\<close>, \<open>internal/endpoint/proxy.go\<close>). Beside the requests, background
  workers (\<open>internal/worker\<close>) keep the databases up to date from datasets and work queues, under advisory locks
  and a log of their jobs. Small packages (\<open>core\<close>, \<open>internal/util\<close>, \<open>stremio\<close>) carry the values
  that all parts share.

  Reading order and correspondence with the sources:

  \<^item> \<open>Prelude\<close>: Go's standard library as far as the code uses it (strings as byte lists, \<open>cut\<close>,
    \<open>split_on\<close>, \<open>trim_*\<close>, decimal numbers, wrap-around of 64 bit integers) and the generic contracts
    \<open>strict_weak\<close>, \<open>three_way\<close> (comparisons handed to a sort) and \<open>guarded_system\<close> (a step
    relation with an invariant). \<open>Url\<close>: percent-encoding, query strings, escapes of \<open>net/url\<close>.
  \<^item> \<open>Core_Error\<close> (\<open>core/error.go\<close>, \<open>internal/shared/error.go\<close>): the error value and \<open>Pack\<close>.
    \<open>Core_Codec\<close> (\<open>core/base64.go\<close>, \<open>core/secret.go\<close>), \<open>Core_Util\<close> (\<open>core/util.go\<close>),
    \<open>Core_Net\<close> (\<open>core/request_ip.go\<close>), \<open>Util\<close> (the helpers of \<open>internal/util\<close>; locale
    \<open>finite_set_ops\<close>, interpreted on \<open>util.Set\<close>).
  \<^item> Datasets. \<open>Dataset_Writer\<close> (\<open>dataset_writer.go\<close>), \<open>Dataset_Files\<close> (\<open>dataset.go\<close>, a directory
    as a list of names with contents and an environment that makes downloads fail), \<open>Dataset_Diff\<close> (the merge loop, proved
    once in the locales \<open>row_source\<close> and \<open>diff_source\<close>) and \<open>Dataset_Kinds\<close>, which interprets them on the
    TSV, simple TSV, JSON and XML readers.
  \<^item> Stremio values. \<open>Watched_Bitfield\<close> (\<open>stremio/watched_bitfield\<close>; locale \<open>bit_array\<close>),
    \<open>Stream_Sort\<close> (\<open>internal/stremio/transformer\<close>), \<open>Store_Ids\<close> (\<open>store/store.go\<close>,
    \<open>internal/stremio/store/id.go\<close>), \<open>Torrent_Stream\<close> (\<open>internal/torrent_stream\<close>: ids and the
    marks of when a title was pulled or pushed, as a step relation over a cache).
  \<^item> Workers. \<open>Worker_Queue\<close> (\<open>internal/worker/worker_queue\<close>), \<open>Advisory_Lock\<close>
    (\<open>internal/db/advisory_lock.go\<close>: both variants, and any interleaving of the calls of several locks), \<open>Job_Log\<close>
    (\<open>internal/job_log\<close>, the tracker of \<open>worker/common.go\<close>), \<open>Worker_Task\<close> (the closures of
    \<open>NewWorker\<close>: a run takes one step for each change of the shared variables and each call, from \<open>enter\<close>,
    \<open>take_lock\<close> and \<open>log_started\<close> to \<open>log_done\<close> and \<open>end_run\<close>, which interleave with the steps of the other
    run of the worker and of its heartbeats) and \<open>Worker_Schedule\<close> (\<open>InitWorkers\<close>: which workers exist, what each waits for).
  \<^item> Requests. \<open>Config\<close> (\<open>config.go\<close>, \<open>stremio.go\<close>, \<open>integration.go\<close>: every setting
    and its parser), \<open>Tunnel\<close> (\<open>http.go\<close>), \<open>Auth\<close> (the middlewares), \<open>KV\<close> (\<open>internal/kv\<close>),
    \<open>Proxy_Link\<close> (tokens of links and their cache) and \<open>Proxy_Connections\<close> (the limit on connections as a step relation).
  \<^item> Torrents. \<open>DB_Types\<close> (\<open>internal/db\<close>: the column types, the rewriting of queries, the full text query and the
    retries), \<open>Torrent_Files\<close> (\<open>internal/torrent_stream/db.go\<close>), \<open>Torrent_Info\<close> (parsing, merging and
    storing what the sources report, \<open>internal/torrent_info/db.go\<close>, and the parser worker), \<open>Torrent_Lookup\<close>
    (its queries by stream id and hash) and \<open>Magnet_Cache\<close> (\<open>internal/magnet_cache\<close>, \<open>buddy\<close>,
    \<open>peer\<close>: the check that asks the table before Buddy or a peer).
  \<^item> Torznab. \<open>Torznab\<close> (\<open>internal/torznab\<close>: categories, the queries of server and client, the search
    over the torrents, addresses and the table of indexers) and \<open>Torznab_Sync\<close> (the worker that searches the indexers for
    what was queued).
  \<^item> Anime. \<open>AniDB_Maps\<close> and \<open>AniDB_Titles\<close> (\<open>internal/anidb\<close>), \<open>Anime_Lists\<close>
    (\<open>internal/animelists\<close>) and \<open>Torrent_Mapper\<close> (which entries a torrent holds,
    \<open>map_anidb_torrent.go\<close>).
  \<^item> Accounts. \<open>Stremio_Sync\<close> and \<open>Trakt_Sync\<close> (the executors that keep the watched state of two accounts in
    step; the clients are environments that answer), and \<open>Userdata\<close> (\<open>internal/stremio/userdata\<close>: saved
    configurations with their cache as a step relation, the stores of a user and the check of magnets against them, the
    configuration of the torrent addon).

  Conventions. A struct is a \<open>record\<close> or a \<open>datatype\<close>, a method \<open>T.Op\<close> is a definition \<open>T_Op\<close> or
  \<open>Op\<close>, a Go map is an association list (or a partial function where order does not matter), a table is the list of
  its rows. A returned error is \<open>Inl\<close>, a panic or \<open>log.Fatal\<close> a value of its own. The clock is an argument;
  times are seconds or nanoseconds as in the code. Go's \<open>int\<close> is \<open>int\<close>, and \<open>wrap64\<close> is written out
  where a result can leave 64 bits. The case of letters and blanks are those of ASCII; a property of which this makes a difference
  for other input says so. Code outside the repository is a parameter: the cipher, zlib, \<open>url.Parse\<close>,
  \<open>net.ParseIP\<close>, golang-jwt, the tokenizers of CSV, JSON and XML, the lock functions of Postgres, the caches. What
  the properties need of a parameter is a named hypothesis of them, and their witnesses instantiate it.

  What the lemmas show. Each theory proves the behaviour of its operations on every branch, the invariants of its state
  (\<open>wf_queue\<close>, \<open>wf_jobs\<close>, \<open>conn_inv\<close>, \<open>pg_inv\<close>) and, where the component has a contract, that
  it meets it: a diff is the sub-list of new and changed rows, a sort is stable by the lexicographic order of the configured
  ranks, the configuration of the stores is what the settings list, tokens unwrap to what they were made of, no user exceeds
  the connection limit when requests do not interleave. Theorems of kind error state what the code does where it fails:
  overlapping runs and late heartbeats, requeued items, a truncated archive, forged or expired links, deleted user data that
  stays in a cache, unknown users.

  Termination. Loops over input are structural or have a measure (the rest of the input). Three loops are left to run as
  they do, as \<open>partial_function (option)\<close> whose \<open>None\<close> is a run that never ends: the merge loop of the
  datasets (\<open>run_loop\<close>), the parser worker (\<open>parser_loop\<close>) and the pages of the Trakt history
  (\<open>history_pages\<close>); that they end, or when they do not, is a theorem (\<open>run_loop_total\<close>,
  \<open>parser_loop_total\<close> and \<open>parser_loop_stuck\<close>, \<open>getAllTraktHistory_total\<close>). No fuel is used; the
  token streams that the tokenizer parameters yield are finite lists.

  Tables and SQL. A table is the list of its rows in the order of insertion, and a statement is a definition on that list with
  its conflict clause written out; the text of a statement is not modelled, and the driver fails only where a definition takes
  an argument that says so. \<open>LIKE\<close> and the differences between SQLite and Postgres are written out where the code depends
  on them.

  Not modelled: the HTTP clients of stores and metadata services and their cache tables, SQL migrations and connection
  handling, the pages and HTTP handlers of the addons, the web dashboard, logging and telemetry, the SDKs. They are I/O around
  third-party services; the parts of them with logic of their own are added component by component.
\<close>

end
